(* ===== verification/Prelude.thy ===== *)
theory Prelude
  imports Main "HOL-Library.Word" "HOL-Library.AList" "HOL-Library.Multiset"
    "HOL-Library.List_Lexorder" "HOL-Library.Char_ord" "HOL-Library.Signed_Division"
begin

text \<open>
  What every component shares: the machine types of the Go program, its error values and the
  control flow around them (an early return on error, a loop whose body may return early),
  and the generic lemmas on lists and words.
\<close>

section \<open>Machine types\<close>

text \<open>
  Unsigned integers keep their width. A Go \<open>string\<close> is a list of bytes, modelled as a
  \<^typ>\<open>string\<close> (a list of 8-bit characters); \<open>[]byte\<close> is a list of 8-bit words. A signed
  \<open>int64\<close> is an \<^typ>\<open>int\<close>, with \<open>wrap64\<close> where arithmetic on it may wrap around.
\<close>

type_synonym u8 = "8 word"
type_synonym u32 = "32 word"
type_synonym u64 = "64 word"
type_synonym bytes = "8 word list"

definition MaxUint64 :: u64 where
  "MaxUint64 = 0xFFFFFFFFFFFFFFFF"

definition MaxInt64 :: int where
  "MaxInt64 = 9223372036854775807"

definition MinInt64 :: int where
  "MinInt64 = - 9223372036854775808"

definition wrap64 :: "int \<Rightarrow> int" where
  "wrap64 x = (x + 9223372036854775808) mod 18446744073709551616 - 9223372036854775808"

definition in_int64 :: "int \<Rightarrow> bool" where
  "in_int64 x \<longleftrightarrow> MinInt64 \<le> x \<and> x \<le> MaxInt64"

section \<open>Errors and control flow\<close>

text \<open>
  An error value of the program. \<open>Errorf\<close> carries the constant part of the message of an
  \<open>fmt.Errorf\<close>; the sentinel errors the program compares against are constructors of their
  own; \<open>MempoolRejection\<close> is the wrapper type of the mempool; \<open>SqlConstraint\<close> is a failed
  primary key, unique or foreign key constraint of the database; \<open>GoPanic\<close> is a run-time panic;
  the last four are the errors of a cancelled context and the two error types of the peer protocol
  (a code and a message the peer sent; a response of the peer that breaks the protocol).
  Context added around an error on its way up (\<open>"block %d: %w"\<close>) is left out.
\<close>

datatype go_error =
    Errorf string
  | ErrGenesisDisconnect
  | ErrInsufficientWork
  | ErrStaleTip
  | ErrReorgBeyondPrune
  | ErrBlockNotFound
  | ErrBlockPruned
  | ErrTransactionAlreadyKnown
  | MempoolRejection go_error
  | SqlConstraint string
  | GoPanic string
  | ContextCanceled
  | DeadlineExceeded
  | RemoteReconcileError string string
  | InvalidReconcileResponse go_error

type_synonym 'a res = "go_error + 'a"

named_theorems res_simps "success of a composed operation, step by step"

text \<open>\<open>attempt r k\<close> is \<open>x, err := r; if err != nil { return err }; k(x)\<close>.\<close>

definition attempt :: "'a res \<Rightarrow> ('a \<Rightarrow> 'b res) \<Rightarrow> 'b res" where
  "attempt r k = (case r of Inl e \<Rightarrow> Inl e | Inr x \<Rightarrow> k x)"

lemma attempt_Inl [simp]: "attempt (Inl e) k = Inl e"
  and attempt_Inr [simp]: "attempt (Inr x) k = k x"
  by (simp_all add: attempt_def)

lemma attempt_eq_Inr [res_simps]: "attempt r k = Inr y \<longleftrightarrow> (\<exists>x. r = Inr x \<and> k x = Inr y)"
  by (cases r) simp_all

lemma attempt_eq_Inl: "attempt r k = Inl e \<longleftrightarrow> r = Inl e \<or> (\<exists>x. r = Inr x \<and> k x = Inl e)"
  by (cases r) auto

lemma guard_eq_Inr [res_simps]: "(if c then Inl e else r) = Inr y \<longleftrightarrow> \<not> c \<and> r = Inr y"
  by simp

lemma attempt_cong [fundef_cong]:
  "r = r' \<Longrightarrow> (\<And>x. r' = Inr x \<Longrightarrow> k x = k' x) \<Longrightarrow> attempt r k = attempt r' k'"
  by (cases r') auto

text \<open>\<open>foldE f s xs\<close> is \<open>for _, x := range xs { ... }\<close> over the state \<open>s\<close>, left at the first error.\<close>

fun foldE :: "('s \<Rightarrow> 'a \<Rightarrow> 's res) \<Rightarrow> 's \<Rightarrow> 'a list \<Rightarrow> 's res" where
  "foldE f s [] = Inr s"
| "foldE f s (x # xs) = attempt (f s x) (\<lambda>s'. foldE f s' xs)"

lemma foldE_append: "foldE f s (xs @ ys) = attempt (foldE f s xs) (\<lambda>s'. foldE f s' ys)"
proof (induction xs arbitrary: s)
  case (Cons x xs)
  then show ?case by (cases "f s x") simp_all
qed simp

lemma foldE_invariant:
  assumes "foldE f s xs = Inr t" and "P s"
    and "\<And>s x s'. P s \<Longrightarrow> x \<in> set xs \<Longrightarrow> f s x = Inr s' \<Longrightarrow> P s'"
  shows "P t"
  using assms
proof (induction xs arbitrary: s)
  case (Cons x xs)
  from Cons.prems(1) obtain s' where s': "f s x = Inr s'" "foldE f s' xs = Inr t"
    by (auto simp: res_simps)
  have "P s'" by (rule Cons.prems(3) [OF Cons.prems(2) _ s'(1)]) simp
  with s'(2) show ?case by (rule Cons.IH) (rule Cons.prems(3), auto)
qed simp

lemma foldE_cong [fundef_cong]:
  "s = s' \<Longrightarrow> xs = xs' \<Longrightarrow> (\<And>t x. x \<in> set xs' \<Longrightarrow> f t x = g t x) \<Longrightarrow> foldE f s xs = foldE g s' xs'"
proof (induction xs arbitrary: s s' xs')
  case (Cons x xs)
  then have "foldE f t xs = foldE g t xs" for t by auto
  with Cons.prems show ?case by (auto intro: attempt_cong)
qed simp

text \<open>A loop that does not change state: the first error of the elements, in order.\<close>

definition checkAll :: "('a \<Rightarrow> unit res) \<Rightarrow> 'a list \<Rightarrow> unit res" where
  "checkAll f xs = foldE (\<lambda>_ x. f x) () xs"

lemma checkAll_Nil [simp]: "checkAll f [] = Inr ()"
  and checkAll_Cons [simp]: "checkAll f (x # xs) = attempt (f x) (\<lambda>_. checkAll f xs)"
  by (simp_all add: checkAll_def)

lemma checkAll_ok [res_simps]: "checkAll f xs = Inr u \<longleftrightarrow> (\<forall>x \<in> set xs. f x = Inr ())"
  by (induction xs) (auto simp: res_simps)

text \<open>\<open>xs[i]\<close> with the bounds check of Go.\<close>

definition go_index :: "'a list \<Rightarrow> int \<Rightarrow> 'a res" where
  "go_index xs i =
     (if 0 \<le> i \<and> i < int (length xs) then Inr (xs ! nat i)
      else Inl (GoPanic ''index out of range''))"

lemma go_index_nat [simp]: "i < length xs \<Longrightarrow> go_index xs (int i) = Inr (xs ! i)"
  by (simp add: go_index_def)

lemma go_index_last: "xs \<noteq> [] \<Longrightarrow> go_index xs (int (length xs) - 1) = Inr (last xs)"
  by (cases "length xs") (auto simp: go_index_def last_conv_nth)

lemma go_index_eq_Inr:
  "go_index xs i = Inr x \<longleftrightarrow> 0 \<le> i \<and> i < int (length xs) \<and> x = xs ! nat i"
  by (auto simp: go_index_def)

lemma enumerate_element: "(i, x) \<in> set (List.enumerate n xs) \<Longrightarrow> x \<in> set xs"
  by (induction xs arbitrary: n) auto

lemma element_enumerate: "x \<in> set xs \<Longrightarrow> \<exists>i. (i, x) \<in> set (List.enumerate n xs)"
  by (induction xs arbitrary: n) auto

section \<open>Words\<close>

lemma unat_less_64: "unat (x :: u64) < 18446744073709551616"
  using unsigned_less [of x] by simp

lemma unat_le_64: "unat (x :: u64) \<le> 18446744073709551615"
  using unat_less_64 [of x] by linarith

lemma unat_MaxUint64 [simp]: "unat MaxUint64 = 18446744073709551615"
  by (simp add: MaxUint64_def)

lemma unat_plus_no_overflow:
  "unat (a :: u64) + unat b < 18446744073709551616 \<Longrightarrow> unat (a + b) = unat a + unat b"
  by (simp add: unat_word_ariths)

lemma unat_minus_no_underflow: "b \<le> a \<Longrightarrow> unat ((a :: u64) - b) = unat a - unat b"
  by (simp add: unat_sub)

lemma wrap64_id [simp]: "in_int64 x \<Longrightarrow> wrap64 x = x"
  by (simp add: wrap64_def in_int64_def MinInt64_def MaxInt64_def)

lemma in_int64_wrap64 [simp]: "in_int64 (wrap64 x)"
  by (simp add: wrap64_def in_int64_def MinInt64_def MaxInt64_def)

section \<open>Bytes and strings\<close>

definition string_bytes :: "string \<Rightarrow> bytes" where
  "string_bytes s = map of_char s"

lemma length_string_bytes [simp]: "length (string_bytes s) = length s"
  by (simp add: string_bytes_def)

end
