(* ===== verification/Go_Std.thy ===== *)
theory Go_Std
  imports Prelude
begin

text \<open>
  The functions of Go's standard library that the program calls on bytes and strings:
  big-endian integers (\<open>encoding/binary\<close>, \<open>math/big\<close>), \<open>encoding/hex\<close>, \<open>strconv\<close>,
  \<open>strings.TrimSpace\<close>, \<open>strings.Split\<close>, \<open>strings.EqualFold\<close>, and \<open>encoding/asn1\<close> on the
  two-integer structure of an ECDSA signature.
\<close>

section \<open>Big-endian integers\<close>

fun be_bytes :: "nat \<Rightarrow> nat \<Rightarrow> bytes" where
  "be_bytes 0 v = []"
| "be_bytes (Suc n) v = be_bytes n (v div 256) @ [word_of_nat v]"

definition be_nat :: "bytes \<Rightarrow> nat" where
  "be_nat bs = foldl (\<lambda>acc b. acc * 256 + unat b) 0 bs"

text \<open>\<open>big.Int.Bytes\<close>: no leading zero byte.\<close>

fun be_min :: "nat \<Rightarrow> bytes" where
  "be_min n = (if n = 0 then [] else be_min (n div 256) @ [word_of_nat n])"

declare be_min.simps [simp del]

lemma be_min_0 [simp]: "be_min 0 = []"
  by (simp add: be_min.simps)

lemma length_be_bytes [simp]: "length (be_bytes n v) = n"
  by (induction n arbitrary: v) simp_all

lemma be_nat_Nil [simp]: "be_nat [] = 0"
  and be_nat_snoc [simp]: "be_nat (bs @ [b]) = be_nat bs * 256 + unat b"
  by (simp_all add: be_nat_def)

lemma unat_byte_of_nat [simp]: "unat (word_of_nat v :: u8) = v mod 256"
  by (simp add: unat_of_nat)

lemma be_nat_be_bytes: "be_nat (be_bytes n v) = v mod 256 ^ n"
proof (induction n arbitrary: v)
  case (Suc n)
  have "v div 256 mod 256 ^ n * 256 + v mod 256 = v mod (256 * 256 ^ n)"
    by (metis mod_mult2_eq add.commute mult.commute)
  with Suc show ?case by simp
qed simp

lemma be_nat_be_min [simp]: "be_nat (be_min n) = n"
proof (induction n rule: be_min.induct)
  case (1 n)
  then show ?case by (cases "n = 0") (auto simp: be_min.simps [of n])
qed

lemma be_nat_bound: "be_nat bs < 256 ^ length bs"
proof (induction bs rule: rev_induct)
  case (snoc b bs)
  have "unat b < 256" using unsigned_less [of b] by simp
  with snoc show ?case by simp
qed simp

lemma be_bytes_be_nat: "be_bytes (length bs) (be_nat bs) = bs"
proof (induction bs rule: rev_induct)
  case (snoc b bs)
  have "unat b < 256" using unsigned_less [of b] by simp
  then have "(be_nat bs * 256 + unat b) div 256 = be_nat bs" by simp
  moreover have "word_of_nat (be_nat bs * 256 + unat b) = b"
    using \<open>unat b < 256\<close> by (simp only: word_unat_eq_iff unat_byte_of_nat) simp
  ultimately show ?case using snoc by simp
qed simp

lemma be_bytes_inj: "be_bytes n v = be_bytes n w \<Longrightarrow> v < 256 ^ n \<Longrightarrow> w < 256 ^ n \<Longrightarrow> v = w"
  by (metis be_nat_be_bytes mod_less)

lemma length_be_min: "n < 256 ^ k \<Longrightarrow> length (be_min n) \<le> k"
proof (induction n arbitrary: k rule: be_min.induct)
  case (1 n)
  show ?case
  proof (cases "n = 0")
    case False
    with 1 obtain k' where k: "k = Suc k'" by (cases k) auto
    with 1 False have "length (be_min (n div 256)) \<le> k'"
      by (intro "1.IH") (auto simp: less_mult_imp_div_less mult.commute)
    with k False show ?thesis by (simp add: be_min.simps [of n])
  qed simp
qed

section \<open>Hexadecimal\<close>

definition hex_char :: "nat \<Rightarrow> char" where
  "hex_char n = char_of (if n < 10 then 48 + n else 87 + n)"

definition hex_val :: "char \<Rightarrow> nat option" where
  "hex_val c = (let n = of_char c :: nat in
     if 48 \<le> n \<and> n \<le> 57 then Some (n - 48)
     else if 97 \<le> n \<and> n \<le> 102 then Some (n - 87)
     else if 65 \<le> n \<and> n \<le> 70 then Some (n - 55)
     else None)"

fun hex_encode :: "bytes \<Rightarrow> string" where
  "hex_encode [] = []"
| "hex_encode (b # bs) = hex_char (unat b div 16) # hex_char (unat b mod 16) # hex_encode bs"

fun hex_decode :: "string \<Rightarrow> bytes res" where
  "hex_decode [] = Inr []"
| "hex_decode [c] = Inl (Errorf ''encoding/hex: odd length hex string'')"
| "hex_decode (c # d # s) =
     (case (hex_val c, hex_val d) of
        (Some h, Some l) \<Rightarrow> attempt (hex_decode s) (\<lambda>bs. Inr (word_of_nat (16 * h + l) # bs))
      | _ \<Rightarrow> Inl (Errorf ''encoding/hex: invalid byte''))"

lemma hex_val_hex_char [simp]: "n < 16 \<Longrightarrow> hex_val (hex_char n) = Some n"
  by (auto simp: hex_val_def hex_char_def of_char_of Let_def)

lemma length_hex_encode [simp]: "length (hex_encode bs) = 2 * length bs"
  by (induction bs) simp_all

lemma hex_decode_encode [simp]: "hex_decode (hex_encode bs) = Inr bs"
proof (induction bs)
  case (Cons b bs)
  have "unat b < 256" using unsigned_less [of b] by simp
  then have "unat b div 16 < 16" "unat b mod 16 < 16" by simp_all
  with Cons show ?case by simp
qed simp

lemma hex_decode_length: "hex_decode s = Inr bs \<Longrightarrow> length s = 2 * length bs"
  by (induction s arbitrary: bs rule: hex_decode.induct)
    (auto simp: res_simps split: option.splits)

lemma hex_encode_inj: "hex_encode bs = hex_encode cs \<Longrightarrow> bs = cs"
  by (metis hex_decode_encode sum.inject(2))

text \<open>\<open>strings.EqualFold\<close> on ASCII text: the caller compares validated hexadecimal addresses.\<close>

definition to_lower :: "char \<Rightarrow> char" where
  "to_lower c = (let n = of_char c :: nat in if 65 \<le> n \<and> n \<le> 90 then char_of (n + 32) else c)"

definition EqualFold :: "string \<Rightarrow> string \<Rightarrow> bool" where
  "EqualFold s t \<longleftrightarrow> map to_lower s = map to_lower t"

lemma EqualFold_refl [simp]: "EqualFold s s"
  and EqualFold_sym: "EqualFold s t \<Longrightarrow> EqualFold t s"
  and EqualFold_trans: "EqualFold s t \<Longrightarrow> EqualFold t u \<Longrightarrow> EqualFold s u"
  by (simp_all add: EqualFold_def)

text \<open>Lower-casing a hexadecimal string gives the encoding of the bytes it stands for.\<close>

lemma to_lower_hex:
  assumes "hex_val c = Some v"
  shows "to_lower c = hex_char v \<and> v < 16"
proof -
  define n :: nat where "n = of_char c"
  have c: "c = char_of n" by (simp add: n_def)
  have "48 \<le> n \<and> n \<le> 57 \<and> v = n - 48 \<or> 97 \<le> n \<and> n \<le> 102 \<and> v = n - 87 \<or>
      65 \<le> n \<and> n \<le> 70 \<and> v = n - 55"
    using assms by (auto simp: hex_val_def Let_def n_def split: if_splits)
  moreover have "(of_char c :: nat) = n" by (simp add: n_def)
  ultimately show ?thesis unfolding to_lower_def hex_char_def Let_def by (auto simp: c)
qed

lemma map_to_lower_hex: "hex_decode s = Inr bs \<Longrightarrow> map to_lower s = hex_encode bs"
proof (induction s arbitrary: bs rule: hex_decode.induct)
  case (3 c d s)
  then obtain h l cs where hl: "hex_val c = Some h" "hex_val d = Some l"
    and cs: "hex_decode s = Inr cs" "bs = word_of_nat (16 * h + l) # cs"
    by (auto simp: res_simps split: option.splits)
  then have "map to_lower s = hex_encode cs" using "3.IH" by auto
  moreover have "unat (word_of_nat (16 * h + l) :: u8) = 16 * h + l"
    using to_lower_hex [OF hl(1)] to_lower_hex [OF hl(2)] by (simp only: unat_byte_of_nat) simp
  ultimately show ?case
    using hl cs to_lower_hex [OF hl(1)] to_lower_hex [OF hl(2)]
    by (simp del: of_nat_add of_nat_mult)
qed simp_all

lemma EqualFold_hex:
  "hex_decode s = Inr bs \<Longrightarrow> hex_decode t = Inr cs \<Longrightarrow> EqualFold s t \<longleftrightarrow> bs = cs"
  using hex_encode_inj by (auto simp: EqualFold_def map_to_lower_hex)

section \<open>Decimal\<close>

definition is_digit :: "char \<Rightarrow> bool" where
  "is_digit c \<longleftrightarrow> 48 \<le> (of_char c :: nat) \<and> (of_char c :: nat) \<le> 57"

definition digit_val :: "char \<Rightarrow> nat" where
  "digit_val c = of_char c - 48"

definition dec_value :: "string \<Rightarrow> nat" where
  "dec_value s = foldl (\<lambda>acc c. 10 * acc + digit_val c) 0 s"

definition digit_char :: "nat \<Rightarrow> char" where
  "digit_char n = char_of (48 + n)"

text \<open>\<open>strconv.FormatUint(n, 10)\<close>.\<close>

fun FormatUint :: "nat \<Rightarrow> string" where
  "FormatUint n = (if n < 10 then [digit_char n] else FormatUint (n div 10) @ [digit_char (n mod 10)])"

declare FormatUint.simps [simp del]

text \<open>\<open>strconv.ParseUint(s, 10, 64)\<close>: digits only, and in range.\<close>

definition ParseUint :: "string \<Rightarrow> u64 res" where
  "ParseUint s =
     (if s = [] \<or> \<not> list_all is_digit s then Inl (Errorf ''invalid syntax'')
      else if dec_value s \<ge> 18446744073709551616 then Inl (Errorf ''value out of range'')
      else Inr (word_of_nat (dec_value s)))"

text \<open>The verb \<open>%08d\<close>: zero padded on the left to eight digits.\<close>

definition pad8 :: "nat \<Rightarrow> string" where
  "pad8 n = (let s = FormatUint n in replicate (8 - length s) CHR ''0'' @ s)"

lemma digit_char_props [simp]:
  "n < 10 \<Longrightarrow> is_digit (digit_char n)" "n < 10 \<Longrightarrow> digit_val (digit_char n) = n"
  by (simp_all add: is_digit_def digit_val_def digit_char_def of_char_of)

lemma dec_value_Nil [simp]: "dec_value [] = 0"
  and dec_value_snoc [simp]: "dec_value (s @ [c]) = 10 * dec_value s + digit_val c"
  by (simp_all add: dec_value_def)

lemma dec_value_append: "dec_value (s @ t) = dec_value s * 10 ^ length t + dec_value t"
  by (induction t rule: rev_induct) (simp_all flip: append_assoc add: algebra_simps)

lemma dec_value_zeros [simp]: "dec_value (replicate n (CHR ''0'')) = 0"
  by (induction n) (simp_all add: replicate_append_same [symmetric] digit_val_def)

lemma dec_value_FormatUint [simp]: "dec_value (FormatUint n) = n"
proof (induction n rule: FormatUint.induct)
  case (1 n)
  then show ?case
    by (cases "n < 10") (simp_all add: FormatUint.simps [of n] dec_value_def)
qed

lemma digits_FormatUint [simp]: "list_all is_digit (FormatUint n)"
proof (induction n rule: FormatUint.induct)
  case (1 n)
  then show ?case by (cases "n < 10") (simp_all add: FormatUint.simps [of n])
qed

lemma digits_zeros [simp]: "list_all is_digit (replicate n (CHR ''0''))"
  by (induction n) (simp_all add: is_digit_def)

lemma digits_pad8 [simp]: "list_all is_digit (pad8 n)"
  by (simp add: pad8_def Let_def)

lemma dec_value_pad8 [simp]: "dec_value (pad8 n) = n"
  by (simp add: pad8_def Let_def dec_value_append)

lemma FormatUint_not_Nil [simp]: "FormatUint n \<noteq> []"
  by (subst FormatUint.simps) simp

lemma length_FormatUint: "n < 10 ^ k \<Longrightarrow> 0 < k \<Longrightarrow> length (FormatUint n) \<le> k"
proof (induction n arbitrary: k rule: FormatUint.induct)
  case (1 n)
  show ?case
  proof (cases "n < 10")
    case True
    with 1 show ?thesis by (simp add: FormatUint.simps [of n])
  next
    case False
    with 1 obtain k' where k: "k = Suc k'" "0 < k'"
      by (cases k; cases "k - 1") auto
    with 1 False have "length (FormatUint (n div 10)) \<le> k'"
      by (intro "1.IH") (auto simp: less_mult_imp_div_less mult.commute)
    with k False show ?thesis by (simp add: FormatUint.simps [of n])
  qed
qed

lemma ParseUint_FormatUint:
  "n < 18446744073709551616 \<Longrightarrow> ParseUint (FormatUint n) = Inr (word_of_nat n)"
  by (simp add: ParseUint_def)

lemma dec_value_bound: "list_all is_digit s \<Longrightarrow> dec_value s < 10 ^ length s"
proof (induction s rule: rev_induct)
  case (snoc c s)
  then have "digit_val c \<le> 9" by (auto simp: is_digit_def digit_val_def)
  with snoc show ?case by simp
qed simp

section \<open>Strings\<close>

text \<open>\<open>strings.Split\<close> on a one-character separator.\<close>

fun split_char :: "char \<Rightarrow> string \<Rightarrow> string list" where
  "split_char c [] = [[]]"
| "split_char c (x # xs) =
     (if x = c then [] # split_char c xs
      else (case split_char c xs of [] \<Rightarrow> [[x]] | p # ps \<Rightarrow> (x # p) # ps))"

lemma split_char_not_Nil [simp]: "split_char c s \<noteq> []"
  by (induction s) (auto split: list.splits)

lemma split_char_none: "c \<notin> set s \<Longrightarrow> split_char c s = [s]"
  by (induction s) auto

lemma split_char_one: "c \<notin> set s \<Longrightarrow> split_char c (s @ c # t) = s # split_char c t"
  by (induction s) auto

text \<open>
  \<open>strings.TrimSpace\<close>: the encodings in UTF-8 of the characters with the white space property,
  removed from both ends.
\<close>

definition white_space :: "string list" where
  "white_space = map (map char_of)
     ([[9], [10], [11], [12], [13], [32], [0xC2, 0x85], [0xC2, 0xA0], [0xE1, 0x9A, 0x80],
       [0xE2, 0x80, 0xA8], [0xE2, 0x80, 0xA9], [0xE2, 0x80, 0xAF], [0xE2, 0x81, 0x9F],
       [0xE3, 0x80, 0x80]] @ map (\<lambda>n. [0xE2, 0x80, 0x80 + n]) [0..<11] :: nat list list)"

definition starts_with :: "string \<Rightarrow> string \<Rightarrow> bool" where
  "starts_with s p \<longleftrightarrow> take (length p) s = p"

fun strip_front :: "nat \<Rightarrow> string list \<Rightarrow> string \<Rightarrow> string" where
  "strip_front 0 ps s = s"
| "strip_front (Suc k) ps s =
     (case List.find (starts_with s) ps of
        None \<Rightarrow> s
      | Some p \<Rightarrow> strip_front k ps (drop (length p) s))"

definition TrimSpace :: "string \<Rightarrow> string" where
  "TrimSpace s =
     (let t = strip_front (length s) white_space s
      in rev (strip_front (length t) (map rev white_space) (rev t)))"

text \<open>Text without white space at its ends is left alone.\<close>

lemma strip_front_id: "\<forall>p \<in> set ps. \<not> starts_with s p \<Longrightarrow> strip_front k ps s = s"
  by (cases k) (auto simp: find_Some_iff split: option.splits)

lemma white_space_heads:
  "p \<in> set white_space \<Longrightarrow> \<exists>c r. p = c # r \<and> (of_char c :: nat) \<in> {9, 10, 11, 12, 13, 32, 0xC2, 0xE1, 0xE2, 0xE3}"
  by (auto simp: white_space_def of_char_of)

lemma white_space_lasts:
  "p \<in> set white_space \<Longrightarrow> p \<noteq> [] \<and>
     ((of_char (last p) :: nat) \<in> {9, 10, 11, 12, 13, 32} \<or> (of_char (last p) :: nat) \<ge> 0x80)"
  by (auto simp: white_space_def of_char_of)

lemma TrimSpace_id:
  assumes "s = [] \<or> (of_char (hd s) :: nat) \<in> {33..<128} \<and> (of_char (last s) :: nat) \<in> {33..<128}"
  shows "TrimSpace s = s"
proof (cases "s = []")
  case False
  have "\<not> starts_with s p" if "p \<in> set white_space" for p
    using white_space_heads [OF that] assms False
    by (cases s) (auto simp: starts_with_def)
  moreover have "\<not> starts_with (rev s) p" if p: "p \<in> set (map rev white_space)" for p
  proof -
    obtain q where "q \<in> set white_space" "p = rev q" using p by auto
    with white_space_lasts [of q] assms False show ?thesis
      by (cases s rule: rev_cases; cases q rule: rev_cases) (auto simp: starts_with_def)
  qed
  ultimately show ?thesis by (simp add: TrimSpace_def strip_front_id)
qed (simp add: TrimSpace_def Let_def)

end
