(* ===== verification/Crypto.thy ===== *)
theory Crypto
  imports Go_Std
begin

text \<open>
  The cryptographic primitives of Go's standard library: \<open>crypto/sha256\<close>, \<open>crypto/elliptic\<close>
  and \<open>crypto/ecdsa\<close> on the curve P-256, and \<open>encoding/asn1\<close> on an ECDSA signature.

  The program's definitions take the primitives as an argument of type \<open>crypto\<close>, so that their
  properties hold for every hash function and signature check; \<open>go_crypto\<close> is the instance
  the program runs with, SHA-256 and P-256 written out. What the properties need of the hash
  function is the locale \<open>digest32\<close>, interpreted here on SHA-256.
\<close>

section \<open>The primitives as an argument\<close>

record crypto =
  Sum256 :: "bytes \<Rightarrow> bytes"
  UnmarshalPoint :: "bytes \<Rightarrow> (int \<times> int) option"
  ScalarBaseMult :: "bytes \<Rightarrow> int \<times> int"
  VerifySig :: "int \<times> int \<Rightarrow> bytes \<Rightarrow> int \<Rightarrow> int \<Rightarrow> bool"

locale digest32 =
  fixes H :: "bytes \<Rightarrow> bytes"
  assumes length_digest: "length (H x) = 32"
begin

lemma hex_digest_length: "length (hex_encode (H x)) = 64"
  by (simp add: length_digest)

lemma hex_digest_decodes: "hex_decode (hex_encode (H x)) = Inr (H x)"
  by simp

lemma digest_not_Nil: "H x \<noteq> []"
  using length_digest [of x] by auto

lemma digest_prefix_length: "n \<le> 32 \<Longrightarrow> length (take n (H x)) = n"
  by (simp add: length_digest)

end

section \<open>SHA-256\<close>

definition sha_K :: "u32 list" where
  "sha_K =
    [1116352408, 1899447441, 3049323471, 3921009573, 961987163, 1508970993, 2453635748, 2870763221,
     3624381080, 310598401, 607225278, 1426881987, 1925078388, 2162078206, 2614888103, 3248222580,
     3835390401, 4022224774, 264347078, 604807628, 770255983, 1249150122, 1555081692, 1996064986,
     2554220882, 2821834349, 2952996808, 3210313671, 3336571891, 3584528711, 113926993, 338241895,
     666307205, 773529912, 1294757372, 1396182291, 1695183700, 1986661051, 2177026350, 2456956037,
     2730485921, 2820302411, 3259730800, 3345764771, 3516065817, 3600352804, 4094571909, 275423344,
     430227734, 506948616, 659060556, 883997877, 958139571, 1322822218, 1537002063, 1747873779,
     1955562222, 2024104815, 2227730452, 2361852424, 2428436474, 2756734187, 3204031479, 3329325298]"

definition sha_init :: "u32 list" where
  "sha_init = [1779033703, 3144134277, 1013904242, 2773480762, 1359893119, 2600822924, 528734635, 1541459225]"

unbundle bit_operations_syntax

definition rotr :: "nat \<Rightarrow> u32 \<Rightarrow> u32" where
  "rotr n x = drop_bit n x OR push_bit (32 - n) x"

fun sha_words :: "bytes \<Rightarrow> u32 list" where
  "sha_words (a # b # c # d # bs) = word_of_nat (be_nat [a, b, c, d]) # sha_words bs"
| "sha_words _ = []"

text \<open>The message schedule, newest word first.\<close>

fun sha_extend :: "nat \<Rightarrow> u32 list \<Rightarrow> u32 list" where
  "sha_extend 0 w = w"
| "sha_extend (Suc n) w =
     (let a = w ! 14; b = w ! 1;
          s0 = rotr 7 a XOR rotr 18 a XOR drop_bit 3 a;
          s1 = rotr 17 b XOR rotr 19 b XOR drop_bit 10 b
      in sha_extend n ((w ! 15 + s0 + w ! 6 + s1) # w))"

fun sha_round :: "u32 list \<Rightarrow> u32 \<times> u32 \<Rightarrow> u32 list" where
  "sha_round [a, b, c, d, e, f, g, h] (k, w) =
     (let s1 = rotr 6 e XOR rotr 11 e XOR rotr 25 e;
          ch = (e AND f) XOR (NOT e AND g);
          t1 = h + s1 + ch + k + w;
          s0 = rotr 2 a XOR rotr 13 a XOR rotr 22 a;
          maj = (a AND b) XOR (a AND c) XOR (b AND c);
          t2 = s0 + maj
      in [t1 + t2, a, b, c, d + t1, e, f, g])"
| "sha_round st _ = st"

definition sha_block :: "u32 list \<Rightarrow> bytes \<Rightarrow> u32 list" where
  "sha_block st blk =
     map2 (+) st (foldl sha_round st (zip sha_K (rev (sha_extend 48 (rev (sha_words blk))))))"

fun sha_blocks :: "nat \<Rightarrow> u32 list \<Rightarrow> bytes \<Rightarrow> u32 list" where
  "sha_blocks 0 st bs = st"
| "sha_blocks (Suc n) st bs = sha_blocks n (sha_block st (take 64 bs)) (drop 64 bs)"

definition sha_pad :: "bytes \<Rightarrow> bytes" where
  "sha_pad m = m @ [0x80] @ replicate ((119 - length m mod 64) mod 64) 0 @ be_bytes 8 (8 * length m)"

definition sha256 :: "bytes \<Rightarrow> bytes" where
  "sha256 m = (let p = sha_pad m in
     concat (map (\<lambda>w. be_bytes 4 (unat w)) (sha_blocks (length p div 64) sha_init p)))"

lemma length_sha_round: "length st = 8 \<Longrightarrow> length (sha_round st kw) = 8"
  by (induction st kw rule: sha_round.induct) (simp_all add: Let_def)

lemma length_sha_rounds: "length st = 8 \<Longrightarrow> length (foldl sha_round st kws) = 8"
  by (induction kws arbitrary: st) (simp_all add: length_sha_round)

lemma length_sha_blocks: "length st = 8 \<Longrightarrow> length (sha_blocks n st bs) = 8"
  by (induction n st bs rule: sha_blocks.induct) (simp_all add: sha_block_def length_sha_rounds)

lemma length_concat_const: "\<forall>x \<in> set xs. length (f x) = n \<Longrightarrow> length (concat (map f xs)) = n * length xs"
  by (induction xs) simp_all

lemma length_sha256: "length (sha256 m) = 32"
  by (simp add: sha256_def Let_def length_concat_const [where n = 4] length_sha_blocks sha_init_def)

interpretation sha256: digest32 sha256
  by unfold_locales (rule length_sha256)

section \<open>The curve P-256\<close>

definition p256_p :: int where
  "p256_p = 0xffffffff00000001000000000000000000000000ffffffffffffffffffffffff"

definition p256_n :: int where
  "p256_n = 0xffffffff00000000ffffffffffffffffbce6faada7179e84f3b9cac2fc632551"

definition p256_b :: int where
  "p256_b = 0x5ac635d8aa3a93e7b3ebbd55769886bc651d06b0cc53b0f63bce3c3e27d2604b"

definition p256_G :: "int \<times> int" where
  "p256_G = (0x6b17d1f2e12c4247f8bce6e563a440f277037d812deb33a0f4a13945d898c296,
             0x4fe342e2fe1a7f9b8ee7eb4a7c0f9e162bce33576b315ececbb6406837bf51f5)"

fun pow_mod :: "int \<Rightarrow> nat \<Rightarrow> int \<Rightarrow> int" where
  "pow_mod b e m = (if e = 0 then 1 mod m
     else let h = pow_mod (b * b mod m) (e div 2) m in if even e then h else b * h mod m)"

declare pow_mod.simps [simp del]

definition inv_mod :: "int \<Rightarrow> int \<Rightarrow> int" where
  "inv_mod a m = pow_mod (a mod m) (nat (m - 2)) m"

text \<open>Points in affine coordinates; \<^const>\<open>None\<close> is the point at infinity.\<close>

fun p256_add :: "(int \<times> int) option \<Rightarrow> (int \<times> int) option \<Rightarrow> (int \<times> int) option" where
  "p256_add None q = q"
| "p256_add p None = p"
| "p256_add (Some (x1, y1)) (Some (x2, y2)) =
     (if x1 = x2 \<and> (y1 + y2) mod p256_p = 0 then None
      else let l = (if x1 = x2 then (3 * x1 * x1 - 3) * inv_mod (2 * y1) p256_p
                    else (y2 - y1) * inv_mod (x2 - x1) p256_p) mod p256_p;
               x3 = (l * l - x1 - x2) mod p256_p
           in Some (x3, (l * (x1 - x3) - y1) mod p256_p))"

fun p256_mult :: "nat \<Rightarrow> (int \<times> int) option \<Rightarrow> (int \<times> int) option" where
  "p256_mult k p = (if k = 0 then None
     else let q = p256_mult (k div 2) (p256_add p p) in if even k then q else p256_add p q)"

declare p256_mult.simps [simp del]

definition p256_unmarshal :: "bytes \<Rightarrow> (int \<times> int) option" where
  "p256_unmarshal bs =
     (let x = int (be_nat (take 32 (drop 1 bs))); y = int (be_nat (drop 33 bs)) in
      if length bs = 65 \<and> hd bs = 4 \<and> x < p256_p \<and> y < p256_p
         \<and> (y * y - (x * x * x - 3 * x + p256_b)) mod p256_p = 0
      then Some (x, y) else None)"

text \<open>\<open>elliptic.Marshal\<close>: the uncompressed form.\<close>

definition MarshalPoint :: "int \<times> int \<Rightarrow> bytes" where
  "MarshalPoint p = 4 # be_bytes 32 (nat (fst p)) @ be_bytes 32 (nat (snd p))"

lemma length_MarshalPoint [simp]: "length (MarshalPoint p) = 65"
  by (simp add: MarshalPoint_def)

definition p256_base_mult :: "bytes \<Rightarrow> int \<times> int" where
  "p256_base_mult bs = (case p256_mult (be_nat bs) (Some p256_G) of None \<Rightarrow> (0, 0) | Some p \<Rightarrow> p)"

text \<open>\<open>ecdsa.Verify\<close> with a 32-byte digest.\<close>

definition p256_verify :: "int \<times> int \<Rightarrow> bytes \<Rightarrow> int \<Rightarrow> int \<Rightarrow> bool" where
  "p256_verify q hash r s =
     (0 < r \<and> 0 < s \<and> r < p256_n \<and> s < p256_n \<and>
      (let e = int (be_nat (take 32 hash)) mod p256_n; w = inv_mod s p256_n in
       case p256_add (p256_mult (nat (e * w mod p256_n)) (Some p256_G))
                     (p256_mult (nat (r * w mod p256_n)) (Some q)) of
         None \<Rightarrow> False | Some (x, _) \<Rightarrow> x mod p256_n = r))"

definition go_crypto :: crypto where
  "go_crypto = \<lparr>Sum256 = sha256, UnmarshalPoint = p256_unmarshal,
                ScalarBaseMult = p256_base_mult, VerifySig = p256_verify\<rparr>"

lemma digest32_go_crypto: "digest32 (Sum256 go_crypto)"
  by (simp add: go_crypto_def sha256.digest32_axioms)

text \<open>\<open>new(big.Int).Rsh(N, 1)\<close>: the largest \<open>s\<close> of a low-S signature.\<close>

definition halfOrder :: int where
  "halfOrder = p256_n div 2"

section \<open>DER encoding of a signature\<close>

text \<open>
  \<open>asn1.Unmarshal\<close> into a structure of two integers: an identifier byte, a definite length in
  its shortest form, the contents. As in Go's decoder, bytes that follow the second integer
  inside the sequence are ignored; what follows the sequence is returned.
\<close>

fun der_long_length :: "nat \<Rightarrow> nat \<Rightarrow> bytes \<Rightarrow> (nat \<times> bytes) option" where
  "der_long_length 0 acc bs = (if acc < 128 then None else Some (acc, bs))"
| "der_long_length (Suc n) acc [] = None"
| "der_long_length (Suc n) acc (b # bs) =
     (if acc \<ge> 8388608 \<or> acc * 256 + unat b = 0 then None
      else der_long_length n (acc * 256 + unat b) bs)"

fun der_element :: "u8 \<Rightarrow> bytes \<Rightarrow> (bytes \<times> bytes) option" where
  "der_element tag (t # l # bs) =
     (if t \<noteq> tag then None
      else case (if unat l < 128 then Some (unat l, bs)
                 else if unat l = 128 then None
                 else der_long_length (unat l - 128) 0 bs) of
             None \<Rightarrow> None
           | Some (n, rest) \<Rightarrow> if n > length rest then None else Some (take n rest, drop n rest))"
| "der_element tag _ = None"

definition der_int :: "bytes \<Rightarrow> int option" where
  "der_int bs =
     (case bs of
        [] \<Rightarrow> None
      | [b] \<Rightarrow> Some (sint b)
      | b # c # _ \<Rightarrow>
          if (b = 0 \<and> unat c < 128) \<or> (b = 0xff \<and> 128 \<le> unat c) then None
          else Some (if unat b < 128 then int (be_nat bs) else int (be_nat bs) - 256 ^ length bs))"

definition asn1_unmarshal_sig :: "bytes \<Rightarrow> (int \<times> int \<times> bytes) option" where
  "asn1_unmarshal_sig bs =
     Option.bind (der_element 0x30 bs) (\<lambda>(inner, rest).
     Option.bind (der_element 2 inner) (\<lambda>(rb, inner').
     Option.bind (der_int rb) (\<lambda>r.
     Option.bind (der_element 2 inner') (\<lambda>(sb, _).
     Option.bind (der_int sb) (\<lambda>s. Some (r, s, rest))))))"

text \<open>\<open>asn1.Marshal\<close> of two non-negative integers.\<close>

definition der_encode_length :: "nat \<Rightarrow> bytes" where
  "der_encode_length n =
     (if n < 128 then [word_of_nat n]
      else word_of_nat (128 + length (be_min n)) # be_min n)"

definition der_encode_int :: "nat \<Rightarrow> bytes" where
  "der_encode_int n =
     (let bs = be_min n; c = (if bs = [] \<or> 128 \<le> unat (hd bs) then 0 # bs else bs)
      in 2 # der_encode_length (length c) @ c)"

definition asn1_marshal_sig :: "int \<Rightarrow> int \<Rightarrow> bytes" where
  "asn1_marshal_sig r s =
     (let c = der_encode_int (nat r) @ der_encode_int (nat s)
      in 0x30 # der_encode_length (length c) @ c)"

end
