(* ===== verification/Amount.thy ===== *)
theory Amount
  imports Go_Std
begin

text \<open>
  \<open>internal/core/amount.go\<close>: the emission schedule (\<open>Subsidy\<close>, \<open>MintedThrough\<close>), the text form
  of an amount (\<open>ParseAmount\<close>, \<open>FormatAmount\<close>) and the overflow-checked addition \<open>safeAdd\<close>.
\<close>

section \<open>Constants\<close>

definition UnitsPerENT :: u64 where "UnitsPerENT = 100000000"
definition MaxSupply :: u64 where "MaxSupply = 2000000 * UnitsPerENT"
definition TargetBlockSeconds :: int where "TargetBlockSeconds = 10"
definition EmissionYears :: u64 where "EmissionYears = 10"
definition EmissionBlocks :: u64 where
  "EmissionBlocks = EmissionYears * 365 * 24 * 60 * 60 div word_of_int TargetBlockSeconds"
definition BaseSubsidy :: u64 where "BaseSubsidy = MaxSupply div EmissionBlocks"
definition BonusSubsidyBlocks :: u64 where "BonusSubsidyBlocks = MaxSupply mod EmissionBlocks"

lemma EmissionBlocks_eq: "EmissionBlocks = 31536000"
  by (simp add: EmissionBlocks_def EmissionYears_def TargetBlockSeconds_def)

lemma unat_amount_consts [simp]:
  "unat UnitsPerENT = 100000000"
  "unat MaxSupply = 200000000000000"
  "unat EmissionBlocks = 31536000"
  "unat BaseSubsidy = 6341958"
  "unat BonusSubsidyBlocks = 12512000"
  by (simp_all add: UnitsPerENT_def MaxSupply_def EmissionBlocks_eq BaseSubsidy_def
      BonusSubsidyBlocks_def unat_div unat_mod)

section \<open>The emission schedule\<close>

definition Subsidy :: "u64 \<Rightarrow> u64" where
  "Subsidy height =
     (if height = 0 \<or> height > EmissionBlocks then 0
      else let reward = BaseSubsidy
           in if height \<le> BonusSubsidyBlocks then reward + 1 else reward)"

definition MintedThrough :: "u64 \<Rightarrow> u64" where
  "MintedThrough height =
     (let height = (if height > EmissionBlocks then EmissionBlocks else height);
          bonusBlocks = (if height > BonusSubsidyBlocks then BonusSubsidyBlocks else height)
      in height * BaseSubsidy + bonusBlocks)"

lemma unat_Subsidy:
  "unat (Subsidy h) =
     (if unat h = 0 \<or> unat h > 31536000 then 0 else if unat h \<le> 12512000 then 6341959 else 6341958)"
proof -
  have "unat (BaseSubsidy + 1) = 6341959"
    by (subst unat_plus_no_overflow) simp_all
  then show ?thesis
    by (auto simp: Subsidy_def Let_def word_less_nat_alt word_le_nat_alt unat_eq_0)
qed

lemma unat_MintedThrough:
  "unat (MintedThrough h) = min (unat h) 31536000 * 6341958 + min (unat h) 12512000"
proof -
  define a where "a = (if h > EmissionBlocks then EmissionBlocks else h)"
  define b where "b = (if a > BonusSubsidyBlocks then BonusSubsidyBlocks else a)"
  have a: "unat a = min (unat h) 31536000"
    by (auto simp: a_def word_less_nat_alt)
  have b: "unat b = min (unat h) 12512000"
    using a by (auto simp: b_def word_less_nat_alt)
  have m: "unat (a * BaseSubsidy) = unat a * 6341958"
    using a by (simp add: unat_word_ariths)
  have "unat (a * BaseSubsidy + b) = unat a * 6341958 + unat b"
    using a b m by (subst unat_plus_no_overflow) simp_all
  moreover have "MintedThrough h = a * BaseSubsidy + b"
    unfolding MintedThrough_def Let_def a_def b_def by (rule refl)
  ultimately show ?thesis using a b by simp
qed

section \<open>Overflow-checked addition\<close>

definition safeAdd :: "u64 \<Rightarrow> u64 \<Rightarrow> u64 res" where
  "safeAdd a b = (if MaxUint64 - a < b then Inl (Errorf ''amount overflows'') else Inr (a + b))"

lemma MaxUint64_minus: "unat (MaxUint64 - a) = 18446744073709551615 - unat a"
  by (subst unat_minus_no_underflow) (simp_all add: word_le_nat_alt unat_le_64)

lemma safeAdd_eq_Inr:
  "safeAdd a b = Inr c \<longleftrightarrow> unat a + unat b < 18446744073709551616 \<and> c = a + b"
proof -
  have "MaxUint64 - a < b \<longleftrightarrow> 18446744073709551616 \<le> unat a + unat b"
    using unat_less_64 [of a] by (simp add: word_less_nat_alt MaxUint64_minus) linarith
  then show ?thesis by (auto simp: safeAdd_def)
qed

lemma safeAdd_unat: "safeAdd a b = Inr c \<Longrightarrow> unat c = unat a + unat b"
  by (auto simp: safeAdd_eq_Inr unat_plus_no_overflow)

lemma safeAdd_ok: "unat a + unat b < 18446744073709551616 \<Longrightarrow> safeAdd a b = Inr (a + b)"
  by (simp add: safeAdd_eq_Inr)

lemma safeAdd_fails:
  "18446744073709551616 \<le> unat a + unat b \<Longrightarrow> safeAdd a b = Inl (Errorf ''amount overflows'')"
  using safeAdd_eq_Inr [of a b "a + b"] by (auto simp: safeAdd_def split: if_splits)

text \<open>The checked sum of a list, as the loops over outputs compute it.\<close>

lemma foldE_safeAdd_unat:
  "foldE (\<lambda>t x. safeAdd t (f x)) t xs = Inr s \<Longrightarrow> unat s = unat t + (\<Sum>x\<leftarrow>xs. unat (f x))"
proof (induction xs arbitrary: t)
  case (Cons x xs)
  then obtain t' where t': "safeAdd t (f x) = Inr t'" "foldE (\<lambda>t x. safeAdd t (f x)) t' xs = Inr s"
    by (auto simp: res_simps)
  from Cons.IH [OF t'(2)] safeAdd_unat [OF t'(1)] show ?case by simp
qed simp

lemma foldE_safeAdd_ok:
  "unat t + (\<Sum>x\<leftarrow>xs. unat (f x)) < 18446744073709551616 \<Longrightarrow>
     \<exists>s. foldE (\<lambda>t x. safeAdd t (f x)) t xs = Inr s"
proof (induction xs arbitrary: t)
  case (Cons x xs)
  then have "safeAdd t (f x) = Inr (t + f x)" by (intro safeAdd_ok) simp
  moreover from this Cons have "\<exists>s. foldE (\<lambda>t x. safeAdd t (f x)) (t + f x) xs = Inr s"
    by (intro Cons.IH) (simp add: safeAdd_unat)
  ultimately show ?case by simp
qed simp

section \<open>The text form of an amount\<close>

definition ParseAmount :: "string \<Rightarrow> u64 res" where
  "ParseAmount value =
     (let value = TrimSpace value in
      if value = [] \<or> starts_with value ''-'' \<or> starts_with value ''+''
      then Inl (Errorf ''invalid amount'')
      else let parts = split_char CHR ''.'' value in
      if length parts > 2 \<or> parts ! 0 = [] then Inl (Errorf ''invalid amount'')
      else case ParseUint (parts ! 0) of
        Inl _ \<Rightarrow> Inl (Errorf ''invalid amount'')
      | Inr whole \<Rightarrow>
        if whole > MaxUint64 div UnitsPerENT then Inl (Errorf ''invalid amount'')
        else if length parts = 2 \<and> (parts ! 1 = [] \<or> length (parts ! 1) > 8)
        then Inl (Errorf ''amount supports at most 8 decimal places'')
        else let fraction = (if length parts = 2 then parts ! 1 else []);
                 fraction = fraction @ replicate (8 - length fraction) CHR ''0''
        in case ParseUint fraction of
          Inl _ \<Rightarrow> Inl (Errorf ''invalid amount'')
        | Inr frac \<Rightarrow>
          let units = whole * UnitsPerENT + frac in
          if units < whole * UnitsPerENT then Inl (Errorf ''amount overflows'')
          else Inr units)"

definition FormatAmount :: "u64 \<Rightarrow> string" where
  "FormatAmount units =
     (let whole = units div UnitsPerENT; fraction = units mod UnitsPerENT in
      if fraction = 0 then FormatUint (unat whole)
      else FormatUint (unat whole) @ ''.'' @ pad8 (unat fraction))"

section \<open>Properties\<close>

lemma unat_word_of_nat_64: "n < 18446744073709551616 \<Longrightarrow> unat (word_of_nat n :: u64) = n"
  by (simp add: unat_of_nat)

lemma sum_Subsidy:
  "n < 18446744073709551616 \<Longrightarrow>
     (\<Sum>k = 1..n. unat (Subsidy (word_of_nat k))) = min n 31536000 * 6341958 + min n 12512000"
proof (induction n)
  case (Suc n)
  have "unat (Subsidy (word_of_nat (Suc n))) =
      (if Suc n \<le> 12512000 then 6341959 else if Suc n \<le> 31536000 then 6341958 else 0)"
    using Suc.prems unat_word_of_nat_64 [of "Suc n"]
    by (auto simp del: of_nat_Suc simp: unat_Subsidy unat_word_of_nat_64)
  then show ?case using Suc by (simp add: min_def del: of_nat_Suc)
qed simp

text \<open>
  C39. The rewards of the heights \<open>1..n\<close> add up to exactly what \<open>MintedThrough\<close> reports at height
  \<open>n\<close>, with no wrap-around in either computation, for every 64-bit height; the total never exceeds
  the maximum supply and reaches it exactly at the last height of the emission.
\<close>

theorem emission_schedule:
  fixes h :: u64
  shows "(\<Sum>k = 1..unat h. unat (Subsidy (word_of_nat k))) = unat (MintedThrough h) \<and>
     MintedThrough h \<le> MaxSupply \<and> (EmissionBlocks \<le> h \<longleftrightarrow> MintedThrough h = MaxSupply)"
proof (intro conjI)
  from sum_Subsidy [OF unat_less_64 [of h]]
  show "(\<Sum>k = 1..unat h. unat (Subsidy (word_of_nat k))) = unat (MintedThrough h)"
    by (simp add: unat_MintedThrough)
  show "MintedThrough h \<le> MaxSupply"
    by (simp add: word_le_nat_alt unat_MintedThrough min_def)
  show "EmissionBlocks \<le> h \<longleftrightarrow> MintedThrough h = MaxSupply"
    by (simp add: word_le_nat_alt word_unat_eq_iff unat_MintedThrough min_def)
qed

lemma word_less_plus_overflow:
  fixes a b :: u64
  shows "a + b < a \<longleftrightarrow> 18446744073709551616 \<le> unat a + unat b"
proof (cases "unat a + unat b < 18446744073709551616")
  case True
  then show ?thesis by (simp add: word_less_nat_alt unat_plus_no_overflow)
next
  case False
  then have "unat (a + b) = unat a + unat b - 18446744073709551616"
    using unat_less_64 [of a] unat_less_64 [of b]
    by (simp add: unat_word_ariths mod_if)
  with False show ?thesis
    using unat_less_64 [of b] by (simp add: word_less_nat_alt)
qed

lemma digit_range:
  "is_digit c \<Longrightarrow> (of_char c :: nat) \<in> {33..<128}" "is_digit c \<Longrightarrow> c \<noteq> CHR ''.''"
  "is_digit c \<Longrightarrow> c \<noteq> CHR ''-'' \<and> c \<noteq> CHR ''+''"
  by (auto simp: is_digit_def)

lemma digits_no_dot: "list_all is_digit w \<Longrightarrow> CHR ''.'' \<notin> set w"
  using digit_range(2) by (auto simp: list_all_iff)

lemma TrimSpace_amount:
  assumes "w \<noteq> []" "list_all is_digit w" "f = [] \<or> f \<noteq> [] \<and> list_all is_digit f"
  shows "TrimSpace (w @ (if f = [] then [] else ''.'' @ f)) = w @ (if f = [] then [] else ''.'' @ f)"
proof (rule TrimSpace_id, rule disjI2)
  have "is_digit (hd w)" "is_digit (last w)" "f \<noteq> [] \<Longrightarrow> is_digit (last f)"
    using assms by (auto simp: list_all_iff)
  then show "(of_char (hd (w @ (if f = [] then [] else ''.'' @ f))) :: nat) \<in> {33..<128} \<and>
      (of_char (last (w @ (if f = [] then [] else ''.'' @ f))) :: nat) \<in> {33..<128}"
    using assms(1) digit_range(1) by simp
qed

lemma no_sign: "w \<noteq> [] \<Longrightarrow> list_all is_digit w \<Longrightarrow>
    \<not> starts_with (w @ r) ''-'' \<and> \<not> starts_with (w @ r) ''+''"
  using digit_range(3) by (cases w) (auto simp: starts_with_def)

lemma ParseUint_digits:
  "w \<noteq> [] \<Longrightarrow> list_all is_digit w \<Longrightarrow> ParseUint w =
     (if dec_value w < 18446744073709551616 then Inr (word_of_nat (dec_value w))
      else Inl (Errorf ''value out of range''))"
  by (simp add: ParseUint_def)

lemma ParseAmount_digits:
  assumes "w \<noteq> []" and "list_all is_digit w" and "list_all is_digit f" and "length f \<le> 8"
  defines "v \<equiv> dec_value w * 100000000 + dec_value f * 10 ^ (8 - length f)"
  shows "if v < 18446744073709551616
         then ParseAmount (w @ (if f = [] then [] else ''.'' @ f)) = Inr (word_of_nat v)
         else \<exists>m. ParseAmount (w @ (if f = [] then [] else ''.'' @ f)) = Inl (Errorf m)"
proof -
  let ?s = "w @ (if f = [] then [] else ''.'' @ f)"
  let ?g = "f @ replicate (8 - length f) (CHR ''0'')"
  have parts: "split_char (CHR ''.'') ?s = (if f = [] then [w] else [w, f])"
    using assms digits_no_dot split_char_one [of "CHR ''.''" w f]
    by (auto simp: split_char_none)
  have g: "?g \<noteq> []" "list_all is_digit ?g" "dec_value ?g = dec_value f * 10 ^ (8 - length f)"
    using assms by (auto simp: list_all_iff is_digit_def dec_value_append)
  have frac: "dec_value ?g < 100000000"
    using dec_value_bound [OF g(2)] assms by simp
  have ParseG: "ParseUint ?g = Inr (word_of_nat (dec_value ?g))"
    using frac g by (subst ParseUint_digits) auto
  have eval: "ParseAmount ?s =
      (case ParseUint w of Inl _ \<Rightarrow> Inl (Errorf ''invalid amount'')
       | Inr whole \<Rightarrow>
           if whole > MaxUint64 div UnitsPerENT then Inl (Errorf ''invalid amount'')
           else if whole * UnitsPerENT + word_of_nat (dec_value ?g) < whole * UnitsPerENT
           then Inl (Errorf ''amount overflows'')
           else Inr (whole * UnitsPerENT + word_of_nat (dec_value ?g)))"
    using assms parts ParseG TrimSpace_amount [of w f] no_sign [of w]
    by (auto simp: ParseAmount_def Let_def split: sum.splits)
  show ?thesis
  proof (cases "dec_value w \<le> 184467440737")
    case True
    define whole :: u64 where "whole = word_of_nat (dec_value w)"
    have w: "unat whole = dec_value w" using True by (simp add: whole_def unat_word_of_nat_64)
    have m: "unat (whole * UnitsPerENT) = dec_value w * 100000000"
      using True w by (simp add: unat_word_ariths)
    have fr: "unat (word_of_nat (dec_value ?g) :: u64) = dec_value ?g"
      using frac by (intro unat_word_of_nat_64) simp
    have "\<not> whole > MaxUint64 div UnitsPerENT"
      using True w by (simp add: word_less_nat_alt unat_div)
    moreover have "ParseUint w = Inr whole"
      using True assms by (simp add: ParseUint_digits whole_def)
    moreover have "whole * UnitsPerENT + word_of_nat (dec_value ?g) = word_of_nat v"
      using g(3) by (simp add: whole_def v_def UnitsPerENT_def)
    moreover have "whole * UnitsPerENT + word_of_nat (dec_value ?g) < whole * UnitsPerENT
        \<longleftrightarrow> \<not> v < 18446744073709551616"
      using g(3) m fr by (simp add: word_less_plus_overflow v_def not_less)
    ultimately show ?thesis using eval by simp
  next
    case False
    then have big: "\<not> v < 18446744073709551616" by (simp add: v_def)
    moreover have "\<exists>m. ParseAmount ?s = Inl (Errorf m)"
    proof (cases "dec_value w < 18446744073709551616")
      case True
      with False have "(word_of_nat (dec_value w) :: u64) > MaxUint64 div UnitsPerENT"
        by (simp add: word_less_nat_alt unat_div unat_word_of_nat_64)
      with True eval assms show ?thesis by (simp add: ParseUint_digits)
    qed (use eval assms in \<open>simp add: ParseUint_digits\<close>)
    ultimately show ?thesis by simp
  qed
qed

text \<open>
  \<open>ParseAmount\<close> reads back every 64-bit amount that \<open>FormatAmount\<close> prints.
\<close>

theorem ParseAmount_FormatAmount: "ParseAmount (FormatAmount u) = Inr u"
proof -
  let ?w = "FormatUint (unat (u div UnitsPerENT))" and ?r = "unat (u mod UnitsPerENT)"
  have r: "?r < 100000000" "?r = unat u mod 100000000" by (simp_all add: unat_mod)
  have w: "dec_value ?w = unat u div 100000000" by (simp add: unat_div)
  show ?thesis
  proof (cases "u mod UnitsPerENT = 0")
    case True
    then have "unat u div 100000000 * 100000000 = unat u" using r(2) by auto
    then show ?thesis
      using True w ParseAmount_digits [of ?w "[]"] unat_less_64 [of u]
      by (simp add: FormatAmount_def)
  next
    case False
    have len: "length (FormatUint ?r) \<le> 8"
      using r(1) by (intro length_FormatUint) simp_all
    then have f: "length (pad8 ?r) = 8" by (simp add: pad8_def Let_def)
    then have "pad8 ?r \<noteq> []" by auto
    moreover have "dec_value ?w * 100000000 + ?r = unat u"
      using w r(2) by simp
    ultimately show ?thesis
      using False f ParseAmount_digits [of ?w "pad8 ?r"] unat_less_64 [of u]
      by (simp add: FormatAmount_def Let_def)
  qed
qed

text \<open>
  On a decimal numeral of digits \<open>w\<close>, or \<open>w.f\<close> with one to eight decimals \<open>f\<close>, \<open>ParseAmount\<close>
  returns exactly the number of atomic units it denotes when that number fits in 64 bits, and an
  error when it does not: no amount wraps around.
\<close>

theorem ParseAmount_decimal:
  assumes "w \<noteq> []" and "list_all is_digit w" and "list_all is_digit f" and "length f \<le> 8"
  defines "v \<equiv> dec_value w * 100000000 + dec_value f * 10 ^ (8 - length f)"
  shows "if v < 18446744073709551616
         then ParseAmount (w @ (if f = [] then [] else ''.'' @ f)) = Inr (word_of_nat v)
         else \<exists>m. ParseAmount (w @ (if f = [] then [] else ''.'' @ f)) = Inl (Errorf m)"
  using assms ParseAmount_digits by simp

theorem ParseAmount_decimal_witness:
  "ParseAmount ''12.5'' = Inr 1250000000"
  using ParseAmount_decimal [of "''12''" "''5''"]
  by (simp add: is_digit_def dec_value_def digit_val_def)

end
