(* ===== verification/Model.thy ===== *)
theory Model
  imports Crypto Amount
begin

text \<open>
  \<open>internal/core/model.go\<close>: the consensus constants, the data the node exchanges (transactions,
  blocks, the whole-chain state) and the height-gated rules; and \<open>internal/core/encoding.go\<close>: the
  deterministic binary encoder over which every hash is computed.
\<close>

section \<open>Constants\<close>

named_theorems consensus_consts "values of the consensus constants"

definition ChainName :: string where "ChainName = ''Entropy''"
definition ChainSymbol :: string where "ChainSymbol = ''ENT''"
definition NetworkID :: string where "NetworkID = ''entropy-mainnet-v1''"
definition StateVersion :: int where "StateVersion = 1"
definition LegacyBlockVersion :: u32 where [consensus_consts]: "LegacyBlockVersion = 1"
definition UpgradedBlockVersion :: u32 where [consensus_consts]: "UpgradedBlockVersion = 2"
definition ConsensusUpgradeHeight :: u64 where [consensus_consts]: "ConsensusUpgradeHeight = 125555"
definition ASERTAnchorHeight :: u64 where [consensus_consts]: "ASERTAnchorHeight = 123265"
definition ASERTAnchorTimestamp :: int where [consensus_consts]: "ASERTAnchorTimestamp = 1785201853"
definition ASERTAnchorDifficulty :: u8 where [consensus_consts]: "ASERTAnchorDifficulty = 35"
definition ASERTHalfLifeSeconds :: int where [consensus_consts]: "ASERTHalfLifeSeconds = 600"
definition InitialDifficulty :: u8 where [consensus_consts]: "InitialDifficulty = 22"
definition AdjustmentBlocks :: nat where [consensus_consts]: "AdjustmentBlocks = 60"
definition FirstAdjustment :: nat where [consensus_consts]: "FirstAdjustment = 120"
definition MinimumDifficulty :: int where [consensus_consts]: "MinimumDifficulty = 4"
definition MaximumDifficulty :: int where [consensus_consts]: "MaximumDifficulty = 255"
definition MedianTimeBlocks :: nat where [consensus_consts]: "MedianTimeBlocks = 11"
definition MaxFutureSeconds :: int where [consensus_consts]: "MaxFutureSeconds = 120"
definition MaxBlockBytes :: nat where [consensus_consts]: "MaxBlockBytes = 1048576"
definition MaxTransactionBytes :: nat where [consensus_consts]: "MaxTransactionBytes = 65536"
definition MaxBlockTransactions :: nat where [consensus_consts]: "MaxBlockTransactions = 2000"
definition MaxTransactionInputs :: nat where [consensus_consts]: "MaxTransactionInputs = 256"
definition MaxTransactionOutputs :: nat where [consensus_consts]: "MaxTransactionOutputs = 256"
definition MaxPendingTransactions :: nat where [consensus_consts]: "MaxPendingTransactions = 5000"
definition CoinbaseMaturity :: u64 where [consensus_consts]: "CoinbaseMaturity = 100"
definition CoinbaseMaturityActivationHeight :: u64 where
  [consensus_consts]: "CoinbaseMaturityActivationHeight = 1"

section \<open>Data\<close>

record tx_input =
  InTxID :: string
  OutputIndex :: u32
  PublicKey :: bytes
  Signature :: bytes

record tx_output =
  Amount :: u64
  Address :: string

record transaction =
  ID :: string
  Coinbase :: bool
  TxNonce :: u64
  Inputs :: "tx_input list"
  Outputs :: "tx_output list"

record block =
  Version :: u32
  Height :: u64
  Timestamp :: int
  PreviousHash :: string
  MerkleRoot :: string
  Difficulty :: u8
  Nonce :: u64
  Hash :: string
  Transactions :: "transaction list"

record state =
  StVersion :: int
  StName :: string
  StSymbol :: string
  Blocks :: "block list"
  Pending :: "transaction list"

text \<open>
  An outpoint is a map key of the program, ordered by transaction ID and then by index where the
  program sorts (\<open>BuildTransaction\<close>).
\<close>

datatype outpoint = Outpoint (OpTxID: string) (OpIndex: u32)

instantiation outpoint :: linorder
begin

definition less_eq_outpoint :: "outpoint \<Rightarrow> outpoint \<Rightarrow> bool" where
  "less_eq_outpoint a b \<longleftrightarrow> OpTxID a < OpTxID b \<or> OpTxID a = OpTxID b \<and> OpIndex a \<le> OpIndex b"

definition less_outpoint :: "outpoint \<Rightarrow> outpoint \<Rightarrow> bool" where
  "less_outpoint a b \<longleftrightarrow> OpTxID a < OpTxID b \<or> OpTxID a = OpTxID b \<and> OpIndex a < OpIndex b"

instance
proof
  fix a b c :: outpoint
  show "a < b \<longleftrightarrow> a \<le> b \<and> \<not> b \<le> a" by (auto simp: less_eq_outpoint_def less_outpoint_def)
  show "a \<le> a" by (simp add: less_eq_outpoint_def)
  show "a \<le> b \<Longrightarrow> b \<le> c \<Longrightarrow> a \<le> c" by (auto simp: less_eq_outpoint_def)
  show "a \<le> b \<Longrightarrow> b \<le> a \<Longrightarrow> a = b"
    by (auto simp: less_eq_outpoint_def intro: outpoint.expand)
  show "a \<le> b \<or> b \<le> a" by (auto simp: less_eq_outpoint_def)
qed

end

text \<open>
  A Go map is an association list with distinct keys, read with \<^const>\<open>map_of\<close>; the order of the
  list stands for the unspecified iteration order.
\<close>

type_synonym utxo = "(outpoint \<times> tx_output) list"

definition input_outpoint :: "tx_input \<Rightarrow> outpoint" where
  "input_outpoint i = Outpoint (InTxID i) (OutputIndex i)"

section \<open>Height-gated rules\<close>

datatype difficulty_algorithm = LegacyEpochDifficulty | IntegerASERTDifficulty

record consensus_rules =
  RulesVersion :: u32
  RulesDifficulty :: difficulty_algorithm
  RequireMonotonicTimestamp :: bool

definition RulesAtHeight :: "u64 \<Rightarrow> consensus_rules" where
  "RulesAtHeight height =
     (if height \<ge> ConsensusUpgradeHeight
      then \<lparr>RulesVersion = UpgradedBlockVersion, RulesDifficulty = IntegerASERTDifficulty,
            RequireMonotonicTimestamp = True\<rparr>
      else \<lparr>RulesVersion = LegacyBlockVersion, RulesDifficulty = LegacyEpochDifficulty,
            RequireMonotonicTimestamp = False\<rparr>)"

section \<open>The encoder\<close>

text \<open>Each method of \<open>encoder\<close> appends to a buffer; the model returns the bytes it appends.\<close>

definition enc_uint8 :: "u8 \<Rightarrow> bytes" where "enc_uint8 v = [v]"
definition enc_bool :: "bool \<Rightarrow> bytes" where "enc_bool v = (if v then enc_uint8 1 else enc_uint8 0)"
definition enc_uint32 :: "u32 \<Rightarrow> bytes" where "enc_uint32 v = be_bytes 4 (unat v)"
definition enc_uint64 :: "u64 \<Rightarrow> bytes" where "enc_uint64 v = be_bytes 8 (unat v)"
definition enc_int64 :: "int \<Rightarrow> bytes" where
  "enc_int64 v = be_bytes 8 (nat (v mod 18446744073709551616))"
definition enc_bytes :: "bytes \<Rightarrow> bytes" where
  "enc_bytes v = enc_uint64 (word_of_nat (length v)) @ v"
definition enc_string :: "string \<Rightarrow> bytes" where "enc_string v = enc_bytes (string_bytes v)"

definition hashHex :: "crypto \<Rightarrow> bytes \<Rightarrow> string" where
  "hashHex C value = hex_encode (Sum256 C value)"

definition decodeHash :: "string \<Rightarrow> bytes res" where
  "decodeHash value =
     (case hex_decode value of
        Inl _ \<Rightarrow> Inl (Errorf ''invalid SHA-256 hash'')
      | Inr decoded \<Rightarrow> if length decoded \<noteq> 32 then Inl (Errorf ''invalid SHA-256 hash'') else Inr decoded)"

lemma length_enc [simp]:
  "length (enc_uint8 a) = 1" "length (enc_bool b) = 1" "length (enc_uint32 c) = 4"
  "length (enc_uint64 d) = 8" "length (enc_int64 e) = 8"
  "length (enc_bytes v) = 8 + length v" "length (enc_string s) = 8 + length s"
  by (simp_all add: enc_uint8_def enc_bool_def enc_uint32_def enc_uint64_def enc_int64_def
      enc_bytes_def enc_string_def)

lemma decodeHash_hashHex: "digest32 (Sum256 C) \<Longrightarrow> decodeHash (hashHex C x) = Inr (Sum256 C x)"
  by (simp add: decodeHash_def hashHex_def digest32.length_digest)

lemma decodeHash_size: "decodeHash s = Inr bs \<Longrightarrow> length bs = 32"
  by (auto simp: decodeHash_def split: sum.splits if_splits)

lemma decodeHash_length: "decodeHash s = Inr bs \<Longrightarrow> length s = 64"
  using hex_decode_length [of s] by (auto simp: decodeHash_def split: sum.splits if_splits)

text \<open>Each encoding is a prefix code: what it encodes can be read off the front of a buffer.\<close>

named_theorems prefix_code "injectivity of an encoding followed by anything"

lemma unat_of_char_byte: "unat (of_char c :: u8) = of_char c"
proof -
  have "unat (of_nat (of_char c) :: u8) = of_char c mod 256" by (rule unat_byte_of_nat)
  then show ?thesis by (simp only: of_nat_of_char of_char_mod_256)
qed

lemma string_bytes_inj [simp]: "string_bytes s = string_bytes t \<longleftrightarrow> s = t"
proof -
  have "inj (of_char :: char \<Rightarrow> u8)"
    by (rule injI) (metis unat_of_char_byte of_char_eqI)
  then show ?thesis by (simp add: string_bytes_def inj_map_eq_map)
qed

lemma enc_uint8_prefix [prefix_code]: "enc_uint8 a @ r = enc_uint8 b @ s \<longleftrightarrow> a = b \<and> r = s"
  by (simp add: enc_uint8_def)

lemma enc_bool_prefix [prefix_code]: "enc_bool a @ r = enc_bool b @ s \<longleftrightarrow> a = b \<and> r = s"
  by (simp add: enc_bool_def enc_uint8_def)

text \<open>Equal encodings of a fixed width come from equal values.\<close>

lemma fixed_width_prefix:
  assumes "length (f a) = length (f b)" "f a = f b \<Longrightarrow> a = b"
  shows "f a @ r = f b @ s \<longleftrightarrow> a = b \<and> r = s"
  using assms by (metis append_eq_append_conv)

lemma be_bytes_unat_inj:
  fixes a b :: "'w::len word"
  assumes "be_bytes n (unat a) = be_bytes n (unat b)" "2 ^ LENGTH('w) = (256 :: nat) ^ n"
  shows "a = b"
proof -
  have "unat a = unat b"
    by (rule be_bytes_inj [OF assms(1)]) (simp_all only: assms(2) [symmetric] unsigned_less)
  then show ?thesis by (rule word_unat_eq_iff [THEN iffD2])
qed

lemma enc_uint32_prefix [prefix_code]: "enc_uint32 a @ r = enc_uint32 b @ s \<longleftrightarrow> a = b \<and> r = s"
proof (rule fixed_width_prefix)
  show "enc_uint32 a = enc_uint32 b \<Longrightarrow> a = b"
    unfolding enc_uint32_def by (erule be_bytes_unat_inj) simp
qed simp

lemma enc_uint64_prefix [prefix_code]: "enc_uint64 a @ r = enc_uint64 b @ s \<longleftrightarrow> a = b \<and> r = s"
proof (rule fixed_width_prefix)
  show "enc_uint64 a = enc_uint64 b \<Longrightarrow> a = b"
    unfolding enc_uint64_def by (erule be_bytes_unat_inj) simp
qed simp

lemma int64_residue_inj:
  assumes "in_int64 a" "in_int64 b" "a mod 18446744073709551616 = b mod 18446744073709551616"
  shows "a = b"
proof -
  have "wrap64 a = wrap64 b"
    unfolding wrap64_def by (simp only: mod_add_cong [OF assms(3) refl])
  with assms(1,2) show ?thesis by simp
qed

lemma enc_int64_prefix [prefix_code]:
  assumes "in_int64 a" "in_int64 b"
  shows "enc_int64 a @ r = enc_int64 b @ s \<longleftrightarrow> a = b \<and> r = s"
proof (rule fixed_width_prefix)
  assume eq: "enc_int64 a = enc_int64 b"
  have bound: "nat (x mod 18446744073709551616) < 256 ^ 8" for x :: int
    by (simp add: nat_less_iff)
  have "nat (a mod 18446744073709551616) = nat (b mod 18446744073709551616)"
    by (rule be_bytes_inj [OF eq [unfolded enc_int64_def] bound bound])
  then have "a mod 18446744073709551616 = b mod 18446744073709551616"
    by (simp add: eq_nat_nat_iff)
  then show "a = b" by (rule int64_residue_inj [OF assms])
qed simp

lemma enc_bytes_prefix [prefix_code]:
  assumes "length a < 18446744073709551616" "length b < 18446744073709551616"
  shows "enc_bytes a @ r = enc_bytes b @ s \<longleftrightarrow> a = b \<and> r = s"
proof -
  have "(word_of_nat (length a) :: u64) = word_of_nat (length b) \<longleftrightarrow> length a = length b"
    using assms by (metis unat_word_of_nat_64)
  then show ?thesis by (auto simp: enc_bytes_def enc_uint64_prefix)
qed

lemma enc_string_prefix [prefix_code]:
  assumes "length a < 18446744073709551616" "length b < 18446744073709551616"
  shows "enc_string a @ r = enc_string b @ s \<longleftrightarrow> a = b \<and> r = s"
  using assms by (simp add: enc_string_def enc_bytes_prefix)

lemma enc_inj [prefix_code]:
  "enc_uint8 a8 = enc_uint8 b8 \<longleftrightarrow> a8 = b8" "enc_uint32 a32 = enc_uint32 b32 \<longleftrightarrow> a32 = b32"
  "enc_uint64 a64 = enc_uint64 b64 \<longleftrightarrow> a64 = b64"
  "in_int64 i \<Longrightarrow> in_int64 j \<Longrightarrow> enc_int64 i = enc_int64 j \<longleftrightarrow> i = j"
  "length s < 18446744073709551616 \<Longrightarrow> length t < 18446744073709551616 \<Longrightarrow>
     enc_string s = enc_string t \<longleftrightarrow> s = t"
  using enc_uint8_prefix [of a8 "[]" b8 "[]"] enc_uint32_prefix [of a32 "[]" b32 "[]"]
    enc_uint64_prefix [of a64 "[]" b64 "[]"] enc_int64_prefix [of i j "[]" "[]"]
    enc_string_prefix [of s t "[]" "[]"]
  by simp_all

text \<open>A list of encodings, each a prefix code on the set \<open>S\<close>, is one for lists of equal length.\<close>

lemma concat_prefix:
  assumes "\<And>a b r s. a \<in> S \<Longrightarrow> b \<in> S \<Longrightarrow> f a @ r = f b @ s \<Longrightarrow> a = b \<and> r = s"
    and "set xs \<subseteq> S" "set ys \<subseteq> S" "length xs = length ys"
    and "concat (map f xs) @ r = concat (map f ys) @ s"
  shows "xs = ys \<and> r = s"
  using assms(4,2,3,5)
proof (induction xs ys arbitrary: r s rule: list_induct2)
  case (Cons x xs y ys)
  have eq: "f x @ (concat (map f xs) @ r) = f y @ (concat (map f ys) @ s)"
    using Cons.prems(3) by simp
  have "x \<in> S" "y \<in> S" using Cons.prems by auto
  from assms(1) [OF this eq] have xy: "x = y"
    and rest: "concat (map f xs) @ r = concat (map f ys) @ s" by blast+
  have "xs = ys \<and> r = s"
    by (rule Cons.IH [OF _ _ rest]) (use Cons.prems in auto)
  with xy show ?case by simp
qed simp

end
