(* ===== verification/Coin_Store.thy ===== *)
theory Coin_Store
  imports Model
begin

text \<open>
  The interface of a set of unspent outputs, which the program implements twice: as the maps of the
  chain replay and as the table of the ledger. A client looks an outpoint up, creates one that is
  absent and deletes one; the provider promises what a lookup returns afterwards and how the total
  value changes. The clients' lemmas (spending a list, creating a list, undoing a block) are proved
  once here.
\<close>

locale coin_store =
  fixes wf :: "'s \<Rightarrow> bool" and get :: "'s \<Rightarrow> outpoint \<Rightarrow> 'c option"
    and put :: "'s \<Rightarrow> outpoint \<Rightarrow> 'c \<Rightarrow> 's" and del :: "'s \<Rightarrow> outpoint \<Rightarrow> 's"
    and worth :: "'c \<Rightarrow> nat" and content :: "'s \<Rightarrow> nat"
  assumes wf_put: "wf s \<Longrightarrow> get s op = None \<Longrightarrow> wf (put s op c)"
    and wf_del: "wf s \<Longrightarrow> wf (del s op)"
    and get_put: "wf s \<Longrightarrow> get s op = None \<Longrightarrow> get (put s op c) = (get s)(op := Some c)"
    and get_del: "wf s \<Longrightarrow> get (del s op) = (get s)(op := None)"
    and content_put: "wf s \<Longrightarrow> get s op = None \<Longrightarrow> content (put s op c) = content s + worth c"
    and content_del: "wf s \<Longrightarrow> get s op = Some c \<Longrightarrow> content (del s op) + worth c = content s"
begin

text \<open>Spending a list of outpoints.\<close>

lemma wf_dels: "wf s \<Longrightarrow> wf (foldl del s ops)"
  by (induction ops arbitrary: s) (auto intro: wf_del)

lemma get_dels: "wf s \<Longrightarrow> get (foldl del s ops) = (\<lambda>op. if op \<in> set ops then None else get s op)"
  by (induction ops arbitrary: s) (auto simp: wf_del get_del)

lemma content_dels:
  assumes "wf s" "distinct ops" "\<forall>op \<in> set ops. get s op \<noteq> None"
  shows "content (foldl del s ops) + (\<Sum>op\<leftarrow>ops. worth (the (get s op))) = content s"
  using assms
proof (induction ops arbitrary: s)
  case (Cons op ops)
  then obtain c where c: "get s op = Some c" by auto
  have same: "get (del s op) x = get s x" if "x \<in> set ops" for x
    using Cons.prems that by (auto simp: get_del)
  have "content (foldl del (del s op) ops) + (\<Sum>x\<leftarrow>ops. worth (the (get (del s op) x))) = content (del s op)"
    using Cons.prems same by (intro Cons.IH) (auto intro: wf_del)
  moreover have "(\<Sum>x\<leftarrow>ops. worth (the (get (del s op) x))) = (\<Sum>x\<leftarrow>ops. worth (the (get s x)))"
    using same by (intro arg_cong [where f = sum_list] map_cong) auto
  ultimately show ?case using content_del [OF Cons.prems(1) c] c by simp
qed simp

text \<open>Creating a list of outputs that are absent and differ.\<close>

lemma put_all:
  assumes "wf s" "distinct (map fst cs)" "\<forall>op \<in> fst ` set cs. get s op = None"
  shows "wf (foldl (\<lambda>s (op, c). put s op c) s cs)"
    and "get (foldl (\<lambda>s (op, c). put s op c) s cs) = (\<lambda>op. case map_of cs op of Some c \<Rightarrow> Some c | None \<Rightarrow> get s op)"
    and "content (foldl (\<lambda>s (op, c). put s op c) s cs) = content s + (\<Sum>(op, c)\<leftarrow>cs. worth c)"
proof -
  have "wf (foldl (\<lambda>s (op, c). put s op c) s cs) \<and>
      get (foldl (\<lambda>s (op, c). put s op c) s cs) = (\<lambda>op. case map_of cs op of Some c \<Rightarrow> Some c | None \<Rightarrow> get s op) \<and>
      content (foldl (\<lambda>s (op, c). put s op c) s cs) = content s + (\<Sum>(op, c)\<leftarrow>cs. worth c)"
    using assms
  proof (induction cs arbitrary: s)
    case (Cons x cs)
    obtain op c where x: "x = (op, c)" by fastforce
    have n: "get s op = None" using Cons.prems x by auto
    have notin: "op \<notin> fst ` set cs" using Cons.prems x by auto
    then have m: "map_of cs op = None" by (simp add: map_of_eq_None_iff)
    have "\<forall>y \<in> fst ` set cs. get (put s op c) y = None"
      using Cons.prems x n notin by (auto simp: get_put)
    with Cons.IH [of "put s op c"] Cons.prems x n m show ?case
      by (auto simp: wf_put get_put content_put fun_eq_iff split: option.splits)
  qed simp
  then show "wf (foldl (\<lambda>s (op, c). put s op c) s cs)"
    and "get (foldl (\<lambda>s (op, c). put s op c) s cs) = (\<lambda>op. case map_of cs op of Some c \<Rightarrow> Some c | None \<Rightarrow> get s op)"
    and "content (foldl (\<lambda>s (op, c). put s op c) s cs) = content s + (\<Sum>(op, c)\<leftarrow>cs. worth c)"
    by auto
qed

text \<open>The loop that creates outputs and stops at the first one that exists already.\<close>

lemma put_loop:
  assumes "wf s"
  shows "foldE (\<lambda>s (op, c). if get s op \<noteq> None then Inl e else Inr (put s op c)) s cs = Inr s' \<longleftrightarrow>
     distinct (map fst cs) \<and> (\<forall>op \<in> fst ` set cs. get s op = None) \<and>
     s' = foldl (\<lambda>s (op, c). put s op c) s cs"
  using assms
proof (induction cs arbitrary: s)
  case (Cons x cs)
  obtain op c where x: "x = (op, c)" by fastforce
  show ?case
  proof (cases "get s op")
    case None
    then have "wf (put s op c)" "get (put s op c) = (get s)(op := Some c)"
      using Cons.prems by (simp_all add: wf_put get_put)
    with None x Cons.IH [of "put s op c"] show ?thesis by auto
  next
    case (Some c')
    with x show ?thesis by auto
  qed
qed auto

text \<open>
  What a block leaves behind: \<open>spent\<close> and \<open>created\<close> record every change of the lookups from \<open>g0\<close> to those of \<open>s\<close>.
\<close>

definition recorded :: "(outpoint \<Rightarrow> 'c option) \<Rightarrow> (outpoint \<times> 'c) list \<Rightarrow> outpoint list \<Rightarrow> 's \<Rightarrow> bool" where
  "recorded g0 spent created s \<longleftrightarrow> wf s \<and>
     distinct (map fst spent) \<and> distinct created \<and>
     (\<forall>op \<in> set created. g0 op = None) \<and>
     (\<forall>(op, c) \<in> set spent. get s op = None \<and> (op \<notin> set created \<longrightarrow> g0 op = Some c)) \<and>
     (\<forall>op. op \<notin> set created \<longrightarrow> op \<notin> fst ` set spent \<longrightarrow> get s op = g0 op)"

lemma recorded_refl: "wf s \<Longrightarrow> recorded (get s) [] [] s"
  by (simp add: recorded_def)

lemma recorded_spend:
  assumes "recorded g0 spent created s" and "get s op = Some c"
  shows "recorded g0 (spent @ [(op, c)]) created (del s op)"
proof -
  have "op \<notin> fst ` set spent" using assms by (fastforce simp: recorded_def)
  then show ?thesis using assms by (auto simp: recorded_def wf_del get_del)
qed

lemma recorded_create:
  assumes "recorded g0 spent created s" and "get s op = None" "g0 op = None" "op \<notin> set created"
  shows "recorded g0 spent (created @ [op]) (put s op c)"
proof -
  have "op \<notin> fst ` set spent" using assms by (fastforce simp: recorded_def)
  then show ?thesis using assms by (auto simp: recorded_def wf_put get_put) force+
qed

text \<open>Whole lists at a time: the inputs of a transaction, then its outputs.\<close>

lemma recorded_wf: "recorded g0 spent created s \<Longrightarrow> wf s"
  by (simp add: recorded_def)

lemma recorded_spends:
  assumes "recorded g0 spent created s" "distinct ops" "\<forall>op \<in> set ops. get s op \<noteq> None"
  shows "recorded g0 (spent @ map (\<lambda>op. (op, the (get s op))) ops) created (foldl del s ops)"
  using assms
proof (induction ops arbitrary: spent s)
  case (Cons op ops)
  then obtain c where c: "get s op = Some c" by auto
  have wf: "wf s" by (rule recorded_wf [OF Cons.prems(1)])
  have same: "get (del s op) x = get s x" if "x \<in> set ops" for x
    using Cons.prems(2) that by (auto simp: get_del [OF wf])
  have "map (\<lambda>x. (x, the (get (del s op) x))) ops = map (\<lambda>x. (x, the (get s x))) ops"
    by (rule map_cong [OF refl]) (simp add: same)
  with Cons.IH [OF recorded_spend [OF Cons.prems(1) c]] Cons.prems(2,3) same c show ?case by simp
qed simp

lemma recorded_creates:
  assumes "recorded g0 spent created s" "distinct (map fst cs)"
    and "\<forall>op \<in> fst ` set cs. get s op = None \<and> g0 op = None \<and> op \<notin> set created"
  shows "recorded g0 spent (created @ map fst cs) (foldl (\<lambda>s (op, c). put s op c) s cs)"
  using assms
proof (induction cs arbitrary: created s)
  case (Cons x cs)
  obtain op c where x: "x = (op, c)" by fastforce
  have wf: "wf s" by (rule recorded_wf [OF Cons.prems(1)])
  have op: "get s op = None" "g0 op = None" "op \<notin> set created" using Cons.prems(3) x by simp_all
  have "recorded g0 spent ((created @ [op]) @ map fst cs) (foldl (\<lambda>s (op, c). put s op c) (put s op c) cs)"
  proof (rule Cons.IH [OF recorded_create [OF Cons.prems(1) op]])
    show "distinct (map fst cs)" using Cons.prems(2) by simp
    show "\<forall>op' \<in> fst ` set cs. get (put s op c) op' = None \<and> g0 op' = None \<and> op' \<notin> set (created @ [op])"
      using Cons.prems(2,3) x op(1) by (auto simp: get_put [OF wf])
  qed
  then show ?case by (simp add: x)
qed simp

text \<open>Deleting what was created and restoring what was spent gives the lookups of the start.\<close>

lemma undo_recorded:
  assumes "recorded g0 spent created s"
  shows "get (foldl (\<lambda>s (op, c). put s op c) (foldl del s created)
           (filter (\<lambda>(op, c). op \<notin> set created) spent)) = g0"
    and "wf (foldl (\<lambda>s (op, c). put s op c) (foldl del s created)
           (filter (\<lambda>(op, c). op \<notin> set created) spent))"
proof -
  let ?s = "foldl del s created" and ?sp = "filter (\<lambda>(op, c). op \<notin> set created) spent"
  have r: "wf s" "distinct (map fst spent)" using assms by (simp_all add: recorded_def)
  have d: "distinct (map fst ?sp)" using r(2) by (rule distinct_map_filter)
  have g: "get ?s = (\<lambda>op. if op \<in> set created then None else get s op)" by (rule get_dels [OF r(1)])
  have absent: "\<forall>op \<in> fst ` set ?sp. get ?s op = None"
    using assms by (auto simp: g recorded_def)
  note all = put_all [OF wf_dels [OF r(1)] d absent]
  show "wf (foldl (\<lambda>s (op, c). put s op c) ?s ?sp)" by (rule all(1))
  have "(case map_of ?sp op of Some c \<Rightarrow> Some c | None \<Rightarrow> get ?s op) = g0 op" for op
  proof (cases "map_of ?sp op")
    case None
    then have "op \<in> set created \<or> op \<notin> fst ` set spent"
      by (force simp: map_of_eq_None_iff)
    then show ?thesis using None assms by (auto simp: g recorded_def)
  next
    case (Some c)
    then have "(op, c) \<in> set ?sp" by (rule map_of_SomeD)
    then show ?thesis using Some assms by (auto simp: recorded_def)
  qed
  then show "get (foldl (\<lambda>s (op, c). put s op c) ?s ?sp) = g0" using all(2) by (simp add: fun_eq_iff)
qed

end

end
