(* ===== verification/Wallet.thy ===== *)
theory Wallet
  imports Model
begin

text \<open>
  \<open>internal/core/wallet.go\<close>: addresses (derived from a public key, validated by checksum, compared
  case-insensitively) and the consistency check of a wallet's three fields.
\<close>

record wallet =
  WPrivateKey :: string
  WPublicKey :: string
  WAddress :: string

section \<open>Addresses\<close>

definition AddressFromPublicKey :: "crypto \<Rightarrow> bytes \<Rightarrow> string" where
  "AddressFromPublicKey C publicKey =
     (let payload = take 20 (Sum256 C publicKey);
          encoded = payload @ take 4 (Sum256 C payload)
      in ''ent1'' @ hex_encode encoded)"

text \<open>The constant-time comparison: the differences of all bytes, or-ed together.\<close>

definition equalBytes :: "bytes \<Rightarrow> bytes \<Rightarrow> bool" where
  "equalBytes a b =
     (if length a \<noteq> length b then False
      else foldl (\<lambda>different (x, y). different OR (x XOR y)) 0 (zip a b) = 0)"

definition ValidateAddress :: "crypto \<Rightarrow> string \<Rightarrow> unit res" where
  "ValidateAddress C address =
     (if length address \<noteq> 4 + 48 \<or> take 4 address \<noteq> ''ent1'' then Inl (Errorf ''invalid ENT address'')
      else case hex_decode (drop 4 address) of
        Inl _ \<Rightarrow> Inl (Errorf ''invalid ENT address'')
      | Inr decoded \<Rightarrow>
        if length decoded \<noteq> 24 then Inl (Errorf ''invalid ENT address'')
        else if \<not> equalBytes (drop 20 decoded) (take 4 (Sum256 C (take 20 decoded)))
        then Inl (Errorf ''invalid ENT address checksum'')
        else Inr ())"

definition AddressesEqual :: "crypto \<Rightarrow> string \<Rightarrow> string \<Rightarrow> bool" where
  "AddressesEqual C left right \<longleftrightarrow>
     ValidateAddress C left = Inr () \<and> ValidateAddress C right = Inr () \<and> EqualFold left right"

section \<open>Wallets\<close>

text \<open>\<open>fmt.Sprintf("%064x", key.D)\<close> of a scalar below \<open>2 ^ 256\<close>.\<close>

definition NewWallet :: "crypto \<Rightarrow> nat res \<Rightarrow> wallet res" where
  "NewWallet C generated =
     attempt generated (\<lambda>d.
       let publicKey = MarshalPoint (ScalarBaseMult C (be_bytes 32 d))
       in Inr \<lparr>WPrivateKey = hex_encode (be_bytes 32 d), WPublicKey = hex_encode publicKey,
               WAddress = AddressFromPublicKey C publicKey\<rparr>)"

definition privateKey :: "crypto \<Rightarrow> wallet \<Rightarrow> (nat \<times> (int \<times> int)) res" where
  "privateKey C w =
     (case hex_decode (WPrivateKey w) of
        Inl _ \<Rightarrow> Inl (Errorf ''invalid wallet private key'')
      | Inr dBytes \<Rightarrow>
        if length dBytes \<noteq> 32 then Inl (Errorf ''invalid wallet private key'')
        else let d = be_nat dBytes in
        if d = 0 \<or> int d \<ge> p256_n then Inl (Errorf ''invalid wallet private key'')
        else Inr (d, ScalarBaseMult C dBytes))"

definition ValidateWallet :: "crypto \<Rightarrow> wallet \<Rightarrow> unit res" where
  "ValidateWallet C w =
     attempt (privateKey C w) (\<lambda>(d, xy).
     let publicKey = MarshalPoint xy in
     if hex_encode publicKey \<noteq> WPublicKey w
     then Inl (Errorf ''wallet public key does not match private key'')
     else if AddressFromPublicKey C publicKey \<noteq> WAddress w
     then Inl (Errorf ''wallet address does not match public key'')
     else ValidateAddress C (WAddress w))"

definition PublicKeyBytes :: "crypto \<Rightarrow> wallet \<Rightarrow> bytes res" where
  "PublicKeyBytes C w = attempt (ValidateWallet C w) (\<lambda>_. hex_decode (WPublicKey w))"

section \<open>Lemmas\<close>

lemma or_eq_0_byte: "(a :: u8) OR b = 0 \<longleftrightarrow> a = 0 \<and> b = 0"
  by (rule or_eq_0_iff)

lemma xor_eq_0_byte: "(a :: u8) XOR b = 0 \<longleftrightarrow> a = b"
  by (auto simp: bit_eq_iff bit_simps)

lemma foldl_or_zero:
  "length a = length b \<Longrightarrow>
     foldl (\<lambda>different (x, y). different OR (x XOR y)) d (zip a b) = (0 :: u8) \<longleftrightarrow> d = 0 \<and> a = b"
proof (induction a b arbitrary: d rule: list_induct2)
  case (Cons x xs y ys)
  then show ?case by (auto simp: or_eq_0_byte xor_eq_0_byte)
qed simp

lemma equalBytes_eq [simp]: "equalBytes a b \<longleftrightarrow> a = b"
  by (auto simp: equalBytes_def foldl_or_zero)

text \<open>An accepted address is the prefix and 48 hexadecimal digits: payload and checksum.\<close>

definition address_payload :: "crypto \<Rightarrow> bytes \<Rightarrow> bool" where
  "address_payload C bs \<longleftrightarrow> length bs = 24 \<and> drop 20 bs = take 4 (Sum256 C (take 20 bs))"

lemma ValidateAddress_append:
  "ValidateAddress C (''ent1'' @ h) = Inr () \<longleftrightarrow>
     (\<exists>bs. hex_decode h = Inr bs \<and> address_payload C bs)"
  using hex_decode_length [of h]
  by (auto simp: ValidateAddress_def address_payload_def split: sum.split)

lemma ValidateAddress_prefix:
  assumes "ValidateAddress C a = Inr ()"
  shows "a = ''ent1'' @ drop 4 a"
proof -
  from assms have "take 4 a = ''ent1''" by (auto simp: ValidateAddress_def split: if_splits)
  then show ?thesis by (metis append_take_drop_id)
qed

lemma ValidateAddress_ok:
  "ValidateAddress C a = Inr () \<longleftrightarrow>
     (\<exists>h bs. a = ''ent1'' @ h \<and> hex_decode h = Inr bs \<and> address_payload C bs)"
  using ValidateAddress_prefix ValidateAddress_append by metis

lemma ValidateAddress_AddressFromPublicKey:
  assumes "digest32 (Sum256 C)"
  shows "ValidateAddress C (AddressFromPublicKey C pk) = Inr ()"
  unfolding AddressFromPublicKey_def Let_def
  by (subst ValidateAddress_append) (simp add: address_payload_def digest32.length_digest [OF assms])

lemma EqualFold_append:
  "length s = length s' \<Longrightarrow> EqualFold (s @ t) (s' @ t') \<longleftrightarrow> EqualFold s s' \<and> EqualFold t t'"
  by (auto simp: EqualFold_def)

lemma AddressesEqual_refl: "AddressesEqual C a a \<longleftrightarrow> ValidateAddress C a = Inr ()"
  by (auto simp: AddressesEqual_def)

lemma AddressesEqual_trans:
  "AddressesEqual C a b \<Longrightarrow> AddressesEqual C b c \<Longrightarrow> AddressesEqual C a c"
  by (auto simp: AddressesEqual_def intro: EqualFold_trans)

lemma AddressesEqual_sym: "AddressesEqual C a b \<Longrightarrow> AddressesEqual C b a"
  by (auto simp: AddressesEqual_def intro: EqualFold_sym)

lemma AddressesEqual_valid:
  "AddressesEqual C a b \<Longrightarrow> ValidateAddress C a = Inr () \<and> ValidateAddress C b = Inr ()"
  by (simp add: AddressesEqual_def)

lemma AddressesEqual_payload:
  "AddressesEqual C a b \<longleftrightarrow>
     (\<exists>h g bs. a = ''ent1'' @ h \<and> b = ''ent1'' @ g \<and> hex_decode h = Inr bs \<and>
               hex_decode g = Inr bs \<and> address_payload C bs)"
proof
  assume eq: "AddressesEqual C a b"
  then obtain h bs g cs where a: "a = ''ent1'' @ h" "hex_decode h = Inr bs" "address_payload C bs"
    and b: "b = ''ent1'' @ g" "hex_decode g = Inr cs" "address_payload C cs"
    by (auto simp: AddressesEqual_def ValidateAddress_ok)
  from eq a b have "EqualFold h g" by (simp add: AddressesEqual_def EqualFold_def)
  with a b have "bs = cs" by (simp add: EqualFold_hex)
  with a b show "\<exists>h g bs. a = ''ent1'' @ h \<and> b = ''ent1'' @ g \<and> hex_decode h = Inr bs \<and>
      hex_decode g = Inr bs \<and> address_payload C bs" by blast
next
  assume "\<exists>h g bs. a = ''ent1'' @ h \<and> b = ''ent1'' @ g \<and> hex_decode h = Inr bs \<and>
      hex_decode g = Inr bs \<and> address_payload C bs"
  then obtain h g bs where a: "a = ''ent1'' @ h" "hex_decode h = Inr bs" "address_payload C bs"
    and b: "b = ''ent1'' @ g" "hex_decode g = Inr bs" by blast
  then have "EqualFold h g" by (simp add: EqualFold_hex)
  then have "EqualFold a b" using a b by (simp add: EqualFold_def)
  moreover have "ValidateAddress C a = Inr ()" "ValidateAddress C b = Inr ()"
    using a b by (auto simp: ValidateAddress_ok)
  ultimately show "AddressesEqual C a b" by (simp add: AddressesEqual_def)
qed

section \<open>Properties\<close>

text \<open>
  Two addresses are equal for the program exactly when both are well formed and stand for the
  same 24 bytes of payload and checksum, whatever the case of their hexadecimal digits.
\<close>

theorem AddressesEqual_same_payload:
  "AddressesEqual C a b \<longleftrightarrow>
     (\<exists>h g bs. a = ''ent1'' @ h \<and> b = ''ent1'' @ g \<and> hex_decode h = Inr bs \<and>
               hex_decode g = Inr bs \<and> address_payload C bs)"
  by (rule AddressesEqual_payload)

text \<open>
  A freshly generated wallet passes its own validation: the stored private key, the public key
  and the address agree, and the address is accepted by \<open>ValidateAddress\<close>.
\<close>

theorem NewWallet_validates:
  assumes "digest32 (Sum256 C)" and "0 < d" and "int d < p256_n"
  shows "\<exists>w. NewWallet C (Inr d) = Inr w \<and> ValidateWallet C w = Inr () \<and>
     ValidateAddress C (WAddress w) = Inr () \<and>
     PublicKeyBytes C w = Inr (MarshalPoint (ScalarBaseMult C (be_bytes 32 d)))"
proof -
  have "d < 256 ^ 32" using assms(3) by (simp add: p256_n_def)
  then have "be_nat (be_bytes 32 d) = d" by (simp add: be_nat_be_bytes)
  with assms show ?thesis
    by (simp add: NewWallet_def ValidateWallet_def PublicKeyBytes_def privateKey_def Let_def
        ValidateAddress_AddressFromPublicKey)
qed

theorem NewWallet_validates_witness:
  "\<exists>w. NewWallet go_crypto (Inr 1) = Inr w \<and> ValidateWallet go_crypto w = Inr () \<and>
     ValidateAddress go_crypto (WAddress w) = Inr () \<and>
     PublicKeyBytes go_crypto w = Inr (MarshalPoint (ScalarBaseMult go_crypto (be_bytes 32 1)))"
  by (rule NewWallet_validates [OF digest32_go_crypto]) (simp_all add: p256_n_def)

end
