(* ===== verification/Transaction.thy ===== *)
theory Transaction
  imports Wallet
begin

text \<open>
  \<open>internal/core/transaction.go\<close>: the encoding of a transaction and its two hashes (the ID and the
  digest an input signs), the construction and signing of a payment, and the validation of regular
  and coinbase transactions against a set of unspent outputs.
\<close>

section \<open>Encoding and hashes\<close>

definition encodeInput :: "bool \<Rightarrow> tx_input \<Rightarrow> bytes" where
  "encodeInput includeSignatures input =
     enc_string (InTxID input) @ enc_uint32 (OutputIndex input) @ enc_bytes (PublicKey input) @
     (if includeSignatures then enc_bytes (Signature input) else [])"

definition encodeOutput :: "tx_output \<Rightarrow> bytes" where
  "encodeOutput output = enc_uint64 (Amount output) @ enc_string (Address output)"

definition encodeTransaction :: "transaction \<Rightarrow> bool \<Rightarrow> bytes" where
  "encodeTransaction tx includeSignatures =
     enc_string NetworkID @ enc_bool (Coinbase tx) @ enc_uint64 (TxNonce tx) @
     enc_uint64 (word_of_nat (length (Inputs tx))) @
     concat (map (encodeInput includeSignatures) (Inputs tx)) @
     enc_uint64 (word_of_nat (length (Outputs tx))) @
     concat (map encodeOutput (Outputs tx))"

definition ComputeID :: "crypto \<Rightarrow> transaction \<Rightarrow> string" where
  "ComputeID C tx = hashHex C (encodeTransaction tx True)"

definition signingHash :: "crypto \<Rightarrow> transaction \<Rightarrow> nat \<Rightarrow> tx_output \<Rightarrow> bytes" where
  "signingHash C tx inputIndex previousOutput =
     (case hex_decode (hashHex C
        (encodeTransaction tx False @ enc_uint64 (word_of_nat inputIndex) @
         enc_uint64 (Amount previousOutput) @ enc_string (Address previousOutput))) of
        Inl _ \<Rightarrow> [] | Inr hash \<Rightarrow> hash)"

definition encodedSize :: "transaction \<Rightarrow> nat" where
  "encodedSize tx = length (encodeTransaction tx True)"

section \<open>Construction\<close>

text \<open>
  Randomness is an argument: \<open>rnd\<close> is the result of \<open>randomUint64\<close>; \<open>signer i d digest\<close> is the
  result of \<open>ecdsa.Sign\<close> for input \<open>i\<close> with the private scalar \<open>d\<close>.
\<close>

definition NewCoinbase :: "crypto \<Rightarrow> u64 res \<Rightarrow> string \<Rightarrow> u64 \<Rightarrow> u64 \<Rightarrow> transaction res" where
  "NewCoinbase C rnd address height amount =
     attempt (ValidateAddress C address) (\<lambda>_.
     attempt rnd (\<lambda>nonce.
     let tx = \<lparr>ID = [], Coinbase = True, TxNonce = nonce XOR height, Inputs = [],
               Outputs = (if amount > 0 then [\<lparr>Amount = amount, Address = address\<rparr>] else [])\<rparr>
     in Inr (tx\<lparr>ID := ComputeID C tx\<rparr>)))"

type_synonym signer = "nat \<Rightarrow> nat \<Rightarrow> bytes \<Rightarrow> (int \<times> int) res"

definition signInput ::
    "crypto \<Rightarrow> signer \<Rightarrow> nat \<Rightarrow> tx_output list \<Rightarrow> transaction \<Rightarrow> nat \<Rightarrow> transaction res" where
  "signInput C signer d previousOutputs tx i =
     attempt (signer i d (signingHash C tx i (previousOutputs ! i))) (\<lambda>(r, s).
     let s = (if s > halfOrder then p256_n - s else s);
         input = (Inputs tx ! i)\<lparr>Signature := asn1_marshal_sig r s\<rparr>
     in Inr (tx\<lparr>Inputs := (Inputs tx)[i := input]\<rparr>))"

definition sign ::
    "crypto \<Rightarrow> signer \<Rightarrow> wallet \<Rightarrow> tx_output list \<Rightarrow> transaction \<Rightarrow> transaction res" where
  "sign C signer w previousOutputs tx =
     (if length previousOutputs \<noteq> length (Inputs tx)
      then Inl (Errorf ''previous output count does not match inputs'')
      else attempt (privateKey C w) (\<lambda>(d, _).
        foldE (signInput C signer d previousOutputs) tx [0..<length (Inputs tx)]))"

text \<open>The loop over the sorted candidates, with its two \<open>break\<close>s.\<close>

fun selectInputs ::
    "bytes \<Rightarrow> u64 \<Rightarrow> utxo \<Rightarrow> tx_input list \<times> tx_output list \<times> u64 \<Rightarrow>
     (tx_input list \<times> tx_output list \<times> u64) res" where
  "selectInputs publicKey needed [] st = Inr st"
| "selectInputs publicKey needed ((outpoint, output) # candidates) (inputs, previousOutputs, sum0) =
     (if length inputs \<ge> MaxTransactionInputs then Inr (inputs, previousOutputs, sum0)
      else let inputs = inputs @ [\<lparr>InTxID = OpTxID outpoint, OutputIndex = OpIndex outpoint,
                                   PublicKey = publicKey, Signature = []\<rparr>];
               previousOutputs = previousOutputs @ [output]
      in attempt (safeAdd sum0 (Amount output)) (\<lambda>total.
           if total \<ge> needed then Inr (inputs, previousOutputs, total)
           else selectInputs publicKey needed candidates (inputs, previousOutputs, total)))"

definition BuildTransaction ::
    "crypto \<Rightarrow> signer \<Rightarrow> u64 res \<Rightarrow> wallet \<Rightarrow> string \<Rightarrow> u64 \<Rightarrow> u64 \<Rightarrow> utxo \<Rightarrow> transaction res" where
  "BuildTransaction C signer rnd w to amount fee utxo =
     (if amount = 0 then Inl (Errorf ''amount must be greater than zero'')
      else
        attempt (ValidateAddress C to) (\<lambda>_.
        attempt (safeAdd amount fee) (\<lambda>needed.
        attempt (PublicKeyBytes C w) (\<lambda>publicKey.
        let candidates = filter (\<lambda>(_, output). AddressesEqual C (Address output) (WAddress w)) utxo;
            candidates = sort_key fst candidates
        in attempt (selectInputs publicKey needed candidates ([], [], 0)) (\<lambda>(inputs, previousOutputs, total).
        if total < needed then Inl (Errorf ''insufficient funds'')
        else attempt rnd (\<lambda>nonce.
        let change = total - needed;
            tx = \<lparr>ID = [], Coinbase = False, TxNonce = nonce, Inputs = inputs,
                  Outputs = \<lparr>Amount = amount, Address = to\<rparr> #
                    (if change > 0 then [\<lparr>Amount = change, Address = WAddress w\<rparr>] else [])\<rparr>
        in attempt (sign C signer w previousOutputs tx) (\<lambda>tx.
           Inr (tx\<lparr>ID := ComputeID C tx\<rparr>))))))))"

section \<open>Validation\<close>

definition sumOutputs :: "crypto \<Rightarrow> tx_output list \<Rightarrow> u64 res" where
  "sumOutputs C outputs =
     foldE (\<lambda>total output.
       if Amount output = 0 then Inl (Errorf ''transaction output amount must be greater than zero'')
       else attempt (ValidateAddress C (Address output)) (\<lambda>_. safeAdd total (Amount output)))
     0 outputs"

definition checkInputForm :: "tx_input \<Rightarrow> unit res" where
  "checkInputForm input =
     (case decodeHash (InTxID input) of
        Inl _ \<Rightarrow> Inl (Errorf ''input has invalid transaction hash'')
      | Inr _ \<Rightarrow>
        if length (PublicKey input) \<noteq> 65 \<or> length (Signature input) = 0 \<or> length (Signature input) > 80
        then Inl (Errorf ''input has invalid key or signature size'') else Inr ())"

definition checkSignature :: "crypto \<Rightarrow> int \<times> int \<Rightarrow> bytes \<Rightarrow> bytes \<Rightarrow> bool" where
  "checkSignature C publicKey signature digest =
     (case asn1_unmarshal_sig signature of
        None \<Rightarrow> False
      | Some (r, s, rest) \<Rightarrow>
          rest = [] \<and> 0 < r \<and> 0 < s \<and> s \<le> halfOrder \<and> VerifySig C publicKey digest r s)"

text \<open>The body of the loop over the inputs: the state is the outpoints seen and the total so far.\<close>

definition spendInput ::
    "crypto \<Rightarrow> transaction \<Rightarrow> utxo \<Rightarrow> outpoint list \<times> u64 \<Rightarrow> nat \<times> tx_input \<Rightarrow>
     (outpoint list \<times> u64) res" where
  "spendInput C tx utxo st ix =
     (case (st, ix) of ((seen, inputTotal), (i, input)) \<Rightarrow>
      let outpoint = input_outpoint input in
      if outpoint \<in> set seen then Inl (Errorf ''duplicate input'')
      else case map_of utxo outpoint of
        None \<Rightarrow> Inl (Errorf ''input is missing or already spent'')
      | Some previousOutput \<Rightarrow>
        if \<not> AddressesEqual C (AddressFromPublicKey C (PublicKey input)) (Address previousOutput)
        then Inl (Errorf ''input public key does not own output'')
        else case UnmarshalPoint C (PublicKey input) of
          None \<Rightarrow> Inl (Errorf ''input has invalid public key'')
        | Some publicKey \<Rightarrow>
          if \<not> checkSignature C publicKey (Signature input) (signingHash C tx i previousOutput)
          then Inl (Errorf ''input signature is invalid'')
          else attempt (safeAdd inputTotal (Amount previousOutput)) (\<lambda>inputTotal.
               Inr (outpoint # seen, inputTotal)))"

definition validateRegularTransaction :: "crypto \<Rightarrow> transaction \<Rightarrow> utxo \<Rightarrow> u64 res" where
  "validateRegularTransaction C tx utxo =
     (if Coinbase tx \<or> Inputs tx = [] \<or> Outputs tx = []
      then Inl (Errorf ''regular transaction requires inputs and outputs'')
      else if length (Inputs tx) > MaxTransactionInputs \<or> length (Outputs tx) > MaxTransactionOutputs
      then Inl (Errorf ''transaction exceeds input or output limit'')
      else
        attempt (checkAll checkInputForm (Inputs tx)) (\<lambda>_.
        attempt (sumOutputs C (Outputs tx)) (\<lambda>_.
        if encodedSize tx > MaxTransactionBytes
        then Inl (Errorf ''transaction exceeds encoded size limit'')
        else if ID tx \<noteq> ComputeID C tx then Inl (Errorf ''transaction ID mismatch'')
        else
          attempt (foldE (spendInput C tx utxo) ([], 0) (List.enumerate 0 (Inputs tx))) (\<lambda>(_, inputTotal).
          attempt (sumOutputs C (Outputs tx)) (\<lambda>outputTotal.
          if inputTotal < outputTotal
          then Inl (Errorf ''transaction spends more than its inputs'')
          else Inr (inputTotal - outputTotal))))))"

definition validateCoinbase :: "crypto \<Rightarrow> transaction \<Rightarrow> u64 \<Rightarrow> unit res" where
  "validateCoinbase C tx maximum =
     (if \<not> Coinbase tx \<or> Inputs tx \<noteq> [] then Inl (Errorf ''invalid coinbase transaction'')
      else if Outputs tx = [] \<and> maximum \<noteq> 0
      then Inl (Errorf ''coinbase transaction has no reward output'')
      else if length (Outputs tx) > 1 \<or> encodedSize tx > MaxTransactionBytes
      then Inl (Errorf ''coinbase transaction exceeds output or size limit'')
      else if ID tx \<noteq> ComputeID C tx then Inl (Errorf ''coinbase transaction ID mismatch'')
      else attempt (sumOutputs C (Outputs tx)) (\<lambda>total.
        if total \<noteq> maximum then Inl (Errorf ''coinbase reward must equal subsidy plus fees'')
        else Inr ()))"

section \<open>What validation establishes\<close>

text \<open>The value of a list of outputs, and of the outputs an input list spends, without wrap-around.\<close>

definition outputs_value :: "tx_output list \<Rightarrow> nat" where
  "outputs_value outputs = (\<Sum>o'\<leftarrow>outputs. unat (Amount o'))"

definition inputs_value :: "utxo \<Rightarrow> tx_input list \<Rightarrow> nat" where
  "inputs_value u inputs = (\<Sum>i\<leftarrow>inputs. unat (Amount (the (map_of u (input_outpoint i)))))"

definition input_ok :: "crypto \<Rightarrow> transaction \<Rightarrow> utxo \<Rightarrow> nat \<Rightarrow> tx_input \<Rightarrow> bool" where
  "input_ok C tx u i input \<longleftrightarrow>
     (\<exists>prev pub. map_of u (input_outpoint input) = Some prev \<and>
        AddressesEqual C (AddressFromPublicKey C (PublicKey input)) (Address prev) \<and>
        UnmarshalPoint C (PublicKey input) = Some pub \<and>
        checkSignature C pub (Signature input) (signingHash C tx i prev))"

definition outputs_ok :: "crypto \<Rightarrow> tx_output list \<Rightarrow> bool" where
  "outputs_ok C outputs \<longleftrightarrow>
     (\<forall>o' \<in> set outputs. Amount o' \<noteq> 0 \<and> ValidateAddress C (Address o') = Inr ())"

lemma outputs_value_simps [simp]:
  "outputs_value [] = 0" "outputs_value (o' # os) = unat (Amount o') + outputs_value os"
  by (simp_all add: outputs_value_def)

lemma inputs_value_simps [simp]:
  "inputs_value u [] = 0"
  "inputs_value u (i # is) = unat (Amount (the (map_of u (input_outpoint i)))) + inputs_value u is"
  by (simp_all add: inputs_value_def)

lemma sumOutputs_loop:
  "foldE (\<lambda>total output.
       if Amount output = 0 then Inl (Errorf ''transaction output amount must be greater than zero'')
       else attempt (ValidateAddress C (Address output)) (\<lambda>_. safeAdd total (Amount output))) t outs = Inr s
   \<longleftrightarrow> outputs_ok C outs \<and> unat t + outputs_value outs < 18446744073709551616 \<and>
      unat s = unat t + outputs_value outs"
proof (induction outs arbitrary: t)
  case Nil
  then show ?case by (auto simp: outputs_ok_def unat_less_64 word_unat_eq_iff)
next
  case (Cons x xs)
  show ?case
    by (auto simp: res_simps Cons.IH safeAdd_eq_Inr unat_plus_no_overflow outputs_ok_def)
qed

lemma sumOutputs_eq_Inr:
  "sumOutputs C outs = Inr s \<longleftrightarrow>
     outputs_ok C outs \<and> outputs_value outs < 18446744073709551616 \<and> unat s = outputs_value outs"
  by (simp add: sumOutputs_def sumOutputs_loop)

lemma spendInput_eq_Inr:
  "spendInput C tx u (seen, t) (i, inp) = Inr (seen', t') \<longleftrightarrow>
     input_outpoint inp \<notin> set seen \<and> input_ok C tx u i inp \<and> seen' = input_outpoint inp # seen \<and>
     safeAdd t (Amount (the (map_of u (input_outpoint inp)))) = Inr t'"
  by (auto simp: spendInput_def input_ok_def Let_def res_simps split: option.splits)

lemma spendInputs_loop:
  "foldE (spendInput C tx u) (seen, t) (List.enumerate n inps) = Inr (seen', t') \<longleftrightarrow>
     distinct (map input_outpoint inps) \<and> set (map input_outpoint inps) \<inter> set seen = {} \<and>
     (\<forall>(i, inp) \<in> set (List.enumerate n inps). input_ok C tx u i inp) \<and>
     seen' = rev (map input_outpoint inps) @ seen \<and>
     unat t + inputs_value u inps < 18446744073709551616 \<and> unat t' = unat t + inputs_value u inps"
proof (induction inps arbitrary: seen t n)
  case Nil
  then show ?case by (auto simp: unat_less_64 word_unat_eq_iff)
next
  case (Cons inp inps)
  have step: "foldE (spendInput C tx u) (seen, t) (List.enumerate n (inp # inps)) = Inr (seen', t') \<longleftrightarrow>
      (\<exists>st. spendInput C tx u (seen, t) (n, inp) = Inr st \<and>
            foldE (spendInput C tx u) st (List.enumerate (Suc n) inps) = Inr (seen', t'))"
    by (simp add: res_simps)
  show ?case
    by (subst step, simp add: Cons.IH spendInput_eq_Inr safeAdd_eq_Inr)
      (auto simp: unat_plus_no_overflow)
qed

text \<open>The conditions of a valid regular transaction, stated without the order of the checks.\<close>

definition regular_tx_ok :: "crypto \<Rightarrow> transaction \<Rightarrow> utxo \<Rightarrow> bool" where
  "regular_tx_ok C tx u \<longleftrightarrow>
     \<not> Coinbase tx \<and> Inputs tx \<noteq> [] \<and> Outputs tx \<noteq> [] \<and>
     length (Inputs tx) \<le> MaxTransactionInputs \<and> length (Outputs tx) \<le> MaxTransactionOutputs \<and>
     (\<forall>inp \<in> set (Inputs tx). checkInputForm inp = Inr ()) \<and> outputs_ok C (Outputs tx) \<and>
     encodedSize tx \<le> MaxTransactionBytes \<and> ID tx = ComputeID C tx \<and>
     distinct (map input_outpoint (Inputs tx)) \<and>
     (\<forall>(i, inp) \<in> set (List.enumerate 0 (Inputs tx)). input_ok C tx u i inp) \<and>
     inputs_value u (Inputs tx) < 18446744073709551616 \<and>
     outputs_value (Outputs tx) \<le> inputs_value u (Inputs tx)"

lemma validateRegularTransaction_eq_Inr:
  "validateRegularTransaction C tx u = Inr fee \<longleftrightarrow>
     regular_tx_ok C tx u \<and> unat fee = inputs_value u (Inputs tx) - outputs_value (Outputs tx)"
proof
  assume "validateRegularTransaction C tx u = Inr fee"
  then show "regular_tx_ok C tx u \<and> unat fee = inputs_value u (Inputs tx) - outputs_value (Outputs tx)"
    by (auto simp: validateRegularTransaction_def res_simps sumOutputs_eq_Inr spendInputs_loop
        regular_tx_ok_def word_less_nat_alt unat_minus_no_underflow word_le_nat_alt split: if_splits)
next
  assume ok: "regular_tx_ok C tx u \<and> unat fee = inputs_value u (Inputs tx) - outputs_value (Outputs tx)"
  then have vals: "outputs_value (Outputs tx) \<le> inputs_value u (Inputs tx)"
      "inputs_value u (Inputs tx) < 18446744073709551616"
    by (auto simp: regular_tx_ok_def)
  define it ot :: u64 where "it = word_of_nat (inputs_value u (Inputs tx))"
    and "ot = word_of_nat (outputs_value (Outputs tx))"
  have u: "unat it = inputs_value u (Inputs tx)" "unat ot = outputs_value (Outputs tx)"
    using vals by (simp_all add: it_def ot_def unat_word_of_nat_64)
  have "sumOutputs C (Outputs tx) = Inr ot"
    using ok u vals by (simp add: sumOutputs_eq_Inr regular_tx_ok_def)
  moreover have "foldE (spendInput C tx u) ([], 0) (List.enumerate 0 (Inputs tx)) =
      Inr (rev (map input_outpoint (Inputs tx)), it)"
    using ok u by (simp add: spendInputs_loop regular_tx_ok_def)
  moreover have "checkAll checkInputForm (Inputs tx) = Inr ()"
    using ok by (simp add: checkAll_ok regular_tx_ok_def)
  moreover have "\<not> it < ot" "it - ot = fee"
    using ok u vals by (simp_all add: word_less_nat_alt word_unat_eq_iff unat_minus_no_underflow word_le_nat_alt)
  ultimately show "validateRegularTransaction C tx u = Inr fee"
    using ok by (simp add: validateRegularTransaction_def regular_tx_ok_def not_less)
qed

lemma validate_fee:
  "validateRegularTransaction C tx u = Inr fee \<Longrightarrow>
     inputs_value u (Inputs tx) = outputs_value (Outputs tx) + unat fee"
  by (auto simp: validateRegularTransaction_eq_Inr regular_tx_ok_def)

lemma validate_inputs:
  assumes "validateRegularTransaction C tx u = Inr fee"
  shows "distinct (map input_outpoint (Inputs tx))"
    and "\<forall>inp \<in> set (Inputs tx). map_of u (input_outpoint inp) \<noteq> None"
proof -
  from assms have ok: "regular_tx_ok C tx u" by (simp add: validateRegularTransaction_eq_Inr)
  then show "distinct (map input_outpoint (Inputs tx))" by (simp add: regular_tx_ok_def)
  show "\<forall>inp \<in> set (Inputs tx). map_of u (input_outpoint inp) \<noteq> None"
  proof
    fix inp assume "inp \<in> set (Inputs tx)"
    then obtain i where "(i, inp) \<in> set (List.enumerate 0 (Inputs tx))"
      using element_enumerate by metis
    with ok show "map_of u (input_outpoint inp) \<noteq> None"
      by (fastforce simp: regular_tx_ok_def input_ok_def)
  qed
qed

text \<open>Validation reads the unspent outputs only at the inputs of the transaction.\<close>

lemma validateRegularTransaction_cong:
  assumes "\<And>inp. inp \<in> set (Inputs tx) \<Longrightarrow> map_of u (input_outpoint inp) = map_of v (input_outpoint inp)"
  shows "validateRegularTransaction C tx u = validateRegularTransaction C tx v"
proof -
  have "foldE (spendInput C tx u) st (List.enumerate 0 (Inputs tx)) =
      foldE (spendInput C tx v) st (List.enumerate 0 (Inputs tx))" for st
  proof (rule foldE_cong [OF refl refl])
    fix t x assume "x \<in> set (List.enumerate 0 (Inputs tx))"
    then have "snd x \<in> set (Inputs tx)"
      using enumerate_element by (metis prod.collapse)
    then have "map_of u (input_outpoint (snd x)) = map_of v (input_outpoint (snd x))"
      by (rule assms)
    then show "spendInput C tx u t x = spendInput C tx v t x"
      by (cases x; cases t) (simp add: spendInput_def Let_def)
  qed
  then show ?thesis by (simp add: validateRegularTransaction_def)
qed

lemma validateCoinbase_eq_Inr:
  "validateCoinbase C tx m = Inr () \<longleftrightarrow>
     Coinbase tx \<and> Inputs tx = [] \<and> length (Outputs tx) \<le> 1 \<and> (Outputs tx = [] \<longrightarrow> m = 0) \<and>
     encodedSize tx \<le> MaxTransactionBytes \<and> ID tx = ComputeID C tx \<and> outputs_ok C (Outputs tx) \<and>
     outputs_value (Outputs tx) = unat m"
proof -
  have "sumOutputs C (Outputs tx) = Inr m \<longleftrightarrow>
      outputs_ok C (Outputs tx) \<and> outputs_value (Outputs tx) = unat m"
    using unat_less_64 [of m] by (auto simp: sumOutputs_eq_Inr)
  then have "attempt (sumOutputs C (Outputs tx)) (\<lambda>total.
        if total \<noteq> m then Inl (Errorf ''coinbase reward must equal subsidy plus fees'')
        else Inr ()) = Inr () \<longleftrightarrow>
      outputs_ok C (Outputs tx) \<and> outputs_value (Outputs tx) = unat m"
    by (auto simp: res_simps split: if_splits)
  then show ?thesis by (auto simp: validateCoinbase_def)
qed

end
