(* ===== verification/Coins.thy ===== *)
theory Coins
  imports Coin_Store Transaction
begin

text \<open>
  The unspent outputs of \<open>internal/core/chain.go\<close> and where they come from: applying the inputs and
  outputs of a transaction, coinbase maturity, and the outputs that may be spent at a height. The maps
  are one provider of the interface \<open>coin_store\<close>.
\<close>

section \<open>Operations\<close>

record output_origin =
  CreatedHeight :: u64
  FromCoinbase :: bool

type_synonym output_origins = "(outpoint \<times> output_origin) list"

type_synonym coins = "utxo \<times> output_origins"

definition applyOutput :: "transaction \<Rightarrow> u64 \<Rightarrow> bool \<Rightarrow> coins \<Rightarrow> nat \<times> tx_output \<Rightarrow> coins res" where
  "applyOutput tx height coinbase cs ix =
     (case (cs, ix) of ((utxo, origins), (index, output)) \<Rightarrow>
      let outpoint = Outpoint (ID tx) (word_of_nat index) in
      if map_of utxo outpoint \<noteq> None then Inl (Errorf ''duplicate output'')
      else Inr (AList.update outpoint output utxo,
                AList.update outpoint \<lparr>CreatedHeight = height, FromCoinbase = coinbase\<rparr> origins))"

definition applyOutputs :: "transaction \<Rightarrow> u64 \<Rightarrow> bool \<Rightarrow> coins \<Rightarrow> coins res" where
  "applyOutputs tx height coinbase cs =
     foldE (applyOutput tx height coinbase) cs (List.enumerate 0 (Outputs tx))"

definition deleteInput :: "coins \<Rightarrow> tx_input \<Rightarrow> coins" where
  "deleteInput cs input =
     (case cs of (utxo, origins) \<Rightarrow>
        (AList.delete (input_outpoint input) utxo, AList.delete (input_outpoint input) origins))"

definition applyRegularTransaction :: "transaction \<Rightarrow> u64 \<Rightarrow> coins \<Rightarrow> coins res" where
  "applyRegularTransaction tx height cs =
     applyOutputs tx height False (foldl deleteInput cs (Inputs tx))"

definition IsCoinbaseMature :: "u64 \<Rightarrow> u64 \<Rightarrow> bool" where
  "IsCoinbaseMature createdHeight spendingHeight =
     (if spendingHeight < createdHeight then False
      else if spendingHeight < CoinbaseMaturityActivationHeight then True
      else spendingHeight - createdHeight \<ge> CoinbaseMaturity)"

definition validateCoinbaseMaturity :: "transaction \<Rightarrow> output_origins \<Rightarrow> u64 \<Rightarrow> unit res" where
  "validateCoinbaseMaturity tx origins spendingHeight =
     checkAll (\<lambda>input.
       case map_of origins (input_outpoint input) of
         None \<Rightarrow> Inl (Errorf ''input has no chain origin'')
       | Some origin \<Rightarrow>
           if FromCoinbase origin \<and> \<not> IsCoinbaseMature (CreatedHeight origin) spendingHeight
           then Inl (Errorf ''coinbase input is immature'') else Inr ()) (Inputs tx)"

definition matureUTXO :: "utxo \<Rightarrow> output_origins \<Rightarrow> u64 \<Rightarrow> utxo" where
  "matureUTXO utxo origins spendingHeight =
     filter (\<lambda>(outpoint, output).
       case map_of origins outpoint of
         None \<Rightarrow> False
       | Some origin \<Rightarrow> \<not> (FromCoinbase origin \<and> \<not> IsCoinbaseMature (CreatedHeight origin) spendingHeight)) utxo"

section \<open>The maps as a coin store\<close>

type_synonym coin = "tx_output \<times> output_origin"

definition coins_wf :: "coins \<Rightarrow> bool" where
  "coins_wf cs \<longleftrightarrow> distinct (map fst (fst cs)) \<and> distinct (map fst (snd cs)) \<and>
     fst ` set (fst cs) = fst ` set (snd cs)"

definition coins_get :: "coins \<Rightarrow> outpoint \<Rightarrow> coin option" where
  "coins_get cs op =
     (case map_of (fst cs) op of None \<Rightarrow> None | Some out \<Rightarrow> map_option (Pair out) (map_of (snd cs) op))"

definition coins_put :: "coins \<Rightarrow> outpoint \<Rightarrow> coin \<Rightarrow> coins" where
  "coins_put cs op c = (AList.update op (fst c) (fst cs), AList.update op (snd c) (snd cs))"

definition coins_del :: "coins \<Rightarrow> outpoint \<Rightarrow> coins" where
  "coins_del cs op = (AList.delete op (fst cs), AList.delete op (snd cs))"

definition coin_worth :: "coin \<Rightarrow> nat" where
  "coin_worth c = unat (Amount (fst c))"

definition utxo_value :: "utxo \<Rightarrow> nat" where
  "utxo_value u = (\<Sum>(op, out)\<leftarrow>u. unat (Amount out))"

definition coins_value :: "coins \<Rightarrow> nat" where
  "coins_value cs = utxo_value (fst cs)"

lemma update_absent: "map_of al k = None \<Longrightarrow> AList.update k v al = al @ [(k, v)]"
  by (induction al) (auto split: if_splits)

lemma coins_get_None: "coins_wf cs \<Longrightarrow> coins_get cs op = None \<longleftrightarrow> map_of (fst cs) op = None"
  by (auto simp: coins_get_def coins_wf_def map_of_eq_None_iff split: option.splits)

lemma coins_absent:
  "coins_wf cs \<Longrightarrow> coins_get cs op = None \<Longrightarrow> map_of (fst cs) op = None \<and> map_of (snd cs) op = None"
  by (auto simp: coins_get_None coins_wf_def map_of_eq_None_iff)

lemma keys_delete: "fst ` set (AList.delete k al) = fst ` set al - {k}"
  by (metis delete_keys set_map set_removeAll)

lemma utxo_value_delete:
  assumes "distinct (map fst u)" "map_of u op = Some out"
  shows "utxo_value (AList.delete op u) + unat (Amount out) = utxo_value u"
  using assms
proof (induction u)
  case (Cons x u)
  show ?case
  proof (cases "fst x = op")
    case True
    then have "op \<notin> fst ` set u" using Cons.prems by auto
    then have "AList.delete op u = u" by (rule delete_id)
    with True Cons.prems show ?thesis by (cases x) (simp add: utxo_value_def)
  next
    case False
    with Cons show ?thesis by (cases x) (auto simp: utxo_value_def)
  qed
qed simp

interpretation chain_coins: coin_store coins_wf coins_get coins_put coins_del coin_worth coins_value
proof
  fix cs :: coins and op c
  assume wf: "coins_wf cs"
  show "coins_wf (coins_del cs op)"
    using wf by (simp add: coins_wf_def coins_del_def delete_keys distinct_removeAll keys_delete)
  show "coins_get (coins_del cs op) = (coins_get cs)(op := None)"
    by (auto simp: coins_get_def coins_del_def delete_conv' fun_eq_iff split: option.splits)
  show "coins_value (coins_del cs op) + coin_worth c = coins_value cs" if "coins_get cs op = Some c"
    using that wf utxo_value_delete [of "fst cs" op "fst c"]
    by (auto simp: coins_get_def coins_del_def coins_value_def coin_worth_def coins_wf_def split: option.splits)
  assume none: "coins_get cs op = None"
  note absent = coins_absent [OF wf none]
  show "coins_wf (coins_put cs op c)"
    using wf absent by (auto simp: coins_wf_def coins_put_def update_absent map_of_eq_None_iff)
  show "coins_get (coins_put cs op c) = (coins_get cs)(op := Some c)"
    by (auto simp: coins_get_def coins_put_def update_conv' fun_eq_iff split: option.splits)
  show "coins_value (coins_put cs op c) = coins_value cs + coin_worth c"
    using absent by (simp add: coins_put_def update_absent coins_value_def utxo_value_def coin_worth_def)
qed


section \<open>What applying a transaction does\<close>

lemma coins_wf_Nil [simp]: "coins_wf ([], [])"
  by (simp add: coins_wf_def)

lemma coins_value_Nil [simp]: "coins_value ([], []) = 0"
  by (simp add: coins_value_def utxo_value_def)

text \<open>The coins a transaction creates.\<close>

definition new_coins :: "transaction \<Rightarrow> u64 \<Rightarrow> bool \<Rightarrow> (outpoint \<times> coin) list" where
  "new_coins tx height coinbase =
     map (\<lambda>(index, output). (Outpoint (ID tx) (word_of_nat index),
       (output, \<lparr>CreatedHeight = height, FromCoinbase = coinbase\<rparr>))) (List.enumerate 0 (Outputs tx))"

lemma worth_new_coins: "(\<Sum>(op, c)\<leftarrow>new_coins tx height coinbase. coin_worth c) = outputs_value (Outputs tx)"
proof -
  have "(\<Sum>(op, c)\<leftarrow>map (\<lambda>(index, output). (Outpoint (ID tx) (word_of_nat index),
       (output, og))) (List.enumerate n outs). coin_worth c) = outputs_value outs" for n outs and og :: output_origin
    by (induction outs arbitrary: n) (simp_all add: coin_worth_def)
  then show ?thesis by (simp add: new_coins_def)
qed

lemma new_coins_id: "op \<in> fst ` set (new_coins tx height coinbase) \<Longrightarrow> OpTxID op = ID tx"
  by (auto simp: new_coins_def)

lemma foldE_map: "foldE f s (map g xs) = foldE (\<lambda>s x. f s (g x)) s xs"
  by (induction xs arbitrary: s) simp_all

lemma applyOutputs_loop:
  assumes "coins_wf cs"
  shows "applyOutputs tx height coinbase cs =
     foldE (\<lambda>cs (op, c). if coins_get cs op \<noteq> None then Inl (Errorf ''duplicate output'') else Inr (coins_put cs op c))
       cs (new_coins tx height coinbase)"
proof -
  let ?f = "\<lambda>cs (op, c). if coins_get cs op \<noteq> None then Inl (Errorf ''duplicate output'') else Inr (coins_put cs op c)"
  let ?g = "\<lambda>(index, output). (Outpoint (ID tx) (word_of_nat index),
       (output, \<lparr>CreatedHeight = height, FromCoinbase = coinbase\<rparr>))"
  have step: "applyOutput tx height coinbase cs x = ?f cs (?g x)" if "coins_wf cs" for cs x
    using coins_get_None [OF that, of "Outpoint (ID tx) (word_of_nat (fst x))"]
    by (cases cs; cases x) (auto simp: applyOutput_def coins_put_def Let_def)
  have "foldE (applyOutput tx height coinbase) cs xs = foldE ?f cs (map ?g xs)" for xs
    using assms
  proof (induction xs arbitrary: cs)
    case (Cons x xs)
    show ?case
    proof (cases "?f cs (?g x)")
      case (Inr cs2)
      then have "coins_wf cs2"
        using Cons.prems by (auto intro!: chain_coins.wf_put simp del: not_None_eq split: if_splits prod.splits)
      with Inr Cons.IH step [OF Cons.prems, of x] show ?thesis by simp
    qed (use step [OF Cons.prems, of x] in simp)
  qed simp
  then show ?thesis by (simp add: applyOutputs_def new_coins_def)
qed

lemma applyOutputs_eq_Inr:
  assumes "coins_wf cs"
  shows "applyOutputs tx height coinbase cs = Inr cs' \<longleftrightarrow>
     distinct (map fst (new_coins tx height coinbase)) \<and>
     (\<forall>op \<in> fst ` set (new_coins tx height coinbase). coins_get cs op = None) \<and>
     cs' = foldl (\<lambda>cs (op, c). coins_put cs op c) cs (new_coins tx height coinbase)"
  by (simp only: applyOutputs_loop [OF assms] chain_coins.put_loop [OF assms])

lemma applyOutputs_effect:
  assumes "coins_wf cs" "applyOutputs tx height coinbase cs = Inr cs'"
  shows "coins_wf cs'" "coins_value cs' = coins_value cs + outputs_value (Outputs tx)"
    and "coins_get cs' = (\<lambda>op. case map_of (new_coins tx height coinbase) op of
           Some c \<Rightarrow> Some c | None \<Rightarrow> coins_get cs op)"
  using assms(2) chain_coins.put_all [OF assms(1)]
  by (auto simp: applyOutputs_eq_Inr [OF assms(1)] worth_new_coins)

lemma deleteInputs: "foldl deleteInput cs ins = foldl coins_del cs (map input_outpoint ins)"
proof -
  have "deleteInput = (\<lambda>cs i. coins_del cs (input_outpoint i))"
    by (intro ext) (simp add: deleteInput_def coins_del_def case_prod_unfold)
  then show ?thesis by (simp add: foldl_map)
qed

lemma inputs_value_coins:
  assumes "coins_wf cs" "\<forall>inp \<in> set ins. map_of (fst cs) (input_outpoint inp) \<noteq> None"
  shows "(\<Sum>op\<leftarrow>map input_outpoint ins. coin_worth (the (coins_get cs op))) = inputs_value (fst cs) ins"
  unfolding inputs_value_def map_map
proof (intro arg_cong [where f = sum_list] map_cong refl)
  fix i assume "i \<in> set ins"
  then have "map_of (fst cs) (input_outpoint i) \<noteq> None" using assms(2) by blast
  then obtain c where c: "coins_get cs (input_outpoint i) = Some c"
    using coins_get_None [OF assms(1), of "input_outpoint i"] by auto
  then have "map_of (fst cs) (input_outpoint i) = Some (fst c)"
    by (auto simp: coins_get_def split: option.splits)
  with c show "((\<lambda>op. coin_worth (the (coins_get cs op))) \<circ> input_outpoint) i =
      unat (Amount (the (map_of (fst cs) (input_outpoint i))))"
    by (simp add: coin_worth_def)
qed

lemma applyRegular_effect:
  assumes wf: "coins_wf cs" and ok: "validateRegularTransaction C tx (fst cs) = Inr fee"
    and app: "applyRegularTransaction tx height cs = Inr cs'"
  shows "coins_wf cs'" "coins_value cs' + unat fee = coins_value cs"
    and "coins_get cs' = (\<lambda>op. case map_of (new_coins tx height False) op of
           Some c \<Rightarrow> Some c
         | None \<Rightarrow> if op \<in> set (map input_outpoint (Inputs tx)) then None else coins_get cs op)"
proof -
  let ?ops = "map input_outpoint (Inputs tx)"
  let ?cs = "foldl coins_del cs ?ops"
  have d: "distinct ?ops" "\<forall>inp \<in> set (Inputs tx). map_of (fst cs) (input_outpoint inp) \<noteq> None"
    using validate_inputs [OF ok] by simp_all
  then have present: "\<forall>op \<in> set ?ops. coins_get cs op \<noteq> None"
    using coins_get_None [OF wf] by auto
  have wf': "coins_wf ?cs" by (rule chain_coins.wf_dels [OF wf])
  have app': "applyOutputs tx height False ?cs = Inr cs'"
    using app by (simp only: applyRegularTransaction_def deleteInputs)
  note eff = applyOutputs_effect [OF wf' app']
  show "coins_wf cs'" by (rule eff(1))
  have "coins_value ?cs + inputs_value (fst cs) (Inputs tx) = coins_value cs"
    using chain_coins.content_dels [OF wf d(1) present] inputs_value_coins [OF wf d(2)] by simp
  then show "coins_value cs' + unat fee = coins_value cs"
    using eff(2) validate_fee [OF ok] by simp
  show "coins_get cs' = (\<lambda>op. case map_of (new_coins tx height False) op of
           Some c \<Rightarrow> Some c
         | None \<Rightarrow> if op \<in> set (map input_outpoint (Inputs tx)) then None else coins_get cs op)"
    by (simp only: eff(3) chain_coins.get_dels [OF wf])
qed

end
