(* ===== verification/Block.thy ===== *)
theory Block
  imports Transaction
begin

text \<open>
  \<open>internal/core/block.go\<close>: the genesis block, the header hash, proof of work and the search for it,
  the difficulty rules, the median of past times, the Merkle root and the timestamp of a new block.
\<close>

section \<open>Headers\<close>

definition genesisTimestamp :: int where
  "genesisTimestamp = 1783983600"

definition zeroHash :: string where
  "zeroHash = replicate 64 (CHR ''0'')"

definition encodeHeader :: "block \<Rightarrow> bytes" where
  "encodeHeader b =
     enc_string NetworkID @ enc_uint32 (Version b) @ enc_uint64 (Height b) @ enc_int64 (Timestamp b) @
     enc_string (PreviousHash b) @ enc_string (MerkleRoot b) @ enc_uint8 (Difficulty b) @
     enc_uint64 (Nonce b)"

lemma encodeHeader_prefix:
  assumes "in_int64 (Timestamp a)" "in_int64 (Timestamp b)"
    and "length (PreviousHash a) < 18446744073709551616" "length (PreviousHash b) < 18446744073709551616"
    and "length (MerkleRoot a) < 18446744073709551616" "length (MerkleRoot b) < 18446744073709551616"
    and "encodeHeader a @ r = encodeHeader b @ s"
  shows "a\<lparr>Hash := [], Transactions := []\<rparr> = b\<lparr>Hash := [], Transactions := []\<rparr> \<and> r = s"
  using assms by (cases a; cases b) (simp add: encodeHeader_def prefix_code)

definition ComputeHash :: "crypto \<Rightarrow> block \<Rightarrow> string" where
  "ComputeHash C b = hashHex C (encodeHeader b)"

section \<open>Merkle root\<close>

text \<open>One pass of the loop: adjacent hashes are combined, an odd last one with itself.\<close>

fun merkleLevel :: "(bytes \<Rightarrow> bytes) \<Rightarrow> bytes list \<Rightarrow> bytes list" where
  "merkleLevel H (left # right # level) = H (left @ right) # merkleLevel H level"
| "merkleLevel H [left] = [H (left @ left)]"
| "merkleLevel H [] = []"

lemma length_merkleLevel [simp]: "length (merkleLevel H level) = (length level + 1) div 2"
  by (induction H level rule: merkleLevel.induct) auto

function merkleLoop :: "(bytes \<Rightarrow> bytes) \<Rightarrow> bytes list \<Rightarrow> bytes list" where
  "merkleLoop H level = (if length level > 1 then merkleLoop H (merkleLevel H level) else level)"
  by pat_completeness auto
termination by (relation "measure (\<lambda>(H, level). length level)") auto

declare merkleLoop.simps [simp del]

definition merkleRoot :: "crypto \<Rightarrow> transaction list \<Rightarrow> string" where
  "merkleRoot C transactions =
     (if transactions = [] then hex_encode (Sum256 C [])
      else case foldE (\<lambda>level tx. attempt (decodeHash (ID tx)) (\<lambda>decoded. Inr (level @ [decoded]))) [] transactions of
        Inl _ \<Rightarrow> []
      | Inr level \<Rightarrow> hex_encode (merkleLoop (Sum256 C) level ! 0))"

definition GenesisBlock :: "crypto \<Rightarrow> block" where
  "GenesisBlock C =
     (let b = \<lparr>Version = LegacyBlockVersion, Height = 0, Timestamp = genesisTimestamp,
               PreviousHash = zeroHash, MerkleRoot = merkleRoot C [], Difficulty = 0, Nonce = 0,
               Hash = [], Transactions = []\<rparr>
      in b\<lparr>Hash := ComputeHash C b\<rparr>)"

definition NewState :: "crypto \<Rightarrow> state" where
  "NewState C = \<lparr>StVersion = StateVersion, StName = ChainName, StSymbol = ChainSymbol,
     Blocks = [GenesisBlock C], Pending = []\<rparr>"

section \<open>Proof of work\<close>

text \<open>The inner loop of \<open>leadingZeroBits\<close>, from the highest bit of a byte down.\<close>

function maskLoop :: "u8 \<Rightarrow> u8 \<Rightarrow> nat" where
  "maskLoop b msk = (if msk \<noteq> 0 \<and> b AND msk = 0 then Suc (maskLoop b (drop_bit 1 msk)) else 0)"
  by pat_completeness auto
termination
proof (relation "measure (\<lambda>(b, msk). unat msk)")
  fix b msk :: u8 assume "msk \<noteq> 0 \<and> b AND msk = 0"
  then have "0 < unat msk" by (simp add: unat_gt_0)
  then show "((b, drop_bit 1 msk), (b, msk)) \<in> measure (\<lambda>(b, msk). unat msk)"
    by (simp add: unat_drop_bit_eq drop_bit_eq_div unat_div)
qed simp

declare maskLoop.simps [simp del]

fun leadingZeroBits :: "bytes \<Rightarrow> nat" where
  "leadingZeroBits [] = 0"
| "leadingZeroBits (b # bs) = (if b = 0 then 8 + leadingZeroBits bs else maskLoop b 0x80)"

definition HasValidWork :: "block \<Rightarrow> bool" where
  "HasValidWork b =
     (case decodeHash (Hash b) of
        Inl _ \<Rightarrow> False
      | Inr decoded \<Rightarrow> leadingZeroBits decoded \<ge> unat (Difficulty b))"

section \<open>Median of past times\<close>

definition medianTimeAt :: "block list \<Rightarrow> int \<Rightarrow> int res" where
  "medianTimeAt blocks end =
     (let start = max 0 (end - int MedianTimeBlocks + 1) in
      attempt (foldE (\<lambda>timestamps index.
          attempt (go_index blocks index) (\<lambda>b. Inr (timestamps @ [Timestamp b]))) [] [start..end]) (\<lambda>timestamps.
      let timestamps = sort timestamps in
      go_index timestamps (int (length timestamps div 2))))"

definition medianTimePast :: "block list \<Rightarrow> int res" where
  "medianTimePast blocks = medianTimeAt blocks (int (length blocks) - 1)"

section \<open>Difficulty\<close>

definition clampDifficulty :: "int \<Rightarrow> u8" where
  "clampDifficulty difficulty =
     (if difficulty < MinimumDifficulty then word_of_int MinimumDifficulty
      else if difficulty > MaximumDifficulty then word_of_int MaximumDifficulty
      else word_of_int difficulty)"

definition expectedDifficulty :: "block list \<Rightarrow> u64 \<Rightarrow> u8 res" where
  "expectedDifficulty blocks nextHeight =
     (if nextHeight = 1 then Inr InitialDifficulty
      else attempt (go_index blocks (int (length blocks) - 1)) (\<lambda>last.
        let previous = Difficulty last in
        if nextHeight < word_of_nat FirstAdjustment \<or> nextHeight mod word_of_nat AdjustmentBlocks \<noteq> 0
        then Inr previous
        else
          attempt (medianTimeAt blocks (int (length blocks) - 1)) (\<lambda>lastTime.
          attempt (medianTimeAt blocks (int (length blocks) - 1 - int AdjustmentBlocks)) (\<lambda>firstTime.
          let actualSeconds = wrap64 (lastTime - firstTime);
              targetSeconds = int AdjustmentBlocks * TargetBlockSeconds
          in Inr (
            if actualSeconds \<le> targetSeconds sdiv 4 then clampDifficulty (uint previous + 2)
            else if actualSeconds < targetSeconds sdiv 2 then clampDifficulty (uint previous + 1)
            else if actualSeconds \<ge> targetSeconds * 4 then clampDifficulty (uint previous - 2)
            else if actualSeconds > targetSeconds * 2 then clampDifficulty (uint previous - 1)
            else previous)))))"

text \<open>The quotient of big integers in Go truncates towards zero.\<close>

definition roundedQuotient :: "int \<Rightarrow> int \<Rightarrow> int" where
  "roundedQuotient numerator denominator =
     (let half = denominator sdiv 2;
          adjusted = (if numerator < 0 then numerator - half else numerator + half)
      in adjusted sdiv denominator)"

definition asertDifficulty :: "u64 \<Rightarrow> int \<Rightarrow> u8" where
  "asertDifficulty nextHeight nextTimestamp =
     (let heightDelta = uint (nextHeight - ASERTAnchorHeight);
          idealElapsed = heightDelta * TargetBlockSeconds;
          actualElapsed = nextTimestamp - ASERTAnchorTimestamp;
          deviation = idealElapsed - actualElapsed;
          correction = roundedQuotient deviation ASERTHalfLifeSeconds;
          maximum = MaximumDifficulty - uint ASERTAnchorDifficulty;
          minimum = - (uint ASERTAnchorDifficulty - MinimumDifficulty)
      in if correction > maximum then word_of_int MaximumDifficulty
         else if correction < minimum then word_of_int MinimumDifficulty
         else word_of_int (uint ASERTAnchorDifficulty + correction))"

definition expectedDifficultyAt :: "block list \<Rightarrow> u64 \<Rightarrow> int \<Rightarrow> u8 res" where
  "expectedDifficultyAt blocks nextHeight nextTimestamp =
     (if RulesDifficulty (RulesAtHeight nextHeight) = LegacyEpochDifficulty
      then expectedDifficulty blocks nextHeight
      else Inr (asertDifficulty nextHeight nextTimestamp))"

definition BlockVersion :: "u64 \<Rightarrow> u32" where
  "BlockVersion height = RulesVersion (RulesAtHeight height)"

section \<open>The timestamp of a new block\<close>

definition nextTimestampAt :: "block list \<Rightarrow> int \<Rightarrow> int res" where
  "nextTimestampAt blocks now =
     attempt (medianTimePast blocks) (\<lambda>median.
     attempt (go_index blocks (int (length blocks) - 1)) (\<lambda>last.
     let minimum = wrap64 (median + 1);
         nextHeight = Height last + 1;
         minimum = (if RequireMonotonicTimestamp (RulesAtHeight nextHeight) \<and> Timestamp last \<ge> minimum
                    then wrap64 (Timestamp last + 1) else minimum)
     in Inr (if now < minimum then minimum else now)))"


section \<open>Lemmas on proof of work\<close>

lemma maskLoop_zero [simp]: "maskLoop b 0 = 0"
  by (subst maskLoop.simps) simp

lemma push_bit_1_Suc: "k < 7 \<Longrightarrow> drop_bit 1 (push_bit (Suc k) 1 :: u8) = push_bit k 1"
  by (rule bit_word_eqI) (auto simp: bit_simps)

lemma push_bit_1_nonzero: "k < 8 \<Longrightarrow> (push_bit k 1 :: u8) \<noteq> 0"
  by (simp add: push_bit_of_1)

lemma and_push_bit_1: "k < 8 \<Longrightarrow> (b :: u8) AND push_bit k 1 = 0 \<longleftrightarrow> \<not> bit b k"
  by (metis and_exp_eq_0_iff_not_bit push_bit_of_1)

lemma bit_top:
  assumes "unat (b :: u8) < 2 ^ Suc k"
  shows "\<not> bit b k \<longleftrightarrow> unat b < 2 ^ k"
proof -
  have "unat b div 2 ^ k < 2" using assms by (simp add: less_mult_imp_div_less mult.commute)
  then have "odd (unat b div 2 ^ k) \<longleftrightarrow> \<not> unat b < 2 ^ k"
    by (auto simp: less_2_cases_iff div_eq_0_iff)
  then have "\<not> bit (unat b) k \<longleftrightarrow> unat b < 2 ^ k" by (auto simp: bit_iff_odd)
  then show ?thesis by (simp add: bit_unsigned_iff)
qed

lemma maskLoop_ge:
  assumes "unat b < 2 ^ Suc k" "k < 8" "d \<le> Suc k"
  shows "d \<le> maskLoop b (push_bit k 1) \<longleftrightarrow> unat b < 2 ^ (Suc k - d)"
  using assms
proof (induction k arbitrary: d)
  case 0
  then have "unat b < 2" "d = 0 \<or> d = 1" by auto
  then show ?case
    using bit_top [of b 0] and_push_bit_1 [of 0 b] by (subst maskLoop.simps) (auto simp: drop_bit_eq_div)
next
  case (Suc k)
  have nz: "(push_bit (Suc k) 1 :: u8) \<noteq> 0"
    by (rule push_bit_1_nonzero) (rule Suc.prems(2))
  show ?case
  proof (cases "bit b (Suc k)")
    case True
    then have "maskLoop b (push_bit (Suc k) 1) = 0"
      using and_push_bit_1 [of "Suc k" b] Suc.prems(2) by (subst maskLoop.simps) auto
    moreover have "2 ^ Suc k \<le> unat b" using bit_top [OF Suc.prems(1)] True by simp
    moreover have "(2::nat) ^ (Suc (Suc k) - d) \<le> 2 ^ Suc k" if "d \<noteq> 0"
      using that by (intro power_increasing) auto
    ultimately show ?thesis using Suc.prems(1) by (cases "d = 0") auto
  next
    case False
    then have "maskLoop b (push_bit (Suc k) 1) = Suc (maskLoop b (push_bit k 1))"
      using and_push_bit_1 [of "Suc k" b] Suc.prems(2) nz push_bit_1_Suc [of k]
      by (subst maskLoop.simps) auto
    moreover have "unat b < 2 ^ Suc k" using bit_top [OF Suc.prems(1)] False by simp
    ultimately show ?thesis
      using Suc.IH [of "d - 1"] Suc.prems by (cases d) auto
  qed
qed



lemma maskLoop_byte: "d \<le> 8 \<Longrightarrow> d \<le> maskLoop b 128 \<longleftrightarrow> unat b < 2 ^ (8 - d)"
  using maskLoop_ge [of b 7 d] unsigned_less [of b] by (simp add: push_bit_eq_mult)

lemma be_nat_Cons: "be_nat (b # bs) = unat b * 256 ^ length bs + be_nat bs"
  by (induction bs rule: rev_induct) (simp_all add: be_nat_def)

lemma mult_plus_less_pow:
  assumes "r < (256::nat) ^ n" "d \<le> 8"
  shows "a * 256 ^ n + r < 2 ^ (8 * Suc n - d) \<longleftrightarrow> a < 2 ^ (8 - d)"
proof -
  have "(256::nat) ^ n = 2 ^ (8 * n)" by (simp add: power_mult)
  then have p: "(2::nat) ^ (8 * Suc n - d) = 2 ^ (8 - d) * 256 ^ n"
    using assms(2) by (simp flip: power_add)
  show ?thesis
  proof
    assume "a * 256 ^ n + r < 2 ^ (8 * Suc n - d)"
    then have "a * 256 ^ n < 2 ^ (8 - d) * 256 ^ n" unfolding p by linarith
    then show "a < 2 ^ (8 - d)" by simp
  next
    assume "a < 2 ^ (8 - d)"
    then have "(a + 1) * 256 ^ n \<le> 2 ^ (8 - d) * 256 ^ n" by (intro mult_right_mono) simp_all
    with assms(1) show "a * 256 ^ n + r < 2 ^ (8 * Suc n - d)"
      unfolding p add_mult_distrib mult_1 by linarith
  qed
qed

lemma leadingZeroBits_ge:
  "d \<le> 8 * length bs \<Longrightarrow> d \<le> leadingZeroBits bs \<longleftrightarrow> be_nat bs < 2 ^ (8 * length bs - d)"
proof (induction bs arbitrary: d)
  case (Cons b bs)
  have r: "be_nat bs < 256 ^ length bs" by (rule be_nat_bound)
  show ?case
  proof (cases "d \<le> 8")
    case True
    show ?thesis
      using mult_plus_less_pow [OF r True, of "unat b"] maskLoop_byte [OF True, of b] True
      by (auto simp: be_nat_Cons)
  next
    case d: False
    show ?thesis
    proof (cases "b = 0")
      case True
      have "d \<le> 8 + leadingZeroBits bs \<longleftrightarrow> d - 8 \<le> leadingZeroBits bs" by linarith
      moreover have "8 * length (b # bs) - d = 8 * length bs - (d - 8)" using d by simp
      ultimately show ?thesis
        using True Cons.IH [of "d - 8"] Cons.prems by (simp add: be_nat_Cons)
    next
      case False
      then have "0 < unat b" by (simp add: unat_gt_0)
      then have m: "\<not> 8 \<le> maskLoop b 128" and k: "256 ^ length bs \<le> unat b * 256 ^ length bs"
        using maskLoop_byte [of 8 b] by simp_all
      have "(2::nat) ^ (8 * length (b # bs) - d) \<le> 2 ^ (8 * length bs)"
        using d by (intro power_increasing) auto
      also have "(2::nat) ^ (8 * length bs) = 256 ^ length bs" by (simp add: power_mult)
      finally have "\<not> be_nat (b # bs) < 2 ^ (8 * length (b # bs) - d)"
        using k unfolding be_nat_Cons by linarith
      with m d False show ?thesis by simp
    qed
  qed
qed simp

lemma HasValidWork_iff:
  "HasValidWork b \<longleftrightarrow>
     (\<exists>bs. decodeHash (Hash b) = Inr bs \<and> be_nat bs < 2 ^ (256 - unat (Difficulty b)))"
proof -
  have "unat (Difficulty b) < 2 ^ LENGTH(8)" by (rule unsigned_less)
  then have "unat (Difficulty b) \<le> 256" by simp
  then have "unat (Difficulty b) \<le> leadingZeroBits bs \<longleftrightarrow> be_nat bs < 2 ^ (256 - unat (Difficulty b))"
    if "decodeHash (Hash b) = Inr bs" for bs
    using that leadingZeroBits_ge [of "unat (Difficulty b)" bs] decodeHash_size [OF that] by simp
  then show ?thesis by (auto simp: HasValidWork_def split: sum.splits)
qed


section \<open>Lemmas on difficulty\<close>

lemma uint_word_of_int_8: "0 \<le> d \<Longrightarrow> d < 256 \<Longrightarrow> uint (word_of_int d :: u8) = d"
  by (simp add: uint_word_of_int)

lemma clampDifficulty_uint: "uint (clampDifficulty d) = max 4 (min 255 d)"
proof -
  consider "d < 4" | "4 \<le> d" "d \<le> 255" | "255 < d" by linarith
  then show ?thesis
    by cases (simp_all add: clampDifficulty_def MinimumDifficulty_def MaximumDifficulty_def uint_word_of_int_8)
qed

lemma roundedQuotient_600:
  "roundedQuotient n 600 = (if n < 0 then - ((300 - n) div 600) else (n + 300) div 600)"
proof -
  have half: "(600::int) sdiv 2 = 300" by (simp add: signed_divide_int_def)
  show ?thesis
  proof (cases "n < 0")
    case True
    then have "sgn (n - 300) = -1" "\<bar>n - 300\<bar> = 300 - n" by (simp_all add: sgn_if)
    with True show ?thesis by (simp add: roundedQuotient_def half Let_def signed_divide_int_def)
  next
    case False
    then have "sgn (n + 300) = 1" "\<bar>n + 300\<bar> = n + 300" by (simp_all add: sgn_if)
    with False show ?thesis by (simp add: roundedQuotient_def half Let_def signed_divide_int_def)
  qed
qed

lemma roundedQuotient_nearest: "\<bar>600 * roundedQuotient n 600 - n\<bar> \<le> 300"
proof -
  have bounds: "600 * (m div 600) \<le> m \<and> m < 600 * (m div 600) + 600" for m :: int
    using div_mult_mod_eq [of m 600] pos_mod_bound [of 600 m] pos_mod_sign [of 600 m] by linarith
  show ?thesis
    using bounds [of "300 - n"] bounds [of "n + 300"] unfolding roundedQuotient_600 by (auto simp: abs_le_iff)
qed

lemma roundedQuotient_mono:
  assumes "m \<le> n"
  shows "roundedQuotient m 600 \<le> roundedQuotient n 600"
proof -
  have "(300 - n) div 600 \<le> (300 - m) div 600" "(m + 300) div 600 \<le> (n + 300) div 600"
    using assms by (simp_all add: zdiv_mono1)
  moreover have "0 \<le> (300 - m) div 600" if "m < 0" using that by (simp add: pos_imp_zdiv_nonneg_iff)
  moreover have "0 \<le> (n + 300) div 600" if "0 \<le> n" using that by (simp add: pos_imp_zdiv_nonneg_iff)
  ultimately show ?thesis using assms by (auto simp: roundedQuotient_600)
qed

text \<open>How far the chain lags behind its ideal schedule, in seconds.\<close>

definition schedule_lag :: "u64 \<Rightarrow> int \<Rightarrow> int" where
  "schedule_lag height t = 10 * (uint height - 123265) - (t - 1785201853)"

lemma asertDifficulty_uint:
  assumes "ASERTAnchorHeight \<le> height"
  shows "uint (asertDifficulty height t) =
     max 4 (min 255 (35 + roundedQuotient (schedule_lag height t) 600))"
proof -
  have "uint (height - ASERTAnchorHeight) = uint height - 123265"
    using uint_sub_if' [of height ASERTAnchorHeight] assms
    by (simp add: consensus_consts word_le_def)
  then have lag: "uint (height - ASERTAnchorHeight) * TargetBlockSeconds - (t - ASERTAnchorTimestamp) =
      schedule_lag height t"
    by (simp add: schedule_lag_def TargetBlockSeconds_def ASERTAnchorTimestamp_def)
  let ?q = "roundedQuotient (schedule_lag height t) 600"
  consider "?q < -31" | "-31 \<le> ?q" "?q \<le> 220" | "220 < ?q" by linarith
  then show ?thesis
    by cases (simp_all add: asertDifficulty_def Let_def lag ASERTHalfLifeSeconds_def ASERTAnchorDifficulty_def
        MaximumDifficulty_def MinimumDifficulty_def uint_word_of_int_8 del: of_int_add)
qed

lemma expectedDifficulty_step:
  assumes "expectedDifficulty blocks h = Inr d" and "h \<noteq> 1"
  shows "blocks \<noteq> [] \<and> (d = Difficulty (last blocks) \<or>
     (\<exists>k \<in> {-2, -1, 1, 2}. uint d = max 4 (min 255 (uint (Difficulty (last blocks)) + k))))"
proof -
  from assms have ne: "blocks \<noteq> []"
    by (auto simp: expectedDifficulty_def go_index_def res_simps split: if_splits)
  then have idx: "go_index blocks (int (length blocks) - 1) = Inr (last blocks)" by (rule go_index_last)
  let ?p = "uint (Difficulty (last blocks))"
  have "d = Difficulty (last blocks) \<or> d = clampDifficulty (?p + 2) \<or> d = clampDifficulty (?p + 1) \<or>
      d = clampDifficulty (?p - 2) \<or> d = clampDifficulty (?p - 1)"
    using assms by (simp add: expectedDifficulty_def idx res_simps Let_def split: if_splits) metis+
  then show ?thesis using ne by (auto simp: clampDifficulty_uint)
qed

section \<open>Lemmas on the median\<close>

lemma collect_timestamps:
  assumes "0 \<le> start" "end < int (length blocks)"
  shows "foldE (\<lambda>timestamps index.
          attempt (go_index blocks index) (\<lambda>b. Inr (timestamps @ [Timestamp b]))) acc [start..end] =
     Inr (acc @ map Timestamp (drop (nat start) (take (nat (end + 1)) blocks)))"
  using assms
proof (induction "nat (end + 1 - start)" arbitrary: start acc)
  case 0
  then show ?case by simp
next
  case (Suc n)
  then have le: "start \<le> end" by simp
  then have r: "[start..end] = start # [start + 1..end]" by (simp add: upto_rec1)
  have "drop (nat start) (take (nat (end + 1)) blocks) =
      blocks ! nat start # drop (nat (start + 1)) (take (nat (end + 1)) blocks)"
    using Suc.prems le by (subst Cons_nth_drop_Suc [symmetric]) (auto simp: nat_add_distrib)
  moreover have "go_index blocks start = Inr (blocks ! nat start)"
    using Suc.prems le by (simp add: go_index_def)
  ultimately show ?case
    using Suc.hyps(1) [of "start + 1"] Suc.hyps(2) Suc.prems by (simp add: r)
qed

definition median_of :: "int list \<Rightarrow> int" where
  "median_of ts = sort ts ! (length ts div 2)"

definition past_times :: "block list \<Rightarrow> int list" where
  "past_times blocks = map Timestamp (drop (length blocks - 11) blocks)"

lemma medianTimeAt_eq:
  assumes "n < length blocks"
  shows "medianTimeAt blocks (int n) = Inr (median_of (past_times (take (Suc n) blocks)))"
proof -
  have s: "nat (max 0 (int n - 10)) = Suc n - 11" by simp
  let ?ts = "past_times (take (Suc n) blocks)"
  have "?ts \<noteq> []" using assms by (auto simp: past_times_def)
  then have "length ?ts div 2 < length (sort ?ts)" by simp
  then have "go_index (sort ?ts) (int (length ?ts div 2)) = Inr (median_of ?ts)"
    unfolding median_of_def by (rule go_index_nat)
  moreover have "length (take (Suc n) blocks) - 11 = Suc n - 11" using assms by simp
  ultimately show ?thesis
    using assms collect_timestamps [of "max 0 (int n - 10)" "int n" blocks "[]"]
    by (simp add: medianTimeAt_def Let_def MedianTimeBlocks_def past_times_def nat_add_distrib s
        del: length_take)
qed

lemma medianTimePast_eq: "blocks \<noteq> [] \<Longrightarrow> medianTimePast blocks = Inr (median_of (past_times blocks))"
  using medianTimeAt_eq [of "length blocks - 1" blocks]
  by (cases blocks) (simp_all add: medianTimePast_def)

lemma medianTimePast_Nil [simp]: "medianTimePast [] = Inl (GoPanic ''index out of range'')"
  by (simp add: medianTimePast_def medianTimeAt_def Let_def go_index_def)

lemma past_times_append: "11 \<le> length ys \<Longrightarrow> past_times (xs @ ys) = past_times ys"
  by (simp add: past_times_def)

lemma past_times_nonempty [simp]: "past_times blocks = [] \<longleftrightarrow> blocks = []"
  by (cases blocks) (auto simp: past_times_def)


text \<open>The median: more than half of the past times are at most it, and at least half at least it.\<close>

lemma median_of_mem: "ts \<noteq> [] \<Longrightarrow> median_of ts \<in> set ts"
  unfolding median_of_def by (metis div_less_dividend length_greater_0_conv length_sort nth_mem one_less_numeral_iff semiring_norm(76) set_sort)

lemma median_of_le:
  assumes "ts \<noteq> []"
  shows "length ts div 2 < length (filter (\<lambda>t. t \<le> median_of ts) ts)"
proof -
  let ?s = "sort ts" and ?k = "length ts div 2"
  have k: "?k < length ?s" using assms by simp
  have "\<forall>t \<in> set (take (Suc ?k) ?s). t \<le> ?s ! ?k"
    using k by (auto simp: in_set_conv_nth intro!: sorted_nth_mono)
  then have "length (take (Suc ?k) ?s) \<le> length (filter (\<lambda>t. t \<le> ?s ! ?k) ?s)"
    by (metis append_take_drop_id filter_True filter_append le_add1 length_append)
  then show ?thesis using k by (simp add: median_of_def filter_sort)
qed

lemma median_of_ge:
  assumes "ts \<noteq> []"
  shows "length ts - length ts div 2 \<le> length (filter (\<lambda>t. median_of ts \<le> t) ts)"
proof -
  let ?s = "sort ts" and ?k = "length ts div 2"
  have k: "?k < length ?s" using assms by simp
  have "\<forall>t \<in> set (drop ?k ?s). ?s ! ?k \<le> t"
    using k by (auto simp: in_set_conv_nth intro!: sorted_nth_mono)
  then have "length (drop ?k ?s) \<le> length (filter (\<lambda>t. ?s ! ?k \<le> t) ?s)"
    by (metis append_take_drop_id filter_True filter_append le_add2 length_append)
  then show ?thesis using k by (simp add: median_of_def filter_sort)
qed

section \<open>Lemmas on the Merkle root\<close>

lemma merkle_level0:
  "foldE (\<lambda>level tx. attempt (decodeHash (ID tx)) (\<lambda>decoded. Inr (level @ [decoded]))) acc txs = Inr level \<longleftrightarrow>
     (\<exists>hs. level = acc @ hs \<and> list_all2 (\<lambda>tx h. decodeHash (ID tx) = Inr h) txs hs)"
  by (induction txs arbitrary: acc level) (auto simp: res_simps list_all2_Cons1)

lemma merkleRoot_eq:
  "list_all2 (\<lambda>tx h. decodeHash (ID tx) = Inr h) txs hs \<Longrightarrow> txs \<noteq> [] \<Longrightarrow>
     merkleRoot C txs = hex_encode (merkleLoop (Sum256 C) hs ! 0)"
  using merkle_level0 [of "[]" txs hs] by (auto simp: merkleRoot_def)

lemma length_merkleLoop: "length (merkleLoop H level) = min 1 (length level)"
proof (induction H level rule: merkleLoop.induct)
  case (1 H level)
  then show ?case by (subst merkleLoop.simps) (auto simp: min_def)
qed

lemma merkleLevel_snoc:
  "odd (length level) \<Longrightarrow> merkleLevel H (level @ [last level]) = merkleLevel H level"
  by (induction H level rule: merkleLevel.induct) auto

text \<open>What one pass hashes, and what the whole computation hashes.\<close>

fun merklePairs :: "bytes list \<Rightarrow> bytes list" where
  "merklePairs (left # right # level) = (left @ right) # merklePairs level"
| "merklePairs [left] = [left @ left]"
| "merklePairs [] = []"

lemma merkleLevel_pairs: "merkleLevel H level = map H (merklePairs level)"
  by (induction level rule: merklePairs.induct) simp_all

lemma merklePairs_inj:
  assumes "length a = length b" "\<forall>x \<in> set a. length x = 32" "\<forall>x \<in> set b. length x = 32"
    and "merklePairs a = merklePairs b"
  shows "a = b"
  using assms
proof (induction a arbitrary: b rule: merklePairs.induct)
  case (1 l r level)
  then obtain l' r' level' where b: "b = l' # r' # level'"
    by (auto simp: length_Suc_conv Suc_length_conv)
  with 1 have "level = level'" by (intro "1.IH") auto
  with 1 b show ?case by simp
next
  case (2 l)
  then obtain l' where "b = [l']" by (cases b) auto
  with 2 show ?case by simp
qed simp

function merkleInputs :: "(bytes \<Rightarrow> bytes) \<Rightarrow> bytes list \<Rightarrow> bytes list" where
  "merkleInputs H level =
     (if length level > 1 then merklePairs level @ merkleInputs H (merkleLevel H level) else [])"
  by pat_completeness auto
termination by (relation "measure (\<lambda>(H, level). length level)") auto

declare merkleInputs.simps [simp del]

lemma map_collision:
  assumes "map f xs = map f ys" and "xs \<noteq> ys"
  shows "\<exists>x \<in> set xs. \<exists>y \<in> set ys. x \<noteq> y \<and> f x = f y"
proof -
  from assms(1) have len: "length xs = length ys" by (rule map_eq_imp_length_eq)
  with assms(2) obtain i where i: "i < length xs" "xs ! i \<noteq> ys ! i" by (auto simp: list_eq_iff_nth_eq)
  moreover have "f (xs ! i) = f (ys ! i)"
    using arg_cong [OF assms(1), of "\<lambda>l. l ! i"] i len by simp
  ultimately show ?thesis using len nth_mem by metis
qed

lemma merkleLevel_lengths: "(\<And>x. length (H x) = 32) \<Longrightarrow> \<forall>x \<in> set (merkleLevel H level). length x = 32"
  by (auto simp: merkleLevel_pairs)

lemma merkleLoop_collision:
  assumes "\<And>x. length (H x) = 32" and "length a = length b"
    and "\<forall>x \<in> set a. length x = 32" "\<forall>x \<in> set b. length x = 32"
    and "a \<noteq> b" "merkleLoop H a = merkleLoop H b"
  shows "\<exists>x \<in> set (merkleInputs H a). \<exists>y \<in> set (merkleInputs H b). x \<noteq> y \<and> H x = H y"
  using assms
proof (induction H a arbitrary: b rule: merkleLoop.induct)
  case (1 H a)
  note len = "1.prems"(1) and prems = "1.prems"(2-)
  show ?case
  proof (cases "length a > 1")
    case True
    then have loop: "merkleLoop H (merkleLevel H a) = merkleLoop H (merkleLevel H b)"
      using prems by (simp add: merkleLoop.simps [of H a] merkleLoop.simps [of H b])
    have inputs: "set (merkleInputs H a) = set (merklePairs a) \<union> set (merkleInputs H (merkleLevel H a))"
      "set (merkleInputs H b) = set (merklePairs b) \<union> set (merkleInputs H (merkleLevel H b))"
      using True prems(1) by (simp_all add: merkleInputs.simps [of H a] merkleInputs.simps [of H b])
    show ?thesis
    proof (cases "merkleLevel H a = merkleLevel H b")
      case True
      moreover have "merklePairs a \<noteq> merklePairs b" using merklePairs_inj prems(1-4) by blast
      ultimately have "\<exists>x \<in> set (merklePairs a). \<exists>y \<in> set (merklePairs b). x \<noteq> y \<and> H x = H y"
        by (intro map_collision) (simp_all add: merkleLevel_pairs)
      then show ?thesis using inputs by blast
    next
      case False
      have "\<exists>x \<in> set (merkleInputs H (merkleLevel H a)). \<exists>y \<in> set (merkleInputs H (merkleLevel H b)).
          x \<noteq> y \<and> H x = H y"
        by (intro "1.IH" [OF True len _ _ _ False loop]) (use prems merkleLevel_lengths [OF len] in simp_all)
      then show ?thesis using inputs by blast
    qed
  next
    case False
    with prems show ?thesis by (simp add: merkleLoop.simps [of H a] merkleLoop.simps [of H b])
  qed
qed

section \<open>The timestamp of a new block\<close>

lemma nextTimestampAt_ok:
  assumes "nextTimestampAt blocks now = Inr t"
    and "\<forall>b \<in> set blocks. MinInt64 \<le> Timestamp b \<and> Timestamp b < MaxInt64"
  shows "blocks \<noteq> [] \<and> median_of (past_times blocks) < t \<and>
     (RequireMonotonicTimestamp (RulesAtHeight (Height (last blocks) + 1)) \<longrightarrow> Timestamp (last blocks) < t) \<and>
     (t = now \<or> t = median_of (past_times blocks) + 1 \<or> t = Timestamp (last blocks) + 1)"
proof -
  have ne: "blocks \<noteq> []" using assms(1) by (auto simp: nextTimestampAt_def)
  let ?m = "median_of (past_times blocks)" and ?l = "last blocks"
  have "?m \<in> set (past_times blocks)" using ne by (intro median_of_mem) simp
  then have m: "?m \<in> Timestamp ` set blocks" by (auto simp: past_times_def dest: in_set_dropD)
  have l: "?l \<in> set blocks" using ne by simp
  have w: "wrap64 (?m + 1) = ?m + 1" "wrap64 (Timestamp ?l + 1) = Timestamp ?l + 1"
    using m l assms(2) by (auto simp: in_int64_def MinInt64_def MaxInt64_def)
  show ?thesis
    using assms(1) ne
    by (auto simp: nextTimestampAt_def medianTimePast_eq go_index_last Let_def w split: if_splits)
qed

end
