(* ===== verification/Chain.thy ===== *)
theory Chain
  imports Coins Block
begin

text \<open>
  \<open>internal/core/chain.go\<close>: validation of headers and blocks, the replay of a whole chain into its
  unspent outputs, coinbase maturity, balances, the local pending transactions and mining on a
  whole-chain state.
\<close>

section \<open>Headers and blocks\<close>

definition validateHeaderConsensusFields :: "block \<Rightarrow> block \<Rightarrow> block list \<Rightarrow> int \<Rightarrow> unit res" where
  "validateHeaderConsensusFields b previous priorBlocks now =
     (if Version b \<noteq> BlockVersion (Height b) then Inl (Errorf ''unsupported block version'')
      else if priorBlocks = [] \<or> Hash (last priorBlocks) \<noteq> Hash previous
      then Inl (Errorf ''prior header window does not end at previous block'')
      else if Height b \<noteq> Height previous + 1 then Inl (Errorf ''height does not follow previous block'')
      else if PreviousHash b \<noteq> Hash previous then Inl (Errorf ''previous hash mismatch'')
      else attempt (medianTimePast priorBlocks) (\<lambda>median.
      if Timestamp b \<le> median then Inl (Errorf ''timestamp must exceed median time past'')
      else if RequireMonotonicTimestamp (RulesAtHeight (Height b)) \<and> Timestamp b \<le> Timestamp previous
      then Inl (Errorf ''timestamp must exceed previous block time'')
      else
        let maximumTimestamp = (if now \<le> MaxInt64 - MaxFutureSeconds then now + MaxFutureSeconds else MaxInt64)
        in if Timestamp b > maximumTimestamp then Inl (Errorf ''timestamp is too far in the future'')
        else attempt (expectedDifficultyAt priorBlocks (Height b) (Timestamp b)) (\<lambda>expected.
        if Difficulty b \<noteq> expected then Inl (Errorf ''unexpected difficulty'')
        else case decodeHash (MerkleRoot b) of
          Inl _ \<Rightarrow> Inl (Errorf ''invalid Merkle root'')
        | Inr _ \<Rightarrow> Inr ())))"

definition validateHeaderAtTime :: "crypto \<Rightarrow> block \<Rightarrow> block \<Rightarrow> block list \<Rightarrow> int \<Rightarrow> unit res" where
  "validateHeaderAtTime C b previous priorBlocks now =
     attempt (validateHeaderConsensusFields b previous priorBlocks now) (\<lambda>_.
     if Hash b \<noteq> ComputeHash C b then Inl (Errorf ''block hash mismatch'')
     else if \<not> HasValidWork b then Inl (Errorf ''proof of work is insufficient'')
     else Inr ())"

definition addEncodedSize :: "nat \<Rightarrow> transaction \<Rightarrow> nat res" where
  "addEncodedSize encoded tx =
     (let transactionBytes = encodedSize tx in
      if transactionBytes > MaxTransactionBytes then Inl (Errorf ''block contains oversized transaction'')
      else if encoded + transactionBytes > MaxBlockBytes then Inl (Errorf ''block exceeds encoded size limit'')
      else Inr (encoded + transactionBytes))"

definition validateBlockHeaderAtTime :: "crypto \<Rightarrow> block \<Rightarrow> block \<Rightarrow> block list \<Rightarrow> int \<Rightarrow> unit res" where
  "validateBlockHeaderAtTime C b previous priorBlocks now =
     attempt (validateHeaderAtTime C b previous priorBlocks now) (\<lambda>_.
     if Transactions b = [] \<or> length (Transactions b) > MaxBlockTransactions
     then Inl (Errorf ''block transaction count is outside consensus limits'')
     else attempt (foldE addEncodedSize 256 (Transactions b)) (\<lambda>_.
     if MerkleRoot b \<noteq> merkleRoot C (Transactions b) then Inl (Errorf ''Merkle root mismatch'')
     else Inr ()))"

section \<open>Replay\<close>

record replay_state =
  RUtxo :: utxo
  ROrigins :: output_origins
  RSeen :: "string set"

definition set_coins :: "replay_state \<Rightarrow> coins \<Rightarrow> replay_state" where
  "set_coins st cs = st\<lparr>RUtxo := fst cs, ROrigins := snd cs\<rparr>"

definition coins_of :: "replay_state \<Rightarrow> coins" where
  "coins_of st = (RUtxo st, ROrigins st)"

definition replayTransaction ::
    "crypto \<Rightarrow> u64 \<Rightarrow> replay_state \<times> u64 \<Rightarrow> transaction \<Rightarrow> (replay_state \<times> u64) res" where
  "replayTransaction C height acc tx =
     (case acc of (st, fees) \<Rightarrow>
      if Coinbase tx then Inl (Errorf ''multiple coinbase transactions'')
      else if ID tx \<in> RSeen st then Inl (Errorf ''duplicate transaction'')
      else attempt (validateRegularTransaction C tx (RUtxo st)) (\<lambda>fee.
           attempt (validateCoinbaseMaturity tx (ROrigins st) height) (\<lambda>_.
           attempt (safeAdd fees fee) (\<lambda>fees.
           attempt (applyRegularTransaction tx height (coins_of st)) (\<lambda>cs.
           Inr ((set_coins st cs)\<lparr>RSeen := insert (ID tx) (RSeen st)\<rparr>, fees))))))"

definition replayBlock :: "crypto \<Rightarrow> (nat \<Rightarrow> int) \<Rightarrow> block list \<Rightarrow> replay_state \<Rightarrow> nat \<Rightarrow> replay_state res" where
  "replayBlock C now blocks st index =
     (let b = blocks ! index; previous = blocks ! (index - 1) in
      attempt (validateBlockHeaderAtTime C b previous (take index blocks) (now index)) (\<lambda>_.
      if Transactions b = [] \<or> \<not> Coinbase (hd (Transactions b))
      then Inl (Errorf ''first transaction must be coinbase'')
      else attempt (foldE (replayTransaction C (Height b)) (st, 0) (tl (Transactions b))) (\<lambda>(st, fees).
        let coinbase = hd (Transactions b) in
        if ID coinbase \<in> RSeen st then Inl (Errorf ''duplicate coinbase transaction'')
        else attempt (safeAdd (Subsidy (Height b)) fees) (\<lambda>maximum.
             attempt (validateCoinbase C coinbase maximum) (\<lambda>_.
             attempt (applyOutputs coinbase (Height b) True (coins_of st)) (\<lambda>cs.
             Inr ((set_coins st cs)\<lparr>RSeen := insert (ID coinbase) (RSeen st)\<rparr>)))))))"

definition replayPending :: "crypto \<Rightarrow> u64 \<Rightarrow> replay_state \<Rightarrow> transaction \<Rightarrow> replay_state res" where
  "replayPending C nextHeight st tx =
     (if ID tx \<in> RSeen st then Inl (Errorf ''pending transaction is duplicated'')
      else attempt (validateRegularTransaction C tx (RUtxo st)) (\<lambda>_.
           attempt (validateCoinbaseMaturity tx (ROrigins st) nextHeight) (\<lambda>_.
           attempt (applyRegularTransaction tx nextHeight (coins_of st)) (\<lambda>cs.
           Inr ((set_coins st cs)\<lparr>RSeen := insert (ID tx) (RSeen st)\<rparr>)))))"

text \<open>The clock is read once for each header: \<open>now index\<close> is the reading at block \<open>index\<close>.\<close>

definition replay :: "crypto \<Rightarrow> (nat \<Rightarrow> int) \<Rightarrow> state \<Rightarrow> bool \<Rightarrow> replay_state res" where
  "replay C now s includePending =
     (if StVersion s \<noteq> StateVersion \<or> StName s \<noteq> ChainName \<or> StSymbol s \<noteq> ChainSymbol
      then Inl (Errorf ''unsupported chain identity or state version'')
      else if Blocks s = [] \<or> Blocks s ! 0 \<noteq> GenesisBlock C then Inl (Errorf ''genesis block mismatch'')
      else attempt (foldE (replayBlock C now (Blocks s)) \<lparr>RUtxo = [], ROrigins = [], RSeen = {}\<rparr>
                          [1..<length (Blocks s)]) (\<lambda>st.
        if \<not> includePending then Inr st
        else if length (Pending s) > MaxPendingTransactions
        then Inl (Errorf ''pending transaction limit exceeded'')
        else foldE (replayPending C (word_of_nat (length (Blocks s)))) st (Pending s)))"

definition Validate :: "crypto \<Rightarrow> (nat \<Rightarrow> int) \<Rightarrow> state \<Rightarrow> unit res" where
  "Validate C now s = attempt (replay C now s True) (\<lambda>_. Inr ())"

definition ValidateConfirmed :: "crypto \<Rightarrow> (nat \<Rightarrow> int) \<Rightarrow> state \<Rightarrow> unit res" where
  "ValidateConfirmed C now s = attempt (replay C now s False) (\<lambda>_. Inr ())"

definition ConfirmedUTXO :: "crypto \<Rightarrow> (nat \<Rightarrow> int) \<Rightarrow> state \<Rightarrow> utxo res" where
  "ConfirmedUTXO C now s = attempt (replay C now s False) (\<lambda>st. Inr (RUtxo st))"

definition SpendableUTXO :: "crypto \<Rightarrow> (nat \<Rightarrow> int) \<Rightarrow> state \<Rightarrow> utxo res" where
  "SpendableUTXO C now s =
     attempt (replay C now s True) (\<lambda>st.
     Inr (matureUTXO (RUtxo st) (ROrigins st) (word_of_nat (length (Blocks s)))))"

definition balanceFromUTXO :: "crypto \<Rightarrow> utxo \<Rightarrow> string \<Rightarrow> u64 res" where
  "balanceFromUTXO C utxo address =
     foldE (\<lambda>total (_, output).
       if \<not> AddressesEqual C (Address output) address then Inr total
       else safeAdd total (Amount output)) 0 utxo"

definition Balance :: "crypto \<Rightarrow> (nat \<Rightarrow> int) \<Rightarrow> state \<Rightarrow> string \<Rightarrow> bool \<Rightarrow> u64 res" where
  "Balance C now s address includePending =
     attempt (ValidateAddress C address) (\<lambda>_.
     attempt (if includePending then SpendableUTXO C now s else ConfirmedUTXO C now s) (\<lambda>utxo.
     balanceFromUTXO C utxo address))"

definition Balances :: "crypto \<Rightarrow> (nat \<Rightarrow> int) \<Rightarrow> state \<Rightarrow> string \<Rightarrow> (u64 \<times> u64) res" where
  "Balances C now s address =
     attempt (ValidateAddress C address) (\<lambda>_.
     attempt (replay C now s False) (\<lambda>st.
     attempt (balanceFromUTXO C (RUtxo st) address) (\<lambda>confirmed.
     if length (Pending s) > MaxPendingTransactions then Inl (Errorf ''pending transaction limit exceeded'')
     else
       let nextHeight = word_of_nat (length (Blocks s)) in
       attempt (foldE (replayPending C nextHeight) st (Pending s)) (\<lambda>st.
       attempt (balanceFromUTXO C (matureUTXO (RUtxo st) (ROrigins st) nextHeight) address) (\<lambda>spendable.
       Inr (confirmed, spendable))))))"

definition AddPending :: "crypto \<Rightarrow> (nat \<Rightarrow> int) \<Rightarrow> state \<Rightarrow> transaction \<Rightarrow> state res" where
  "AddPending C now s tx =
     (if length (Pending s) \<ge> MaxPendingTransactions then Inl (Errorf ''pending transaction limit reached'')
      else attempt (replay C now s True) (\<lambda>st.
        if ID tx \<in> RSeen st then Inl (Errorf ''transaction already exists'')
        else attempt (validateRegularTransaction C tx (RUtxo st)) (\<lambda>_.
             let nextHeight = word_of_nat (length (Blocks s)) in
             attempt (validateCoinbaseMaturity tx (ROrigins st) nextHeight) (\<lambda>_.
             attempt (applyRegularTransaction tx nextHeight (coins_of st)) (\<lambda>_.
             Inr (s\<lparr>Pending := Pending s @ [tx]\<rparr>))))))"

definition TotalIssued :: "crypto \<Rightarrow> (nat \<Rightarrow> int) \<Rightarrow> state \<Rightarrow> u64 res" where
  "TotalIssued C now s =
     attempt (replay C now s False) (\<lambda>_. Inr (MintedThrough (word_of_nat (length (Blocks s)) - 1)))"

definition CumulativeWork :: "state \<Rightarrow> nat" where
  "CumulativeWork s = (\<Sum>b\<leftarrow>tl (Blocks s). push_bit (unat (Difficulty b)) 1)"

section \<open>Mining on the whole-chain state\<close>

text \<open>The selection loop, with its \<open>break\<close> at the limits of a block.\<close>

fun selectPending ::
    "crypto \<Rightarrow> u64 \<Rightarrow> nat \<Rightarrow> replay_state \<times> u64 \<times> transaction list \<Rightarrow> transaction list \<Rightarrow>
     (replay_state \<times> u64 \<times> transaction list) res" where
  "selectPending C height blockBytes acc [] = Inr acc"
| "selectPending C height blockBytes (st, fees, selected) (tx # pending) =
     (let transactionBytes = encodedSize tx in
      if length selected \<ge> MaxBlockTransactions - 1 \<or> blockBytes + transactionBytes > MaxBlockBytes
      then Inr (st, fees, selected)
      else if ID tx \<in> RSeen st then Inl (Errorf ''duplicate pending transaction'')
      else attempt (validateRegularTransaction C tx (RUtxo st)) (\<lambda>fee.
           attempt (validateCoinbaseMaturity tx (ROrigins st) height) (\<lambda>_.
           attempt (safeAdd fees fee) (\<lambda>fees.
           attempt (applyRegularTransaction tx height (coins_of st)) (\<lambda>cs.
           selectPending C height (blockBytes + transactionBytes)
             ((set_coins st cs)\<lparr>RSeen := insert (ID tx) (RSeen st)\<rparr>, fees, selected @ [tx]) pending)))))"

text \<open>
  \<open>rnd\<close> is the coinbase nonce, \<open>clock\<close> the reading for the timestamp, \<open>search\<close> the result of the
  search for a nonce, and \<open>now'\<close> the clock readings of the final validation.
\<close>

definition Mine ::
    "crypto \<Rightarrow> (nat \<Rightarrow> int) \<Rightarrow> (nat \<Rightarrow> int) \<Rightarrow> u64 res \<Rightarrow> int \<Rightarrow> (block \<Rightarrow> block res) \<Rightarrow>
     state \<Rightarrow> string \<Rightarrow> (state \<times> block) res" where
  "Mine C now now' rnd clock search s address =
     attempt (replay C now s False) (\<lambda>st.
     attempt (ValidateAddress C address) (\<lambda>_.
     let height = word_of_nat (length (Blocks s)) in
     attempt (selectPending C height 512 (st, 0, []) (Pending s)) (\<lambda>(_, fees, selected).
     attempt (safeAdd (Subsidy height) fees) (\<lambda>reward.
     attempt (NewCoinbase C rnd address height reward) (\<lambda>coinbase.
     let transactions = coinbase # selected; previous = last (Blocks s) in
     attempt (nextTimestampAt (Blocks s) clock) (\<lambda>timestamp.
     attempt (expectedDifficultyAt (Blocks s) height timestamp) (\<lambda>difficulty.
     let b = \<lparr>Version = BlockVersion height, Height = height, Timestamp = timestamp,
              PreviousHash = Hash previous, MerkleRoot = merkleRoot C transactions,
              Difficulty = difficulty, Nonce = 0, Hash = [], Transactions = transactions\<rparr> in
     attempt (search b) (\<lambda>mined.
     let s' = s\<lparr>Blocks := Blocks s @ [mined], Pending := drop (length selected) (Pending s)\<rparr> in
     case Validate C now' s' of
       Inl _ \<Rightarrow> Inl (Errorf ''mined invalid block'')
     | Inr _ \<Rightarrow> Inr (s', mined)))))))))"

end
