(* ===== verification/Chain_Inv.thy ===== *)
theory Chain_Inv
  imports Chain
begin

text \<open>
  What a successful replay establishes: an invariant over the transactions replayed so far, in the
  order in which the chain applies them (the regular transactions of a block, then its coinbase).
\<close>

definition spends :: "transaction \<Rightarrow> outpoint list" where
  "spends tx = map input_outpoint (Inputs tx)"

type_synonym trace = "(u64 \<times> transaction) list"

definition trace_spends :: "trace \<Rightarrow> outpoint list" where
  "trace_spends txs = concat (map (spends \<circ> snd) txs)"

text \<open>Every coinbase output spent was created at least 100 blocks earlier.\<close>

definition mature_trace :: "trace \<Rightarrow> bool" where
  "mature_trace txs \<longleftrightarrow>
     (\<forall>(h, tx) \<in> set txs. \<forall>op \<in> set (spends tx). \<forall>(h', cb) \<in> set txs.
        Coinbase cb \<longrightarrow> ID cb = OpTxID op \<longrightarrow> unat h' + 100 \<le> unat h)"

definition origins_ok :: "coins \<Rightarrow> trace \<Rightarrow> bool" where
  "origins_ok cs txs \<longleftrightarrow>
     (\<forall>op out og. coins_get cs op = Some (out, og) \<longrightarrow>
        (\<exists>(h, tx) \<in> set txs. ID tx = OpTxID op \<and> CreatedHeight og = h \<and> FromCoinbase og = Coinbase tx))"

definition chain_inv :: "replay_state \<Rightarrow> trace \<Rightarrow> bool" where
  "chain_inv st txs \<longleftrightarrow>
     coins_wf (coins_of st) \<and> RSeen st = ID ` snd ` set txs \<and> distinct (map (ID \<circ> snd) txs) \<and>
     origins_ok (coins_of st) txs \<and> distinct (trace_spends txs) \<and>
     (\<forall>op \<in> set (trace_spends txs). OpTxID op \<in> RSeen st \<and> coins_get (coins_of st) op = None) \<and>
     mature_trace txs"

lemma chain_inv_start: "chain_inv \<lparr>RUtxo = [], ROrigins = [], RSeen = {}\<rparr> []"
  by (simp add: chain_inv_def coins_of_def origins_ok_def trace_spends_def mature_trace_def coins_get_def)

lemma coins_of_set [simp]: "coins_of (set_coins st cs) = cs" "RSeen (set_coins st cs) = RSeen st"
  "coins_of (st\<lparr>RSeen := S\<rparr>) = coins_of st"
  by (simp_all add: coins_of_def set_coins_def)

lemma IsCoinbaseMature_iff: "IsCoinbaseMature h' h \<longleftrightarrow> (if h = 0 then h' = 0 else unat h' + 100 \<le> unat h)"
proof (cases "h' \<le> h")
  case True
  then show ?thesis
    by (auto simp: IsCoinbaseMature_def consensus_consts word_le_nat_alt word_less_nat_alt unat_minus_no_underflow
        unat_eq_0 Suc_le_eq unat_gt_0)
next
  case False
  then show ?thesis by (auto simp: IsCoinbaseMature_def word_le_nat_alt word_less_nat_alt)
qed

lemma validateCoinbaseMaturity_iff:
  "validateCoinbaseMaturity tx origins h = Inr () \<longleftrightarrow>
     (\<forall>op \<in> set (spends tx). \<exists>og. map_of origins op = Some og \<and>
        (FromCoinbase og \<longrightarrow> IsCoinbaseMature (CreatedHeight og) h))"
  by (auto simp: validateCoinbaseMaturity_def checkAll_ok spends_def split: option.splits if_splits)

text \<open>Applying one more transaction keeps the invariant.\<close>

lemma chain_inv_extend:
  assumes inv: "chain_inv st txs" and new: "ID tx \<notin> RSeen st" and wf: "coins_wf cs'"
    and spend: "distinct (spends tx)" "\<forall>op \<in> set (spends tx). coins_get (coins_of st) op \<noteq> None"
    and get': "coins_get cs' = (\<lambda>op. case map_of (new_coins tx h (Coinbase tx)) op of
           Some c \<Rightarrow> Some c
         | None \<Rightarrow> if op \<in> set (spends tx) then None else coins_get (coins_of st) op)"
    and mature: "\<forall>op \<in> set (spends tx). \<exists>og. map_of (ROrigins st) op = Some og \<and>
        (FromCoinbase og \<longrightarrow> unat (CreatedHeight og) + 100 \<le> unat h)"
  shows "chain_inv ((set_coins st cs')\<lparr>RSeen := insert (ID tx) (RSeen st)\<rparr>) (txs @ [(h, tx)])"
proof -
  let ?cs = "coins_of st"
  have seen: "RSeen st = ID ` snd ` set txs" and orig: "origins_ok ?cs txs"
    using inv by (simp_all add: chain_inv_def)
  have inSeen: "OpTxID op \<in> RSeen st" if "coins_get ?cs op \<noteq> None" for op
    using that orig seen by (force simp: origins_ok_def)
  have newId: "OpTxID op = ID tx" if "map_of (new_coins tx h (Coinbase tx)) op \<noteq> None" for op
    using that new_coins_id [of op tx h "Coinbase tx"] by (auto simp: map_of_eq_None_iff)
  have old: "coins_get cs' op = None" if "OpTxID op \<in> RSeen st" "op \<in> set (spends tx) \<or> coins_get ?cs op = None" for op
  proof -
    have "map_of (new_coins tx h (Coinbase tx)) op = None" using newId that(1) new by metis
    then show ?thesis using that(2) by (auto simp: get')
  qed
  have o1: "origins_ok cs' (txs @ [(h, tx)])"
    unfolding origins_ok_def
  proof (intro allI impI)
    fix op out og assume g: "coins_get cs' op = Some (out, og)"
    show "\<exists>(h, tx) \<in> set (txs @ [(h, tx)]). ID tx = OpTxID op \<and> CreatedHeight og = h \<and> FromCoinbase og = Coinbase tx"
    proof (cases "map_of (new_coins tx h (Coinbase tx)) op")
      case None
      then have "coins_get ?cs op = Some (out, og)" using g by (auto simp: get' split: if_splits)
      then show ?thesis using orig by (fastforce simp: origins_ok_def)
    next
      case (Some c)
      then have "(op, c) \<in> set (new_coins tx h (Coinbase tx))" by (rule map_of_SomeD)
      then show ?thesis using g Some by (auto simp: get' new_coins_def)
    qed
  qed
  have s1: "distinct (trace_spends (txs @ [(h, tx)]))"
    using inv spend by (fastforce simp: chain_inv_def trace_spends_def)
  have s2: "\<forall>op \<in> set (trace_spends (txs @ [(h, tx)])). OpTxID op \<in> insert (ID tx) (RSeen st) \<and> coins_get cs' op = None"
    using inv spend inSeen old by (auto simp: chain_inv_def trace_spends_def)
  have cbOld: "unat h' + 100 \<le> unat h" if cb: "(h', cb) \<in> set txs" "Coinbase cb" "op \<in> set (spends tx)" "ID cb = OpTxID op" for h' cb op
  proof -
    obtain og where og: "map_of (ROrigins st) op = Some og" "FromCoinbase og \<longrightarrow> unat (CreatedHeight og) + 100 \<le> unat h"
      using mature cb(3) by blast
    obtain out where "coins_get ?cs op = Some (out, og)"
      using spend(2) cb(3) og(1) by (fastforce simp: coins_get_def coins_of_def split: option.splits)
    then obtain h2 tx2 where t2: "(h2, tx2) \<in> set txs" "ID tx2 = OpTxID op" "CreatedHeight og = h2" "FromCoinbase og = Coinbase tx2"
      using orig by (fastforce simp: origins_ok_def)
    have "distinct (map (ID \<circ> snd) txs)" using inv by (simp add: chain_inv_def)
    then have "inj_on (ID \<circ> snd) (set txs)" by (simp add: distinct_map)
    then have "(h', cb) = (h2, tx2)"
      using inj_onD [of "ID \<circ> snd" "set txs" "(h', cb)" "(h2, tx2)"] cb t2 by simp
    with t2 og(2) cb(2) show ?thesis by simp
  qed
  have m1: "mature_trace (txs @ [(h, tx)])"
  proof -
    have notnew: "ID tx \<noteq> OpTxID op" if "op \<in> set (spends t)" "(k, t) \<in> set (txs @ [(h, tx)])" for op k t
      using that inv inSeen spend(2) new by (auto simp: chain_inv_def trace_spends_def)
    have old: "mature_trace txs" using inv by (simp add: chain_inv_def)
    have "unat h' + 100 \<le> unat k"
      if "(k, t) \<in> set (txs @ [(h, tx)])" "op \<in> set (spends t)" "(h', cb) \<in> set (txs @ [(h, tx)])"
        "Coinbase cb" "ID cb = OpTxID op" for k t op h' cb
    proof -
      have cb: "(h', cb) \<in> set txs" using that notnew [OF that(2,1)] by auto
      show ?thesis
      proof (cases "(k, t) \<in> set txs")
        case True
        then show ?thesis using old that(2,4,5) cb unfolding mature_trace_def by fast
      next
        case False
        then have "k = h" "t = tx" using that(1) by simp_all
        then show ?thesis using cbOld [OF cb] that by simp
      qed
    qed
    then show ?thesis unfolding mature_trace_def by blast
  qed
  have "ID tx \<notin> (ID \<circ> snd) ` set txs" using new seen by (simp add: image_comp)
  then have d1: "distinct (map (ID \<circ> snd) (txs @ [(h, tx)]))"
    using inv by (simp add: chain_inv_def)
  show ?thesis
    unfolding chain_inv_def using wf o1 s1 s2 m1 d1 seen by simp
qed


section \<open>Transactions and blocks\<close>

lemma distinct_new_coins:
  assumes "length (Outputs tx) \<le> 4294967296"
  shows "distinct (map fst (new_coins tx h cb))"
proof -
  have "map fst (new_coins tx h cb) = map (\<lambda>i. Outpoint (ID tx) (word_of_nat i)) [0..<length (Outputs tx)]"
    by (intro nth_equalityI) (simp_all add: new_coins_def case_prod_unfold nth_enumerate_eq)
  moreover have "inj_on (\<lambda>i. Outpoint (ID tx) (word_of_nat i)) {0..<length (Outputs tx)}"
  proof
    fix i j assume ij: "i \<in> {0..<length (Outputs tx)}" "j \<in> {0..<length (Outputs tx)}"
      "Outpoint (ID tx) (word_of_nat i) = Outpoint (ID tx) (word_of_nat j)"
    then have "(word_of_nat i :: u32) = word_of_nat j" by simp
    from arg_cong [OF this, of unat] have "i mod 4294967296 = j mod 4294967296" by (simp only: unat_of_nat) simp
    with ij assms show "i = j" by simp
  qed
  ultimately show ?thesis by (simp add: distinct_map)
qed

lemma applyRegular_succeeds:
  assumes "coins_wf cs" "\<forall>op. OpTxID op = ID tx \<longrightarrow> coins_get cs op = None" "length (Outputs tx) \<le> 4294967296"
  shows "\<exists>cs'. applyRegularTransaction tx h cs = Inr cs'"
proof -
  let ?cs = "foldl coins_del cs (map input_outpoint (Inputs tx))"
  have wf: "coins_wf ?cs" by (rule chain_coins.wf_dels [OF assms(1)])
  have "\<forall>op \<in> fst ` set (new_coins tx h False). coins_get ?cs op = None"
    using assms(2) new_coins_id [of _ tx h False] chain_coins.get_dels [OF assms(1)] by auto
  then show ?thesis
    using applyOutputs_eq_Inr [OF wf, of tx h False] distinct_new_coins [OF assms(3)]
    by (simp add: applyRegularTransaction_def deleteInputs)
qed

definition state_value :: "replay_state \<Rightarrow> nat" where
  "state_value st = coins_value (coins_of st)"

lemma state_value_set [simp]:
  "state_value (set_coins st cs) = coins_value cs" "state_value (st\<lparr>RSeen := S\<rparr>) = state_value st"
  by (simp_all add: state_value_def)

lemma regular_extend:
  assumes inv: "chain_inv st txs" and h: "h \<noteq> 0"
    and new: "ID tx \<notin> RSeen st" and ok: "validateRegularTransaction C tx (RUtxo st) = Inr fee"
    and mat: "validateCoinbaseMaturity tx (ROrigins st) h = Inr ()"
    and app: "applyRegularTransaction tx h (coins_of st) = Inr cs"
  shows "chain_inv ((set_coins st cs)\<lparr>RSeen := insert (ID tx) (RSeen st)\<rparr>) (txs @ [(h, tx)])"
    and "coins_value cs + unat fee = state_value st" and "\<not> Coinbase tx"
proof -
  have wf: "coins_wf (coins_of st)" using inv by (simp add: chain_inv_def)
  have ok': "validateRegularTransaction C tx (fst (coins_of st)) = Inr fee" using ok by (simp add: coins_of_def)
  note eff = applyRegular_effect [OF wf ok' app]
  show nc: "\<not> Coinbase tx" using ok by (auto simp: validateRegularTransaction_def)
  show "coins_value cs + unat fee = state_value st" using eff(2) by (simp add: state_value_def)
  have present: "\<forall>op \<in> set (spends tx). coins_get (coins_of st) op \<noteq> None"
    using validate_inputs(2) [OF ok'] coins_get_None [OF wf] by (auto simp: spends_def)
  show "chain_inv ((set_coins st cs)\<lparr>RSeen := insert (ID tx) (RSeen st)\<rparr>) (txs @ [(h, tx)])"
  proof (rule chain_inv_extend [OF inv new eff(1) _ present])
    show "distinct (spends tx)" using validate_inputs(1) [OF ok] by (simp add: spends_def)
    show "coins_get cs = (\<lambda>op. case map_of (new_coins tx h (Coinbase tx)) op of
           Some c \<Rightarrow> Some c
         | None \<Rightarrow> if op \<in> set (spends tx) then None else coins_get (coins_of st) op)"
      using eff(3) nc by (auto simp: spends_def fun_eq_iff split: option.splits)
    show "\<forall>op \<in> set (spends tx). \<exists>og. map_of (ROrigins st) op = Some og \<and>
        (FromCoinbase og \<longrightarrow> unat (CreatedHeight og) + 100 \<le> unat h)"
      using mat h by (auto simp: validateCoinbaseMaturity_iff IsCoinbaseMature_iff)
  qed
qed

lemma coinbase_extend:
  assumes inv: "chain_inv st txs" and new: "ID cb \<notin> RSeen st"
    and ok: "validateCoinbase C cb m = Inr ()" and app: "applyOutputs cb h True (coins_of st) = Inr cs"
  shows "chain_inv ((set_coins st cs)\<lparr>RSeen := insert (ID cb) (RSeen st)\<rparr>) (txs @ [(h, cb)])"
    and "coins_value cs = state_value st + unat m"
proof -
  have wf: "coins_wf (coins_of st)" using inv by (simp add: chain_inv_def)
  note eff = applyOutputs_effect [OF wf app]
  have cb: "Coinbase cb" "Inputs cb = []" "outputs_value (Outputs cb) = unat m"
    using ok by (simp_all add: validateCoinbase_eq_Inr)
  show "coins_value cs = state_value st + unat m" using eff(2) cb by (simp add: state_value_def)
  show "chain_inv ((set_coins st cs)\<lparr>RSeen := insert (ID cb) (RSeen st)\<rparr>) (txs @ [(h, cb)])"
    by (rule chain_inv_extend [OF inv new eff(1)]) (use cb eff(3) in \<open>auto simp: spends_def fun_eq_iff split: option.splits\<close>)
qed

lemma replayTransaction_extend:
  assumes "chain_inv st txs" "h \<noteq> 0" "replayTransaction C h (st, fees) tx = Inr (st', fees')"
  shows "chain_inv st' (txs @ [(h, tx)]) \<and> state_value st' + unat fees' = state_value st + unat fees"
proof -
  obtain fee cs where s: "ID tx \<notin> RSeen st" "validateRegularTransaction C tx (RUtxo st) = Inr fee"
    "validateCoinbaseMaturity tx (ROrigins st) h = Inr ()" "safeAdd fees fee = Inr fees'"
    "applyRegularTransaction tx h (coins_of st) = Inr cs"
    "st' = (set_coins st cs)\<lparr>RSeen := insert (ID tx) (RSeen st)\<rparr>"
    using assms(3) by (auto simp: replayTransaction_def res_simps)
  note ext = regular_extend [OF assms(1,2) s(1,2,3,5)]
  show ?thesis using ext(1,2) safeAdd_unat [OF s(4)] by (simp add: s(6))
qed

lemma replayTransactions_extend:
  assumes "chain_inv st txs" "h \<noteq> 0" "foldE (replayTransaction C h) (st, fees) ts = Inr (st', fees')"
  shows "chain_inv st' (txs @ map (Pair h) ts) \<and> state_value st' + unat fees' = state_value st + unat fees"
  using assms
proof (induction ts arbitrary: st fees txs)
  case (Cons t ts)
  obtain st1 fees1 where s: "replayTransaction C h (st, fees) t = Inr (st1, fees1)"
    "foldE (replayTransaction C h) (st1, fees1) ts = Inr (st', fees')"
    using Cons.prems(3) by (auto simp: res_simps)
  from replayTransaction_extend [OF Cons.prems(1,2) s(1)] Cons.IH [OF _ Cons.prems(2) s(2), of "txs @ [(h, t)]"]
  show ?case by auto
qed simp

text \<open>The transactions of a block in the order they are applied.\<close>

definition block_trace :: "block \<Rightarrow> trace" where
  "block_trace b = map (Pair (Height b)) (tl (Transactions b) @ [hd (Transactions b)])"

lemma replayBlock_extend:
  assumes inv: "chain_inv st txs" and h: "Height (blocks ! i) \<noteq> 0"
    and ok: "replayBlock C now blocks st i = Inr st'"
  shows "chain_inv st' (txs @ block_trace (blocks ! i)) \<and>
     state_value st' = state_value st + unat (Subsidy (Height (blocks ! i))) \<and>
     validateBlockHeaderAtTime C (blocks ! i) (blocks ! (i - 1)) (take i blocks) (now i) = Inr () \<and>
     Transactions (blocks ! i) \<noteq> []"
proof -
  let ?b = "blocks ! i"
  let ?cb = "hd (Transactions ?b)"
  obtain st1 fees m cs where s:
    "validateBlockHeaderAtTime C ?b (blocks ! (i - 1)) (take i blocks) (now i) = Inr ()"
    "Transactions ?b \<noteq> []" "foldE (replayTransaction C (Height ?b)) (st, 0) (tl (Transactions ?b)) = Inr (st1, fees)"
    "ID ?cb \<notin> RSeen st1" "safeAdd (Subsidy (Height ?b)) fees = Inr m" "validateCoinbase C ?cb m = Inr ()"
    "applyOutputs ?cb (Height ?b) True (coins_of st1) = Inr cs"
    "st' = (set_coins st1 cs)\<lparr>RSeen := insert (ID ?cb) (RSeen st1)\<rparr>"
    using ok by (auto simp: replayBlock_def Let_def res_simps)
  have r: "chain_inv st1 (txs @ map (Pair (Height ?b)) (tl (Transactions ?b)))"
    "state_value st1 + unat fees = state_value st"
    using replayTransactions_extend [OF inv h s(3)] by simp_all
  note c = coinbase_extend [OF r(1) s(4,6,7)]
  show ?thesis using c r(2) s(1,2) safeAdd_unat [OF s(5)] by (simp add: s(8) block_trace_def)
qed

section \<open>Chains\<close>

definition header_follows :: "crypto \<Rightarrow> (nat \<Rightarrow> int) \<Rightarrow> block list \<Rightarrow> nat \<Rightarrow> bool" where
  "header_follows C now blocks i \<longleftrightarrow>
     validateBlockHeaderAtTime C (blocks ! i) (blocks ! (i - 1)) (take i blocks) (now i) = Inr ()"

definition chain_trace :: "block list \<Rightarrow> trace" where
  "chain_trace blocks = concat (map block_trace (tl blocks))"

lemma validateBlockHeader_height:
  "validateBlockHeaderAtTime C b p prior t = Inr () \<Longrightarrow> Height b = Height p + 1"
  by (auto simp: validateBlockHeaderAtTime_def validateHeaderAtTime_def validateHeaderConsensusFields_def res_simps)

lemma tl_take_Suc: "0 < n \<Longrightarrow> n < length xs \<Longrightarrow> tl (take (Suc n) xs) = tl (take n xs) @ [xs ! n]"
  by (auto simp: take_Suc_conv_app_nth tl_append split: list.split)

lemma replayBlocks_inv:
  assumes "foldE (replayBlock C now blocks) \<lparr>RUtxo = [], ROrigins = [], RSeen = {}\<rparr> [1..<Suc n] = Inr st"
    and "n < length blocks" "length blocks < 18446744073709551616" "Height (blocks ! 0) = 0"
  shows "chain_inv st (chain_trace (take (Suc n) blocks)) \<and>
     state_value st = (\<Sum>k = 1..n. unat (Subsidy (word_of_nat k))) \<and>
     (\<forall>i \<le> n. Height (blocks ! i) = word_of_nat i) \<and>
     (\<forall>i. 0 < i \<longrightarrow> i \<le> n \<longrightarrow> header_follows C now blocks i \<and> Transactions (blocks ! i) \<noteq> [])"
  using assms
proof (induction n arbitrary: st)
  case 0
  then have "tl (take (Suc 0) blocks) = []" by (cases blocks) simp_all
  with 0 chain_inv_start show ?case
    by (auto simp: chain_trace_def state_value_def coins_of_def)
next
  case (Suc n)
  obtain st1 where s: "foldE (replayBlock C now blocks) \<lparr>RUtxo = [], ROrigins = [], RSeen = {}\<rparr> [1..<Suc n] = Inr st1"
    "replayBlock C now blocks st1 (Suc n) = Inr st"
    using Suc.prems(1) by (auto simp: foldE_append res_simps)
  have IH: "chain_inv st1 (chain_trace (take (Suc n) blocks))"
    "state_value st1 = (\<Sum>k = 1..n. unat (Subsidy (word_of_nat k)))"
    "\<forall>i \<le> n. Height (blocks ! i) = word_of_nat i"
    "\<forall>i. 0 < i \<longrightarrow> i \<le> n \<longrightarrow> header_follows C now blocks i \<and> Transactions (blocks ! i) \<noteq> []"
    using Suc.IH [OF s(1)] Suc.prems by simp_all
  have follows: "validateBlockHeaderAtTime C (blocks ! Suc n) (blocks ! n) (take (Suc n) blocks) (now (Suc n)) = Inr ()"
    using s(2) by (auto simp: replayBlock_def Let_def res_simps)
  have h: "Height (blocks ! Suc n) = word_of_nat (Suc n)"
    using validateBlockHeader_height [OF follows] IH(3) by simp
  have "unat (word_of_nat (Suc n) :: u64) = Suc n" using Suc.prems by (intro unat_word_of_nat_64) simp
  then have "(word_of_nat (Suc n) :: u64) \<noteq> 0" by (metis nat.simps(3) unat_0)
  then have nz: "Height (blocks ! Suc n) \<noteq> 0" by (simp only: h not_False_eq_True)
  have ext: "chain_inv st (chain_trace (take (Suc n) blocks) @ block_trace (blocks ! Suc n))"
    "state_value st = state_value st1 + unat (Subsidy (word_of_nat (Suc n)))"
    "Transactions (blocks ! Suc n) \<noteq> []"
    using replayBlock_extend [OF IH(1) nz s(2)] unfolding h by blast+
  have "chain_trace (take (Suc (Suc n)) blocks) = chain_trace (take (Suc n) blocks) @ block_trace (blocks ! Suc n)"
    using Suc.prems(2) tl_take_Suc [of "Suc n" blocks] by (simp add: chain_trace_def)
  moreover have "\<forall>i \<le> Suc n. Height (blocks ! i) = word_of_nat i"
    using IH(3) h le_Suc_eq by auto
  moreover have "\<forall>i. 0 < i \<longrightarrow> i \<le> Suc n \<longrightarrow> header_follows C now blocks i \<and> Transactions (blocks ! i) \<noteq> []"
    using IH(4) follows ext(3) le_Suc_eq by (auto simp: header_follows_def)
  ultimately show ?case using ext(1,2) IH(2) by (simp del: of_nat_Suc)
qed


text \<open>A replayed chain: its length fits 64 bits in the program, where it is a slice in memory.\<close>

definition fits :: "state \<Rightarrow> bool" where
  "fits s \<longleftrightarrow> length (Blocks s) + length (Pending s) < 18446744073709551616"

lemma replay_False:
  assumes "replay C now s False = Inr st"
  shows "Blocks s \<noteq> [] \<and> Blocks s ! 0 = GenesisBlock C \<and>
     foldE (replayBlock C now (Blocks s)) \<lparr>RUtxo = [], ROrigins = [], RSeen = {}\<rparr> [1..<length (Blocks s)] = Inr st"
  using assms by (auto simp: replay_def res_simps split: if_splits)

lemma GenesisBlock_Height [simp]: "Height (GenesisBlock C) = 0"
  by (simp add: GenesisBlock_def Let_def)

lemma replay_confirmed:
  assumes "replay C now s False = Inr st" "fits s"
  shows "chain_inv st (chain_trace (Blocks s))"
    and "state_value st = unat (MintedThrough (word_of_nat (length (Blocks s)) - 1))"
    and "\<forall>i < length (Blocks s). Height (Blocks s ! i) = word_of_nat i"
    and "\<forall>i. 0 < i \<longrightarrow> i < length (Blocks s) \<longrightarrow>
           header_follows C now (Blocks s) i \<and> Transactions (Blocks s ! i) \<noteq> []"
proof -
  note r = replay_False [OF assms(1)]
  obtain n where n: "length (Blocks s) = Suc n" using r by (cases "Blocks s") auto
  have fit: "Suc n < 18446744073709551616" using assms(2) n by (simp add: fits_def)
  have inv: "chain_inv st (chain_trace (take (Suc n) (Blocks s))) \<and>
     state_value st = (\<Sum>k = 1..n. unat (Subsidy (word_of_nat k))) \<and>
     (\<forall>i \<le> n. Height (Blocks s ! i) = word_of_nat i) \<and>
     (\<forall>i. 0 < i \<longrightarrow> i \<le> n \<longrightarrow> header_follows C now (Blocks s) i \<and> Transactions (Blocks s ! i) \<noteq> [])"
    by (rule replayBlocks_inv) (use r n fit in auto)
  show "chain_inv st (chain_trace (Blocks s))" using inv n by simp
  have "unat (word_of_nat (Suc n) - 1 :: u64) = n" using fit by (simp add: unat_word_of_nat_64)
  then show "state_value st = unat (MintedThrough (word_of_nat (length (Blocks s)) - 1))"
    using inv fit sum_Subsidy [of n] by (simp add: n unat_MintedThrough)
  show "\<forall>i < length (Blocks s). Height (Blocks s ! i) = word_of_nat i"
    and "\<forall>i. 0 < i \<longrightarrow> i < length (Blocks s) \<longrightarrow>
           header_follows C now (Blocks s) i \<and> Transactions (Blocks s ! i) \<noteq> []"
    using inv n by (simp_all add: less_Suc_eq_le)
qed

lemma replayPending_extend:
  assumes "chain_inv st txs" "h \<noteq> 0" "replayPending C h st tx = Inr st'"
  shows "chain_inv st' (txs @ [(h, tx)]) \<and> state_value st' \<le> state_value st"
proof -
  obtain fee cs where s: "ID tx \<notin> RSeen st" "validateRegularTransaction C tx (RUtxo st) = Inr fee"
    "validateCoinbaseMaturity tx (ROrigins st) h = Inr ()"
    "applyRegularTransaction tx h (coins_of st) = Inr cs"
    "st' = (set_coins st cs)\<lparr>RSeen := insert (ID tx) (RSeen st)\<rparr>"
    using assms(3) by (auto simp: replayPending_def res_simps)
  note ext = regular_extend [OF assms(1,2) s(1,2,3,4)]
  show ?thesis using ext(1,2) by (simp add: s(5))
qed

lemma replayPendings_extend:
  assumes "chain_inv st txs" "h \<noteq> 0" "foldE (replayPending C h) st ts = Inr st'"
  shows "chain_inv st' (txs @ map (Pair h) ts) \<and> state_value st' \<le> state_value st"
  using assms
proof (induction ts arbitrary: st txs)
  case (Cons t ts)
  obtain st1 where s: "replayPending C h st t = Inr st1" "foldE (replayPending C h) st1 ts = Inr st'"
    using Cons.prems(3) by (auto simp: res_simps)
  from replayPending_extend [OF Cons.prems(1,2) s(1)] Cons.IH [OF _ Cons.prems(2) s(2), of "txs @ [(h, t)]"]
  show ?case by auto
qed simp

lemma replay_True:
  "replay C now s True = Inr st \<longleftrightarrow>
     (\<exists>st0. replay C now s False = Inr st0 \<and> length (Pending s) \<le> MaxPendingTransactions \<and>
        foldE (replayPending C (word_of_nat (length (Blocks s)))) st0 (Pending s) = Inr st)"
  by (auto simp: replay_def res_simps not_less)

lemma length_nonzero: "fits s \<Longrightarrow> Blocks s \<noteq> [] \<Longrightarrow> (word_of_nat (length (Blocks s)) :: u64) \<noteq> 0"
  using unat_word_of_nat_64 [of "length (Blocks s)"] by (auto simp: fits_def)


lemma AddPending_replays:
  assumes "AddPending C now s tx = Inr s'"
  shows "s' = s\<lparr>Pending := Pending s @ [tx]\<rparr>" and "\<exists>st. replay C now s' True = Inr st"
proof -
  obtain st cs fee where st: "length (Pending s) < MaxPendingTransactions" "replay C now s True = Inr st"
    "ID tx \<notin> RSeen st" "validateRegularTransaction C tx (RUtxo st) = Inr fee"
    "validateCoinbaseMaturity tx (ROrigins st) (word_of_nat (length (Blocks s))) = Inr ()"
    "applyRegularTransaction tx (word_of_nat (length (Blocks s))) (coins_of st) = Inr cs"
    "s' = s\<lparr>Pending := Pending s @ [tx]\<rparr>"
    using assms by (auto simp: AddPending_def res_simps not_le Let_def)
  show "s' = s\<lparr>Pending := Pending s @ [tx]\<rparr>" by (rule st(7))
  obtain st0 where st0: "replay C now s False = Inr st0"
    "foldE (replayPending C (word_of_nat (length (Blocks s)))) st0 (Pending s) = Inr st"
    using st(2) by (auto simp: replay_True)
  have "replay C now s' False = replay C now s False" by (simp add: replay_def st(7))
  then show "\<exists>st. replay C now s' True = Inr st"
    using st st0 by (simp add: replay_True foldE_append replayPending_def)
qed

end
