(* ===== verification/Sample.thy ===== *)
theory Sample
  imports Transaction
begin

text \<open>
  Concrete instances on which the witnesses evaluate: in place of the hash function a digest that
  depends on two bytes and the length of its input, a signature check that accepts, a wallet and
  its outputs. Nothing of the model of the program depends on this theory.
\<close>

definition sample_digest :: "bytes \<Rightarrow> bytes" where
  "sample_digest bs =
     replicate 26 0 @ [if 37 < length bs then bs ! 37 else 0, if 34 < length bs then bs ! 34 else 0] @
     be_bytes 4 (length bs)"

definition sample_crypto :: crypto where
  "sample_crypto = \<lparr>Sum256 = sample_digest, UnmarshalPoint = (\<lambda>_. Some (1, 2)),
     ScalarBaseMult = (\<lambda>_. (1, 2)), VerifySig = (\<lambda>_ _ _ _. True)\<rparr>"

definition sample_signer :: signer where
  "sample_signer i d digest = Inr (1, 1)"

definition sample_key :: bytes where
  "sample_key = MarshalPoint (1, 2)"

definition sample_address :: string where
  "sample_address = AddressFromPublicKey sample_crypto sample_key"

definition sample_wallet :: wallet where
  "sample_wallet = \<lparr>WPrivateKey = hex_encode (be_bytes 32 1), WPublicKey = hex_encode sample_key,
     WAddress = sample_address\<rparr>"

definition sample_txid :: "nat \<Rightarrow> string" where
  "sample_txid n = hex_encode (be_bytes 32 n)"

definition sample_utxo :: utxo where
  "sample_utxo = [(Outpoint (sample_txid 1) 0, \<lparr>Amount = 50, Address = sample_address\<rparr>)]"

lemma length_sample_digest [simp]: "length (sample_digest bs) = 32"
  by (simp add: sample_digest_def)

lemma digest32_sample: "digest32 (Sum256 sample_crypto)"
  by unfold_locales (simp add: sample_crypto_def)

lemma sample_crypto_sel [simp]:
  "Sum256 sample_crypto = sample_digest" "UnmarshalPoint sample_crypto bs = Some (1, 2)"
  "ScalarBaseMult sample_crypto bs = (1, 2)" "VerifySig sample_crypto p h r s = True"
  by (simp_all add: sample_crypto_def)

lemma sample_address_valid [simp]: "ValidateAddress sample_crypto sample_address = Inr ()"
  by (simp add: sample_address_def ValidateAddress_AddressFromPublicKey [OF digest32_sample])

lemma length_sample_address [simp]: "length sample_address = 52"
  by (simp add: sample_address_def AddressFromPublicKey_def Let_def)

lemma sample_address_owner [simp]:
  "AddressesEqual sample_crypto (AddressFromPublicKey sample_crypto sample_key) sample_address"
  by (simp add: AddressesEqual_refl flip: sample_address_def)

lemma length_sample_key [simp]: "length sample_key = 65"
  by (simp add: sample_key_def)

lemma sample_txid_hash [simp]: "decodeHash (sample_txid n) = Inr (be_bytes 32 n)"
  and length_sample_txid [simp]: "length (sample_txid n) = 64"
  by (simp_all add: decodeHash_def sample_txid_def)

lemma sample_private_key [simp]: "privateKey sample_crypto sample_wallet = Inr (1, (1, 2))"
  by (simp add: privateKey_def sample_wallet_def be_nat_be_bytes p256_n_def)

lemma sample_public_key [simp]: "PublicKeyBytes sample_crypto sample_wallet = Inr sample_key"
  by (simp add: PublicKeyBytes_def ValidateWallet_def)
    (simp add: sample_wallet_def sample_key_def flip: sample_address_def [unfolded sample_key_def])

end
