(* ===== verification/Block_Props.thy ===== *)
theory Block_Props
  imports Block Sample
begin

text \<open>
  Properties of headers: what the hash commits to, the meaning of proof of work, the two difficulty
  rules, the median of past times, the Merkle root and the timestamp of a new block.
\<close>

text \<open>
  A block hash has valid work exactly when it decodes to 32 bytes whose big-endian value is
  below \<open>2 ^ (256 - difficulty)\<close>: counting leading zero bits is comparing with the target.
\<close>

theorem HasValidWork_target:
  "HasValidWork b \<longleftrightarrow>
     (\<exists>bs. decodeHash (Hash b) = Inr bs \<and> be_nat bs < 2 ^ (256 - unat (Difficulty b)))"
  by (rule HasValidWork_iff)

definition sized_header :: "block \<Rightarrow> bool" where
  "sized_header b \<longleftrightarrow> in_int64 (Timestamp b) \<and> length (PreviousHash b) < 18446744073709551616 \<and>
     length (MerkleRoot b) < 18446744073709551616"

definition header_fields :: "block \<Rightarrow> block" where
  "header_fields b = b\<lparr>Hash := [], Transactions := []\<rparr>"

text \<open>
  The header hash commits to every header field: two headers with the same encoding agree on
  version, height, time, both hashes, difficulty and nonce, so two different headers with one hash
  are a collision of the hash function.
\<close>

theorem ComputeHash_commits:
  assumes "sized_header a" and "sized_header b" and "header_fields a \<noteq> header_fields b"
    and "ComputeHash C a = ComputeHash C b"
  shows "encodeHeader a \<noteq> encodeHeader b \<and> Sum256 C (encodeHeader a) = Sum256 C (encodeHeader b)"
proof
  show "encodeHeader a \<noteq> encodeHeader b"
    using assms(1-3) encodeHeader_prefix [of a b "[]" "[]"]
    by (auto simp: sized_header_def header_fields_def)
  show "Sum256 C (encodeHeader a) = Sum256 C (encodeHeader b)"
    using assms(4) by (auto simp: ComputeHash_def hashHex_def dest: hex_encode_inj)
qed

definition sample_header :: "u64 \<Rightarrow> block" where
  "sample_header n = \<lparr>Version = 1, Height = 1, Timestamp = 5, PreviousHash = zeroHash, MerkleRoot = zeroHash,
     Difficulty = 4, Nonce = n, Hash = [], Transactions = []\<rparr>"

lemma ComputeHash_sample: "ComputeHash sample_crypto (sample_header n) = ComputeHash sample_crypto (sample_header m)"
  by (simp add: ComputeHash_def hashHex_def sample_digest_def sample_header_def encodeHeader_def
      nth_append NetworkID_def)

theorem ComputeHash_commits_witness:
  "encodeHeader (sample_header 1) \<noteq> encodeHeader (sample_header 2) \<and>
   sample_digest (encodeHeader (sample_header 1)) = sample_digest (encodeHeader (sample_header 2))"
  using ComputeHash_commits [of "sample_header 1" "sample_header 2" sample_crypto]
    ComputeHash_sample [of 1 2]
  by (simp add: sized_header_def header_fields_def sample_header_def zeroHash_def in_int64_def
      MinInt64_def MaxInt64_def)

text \<open>
  From the upgrade on, the difficulty is the anchor difficulty corrected by the lag behind the
  ideal schedule, one step for 600 seconds rounded to the nearest, within 4 and 255.
\<close>

theorem asertDifficulty_schedule:
  assumes "ASERTAnchorHeight \<le> height"
  shows "\<exists>q. \<bar>600 * q - schedule_lag height t\<bar> \<le> 300 \<and>
     uint (asertDifficulty height t) = max 4 (min 255 (35 + q))"
  using asertDifficulty_uint [OF assms] roundedQuotient_nearest by blast

theorem asertDifficulty_schedule_witness:
  "\<exists>q. \<bar>600 * q - 22300\<bar> \<le> 300 \<and>
     uint (asertDifficulty 125555 1785202453) = max 4 (min 255 (35 + q))"
  using asertDifficulty_schedule [of 125555 1785202453]
  by (simp add: ASERTAnchorHeight_def schedule_lag_def)

text \<open>
  The corrected difficulty is monotone: a later timestamp never raises it and a greater height
  never lowers it.
\<close>

theorem asertDifficulty_monotone:
  assumes "ASERTAnchorHeight \<le> height" and "height \<le> height'" and "t' \<le> t"
  shows "asertDifficulty height t \<le> asertDifficulty height' t'"
proof -
  have "schedule_lag height t \<le> schedule_lag height' t'"
    using assms by (simp add: schedule_lag_def word_le_def)
  then have "roundedQuotient (schedule_lag height t) 600 \<le> roundedQuotient (schedule_lag height' t') 600"
    by (rule roundedQuotient_mono)
  moreover have "ASERTAnchorHeight \<le> height'" using assms by simp
  ultimately show ?thesis
    using assms(1) by (simp add: word_le_def asertDifficulty_uint)
qed

theorem asertDifficulty_monotone_witness:
  "asertDifficulty 125555 1785202453 \<le> asertDifficulty 125556 1785202452"
  by (rule asertDifficulty_monotone) (simp_all add: ASERTAnchorHeight_def)

text \<open>
  Before the upgrade the difficulty of a block differs from the previous one by at most two,
  changes only at heights that are multiples of 60 from 120 on, and stays within 4 and 255.
\<close>

theorem expectedDifficulty_bounded:
  assumes "expectedDifficulty blocks height = Inr d" and "height \<noteq> 1"
    and "4 \<le> uint (Difficulty (last blocks))"
  shows "4 \<le> uint d \<and> \<bar>uint d - uint (Difficulty (last blocks))\<bar> \<le> 2 \<and>
     (d \<noteq> Difficulty (last blocks) \<longrightarrow> 120 \<le> height \<and> height mod 60 = 0)"
proof -
  have "uint (Difficulty (last blocks)) < 2 ^ LENGTH(8)" by (rule uint_bounded)
  then have p: "uint (Difficulty (last blocks)) \<le> 255" by simp
  from expectedDifficulty_step [OF assms(1,2)] have ne: "blocks \<noteq> []"
    and st: "d = Difficulty (last blocks) \<or>
     (\<exists>k \<in> {-2, -1, 1, 2}. uint d = max 4 (min 255 (uint (Difficulty (last blocks)) + k)))"
    by simp_all
  have "120 \<le> height \<and> height mod 60 = 0" if "d \<noteq> Difficulty (last blocks)"
    using assms(1,2) that go_index_last [OF ne]
    by (auto simp: expectedDifficulty_def consensus_consts Let_def split: if_splits)
  moreover have "4 \<le> uint d \<and> \<bar>uint d - uint (Difficulty (last blocks))\<bar> \<le> 2"
    using st p assms(3) by auto
  ultimately show ?thesis by blast
qed

theorem expectedDifficulty_bounded_witness:
  "4 \<le> uint (22 :: u8) \<and> \<bar>uint (22 :: u8) - uint (Difficulty (last [(sample_header 0)\<lparr>Difficulty := 22\<rparr>]))\<bar> \<le> 2"
  using expectedDifficulty_bounded [of "[(sample_header 0)\<lparr>Difficulty := 22\<rparr>]" 2 22]
  by (simp add: expectedDifficulty_def go_index_def consensus_consts)

text \<open>
  The time floor of a block is a true median: on a non-empty chain it is the time of one of the
  last eleven blocks, more than half of their times are at most it and at least half are at least it,
  so a minority of miners cannot move it beyond the times of the others. Only the last eleven blocks
  matter.
\<close>

theorem medianTimePast_median:
  assumes "blocks \<noteq> []"
  shows "\<exists>m. medianTimePast blocks = Inr m \<and> m \<in> set (past_times blocks) \<and>
     length (past_times blocks) < 2 * length (filter (\<lambda>t. t \<le> m) (past_times blocks)) \<and>
     length (past_times blocks) \<le> 2 * length (filter (\<lambda>t. m \<le> t) (past_times blocks)) \<and>
     medianTimePast blocks = medianTimePast (drop (length blocks - 11) blocks)"
proof -
  have ne: "past_times blocks \<noteq> []" using assms by simp
  have same: "past_times (drop (length blocks - 11) blocks) = past_times blocks"
    by (simp add: past_times_def)
  have "drop (length blocks - 11) blocks \<noteq> []" using assms by (cases blocks) auto
  then have "medianTimePast blocks = medianTimePast (drop (length blocks - 11) blocks)"
    using assms by (simp add: medianTimePast_eq same)
  moreover have "length (past_times blocks) < 2 * length (filter (\<lambda>t. t \<le> median_of (past_times blocks)) (past_times blocks))"
    using median_of_le [OF ne] by linarith
  moreover have "length (past_times blocks) \<le> 2 * length (filter (\<lambda>t. median_of (past_times blocks) \<le> t) (past_times blocks))"
    using median_of_ge [OF ne] by linarith
  ultimately show ?thesis
    using medianTimePast_eq [OF assms] median_of_mem [OF ne] by blast
qed

theorem medianTimePast_median_witness:
  "\<exists>m. medianTimePast [sample_header 0] = Inr m \<and> m \<in> set (past_times [sample_header 0])"
  using medianTimePast_median [of "[sample_header 0]"] by auto

lemma merkle_hash_length:
  "list_all2 (\<lambda>tx h. decodeHash (ID tx) = Inr h) txs hs \<Longrightarrow> \<forall>h \<in> set hs. length h = 32"
  by (induction rule: list_all2_induct) (auto dest: decodeHash_size)

text \<open>
  The Merkle root binds the transactions of a block of known length: two lists of the same
  length with different transaction hashes and one root give a collision of the hash function
  between a string hashed for the first root and one hashed for the second.
\<close>

theorem merkleRoot_binding:
  assumes "digest32 (Sum256 C)" and "length hs = length hs'" and "txs \<noteq> []" and "txs' \<noteq> []"
    and "list_all2 (\<lambda>tx h. decodeHash (ID tx) = Inr h) txs hs"
    and "list_all2 (\<lambda>tx h. decodeHash (ID tx) = Inr h) txs' hs'"
    and "hs \<noteq> hs'" and "merkleRoot C txs = merkleRoot C txs'"
  shows "\<exists>x \<in> set (merkleInputs (Sum256 C) hs). \<exists>y \<in> set (merkleInputs (Sum256 C) hs').
     x \<noteq> y \<and> Sum256 C x = Sum256 C y"
proof (rule merkleLoop_collision [OF digest32.length_digest [OF assms(1)] assms(2) _ _ assms(7)])
  show "\<forall>x \<in> set hs. length x = 32" "\<forall>x \<in> set hs'. length x = 32"
    using assms(5,6) by (auto dest!: merkle_hash_length)
  have "merkleLoop (Sum256 C) hs ! 0 = merkleLoop (Sum256 C) hs' ! 0"
    using assms(8) merkleRoot_eq [OF assms(5,3)] merkleRoot_eq [OF assms(6,4)] by (auto dest: hex_encode_inj)
  moreover have "length (merkleLoop (Sum256 C) hs) = 1" "length (merkleLoop (Sum256 C) hs') = 1"
    using list_all2_lengthD [OF assms(5)] list_all2_lengthD [OF assms(6)] assms(3,4)
    by (auto simp: length_merkleLoop min_def Suc_le_eq)
  ultimately show "merkleLoop (Sum256 C) hs = merkleLoop (Sum256 C) hs'"
    by (auto simp: length_Suc_conv)
qed

definition sample_ids :: "nat list \<Rightarrow> transaction list" where
  "sample_ids ns = map (\<lambda>n. \<lparr>ID = sample_txid n, Coinbase = False, TxNonce = 0, Inputs = [], Outputs = []\<rparr>) ns"

lemma sample_ids_hashes:
  "list_all2 (\<lambda>tx h. decodeHash (ID tx) = Inr h) (sample_ids ns) (map (be_bytes 32) ns)"
  by (induction ns) (simp_all add: sample_ids_def)

text \<open>Two lists whose roots collide under the sample digest.\<close>

lemma sample_root_collision:
  "merkleRoot sample_crypto (sample_ids [1, 2]) = merkleRoot sample_crypto (sample_ids [3, 2])"
  using merkleRoot_eq [OF sample_ids_hashes [of "[1, 2]"]] merkleRoot_eq [OF sample_ids_hashes [of "[3, 2]"]]
  by (simp add: sample_ids_def merkleLoop.simps sample_digest_def nth_append)

theorem merkleRoot_binding_witness:
  "\<exists>x \<in> set (merkleInputs sample_digest (map (be_bytes 32) [1, 2])).
     \<exists>y \<in> set (merkleInputs sample_digest (map (be_bytes 32) [3, 2])). x \<noteq> y \<and> sample_digest x = sample_digest y"
proof -
  have "be_bytes 32 (1::nat) \<noteq> be_bytes 32 3" using be_bytes_inj [of 32 1 3] by force
  then show ?thesis
    using merkleRoot_binding [OF digest32_sample _ _ _ sample_ids_hashes [of "[1, 2]"] sample_ids_hashes [of "[3, 2]"] _
        sample_root_collision]
    by (simp add: sample_ids_def)
qed

text \<open>
  The root does not bind the number of transactions: repeating the last of an odd number of at
  least three gives the same root, which is why a block also rejects a repeated transaction.
\<close>

theorem merkleRoot_duplicate_tail:
  assumes "\<forall>tx \<in> set txs. decodeHash (ID tx) \<in> range Inr" and "odd (length txs)" and "3 \<le> length txs"
  shows "merkleRoot C (txs @ [last txs]) = merkleRoot C txs"
proof -
  have "\<exists>hs. list_all2 (\<lambda>tx h. decodeHash (ID tx) = Inr h) txs hs"
    using assms(1) by (induction txs) (auto simp: list_all2_Cons1)
  then obtain hs where hs: "list_all2 (\<lambda>tx h. decodeHash (ID tx) = Inr h) txs hs" by blast
  have ne: "txs \<noteq> []" "hs \<noteq> []" and len: "length hs = length txs"
    using assms(3) list_all2_lengthD [OF hs] by auto
  have "decodeHash (ID (last txs)) = Inr (last hs)"
    using hs ne len by (simp add: list_all2_conv_all_nth last_conv_nth)
  with hs have hs': "list_all2 (\<lambda>tx h. decodeHash (ID tx) = Inr h) (txs @ [last txs]) (hs @ [last hs])"
    by (simp add: list_all2_appendI)
  have "merkleLoop H (hs @ [last hs]) = merkleLoop H hs" for H
    using merkleLevel_snoc [of hs H] assms(2,3) len ne
    by (simp add: merkleLoop.simps [of H hs] merkleLoop.simps [of H "hs @ [last hs]"])
  with merkleRoot_eq [OF hs ne(1)] merkleRoot_eq [OF hs'] show ?thesis by simp
qed

theorem merkleRoot_duplicate_tail_witness:
  "merkleRoot sample_crypto (sample_ids [1, 2, 3] @ [last (sample_ids [1, 2, 3])]) =
   merkleRoot sample_crypto (sample_ids [1, 2, 3])"
  by (rule merkleRoot_duplicate_tail) (simp_all add: sample_ids_def)

text \<open>
  The timestamp proposed for a new block meets both consensus floors: it exceeds the median of
  the past times and, after the upgrade, the time of the previous block; it is the clock unless the
  clock is behind, and then the least time the rules allow.
\<close>

theorem nextTimestampAt_floor:
  assumes "nextTimestampAt blocks now = Inr t"
    and "\<forall>b \<in> set blocks. MinInt64 \<le> Timestamp b \<and> Timestamp b < MaxInt64"
  shows "blocks \<noteq> [] \<and> median_of (past_times blocks) < t \<and>
     (RequireMonotonicTimestamp (RulesAtHeight (Height (last blocks) + 1)) \<longrightarrow> Timestamp (last blocks) < t) \<and>
     (t = now \<or> t = median_of (past_times blocks) + 1 \<or> t = Timestamp (last blocks) + 1)"
  by (rule nextTimestampAt_ok [OF assms])

theorem nextTimestampAt_floor_witness:
  "median_of (past_times [sample_header 0]) < 6"
  using nextTimestampAt_floor [of "[sample_header 0]" 3 6]
  by (simp add: nextTimestampAt_def medianTimePast_eq past_times_def median_of_def sample_header_def
      go_index_def RulesAtHeight_def consensus_consts MinInt64_def MaxInt64_def Let_def)

end
