(* ===== verification/Der.thy ===== *)
theory Der
  imports Crypto
begin

text \<open>
  The DER encoding of an ECDSA signature: what \<open>asn1.Marshal\<close> writes, \<open>asn1.Unmarshal\<close> reads
  back, also when further bytes follow the two integers inside the sequence.
\<close>

lemma hd_be_min: "n \<noteq> 0 \<Longrightarrow> hd (be_min n) \<noteq> 0 \<and> be_min n \<noteq> []"
proof (induction n rule: be_min.induct)
  case (1 n)
  show ?case
  proof (cases "n div 256 = 0")
    case True
    then have "n < 256" by (simp add: div_eq_0_iff)
    then have "(word_of_nat n :: u8) \<noteq> 0" using 1 by (simp add: word_unat_eq_iff)
    with True 1 show ?thesis by (simp add: be_min.simps [of n])
  next
    case False
    with 1 show ?thesis by (simp add: be_min.simps [of n])
  qed
qed

definition der_content :: "nat \<Rightarrow> bytes" where
  "der_content n = (let bs = be_min n in if bs = [] \<or> 128 \<le> unat (hd bs) then 0 # bs else bs)"

lemma der_encode_int_content:
  "der_encode_int n = 2 # der_encode_length (length (der_content n)) @ der_content n"
  by (simp add: der_encode_int_def der_content_def Let_def)

lemma der_element_encode:
  "length c < 128 \<Longrightarrow> der_element t (t # der_encode_length (length c) @ c @ r) = Some (c, r)"
  by (simp add: der_encode_length_def)

lemma length_der_content: "n < 256 ^ k \<Longrightarrow> length (der_content n) \<le> Suc k"
  using length_be_min [of n k] by (simp add: der_content_def Let_def)

lemma be_nat_zero_Cons: "be_nat (0 # bs) = be_nat bs"
  by (simp add: be_nat_def)

lemma sint_small: "unat (b :: u8) < 128 \<Longrightarrow> sint b = int (unat b)"
proof -
  assume b: "unat b < 128"
  have "signed_take_bit 7 (int n) = int n" if "n < 128" for n
    using that by (intro signed_take_bit_int_eq_self) simp_all
  from this [OF b] show ?thesis by (simp add: sint_uint)
qed

lemma der_int_content: "der_int (der_content n) = Some (int n)"
proof (cases "n = 0")
  case True
  then show ?thesis by (simp add: der_content_def der_int_def)
next
  case False
  define bs where "bs = be_min n"
  have bs: "hd bs \<noteq> 0" "bs \<noteq> []" "be_nat bs = n"
    using hd_be_min [OF False] by (simp_all add: bs_def)
  show ?thesis
  proof (cases "128 \<le> unat (hd bs)")
    case True
    then have "der_content n = 0 # bs" by (simp add: der_content_def bs_def Let_def)
    with True bs show ?thesis
      by (cases bs) (auto simp: der_int_def be_nat_zero_Cons)
  next
    case False
    then have c: "der_content n = bs" using bs by (simp add: der_content_def bs_def Let_def)
    obtain b cs where bcs: "bs = b # cs" using bs(2) by (cases bs) auto
    show ?thesis
    proof (cases cs)
      case Nil
      with False bs bcs c show ?thesis
        by (simp add: der_int_def sint_small be_nat_def)
    next
      case (Cons c' cs')
      have "b \<noteq> 0xff" using False bcs by auto
      with False bs bcs c Cons show ?thesis by (simp add: der_int_def)
    qed
  qed
qed

lemma der_element_encode_int:
  "n < 256 ^ 32 \<Longrightarrow> der_element 2 (der_encode_int n @ r) = Some (der_content n, r)"
  using length_der_content [of n 32] by (simp add: der_encode_int_content der_element_encode)

lemma length_der_encode_int: "n < 256 ^ 32 \<Longrightarrow> length (der_encode_int n) \<le> 35"
  using length_der_content [of n 32] by (simp add: der_encode_int_content der_encode_length_def)

text \<open>A sequence holding the two integers, and anything after them.\<close>

definition asn1_padded_sig :: "int \<Rightarrow> int \<Rightarrow> bytes \<Rightarrow> bytes" where
  "asn1_padded_sig r s pad =
     (let c = der_encode_int (nat r) @ der_encode_int (nat s) @ pad
      in 0x30 # der_encode_length (length c) @ c)"

lemma asn1_unmarshal_padded:
  assumes "r < 256 ^ 32" "s < 256 ^ 32" "length pad < 58"
  shows "asn1_unmarshal_sig
      (0x30 # der_encode_length (length (der_encode_int r @ der_encode_int s @ pad)) @
       (der_encode_int r @ der_encode_int s @ pad)) = Some (int r, int s, [])"
proof -
  let ?c = "der_encode_int r @ der_encode_int s @ pad"
  have "length ?c < 128"
    using length_der_encode_int [OF assms(1)] length_der_encode_int [OF assms(2)] assms(3) by simp
  from der_element_encode [OF this, of "0x30" "[]"]
  have "der_element 0x30 (0x30 # der_encode_length (length ?c) @ ?c) = Some (?c, [])" by simp
  then show ?thesis
    by (simp add: asn1_unmarshal_sig_def der_int_content
        der_element_encode_int [OF assms(1)] der_element_encode_int [OF assms(2)])
qed

lemma asn1_roundtrip:
  assumes "0 \<le> r" "r < 2 ^ 256" "0 \<le> s" "s < 2 ^ 256"
  shows "asn1_unmarshal_sig (asn1_marshal_sig r s) = Some (r, s, [])"
proof -
  have "nat r < 256 ^ 32" "nat s < 256 ^ 32" using assms by (simp_all add: nat_less_iff)
  from asn1_unmarshal_padded [OF this, of "[]"] assms show ?thesis
    by (simp add: asn1_marshal_sig_def Let_def)
qed

lemma length_asn1_marshal_sig:
  assumes "r < 2 ^ 256" "s < 2 ^ 256"
  shows "length (asn1_marshal_sig r s) \<le> 72 \<and> asn1_marshal_sig r s \<noteq> []"
proof -
  have "nat r < 256 ^ 32" "nat s < 256 ^ 32" using assms by (simp_all add: nat_less_iff)
  from length_der_encode_int [OF this(1)] length_der_encode_int [OF this(2)]
  show ?thesis by (simp add: asn1_marshal_sig_def Let_def der_encode_length_def)
qed

lemma asn1_padded_Nil [simp]: "asn1_padded_sig r s [] = asn1_marshal_sig r s"
  by (simp add: asn1_padded_sig_def asn1_marshal_sig_def)

lemma asn1_unmarshal_padded_sig:
  assumes "0 \<le> r" "r < 2 ^ 256" "0 \<le> s" "s < 2 ^ 256" "length pad < 58"
  shows "asn1_unmarshal_sig (asn1_padded_sig r s pad) = Some (r, s, [])"
proof -
  have "nat r < 256 ^ 32" "nat s < 256 ^ 32" using assms by (simp_all add: nat_less_iff)
  from asn1_unmarshal_padded [OF this assms(5)] assms show ?thesis
    by (simp add: asn1_padded_sig_def Let_def)
qed

lemma length_asn1_padded_sig:
  assumes "r < 2 ^ 256" "s < 2 ^ 256" "length pad < 58"
  shows "length (asn1_padded_sig r s pad) = length (asn1_marshal_sig r s) + length pad"
proof -
  have "nat r < 256 ^ 32" "nat s < 256 ^ 32" using assms by (simp_all add: nat_less_iff)
  from length_der_encode_int [OF this(1)] length_der_encode_int [OF this(2)] assms(3)
  show ?thesis
    by (simp add: asn1_padded_sig_def asn1_marshal_sig_def Let_def der_encode_length_def)
qed

end
