(* ===== verification/Transaction_Props.thy ===== *)
theory Transaction_Props
  imports Sample Der
begin

text \<open>
  Properties of transactions: the encoding behind the transaction ID is injective, validation
  means exactly the declarative conditions, a signature survives its DER round trip, a payment
  the wallet builds is accepted, and the DER decoder accepts padded signatures.
\<close>

section \<open>The encoding determines the transaction\<close>

text \<open>The lengths a Go value can have: below \<open>2 ^ 64\<close>.\<close>

definition sized_input :: "tx_input \<Rightarrow> bool" where
  "sized_input i \<longleftrightarrow> length (InTxID i) < 18446744073709551616 \<and>
     length (PublicKey i) < 18446744073709551616 \<and> length (Signature i) < 18446744073709551616"

definition sized_output :: "tx_output \<Rightarrow> bool" where
  "sized_output o' \<longleftrightarrow> length (Address o') < 18446744073709551616"

definition sized_transaction :: "transaction \<Rightarrow> bool" where
  "sized_transaction tx \<longleftrightarrow>
     length (Inputs tx) < 18446744073709551616 \<and> length (Outputs tx) < 18446744073709551616 \<and>
     list_all sized_input (Inputs tx) \<and> list_all sized_output (Outputs tx)"

lemma encodeOutput_prefix:
  assumes "a \<in> Collect sized_output" "b \<in> Collect sized_output" "encodeOutput a @ r = encodeOutput b @ s"
  shows "a = b \<and> r = s"
  using assms by (cases a; cases b) (simp add: encodeOutput_def sized_output_def prefix_code)

lemma encodeInput_prefix:
  assumes "a \<in> Collect sized_input" "b \<in> Collect sized_input" "encodeInput True a @ r = encodeInput True b @ s"
  shows "a = b \<and> r = s"
  using assms by (cases a; cases b) (simp add: encodeInput_def sized_input_def prefix_code)

lemma encodeInputs_prefix:
  assumes "list_all sized_input xs" "list_all sized_input ys" "length xs = length ys"
    and "concat (map (encodeInput True) xs) @ r = concat (map (encodeInput True) ys) @ s"
  shows "xs = ys \<and> r = s"
  by (rule concat_prefix [where S = "Collect sized_input" and f = "encodeInput True",
        OF _ _ _ assms(3,4)])
    (erule (2) encodeInput_prefix, use assms(1,2) in \<open>simp_all add: list_all_iff subset_iff\<close>)

lemma encodeOutputs_prefix:
  assumes "list_all sized_output xs" "list_all sized_output ys" "length xs = length ys"
    and "concat (map encodeOutput xs) @ r = concat (map encodeOutput ys) @ s"
  shows "xs = ys \<and> r = s"
  by (rule concat_prefix [where S = "Collect sized_output" and f = encodeOutput,
        OF _ _ _ assms(3,4)])
    (erule (2) encodeOutput_prefix, use assms(1,2) in \<open>simp_all add: list_all_iff subset_iff\<close>)

lemma length_word_inj:
  "m < 18446744073709551616 \<Longrightarrow> n < 18446744073709551616 \<Longrightarrow>
     (word_of_nat m :: u64) = word_of_nat n \<longleftrightarrow> m = n"
  by (metis unat_word_of_nat_64)

lemma encodeTransaction_prefix:
  assumes "sized_transaction a" "sized_transaction b"
    and "encodeTransaction a True @ r = encodeTransaction b True @ s"
  shows "a\<lparr>ID := []\<rparr> = b\<lparr>ID := []\<rparr> \<and> r = s"
proof -
  let ?ins = "\<lambda>t. concat (map (encodeInput True) (Inputs t))"
  let ?outs = "\<lambda>t. concat (map encodeOutput (Outputs t))"
  let ?n = "\<lambda>t. enc_uint64 (word_of_nat (length (Outputs t)))"
  from assms have head: "Coinbase a = Coinbase b" "TxNonce a = TxNonce b"
      "(word_of_nat (length (Inputs a)) :: u64) = word_of_nat (length (Inputs b))"
    and rest: "?ins a @ (?n a @ ?outs a @ r) = ?ins b @ (?n b @ ?outs b @ s)"
    by (auto simp: encodeTransaction_def prefix_code)
  have len: "length (Inputs a) = length (Inputs b)"
    using assms(1,2) head(3) by (simp add: sized_transaction_def length_word_inj)
  have "Inputs a = Inputs b \<and> ?n a @ ?outs a @ r = ?n b @ ?outs b @ s"
    by (rule encodeInputs_prefix [OF _ _ len rest]) (use assms in \<open>simp_all add: sized_transaction_def\<close>)
  then have ins: "Inputs a = Inputs b"
    and olen: "(word_of_nat (length (Outputs a)) :: u64) = word_of_nat (length (Outputs b))"
    and orest: "?outs a @ r = ?outs b @ s"
    by (auto simp: prefix_code)
  have olen': "length (Outputs a) = length (Outputs b)"
    using assms(1,2) olen by (simp add: sized_transaction_def length_word_inj)
  have "Outputs a = Outputs b \<and> r = s"
    by (rule encodeOutputs_prefix [OF _ _ olen' orest]) (use assms in \<open>simp_all add: sized_transaction_def\<close>)
  with head ins show ?thesis by (cases a; cases b) simp
qed

text \<open>
  The binary encoding that is hashed into a transaction ID is injective: two transactions with
  the same encoding agree in everything but the stored ID itself. Two different transactions can
  therefore share a computed ID only through a collision of the hash function.
\<close>

theorem ComputeID_injective:
  assumes "sized_transaction a" and "sized_transaction b" and "a\<lparr>ID := []\<rparr> \<noteq> b\<lparr>ID := []\<rparr>"
    and "ComputeID C a = ComputeID C b"
  shows "encodeTransaction a True \<noteq> encodeTransaction b True \<and>
     Sum256 C (encodeTransaction a True) = Sum256 C (encodeTransaction b True)"
proof -
  have "encodeTransaction a True \<noteq> encodeTransaction b True"
    using assms encodeTransaction_prefix [of a b "[]" "[]"] by auto
  with assms(4) show ?thesis by (auto simp: ComputeID_def hashHex_def dest: hex_encode_inj)
qed

definition sample_coinbase :: "u64 \<Rightarrow> transaction" where
  "sample_coinbase n = \<lparr>ID = [], Coinbase = True, TxNonce = 0, Inputs = [],
     Outputs = [\<lparr>Amount = n, Address = sample_address\<rparr>]\<rparr>"

lemma ComputeID_sample_coinbase:
  "ComputeID sample_crypto (sample_coinbase n) = ComputeID sample_crypto (sample_coinbase m)"
  by (simp add: ComputeID_def hashHex_def sample_digest_def sample_coinbase_def encodeTransaction_def
      encodeOutput_def nth_append NetworkID_def)

theorem ComputeID_injective_witness:
  "encodeTransaction (sample_coinbase 1) True \<noteq> encodeTransaction (sample_coinbase 2) True \<and>
   sample_digest (encodeTransaction (sample_coinbase 1) True) =
   sample_digest (encodeTransaction (sample_coinbase 2) True)"
  using ComputeID_injective [of "sample_coinbase 1" "sample_coinbase 2" sample_crypto]
    ComputeID_sample_coinbase [of 1 2]
  by (simp add: sized_transaction_def sized_output_def sample_coinbase_def)


section \<open>Signatures\<close>

text \<open>What an input signs does not depend on any signature, nor on the stored ID.\<close>

definition strip :: "transaction \<Rightarrow> transaction" where
  "strip tx = tx\<lparr>ID := [], Inputs := map (\<lambda>i. i\<lparr>Signature := []\<rparr>) (Inputs tx)\<rparr>"

lemma strip_sel:
  "strip a = strip b \<Longrightarrow> Coinbase a = Coinbase b \<and> TxNonce a = TxNonce b \<and> Outputs a = Outputs b \<and>
     map (\<lambda>i. i\<lparr>Signature := []\<rparr>) (Inputs a) = map (\<lambda>i. i\<lparr>Signature := []\<rparr>) (Inputs b)"
  by (cases a; cases b) (simp add: strip_def)

lemma encodeInput_strip:
  "i\<lparr>Signature := []\<rparr> = j\<lparr>Signature := []\<rparr> \<Longrightarrow> encodeInput False i = encodeInput False j"
  by (cases i; cases j) (simp add: encodeInput_def)

lemma encodeTransaction_strip:
  assumes "strip a = strip b"
  shows "encodeTransaction a False = encodeTransaction b False"
proof -
  have eq: "map (\<lambda>i. i\<lparr>Signature := []\<rparr>) (Inputs a) = map (\<lambda>i. i\<lparr>Signature := []\<rparr>) (Inputs b)"
    using strip_sel [OF assms] by simp
  then have len: "length (Inputs a) = length (Inputs b)" by (rule map_eq_imp_length_eq)
  have "map (encodeInput False) (Inputs a) = map (encodeInput False) (Inputs b)"
    using len eq by (induction rule: list_induct2) (auto intro: encodeInput_strip)
  with len strip_sel [OF assms] show ?thesis by (simp add: encodeTransaction_def)
qed

lemma signingHash_strip: "strip a = strip b \<Longrightarrow> signingHash C a i p = signingHash C b i p"
  by (simp add: signingHash_def encodeTransaction_strip [of a b])

lemma length_encodeInput:
  "length (encodeInput True i) =
     28 + length (InTxID i) + length (PublicKey i) + length (Signature i)"
  by (simp add: encodeInput_def)

lemma length_encodeOutput: "length (encodeOutput o') = 16 + length (Address o')"
  by (simp add: encodeOutput_def)

lemma encodedSize_eq:
  "encodedSize tx = 51 + (\<Sum>i\<leftarrow>Inputs tx. 28 + length (InTxID i) + length (PublicKey i) + length (Signature i)) +
     (\<Sum>o'\<leftarrow>Outputs tx. 16 + length (Address o'))"
  by (simp add: encodedSize_def encodeTransaction_def length_concat o_def length_encodeInput
      length_encodeOutput NetworkID_def)

text \<open>Replacing the signature of one input by another that the checks accept.\<close>

definition resign :: "crypto \<Rightarrow> transaction \<Rightarrow> nat \<Rightarrow> bytes \<Rightarrow> transaction" where
  "resign C tx i sig =
     (let tx' = tx\<lparr>Inputs := (Inputs tx)[i := (Inputs tx ! i)\<lparr>Signature := sig\<rparr>]\<rparr>
      in tx'\<lparr>ID := ComputeID C tx'\<rparr>)"

lemma resign_sel [simp]:
  "Inputs (resign C tx i sig) = (Inputs tx)[i := (Inputs tx ! i)\<lparr>Signature := sig\<rparr>]"
  "Outputs (resign C tx i sig) = Outputs tx" "Coinbase (resign C tx i sig) = Coinbase tx"
  by (simp_all add: resign_def Let_def)

lemma ComputeID_ID [simp]: "ComputeID C (tx\<lparr>ID := x\<rparr>) = ComputeID C tx"
  by (simp add: ComputeID_def encodeTransaction_def)

lemma resign_ID: "ID (resign C tx i sig) = ComputeID C (resign C tx i sig)"
  by (simp add: resign_def Let_def)

lemma map_update_same:
  "i < length xs \<Longrightarrow> f y = f (xs ! i) \<Longrightarrow> map f (xs[i := y]) = map f xs"
  by (simp add: map_update list_update_same_conv)

lemma resign_strip: "strip (resign C tx i sig) = strip tx"
proof (cases "i < length (Inputs tx)")
  case True
  then show ?thesis by (simp add: strip_def resign_def Let_def map_update_same)
next
  case False
  then have "(Inputs tx)[i := x] = Inputs tx" for x by (simp add: list_update_beyond)
  then show ?thesis by (simp add: strip_def resign_def Let_def)
qed

lemma sum_list_update_nat:
  "i < length xs \<Longrightarrow> sum_list (map f (xs[i := y])) + f (xs ! i) = sum_list (map f xs) + (f y :: nat)"
  by (induction xs arbitrary: i) (auto simp: algebra_simps split: nat.splits)

lemma encodedSize_resign:
  assumes "i < length (Inputs tx)"
  shows "encodedSize (resign C tx i sig) + length (Signature (Inputs tx ! i)) = encodedSize tx + length sig"
  using sum_list_update_nat [OF assms, of
      "\<lambda>i. 28 + length (InTxID i) + length (PublicKey i) + length (Signature i)"
      "(Inputs tx ! i)\<lparr>Signature := sig\<rparr>"]
  by (simp add: encodedSize_eq)

lemma enumerate_update:
  "i < length xs \<Longrightarrow> (j, x) \<in> set (List.enumerate 0 (xs[i := y])) \<Longrightarrow>
     (j \<noteq> i \<and> (j, x) \<in> set (List.enumerate 0 xs)) \<or> (j = i \<and> x = y)"
  by (auto simp: in_set_enumerate_eq nth_list_update)

lemma inputs_value_update:
  "i < length xs \<Longrightarrow> input_outpoint y = input_outpoint (xs ! i) \<Longrightarrow>
     inputs_value u (xs[i := y]) = inputs_value u xs"
  unfolding inputs_value_def by (subst map_update_same) simp_all

lemma resign_valid:
  assumes ok: "validateRegularTransaction C tx u = Inr fee" and i: "i < length (Inputs tx)"
    and sig: "asn1_unmarshal_sig sig = asn1_unmarshal_sig (Signature (Inputs tx ! i))"
    and len: "sig \<noteq> []" "length sig \<le> 80"
    and size: "encodedSize tx + length sig \<le> MaxTransactionBytes + length (Signature (Inputs tx ! i))"
  shows "validateRegularTransaction C (resign C tx i sig) u = Inr fee"
proof -
  let ?t = "resign C tx i sig" and ?x = "(Inputs tx ! i)\<lparr>Signature := sig\<rparr>"
  have r: "regular_tx_ok C tx u" and fee: "unat fee = inputs_value u (Inputs tx) - outputs_value (Outputs tx)"
    using ok by (simp_all add: validateRegularTransaction_eq_Inr)
  have op: "input_outpoint ?x = input_outpoint (Inputs tx ! i)" by (simp add: input_outpoint_def)
  have same: "map input_outpoint (Inputs ?t) = map input_outpoint (Inputs tx)"
    "inputs_value u (Inputs ?t) = inputs_value u (Inputs tx)"
    using i op by (simp_all add: map_update_same inputs_value_update)
  have form: "checkInputForm ?x = Inr ()"
    using r i len by (auto simp: regular_tx_ok_def checkInputForm_def split: sum.splits if_splits)
  have inOk: "input_ok C tx u j inp" if "(j, inp) \<in> set (List.enumerate 0 (Inputs tx))" for j inp
    using r that by (auto simp: regular_tx_ok_def)
  have inOk': "input_ok C ?t u j inp" if "(j, inp) \<in> set (List.enumerate 0 (Inputs ?t))" for j inp
  proof -
    have h: "signingHash C ?t j p = signingHash C tx j p" for p
      by (rule signingHash_strip) (rule resign_strip)
    have "(i, Inputs tx ! i) \<in> set (List.enumerate 0 (Inputs tx))"
      using i by (simp add: in_set_enumerate_eq)
    from inOk [OF this] have "input_ok C tx u i ?x"
      by (simp add: input_ok_def op checkSignature_def sig)
    with inOk that enumerate_update [OF i] h show ?thesis
      unfolding input_ok_def by fastforce
  qed
  have "encodedSize ?t \<le> MaxTransactionBytes"
    using encodedSize_resign [OF i, of C sig] size by simp
  then have "regular_tx_ok C ?t u"
    using r i form inOk' same resign_ID [of C tx i sig]
    unfolding regular_tx_ok_def by (auto dest!: set_update_subset_insert [THEN subsetD])
  with fee same show ?thesis by (simp add: validateRegularTransaction_eq_Inr)
qed


section \<open>Payments the wallet builds\<close>

definition unsignedInput :: "bytes \<Rightarrow> outpoint \<Rightarrow> tx_input" where
  "unsignedInput pk outpoint =
     \<lparr>InTxID = OpTxID outpoint, OutputIndex = OpIndex outpoint, PublicKey = pk, Signature = []\<rparr>"

lemma input_outpoint_unsigned [simp]: "input_outpoint (unsignedInput pk op) = op"
  by (simp add: input_outpoint_def unsignedInput_def)

text \<open>The selected inputs are a prefix of the candidates, at most 256, and the total is their value.\<close>

lemma selectInputs_prefix:
  assumes "selectInputs pk needed cands (ins, prevs, t) = Inr (ins', prevs', t')"
    and "length ins \<le> MaxTransactionInputs"
  shows "\<exists>k. ins' = ins @ map (unsignedInput pk \<circ> fst) (take k cands) \<and>
     prevs' = prevs @ map snd (take k cands) \<and>
     unat t' = unat t + outputs_value (map snd (take k cands)) \<and> length ins' \<le> MaxTransactionInputs"
  using assms
proof (induction cands arbitrary: ins prevs t)
  case Nil
  then show ?case by auto
next
  case (Cons c cands)
  obtain op out where c: "c = (op, out)" by fastforce
  let ?ins = "ins @ [unsignedInput pk op]" and ?prevs = "prevs @ [out]"
  show ?case
  proof (cases "length ins \<ge> MaxTransactionInputs")
    case True
    with Cons.prems c show ?thesis by (intro exI [of _ 0]) auto
  next
    case False
    with Cons.prems c obtain t1 where t1: "safeAdd t (Amount out) = Inr t1"
      and rest: "(if t1 \<ge> needed then Inr (?ins, ?prevs, t1)
                  else selectInputs pk needed cands (?ins, ?prevs, t1)) = Inr (ins', prevs', t')"
      by (auto simp: res_simps Let_def simp flip: unsignedInput_def)
    show ?thesis
    proof (cases "t1 \<ge> needed")
      case True
      with rest c safeAdd_unat [OF t1] False show ?thesis
        by (intro exI [of _ "Suc 0"]) auto
    next
      case ge: False
      then have "selectInputs pk needed cands (?ins, ?prevs, t1) = Inr (ins', prevs', t')"
        using rest by simp
      moreover have "length ?ins \<le> MaxTransactionInputs" using False by simp
      ultimately obtain k where "ins' = ?ins @ map (unsignedInput pk \<circ> fst) (take k cands)"
          "prevs' = ?prevs @ map snd (take k cands)"
          "unat t' = unat t1 + outputs_value (map snd (take k cands))"
          "length ins' \<le> MaxTransactionInputs"
        using Cons.IH by blast
      with c safeAdd_unat [OF t1] show ?thesis by (intro exI [of _ "Suc k"]) auto
    qed
  qed
qed

definition lowS :: "int \<Rightarrow> int" where
  "lowS s = (if s > halfOrder then p256_n - s else s)"

lemma lowS_bounds: "0 < s \<Longrightarrow> s < p256_n \<Longrightarrow> 0 < lowS s \<and> lowS s \<le> halfOrder \<and> lowS s < 2 ^ 256"
  by (auto simp: lowS_def halfOrder_def p256_n_def)

definition signed_by :: "crypto \<Rightarrow> signer \<Rightarrow> nat \<Rightarrow> bytes \<Rightarrow> nat \<Rightarrow> tx_input \<Rightarrow> tx_input \<Rightarrow> bool" where
  "signed_by C signer d digest i inp inp' \<longleftrightarrow>
     (\<exists>r s. signer i d digest = Inr (r, s) \<and> inp' = inp\<lparr>Signature := asn1_marshal_sig r (lowS s)\<rparr>)"

lemma signInput_step:
  assumes "signInput C signer d prevs tx i = Inr tx'" "i < length (Inputs tx)"
  shows "strip tx' = strip tx \<and> (\<exists>y. tx' = tx\<lparr>Inputs := (Inputs tx)[i := y]\<rparr> \<and>
     signed_by C signer d (signingHash C tx i (prevs ! i)) i (Inputs tx ! i) y)"
proof -
  from assms obtain r s where rs: "signer i d (signingHash C tx i (prevs ! i)) = Inr (r, s)"
    and tx': "tx' = tx\<lparr>Inputs := (Inputs tx)[i := (Inputs tx ! i)\<lparr>Signature := asn1_marshal_sig r (lowS s)\<rparr>]\<rparr>"
    by (auto simp: signInput_def res_simps lowS_def Let_def)
  with assms(2) show ?thesis
    by (auto simp: strip_def map_update_same signed_by_def)
qed

lemma sign_loop:
  assumes "n \<le> length (Inputs tx)" "foldE (signInput C signer d prevs) tx [0..<n] = Inr tx'"
  shows "strip tx' = strip tx \<and> Inputs tx' = map (\<lambda>i. Inputs tx' ! i) [0..<length (Inputs tx)] \<and>
     (\<forall>i < n. signed_by C signer d (signingHash C tx i (prevs ! i)) i (Inputs tx ! i) (Inputs tx' ! i)) \<and>
     (\<forall>i \<ge> n. Inputs tx' ! i = Inputs tx ! i) \<and> length (Inputs tx') = length (Inputs tx)"
  using assms
proof (induction n arbitrary: tx')
  case 0
  then show ?case by (simp add: map_nth)
next
  case (Suc n)
  then obtain t1 where t1: "foldE (signInput C signer d prevs) tx [0..<n] = Inr t1"
    and step: "signInput C signer d prevs t1 n = Inr tx'"
    by (auto simp: foldE_append res_simps)
  have IH: "strip t1 = strip tx" "length (Inputs t1) = length (Inputs tx)"
    "\<forall>i < n. signed_by C signer d (signingHash C tx i (prevs ! i)) i (Inputs tx ! i) (Inputs t1 ! i)"
    "\<forall>i \<ge> n. Inputs t1 ! i = Inputs tx ! i"
    using Suc.IH [OF _ t1] Suc.prems by auto
  obtain y where y: "strip tx' = strip t1" "tx' = t1\<lparr>Inputs := (Inputs t1)[n := y]\<rparr>"
    "signed_by C signer d (signingHash C t1 n (prevs ! n)) n (Inputs t1 ! n) y"
    using signInput_step [OF step] IH Suc.prems by auto
  have "signingHash C t1 n (prevs ! n) = signingHash C tx n (prevs ! n)"
    using IH(1) by (rule signingHash_strip)
  then have sb: "signed_by C signer d (signingHash C tx n (prevs ! n)) n (Inputs tx ! n) y"
    using y(3) IH(4) by simp
  have len: "length (Inputs tx') = length (Inputs tx)" using y IH by simp
  have upd: "Inputs tx' ! i = (if i = n then y else Inputs t1 ! i)" for i
    using y(2) IH(2) Suc.prems by (simp add: nth_list_update)
  have "\<forall>i < Suc n. signed_by C signer d (signingHash C tx i (prevs ! i)) i (Inputs tx ! i) (Inputs tx' ! i)"
    using IH(3) sb upd by (simp add: less_Suc_eq)
  moreover have "\<forall>i \<ge> Suc n. Inputs tx' ! i = Inputs tx ! i" using IH(4) upd by simp
  ultimately show ?case using len y(1) IH(1) by (simp add: map_nth flip: len)
qed

lemma ValidateAddress_length: "ValidateAddress C a = Inr () \<Longrightarrow> length a = 52"
  by (auto simp: ValidateAddress_def split: if_splits)

lemma PublicKeyBytes_eq_Inr:
  assumes "PublicKeyBytes C w = Inr pk" "privateKey C w = Inr (d, pub)"
  shows "pk = MarshalPoint pub \<and> AddressFromPublicKey C pk = WAddress w \<and>
     ValidateAddress C (WAddress w) = Inr ()"
proof -
  from assms have h: "hex_encode (MarshalPoint pub) = WPublicKey w"
      "AddressFromPublicKey C (MarshalPoint pub) = WAddress w"
      "ValidateAddress C (WAddress w) = Inr ()" "hex_decode (WPublicKey w) = Inr pk"
    by (auto simp: PublicKeyBytes_def ValidateWallet_def res_simps Let_def split: if_splits)
  from h(4) [folded h(1)] have "pk = MarshalPoint pub" by simp
  with h show ?thesis by simp
qed


text \<open>The steps of a successful payment.\<close>

definition payable :: "crypto \<Rightarrow> wallet \<Rightarrow> utxo \<Rightarrow> utxo" where
  "payable C w u = sort_key fst (filter (\<lambda>(_, out). AddressesEqual C (Address out) (WAddress w)) u)"

definition unsigned_payment :: "u64 \<Rightarrow> bytes \<Rightarrow> utxo \<Rightarrow> string \<Rightarrow> u64 \<Rightarrow> u64 \<Rightarrow> string \<Rightarrow> transaction" where
  "unsigned_payment nonce pk spent to amount change back =
     \<lparr>ID = [], Coinbase = False, TxNonce = nonce, Inputs = map (unsignedInput pk \<circ> fst) spent,
      Outputs = \<lparr>Amount = amount, Address = to\<rparr> #
        (if change > 0 then [\<lparr>Amount = change, Address = back\<rparr>] else [])\<rparr>"

lemma unsigned_payment_sel [simp]:
  "Inputs (unsigned_payment nonce pk spent to amount change back) = map (unsignedInput pk \<circ> fst) spent"
  "Outputs (unsigned_payment nonce pk spent to amount change back) =
     \<lparr>Amount = amount, Address = to\<rparr> # (if change > 0 then [\<lparr>Amount = change, Address = back\<rparr>] else [])"
  "Coinbase (unsigned_payment nonce pk spent to amount change back) = False"
  by (simp_all add: unsigned_payment_def)

lemma BuildTransaction_steps:
  assumes "BuildTransaction C signer rnd w to amount fee u = Inr tx" and "privateKey C w = Inr (d, pub)"
  obtains needed k total nonce t1 where
    "amount \<noteq> 0" "ValidateAddress C to = Inr ()" "safeAdd amount fee = Inr needed"
    "PublicKeyBytes C w = Inr (MarshalPoint pub)"
    "unat total = outputs_value (map snd (take k (payable C w u)))" "needed \<le> total"
    "length (take k (payable C w u)) \<le> MaxTransactionInputs"
    "foldE (signInput C signer d (map snd (take k (payable C w u))))
       (unsigned_payment nonce (MarshalPoint pub) (take k (payable C w u)) to amount (total - needed) (WAddress w))
       [0..<length (take k (payable C w u))] = Inr t1"
    "tx = t1\<lparr>ID := ComputeID C t1\<rparr>"
proof -
  from assms obtain needed pk ins prevs total nonce t1 where
    1: "amount \<noteq> 0" "ValidateAddress C to = Inr ()" "safeAdd amount fee = Inr needed"
      "PublicKeyBytes C w = Inr pk"
      "selectInputs pk needed (payable C w u) ([], [], 0) = Inr (ins, prevs, total)"
      "needed \<le> total" and
    2: "sign C signer w prevs \<lparr>ID = [], Coinbase = False, TxNonce = nonce, Inputs = ins,
      Outputs = \<lparr>Amount = amount, Address = to\<rparr> #
        (if total - needed > 0 then [\<lparr>Amount = total - needed, Address = WAddress w\<rparr>] else [])\<rparr> = Inr t1"
      "tx = t1\<lparr>ID := ComputeID C t1\<rparr>"
    unfolding BuildTransaction_def Let_def payable_def
    by (auto simp: res_simps not_less)
  have pk: "pk = MarshalPoint pub" using PublicKeyBytes_eq_Inr [OF 1(4) assms(2)] by simp
  obtain k where k: "ins = map (unsignedInput pk \<circ> fst) (take k (payable C w u))"
      "prevs = map snd (take k (payable C w u))"
      "unat total = outputs_value (map snd (take k (payable C w u)))" "length ins \<le> MaxTransactionInputs"
    using selectInputs_prefix [OF 1(5)] by auto
  let ?spent = "take k (payable C w u)"
  have "sign C signer w prevs
      (unsigned_payment nonce pk ?spent to amount (total - needed) (WAddress w)) = Inr t1"
    using 2(1) k(1) by (simp only: unsigned_payment_def)
  then have "foldE (signInput C signer d (map snd ?spent))
      (unsigned_payment nonce pk ?spent to amount (total - needed) (WAddress w))
      [0..<length ?spent] = Inr t1"
    using assms(2) k(2) by (simp add: sign_def del: unsigned_payment_sel(2,3) length_take)
  with 1 2(2) k(3,4) show thesis
    unfolding pk k(1) by (intro that) simp_all
qed


text \<open>
  The documented behaviour of \<open>ecdsa.Sign\<close> that a payment relies on: a signature it returns is in
  range and verifies under the public key, also with the smaller of the two equivalent values of
  \<open>s\<close>.
\<close>

definition honest_signer :: "crypto \<Rightarrow> signer \<Rightarrow> nat \<Rightarrow> int \<times> int \<Rightarrow> bool" where
  "honest_signer C signer d pub \<longleftrightarrow>
     (\<forall>i h r s. signer i d h = Inr (r, s) \<longrightarrow>
        0 < r \<and> r < 2 ^ 256 \<and> 0 < s \<and> s < p256_n \<and> VerifySig C pub h r (lowS s))"

lemma signed_by_honest:
  assumes "honest_signer C signer d pub" and "signed_by C signer d h i inp inp'"
  shows "length (Signature inp') \<le> 72 \<and> Signature inp' \<noteq> [] \<and> checkSignature C pub (Signature inp') h \<and>
     InTxID inp' = InTxID inp \<and> OutputIndex inp' = OutputIndex inp \<and> PublicKey inp' = PublicKey inp"
proof -
  obtain r s where rs: "0 < r" "r < 2 ^ 256" "0 < s" "s < p256_n" "VerifySig C pub h r (lowS s)"
    and inp': "inp' = inp\<lparr>Signature := asn1_marshal_sig r (lowS s)\<rparr>"
    using assms unfolding honest_signer_def signed_by_def by blast
  have s: "0 < lowS s" "lowS s \<le> halfOrder" "lowS s < 2 ^ 256"
    using lowS_bounds [OF rs(3,4)] by simp_all
  have "asn1_unmarshal_sig (asn1_marshal_sig r (lowS s)) = Some (r, lowS s, [])"
    using rs(1,2) s by (intro asn1_roundtrip) simp_all
  then have "checkSignature C pub (Signature inp') h"
    using rs s by (simp add: checkSignature_def inp')
  with length_asn1_marshal_sig [OF rs(2) s(3)] show ?thesis by (simp add: inp')
qed

lemma payable_mem:
  "(op, out) \<in> set (take k (payable C w u)) \<Longrightarrow> (op, out) \<in> set u \<and> AddressesEqual C (Address out) (WAddress w)"
  by (auto simp: payable_def dest: in_set_takeD)

lemma distinct_payable:
  assumes "distinct (map fst u)"
  shows "distinct (map fst (take k (payable C w u)))"
proof -
  have "inj_on fst (set u)" and "distinct u" using assms by (simp_all add: distinct_map)
  then have "distinct (map fst (payable C w u))"
    by (auto simp: payable_def distinct_map intro: inj_on_subset)
  then show ?thesis by (simp add: distinct_take flip: take_map)
qed

lemma inputs_value_unsigned:
  assumes "distinct (map fst u)" and "set spent \<subseteq> set u"
    and "map input_outpoint ins = map fst spent"
  shows "inputs_value u ins = outputs_value (map snd spent)"
proof -
  have "inputs_value u ins = (\<Sum>op\<leftarrow>map input_outpoint ins. unat (Amount (the (map_of u op))))"
    by (simp add: inputs_value_def o_def)
  also have "\<dots> = (\<Sum>(op, out)\<leftarrow>spent. unat (Amount (the (map_of u op))))"
    by (simp add: assms(3) o_def case_prod_unfold)
  also have "\<dots> = (\<Sum>(op, out)\<leftarrow>spent. unat (Amount out))"
    using assms(1,2) by (intro arg_cong [where f = sum_list] map_cong) auto
  finally show ?thesis by (simp add: outputs_value_def o_def case_prod_unfold)
qed

lemma sum_list_le_mult: "(\<And>x. x \<in> set xs \<Longrightarrow> f x \<le> (k::nat)) \<Longrightarrow> sum_list (map f xs) \<le> length xs * k"
  by (induction xs) (auto simp: add_mono)

lemma payment_size:
  assumes "length (Inputs tx) \<le> MaxTransactionInputs" "length (Outputs tx) \<le> 2"
    and "\<And>i. i \<in> set (Inputs tx) \<Longrightarrow> length (InTxID i) = 64 \<and> length (PublicKey i) = 65 \<and> length (Signature i) \<le> 72"
    and "\<And>out. out \<in> set (Outputs tx) \<Longrightarrow> length (Address out) = 52"
  shows "encodedSize tx \<le> MaxTransactionBytes"
proof -
  have "(\<Sum>i\<leftarrow>Inputs tx. 28 + length (InTxID i) + length (PublicKey i) + length (Signature i)) \<le>
      length (Inputs tx) * 229"
    using assms(3) by (intro sum_list_le_mult) fastforce
  moreover have "(\<Sum>out\<leftarrow>Outputs tx. 16 + length (Address out)) \<le> length (Outputs tx) * 68"
    using assms(4) by (intro sum_list_le_mult) fastforce
  ultimately show ?thesis
    using assms(1,2) by (simp add: encodedSize_eq MaxTransactionInputs_def MaxTransactionBytes_def)
qed


lemma payment_outputs:
  fixes total :: u64
  assumes "amount \<noteq> 0" "ValidateAddress C to = Inr ()" "ValidateAddress C back = Inr ()"
    and "safeAdd amount fee = Inr needed" "needed \<le> total"
  shows "outputs_ok C (Outputs (unsigned_payment nonce pk spent to amount (total - needed) back))"
    and "unat total = outputs_value (Outputs (unsigned_payment nonce pk spent to amount (total - needed) back)) + unat fee"
proof -
  have n: "unat needed = unat amount + unat fee" using assms(4) by (rule safeAdd_unat)
  have d: "unat (total - needed) = unat total - unat needed" "unat needed \<le> unat total"
    using assms(5) by (simp_all add: unat_minus_no_underflow word_le_nat_alt)
  show "outputs_ok C (Outputs (unsigned_payment nonce pk spent to amount (total - needed) back))"
    using assms by (auto simp: outputs_ok_def)
  show "unat total = outputs_value (Outputs (unsigned_payment nonce pk spent to amount (total - needed) back)) + unat fee"
    using n d by (auto simp: word_less_nat_alt)
qed

text \<open>Each input of the signed payment: its form, its outpoint and its signature.\<close>

lemma payment_inputs:
  assumes sign: "foldE (signInput C signer d (map snd spent)) t0 [0..<length spent] = Inr t1"
    and t0: "t0 = unsigned_payment nonce pk spent to amount change back"
    and honest: "honest_signer C signer d pub" and i: "i < length spent"
  shows "InTxID (Inputs t1 ! i) = OpTxID (fst (spent ! i)) \<and> OutputIndex (Inputs t1 ! i) = OpIndex (fst (spent ! i)) \<and>
     PublicKey (Inputs t1 ! i) = pk \<and> length (Signature (Inputs t1 ! i)) \<le> 72 \<and> Signature (Inputs t1 ! i) \<noteq> [] \<and>
     checkSignature C pub (Signature (Inputs t1 ! i)) (signingHash C t1 i (snd (spent ! i)))"
proof -
  have loop: "strip t1 = strip t0"
    "signed_by C signer d (signingHash C t0 i (map snd spent ! i)) i (Inputs t0 ! i) (Inputs t1 ! i)"
    using sign_loop [OF _ sign] i by (simp_all add: t0)
  have "signingHash C t1 i p = signingHash C t0 i p" for p
    using loop(1) by (rule signingHash_strip)
  with signed_by_honest [OF honest loop(2)] i show ?thesis
    by (simp add: t0 unsignedInput_def)
qed

lemma BuildTransaction_validates:
  assumes build: "BuildTransaction C signer rnd w to amount fee u = Inr tx"
    and key: "privateKey C w = Inr (d, pub)" and point: "UnmarshalPoint C (MarshalPoint pub) = Some pub"
    and honest: "honest_signer C signer d pub"
    and keys: "distinct (map fst u)" and ids: "\<And>op out. (op, out) \<in> set u \<Longrightarrow> decodeHash (OpTxID op) \<in> range Inr"
  shows "validateRegularTransaction C tx u = Inr fee"
proof -
  obtain needed k total nonce t1 where
    st: "amount \<noteq> 0" "ValidateAddress C to = Inr ()" "safeAdd amount fee = Inr needed"
    "PublicKeyBytes C w = Inr (MarshalPoint pub)"
    "unat total = outputs_value (map snd (take k (payable C w u)))" "needed \<le> total"
    "length (take k (payable C w u)) \<le> MaxTransactionInputs"
    "foldE (signInput C signer d (map snd (take k (payable C w u))))
       (unsigned_payment nonce (MarshalPoint pub) (take k (payable C w u)) to amount (total - needed) (WAddress w))
       [0..<length (take k (payable C w u))] = Inr t1"
    "tx = t1\<lparr>ID := ComputeID C t1\<rparr>"
    by (rule BuildTransaction_steps [OF build key])
  define spent where "spent = take k (payable C w u)"
  define t0 where "t0 = unsigned_payment nonce (MarshalPoint pub) spent to amount (total - needed) (WAddress w)"
  note st = st [folded spent_def, folded t0_def]
  have addr: "AddressFromPublicKey C (MarshalPoint pub) = WAddress w" "ValidateAddress C (WAddress w) = Inr ()"
    using PublicKeyBytes_eq_Inr [OF st(4) key] by simp_all
  have spent: "(op, out) \<in> set u \<and> AddressesEqual C (Address out) (WAddress w)" if "(op, out) \<in> set spent" for op out
    using that payable_mem unfolding spent_def by fast
  have outs: "outputs_ok C (Outputs t0)" "unat total = outputs_value (Outputs t0) + unat fee"
    unfolding t0_def by (rule payment_outputs [OF st(1,2) addr(2) st(3,6)])+
  have lo: "strip t1 = strip t0" "length (Inputs t1) = length spent"
    using sign_loop [OF _ st(8)] by (simp_all add: t0_def)
  then have sel: "Coinbase tx = False" "Outputs tx = Outputs t0" "Inputs tx = Inputs t1" "ID tx = ComputeID C tx"
    using strip_sel [OF lo(1)] by (simp_all add: st(9) t0_def)
  have inp: "InTxID (Inputs t1 ! i) = OpTxID (fst (spent ! i)) \<and> OutputIndex (Inputs t1 ! i) = OpIndex (fst (spent ! i)) \<and>
     PublicKey (Inputs t1 ! i) = MarshalPoint pub \<and> length (Signature (Inputs t1 ! i)) \<le> 72 \<and>
     Signature (Inputs t1 ! i) \<noteq> [] \<and>
     checkSignature C pub (Signature (Inputs t1 ! i)) (signingHash C t1 i (snd (spent ! i)))"
    if "i < length spent" for i
    by (rule payment_inputs [OF st(8) t0_def honest that])
  have ops: "map input_outpoint (Inputs tx) = map fst spent"
    using inp by (intro nth_equalityI) (simp_all add: sel lo input_outpoint_def)
  have mem: "\<exists>i < length spent. x = Inputs t1 ! i" if "x \<in> set (Inputs tx)" for x
    using that by (auto simp: sel lo in_set_conv_nth)
  have inu: "spent ! i \<in> set u" "AddressesEqual C (Address (snd (spent ! i))) (WAddress w)" if "i < length spent" for i
    using spent [of "fst (spent ! i)" "snd (spent ! i)"] that by simp_all
  have idlen: "decodeHash (OpTxID (fst (spent ! i))) \<in> range Inr" if "i < length spent" for i
    using ids [of "fst (spent ! i)" "snd (spent ! i)"] inu(1) [OF that] by simp
  have form: "checkInputForm x = Inr ()" if x: "x \<in> set (Inputs tx)" for x
  proof -
    obtain i where i: "i < length spent" "x = Inputs t1 ! i" using mem [OF x] by blast
    then show ?thesis using inp [OF i(1)] idlen [OF i(1)] by (auto simp: checkInputForm_def)
  qed
  have inOk: "input_ok C tx u i x" if "(i, x) \<in> set (List.enumerate 0 (Inputs tx))" for i x
  proof -
    have i: "i < length spent" "x = Inputs t1 ! i" using that by (auto simp: in_set_enumerate_eq sel lo)
    have look: "map_of u (fst (spent ! i)) = Some (snd (spent ! i))"
      using keys inu(1) [OF i(1)] by simp
    have "signingHash C tx i p = signingHash C t1 i p" for p
      by (rule signingHash_strip) (simp add: strip_def st(9))
    with inp [OF i(1)] look inu(2) [OF i(1)] addr(1) point i(2) show ?thesis
      by (auto simp: input_ok_def input_outpoint_def AddressesEqual_sym)
  qed
  have "set spent \<subseteq> set u" using spent by auto
  then have vals: "inputs_value u (Inputs tx) = unat total"
    using inputs_value_unsigned [OF keys _ ops] by (simp add: st(5))
  have size: "encodedSize tx \<le> MaxTransactionBytes"
  proof (rule payment_size)
    show "length (Inputs tx) \<le> MaxTransactionInputs" using st(7) by (simp add: sel lo)
    show "length (Outputs tx) \<le> 2" by (simp add: sel t0_def)
    show "length (Address out) = 52" if "out \<in> set (Outputs tx)" for out
      using that outs(1) by (auto simp: sel outputs_ok_def ValidateAddress_length)
    show "length (InTxID x) = 64 \<and> length (PublicKey x) = 65 \<and> length (Signature x) \<le> 72"
      if x: "x \<in> set (Inputs tx)" for x
    proof -
      obtain i where i: "i < length spent" "x = Inputs t1 ! i" using mem [OF x] by blast
      from idlen [OF i(1)] obtain h where "decodeHash (OpTxID (fst (spent ! i))) = Inr h" by auto
      from decodeHash_length [OF this] inp [OF i(1)] i(2) show ?thesis by simp
    qed
  qed
  have ne: "Inputs tx \<noteq> []"
  proof
    assume "Inputs tx = []"
    then have "unat total = 0" using vals by simp
    moreover have "unat amount \<noteq> 0" using st(1) by (simp add: unat_eq_0)
    ultimately show False using outs(2) by (simp add: t0_def)
  qed
  have "distinct (map fst spent)" unfolding spent_def by (rule distinct_payable [OF keys])
  then have "regular_tx_ok C tx u"
    using sel ne form outs inOk vals size ops st(7) unat_less_64 [of total]
    by (auto simp: regular_tx_ok_def lo MaxTransactionOutputs_def t0_def simp del: length_take)
  then show ?thesis
    using outs(2) vals by (simp add: validateRegularTransaction_eq_Inr sel)
qed


lemma BuildTransaction_pays:
  assumes "BuildTransaction C signer rnd w to amount fee u = Inr tx" and "privateKey C w = Inr (d, pub)"
  shows "hd (Outputs tx) = \<lparr>Amount = amount, Address = to\<rparr>"
proof -
  obtain needed k total nonce t1 where
    sign: "foldE (signInput C signer d (map snd (take k (payable C w u))))
       (unsigned_payment nonce (MarshalPoint pub) (take k (payable C w u)) to amount (total - needed) (WAddress w))
       [0..<length (take k (payable C w u))] = Inr t1"
    and tx: "tx = t1\<lparr>ID := ComputeID C t1\<rparr>"
    by (rule BuildTransaction_steps [OF assms])
  have "strip t1 = strip (unsigned_payment nonce (MarshalPoint pub) (take k (payable C w u)) to amount
      (total - needed) (WAddress w))"
    using sign_loop [OF _ sign] by simp
  from strip_sel [OF this] show ?thesis by (simp add: tx)
qed

section \<open>The properties\<close>

text \<open>A payment of 10 with fee 5 out of the one output of 50.\<close>

definition sample_payment :: transaction where
  "sample_payment =
     (let tx = \<lparr>ID = [], Coinbase = False, TxNonce = 7,
         Inputs = [\<lparr>InTxID = sample_txid 1, OutputIndex = 0, PublicKey = sample_key,
                    Signature = asn1_marshal_sig 1 1\<rparr>],
         Outputs = [\<lparr>Amount = 10, Address = sample_address\<rparr>, \<lparr>Amount = 35, Address = sample_address\<rparr>]\<rparr>
      in tx\<lparr>ID := ComputeID sample_crypto tx\<rparr>)"

lemma sample_wallet_address [simp]: "WAddress sample_wallet = sample_address"
  by (simp add: sample_wallet_def)

lemma honest_sample: "honest_signer sample_crypto sample_signer d pub"
  by (simp add: honest_signer_def sample_signer_def p256_n_def)

lemma build_sample_payment:
  "BuildTransaction sample_crypto sample_signer (Inr 7) sample_wallet sample_address 10 5 sample_utxo =
     Inr sample_payment"
  by (simp add: BuildTransaction_def sample_utxo_def Let_def safeAdd_def AddressesEqual_refl
      MaxTransactionInputs_def sign_def signInput_def sample_signer_def halfOrder_def sample_payment_def
      MaxUint64_def p256_n_def)

lemma sample_utxo_wf: "distinct (map fst sample_utxo)" "(op, out) \<in> set sample_utxo \<Longrightarrow> decodeHash (OpTxID op) \<in> range Inr"
  by (auto simp: sample_utxo_def)

lemma sample_payment_valid: "validateRegularTransaction sample_crypto sample_payment sample_utxo = Inr 5"
  by (rule BuildTransaction_validates [OF build_sample_payment sample_private_key _ honest_sample])
    (simp_all add: sample_utxo_wf)

text \<open>
  A payment that the wallet builds is valid: whenever \<open>BuildTransaction\<close> returns a transaction,
  validating it against the same unspent outputs succeeds with exactly the requested fee, and its
  first output pays the requested amount to the recipient. The signer is assumed to return
  signatures that verify, and the outpoints to be distinct transaction hashes.
\<close>

theorem BuildTransaction_valid:
  assumes "BuildTransaction C signer rnd w to amount fee u = Inr tx"
    and "privateKey C w = Inr (d, pub)" and "UnmarshalPoint C (MarshalPoint pub) = Some pub"
    and "honest_signer C signer d pub" and "distinct (map fst u)"
    and "\<And>op out. (op, out) \<in> set u \<Longrightarrow> decodeHash (OpTxID op) \<in> range Inr"
  shows "validateRegularTransaction C tx u = Inr fee \<and> hd (Outputs tx) = \<lparr>Amount = amount, Address = to\<rparr>"
proof
  show "validateRegularTransaction C tx u = Inr fee" by (rule BuildTransaction_validates [OF assms])
  show "hd (Outputs tx) = \<lparr>Amount = amount, Address = to\<rparr>"
    by (rule BuildTransaction_pays [OF assms(1,2)])
qed

theorem BuildTransaction_valid_witness:
  "validateRegularTransaction sample_crypto sample_payment sample_utxo = Inr 5 \<and>
   hd (Outputs sample_payment) = \<lparr>Amount = 10, Address = sample_address\<rparr>"
  by (rule BuildTransaction_valid [OF build_sample_payment sample_private_key _ honest_sample])
    (simp_all add: sample_utxo_wf)

text \<open>
  C34. Validation of a regular transaction succeeds exactly on the transactions that meet the
  declared conditions: form and size limits, a matching ID, distinct unspent inputs that the key owns
  and signs, valid non-zero outputs, no overflow of the inputs and no spending beyond them. The fee
  returned is the difference of the two sums.
\<close>

theorem validateRegularTransaction_iff:
  "validateRegularTransaction C tx u = Inr fee \<longleftrightarrow>
     regular_tx_ok C tx u \<and> inputs_value u (Inputs tx) = outputs_value (Outputs tx) + unat fee"
  by (auto simp: validateRegularTransaction_eq_Inr regular_tx_ok_def)

text \<open>
  C40. The signature decoder does not accept only the encoding the wallet produces: a valid
  transaction stays valid, with the same fee and the same inputs and outputs, when up to eight
  arbitrary bytes are added inside the ASN.1 sequence of one signature and its ID is recomputed,
  although the encoding hashed into that ID is a different one.
\<close>

theorem signature_padding_malleable:
  assumes "validateRegularTransaction C tx u = Inr fee" and "i < length (Inputs tx)"
    and "Signature (Inputs tx ! i) = asn1_marshal_sig r s"
    and "0 \<le> r" "r < 2 ^ 256" "0 \<le> s" "s < 2 ^ 256" "pad \<noteq> []" "length pad \<le> 8"
    and "encodedSize tx + length pad \<le> MaxTransactionBytes"
  shows "validateRegularTransaction C (resign C tx i (asn1_padded_sig r s pad)) u = Inr fee \<and>
     map input_outpoint (Inputs (resign C tx i (asn1_padded_sig r s pad))) = map input_outpoint (Inputs tx) \<and>
     Outputs (resign C tx i (asn1_padded_sig r s pad)) = Outputs tx \<and>
     encodeTransaction (resign C tx i (asn1_padded_sig r s pad)) True \<noteq> encodeTransaction tx True"
proof (intro conjI)
  let ?sig = "asn1_padded_sig r s pad"
  have len: "length ?sig = length (asn1_marshal_sig r s) + length pad"
    by (rule length_asn1_padded_sig) (use assms in simp_all)
  have bound: "length (asn1_marshal_sig r s) \<le> 72" "asn1_marshal_sig r s \<noteq> []"
    using length_asn1_marshal_sig [OF assms(5,7)] by simp_all
  have same: "asn1_unmarshal_sig ?sig = asn1_unmarshal_sig (Signature (Inputs tx ! i))"
    using assms by (simp add: asn1_unmarshal_padded_sig asn1_roundtrip)
  show "validateRegularTransaction C (resign C tx i ?sig) u = Inr fee"
    by (rule resign_valid [OF assms(1,2) same]) (use len bound assms in auto)
  have "encodedSize (resign C tx i ?sig) \<noteq> encodedSize tx"
    using encodedSize_resign [OF assms(2), of C ?sig] len assms(3,8) by simp
  then show "encodeTransaction (resign C tx i ?sig) True \<noteq> encodeTransaction tx True"
    by (auto simp: encodedSize_def)
qed (use assms(2) in \<open>simp_all add: map_update_same input_outpoint_def\<close>)

theorem signature_padding_malleable_witness:
  "validateRegularTransaction sample_crypto (resign sample_crypto sample_payment 0 (asn1_padded_sig 1 1 [9])) sample_utxo = Inr 5 \<and>
   encodeTransaction (resign sample_crypto sample_payment 0 (asn1_padded_sig 1 1 [9])) True \<noteq>
   encodeTransaction sample_payment True"
proof -
  have len: "length (asn1_marshal_sig 1 1) \<le> 72" using length_asn1_marshal_sig [of 1 1] by simp
  then have size: "encodedSize sample_payment + length [9::u8] \<le> MaxTransactionBytes"
    by (simp add: encodedSize_eq sample_payment_def Let_def MaxTransactionBytes_def)
  show ?thesis
    using signature_padding_malleable [OF sample_payment_valid, of 0 1 1 "[9]"] size
    by (simp add: sample_payment_def Let_def)
qed

text \<open>
  A signature survives its DER encoding: decoding the encoding of \<open>r\<close> and \<open>s\<close> gives them back
  with nothing left over, and the encoding fits the size limit of an input.
\<close>

theorem signature_der_roundtrip:
  assumes "0 \<le> r" "r < 2 ^ 256" "0 \<le> s" "s < 2 ^ 256"
  shows "asn1_unmarshal_sig (asn1_marshal_sig r s) = Some (r, s, []) \<and>
     0 < length (asn1_marshal_sig r s) \<and> length (asn1_marshal_sig r s) \<le> 80"
  using asn1_roundtrip [OF assms] length_asn1_marshal_sig [OF assms(2,4)] by simp

theorem signature_der_roundtrip_witness:
  "asn1_unmarshal_sig (asn1_marshal_sig 200 3) = Some (200, 3, [])"
  using signature_der_roundtrip [of 200 3] by simp

end
