(* ===== verification/Sample_Chain.thy ===== *)
theory Sample_Chain
  imports Chain_Inv Block_Props Transaction_Props
begin

text \<open>
  A concrete chain for the witnesses: on top of the genesis block, \<open>n\<close> blocks with one reward each,
  accepted by the replay for every \<open>n\<close> up to 110, and a payment that spends the reward of the first
  block once it is mature.
\<close>

section \<open>Rewards and blocks\<close>

definition reward :: "nat \<Rightarrow> transaction" where
  "reward k =
     (let tx = \<lparr>ID = [], Coinbase = True, TxNonce = word_of_nat k, Inputs = [],
               Outputs = [\<lparr>Amount = 6341959, Address = sample_address\<rparr>]\<rparr>
      in tx\<lparr>ID := ComputeID sample_crypto tx\<rparr>)"

definition next_block :: "block \<Rightarrow> nat \<Rightarrow> block" where
  "next_block previous k =
     (let b = \<lparr>Version = 1, Height = word_of_nat k, Timestamp = 1783983600 + 10 * int k,
               PreviousHash = Hash previous, MerkleRoot = merkleRoot sample_crypto [reward k],
               Difficulty = 22, Nonce = 0, Hash = [], Transactions = [reward k]\<rparr>
      in b\<lparr>Hash := ComputeHash sample_crypto b\<rparr>)"

fun blocks_upto :: "nat \<Rightarrow> block list" where
  "blocks_upto 0 = [GenesisBlock sample_crypto]"
| "blocks_upto (Suc n) = blocks_upto n @ [next_block (last (blocks_upto n)) (Suc n)]"

definition chain_upto :: "nat \<Rightarrow> state" where
  "chain_upto n = (NewState sample_crypto)\<lparr>Blocks := blocks_upto n\<rparr>"

definition sample_clock :: "nat \<Rightarrow> int" where
  "sample_clock i = 1783990000"

lemma reward_sel [simp]:
  "Coinbase (reward k)" "Inputs (reward k) = []"
  "Outputs (reward k) = [\<lparr>Amount = 6341959, Address = sample_address\<rparr>]" "TxNonce (reward k) = word_of_nat k"
  by (simp_all add: reward_def Let_def ComputeID_def encodeTransaction_def)

lemma ID_reward: "ID (reward k) = ComputeID sample_crypto (reward k)"
  by (simp_all add: reward_def Let_def ComputeID_def encodeTransaction_def)

lemma decode_ComputeID [simp]:
  "decodeHash (ComputeID sample_crypto tx) = Inr (sample_digest (encodeTransaction tx True))"
  by (simp add: ComputeID_def decodeHash_hashHex [OF digest32_sample])

lemma reward_size [simp]: "encodedSize (reward k) = 119"
  by (simp add: encodedSize_eq)

text \<open>The sample digest reads the low byte of the nonce, so rewards up to 255 differ.\<close>

lemma nth_middle: "k < length ys \<Longrightarrow> (xs @ ys @ zs) ! (length xs + k) = ys ! k"
  by (simp add: nth_append)

lemma encode_byte_34: "encodeTransaction tx True ! 34 = word_of_nat (unat (TxNonce tx))"
proof -
  let ?X = "enc_string NetworkID @ enc_bool (Coinbase tx)"
  obtain rest where e: "encodeTransaction tx True = ?X @ be_bytes 8 (unat (TxNonce tx)) @ rest"
    by (simp add: encodeTransaction_def enc_uint64_def)
  have "length ?X = 27" by (simp add: NetworkID_def)
  then have "(?X @ be_bytes 8 (unat (TxNonce tx)) @ rest) ! 34 = be_bytes 8 (unat (TxNonce tx)) ! 7"
    using nth_middle [of 7 "be_bytes 8 (unat (TxNonce tx))" ?X rest] by simp
  moreover have "be_bytes (Suc n) v ! n = word_of_nat v" for n v by (simp add: nth_append)
  from this [of 7] have "be_bytes 8 (unat (TxNonce tx)) ! 7 = word_of_nat (unat (TxNonce tx))" by simp
  ultimately show ?thesis by (simp add: e)
qed

lemma ID_reward_inj:
  assumes "ID (reward j) = ID (reward k)" "j < 256" "k < 256"
  shows "j = k"
proof -
  have "sample_digest (encodeTransaction (reward j) True) = sample_digest (encodeTransaction (reward k) True)"
    using assms(1) by (auto simp: ID_reward ComputeID_def hashHex_def dest: hex_encode_inj)
  moreover have "34 < length (encodeTransaction (reward n) True)" for n
    using reward_size [of n] by (simp add: encodedSize_def)
  ultimately have "(word_of_nat (unat (word_of_nat j :: u64)) :: u8) = word_of_nat (unat (word_of_nat k :: u64))"
    by (simp add: sample_digest_def encode_byte_34)
  then have "(word_of_nat j :: u8) = word_of_nat k"
    using assms(2,3) by (simp add: unat_word_of_nat_64)
  then have "unat (word_of_nat j :: u8) = unat (word_of_nat k :: u8)" by simp
  then show ?thesis using assms(2,3) by simp
qed

lemma reward_valid [simp]: "validateCoinbase sample_crypto (reward k) 6341959 = Inr ()"
  by (simp add: validateCoinbase_eq_Inr MaxTransactionBytes_def outputs_ok_def ID_reward)

lemma reward_root: "decodeHash (merkleRoot sample_crypto [reward k]) =
    Inr (sample_digest (encodeTransaction (reward k) True))"
proof -
  have "merkleRoot sample_crypto [reward k] = hex_encode (sample_digest (encodeTransaction (reward k) True))"
    by (simp add: merkleRoot_def merkleLoop.simps ID_reward)
  then show ?thesis by (simp add: decodeHash_def)
qed

lemma genesis_sel [simp]: "Timestamp (GenesisBlock C) = 1783983600"
  by (simp_all add: GenesisBlock_def Let_def genesisTimestamp_def)

lemma next_block_sel [simp]:
  "Version (next_block p k) = 1" "Height (next_block p k) = word_of_nat k"
  "Timestamp (next_block p k) = 1783983600 + 10 * int k" "PreviousHash (next_block p k) = Hash p"
  "MerkleRoot (next_block p k) = merkleRoot sample_crypto [reward k]" "Difficulty (next_block p k) = 22"
  "Transactions (next_block p k) = [reward k]"
  "Hash (next_block p k) = ComputeHash sample_crypto (next_block p k)"
  by (simp_all add: next_block_def Let_def ComputeHash_def encodeHeader_def)

lemma sample_digest_small: "be_nat (sample_digest bs) < 2 ^ 48"
proof -
  have "be_nat (replicate n 0 @ bs) = be_nat bs" for n bs
    by (induction n) (simp_all add: be_nat_Cons)
  then show ?thesis using be_nat_bound [of "drop 26 (sample_digest bs)"] by (simp add: sample_digest_def)
qed

lemma next_block_work [simp]: "HasValidWork (next_block p k)"
proof -
  have "(2::nat) ^ 48 \<le> 2 ^ 234" by (intro power_increasing) simp_all
  then show ?thesis
    using less_le_trans [OF sample_digest_small]
    by (simp add: HasValidWork_iff ComputeHash_def decodeHash_hashHex [OF digest32_sample])
qed

lemma blocks_upto_nonempty [simp]: "blocks_upto n \<noteq> []"
  by (cases n) simp_all

lemma length_blocks_upto [simp]: "length (blocks_upto n) = Suc n"
  by (induction n) simp_all

lemma blocks_upto_0 [simp]: "blocks_upto n ! 0 = GenesisBlock sample_crypto"
  by (induction n) (simp_all add: nth_append)

lemma take_blocks_upto: "i \<le> n \<Longrightarrow> take (Suc i) (blocks_upto n) = blocks_upto i"
proof (induction n)
  case (Suc n)
  then show ?case by (cases "i = Suc n") simp_all
qed simp

lemma nth_blocks_upto: "Suc i \<le> n \<Longrightarrow> blocks_upto n ! Suc i = next_block (last (blocks_upto i)) (Suc i)"
proof (induction n)
  case (Suc n)
  then show ?case by (cases "i = n") (simp_all add: nth_append)
qed simp

lemma last_blocks_upto: "last (blocks_upto n) = blocks_upto n ! n"
  by (simp add: last_conv_nth)

lemma blocks_upto_times: "b \<in> set (blocks_upto n) \<Longrightarrow> Timestamp b \<le> 1783983600 + 10 * int n"
  by (induction n) auto

lemma blocks_upto_median: "median_of (past_times (blocks_upto n)) \<le> 1783983600 + 10 * int n"
proof -
  have "median_of (past_times (blocks_upto n)) \<in> set (past_times (blocks_upto n))"
    by (rule median_of_mem) simp
  then show ?thesis using blocks_upto_times by (auto simp: past_times_def dest: in_set_dropD)
qed

lemma last_height: "Height (last (blocks_upto n)) = word_of_nat n"
  by (cases n) simp_all

lemma rules_low:
  assumes "k \<le> 110"
  shows "RulesAtHeight (word_of_nat k) =
    \<lparr>RulesVersion = 1, RulesDifficulty = LegacyEpochDifficulty, RequireMonotonicTimestamp = False\<rparr>"
  using assms unat_word_of_nat_64 [of k] by (simp add: RulesAtHeight_def consensus_consts word_le_nat_alt)

lemma difficulty_low:
  assumes "Suc n \<le> 110"
  shows "expectedDifficulty (blocks_upto n) (word_of_nat (Suc n)) = Inr 22"
proof -
  have u: "unat (word_of_nat (Suc n) :: u64) = Suc n" using assms by (intro unat_word_of_nat_64) simp
  then have lt: "(word_of_nat (Suc n) :: u64) < word_of_nat FirstAdjustment"
    using assms unat_word_of_nat_64 [of 120] by (simp only: word_less_nat_alt FirstAdjustment_def)
  have idx: "go_index (blocks_upto n) (int (length (blocks_upto n)) - 1) = Inr (last (blocks_upto n))"
    by (rule go_index_last) simp
  show ?thesis
  proof (cases n)
    case 0
    then show ?thesis by (simp add: expectedDifficulty_def InitialDifficulty_def)
  next
    case (Suc m)
    have "(word_of_nat (Suc n) :: u64) \<noteq> 1"
    proof
      assume "(word_of_nat (Suc n) :: u64) = 1"
      then have "unat (word_of_nat (Suc n) :: u64) = 1" by (simp only: unat_1)
      with u Suc show False by simp
    qed
    moreover have "Difficulty (last (blocks_upto n)) = 22" by (simp add: Suc)
    ultimately show ?thesis
      by (simp only: expectedDifficulty_def if_False attempt_Inr idx lt Let_def simp_thms if_True)
  qed
qed

lemma next_block_header:
  assumes "Suc n \<le> 110"
  shows "validateBlockHeaderAtTime sample_crypto (next_block (last (blocks_upto n)) (Suc n)) (last (blocks_upto n))
    (blocks_upto n) 1783990000 = Inr ()"
proof -
  have "RulesAtHeight (word_of_nat (Suc n)) =
    \<lparr>RulesVersion = 1, RulesDifficulty = LegacyEpochDifficulty, RequireMonotonicTimestamp = False\<rparr>"
    by (rule rules_low [OF assms])
  moreover have "\<not> 1783983600 + 10 * int (Suc n) \<le> median_of (past_times (blocks_upto n))"
    using blocks_upto_median [of n] by simp
  ultimately show ?thesis
    using assms difficulty_low [OF assms] last_height [of n]
    by (simp add: validateBlockHeaderAtTime_def validateHeaderAtTime_def validateHeaderConsensusFields_def
      BlockVersion_def medianTimePast_eq expectedDifficultyAt_def MaxFutureSeconds_def
      MaxBlockTransactions_def MaxTransactionBytes_def MaxBlockBytes_def
      reward_root addEncodedSize_def Let_def MaxInt64_def)
qed

section \<open>The replay of the chain\<close>

definition coins_upto :: "nat \<Rightarrow> coins" where
  "coins_upto n =
     (map (\<lambda>k. (Outpoint (ID (reward k)) 0, \<lparr>Amount = 6341959, Address = sample_address\<rparr>)) [1..<Suc n],
      map (\<lambda>k. (Outpoint (ID (reward k)) 0, \<lparr>CreatedHeight = word_of_nat k, FromCoinbase = True\<rparr>)) [1..<Suc n])"

definition state_upto :: "nat \<Rightarrow> replay_state" where
  "state_upto n = \<lparr>RUtxo = fst (coins_upto n), ROrigins = snd (coins_upto n), RSeen = (ID \<circ> reward) ` {1..n}\<rparr>"

lemma subsidy_low: "1 \<le> k \<Longrightarrow> k \<le> 110 \<Longrightarrow> Subsidy (word_of_nat k) = 6341959"
  using unat_word_of_nat_64 [of k] by (simp add: word_unat_eq_iff unat_Subsidy)

lemma reward_absent:
  assumes "Suc n \<le> 110"
  shows "map_of (fst (coins_upto n)) (Outpoint (ID (reward (Suc n))) 0) = None"
    and "map_of (snd (coins_upto n)) (Outpoint (ID (reward (Suc n))) 0) = None"
    and "ID (reward (Suc n)) \<notin> RSeen (state_upto n)"
  using ID_reward_inj [of "Suc n"] assms
  by (force simp: coins_upto_def state_upto_def map_of_eq_None_iff)+

lemma replay_next_block:
  assumes "Suc n \<le> N" "N \<le> 110"
  shows "replayBlock sample_crypto sample_clock (blocks_upto N) (state_upto n) (Suc n) = Inr (state_upto (Suc n))"
proof -
  have le: "Suc n \<le> 110" using assms by simp
  have b: "blocks_upto N ! Suc n = next_block (last (blocks_upto n)) (Suc n)" "blocks_upto N ! n = last (blocks_upto n)"
    "take (Suc n) (blocks_upto N) = blocks_upto n"
    using nth_blocks_upto [OF assms(1)] take_blocks_upto [of n N] assms(1)
      nth_take [of n "Suc n" "blocks_upto N"] by (simp_all add: last_blocks_upto)
  have sub: "Subsidy (word_of_nat (Suc n)) = 6341959" using le by (intro subsidy_low) simp_all
  let ?op = "Outpoint (ID (reward (Suc n))) 0"
  have out: "applyOutputs (reward (Suc n)) (word_of_nat (Suc n)) True (coins_upto n) = Inr (coins_upto (Suc n))"
    using reward_absent(1,2) [OF le]
    by (simp add: applyOutputs_def applyOutput_def coins_upto_def update_absent Let_def del: of_nat_Suc)
  have co: "coins_of (state_upto n) = coins_upto n" by (simp add: coins_of_def state_upto_def)
  have "{1..Suc n} = insert (Suc n) {1..n}" by auto
  then have st: "(set_coins (state_upto n) (coins_upto (Suc n)))
      \<lparr>RSeen := insert (ID (reward (Suc n))) (RSeen (state_upto n))\<rparr> = state_upto (Suc n)"
    by (simp add: set_coins_def state_upto_def)
  show ?thesis
    using reward_absent(3) [OF le] next_block_header [OF le] out co st
    by (simp add: replayBlock_def Let_def b sample_clock_def sub safeAdd_def MaxUint64_def
        del: of_nat_Suc)
qed

lemma replay_blocks_upto:
  assumes "n \<le> N" "N \<le> 110"
  shows "foldE (replayBlock sample_crypto sample_clock (blocks_upto N)) \<lparr>RUtxo = [], ROrigins = [], RSeen = {}\<rparr>
     [1..<Suc n] = Inr (state_upto n)"
  using assms
proof (induction n)
  case 0
  then show ?case by (simp add: state_upto_def coins_upto_def)
next
  case (Suc n)
  then show ?case by (simp add: foldE_append replay_next_block)
qed

lemma chain_upto_replay:
  assumes "n \<le> 110"
  shows "replay sample_crypto sample_clock (chain_upto n) p = Inr (state_upto n)"
  using replay_blocks_upto [of n n] assms
  by (simp add: replay_def chain_upto_def NewState_def MaxPendingTransactions_def)

lemma fits_chain_upto: "n \<le> 110 \<Longrightarrow> fits (chain_upto n)"
  by (simp add: fits_def chain_upto_def NewState_def)


section \<open>A payment out of the first reward\<close>

definition reward_utxo :: utxo where
  "reward_utxo = [(Outpoint (ID (reward 1)) 0, \<lparr>Amount = 6341959, Address = sample_address\<rparr>)]"

definition spend_reward :: transaction where
  "spend_reward =
     (let tx = \<lparr>ID = [], Coinbase = False, TxNonce = 200,
         Inputs = [\<lparr>InTxID = ID (reward 1), OutputIndex = 0, PublicKey = sample_key,
                    Signature = asn1_marshal_sig 1 1\<rparr>],
         Outputs = [\<lparr>Amount = 10, Address = sample_address\<rparr>, \<lparr>Amount = 6339949, Address = sample_address\<rparr>]\<rparr>
      in tx\<lparr>ID := ComputeID sample_crypto tx\<rparr>)"

lemma spend_reward_sel [simp]:
  "Inputs spend_reward = [\<lparr>InTxID = ID (reward 1), OutputIndex = 0, PublicKey = sample_key,
     Signature = asn1_marshal_sig 1 1\<rparr>]" "TxNonce spend_reward = 200" "length (Outputs spend_reward) = 2"
  by (simp_all add: spend_reward_def Let_def)

lemma ID_spend_reward: "ID spend_reward = ComputeID sample_crypto spend_reward"
  by (simp_all add: spend_reward_def Let_def ComputeID_def encodeTransaction_def)

lemma build_spend_reward:
  "BuildTransaction sample_crypto sample_signer (Inr 200) sample_wallet sample_address 10 2000 reward_utxo =
     Inr spend_reward"
  by (simp add: BuildTransaction_def reward_utxo_def Let_def safeAdd_def AddressesEqual_refl
      MaxTransactionInputs_def sign_def signInput_def sample_signer_def halfOrder_def spend_reward_def
      MaxUint64_def p256_n_def)

lemma spend_reward_alone: "validateRegularTransaction sample_crypto spend_reward reward_utxo = Inr 2000"
  by (rule BuildTransaction_validates [OF build_spend_reward sample_private_key _ honest_sample])
    (auto simp: reward_utxo_def ID_reward)

lemma map_of_rewards:
  assumes "1 \<le> k" "k \<le> n" "n \<le> 110"
  shows "map_of (map (\<lambda>k. (Outpoint (ID (reward k)) 0, f k)) [1..<Suc n]) (Outpoint (ID (reward k)) 0) = Some (f k)"
proof -
  have "inj_on (\<lambda>k. Outpoint (ID (reward k)) 0) {1..<Suc n}"
    using ID_reward_inj assms by (intro inj_onI) auto
  then have "distinct (map fst (map (\<lambda>k. (Outpoint (ID (reward k)) 0, f k)) [1..<Suc n]))"
    by (simp only: distinct_map map_map o_def fst_conv distinct_upt set_upt simp_thms)
  then show ?thesis using assms by (intro map_of_is_SomeI) (auto simp del: upt_Suc)
qed

lemma spend_reward_valid:
  assumes "1 \<le> n" "n \<le> 110"
  shows "validateRegularTransaction sample_crypto spend_reward (RUtxo (state_upto n)) = Inr 2000"
proof -
  have "map_of (RUtxo (state_upto n)) (Outpoint (ID (reward 1)) 0) = map_of reward_utxo (Outpoint (ID (reward 1)) 0)"
    using map_of_rewards [of 1 n "\<lambda>k. \<lparr>Amount = 6341959, Address = sample_address\<rparr>"] assms
    by (simp add: state_upto_def coins_upto_def reward_utxo_def)
  then have "validateRegularTransaction sample_crypto spend_reward (RUtxo (state_upto n)) =
      validateRegularTransaction sample_crypto spend_reward reward_utxo"
    by (intro validateRegularTransaction_cong) (simp add: input_outpoint_def)
  then show ?thesis by (simp add: spend_reward_alone)
qed

lemma spend_reward_fresh:
  assumes "k \<le> 110"
  shows "ID spend_reward \<noteq> ID (reward k)"
proof
  assume "ID spend_reward = ID (reward k)"
  then have "sample_digest (encodeTransaction spend_reward True) = sample_digest (encodeTransaction (reward k) True)"
    by (auto simp: ID_reward ID_spend_reward ComputeID_def hashHex_def dest: hex_encode_inj)
  moreover have "34 < length (encodeTransaction (reward k) True)" "34 < length (encodeTransaction spend_reward True)"
    using reward_size [of k] encodedSize_eq [of spend_reward] by (simp_all add: encodedSize_def)
  ultimately have "(word_of_nat (unat (200 :: u64)) :: u8) = word_of_nat (unat (word_of_nat k :: u64))"
    by (simp add: sample_digest_def encode_byte_34)
  then have "(200 :: u8) = word_of_nat k" using assms by (simp add: unat_word_of_nat_64)
  then have "unat (200 :: u8) = unat (word_of_nat k :: u8)" by simp
  then show False using assms by simp
qed

lemma spend_reward_mature:
  assumes "100 \<le> n" "n \<le> 110"
  shows "validateCoinbaseMaturity spend_reward (ROrigins (state_upto n)) (word_of_nat (Suc n)) = Inr ()"
proof -
  have u: "unat (word_of_nat (Suc n) :: u64) = Suc n" using assms by (intro unat_word_of_nat_64) simp
  then have "(word_of_nat (Suc n) :: u64) \<noteq> 0" by (metis nat.simps(3) unat_0)
  moreover have "map_of (ROrigins (state_upto n)) (Outpoint (ID (reward 1)) 0) =
      Some \<lparr>CreatedHeight = 1, FromCoinbase = True\<rparr>"
    using map_of_rewards [of 1 n "\<lambda>k. \<lparr>CreatedHeight = word_of_nat k, FromCoinbase = True\<rparr>"] assms
    by (simp add: state_upto_def coins_upto_def)
  ultimately show ?thesis
    using assms u by (simp add: validateCoinbaseMaturity_iff spends_def input_outpoint_def IsCoinbaseMature_iff
        del: of_nat_Suc)
qed

lemma coins_upto_inv: "n \<le> 110 \<Longrightarrow> chain_inv (state_upto n) (chain_trace (blocks_upto n))"
  using replay_confirmed(1) [OF chain_upto_replay fits_chain_upto]
  by (simp add: chain_upto_def NewState_def)

lemma spend_reward_applies:
  assumes "n \<le> 110"
  shows "\<exists>cs. applyRegularTransaction spend_reward h (coins_of (state_upto n)) = Inr cs"
proof (rule applyRegular_succeeds)
  show "coins_wf (coins_of (state_upto n))" using coins_upto_inv [OF assms] by (simp add: chain_inv_def)
  show "\<forall>op. OpTxID op = ID spend_reward \<longrightarrow> coins_get (coins_of (state_upto n)) op = None"
  proof (intro allI impI)
    fix op assume id: "OpTxID op = ID spend_reward"
    have "op \<notin> fst ` set (fst (coins_upto n))"
    proof
      assume "op \<in> fst ` set (fst (coins_upto n))"
      then obtain k where "k \<le> n" "op = Outpoint (ID (reward k)) 0"
        by (auto simp: coins_upto_def less_Suc_eq_le simp del: upt_Suc)
      then show False using id spend_reward_fresh [of k] assms by simp
    qed
    then show "coins_get (coins_of (state_upto n)) op = None"
      by (simp add: coins_get_def coins_of_def state_upto_def map_of_eq_None_iff [THEN iffD2])
  qed
qed simp

lemma spend_reward_pending:
  "\<exists>s'. AddPending sample_crypto sample_clock (chain_upto 100) spend_reward = Inr s'"
proof -
  have "ID spend_reward \<notin> RSeen (state_upto 100)"
  proof
    assume "ID spend_reward \<in> RSeen (state_upto 100)"
    then obtain k where "k \<le> 100" "ID spend_reward = ID (reward k)" by (auto simp: state_upto_def)
    then show False using spend_reward_fresh [of k] by simp
  qed
  moreover obtain cs where "applyRegularTransaction spend_reward 101 (coins_of (state_upto 100)) = Inr cs"
    using spend_reward_applies [of 100 101] by auto
  ultimately show ?thesis
    using spend_reward_valid [of 100] spend_reward_mature [of 100]
    by (simp add: AddPending_def chain_upto_replay Let_def chain_upto_def [THEN arg_cong [where f = Blocks]]
        chain_upto_def [THEN arg_cong [where f = Pending]] NewState_def MaxPendingTransactions_def)
qed


text \<open>The chain of 100 blocks with the payment pending.\<close>

definition spent_chain :: state where
  "spent_chain = (chain_upto 100)\<lparr>Pending := [spend_reward]\<rparr>"

lemma Pending_chain_upto [simp]: "Pending (chain_upto n) = []"
  and Blocks_chain_upto [simp]: "Blocks (chain_upto n) = blocks_upto n"
  by (simp_all add: chain_upto_def NewState_def)

lemma spent_chain_replay: "\<exists>st. replay sample_crypto sample_clock spent_chain True = Inr st"
proof -
  obtain s' where "AddPending sample_crypto sample_clock (chain_upto 100) spend_reward = Inr s'"
    using spend_reward_pending by blast
  from AddPending_replays [OF this] show ?thesis by (simp add: spent_chain_def)
qed

lemma spent_chain_confirmed: "replay sample_crypto sample_clock spent_chain False = Inr (state_upto 100)"
  using chain_upto_replay [of 100 False] by (simp add: replay_def spent_chain_def chain_upto_def NewState_def)

lemma fits_spent_chain: "fits spent_chain"
  by (simp add: fits_def spent_chain_def)

lemma replay_chain_2: "replay sample_crypto sample_clock (chain_upto 2) p = Inr (state_upto 2)"
  and fits_chain_2: "fits (chain_upto 2)"
  by (simp_all add: chain_upto_replay fits_chain_upto)

end
