(* ===== verification/Chain_Props.thy ===== *)
theory Chain_Props
  imports Sample_Chain
begin

text \<open>
  Properties of a replayed chain: the supply, the absence of double spends, coinbase maturity, the
  linkage of the headers, balances, and the admission of a pending transaction. The witnesses use the
  concrete chain of the theory Sample_Chain.
\<close>

section \<open>Supply and double spends\<close>

text \<open>
  C6. The value of all unspent outputs of a replayed chain is exactly the scheduled emission up to
  its height: fees move value into the coinbase, and nothing is created or lost. It is what
  \<open>TotalIssued\<close> reports, and never more than the maximum supply.
\<close>

theorem replay_supply:
  assumes "replay C now s False = Inr st" and "fits s"
  shows "TotalIssued C now s = Inr (word_of_nat (utxo_value (RUtxo st))) \<and>
     utxo_value (RUtxo st) = unat (MintedThrough (word_of_nat (length (Blocks s)) - 1)) \<and>
     utxo_value (RUtxo st) \<le> unat MaxSupply"
proof -
  let ?m = "MintedThrough (word_of_nat (length (Blocks s)) - 1)"
  have v: "utxo_value (RUtxo st) = unat ?m"
    using replay_confirmed(2) [OF assms] by (simp add: state_value_def coins_value_def coins_of_def)
  moreover have "unat ?m \<le> unat MaxSupply" by (simp add: unat_MintedThrough min_def)
  ultimately show ?thesis using assms(1) by (simp add: TotalIssued_def)
qed

theorem replay_supply_witness: "TotalIssued sample_crypto sample_clock (chain_upto 2) = Inr 12683918"
  using replay_supply [OF replay_chain_2 fits_chain_2]
  by (simp add: state_upto_def coins_upto_def utxo_value_def upt_rec)

lemma mset_block_trace: "Transactions b \<noteq> [] \<Longrightarrow> mset (map snd (block_trace b)) = mset (Transactions b)"
  by (cases "Transactions b") (simp_all add: block_trace_def o_def)

lemma mset_chain_trace:
  assumes "\<forall>b \<in> set (tl blocks). Transactions b \<noteq> []"
  shows "mset (map snd (chain_trace blocks)) = mset (concat (map Transactions (tl blocks)))"
proof -
  have "mset (map snd (concat (map block_trace bs))) = mset (concat (map Transactions bs))"
    if "\<forall>b \<in> set bs. Transactions b \<noteq> []" for bs
    using that by (induction bs) (auto simp: mset_block_trace simp del: mset_map)
  from this [OF assms] show ?thesis by (simp only: chain_trace_def)
qed

lemma distinct_concat_mset:
  assumes "mset xs = mset ys"
  shows "distinct (concat (map f xs)) \<longleftrightarrow> distinct (concat (map f ys))"
proof -
  have "mset (concat (map f zs)) = sum_mset (image_mset (mset \<circ> f) (mset zs))" for zs
    by (induction zs) simp_all
  then have "mset (concat (map f xs)) = mset (concat (map f ys))" using assms by simp
  then show ?thesis by (rule mset_eq_imp_distinct_iff)
qed

lemma confirmed_nonempty:
  assumes "replay C now s False = Inr st" "fits s" "b \<in> set (tl (Blocks s))"
  shows "Transactions b \<noteq> []"
proof -
  obtain i where "i < length (tl (Blocks s))" "b = tl (Blocks s) ! i" using assms(3) by (auto simp: in_set_conv_nth)
  then have "b = Blocks s ! Suc i" "Suc i < length (Blocks s)" by (simp_all add: nth_tl)
  then show ?thesis using replay_confirmed(4) [OF assms(1,2)] by blast
qed

lemma replay_pending_inv:
  assumes "replay C now s True = Inr st" "fits s"
  shows "chain_inv st (chain_trace (Blocks s) @ map (Pair (word_of_nat (length (Blocks s)))) (Pending s))"
    and "state_value st \<le> unat MaxSupply"
proof -
  obtain st0 where st0: "replay C now s False = Inr st0"
    "foldE (replayPending C (word_of_nat (length (Blocks s)))) st0 (Pending s) = Inr st"
    using assms(1) by (auto simp: replay_True)
  have "Blocks s \<noteq> []" using replay_False [OF st0(1)] by simp
  then have nz: "(word_of_nat (length (Blocks s)) :: u64) \<noteq> 0" by (rule length_nonzero [OF assms(2)])
  have ext: "chain_inv st (chain_trace (Blocks s) @ map (Pair (word_of_nat (length (Blocks s)))) (Pending s)) \<and>
      state_value st \<le> state_value st0"
    by (rule replayPendings_extend [OF replay_confirmed(1) [OF st0(1) assms(2)] nz st0(2)])
  then show "chain_inv st (chain_trace (Blocks s) @ map (Pair (word_of_nat (length (Blocks s)))) (Pending s))"
    by simp
  have "state_value st0 \<le> unat MaxSupply"
    using replay_confirmed(2) [OF st0(1) assms(2)] by (simp add: unat_MintedThrough min_def)
  then show "state_value st \<le> unat MaxSupply" using ext by linarith
qed

text \<open>
  C7. In a chain that replays, with its pending transactions, no two transactions share an ID and no
  outpoint is spent twice, anywhere in the whole history.
\<close>

theorem replay_no_double_spend:
  assumes "replay C now s True = Inr st" and "fits s"
  shows "distinct (map ID (concat (map Transactions (tl (Blocks s))) @ Pending s)) \<and>
     distinct (concat (map spends (concat (map Transactions (tl (Blocks s))) @ Pending s)))"
proof -
  let ?tr = "chain_trace (Blocks s) @ map (Pair (word_of_nat (length (Blocks s)))) (Pending s)"
  let ?txs = "concat (map Transactions (tl (Blocks s))) @ Pending s"
  have inv: "chain_inv st ?tr" by (rule replay_pending_inv [OF assms])
  obtain st0 where st0: "replay C now s False = Inr st0" using assms(1) by (auto simp: replay_True)
  have "mset (map snd (chain_trace (Blocks s))) = mset (concat (map Transactions (tl (Blocks s))))"
    using confirmed_nonempty [OF st0 assms(2)] by (intro mset_chain_trace) blast
  moreover have "map snd (map (Pair h) xs) = xs" for h :: u64 and xs :: "transaction list"
    by (simp add: o_def)
  ultimately have perm: "mset (map snd ?tr) = mset ?txs"
    by (simp only: map_append mset_append)
  have "mset (map ID (map snd ?tr)) = mset (map ID ?txs)" using perm by (simp only: mset_map)
  then have "distinct (map ID (map snd ?tr)) \<longleftrightarrow> distinct (map ID ?txs)" by (rule mset_eq_imp_distinct_iff)
  moreover have "distinct (map ID (map snd ?tr))" using inv by (simp add: chain_inv_def o_def)
  moreover have "distinct (concat (map spends (map snd ?tr)))"
    using inv by (simp add: chain_inv_def trace_spends_def o_def)
  ultimately show ?thesis using distinct_concat_mset [OF perm, of spends] by blast
qed

theorem replay_no_double_spend_witness:
  "distinct (map ID (concat (map Transactions (tl (blocks_upto 100))) @ [spend_reward]))"
proof -
  obtain st where "replay sample_crypto sample_clock spent_chain True = Inr st" using spent_chain_replay by blast
  from replay_no_double_spend [OF this fits_spent_chain] show ?thesis by (simp add: spent_chain_def)
qed

text \<open>
  Coinbase maturity: in a chain that replays with its pending transactions, a transaction that
  spends an output of a block's coinbase is at least 100 blocks above that block; a pending one
  counts as part of the next block.
\<close>

theorem replay_coinbase_maturity:
  assumes "replay C now s True = Inr st" and "fits s"
  shows "\<forall>(h, tx) \<in> set (chain_trace (Blocks s)) \<union> Pair (word_of_nat (length (Blocks s))) ` set (Pending s).
     \<forall>op \<in> set (spends tx). \<forall>(h', cb) \<in> set (chain_trace (Blocks s)).
       Coinbase cb \<longrightarrow> ID cb = OpTxID op \<longrightarrow> unat h' + 100 \<le> unat h"
proof -
  have "mature_trace (chain_trace (Blocks s) @ map (Pair (word_of_nat (length (Blocks s)))) (Pending s))"
    using replay_pending_inv [OF assms] by (simp add: chain_inv_def)
  then show ?thesis unfolding mature_trace_def by fastforce
qed

theorem replay_coinbase_maturity_witness: "unat (Height (blocks_upto 100 ! 1)) + 100 \<le> unat (101 :: u64)"
proof -
  obtain st where "replay sample_crypto sample_clock spent_chain True = Inr st" using spent_chain_replay by blast
  note all = replay_coinbase_maturity [OF this fits_spent_chain]
  have "(101, spend_reward) \<in> Pair (word_of_nat (length (Blocks spent_chain))) ` set (Pending spent_chain)"
    by (simp add: spent_chain_def)
  moreover have "(1, reward 1) \<in> set (chain_trace (Blocks spent_chain))"
  proof -
    have "tl (blocks_upto 100) ! 0 = next_block (GenesisBlock sample_crypto) 1"
      using nth_blocks_upto [of 0 100] by (simp add: nth_tl)
    then have "next_block (GenesisBlock sample_crypto) 1 \<in> set (tl (blocks_upto 100))"
      using nth_mem [of 0 "tl (blocks_upto 100)"] by simp
    then show ?thesis by (force simp: chain_trace_def block_trace_def spent_chain_def)
  qed
  moreover have "Outpoint (ID (reward 1)) 0 \<in> set (spends spend_reward)"
    by (simp add: spends_def input_outpoint_def)
  ultimately have "unat (1 :: u64) + 100 \<le> unat (101 :: u64)"
    using all by fastforce
  then show ?thesis using nth_blocks_upto [of 0 100] by simp
qed

section \<open>Headers\<close>

lemma validateBlockHeader_facts:
  assumes "validateBlockHeaderAtTime C b p prior t = Inr ()"
  shows "prior \<noteq> []" "Height b = Height p + 1" "PreviousHash b = Hash p" "Hash b = ComputeHash C b" "HasValidWork b"
    "MerkleRoot b = merkleRoot C (Transactions b)" "median_of (past_times prior) < Timestamp b"
    "expectedDifficultyAt prior (Height b) (Timestamp b) = Inr (Difficulty b)"
    "Version b = BlockVersion (Height b)" "length (Transactions b) \<le> MaxBlockTransactions"
    "RequireMonotonicTimestamp (RulesAtHeight (Height b)) \<Longrightarrow> Timestamp p < Timestamp b"
proof -
  have v: "validateHeaderConsensusFields b p prior t = Inr ()" "Hash b = ComputeHash C b" "HasValidWork b"
    "MerkleRoot b = merkleRoot C (Transactions b)" "length (Transactions b) \<le> MaxBlockTransactions"
    using assms by (auto simp: validateBlockHeaderAtTime_def validateHeaderAtTime_def res_simps not_less)
  then show "Hash b = ComputeHash C b" "HasValidWork b" "MerkleRoot b = merkleRoot C (Transactions b)"
    "length (Transactions b) \<le> MaxBlockTransactions" by simp_all
  show ne: "prior \<noteq> []" using v(1) by (auto simp: validateHeaderConsensusFields_def split: if_splits)
  show "Height b = Height p + 1" "PreviousHash b = Hash p" "Version b = BlockVersion (Height b)"
    "median_of (past_times prior) < Timestamp b"
    "expectedDifficultyAt prior (Height b) (Timestamp b) = Inr (Difficulty b)"
    "RequireMonotonicTimestamp (RulesAtHeight (Height b)) \<Longrightarrow> Timestamp p < Timestamp b"
    using v(1) medianTimePast_eq [OF ne]
    by (auto simp: validateHeaderConsensusFields_def res_simps Let_def not_le)
qed

text \<open>
  C33. A chain that replays is a hash chain from the genesis block: block \<open>i\<close> has height \<open>i\<close>, names the
  hash of block \<open>i - 1\<close>, carries its own header hash with valid work and the Merkle root of its
  transactions, the difficulty its predecessors demand, and a time above the median of the last eleven.
\<close>

theorem replay_header_chain:
  assumes "replay C now s False = Inr st" and "fits s"
  shows "Blocks s ! 0 = GenesisBlock C \<and>
     (\<forall>i. 0 < i \<and> i < length (Blocks s) \<longrightarrow>
        Height (Blocks s ! i) = word_of_nat i \<and>
        PreviousHash (Blocks s ! i) = Hash (Blocks s ! (i - 1)) \<and>
        Hash (Blocks s ! i) = ComputeHash C (Blocks s ! i) \<and> HasValidWork (Blocks s ! i) \<and>
        MerkleRoot (Blocks s ! i) = merkleRoot C (Transactions (Blocks s ! i)) \<and>
        expectedDifficultyAt (take i (Blocks s)) (word_of_nat i) (Timestamp (Blocks s ! i)) =
          Inr (Difficulty (Blocks s ! i)) \<and>
        median_of (past_times (take i (Blocks s))) < Timestamp (Blocks s ! i))"
proof -
  have h: "Height (Blocks s ! i) = word_of_nat i" if "i < length (Blocks s)" for i
    using replay_confirmed(3) [OF assms] that by blast
  have v: "validateBlockHeaderAtTime C (Blocks s ! i) (Blocks s ! (i - 1)) (take i (Blocks s)) (now i) = Inr ()"
    if "0 < i" "i < length (Blocks s)" for i
    using replay_confirmed(4) [OF assms] that by (simp add: header_follows_def)
  show ?thesis
    using replay_False [OF assms(1)] h validateBlockHeader_facts [OF v] by (auto simp flip: h)
qed

theorem replay_header_chain_witness: "PreviousHash (blocks_upto 2 ! 1) = Hash (blocks_upto 2 ! 0)"
  using replay_header_chain [OF replay_chain_2 fits_chain_2] by (auto simp del: blocks_upto.simps)

section \<open>Balances and pending transactions\<close>

definition owned_value :: "crypto \<Rightarrow> utxo \<Rightarrow> string \<Rightarrow> nat" where
  "owned_value C u address =
     (\<Sum>(op, out)\<leftarrow>filter (\<lambda>(op, out). AddressesEqual C (Address out) address) u. unat (Amount out))"

lemma balance_loop:
  assumes "unat t + owned_value C u a < 18446744073709551616"
  shows "\<exists>v. foldE (\<lambda>total (_, output).
       if \<not> AddressesEqual C (Address output) a then Inr total
       else safeAdd total (Amount output)) t u = Inr v \<and> unat v = unat t + owned_value C u a"
  using assms
proof (induction u arbitrary: t)
  case (Cons x u)
  obtain op out where x: "x = (op, out)" by fastforce
  show ?case
  proof (cases "AddressesEqual C (Address out) a")
    case True
    then have fit: "unat t + unat (Amount out) < 18446744073709551616"
      using Cons.prems x by (simp add: owned_value_def)
    then have add: "safeAdd t (Amount out) = Inr (t + Amount out)" "unat (t + Amount out) = unat t + unat (Amount out)"
      by (simp_all add: safeAdd_eq_Inr unat_plus_no_overflow)
    show ?thesis
      using Cons.IH [of "t + Amount out"] Cons.prems True add x by (simp add: owned_value_def add.assoc)
  next
    case False
    then show ?thesis using Cons x by (simp add: owned_value_def)
  qed
qed (simp add: owned_value_def)

lemma owned_value_le: "owned_value C u a \<le> utxo_value u"
  by (induction u) (auto simp: owned_value_def utxo_value_def)

lemma matureUTXO_value: "utxo_value (matureUTXO u os h) \<le> utxo_value u"
  by (induction u) (auto simp: matureUTXO_def utxo_value_def)

lemma balance_exact:
  assumes "utxo_value u \<le> unat MaxSupply"
  shows "\<exists>v. balanceFromUTXO C u a = Inr v \<and> unat v = owned_value C u a"
  using balance_loop [of 0 C u a] owned_value_le [of C u a] assms by (simp add: balanceFromUTXO_def)

text \<open>
  On a chain that replays with its pending transactions, the balance of a valid address never
  fails: the confirmed balance is the exact sum of the outputs the address owns, the spendable one the
  sum of the mature ones after the pending transactions, and the two entry points agree.
\<close>

theorem balance_is_exact:
  assumes "replay C now s False = Inr st0" and "replay C now s True = Inr st" and "fits s"
    and "ValidateAddress C address = Inr ()"
  shows "\<exists>confirmed spendable.
     Balance C now s address False = Inr confirmed \<and> Balance C now s address True = Inr spendable \<and>
     Balances C now s address = Inr (confirmed, spendable) \<and>
     unat confirmed = owned_value C (RUtxo st0) address \<and>
     unat spendable = owned_value C (matureUTXO (RUtxo st) (ROrigins st) (word_of_nat (length (Blocks s)))) address"
proof -
  let ?m = "matureUTXO (RUtxo st) (ROrigins st) (word_of_nat (length (Blocks s)))"
  have "state_value st0 \<le> unat MaxSupply"
    using replay_confirmed(2) [OF assms(1,3)] by (simp add: unat_MintedThrough min_def)
  then have "utxo_value (RUtxo st0) \<le> unat MaxSupply"
    by (simp only: state_value_def coins_value_def coins_of_def fst_conv)
  then obtain c where c: "balanceFromUTXO C (RUtxo st0) address = Inr c" "unat c = owned_value C (RUtxo st0) address"
    using balance_exact by blast
  have "utxo_value ?m \<le> unat MaxSupply"
    using le_trans [OF matureUTXO_value] replay_pending_inv(2) [OF assms(2,3)]
    by (simp only: state_value_def coins_value_def coins_of_def fst_conv)
  then obtain p where p: "balanceFromUTXO C ?m address = Inr p" "unat p = owned_value C ?m address"
    using balance_exact by blast
  have "length (Pending s) \<le> MaxPendingTransactions"
    "foldE (replayPending C (word_of_nat (length (Blocks s)))) st0 (Pending s) = Inr st"
    using assms(1,2) by (auto simp: replay_True)
  with c p assms show ?thesis
    by (simp add: Balance_def Balances_def SpendableUTXO_def ConfirmedUTXO_def)
qed

theorem balance_is_exact_witness:
  "\<exists>confirmed spendable. Balances sample_crypto sample_clock (chain_upto 2) sample_address = Inr (confirmed, spendable) \<and>
     unat confirmed = 12683918 \<and> unat spendable = 0"
  using balance_is_exact [OF replay_chain_2 replay_chain_2 fits_chain_2 sample_address_valid]
  by (auto simp: owned_value_def state_upto_def coins_upto_def matureUTXO_def AddressesEqual_refl IsCoinbaseMature_iff upt_rec)

text \<open>
  \<open>AddPending\<close> preserves validity: when it accepts a transaction, the state with that transaction
  appended to the pending ones replays again, blocks and all, and nothing else changed. With C24 no
  accepted transaction repeats an ID or spends an outpoint spent before.
\<close>

theorem AddPending_preserves_validity:
  assumes "AddPending C now s tx = Inr s'"
  shows "Validate C now s' = Inr () \<and> Pending s' = Pending s @ [tx] \<and> Blocks s' = Blocks s"
  using AddPending_replays [OF assms] by (auto simp: Validate_def)

theorem AddPending_preserves_validity_witness:
  "\<exists>s'. Validate sample_crypto sample_clock s' = Inr () \<and> Pending s' = [spend_reward]"
proof -
  obtain s' where "AddPending sample_crypto sample_clock (chain_upto 100) spend_reward = Inr s'"
    using spend_reward_pending by blast
  from AddPending_preserves_validity [OF this] show ?thesis by auto
qed

end
