(* ===== verification/Mining_Search.thy ===== *)
theory Mining_Search
  imports Block_Props
begin

text \<open>
  \<open>MineBlockWithWorkers\<close> of \<open>internal/core/block.go\<close>: the parallel search for a nonce, as a step
  relation over the worker goroutines, the channel \<open>found\<close> of capacity one, the two contexts and the
  goroutine that waits for the result. Every interleaving of the goroutines is a run.
\<close>

section \<open>The state and its steps\<close>

text \<open>
  A worker is in its loop (with its nonce and iteration count), at the \<open>select\<close> that sends its block,
  between the send and \<open>cancel()\<close>, or has returned. The caller waits at the outer \<open>select\<close>, waits
  for \<open>done\<close> with its result decided, or has returned.
\<close>

datatype worker = Running u64 u64 | Sending block | Cancelling | Stopped

datatype miner = Waiting | Finishing "block res" | Returned "block res"

record search =
  SWorkers :: "worker list"
  SFound :: "block option"
  SCancelled :: bool
  SCtxDone :: bool
  SMain :: miner

definition MaxMiningWorkers :: int where "MaxMiningWorkers = 1024"

definition ErrCanceled :: go_error where "ErrCanceled = Errorf ''context canceled''"

definition ErrExhausted :: go_error where "ErrExhausted = Errorf ''nonce space exhausted''"

definition try_nonce :: "crypto \<Rightarrow> block \<Rightarrow> u64 \<Rightarrow> block" where
  "try_nonce C block nonce =
     (let candidate = block\<lparr>Nonce := nonce\<rparr> in candidate\<lparr>Hash := ComputeHash C candidate\<rparr>)"

text \<open>The checks before the goroutines start, and the state in which they start.\<close>

definition search_init :: "int \<Rightarrow> bool \<Rightarrow> search res" where
  "search_init workers ctxDone =
     (if workers \<le> 0 then Inl (Errorf ''mining worker count must be positive'')
      else if workers > MaxMiningWorkers then Inl (Errorf ''mining worker count exceeds the limit'')
      else if ctxDone then Inl ErrCanceled
      else Inr \<lparr>SWorkers = map (\<lambda>worker. Running (word_of_nat worker) 0) [0..<nat workers],
                SFound = None, SCancelled = False, SCtxDone = False, SMain = Waiting\<rparr>)"

definition set_worker :: "search \<Rightarrow> nat \<Rightarrow> worker \<Rightarrow> search" where
  "set_worker s i w = s\<lparr>SWorkers := (SWorkers s)[i := w]\<rparr>"

definition all_stopped :: "search \<Rightarrow> bool" where
  "all_stopped s \<longleftrightarrow> list_all (\<lambda>w. w = Stopped) (SWorkers s)"

text \<open>One pass through the loop body of a worker: every 4096 iterations it looks at the context.\<close>

definition worker_iteration :: "crypto \<Rightarrow> block \<Rightarrow> u64 \<Rightarrow> bool \<Rightarrow> u64 \<Rightarrow> u64 \<Rightarrow> worker" where
  "worker_iteration C block stride cancelled nonce iterations =
     (if iterations AND 4095 = 0 \<and> cancelled then Stopped
      else let candidate = try_nonce C block nonce in
        if HasValidWork candidate then Sending candidate
        else if nonce > MaxUint64 - stride then Stopped
        else Running (nonce + stride) (iterations + 1))"

inductive search_step :: "crypto \<Rightarrow> block \<Rightarrow> search \<Rightarrow> search \<Rightarrow> bool" for C block where
  ctx_done: "\<not> SCtxDone s \<Longrightarrow> search_step C block s (s\<lparr>SCtxDone := True\<rparr>)"
| propagate: "SCtxDone s \<Longrightarrow> \<not> SCancelled s \<Longrightarrow> search_step C block s (s\<lparr>SCancelled := True\<rparr>)"
| iterate: "i < length (SWorkers s) \<Longrightarrow> SWorkers s ! i = Running nonce iterations \<Longrightarrow>
     search_step C block s
       (set_worker s i (worker_iteration C block (word_of_nat (length (SWorkers s))) (SCancelled s) nonce iterations))"
| send: "i < length (SWorkers s) \<Longrightarrow> SWorkers s ! i = Sending candidate \<Longrightarrow> SFound s = None \<Longrightarrow>
     search_step C block s ((set_worker s i Cancelling)\<lparr>SFound := Some candidate\<rparr>)"
| give_up: "i < length (SWorkers s) \<Longrightarrow> SWorkers s ! i = Sending candidate \<Longrightarrow> SCancelled s \<Longrightarrow>
     search_step C block s (set_worker s i Stopped)"
| cancel: "i < length (SWorkers s) \<Longrightarrow> SWorkers s ! i = Cancelling \<Longrightarrow>
     search_step C block s ((set_worker s i Stopped)\<lparr>SCancelled := True\<rparr>)"
| receive: "SMain s = Waiting \<Longrightarrow> SFound s = Some mined \<Longrightarrow>
     search_step C block s (s\<lparr>SFound := None, SCancelled := True, SMain := Finishing (Inr mined)\<rparr>)"
| interrupted: "SMain s = Waiting \<Longrightarrow> SCtxDone s \<Longrightarrow>
     search_step C block s (s\<lparr>SCancelled := True, SMain := Finishing (Inl ErrCanceled)\<rparr>)"
| finish: "SMain s = Finishing r \<Longrightarrow> all_stopped s \<Longrightarrow>
     search_step C block s (s\<lparr>SMain := Returned r\<rparr>)"
| exhausted: "SMain s = Waiting \<Longrightarrow> all_stopped s \<Longrightarrow>
     search_step C block s (s\<lparr>SFound := None, SMain := Returned (case SFound s of
       Some mined \<Rightarrow> Inr mined
     | None \<Rightarrow> if SCtxDone s then Inl ErrCanceled else Inl ErrExhausted)\<rparr>)"

text \<open>The states a call with a given number of workers can be in.\<close>

inductive search_reach :: "crypto \<Rightarrow> block \<Rightarrow> int \<Rightarrow> search \<Rightarrow> bool" for C block workers where
  start: "search_init workers False = Inr s \<Longrightarrow> search_reach C block workers s"
| step: "search_reach C block workers s \<Longrightarrow> search_step C block s s' \<Longrightarrow> search_reach C block workers s'"

section \<open>The invariant\<close>

definition proven :: "crypto \<Rightarrow> block \<Rightarrow> block \<Rightarrow> bool" where
  "proven C block candidate \<longleftrightarrow> (\<exists>n. candidate = try_nonce C block n \<and> HasValidWork candidate)"

text \<open>The nonces below \<open>n\<close> of the residue class \<open>i\<close> have been tried in vain.\<close>

definition tried :: "crypto \<Rightarrow> block \<Rightarrow> nat \<Rightarrow> nat \<Rightarrow> nat \<Rightarrow> bool" where
  "tried C block k i n \<longleftrightarrow>
     (\<forall>m. unat m mod k = i \<longrightarrow> unat m < n \<longrightarrow> \<not> HasValidWork (try_nonce C block m))"

fun worker_inv :: "crypto \<Rightarrow> block \<Rightarrow> nat \<Rightarrow> search \<Rightarrow> nat \<Rightarrow> worker \<Rightarrow> bool" where
  "worker_inv C block k s i (Running n it) \<longleftrightarrow> unat n mod k = i \<and> tried C block k i (unat n)"
| "worker_inv C block k s i (Sending c) \<longleftrightarrow> proven C block c"
| "worker_inv C block k s i Cancelling \<longleftrightarrow> SFound s \<noteq> None \<or> SMain s \<noteq> Waiting"
| "worker_inv C block k s i Stopped \<longleftrightarrow> SCancelled s \<or> tried C block k i (2 ^ 64)"

fun main_inv :: "crypto \<Rightarrow> block \<Rightarrow> search \<Rightarrow> miner \<Rightarrow> bool" where
  "main_inv C block s Waiting \<longleftrightarrow> True"
| "main_inv C block s (Finishing r) \<longleftrightarrow> SCancelled s \<and>
     (case r of Inr c \<Rightarrow> proven C block c | Inl e \<Rightarrow> e = ErrCanceled)"
| "main_inv C block s (Returned r) \<longleftrightarrow> all_stopped s \<and>
     (case r of Inr c \<Rightarrow> proven C block c
      | Inl e \<Rightarrow> e = ErrCanceled \<or> e = ErrExhausted \<and> (\<forall>n. \<not> HasValidWork (try_nonce C block n)))"

definition search_inv :: "crypto \<Rightarrow> block \<Rightarrow> nat \<Rightarrow> search \<Rightarrow> bool" where
  "search_inv C block k s \<longleftrightarrow>
     0 < k \<and> k \<le> 1024 \<and> length (SWorkers s) = k \<and>
     (\<forall>i < k. worker_inv C block k s i (SWorkers s ! i)) \<and>
     (\<forall>c. SFound s = Some c \<longrightarrow> proven C block c) \<and>
     (SCancelled s \<longrightarrow> SCtxDone s \<or> SFound s \<noteq> None \<or> SMain s \<noteq> Waiting) \<and>
     main_inv C block s (SMain s)"

lemma search_inv_init: "search_init workers False = Inr s \<Longrightarrow> search_inv C block (nat workers) s"
  by (auto simp: search_init_def search_inv_def MaxMiningWorkers_def tried_def unat_of_nat
      split: if_splits) (metis leD mod_less_eq_dividend)

text \<open>The worker's own steps.\<close>

lemma tried_step:
  assumes "tried C block k i (unat n)" "unat n mod k = i" "\<not> HasValidWork (try_nonce C block n)"
  shows "tried C block k i (unat n + k)"
  unfolding tried_def
proof (intro allI impI)
  fix m :: u64 assume m: "unat m mod k = i" "unat m < unat n + k"
  show "\<not> HasValidWork (try_nonce C block m)"
  proof (cases "unat m < unat n")
    case True
    then show ?thesis using assms(1) m(1) by (simp add: tried_def)
  next
    case False
    then have "(unat m - unat n) mod k = 0"
      using m(1) assms(2) mod_eq_dvd_iff_nat [of "unat n" "unat m" k] by simp
    moreover have "unat m - unat n < k" using m(2) False by linarith
    ultimately have "unat m = unat n" using False by simp
    then have "m = n" by (simp add: word_unat_eq_iff)
    then show ?thesis using assms(3) by simp
  qed
qed

lemma tried_mono: "tried C block k i n \<Longrightarrow> m \<le> n \<Longrightarrow> tried C block k i m"
  by (auto simp: tried_def)

lemma stride_past_end:
  assumes "0 < k" "k \<le> 1024"
  shows "n > MaxUint64 - word_of_nat k \<longleftrightarrow> 2 ^ 64 \<le> unat n + k"
proof -
  have k: "unat (word_of_nat k :: u64) = k" using assms by (simp add: unat_of_nat)
  then have "unat (MaxUint64 - word_of_nat k) = 18446744073709551615 - k"
    using assms by (subst unat_minus_no_underflow) (auto simp: word_le_nat_alt)
  then show ?thesis using assms by (auto simp: word_less_nat_alt)
qed

lemma worker_iteration_inv:
  assumes "0 < k" "k \<le> 1024" "worker_inv C block k s i (Running n it)"
  shows "worker_inv C block k s i (worker_iteration C block (word_of_nat k) (SCancelled s) n it)"
proof -
  have k: "unat (word_of_nat k :: u64) = k" using assms by (simp add: unat_of_nat)
  have t: "tried C block k i (unat n + k)" if "\<not> HasValidWork (try_nonce C block n)"
    using assms(3) that by (intro tried_step) simp_all
  have u: "unat (n + word_of_nat k) = unat n + k" if "\<not> n > MaxUint64 - word_of_nat k"
    using that stride_past_end [OF assms(1,2), of n] by (subst unat_plus_no_overflow) (simp_all add: k)
  show ?thesis
    using assms t u stride_past_end [OF assms(1,2), of n] tried_mono
    by (auto simp: worker_iteration_def Let_def proven_def)
qed


lemma worker_inv_cong:
  "SFound s' = SFound s \<Longrightarrow> SMain s' = SMain s \<Longrightarrow> SCancelled s' = SCancelled s \<Longrightarrow>
     worker_inv C block k s' i w = worker_inv C block k s i w"
  by (cases w) auto

text \<open>What a step may change for the workers it does not touch.\<close>

lemma worker_inv_mono:
  assumes "worker_inv C block k s i w" "SCancelled s \<longrightarrow> SCancelled s'"
    and "SFound s \<noteq> None \<or> SMain s \<noteq> Waiting \<longrightarrow> SFound s' \<noteq> None \<or> SMain s' \<noteq> Waiting"
  shows "worker_inv C block k s' i w"
  using assms by (cases w) auto

lemma set_worker_sel [simp]:
  "SWorkers (set_worker s i w) = (SWorkers s)[i := w]" "SFound (set_worker s i w) = SFound s"
  "SCancelled (set_worker s i w) = SCancelled s" "SCtxDone (set_worker s i w) = SCtxDone s"
  "SMain (set_worker s i w) = SMain s"
  by (simp_all add: set_worker_def)

lemma not_all_stopped: "i < length (SWorkers s) \<Longrightarrow> SWorkers s ! i \<noteq> Stopped \<Longrightarrow> \<not> all_stopped s"
  by (auto simp: all_stopped_def list_all_length)

text \<open>A step of worker \<open>i\<close> keeps the invariant when the new state of the worker is in order.\<close>

lemma search_inv_worker:
  assumes "search_inv C block k s" "i < k" "SWorkers s ! i \<noteq> Stopped"
    and "SWorkers s' = (SWorkers s)[i := w]" "SMain s' = SMain s"
    and "worker_inv C block k s' i w" "SCancelled s \<longrightarrow> SCancelled s'"
    and "SFound s \<noteq> None \<longrightarrow> SFound s' \<noteq> None" "\<forall>c. SFound s' = Some c \<longrightarrow> proven C block c"
    and "SCancelled s' \<longrightarrow> SCtxDone s' \<or> SFound s' \<noteq> None \<or> SMain s' \<noteq> Waiting"
  shows "search_inv C block k s'"
proof -
  have len: "length (SWorkers s) = k" using assms(1) by (simp add: search_inv_def)
  have "\<not> all_stopped s" using not_all_stopped [of i s] assms(2,3) len by simp
  then have main: "main_inv C block s' (SMain s')"
    using assms(1,5,7) by (cases "SMain s") (auto simp: search_inv_def)
  have "worker_inv C block k s' j (SWorkers s' ! j)" if "j < k" for j
  proof (cases "j = i")
    case False
    have "worker_inv C block k s j (SWorkers s ! j)" using assms(1) that by (simp add: search_inv_def)
    then have "worker_inv C block k s' j (SWorkers s ! j)"
      by (rule worker_inv_mono) (use assms in auto)
    then show ?thesis using False by (simp add: assms(4))
  qed (use assms len in simp)
  with main assms len show ?thesis by (simp add: search_inv_def)
qed

text \<open>A step of the caller.\<close>

lemma search_inv_main:
  assumes "search_inv C block k s" "SWorkers s' = SWorkers s" "SCancelled s \<longrightarrow> SCancelled s'"
    and "SFound s \<noteq> None \<or> SMain s \<noteq> Waiting \<longrightarrow> SFound s' \<noteq> None \<or> SMain s' \<noteq> Waiting"
    and "\<forall>c. SFound s' = Some c \<longrightarrow> SFound s = Some c" "main_inv C block s' (SMain s')"
    and "SCancelled s' \<longrightarrow> SCtxDone s' \<or> SFound s' \<noteq> None \<or> SMain s' \<noteq> Waiting"
  shows "search_inv C block k s'"
  using assms worker_inv_mono [of C block k s _ _ s'] unfolding search_inv_def by auto

lemma all_stopped_classes:
  assumes "search_inv C block k s" "all_stopped s" "\<not> SCancelled s"
  shows "\<not> HasValidWork (try_nonce C block n)"
proof -
  let ?i = "unat n mod k"
  have k: "0 < k" "length (SWorkers s) = k" using assms(1) by (simp_all add: search_inv_def)
  then have "?i < k" by simp
  moreover from this have "SWorkers s ! ?i = Stopped"
    using assms(2) k(2) by (simp add: all_stopped_def list_all_length)
  ultimately have "worker_inv C block k s ?i Stopped"
    using assms(1) by (metis search_inv_def)
  then have "tried C block k ?i (2 ^ 64)" using assms(3) by simp
  then show ?thesis using unat_less_64 [of n] by (simp add: tried_def)
qed

lemma search_inv_step:
  assumes "search_step C block s s'" "search_inv C block k s"
  shows "search_inv C block k s'"
  using assms
proof (induction rule: search_step.induct)
  case (ctx_done s)
  show ?case
    by (rule search_inv_main [OF ctx_done.prems]) (use ctx_done in \<open>cases "SMain s"; auto simp: search_inv_def all_stopped_def split: sum.splits\<close>)+
next
  case (propagate s)
  show ?case
    by (rule search_inv_main [OF propagate.prems]) (use propagate in \<open>cases "SMain s"; auto simp: search_inv_def all_stopped_def split: sum.splits\<close>)+
next
  case (iterate i s nonce iterations)
  have k: "0 < k" "k \<le> 1024" "length (SWorkers s) = k" "worker_inv C block k s i (Running nonce iterations)"
    using iterate by (auto simp: search_inv_def)
  show ?case
    by (rule search_inv_worker [OF iterate.prems, of i])
      (use iterate k worker_iteration_inv [OF k(1,2,4)] in
        \<open>auto simp: search_inv_def worker_inv_cong [of "set_worker s i _" s]\<close>)
next
  case (send i s candidate)
  show ?case
    by (rule search_inv_worker [OF send.prems, of i]) (use send in \<open>auto simp: search_inv_def\<close>)
next
  case (give_up i s candidate)
  show ?case
    by (rule search_inv_worker [OF give_up.prems, of i]) (use give_up in \<open>auto simp: search_inv_def\<close>)
next
  case (cancel i s)
  have "worker_inv C block k s i Cancelling" using cancel by (auto simp: search_inv_def)
  then show ?case
    by (intro search_inv_worker [OF cancel.prems, of i]) (use cancel in \<open>auto simp: search_inv_def\<close>)
next
  case (receive s mined)
  show ?case
    by (rule search_inv_main [OF receive.prems]) (use receive in \<open>auto simp: search_inv_def\<close>)
next
  case (interrupted s)
  show ?case
    by (rule search_inv_main [OF interrupted.prems]) (use interrupted in \<open>auto simp: search_inv_def\<close>)
next
  case (finish s r)
  show ?case
    by (rule search_inv_main [OF finish.prems])
      (use finish in \<open>auto simp: search_inv_def all_stopped_def split: sum.splits\<close>)
next
  case (exhausted s)
  let ?s' = "s\<lparr>SFound := None, SMain := Returned (case SFound s of
       Some mined \<Rightarrow> Inr mined
     | None \<Rightarrow> if SCtxDone s then Inl ErrCanceled else Inl ErrExhausted)\<rparr>"
  show ?case
  proof (rule search_inv_main [OF exhausted.prems])
    show "main_inv C block ?s' (SMain ?s')"
      using exhausted all_stopped_classes [OF exhausted.prems]
      by (auto simp: search_inv_def all_stopped_def split: option.splits)
  qed (use exhausted in \<open>auto simp: search_inv_def\<close>)
qed

lemma search_reach_inv: "search_reach C block workers s \<Longrightarrow> search_inv C block (nat workers) s"
  by (induction rule: search_reach.induct) (auto intro: search_inv_init search_inv_step)


section \<open>Termination and progress\<close>

fun worker_weight :: "worker \<Rightarrow> nat" where
  "worker_weight (Running n it) = 2 ^ 64 - unat n + 2"
| "worker_weight (Sending c) = 2"
| "worker_weight Cancelling = 1"
| "worker_weight Stopped = 0"

fun main_weight :: "miner \<Rightarrow> nat" where
  "main_weight Waiting = 2"
| "main_weight (Finishing r) = 1"
| "main_weight (Returned r) = 0"

definition search_weight :: "search \<Rightarrow> nat" where
  "search_weight s = (if SCtxDone s then 0 else 1) + (if SCancelled s then 0 else 1) +
     sum_list (map worker_weight (SWorkers s)) + main_weight (SMain s)"

lemma sum_list_update_less:
  "i < length xs \<Longrightarrow> f y < (f (xs ! i) :: nat) \<Longrightarrow> sum_list (map f (xs[i := y])) < sum_list (map f xs)"
proof (induction xs arbitrary: i)
  case (Cons x xs)
  then show ?case by (cases i) auto
qed simp

lemma worker_iteration_weight:
  assumes "0 < k" "k \<le> 1024"
  shows "worker_weight (worker_iteration C block (word_of_nat k) c n it) < worker_weight (Running n it)"
proof -
  have k: "unat (word_of_nat k :: u64) = k" using assms by (simp add: unat_of_nat)
  have "unat (n + word_of_nat k) = unat n + k" if "\<not> n > MaxUint64 - word_of_nat k"
    using that stride_past_end [OF assms, of n] by (subst unat_plus_no_overflow) (simp_all add: k)
  then show ?thesis
    using assms unat_less_64 [of n] by (auto simp: worker_iteration_def Let_def)
qed

lemma search_step_weight:
  assumes "search_step C block s s'" "0 < length (SWorkers s)" "length (SWorkers s) \<le> 1024"
  shows "search_weight s' < search_weight s"
  using assms
proof (induction rule: search_step.induct)
  case (iterate i s nonce iterations)
  then show ?case
    using worker_iteration_weight [of "length (SWorkers s)" C block "SCancelled s" nonce iterations]
      sum_list_update_less [of i "SWorkers s" worker_weight]
    by (simp add: search_weight_def)
next
  case (send i s candidate)
  then show ?case
    using sum_list_update_less [of i "SWorkers s" worker_weight Cancelling] by (simp add: search_weight_def)
next
  case (give_up i s candidate)
  then show ?case
    using sum_list_update_less [of i "SWorkers s" worker_weight Stopped] by (simp add: search_weight_def)
next
  case (cancel i s)
  then show ?case
    using sum_list_update_less [of i "SWorkers s" worker_weight Stopped] by (simp add: search_weight_def)
qed (auto simp: search_weight_def)

lemma search_progress:
  assumes "search_inv C block k s" "\<And>r. SMain s \<noteq> Returned r"
  shows "\<exists>s'. search_step C block s s'"
proof (cases "all_stopped s")
  case True
  then show ?thesis using assms(2) by (cases "SMain s") (blast intro: finish exhausted)+
next
  case False
  then obtain i where i: "i < length (SWorkers s)" "SWorkers s ! i \<noteq> Stopped"
    by (auto simp: all_stopped_def list_all_length)
  show ?thesis
  proof (cases "SWorkers s ! i")
    case (Sending c)
    show ?thesis
    proof (cases "SMain s")
      case Waiting
      then show ?thesis using Sending i(1) by (cases "SFound s") (blast intro: send receive)+
    next
      case (Finishing r)
      then have "SCancelled s" using assms(1) by (simp add: search_inv_def)
      with Sending i(1) show ?thesis by (blast intro: give_up)
    qed (use assms(2) in blast)
  qed (use i in \<open>blast intro: iterate cancel\<close>)+
qed

section \<open>The properties\<close>

text \<open>
  C37. Whatever the interleaving of the workers, a block the search returns is the given block with
  only its nonce and hash replaced, its hash is its own header hash, and it has valid work.
\<close>

theorem search_returns_valid:
  assumes "search_reach C block workers s" and "SMain s = Returned (Inr mined)"
  shows "HasValidWork mined \<and> Hash mined = ComputeHash C mined \<and>
     mined\<lparr>Nonce := Nonce block, Hash := Hash block\<rparr> = block"
proof -
  have "proven C block mined" using search_reach_inv [OF assms(1)] assms(2) by (simp add: search_inv_def)
  then show ?thesis
    by (auto simp: proven_def try_nonce_def Let_def ComputeHash_def encodeHeader_def)
qed

lemma sample_digest_nat: "be_nat (sample_digest bs) < 2 ^ 48"
proof -
  have "be_nat (replicate n 0 @ bs) = be_nat bs" for n bs
    by (induction n) (simp_all add: be_nat_Cons)
  then show ?thesis using be_nat_bound [of "drop 26 (sample_digest bs)"] by (simp add: sample_digest_def)
qed

lemma sample_work: "HasValidWork (try_nonce sample_crypto (sample_header 0) n)"
proof -
  have "(2::nat) ^ 48 \<le> 2 ^ 252" by (intro power_increasing) simp_all
  then show ?thesis
    using sample_digest_nat decodeHash_hashHex [OF digest32_sample]
    by (auto simp: HasValidWork_iff try_nonce_def Let_def ComputeHash_def sample_header_def intro!: less_le_trans [OF sample_digest_nat])
qed

theorem search_returns_valid_witness:
  "\<exists>mined. HasValidWork mined \<and> mined\<lparr>Nonce := 0, Hash := []\<rparr> = sample_header 0"
proof -
  let ?C = sample_crypto and ?b = "sample_header 0"
  let ?c = "try_nonce ?C ?b 0"
  have 0: "search_reach ?C ?b 1 \<lparr>SWorkers = [Running 0 0], SFound = None, SCancelled = False,
      SCtxDone = False, SMain = Waiting\<rparr>"
    by (rule search_reach.start) (simp add: search_init_def MaxMiningWorkers_def)
  have 1: "search_reach ?C ?b 1 \<lparr>SWorkers = [Sending ?c], SFound = None, SCancelled = False,
      SCtxDone = False, SMain = Waiting\<rparr>"
    using search_reach.step [OF 0 iterate [of 0 _ 0 0]] sample_work
    by (simp add: set_worker_def worker_iteration_def Let_def)
  have 2: "search_reach ?C ?b 1 \<lparr>SWorkers = [Cancelling], SFound = Some ?c, SCancelled = False,
      SCtxDone = False, SMain = Waiting\<rparr>"
    using search_reach.step [OF 1 send [of 0 _ ?c]] by (simp add: set_worker_def)
  have 3: "search_reach ?C ?b 1 \<lparr>SWorkers = [Stopped], SFound = Some ?c, SCancelled = True,
      SCtxDone = False, SMain = Waiting\<rparr>"
    using search_reach.step [OF 2 cancel [of 0]] by (simp add: set_worker_def)
  have 4: "search_reach ?C ?b 1 \<lparr>SWorkers = [Stopped], SFound = None, SCancelled = True,
      SCtxDone = False, SMain = Finishing (Inr ?c)\<rparr>"
    using search_reach.step [OF 3 receive [of _ ?c]] by simp
  have 5: "search_reach ?C ?b 1 \<lparr>SWorkers = [Stopped], SFound = None, SCancelled = True,
      SCtxDone = False, SMain = Returned (Inr ?c)\<rparr>"
    using search_reach.step [OF 4 finish [of _ "Inr ?c"]] by (simp add: all_stopped_def)
  from search_returns_valid [OF 5, of ?c] show ?thesis by (auto simp: sample_header_def)
qed

text \<open>
  The search gives up with "nonce space exhausted" only when no nonce of the whole 64-bit
  space has valid work: the strides of the workers leave no nonce out and stop before wrapping.
\<close>

theorem search_exhausts_all:
  assumes "search_reach C block workers s" and "SMain s = Returned (Inl ErrExhausted)"
  shows "\<not> HasValidWork (try_nonce C block n)"
  using search_reach_inv [OF assms(1)] assms(2)
  by (auto simp: search_inv_def ErrExhausted_def ErrCanceled_def)

text \<open>A header whose difficulty the sample digest never meets, and the run of one worker on it.\<close>

definition hard_header :: block where
  "hard_header = (sample_header 0)\<lparr>Difficulty := 255\<rparr>"

lemma hard_work: "\<not> HasValidWork (try_nonce sample_crypto hard_header n)"
proof -
  have "1 < be_nat (sample_digest (encodeHeader b))" if "length (encodeHeader b) < 256 ^ 4" "1 < length (encodeHeader b)" for b
  proof -
    have "be_nat (xs @ ys) = be_nat xs * 256 ^ length ys + be_nat ys" for xs ys
      by (induction xs) (simp_all add: be_nat_Cons power_add algebra_simps)
    then show ?thesis using that by (simp add: sample_digest_def be_nat_be_bytes be_nat_Cons)
  qed
  moreover have "length (encodeHeader (hard_header\<lparr>Nonce := n\<rparr>)) = 199"
    by (simp add: encodeHeader_def hard_header_def sample_header_def zeroHash_def NetworkID_def)
  ultimately have "1 < be_nat (sample_digest (encodeHeader (hard_header\<lparr>Nonce := n\<rparr>)))" by simp
  then show ?thesis
    using decodeHash_hashHex [OF digest32_sample]
    by (auto simp: HasValidWork_iff try_nonce_def Let_def ComputeHash_def hard_header_def)
qed

lemma hard_search:
  "n < 2 ^ 64 \<Longrightarrow> search_reach sample_crypto hard_header 1
     \<lparr>SWorkers = [Running (word_of_nat n) (word_of_nat n)], SFound = None, SCancelled = False,
      SCtxDone = False, SMain = Waiting\<rparr>"
proof (induction n)
  case 0
  show ?case by (rule search_reach.start) (simp add: search_init_def MaxMiningWorkers_def)
next
  case (Suc n)
  have "unat (word_of_nat n :: u64) = n" using Suc.prems by (simp add: unat_word_of_nat_64)
  then have "\<not> (word_of_nat n :: u64) > MaxUint64 - word_of_nat 1"
    using stride_past_end [of 1 "word_of_nat n"] Suc.prems by simp
  moreover have "search_reach sample_crypto hard_header 1
     \<lparr>SWorkers = [Running (word_of_nat n) (word_of_nat n)], SFound = None, SCancelled = False,
      SCtxDone = False, SMain = Waiting\<rparr>"
    using Suc by simp
  ultimately show ?case
    using search_reach.step [OF _ iterate [of 0 _ "word_of_nat n" "word_of_nat n"]] hard_work
    by (fastforce simp: set_worker_def worker_iteration_def Let_def add.commute)
qed

theorem search_exhausts_all_witness: "\<not> HasValidWork (try_nonce sample_crypto hard_header 42)"
proof -
  let ?n = "18446744073709551615 :: nat"
  have 0: "search_reach sample_crypto hard_header 1
     \<lparr>SWorkers = [Running MaxUint64 MaxUint64], SFound = None, SCancelled = False, SCtxDone = False,
      SMain = Waiting\<rparr>"
    using hard_search [of ?n] by (simp add: MaxUint64_def)
  have 1: "search_reach sample_crypto hard_header 1
     \<lparr>SWorkers = [Stopped], SFound = None, SCancelled = False, SCtxDone = False, SMain = Waiting\<rparr>"
    using search_reach.step [OF 0 iterate [of 0 _ MaxUint64 MaxUint64]] hard_work
    by (simp add: set_worker_def worker_iteration_def Let_def MaxUint64_def)
  have 2: "search_reach sample_crypto hard_header 1
     \<lparr>SWorkers = [Stopped], SFound = None, SCancelled = False, SCtxDone = False,
      SMain = Returned (Inl ErrExhausted)\<rparr>"
    using search_reach.step [OF 1 exhausted] by (simp add: all_stopped_def)
  show ?thesis by (rule search_exhausts_all [OF 2]) simp
qed

text \<open>
  C38. The search always ends: every step lowers a natural number, and a reachable state without a
  next step is one in which the call has returned. There is no deadlock and no endless run.
\<close>

theorem search_terminates:
  assumes "search_reach C block workers s"
  shows "(\<forall>s'. search_step C block s s' \<longrightarrow> search_weight s' < search_weight s) \<and>
     ((\<nexists>s'. search_step C block s s') \<longrightarrow> (\<exists>r. SMain s = Returned r))"
proof -
  have inv: "search_inv C block (nat workers) s" by (rule search_reach_inv [OF assms])
  then have "0 < length (SWorkers s)" "length (SWorkers s) \<le> 1024" by (auto simp: search_inv_def)
  with search_step_weight [of C block s] search_progress [OF inv] show ?thesis by blast
qed

theorem search_terminates_witness:
  "\<exists>s. search_init 2 False = Inr s \<and>
     (\<forall>s'. search_step sample_crypto (sample_header 0) s s' \<longrightarrow> search_weight s' < search_weight s)"
proof -
  obtain s where s: "search_init 2 False = Inr s" by (simp add: search_init_def MaxMiningWorkers_def)
  have "search_reach sample_crypto (sample_header 0) 2 s" by (rule search_reach.start [OF s])
  from search_terminates [OF this] s show ?thesis by blast
qed

end
