(* ===== verification/Sql.thy ===== *)
theory Sql
  imports Prelude
begin

text \<open>
  The part of SQL the ledger relies on, over a table as the list of its rows in the order of their
  insertion: an \<open>INSERT\<close> that fails on a violated constraint, \<open>DELETE\<close> with its row count, an upsert
  into a key-value table, \<open>ORDER BY\<close> a key, and \<open>SELECT ... LIMIT ? OFFSET ?\<close>. A statement that
  fails leaves the tables as they were, and a Go function that returns an error rolls its database
  transaction back; so an operation of the model returns the new tables or an error and nothing else.
\<close>

section \<open>Statements\<close>

definition sql_insert :: "string \<Rightarrow> ('r \<Rightarrow> 'r \<Rightarrow> bool) \<Rightarrow> 'r \<Rightarrow> 'r list \<Rightarrow> 'r list res" where
  "sql_insert name conflict row table =
     (if \<exists>r \<in> set table. conflict r row then Inl (SqlConstraint name) else Inr (table @ [row]))"

definition sql_delete :: "('r \<Rightarrow> bool) \<Rightarrow> 'r list \<Rightarrow> 'r list \<times> nat" where
  "sql_delete P table = (filter (\<lambda>r. \<not> P r) table, length (filter P table))"

definition sql_require :: "string \<Rightarrow> bool \<Rightarrow> unit res" where
  "sql_require name holds = (if holds then Inr () else Inl (SqlConstraint name))"

definition sql_order :: "('r \<Rightarrow> 'k::linorder) \<Rightarrow> 'r list \<Rightarrow> 'r list" where
  "sql_order key table = sort_key key table"

text \<open>Descending order on a key that is unique in the table.\<close>

definition sql_order_desc :: "('r \<Rightarrow> 'k::linorder) \<Rightarrow> 'r list \<Rightarrow> 'r list" where
  "sql_order_desc key table = rev (sort_key key table)"

definition sql_limit :: "int \<Rightarrow> int \<Rightarrow> 'r list \<Rightarrow> 'r list" where
  "sql_limit limit offset rows = take (nat limit) (drop (nat offset) rows)"

text \<open>\<open>INSERT ... ON CONFLICT(key) DO UPDATE SET value = excluded.value\<close>.\<close>

definition sql_upsert :: "'k \<Rightarrow> 'v \<Rightarrow> ('k \<times> 'v) list \<Rightarrow> ('k \<times> 'v) list" where
  "sql_upsert k v table = AList.update k v table"

text \<open>A loop over rows that appends what it makes of each row.\<close>

definition mapE :: "('a \<Rightarrow> 'b res) \<Rightarrow> 'a list \<Rightarrow> 'b list res" where
  "mapE f xs = foldE (\<lambda>acc x. attempt (f x) (\<lambda>y. Inr (acc @ [y]))) [] xs"

section \<open>Lemmas\<close>

lemma sql_insert_eq_Inr [res_simps]:
  "sql_insert name conflict row table = Inr t \<longleftrightarrow>
     (\<forall>r \<in> set table. \<not> conflict r row) \<and> t = table @ [row]"
  by (auto simp: sql_insert_def)

lemma sql_require_eq_Inr [res_simps]: "sql_require name holds = Inr u \<longleftrightarrow> holds"
  by (simp add: sql_require_def)

lemma sql_order_sorted [simp]: "sorted (map key table) \<Longrightarrow> sql_order key table = table"
  by (simp add: sql_order_def sort_key_id_if_sorted)

lemma sql_order_desc_sorted [simp]: "sorted (map key table) \<Longrightarrow> sql_order_desc key table = rev table"
  by (simp add: sql_order_desc_def sort_key_id_if_sorted)

lemma set_sql_order [simp]: "set (sql_order key table) = set table"
  by (simp add: sql_order_def)

lemma mapE_loop:
  "foldE (\<lambda>acc x. attempt (f x) (\<lambda>y. Inr (acc @ [y]))) acc xs =
     attempt (mapE f xs) (\<lambda>ys. Inr (acc @ ys))"
proof (induction xs arbitrary: acc)
  case (Cons x xs)
  show ?case
  proof (cases "f x")
    case (Inr y)
    then show ?thesis
      using Cons [of "acc @ [y]"] Cons [of "[y]"] by (cases "mapE f xs") (simp_all add: mapE_def)
  qed (simp add: mapE_def)
qed (simp add: mapE_def)

lemma mapE_Nil [simp]: "mapE f [] = Inr []"
  by (simp add: mapE_def)

lemma mapE_Cons: "mapE f (x # xs) = attempt (f x) (\<lambda>y. attempt (mapE f xs) (\<lambda>ys. Inr (y # ys)))"
proof (cases "f x")
  case (Inr y)
  then have "mapE f (x # xs) = foldE (\<lambda>acc x. attempt (f x) (\<lambda>y. Inr (acc @ [y]))) [y] xs"
    by (simp add: mapE_def)
  with Inr show ?thesis by (simp add: mapE_loop)
qed (simp add: mapE_def)

lemma mapE_eq_Inr: "mapE f xs = Inr ys \<longleftrightarrow> list_all2 (\<lambda>x y. f x = Inr y) xs ys"
  by (induction xs arbitrary: ys) (auto simp: mapE_Cons res_simps list_all2_Cons1)

lemma mapE_total: "(\<And>x. x \<in> set xs \<Longrightarrow> f x = Inr (g x)) \<Longrightarrow> mapE f xs = Inr (map g xs)"
  by (simp add: mapE_eq_Inr list_all2_conv_all_nth)

lemma mapE_cong [fundef_cong]:
  "xs = ys \<Longrightarrow> (\<And>x. x \<in> set ys \<Longrightarrow> f x = g x) \<Longrightarrow> mapE f xs = mapE g ys"
  unfolding mapE_def by (rule foldE_cong) auto

end
