(* ===== verification/Tables.thy ===== *)
theory Tables
  imports Sql Chain_Inv
begin

text \<open>
  The database of \<open>internal/ledger\<close> (\<open>schema.go\<close>, \<open>types.go\<close>, \<open>ledger.go\<close>): its tables, the
  encodings of their columns, the queries every operation starts from, and opening and closing it.

  An \<open>INTEGER\<close> column is an \<^typ>\<open>int\<close> in the range of \<open>int64\<close>, \<open>TEXT\<close> a \<^typ>\<open>string\<close>, \<open>BLOB\<close> a list of
  bytes, a nullable column an option. A column that holds JSON holds the encoded value itself: the
  program writes such a column with \<open>json.Marshal\<close> and reads it only with \<open>json.Unmarshal\<close>, and the
  values (hexadecimal hashes, ASCII addresses, integers and byte strings) survive the round trip.
  The byte count \<open>encoded_size\<close> of a block's JSON is written and never read and is left out.
\<close>

section \<open>Rows\<close>

record tip =
  TipHeight :: u64
  TipHash :: string
  TipTimestamp :: int
  TipDifficulty :: u8
  TipWork :: nat

record UTXORecord =
  RTxID :: string
  ROutputIndex :: u32
  RAmount :: u64
  RAddress :: string
  RCreatedHeight :: u64
  RCoinbase :: bool

definition Output :: "UTXORecord \<Rightarrow> tx_output" where
  "Output u = \<lparr>Amount = RAmount u, Address = RAddress u\<rparr>"

record UndoRecord =
  Spent :: "UTXORecord list"
  Created :: "outpoint list"

record block_row =
  BHeight :: int
  BHash :: string
  BPreviousHash :: string
  BVersion :: int
  BTimestamp :: int
  BMerkleRoot :: string
  BDifficulty :: int
  BNonce :: bytes
  BWork :: bytes
  BData :: "block option"

record tx_row =
  TId :: string
  TBlockHeight :: int
  TIndex :: int
  TCoinbase :: int
  TData :: "transaction option"

record address_row =
  ATxId :: string
  AOrdinal :: int
  AAddress :: string
  ADirection :: int
  AAmount :: int

record utxo_row =
  UTxId :: string
  UIndex :: int
  UAmount :: int
  UAddress :: string
  UCreatedHeight :: int
  UCoinbase :: int

record undo_row =
  DHeight :: int
  DHash :: string
  DData :: UndoRecord

record mempool_row =
  MSequence :: int
  MTxId :: string
  MFirstSeen :: int
  MFee :: int
  MEncodedSize :: int
  MData :: transaction

record mempool_input_row =
  ITxId :: string
  IInputTxId :: string
  IInputIndex :: int

record mempool_output_row =
  OTxId :: string
  OIndex :: int
  OAmount :: int
  OAddress :: string

record peer_row =
  PUrl :: string
  PManual :: int
  PAddedAt :: int
  PLastSeen :: "int option"
  PFailures :: int
  PNextAttempt :: "int option"
  PLastError :: string

record health_row =
  HId :: int
  HCode :: string
  HSeverity :: string
  HMessage :: string
  HAction :: string
  HCreatedAt :: int
  HResolved :: int

text \<open>The two counters are those of the \<open>AUTOINCREMENT\<close> keys of the mempool and the health events.\<close>

record db =
  dbMeta :: "(string \<times> bytes) list"
  dbBlocks :: "block_row list"
  dbTransactions :: "tx_row list"
  dbAddresses :: "address_row list"
  dbUtxos :: "utxo_row list"
  dbUndo :: "undo_row list"
  dbMempool :: "mempool_row list"
  dbMempoolSeq :: int
  dbMempoolInputs :: "mempool_input_row list"
  dbMempoolOutputs :: "mempool_output_row list"
  dbPeers :: "peer_row list"
  dbHealth :: "health_row list"
  dbHealthSeq :: int

text \<open>The tables the schema creates.\<close>

definition empty_db :: db where
  "empty_db = \<lparr>dbMeta = [], dbBlocks = [], dbTransactions = [], dbAddresses = [], dbUtxos = [],
     dbUndo = [], dbMempool = [], dbMempoolSeq = 0, dbMempoolInputs = [], dbMempoolOutputs = [],
     dbPeers = [], dbHealth = [], dbHealthSeq = 0\<rparr>"

section \<open>Columns\<close>

definition int64_of :: "u64 \<Rightarrow> int" where
  "int64_of v = sint v"

definition bool_column :: "bool \<Rightarrow> int" where
  "bool_column b = (if b then 1 else 0)"

definition encodeWork :: "nat \<Rightarrow> bytes" where
  "encodeWork work = (if work = 0 then [0] else be_min work)"

definition decodeWork :: "bytes \<Rightarrow> nat" where
  "decodeWork value = be_nat value"

definition blockWork :: "u8 \<Rightarrow> nat" where
  "blockWork difficulty = push_bit (unat difficulty) 1"

definition encodeUint64 :: "u64 \<Rightarrow> bytes" where
  "encodeUint64 v = be_bytes 8 (unat v)"

definition decodeUint64 :: "bytes \<Rightarrow> u64" where
  "decodeUint64 bs = word_of_nat (be_nat bs)"

section \<open>The tip and headers\<close>

definition tipFromQuery :: "db \<Rightarrow> tip res" where
  "tipFromQuery d =
     (case sql_order_desc BHeight (dbBlocks d) of
        [] \<Rightarrow> Inl (Errorf ''read chain tip'')
      | r # _ \<Rightarrow>
        if BHeight r < 0 \<or> BDifficulty r < 0 \<or> BDifficulty r > 255
        then Inl (Errorf ''stored chain tip contains invalid numeric values'')
        else Inr \<lparr>TipHeight = word_of_int (BHeight r), TipHash = BHash r, TipTimestamp = BTimestamp r,
                  TipDifficulty = word_of_int (BDifficulty r), TipWork = decodeWork (BWork r)\<rparr>)"

definition scanHeader :: "block_row \<Rightarrow> block res" where
  "scanHeader r =
     (if BHeight r < 0 \<or> BVersion r < 0 \<or> BVersion r > 4294967295 \<or> BDifficulty r < 0 \<or>
         BDifficulty r > 255 \<or> length (BNonce r) \<noteq> 8
      then Inl (Errorf ''stored block header contains invalid numeric values'')
      else Inr \<lparr>Version = word_of_int (BVersion r), Height = word_of_int (BHeight r),
                Timestamp = BTimestamp r, PreviousHash = BPreviousHash r, MerkleRoot = BMerkleRoot r,
                Difficulty = word_of_int (BDifficulty r), Nonce = decodeUint64 (BNonce r),
                Hash = BHash r, Transactions = []\<rparr>)"

section \<open>Metadata\<close>

definition uint64Metadata :: "db \<Rightarrow> string \<Rightarrow> u64 res" where
  "uint64Metadata d key =
     (case map_of (dbMeta d) key of
        None \<Rightarrow> Inr 0
      | Some encoded \<Rightarrow>
        if length encoded \<noteq> 8 then Inl (Errorf ''stored prune horizon has invalid length'')
        else Inr (decodeUint64 encoded))"

definition prunedThroughMetaKey :: string where "prunedThroughMetaKey = ''pruned_through''"
definition pruneDepthMetaKey :: string where "pruneDepthMetaKey = ''prune_depth''"
definition shutdownStateMetaKey :: string where "shutdownStateMetaKey = ''clean_shutdown''"

definition prunedThrough :: "db \<Rightarrow> u64 res" where
  "prunedThrough d = uint64Metadata d prunedThroughMetaKey"

section \<open>Opening and closing\<close>

definition insertMeta :: "string \<Rightarrow> bytes \<Rightarrow> db \<Rightarrow> db res" where
  "insertMeta key value d =
     attempt (sql_insert ''meta'' (\<lambda>a b. fst a = fst b) (key, value) (dbMeta d)) (\<lambda>rows.
     Inr (d\<lparr>dbMeta := rows\<rparr>))"

definition insertBlockRow :: "block_row \<Rightarrow> db \<Rightarrow> db res" where
  "insertBlockRow r d =
     attempt (sql_require ''blocks: nonce'' (length (BNonce r) = 8)) (\<lambda>_.
     attempt (sql_insert ''blocks'' (\<lambda>a b. BHeight a = BHeight b \<or> BHash a = BHash b) r (dbBlocks d)) (\<lambda>rows.
     Inr (d\<lparr>dbBlocks := rows\<rparr>)))"

definition block_row_of :: "block \<Rightarrow> nat \<Rightarrow> block_row" where
  "block_row_of b work =
     \<lparr>BHeight = int64_of (Height b), BHash = Hash b, BPreviousHash = PreviousHash b,
      BVersion = uint (Version b), BTimestamp = Timestamp b, BMerkleRoot = MerkleRoot b,
      BDifficulty = uint (Difficulty b), BNonce = encodeUint64 (Nonce b),
      BWork = encodeWork work, BData = Some b\<rparr>"

definition ensureProtocolMetadata :: "db \<Rightarrow> unit res" where
  "ensureProtocolMetadata d =
     (case map_of (dbMeta d) ''protocol'' of
        None \<Rightarrow> Inl (Errorf ''ledger protocol metadata is missing'')
      | Some protocol \<Rightarrow>
        if protocol = string_bytes NetworkID then Inr ()
        else Inl (Errorf ''ledger protocol is not supported''))"

text \<open>The loop over the Go map of metadata runs in an unspecified order; the keys differ.\<close>

definition ensureGenesis :: "crypto \<Rightarrow> u64 \<Rightarrow> db \<Rightarrow> db res" where
  "ensureGenesis C now d =
     (if length (dbBlocks d) > 0 then
        (case find (\<lambda>r. BHeight r = 0) (dbBlocks d) of
           None \<Rightarrow> Inl (Errorf ''read stored genesis'')
         | Some r \<Rightarrow>
           (case map_of (dbMeta d) ''genesis_hash'' of
              None \<Rightarrow> Inl (Errorf ''read stored genesis metadata'')
            | Some metadataHash \<Rightarrow>
              if BHash r \<noteq> Hash (GenesisBlock C) \<or> metadataHash \<noteq> string_bytes (BHash r)
              then Inl (Errorf ''stored genesis does not match'')
              else attempt (ensureProtocolMetadata d) (\<lambda>_. Inr d)))
      else
        attempt (insertBlockRow ((block_row_of (GenesisBlock C) 0)\<lparr>BHeight := 0, BDifficulty := 0\<rparr>) d) (\<lambda>d.
        foldE (\<lambda>d (key, value). insertMeta key value d) d
          [(''protocol'', string_bytes NetworkID), (''genesis_hash'', string_bytes (Hash (GenesisBlock C))),
           (''created_at'', encodeUint64 now)]))"

text \<open>The check of an existing database before anything is written to it.\<close>

definition verifyExistingNetworkIdentity :: "crypto \<Rightarrow> db \<Rightarrow> unit res" where
  "verifyExistingNetworkIdentity C d =
     (case map_of (dbMeta d) ''protocol'' of
        None \<Rightarrow> Inl (Errorf ''read existing ledger protocol without modifying it'')
      | Some protocol \<Rightarrow>
        if protocol \<noteq> string_bytes NetworkID then Inl (Errorf ''ledger protocol is incompatible'')
        else case map_of (dbMeta d) ''genesis_hash'' of
          None \<Rightarrow> Inl (Errorf ''read existing ledger genesis metadata without modifying it'')
        | Some metadataGenesis \<Rightarrow>
          (case find (\<lambda>r. BHeight r = 0) (dbBlocks d) of
             None \<Rightarrow> Inl (Errorf ''read existing ledger genesis block without modifying it'')
           | Some r \<Rightarrow>
             if metadataGenesis \<noteq> string_bytes (Hash (GenesisBlock C)) \<or> BHash r \<noteq> Hash (GenesisBlock C) \<or>
                metadataGenesis \<noteq> string_bytes (BHash r)
             then Inl (Errorf ''stored genesis does not match'') else Inr ()))"

text \<open>\<open>(clean, known)\<close>.\<close>

definition shutdownState :: "db \<Rightarrow> (bool \<times> bool) res" where
  "shutdownState d =
     (case map_of (dbMeta d) shutdownStateMetaKey of
        None \<Rightarrow> Inr (False, False)
      | Some value \<Rightarrow>
        if length value \<noteq> 1 \<or> (value ! 0 \<noteq> 0 \<and> value ! 0 \<noteq> 1)
        then Inl (Errorf ''stored ledger shutdown state is invalid'')
        else Inr (value ! 0 = 1, True))"

definition setShutdownState :: "bool \<Rightarrow> db \<Rightarrow> db" where
  "setShutdownState clean d =
     d\<lparr>dbMeta := sql_upsert shutdownStateMetaKey [if clean then 1 else 0] (dbMeta d)\<rparr>"

text \<open>\<open>quickCheck\<close> is the outcome of the integrity check of the database file.\<close>

definition prepareSession :: "unit res \<Rightarrow> db \<Rightarrow> db res" where
  "prepareSession quickCheck d =
     attempt (shutdownState d) (\<lambda>(clean, known).
     attempt (if \<not> known \<or> \<not> clean then quickCheck else Inr ()) (\<lambda>_.
     Inr (setShutdownState False d)))"

text \<open>
  \<open>inspected\<close> is the outcome of \<open>inspectLedgerPath\<close> (whether the file exists) and \<open>migrated\<close> that of
  the connection and the schema migration, which creates the empty tables. The genesis block is
  committed before the session is prepared, so it stays when the integrity check then fails.
\<close>

definition OpenLedger ::
    "crypto \<Rightarrow> bool res \<Rightarrow> unit res \<Rightarrow> unit res \<Rightarrow> u64 \<Rightarrow> db \<Rightarrow> db \<times> unit res" where
  "OpenLedger C inspected migrated quickCheck now d =
     (case attempt inspected (\<lambda>exists.
           attempt (if exists then verifyExistingNetworkIdentity C d else Inr ()) (\<lambda>_.
           attempt migrated (\<lambda>_. ensureGenesis C now d))) of
        Inl e \<Rightarrow> (d, Inl e)
      | Inr d \<Rightarrow> (case prepareSession quickCheck d of Inl e \<Rightarrow> (d, Inl e) | Inr d \<Rightarrow> (d, Inr ())))"

text \<open>Closing: the database, and the errors of the two checkpoints of the write-ahead log.\<close>

definition CloseLedger :: "unit res \<Rightarrow> unit res \<Rightarrow> db \<Rightarrow> db \<times> unit res" where
  "CloseLedger checkpoint finalCheckpoint d =
     (case checkpoint of
        Inl e \<Rightarrow> (d, Inl e)
      | Inr _ \<Rightarrow>
        let d = setShutdownState True d in
        (case finalCheckpoint of
           Inl e \<Rightarrow> (setShutdownState False d, Inl e)
         | Inr _ \<Rightarrow> (d, Inr ())))"

end
