(* ===== verification/Connect.thy ===== *)
theory Connect
  imports Tables
begin

text \<open>
  \<open>internal/ledger/apply.go\<close>: connecting a block to the active chain. The block is validated against
  the window of the last 120 headers and the table of unspent outputs, its transactions are applied
  and indexed, and what they spent and created is recorded so that the block can be disconnected.
\<close>

section \<open>Reading\<close>

definition headerWindowFromQuery :: "db \<Rightarrow> u64 \<Rightarrow> block list res" where
  "headerWindowFromQuery d throughHeight =
     (if uint throughHeight > MaxInt64 then Inl (Errorf ''block height exceeds storage range'')
      else let start = (if throughHeight + 1 > word_of_nat FirstAdjustment
                        then throughHeight + 1 - word_of_nat FirstAdjustment else 0)
        in mapE scanHeader (sql_order BHeight
             (filter (\<lambda>r. int64_of start \<le> BHeight r \<and> BHeight r \<le> int64_of throughHeight) (dbBlocks d))))"

definition ensureNewTransactionID :: "db \<Rightarrow> string \<Rightarrow> string set \<Rightarrow> unit res" where
  "ensureNewTransactionID d i seen =
     (if i \<in> seen then Inl (Errorf ''duplicate transaction'')
      else if \<exists>r \<in> set (dbTransactions d). TId r = i then Inl (Errorf ''transaction already exists'')
      else Inr ())"

definition utxo_at :: "outpoint \<Rightarrow> utxo_row \<Rightarrow> bool" where
  "utxo_at op r \<longleftrightarrow> UTxId r = OpTxID op \<and> UIndex r = uint (OpIndex op)"

definition loadUTXO :: "db \<Rightarrow> outpoint \<Rightarrow> UTXORecord res" where
  "loadUTXO d op =
     (case find (utxo_at op) (dbUtxos d) of
        None \<Rightarrow> Inl (Errorf ''input is missing or already spent'')
      | Some r \<Rightarrow>
        if UAmount r \<le> 0 \<or> UCreatedHeight r < 0 \<or> (UCoinbase r \<noteq> 0 \<and> UCoinbase r \<noteq> 1)
        then Inl (Errorf ''stored input contains invalid values'')
        else Inr \<lparr>RTxID = OpTxID op, ROutputIndex = OpIndex op, RAmount = word_of_int (UAmount r),
                  RAddress = UAddress r, RCreatedHeight = word_of_int (UCreatedHeight r),
                  RCoinbase = (UCoinbase r = 1)\<rparr>)"

definition record_outpoint :: "UTXORecord \<Rightarrow> outpoint" where
  "record_outpoint u = Outpoint (RTxID u) (ROutputIndex u)"

definition loadTransactionInputs :: "db \<Rightarrow> transaction \<Rightarrow> (UTXORecord list \<times> utxo) res" where
  "loadTransactionInputs d tx =
     foldE (\<lambda>(records, utxo) input.
       attempt (loadUTXO d (input_outpoint input)) (\<lambda>record.
       Inr (records @ [record], AList.update (record_outpoint record) (Output record) utxo)))
     ([], []) (Inputs tx)"

definition validateInputMaturity :: "UTXORecord list \<Rightarrow> u64 \<Rightarrow> unit res" where
  "validateInputMaturity inputs spendingHeight =
     checkAll (\<lambda>input.
       if RCoinbase input \<and> \<not> IsCoinbaseMature (RCreatedHeight input) spendingHeight
       then Inl (Errorf ''coinbase input is immature'') else Inr ()) inputs"

section \<open>Writing\<close>

definition insertUtxo :: "outpoint \<Rightarrow> tx_output \<Rightarrow> u64 \<Rightarrow> bool \<Rightarrow> db \<Rightarrow> db res" where
  "insertUtxo op output height coinbase d =
     attempt (sql_insert ''utxos'' (\<lambda>a b. UTxId a = UTxId b \<and> UIndex a = UIndex b)
       \<lparr>UTxId = OpTxID op, UIndex = uint (OpIndex op), UAmount = int64_of (Amount output),
        UAddress = Address output, UCreatedHeight = int64_of height, UCoinbase = bool_column coinbase\<rparr>
       (dbUtxos d)) (\<lambda>rows. Inr (d\<lparr>dbUtxos := rows\<rparr>))"

text \<open>The index is an \<open>int\<close> of the loop; a transaction has at most 256 outputs.\<close>

definition insertOutput :: "transaction \<Rightarrow> u64 \<Rightarrow> bool \<Rightarrow> db \<times> outpoint list \<Rightarrow> nat \<times> tx_output \<Rightarrow>
    (db \<times> outpoint list) res" where
  "insertOutput tx height coinbase st ix =
     (case (st, ix) of ((d, created), (index, output)) \<Rightarrow>
      if uint (Amount output) > MaxInt64 then Inl (Errorf ''output amount exceeds storage range'')
      else let op = Outpoint (ID tx) (word_of_nat index) in
           attempt (insertUtxo op output height coinbase d) (\<lambda>d. Inr (d, created @ [op])))"

definition insertOutputs :: "transaction \<Rightarrow> u64 \<Rightarrow> bool \<Rightarrow> db \<Rightarrow> (db \<times> outpoint list) res" where
  "insertOutputs tx height coinbase d =
     foldE (insertOutput tx height coinbase) (d, []) (List.enumerate 0 (Outputs tx))"

definition deleteUtxo :: "outpoint \<Rightarrow> db \<Rightarrow> db \<times> nat" where
  "deleteUtxo op d = (case sql_delete (utxo_at op) (dbUtxos d) of (rows, n) \<Rightarrow> (d\<lparr>dbUtxos := rows\<rparr>, n))"

definition spendUtxo :: "db \<Rightarrow> UTXORecord \<Rightarrow> db res" where
  "spendUtxo d input =
     (case deleteUtxo (record_outpoint input) d of (d, rows) \<Rightarrow>
      if rows \<noteq> 1 then Inl (Errorf ''input changed while connecting block'') else Inr d)"

definition applyLedgerTransaction ::
    "transaction \<Rightarrow> u64 \<Rightarrow> UTXORecord list \<Rightarrow> db \<Rightarrow> (db \<times> outpoint list) res" where
  "applyLedgerTransaction tx height inputs d =
     attempt (foldE spendUtxo d inputs) (\<lambda>d. insertOutputs tx height False d)"

definition addressDirectionInput :: int where "addressDirectionInput = - 1"
definition addressDirectionOutput :: int where "addressDirectionOutput = 1"

definition insertAddress :: "address_row \<Rightarrow> db \<Rightarrow> db res" where
  "insertAddress r d =
     attempt (sql_require ''transaction_addresses: transaction'' (\<exists>t \<in> set (dbTransactions d). TId t = ATxId r)) (\<lambda>_.
     attempt (sql_insert ''transaction_addresses''
       (\<lambda>a b. ATxId a = ATxId b \<and> AOrdinal a = AOrdinal b \<and> AAddress a = AAddress b \<and> ADirection a = ADirection b)
       r (dbAddresses d)) (\<lambda>rows. Inr (d\<lparr>dbAddresses := rows\<rparr>)))"

definition indexInput :: "transaction \<Rightarrow> db \<Rightarrow> nat \<times> UTXORecord \<Rightarrow> db res" where
  "indexInput tx d ix =
     (case ix of (index, input) \<Rightarrow>
      insertAddress \<lparr>ATxId = ID tx, AOrdinal = int index, AAddress = RAddress input,
        ADirection = addressDirectionInput, AAmount = int64_of (RAmount input)\<rparr> d)"

definition indexOutput :: "transaction \<Rightarrow> db \<Rightarrow> nat \<times> tx_output \<Rightarrow> db res" where
  "indexOutput tx d ix =
     (case ix of (index, output) \<Rightarrow>
      if uint (Amount output) > MaxInt64 then Inl (Errorf ''transaction output exceeds storage range'')
      else insertAddress \<lparr>ATxId = ID tx, AOrdinal = int index, AAddress = Address output,
             ADirection = addressDirectionOutput, AAmount = int64_of (Amount output)\<rparr> d)"

definition insertTransaction ::
    "transaction \<Rightarrow> u64 \<Rightarrow> nat \<Rightarrow> UTXORecord list \<Rightarrow> db \<Rightarrow> db res" where
  "insertTransaction tx height position inputs d =
     attempt (sql_require ''transactions: block'' (\<exists>b \<in> set (dbBlocks d). BHeight b = int64_of height)) (\<lambda>_.
     attempt (sql_insert ''transactions'' (\<lambda>a b. TId a = TId b)
       \<lparr>TId = ID tx, TBlockHeight = int64_of height, TIndex = int position,
        TCoinbase = bool_column (Coinbase tx), TData = Some tx\<rparr> (dbTransactions d)) (\<lambda>rows.
     attempt (foldE (indexInput tx) (d\<lparr>dbTransactions := rows\<rparr>) (List.enumerate 0 inputs)) (\<lambda>d.
     foldE (indexOutput tx) d (List.enumerate 0 (Outputs tx)))))"

definition checkedAdd :: "u64 \<Rightarrow> u64 \<Rightarrow> u64 res" where
  "checkedAdd left right =
     (if MaxUint64 - left < right then Inl (Errorf ''amount overflows'') else Inr (left + right))"

section \<open>Connecting a block\<close>

text \<open>The state of the loop over the regular transactions.\<close>

record connect_state =
  CDb :: db
  CUndo :: UndoRecord
  CSeen :: "string set"
  CFees :: u64

definition connectTransaction ::
    "crypto \<Rightarrow> u64 \<Rightarrow> connect_state \<Rightarrow> nat \<times> transaction \<Rightarrow> connect_state res" where
  "connectTransaction C height st px =
     (case px of (position, tx) \<Rightarrow>
      if Coinbase tx then Inl (Errorf ''multiple coinbase transactions'')
      else attempt (ensureNewTransactionID (CDb st) (ID tx) (CSeen st)) (\<lambda>_.
        attempt (loadTransactionInputs (CDb st) tx) (\<lambda>(inputs, inputUTXO).
        attempt (validateRegularTransaction C tx inputUTXO) (\<lambda>fee.
        attempt (validateInputMaturity inputs height) (\<lambda>_.
        attempt (checkedAdd (CFees st) fee) (\<lambda>fees.
        attempt (applyLedgerTransaction tx height inputs (CDb st)) (\<lambda>(d, created).
        attempt (insertTransaction tx height position inputs d) (\<lambda>d.
        Inr \<lparr>CDb = d,
             CUndo = \<lparr>Spent = Spent (CUndo st) @ inputs, Created = Created (CUndo st) @ created\<rparr>,
             CSeen = insert (ID tx) (CSeen st), CFees = fees\<rparr>))))))))"

definition insertUndo :: "undo_row \<Rightarrow> db \<Rightarrow> db res" where
  "insertUndo r d =
     attempt (sql_require ''block_undo: block'' (\<exists>b \<in> set (dbBlocks d). BHeight b = DHeight r)) (\<lambda>_.
     attempt (sql_insert ''block_undo'' (\<lambda>a b. DHeight a = DHeight b \<or> DHash a = DHash b) r (dbUndo d)) (\<lambda>rows.
     Inr (d\<lparr>dbUndo := rows\<rparr>)))"

text \<open>The part after the header check: the block's row, its transactions, its coinbase, its undo data.\<close>

definition connectBody :: "crypto \<Rightarrow> db \<Rightarrow> nat \<Rightarrow> block \<Rightarrow> db res" where
  "connectBody C d tipWork b =
     attempt (insertBlockRow (block_row_of b (tipWork + blockWork (Difficulty b))) d) (\<lambda>d.
     attempt (foldE (connectTransaction C (Height b))
       \<lparr>CDb = d, CUndo = \<lparr>Spent = [], Created = []\<rparr>, CSeen = {}, CFees = 0\<rparr>
       (List.enumerate 1 (tl (Transactions b)))) (\<lambda>st.
     let coinbase = hd (Transactions b) in
     attempt (ensureNewTransactionID (CDb st) (ID coinbase) (CSeen st)) (\<lambda>_.
     attempt (checkedAdd (Subsidy (Height b)) (CFees st)) (\<lambda>maximumReward.
     attempt (validateCoinbase C coinbase maximumReward) (\<lambda>_.
     attempt (insertOutputs coinbase (Height b) True (CDb st)) (\<lambda>(d, created).
     attempt (insertTransaction coinbase (Height b) 0 [] d) (\<lambda>d.
     insertUndo \<lparr>DHeight = int64_of (Height b), DHash = Hash b,
       DData = \<lparr>Spent = Spent (CUndo st), Created = Created (CUndo st) @ created\<rparr>\<rparr> d)))))))"

definition connectBlockAtTime :: "crypto \<Rightarrow> db \<Rightarrow> block \<Rightarrow> int \<Rightarrow> db res" where
  "connectBlockAtTime C d b validationTime =
     attempt (tipFromQuery d) (\<lambda>tip.
     if uint (Height b) > MaxInt64 then Inl (Errorf ''block height exceeds storage range'')
     else attempt (headerWindowFromQuery d (TipHeight tip)) (\<lambda>priorHeaders.
     if priorHeaders = [] then Inl (Errorf ''ledger has no previous block header'')
     else attempt (validateBlockHeaderAtTime C b (last priorHeaders) priorHeaders validationTime) (\<lambda>_.
     if Transactions b = [] \<or> \<not> Coinbase (hd (Transactions b))
     then Inl (Errorf ''first transaction must be coinbase'')
     else connectBody C d (TipWork tip) b)))"

end
