(* ===== verification/Header_Window.thy ===== *)
theory Header_Window
  imports Connect
begin

text \<open>
  The stored headers: what the rows of the blocks table say about a chain, that the tip and the header
  window read back the headers of that chain, and that validating a header against the window of the
  last 120 headers is validating it against the whole chain.
\<close>

section \<open>Columns survive storage\<close>

lemma MaxInt64_val: "MaxInt64 = 9223372036854775807"
  by (simp add: MaxInt64_def)

lemma decodeWork_encodeWork [simp]: "decodeWork (encodeWork w) = w"
  by (simp add: decodeWork_def encodeWork_def be_nat_Cons)

lemma decodeUint64_encodeUint64 [simp]: "decodeUint64 (encodeUint64 v) = v"
  using unat_less_64 [of v] by (simp add: decodeUint64_def encodeUint64_def be_nat_be_bytes)

lemma length_encodeUint64 [simp]: "length (encodeUint64 v) = 8"
  by (simp add: encodeUint64_def)

lemma int64_of_small: "uint (v :: u64) \<le> MaxInt64 \<Longrightarrow> int64_of v = uint v"
proof -
  have "- 9223372036854775808 \<le> uint v" by (rule order_trans [OF _ uint_ge_0]) simp
  then show "uint v \<le> MaxInt64 \<Longrightarrow> int64_of v = uint v"
    by (simp add: int64_of_def sint_uint signed_take_bit_int_eq_self_iff MaxInt64_val)
qed

lemma word_of_int_int64_of [simp]: "word_of_int (int64_of v) = v"
  by (simp add: int64_of_def)

lemma int64_of_eq_iff [simp]: "int64_of a = int64_of b \<longleftrightarrow> a = b"
  by (metis word_of_int_int64_of)

lemma uint_unat_le: "uint (v :: u64) \<le> MaxInt64 \<longleftrightarrow> unat v \<le> 9223372036854775807"
  by (simp add: MaxInt64_val uint_nat del: of_nat_unat)

lemma uint_of_nat_small: "n < 18446744073709551616 \<Longrightarrow> uint (word_of_nat n :: u64) = int n"
  by (simp add: uint_nat unat_word_of_nat_64)

lemma int64_of_nat: "n \<le> 9223372036854775807 \<Longrightarrow> int64_of (word_of_nat n) = int n"
  by (simp add: int64_of_small uint_of_nat_small MaxInt64_val)

section \<open>Rows of a chain\<close>

definition header_of :: "block \<Rightarrow> block" where
  "header_of b = b\<lparr>Transactions := []\<rparr>"

lemma header_of_sel [simp]:
  "Version (header_of b) = Version b" "Height (header_of b) = Height b" "Timestamp (header_of b) = Timestamp b"
  "Hash (header_of b) = Hash b" "Difficulty (header_of b) = Difficulty b"
  by (simp_all add: header_of_def)

definition row_stores :: "block_row \<Rightarrow> block \<Rightarrow> bool" where
  "row_stores r b \<longleftrightarrow> r\<lparr>BWork := [], BData := None\<rparr> = (block_row_of b 0)\<lparr>BWork := [], BData := None\<rparr>"

lemma row_stores_sel:
  assumes "row_stores r b"
  shows "BHeight r = int64_of (Height b)" "BHash r = Hash b" "BTimestamp r = Timestamp b"
    "BPreviousHash r = PreviousHash b" "BVersion r = uint (Version b)" "BMerkleRoot r = MerkleRoot b"
    "BDifficulty r = uint (Difficulty b)" "BNonce r = encodeUint64 (Nonce b)"
  using assms by (cases r, simp add: row_stores_def block_row_of_def)+

lemma row_stores_row [simp]: "row_stores (block_row_of b w) b"
  by (simp add: row_stores_def block_row_of_def)

definition heights_ok :: "block list \<Rightarrow> bool" where
  "heights_ok blocks \<longleftrightarrow> length blocks \<le> 9223372036854775808 \<and>
     (\<forall>i < length blocks. Height (blocks ! i) = word_of_nat i)"

definition chain_rows :: "block_row list \<Rightarrow> block list \<Rightarrow> bool" where
  "chain_rows rows blocks \<longleftrightarrow> list_all2 row_stores rows blocks \<and> heights_ok blocks"

lemma chain_rows_length: "chain_rows rows blocks \<Longrightarrow> length rows = length blocks"
  by (auto simp: chain_rows_def list_all2_lengthD)

lemma chain_rows_height:
  assumes "chain_rows rows blocks" "i < length blocks"
  shows "BHeight (rows ! i) = int i"
proof -
  have "row_stores (rows ! i) (blocks ! i)" "Height (blocks ! i) = word_of_nat i"
    "i \<le> 9223372036854775807"
    using assms by (auto simp: chain_rows_def heights_ok_def list_all2_conv_all_nth)
  then show ?thesis by (simp add: row_stores_sel int64_of_nat)
qed

lemma chain_rows_heights:
  assumes rows: "chain_rows rows blocks"
  shows "map BHeight rows = map int [0..<length blocks]"
proof (rule nth_equalityI)
  fix i assume "i < length (map BHeight rows)"
  then have "i < length blocks" using chain_rows_length [OF rows] by simp
  with chain_rows_height [OF rows this] chain_rows_length [OF rows]
  show "map BHeight rows ! i = map int [0..<length blocks] ! i" by simp
qed (simp add: chain_rows_length [OF rows])

lemma sorted_int_upt: "sorted (map int [0..<n])"
  by (induction n) (auto simp: sorted_append)

lemma chain_rows_sorted: "chain_rows rows blocks \<Longrightarrow> sorted (map BHeight rows)"
  by (simp only: chain_rows_heights [of rows blocks] sorted_int_upt)

lemma chain_rows_range:
  assumes rows: "chain_rows rows blocks" and le: "a \<le> length blocks"
  shows "filter (\<lambda>r. int a \<le> BHeight r \<and> BHeight r \<le> int (length blocks) - 1) rows = drop a rows"
proof -
  let ?P = "\<lambda>r. int a \<le> BHeight r \<and> BHeight r \<le> int (length blocks) - 1"
  have len: "length rows = length blocks" by (rule chain_rows_length [OF rows])
  have small: "BHeight (rows ! i) = int i" if "i < a" for i
    using that le by (intro chain_rows_height [OF rows]) simp
  have "\<forall>r \<in> set (take a rows). \<not> ?P r" "\<forall>r \<in> set (drop a rows). ?P r"
    using le by (auto simp: in_set_conv_nth len small chain_rows_height [OF rows])
  then have "filter ?P (take a rows @ drop a rows) = drop a rows" by (simp del: append_take_drop_id)
  then show ?thesis by simp
qed

lemma scanHeader_row:
  assumes "row_stores r b" "uint (Height b) \<le> MaxInt64"
  shows "scanHeader r = Inr (header_of b)"
proof -
  have "\<not> 4294967295 < uint (Version b)" "\<not> 255 < uint (Difficulty b)" "\<not> uint (Height b) < 0"
    "\<not> uint (Version b) < 0" "\<not> uint (Difficulty b) < 0"
    using uint_lt2p [of "Version b"] uint_lt2p [of "Difficulty b"] by simp_all
  then show ?thesis
    unfolding scanHeader_def row_stores_sel [OF assms(1)] int64_of_small [OF assms(2)] by (simp add: header_of_def)
qed

lemma heights_ok_range: "heights_ok blocks \<Longrightarrow> b \<in> set blocks \<Longrightarrow> uint (Height b) \<le> MaxInt64"
  by (auto simp: heights_ok_def in_set_conv_nth uint_of_nat_small MaxInt64_val)

lemma tipFromQuery_chain:
  assumes rows: "chain_rows (dbBlocks d) blocks" and ne: "blocks \<noteq> []"
  shows "tipFromQuery d = Inr \<lparr>TipHeight = word_of_nat (length blocks - 1), TipHash = Hash (last blocks),
     TipTimestamp = Timestamp (last blocks), TipDifficulty = Difficulty (last blocks),
     TipWork = decodeWork (BWork (last (dbBlocks d)))\<rparr>"
proof -
  have len: "length (dbBlocks d) = length blocks" by (rule chain_rows_length [OF rows])
  then have ne': "dbBlocks d \<noteq> []" using ne by auto
  then have "sql_order_desc BHeight (dbBlocks d) = last (dbBlocks d) # tl (rev (dbBlocks d))"
    using chain_rows_sorted [OF rows] by (simp add: hd_rev [symmetric])
  moreover have last: "row_stores (last (dbBlocks d)) (last blocks)"
    using rows ne ne' len by (simp add: chain_rows_def list_all2_conv_all_nth last_conv_nth)
  moreover have "Height (last blocks) = word_of_nat (length blocks - 1)"
    using rows ne by (simp add: chain_rows_def heights_ok_def last_conv_nth)
  moreover have "BHeight (last (dbBlocks d)) = int (length blocks - 1)"
    using chain_rows_height [OF rows, of "length blocks - 1"] ne ne' len by (simp add: last_conv_nth)
  moreover have "uint (Difficulty (last blocks)) \<le> 255"
    using uint_lt2p [of "Difficulty (last blocks)"] by simp
  ultimately show ?thesis by (simp add: tipFromQuery_def row_stores_sel [OF last])
qed

definition header_window :: "block list \<Rightarrow> block list" where
  "header_window blocks = map header_of (drop (length blocks - 120) blocks)"

lemma header_window_nonempty [simp]: "header_window blocks = [] \<longleftrightarrow> blocks = []"
  by (cases blocks) (auto simp: header_window_def)

lemma headerWindow_chain:
  assumes rows: "chain_rows (dbBlocks d) blocks" and ne: "blocks \<noteq> []"
  shows "headerWindowFromQuery d (word_of_nat (length blocks - 1)) = Inr (header_window blocks)"
proof -
  let ?n = "length blocks" and ?t = "word_of_nat (length blocks - 1) :: u64"
  have n: "0 < ?n" "?n \<le> 9223372036854775808"
    using rows ne by (auto simp: chain_rows_def heights_ok_def)
  have n1: "int (?n - 1) = int ?n - 1" using n(1) by linarith
  have t: "uint ?t \<le> MaxInt64" "int64_of ?t = int ?n - 1" "unat ?t = ?n - 1"
    using n n1 int64_of_nat [of "?n - 1"] uint_of_nat_small [of "?n - 1"] unat_word_of_nat_64 [of "?n - 1"]
    by (simp_all only: MaxInt64_val)
  have t1: "?t + 1 = word_of_nat ?n" using n by (metis Suc_pred' add.commute of_nat_Suc)
  let ?start = "if ?t + 1 > word_of_nat FirstAdjustment then ?t + 1 - word_of_nat FirstAdjustment else 0"
  have gt: "(word_of_nat ?n :: u64) > word_of_nat FirstAdjustment \<longleftrightarrow> ?n > 120"
    using n by (simp add: word_less_nat_alt unat_word_of_nat_64 FirstAdjustment_def)
  have s: "?start = word_of_nat (?n - 120)"
    unfolding t1 gt by (auto simp: FirstAdjustment_def of_nat_diff)
  have s': "int64_of ?start = int (?n - 120)"
    unfolding s by (rule int64_of_nat) (use n in simp)
  have f: "filter (\<lambda>r. int64_of ?start \<le> BHeight r \<and> BHeight r \<le> int64_of ?t) (dbBlocks d) =
      drop (?n - 120) (dbBlocks d)"
    unfolding s' t(2) by (rule chain_rows_range [OF rows]) simp
  have "sorted (map BHeight (drop (?n - 120) (dbBlocks d)))"
    using chain_rows_sorted [OF rows] by (simp add: drop_map [symmetric] sorted_wrt_drop)
  moreover have "mapE scanHeader (drop (?n - 120) (dbBlocks d)) = Inr (header_window blocks)"
    unfolding mapE_eq_Inr header_window_def list_all2_map2
  proof (rule list_all2_mono [where P = "\<lambda>r b. row_stores r b \<and> uint (Height b) \<le> MaxInt64"])
    show "list_all2 (\<lambda>r b. row_stores r b \<and> uint (Height b) \<le> MaxInt64)
        (drop (?n - 120) (dbBlocks d)) (drop (?n - 120) blocks)"
      using rows heights_ok_range [of blocks] by (auto simp: chain_rows_def list_all2_conv_all_nth)
  qed (simp add: scanHeader_row)
  ultimately show ?thesis
    using t(1) [THEN leD] by (simp only: headerWindowFromQuery_def Let_def f sql_order_sorted if_False)
qed

section \<open>The window is enough\<close>

lemma past_times_headers: "past_times (map header_of blocks) = past_times blocks"
  by (simp add: past_times_def drop_map)

lemma past_times_drop: "11 \<le> length blocks - k \<Longrightarrow> past_times (drop k blocks) = past_times blocks"
  by (metis append_take_drop_id length_drop past_times_append)

lemma past_times_window: "past_times (header_window blocks) = past_times blocks"
proof (cases "length blocks \<le> 120")
  case False
  then show ?thesis
    using past_times_drop [of blocks "length blocks - 120"]
    by (simp add: header_window_def past_times_headers)
qed (simp add: header_window_def past_times_headers)

lemma medianTimePast_window: "medianTimePast (header_window blocks) = medianTimePast blocks"
proof (cases "blocks = []")
  case False
  then show ?thesis by (simp add: medianTimePast_eq past_times_window)
qed (simp add: header_window_def)

lemma last_window: "blocks \<noteq> [] \<Longrightarrow> last (header_window blocks) = header_of (last blocks)"
  by (cases blocks) (simp_all add: header_window_def last_map last_drop del: drop_Suc_Cons)

text \<open>At an adjustment height the two medians are those of the last block and of the one 60 before it.\<close>

lemma expectedDifficulty_last:
  assumes "blocks \<noteq> []"
  shows "expectedDifficulty blocks h =
     (if h = 1 then Inr InitialDifficulty
      else if h < word_of_nat FirstAdjustment \<or> h mod word_of_nat AdjustmentBlocks \<noteq> 0
      then Inr (Difficulty (last blocks))
      else attempt (medianTimeAt blocks (int (length blocks) - 1)) (\<lambda>lastTime.
           attempt (medianTimeAt blocks (int (length blocks) - 1 - int AdjustmentBlocks)) (\<lambda>firstTime.
           let actualSeconds = wrap64 (lastTime - firstTime);
               targetSeconds = int AdjustmentBlocks * TargetBlockSeconds;
               previous = Difficulty (last blocks)
           in Inr (
            if actualSeconds \<le> targetSeconds sdiv 4 then clampDifficulty (uint previous + 2)
            else if actualSeconds < targetSeconds sdiv 2 then clampDifficulty (uint previous + 1)
            else if actualSeconds \<ge> targetSeconds * 4 then clampDifficulty (uint previous - 2)
            else if actualSeconds > targetSeconds * 2 then clampDifficulty (uint previous - 1)
            else previous))))"
  using assms by (simp add: expectedDifficulty_def go_index_last Let_def)

lemma medianTimeAt_window:
  assumes "120 \<le> length blocks"
  shows "medianTimeAt (header_window blocks) (int (length (header_window blocks)) - 1 - 60) =
     medianTimeAt blocks (int (length blocks) - 1 - 60)"
proof -
  let ?w = "header_window blocks" and ?n = "length blocks"
  have w: "length ?w = 120" using assms by (simp add: header_window_def)
  have "take 60 ?w = map header_of (drop (?n - 120) (take (?n - 60) blocks))"
    using assms by (simp add: header_window_def take_map take_drop)
  moreover have "past_times (drop (?n - 120) (take (?n - 60) blocks)) = past_times (take (?n - 60) blocks)"
    using assms by (intro past_times_drop) simp
  ultimately have "past_times (take 60 ?w) = past_times (take (?n - 60) blocks)"
    by (simp add: past_times_headers)
  moreover have "Suc (?n - 61) = ?n - 60" using assms by simp
  ultimately show ?thesis
    using medianTimeAt_eq [of 59 ?w] medianTimeAt_eq [of "?n - 61" blocks] assms w
    by (simp add: of_nat_diff)
qed

lemma expectedDifficulty_window:
  assumes "blocks \<noteq> []" "h = word_of_nat (length blocks)" "length blocks < 18446744073709551616"
  shows "expectedDifficulty (header_window blocks) h = expectedDifficulty blocks h"
proof (cases "h < word_of_nat FirstAdjustment")
  case True
  with assms show ?thesis by (simp add: expectedDifficulty_last last_window)
next
  case False
  then have "120 \<le> length blocks"
    using assms(2,3) by (simp add: word_less_nat_alt unat_word_of_nat_64 FirstAdjustment_def)
  with medianTimeAt_window [of blocks] medianTimePast_window [of blocks] assms(1) show ?thesis
    by (simp add: expectedDifficulty_last last_window medianTimePast_def AdjustmentBlocks_def)
qed

lemma validateBlockHeader_window:
  assumes ne: "blocks \<noteq> []" and h: "heights_ok blocks"
  shows "validateBlockHeaderAtTime C b (last (header_window blocks)) (header_window blocks) now =
     validateBlockHeaderAtTime C b (last blocks) blocks now"
proof -
  let ?w = "header_window blocks"
  have last: "Height (last blocks) + 1 = word_of_nat (length blocks)"
  proof -
    obtain n where n: "length blocks = Suc n" using ne by (cases blocks) auto
    then have "Height (last blocks) = word_of_nat n" using h ne by (simp add: heights_ok_def last_conv_nth)
    then show ?thesis by (simp add: n add.commute)
  qed
  have e: "expectedDifficultyAt ?w (Height b) t = expectedDifficultyAt blocks (Height b) t"
    if "Height b = Height (last blocks) + 1" for t
  proof -
    have "Height b = word_of_nat (length blocks)" "length blocks < 18446744073709551616"
      using that last h by (simp_all add: heights_ok_def)
    from expectedDifficulty_window [OF ne this] show ?thesis by (simp add: expectedDifficultyAt_def)
  qed
  have "validateHeaderConsensusFields b (last ?w) ?w now = validateHeaderConsensusFields b (last blocks) blocks now"
  proof (cases "Height b = Height (last blocks) + 1")
    case True
    show ?thesis
      using ne by (simp add: validateHeaderConsensusFields_def Let_def last_window medianTimePast_window e [OF True] cong: if_cong)
  next
    case False
    then show ?thesis using ne by (simp add: validateHeaderConsensusFields_def last_window)
  qed
  then show ?thesis by (simp add: validateBlockHeaderAtTime_def validateHeaderAtTime_def)
qed

end
