(* ===== verification/Utxo_Table.thy ===== *)
theory Utxo_Table
  imports Header_Window
begin

text \<open>
  The table of unspent outputs as the second provider of the interface \<open>coin_store\<close>, and what
  loading, spending and creating outputs in it do in terms of that interface.
\<close>

section \<open>The table as a coin store\<close>

definition utxo_key :: "utxo_row \<Rightarrow> outpoint" where
  "utxo_key r = Outpoint (UTxId r) (word_of_int (UIndex r))"

definition row_coin :: "utxo_row \<Rightarrow> coin" where
  "row_coin r =
     (\<lparr>Amount = word_of_int (UAmount r), Address = UAddress r\<rparr>,
      \<lparr>CreatedHeight = word_of_int (UCreatedHeight r), FromCoinbase = (UCoinbase r = 1)\<rparr>)"

definition coin_row :: "outpoint \<Rightarrow> coin \<Rightarrow> utxo_row" where
  "coin_row op c =
     \<lparr>UTxId = OpTxID op, UIndex = uint (OpIndex op), UAmount = int64_of (Amount (fst c)),
      UAddress = Address (fst c), UCreatedHeight = int64_of (CreatedHeight (snd c)),
      UCoinbase = bool_column (FromCoinbase (snd c))\<rparr>"

definition utxos_wf :: "utxo_row list \<Rightarrow> bool" where
  "utxos_wf t \<longleftrightarrow> distinct (map utxo_key t) \<and> (\<forall>r \<in> set t. uint (word_of_int (UIndex r) :: u32) = UIndex r)"

definition utxos_get :: "utxo_row list \<Rightarrow> outpoint \<Rightarrow> coin option" where
  "utxos_get t op = map_option row_coin (find (utxo_at op) t)"

definition utxos_put :: "utxo_row list \<Rightarrow> outpoint \<Rightarrow> coin \<Rightarrow> utxo_row list" where
  "utxos_put t op c = t @ [coin_row op c]"

definition utxos_del :: "utxo_row list \<Rightarrow> outpoint \<Rightarrow> utxo_row list" where
  "utxos_del t op = filter (\<lambda>r. \<not> utxo_at op r) t"

definition utxos_value :: "utxo_row list \<Rightarrow> nat" where
  "utxos_value t = (\<Sum>r\<leftarrow>t. coin_worth (row_coin r))"

lemma row_coin_coin_row [simp]: "row_coin (coin_row op c) = c"
  by (cases c; cases "fst c"; cases "snd c") (auto simp: row_coin_def coin_row_def bool_column_def)

lemma utxo_at_coin_row [simp]: "utxo_at op' (coin_row op c) \<longleftrightarrow> op' = op"
  by (cases op; cases op') (auto simp: utxo_at_def coin_row_def word_uint_eq_iff)

lemma UIndex_coin_row [simp]: "UIndex (coin_row op c) = uint (OpIndex op)"
  by (simp add: coin_row_def)

lemma utxo_key_coin_row [simp]: "utxo_key (coin_row op c) = op"
  by (cases op) (simp add: utxo_key_def coin_row_def)

lemma utxo_at_key: "utxos_wf t \<Longrightarrow> r \<in> set t \<Longrightarrow> utxo_at op r \<longleftrightarrow> utxo_key r = op"
  by (cases op) (auto simp: utxo_at_def utxo_key_def utxos_wf_def)

lemma utxos_get_eq:
  assumes "utxos_wf t"
  shows "utxos_get t = map_of (map (\<lambda>r. (utxo_key r, row_coin r)) t)"
proof
  fix op
  have "map_option row_coin (find (utxo_at op) xs) = map_of (map (\<lambda>r. (utxo_key r, row_coin r)) xs) op"
    if "set xs \<subseteq> set t" for xs
    using that by (induction xs) (auto simp: utxo_at_key [OF assms])
  then show "utxos_get t op = map_of (map (\<lambda>r. (utxo_key r, row_coin r)) t) op"
    by (simp add: utxos_get_def)
qed

lemma find_append: "find P (xs @ ys) = (case find P xs of None \<Rightarrow> find P ys | Some x \<Rightarrow> Some x)"
  by (induction xs) auto

lemma utxos_get_None: "utxos_get t op = None \<longleftrightarrow> (\<forall>r \<in> set t. \<not> utxo_at op r)"
  by (auto simp: utxos_get_def find_None_iff)

lemma utxos_value_del:
  assumes "utxos_wf t" "utxos_get t op = Some c"
  shows "utxos_value (utxos_del t op) + coin_worth c = utxos_value t"
  using assms
proof (induction t)
  case (Cons r t)
  have wf: "utxos_wf t" using Cons.prems(1) by (simp add: utxos_wf_def)
  show ?case
  proof (cases "utxo_at op r")
    case True
    then have "utxo_key r = op" using utxo_at_key [OF Cons.prems(1)] by simp
    then have "\<forall>x \<in> set t. \<not> utxo_at op x"
      using Cons.prems(1) utxo_at_key [OF wf] by (auto simp: utxos_wf_def) (metis imageI)
    then have "filter (\<lambda>x. \<not> utxo_at op x) t = t" by (simp add: filter_id_conv)
    with True Cons.prems show ?thesis by (simp add: utxos_del_def utxos_get_def utxos_value_def)
  next
    case False
    with Cons wf show ?thesis by (simp add: utxos_del_def utxos_get_def utxos_value_def)
  qed
qed (simp add: utxos_get_def)

interpretation ledger_coins: coin_store utxos_wf utxos_get utxos_put utxos_del coin_worth utxos_value
proof
  fix t op c
  assume wf: "utxos_wf t"
  show "utxos_wf (utxos_del t op)"
    using wf by (auto simp: utxos_wf_def utxos_del_def distinct_map inj_on_def)
  show "utxos_get (utxos_del t op) = (utxos_get t)(op := None)"
  proof
    fix op'
    have "find (utxo_at op') (filter (\<lambda>r. \<not> utxo_at op r) xs) =
        (if op' = op then None else find (utxo_at op') xs)" if "set xs \<subseteq> set t" for xs
      using that by (induction xs) (auto simp: utxo_at_key [OF wf])
    then show "utxos_get (utxos_del t op) op' = ((utxos_get t)(op := None)) op'"
      by (simp add: utxos_get_def utxos_del_def)
  qed
  show "utxos_value (utxos_del t op) + coin_worth c = utxos_value t" if "utxos_get t op = Some c"
    by (rule utxos_value_del [OF wf that])
  assume none: "utxos_get t op = None"
  show "utxos_wf (utxos_put t op c)"
    using wf none utxo_at_key [OF wf] by (auto simp: utxos_wf_def utxos_put_def utxos_get_None)
  show "utxos_get (utxos_put t op c) = (utxos_get t)(op := Some c)"
    using none by (auto simp: utxos_get_def utxos_put_def find_append fun_eq_iff split: option.splits)
  show "utxos_value (utxos_put t op c) = utxos_value t + coin_worth c"
    by (simp add: utxos_value_def utxos_put_def)
qed

section \<open>Loading\<close>

text \<open>Coins whose columns are in range, as every row the ledger writes is.\<close>

definition coin_storable :: "coin \<Rightarrow> bool" where
  "coin_storable c \<longleftrightarrow> Amount (fst c) \<noteq> 0 \<and> unat (Amount (fst c)) \<le> 9223372036854775807 \<and>
     unat (CreatedHeight (snd c)) \<le> 9223372036854775807"

definition utxos_ok :: "utxo_row list \<Rightarrow> bool" where
  "utxos_ok t \<longleftrightarrow> utxos_wf t \<and> (\<forall>r \<in> set t. r = coin_row (utxo_key r) (row_coin r) \<and> coin_storable (row_coin r))"

definition coin_record :: "outpoint \<Rightarrow> coin \<Rightarrow> UTXORecord" where
  "coin_record op c =
     \<lparr>RTxID = OpTxID op, ROutputIndex = OpIndex op, RAmount = Amount (fst c), RAddress = Address (fst c),
      RCreatedHeight = CreatedHeight (snd c), RCoinbase = FromCoinbase (snd c)\<rparr>"

definition record_coin :: "UTXORecord \<Rightarrow> coin" where
  "record_coin u = (Output u, \<lparr>CreatedHeight = RCreatedHeight u, FromCoinbase = RCoinbase u\<rparr>)"

lemma record_simps [simp]:
  "record_outpoint (coin_record op c) = op" "record_coin (coin_record op c) = c"
  "Output (coin_record op c) = fst c" "RCoinbase (coin_record op c) = FromCoinbase (snd c)"
  "RCreatedHeight (coin_record op c) = CreatedHeight (snd c)" "RAddress (coin_record op c) = Address (fst c)"
  "RAmount (coin_record op c) = Amount (fst c)"
  by (cases op; cases c; simp add: record_outpoint_def record_coin_def Output_def coin_record_def)+

lemma utxos_ok_wf: "utxos_ok t \<Longrightarrow> utxos_wf t"
  by (simp add: utxos_ok_def)

lemma utxos_ok_get:
  assumes "utxos_ok t" "utxos_get t op = Some c"
  shows "find (utxo_at op) t = Some (coin_row op c)" "coin_storable c"
proof -
  from assms(2) obtain r where r: "find (utxo_at op) t = Some r" "c = row_coin r"
    by (auto simp: utxos_get_def)
  then have m: "r \<in> set t" "utxo_at op r" by (auto simp: find_Some_iff)
  then have "utxo_key r = op" using utxo_at_key [OF utxos_ok_wf [OF assms(1)]] by blast
  with m r assms(1) show "find (utxo_at op) t = Some (coin_row op c)" "coin_storable c"
    by (auto simp: utxos_ok_def)
qed

lemma coin_row_columns:
  assumes "coin_storable c"
  shows "0 < UAmount (coin_row op c)" "0 \<le> UCreatedHeight (coin_row op c)"
    "UCoinbase (coin_row op c) = 0 \<or> UCoinbase (coin_row op c) = 1"
proof -
  have "int64_of (Amount (fst c)) = uint (Amount (fst c))"
    "int64_of (CreatedHeight (snd c)) = uint (CreatedHeight (snd c))"
    using assms by (auto simp: coin_storable_def uint_unat_le intro: int64_of_small)
  moreover have "0 < uint (Amount (fst c))"
    using assms by (simp add: coin_storable_def word_neq_0_conv word_less_def)
  ultimately show "0 < UAmount (coin_row op c)" "0 \<le> UCreatedHeight (coin_row op c)"
    "UCoinbase (coin_row op c) = 0 \<or> UCoinbase (coin_row op c) = 1"
    by (auto simp: coin_row_def bool_column_def)
qed

lemma loadUTXO_ok:
  assumes "utxos_ok (dbUtxos d)"
  shows "loadUTXO d op =
     (case utxos_get (dbUtxos d) op of
        None \<Rightarrow> Inl (Errorf ''input is missing or already spent'') | Some c \<Rightarrow> Inr (coin_record op c))"
proof (cases "utxos_get (dbUtxos d) op")
  case None
  then show ?thesis by (simp add: loadUTXO_def utxos_get_def)
next
  case (Some c)
  note f = utxos_ok_get [OF assms Some]
  have "\<not> (UAmount (coin_row op c) \<le> 0 \<or> UCreatedHeight (coin_row op c) < 0 \<or>
      UCoinbase (coin_row op c) \<noteq> 0 \<and> UCoinbase (coin_row op c) \<noteq> 1)"
    using coin_row_columns [OF f(2), of op] by auto
  then show ?thesis
    using Some f(1) by (simp add: loadUTXO_def) (simp add: coin_row_def coin_record_def bool_column_def)
qed

text \<open>Loading the inputs of a transaction: the records in order, and the map of their outputs.\<close>

definition input_records :: "utxo_row list \<Rightarrow> transaction \<Rightarrow> UTXORecord list" where
  "input_records t tx = map (\<lambda>op. coin_record op (the (utxos_get t op))) (spends tx)"

lemma loadTransactionInputs_ok:
  assumes "utxos_ok (dbUtxos d)"
  shows "loadTransactionInputs d tx = Inr (records, utxo) \<longleftrightarrow>
     (\<forall>op \<in> set (spends tx). utxos_get (dbUtxos d) op \<noteq> None) \<and>
     records = input_records (dbUtxos d) tx \<and>
     utxo = foldl (\<lambda>u op. AList.update op (fst (the (utxos_get (dbUtxos d) op))) u) [] (spends tx)"
proof -
  have "foldE (\<lambda>(records, utxo) input.
       attempt (loadUTXO d (input_outpoint input)) (\<lambda>record.
       Inr (records @ [record], AList.update (record_outpoint record) (Output record) utxo)))
     (rs, u) ins = Inr (records, utxo) \<longleftrightarrow>
     (\<forall>op \<in> set (map input_outpoint ins). utxos_get (dbUtxos d) op \<noteq> None) \<and>
     records = rs @ map (\<lambda>op. coin_record op (the (utxos_get (dbUtxos d) op))) (map input_outpoint ins) \<and>
     utxo = foldl (\<lambda>u op. AList.update op (fst (the (utxos_get (dbUtxos d) op))) u) u (map input_outpoint ins)"
    for rs u ins
  proof (induction ins arbitrary: rs u)
    case (Cons i ins)
    then show ?case
      by (cases "utxos_get (dbUtxos d) (input_outpoint i)") (auto simp: loadUTXO_ok [OF assms])
  qed auto
  then show ?thesis by (simp add: loadTransactionInputs_def spends_def input_records_def)
qed

lemma map_of_foldl_update:
  "map_of (foldl (\<lambda>u op. AList.update op (f op) u) u ops) op =
     (if op \<in> set ops then Some (f op) else map_of u op)"
  by (induction ops arbitrary: u) (auto simp: update_conv')

lemma validateInputMaturity_ok:
  "validateInputMaturity inputs h = Inr () \<longleftrightarrow>
     (\<forall>r \<in> set inputs. RCoinbase r \<longrightarrow> IsCoinbaseMature (RCreatedHeight r) h)"
  by (auto simp: validateInputMaturity_def checkAll_ok split: if_splits)

section \<open>Writing\<close>

lemma insertUtxo_ok:
  "insertUtxo op out h cb d = Inr d' \<longleftrightarrow>
     utxos_get (dbUtxos d) op = None \<and>
     d' = d\<lparr>dbUtxos := utxos_put (dbUtxos d) op (out, \<lparr>CreatedHeight = h, FromCoinbase = cb\<rparr>)\<rparr>"
  by (auto simp: insertUtxo_def res_simps utxos_get_None utxo_at_def utxos_put_def coin_row_def)

lemma insertOutputs_ok:
  "insertOutputs tx h cb d = Inr (d', created) \<longleftrightarrow>
     (\<forall>out \<in> set (Outputs tx). uint (Amount out) \<le> MaxInt64) \<and>
     (\<exists>t'. foldE (\<lambda>t (op, c). if utxos_get t op \<noteq> None then Inl (SqlConstraint ''utxos'') else Inr (utxos_put t op c))
       (dbUtxos d) (new_coins tx h cb) = Inr t' \<and> d' = d\<lparr>dbUtxos := t'\<rparr>) \<and>
     created = map fst (new_coins tx h cb)"
proof -
  let ?g = "\<lambda>(index, output). (Outpoint (ID tx) (word_of_nat index),
       (output, \<lparr>CreatedHeight = h, FromCoinbase = cb\<rparr>))"
  have "foldE (insertOutput tx h cb) (d, cs) xs = Inr (d', created) \<longleftrightarrow>
     (\<forall>(_, out) \<in> set xs. uint (Amount out) \<le> MaxInt64) \<and>
     (\<exists>t'. foldE (\<lambda>t (op, c). if utxos_get t op \<noteq> None then Inl (SqlConstraint ''utxos'') else Inr (utxos_put t op c))
       (dbUtxos d) (map ?g xs) = Inr t' \<and> d' = d\<lparr>dbUtxos := t'\<rparr>) \<and>
     created = cs @ map (fst \<circ> ?g) xs" for xs cs
  proof (induction xs arbitrary: d cs)
    case (Cons x xs)
    obtain i out where x: "x = (i, out)" by fastforce
    have step: "insertOutput tx h cb (d, cs) x = Inr (d1, cs1) \<longleftrightarrow>
        uint (Amount out) \<le> MaxInt64 \<and> utxos_get (dbUtxos d) (fst (?g x)) = None \<and>
        d1 = d\<lparr>dbUtxos := utxos_put (dbUtxos d) (fst (?g x)) (snd (?g x))\<rparr> \<and> cs1 = cs @ [fst (?g x)]" for d1 cs1
      by (auto simp: x insertOutput_def Let_def res_simps insertUtxo_ok)
    show ?case
      by (auto simp: res_simps step Cons.IH simp del: not_None_eq) (auto simp: x simp del: not_None_eq)
  qed auto
  moreover have "(\<forall>(_, out) \<in> set (List.enumerate 0 (Outputs tx)). P out) \<longleftrightarrow> (\<forall>out \<in> set (Outputs tx). P out)" for P
    using enumerate_element element_enumerate [of _ "Outputs tx" 0] by fastforce
  ultimately show ?thesis by (simp add: insertOutputs_def new_coins_def comp_def)
qed

lemma spendUtxo_ok:
  assumes "utxos_wf (dbUtxos d)"
  shows "spendUtxo d r = Inr d' \<longleftrightarrow>
     utxos_get (dbUtxos d) (record_outpoint r) \<noteq> None \<and>
     d' = d\<lparr>dbUtxos := utxos_del (dbUtxos d) (record_outpoint r)\<rparr>"
proof -
  let ?op = "record_outpoint r"
  have "length (filter (utxo_at ?op) xs) = (if \<exists>x \<in> set xs. utxo_at ?op x then 1 else 0)"
    if "set xs \<subseteq> set (dbUtxos d)" "distinct (map utxo_key xs)" for xs
    using that
  proof (induction xs)
    case (Cons x xs)
    have "utxo_at ?op y \<Longrightarrow> utxo_key y = ?op" if "y \<in> set (x # xs)" for y
      using utxo_at_key [OF assms] that Cons.prems(1) by blast
    with Cons show ?case by (auto simp: rev_image_eqI)
  qed simp
  from this [of "dbUtxos d"] assms show ?thesis
    by (auto simp: spendUtxo_def deleteUtxo_def sql_delete_def utxos_get_None utxos_del_def utxos_wf_def)
qed

lemma spendUtxos_ok:
  assumes "utxos_wf (dbUtxos d)" "distinct (map record_outpoint rs)"
  shows "foldE spendUtxo d rs = Inr d' \<longleftrightarrow>
     (\<forall>op \<in> record_outpoint ` set rs. utxos_get (dbUtxos d) op \<noteq> None) \<and>
     d' = d\<lparr>dbUtxos := foldl utxos_del (dbUtxos d) (map record_outpoint rs)\<rparr>"
  using assms
proof (induction rs arbitrary: d)
  case (Cons r rs)
  let ?d = "d\<lparr>dbUtxos := utxos_del (dbUtxos d) (record_outpoint r)\<rparr>"
  have "utxos_wf (dbUtxos ?d)" using Cons.prems(1) by (simp add: ledger_coins.wf_del)
  moreover have "utxos_get (dbUtxos ?d) op = utxos_get (dbUtxos d) op" if "op \<in> record_outpoint ` set rs" for op
    using that Cons.prems by (auto simp: ledger_coins.get_del) (metis imageI)
  ultimately show ?case
    using Cons.IH [of ?d] Cons.prems by (auto simp: res_simps spendUtxo_ok)
qed auto

end
