(* ===== verification/Ledger_Sim.thy ===== *)
theory Ledger_Sim
  imports Utxo_Table
begin

text \<open>
  Transaction by transaction, the ledger does on its tables what the replay of \<open>chain.go\<close> does on its
  maps: it accepts the same transactions, and keeps the two sets of unspent outputs, the two sets of
  transaction IDs and the fees equal.
\<close>

section \<open>The relation\<close>

definition addressed :: "crypto \<Rightarrow> utxo_row list \<Rightarrow> bool" where
  "addressed C t \<longleftrightarrow> (\<forall>r \<in> set t. ValidateAddress C (UAddress r) = Inr ())"

definition ledger_sim :: "crypto \<Rightarrow> db \<Rightarrow> replay_state \<Rightarrow> bool" where
  "ledger_sim C d st \<longleftrightarrow>
     utxos_ok (dbUtxos d) \<and> addressed C (dbUtxos d) \<and> utxos_get (dbUtxos d) = coins_get (coins_of st) \<and>
     TId ` set (dbTransactions d) = RSeen st \<and> ATxId ` set (dbAddresses d) \<subseteq> RSeen st"

lemma lookup_coins:
  assumes "coins_wf cs"
  shows "map_of (fst cs) op = map_option fst (coins_get cs op)"
    and "map_of (snd cs) op = map_option snd (coins_get cs op)"
proof -
  have "map_of (fst cs) op = None \<longleftrightarrow> map_of (snd cs) op = None"
    using assms by (simp add: coins_wf_def map_of_eq_None_iff)
  then show "map_of (fst cs) op = map_option fst (coins_get cs op)"
    and "map_of (snd cs) op = map_option snd (coins_get cs op)"
    by (cases "map_of (fst cs) op"; cases "map_of (snd cs) op"; simp add: coins_get_def)+
qed

lemma checkedAdd_safeAdd: "checkedAdd a b = Inr c \<longleftrightarrow> safeAdd a b = Inr c"
  by (auto simp: checkedAdd_def safeAdd_def)

section \<open>Creating outputs\<close>

lemma utxos_ok_put:
  assumes "utxos_ok t" "utxos_get t op = None" "coin_storable c"
  shows "utxos_ok (utxos_put t op c)"
  using ledger_coins.wf_put [OF utxos_ok_wf [OF assms(1)] assms(2), of c] assms
  by (auto simp: utxos_ok_def utxos_put_def)

lemma utxos_ok_del: "utxos_ok t \<Longrightarrow> utxos_ok (utxos_del t op)"
  using ledger_coins.wf_del [OF utxos_ok_wf, of t op] by (auto simp: utxos_ok_def utxos_del_def)

lemma utxos_ok_dels: "utxos_ok t \<Longrightarrow> utxos_ok (foldl utxos_del t ops)"
  by (induction ops arbitrary: t) (auto intro: utxos_ok_del)

lemma utxos_ok_puts:
  assumes "utxos_ok t" "distinct (map fst cs)" "\<forall>op \<in> fst ` set cs. utxos_get t op = None"
    "\<forall>c \<in> snd ` set cs. coin_storable c"
  shows "utxos_ok (foldl (\<lambda>t (op, c). utxos_put t op c) t cs)"
  using assms
proof (induction cs arbitrary: t)
  case (Cons x cs)
  obtain op c where x: "x = (op, c)" by (cases x)
  have none: "utxos_get t op = None" using Cons.prems(3) x by simp
  have "utxos_ok (foldl (\<lambda>t (op, c). utxos_put t op c) (utxos_put t op c) cs)"
  proof (rule Cons.IH)
    show "utxos_ok (utxos_put t op c)" using Cons.prems x none by (intro utxos_ok_put) auto
    show "\<forall>op' \<in> fst ` set cs. utxos_get (utxos_put t op c) op' = None"
      using Cons.prems x by (auto simp: ledger_coins.get_put [OF utxos_ok_wf [OF Cons.prems(1)] none])
  qed (use Cons.prems in auto)
  then show ?case by (simp add: x)
qed simp

text \<open>What an output must satisfy to be stored.\<close>

definition outputs_storable :: "tx_output list \<Rightarrow> bool" where
  "outputs_storable outs \<longleftrightarrow> length outs \<le> 4294967296 \<and>
     (\<forall>out \<in> set outs. Amount out \<noteq> 0 \<and> unat (Amount out) \<le> 9223372036854775807)"

lemma new_coins_storable:
  assumes "outputs_storable (Outputs tx)" "unat h \<le> 9223372036854775807"
  shows "\<forall>c \<in> snd ` set (new_coins tx h cb). coin_storable c"
  using assms enumerate_element [of _ _ 0 "Outputs tx"]
  by (fastforce simp: new_coins_def coin_storable_def outputs_storable_def)

definition created_utxos :: "utxo_row list \<Rightarrow> transaction \<Rightarrow> u64 \<Rightarrow> bool \<Rightarrow> utxo_row list" where
  "created_utxos t tx h cb = foldl (\<lambda>t (op, c). utxos_put t op c) t (new_coins tx h cb)"

lemma create_outputs:
  assumes ok: "utxos_ok (dbUtxos d)" and store: "outputs_storable (Outputs tx)" "unat h \<le> 9223372036854775807"
    and absent: "\<forall>op \<in> fst ` set (new_coins tx h cb). utxos_get (dbUtxos d) op = None"
  shows "insertOutputs tx h cb d =
      Inr (d\<lparr>dbUtxos := created_utxos (dbUtxos d) tx h cb\<rparr>, map fst (new_coins tx h cb))"
    and "utxos_ok (created_utxos (dbUtxos d) tx h cb)"
    and "utxos_get (created_utxos (dbUtxos d) tx h cb) = (\<lambda>op. case map_of (new_coins tx h cb) op of
           Some c \<Rightarrow> Some c | None \<Rightarrow> utxos_get (dbUtxos d) op)"
proof -
  note wf = utxos_ok_wf [OF ok]
  have dist: "distinct (map fst (new_coins tx h cb))"
    using store(1) by (intro distinct_new_coins) (simp add: outputs_storable_def)
  have amounts: "\<forall>out \<in> set (Outputs tx). uint (Amount out) \<le> MaxInt64"
    using store(1) by (auto simp: outputs_storable_def uint_unat_le)
  show "insertOutputs tx h cb d =
      Inr (d\<lparr>dbUtxos := created_utxos (dbUtxos d) tx h cb\<rparr>, map fst (new_coins tx h cb))"
    using dist absent amounts
    by (simp add: insertOutputs_ok ledger_coins.put_loop [OF wf] created_utxos_def del: not_None_eq)
  show "utxos_ok (created_utxos (dbUtxos d) tx h cb)"
    unfolding created_utxos_def
    by (rule utxos_ok_puts [OF ok dist absent new_coins_storable [OF store]])
  show "utxos_get (created_utxos (dbUtxos d) tx h cb) = (\<lambda>op. case map_of (new_coins tx h cb) op of
           Some c \<Rightarrow> Some c | None \<Rightarrow> utxos_get (dbUtxos d) op)"
    unfolding created_utxos_def by (rule ledger_coins.put_all(2) [OF wf dist absent])
qed

section \<open>The transaction index\<close>

definition tx_row_of :: "u64 \<Rightarrow> nat \<Rightarrow> transaction \<Rightarrow> tx_row" where
  "tx_row_of h position tx = \<lparr>TId = ID tx, TBlockHeight = int64_of h, TIndex = int position,
     TCoinbase = bool_column (Coinbase tx), TData = Some tx\<rparr>"

definition input_address :: "transaction \<Rightarrow> nat \<times> UTXORecord \<Rightarrow> address_row" where
  "input_address tx ix = \<lparr>ATxId = ID tx, AOrdinal = int (fst ix), AAddress = RAddress (snd ix),
     ADirection = addressDirectionInput, AAmount = int64_of (RAmount (snd ix))\<rparr>"

definition output_address :: "transaction \<Rightarrow> nat \<times> tx_output \<Rightarrow> address_row" where
  "output_address tx ix = \<lparr>ATxId = ID tx, AOrdinal = int (fst ix), AAddress = Address (snd ix),
     ADirection = addressDirectionOutput, AAmount = int64_of (Amount (snd ix))\<rparr>"

definition address_rows :: "transaction \<Rightarrow> UTXORecord list \<Rightarrow> address_row list" where
  "address_rows tx inputs = map (input_address tx) (List.enumerate 0 inputs) @
     map (output_address tx) (List.enumerate 0 (Outputs tx))"

lemma insertAddresses:
  assumes "\<forall>r \<in> set rows. ATxId r \<in> TId ` set (dbTransactions d)"
    and "distinct (map (\<lambda>r. (ATxId r, AOrdinal r, ADirection r)) rows)"
    and "\<forall>r \<in> set rows. \<forall>a \<in> set (dbAddresses d). ATxId a = ATxId r \<longrightarrow> ADirection a = ADirection r \<longrightarrow> AOrdinal a \<noteq> AOrdinal r"
  shows "foldE (\<lambda>d r. insertAddress r d) d rows = Inr (d\<lparr>dbAddresses := dbAddresses d @ rows\<rparr>)"
  using assms
proof (induction rows arbitrary: d)
  case (Cons r rows)
  have "insertAddress r d = Inr (d\<lparr>dbAddresses := dbAddresses d @ [r]\<rparr>)"
    using Cons.prems(1,3) by (fastforce simp: insertAddress_def sql_require_def sql_insert_def)
  moreover have "foldE (\<lambda>d r. insertAddress r d) (d\<lparr>dbAddresses := dbAddresses d @ [r]\<rparr>) rows =
      Inr ((d\<lparr>dbAddresses := dbAddresses d @ [r]\<rparr>)\<lparr>dbAddresses := dbAddresses (d\<lparr>dbAddresses := dbAddresses d @ [r]\<rparr>) @ rows\<rparr>)"
    by (rule Cons.IH) (use Cons.prems in \<open>force+\<close>)
  ultimately show ?case by simp
qed simp

lemma distinct_enumerate_key: "distinct (map (\<lambda>ix. (a, int (fst ix), b)) (List.enumerate n xs))"
  by (rule distinct_map [THEN iffD2], intro conjI)
    (auto simp: inj_on_def enumerate_eq_zip distinct_zipI1 set_zip)

lemma insertTransaction_succeeds:
  assumes block: "\<exists>b \<in> set (dbBlocks d). BHeight b = int64_of h"
    and new: "ID tx \<notin> TId ` set (dbTransactions d)"
    and addr: "ATxId ` set (dbAddresses d) \<subseteq> TId ` set (dbTransactions d)"
    and amounts: "outputs_storable (Outputs tx)"
  shows "insertTransaction tx h position inputs d =
     Inr (d\<lparr>dbTransactions := dbTransactions d @ [tx_row_of h position tx],
            dbAddresses := dbAddresses d @ address_rows tx inputs\<rparr>)"
proof -
  let ?d = "d\<lparr>dbTransactions := dbTransactions d @ [tx_row_of h position tx]\<rparr>"
  let ?ins = "map (input_address tx) (List.enumerate 0 inputs)"
  let ?outs = "map (output_address tx) (List.enumerate 0 (Outputs tx))"
  have none: "ATxId a \<noteq> ID tx" if "a \<in> set (dbAddresses d)" for a
    using new addr that by (metis imageI subsetD)
  have i: "indexInput tx d ix = insertAddress (input_address tx ix) d" for d ix
    by (cases ix) (simp add: indexInput_def input_address_def)
  have o1: "indexOutput tx d ix = insertAddress (output_address tx ix) d"
    if "ix \<in> set (List.enumerate 0 (Outputs tx))" for d ix
  proof -
    have "snd ix \<in> set (Outputs tx)" using enumerate_element that by (metis prod.collapse)
    then have "uint (Amount (snd ix)) \<le> MaxInt64" using amounts by (auto simp: outputs_storable_def uint_unat_le)
    then show ?thesis by (cases ix) (simp add: indexOutput_def output_address_def)
  qed
  have "foldE (\<lambda>d r. insertAddress r d) ?d (?ins @ ?outs) = Inr (?d\<lparr>dbAddresses := dbAddresses ?d @ (?ins @ ?outs)\<rparr>)"
  proof (rule insertAddresses)
    show "\<forall>r \<in> set (?ins @ ?outs). ATxId r \<in> TId ` set (dbTransactions ?d)"
      by (auto simp: input_address_def output_address_def tx_row_of_def)
    show "distinct (map (\<lambda>r. (ATxId r, AOrdinal r, ADirection r)) (?ins @ ?outs))"
      by (auto simp: input_address_def output_address_def comp_def distinct_enumerate_key
          addressDirectionInput_def addressDirectionOutput_def)
    show "\<forall>r \<in> set (?ins @ ?outs). \<forall>a \<in> set (dbAddresses ?d). ATxId a = ATxId r \<longrightarrow> ADirection a = ADirection r \<longrightarrow> AOrdinal a \<noteq> AOrdinal r"
      using none by (auto simp: input_address_def output_address_def)
  qed
  then have f: "attempt (foldE (indexInput tx) ?d (List.enumerate 0 inputs)) (\<lambda>d. foldE (indexOutput tx) d (List.enumerate 0 (Outputs tx))) =
      Inr (?d\<lparr>dbAddresses := dbAddresses d @ (?ins @ ?outs)\<rparr>)"
    by (simp add: foldE_append foldE_map i o1 cong: foldE_cong)
  show ?thesis
    using block new f by (auto simp: insertTransaction_def sql_require_def sql_insert_def address_rows_def
        tx_row_of_def bool_column_def rev_image_eqI)
qed

lemma insertTransaction_needs:
  assumes "insertTransaction tx h position inputs d = Inr d'"
  shows "ID tx \<notin> TId ` set (dbTransactions d)"
  using assms by (auto simp: insertTransaction_def res_simps)

section \<open>One regular transaction\<close>

lemma spent_present:
  assumes "coins_wf cs" "validateRegularTransaction C tx (fst cs) = Inr fee"
  shows "distinct (spends tx)" "\<forall>op \<in> set (spends tx). coins_get cs op \<noteq> None"
  using validate_inputs [OF assms(2)] coins_get_None [OF assms(1)] by (auto simp: spends_def)

text \<open>Validation against the loaded inputs is validation against all unspent outputs.\<close>

lemma validate_view:
  assumes wf: "coins_wf cs" and present: "\<forall>op \<in> set (spends tx). coins_get cs op \<noteq> None"
  shows "validateRegularTransaction C tx (foldl (\<lambda>u op. AList.update op (fst (the (coins_get cs op))) u) [] (spends tx)) =
     validateRegularTransaction C tx (fst cs)"
proof (rule validateRegularTransaction_cong)
  fix inp assume "inp \<in> set (Inputs tx)"
  then have "input_outpoint inp \<in> set (spends tx)" by (simp add: spends_def)
  with present show "map_of (foldl (\<lambda>u op. AList.update op (fst (the (coins_get cs op))) u) [] (spends tx)) (input_outpoint inp) =
      map_of (fst cs) (input_outpoint inp)"
    by (auto simp: map_of_foldl_update lookup_coins(1) [OF wf])
qed

lemma validate_loaded:
  assumes sim: "utxos_get t = coins_get cs" and wf: "coins_wf cs"
    and present: "\<forall>op \<in> set (spends tx). utxos_get t op \<noteq> None"
  shows "validateRegularTransaction C tx (foldl (\<lambda>u op. AList.update op (fst (the (utxos_get t op))) u) [] (spends tx)) =
     validateRegularTransaction C tx (fst cs)"
  unfolding sim by (rule validate_view [OF wf present [unfolded sim]])

lemma maturity_loaded:
  assumes sim: "utxos_get t = coins_get cs" and wf: "coins_wf cs"
    and present: "\<forall>op \<in> set (spends tx). utxos_get t op \<noteq> None"
  shows "validateInputMaturity (input_records t tx) h = Inr () \<longleftrightarrow> validateCoinbaseMaturity tx (snd cs) h = Inr ()"
proof -
  have "(\<exists>og. map_of (snd cs) op = Some og \<and> (FromCoinbase og \<longrightarrow> IsCoinbaseMature (CreatedHeight og) h)) \<longleftrightarrow>
      (FromCoinbase (snd (the (coins_get cs op))) \<longrightarrow> IsCoinbaseMature (CreatedHeight (snd (the (coins_get cs op)))) h)"
    if "op \<in> set (spends tx)" for op
    using present that by (auto simp: sim lookup_coins(2) [OF wf])
  then show ?thesis by (simp add: validateInputMaturity_ok validateCoinbaseMaturity_iff input_records_def sim)
qed

lemma outpoints_loaded [simp]: "map record_outpoint (input_records t tx) = spends tx"
  by (simp add: input_records_def comp_def)

lemma outputs_value_member: "out \<in> set outs \<Longrightarrow> unat (Amount out) \<le> outputs_value outs"
  by (auto simp: outputs_value_def intro!: member_le_sum_list)

lemma outputs_storable_value:
  assumes "outputs_ok C outs" "outputs_value outs \<le> 9223372036854775807" "length outs \<le> 4294967296"
  shows "outputs_storable outs"
  using assms le_trans [OF outputs_value_member assms(2)] by (auto simp: outputs_storable_def outputs_ok_def)

lemma regular_storable:
  assumes "coins_wf cs" "validateRegularTransaction C tx (fst cs) = Inr fee" "coins_value cs \<le> 9223372036854775807"
  shows "outputs_storable (Outputs tx)"
proof (rule outputs_storable_value)
  note sp = spent_present [OF assms(1,2)]
  have "(\<Sum>op\<leftarrow>map input_outpoint (Inputs tx). coin_worth (the (coins_get cs op))) \<le> coins_value cs"
    using chain_coins.content_dels [OF assms(1) sp] by (simp add: spends_def)
  then have "inputs_value (fst cs) (Inputs tx) \<le> coins_value cs"
    using inputs_value_coins [OF assms(1) validate_inputs(2) [OF assms(2)]] by simp
  then show "outputs_value (Outputs tx) \<le> 9223372036854775807"
    using validate_fee [OF assms(2)] assms(3) by linarith
  show "outputs_ok C (Outputs tx)" "length (Outputs tx) \<le> 4294967296"
    using assms(2) by (auto simp: validateRegularTransaction_eq_Inr regular_tx_ok_def MaxTransactionOutputs_def)
qed

definition spent_utxos :: "utxo_row list \<Rightarrow> transaction \<Rightarrow> utxo_row list" where
  "spent_utxos t tx = foldl utxos_del t (spends tx)"

lemma puts_eq: "foldl (\<lambda>t (op, c). utxos_put t op c) t cs = t @ map (\<lambda>(op, c). coin_row op c) cs"
  by (induction cs arbitrary: t) (auto simp: utxos_put_def)

lemma dels_subset: "set (foldl utxos_del t ops) \<subseteq> set t"
  by (induction ops arbitrary: t) (auto simp: utxos_del_def, force)

lemma addressed_spent: "addressed C t \<Longrightarrow> addressed C (spent_utxos t tx)"
  using dels_subset [of t "spends tx"] by (auto simp: addressed_def spent_utxos_def)

lemma addressed_created:
  assumes "addressed C t" "outputs_ok C (Outputs tx)"
  shows "addressed C (created_utxos t tx h cb)"
  unfolding created_utxos_def puts_eq
  using assms enumerate_element [of _ _ 0 "Outputs tx"]
  by (fastforce simp: addressed_def outputs_ok_def new_coins_def coin_row_def)

text \<open>The ID of a transaction that was not seen before names no unspent output.\<close>

lemma fresh_absent:
  assumes "chain_inv st txs" "ID tx \<notin> RSeen st" "OpTxID op = ID tx"
  shows "coins_get (coins_of st) op = None"
proof (rule ccontr)
  assume "coins_get (coins_of st) op \<noteq> None"
  then obtain out og where g: "coins_get (coins_of st) op = Some (out, og)" by auto
  have "origins_ok (coins_of st) txs" "RSeen st = ID ` snd ` set txs"
    using assms(1) by (simp_all add: chain_inv_def)
  with g have "OpTxID op \<in> RSeen st" unfolding origins_ok_def by force
  with assms show False by simp
qed

text \<open>
  What both do on an acceptable transaction: the tables after it, and the state of the replay.
\<close>

definition applied_db :: "db \<Rightarrow> u64 \<Rightarrow> nat \<Rightarrow> transaction \<Rightarrow> db" where
  "applied_db d h position tx =
     d\<lparr>dbUtxos := created_utxos (spent_utxos (dbUtxos d) tx) tx h (Coinbase tx),
       dbTransactions := dbTransactions d @ [tx_row_of h position tx],
       dbAddresses := dbAddresses d @ address_rows tx (input_records (dbUtxos d) tx)\<rparr>"

lemma regular_applied:
  assumes sim: "ledger_sim C d st" and inv: "chain_inv st txs" and new: "ID tx \<notin> RSeen st"
    and ok: "validateRegularTransaction C tx (RUtxo st) = Inr fee"
    and val: "state_value st \<le> 9223372036854775807" and h: "unat h \<le> 9223372036854775807"
  shows "\<exists>cs. applyRegularTransaction tx h (coins_of st) = Inr cs \<and>
      applyLedgerTransaction tx h (input_records (dbUtxos d) tx) d =
        Inr (d\<lparr>dbUtxos := created_utxos (spent_utxos (dbUtxos d) tx) tx h False\<rparr>, map fst (new_coins tx h False)) \<and>
      utxos_ok (created_utxos (spent_utxos (dbUtxos d) tx) tx h False) \<and>
      utxos_get (created_utxos (spent_utxos (dbUtxos d) tx) tx h False) = coins_get cs"
proof -
  let ?t = "spent_utxos (dbUtxos d) tx"
  have wf: "coins_wf (coins_of st)" using inv by (simp add: chain_inv_def)
  have ok': "validateRegularTransaction C tx (fst (coins_of st)) = Inr fee" using ok by (simp add: coins_of_def)
  have get: "utxos_get (dbUtxos d) = coins_get (coins_of st)" and uok: "utxos_ok (dbUtxos d)"
    using sim by (simp_all add: ledger_sim_def)
  note uwf = utxos_ok_wf [OF uok]
  note sp = spent_present [OF wf ok']
  have store: "outputs_storable (Outputs tx)"
    by (rule regular_storable [OF wf ok']) (use val in \<open>simp add: state_value_def\<close>)
  have absent: "\<forall>op. OpTxID op = ID tx \<longrightarrow> coins_get (coins_of st) op = None"
    using fresh_absent [OF inv new] by simp
  obtain cs where cs: "applyRegularTransaction tx h (coins_of st) = Inr cs"
    using applyRegular_succeeds [OF wf absent, of h] store unfolding outputs_storable_def by blast
  note eff = applyRegular_effect [OF wf ok' cs]
  have tget: "utxos_get ?t = (\<lambda>op. if op \<in> set (spends tx) then None else coins_get (coins_of st) op)"
    unfolding spent_utxos_def ledger_coins.get_dels [OF uwf] get ..
  have tabs: "\<forall>op \<in> fst ` set (new_coins tx h False). utxos_get (dbUtxos (d\<lparr>dbUtxos := ?t\<rparr>)) op = None"
    using absent new_coins_id [of _ tx h False] by (simp add: tget)
  have tok: "utxos_ok (dbUtxos (d\<lparr>dbUtxos := ?t\<rparr>))" by (simp add: spent_utxos_def utxos_ok_dels [OF uok])
  note cr = create_outputs [OF tok store h tabs]
  have "foldE spendUtxo d (input_records (dbUtxos d) tx) = Inr (d\<lparr>dbUtxos := ?t\<rparr>)"
    unfolding spendUtxos_ok [OF uwf, of "input_records (dbUtxos d) tx", unfolded outpoints_loaded, OF sp(1)]
    using sp(2) by (auto simp: get spent_utxos_def input_records_def)
  then have "applyLedgerTransaction tx h (input_records (dbUtxos d) tx) d =
      Inr (d\<lparr>dbUtxos := created_utxos ?t tx h False\<rparr>, map fst (new_coins tx h False))"
    using cr(1) by (simp add: applyLedgerTransaction_def)
  moreover have "utxos_get (created_utxos ?t tx h False) = coins_get cs"
    using cr(3) eff(3) by (simp add: tget spends_def fun_eq_iff split: option.splits)
  ultimately show ?thesis using cs cr(2) by simp
qed


section \<open>A transaction of a block\<close>

text \<open>The records of the undo data as spent coins.\<close>

definition undo_spent :: "UndoRecord \<Rightarrow> (outpoint \<times> coin) list" where
  "undo_spent u = map (\<lambda>r. (record_outpoint r, record_coin r)) (Spent u)"

definition undo_add :: "UndoRecord \<Rightarrow> UTXORecord list \<Rightarrow> outpoint list \<Rightarrow> UndoRecord" where
  "undo_add u records created = \<lparr>Spent = Spent u @ records, Created = Created u @ created\<rparr>"

definition connected_state :: "connect_state \<Rightarrow> u64 \<Rightarrow> nat \<Rightarrow> transaction \<Rightarrow> u64 \<Rightarrow> connect_state" where
  "connected_state s h position tx fees =
     \<lparr>CDb = applied_db (CDb s) h position tx,
      CUndo = undo_add (CUndo s) (input_records (dbUtxos (CDb s)) tx) (map fst (new_coins tx h False)),
      CSeen = insert (ID tx) (CSeen s), CFees = fees\<rparr>"

text \<open>The situation in which the loop of \<open>connectBlock\<close> meets its next transaction.\<close>

definition tx_ready :: "crypto \<Rightarrow> connect_state \<Rightarrow> replay_state \<Rightarrow> trace \<Rightarrow> u64 \<Rightarrow> bool" where
  "tx_ready C s st txs h \<longleftrightarrow>
     ledger_sim C (CDb s) st \<and> chain_inv st txs \<and> CSeen s \<subseteq> RSeen st \<and>
     (\<exists>b \<in> set (dbBlocks (CDb s)). BHeight b = int64_of h) \<and>
     state_value st \<le> 9223372036854775807 \<and> unat h \<le> 9223372036854775807"

lemma tx_readyD:
  assumes "tx_ready C s st txs h"
  shows "ledger_sim C (CDb s) st" "chain_inv st txs" "CSeen s \<subseteq> RSeen st"
    "\<exists>b \<in> set (dbBlocks (CDb s)). BHeight b = int64_of h"
    "state_value st \<le> 9223372036854775807" "unat h \<le> 9223372036854775807"
    "coins_wf (coins_of st)" "utxos_ok (dbUtxos (CDb s))" "utxos_get (dbUtxos (CDb s)) = coins_get (coins_of st)"
    "TId ` set (dbTransactions (CDb s)) = RSeen st" "ATxId ` set (dbAddresses (CDb s)) \<subseteq> RSeen st"
    "addressed C (dbUtxos (CDb s))"
  using assms by (auto simp: tx_ready_def ledger_sim_def chain_inv_def)

lemma ensureNew_ok: "ensureNewTransactionID d i seen = Inr () \<longleftrightarrow> i \<notin> seen \<and> i \<notin> TId ` set (dbTransactions d)"
  by (auto simp: ensureNewTransactionID_def)

text \<open>A transaction the replay accepts is connected, with this effect.\<close>

lemma connectTransaction_replays:
  assumes ready: "tx_ready C s st txs h"
    and rep: "replayTransaction C h (st, CFees s) tx = Inr (st', fees')"
  shows "connectTransaction C h s (position, tx) = Inr (connected_state s h position tx fees')"
    and "ledger_sim C (applied_db (CDb s) h position tx) st'" "\<not> Coinbase tx"
    and "outputs_storable (Outputs tx)"
proof -
  note rd = tx_readyD [OF ready]
  let ?d = "CDb s" and ?recs = "input_records (dbUtxos (CDb s)) tx"
  obtain fee cs where p: "\<not> Coinbase tx" "ID tx \<notin> RSeen st" "validateRegularTransaction C tx (RUtxo st) = Inr fee"
    "validateCoinbaseMaturity tx (ROrigins st) h = Inr ()" "safeAdd (CFees s) fee = Inr fees'"
    "applyRegularTransaction tx h (coins_of st) = Inr cs"
    "st' = (set_coins st cs)\<lparr>RSeen := insert (ID tx) (RSeen st)\<rparr>"
    using rep by (auto simp: replayTransaction_def res_simps)
  have ok': "validateRegularTransaction C tx (fst (coins_of st)) = Inr fee" using p(3) by (simp add: coins_of_def)
  note sp = spent_present [OF rd(7) ok']
  have present: "\<forall>op \<in> set (spends tx). utxos_get (dbUtxos ?d) op \<noteq> None" using sp(2) by (simp add: rd(9))
  let ?u = "foldl (\<lambda>u op. AList.update op (fst (the (utxos_get (dbUtxos ?d) op))) u) [] (spends tx)"
  have load: "loadTransactionInputs ?d tx = Inr (?recs, ?u)"
    using present by (simp add: loadTransactionInputs_ok [OF rd(8)] del: not_None_eq)
  have fee: "validateRegularTransaction C tx ?u = Inr fee"
    using validate_loaded [OF rd(9,7) present] ok' by simp
  have mat: "validateInputMaturity ?recs h = Inr ()"
    using maturity_loaded [OF rd(9,7) present] p(4) by (simp add: coins_of_def)
  have add: "checkedAdd (CFees s) fee = Inr fees'" using p(5) by (simp add: checkedAdd_safeAdd)
  obtain cs' where a: "applyRegularTransaction tx h (coins_of st) = Inr cs'"
    "applyLedgerTransaction tx h ?recs ?d =
        Inr (?d\<lparr>dbUtxos := created_utxos (spent_utxos (dbUtxos ?d) tx) tx h False\<rparr>, map fst (new_coins tx h False))"
    "utxos_ok (created_utxos (spent_utxos (dbUtxos ?d) tx) tx h False)"
    "utxos_get (created_utxos (spent_utxos (dbUtxos ?d) tx) tx h False) = coins_get cs'"
    using regular_applied [OF rd(1,2) p(2,3) rd(5,6)] by blast
  have cs: "cs' = cs" using a(1) p(6) by simp
  show store: "outputs_storable (Outputs tx)"
    by (rule regular_storable [OF rd(7) ok']) (use rd(5) in \<open>simp add: state_value_def\<close>)
  have ins: "insertTransaction tx h position ?recs (?d\<lparr>dbUtxos := created_utxos (spent_utxos (dbUtxos ?d) tx) tx h False\<rparr>) =
      Inr (applied_db ?d h position tx)"
    using p(1) insertTransaction_succeeds [of "?d\<lparr>dbUtxos := created_utxos (spent_utxos (dbUtxos ?d) tx) tx h False\<rparr>" h tx position ?recs]
    using rd(4,10,11) p(2) store by (simp add: applied_db_def)
  have new: "ensureNewTransactionID ?d (ID tx) (CSeen s) = Inr ()"
    using p(2) rd(3,10) by (auto simp: ensureNew_ok)
  show "connectTransaction C h s (position, tx) = Inr (connected_state s h position tx fees')"
    using p(1) by (simp add: connectTransaction_def new load fee mat add a(2) ins connected_state_def undo_add_def)
  show "\<not> Coinbase tx" by (rule p(1))
  have "addressed C (created_utxos (spent_utxos (dbUtxos ?d) tx) tx h False)"
    using p(3) by (intro addressed_created addressed_spent rd(12)) (simp add: validateRegularTransaction_eq_Inr regular_tx_ok_def)
  then show "ledger_sim C (applied_db ?d h position tx) st'"
    using a(3,4) rd(10,11) p(1) by (auto simp: ledger_sim_def applied_db_def p(7) cs tx_row_of_def address_rows_def
        input_address_def output_address_def)
qed

text \<open>A transaction that is connected is one the replay accepts.\<close>

lemma connectTransaction_sound:
  assumes ready: "tx_ready C s st txs h"
    and con: "connectTransaction C h s (position, tx) = Inr s'"
  shows "\<exists>st' fees'. replayTransaction C h (st, CFees s) tx = Inr (st', fees')"
proof -
  note rd = tx_readyD [OF ready]
  obtain recs u fee fees' where p: "\<not> Coinbase tx" "ensureNewTransactionID (CDb s) (ID tx) (CSeen s) = Inr ()"
    "loadTransactionInputs (CDb s) tx = Inr (recs, u)" "validateRegularTransaction C tx u = Inr fee"
    "validateInputMaturity recs h = Inr ()" "checkedAdd (CFees s) fee = Inr fees'"
    using con by (auto simp: connectTransaction_def res_simps)
  have l: "\<forall>op \<in> set (spends tx). utxos_get (dbUtxos (CDb s)) op \<noteq> None" "recs = input_records (dbUtxos (CDb s)) tx"
    "u = foldl (\<lambda>u op. AList.update op (fst (the (utxos_get (dbUtxos (CDb s)) op))) u) [] (spends tx)"
    using p(3) unfolding loadTransactionInputs_ok [OF rd(8)] by auto
  have new: "ID tx \<notin> RSeen st" using p(2) rd(10) by (simp add: ensureNew_ok)
  have ok: "validateRegularTransaction C tx (RUtxo st) = Inr fee"
    using p(4) validate_loaded [OF rd(9,7) l(1)] by (simp add: l(3) coins_of_def)
  have mat: "validateCoinbaseMaturity tx (ROrigins st) h = Inr ()"
    using p(5) maturity_loaded [OF rd(9,7) l(1)] by (simp add: l(2) coins_of_def)
  obtain cs where "applyRegularTransaction tx h (coins_of st) = Inr cs"
    using regular_applied [OF rd(1,2) new ok rd(5,6)] by blast
  with p(1,6) new ok mat show ?thesis
    by (simp add: replayTransaction_def checkedAdd_safeAdd)
qed

end
