(* ===== verification/Ledger_Block.thy ===== *)
theory Ledger_Block
  imports Ledger_Sim
begin

text \<open>
  Block by block: connecting a block accepts it exactly when the replay of the chain extended by it
  does, leaves tables that hold the same unspent outputs, and records undo data that describes every
  change of the unspent outputs.
\<close>

section \<open>The loop over the regular transactions\<close>

text \<open>Undo data from which the records it names can be restored.\<close>

definition undo_restorable :: "crypto \<Rightarrow> UndoRecord \<Rightarrow> bool" where
  "undo_restorable C u \<longleftrightarrow>
     (\<forall>r \<in> set (Spent u). coin_storable (record_coin r) \<and> ValidateAddress C (RAddress r) = Inr ())"

definition undo_for :: "crypto \<Rightarrow> (outpoint \<Rightarrow> coin option) \<Rightarrow> UndoRecord \<Rightarrow> utxo_row list \<Rightarrow> bool" where
  "undo_for C g0 u t \<longleftrightarrow> undo_restorable C u \<and> ledger_coins.recorded g0 (undo_spent u) (Created u) t"

definition loop_inv :: "crypto \<Rightarrow> (outpoint \<Rightarrow> coin option) \<Rightarrow> connect_state \<Rightarrow> replay_state \<Rightarrow> trace \<Rightarrow> u64 \<Rightarrow> bool" where
  "loop_inv C g0 s st txs h \<longleftrightarrow>
     tx_ready C s st txs h \<and> h \<noteq> 0 \<and> state_value st + unat (CFees s) \<le> 9223372036854775807 \<and>
     undo_for C g0 (CUndo s) (dbUtxos (CDb s)) \<and>
     (\<forall>op. g0 op \<noteq> None \<or> op \<in> set (Created (CUndo s)) \<longrightarrow> OpTxID op \<in> RSeen st)"

definition progress :: "connect_state \<Rightarrow> connect_state \<Rightarrow> u64 \<Rightarrow> nat \<Rightarrow> transaction list \<Rightarrow> bool" where
  "progress s s' h n txs \<longleftrightarrow>
     (\<exists>rows. CDb s' = (CDb s)\<lparr>dbUtxos := dbUtxos (CDb s'),
        dbTransactions := dbTransactions (CDb s) @ map (\<lambda>(p, tx). tx_row_of h p tx) (List.enumerate n txs),
        dbAddresses := dbAddresses (CDb s) @ rows\<rparr> \<and> ATxId ` set rows \<subseteq> ID ` set txs)"

lemma address_rows_id: "ATxId ` set (address_rows tx inputs) \<subseteq> {ID tx}"
  by (auto simp: address_rows_def input_address_def output_address_def)

lemma undo_spent_add: "undo_spent (undo_add u (input_records t tx) cs) =
    undo_spent u @ map (\<lambda>op. (op, the (utxos_get t op))) (spends tx)"
  by (simp add: undo_spent_def undo_add_def input_records_def comp_def)

lemma new_coins_fst: "map fst (new_coins tx h cb) = map fst (new_coins tx h' cb')"
  by (simp add: new_coins_def case_prod_unfold comp_def)

lemma loop_step:
  assumes inv: "loop_inv C g0 s st txs h"
    and rep: "replayTransaction C h (st, CFees s) tx = Inr (st', fees')"
  shows "connectTransaction C h s (n, tx) = Inr (connected_state s h n tx fees')"
    and "loop_inv C g0 (connected_state s h n tx fees') st' (txs @ [(h, tx)]) h"
    and "progress s (connected_state s h n tx fees') h n [tx]"
proof -
  have ready: "tx_ready C s st txs h" and h0: "h \<noteq> 0"
    and val: "state_value st + unat (CFees s) \<le> 9223372036854775807"
    and undo: "undo_for C g0 (CUndo s) (dbUtxos (CDb s))"
    and ids: "\<And>op. g0 op \<noteq> None \<or> op \<in> set (Created (CUndo s)) \<Longrightarrow> OpTxID op \<in> RSeen st"
    using inv by (auto simp: loop_inv_def)
  note rd = tx_readyD [OF ready]
  note con = connectTransaction_replays [OF ready rep]
  show "connectTransaction C h s (n, tx) = Inr (connected_state s h n tx fees')" by (rule con(1))
  let ?t = "dbUtxos (CDb s)"
  obtain fee where p: "ID tx \<notin> RSeen st" "validateRegularTransaction C tx (RUtxo st) = Inr fee"
    "RSeen st' = insert (ID tx) (RSeen st)"
    using rep by (auto simp: replayTransaction_def res_simps)
  have ext: "chain_inv st' (txs @ [(h, tx)])" "state_value st' + unat fees' = state_value st + unat (CFees s)"
    using replayTransaction_extend [OF rd(2) h0 rep] by simp_all
  have ok': "validateRegularTransaction C tx (fst (coins_of st)) = Inr fee" using p(2) by (simp add: coins_of_def)
  note sp = spent_present [OF rd(7) ok']
  have present: "\<forall>op \<in> set (spends tx). utxos_get ?t op \<noteq> None" using sp(2) by (simp add: rd(9))
  have rec: "ledger_coins.recorded g0 (undo_spent (CUndo s)) (Created (CUndo s)) ?t"
    using undo by (simp add: undo_for_def)
  note rec1 = ledger_coins.recorded_spends [OF rec sp(1) present]
  have "ledger_coins.recorded g0 (undo_spent (CUndo s) @ map (\<lambda>op. (op, the (utxos_get ?t op))) (spends tx))
      (Created (CUndo s) @ map fst (new_coins tx h False))
      (foldl (\<lambda>t (op, c). utxos_put t op c) (foldl utxos_del ?t (spends tx)) (new_coins tx h False))"
  proof (rule ledger_coins.recorded_creates [OF rec1])
    show "distinct (map fst (new_coins tx h False))"
      using con(4) by (intro distinct_new_coins) (simp add: outputs_storable_def)
    show "\<forall>op \<in> fst ` set (new_coins tx h False).
        utxos_get (foldl utxos_del ?t (spends tx)) op = None \<and> g0 op = None \<and> op \<notin> set (Created (CUndo s))"
    proof
      fix op assume "op \<in> fst ` set (new_coins tx h False)"
      then have i: "OpTxID op = ID tx" by (rule new_coins_id)
      have "utxos_get ?t op = None" using fresh_absent [OF rd(2) p(1) i] by (simp add: rd(9))
      then show "utxos_get (foldl utxos_del ?t (spends tx)) op = None \<and> g0 op = None \<and> op \<notin> set (Created (CUndo s))"
        using ids [of op] i p(1) by (cases "g0 op") (auto simp: ledger_coins.get_dels [OF utxos_ok_wf [OF rd(8)]])
    qed
  qed
  moreover have "undo_restorable C (undo_add (CUndo s) (input_records ?t tx) cs)" for cs
  proof -
    have "coin_storable (the (utxos_get ?t op)) \<and> ValidateAddress C (Address (fst (the (utxos_get ?t op)))) = Inr ()"
      if op: "op \<in> set (spends tx)" for op
    proof -
      obtain c where c: "utxos_get ?t op = Some c" using present op by auto
      note f = utxos_ok_get [OF rd(8) c]
      then have "coin_row op c \<in> set ?t" by (auto simp: find_Some_iff)
      then have "ValidateAddress C (UAddress (coin_row op c)) = Inr ()" using rd(12) by (simp add: addressed_def)
      then show ?thesis using c f(2) by (simp add: coin_row_def)
    qed
    then show ?thesis
      using undo by (auto simp: undo_for_def undo_restorable_def undo_add_def input_records_def)
  qed
  ultimately have undo': "undo_for C g0 (CUndo (connected_state s h n tx fees')) (dbUtxos (CDb (connected_state s h n tx fees')))"
    using con(3) by (simp add: undo_for_def connected_state_def undo_spent_add applied_db_def created_utxos_def
        spent_utxos_def) (simp add: undo_add_def)
  have nid: "OpTxID op = ID tx" if "(op, c) \<in> set (new_coins tx h False)" for op c
    using new_coins_id [of op tx h False] that by force
  have "tx_ready C (connected_state s h n tx fees') st' (txs @ [(h, tx)]) h"
    using con(2) ext val rd(3,4,6) p(3) by (auto simp: tx_ready_def connected_state_def applied_db_def)
  then show "loop_inv C g0 (connected_state s h n tx fees') st' (txs @ [(h, tx)]) h"
    using h0 ext(2) val undo' ids p(3) nid
    by (auto simp: loop_inv_def) (auto simp: connected_state_def undo_add_def)
  show "progress s (connected_state s h n tx fees') h n [tx]"
    using address_rows_id [of tx "input_records ?t tx"]
    by (auto simp: progress_def connected_state_def applied_db_def)
qed

lemma progress_undo:
  assumes "progress s s' h n txs"
  shows "dbUndo (CDb s') = dbUndo (CDb s)"
proof -
  obtain rows where "CDb s' = (CDb s)\<lparr>dbUtxos := dbUtxos (CDb s'),
        dbTransactions := dbTransactions (CDb s) @ map (\<lambda>(p, tx). tx_row_of h p tx) (List.enumerate n txs),
        dbAddresses := dbAddresses (CDb s) @ rows\<rparr>" using assms by (auto simp: progress_def)
  from arg_cong [OF this, of dbUndo] show ?thesis by simp
qed

lemma progress_refl: "progress s s h n []"
  by (simp add: progress_def exI [of _ "[]"])

lemma progress_Cons:
  assumes "progress s s1 h n [tx]" "progress s1 s2 h (Suc n) txs"
  shows "progress s s2 h n (tx # txs)"
proof -
  obtain r1 r2 where r: "CDb s1 = (CDb s)\<lparr>dbUtxos := dbUtxos (CDb s1),
        dbTransactions := dbTransactions (CDb s) @ [tx_row_of h n tx], dbAddresses := dbAddresses (CDb s) @ r1\<rparr>"
    "ATxId ` set r1 \<subseteq> {ID tx}"
    "CDb s2 = (CDb s1)\<lparr>dbUtxos := dbUtxos (CDb s2),
        dbTransactions := dbTransactions (CDb s1) @ map (\<lambda>(p, tx). tx_row_of h p tx) (List.enumerate (Suc n) txs),
        dbAddresses := dbAddresses (CDb s1) @ r2\<rparr>" "ATxId ` set r2 \<subseteq> ID ` set txs"
    using assms by (auto simp: progress_def)
  have "CDb s2 = (CDb s)\<lparr>dbUtxos := dbUtxos (CDb s2),
        dbTransactions := dbTransactions (CDb s) @ map (\<lambda>(p, tx). tx_row_of h p tx) (List.enumerate n (tx # txs)),
        dbAddresses := dbAddresses (CDb s) @ (r1 @ r2)\<rparr>"
    by (subst r(3), subst (1 2 3) r(1)) simp
  then show ?thesis unfolding progress_def using r(2,4) by (intro exI [of _ "r1 @ r2"]) auto
qed

lemma loop_replays:
  assumes "loop_inv C g0 s st tr h"
    and "foldE (replayTransaction C h) (st, CFees s) txs = Inr (st', fees')"
  shows "\<exists>s'. foldE (connectTransaction C h) s (List.enumerate n txs) = Inr s' \<and> CFees s' = fees' \<and>
     loop_inv C g0 s' st' (tr @ map (Pair h) txs) h \<and> progress s s' h n txs"
  using assms
proof (induction txs arbitrary: s st tr n)
  case Nil
  then show ?case by (simp add: progress_refl)
next
  case (Cons tx txs)
  obtain st1 fees1 where r: "replayTransaction C h (st, CFees s) tx = Inr (st1, fees1)"
    "foldE (replayTransaction C h) (st1, fees1) txs = Inr (st', fees')"
    using Cons.prems(2) by (auto simp: res_simps)
  let ?s = "connected_state s h n tx fees1"
  note step = loop_step [OF Cons.prems(1) r(1), of n]
  have f: "CFees ?s = fees1" by (simp add: connected_state_def)
  obtain s' where s': "foldE (connectTransaction C h) ?s (List.enumerate (Suc n) txs) = Inr s'" "CFees s' = fees'"
    "loop_inv C g0 s' st' ((tr @ [(h, tx)]) @ map (Pair h) txs) h" "progress ?s s' h (Suc n) txs"
    using Cons.IH [OF step(2), of "Suc n"] r(2) f by auto
  with step(1) progress_Cons [OF step(3) s'(4)] show ?case by auto
qed

lemma loop_sound:
  assumes "loop_inv C g0 s st tr h" "foldE (connectTransaction C h) s (List.enumerate n txs) = Inr s'"
  shows "\<exists>st' fees'. foldE (replayTransaction C h) (st, CFees s) txs = Inr (st', fees')"
  using assms
proof (induction txs arbitrary: s st tr n)
  case (Cons tx txs)
  obtain s1 where c: "connectTransaction C h s (n, tx) = Inr s1"
    "foldE (connectTransaction C h) s1 (List.enumerate (Suc n) txs) = Inr s'"
    using Cons.prems(2) by (auto simp: res_simps)
  have "tx_ready C s st tr h" using Cons.prems(1) by (simp add: loop_inv_def)
  from connectTransaction_sound [OF this c(1)] obtain st1 fees1 where
    r: "replayTransaction C h (st, CFees s) tx = Inr (st1, fees1)" by blast
  note step = loop_step [OF Cons.prems(1) r, of n]
  have "s1 = connected_state s h n tx fees1" using c(1) step(1) by simp
  with Cons.IH [OF step(2), of "Suc n"] c(2) r show ?case by (simp add: connected_state_def)
qed simp

section \<open>The coinbase\<close>

lemma coinbase_no_inputs:
  assumes "Inputs cb = []"
  shows "spends cb = []" "spent_utxos t cb = t" "input_records t cb = []"
  using assms by (simp_all add: spends_def spent_utxos_def input_records_def)

lemma coinbase_step:
  assumes inv: "loop_inv C g0 s st tr h" and new: "ID cb \<notin> RSeen st"
    and ok: "validateCoinbase C cb m = Inr ()" and m: "unat m \<le> 9223372036854775807"
  shows "\<exists>cs. applyOutputs cb h True (coins_of st) = Inr cs \<and>
      insertOutputs cb h True (CDb s) =
        Inr ((CDb s)\<lparr>dbUtxos := created_utxos (dbUtxos (CDb s)) cb h True\<rparr>, map fst (new_coins cb h True)) \<and>
      insertTransaction cb h 0 [] ((CDb s)\<lparr>dbUtxos := created_utxos (dbUtxos (CDb s)) cb h True\<rparr>) =
        Inr (applied_db (CDb s) h 0 cb) \<and>
      ledger_sim C (applied_db (CDb s) h 0 cb) ((set_coins st cs)\<lparr>RSeen := insert (ID cb) (RSeen st)\<rparr>) \<and>
      undo_for C g0 (undo_add (CUndo s) [] (map fst (new_coins cb h True))) (created_utxos (dbUtxos (CDb s)) cb h True)"
proof -
  have ready: "tx_ready C s st tr h"
    and undo: "undo_for C g0 (CUndo s) (dbUtxos (CDb s))"
    and ids: "\<And>op. g0 op \<noteq> None \<or> op \<in> set (Created (CUndo s)) \<Longrightarrow> OpTxID op \<in> RSeen st"
    using inv by (auto simp: loop_inv_def)
  note rd = tx_readyD [OF ready]
  let ?d = "CDb s" and ?t = "dbUtxos (CDb s)"
  have cb: "Coinbase cb" "Inputs cb = []" "length (Outputs cb) \<le> 1" "outputs_ok C (Outputs cb)"
    "outputs_value (Outputs cb) = unat m"
    using ok by (simp_all add: validateCoinbase_eq_Inr)
  have store: "outputs_storable (Outputs cb)"
    by (rule outputs_storable_value [OF cb(4)]) (use cb m in auto)
  have absent: "\<And>op. OpTxID op = ID cb \<Longrightarrow> coins_get (coins_of st) op = None"
    using fresh_absent [OF rd(2) new] by simp
  have tabs: "\<forall>op \<in> fst ` set (new_coins cb h True). utxos_get ?t op = None"
    using absent new_coins_id [of _ cb h True] by (simp add: rd(9))
  note cr = create_outputs [OF rd(8) store rd(6) tabs]
  have dist: "distinct (map fst (new_coins cb h True))"
    using store by (intro distinct_new_coins) (simp add: outputs_storable_def)
  obtain cs where cs: "applyOutputs cb h True (coins_of st) = Inr cs"
    using applyOutputs_eq_Inr [OF rd(7)] dist tabs unfolding rd(9) by blast
  have get: "utxos_get (created_utxos ?t cb h True) = coins_get cs"
    by (simp only: cr(3) applyOutputs_effect(3) [OF rd(7) cs] rd(9))
  have ins: "insertTransaction cb h 0 [] (?d\<lparr>dbUtxos := created_utxos ?t cb h True\<rparr>) = Inr (applied_db ?d h 0 cb)"
    using insertTransaction_succeeds [of "?d\<lparr>dbUtxos := created_utxos ?t cb h True\<rparr>" h cb 0 "[]"]
    using rd(4,10,11) new store cb by (simp add: applied_db_def coinbase_no_inputs)
  have "addressed C (created_utxos ?t cb h True)"
    by (intro addressed_created rd(12) cb(4))
  then have sim: "ledger_sim C (applied_db ?d h 0 cb) ((set_coins st cs)\<lparr>RSeen := insert (ID cb) (RSeen st)\<rparr>)"
    using cr(2) get rd(10,11) cb by (auto simp: ledger_sim_def applied_db_def coinbase_no_inputs tx_row_of_def
        address_rows_def output_address_def)
  have rec: "ledger_coins.recorded g0 (undo_spent (CUndo s)) (Created (CUndo s)) ?t"
    using undo by (simp add: undo_for_def)
  have "ledger_coins.recorded g0 (undo_spent (CUndo s)) (Created (CUndo s) @ map fst (new_coins cb h True))
      (created_utxos ?t cb h True)"
    unfolding created_utxos_def
  proof (rule ledger_coins.recorded_creates [OF rec dist])
    show "\<forall>op \<in> fst ` set (new_coins cb h True). utxos_get ?t op = None \<and> g0 op = None \<and> op \<notin> set (Created (CUndo s))"
    proof
      fix op assume op: "op \<in> fst ` set (new_coins cb h True)"
      then have "OpTxID op \<notin> RSeen st" using new_coins_id [OF op] new by simp
      then show "utxos_get ?t op = None \<and> g0 op = None \<and> op \<notin> set (Created (CUndo s))"
        using ids [of op] tabs op by (cases "g0 op") auto
    qed
  qed
  then have "undo_for C g0 (undo_add (CUndo s) [] (map fst (new_coins cb h True))) (created_utxos ?t cb h True)"
    using undo by (simp add: undo_for_def undo_add_def undo_spent_def undo_restorable_def)
  with cs cr(1) ins sim show ?thesis by blast
qed

section \<open>The whole block\<close>

definition replayBody :: "crypto \<Rightarrow> replay_state \<Rightarrow> block \<Rightarrow> replay_state res" where
  "replayBody C st b =
     (if Transactions b = [] \<or> \<not> Coinbase (hd (Transactions b))
      then Inl (Errorf ''first transaction must be coinbase'')
      else attempt (foldE (replayTransaction C (Height b)) (st, 0) (tl (Transactions b))) (\<lambda>(st, fees).
        let coinbase = hd (Transactions b) in
        if ID coinbase \<in> RSeen st then Inl (Errorf ''duplicate coinbase transaction'')
        else attempt (safeAdd (Subsidy (Height b)) fees) (\<lambda>maximum.
             attempt (validateCoinbase C coinbase maximum) (\<lambda>_.
             attempt (applyOutputs coinbase (Height b) True (coins_of st)) (\<lambda>cs.
             Inr ((set_coins st cs)\<lparr>RSeen := insert (ID coinbase) (RSeen st)\<rparr>))))))"

lemma replayBlock_snoc:
  "blocks \<noteq> [] \<Longrightarrow> replayBlock C now (blocks @ [b]) st (length blocks) =
     attempt (validateBlockHeaderAtTime C b (last blocks) blocks (now (length blocks))) (\<lambda>_. replayBody C st b)"
  by (simp add: replayBlock_def replayBody_def Let_def nth_append last_conv_nth)

definition block_tx_rows :: "block \<Rightarrow> tx_row list" where
  "block_tx_rows b = map (\<lambda>(p, tx). tx_row_of (Height b) p tx) (List.enumerate 1 (tl (Transactions b))) @
     [tx_row_of (Height b) 0 (hd (Transactions b))]"

definition undo_row_of :: "block \<Rightarrow> UndoRecord \<Rightarrow> undo_row" where
  "undo_row_of b u = \<lparr>DHeight = int64_of (Height b), DHash = Hash b, DData = u\<rparr>"

definition connected_db :: "db \<Rightarrow> block \<Rightarrow> nat \<Rightarrow> utxo_row list \<Rightarrow> address_row list \<Rightarrow> UndoRecord \<Rightarrow> db" where
  "connected_db d b work t rows u =
     d\<lparr>dbBlocks := dbBlocks d @ [block_row_of b work], dbTransactions := dbTransactions d @ block_tx_rows b,
       dbAddresses := dbAddresses d @ rows, dbUtxos := t, dbUndo := dbUndo d @ [undo_row_of b u]\<rparr>"

text \<open>What connecting the block needs beyond its validity: its height and hash are not stored yet.\<close>

definition block_fresh :: "db \<Rightarrow> block \<Rightarrow> bool" where
  "block_fresh d b \<longleftrightarrow>
     (\<forall>r \<in> set (dbBlocks d). BHeight r \<noteq> int64_of (Height b) \<and> BHash r \<noteq> Hash b) \<and>
     (\<forall>r \<in> set (dbUndo d). DHeight r \<noteq> int64_of (Height b) \<and> DHash r \<noteq> Hash b)"

definition block_ready :: "crypto \<Rightarrow> db \<Rightarrow> replay_state \<Rightarrow> trace \<Rightarrow> block \<Rightarrow> bool" where
  "block_ready C d st tr b \<longleftrightarrow>
     ledger_sim C d st \<and> chain_inv st tr \<and> state_value st \<le> 200000000000000 \<and>
     Height b \<noteq> 0 \<and> unat (Height b) \<le> 9223372036854775807"

definition start_state :: "db \<Rightarrow> connect_state" where
  "start_state d = \<lparr>CDb = d, CUndo = \<lparr>Spent = [], Created = []\<rparr>, CSeen = {}, CFees = 0\<rparr>"

lemma start_loop_inv:
  assumes ready: "block_ready C d st tr b"
  shows "loop_inv C (utxos_get (dbUtxos d)) (start_state (d\<lparr>dbBlocks := dbBlocks d @ [block_row_of b w]\<rparr>)) st tr (Height b)"
proof -
  have r: "ledger_sim C d st" "chain_inv st tr" "state_value st \<le> 200000000000000" "Height b \<noteq> 0"
    "unat (Height b) \<le> 9223372036854775807"
    using ready by (simp_all add: block_ready_def)
  have "OpTxID op \<in> RSeen st" if g: "utxos_get (dbUtxos d) op = Some c" for op c
  proof -
    have "coins_get (coins_of st) op = Some c" using g r(1) by (simp add: ledger_sim_def)
    moreover obtain out og where "c = (out, og)" by (cases c)
    moreover have "origins_ok (coins_of st) tr" "RSeen st = ID ` snd ` set tr"
      using r(2) by (simp_all add: chain_inv_def)
    ultimately show ?thesis unfolding origins_ok_def by force
  qed
  then show ?thesis
    using r ledger_coins.recorded_refl [of "dbUtxos d"]
    by (auto simp: loop_inv_def tx_ready_def ledger_sim_def start_state_def undo_for_def undo_restorable_def
        undo_spent_def utxos_ok_wf block_row_of_def)
qed

lemma reward_bound:
  assumes "safeAdd (Subsidy h) fees = Inr m" "unat fees \<le> 200000000000000"
  shows "unat m \<le> 9223372036854775807"
proof -
  have "unat (Subsidy h) \<le> 200000000000000" by (simp add: unat_Subsidy)
  then show ?thesis using safeAdd_unat [OF assms(1)] assms(2) by linarith
qed

lemma connectBody_replays:
  assumes ready: "block_ready C d st tr b" and fresh: "block_fresh d b"
    and rep: "replayBody C st b = Inr st'"
  shows "\<exists>t rows u. connectBody C d w b = Inr (connected_db d b (w + blockWork (Difficulty b)) t rows u) \<and>
     ledger_sim C (connected_db d b (w + blockWork (Difficulty b)) t rows u) st' \<and>
     undo_for C (utxos_get (dbUtxos d)) u t \<and> ATxId ` set rows \<subseteq> ID ` set (Transactions b)"
proof -
  let ?h = "Height b" and ?cb = "hd (Transactions b)" and ?w = "w + blockWork (Difficulty b)"
  let ?d = "d\<lparr>dbBlocks := dbBlocks d @ [block_row_of b ?w]\<rparr>"
  note inv0 = start_loop_inv [OF ready, of ?w]
  obtain st1 fees m cs where r: "Transactions b \<noteq> []" "Coinbase ?cb"
    "foldE (replayTransaction C ?h) (st, 0) (tl (Transactions b)) = Inr (st1, fees)"
    "ID ?cb \<notin> RSeen st1" "safeAdd (Subsidy ?h) fees = Inr m" "validateCoinbase C ?cb m = Inr ()"
    "applyOutputs ?cb ?h True (coins_of st1) = Inr cs"
    "st' = (set_coins st1 cs)\<lparr>RSeen := insert (ID ?cb) (RSeen st1)\<rparr>"
    using rep by (auto simp: replayBody_def Let_def res_simps split: if_splits)
  have f0: "CFees (start_state ?d) = 0" "CDb (start_state ?d) = ?d" by (simp_all add: start_state_def)
  obtain s1 where s1: "foldE (connectTransaction C ?h) (start_state ?d) (List.enumerate 1 (tl (Transactions b))) = Inr s1"
    "CFees s1 = fees" "loop_inv C (utxos_get (dbUtxos d)) s1 st1 (tr @ map (Pair ?h) (tl (Transactions b))) ?h"
    "progress (start_state ?d) s1 ?h 1 (tl (Transactions b))"
    using loop_replays [OF inv0, of "tl (Transactions b)" st1 fees 1] r(3) f0 by auto
  obtain rows where rows: "CDb s1 = ?d\<lparr>dbUtxos := dbUtxos (CDb s1),
        dbTransactions := dbTransactions d @ map (\<lambda>(p, tx). tx_row_of ?h p tx) (List.enumerate 1 (tl (Transactions b))),
        dbAddresses := dbAddresses d @ rows\<rparr>" "ATxId ` set rows \<subseteq> ID ` set (tl (Transactions b))"
    using s1(4) by (auto simp: progress_def f0)
  have h0: "?h \<noteq> 0" and inv: "chain_inv st tr" and sv: "state_value st \<le> 200000000000000"
    using ready by (simp_all add: block_ready_def)
  have fees: "unat fees \<le> 200000000000000"
    using replayTransactions_extend [OF inv h0 r(3)] sv by simp
  obtain cs' where c: "applyOutputs ?cb ?h True (coins_of st1) = Inr cs'"
    "insertOutputs ?cb ?h True (CDb s1) =
        Inr ((CDb s1)\<lparr>dbUtxos := created_utxos (dbUtxos (CDb s1)) ?cb ?h True\<rparr>, map fst (new_coins ?cb ?h True))"
    "insertTransaction ?cb ?h 0 [] ((CDb s1)\<lparr>dbUtxos := created_utxos (dbUtxos (CDb s1)) ?cb ?h True\<rparr>) =
        Inr (applied_db (CDb s1) ?h 0 ?cb)"
    "ledger_sim C (applied_db (CDb s1) ?h 0 ?cb) ((set_coins st1 cs')\<lparr>RSeen := insert (ID ?cb) (RSeen st1)\<rparr>)"
    "undo_for C (utxos_get (dbUtxos d)) (undo_add (CUndo s1) [] (map fst (new_coins ?cb ?h True))) (created_utxos (dbUtxos (CDb s1)) ?cb ?h True)"
    using coinbase_step [OF s1(3) r(4,6) reward_bound [OF r(5) fees]] by blast
  have cs: "cs' = cs" using c(1) r(7) by simp
  have ins: "Inputs ?cb = []" using r(6) by (simp add: validateCoinbase_eq_Inr)
  let ?t = "created_utxos (dbUtxos (CDb s1)) ?cb ?h True"
  let ?rows = "rows @ address_rows ?cb []"
  let ?u = "undo_add (CUndo s1) [] (map fst (new_coins ?cb ?h True))"
  have app: "applied_db (CDb s1) ?h 0 ?cb = (connected_db d b ?w ?t ?rows ?u)\<lparr>dbUndo := dbUndo d\<rparr>"
    unfolding applied_db_def by (subst (1 2 3) rows(1))
      (simp add: connected_db_def block_tx_rows_def coinbase_no_inputs [OF ins] r(2))
  have seen: "CSeen s1 \<subseteq> RSeen st1" "TId ` set (dbTransactions (CDb s1)) = RSeen st1"
    using s1(3) by (auto simp: loop_inv_def tx_ready_def ledger_sim_def)
  have new: "ensureNewTransactionID (CDb s1) (ID ?cb) (CSeen s1) = Inr ()"
    using r(4) seen by (auto simp: ensureNew_ok)
  have "insertBlockRow (block_row_of b ?w) d = Inr ?d"
    using fresh by (auto simp: insertBlockRow_def sql_require_def sql_insert_def block_row_of_def block_fresh_def)
  moreover have "insertUndo (undo_row_of b ?u) (applied_db (CDb s1) ?h 0 ?cb) = Inr (connected_db d b ?w ?t ?rows ?u)"
    using fresh unfolding app
    by (auto simp: insertUndo_def sql_require_def sql_insert_def connected_db_def undo_row_of_def block_fresh_def block_row_of_def)
  ultimately have "connectBody C d w b = Inr (connected_db d b ?w ?t ?rows ?u)"
    using s1(1) r(5,6) c(2,3) new
    by (simp add: connectBody_def Let_def s1(2) checkedAdd_safeAdd [THEN iffD2] undo_row_of_def undo_add_def flip: start_state_def)
  moreover have "ledger_sim C (connected_db d b ?w ?t ?rows ?u) st'"
    using c(4) unfolding app cs r(8) [symmetric] by (simp add: ledger_sim_def)
  moreover have "ATxId ` set ?rows \<subseteq> ID ` set (Transactions b)"
    using rows(2) address_rows_id [of ?cb "[]"] r(1) by (cases "Transactions b") auto
  ultimately show ?thesis using c(5) by blast
qed

lemma insertAddress_undo: "insertAddress r d = Inr d' \<Longrightarrow> dbUndo d' = dbUndo d"
  by (auto simp: insertAddress_def res_simps)

lemma insertTransaction_undo:
  assumes "insertTransaction tx h p inputs d = Inr d'"
  shows "dbUndo d' = dbUndo d"
proof -
  obtain rows d1 where r: "foldE (indexInput tx) (d\<lparr>dbTransactions := rows\<rparr>) (List.enumerate 0 inputs) = Inr d1"
    "foldE (indexOutput tx) d1 (List.enumerate 0 (Outputs tx)) = Inr d'"
    using assms by (auto simp: insertTransaction_def res_simps)
  have "dbUndo d1 = dbUndo d"
    by (rule foldE_invariant [OF r(1)]) (auto simp: indexInput_def dest: insertAddress_undo)
  moreover have "dbUndo d' = dbUndo d1"
    by (rule foldE_invariant [OF r(2)]) (auto simp: indexOutput_def res_simps dest!: insertAddress_undo)
  ultimately show ?thesis by simp
qed

lemma connectBody_sound:
  assumes ready: "block_ready C d st tr b" and ne: "Transactions b \<noteq> []" "Coinbase (hd (Transactions b))"
    and con: "connectBody C d w b = Inr d'"
  shows "\<exists>st'. replayBody C st b = Inr st'" and "block_fresh d b"
proof -
  let ?h = "Height b" and ?cb = "hd (Transactions b)" and ?w = "w + blockWork (Difficulty b)"
  let ?d = "d\<lparr>dbBlocks := dbBlocks d @ [block_row_of b ?w]\<rparr>"
  note inv0 = start_loop_inv [OF ready, of ?w]
  obtain s1 m dc created dt u where p: "insertBlockRow (block_row_of b ?w) d = Inr ?d"
    "foldE (connectTransaction C ?h) (start_state ?d) (List.enumerate 1 (tl (Transactions b))) = Inr s1"
    "ensureNewTransactionID (CDb s1) (ID ?cb) (CSeen s1) = Inr ()" "checkedAdd (Subsidy ?h) (CFees s1) = Inr m"
    "validateCoinbase C ?cb m = Inr ()" "insertOutputs ?cb ?h True (CDb s1) = Inr (dc, created)"
    "insertTransaction ?cb ?h 0 [] dc = Inr dt" "insertUndo (undo_row_of b u) dt = Inr d'"
    using con by (auto simp: connectBody_def Let_def res_simps insertBlockRow_def undo_row_of_def simp flip: start_state_def)
  obtain st1 fees where rep: "foldE (replayTransaction C ?h) (st, 0) (tl (Transactions b)) = Inr (st1, fees)"
    using loop_sound [OF inv0 p(2)] by (auto simp: start_state_def)
  have f0: "CFees (start_state ?d) = 0" "CDb (start_state ?d) = ?d" by (simp_all add: start_state_def)
  have s1: "CFees s1 = fees" "loop_inv C (utxos_get (dbUtxos d)) s1 st1 (tr @ map (Pair ?h) (tl (Transactions b))) ?h"
    "progress (start_state ?d) s1 ?h 1 (tl (Transactions b))"
    using loop_replays [OF inv0, of "tl (Transactions b)" st1 fees 1] rep p(2) f0 by auto
  have h0: "?h \<noteq> 0" and inv: "chain_inv st tr" and sv: "state_value st \<le> 200000000000000"
    using ready by (simp_all add: block_ready_def)
  have fees: "unat fees \<le> 200000000000000"
    using replayTransactions_extend [OF inv h0 rep] sv by simp
  have "TId ` set (dbTransactions (CDb s1)) = RSeen st1"
    using s1(2) by (auto simp: loop_inv_def tx_ready_def ledger_sim_def)
  then have new: "ID ?cb \<notin> RSeen st1" using p(3) by (simp add: ensureNew_ok)
  have m: "safeAdd (Subsidy ?h) fees = Inr m" using p(4) s1(1) by (simp add: checkedAdd_safeAdd)
  from coinbase_step [OF s1(2) new p(5) reward_bound [OF m fees]] obtain cs where
    "applyOutputs ?cb ?h True (coins_of st1) = Inr cs" by blast
  with ne rep new m p(5) show "\<exists>st'. replayBody C st b = Inr st'" by (simp add: replayBody_def Let_def)
  have "dbUndo (CDb s1) = dbUndo d"
    using progress_undo [OF s1(3)] by (simp add: f0)
  then have "dbUndo dt = dbUndo d"
    using p(6,7) by (auto simp: insertOutputs_ok insertTransaction_undo)
  then show "block_fresh d b"
    using p(1,8) by (auto simp: insertBlockRow_def insertUndo_def res_simps block_fresh_def block_row_of_def undo_row_of_def)
qed

end
