(* ===== verification/Mempool.thy ===== *)
theory Mempool
  imports Connect
begin

text \<open>
  \<open>internal/ledger/mempool.go\<close>: the pending transactions, their budgets and relay fee, the outputs an
  address can spend, its balances, and the rebuilding of the mempool after the chain changed.
\<close>

section \<open>Aggregates and collations\<close>

text \<open>\<open>SUM\<close> of an integer column: null of no rows, and an error when the sum leaves the 64-bit range.\<close>

definition sql_sum :: "int list \<Rightarrow> int option res" where
  "sql_sum xs =
     (if xs = [] then Inr None
      else attempt (foldE (\<lambda>total x.
        if in_int64 (total + x) then Inr (total + x) else Inl (SqlConstraint ''integer overflow'')) 0 xs)
        (\<lambda>total. Inr (Some total)))"

definition nocase :: "string \<Rightarrow> string \<Rightarrow> bool" where
  "nocase a b \<longleftrightarrow> map to_lower a = map to_lower b"

section \<open>Budgets and the relay fee\<close>

definition MaxMempoolBytes :: int where "MaxMempoolBytes = 33554432"
definition MaxMempoolInputs :: int where "MaxMempoolInputs = 20000"
definition MinimumRelayFeePerKibiByte :: u64 where "MinimumRelayFeePerKibiByte = 1000"
definition mempoolRelayFeeKibiByteUnits :: u64 where "mempoolRelayFeeKibiByteUnits = 1024"

record mempoolResourceUsage =
  UsageCount :: int
  UsageBytes :: int
  UsageInputs :: int

record pendingMempoolTransaction =
  PendingTransaction :: transaction
  PendingFirstSeen :: int

definition isMempoolRejection :: "go_error \<Rightarrow> bool" where
  "isMempoolRejection e = (case e of MempoolRejection _ \<Rightarrow> True | _ \<Rightarrow> False)"

definition rejectMempool :: "'a res \<Rightarrow> 'a res" where
  "rejectMempool r = (case r of Inl e \<Rightarrow> Inl (MempoolRejection e) | Inr x \<Rightarrow> Inr x)"

definition readMempoolResourceUsage :: "db \<Rightarrow> mempoolResourceUsage res" where
  "readMempoolResourceUsage d =
     attempt (sql_sum (map MEncodedSize (dbMempool d))) (\<lambda>total.
     let usage = \<lparr>UsageCount = int (length (dbMempool d)),
                  UsageBytes = (case total of None \<Rightarrow> 0 | Some n \<Rightarrow> n),
                  UsageInputs = int (length (dbMempoolInputs d))\<rparr>
     in if UsageCount usage < 0 \<or> UsageBytes usage < 0 \<or> UsageInputs usage < 0
        then Inl (Errorf ''mempool resource accounting contains invalid values'')
        else Inr usage)"

definition validateMempoolResourceBudget :: "int \<Rightarrow> int \<Rightarrow> int \<Rightarrow> int \<Rightarrow> int \<Rightarrow> unit res" where
  "validateMempoolResourceBudget cnt totalBytes totalInputs encodedBytes inputs =
     (if cnt < 0 \<or> totalBytes < 0 \<or> totalInputs < 0 \<or> encodedBytes \<le> 0 \<or> inputs \<le> 0
      then Inl (Errorf ''mempool resource accounting contains invalid values'')
      else if cnt \<ge> int MaxPendingTransactions then Inl (Errorf ''pending transaction limit reached'')
      else if encodedBytes > MaxMempoolBytes - totalBytes then Inl (Errorf ''pending transaction byte budget reached'')
      else if inputs > MaxMempoolInputs - totalInputs then Inl (Errorf ''pending transaction input budget reached'')
      else Inr ())"

definition minimumRelayFee :: "int \<Rightarrow> u64" where
  "minimumRelayFee encodedBytes =
     (if encodedBytes \<le> 0 then 0
      else let kibibytes = (word_of_int encodedBytes + mempoolRelayFeeKibiByteUnits - 1) div mempoolRelayFeeKibiByteUnits
        in kibibytes * MinimumRelayFeePerKibiByte)"

section \<open>Admission\<close>

definition mempool_input_at :: "outpoint \<Rightarrow> mempool_input_row \<Rightarrow> bool" where
  "mempool_input_at op r \<longleftrightarrow> IInputTxId r = OpTxID op \<and> IInputIndex r = uint (OpIndex op)"

definition mempool_output_at :: "outpoint \<Rightarrow> mempool_output_row \<Rightarrow> bool" where
  "mempool_output_at op r \<longleftrightarrow> OTxId r = OpTxID op \<and> OIndex r = uint (OpIndex op)"

definition lookupMempoolSpendable :: "db \<Rightarrow> outpoint \<Rightarrow> u64 \<Rightarrow> tx_output res" where
  "lookupMempoolSpendable d op spendingHeight =
     (if \<exists>r \<in> set (dbMempoolInputs d). mempool_input_at op r
      then Inl (MempoolRejection (Errorf ''input is already spent by a pending transaction''))
      else case find (utxo_at op) (dbUtxos d) of
        Some r \<Rightarrow>
          if UAmount r \<le> 0 \<or> UCreatedHeight r < 0 \<or> (UCoinbase r \<noteq> 0 \<and> UCoinbase r \<noteq> 1)
          then Inl (Errorf ''stored transaction output has invalid amount'')
          else if UCoinbase r = 1 \<and> \<not> IsCoinbaseMature (word_of_int (UCreatedHeight r)) spendingHeight
          then Inl (MempoolRejection (Errorf ''coinbase input is immature''))
          else Inr \<lparr>Amount = word_of_int (UAmount r), Address = UAddress r\<rparr>
      | None \<Rightarrow>
        (case find (mempool_output_at op) (dbMempoolOutputs d) of
           None \<Rightarrow> Inl (MempoolRejection (Errorf ''input is missing or already spent''))
         | Some r \<Rightarrow>
           if OAmount r \<le> 0 then Inl (Errorf ''stored transaction output has invalid amount'')
           else Inr \<lparr>Amount = word_of_int (OAmount r), Address = OAddress r\<rparr>))"

definition insertMempool :: "mempool_row \<Rightarrow> db \<Rightarrow> db res" where
  "insertMempool r d =
     (if dbMempoolSeq d \<ge> MaxInt64 then Inl (SqlConstraint ''mempool: sequence'')
      else attempt (sql_insert ''mempool'' (\<lambda>a b. MTxId a = MTxId b)
             (r\<lparr>MSequence := dbMempoolSeq d + 1\<rparr>) (dbMempool d)) (\<lambda>rows.
           Inr (d\<lparr>dbMempool := rows, dbMempoolSeq := dbMempoolSeq d + 1\<rparr>)))"

definition insertMempoolInput :: "mempool_input_row \<Rightarrow> db \<Rightarrow> db res" where
  "insertMempoolInput r d =
     attempt (sql_require ''mempool_inputs: transaction'' (\<exists>m \<in> set (dbMempool d). MTxId m = ITxId r)) (\<lambda>_.
     attempt (sql_insert ''mempool_inputs''
       (\<lambda>a b. IInputTxId a = IInputTxId b \<and> IInputIndex a = IInputIndex b) r (dbMempoolInputs d)) (\<lambda>rows.
     Inr (d\<lparr>dbMempoolInputs := rows\<rparr>)))"

definition insertMempoolOutput :: "mempool_output_row \<Rightarrow> db \<Rightarrow> db res" where
  "insertMempoolOutput r d =
     attempt (sql_require ''mempool_outputs: transaction'' (\<exists>m \<in> set (dbMempool d). MTxId m = OTxId r)) (\<lambda>_.
     attempt (sql_insert ''mempool_outputs'' (\<lambda>a b. OTxId a = OTxId b \<and> OIndex a = OIndex b) r (dbMempoolOutputs d)) (\<lambda>rows.
     Inr (d\<lparr>dbMempoolOutputs := rows\<rparr>)))"

text \<open>The writes: one row for the transaction, one for each input, one for each output.\<close>

definition storeMempoolTransaction :: "transaction \<Rightarrow> int \<Rightarrow> u64 \<Rightarrow> db \<Rightarrow> db res" where
  "storeMempoolTransaction tx firstSeen fee d =
     attempt (insertMempool \<lparr>MSequence = 0, MTxId = ID tx, MFirstSeen = firstSeen, MFee = int64_of fee,
       MEncodedSize = int (encodedSize tx), MData = tx\<rparr> d) (\<lambda>d.
     attempt (foldE (\<lambda>d input. insertMempoolInput
       \<lparr>ITxId = ID tx, IInputTxId = InTxID input, IInputIndex = uint (OutputIndex input)\<rparr> d) d (Inputs tx)) (\<lambda>d.
     foldE (\<lambda>d (index, output). insertMempoolOutput
       \<lparr>OTxId = ID tx, OIndex = int index, OAmount = int64_of (Amount output), OAddress = Address output\<rparr> d) d
       (List.enumerate 0 (Outputs tx))))"

text \<open>The pointer to the usage is an optional argument; the updated usage is returned.\<close>

definition addMempoolTransactionWithUsage ::
    "crypto \<Rightarrow> db \<Rightarrow> transaction \<Rightarrow> int \<Rightarrow> u64 \<Rightarrow> mempoolResourceUsage option \<Rightarrow> (db \<times> mempoolResourceUsage) res" where
  "addMempoolTransactionWithUsage C d tx firstSeen spendingHeight given =
     (if Coinbase tx then Inl (MempoolRejection (Errorf ''coinbase transaction cannot enter mempool''))
      else if (\<exists>r \<in> set (dbTransactions d). TId r = ID tx) \<or> (\<exists>r \<in> set (dbMempool d). MTxId r = ID tx)
      then Inl (MempoolRejection ErrTransactionAlreadyKnown)
      else attempt (case given of None \<Rightarrow> readMempoolResourceUsage d | Some usage \<Rightarrow> Inr usage) (\<lambda>usage.
        let encodedBytes = encodedSize tx in
        attempt (rejectMempool (validateMempoolResourceBudget (UsageCount usage) (UsageBytes usage)
          (UsageInputs usage) (int encodedBytes) (int (length (Inputs tx))))) (\<lambda>_.
        attempt (foldE (\<lambda>utxo input.
          attempt (lookupMempoolSpendable d (input_outpoint input) spendingHeight) (\<lambda>output.
          Inr (AList.update (input_outpoint input) output utxo))) [] (Inputs tx)) (\<lambda>utxo.
        attempt (rejectMempool (validateRegularTransaction C tx utxo)) (\<lambda>fee.
        if fee < minimumRelayFee (int encodedBytes)
        then Inl (MempoolRejection (Errorf ''transaction fee is below relay minimum''))
        else if uint fee > MaxInt64
        then Inl (MempoolRejection (Errorf ''transaction fee exceeds storage range''))
        else if \<exists>output \<in> set (Outputs tx). uint (Amount output) > MaxInt64
        then Inl (MempoolRejection (Errorf ''transaction output exceeds storage range''))
        else attempt (storeMempoolTransaction tx firstSeen fee d) (\<lambda>d.
             Inr (d, \<lparr>UsageCount = UsageCount usage + 1, UsageBytes = UsageBytes usage + int encodedBytes,
                      UsageInputs = UsageInputs usage + int (length (Inputs tx))\<rparr>)))))))"

definition addMempoolTransaction :: "crypto \<Rightarrow> db \<Rightarrow> transaction \<Rightarrow> int \<Rightarrow> u64 \<Rightarrow> db res" where
  "addMempoolTransaction C d tx firstSeen spendingHeight =
     attempt (addMempoolTransactionWithUsage C d tx firstSeen spendingHeight None) (\<lambda>(d, _). Inr d)"

text \<open>The height after the tip, or an error where it cannot be stored.\<close>

definition nextHeight :: "tip \<Rightarrow> u64 res" where
  "nextHeight t =
     (if uint (TipHeight t) \<ge> MaxInt64 then Inl (Errorf ''chain height is exhausted'') else Inr (TipHeight t + 1))"

definition AddTransaction :: "crypto \<Rightarrow> int \<Rightarrow> db \<Rightarrow> transaction \<Rightarrow> db res" where
  "AddTransaction C now d tx =
     attempt (tipFromQuery d) (\<lambda>tip.
     attempt (nextHeight tip) (\<lambda>height. addMempoolTransaction C d tx now height))"

section \<open>Rebuilding\<close>

text \<open>\<open>DELETE FROM mempool\<close>, with the rows that reference it.\<close>

definition clearMempool :: "db \<Rightarrow> db" where
  "clearMempool d =
     d\<lparr>dbMempool := [],
       dbMempoolInputs := filter (\<lambda>r. ITxId r \<notin> MTxId ` set (dbMempool d)) (dbMempoolInputs d),
       dbMempoolOutputs := filter (\<lambda>r. OTxId r \<notin> MTxId ` set (dbMempool d)) (dbMempoolOutputs d)\<rparr>"

definition repopulateStep ::
    "crypto \<Rightarrow> u64 \<Rightarrow> db \<times> mempoolResourceUsage \<Rightarrow> pendingMempoolTransaction \<Rightarrow> (db \<times> mempoolResourceUsage) res" where
  "repopulateStep C spendingHeight st item =
     (case addMempoolTransactionWithUsage C (fst st) (PendingTransaction item) (PendingFirstSeen item)
         spendingHeight (Some (snd st)) of
        Inr st' \<Rightarrow> Inr st'
      | Inl e \<Rightarrow> if isMempoolRejection e then Inr st else Inl e)"

definition repopulateMempool :: "crypto \<Rightarrow> db \<Rightarrow> pendingMempoolTransaction list \<Rightarrow> u64 \<Rightarrow> db res" where
  "repopulateMempool C d pending spendingHeight =
     attempt (readMempoolResourceUsage d) (\<lambda>usage.
     attempt (foldE (repopulateStep C spendingHeight) (d, usage) pending) (\<lambda>(d, _). Inr d))"

definition rebuildMempool :: "crypto \<Rightarrow> int \<Rightarrow> db \<Rightarrow> transaction list \<Rightarrow> db res" where
  "rebuildMempool C now d extra =
     (let pending = map (\<lambda>r. \<lparr>PendingTransaction = MData r, PendingFirstSeen = MFirstSeen r\<rparr>)
                      (sql_order MSequence (dbMempool d)) in
      attempt (tipFromQuery d) (\<lambda>tip.
      attempt (nextHeight tip) (\<lambda>spendingHeight.
      repopulateMempool C (clearMempool d)
        (map (\<lambda>tx. \<lparr>PendingTransaction = tx, PendingFirstSeen = now\<rparr>) extra @ pending) spendingHeight)))"

text \<open>\<open>ConnectBlock\<close> reads the clock twice: to validate the header and to date what it rebuilds.\<close>

definition ConnectBlock :: "crypto \<Rightarrow> int \<Rightarrow> int \<Rightarrow> db \<Rightarrow> block \<Rightarrow> db res" where
  "ConnectBlock C now now' d b =
     attempt (connectBlockAtTime C d b now) (\<lambda>d. rebuildMempool C now' d [])"

section \<open>What an address can spend\<close>

definition pending_spent :: "db \<Rightarrow> string \<Rightarrow> int \<Rightarrow> bool" where
  "pending_spent d i index \<longleftrightarrow> (\<exists>r \<in> set (dbMempoolInputs d). IInputTxId r = i \<and> IInputIndex r = index)"

text \<open>The rows of the union query: \<open>(tx_id, output_index, amount, address)\<close>.\<close>

definition spendable_rows :: "db \<Rightarrow> string \<Rightarrow> u64 \<Rightarrow> (string \<times> int \<times> int \<times> string) list" where
  "spendable_rows d address spendingHeight =
     (let enforceMaturity = spendingHeight \<ge> CoinbaseMaturityActivationHeight;
          matureThrough = (if enforceMaturity \<and> spendingHeight \<ge> CoinbaseMaturity
                           then spendingHeight - CoinbaseMaturity else 0)
      in map (\<lambda>u. (UTxId u, UIndex u, UAmount u, UAddress u))
           (filter (\<lambda>u. nocase (UAddress u) address \<and> UCreatedHeight u \<le> int64_of spendingHeight \<and>
              (\<not> enforceMaturity \<or> UCoinbase u = 0 \<or> UCreatedHeight u \<le> int64_of matureThrough) \<and>
              \<not> pending_spent d (UTxId u) (UIndex u)) (dbUtxos d)) @
         map (\<lambda>r. (OTxId r, OIndex r, OAmount r, OAddress r))
           (filter (\<lambda>r. nocase (OAddress r) address \<and> \<not> pending_spent d (OTxId r) (OIndex r))
              (dbMempoolOutputs d)))"

definition scanSpendable :: "utxo \<Rightarrow> string \<times> int \<times> int \<times> string \<Rightarrow> utxo res" where
  "scanSpendable utxo row =
     (case row of (i, index, amount, address) \<Rightarrow>
      if index < 0 \<or> index > 4294967295 \<or> amount \<le> 0
      then Inl (Errorf ''stored spendable output contains invalid values'')
      else Inr (AList.update (Outpoint i (word_of_int index)) \<lparr>Amount = word_of_int amount, Address = address\<rparr> utxo))"

definition spendableUTXO :: "db \<Rightarrow> string \<Rightarrow> u64 \<Rightarrow> utxo res" where
  "spendableUTXO d address spendingHeight = foldE scanSpendable [] (spendable_rows d address spendingHeight)"

definition LedgerSpendableUTXO :: "crypto \<Rightarrow> db \<Rightarrow> string \<Rightarrow> utxo res" where
  "LedgerSpendableUTXO C d address =
     attempt (ValidateAddress C address) (\<lambda>_.
     attempt (tipFromQuery d) (\<lambda>tip.
     attempt (nextHeight tip) (\<lambda>height. spendableUTXO d address height)))"

definition confirmedBalance :: "db \<Rightarrow> string \<Rightarrow> u64 res" where
  "confirmedBalance d address =
     attempt (sql_sum (map UAmount (filter (\<lambda>u. nocase (UAddress u) address) (dbUtxos d)))) (\<lambda>amount.
     case amount of None \<Rightarrow> Inr 0
     | Some n \<Rightarrow> if n < 0 then Inl (Errorf ''stored confirmed balance is negative'') else Inr (word_of_int n))"

definition LedgerBalances :: "crypto \<Rightarrow> db \<Rightarrow> string \<Rightarrow> (u64 \<times> u64) res" where
  "LedgerBalances C d address =
     attempt (ValidateAddress C address) (\<lambda>_.
     attempt (confirmedBalance d address) (\<lambda>confirmedAmount.
     attempt (tipFromQuery d) (\<lambda>tip.
     attempt (nextHeight tip) (\<lambda>height.
     attempt (spendableUTXO d address height) (\<lambda>utxo.
     attempt (foldE (\<lambda>spendable (_, output).
       if MaxUint64 - spendable < Amount output then Inl (Errorf ''spendable balance overflows'')
       else Inr (spendable + Amount output)) 0 utxo) (\<lambda>spendable.
     Inr (confirmedAmount, spendable)))))))"

definition MempoolTransactionsPage :: "db \<Rightarrow> int \<Rightarrow> int \<Rightarrow> transaction list res" where
  "MempoolTransactionsPage d limit offset =
     (if limit \<le> 0 \<or> limit > int MaxPendingTransactions then Inl (Errorf ''mempool limit is invalid'')
      else if offset < 0 \<or> offset > int MaxPendingTransactions then Inl (Errorf ''mempool offset is invalid'')
      else Inr (map MData (sql_limit limit offset (sql_order MSequence (dbMempool d)))))"

definition MempoolTransactions :: "db \<Rightarrow> int \<Rightarrow> transaction list res" where
  "MempoolTransactions d limit = MempoolTransactionsPage d limit 0"

definition MempoolCount :: "db \<Rightarrow> int" where
  "MempoolCount d = int (length (dbMempool d))"

end
