(* ===== verification/Reorg.thy ===== *)
theory Reorg
  imports Mempool
begin

text \<open>
  \<open>internal/ledger/reorg.go\<close>: disconnecting the tip with the undo data of its block, and replacing the
  end of the active chain by a branch with more work, in one database transaction.
\<close>

section \<open>The collector of orphaned transactions\<close>

definition maxOrphanedMempoolBytes :: int where "maxOrphanedMempoolBytes = 67108864"

text \<open>\<open>blocks[start:]\<close> is the list; the discarded prefix is left out.\<close>

record orphanedMempoolCollector =
  OrphanBlocks :: "transaction list list"
  OrphanCount :: int
  OrphanBytes :: int
  OrphanMaxCount :: int
  OrphanMaxBytes :: int

definition newOrphanedMempoolCollector :: "int \<Rightarrow> int \<Rightarrow> orphanedMempoolCollector" where
  "newOrphanedMempoolCollector maxCount maxBytes =
     \<lparr>OrphanBlocks = [], OrphanCount = 0, OrphanBytes = 0, OrphanMaxCount = maxCount, OrphanMaxBytes = maxBytes\<rparr>"

lemma butlast_shorter: "butlast xs \<noteq> [] \<Longrightarrow> length xs - Suc 0 < length xs"
  by (cases xs) auto

text \<open>The loop that discards the last transaction of the newest block while a budget is exceeded.\<close>

function discardOrphans :: "int \<Rightarrow> int \<Rightarrow> transaction list list \<Rightarrow> int \<Rightarrow> int \<Rightarrow> transaction list list \<times> int \<times> int" where
  "discardOrphans maxCount maxBytes blocks cnt bytes0 =
     (case blocks of
        [] \<Rightarrow> ([], cnt, bytes0)
      | block # older \<Rightarrow>
        if cnt > maxCount \<or> bytes0 > maxBytes then
          let transaction = last block; block = butlast block
          in discardOrphans maxCount maxBytes (if block = [] then older else block # older)
               (cnt - 1) (bytes0 - int (encodedSize transaction))
        else (blocks, cnt, bytes0))"
  by pat_completeness auto
termination
  by (relation "measure (\<lambda>(_, _, blocks, _). length blocks + sum_list (map length blocks))") (auto simp: butlast_shorter split: if_splits)

declare discardOrphans.simps [simp del]

text \<open>\<open>add\<close> receives the disconnected blocks newest first, so the newest is at the front of the list.\<close>

definition orphanAdd :: "transaction list \<Rightarrow> orphanedMempoolCollector \<Rightarrow> orphanedMempoolCollector" where
  "orphanAdd transactions c =
     (if transactions = [] \<or> OrphanMaxCount c \<le> 0 \<or> OrphanMaxBytes c \<le> 0 then c
      else case discardOrphans (OrphanMaxCount c) (OrphanMaxBytes c) (OrphanBlocks c @ [transactions])
             (OrphanCount c + int (length transactions))
             (OrphanBytes c + (\<Sum>tx\<leftarrow>transactions. int (encodedSize tx))) of
        (blocks, cnt, bytes0) \<Rightarrow> c\<lparr>OrphanBlocks := blocks, OrphanCount := cnt, OrphanBytes := bytes0\<rparr>)"

definition orphanTransactions :: "orphanedMempoolCollector \<Rightarrow> transaction list" where
  "orphanTransactions c = concat (rev (OrphanBlocks c))"

section \<open>Reading stored blocks\<close>

definition transactionsAt :: "db \<Rightarrow> u64 \<Rightarrow> transaction list res" where
  "transactionsAt d height =
     foldE (\<lambda>transactions r.
       if TIndex r \<noteq> int (length transactions) then Inl (Errorf ''block transaction positions are not contiguous'')
       else case TData r of
         None \<Rightarrow> Inl ErrReorgBeyondPrune
       | Some tx \<Rightarrow> Inr (transactions @ [tx])) []
     (sql_order TIndex (filter (\<lambda>r. TBlockHeight r = int64_of height) (dbTransactions d)))"

definition regularTransactionsAt :: "db \<Rightarrow> u64 \<Rightarrow> transaction list res" where
  "regularTransactionsAt d height =
     attempt (transactionsAt d height) (\<lambda>transactions. Inr (filter (\<lambda>tx. \<not> Coinbase tx) transactions))"

definition blockFromQuery :: "db \<Rightarrow> u64 \<Rightarrow> block res" where
  "blockFromQuery d height =
     (if uint height > MaxInt64 then Inl ErrBlockNotFound
      else case find (\<lambda>r. BHeight r = int64_of height) (dbBlocks d) of
        None \<Rightarrow> Inl ErrBlockNotFound
      | Some r \<Rightarrow>
        (case BData r of
           Some b \<Rightarrow> Inr b
         | None \<Rightarrow>
           attempt (scanHeader r) (\<lambda>header.
           attempt (transactionsAt d height) (\<lambda>transactions.
           Inr (header\<lparr>Transactions := transactions\<rparr>)))))"

section \<open>Disconnecting the tip\<close>

text \<open>The first loop: what the block created is removed; a duplicate is an error.\<close>

definition removeCreated :: "db \<times> outpoint list \<Rightarrow> outpoint \<Rightarrow> (db \<times> outpoint list) res" where
  "removeCreated st op =
     (if op \<in> set (snd st) then Inl (Errorf ''undo data contains duplicate created output'')
      else Inr (fst (deleteUtxo op (fst st)), op # snd st))"

text \<open>The second loop: what the block spent and did not create itself is restored.\<close>

definition restoreSpent :: "crypto \<Rightarrow> outpoint list \<Rightarrow> db \<Rightarrow> UTXORecord \<Rightarrow> db res" where
  "restoreSpent C created d record =
     (if record_outpoint record \<in> set created then Inr d
      else if RAmount record = 0 \<or> uint (RAmount record) > MaxInt64 \<or> uint (RCreatedHeight record) > MaxInt64
      then Inl (Errorf ''undo input contains invalid numeric values'')
      else attempt (ValidateAddress C (RAddress record)) (\<lambda>_.
           insertUtxo (record_outpoint record) (Output record) (RCreatedHeight record) (RCoinbase record) d))"

text \<open>\<open>DELETE FROM blocks\<close>, with the rows that reference the deleted block.\<close>

definition deleteBlock :: "u64 \<Rightarrow> string \<Rightarrow> db \<Rightarrow> db \<times> nat" where
  "deleteBlock height hash d =
     (let gone = (\<lambda>r. BHeight r = int64_of height \<and> BHash r = hash);
          heights = BHeight ` set (filter gone (dbBlocks d));
          ids = TId ` set (filter (\<lambda>t. TBlockHeight t \<in> heights) (dbTransactions d))
      in case sql_delete gone (dbBlocks d) of (rows, n) \<Rightarrow>
         (d\<lparr>dbBlocks := rows,
            dbTransactions := filter (\<lambda>t. TBlockHeight t \<notin> heights) (dbTransactions d),
            dbAddresses := filter (\<lambda>a. ATxId a \<notin> ids) (dbAddresses d),
            dbUndo := filter (\<lambda>u. DHeight u \<notin> heights) (dbUndo d)\<rparr>, n))"

definition disconnectTip :: "crypto \<Rightarrow> db \<Rightarrow> (db \<times> block \<times> transaction list) res" where
  "disconnectTip C d =
     attempt (tipFromQuery d) (\<lambda>tip.
     if TipHeight tip = 0 then Inl ErrGenesisDisconnect
     else attempt (prunedThrough d) (\<lambda>prunedHeight.
     if TipHeight tip \<le> prunedHeight then Inl ErrReorgBeyondPrune
     else attempt (blockFromQuery d (TipHeight tip)) (\<lambda>b.
     case find (\<lambda>u. DHeight u = int64_of (TipHeight tip)) (dbUndo d) of
       None \<Rightarrow> Inl (Errorf ''read block undo data'')
     | Some u \<Rightarrow>
       if DHash u \<noteq> TipHash tip then Inl (Errorf ''undo hash does not match active tip'')
       else attempt (regularTransactionsAt d (TipHeight tip)) (\<lambda>orphaned.
       attempt (foldE removeCreated (d, []) (Created (DData u))) (\<lambda>(d, created).
       attempt (foldE (restoreSpent C created) d (Spent (DData u))) (\<lambda>d.
       case deleteBlock (TipHeight tip) (TipHash tip) d of (d, rows) \<Rightarrow>
       if rows \<noteq> 1 then Inl (Errorf ''active tip changed while disconnecting block'')
       else Inr (d, b, orphaned)))))))"

definition DisconnectTip :: "crypto \<Rightarrow> int \<Rightarrow> db \<Rightarrow> (db \<times> block) res" where
  "DisconnectTip C now d =
     attempt (disconnectTip C d) (\<lambda>(d, b, orphaned).
     attempt (rebuildMempool C now d orphaned) (\<lambda>d. Inr (d, b)))"

section \<open>Replacing the end of the chain\<close>

text \<open>The loop \<open>for height := oldTip.Height; height > ancestorHeight; height--\<close>, by its number of rounds.\<close>

fun disconnectLoop :: "crypto \<Rightarrow> nat \<Rightarrow> db \<times> orphanedMempoolCollector \<Rightarrow> (db \<times> orphanedMempoolCollector) res" where
  "disconnectLoop C 0 st = Inr st"
| "disconnectLoop C (Suc n) st =
     attempt (disconnectTip C (fst st)) (\<lambda>(d, _, transactions).
     disconnectLoop C n (d, orphanAdd transactions (snd st)))"

definition replaceFromSourceAtTime ::
    "crypto \<Rightarrow> int \<Rightarrow> db \<Rightarrow> u64 \<Rightarrow> int \<Rightarrow> (nat \<Rightarrow> block res) option \<Rightarrow> int \<Rightarrow> db res" where
  "replaceFromSourceAtTime C now d ancestorHeight blockCount source validationTime =
     (case source of
        None \<Rightarrow> Inl ErrInsufficientWork
      | Some blockAt \<Rightarrow>
        if blockCount \<le> 0 then Inl ErrInsufficientWork
        else attempt (tipFromQuery d) (\<lambda>oldTip.
        if ancestorHeight > TipHeight oldTip \<or> uint ancestorHeight > MaxInt64
        then Inl (Errorf ''replacement ancestor is not on the active chain'')
        else attempt (prunedThrough d) (\<lambda>prunedHeight.
        if ancestorHeight < prunedHeight then Inl ErrReorgBeyondPrune
        else attempt (disconnectLoop C (unat (TipHeight oldTip - ancestorHeight))
               (d, newOrphanedMempoolCollector (int MaxPendingTransactions) maxOrphanedMempoolBytes)) (\<lambda>(d, orphaned).
        attempt (foldE (\<lambda>d index. attempt (blockAt index) (\<lambda>b. connectBlockAtTime C d b validationTime)) d
          [0..<nat blockCount]) (\<lambda>d.
        attempt (tipFromQuery d) (\<lambda>newTip.
        if TipWork newTip \<le> TipWork oldTip then Inl ErrInsufficientWork
        else rebuildMempool C now d (orphanTransactions orphaned)))))))"

definition ReplaceFrom :: "crypto \<Rightarrow> int \<Rightarrow> int \<Rightarrow> db \<Rightarrow> u64 \<Rightarrow> block list \<Rightarrow> db res" where
  "ReplaceFrom C now now' d ancestorHeight blocks =
     (if blocks = [] then Inl ErrInsufficientWork
      else replaceFromSourceAtTime C now' d ancestorHeight (int (length blocks)) (Some (\<lambda>index. Inr (blocks ! index))) now)"

end
