(* ===== verification/Ledger_Chain.thy ===== *)
theory Ledger_Chain
  imports Ledger_Block Reorg
begin

text \<open>
  The refinement of the whole-chain replay by the ledger: when a database represents a chain, what each
  of its tables holds is determined by the blocks, the states of their replay and the prune horizon.
  Connecting a block extends the chain, disconnecting the tip shortens it.
\<close>

section \<open>Replayed chains\<close>

definition start_replay :: replay_state where
  "start_replay = \<lparr>RUtxo = [], ROrigins = [], RSeen = {}\<rparr>"

text \<open>\<open>sts i\<close> is the state of the replay after block \<open>i\<close>.\<close>

definition replayed :: "crypto \<Rightarrow> (nat \<Rightarrow> int) \<Rightarrow> block list \<Rightarrow> (nat \<Rightarrow> replay_state) \<Rightarrow> bool" where
  "replayed C now blocks sts \<longleftrightarrow>
     blocks \<noteq> [] \<and> blocks ! 0 = GenesisBlock C \<and> heights_ok blocks \<and> sts 0 = start_replay \<and>
     (\<forall>i. 0 < i \<longrightarrow> i < length blocks \<longrightarrow> replayBlock C now blocks (sts (i - 1)) i = Inr (sts i))"

lemma replayed_fold:
  assumes "replayed C now blocks sts" "n < length blocks"
  shows "foldE (replayBlock C now blocks) start_replay [1..<Suc n] = Inr (sts n)"
  using assms(2)
proof (induction n)
  case 0
  then show ?case using assms(1) by (simp add: replayed_def)
next
  case (Suc n)
  have "replayBlock C now blocks (sts n) (Suc n) = Inr (sts (Suc n))"
    using assms(1) Suc.prems unfolding replayed_def by (metis diff_Suc_1 zero_less_Suc)
  with Suc show ?case by (simp add: foldE_append del: upt_Suc) (simp add: foldE_append)
qed

lemma replayed_inv:
  assumes rep: "replayed C now blocks sts" and n: "n < length blocks"
  shows "chain_inv (sts n) (chain_trace (take (Suc n) blocks))"
    and "state_value (sts n) \<le> 200000000000000"
    and "\<And>i. 0 < i \<Longrightarrow> i \<le> n \<Longrightarrow> Transactions (blocks ! i) \<noteq> []"
proof -
  have len: "length blocks < 18446744073709551616" and g: "Height (blocks ! 0) = 0"
    using rep by (auto simp: replayed_def heights_ok_def)
  note f = replayed_fold [OF rep n, unfolded start_replay_def]
  note i = replayBlocks_inv [OF f n len g]
  show "chain_inv (sts n) (chain_trace (take (Suc n) blocks))" using i by blast
  show "\<And>i. 0 < i \<Longrightarrow> i \<le> n \<Longrightarrow> Transactions (blocks ! i) \<noteq> []" using i by blast
  have "state_value (sts n) = unat (MintedThrough (word_of_nat n))"
    using i n len by (simp add: sum_Subsidy [unfolded One_nat_def] unat_MintedThrough unat_word_of_nat_64)
  then show "state_value (sts n) \<le> 200000000000000" by (simp add: unat_MintedThrough)
qed

lemma replayBlock_prefix:
  assumes "0 < i" "i < length blocks" "now i = now' i"
  shows "replayBlock C now (blocks @ [b]) st i = replayBlock C now' blocks st i"
proof -
  have "(blocks @ [b]) ! i = blocks ! i" "(blocks @ [b]) ! (i - 1) = blocks ! (i - 1)"
    "take i (blocks @ [b]) = take i blocks"
    using assms by (simp_all add: nth_append)
  then show ?thesis by (simp only: replayBlock_def assms(3))
qed

lemma replayed_snoc:
  assumes rep: "replayed C now blocks sts" and h: "Height b = word_of_nat (length blocks)"
    and len: "length blocks < 9223372036854775808"
    and step: "replayBlock C (\<lambda>_. t) (blocks @ [b]) (sts (length blocks - 1)) (length blocks) = Inr st'"
  shows "replayed C (now(length blocks := t)) (blocks @ [b]) (sts(length blocks := st'))"
proof -
  have ne: "blocks \<noteq> []" using rep by (simp add: replayed_def)
  have "replayBlock C (now(length blocks := t)) (blocks @ [b]) ((sts(length blocks := st')) (i - 1)) i =
      Inr ((sts(length blocks := st')) i)" if i: "0 < i" "i < Suc (length blocks)" for i
  proof (cases "i = length blocks")
    case True
    moreover have "length blocks - Suc 0 \<noteq> length blocks" using ne by (cases blocks) auto
    ultimately show ?thesis using step ne by (simp add: replayBlock_snoc)
  next
    case False
    then have l: "i < length blocks" "i - Suc 0 \<noteq> length blocks" using i by auto
    then show ?thesis
      using rep i by (simp add: replayed_def replayBlock_prefix [of i blocks "now(length blocks := t)" now])
  qed
  moreover have "heights_ok (blocks @ [b])"
    using rep h len by (auto simp: replayed_def heights_ok_def nth_append less_Suc_eq)
  ultimately show ?thesis using rep ne by (simp add: replayed_def nth_append)
qed

lemma replayed_butlast:
  assumes "replayed C now (blocks @ [b]) sts" "blocks \<noteq> []"
  shows "replayed C now blocks sts"
    and "replayBlock C now (blocks @ [b]) (sts (length blocks - 1)) (length blocks) = Inr (sts (length blocks))"
proof -
  have step: "replayBlock C now (blocks @ [b]) (sts (i - 1)) i = Inr (sts i)" if "0 < i" "i \<le> length blocks" for i
    using assms(1) that by (simp add: replayed_def)
  have "replayBlock C now blocks (sts (i - 1)) i = Inr (sts i)" if "0 < i" "i < length blocks" for i
    using step [of i] that replayBlock_prefix [of i blocks now now] by simp
  moreover have "heights_ok blocks"
  proof -
    have h: "length (blocks @ [b]) \<le> 9223372036854775808"
      "\<forall>i < length (blocks @ [b]). Height ((blocks @ [b]) ! i) = word_of_nat i"
      using assms(1) unfolding replayed_def heights_ok_def by blast+
    have "Height (blocks ! i) = word_of_nat i" if "i < length blocks" for i
      using h(2) [rule_format, of i] that by (simp add: nth_append)
    with h(1) show ?thesis by (simp add: heights_ok_def)
  qed
  ultimately show "replayed C now blocks sts" using assms by (simp add: replayed_def nth_append)
  show "replayBlock C now (blocks @ [b]) (sts (length blocks - 1)) (length blocks) = Inr (sts (length blocks))"
    using step [of "length blocks"] assms(2) by simp
qed

section \<open>What the tables hold\<close>

definition chain_work :: "block list \<Rightarrow> nat" where
  "chain_work blocks = (\<Sum>b\<leftarrow>tl blocks. blockWork (Difficulty b))"

definition stored_block :: "nat \<Rightarrow> block list \<Rightarrow> nat \<Rightarrow> block_row" where
  "stored_block p blocks i = (block_row_of (blocks ! i) (chain_work (take (Suc i) blocks)))
     \<lparr>BData := if 1 \<le> i \<and> i \<le> p then None else Some (blocks ! i)\<rparr>"

definition stored_txs :: "nat \<Rightarrow> block list \<Rightarrow> nat \<Rightarrow> tx_row list" where
  "stored_txs p blocks i = map (\<lambda>r. if i \<le> p then r\<lparr>TData := None\<rparr> else r) (block_tx_rows (blocks ! i))"

definition undo_ok :: "crypto \<Rightarrow> UndoRecord \<Rightarrow> replay_state \<Rightarrow> replay_state \<Rightarrow> bool" where
  "undo_ok C u st st' \<longleftrightarrow> undo_restorable C u \<and>
     chain_coins.recorded (coins_get (coins_of st)) (undo_spent u) (Created u) (coins_of st')"

definition represents ::
    "crypto \<Rightarrow> (nat \<Rightarrow> int) \<Rightarrow> db \<Rightarrow> block list \<Rightarrow> (nat \<Rightarrow> replay_state) \<Rightarrow> (nat \<Rightarrow> UndoRecord) \<Rightarrow> nat \<Rightarrow> bool" where
  "represents C now d blocks sts us p \<longleftrightarrow>
     replayed C now blocks sts \<and> p < length blocks \<and> prunedThrough d = Inr (word_of_nat p) \<and>
     dbBlocks d = map (stored_block p blocks) [0..<length blocks] \<and>
     dbTransactions d = concat (map (stored_txs p blocks) [1..<length blocks]) \<and>
     dbUndo d = map (\<lambda>i. undo_row_of (blocks ! i) (us i)) [Suc p..<length blocks] \<and>
     (\<forall>i. p < i \<longrightarrow> i < length blocks \<longrightarrow> undo_ok C (us i) (sts (i - 1)) (sts i)) \<and>
     ledger_sim C d (sts (length blocks - 1))"

text \<open>The tables of the chain; the others do not matter.\<close>

definition chain_tables :: "db \<Rightarrow> (string \<times> bytes) list \<times> block_row list \<times> tx_row list \<times>
    address_row list \<times> utxo_row list \<times> undo_row list" where
  "chain_tables d = (dbMeta d, dbBlocks d, dbTransactions d, dbAddresses d, dbUtxos d, dbUndo d)"

lemma represents_cong:
  assumes "represents C now d blocks sts us p" "chain_tables d' = chain_tables d"
  shows "represents C now d' blocks sts us p"
proof -
  have "dbMeta d' = dbMeta d" "dbBlocks d' = dbBlocks d" "dbTransactions d' = dbTransactions d"
    "dbAddresses d' = dbAddresses d" "dbUtxos d' = dbUtxos d" "dbUndo d' = dbUndo d"
    using assms(2) by (simp_all add: chain_tables_def)
  then show ?thesis
    using assms(1) unfolding represents_def ledger_sim_def prunedThrough_def uint64Metadata_def by metis
qed

lemma chain_rows_stored:
  assumes "heights_ok blocks"
  shows "chain_rows (map (stored_block p blocks) [0..<length blocks]) blocks"
  using assms by (simp add: chain_rows_def list_all2_conv_all_nth stored_block_def row_stores_def block_row_of_def)

lemma represents_rows:
  assumes "represents C now d blocks sts us p"
  shows "chain_rows (dbBlocks d) blocks" "blocks \<noteq> []"
  using assms by (auto simp: represents_def replayed_def intro: chain_rows_stored)

lemma represents_tip:
  assumes rep: "represents C now d blocks sts us p"
  shows "tipFromQuery d = Inr \<lparr>TipHeight = word_of_nat (length blocks - 1), TipHash = Hash (last blocks),
     TipTimestamp = Timestamp (last blocks), TipDifficulty = Difficulty (last blocks),
     TipWork = chain_work blocks\<rparr>"
proof -
  note rows = represents_rows [OF rep]
  have "last (dbBlocks d) = stored_block p blocks (length blocks - 1)"
    using rep rows(2) by (simp add: represents_def last_map)
  then have "decodeWork (BWork (last (dbBlocks d))) = chain_work blocks"
    using rows(2) by (simp add: stored_block_def block_row_of_def)
  then show ?thesis using tipFromQuery_chain [OF rows] by simp
qed

section \<open>Connecting\<close>

text \<open>The check of the header, reduced to the whole chain.\<close>

lemma connect_header:
  assumes rep: "represents C now d blocks sts us p"
  shows "connectBlockAtTime C d b t =
     (if uint (Height b) > MaxInt64 then Inl (Errorf ''block height exceeds storage range'')
      else attempt (validateBlockHeaderAtTime C b (last blocks) blocks t) (\<lambda>_.
        if Transactions b = [] \<or> \<not> Coinbase (hd (Transactions b))
        then Inl (Errorf ''first transaction must be coinbase'')
        else connectBody C d (chain_work blocks) b))"
proof -
  note rows = represents_rows [OF rep]
  have h: "heights_ok blocks" using rows(1) by (simp add: chain_rows_def)
  have ne: "header_window blocks \<noteq> []" using rows(2) by simp
  show ?thesis
    using validateBlockHeader_window [OF rows(2) h, of C b t] ne
    by (simp add: connectBlockAtTime_def represents_tip [OF rep] headerWindow_chain [OF rows, unfolded One_nat_def])
qed

lemma represents_ready:
  assumes rep: "represents C now d blocks sts us p"
    and hdr: "validateBlockHeaderAtTime C b (last blocks) blocks t = Inr ()" and h: "uint (Height b) \<le> MaxInt64"
  shows "block_ready C d (sts (length blocks - 1)) (chain_trace blocks) b"
    and "Height b = word_of_nat (length blocks)" "length blocks < 9223372036854775808"
proof -
  have r: "replayed C now blocks sts" and sim: "ledger_sim C d (sts (length blocks - 1))"
    using rep by (simp_all add: represents_def)
  have ne: "blocks \<noteq> []" and ho: "heights_ok blocks" using r by (simp_all add: replayed_def)
  obtain n where n: "length blocks = Suc n" using ne by (cases blocks) auto
  have "Height (last blocks) = word_of_nat n" using ho n ne by (simp add: heights_ok_def last_conv_nth)
  then show hb: "Height b = word_of_nat (length blocks)"
    using validateBlockHeader_height [OF hdr] n by (simp add: add.commute)
  have "length blocks < 18446744073709551616" using ho by (simp add: heights_ok_def)
  then have u: "unat (Height b) = length blocks" by (simp add: hb unat_word_of_nat_64)
  then show "length blocks < 9223372036854775808" using h by (simp add: uint_unat_le)
  have "Height b \<noteq> 0" using u n by auto
  moreover have "n < length blocks" using n by simp
  note inv = replayed_inv [OF r this]
  ultimately show "block_ready C d (sts (length blocks - 1)) (chain_trace blocks) b"
    using inv(1,2) n sim h by (simp add: block_ready_def uint_unat_le)
qed

lemma chain_work_snoc: "blocks \<noteq> [] \<Longrightarrow> chain_work (blocks @ [b]) = chain_work blocks + blockWork (Difficulty b)"
  by (cases blocks) (simp_all add: chain_work_def)

lemma represents_snoc:
  assumes rep: "represents C now d blocks sts us p"
    and hdr: "validateBlockHeaderAtTime C b (last blocks) blocks t = Inr ()" and h: "uint (Height b) \<le> MaxInt64"
    and step: "replayBlock C (\<lambda>_. t) (blocks @ [b]) (sts (length blocks - 1)) (length blocks) = Inr st'"
    and d': "d' = connected_db d b (chain_work blocks + blockWork (Difficulty b)) tb rows u"
    and sim: "ledger_sim C d' st'" and undo: "undo_for C (utxos_get (dbUtxos d)) u tb"
  shows "represents C (now(length blocks := t)) d' (blocks @ [b]) (sts(length blocks := st')) (us(length blocks := u)) p"
proof -
  let ?n = "length blocks"
  have r: "replayed C now blocks sts" using rep by (simp add: represents_def)
  have ne: "blocks \<noteq> []" using r by (simp add: replayed_def)
  note rdy = represents_ready [OF rep hdr h]
  have r': "replayed C (now(?n := t)) (blocks @ [b]) (sts(?n := st'))"
    by (rule replayed_snoc [OF r rdy(2,3) step])
  have p: "p < ?n" using rep by (simp add: represents_def)
  have old_block: "map (stored_block p blocks) [0..<?n] = map (stored_block p (blocks @ [b])) [0..<?n]"
    by (auto simp: stored_block_def nth_append)
  have old_tx: "map (stored_txs p blocks) [1..<?n] = map (stored_txs p (blocks @ [b])) [1..<?n]"
    by (auto simp: stored_txs_def nth_append)
  have new_block: "stored_block p (blocks @ [b]) ?n = block_row_of b (chain_work blocks + blockWork (Difficulty b))"
    using p by (simp add: stored_block_def chain_work_snoc [OF ne]) (simp add: block_row_of_def)
  have new_tx: "stored_txs p (blocks @ [b]) ?n = block_tx_rows b" using p by (simp add: stored_txs_def)
  have "chain_inv st' (chain_trace (blocks @ [b]))"
    using replayed_inv(1) [OF r', of ?n] by simp
  then have wf': "coins_wf (coins_of st')" by (simp add: chain_inv_def)
  have gets: "utxos_get tb = coins_get (coins_of st')" "utxos_get (dbUtxos d) = coins_get (coins_of (sts (?n - 1)))"
    using sim rep by (simp_all add: ledger_sim_def d' connected_db_def represents_def)
  have "undo_ok C u (sts (?n - 1)) st'"
    using undo wf' by (simp add: undo_for_def undo_ok_def ledger_coins.recorded_def chain_coins.recorded_def gets)
  then have undos: "undo_ok C ((us(?n := u)) i) ((sts(?n := st')) (i - 1)) ((sts(?n := st')) i)"
    if "p < i" "i < Suc ?n" for i
    using rep that p by (cases "i = ?n") (auto simp: represents_def)
  have ub: "map (\<lambda>i. undo_row_of (blocks ! i) (us i)) [Suc p..<?n] @ [undo_row_of b u] =
      map (\<lambda>i. undo_row_of ((blocks @ [b]) ! i) ((us(?n := u)) i)) [Suc p..<Suc ?n]"
    using p by (simp add: nth_append)
  have l: "length (blocks @ [b]) = Suc ?n" by simp
  have bl: "dbBlocks d' = map (stored_block p (blocks @ [b])) [0..<Suc ?n]"
    using rep old_block new_block by (simp add: represents_def d' connected_db_def)
  have tx: "dbTransactions d' = concat (map (stored_txs p (blocks @ [b])) [1..<Suc ?n])"
    using rep new_tx ne old_tx [unfolded One_nat_def] by (simp add: represents_def d' connected_db_def del: map_eq_conv)
  have un: "dbUndo d' = map (\<lambda>i. undo_row_of ((blocks @ [b]) ! i) ((us(?n := u)) i)) [Suc p..<Suc ?n]"
    using rep ub by (simp add: represents_def d' connected_db_def)
  have pr: "prunedThrough d' = Inr (word_of_nat p)"
    using rep by (simp add: represents_def d' connected_db_def prunedThrough_def uint64Metadata_def)
  show ?thesis
    unfolding represents_def l bl tx un pr using r' p undos sim by simp
qed

text \<open>Soundness: a connected block extends the replay.\<close>

lemma connect_sound:
  assumes rep: "represents C now d blocks sts us p" and con: "connectBlockAtTime C d b t = Inr d'"
  shows "\<exists>st' tb rows u. d' = connected_db d b (chain_work blocks + blockWork (Difficulty b)) tb rows u \<and>
     ATxId ` set rows \<subseteq> ID ` set (Transactions b) \<and>
     replayBlock C (\<lambda>_. t) (blocks @ [b]) (sts (length blocks - 1)) (length blocks) = Inr st' \<and>
     represents C (now(length blocks := t)) d' (blocks @ [b]) (sts(length blocks := st')) (us(length blocks := u)) p"
proof -
  have c: "uint (Height b) \<le> MaxInt64" "validateBlockHeaderAtTime C b (last blocks) blocks t = Inr ()"
    "Transactions b \<noteq> []" "Coinbase (hd (Transactions b))" "connectBody C d (chain_work blocks) b = Inr d'"
    using con unfolding connect_header [OF rep] by (auto simp: res_simps split: if_splits)
  note rdy = represents_ready [OF rep c(2,1)]
  have ne: "blocks \<noteq> []" using represents_rows [OF rep] by simp
  obtain st' where st': "replayBody C (sts (length blocks - 1)) b = Inr st'"
    using connectBody_sound(1) [OF rdy(1) c(3-5)] by blast
  then have step: "replayBlock C (\<lambda>_. t) (blocks @ [b]) (sts (length blocks - 1)) (length blocks) = Inr st'"
    using c(2) by (simp add: replayBlock_snoc [OF ne])
  obtain tb rows u where k: "connectBody C d (chain_work blocks) b =
      Inr (connected_db d b (chain_work blocks + blockWork (Difficulty b)) tb rows u)"
    "ledger_sim C (connected_db d b (chain_work blocks + blockWork (Difficulty b)) tb rows u) st'"
    "undo_for C (utxos_get (dbUtxos d)) u tb" "ATxId ` set rows \<subseteq> ID ` set (Transactions b)"
    using connectBody_replays [OF rdy(1) connectBody_sound(2) [OF rdy(1) c(3-5)] st'] by blast
  have d': "d' = connected_db d b (chain_work blocks + blockWork (Difficulty b)) tb rows u"
    using k(1) c(5) by simp
  have "represents C (now(length blocks := t)) d' (blocks @ [b]) (sts(length blocks := st')) (us(length blocks := u)) p"
    using represents_snoc [OF rep c(2,1) step d'] k(2,3) by (simp add: d')
  then show ?thesis using d' k(4) step by blast
qed

text \<open>Completeness: a block that extends the replay is connected, unless its hash is stored already.\<close>

lemma represents_fresh:
  assumes rep: "represents C now d blocks sts us p" and h: "Height b = word_of_nat (length blocks)"
    and len: "length blocks < 9223372036854775808" and hash: "\<forall>b' \<in> set blocks. Hash b' \<noteq> Hash b"
  shows "block_fresh d b"
proof -
  have ho: "heights_ok blocks" using rep by (simp add: represents_def replayed_def)
  have b: "int64_of (Height b) = int (length blocks)" unfolding h by (rule int64_of_nat) (use len in simp)
  have i: "int64_of (Height (blocks ! i)) = int i" if "i < length blocks" for i
    using ho that len by (simp add: heights_ok_def int64_of_nat)
  have "dbBlocks d = map (stored_block p blocks) [0..<length blocks]"
    "dbUndo d = map (\<lambda>i. undo_row_of (blocks ! i) (us i)) [Suc p..<length blocks]"
    using rep by (simp_all add: represents_def)
  then show ?thesis
    using hash i b by (auto simp: block_fresh_def stored_block_def block_row_of_def undo_row_of_def)
qed

lemma connect_complete:
  assumes rep: "represents C now d blocks sts us p"
    and step: "replayBlock C (\<lambda>_. t) (blocks @ [b]) (sts (length blocks - 1)) (length blocks) = Inr st'"
    and h: "uint (Height b) \<le> MaxInt64" and hash: "\<forall>b' \<in> set blocks. Hash b' \<noteq> Hash b"
  shows "\<exists>d'. connectBlockAtTime C d b t = Inr d'"
proof -
  have ne: "blocks \<noteq> []" using represents_rows [OF rep] by simp
  have s: "validateBlockHeaderAtTime C b (last blocks) blocks t = Inr ()"
    "replayBody C (sts (length blocks - 1)) b = Inr st'"
    using step by (auto simp: replayBlock_snoc [OF ne] res_simps)
  then have tx: "Transactions b \<noteq> []" "Coinbase (hd (Transactions b))"
    by (auto simp: replayBody_def split: if_splits)
  note rdy = represents_ready [OF rep s(1) h]
  have "\<exists>d'. connectBody C d (chain_work blocks) b = Inr d'"
    using connectBody_replays [OF rdy(1) represents_fresh [OF rep rdy(2,3) hash] s(2)] by blast
  then show ?thesis using s(1) tx h unfolding connect_header [OF rep] by simp
qed

end
