(* ===== verification/Disconnect.thy ===== *)
theory Disconnect
  imports Ledger_Chain
begin

text \<open>
  Disconnecting the tip (\<open>disconnectTip\<close> of \<open>internal/ledger/reorg.go\<close>) on a database that represents a
  chain: the undo data of the block brings back the unspent outputs from before it, and the database
  represents the chain without the block.
\<close>

section \<open>The two loops over the undo data\<close>

lemma removeCreated_loop:
  "foldE removeCreated (d, seen) ops = Inr (d', seen') \<longleftrightarrow>
     distinct ops \<and> set ops \<inter> set seen = {} \<and> d' = d\<lparr>dbUtxos := foldl utxos_del (dbUtxos d) ops\<rparr> \<and>
     seen' = rev ops @ seen"
proof (induction ops arbitrary: d seen)
  case (Cons op ops)
  have "removeCreated (d, seen) op = (if op \<in> set seen then Inl (Errorf ''undo data contains duplicate created output'')
      else Inr (d\<lparr>dbUtxos := utxos_del (dbUtxos d) op\<rparr>, op # seen))"
    by (simp add: removeCreated_def deleteUtxo_def sql_delete_def utxos_del_def)
  then show ?case using Cons.IH by auto
qed auto

definition kept_spends :: "outpoint list \<Rightarrow> (outpoint \<times> coin) list \<Rightarrow> (outpoint \<times> coin) list" where
  "kept_spends created spent = filter (\<lambda>(op, c). op \<notin> set created) spent"

lemma restoreSpent_loop:
  assumes "\<forall>r \<in> set records. coin_storable (record_coin r) \<and> ValidateAddress C (RAddress r) = Inr ()"
    and "distinct (map record_outpoint records)"
    and "\<forall>r \<in> set records. record_outpoint r \<notin> set created \<longrightarrow> utxos_get (dbUtxos d) (record_outpoint r) = None"
    and "utxos_wf (dbUtxos d)"
  shows "foldE (restoreSpent C created) d records =
     Inr (d\<lparr>dbUtxos := foldl (\<lambda>t (op, c). utxos_put t op c) (dbUtxos d)
       (kept_spends created (map (\<lambda>r. (record_outpoint r, record_coin r)) records))\<rparr>)"
  using assms
proof (induction records arbitrary: d)
  case (Cons r records)
  show ?case
  proof (cases "record_outpoint r \<in> set created")
    case True
    with Cons show ?thesis by (simp add: restoreSpent_def kept_spends_def)
  next
    case False
    let ?d = "d\<lparr>dbUtxos := utxos_put (dbUtxos d) (record_outpoint r) (record_coin r)\<rparr>"
    have none: "utxos_get (dbUtxos d) (record_outpoint r) = None" using Cons.prems(3) False by simp
    have "coin_storable (record_coin r)" using Cons.prems(1) by simp
    then have "RAmount r \<noteq> 0" "uint (RAmount r) \<le> MaxInt64" "uint (RCreatedHeight r) \<le> MaxInt64"
      by (simp_all add: coin_storable_def record_coin_def Output_def uint_unat_le)
    then have step: "restoreSpent C created d r = Inr ?d"
      using Cons.prems(1) False none by (simp add: restoreSpent_def insertUtxo_ok record_coin_def)
    have "utxos_get (dbUtxos ?d) (record_outpoint x) = None" if "x \<in> set records" "record_outpoint x \<notin> set created" for x
      using that Cons.prems none by (auto simp: ledger_coins.get_put image_iff)
    then have "foldE (restoreSpent C created) ?d records =
       Inr (?d\<lparr>dbUtxos := foldl (\<lambda>t (op, c). utxos_put t op c) (dbUtxos ?d)
         (kept_spends created (map (\<lambda>r. (record_outpoint r, record_coin r)) records))\<rparr>)"
      using Cons.prems none by (intro Cons.IH) (auto intro: ledger_coins.wf_put)
    with step False show ?thesis by (simp add: kept_spends_def)
  qed
qed (simp add: kept_spends_def)

text \<open>Together they bring back the lookups of before, whatever order the rows are in.\<close>

definition undone :: "utxo_row list \<Rightarrow> UndoRecord \<Rightarrow> utxo_row list" where
  "undone t u = foldl (\<lambda>t (op, c). utxos_put t op c) (foldl utxos_del t (Created u))
     (kept_spends (Created u) (undo_spent u))"

lemma undone_utxos:
  assumes rec: "ledger_coins.recorded g0 (undo_spent u) (Created u) t" and ok: "utxos_ok t" "addressed C t"
    and res: "undo_restorable C u"
  shows "utxos_get (undone t u) = g0" "utxos_ok (undone t u)" "addressed C (undone t u)"
proof -
  have r: "utxos_wf t" "distinct (map fst (undo_spent u))" "\<forall>x \<in> set (undo_spent u). utxos_get t (fst x) = None"
    using rec by (auto simp: ledger_coins.recorded_def)
  show "utxos_get (undone t u) = g0"
    using ledger_coins.undo_recorded(1) [OF rec] by (simp add: undone_def kept_spends_def)
  have store: "\<forall>c \<in> snd ` set (kept_spends (Created u) (undo_spent u)). coin_storable c"
    using res by (auto simp: kept_spends_def undo_spent_def undo_restorable_def)
  have dist: "distinct (map fst (kept_spends (Created u) (undo_spent u)))"
    using r(2) by (simp add: kept_spends_def distinct_map_filter)
  have absent: "\<forall>op \<in> fst ` set (kept_spends (Created u) (undo_spent u)). utxos_get (foldl utxos_del t (Created u)) op = None"
    using r(3) by (auto simp: kept_spends_def ledger_coins.get_dels [OF r(1)])
  show "utxos_ok (undone t u)"
    unfolding undone_def by (rule utxos_ok_puts [OF utxos_ok_dels [OF ok(1)] dist absent store])
  have "ValidateAddress C (UAddress (coin_row op c)) = Inr ()" if "(op, c) \<in> set (undo_spent u)" for op c
    using res that by (auto simp: undo_spent_def undo_restorable_def coin_row_def record_coin_def Output_def)
  then show "addressed C (undone t u)"
    using ok(2) dels_subset [of t "Created u"] unfolding undone_def puts_eq
    by (auto simp: addressed_def kept_spends_def)
qed

lemma undo_loops:
  assumes rec: "ledger_coins.recorded g0 (undo_spent u) (Created u) (dbUtxos d)" and res: "undo_restorable C u"
  shows "foldE removeCreated (d, []) (Created u) =
      Inr (d\<lparr>dbUtxos := foldl utxos_del (dbUtxos d) (Created u)\<rparr>, rev (Created u))"
    and "foldE (restoreSpent C (rev (Created u))) (d\<lparr>dbUtxos := foldl utxos_del (dbUtxos d) (Created u)\<rparr>) (Spent u) =
      Inr (d\<lparr>dbUtxos := undone (dbUtxos d) u\<rparr>)"
proof -
  have r: "utxos_wf (dbUtxos d)" "distinct (Created u)" "distinct (map fst (undo_spent u))"
    "\<forall>x \<in> set (undo_spent u). utxos_get (dbUtxos d) (fst x) = None"
    using rec by (auto simp: ledger_coins.recorded_def)
  show "foldE removeCreated (d, []) (Created u) =
      Inr (d\<lparr>dbUtxos := foldl utxos_del (dbUtxos d) (Created u)\<rparr>, rev (Created u))"
    using r(2) by (simp add: removeCreated_loop)
  let ?d = "d\<lparr>dbUtxos := foldl utxos_del (dbUtxos d) (Created u)\<rparr>"
  have "\<forall>r \<in> set (Spent u). utxos_get (dbUtxos d) (record_outpoint r) = None"
    using r(4) by (simp add: undo_spent_def)
  then have absent: "\<forall>r \<in> set (Spent u). record_outpoint r \<notin> set (rev (Created u)) \<longrightarrow>
      utxos_get (dbUtxos ?d) (record_outpoint r) = None"
    by (simp add: ledger_coins.get_dels [OF r(1)])
  have dist: "distinct (map record_outpoint (Spent u))" using r(3) by (simp add: undo_spent_def comp_def)
  have wf: "utxos_wf (dbUtxos ?d)" by (simp add: ledger_coins.wf_dels [OF r(1)])
  have same: "kept_spends (rev (Created u)) xs = kept_spends (Created u) xs" for xs by (simp add: kept_spends_def)
  show "foldE (restoreSpent C (rev (Created u))) ?d (Spent u) = Inr (d\<lparr>dbUtxos := undone (dbUtxos d) u\<rparr>)"
    using restoreSpent_loop [OF res [unfolded undo_restorable_def] dist absent wf]
    by (simp add: undone_def undo_spent_def same)
qed

section \<open>The body of the tip\<close>

lemma sort_key_last_first:
  assumes "sorted (map f xs)" "\<forall>x \<in> set xs. f y < f x"
  shows "sort_key f (xs @ [y]) = y # xs"
proof -
  have "foldr (insort_key f) xs [y] = y # xs"
    using assms
  proof (induction xs)
    case (Cons x xs)
    then have "foldr (insort_key f) (x # xs) [y] = y # insort_key f x xs" by auto
    moreover have "insort_key f x xs = x # xs" using Cons.prems(1) by (intro insort_is_Cons) simp
    ultimately show ?case by simp
  qed simp
  then show ?thesis by (simp add: sort_key_def)
qed

lemma map_enumerate_index: "map (\<lambda>(p, tx). int p) (List.enumerate n xs) = map int [n..<n + length xs]"
  by (simp add: case_prod_unfold comp_def flip: map_map [of int fst, unfolded comp_def])

lemma transactionsAt_block:
  assumes rows: "filter (\<lambda>r. TBlockHeight r = int64_of h) (dbTransactions d) = block_tx_rows b"
    and ne: "Transactions b \<noteq> []"
  shows "transactionsAt d h = Inr (Transactions b)"
proof -
  let ?row = "\<lambda>(p, tx). tx_row_of (Height b) p tx"
  obtain c txs where b: "Transactions b = c # txs" using ne by (cases "Transactions b") auto
  have ix: "map TIndex (map ?row (List.enumerate 1 txs)) = map int [1..<1 + length txs]"
    using map_enumerate_index [of 1 txs] by (simp add: tx_row_of_def comp_def case_prod_unfold)
  have "sql_order TIndex (block_tx_rows b) = tx_row_of (Height b) 0 c # map ?row (List.enumerate 1 txs)"
    unfolding sql_order_def block_tx_rows_def b list.sel
  proof (rule sort_key_last_first)
    show "sorted (map TIndex (map ?row (List.enumerate 1 txs)))"
      unfolding ix by (simp add: sorted_map del: upt_Suc)
    show "\<forall>r \<in> set (map ?row (List.enumerate 1 txs)). TIndex (tx_row_of (Height b) 0 c) < TIndex r"
      by (auto simp: tx_row_of_def in_set_enumerate_eq)
  qed
  then have order: "sql_order TIndex (block_tx_rows b) = map ?row (List.enumerate 0 (c # txs))" by simp
  have "foldE (\<lambda>transactions r.
       if TIndex r \<noteq> int (length transactions) then Inl (Errorf ''block transaction positions are not contiguous'')
       else case TData r of
         None \<Rightarrow> Inl ErrReorgBeyondPrune
       | Some tx \<Rightarrow> Inr (transactions @ [tx])) acc (map ?row (List.enumerate (length acc) ys)) = Inr (acc @ ys)" for acc ys
  proof (induction ys arbitrary: acc)
    case (Cons y ys)
    from Cons [of "acc @ [y]"] show ?case by (simp add: tx_row_of_def)
  qed simp
  from this [of "[]" "c # txs"] show ?thesis
    by (simp add: transactionsAt_def rows order b del: enumerate_simps)
qed

section \<open>The tip\<close>

lemma stored_heights:
  assumes "heights_ok blocks" "i < length blocks"
  shows "int64_of (Height (blocks ! i)) = int i"
  using assms by (simp add: heights_ok_def int64_of_nat)

lemma stored_txs_height:
  assumes "heights_ok blocks" "i < length blocks" "r \<in> set (stored_txs p blocks i)"
  shows "TBlockHeight r = int i"
  using assms(3) stored_heights [OF assms(1,2)]
  by (auto simp: stored_txs_def block_tx_rows_def tx_row_of_def)

lemma stored_txs_ids:
  assumes "Transactions (blocks ! i) \<noteq> []"
  shows "TId ` set (stored_txs p blocks i) = ID ` snd ` set (block_trace (blocks ! i))"
proof -
  let ?b = "blocks ! i"
  have "map TId (stored_txs p blocks i) = map TId (block_tx_rows ?b)"
    by (simp add: stored_txs_def)
  also have "\<dots> = map ID (map snd (List.enumerate 1 (tl (Transactions ?b)))) @ [ID (hd (Transactions ?b))]"
    by (simp add: block_tx_rows_def tx_row_of_def case_prod_unfold del: map_snd_enumerate)
  finally have "TId ` set (stored_txs p blocks i) = set (map ID (tl (Transactions ?b)) @ [ID (hd (Transactions ?b))])"
    by (metis list.set_map map_snd_enumerate)
  then show ?thesis by (simp add: block_trace_def image_comp comp_def)
qed

text \<open>The database without its tip.\<close>

definition cut_db :: "db \<Rightarrow> block list \<Rightarrow> nat \<Rightarrow> block \<Rightarrow> UndoRecord \<Rightarrow> db" where
  "cut_db d blocks p b u =
     d\<lparr>dbBlocks := map (stored_block p blocks) [0..<length blocks],
       dbTransactions := concat (map (stored_txs p blocks) [1..<length blocks]),
       dbAddresses := filter (\<lambda>a. ATxId a \<notin> ID ` set (Transactions b)) (dbAddresses d),
       dbUtxos := undone (dbUtxos d) u,
       dbUndo := filter (\<lambda>r. DHeight r \<noteq> int (length blocks)) (dbUndo d)\<rparr>"

lemma chain_trace_snoc: "blocks \<noteq> [] \<Longrightarrow> chain_trace (blocks @ [b]) = chain_trace blocks @ block_trace b"
  by (cases blocks) (simp_all add: chain_trace_def)

lemma replayed_seen:
  assumes "replayed C now blocks sts"
  shows "RSeen (sts (length blocks - 1)) = ID ` snd ` set (chain_trace blocks)"
proof -
  have "length blocks - 1 < length blocks" using assms by (cases blocks) (auto simp: replayed_def)
  from replayed_inv(1) [OF assms this] this show ?thesis by (simp add: chain_inv_def)
qed

lemma stored_ids:
  assumes rep: "replayed C now blocks sts"
  shows "TId ` set (concat (map (stored_txs p blocks) [1..<length blocks])) = RSeen (sts (length blocks - 1))"
proof -
  have tx: "Transactions (blocks ! i) \<noteq> []" if "0 < i" "i < length blocks" for i
    using replayed_inv(3) [OF rep that(2) that(1)] by simp
  have tl: "tl blocks = map (nth blocks) [1..<length blocks]"
    using map_nth [of blocks] by (metis drop0 drop_Suc drop_map drop_upt One_nat_def plus_1_eq_Suc add_0)
  have "TId ` set (stored_txs p blocks i) = ID ` snd ` set (block_trace (blocks ! i))" if "i \<in> set [1..<length blocks]" for i
    using that tx [of i] by (simp add: stored_txs_ids)
  then have "TId ` set (concat (map (stored_txs p blocks) [1..<length blocks])) =
      (\<Union>i \<in> set [1..<length blocks]. ID ` snd ` set (block_trace (blocks ! i)))"
    by (simp add: image_UN)
  also have "\<dots> = ID ` snd ` set (chain_trace blocks)" by (simp add: chain_trace_def tl image_UN)
  finally show ?thesis by (simp only: replayed_seen [OF rep])
qed

lemma cut_represents:
  assumes rep: "represents C now d (blocks @ [b]) sts us p" and ne: "blocks \<noteq> []" and p: "p < length blocks"
  shows "represents C now (cut_db d blocks p b (us (length blocks))) blocks sts us p"
proof -
  let ?n = "length blocks" and ?u = "us (length blocks)"
  have all: "replayed C now (blocks @ [b]) sts" "prunedThrough d = Inr (word_of_nat p)"
    "dbUndo d = map (\<lambda>i. undo_row_of ((blocks @ [b]) ! i) (us i)) [Suc p..<Suc ?n]"
    "\<And>i. p < i \<Longrightarrow> i < Suc ?n \<Longrightarrow> undo_ok C (us i) (sts (i - 1)) (sts i)" "ledger_sim C d (sts ?n)"
    using rep by (simp_all add: represents_def)
  note r0 = replayed_butlast(1) [OF all(1) ne]
  have ho: "heights_ok (blocks @ [b])" using all(1) by (simp add: replayed_def)
  have h: "int64_of (Height ((blocks @ [b]) ! i)) = int i" if "i < Suc ?n" for i
    using stored_heights [OF ho, of i] that by simp
  have h0: "int64_of (Height (blocks ! i)) = int i" if "i < ?n" for i
    using h [of i] that by (simp add: nth_append)
  have seen: "RSeen (sts ?n) = RSeen (sts (?n - 1)) \<union> ID ` set (Transactions b)"
  proof -
    have "Transactions b \<noteq> []" using replayed_inv(3) [OF all(1), of ?n ?n] ne by simp
    then have "ID ` snd ` set (block_trace b) = ID ` set (Transactions b)"
      by (cases "Transactions b") (auto simp: block_trace_def image_image)
    then show ?thesis
      using replayed_seen [OF all(1)] replayed_seen [OF r0] by (simp add: chain_trace_snoc [OF ne] image_Un)
  qed
  have sim: "utxos_ok (dbUtxos d)" "addressed C (dbUtxos d)" "utxos_get (dbUtxos d) = coins_get (coins_of (sts ?n))"
    "ATxId ` set (dbAddresses d) \<subseteq> RSeen (sts ?n)"
    using all(5) by (simp_all add: ledger_sim_def)
  have "undo_ok C ?u (sts (?n - 1)) (sts ?n)" using all(4) [of ?n] p by simp
  then have u: "undo_restorable C ?u"
    "ledger_coins.recorded (coins_get (coins_of (sts (?n - 1)))) (undo_spent ?u) (Created ?u) (dbUtxos d)"
    using sim utxos_ok_wf [OF sim(1)] by (simp_all add: undo_ok_def chain_coins.recorded_def ledger_coins.recorded_def)
  note un = undone_utxos [OF u(2) sim(1,2) u(1)]
  have "ledger_sim C (cut_db d blocks p b ?u) (sts (?n - 1))"
    using un stored_ids [OF r0, of p] sim(4) seen unfolding ledger_sim_def by (auto simp: cut_db_def)
  moreover have "filter (\<lambda>r. DHeight r \<noteq> int ?n) (dbUndo d) = map (\<lambda>i. undo_row_of (blocks ! i) (us i)) [Suc p..<?n]"
  proof -
    have "dbUndo d = map (\<lambda>i. undo_row_of (blocks ! i) (us i)) [Suc p..<?n] @ [undo_row_of b ?u]"
      using p by (simp add: all(3) nth_append)
    moreover have "\<forall>r \<in> set (map (\<lambda>i. undo_row_of (blocks ! i) (us i)) [Suc p..<?n]). DHeight r \<noteq> int ?n"
      using h0 by (auto simp: undo_row_of_def)
    moreover have "DHeight (undo_row_of b ?u) = int ?n" using h [of ?n] by (simp add: undo_row_of_def)
    ultimately show ?thesis by (simp add: filter_id_conv)
  qed
  moreover have "undo_ok C (us i) (sts (i - 1)) (sts i)" if "p < i" "i < ?n" for i
    using all(4) [of i] that by simp
  ultimately show ?thesis
    using r0 p all(2) by (simp add: represents_def cut_db_def prunedThrough_def uint64Metadata_def)
qed

text \<open>\<open>disconnectTip\<close> computes that database, and gives back the block and its regular transactions.\<close>

lemma find_snoc: "\<forall>x \<in> set xs. \<not> P x \<Longrightarrow> P y \<Longrightarrow> find P (xs @ [y]) = Some y"
  by (induction xs) auto

lemma regular_transactions:
  assumes "replayBody C st b = Inr st'"
  shows "filter (\<lambda>tx. \<not> Coinbase tx) (Transactions b) = tl (Transactions b)"
proof -
  obtain r where r: "Transactions b \<noteq> []" "Coinbase (hd (Transactions b))"
    "foldE (replayTransaction C (Height b)) (st, 0) (tl (Transactions b)) = Inr r"
    using assms by (auto simp: replayBody_def res_simps split: if_splits)
  have "\<forall>tx \<in> set txs. \<not> Coinbase tx" if "foldE (replayTransaction C h) acc txs = Inr r" for acc h txs
    using that by (induction txs arbitrary: acc) (auto simp: res_simps replayTransaction_def split: prod.splits if_splits)
  from this [OF r(3)] r(1,2) show ?thesis by (cases "Transactions b") (simp_all add: filter_id_conv)
qed

lemma deleteBlock_at:
  assumes "BHeight ` set (filter (\<lambda>r. BHeight r = int64_of h \<and> BHash r = hash) (dbBlocks d)) = {k}"
  shows "deleteBlock h hash d =
     (d\<lparr>dbBlocks := filter (\<lambda>r. \<not> (BHeight r = int64_of h \<and> BHash r = hash)) (dbBlocks d),
        dbTransactions := filter (\<lambda>t. TBlockHeight t \<noteq> k) (dbTransactions d),
        dbAddresses := filter (\<lambda>a. ATxId a \<notin> TId ` set (filter (\<lambda>t. TBlockHeight t = k) (dbTransactions d))) (dbAddresses d),
        dbUndo := filter (\<lambda>u. DHeight u \<noteq> k) (dbUndo d)\<rparr>,
      length (filter (\<lambda>r. BHeight r = int64_of h \<and> BHash r = hash) (dbBlocks d)))"
  unfolding deleteBlock_def Let_def sql_delete_def assms prod.case singleton_iff by (rule refl)

lemma disconnect_computes:
  assumes rep: "represents C now d (blocks @ [b]) sts us p" and ne: "blocks \<noteq> []" and p: "p < length blocks"
  shows "disconnectTip C d = Inr (cut_db d blocks p b (us (length blocks)), b, tl (Transactions b))"
proof -
  let ?n = "length blocks" and ?u = "us (length blocks)" and ?h = "word_of_nat (length blocks) :: u64"
  have all: "replayed C now (blocks @ [b]) sts" "prunedThrough d = Inr (word_of_nat p)"
    "dbBlocks d = map (stored_block p (blocks @ [b])) [0..<Suc ?n]"
    "dbTransactions d = concat (map (stored_txs p (blocks @ [b])) [1..<Suc ?n])"
    "dbUndo d = map (\<lambda>i. undo_row_of ((blocks @ [b]) ! i) (us i)) [Suc p..<Suc ?n]"
    "undo_ok C ?u (sts (?n - 1)) (sts ?n)" "ledger_sim C d (sts ?n)"
    using rep p by (simp_all add: represents_def)
  have ho: "heights_ok (blocks @ [b])" using all(1) by (simp add: replayed_def)
  have hb: "int64_of (Height b) = int ?n" using stored_heights [OF ho, of ?n] by simp
  have h0: "int64_of (Height (blocks ! i)) = int i" if "i < ?n" for i
    using stored_heights [OF ho, of i] that by (simp add: nth_append)
  have len: "?n < 9223372036854775808" using ho by (simp add: heights_ok_def)
  then have w: "int64_of ?h = int ?n" "uint ?h \<le> MaxInt64" "unat ?h = ?n" "unat (word_of_nat p :: u64) = p"
    using p by (simp_all add: int64_of_nat uint_nat unat_word_of_nat_64 MaxInt64_def del: of_nat_unat)
  have tip: "tipFromQuery d = Inr \<lparr>TipHeight = ?h, TipHash = Hash b, TipTimestamp = Timestamp b,
      TipDifficulty = Difficulty b, TipWork = chain_work (blocks @ [b])\<rparr>"
    using represents_tip [OF rep] by simp
  have above: "?h \<noteq> 0" "\<not> ?h \<le> word_of_nat p"
    using w ne p by (auto simp: word_le_nat_alt)
  let ?row = "stored_block p (blocks @ [b]) ?n"
  have row: "BHeight ?row = int ?n" "BHash ?row = Hash b" "BData ?row = Some b"
    using hb p by (simp_all add: stored_block_def block_row_of_def)
  have rows: "dbBlocks d = map (stored_block p blocks) [0..<?n] @ [?row]"
  proof -
    have "map (stored_block p (blocks @ [b])) [0..<?n] = map (stored_block p blocks) [0..<?n]"
      by (auto simp: stored_block_def nth_append)
    then show ?thesis using all(3) by (simp del: map_eq_conv)
  qed
  have other: "\<forall>r \<in> set (map (stored_block p blocks) [0..<?n]). BHeight r \<noteq> int ?n"
    using h0 by (auto simp: stored_block_def block_row_of_def)
  have find_row: "find (\<lambda>r. BHeight r = int ?n) (dbBlocks d) = Some ?row"
    unfolding rows using other row(1) by (intro find_snoc) auto
  have txs: "dbTransactions d = concat (map (stored_txs p blocks) [1..<?n]) @ block_tx_rows b"
  proof -
    have "map (stored_txs p (blocks @ [b])) [1..<?n] = map (stored_txs p blocks) [1..<?n]"
      by (auto simp: stored_txs_def nth_append)
    moreover have "stored_txs p (blocks @ [b]) ?n = block_tx_rows b" using p by (simp add: stored_txs_def)
    moreover have "Suc 0 \<le> ?n" using ne by (cases blocks) auto
    ultimately show ?thesis using all(4) by (simp del: map_eq_conv)
  qed
  have tx_rows: "\<forall>r \<in> set (block_tx_rows b). TBlockHeight r = int ?n"
    using hb by (auto simp: block_tx_rows_def tx_row_of_def)
  have ho0: "heights_ok blocks" using replayed_butlast(1) [OF all(1) ne] by (simp add: replayed_def)
  have tx_other: "\<forall>r \<in> set (concat (map (stored_txs p blocks) [1..<?n])). TBlockHeight r \<noteq> int ?n"
    using stored_txs_height [OF ho0, of _ _ p] by fastforce
  have "filter (\<lambda>r. TBlockHeight r = int ?n) (dbTransactions d) =
      filter (\<lambda>r. TBlockHeight r = int ?n) (concat (map (stored_txs p blocks) [1..<?n])) @
      filter (\<lambda>r. TBlockHeight r = int ?n) (block_tx_rows b)"
    by (simp only: txs filter_append)
  moreover have "filter (\<lambda>r. TBlockHeight r = int ?n) (concat (map (stored_txs p blocks) [1..<?n])) = []"
    using tx_other unfolding filter_empty_conv by blast
  moreover have "filter (\<lambda>r. TBlockHeight r = int ?n) (block_tx_rows b) = block_tx_rows b"
    using tx_rows unfolding filter_id_conv by blast
  ultimately have at: "filter (\<lambda>r. TBlockHeight r = int64_of ?h) (dbTransactions d) = block_tx_rows b"
    by (simp add: w(1))
  note step = replayed_butlast(2) [OF all(1) ne]
  have body: "replayBody C (sts (?n - 1)) b = Inr (sts ?n)"
    using step by (auto simp: replayBlock_snoc [OF ne] res_simps)
  have tne: "Transactions b \<noteq> []" using body by (auto simp: replayBody_def split: if_splits)
  have regular: "regularTransactionsAt d ?h = Inr (tl (Transactions b))"
    using transactionsAt_block [OF at tne] regular_transactions [OF body] by (simp add: regularTransactionsAt_def)
  have block: "blockFromQuery d ?h = Inr b"
    using w(2) find_row row(3) by (simp add: blockFromQuery_def w(1))
  have undo: "find (\<lambda>r. DHeight r = int ?n) (dbUndo d) = Some (undo_row_of b ?u)"
  proof -
    have "dbUndo d = map (\<lambda>i. undo_row_of (blocks ! i) (us i)) [Suc p..<?n] @ [undo_row_of b ?u]"
      using p by (simp add: all(5) nth_append)
    moreover have "\<forall>r \<in> set (map (\<lambda>i. undo_row_of (blocks ! i) (us i)) [Suc p..<?n]). DHeight r \<noteq> int ?n"
      using h0 by (auto simp: undo_row_of_def)
    ultimately show ?thesis using hb by (simp add: find_snoc undo_row_of_def)
  qed
  have sim: "utxos_ok (dbUtxos d)" "utxos_get (dbUtxos d) = coins_get (coins_of (sts ?n))"
    using all(7) by (simp_all add: ledger_sim_def)
  have "undo_restorable C ?u"
    "ledger_coins.recorded (coins_get (coins_of (sts (?n - 1)))) (undo_spent ?u) (Created ?u) (dbUtxos d)"
    using all(6) sim utxos_ok_wf [OF sim(1)]
    by (simp_all add: undo_ok_def chain_coins.recorded_def ledger_coins.recorded_def)
  note loops = undo_loops [OF this(2,1)]
  have del: "deleteBlock ?h (Hash b) (d\<lparr>dbUtxos := undone (dbUtxos d) ?u\<rparr>) = (cut_db d blocks p b ?u, 1)"
  proof -
    let ?gone = "\<lambda>r. BHeight r = int ?n \<and> BHash r = Hash b"
    have keep: "filter (\<lambda>r. \<not> ?gone r) (dbBlocks d) = map (stored_block p blocks) [0..<?n]"
      and gone: "filter ?gone (dbBlocks d) = [?row]"
      unfolding rows using other row(1,2) by (auto simp: filter_id_conv filter_empty_conv)
    have ids: "TId ` set (filter (\<lambda>r. TBlockHeight r = int ?n) (dbTransactions d)) = ID ` set (Transactions b)"
    proof -
      have "TId ` set (block_tx_rows b) = ID ` snd ` set (block_trace b)"
        using stored_txs_ids [of "[b]" 0 0] tne by (simp add: stored_txs_def image_image)
      then show ?thesis using at w(1) tne by (cases "Transactions b") (auto simp: block_trace_def image_image)
    qed
    have txs': "filter (\<lambda>r. TBlockHeight r \<noteq> int ?n) (dbTransactions d) = concat (map (stored_txs p blocks) [1..<?n])"
    proof -
      have "filter (\<lambda>r. TBlockHeight r \<noteq> int ?n) (concat (map (stored_txs p blocks) [1..<?n])) =
          concat (map (stored_txs p blocks) [1..<?n])"
        using tx_other unfolding filter_id_conv by blast
      moreover have "filter (\<lambda>r. TBlockHeight r \<noteq> int ?n) (block_tx_rows b) = []"
        using tx_rows unfolding filter_empty_conv by blast
      ultimately show ?thesis by (simp only: txs filter_append append_Nil2)
    qed
    have "BHeight ` set (filter ?gone (dbBlocks d)) = {int ?n}" using row(1) by (simp only: gone) simp
    then have "deleteBlock ?h (Hash b) (d\<lparr>dbUtxos := undone (dbUtxos d) ?u\<rparr>) =
        ((d\<lparr>dbUtxos := undone (dbUtxos d) ?u\<rparr>)\<lparr>dbBlocks := map (stored_block p blocks) [0..<?n],
           dbTransactions := concat (map (stored_txs p blocks) [1..<?n]),
           dbAddresses := filter (\<lambda>a. ATxId a \<notin> ID ` set (Transactions b)) (dbAddresses d),
           dbUndo := filter (\<lambda>u. DHeight u \<noteq> int ?n) (dbUndo d)\<rparr>, 1)"
      using deleteBlock_at [of ?h "Hash b" "d\<lparr>dbUtxos := undone (dbUtxos d) ?u\<rparr>" "int ?n"] keep gone ids txs'
      by (simp add: w(1) del: One_nat_def set_filter)
    then show ?thesis by (simp add: cut_db_def)
  qed
  show ?thesis
    using above loops del by (simp add: disconnectTip_def tip all(2) block w(1) undo undo_row_of_def regular)
qed

end
