(* ===== verification/Mempool_Inv.thy ===== *)
theory Mempool_Inv
  imports Ledger_Chain "HOL-Library.Sublist"
begin

text \<open>
  The mempool against the whole-chain model: on a database whose chain is at a replay state, the tables
  of the mempool always stand for a list of pending transactions that the chain's own rule for pending
  transactions (\<open>replayPending\<close>) accepts one after the other, within the budgets of the ledger.
\<close>

section \<open>The tables of the mempool\<close>

definition pool_input :: "transaction \<Rightarrow> tx_input \<Rightarrow> mempool_input_row" where
  "pool_input tx input = \<lparr>ITxId = ID tx, IInputTxId = InTxID input, IInputIndex = uint (OutputIndex input)\<rparr>"

definition pool_output :: "transaction \<Rightarrow> nat \<times> tx_output \<Rightarrow> mempool_output_row" where
  "pool_output tx ix = \<lparr>OTxId = ID tx, OIndex = int (fst ix), OAmount = int64_of (Amount (snd ix)), OAddress = Address (snd ix)\<rparr>"

definition pool_txs :: "db \<Rightarrow> transaction list" where
  "pool_txs d = map MData (dbMempool d)"

definition pool_row_ok :: "mempool_row \<Rightarrow> bool" where
  "pool_row_ok m \<longleftrightarrow> MTxId m = ID (MData m) \<and> MEncodedSize m = int (encodedSize (MData m)) \<and>
     0 < MSequence m \<and> 0 \<le> MFee m \<and> minimumRelayFee (MEncodedSize m) \<le> word_of_int (MFee m)"

text \<open>Every row of the index tables belongs to a pending transaction, and its columns are those of the transaction.\<close>

definition pool_tables :: "db \<Rightarrow> bool" where
  "pool_tables d \<longleftrightarrow> (\<forall>m \<in> set (dbMempool d). pool_row_ok m \<and> MSequence m \<le> dbMempoolSeq d) \<and>
     sorted_wrt (<) (map MSequence (dbMempool d)) \<and> 0 \<le> dbMempoolSeq d \<and>
     dbMempoolInputs d = concat (map (\<lambda>tx. map (pool_input tx) (Inputs tx)) (pool_txs d)) \<and>
     dbMempoolOutputs d = concat (map (\<lambda>tx. map (pool_output tx) (List.enumerate 0 (Outputs tx))) (pool_txs d)) \<and>
     (\<forall>tx \<in> set (pool_txs d). outputs_storable (Outputs tx) \<and> length (Outputs tx) \<le> 256)"

definition pool_usage :: "db \<Rightarrow> mempoolResourceUsage" where
  "pool_usage d = \<lparr>UsageCount = int (length (dbMempool d)), UsageBytes = (\<Sum>tx\<leftarrow>pool_txs d. int (encodedSize tx)),
     UsageInputs = (\<Sum>tx\<leftarrow>pool_txs d. int (length (Inputs tx)))\<rparr>"

definition pool_within_budget :: "db \<Rightarrow> bool" where
  "pool_within_budget d \<longleftrightarrow> UsageCount (pool_usage d) \<le> int MaxPendingTransactions \<and>
     UsageBytes (pool_usage d) \<le> MaxMempoolBytes \<and> UsageInputs (pool_usage d) \<le> MaxMempoolInputs"

section \<open>What one admission writes\<close>

definition admitted_db :: "db \<Rightarrow> transaction \<Rightarrow> int \<Rightarrow> u64 \<Rightarrow> db" where
  "admitted_db d tx firstSeen fee =
     d\<lparr>dbMempool := dbMempool d @ [\<lparr>MSequence = dbMempoolSeq d + 1, MTxId = ID tx, MFirstSeen = firstSeen,
         MFee = int64_of fee, MEncodedSize = int (encodedSize tx), MData = tx\<rparr>],
       dbMempoolSeq := dbMempoolSeq d + 1,
       dbMempoolInputs := dbMempoolInputs d @ map (pool_input tx) (Inputs tx),
       dbMempoolOutputs := dbMempoolOutputs d @ map (pool_output tx) (List.enumerate 0 (Outputs tx))\<rparr>"

lemma pool_txs_admitted [simp]: "pool_txs (admitted_db d tx firstSeen fee) = pool_txs d @ [tx]"
  by (simp add: pool_txs_def admitted_db_def)

definition pool_spent :: "db \<Rightarrow> outpoint set" where
  "pool_spent d = (\<Union>tx \<in> set (pool_txs d). set (spends tx))"

lemma mempool_input_at_pool: "mempool_input_at op (pool_input tx inp) \<longleftrightarrow> op = input_outpoint inp"
  by (cases op) (auto simp: mempool_input_at_def pool_input_def input_outpoint_def word_uint_eq_iff)

lemma pool_spent_iff:
  assumes "pool_tables d"
  shows "(\<exists>r \<in> set (dbMempoolInputs d). mempool_input_at op r) \<longleftrightarrow> op \<in> pool_spent d"
  using assms by (auto simp: pool_tables_def pool_spent_def spends_def mempool_input_at_pool)

lemma insertInputs:
  "foldE (\<lambda>d input. insertMempoolInput
       \<lparr>ITxId = ID tx, IInputTxId = InTxID input, IInputIndex = uint (OutputIndex input)\<rparr> d) d ins = Inr d' \<longleftrightarrow>
     (ins \<noteq> [] \<longrightarrow> (\<exists>m \<in> set (dbMempool d). MTxId m = ID tx)) \<and> distinct (map input_outpoint ins) \<and>
     (\<forall>inp \<in> set ins. \<forall>r \<in> set (dbMempoolInputs d). \<not> mempool_input_at (input_outpoint inp) r) \<and>
     d' = d\<lparr>dbMempoolInputs := dbMempoolInputs d @ map (pool_input tx) ins\<rparr>"
proof (induction ins arbitrary: d)
  case (Cons inp ins)
  let ?d = "d\<lparr>dbMempoolInputs := dbMempoolInputs d @ [pool_input tx inp]\<rparr>"
  have step: "insertMempoolInput \<lparr>ITxId = ID tx, IInputTxId = InTxID inp, IInputIndex = uint (OutputIndex inp)\<rparr> d = Inr d1 \<longleftrightarrow>
      (\<exists>m \<in> set (dbMempool d). MTxId m = ID tx) \<and> (\<forall>r \<in> set (dbMempoolInputs d). \<not> mempool_input_at (input_outpoint inp) r) \<and> d1 = ?d" for d1
    by (auto simp: insertMempoolInput_def res_simps mempool_input_at_def input_outpoint_def pool_input_def)
  show ?case
    by (auto simp: res_simps step Cons.IH mempool_input_at_pool) (metis imageI)
qed auto

lemma insertOutputsPool:
  assumes "n + length outs \<le> 4294967296"
  shows "foldE (\<lambda>d (index, output). insertMempoolOutput
       \<lparr>OTxId = ID tx, OIndex = int index, OAmount = int64_of (Amount output), OAddress = Address output\<rparr> d) d
       (List.enumerate n outs) = Inr d' \<longleftrightarrow>
     (outs \<noteq> [] \<longrightarrow> (\<exists>m \<in> set (dbMempool d). MTxId m = ID tx)) \<and>
     (\<forall>i \<in> {n..<n + length outs}. \<forall>r \<in> set (dbMempoolOutputs d). OTxId r = ID tx \<longrightarrow> OIndex r \<noteq> int i) \<and>
     d' = d\<lparr>dbMempoolOutputs := dbMempoolOutputs d @ map (pool_output tx) (List.enumerate n outs)\<rparr>"
  using assms
proof (induction outs arbitrary: d n)
  case (Cons out outs)
  let ?d = "d\<lparr>dbMempoolOutputs := dbMempoolOutputs d @ [pool_output tx (n, out)]\<rparr>"
  have step: "insertMempoolOutput \<lparr>OTxId = ID tx, OIndex = int n, OAmount = int64_of (Amount out), OAddress = Address out\<rparr> d = Inr d1 \<longleftrightarrow>
      (\<exists>m \<in> set (dbMempool d). MTxId m = ID tx) \<and> (\<forall>r \<in> set (dbMempoolOutputs d). OTxId r = ID tx \<longrightarrow> OIndex r \<noteq> int n) \<and> d1 = ?d" for d1
    by (auto simp: insertMempoolOutput_def res_simps pool_output_def)
  have range: "{n..<n + length (out # outs)} = insert n {Suc n..<Suc n + length outs}" by auto
  have new: "(\<forall>r \<in> set (dbMempoolOutputs ?d). OTxId r = ID tx \<longrightarrow> OIndex r \<noteq> int i) \<longleftrightarrow>
      (\<forall>r \<in> set (dbMempoolOutputs d). OTxId r = ID tx \<longrightarrow> OIndex r \<noteq> int i)" if "i \<in> {Suc n..<Suc n + length outs}" for i
    using that by (auto simp: pool_output_def)
  show ?case
    unfolding range using Cons.prems Cons.IH [of "Suc n" ?d] new by (auto simp: res_simps step)
qed auto

lemma pool_output_ids: "pool_tables d \<Longrightarrow> r \<in> set (dbMempoolOutputs d) \<Longrightarrow> OTxId r \<in> MTxId ` set (dbMempool d)"
  by (auto simp: pool_tables_def pool_txs_def pool_output_def pool_row_ok_def)

lemma store_admitted:
  assumes tab: "pool_tables d" and new: "ID tx \<notin> MTxId ` set (dbMempool d)" and len: "length (Outputs tx) \<le> 256"
  shows "storeMempoolTransaction tx firstSeen fee d = Inr d' \<longleftrightarrow>
     dbMempoolSeq d < MaxInt64 \<and> distinct (spends tx) \<and> set (spends tx) \<inter> pool_spent d = {} \<and>
     d' = admitted_db d tx firstSeen fee"
proof -
  let ?row = "\<lparr>MSequence = dbMempoolSeq d + 1, MTxId = ID tx, MFirstSeen = firstSeen,
      MFee = int64_of fee, MEncodedSize = int (encodedSize tx), MData = tx\<rparr>"
  let ?d1 = "d\<lparr>dbMempool := dbMempool d @ [?row], dbMempoolSeq := dbMempoolSeq d + 1\<rparr>"
  have one: "insertMempool \<lparr>MSequence = 0, MTxId = ID tx, MFirstSeen = firstSeen, MFee = int64_of fee,
       MEncodedSize = int (encodedSize tx), MData = tx\<rparr> d = Inr d1 \<longleftrightarrow> dbMempoolSeq d < MaxInt64 \<and> d1 = ?d1" for d1
    using new by (auto simp: insertMempool_def res_simps image_iff)
  have two: "(\<forall>inp \<in> set (Inputs tx). \<forall>r \<in> set (dbMempoolInputs d). \<not> mempool_input_at (input_outpoint inp) r) \<longleftrightarrow>
      set (spends tx) \<inter> pool_spent d = {}"
    using pool_spent_iff [OF tab] by (auto simp: spends_def)
  have three: "\<forall>r \<in> set (dbMempoolOutputs d). OTxId r \<noteq> ID tx" using pool_output_ids [OF tab] new by metis
  show ?thesis
    using len three two
    by (auto simp: storeMempoolTransaction_def res_simps one insertInputs insertOutputsPool spends_def admitted_db_def)
qed

section \<open>The relation to the replay\<close>

text \<open>What a pending output adds to the coins, and what the lookups of the mempool see.\<close>

definition pool_coin :: "db \<Rightarrow> u64 \<Rightarrow> outpoint \<Rightarrow> coin option" where
  "pool_coin d h op = map_option (\<lambda>r. (\<lparr>Amount = word_of_int (OAmount r), Address = OAddress r\<rparr>,
     \<lparr>CreatedHeight = h, FromCoinbase = False\<rparr>)) (find (mempool_output_at op) (dbMempoolOutputs d))"

definition pool_view :: "db \<Rightarrow> u64 \<Rightarrow> outpoint \<Rightarrow> coin option" where
  "pool_view d h op = (if op \<in> pool_spent d then None
     else case utxos_get (dbUtxos d) op of Some c \<Rightarrow> Some c | None \<Rightarrow> pool_coin d h op)"

definition pool_sim :: "crypto \<Rightarrow> db \<Rightarrow> replay_state \<Rightarrow> trace \<Rightarrow> u64 \<Rightarrow> replay_state \<Rightarrow> bool" where
  "pool_sim C d st0 tr h st \<longleftrightarrow> h \<noteq> 0 \<and> ledger_sim C d st0 \<and> chain_inv st0 tr \<and> state_value st0 \<le> 200000000000000 \<and>
     pool_tables d \<and> foldE (replayPending C h) st0 (pool_txs d) = Inr st \<and>
     RSeen st = TId ` set (dbTransactions d) \<union> MTxId ` set (dbMempool d) \<and>
     coins_get (coins_of st) = pool_view d h"

lemma pool_sim_inv:
  assumes "pool_sim C d st0 tr h st"
  shows "chain_inv st (tr @ map (Pair h) (pool_txs d))" "state_value st \<le> 200000000000000"
  using assms replayPendings_extend [of st0 tr h C "pool_txs d" st] by (auto simp: pool_sim_def)

lemma pool_output_positive:
  assumes "pool_tables d" "r \<in> set (dbMempoolOutputs d)"
  shows "0 < OAmount r"
proof -
  obtain tx out i where t: "tx \<in> set (pool_txs d)" "out \<in> set (Outputs tx)" "r = pool_output tx (i, out)"
    using assms by (auto simp: pool_tables_def dest: enumerate_element)
  then have "Amount out \<noteq> 0" "unat (Amount out) \<le> 9223372036854775807"
    using assms(1) by (auto simp: pool_tables_def outputs_storable_def)
  then show ?thesis
    using t(3) int64_of_small [of "Amount out"] by (simp add: pool_output_def uint_unat_le word_neq_0_conv word_less_def)
qed

lemma lookup_pool:
  assumes sim: "pool_sim C d st0 tr h st"
  shows "lookupMempoolSpendable d op h = Inr out \<longleftrightarrow>
     (\<exists>c. coins_get (coins_of st) op = Some c \<and> out = fst c \<and>
        (FromCoinbase (snd c) \<longrightarrow> IsCoinbaseMature (CreatedHeight (snd c)) h))"
proof -
  have tab: "pool_tables d" and ok: "utxos_ok (dbUtxos d)" and view: "coins_get (coins_of st) = pool_view d h"
    using sim by (simp_all add: pool_sim_def ledger_sim_def)
  show ?thesis
  proof (cases "op \<in> pool_spent d")
    case True
    then show ?thesis by (simp add: lookupMempoolSpendable_def pool_spent_iff [OF tab] view pool_view_def)
  next
    case False
    show ?thesis
    proof (cases "utxos_get (dbUtxos d) op")
      case None
      then have f: "find (utxo_at op) (dbUtxos d) = None" by (simp add: utxos_get_def)
      have pos: "0 < OAmount r" if "find (mempool_output_at op) (dbMempoolOutputs d) = Some r" for r
        using that pool_output_positive [OF tab] by (auto simp: find_Some_iff)
      show ?thesis
        using False None f pos
        by (auto simp: lookupMempoolSpendable_def pool_spent_iff [OF tab] view pool_view_def pool_coin_def split: option.splits)
    next
      case (Some c)
      note f = utxos_ok_get [OF ok Some]
      note col = coin_row_columns [OF f(2), of op]
      have "UCoinbase (coin_row op c) = 1 \<longleftrightarrow> FromCoinbase (snd c)"
        "word_of_int (UCreatedHeight (coin_row op c)) = CreatedHeight (snd c)"
        "\<lparr>Amount = word_of_int (UAmount (coin_row op c)), Address = UAddress (coin_row op c)\<rparr> = fst c"
        by (simp_all add: coin_row_def bool_column_def int64_of_def)
      then show ?thesis
        using False Some f(1) col
        by (auto simp: lookupMempoolSpendable_def pool_spent_iff [OF tab] view pool_view_def)
    qed
  qed
qed

section \<open>One admission\<close>

definition admissible :: "crypto \<Rightarrow> db \<Rightarrow> replay_state \<Rightarrow> u64 \<Rightarrow> transaction \<Rightarrow> u64 \<Rightarrow> bool" where
  "admissible C d st h tx fee \<longleftrightarrow>
     ID tx \<notin> RSeen st \<and> validateRegularTransaction C tx (RUtxo st) = Inr fee \<and>
     validateCoinbaseMaturity tx (ROrigins st) h = Inr () \<and> minimumRelayFee (int (encodedSize tx)) \<le> fee \<and>
     validateMempoolResourceBudget (UsageCount (pool_usage d)) (UsageBytes (pool_usage d)) (UsageInputs (pool_usage d))
       (int (encodedSize tx)) (int (length (Inputs tx))) = Inr () \<and> dbMempoolSeq d < MaxInt64"

lemma rejectMempool_Inr [res_simps]: "rejectMempool r = Inr x \<longleftrightarrow> r = Inr x"
  by (auto simp: rejectMempool_def split: sum.splits)

definition spendable_coin :: "replay_state \<Rightarrow> u64 \<Rightarrow> outpoint \<Rightarrow> bool" where
  "spendable_coin st h op \<longleftrightarrow> (\<exists>c. coins_get (coins_of st) op = Some c \<and>
     (FromCoinbase (snd c) \<longrightarrow> IsCoinbaseMature (CreatedHeight (snd c)) h))"

lemma lookup_loop:
  assumes "pool_sim C d st0 tr h st"
  shows "foldE (\<lambda>utxo input.
       attempt (lookupMempoolSpendable d (input_outpoint input) h) (\<lambda>output.
       Inr (AList.update (input_outpoint input) output utxo))) u ins = Inr utxo \<longleftrightarrow>
     (\<forall>op \<in> input_outpoint ` set ins. spendable_coin st h op) \<and>
     utxo = foldl (\<lambda>u op. AList.update op (fst (the (coins_get (coins_of st) op))) u) u (map input_outpoint ins)"
proof (induction ins arbitrary: u)
  case (Cons inp ins)
  show ?case by (auto simp: res_simps Cons.IH lookup_pool [OF assms] spendable_coin_def)
qed auto

text \<open>What a transaction that is valid at the state of the pool satisfies besides.\<close>

lemma pool_valid:
  assumes sim: "pool_sim C d st0 tr h st" and new: "ID tx \<notin> RSeen st"
    and ok: "validateRegularTransaction C tx (RUtxo st) = Inr fee"
    and mat: "validateCoinbaseMaturity tx (ROrigins st) h = Inr ()"
  shows "\<exists>cs. applyRegularTransaction tx h (coins_of st) = Inr cs" "uint fee \<le> MaxInt64"
    "outputs_storable (Outputs tx)" "length (Outputs tx) \<le> 256" "distinct (spends tx)"
    "set (spends tx) \<inter> pool_spent d = {}"
proof -
  let ?cs = "coins_of st"
  have view: "coins_get ?cs = pool_view d h" and h: "h \<noteq> 0" using sim by (simp_all add: pool_sim_def)
  note inv = pool_sim_inv [OF sim]
  have wf: "coins_wf ?cs" using inv(1) by (simp add: chain_inv_def)
  have ok': "validateRegularTransaction C tx (fst ?cs) = Inr fee" using ok by (simp add: coins_of_def)
  show len: "length (Outputs tx) \<le> 256"
    using ok by (simp add: validateRegularTransaction_eq_Inr regular_tx_ok_def MaxTransactionOutputs_def)
  show app: "\<exists>cs. applyRegularTransaction tx h ?cs = Inr cs"
    using applyRegular_succeeds [OF wf, of tx h] fresh_absent [OF inv(1) new] len by auto
  from app regular_extend(2) [OF inv(1) h new ok mat] inv(2) have "unat fee \<le> 200000000000000" by fastforce
  then show "uint fee \<le> MaxInt64" by (simp add: uint_unat_le)
  show "outputs_storable (Outputs tx)"
    by (rule regular_storable [OF wf ok']) (use inv(2) in \<open>simp add: state_value_def\<close>)
  show "distinct (spends tx)" by (rule spent_present(1) [OF wf ok'])
  show "set (spends tx) \<inter> pool_spent d = {}"
    using spent_present(2) [OF wf ok'] by (auto simp: view pool_view_def)
qed

lemma bex_image: "(\<exists>r \<in> A. f r = i) \<longleftrightarrow> i \<in> f ` A"
  by auto

lemma known_pool:
  assumes "pool_sim C d st0 tr h st"
  shows "(\<exists>r \<in> set (dbTransactions d). TId r = ID tx) \<or> (\<exists>r \<in> set (dbMempool d). MTxId r = ID tx) \<longleftrightarrow> ID tx \<in> RSeen st"
proof -
  have "RSeen st = TId ` set (dbTransactions d) \<union> MTxId ` set (dbMempool d)" using assms by (simp add: pool_sim_def)
  then show ?thesis by (simp add: bex_image)
qed

definition viewed_inputs :: "replay_state \<Rightarrow> transaction \<Rightarrow> utxo" where
  "viewed_inputs st tx = foldl (\<lambda>u op. AList.update op (fst (the (coins_get (coins_of st) op))) u) [] (spends tx)"

lemma spendable_coins_mature:
  assumes "coins_wf (coins_of st)"
  shows "(\<forall>op \<in> set (spends tx). spendable_coin st h op) \<longleftrightarrow> validateCoinbaseMaturity tx (ROrigins st) h = Inr ()"
  using lookup_coins(2) [OF assms] by (simp add: validateCoinbaseMaturity_iff coins_of_def spendable_coin_def) blast

lemma lookups_pool:
  assumes sim: "pool_sim C d st0 tr h st"
  shows "foldE (\<lambda>utxo input.
       attempt (lookupMempoolSpendable d (input_outpoint input) h) (\<lambda>output.
       Inr (AList.update (input_outpoint input) output utxo))) [] (Inputs tx) = Inr utxo \<longleftrightarrow>
     validateCoinbaseMaturity tx (ROrigins st) h = Inr () \<and> utxo = viewed_inputs st tx"
proof -
  have "coins_wf (coins_of st)" using pool_sim_inv(1) [OF sim] by (simp add: chain_inv_def)
  from spendable_coins_mature [OF this, of tx h] show ?thesis
    unfolding lookup_loop [OF sim] by (simp add: viewed_inputs_def spends_def)
qed

lemma validate_pool:
  assumes sim: "pool_sim C d st0 tr h st" and mat: "validateCoinbaseMaturity tx (ROrigins st) h = Inr ()"
  shows "validateRegularTransaction C tx (viewed_inputs st tx) = validateRegularTransaction C tx (RUtxo st)"
proof -
  have wf: "coins_wf (coins_of st)" using pool_sim_inv(1) [OF sim] by (simp add: chain_inv_def)
  have "\<forall>op \<in> set (spends tx). coins_get (coins_of st) op \<noteq> None"
    using mat unfolding spendable_coins_mature [OF wf, symmetric] by (auto simp: spendable_coin_def)
  from validate_view [OF wf this, of C] show ?thesis by (simp add: coins_of_def viewed_inputs_def)
qed

lemma pool_admission:
  assumes sim: "pool_sim C d st0 tr h st"
  shows "addMempoolTransactionWithUsage C d tx firstSeen h (Some (pool_usage d)) = Inr (d', u') \<longleftrightarrow>
     (\<exists>fee. admissible C d st h tx fee \<and> d' = admitted_db d tx firstSeen fee \<and> u' = pool_usage d')"
proof -
  have tab: "pool_tables d" and seen: "RSeen st = TId ` set (dbTransactions d) \<union> MTxId ` set (dbMempool d)"
    using sim by (simp_all add: pool_sim_def)
  note known = known_pool [OF sim] and lookups = lookups_pool [OF sim] and valid = validate_pool [OF sim]
  note small = pool_valid [OF sim]
  have store: "storeMempoolTransaction tx firstSeen fee d = Inr d' \<longleftrightarrow> dbMempoolSeq d < MaxInt64 \<and> d' = admitted_db d tx firstSeen fee"
    if "validateRegularTransaction C tx (RUtxo st) = Inr fee" "ID tx \<notin> RSeen st"
      "validateCoinbaseMaturity tx (ROrigins st) h = Inr ()" for fee
    using small(3-6) [OF that(2,1,3)] that(2) store_admitted [OF tab] by (auto simp: seen)
  have storable: "(\<exists>output \<in> set (Outputs tx). MaxInt64 < uint (Amount output)) \<longleftrightarrow> False" if "outputs_storable (Outputs tx)"
    unfolding not_le [symmetric] uint_unat_le using that by (auto simp: outputs_storable_def)
  have use: "pool_usage (admitted_db d tx firstSeen fee) =
      \<lparr>UsageCount = UsageCount (pool_usage d) + 1, UsageBytes = UsageBytes (pool_usage d) + int (encodedSize tx),
       UsageInputs = UsageInputs (pool_usage d) + int (length (Inputs tx))\<rparr>" for fee
    unfolding pool_usage_def pool_txs_admitted by (simp add: admitted_db_def)
  show ?thesis
  proof
    assume "addMempoolTransactionWithUsage C d tx firstSeen h (Some (pool_usage d)) = Inr (d', u')"
    then obtain fee utxo where s: "ID tx \<notin> RSeen st"
      "validateMempoolResourceBudget (UsageCount (pool_usage d)) (UsageBytes (pool_usage d)) (UsageInputs (pool_usage d))
         (int (encodedSize tx)) (int (length (Inputs tx))) = Inr ()"
      "validateCoinbaseMaturity tx (ROrigins st) h = Inr ()" "utxo = viewed_inputs st tx"
      "validateRegularTransaction C tx utxo = Inr fee" "\<not> fee < minimumRelayFee (int (encodedSize tx))"
      "storeMempoolTransaction tx firstSeen fee d = Inr d'"
      "u' = \<lparr>UsageCount = UsageCount (pool_usage d) + 1, UsageBytes = UsageBytes (pool_usage d) + int (encodedSize tx),
         UsageInputs = UsageInputs (pool_usage d) + int (length (Inputs tx))\<rparr>"
      unfolding addMempoolTransactionWithUsage_def known Let_def
      by (auto simp: res_simps lookups split: if_splits)
    then show "\<exists>fee. admissible C d st h tx fee \<and> d' = admitted_db d tx firstSeen fee \<and> u' = pool_usage d'"
      using store [of fee] by (auto simp: admissible_def valid use not_less)
  next
    assume "\<exists>fee. admissible C d st h tx fee \<and> d' = admitted_db d tx firstSeen fee \<and> u' = pool_usage d'"
    then obtain fee where a: "admissible C d st h tx fee" "d' = admitted_db d tx firstSeen fee" "u' = pool_usage d'" by blast
    then have t: "validateRegularTransaction C tx (RUtxo st) = Inr fee" "ID tx \<notin> RSeen st"
      "validateCoinbaseMaturity tx (ROrigins st) h = Inr ()" by (simp_all add: admissible_def)
    note sm = small [OF t(2,1,3)]
    have nc: "\<not> Coinbase tx" using t(1) by (auto simp: validateRegularTransaction_def)
    note loop = lookups [of tx "viewed_inputs st tx", THEN iffD2, OF conjI [OF t(3) refl]]
    show "addMempoolTransactionWithUsage C d tx firstSeen h (Some (pool_usage d)) = Inr (d', u')"
      unfolding addMempoolTransactionWithUsage_def known Let_def loop
      using a(1) sm nc t store [OF t]
      by (simp add: admissible_def valid storable rejectMempool_def a(2,3) use not_less)
  qed
qed


lemma pool_tables_admitted:
  assumes tab: "pool_tables d" and fee: "uint fee \<le> MaxInt64" "minimumRelayFee (int (encodedSize tx)) \<le> fee"
    and out: "outputs_storable (Outputs tx)" "length (Outputs tx) \<le> 256"
  shows "pool_tables (admitted_db d tx firstSeen fee)"
proof -
  have "int64_of fee = uint fee" using fee(1) by (rule int64_of_small)
  then have row: "pool_row_ok \<lparr>MSequence = dbMempoolSeq d + 1, MTxId = ID tx, MFirstSeen = firstSeen,
         MFee = int64_of fee, MEncodedSize = int (encodedSize tx), MData = tx\<rparr>"
    using tab fee(2) by (simp add: pool_row_ok_def pool_tables_def)
  have "\<forall>m \<in> set (dbMempool d). MSequence m < dbMempoolSeq d + 1" using tab by (auto simp: pool_tables_def)
  with tab row out show ?thesis
    unfolding pool_tables_def pool_txs_admitted by (auto simp: admitted_db_def sorted_wrt_append)
qed

lemma pool_spent_admitted: "pool_spent (admitted_db d tx firstSeen fee) = pool_spent d \<union> set (spends tx)"
  by (auto simp: pool_spent_def)

lemma pool_coin_admitted:
  assumes tab: "pool_tables d" and new: "ID tx \<notin> MTxId ` set (dbMempool d)" and out: "outputs_storable (Outputs tx)" "length (Outputs tx) \<le> 256"
  shows "pool_coin (admitted_db d tx firstSeen fee) h op =
     (case map_of (new_coins tx h False) op of Some c \<Rightarrow> Some c | None \<Rightarrow> pool_coin d h op)"
proof -
  let ?new = "map (pool_output tx) (List.enumerate 0 (Outputs tx))"
  have coin: "map_option (\<lambda>r. (\<lparr>Amount = word_of_int (OAmount r), Address = OAddress r\<rparr>,
     \<lparr>CreatedHeight = h, FromCoinbase = False\<rparr>)) (find (mempool_output_at op) (map (pool_output tx) xs)) =
     map_of (map (\<lambda>(index, output). (Outpoint (ID tx) (word_of_nat index), (output, \<lparr>CreatedHeight = h, FromCoinbase = False\<rparr>))) xs) op"
    if "\<forall>x \<in> set xs. fst x < 4294967296" for xs :: "(nat \<times> tx_output) list"
    using that
  proof (induction xs)
    case (Cons x xs)
    have "mempool_output_at op (pool_output tx x) \<longleftrightarrow> op = Outpoint (ID tx) (word_of_nat (fst x))"
    proof -
      have "int (fst x) = uint i \<longleftrightarrow> i = word_of_nat (fst x)" for i :: u32
      proof -
        have "unat (word_of_nat (fst x) :: u32) = fst x" using Cons.prems by (simp add: unat_of_nat)
        then show ?thesis by (auto simp: uint_nat word_unat_eq_iff simp del: of_nat_unat)
      qed
      then show ?thesis by (cases op) (auto simp: mempool_output_at_def pool_output_def)
    qed
    with Cons show ?case by (cases x) (auto simp: pool_output_def int64_of_def)
  qed simp
  have small: "\<forall>x \<in> set (List.enumerate 0 (Outputs tx)). fst x < 4294967296"
    using out(2) by (auto simp: in_set_enumerate_eq)
  have old: "find (mempool_output_at op) (dbMempoolOutputs d) = None" if "OpTxID op = ID tx"
    using that pool_output_ids [OF tab] new by (auto simp: find_None_iff mempool_output_at_def) metis
  show ?thesis
  proof (cases "find (mempool_output_at op) (dbMempoolOutputs d)")
    case None
    then have "pool_coin d h op = None" by (simp add: pool_coin_def)
    moreover have "pool_coin (admitted_db d tx firstSeen fee) h op = map_of (new_coins tx h False) op"
      using None coin [OF small] by (simp add: pool_coin_def admitted_db_def find_append new_coins_def)
    ultimately show ?thesis by (simp split: option.splits)
  next
    case (Some r)
    then have "OpTxID op \<noteq> ID tx" using old by auto
    then have "map_of (new_coins tx h False) op = None" using new_coins_id [of op tx h False] by (auto simp: map_of_eq_None_iff)
    with Some show ?thesis by (simp add: pool_coin_def admitted_db_def find_append)
  qed
qed

lemma pool_extend:
  assumes sim: "pool_sim C d st0 tr h st" and adm: "admissible C d st h tx fee"
  shows "\<exists>st'. replayPending C h st tx = Inr st' \<and> pool_sim C (admitted_db d tx firstSeen fee) st0 tr h st'"
proof -
  let ?cs = "coins_of st" and ?d = "admitted_db d tx firstSeen fee"
  have t: "ID tx \<notin> RSeen st" "validateRegularTransaction C tx (RUtxo st) = Inr fee"
    "validateCoinbaseMaturity tx (ROrigins st) h = Inr ()" "minimumRelayFee (int (encodedSize tx)) \<le> fee"
    using adm by (simp_all add: admissible_def)
  have s: "pool_tables d" "RSeen st = TId ` set (dbTransactions d) \<union> MTxId ` set (dbMempool d)"
    "coins_get ?cs = pool_view d h" "h \<noteq> 0" "ledger_sim C d st0" "chain_inv st0 tr"
    using sim by (simp_all add: pool_sim_def)
  note inv = pool_sim_inv [OF sim]
  have wf: "coins_wf ?cs" using inv(1) by (simp add: chain_inv_def)
  have t': "validateRegularTransaction C tx (fst ?cs) = Inr fee" using t(2) by (simp add: coins_of_def)
  note val = pool_valid [OF sim t(1,2,3)]
  obtain cs' where app: "applyRegularTransaction tx h ?cs = Inr cs'" using val(1) by blast
  let ?st = "(set_coins st cs')\<lparr>RSeen := insert (ID tx) (RSeen st)\<rparr>"
  have step: "replayPending C h st tx = Inr ?st" using t app by (simp add: replayPending_def)
  have tab: "pool_tables ?d" by (rule pool_tables_admitted [OF s(1) val(2) t(4) val(3,4)])
  have new: "ID tx \<notin> MTxId ` set (dbMempool d)" "ID tx \<notin> TId ` set (dbTransactions d)" using t(1) s(2) by auto
  have confirmed: "utxos_get (dbUtxos d) op = None" if "OpTxID op = ID tx" for op
    using fresh_absent [OF s(6), of tx op] that new(2) s(5) by (auto simp: ledger_sim_def)
  have "set (trace_spends (map (Pair h) (pool_txs d))) = pool_spent d"
    by (auto simp: trace_spends_def pool_spent_def)
  then have "pool_spent d \<subseteq> set (trace_spends (tr @ map (Pair h) (pool_txs d)))"
    by (auto simp: trace_spends_def)
  then have spent: "OpTxID op \<in> RSeen st" if "op \<in> pool_spent d" for op
    using that inv(1) by (auto simp: chain_inv_def)
  note sp = spent_present(2) [OF wf t']
  have "coins_get cs' op = pool_view ?d h op" for op
  proof -
    have get': "coins_get cs' op = (case map_of (new_coins tx h False) op of Some c \<Rightarrow> Some c
        | None \<Rightarrow> if op \<in> set (spends tx) then None else coins_get ?cs op)"
      using applyRegular_effect(3) [OF wf t' app] by (auto simp: spends_def fun_eq_iff split: option.splits)
    note coin = pool_coin_admitted [OF s(1) new(1) val(3,4), of firstSeen fee h op]
    have u: "dbUtxos ?d = dbUtxos d" by (simp add: admitted_db_def)
    show ?thesis
    proof (cases "map_of (new_coins tx h False) op")
      case None
      then have "pool_coin ?d h op = pool_coin d h op" using coin by simp
      with None show ?thesis by (simp add: get' pool_view_def pool_spent_admitted u s(3) split: option.split)
    next
      case (Some c)
      then have i: "OpTxID op = ID tx" using new_coins_id [of op tx h False] by (metis not_None_eq map_of_eq_None_iff)
      have "op \<notin> pool_spent d" using spent i t(1) by metis
      moreover have "op \<notin> set (spends tx)" using sp fresh_absent [OF inv(1) t(1) i] by blast
      ultimately show ?thesis using Some get' coin confirmed [OF i] by (simp add: pool_view_def pool_spent_admitted u)
    qed
  qed
  moreover have "RSeen ?st = TId ` set (dbTransactions ?d) \<union> MTxId ` set (dbMempool ?d)"
    using s(2) by (auto simp: admitted_db_def)
  moreover have "ledger_sim C ?d st0" using s(5) by (simp add: ledger_sim_def admitted_db_def)
  moreover have "foldE (replayPending C h) st0 (pool_txs ?d) = Inr ?st"
    using sim step by (simp add: pool_sim_def foldE_append)
  ultimately have "pool_sim C ?d st0 tr h ?st" using sim tab by (auto simp: pool_sim_def)
  with step show ?thesis by blast
qed

section \<open>Budgets\<close>

lemma sql_sum_exact:
  assumes "\<forall>x \<in> set xs. 0 \<le> x" "sum_list xs \<le> MaxInt64"
  shows "sql_sum xs = Inr (if xs = [] then None else Some (sum_list xs))"
proof -
  have "foldE (\<lambda>total x. if in_int64 (total + x) then Inr (total + x) else Inl (SqlConstraint ''integer overflow'')) a ys = Inr (a + sum_list ys)"
    if "0 \<le> a" "\<forall>x \<in> set ys. 0 \<le> x" "a + sum_list ys \<le> MaxInt64" for a ys
    using that
  proof (induction ys arbitrary: a)
    case (Cons y ys)
    have "0 \<le> sum_list ys" using Cons.prems(2) by (intro sum_list_nonneg) auto
    then have "in_int64 (a + y)" using Cons.prems by (simp add: in_int64_def MaxInt64_val MinInt64_def)
    then show ?case using Cons.IH [of "a + y"] Cons.prems by (simp add: add.assoc)
  qed simp
  from this [of 0 xs] assms show ?thesis by (simp add: sql_sum_def)
qed

lemma pool_usage_rows:
  assumes "pool_tables d"
  shows "map MEncodedSize (dbMempool d) = map (\<lambda>tx. int (encodedSize tx)) (pool_txs d)"
    and "int (length (dbMempoolInputs d)) = UsageInputs (pool_usage d)"
proof -
  show "map MEncodedSize (dbMempool d) = map (\<lambda>tx. int (encodedSize tx)) (pool_txs d)"
    using assms by (simp add: pool_tables_def pool_row_ok_def pool_txs_def)
  have "int (length (concat (map (\<lambda>tx. map (pool_input tx) (Inputs tx)) txs))) = (\<Sum>tx\<leftarrow>txs. int (length (Inputs tx)))" for txs
    by (induction txs) auto
  then show "int (length (dbMempoolInputs d)) = UsageInputs (pool_usage d)"
    using assms by (simp add: pool_tables_def pool_usage_def)
qed

lemma read_usage:
  assumes tab: "pool_tables d" and bud: "pool_within_budget d"
  shows "readMempoolResourceUsage d = Inr (pool_usage d)"
proof -
  let ?xs = "map (\<lambda>tx. int (encodedSize tx)) (pool_txs d)"
  have "sum_list ?xs \<le> MaxInt64"
    using bud by (simp add: pool_within_budget_def pool_usage_def MaxMempoolBytes_def MaxInt64_val)
  then have sum: "sql_sum (map MEncodedSize (dbMempool d)) = Inr (if ?xs = [] then None else Some (sum_list ?xs))"
    unfolding pool_usage_rows(1) [OF tab] by (intro sql_sum_exact) auto
  have nonneg: "0 \<le> sum_list ?xs" by (intro sum_list_nonneg) auto
  have empty: "pool_txs d = [] \<longleftrightarrow> dbMempool d = []" by (simp add: pool_txs_def)
  show ?thesis
  proof (cases "dbMempool d = []")
    case True
    then show ?thesis
      using sum pool_usage_rows(2) [OF tab] by (simp add: readMempoolResourceUsage_def pool_usage_def pool_txs_def)
  next
    case False
    then show ?thesis
      using sum nonneg pool_usage_rows(2) [OF tab] by (simp add: readMempoolResourceUsage_def Let_def empty pool_usage_def)
  qed
qed

lemma budget_admitted:
  assumes "admissible C d st h tx fee"
  shows "pool_within_budget (admitted_db d tx firstSeen fee)"
proof -
  have "UsageCount (pool_usage d) < int MaxPendingTransactions"
    "int (encodedSize tx) \<le> MaxMempoolBytes - UsageBytes (pool_usage d)"
    "int (length (Inputs tx)) \<le> MaxMempoolInputs - UsageInputs (pool_usage d)"
    using assms by (auto simp: admissible_def validateMempoolResourceBudget_def split: if_splits)
  then show ?thesis
    unfolding pool_within_budget_def pool_usage_def pool_txs_admitted by (simp add: admitted_db_def)
qed

section \<open>Errors\<close>

lemma lookup_error:
  assumes sim: "pool_sim C d st0 tr h st" and err: "lookupMempoolSpendable d op h = Inl e"
  shows "isMempoolRejection e"
proof (rule ccontr)
  assume nr: "\<not> isMempoolRejection e"
  have tab: "pool_tables d" and ok: "utxos_ok (dbUtxos d)" using sim by (simp_all add: pool_sim_def ledger_sim_def)
  have pos: "0 < OAmount r" if "find (mempool_output_at op) (dbMempoolOutputs d) = Some r" for r
    using that pool_output_positive [OF tab] by (auto simp: find_Some_iff)
  have col: "0 < UAmount r" "0 \<le> UCreatedHeight r" "UCoinbase r = 0 \<or> UCoinbase r = 1"
    if "find (utxo_at op) (dbUtxos d) = Some r" for r
  proof -
    have "r \<in> set (dbUtxos d)" using that by (auto simp: find_Some_iff)
    then have "r = coin_row (utxo_key r) (row_coin r)" "coin_storable (row_coin r)" using ok by (auto simp: utxos_ok_def)
    then show "0 < UAmount r" "0 \<le> UCreatedHeight r" "UCoinbase r = 0 \<or> UCoinbase r = 1"
      using coin_row_columns by metis+
  qed
  show False
    using err nr pos col by (force simp: lookupMempoolSpendable_def isMempoolRejection_def split: if_splits option.splits)
qed

lemma foldE_error: "foldE f s xs = Inl e \<Longrightarrow> \<exists>s' x. x \<in> set xs \<and> f s' x = Inl e"
proof (induction xs arbitrary: s)
  case (Cons x xs)
  then show ?case by (cases "f s x") fastforce+
qed simp

lemma rejection_error: "rejectMempool r = Inl e \<Longrightarrow> isMempoolRejection e"
  by (auto simp: rejectMempool_def isMempoolRejection_def split: sum.splits)

lemma rejection_simp: "isMempoolRejection (MempoolRejection e)"
  by (simp add: isMempoolRejection_def)

text \<open>An admission fails for a reason of the transaction, unless the sequence numbers are used up.\<close>

lemma admission_error:
  assumes sim: "pool_sim C d st0 tr h st" and room: "dbMempoolSeq d < MaxInt64"
    and err: "addMempoolTransactionWithUsage C d tx firstSeen h (Some (pool_usage d)) = Inl e"
  shows "isMempoolRejection e"
proof (rule ccontr)
  assume nr: "\<not> isMempoolRejection e"
  let ?loop = "foldE (\<lambda>utxo input.
          attempt (lookupMempoolSpendable d (input_outpoint input) h) (\<lambda>output.
          Inr (AList.update (input_outpoint input) output utxo))) [] (Inputs tx)"
  have loop: "isMempoolRejection e'" if "?loop = Inl e'" for e'
    using foldE_error [OF that] lookup_error [OF sim] by (auto simp: attempt_eq_Inl)
  have new: "\<not> Coinbase tx" "ID tx \<notin> RSeen st"
    using err nr unfolding addMempoolTransactionWithUsage_def known_pool [OF sim] by (auto simp: rejection_simp split: if_splits)
  obtain u where b: "rejectMempool (validateMempoolResourceBudget (UsageCount (pool_usage d)) (UsageBytes (pool_usage d))
      (UsageInputs (pool_usage d)) (int (encodedSize tx)) (int (length (Inputs tx)))) = Inr u"
    using err nr new rejection_error unfolding addMempoolTransactionWithUsage_def known_pool [OF sim] Let_def
    by (cases "rejectMempool (validateMempoolResourceBudget (UsageCount (pool_usage d)) (UsageBytes (pool_usage d))
      (UsageInputs (pool_usage d)) (int (encodedSize tx)) (int (length (Inputs tx))))") auto
  obtain utxo where l: "?loop = Inr utxo"
    using err nr new b loop unfolding addMempoolTransactionWithUsage_def known_pool [OF sim] Let_def by (cases ?loop) auto
  obtain fee where v: "validateRegularTransaction C tx utxo = Inr fee"
    using err nr new b l rejection_error unfolding addMempoolTransactionWithUsage_def known_pool [OF sim] Let_def
    by (cases "validateRegularTransaction C tx utxo") (auto simp: rejectMempool_def rejection_simp)
  have "storeMempoolTransaction tx firstSeen fee d = Inl e"
    using err nr new b l v unfolding addMempoolTransactionWithUsage_def known_pool [OF sim] Let_def
    by (auto simp: attempt_eq_Inl rejectMempool_def rejection_simp split: if_splits)
  note s = new(2) l v this
  note m = s(2) [unfolded lookups_pool [OF sim]]
  have v': "validateRegularTransaction C tx (RUtxo st) = Inr fee" using m s(3) by (auto simp: validate_pool [OF sim])
  note val = pool_valid [OF sim s(1) v' conjunct1 [OF m]]
  have "storeMempoolTransaction tx firstSeen fee d = Inr (admitted_db d tx firstSeen fee)"
    using store_admitted [of d tx] sim s(1) val room by (simp add: pool_sim_def)
  with s(4) show False by simp
qed

section \<open>Rebuilding\<close>

definition pool_ok :: "crypto \<Rightarrow> db \<Rightarrow> replay_state \<Rightarrow> trace \<Rightarrow> u64 \<Rightarrow> replay_state \<Rightarrow> bool" where
  "pool_ok C d st0 tr h st \<longleftrightarrow> pool_sim C d st0 tr h st \<and> pool_within_budget d"

lemma chain_tables_admitted [simp]: "chain_tables (admitted_db d tx firstSeen fee) = chain_tables d"
  by (simp add: chain_tables_def admitted_db_def)

lemma admission_sound:
  assumes ok: "pool_ok C d st0 tr h st"
    and add: "addMempoolTransactionWithUsage C d tx firstSeen h (Some (pool_usage d)) = Inr (d', u')"
  shows "u' = pool_usage d'" "chain_tables d' = chain_tables d" "dbMempoolSeq d' = dbMempoolSeq d + 1"
    "pool_txs d' = pool_txs d @ [tx]" "\<exists>st'. replayPending C h st tx = Inr st' \<and> pool_ok C d' st0 tr h st'"
proof -
  have sim: "pool_sim C d st0 tr h st" using ok by (simp add: pool_ok_def)
  obtain fee where f: "admissible C d st h tx fee" "d' = admitted_db d tx firstSeen fee" "u' = pool_usage d'"
    using add pool_admission [OF sim] by blast
  then show "u' = pool_usage d'" "chain_tables d' = chain_tables d" "dbMempoolSeq d' = dbMempoolSeq d + 1"
    "pool_txs d' = pool_txs d @ [tx]" by (simp_all del: chain_tables_admitted add: chain_tables_def admitted_db_def pool_txs_def)
  show "\<exists>st'. replayPending C h st tx = Inr st' \<and> pool_ok C d' st0 tr h st'"
    using pool_extend [OF sim f(1)] budget_admitted [OF f(1)] f(2) by (auto simp: pool_ok_def)
qed

definition repopulated :: "crypto \<Rightarrow> db \<Rightarrow> replay_state \<Rightarrow> trace \<Rightarrow> u64 \<Rightarrow> transaction list \<Rightarrow> db \<Rightarrow> bool" where
  "repopulated C d st0 tr h txs d' \<longleftrightarrow> chain_tables d' = chain_tables d \<and> (\<exists>st'. pool_ok C d' st0 tr h st') \<and>
     (\<exists>xs. pool_txs d' = pool_txs d @ xs \<and> subseq xs txs) \<and>
     dbMempoolSeq d' \<le> dbMempoolSeq d + int (length txs)"

lemma repopulateStep_cases:
  assumes ok: "pool_ok C d st0 tr h st" and step: "repopulateStep C h (d, pool_usage d) item = Inr (d1, u1)"
  shows "u1 = pool_usage d1 \<and> repopulated C d st0 tr h [PendingTransaction item] d1"
proof (cases "addMempoolTransactionWithUsage C d (PendingTransaction item) (PendingFirstSeen item) h (Some (pool_usage d))")
  case (Inl e)
  then have "d1 = d" "u1 = pool_usage d" using step by (auto simp: repopulateStep_def split: if_splits)
  moreover have "subseq [] [PendingTransaction item]" by simp
  ultimately show ?thesis using ok unfolding repopulated_def by auto
next
  case (Inr r)
  then have "addMempoolTransactionWithUsage C d (PendingTransaction item) (PendingFirstSeen item) h (Some (pool_usage d)) = Inr (d1, u1)"
    using step by (simp add: repopulateStep_def)
  note a = admission_sound [OF ok this]
  have "subseq [PendingTransaction item] [PendingTransaction item]" by simp
  with a show ?thesis unfolding repopulated_def by fastforce
qed

lemma repopulated_trans:
  assumes "repopulated C d st0 tr h xs d1" "repopulated C d1 st0 tr h ys d2"
  shows "repopulated C d st0 tr h (xs @ ys) d2"
proof -
  obtain as bs where "pool_txs d1 = pool_txs d @ as" "subseq as xs" "pool_txs d2 = pool_txs d1 @ bs" "subseq bs ys"
    using assms by (auto simp: repopulated_def)
  then have "pool_txs d2 = pool_txs d @ as @ bs" "subseq (as @ bs) (xs @ ys)" by (auto intro: list_emb_append_mono)
  with assms show ?thesis unfolding repopulated_def by auto
qed

lemma repopulate_loop:
  assumes "pool_ok C d st0 tr h st" "foldE (repopulateStep C h) (d, pool_usage d) items = Inr (d', u')"
  shows "u' = pool_usage d' \<and> repopulated C d st0 tr h (map PendingTransaction items) d'"
  using assms
proof (induction items arbitrary: d st)
  case (Cons item items)
  obtain d1 u1 where s: "repopulateStep C h (d, pool_usage d) item = Inr (d1, u1)"
    "foldE (repopulateStep C h) (d1, u1) items = Inr (d', u')"
    using Cons.prems(2) by (auto simp: res_simps)
  note one = repopulateStep_cases [OF Cons.prems(1) s(1)]
  then obtain st1 where "pool_ok C d1 st0 tr h st1" by (auto simp: repopulated_def)
  from Cons.IH [OF this] s(2) one
  have "u' = pool_usage d'" "repopulated C d1 st0 tr h (map PendingTransaction items) d'" by auto
  with repopulated_trans [OF conjunct2 [OF one]] show ?case by simp
qed (auto simp: repopulated_def)

text \<open>It never stops at an error as long as there are sequence numbers.\<close>

lemma repopulate_total:
  assumes "pool_ok C d st0 tr h st" "dbMempoolSeq d + int (length items) \<le> MaxInt64"
  shows "\<exists>d'. foldE (repopulateStep C h) (d, pool_usage d) items = Inr (d', pool_usage d')"
  using assms
proof (induction items arbitrary: d st)
  case (Cons item items)
  let ?add = "addMempoolTransactionWithUsage C d (PendingTransaction item) (PendingFirstSeen item) h (Some (pool_usage d))"
  have "\<exists>d1 u1. repopulateStep C h (d, pool_usage d) item = Inr (d1, u1)"
  proof (cases ?add)
    case (Inl e)
    moreover have "isMempoolRejection e"
      using admission_error [of C d st0 tr h st] Cons.prems Inl by (auto simp: pool_ok_def)
    ultimately show ?thesis by (simp add: repopulateStep_def)
  next
    case (Inr r)
    then show ?thesis by (cases r) (simp add: repopulateStep_def)
  qed
  then obtain d1 u1 where s: "repopulateStep C h (d, pool_usage d) item = Inr (d1, u1)" by blast
  note one = repopulateStep_cases [OF Cons.prems(1) s]
  then obtain st1 where "pool_ok C d1 st0 tr h st1" "dbMempoolSeq d1 \<le> dbMempoolSeq d + 1"
    by (auto simp: repopulated_def)
  then show ?case using Cons.IH [of d1 st1] Cons.prems(2) s one by auto
qed auto

text \<open>The pool of no transactions.\<close>

lemma pool_cleared:
  assumes tab: "pool_tables d"
  shows "clearMempool d = d\<lparr>dbMempool := [], dbMempoolInputs := [], dbMempoolOutputs := []\<rparr>"
proof -
  have "\<forall>r \<in> set (dbMempoolInputs d). ITxId r \<in> MTxId ` set (dbMempool d)"
    using tab by (auto simp: pool_tables_def pool_txs_def pool_input_def pool_row_ok_def)
  moreover have "\<forall>r \<in> set (dbMempoolOutputs d). OTxId r \<in> MTxId ` set (dbMempool d)"
    using pool_output_ids [OF tab] by blast
  ultimately show ?thesis by (simp add: clearMempool_def filter_empty_conv)
qed

lemma pool_empty:
  assumes tab: "pool_tables d" and chain: "ledger_sim C d st0" "chain_inv st0 tr" "state_value st0 \<le> 200000000000000" "h \<noteq> 0"
  shows "pool_ok C (clearMempool d) st0 tr h st0" "pool_txs (clearMempool d) = []"
    "chain_tables (clearMempool d) = chain_tables d" "dbMempoolSeq (clearMempool d) = dbMempoolSeq d"
proof -
  show "pool_txs (clearMempool d) = []" "chain_tables (clearMempool d) = chain_tables d"
    "dbMempoolSeq (clearMempool d) = dbMempoolSeq d"
    by (simp_all add: pool_txs_def clearMempool_def chain_tables_def)
  have "coins_get (coins_of st0) = pool_view (clearMempool d) h"
    using chain(1) by (auto simp: pool_cleared [OF tab] pool_view_def pool_spent_def pool_txs_def pool_coin_def ledger_sim_def
        fun_eq_iff split: option.splits)
  moreover have "pool_tables (clearMempool d)"
    using tab by (simp add: pool_cleared [OF tab] pool_tables_def pool_txs_def)
  ultimately show "pool_ok C (clearMempool d) st0 tr h st0"
    using chain by (simp add: pool_ok_def pool_sim_def pool_within_budget_def pool_usage_def ledger_sim_def
        clearMempool_def pool_txs_def MaxMempoolBytes_def MaxMempoolInputs_def)
qed

lemma repopulate_sound:
  assumes ok: "pool_ok C d st0 tr h st" and run: "repopulateMempool C d items h = Inr d'"
  shows "repopulated C d st0 tr h (map PendingTransaction items) d'"
proof -
  have read: "readMempoolResourceUsage d = Inr (pool_usage d)"
    using ok by (intro read_usage) (simp_all add: pool_ok_def pool_sim_def)
  obtain u' where "foldE (repopulateStep C h) (d, pool_usage d) items = Inr (d', u')"
    using run by (auto simp: repopulateMempool_def read res_simps)
  from repopulate_loop [OF ok this] show ?thesis by blast
qed

lemma repopulate_succeeds:
  assumes ok: "pool_ok C d st0 tr h st" and room: "dbMempoolSeq d + int (length items) \<le> MaxInt64"
  shows "\<exists>d'. repopulateMempool C d items h = Inr d'"
proof -
  have read: "readMempoolResourceUsage d = Inr (pool_usage d)"
    using ok by (intro read_usage) (simp_all add: pool_ok_def pool_sim_def)
  from repopulate_total [OF ok room] show ?thesis by (auto simp: repopulateMempool_def read)
qed

end
