(* ===== verification/Candidate.thy ===== *)
theory Candidate
  imports Reorg
begin

text \<open>
  \<open>internal/ledger/mining.go\<close>: the candidate block for mining (pending transactions in the order of
  their fee rate, parents before children, selected against a view of the unspent outputs) and the
  commit of a mined block on an unchanged tip.
\<close>

section \<open>Priority\<close>

record miningMempoolItem =
  ItemTransaction :: transaction
  ItemFee :: u64
  ItemEncodedSize :: u64
  ItemSequence :: int

text \<open>\<open>bits.Mul64\<close>: the high and the low word of the full product.\<close>

definition Mul64 :: "u64 \<Rightarrow> u64 \<Rightarrow> u64 \<times> u64" where
  "Mul64 x y = (word_of_nat (unat x * unat y div 18446744073709551616), x * y)"

definition higherMiningPriority :: "miningMempoolItem \<Rightarrow> miningMempoolItem \<Rightarrow> bool" where
  "higherMiningPriority left right =
     (let (leftHigh, leftLow) = Mul64 (ItemFee left) (ItemEncodedSize right);
          (rightHigh, rightLow) = Mul64 (ItemFee right) (ItemEncodedSize left)
      in if leftHigh \<noteq> rightHigh then leftHigh > rightHigh
         else if leftLow \<noteq> rightLow then leftLow > rightLow
         else if ItemFee left \<noteq> ItemFee right then ItemFee left > ItemFee right
         else ItemSequence left < ItemSequence right)"

section \<open>The binary heap of the queue\<close>

text \<open>\<open>container/heap\<close> on the indexes of the items: \<open>up\<close>, \<open>down\<close>, \<open>Push\<close> and \<open>Pop\<close>.\<close>

definition heapLess :: "miningMempoolItem list \<Rightarrow> nat list \<Rightarrow> nat \<Rightarrow> nat \<Rightarrow> bool" where
  "heapLess items q i j = higherMiningPriority (items ! (q ! i)) (items ! (q ! j))"

definition heapSwap :: "nat list \<Rightarrow> nat \<Rightarrow> nat \<Rightarrow> nat list" where
  "heapSwap q i j = q[i := q ! j, j := q ! i]"

function heapUp :: "miningMempoolItem list \<Rightarrow> nat list \<Rightarrow> nat \<Rightarrow> nat list" where
  "heapUp items q j =
     (let i = (j - 1) div 2 in
      if j = 0 \<or> \<not> heapLess items q j i then q else heapUp items (heapSwap q i j) i)"
  by pat_completeness auto
termination by (relation "measure (\<lambda>(_, _, j). j)") auto

function heapDown :: "miningMempoolItem list \<Rightarrow> nat list \<Rightarrow> nat \<Rightarrow> nat \<Rightarrow> nat list" where
  "heapDown items q i n =
     (let j1 = 2 * i + 1 in
      if j1 \<ge> n then q
      else let j2 = j1 + 1; j = (if j2 < n \<and> heapLess items q j2 j1 then j2 else j1)
        in if \<not> heapLess items q j i then q else heapDown items (heapSwap q i j) j n)"
  by pat_completeness auto
termination by (relation "measure (\<lambda>(_, _, i, n). n - i)") auto

declare heapUp.simps [simp del] heapDown.simps [simp del]

definition heapPush :: "miningMempoolItem list \<Rightarrow> nat list \<Rightarrow> nat \<Rightarrow> nat list" where
  "heapPush items q x = heapUp items (q @ [x]) (length q)"

definition heapPop :: "miningMempoolItem list \<Rightarrow> nat list \<Rightarrow> nat \<times> nat list" where
  "heapPop items q =
     (let n = length q - 1; q = heapDown items (heapSwap q 0 n) 0 n in (last q, butlast q))"

section \<open>Parents before children\<close>

text \<open>The index of a transaction ID; the IDs are distinct once the first loop has passed.\<close>

definition indexItems :: "miningMempoolItem list \<Rightarrow> (string \<times> nat) list res" where
  "indexItems items =
     foldE (\<lambda>byID (index, item).
       if ID (ItemTransaction item) = [] \<or> ItemEncodedSize item = 0
       then Inl (Errorf ''mining mempool contains invalid transaction metadata'')
       else if map_of byID (ID (ItemTransaction item)) \<noteq> None
       then Inl (Errorf ''mining mempool contains duplicate transaction'')
       else Inr ((ID (ItemTransaction item), index) # byID)) [] (List.enumerate 0 items)"

definition addDependency :: "(string \<times> nat) list \<Rightarrow> nat list \<times> nat list list \<Rightarrow> nat \<times> tx_input \<Rightarrow> nat list \<times> nat list list" where
  "addDependency byID st edge =
     (case (st, edge) of ((indegree, children), (childIndex, input)) \<Rightarrow>
      case map_of byID (InTxID input) of
        None \<Rightarrow> (indegree, children)
      | Some parentIndex \<Rightarrow>
        (indegree[childIndex := indegree ! childIndex + 1],
         children[parentIndex := children ! parentIndex @ [childIndex]]))"

definition dependencies :: "miningMempoolItem list \<Rightarrow> (string \<times> nat) list \<Rightarrow> nat list \<times> nat list list" where
  "dependencies items byID =
     foldl (addDependency byID) (replicate (length items) 0, replicate (length items) [])
       (concat (map (\<lambda>(childIndex, item). map (Pair childIndex) (Inputs (ItemTransaction item))) (List.enumerate 0 items)))"

text \<open>One child of the popped transaction: its count of pending parents falls, at zero it is queued.\<close>

definition releaseChild :: "miningMempoolItem list \<Rightarrow> nat list \<times> nat list \<Rightarrow> nat \<Rightarrow> nat list \<times> nat list" where
  "releaseChild items st childIndex =
     (case st of (indegree, q) \<Rightarrow>
      let indegree = indegree[childIndex := indegree ! childIndex - 1]
      in (indegree, if indegree ! childIndex = 0 then heapPush items q childIndex else q))"

text \<open>
  \<open>for queue.Len() > 0\<close>. Every round pops one entry, and no entry is pushed twice, so the number of
  items bounds the rounds: the fuel is never used up (\<open>drainQueue_enough\<close>).
\<close>

fun drainQueue :: "miningMempoolItem list \<Rightarrow> nat list list \<Rightarrow> nat \<Rightarrow> nat list \<times> nat list \<times> nat list \<Rightarrow>
    nat list \<times> nat list \<times> nat list" where
  "drainQueue items children 0 st = st"
| "drainQueue items children (Suc n) (indegree, q, order) =
     (if q = [] then (indegree, q, order)
      else case heapPop items q of (index, q) \<Rightarrow>
        case foldl (releaseChild items) (indegree, q) (children ! index) of
          (indegree, q) \<Rightarrow> drainQueue items children n (indegree, q, order @ [index]))"

definition prioritizeMempoolForMining :: "miningMempoolItem list \<Rightarrow> transaction list res" where
  "prioritizeMempoolForMining items =
     attempt (indexItems items) (\<lambda>byID.
     case dependencies items byID of (indegree, children) \<Rightarrow>
     let q = foldl (heapPush items) [] (filter (\<lambda>index. indegree ! index = 0) [0..<length items]) in
     case drainQueue items children (length items) (indegree, q, []) of (_, _, order) \<Rightarrow>
     if length order \<noteq> length items
     then Inl (Errorf ''mining mempool contains a transaction dependency cycle'')
     else Inr (map (\<lambda>index. ItemTransaction (items ! index)) order))"

section \<open>The pending transactions\<close>

definition scanMiningItem :: "mempool_row \<Rightarrow> miningMempoolItem res" where
  "scanMiningItem r =
     (if MFee r < 0 \<or> MEncodedSize r \<le> 0 \<or> MEncodedSize r > int MaxTransactionBytes \<or> MSequence r \<le> 0
      then Inl (Errorf ''stored mining transaction contains invalid policy metadata'')
      else if ID (MData r) \<noteq> MTxId r \<or> int (encodedSize (MData r)) \<noteq> MEncodedSize r
      then Inl (Errorf ''stored mining transaction metadata does not match its body'')
      else Inr \<lparr>ItemTransaction = MData r, ItemFee = word_of_int (MFee r),
                ItemEncodedSize = word_of_int (MEncodedSize r), ItemSequence = MSequence r\<rparr>)"

definition mempoolTransactionsFromQuery :: "db \<Rightarrow> transaction list res" where
  "mempoolTransactionsFromQuery d =
     attempt (mapE scanMiningItem (sql_order MSequence (dbMempool d))) prioritizeMempoolForMining"

section \<open>The view of the unspent outputs\<close>

record miningUTXOView =
  ViewHeight :: u64
  ViewCreated :: utxo
  ViewSpent :: "outpoint set"

definition newMiningUTXOView :: "u64 \<Rightarrow> miningUTXOView" where
  "newMiningUTXOView spendingHeight = \<lparr>ViewHeight = spendingHeight, ViewCreated = [], ViewSpent = {}\<rparr>"

definition viewInput :: "db \<Rightarrow> miningUTXOView \<Rightarrow> utxo \<Rightarrow> tx_input \<Rightarrow> utxo res" where
  "viewInput d v utxo input =
     (let outpoint = input_outpoint input in
      if outpoint \<in> ViewSpent v then Inl (Errorf ''input is already selected for spending'')
      else case map_of (ViewCreated v) outpoint of
        Some output \<Rightarrow> Inr (AList.update outpoint output utxo)
      | None \<Rightarrow>
        attempt (loadUTXO d outpoint) (\<lambda>record.
        if RCoinbase record \<and> \<not> IsCoinbaseMature (RCreatedHeight record) (ViewHeight v)
        then Inl (Errorf ''coinbase input is immature'')
        else Inr (AList.update outpoint (Output record) utxo)))"

definition viewInputs :: "db \<Rightarrow> miningUTXOView \<Rightarrow> transaction \<Rightarrow> utxo res" where
  "viewInputs d v tx = foldE (viewInput d v) [] (Inputs tx)"

definition viewSpend :: "miningUTXOView \<Rightarrow> tx_input \<Rightarrow> miningUTXOView res" where
  "viewSpend v input =
     (if input_outpoint input \<in> ViewSpent v then Inl (Errorf ''transaction input was selected twice'')
      else Inr (v\<lparr>ViewCreated := AList.delete (input_outpoint input) (ViewCreated v),
                  ViewSpent := insert (input_outpoint input) (ViewSpent v)\<rparr>))"

definition viewCreate :: "transaction \<Rightarrow> miningUTXOView \<Rightarrow> nat \<times> tx_output \<Rightarrow> miningUTXOView res" where
  "viewCreate tx v ix =
     (case ix of (index, output) \<Rightarrow>
      let outpoint = Outpoint (ID tx) (word_of_nat index) in
      if map_of (ViewCreated v) outpoint \<noteq> None then Inl (Errorf ''duplicate selected output'')
      else Inr (v\<lparr>ViewCreated := AList.update outpoint output (ViewCreated v)\<rparr>))"

text \<open>
  \<open>apply\<close> changes the view in place: when it fails half-way the mutations before the error stay, and
  the selection goes on with them. The flag says whether it succeeded.
\<close>

fun foldUntil :: "('s \<Rightarrow> 'a \<Rightarrow> 's res) \<Rightarrow> 's \<Rightarrow> 'a list \<Rightarrow> 's \<times> bool" where
  "foldUntil f s [] = (s, True)"
| "foldUntil f s (x # xs) = (case f s x of Inl _ \<Rightarrow> (s, False) | Inr s \<Rightarrow> foldUntil f s xs)"

definition viewApplied :: "transaction \<Rightarrow> miningUTXOView \<Rightarrow> miningUTXOView \<times> bool" where
  "viewApplied tx v =
     (case foldUntil viewSpend v (Inputs tx) of (v, ok) \<Rightarrow>
      if ok then foldUntil (viewCreate tx) v (List.enumerate 0 (Outputs tx)) else (v, False))"

section \<open>Building the candidate\<close>

record selection =
  SelView :: miningUTXOView
  SelFees :: u64
  SelTransactions :: "transaction list"
  SelSize :: nat

text \<open>The loop over the pending transactions: \<open>break\<close> at the count, \<open>continue\<close> on what does not fit.\<close>

fun selectForBlock :: "crypto \<Rightarrow> db \<Rightarrow> selection \<Rightarrow> transaction list \<Rightarrow> selection res" where
  "selectForBlock C d s [] = Inr s"
| "selectForBlock C d s (tx # pending) =
     (if length (SelTransactions s) \<ge> MaxBlockTransactions - 1 then Inr s
      else let transactionSize = encodedSize tx in
      if SelSize s + transactionSize > MaxBlockBytes then selectForBlock C d s pending
      else case viewInputs d (SelView s) tx of
        Inl _ \<Rightarrow> selectForBlock C d s pending
      | Inr inputUTXO \<Rightarrow>
        (case validateRegularTransaction C tx inputUTXO of
           Inl _ \<Rightarrow> selectForBlock C d s pending
         | Inr fee \<Rightarrow>
           (case viewApplied tx (SelView s) of (view, ok) \<Rightarrow>
            if \<not> ok then selectForBlock C d (s\<lparr>SelView := view\<rparr>) pending
            else attempt (checkedAdd (SelFees s) fee) (\<lambda>fees.
              selectForBlock C d
                \<lparr>SelView = view, SelFees = fees, SelTransactions = SelTransactions s @ [tx],
                 SelSize = SelSize s + transactionSize\<rparr> pending))))"

text \<open>\<open>rnd\<close> and \<open>rnd'\<close> are the two coinbase nonces: of the size reserve and of the block.\<close>

definition buildMiningCandidateAtTime ::
    "crypto \<Rightarrow> u64 res \<Rightarrow> u64 res \<Rightarrow> db \<Rightarrow> string \<Rightarrow> int \<Rightarrow> (block \<times> tip) res" where
  "buildMiningCandidateAtTime C rnd rnd' d address now =
     attempt (ValidateAddress C address) (\<lambda>_.
     attempt (tipFromQuery d) (\<lambda>tip.
     attempt (headerWindowFromQuery d (TipHeight tip)) (\<lambda>headers.
     attempt (mempoolTransactionsFromQuery d) (\<lambda>pending.
     attempt (nextHeight tip) (\<lambda>height.
     attempt (NewCoinbase C rnd address height 1) (\<lambda>coinbaseReserve.
     attempt (selectForBlock C d
       \<lparr>SelView = newMiningUTXOView height, SelFees = 0, SelTransactions = [],
        SelSize = 256 + encodedSize coinbaseReserve\<rparr> pending) (\<lambda>s.
     attempt (checkedAdd (Subsidy height) (SelFees s)) (\<lambda>reward.
     attempt (NewCoinbase C rnd' address height reward) (\<lambda>coinbase.
     let transactions = coinbase # SelTransactions s in
     attempt (nextTimestampAt headers now) (\<lambda>timestamp.
     attempt (expectedDifficultyAt headers height timestamp) (\<lambda>difficulty.
     let b = \<lparr>Version = BlockVersion height, Height = height, Timestamp = timestamp,
              PreviousHash = TipHash tip, MerkleRoot = merkleRoot C transactions,
              Difficulty = difficulty, Nonce = 0, Hash = [], Transactions = transactions\<rparr>
     in Inr (b\<lparr>Hash := ComputeHash C b\<rparr>, tip))))))))))))"

section \<open>Committing a mined block\<close>

definition commitMinedBlockAtTime :: "crypto \<Rightarrow> int \<Rightarrow> db \<Rightarrow> block \<Rightarrow> tip \<Rightarrow> int \<Rightarrow> db res" where
  "commitMinedBlockAtTime C now d b expectedTip validationTime =
     attempt (tipFromQuery d) (\<lambda>currentTip.
     if TipHeight currentTip \<noteq> TipHeight expectedTip \<or> TipHash currentTip \<noteq> TipHash expectedTip
     then Inl ErrStaleTip
     else attempt (connectBlockAtTime C d b validationTime) (\<lambda>d. rebuildMempool C now d []))"

end
