(* ===== verification/Import_State.thy ===== *)
theory Import_State
  imports Reorg
begin

text \<open>
  \<open>internal/ledger/import.go\<close>: the one-time migration of a replayed whole-chain state into a fresh
  ledger. \<open>now i\<close> is the reading of the clock for block \<open>i\<close>, once for the validation of the state and
  once for its connection, and \<open>firstSeen\<close> the reading that dates the pending transactions.
\<close>

definition connectBlocks :: "crypto \<Rightarrow> (nat \<Rightarrow> int) \<Rightarrow> nat \<Rightarrow> db \<Rightarrow> block list \<Rightarrow> db res" where
  "connectBlocks C now start d blocks =
     foldE (\<lambda>d (index, b). connectBlockAtTime C d b (now index)) d (List.enumerate start blocks)"

definition ImportState :: "crypto \<Rightarrow> (nat \<Rightarrow> int) \<Rightarrow> (nat \<Rightarrow> int) \<Rightarrow> int \<Rightarrow> db \<Rightarrow> state option \<Rightarrow> db res" where
  "ImportState C now now' firstSeen d given =
     (case given of
        None \<Rightarrow> Inl (Errorf ''legacy state is nil'')
      | Some s \<Rightarrow>
        attempt (ValidateConfirmed C now s) (\<lambda>_.
        if length (Pending s) > MaxPendingTransactions
        then Inl (Errorf ''validate legacy state: pending transaction limit exceeded'')
        else attempt (tipFromQuery d) (\<lambda>tip.
        if TipHeight tip \<noteq> 0 \<or> TipHash tip \<noteq> Hash (GenesisBlock C)
        then Inl (Errorf ''legacy state import requires a fresh ledger'')
        else if length (dbTransactions d) \<noteq> 0
        then Inl (Errorf ''legacy state import requires an empty transaction index'')
        else attempt (connectBlocks C now' 1 (clearMempool d) (tl (Blocks s))) (\<lambda>d.
        attempt (tipFromQuery d) (\<lambda>importedTip.
        attempt (nextHeight importedTip) (\<lambda>spendingHeight.
        repopulateMempool C d
          (map (\<lambda>tx. \<lparr>PendingTransaction = tx, PendingFirstSeen = firstSeen\<rparr>) (Pending s)) spendingHeight))))))"

end
