(* ===== verification/Query.thy ===== *)
theory Query
  imports Reorg
begin

text \<open>
  \<open>internal/ledger/query.go\<close> and \<open>internal/ledger/prune.go\<close>: reading headers, blocks and locators of
  the active chain, and pruning the bodies outside a retention window.
\<close>

section \<open>Headers and blocks\<close>

definition Tip :: "db \<Rightarrow> tip res" where
  "Tip d = tipFromQuery d"

definition Header :: "db \<Rightarrow> u64 \<Rightarrow> block res" where
  "Header d height =
     (if uint height > MaxInt64 then Inl ErrBlockNotFound
      else case find (\<lambda>r. BHeight r = int64_of height) (dbBlocks d) of
        None \<Rightarrow> Inl ErrBlockNotFound | Some r \<Rightarrow> scanHeader r)"

definition storedBody :: "block_row \<Rightarrow> block res" where
  "storedBody r = (case BData r of None \<Rightarrow> Inl ErrBlockPruned | Some b \<Rightarrow> Inr b)"

definition LedgerBlock :: "db \<Rightarrow> u64 \<Rightarrow> block res" where
  "LedgerBlock d height =
     (if uint height > MaxInt64 then Inl ErrBlockNotFound
      else case find (\<lambda>r. BHeight r = int64_of height) (dbBlocks d) of
        None \<Rightarrow> Inl ErrBlockNotFound | Some r \<Rightarrow> storedBody r)"

definition BlockByHash :: "db \<Rightarrow> string \<Rightarrow> block res" where
  "BlockByHash d hash =
     (case find (\<lambda>r. BHash r = hash) (dbBlocks d) of
        None \<Rightarrow> Inl ErrBlockNotFound | Some r \<Rightarrow> storedBody r)"

definition HashAt :: "db \<Rightarrow> u64 \<Rightarrow> string res" where
  "HashAt d height =
     (if uint height > MaxInt64 then Inl ErrBlockNotFound
      else case find (\<lambda>r. BHeight r = int64_of height) (dbBlocks d) of
        None \<Rightarrow> Inl ErrBlockNotFound | Some r \<Rightarrow> Inr (BHash r))"

definition HeadersFrom :: "db \<Rightarrow> u64 \<Rightarrow> int \<Rightarrow> block list res" where
  "HeadersFrom d start limit =
     (if limit \<le> 0 \<or> limit > 2000 then Inl (Errorf ''header limit must be between 1 and 2000'')
      else if uint start > MaxInt64 then Inr []
      else mapE scanHeader (sql_limit limit 0 (sql_order BHeight
             (filter (\<lambda>r. BHeight r \<ge> int64_of start) (dbBlocks d)))))"

definition BlocksFrom :: "db \<Rightarrow> u64 \<Rightarrow> int \<Rightarrow> block list res" where
  "BlocksFrom d start limit =
     (if limit \<le> 0 \<or> limit > 128 then Inl (Errorf ''block limit must be between 1 and 128'')
      else if uint start > MaxInt64 then Inr []
      else mapE storedBody (sql_limit limit 0 (sql_order BHeight
             (filter (\<lambda>r. BHeight r \<ge> int64_of start) (dbBlocks d)))))"

definition zero_transaction :: transaction where
  "zero_transaction = \<lparr>ID = [], Coinbase = False, TxNonce = 0, Inputs = [], Outputs = []\<rparr>"

definition scanHeaderWithTransactionCount :: "block_row \<times> nat \<Rightarrow> (block \<times> nat) res" where
  "scanHeaderWithTransactionCount rn =
     (case rn of (r, transactionCount) \<Rightarrow>
      if BHeight r < 0 \<or> BVersion r < 0 \<or> BVersion r > 4294967295 \<or> BDifficulty r < 0 \<or> BDifficulty r > 255 \<or>
         length (BNonce r) \<noteq> 8 \<or> transactionCount > MaxBlockTransactions
      then Inl (Errorf ''stored recent block contains invalid values'')
      else attempt (scanHeader r) (\<lambda>b. Inr (b, transactionCount)))"

definition RecentBlocks :: "db \<Rightarrow> int \<Rightarrow> block list res" where
  "RecentBlocks d limit =
     (if limit \<le> 0 \<or> limit > 100 then Inl (Errorf ''recent block limit must be between 1 and 100'')
      else mapE (\<lambda>r. attempt (scanHeaderWithTransactionCount
               (r, length (filter (\<lambda>t. TBlockHeight t = BHeight r) (dbTransactions d)))) (\<lambda>(b, transactionCount).
             Inr (b\<lparr>Transactions := replicate transactionCount zero_transaction\<rparr>)))
           (sql_limit limit 0 (sql_order_desc BHeight (dbBlocks d))))"

definition HeaderWindow :: "db \<Rightarrow> u64 \<Rightarrow> block list res" where
  "HeaderWindow d throughHeight =
     (let window = word_of_nat FirstAdjustment;
          start = (if throughHeight + 1 > window then throughHeight + 1 - window else 0);
          limit = wrap64 (sint (throughHeight - start) + 1)
      in HeadersFrom d start limit)"

definition WorkAt :: "db \<Rightarrow> u64 \<Rightarrow> nat res" where
  "WorkAt d height =
     (if uint height > MaxInt64 then Inl ErrBlockNotFound
      else case find (\<lambda>r. BHeight r = int64_of height) (dbBlocks d) of
        None \<Rightarrow> Inl ErrBlockNotFound | Some r \<Rightarrow> Inr (decodeWork (BWork r)))"

section \<open>Locators\<close>

text \<open>The loop ends because the locator grows and is cut off at 64 hashes.\<close>

function locatorLoop :: "db \<Rightarrow> string list \<Rightarrow> u64 \<Rightarrow> u64 \<Rightarrow> string list res" where
  "locatorLoop d locator height step =
     attempt (HashAt d height) (\<lambda>hash.
     let locator' = locator @ [hash] in
     if height = 0 \<or> length locator' \<ge> 64 then Inr locator'
     else let step' = (if length locator' > 10 then step * 2 else step)
       in locatorLoop d locator' (if step' > height then 0 else height - step') step')"
  by pat_completeness auto
termination by (relation "measure (\<lambda>(_, locator, _, _). 64 - length locator)") auto

declare locatorLoop.simps [simp del]

definition BlockLocator :: "crypto \<Rightarrow> db \<Rightarrow> string list res" where
  "BlockLocator C d =
     attempt (Tip d) (\<lambda>tip.
     attempt (locatorLoop d [] (TipHeight tip) 1) (\<lambda>locator.
     Inr (if last locator \<noteq> Hash (GenesisBlock C) then locator @ [Hash (GenesisBlock C)] else locator)))"

fun findLocatorHash :: "db \<Rightarrow> string list \<Rightarrow> (u64 \<times> string) res" where
  "findLocatorHash d [] = Inl (Errorf ''locator does not share the Entcoin genesis'')"
| "findLocatorHash d (hash # hashes) =
     (case find (\<lambda>r. BHash r = hash) (dbBlocks d) of
        Some r \<Rightarrow> Inr (word_of_int (BHeight r), hash)
      | None \<Rightarrow> findLocatorHash d hashes)"

definition FindLocator :: "db \<Rightarrow> string list \<Rightarrow> (u64 \<times> string) res" where
  "FindLocator d hashes =
     (if length hashes = 0 \<or> length hashes > 64
      then Inl (Errorf ''locator must contain between 1 and 64 hashes'')
      else findLocatorHash d hashes)"

section \<open>Pruning\<close>

definition MinimumPruneDepth :: u64 where "MinimumPruneDepth = word_of_nat FirstAdjustment"
definition MaximumPruneDepth :: u64 where "MaximumPruneDepth = EmissionBlocks"

definition PrunedThrough :: "db \<Rightarrow> u64 res" where
  "PrunedThrough d = prunedThrough d"

definition validatePruneDepth :: "u64 \<Rightarrow> unit res" where
  "validatePruneDepth depth =
     (if depth = 0 then Inr ()
      else if depth < MinimumPruneDepth \<or> depth > MaximumPruneDepth
      then Inl (Errorf ''prune depth out of range'') else Inr ())"

definition PruneDepth :: "db \<Rightarrow> u64 res" where
  "PruneDepth d =
     attempt (uint64Metadata d pruneDepthMetaKey) (\<lambda>depth.
     attempt (validatePruneDepth depth) (\<lambda>_. Inr depth))"

definition SetPruneDepth :: "db \<Rightarrow> u64 \<Rightarrow> db res" where
  "SetPruneDepth d depth =
     attempt (validatePruneDepth depth) (\<lambda>_.
     Inr (d\<lparr>dbMeta := sql_upsert pruneDepthMetaKey (encodeUint64 depth) (dbMeta d)\<rparr>))"

definition prune_through :: "u64 \<Rightarrow> db \<Rightarrow> db" where
  "prune_through cutoff d =
     (let pruned = (\<lambda>h. 1 \<le> h \<and> h \<le> int64_of cutoff) in
      d\<lparr>dbBlocks := map (\<lambda>r. if pruned (BHeight r) then r\<lparr>BData := None\<rparr> else r) (dbBlocks d),
        dbTransactions := map (\<lambda>r. if pruned (TBlockHeight r) then r\<lparr>TData := None\<rparr> else r) (dbTransactions d),
        dbUndo := filter (\<lambda>r. \<not> pruned (DHeight r)) (dbUndo d),
        dbMeta := sql_upsert prunedThroughMetaKey (encodeUint64 cutoff) (dbMeta d)\<rparr>)"

definition Prune :: "db \<Rightarrow> u64 \<Rightarrow> (db \<times> u64) res" where
  "Prune d retainRecent =
     (if retainRecent = 0 then Inl (Errorf ''prune retention must keep at least one recent block'')
      else attempt (tipFromQuery d) (\<lambda>tip.
      attempt (prunedThrough d) (\<lambda>current.
      if TipHeight tip \<le> retainRecent then Inr (d, current)
      else let cutoff = TipHeight tip - retainRecent in
        if cutoff \<le> current then Inr (d, current)
        else Inr (prune_through cutoff d, cutoff))))"

end
