(* ===== verification/History.thy ===== *)
theory History
  imports Query "HOL-Library.Product_Lexorder"
begin

text \<open>
  \<open>internal/ledger/history.go\<close> and \<open>internal/ledger/wallet_snapshot.go\<close>: the history of an address,
  pending transactions first, and the bounded snapshot a node serves to wallets.
\<close>

section \<open>Records\<close>

record TransactionRecord =
  HistID :: string
  HistBlockHeight :: "u64 option"
  HistBlockHash :: string
  HistPosition :: int
  HistCoinbase :: bool
  HistPending :: bool
  HistPruned :: bool
  HistConfirmations :: u64
  HistTimestamp :: int
  HistReceived :: u64
  HistSent :: u64
  HistTransaction :: transaction

definition TransactionHistoryAll :: string where "TransactionHistoryAll = ''all''"
definition TransactionHistoryReceived :: string where "TransactionHistoryReceived = ''received''"
definition TransactionHistorySent :: string where "TransactionHistorySent = ''sent''"
definition TransactionHistoryMining :: string where "TransactionHistoryMining = ''mining''"

definition valid_filter :: "string \<Rightarrow> bool" where
  "valid_filter f \<longleftrightarrow> f = TransactionHistoryAll \<or> f = TransactionHistoryReceived \<or>
     f = TransactionHistorySent \<or> f = TransactionHistoryMining"

text \<open>\<open>COALESCE((SELECT SUM(...)), 0)\<close>.\<close>

definition sum_or_zero :: "int list \<Rightarrow> int res" where
  "sum_or_zero xs = attempt (sql_sum xs) (\<lambda>s. Inr (case s of None \<Rightarrow> 0 | Some n \<Rightarrow> n))"

section \<open>Pending transactions\<close>

text \<open>The two left joins of an input: its confirmed and its pending source, each possibly null.\<close>

definition input_source :: "db \<Rightarrow> mempool_input_row \<Rightarrow> utxo_row option \<times> mempool_output_row option" where
  "input_source d i =
     (find (\<lambda>u. UTxId u = IInputTxId i \<and> UIndex u = IInputIndex i) (dbUtxos d),
      find (\<lambda>r. OTxId r = IInputTxId i \<and> OIndex r = IInputIndex i) (dbMempoolOutputs d))"

definition source_owned :: "string \<Rightarrow> utxo_row option \<times> mempool_output_row option \<Rightarrow> bool" where
  "source_owned address src =
     (case src of (confirmed, pending) \<Rightarrow>
        (case confirmed of None \<Rightarrow> False | Some u \<Rightarrow> nocase (UAddress u) address) \<or>
        (case pending of None \<Rightarrow> False | Some r \<Rightarrow> nocase (OAddress r) address))"

definition source_amount :: "utxo_row option \<times> mempool_output_row option \<Rightarrow> int list" where
  "source_amount src =
     (case src of
        (Some u, _) \<Rightarrow> [UAmount u] | (None, Some r) \<Rightarrow> [OAmount r] | (None, None) \<Rightarrow> [])"

definition owned_sources :: "db \<Rightarrow> string \<Rightarrow> string \<Rightarrow> (utxo_row option \<times> mempool_output_row option) list" where
  "owned_sources d address i =
     filter (source_owned address) (map (input_source d) (filter (\<lambda>r. ITxId r = i) (dbMempoolInputs d)))"

definition owned_outputs :: "db \<Rightarrow> string \<Rightarrow> string \<Rightarrow> mempool_output_row list" where
  "owned_outputs d address i = filter (\<lambda>r. OTxId r = i \<and> nocase (OAddress r) address) (dbMempoolOutputs d)"

definition pending_selected :: "db \<Rightarrow> string \<Rightarrow> string \<Rightarrow> mempool_row \<Rightarrow> bool" where
  "pending_selected d address flt m \<longleftrightarrow>
     (owned_outputs d address (MTxId m) \<noteq> [] \<or> owned_sources d address (MTxId m) \<noteq> []) \<and>
     (flt = TransactionHistoryAll \<or>
      flt = TransactionHistorySent \<and> owned_sources d address (MTxId m) \<noteq> [] \<or>
      flt = TransactionHistoryReceived \<and> owned_sources d address (MTxId m) = [])"

definition pendingRecord :: "db \<Rightarrow> string \<Rightarrow> mempool_row \<Rightarrow> TransactionRecord res" where
  "pendingRecord d address m =
     attempt (sum_or_zero (map OAmount (owned_outputs d address (MTxId m)))) (\<lambda>received.
     attempt (sum_or_zero (concat (map source_amount (owned_sources d address (MTxId m))))) (\<lambda>sent.
     if received < 0 \<or> sent < 0 then Inl (Errorf ''pending transaction has invalid indexed amounts'')
     else if ID (MData m) \<noteq> MTxId m then Inl (Errorf ''pending transaction data does not match its index'')
     else Inr \<lparr>HistID = MTxId m, HistBlockHeight = None, HistBlockHash = [], HistPosition = 0,
               HistCoinbase = False, HistPending = True, HistPruned = False, HistConfirmations = 0,
               HistTimestamp = MFirstSeen m, HistReceived = word_of_int received,
               HistSent = word_of_int sent, HistTransaction = MData m\<rparr>))"

definition pendingHistory :: "db \<Rightarrow> string \<Rightarrow> int \<Rightarrow> string \<Rightarrow> TransactionRecord list res" where
  "pendingHistory d address limit flt =
     (if flt = TransactionHistoryMining then Inr []
      else mapE (pendingRecord d address)
        (sql_limit limit 0 (sql_order_desc MSequence (filter (pending_selected d address flt) (dbMempool d)))))"

section \<open>Confirmed transactions\<close>

definition index_rows :: "db \<Rightarrow> string \<Rightarrow> string \<Rightarrow> int \<Rightarrow> address_row list" where
  "index_rows d address i direction =
     filter (\<lambda>a. ATxId a = i \<and> nocase (AAddress a) address \<and> ADirection a = direction) (dbAddresses d)"

definition confirmed_selected :: "db \<Rightarrow> string \<Rightarrow> string \<Rightarrow> tx_row \<Rightarrow> bool" where
  "confirmed_selected d address flt t \<longleftrightarrow>
     (\<exists>a \<in> set (dbAddresses d). ATxId a = TId t \<and> nocase (AAddress a) address) \<and>
     (flt = TransactionHistoryAll \<or>
      flt = TransactionHistoryMining \<and> TCoinbase t = 1 \<or>
      flt = TransactionHistorySent \<and> TCoinbase t = 0 \<and> index_rows d address (TId t) addressDirectionInput \<noteq> [] \<or>
      flt = TransactionHistoryReceived \<and> TCoinbase t = 0 \<and> index_rows d address (TId t) addressDirectionInput = [])"

text \<open>\<open>JOIN blocks b ON b.height = t.block_height\<close>, on the primary key of the blocks.\<close>

definition joined_rows :: "db \<Rightarrow> (tx_row \<times> block_row) list" where
  "joined_rows d = concat (map (\<lambda>t. map (Pair t) (filter (\<lambda>b. BHeight b = TBlockHeight t) (dbBlocks d))) (dbTransactions d))"

definition confirmedRecord :: "db \<Rightarrow> string \<Rightarrow> u64 \<Rightarrow> tx_row \<times> block_row \<Rightarrow> TransactionRecord res" where
  "confirmedRecord d address tipHeight tb =
     (case tb of (t, b) \<Rightarrow>
      attempt (sum_or_zero (map AAmount (index_rows d address (TId t) addressDirectionOutput))) (\<lambda>received.
      attempt (sum_or_zero (map AAmount (index_rows d address (TId t) addressDirectionInput))) (\<lambda>sent.
      if TBlockHeight t < 0 \<or> TBlockHeight t > uint tipHeight \<or> TIndex t < 0 \<or>
         (TCoinbase t \<noteq> 0 \<and> TCoinbase t \<noteq> 1) \<or> received < 0 \<or> sent < 0
      then Inl (Errorf ''confirmed transaction index contains invalid values'')
      else attempt
        (case TData t of
           None \<Rightarrow> Inr (zero_transaction\<lparr>ID := TId t, Coinbase := (TCoinbase t = 1)\<rparr>)
         | Some tx \<Rightarrow>
           if ID tx \<noteq> TId t \<or> Coinbase tx \<noteq> (TCoinbase t = 1)
           then Inl (Errorf ''confirmed transaction data does not match its index'') else Inr tx) (\<lambda>tx.
        let height = word_of_int (TBlockHeight t) in
        Inr \<lparr>HistID = TId t, HistBlockHeight = Some height, HistBlockHash = BHash b, HistPosition = TIndex t,
             HistCoinbase = (TCoinbase t = 1), HistPending = False, HistPruned = (TData t = None),
             HistConfirmations = tipHeight - height + 1, HistTimestamp = BTimestamp b,
             HistReceived = word_of_int received, HistSent = word_of_int sent, HistTransaction = tx\<rparr>))))"

definition confirmedHistory :: "db \<Rightarrow> string \<Rightarrow> int \<Rightarrow> u64 \<Rightarrow> string \<Rightarrow> TransactionRecord list res" where
  "confirmedHistory d address limit tipHeight flt =
     mapE (confirmedRecord d address tipHeight)
       (sql_limit limit 0 (sql_order_desc (\<lambda>(t, _). (TBlockHeight t, TIndex t))
         (filter (\<lambda>(t, _). confirmed_selected d address flt t) (joined_rows d))))"

section \<open>Histories\<close>

definition joinedHistory :: "db \<Rightarrow> string \<Rightarrow> int \<Rightarrow> u64 \<Rightarrow> string \<Rightarrow> TransactionRecord list res" where
  "joinedHistory d address limit tipHeight flt =
     attempt (pendingHistory d address limit flt) (\<lambda>records.
     if int (length records) = limit then Inr records
     else attempt (confirmedHistory d address (limit - int (length records)) tipHeight flt) (\<lambda>confirmed.
          Inr (records @ confirmed)))"

definition FilteredTransactionHistory :: "crypto \<Rightarrow> db \<Rightarrow> string \<Rightarrow> int \<Rightarrow> string \<Rightarrow> TransactionRecord list res" where
  "FilteredTransactionHistory C d address limit flt =
     attempt (ValidateAddress C address) (\<lambda>_.
     if limit \<le> 0 \<or> limit > 1000 then Inl (Errorf ''transaction history limit must be between 1 and 1000'')
     else if \<not> valid_filter flt then Inl (Errorf ''unknown transaction history filter'')
     else attempt (tipFromQuery d) (\<lambda>tip. joinedHistory d address limit (TipHeight tip) flt))"

definition TransactionHistory :: "crypto \<Rightarrow> db \<Rightarrow> string \<Rightarrow> int \<Rightarrow> TransactionRecord list res" where
  "TransactionHistory C d address limit = FilteredTransactionHistory C d address limit TransactionHistoryAll"

section \<open>Wallet snapshots\<close>

record WalletSnapshot =
  SnapTip :: tip
  SnapConfirmedBalance :: u64
  SnapSpendableBalance :: u64
  SnapUTXO :: utxo
  SnapUTXOTruncated :: bool
  SnapHistory :: "TransactionRecord list"

text \<open>The loop over the at most \<open>limit + 1\<close> rows: a row beyond the limit only sets the flag.\<close>

definition scanBounded :: "int \<Rightarrow> utxo \<times> bool \<Rightarrow> string \<times> int \<times> int \<times> string \<Rightarrow> (utxo \<times> bool) res" where
  "scanBounded limit st row =
     (case (st, row) of ((outputs, truncated), (i, index, amount, address)) \<Rightarrow>
      if int (length outputs) = limit then Inr (outputs, True)
      else if index < 0 \<or> index > 4294967295 \<or> amount \<le> 0
      then Inl (Errorf ''stored spendable output contains invalid values'')
      else Inr (AList.update (Outpoint i (word_of_int index)) \<lparr>Amount = word_of_int amount, Address = address\<rparr> outputs,
                truncated))"

definition boundedSpendableUTXO :: "db \<Rightarrow> string \<Rightarrow> u64 \<Rightarrow> int \<Rightarrow> (u64 \<times> utxo \<times> bool) res" where
  "boundedSpendableUTXO d address spendingHeight limit =
     (let rows = spendable_rows d address spendingHeight in
      attempt (sql_sum (map (\<lambda>(_, _, amount, _). amount) rows)) (\<lambda>sum0.
      if (case sum0 of Some n \<Rightarrow> n < 0 | None \<Rightarrow> False)
      then Inl (Errorf ''stored spendable balance is negative'')
      else attempt (foldE (scanBounded limit) ([], False)
             (sql_limit (limit + 1) 0 (sql_order (\<lambda>(i, index, _, _). (i, index)) rows))) (\<lambda>(outputs, truncated).
           Inr (case sum0 of Some n \<Rightarrow> word_of_int n | None \<Rightarrow> 0, outputs, truncated))))"

definition boundedHistory :: "db \<Rightarrow> string \<Rightarrow> int \<Rightarrow> u64 \<Rightarrow> TransactionRecord list res" where
  "boundedHistory d address limit tipHeight = joinedHistory d address limit tipHeight TransactionHistoryAll"

definition ReadWalletSnapshot :: "crypto \<Rightarrow> db \<Rightarrow> string \<Rightarrow> int \<Rightarrow> int \<Rightarrow> WalletSnapshot res" where
  "ReadWalletSnapshot C d address utxoLimit historyLimit =
     attempt (ValidateAddress C address) (\<lambda>_.
     if utxoLimit \<le> 0 \<or> utxoLimit > int MaxTransactionInputs then Inl (Errorf ''wallet UTXO limit out of range'')
     else if historyLimit \<le> 0 \<or> historyLimit > 50 then Inl (Errorf ''wallet history limit must be between 1 and 50'')
     else attempt (tipFromQuery d) (\<lambda>tip.
     attempt (nextHeight tip) (\<lambda>height.
     attempt (confirmedBalance d address) (\<lambda>confirmed.
     attempt (boundedSpendableUTXO d address height utxoLimit) (\<lambda>(spendable, outputs, truncated).
     attempt (boundedHistory d address historyLimit (TipHeight tip)) (\<lambda>history.
     Inr \<lparr>SnapTip = tip, SnapConfirmedBalance = confirmed, SnapSpendableBalance = spendable,
          SnapUTXO = outputs, SnapUTXOTruncated = truncated, SnapHistory = history\<rparr>))))))"

end
