(* ===== verification/Node_Records.thy ===== *)
theory Node_Records
  imports Sql Tables
begin

text \<open>
  \<open>internal/ledger/health.go\<close> and \<open>internal/ledger/peers.go\<close>: the two tables the node keeps beside the
  chain. The clock is an argument where the code reads it.
\<close>

section \<open>Health events\<close>

record HealthEvent =
  EvID :: int
  EvCode :: string
  EvSeverity :: string
  EvMessage :: string
  EvAction :: string
  EvCreated :: "int option"
  EvResolved :: bool

definition maxHealthCodeBytes :: nat where "maxHealthCodeBytes = 64"
definition maxHealthMessageBytes :: nat where "maxHealthMessageBytes = 4096"

definition code_character :: "char \<Rightarrow> bool" where
  "code_character c \<longleftrightarrow>
     (let n = of_char c :: nat in
      97 \<le> n \<and> n \<le> 122 \<or> 65 \<le> n \<and> n \<le> 90 \<or> 48 \<le> n \<and> n \<le> 57 \<or> n = 95 \<or> n = 45 \<or> n = 46)"

definition validateHealthEvent :: "HealthEvent \<Rightarrow> unit res" where
  "validateHealthEvent e =
     (if EvCode e = [] \<or> length (EvCode e) > maxHealthCodeBytes
      then Inl (Errorf ''health event code length is invalid'')
      else if \<not> list_all code_character (EvCode e)
      then Inl (Errorf ''health event code contains invalid characters'')
      else if EvSeverity e \<notin> {''info'', ''warning'', ''error'', ''critical''}
      then Inl (Errorf ''health event severity is invalid'')
      else if EvMessage e = [] \<or> length (EvMessage e) > maxHealthMessageBytes
      then Inl (Errorf ''health event message length is invalid'')
      else if length (EvAction e) > maxHealthMessageBytes
      then Inl (Errorf ''health event action is too long'')
      else Inr ())"

definition AddHealthEvent :: "int \<Rightarrow> db \<Rightarrow> HealthEvent \<Rightarrow> (db \<times> int) res" where
  "AddHealthEvent now d event =
     (let e = event\<lparr>EvCode := TrimSpace (EvCode event), EvSeverity := TrimSpace (EvSeverity event),
                EvMessage := TrimSpace (EvMessage event), EvAction := TrimSpace (EvAction event)\<rparr> in
      attempt (validateHealthEvent e) (\<lambda>_.
      let created = (case EvCreated e of None \<Rightarrow> now | Some t \<Rightarrow> t); i = dbHealthSeq d + 1 in
      if dbHealthSeq d \<ge> MaxInt64 then Inl (SqlConstraint ''health_events: id'')
      else Inr (d\<lparr>dbHealth := dbHealth d @
                   [\<lparr>HId = i, HCode = EvCode e, HSeverity = EvSeverity e, HMessage = EvMessage e,
                     HAction = EvAction e, HCreatedAt = created, HResolved = bool_column (EvResolved e)\<rparr>],
                  dbHealthSeq := i\<rparr>, i)))"

definition scanHealth :: "health_row \<Rightarrow> HealthEvent res" where
  "scanHealth r =
     (if HId r \<le> 0 \<or> (HResolved r \<noteq> 0 \<and> HResolved r \<noteq> 1)
      then Inl (Errorf ''stored health event contains invalid values'')
      else Inr \<lparr>EvID = HId r, EvCode = HCode r, EvSeverity = HSeverity r, EvMessage = HMessage r,
                EvAction = HAction r, EvCreated = Some (HCreatedAt r), EvResolved = (HResolved r = 1)\<rparr>)"

text \<open>\<open>ORDER BY created_at DESC, id DESC\<close>: the rows stand in the order of their ids and the sort is stable.\<close>

definition HealthEvents :: "db \<Rightarrow> bool \<Rightarrow> int \<Rightarrow> HealthEvent list res" where
  "HealthEvents d activeOnly limit =
     (if limit \<le> 0 \<or> limit > 1000 then Inl (Errorf ''health event limit must be between 1 and 1000'')
      else mapE scanHealth (sql_limit limit 0 (rev (sort_key HCreatedAt (sort_key HId
             (filter (\<lambda>r. \<not> activeOnly \<or> HResolved r = 0) (dbHealth d)))))))"

definition ResolveHealthEvent :: "db \<Rightarrow> int \<Rightarrow> db res" where
  "ResolveHealthEvent d i =
     (if i \<le> 0 then Inl (Errorf ''health event ID must be positive'')
      else if \<not> (\<exists>r \<in> set (dbHealth d). HId r = i) then Inl (Errorf ''health event not found'')
      else Inr (d\<lparr>dbHealth := map (\<lambda>r. if HId r = i then r\<lparr>HResolved := 1\<rparr> else r) (dbHealth d)\<rparr>))"

section \<open>Peer URLs\<close>

text \<open>
  The parts of a URL that \<open>url.Parse\<close> returns. Parsing a URL and an IP address are the standard
  library's and enter as the fields of \<open>url_library\<close>.
\<close>

record parsed_url =
  UrlScheme :: string
  UrlHost :: string
  UrlHostname :: string
  UrlPort :: string
  UrlPlain :: bool
  UrlString :: string

record url_library =
  ParseURL :: "string \<Rightarrow> parsed_url option"
  IsIP :: "string \<Rightarrow> bool"

definition label_character :: "char \<Rightarrow> bool" where
  "label_character c \<longleftrightarrow>
     (let n = of_char c :: nat in
      97 \<le> n \<and> n \<le> 122 \<or> 65 \<le> n \<and> n \<le> 90 \<or> 48 \<le> n \<and> n \<le> 57 \<or> n = 45)"

definition validStoredDNSName :: "string \<Rightarrow> bool" where
  "validStoredDNSName hostname =
     (if hostname = [] \<or> length hostname > 253 \<or> hd hostname = CHR ''.'' \<or> last hostname = CHR ''.'' then False
      else list_all (\<lambda>label. \<not> (label = [] \<or> length label > 63 \<or> hd label = CHR ''-'' \<or> last label = CHR ''-'') \<and>
             list_all label_character label) (split_char (CHR ''.'') hostname))"

text \<open>\<open>strings.TrimRight(raw, "/")\<close>.\<close>

definition trimSlashes :: "string \<Rightarrow> string" where
  "trimSlashes s = rev (dropWhile (\<lambda>c. c = CHR ''/'') (rev s))"

text \<open>\<open>UrlPlain\<close>: no user, opaque part, path, raw path, query or fragment.\<close>

definition normalizeStoredPeerURL :: "url_library \<Rightarrow> string \<Rightarrow> string res" where
  "normalizeStoredPeerURL U input =
     (let raw = TrimSpace (trimSlashes input) in
      if raw = [] \<or> length raw > 2048 then Inl (Errorf ''peer URL length is invalid'')
      else case ParseURL U raw of
        None \<Rightarrow> Inl (Errorf ''peer must be an http(s) URL'')
      | Some u \<Rightarrow>
        if (UrlScheme u \<noteq> ''http'' \<and> UrlScheme u \<noteq> ''https'') \<or> UrlHost u = []
        then Inl (Errorf ''peer must be an http(s) URL'')
        else if \<not> UrlPlain u
        then Inl (Errorf ''peer URL must not contain credentials, path, query, or fragment'')
        else if \<not> IsIP U (UrlHostname u) \<and> \<not> validStoredDNSName (UrlHostname u)
        then Inl (Errorf ''peer host must be an IP address or ASCII DNS name'')
        else if UrlPort u = [] then Inr (UrlString u)
        else if \<not> list_all is_digit (UrlPort u) \<or> dec_value (UrlPort u) > 65535 \<or> dec_value (UrlPort u) = 0
        then Inl (Errorf ''peer port must be between 1 and 65535'')
        else Inr (UrlString u))"

section \<open>Peers\<close>

definition maxPeerErrorBytes :: nat where "maxPeerErrorBytes = 2048"

definition utf8Start :: "char \<Rightarrow> bool" where
  "utf8Start c \<longleftrightarrow> (of_char c :: u8) AND 0xC0 \<noteq> 0x80"

fun utf8Cut :: "string \<Rightarrow> nat \<Rightarrow> nat" where
  "utf8Cut v 0 = 0"
| "utf8Cut v (Suc n) = (if utf8Start (v ! Suc n) then Suc n else utf8Cut v n)"

definition truncateUTF8 :: "string \<Rightarrow> nat \<Rightarrow> string" where
  "truncateUTF8 v maximumBytes =
     (if length v \<le> maximumBytes then v else take (utf8Cut v maximumBytes) v)"

definition UpsertPeer :: "url_library \<Rightarrow> int \<Rightarrow> db \<Rightarrow> string \<Rightarrow> bool \<Rightarrow> db res" where
  "UpsertPeer U now d rawURL manual =
     attempt (normalizeStoredPeerURL U rawURL) (\<lambda>url.
     Inr (d\<lparr>dbPeers :=
       (if \<exists>r \<in> set (dbPeers d). PUrl r = url
        then map (\<lambda>r. if PUrl r = url then r\<lparr>PManual := (if manual then 1 else PManual r)\<rparr> else r) (dbPeers d)
        else dbPeers d @ [\<lparr>PUrl = url, PManual = bool_column manual, PAddedAt = now, PLastSeen = None,
               PFailures = 0, PNextAttempt = None, PLastError = []\<rparr>])\<rparr>))"

definition RemovePeer :: "url_library \<Rightarrow> db \<Rightarrow> string \<Rightarrow> db res" where
  "RemovePeer U d rawURL =
     attempt (normalizeStoredPeerURL U rawURL) (\<lambda>url.
     Inr (d\<lparr>dbPeers := fst (sql_delete (\<lambda>r. PUrl r = url) (dbPeers d))\<rparr>))"

record PeerRecord =
  PeerURL :: string
  PeerManual :: bool
  PeerLastSeen :: "int option"
  PeerFailures :: int
  PeerNextAttempt :: "int option"
  PeerLastError :: string

definition scanPeer :: "peer_row \<Rightarrow> PeerRecord res" where
  "scanPeer r =
     (if (PManual r \<noteq> 0 \<and> PManual r \<noteq> 1) \<or> PFailures r < 0 then Inl (Errorf ''stored peer contains invalid values'')
      else Inr \<lparr>PeerURL = PUrl r, PeerManual = (PManual r = 1), PeerLastSeen = PLastSeen r,
                PeerFailures = PFailures r, PeerNextAttempt = PNextAttempt r, PeerLastError = PLastError r\<rparr>)"

text \<open>\<open>ORDER BY manual DESC, url\<close>.\<close>

definition Peers :: "db \<Rightarrow> PeerRecord list res" where
  "Peers d = mapE scanPeer (sort_key (\<lambda>r. - PManual r) (sort_key PUrl (dbPeers d)))"

definition RecordPeerSuccess :: "url_library \<Rightarrow> int \<Rightarrow> db \<Rightarrow> string \<Rightarrow> int option \<Rightarrow> db res" where
  "RecordPeerSuccess U now d rawURL seenAt =
     attempt (normalizeStoredPeerURL U rawURL) (\<lambda>url.
     let seen = (case seenAt of None \<Rightarrow> now | Some t \<Rightarrow> t) in
     Inr (d\<lparr>dbPeers := map (\<lambda>r. if PUrl r = url
       then r\<lparr>PLastSeen := Some seen, PFailures := 0, PNextAttempt := None, PLastError := []\<rparr> else r) (dbPeers d)\<rparr>))"

definition RecordPeerFailure :: "url_library \<Rightarrow> db \<Rightarrow> string \<Rightarrow> int option \<Rightarrow> string option \<Rightarrow> db res" where
  "RecordPeerFailure U d rawURL nextAttempt cause =
     attempt (normalizeStoredPeerURL U rawURL) (\<lambda>url.
     let message = (case cause of
           None \<Rightarrow> ''peer request failed''
         | Some text0 \<Rightarrow> if TrimSpace text0 = [] then ''peer request failed'' else TrimSpace text0);
         message = truncateUTF8 message maxPeerErrorBytes in
     Inr (d\<lparr>dbPeers := map (\<lambda>r. if PUrl r = url
       then r\<lparr>PFailures := (if PFailures r < 1000000 then PFailures r + 1 else PFailures r),
              PNextAttempt := nextAttempt, PLastError := message\<rparr> else r) (dbPeers d)\<rparr>))"

end
