(* ===== verification/Ledger_Ok.thy ===== *)
theory Ledger_Ok
  imports Disconnect Mempool_Inv Import_State Candidate History Node_Records
begin

text \<open>
  The invariant of the ledger's database: it represents a replayed chain and a mempool the chain accepts.
  One lemma per operation shows that the operation keeps it, and which chain it leads to.
\<close>

section \<open>The invariant\<close>

definition pool_part :: "db \<Rightarrow> mempool_row list \<times> int \<times> mempool_input_row list \<times> mempool_output_row list" where
  "pool_part d = (dbMempool d, dbMempoolSeq d, dbMempoolInputs d, dbMempoolOutputs d)"

definition next_height :: "block list \<Rightarrow> u64" where
  "next_height blocks = word_of_nat (length blocks)"

definition ledger_ok :: "crypto \<Rightarrow> (nat \<Rightarrow> int) \<Rightarrow> db \<Rightarrow> block list \<Rightarrow> (nat \<Rightarrow> replay_state) \<Rightarrow>
    (nat \<Rightarrow> UndoRecord) \<Rightarrow> nat \<Rightarrow> replay_state \<Rightarrow> bool" where
  "ledger_ok C now d blocks sts us p st \<longleftrightarrow> represents C now d blocks sts us p \<and>
     pool_ok C d (sts (length blocks - 1)) (chain_trace blocks) (next_height blocks) st"

lemma pool_tables_cong: "pool_tables d \<Longrightarrow> pool_part d' = pool_part d \<Longrightarrow> pool_tables d'"
  by (simp add: pool_tables_def pool_part_def pool_txs_def)

lemma pool_txs_cong: "pool_part d' = pool_part d \<Longrightarrow> pool_txs d' = pool_txs d"
  by (simp add: pool_part_def pool_txs_def)

lemma ledger_ok_cong:
  assumes ok: "ledger_ok C now d blocks sts us p st" and c: "chain_tables d' = chain_tables d" and q: "pool_part d' = pool_part d"
  shows "ledger_ok C now d' blocks sts us p st"
proof -
  have "dbUtxos d' = dbUtxos d" "dbTransactions d' = dbTransactions d" "dbAddresses d' = dbAddresses d"
    using c by (simp_all add: chain_tables_def)
  moreover have "dbMempool d' = dbMempool d" "dbMempoolOutputs d' = dbMempoolOutputs d"
    using q by (simp_all add: pool_part_def)
  moreover from this have "pool_coin d' h = pool_coin d h" for h by (intro ext) (simp add: pool_coin_def)
  then have "pool_view d' h = pool_view d h" for h
    by (intro ext) (simp add: pool_view_def pool_spent_def pool_txs_cong [OF q] \<open>dbUtxos d' = dbUtxos d\<close> cong: option.case_cong)
  ultimately have "pool_sim C d' st0 tr h st" if "pool_sim C d st0 tr h st" for st0 tr h
    using that pool_tables_cong [OF _ q] pool_txs_cong [OF q] by (simp add: pool_sim_def ledger_sim_def)
  moreover have "pool_within_budget d' = pool_within_budget d"
    using q pool_txs_cong [OF q] by (simp add: pool_within_budget_def pool_usage_def pool_part_def)
  ultimately show ?thesis using ok represents_cong [OF _ c] by (auto simp: ledger_ok_def pool_ok_def)
qed

lemma ledger_okD:
  assumes "ledger_ok C now d blocks sts us p st"
  shows "represents C now d blocks sts us p" "pool_tables d" "pool_within_budget d"
    "pool_sim C d (sts (length blocks - 1)) (chain_trace blocks) (next_height blocks) st"
  using assms by (simp_all add: ledger_ok_def pool_ok_def pool_sim_def)

lemma represents_start:
  assumes rep: "represents C now d blocks sts us p"
  shows "ledger_sim C d (sts (length blocks - 1))" "chain_inv (sts (length blocks - 1)) (chain_trace blocks)"
    "state_value (sts (length blocks - 1)) \<le> 200000000000000" "next_height blocks \<noteq> 0"
    "length blocks \<le> 9223372036854775808" "blocks \<noteq> []"
proof -
  have r: "replayed C now blocks sts" and s: "ledger_sim C d (sts (length blocks - 1))"
    using rep by (simp_all add: represents_def)
  show "ledger_sim C d (sts (length blocks - 1))" by (rule s)
  show ne: "blocks \<noteq> []" and len: "length blocks \<le> 9223372036854775808"
    using r by (simp_all add: replayed_def heights_ok_def)
  have n: "length blocks - 1 < length blocks" using ne by (cases blocks) auto
  show "chain_inv (sts (length blocks - 1)) (chain_trace blocks)" using replayed_inv(1) [OF r n] n by simp
  show "state_value (sts (length blocks - 1)) \<le> 200000000000000" by (rule replayed_inv(2) [OF r n])
  have "unat (next_height blocks) = length blocks" using len by (simp add: next_height_def unat_word_of_nat_64)
  then show "next_height blocks \<noteq> 0" using ne by auto
qed

lemma nextHeight_tip:
  assumes rep: "represents C now d blocks sts us p" and tip: "tipFromQuery d = Inr t"
  shows "nextHeight t = Inr h \<longleftrightarrow> length blocks < 9223372036854775808 \<and> h = next_height blocks"
proof -
  note s = represents_start(5,6) [OF rep]
  obtain n where n: "length blocks = Suc n" using s(2) by (cases blocks) auto
  have t: "TipHeight t = word_of_nat n" using tip represents_tip [OF rep] n by auto
  have "unat (word_of_nat n :: u64) = n" using s(1) n by (simp add: unat_word_of_nat_64)
  then have "uint (TipHeight t) \<ge> MaxInt64 \<longleftrightarrow> 9223372036854775807 \<le> n"
    by (simp add: t uint_nat MaxInt64_val del: of_nat_unat)
  then show ?thesis using n by (auto simp: nextHeight_def t next_height_def add.commute)
qed

section \<open>Rebuilding and adding\<close>

lemma rebuild_ok:
  assumes rep: "represents C now d blocks sts us p" and tab: "pool_tables d"
    and run: "rebuildMempool C t d extra = Inr d'"
  shows "\<exists>st. ledger_ok C now d' blocks sts us p st" "subseq (pool_txs d') (extra @ pool_txs d)"
    "length blocks < 9223372036854775808"
proof -
  note s = represents_start [OF rep]
  let ?items = "map (\<lambda>tx. \<lparr>PendingTransaction = tx, PendingFirstSeen = t\<rparr>) extra @
      map (\<lambda>r. \<lparr>PendingTransaction = MData r, PendingFirstSeen = MFirstSeen r\<rparr>) (dbMempool d)"
  have sorted: "sorted (map MSequence (dbMempool d))"
    using tab by (simp add: pool_tables_def strict_sorted_imp_sorted)
  obtain tip h where r: "tipFromQuery d = Inr tip" "nextHeight tip = Inr h" "repopulateMempool C (clearMempool d) ?items h = Inr d'"
    using run sql_order_sorted [OF sorted] by (auto simp: rebuildMempool_def res_simps)
  have h: "h = next_height blocks" and len: "length blocks < 9223372036854775808"
    using nextHeight_tip [OF rep r(1), of h] r(2) by auto
  note e = pool_empty [OF tab s(1-4)]
  have items: "map PendingTransaction ?items = extra @ pool_txs d" by (simp add: pool_txs_def comp_def)
  note p = repopulate_sound [OF e(1) r(3) [unfolded h], unfolded items repopulated_def]
  show "length blocks < 9223372036854775808" by (rule len)
  show "subseq (pool_txs d') (extra @ pool_txs d)" using p e(2) by auto
  have "represents C now d' blocks sts us p" using represents_cong [OF rep] p e(3) by simp
  then show "\<exists>st. ledger_ok C now d' blocks sts us p st" using p by (auto simp: ledger_ok_def)
qed

lemma rebuild_succeeds:
  assumes rep: "represents C now d blocks sts us p" and tab: "pool_tables d"
    and len: "length blocks < 9223372036854775808"
    and room: "dbMempoolSeq d + int (length extra) + int (length (dbMempool d)) \<le> MaxInt64"
  shows "\<exists>d'. rebuildMempool C t d extra = Inr d'"
proof -
  note s = represents_start [OF rep]
  let ?items = "map (\<lambda>tx. \<lparr>PendingTransaction = tx, PendingFirstSeen = t\<rparr>) extra @
      map (\<lambda>r. \<lparr>PendingTransaction = MData r, PendingFirstSeen = MFirstSeen r\<rparr>) (dbMempool d)"
  have sorted: "sorted (map MSequence (dbMempool d))"
    using tab by (simp add: pool_tables_def strict_sorted_imp_sorted)
  obtain tip where tip: "tipFromQuery d = Inr tip" using represents_tip [OF rep] by blast
  have h: "nextHeight tip = Inr (next_height blocks)" using nextHeight_tip [OF rep tip] len by simp
  note e = pool_empty [OF tab s(1-4)]
  have "dbMempoolSeq (clearMempool d) + int (length ?items) \<le> MaxInt64" using room e(4) by simp
  from repopulate_succeeds [OF e(1) this] show ?thesis
    using tip h sql_order_sorted [OF sorted] by (simp add: rebuildMempool_def)
qed

lemma add_exactly:
  assumes ok: "ledger_ok C now d blocks sts us p st"
  shows "AddTransaction C t d tx = Inr d' \<longleftrightarrow> length blocks < 9223372036854775808 \<and>
     (\<exists>fee. admissible C d st (next_height blocks) tx fee \<and> d' = admitted_db d tx t fee)"
proof -
  note o = ledger_okD [OF ok]
  obtain tip where tip: "tipFromQuery d = Inr tip" using represents_tip [OF o(1)] by blast
  have same: "addMempoolTransactionWithUsage C d tx t h None = addMempoolTransactionWithUsage C d tx t h (Some (pool_usage d))" for h
    using read_usage [OF o(2,3)] by (simp add: addMempoolTransactionWithUsage_def)
  show ?thesis
    using pool_admission [OF o(4)]
    by (auto simp: AddTransaction_def tip res_simps nextHeight_tip [OF o(1) tip] addMempoolTransaction_def same)
qed

lemma add_ok:
  assumes ok: "ledger_ok C now d blocks sts us p st" and add: "AddTransaction C t d tx = Inr d'"
  shows "\<exists>st'. ledger_ok C now d' blocks sts us p st' \<and> replayPending C (next_height blocks) st tx = Inr st'"
    "pool_txs d' = pool_txs d @ [tx]"
proof -
  note o = ledger_okD [OF ok]
  obtain fee where f: "admissible C d st (next_height blocks) tx fee" "d' = admitted_db d tx t fee"
    using add add_exactly [OF ok] by blast
  show "pool_txs d' = pool_txs d @ [tx]" by (simp add: f(2))
  show "\<exists>st'. ledger_ok C now d' blocks sts us p st' \<and> replayPending C (next_height blocks) st tx = Inr st'"
    using pool_extend [OF o(4) f(1)] budget_admitted [OF f(1)] represents_cong [OF o(1), of d']
    by (auto simp: ledger_ok_def pool_ok_def f(2))
qed

section \<open>Connecting and disconnecting\<close>

definition extends_chain :: "crypto \<Rightarrow> int \<Rightarrow> block list \<Rightarrow> (nat \<Rightarrow> replay_state) \<Rightarrow> block \<Rightarrow> replay_state \<Rightarrow> bool" where
  "extends_chain C t blocks sts b st' \<longleftrightarrow>
     replayBlock C (\<lambda>_. t) (blocks @ [b]) (sts (length blocks - 1)) (length blocks) = Inr st'"

lemma pool_part_connected [simp]: "pool_part (connected_db d b w tb rows u) = pool_part d"
  by (simp add: pool_part_def connected_db_def)

lemma pool_part_cut [simp]: "pool_part (cut_db d blocks p b u) = pool_part d"
  by (simp add: pool_part_def cut_db_def)

lemma connect_ok:
  assumes rep: "represents C now d blocks sts us p" and tab: "pool_tables d" and con: "connectBlockAtTime C d b t = Inr d'"
  shows "\<exists>st' u. extends_chain C t blocks sts b st' \<and>
     represents C (now(length blocks := t)) d' (blocks @ [b]) (sts(length blocks := st')) (us(length blocks := u)) p"
    and "pool_part d' = pool_part d" "pool_tables d'"
proof -
  from connect_sound [OF rep con] obtain st' tb rows u where
    c: "d' = connected_db d b (chain_work blocks + blockWork (Difficulty b)) tb rows u"
    "replayBlock C (\<lambda>_. t) (blocks @ [b]) (sts (length blocks - 1)) (length blocks) = Inr st'"
    "represents C (now(length blocks := t)) d' (blocks @ [b]) (sts(length blocks := st')) (us(length blocks := u)) p"
    by blast
  then show "\<exists>st' u. extends_chain C t blocks sts b st' \<and>
     represents C (now(length blocks := t)) d' (blocks @ [b]) (sts(length blocks := st')) (us(length blocks := u)) p"
    by (auto simp: extends_chain_def)
  show "pool_part d' = pool_part d" by (simp add: c(1))
  then show "pool_tables d'" by (rule pool_tables_cong [OF tab])
qed

lemma connect_block_ok:
  assumes ok: "ledger_ok C now d blocks sts us p st" and con: "ConnectBlock C t t' d b = Inr d'"
  shows "\<exists>st' u st''. extends_chain C t blocks sts b st' \<and>
     ledger_ok C (now(length blocks := t)) d' (blocks @ [b]) (sts(length blocks := st')) (us(length blocks := u)) p st''"
    and "subseq (pool_txs d') (pool_txs d)"
proof -
  note o = ledger_okD [OF ok]
  obtain d1 where d1: "connectBlockAtTime C d b t = Inr d1" "rebuildMempool C t' d1 [] = Inr d'"
    using con by (auto simp: ConnectBlock_def res_simps)
  note c = connect_ok [OF o(1,2) d1(1)]
  obtain st' u where s: "extends_chain C t blocks sts b st'"
    "represents C (now(length blocks := t)) d1 (blocks @ [b]) (sts(length blocks := st')) (us(length blocks := u)) p"
    using c(1) by blast
  note r = rebuild_ok [OF s(2) c(3) d1(2)]
  show "\<exists>st' u st''. extends_chain C t blocks sts b st' \<and>
     ledger_ok C (now(length blocks := t)) d' (blocks @ [b]) (sts(length blocks := st')) (us(length blocks := u)) p st''"
    using s(1) r(1) by blast
  show "subseq (pool_txs d') (pool_txs d)" using r(2) pool_txs_cong [OF c(2)] by simp
qed

lemma commit_ok:
  assumes ok: "ledger_ok C now d blocks sts us p st" and com: "commitMinedBlockAtTime C t' d b expected t = Inr d'"
  shows "\<exists>st' u st''. extends_chain C t blocks sts b st' \<and>
     ledger_ok C (now(length blocks := t)) d' (blocks @ [b]) (sts(length blocks := st')) (us(length blocks := u)) p st''"
    and "TipHeight expected = word_of_nat (length blocks - 1)" "TipHash expected = Hash (last blocks)"
proof -
  obtain tip where tip: "tipFromQuery d = Inr tip" "TipHeight tip = word_of_nat (length blocks - 1)" "TipHash tip = Hash (last blocks)"
    using represents_tip [OF ledger_okD(1) [OF ok]] by auto
  have same: "\<not> (TipHeight tip \<noteq> TipHeight expected \<or> TipHash tip \<noteq> TipHash expected)"
    using com unfolding commitMinedBlockAtTime_def tip(1) attempt_Inr by (metis Inl_Inr_False)
  then have con: "ConnectBlock C t t' d b = Inr d'"
    using com unfolding commitMinedBlockAtTime_def tip(1) attempt_Inr ConnectBlock_def by (simp only: if_False)
  have c: "TipHeight expected = word_of_nat (length blocks - 1)" "TipHash expected = Hash (last blocks)"
    using same unfolding tip(2,3) by metis+
  show "\<exists>st' u st''. extends_chain C t blocks sts b st' \<and>
     ledger_ok C (now(length blocks := t)) d' (blocks @ [b]) (sts(length blocks := st')) (us(length blocks := u)) p st''"
    by (rule connect_block_ok(1) [OF ok con])
  show "TipHeight expected = word_of_nat (length blocks - 1)" "TipHash expected = Hash (last blocks)" by (rule c)+
qed

text \<open>Every outcome of \<open>disconnectTip\<close> on a represented chain.\<close>

lemma disconnect_cases:
  assumes rep: "represents C now d blocks sts us p"
  shows "disconnectTip C d =
     (if length blocks = 1 then Inl ErrGenesisDisconnect
      else if p = length blocks - 1 then Inl ErrReorgBeyondPrune
      else Inr (cut_db d (butlast blocks) p (last blocks) (us (length blocks - 1)), last blocks, tl (Transactions (last blocks))))"
proof -
  note s = represents_start(5,6) [OF rep]
  obtain bs b where b: "blocks = bs @ [b]" using s(2) by (metis rev_exhaust)
  have p: "p < length blocks" "prunedThrough d = Inr (word_of_nat p)" using rep by (simp_all add: represents_def)
  have w: "unat (word_of_nat (length bs) :: u64) = length bs" "unat (word_of_nat p :: u64) = p"
    using s(1) p(1) b by (simp_all add: unat_word_of_nat_64)
  obtain tip where tip: "tipFromQuery d = Inr tip" "TipHeight tip = word_of_nat (length bs)"
    using represents_tip [OF rep] b by auto
  have zero: "TipHeight tip = 0 \<longleftrightarrow> bs = []" using w(1) by (auto simp: tip(2) word_unat_eq_iff)
  have below: "TipHeight tip \<le> word_of_nat p \<longleftrightarrow> p = length bs"
    using w p(1) b by (auto simp: tip(2) word_le_nat_alt)
  show ?thesis
  proof (cases "bs = [] \<or> p = length bs")
    case True
    then show ?thesis
      using zero below unfolding disconnectTip_def tip(1) p(2) attempt_Inr by (elim disjE) (simp_all add: b)
  next
    case False
    then have "bs \<noteq> []" "p < length bs" using p(1) b by auto
    from disconnect_computes [OF rep [unfolded b] this] False show ?thesis by (simp add: b)
  qed
qed

lemma disconnect_ok:
  assumes rep: "represents C now d blocks sts us p" and tab: "pool_tables d" and dis: "disconnectTip C d = Inr (d', b, txs)"
  shows "represents C now d' (butlast blocks) sts us p" "pool_part d' = pool_part d" "pool_tables d'"
    "blocks = butlast blocks @ [b]" "txs = tl (Transactions b)" "p < length blocks - 1"
proof -
  note s = represents_start(5,6) [OF rep]
  have c: "length blocks \<noteq> 1" "p \<noteq> length blocks - 1" "b = last blocks" "txs = tl (Transactions b)"
    "d' = cut_db d (butlast blocks) p b (us (length blocks - 1))"
    using dis unfolding disconnect_cases [OF rep] by (auto split: if_splits)
  show b: "blocks = butlast blocks @ [b]" "txs = tl (Transactions b)" using s(2) c by simp_all
  have p: "p < length blocks" using rep by (simp add: represents_def)
  then show p': "p < length blocks - 1" using c(2) by simp
  then have "butlast blocks \<noteq> []" by (metis length_butlast length_greater_0_conv less_nat_zero_code list.size(3) neq0_conv)
  moreover have "p < length (butlast blocks)" using p' by simp
  moreover have "represents C now d (butlast blocks @ [b]) sts us p" using rep b(1) by simp
  ultimately show "represents C now d' (butlast blocks) sts us p"
    using cut_represents [of C now d "butlast blocks" b sts us p] by (simp add: c(5))
  show "pool_part d' = pool_part d" by (simp add: c(5))
  then show "pool_tables d'" by (rule pool_tables_cong [OF tab])
qed

lemma disconnect_tip_ok:
  assumes ok: "ledger_ok C now d blocks sts us p st" and dis: "DisconnectTip C t d = Inr (d', b)"
  shows "\<exists>st'. ledger_ok C now d' (butlast blocks) sts us p st'" "blocks = butlast blocks @ [b]"
    "subseq (pool_txs d') (tl (Transactions b) @ pool_txs d)"
proof -
  note o = ledger_okD [OF ok]
  obtain d1 txs where d1: "disconnectTip C d = Inr (d1, b, txs)" "rebuildMempool C t d1 txs = Inr d'"
    using dis by (auto simp: DisconnectTip_def res_simps)
  note c = disconnect_ok [OF o(1,2) d1(1)]
  note r = rebuild_ok [OF c(1,3) d1(2)]
  show "\<exists>st'. ledger_ok C now d' (butlast blocks) sts us p st'" by (rule r(1))
  show "blocks = butlast blocks @ [b]" by (rule c(4))
  show "subseq (pool_txs d') (tl (Transactions b) @ pool_txs d)"
    using r(2) c(5) pool_txs_cong [OF c(2)] by simp
qed

section \<open>Replacing the end of the chain\<close>

lemma disconnect_loop_ok:
  assumes "represents C now d blocks sts us p" "pool_tables d" "disconnectLoop C n (d, col) = Inr (d', col')"
  shows "represents C now d' (take (length blocks - n) blocks) sts us p \<and> pool_part d' = pool_part d \<and> n < length blocks"
  using assms
proof (induction n arbitrary: d col blocks)
  case 0
  then show ?case using represents_start(6) [of C now d blocks sts us p] by simp
next
  case (Suc n)
  obtain d1 b txs col1 where s: "disconnectTip C d = Inr (d1, b, txs)" "disconnectLoop C n (d1, col1) = Inr (d', col')"
    using Suc.prems(3) by (auto simp: res_simps)
  note c = disconnect_ok [OF Suc.prems(1,2) s(1)]
  have r: "represents C now d' (take (length (butlast blocks) - n) (butlast blocks)) sts us p" "pool_part d' = pool_part d1"
    "n < length (butlast blocks)"
    using Suc.IH [OF c(1,3) s(2)] by simp_all
  have "take (length (butlast blocks) - n) (butlast blocks) = take (length blocks - Suc n) blocks"
    by (simp add: take_butlast butlast_conv_take min_def)
  then show ?case using r c(2) by simp
qed

definition continues :: "nat \<Rightarrow> (nat \<Rightarrow> 'a) \<Rightarrow> (nat \<Rightarrow> 'a) \<Rightarrow> bool" where
  "continues n f g \<longleftrightarrow> (\<forall>i < n. g i = f i)"

lemma continues_trans: "continues n f g \<Longrightarrow> continues (Suc n) g h \<Longrightarrow> continues n f h"
  by (simp add: continues_def)

text \<open>A loop that connects one block after the other: \<open>blk\<close> gives the blocks, \<open>clock\<close> the times.\<close>

lemma connect_loop_ok:
  assumes step: "\<And>d x d'. x \<in> set xs \<Longrightarrow> f d x = Inr d' \<Longrightarrow> \<exists>b. blk x = Inr b \<and> connectBlockAtTime C d b (clock x) = Inr d'"
    and "represents C now d blocks sts us p" "pool_tables d" "foldE f d xs = Inr d'"
  shows "\<exists>new now' sts' us'. map blk xs = map Inr new \<and> represents C now' d' (blocks @ new) sts' us' p \<and>
     pool_part d' = pool_part d \<and> continues (length blocks) now now' \<and> continues (length blocks) sts sts' \<and>
     (\<forall>j < length xs. now' (length blocks + j) = clock (xs ! j))"
  using assms
proof (induction xs arbitrary: d blocks now sts us)
  case Nil
  then show ?case by (intro exI [of _ "[]"] exI [of _ now] exI [of _ sts] exI [of _ us]) (simp add: continues_def)
next
  case (Cons x xs)
  let ?n = "length blocks"
  obtain d1 where s: "f d x = Inr d1" "foldE f d1 xs = Inr d'" using Cons.prems(4) by (auto simp: res_simps)
  obtain b where b: "blk x = Inr b" "connectBlockAtTime C d b (clock x) = Inr d1" using Cons.prems(1) s(1) by fastforce
  note c = connect_ok [OF Cons.prems(2,3) b(2)]
  obtain st' u where r: "represents C (now(?n := clock x)) d1 (blocks @ [b]) (sts(?n := st')) (us(?n := u)) p"
    using c(1) by blast
  have step': "\<And>d x d'. x \<in> set xs \<Longrightarrow> f d x = Inr d' \<Longrightarrow> \<exists>b. blk x = Inr b \<and> connectBlockAtTime C d b (clock x) = Inr d'"
    using Cons.prems(1) by simp
  from Cons.IH [OF step' r c(3) s(2), unfolded length_append_singleton] obtain new now' sts' us' where i: "map blk xs = map Inr new"
    "represents C now' d' ((blocks @ [b]) @ new) sts' us' p" "pool_part d' = pool_part d1"
    "continues (Suc ?n) (now(?n := clock x)) now'" "continues (Suc ?n) (sts(?n := st')) sts'"
    "\<forall>j < length xs. now' (Suc ?n + j) = clock (xs ! j)" by blast
  have "now' (?n + j) = clock ((x # xs) ! j)" if "j < length (x # xs)" for j
    using i(4,6) that by (cases j) (simp_all add: continues_def)
  moreover have "continues ?n now now'" "continues ?n sts sts'" using i(4,5) by (simp_all add: continues_def)
  moreover have "map blk (x # xs) = map Inr (b # new)" using i(1) b(1) by simp
  moreover have "represents C now' d' (blocks @ b # new) sts' us' p" using i(2) by simp
  moreover have "pool_part d' = pool_part d" using i(3) c(2) by simp
  ultimately show ?case by blast
qed

lemma replace_ok:
  assumes ok: "ledger_ok C now d blocks sts us p st"
    and rep: "replaceFromSourceAtTime C t d ancestor blockCount source t' = Inr d'"
  shows "\<exists>blockAt new now' sts' us' st'. source = Some blockAt \<and> 0 < length new \<and> int (length new) = blockCount \<and>
     (\<forall>i < length new. blockAt i = Inr (new ! i)) \<and> p \<le> unat ancestor \<and> unat ancestor < length blocks \<and>
     ledger_ok C now' d' (take (Suc (unat ancestor)) blocks @ new) sts' us' p st' \<and>
     continues (Suc (unat ancestor)) now now' \<and> continues (Suc (unat ancestor)) sts sts' \<and>
     (\<forall>j < length new. now' (Suc (unat ancestor) + j) = t') \<and>
     chain_work blocks < chain_work (take (Suc (unat ancestor)) blocks @ new)"
proof -
  note o = ledger_okD [OF ok] and s = represents_start(5,6) [OF ledger_okD(1) [OF ok]]
  let ?h = "unat ancestor"
  obtain n where n: "length blocks = Suc n" using s(2) by (cases blocks) auto
  obtain old where old: "tipFromQuery d = Inr old" "TipHeight old = word_of_nat n" "TipWork old = chain_work blocks"
    using represents_tip [OF o(1)] n by auto
  have w: "unat (word_of_nat n :: u64) = n" using s(1) n by (simp add: unat_word_of_nat_64)
  have p: "p < length blocks" "prunedThrough d = Inr (word_of_nat p)" using o(1) by (simp_all add: represents_def)
  have wp: "unat (word_of_nat p :: u64) = p" using p(1) s(1) by (simp add: unat_word_of_nat_64)
  obtain blockAt d1 col d2 new_tip where r: "source = Some blockAt" "0 < blockCount" "ancestor \<le> word_of_nat n"
    "\<not> ancestor < word_of_nat p"
    "disconnectLoop C (unat (word_of_nat n - ancestor)) (d, newOrphanedMempoolCollector (int MaxPendingTransactions) maxOrphanedMempoolBytes) = Inr (d1, col)"
    "foldE (\<lambda>d index. attempt (blockAt index) (\<lambda>b. connectBlockAtTime C d b t')) d1 [0..<nat blockCount] = Inr d2"
    "tipFromQuery d2 = Inr new_tip" "\<not> TipWork new_tip \<le> chain_work blocks" "rebuildMempool C t d2 (orphanTransactions col) = Inr d'"
    using rep by (auto simp: replaceFromSourceAtTime_def old p(2) res_simps split: option.splits)
  have h: "?h \<le> n" "p \<le> ?h" using r(3,4) w wp by (simp_all add: word_le_nat_alt not_less)
  have cnt: "unat (word_of_nat n - ancestor) = n - ?h" using r(3) by (simp add: unat_minus_no_underflow w)
  have l: "represents C now d1 (take (Suc ?h) blocks) sts us p" "pool_part d1 = pool_part d"
    using disconnect_loop_ok [OF o(1,2) r(5) [unfolded cnt]] n h(1) by (simp_all add: Suc_diff_le)
  have len: "length (take (Suc ?h) blocks) = Suc ?h" using n h(1) by simp
  have "\<exists>new now' sts' us'. map blockAt [0..<nat blockCount] = map Inr new \<and>
      represents C now' d2 (take (Suc ?h) blocks @ new) sts' us' p \<and> pool_part d2 = pool_part d1 \<and>
      continues (length (take (Suc ?h) blocks)) now now' \<and> continues (length (take (Suc ?h) blocks)) sts sts' \<and>
      (\<forall>j < length [0..<nat blockCount]. now' (length (take (Suc ?h) blocks) + j) = (\<lambda>_. t') ([0..<nat blockCount] ! j))"
    by (rule connect_loop_ok [OF _ l(1) pool_tables_cong [OF o(2) l(2)] r(6)]) (auto simp: res_simps)
  then obtain new now' sts' us' where c: "map blockAt [0..<nat blockCount] = map Inr new"
    "represents C now' d2 (take (Suc ?h) blocks @ new) sts' us' p" "pool_part d2 = pool_part d1"
    "continues (Suc ?h) now now'" "continues (Suc ?h) sts sts'" "\<forall>j < nat blockCount. now' (Suc ?h + j) = t'"
    unfolding len by auto
  have ln: "length new = nat blockCount" using arg_cong [OF c(1), of length] by simp
  have at: "blockAt i = Inr (new ! i)" if "i < length new" for i
    using arg_cong [OF c(1), of "\<lambda>l. l ! i"] that ln by simp
  have work: "chain_work blocks < chain_work (take (Suc ?h) blocks @ new)"
    using r(7,8) represents_tip [OF c(2)] by auto
  have "pool_tables d2" using pool_tables_cong [OF o(2)] c(3) l(2) by simp
  note fin = rebuild_ok [OF c(2) this r(9)]
  obtain st' where "ledger_ok C now' d' (take (Suc ?h) blocks @ new) sts' us' p st'" using fin(1) by blast
  then show ?thesis using r(1,2) h n ln at c(4-6) work by (intro exI conjI) auto
qed

section \<open>Pruning\<close>

lemma meta_upsert: "map_of (sql_upsert k v m) k' = (if k' = k then Some v else map_of m k')"
  by (simp add: sql_upsert_def update_conv')

lemma prune_ids: "TId ` set (dbTransactions (prune_through c d)) = TId ` set (dbTransactions d)"
proof -
  have "map TId (dbTransactions (prune_through c d)) = map TId (dbTransactions d)"
    by (simp add: prune_through_def Let_def)
  then show ?thesis by (metis list.set_map)
qed

lemma prune_represents:
  assumes rep: "represents C now d blocks sts us p" and c: "p < c" "c < length blocks"
  shows "represents C now (prune_through (word_of_nat c) d) blocks sts us c"
proof -
  let ?d = "prune_through (word_of_nat c) d"
  have all: "replayed C now blocks sts" "dbBlocks d = map (stored_block p blocks) [0..<length blocks]"
    "dbTransactions d = concat (map (stored_txs p blocks) [1..<length blocks])"
    "dbUndo d = map (\<lambda>i. undo_row_of (blocks ! i) (us i)) [Suc p..<length blocks]"
    "\<forall>i. p < i \<longrightarrow> i < length blocks \<longrightarrow> undo_ok C (us i) (sts (i - 1)) (sts i)"
    "ledger_sim C d (sts (length blocks - 1))"
    using rep by (simp_all add: represents_def)
  have ho: "heights_ok blocks" using all(1) by (simp add: replayed_def)
  have cw: "int64_of (word_of_nat c) = int c" using ho c(2) by (simp add: heights_ok_def int64_of_nat)
  have "dbBlocks ?d = map (stored_block c blocks) [0..<length blocks]"
    using c stored_heights [OF ho] by (auto simp: prune_through_def Let_def cw all(2) stored_block_def block_row_of_def)
  moreover have "dbTransactions ?d = concat (map (stored_txs c blocks) [1..<length blocks])"
  proof -
    have "map (\<lambda>r. if 1 \<le> TBlockHeight r \<and> TBlockHeight r \<le> int c then r\<lparr>TData := None\<rparr> else r) (stored_txs p blocks i) =
        stored_txs c blocks i" if "i \<in> set [1..<length blocks]" for i
    proof -
      have h: "TBlockHeight r = int i" if "r \<in> set (block_tx_rows (blocks ! i))" for r
        using stored_txs_height [OF ho, of i r 0] \<open>i \<in> set [1..<length blocks]\<close> that by (auto simp: stored_txs_def)
      show ?thesis using that c h by (auto simp: stored_txs_def)
    qed
    then have "map (map (\<lambda>r. if 1 \<le> TBlockHeight r \<and> TBlockHeight r \<le> int c then r\<lparr>TData := None\<rparr> else r))
        (map (stored_txs p blocks) [1..<length blocks]) = map (stored_txs c blocks) [1..<length blocks]"
      by (simp only: map_map comp_def cong: map_cong)
    then show ?thesis by (simp only: prune_through_def Let_def cw all(3) map_concat) (simp del: map_map)
  qed
  moreover have "dbUndo ?d = map (\<lambda>i. undo_row_of (blocks ! i) (us i)) [Suc c..<length blocks]"
  proof -
    have "[Suc p..<length blocks] = [Suc p..<Suc c] @ [Suc c..<length blocks]"
    proof -
      have "Suc c + (length blocks - Suc c) = length blocks" using c by linarith
      then show ?thesis using upt_add_eq_append [of "Suc p" "Suc c" "length blocks - Suc c"] c by (simp only:)
    qed
    moreover have "filter (\<lambda>r. \<not> (1 \<le> DHeight r \<and> DHeight r \<le> int c)) (map (\<lambda>i. undo_row_of (blocks ! i) (us i)) [Suc p..<Suc c]) = []"
      using c stored_heights [OF ho] by (auto simp: filter_empty_conv undo_row_of_def)
    moreover have "filter (\<lambda>r. \<not> (1 \<le> DHeight r \<and> DHeight r \<le> int c)) (map (\<lambda>i. undo_row_of (blocks ! i) (us i)) [Suc c..<length blocks]) =
        map (\<lambda>i. undo_row_of (blocks ! i) (us i)) [Suc c..<length blocks]"
      using stored_heights [OF ho] by (auto simp: filter_id_conv undo_row_of_def)
    ultimately show ?thesis
      by (simp only: prune_through_def Let_def cw all(4) map_append filter_append append_Nil) simp
  qed
  moreover have "prunedThrough ?d = Inr (word_of_nat c)"
    by (simp add: prunedThrough_def uint64Metadata_def prune_through_def Let_def meta_upsert)
  moreover have "ledger_sim C ?d (sts (length blocks - 1))"
  proof -
    show ?thesis using all(6) prune_ids by (simp add: ledger_sim_def) (simp add: prune_through_def Let_def)
  qed
  ultimately show ?thesis using all(1,5) c by (simp add: represents_def)
qed

lemma prune_pool:
  assumes "pool_ok C d st0 tr h st"
  shows "pool_ok C (prune_through c d) st0 tr h st"
proof -
  let ?d = "prune_through c d"
  have same: "dbUtxos ?d = dbUtxos d" "dbAddresses ?d = dbAddresses d" "pool_part ?d = pool_part d"
    by (simp_all add: prune_through_def Let_def pool_part_def)
  have ids: "TId ` set (dbTransactions ?d) = TId ` set (dbTransactions d)"
    by (rule prune_ids)
  have txs: "pool_txs ?d = pool_txs d" by (rule pool_txs_cong [OF same(3)])
  have "pool_coin ?d h = pool_coin d h" using same(3) by (intro ext) (simp add: pool_coin_def pool_part_def)
  then have "pool_view ?d h = pool_view d h"
    by (intro ext) (simp add: pool_view_def pool_spent_def txs same(1) cong: option.case_cong)
  moreover have "dbMempool ?d = dbMempool d" using same(3) by (simp add: pool_part_def)
  ultimately show ?thesis
    using assms pool_tables_cong [OF _ same(3)]
    by (simp add: pool_ok_def pool_sim_def ledger_sim_def same ids txs pool_within_budget_def pool_usage_def)
qed

lemma prune_ok:
  assumes ok: "ledger_ok C now d blocks sts us p st" and prune: "Prune d retain = Inr (d', k)"
  shows "\<exists>p'. ledger_ok C now d' blocks sts us p' st \<and> k = word_of_nat p' \<and> p' = max p (length blocks - 1 - unat retain)"
proof -
  note o = ledger_okD [OF ok] and s = represents_start(5,6) [OF ledger_okD(1) [OF ok]]
  obtain n where n: "length blocks = Suc n" using s(2) by (cases blocks) auto
  obtain tip where tip: "tipFromQuery d = Inr tip" "TipHeight tip = word_of_nat n"
    using represents_tip [OF o(1)] n by auto
  have p: "p < length blocks" "prunedThrough d = Inr (word_of_nat p)" using o(1) by (simp_all add: represents_def)
  have w: "unat (word_of_nat n :: u64) = n" "unat (word_of_nat p :: u64) = p"
    using s(1) n p(1) by (simp_all add: unat_word_of_nat_64)
  show ?thesis
  proof (cases "word_of_nat n \<le> retain")
    case True
    then have "n - unat retain = 0" using w(1) by (simp add: word_le_nat_alt)
    moreover have "d' = d" "k = word_of_nat p" using prune True by (auto simp: Prune_def tip p(2) split: if_splits)
    ultimately show ?thesis using ok n by auto
  next
    case False
    then have c: "unat (word_of_nat n - retain) = n - unat retain" "unat retain < n" "retain \<noteq> 0"
      using prune w(1) by (auto simp: word_le_nat_alt not_le unat_sub Prune_def)
    then have cut: "word_of_nat n - retain = word_of_nat (n - unat retain)" by (simp flip: c(1))
    show ?thesis
    proof (cases "word_of_nat n - retain \<le> word_of_nat p")
      case True
      then have "n - unat retain \<le> p" using c(1) w(2) by (simp add: word_le_nat_alt)
      moreover have "d' = d" "k = word_of_nat p"
        using prune False True c(3) by (auto simp: Prune_def tip p(2) Let_def)
      ultimately show ?thesis using ok n by (auto simp: max_def)
    next
      case False2: False
      then have c': "p < n - unat retain" using c(1) w(2) by (simp add: word_le_nat_alt)
      have d': "d' = prune_through (word_of_nat (n - unat retain)) d" "k = word_of_nat (n - unat retain)"
        using prune False False2 c(3) cut by (auto simp: Prune_def tip p(2) Let_def)
      have "represents C now d' blocks sts us (n - unat retain)"
        unfolding d'(1) by (rule prune_represents [OF o(1) c']) (simp add: n)
      moreover have "pool_ok C d' (sts (length blocks - 1)) (chain_trace blocks) (next_height blocks) st"
        unfolding d'(1) by (rule prune_pool) (use ok in \<open>simp add: ledger_ok_def\<close>)
      ultimately show ?thesis using d'(2) c' n by (auto simp: ledger_ok_def)
    qed
  qed
qed

section \<open>Metadata, opening and closing\<close>

lemma meta_ok:
  assumes ok: "ledger_ok C now d blocks sts us p st" and same: "map_of m prunedThroughMetaKey = map_of (dbMeta d) prunedThroughMetaKey"
  shows "ledger_ok C now (d\<lparr>dbMeta := m\<rparr>) blocks sts us p st"
proof -
  let ?d = "d\<lparr>dbMeta := m\<rparr>"
  note o = ledger_okD [OF ok]
  have "prunedThrough ?d = prunedThrough d" by (simp add: prunedThrough_def uint64Metadata_def same)
  moreover have "ledger_sim C ?d x = ledger_sim C d x" for x by (simp add: ledger_sim_def)
  ultimately have "represents C now ?d blocks sts us p" using o(1) by (simp add: represents_def)
  moreover have "pool_view ?d h = pool_view d h" for h
    by (intro ext) (simp add: pool_view_def pool_spent_def pool_txs_def pool_coin_def cong: option.case_cong)
  ultimately show ?thesis
    using ok by (simp add: ledger_ok_def pool_ok_def pool_sim_def pool_tables_def pool_txs_def ledger_sim_def
        pool_within_budget_def pool_usage_def)
qed

lemma shutdown_key: "shutdownStateMetaKey \<noteq> prunedThroughMetaKey" "pruneDepthMetaKey \<noteq> prunedThroughMetaKey"
  by (simp_all add: shutdownStateMetaKey_def prunedThroughMetaKey_def pruneDepthMetaKey_def)

lemma setShutdownState_ok: "ledger_ok C now d blocks sts us p st \<Longrightarrow> ledger_ok C now (setShutdownState b d) blocks sts us p st"
  unfolding setShutdownState_def by (rule meta_ok) (use shutdown_key in \<open>auto simp: meta_upsert\<close>)

lemma setPruneDepth_ok:
  "ledger_ok C now d blocks sts us p st \<Longrightarrow> SetPruneDepth d depth = Inr d' \<Longrightarrow> ledger_ok C now d' blocks sts us p st"
  using meta_ok [of C now d blocks sts us p st] shutdown_key by (auto simp: SetPruneDepth_def res_simps meta_upsert)

lemma close_ok: "ledger_ok C now d blocks sts us p st \<Longrightarrow> ledger_ok C now (fst (CloseLedger c c' d)) blocks sts us p st"
  by (auto simp: CloseLedger_def Let_def intro: setShutdownState_ok split: sum.splits)

lemma ensureGenesis_existing:
  assumes "dbBlocks d \<noteq> []" "ensureGenesis C now d = Inr d'"
  shows "d' = d"
  using assms by (auto simp: ensureGenesis_def res_simps split: option.splits if_splits)

lemma reopen_ok:
  assumes ok: "ledger_ok C now d blocks sts us p st"
  shows "ledger_ok C now (fst (OpenLedger C inspected migrated quick clock d)) blocks sts us p st"
proof -
  have "dbBlocks d \<noteq> []" using ok represents_start(6) by (fastforce simp: ledger_ok_def represents_def)
  note same = ensureGenesis_existing [OF this]
  show ?thesis
  proof (cases "OpenLedger C inspected migrated quick clock d")
    case (Pair d' r)
    then have "d' = d \<or> (\<exists>b. d' = setShutdownState b d)"
      using same by (auto simp: OpenLedger_def prepareSession_def res_simps split: sum.splits prod.splits if_splits)
    then show ?thesis using Pair ok setShutdownState_ok by auto
  qed
qed

text \<open>A new database: the chain of the genesis block alone.\<close>

definition genesis_sts :: "nat \<Rightarrow> replay_state" where "genesis_sts i = start_replay"

lemma replayed_genesis: "replayed C now [GenesisBlock C] genesis_sts"
  by (simp add: replayed_def heights_ok_def genesis_sts_def)

lemma open_new_tables:
  assumes "OpenLedger C inspected migrated quick clock empty_db = (d, Inr ())"
  shows "dbBlocks d = [block_row_of (GenesisBlock C) 0]" "prunedThrough d = Inr 0"
    "dbTransactions d = []" "dbAddresses d = []" "dbUtxos d = []" "dbUndo d = []" "pool_part d = ([], 0, [], [])"
proof -
  obtain d1 where d1: "ensureGenesis C clock empty_db = Inr d1" "d = setShutdownState False d1"
    using assms by (auto simp: OpenLedger_def prepareSession_def res_simps verifyExistingNetworkIdentity_def split: sum.splits prod.splits if_splits)
  have row: "(block_row_of (GenesisBlock C) 0)\<lparr>BHeight := 0, BDifficulty := 0\<rparr> = block_row_of (GenesisBlock C) 0"
    by (simp add: block_row_of_def int64_of_def) (simp add: GenesisBlock_def)
  have "d1 = empty_db\<lparr>dbBlocks := [block_row_of (GenesisBlock C) 0], dbMeta := [(''protocol'', string_bytes NetworkID),
      (''genesis_hash'', string_bytes (Hash (GenesisBlock C))), (''created_at'', encodeUint64 clock)]\<rparr>"
    using d1(1) unfolding ensureGenesis_def row
    by (simp add: empty_db_def insertBlockRow_def sql_require_def sql_insert_def insertMeta_def) (simp add: block_row_of_def)
  then show "dbBlocks d = [block_row_of (GenesisBlock C) 0]" "prunedThrough d = Inr 0"
    "dbTransactions d = []" "dbAddresses d = []" "dbUtxos d = []" "dbUndo d = []" "pool_part d = ([], 0, [], [])"
    by (simp_all add: d1(2) setShutdownState_def empty_db_def prunedThrough_def uint64Metadata_def meta_upsert pool_part_def)
      (simp add: prunedThroughMetaKey_def shutdownStateMetaKey_def)
qed

lemma start_coins: "coins_get (coins_of start_replay) = (\<lambda>_. None)" "RSeen start_replay = {}" "chain_inv start_replay []"
  "state_value start_replay = 0"
  using chain_inv_start by (auto simp: start_replay_def coins_of_def coins_get_def state_value_def coins_value_def utxo_value_def)

lemma open_ok:
  assumes "OpenLedger C inspected migrated quick clock empty_db = (d, Inr ())"
  shows "ledger_ok C now d [GenesisBlock C] genesis_sts us 0 start_replay"
proof -
  note t = open_new_tables [OF assms]
  have empty: "utxos_ok []" "utxos_get [] = (\<lambda>_. None)"
    by (auto simp: utxos_ok_def utxos_wf_def utxos_get_def)
  have sim: "ledger_sim C d start_replay"
    by (simp add: ledger_sim_def t(3-5) empty addressed_def start_coins)
  have "stored_block 0 [GenesisBlock C] 0 = block_row_of (GenesisBlock C) 0"
    by (simp add: stored_block_def chain_work_def) (simp add: block_row_of_def)
  then have rep: "represents C now d [GenesisBlock C] genesis_sts us 0"
    using sim by (simp add: represents_def replayed_genesis t) (simp add: genesis_sts_def)
  have q: "dbMempool d = []" "dbMempoolSeq d = 0" "dbMempoolInputs d = []" "dbMempoolOutputs d = []"
    using t(7) by (simp_all add: pool_part_def)
  have "pool_tables d" by (simp add: pool_tables_def pool_txs_def q)
  note e = pool_empty [OF this sim start_coins(3), of "next_height [GenesisBlock C]"]
  have "clearMempool d = d" using pool_cleared [OF \<open>pool_tables d\<close>] q by simp
  with e(1) start_coins(4) have "pool_ok C d start_replay [] (next_height [GenesisBlock C]) start_replay"
    by (simp add: next_height_def)
  with rep show ?thesis by (simp add: ledger_ok_def chain_trace_def) (simp add: genesis_sts_def)
qed

section \<open>Importing a whole-chain state\<close>

lemma import_ok:
  assumes ok: "ledger_ok C now d blocks sts us p st" and imp: "ImportState C clock clock' firstSeen d given = Inr d'"
  shows "\<exists>s now' sts' us' st'. given = Some s \<and> blocks = [GenesisBlock C] \<and> ledger_ok C now' d' (Blocks s) sts' us' p st' \<and>
     subseq (pool_txs d') (Pending s) \<and> (\<forall>i. 0 < i \<longrightarrow> i < length (Blocks s) \<longrightarrow> now' i = clock' i)"
proof -
  note o = ledger_okD [OF ok] and start = represents_start(5,6) [OF ledger_okD(1) [OF ok]]
  obtain s tip d2 tip2 h where r: "given = Some s" "ValidateConfirmed C clock s = Inr ()" "tipFromQuery d = Inr tip"
    "TipHeight tip = 0" "connectBlocks C clock' 1 (clearMempool d) (tl (Blocks s)) = Inr d2"
    "tipFromQuery d2 = Inr tip2" "nextHeight tip2 = Inr h"
    "repopulateMempool C d2 (map (\<lambda>tx. \<lparr>PendingTransaction = tx, PendingFirstSeen = firstSeen\<rparr>) (Pending s)) h = Inr d'"
    using imp by (auto simp: ImportState_def res_simps split: option.splits)
  obtain n where n: "length blocks = Suc n" using start(2) by (cases blocks) auto
  have "unat (word_of_nat n :: u64) = n" using start(1) n by (simp add: unat_word_of_nat_64)
  moreover have "TipHeight tip = word_of_nat n" using represents_tip [OF o(1)] r(3) n by auto
  ultimately have "n = 0" using r(4) by (metis unat_0)
  then obtain g where "blocks = [g]" using n by (cases blocks) auto
  moreover have "blocks ! 0 = GenesisBlock C" using o(1) by (simp add: represents_def replayed_def)
  ultimately have g: "blocks = [GenesisBlock C]" by simp
  have "Blocks s \<noteq> []" "Blocks s ! 0 = GenesisBlock C"
    using r(2) by (auto simp: ValidateConfirmed_def replay_False res_simps)
  then have bs: "Blocks s = GenesisBlock C # tl (Blocks s)" by (cases "Blocks s") auto
  have rep0: "represents C now (clearMempool d) blocks sts us p"
    by (rule represents_cong [OF o(1)]) (simp add: chain_tables_def clearMempool_def)
  have q0: "pool_part (clearMempool d) = ([], dbMempoolSeq d, [], [])" by (simp add: pool_cleared [OF o(2)] pool_part_def)
  have tab0: "pool_tables (clearMempool d)"
    using o(2) by (simp add: pool_cleared [OF o(2)] pool_tables_def pool_txs_def)
  let ?xs = "List.enumerate 1 (tl (Blocks s))"
  have "\<exists>new now' sts' us'. map (\<lambda>x. Inr (snd x)) ?xs = map Inr new \<and> represents C now' d2 (blocks @ new) sts' us' p \<and>
     pool_part d2 = pool_part (clearMempool d) \<and> continues (length blocks) now now' \<and> continues (length blocks) sts sts' \<and>
     (\<forall>j < length ?xs. now' (length blocks + j) = (\<lambda>x. clock' (fst x)) (?xs ! j))"
    by (rule connect_loop_ok [OF _ rep0 tab0 r(5) [unfolded connectBlocks_def]]) auto
  then obtain new now' sts' us' where c: "map (\<lambda>x. Inr (snd x) :: block res) ?xs = map Inr new"
    "represents C now' d2 (blocks @ new) sts' us' p" "pool_part d2 = pool_part (clearMempool d)"
    "\<forall>j < length (tl (Blocks s)). now' (Suc j) = clock' (Suc j)"
    by (auto simp: g nth_enumerate_eq)
  have "map Inr (tl (Blocks s)) = (map Inr new :: block res list)"
    using c(1) by (simp flip: map_map [of Inr snd, unfolded comp_def])
  then have "new = tl (Blocks s)" by (metis inj_map_eq_map inj_Inr)
  then have blocks: "blocks @ new = Blocks s" using bs g by simp
  note c2 = c(2) [unfolded blocks]
  note s2 = represents_start [OF c2]
  have tab2: "pool_tables d2" by (rule pool_tables_cong [OF tab0 c(3)])
  note e = pool_empty [OF tab2 s2(1-4)]
  have q2: "dbMempool d2 = []" "dbMempoolInputs d2 = []" "dbMempoolOutputs d2 = []"
    using c(3) q0 by (simp_all add: pool_part_def)
  then have same: "clearMempool d2 = d2" using pool_cleared [OF tab2] by simp
  have h: "h = next_height (Blocks s)" using nextHeight_tip [OF c2 r(6)] r(7) by auto
  have items: "map PendingTransaction (map (\<lambda>tx. \<lparr>PendingTransaction = tx, PendingFirstSeen = firstSeen\<rparr>) (Pending s)) = Pending s"
    by (simp add: comp_def)
  note p = repopulate_sound [OF e(1) [unfolded same] r(8) [unfolded h], unfolded items repopulated_def]
  obtain st' where st': "pool_ok C d' (sts' (length (Blocks s) - 1)) (chain_trace (Blocks s)) (next_height (Blocks s)) st'"
    using p by blast
  have "represents C now' d' (Blocks s) sts' us' p" by (rule represents_cong [OF c2]) (use p in blast)
  then have "ledger_ok C now' d' (Blocks s) sts' us' p st'" using st' by (simp add: ledger_ok_def)
  moreover have "subseq (pool_txs d') (Pending s)" using p q2(1) by (auto simp: pool_txs_def)
  moreover have "now' i = clock' i" if "0 < i" "i < length (Blocks s)" for i
    using c(4) that by (cases i) auto
  ultimately show ?thesis using r(1) g by blast
qed

end
