(* ===== verification/Ledger_Steps.thy ===== *)
theory Ledger_Steps
  imports Ledger_Ok
begin

text \<open>
  The ledger as a whole: its operations as one step relation, the databases they reach from a new
  file, and the chain state of \<open>internal/core\<close> that each such database stands for.
\<close>

section \<open>Steps\<close>

text \<open>
  Every exported operation that writes. One that fails leaves the database as it was (its transaction
  is rolled back), except opening and closing, which return the database in every case.
\<close>

inductive ledger_step :: "crypto \<Rightarrow> url_library \<Rightarrow> db \<Rightarrow> db \<Rightarrow> bool" for C U where
  add: "AddTransaction C t d tx = Inr d' \<Longrightarrow> ledger_step C U d d'"
| connect: "ConnectBlock C t t' d b = Inr d' \<Longrightarrow> ledger_step C U d d'"
| disconnect: "DisconnectTip C t d = Inr (d', b) \<Longrightarrow> ledger_step C U d d'"
| replace: "replaceFromSourceAtTime C t d ancestor cnt source t' = Inr d' \<Longrightarrow> ledger_step C U d d'"
| commit: "commitMinedBlockAtTime C t d b expected t' = Inr d' \<Longrightarrow> ledger_step C U d d'"
| migrate: "ImportState C clock clock' t d given = Inr d' \<Longrightarrow> ledger_step C U d d'"
| prune: "Prune d retain = Inr (d', k) \<Longrightarrow> ledger_step C U d d'"
| prune_depth: "SetPruneDepth d depth = Inr d' \<Longrightarrow> ledger_step C U d d'"
| close: "ledger_step C U d (fst (CloseLedger c c' d))"
| reopen: "ledger_step C U d (fst (OpenLedger C inspected migrated quick created d))"
| upsert_peer: "UpsertPeer U t d url manual = Inr d' \<Longrightarrow> ledger_step C U d d'"
| remove_peer: "RemovePeer U d url = Inr d' \<Longrightarrow> ledger_step C U d d'"
| peer_success: "RecordPeerSuccess U t d url seen = Inr d' \<Longrightarrow> ledger_step C U d d'"
| peer_failure: "RecordPeerFailure U d url next cause = Inr d' \<Longrightarrow> ledger_step C U d d'"
| health: "AddHealthEvent t d e = Inr (d', i) \<Longrightarrow> ledger_step C U d d'"
| resolve: "ResolveHealthEvent d i = Inr d' \<Longrightarrow> ledger_step C U d d'"

inductive ledger_reachable :: "crypto \<Rightarrow> url_library \<Rightarrow> db \<Rightarrow> bool" for C U where
  new: "OpenLedger C inspected migrated quick created empty_db = (d, Inr ()) \<Longrightarrow> ledger_reachable C U d"
| step: "ledger_reachable C U d \<Longrightarrow> ledger_step C U d d' \<Longrightarrow> ledger_reachable C U d'"

text \<open>The operations on the peers and the health events touch neither the chain nor the mempool.\<close>

lemma peer_tables [simp]:
  "chain_tables (d\<lparr>dbPeers := ps\<rparr>) = chain_tables d" "pool_part (d\<lparr>dbPeers := ps\<rparr>) = pool_part d"
  "chain_tables (d\<lparr>dbHealth := hs\<rparr>) = chain_tables d" "pool_part (d\<lparr>dbHealth := hs\<rparr>) = pool_part d"
  "chain_tables (d\<lparr>dbHealth := hs, dbHealthSeq := n\<rparr>) = chain_tables d"
  "pool_part (d\<lparr>dbHealth := hs, dbHealthSeq := n\<rparr>) = pool_part d"
  "pool_part (d\<lparr>dbMeta := m\<rparr>) = pool_part d"
  by (simp_all add: chain_tables_def pool_part_def)

definition same_chain :: "db \<Rightarrow> db \<Rightarrow> bool" where
  "same_chain d d' \<longleftrightarrow> chain_tables d' = chain_tables d \<and> pool_part d' = pool_part d"

lemma same_chain_records [simp]: "same_chain d (d\<lparr>dbPeers := ps\<rparr>)" "same_chain d (d\<lparr>dbHealth := hs\<rparr>)"
  "same_chain d (d\<lparr>dbHealth := hs, dbHealthSeq := n\<rparr>)"
  by (simp_all add: same_chain_def)

lemma attempt_same_chain: "attempt r (\<lambda>x. Inr (f x)) = Inr d' \<Longrightarrow> (\<And>x. same_chain d (f x)) \<Longrightarrow> same_chain d d'"
  by (auto simp: res_simps)

lemma peers_same:
  "UpsertPeer U t d url manual = Inr d' \<Longrightarrow> same_chain d d'"
  "RemovePeer U d url = Inr d' \<Longrightarrow> same_chain d d'"
  "RecordPeerSuccess U t d url seen = Inr d' \<Longrightarrow> same_chain d d'"
  "RecordPeerFailure U d url next cause = Inr d' \<Longrightarrow> same_chain d d'"
  unfolding UpsertPeer_def RemovePeer_def RecordPeerSuccess_def RecordPeerFailure_def Let_def
  by (erule attempt_same_chain, rule same_chain_records)+

lemma health_same:
  "AddHealthEvent t d e = Inr (d', i) \<Longrightarrow> same_chain d d'"
  "ResolveHealthEvent d i = Inr d' \<Longrightarrow> same_chain d d'"
  unfolding AddHealthEvent_def ResolveHealthEvent_def Let_def
  by (auto simp: attempt_eq_Inr split: if_splits simp del: not_less not_le)

section \<open>The abstract chain\<close>

text \<open>
  What a step may do to the blocks and the pending transactions. \<open>start\<close> is the number of blocks a
  replacement keeps.
\<close>

inductive chain_step :: "crypto \<Rightarrow> block list \<times> transaction list \<Rightarrow> block list \<times> transaction list \<Rightarrow> bool" for C where
  stay: "chain_step C (bs, txs) (bs, txs)"
| admit: "chain_step C (bs, txs) (bs, txs @ [tx])"
| grow: "subseq txs' txs \<Longrightarrow> chain_step C (bs, txs) (bs @ [b], txs')"
| shrink: "bs \<noteq> [] \<Longrightarrow> subseq txs' (tl (Transactions b) @ txs) \<Longrightarrow> chain_step C (bs @ [b], txs) (bs, txs')"
| switch: "0 < start \<Longrightarrow> start \<le> length bs \<Longrightarrow> chain_work bs < chain_work (take start bs @ new) \<Longrightarrow>
    chain_step C (bs, txs) (take start bs @ new, txs')"
| adopt: "hd new = GenesisBlock C \<Longrightarrow> chain_step C ([GenesisBlock C], txs) (new, txs')"

definition steps_to :: "crypto \<Rightarrow> db \<Rightarrow> block list \<times> transaction list \<Rightarrow> bool" where
  "steps_to C d' from \<longleftrightarrow> (\<exists>now' blocks' sts' us' p' st'. ledger_ok C now' d' blocks' sts' us' p' st' \<and>
     chain_step C from (blocks', pool_txs d'))"

lemma steps_toI: "ledger_ok C now' d' blocks' sts' us' p' st' \<Longrightarrow> chain_step C from (blocks', pool_txs d') \<Longrightarrow> steps_to C d' from"
  unfolding steps_to_def by blast

lemma steps_same:
  assumes "ledger_ok C now d' blocks sts us p' st" "pool_part d' = pool_part d"
  shows "steps_to C d' (blocks, pool_txs d)"
proof (rule steps_toI [OF assms(1)])
  show "chain_step C (blocks, pool_txs d) (blocks, pool_txs d')"
    unfolding pool_txs_cong [OF assms(2)] by (rule chain_step.stay)
qed

lemma steps_same_chain: 
  assumes ok: "ledger_ok C now d blocks sts us p st" and "same_chain d d'"
  shows "steps_to C d' (blocks, pool_txs d)"
  by (rule steps_same [OF ledger_ok_cong [OF ok]]) (use assms(2) in \<open>simp_all add: same_chain_def\<close>)

lemma steps_connect:
  assumes ok: "ledger_ok C now d blocks sts us p st" and con: "ConnectBlock C t t' d b = Inr d'"
  shows "steps_to C d' (blocks, pool_txs d)"
proof -
  obtain st' u st'' where "ledger_ok C (now(length blocks := t)) d' (blocks @ [b]) (sts(length blocks := st')) (us(length blocks := u)) p st''"
    using connect_block_ok(1) [OF ok con] by blast
  then show ?thesis by (rule steps_toI) (rule chain_step.grow [OF connect_block_ok(2) [OF ok con]])
qed

lemma steps_add:
  assumes ok: "ledger_ok C now d blocks sts us p st" and add: "AddTransaction C t d tx = Inr d'"
  shows "steps_to C d' (blocks, pool_txs d)"
proof -
  obtain st' where "ledger_ok C now d' blocks sts us p st'" using add_ok(1) [OF ok add] by blast
  then show ?thesis by (rule steps_toI) (simp add: add_ok(2) [OF ok add] chain_step.admit)
qed

lemma steps_disconnect:
  assumes ok: "ledger_ok C now d blocks sts us p st" and dis: "DisconnectTip C t d = Inr (d', b)"
  shows "steps_to C d' (blocks, pool_txs d)"
proof -
  note x = disconnect_tip_ok [OF ok dis]
  obtain st' where ok': "ledger_ok C now d' (butlast blocks) sts us p st'" using x(1) by blast
  have "butlast blocks \<noteq> []" by (rule represents_start(6) [OF ledger_okD(1) [OF ok']])
  then have "chain_step C (butlast blocks @ [b], pool_txs d) (butlast blocks, pool_txs d')" using x(3) by (rule chain_step.shrink)
  with ok' show ?thesis unfolding x(2) [symmetric] by (rule steps_toI)
qed

lemma steps_replace:
  assumes ok: "ledger_ok C now d blocks sts us p st"
    and rep: "replaceFromSourceAtTime C t d ancestor cnt source t' = Inr d'"
  shows "steps_to C d' (blocks, pool_txs d)"
proof -
  obtain new now' sts' us' st' where r: "unat ancestor < length blocks"
    "ledger_ok C now' d' (take (Suc (unat ancestor)) blocks @ new) sts' us' p st'"
    "chain_work blocks < chain_work (take (Suc (unat ancestor)) blocks @ new)"
    using replace_ok [OF ok rep] by blast
  show ?thesis by (rule steps_toI [OF r(2)], rule chain_step.switch [OF _ _ r(3)]) (use r(1) in simp_all)
qed

lemma steps_migrate:
  assumes ok: "ledger_ok C now d blocks sts us p st" and imp: "ImportState C clock clock' t d given = Inr d'"
  shows "steps_to C d' (blocks, pool_txs d)"
proof -
  obtain s :: state and now' sts' us' st' where r: "blocks = [GenesisBlock C]" "ledger_ok C now' d' (Blocks s) sts' us' p st'"
    using import_ok [OF ok imp] by blast
  have "Blocks s \<noteq> []" "Blocks s ! 0 = GenesisBlock C" using ledger_okD(1) [OF r(2)] unfolding represents_def replayed_def by blast+
  then have "hd (Blocks s) = GenesisBlock C" by (simp add: hd_conv_nth)
  then show ?thesis unfolding r(1) by (rule steps_toI [OF r(2) chain_step.adopt])
qed

lemma steps_prune:
  assumes ok: "ledger_ok C now d blocks sts us p st" and prune: "Prune d retain = Inr (d', k)"
  shows "steps_to C d' (blocks, pool_txs d)"
proof -
  obtain p' where "ledger_ok C now d' blocks sts us p' st" using prune_ok [OF ok prune] by blast
  moreover have "pool_part (prune_through c d) = pool_part d" for c
    by (simp add: prune_through_def pool_part_def Let_def)
  then have "pool_part d' = pool_part d"
    using prune by (auto simp: Prune_def res_simps Let_def split: if_splits)
  ultimately show ?thesis by (rule steps_same)
qed

lemma steps_prune_depth:
  assumes ok: "ledger_ok C now d blocks sts us p st" and prune: "SetPruneDepth d depth = Inr d'"
  shows "steps_to C d' (blocks, pool_txs d)"
  by (rule steps_same [OF setPruneDepth_ok [OF ok prune]]) (use prune in \<open>auto simp: SetPruneDepth_def res_simps\<close>)

lemma steps_close:
  assumes ok: "ledger_ok C now d blocks sts us p st"
  shows "steps_to C (fst (CloseLedger c c' d)) (blocks, pool_txs d)"
  by (rule steps_same [OF close_ok [OF ok]])
    (auto simp: CloseLedger_def setShutdownState_def Let_def split: sum.splits)

lemma steps_reopen:
  assumes ok: "ledger_ok C now d blocks sts us p st"
  shows "steps_to C (fst (OpenLedger C inspected migrated quick created d)) (blocks, pool_txs d)"
proof (rule steps_same [OF reopen_ok [OF ok]])
  have "dbBlocks d \<noteq> []" using ok represents_start(6) by (fastforce simp: ledger_ok_def represents_def)
  note same = ensureGenesis_existing [OF this]
  show "pool_part (fst (OpenLedger C inspected migrated quick created d)) = pool_part d"
  proof (cases "OpenLedger C inspected migrated quick created d")
    case (Pair d' r)
    then have "d' = d \<or> (\<exists>b. d' = setShutdownState b d)"
      using same by (auto simp: OpenLedger_def prepareSession_def res_simps split: sum.splits prod.splits if_splits)
    then show ?thesis using Pair by (auto simp: setShutdownState_def)
  qed
qed

lemma ledger_step_ok:
  assumes "ledger_step C U d d'" and ok: "ledger_ok C now d blocks sts us p st"
  shows "steps_to C d' (blocks, pool_txs d)"
  using assms(1)
proof cases
  case (commit t b expected t')
  then have "ConnectBlock C t' t d b = Inr d'"
    by (auto simp: commitMinedBlockAtTime_def ConnectBlock_def res_simps split: if_splits)
  then show ?thesis by (rule steps_connect [OF ok])
next
  case (add t tx)
  then show ?thesis by (rule steps_add [OF ok])
next
  case (connect t t' b)
  then show ?thesis by (rule steps_connect [OF ok])
next
  case (disconnect t b)
  then show ?thesis by (rule steps_disconnect [OF ok])
next
  case (replace t a n src t')
  then show ?thesis by (rule steps_replace [OF ok])
next
  case (migrate k k' t given)
  then show ?thesis by (rule steps_migrate [OF ok])
next
  case (prune retain k)
  then show ?thesis by (rule steps_prune [OF ok])
next
  case (prune_depth depth)
  then show ?thesis by (rule steps_prune_depth [OF ok])
next
  case (close c c')
  then show ?thesis using steps_close [OF ok] by simp
next
  case (reopen i m q created)
  then show ?thesis using steps_reopen [OF ok] by simp
next
  case (upsert_peer t url m)
  then show ?thesis by (rule steps_same_chain [OF ok peers_same(1)])
next
  case (remove_peer url)
  then show ?thesis by (rule steps_same_chain [OF ok peers_same(2)])
next
  case (peer_success t url seen)
  then show ?thesis by (rule steps_same_chain [OF ok peers_same(3)])
next
  case (peer_failure url upto cause)
  then show ?thesis by (rule steps_same_chain [OF ok peers_same(4)])
next
  case (health t e i)
  then show ?thesis by (rule steps_same_chain [OF ok health_same(1)])
next
  case (resolve i)
  then show ?thesis by (rule steps_same_chain [OF ok health_same(2)])
qed

lemma ledger_reachable_ok:
  "ledger_reachable C U d \<Longrightarrow> \<exists>now blocks sts us p st. ledger_ok C now d blocks sts us p st"
proof (induction rule: ledger_reachable.induct)
  case (new inspected migrated quick created d)
  then show ?case using open_ok by blast
next
  case (step d d')
  then show ?case using ledger_step_ok [of C U d d'] unfolding steps_to_def by fast
qed

end
