(* ===== verification/Ledger_View.thy ===== *)
theory Ledger_View
  imports Ledger_Steps
begin

text \<open>
  What a reader of the ledger sees: every query on a database that keeps the invariant, expressed by
  the chain state of \<open>internal/core\<close> the database stands for.
\<close>

section \<open>The replay of the stored chain\<close>

definition ledger_chain :: "db \<Rightarrow> block list \<Rightarrow> state" where
  "ledger_chain d blocks = \<lparr>StVersion = StateVersion, StName = ChainName, StSymbol = ChainSymbol,
     Blocks = blocks, Pending = pool_txs d\<rparr>"

lemma ledger_chain_sel [simp]:
  "StVersion (ledger_chain d blocks) = StateVersion" "StName (ledger_chain d blocks) = ChainName"
  "StSymbol (ledger_chain d blocks) = ChainSymbol" "Blocks (ledger_chain d blocks) = blocks"
  "Pending (ledger_chain d blocks) = pool_txs d"
  by (simp_all add: ledger_chain_def)

lemma replayed_replay:
  assumes rep: "replayed C now blocks sts"
    and s: "StVersion s = StateVersion" "StName s = ChainName" "StSymbol s = ChainSymbol" "Blocks s = blocks"
  shows "replay C now s False = Inr (sts (length blocks - 1))"
proof -
  have ne: "blocks \<noteq> []" "blocks ! 0 = GenesisBlock C" using rep by (simp_all add: replayed_def)
  obtain n where n: "length blocks = Suc n" using ne by (cases blocks) auto
  then have "foldE (replayBlock C now blocks) start_replay [1..<length blocks] = Inr (sts (length blocks - 1))"
    using replayed_fold [OF rep, of n] by simp
  then show ?thesis using ne s by (simp add: replay_def start_replay_def)
qed

lemma replayed_fits:
  assumes "replayed C now blocks sts" "Blocks s = blocks" "length (Pending s) \<le> MaxPendingTransactions"
  shows "fits s"
  using assms by (auto simp: fits_def replayed_def heights_ok_def MaxPendingTransactions_def)

text \<open>The replay of a chain with one more block is one more step.\<close>

lemma replay_snoc:
  assumes rep: "replayed C now blocks sts"
    and s: "StVersion s = StateVersion" "StName s = ChainName" "StSymbol s = ChainSymbol" "Blocks s = blocks @ [b]"
  shows "replay C (now(length blocks := t)) s False =
     replayBlock C (\<lambda>_. t) (blocks @ [b]) (sts (length blocks - 1)) (length blocks)"
proof -
  let ?now = "now(length blocks := t)"
  have ne: "blocks \<noteq> []" "blocks ! 0 = GenesisBlock C" using rep by (simp_all add: replayed_def)
  obtain n where n: "length blocks = Suc n" using ne by (cases blocks) auto
  have step: "replayBlock C ?now (blocks @ [b]) st i = replayBlock C now blocks st i" if "i \<in> set [1..<length blocks]" for i st
    using that by (intro replayBlock_prefix) auto
  have "foldE (replayBlock C ?now (blocks @ [b])) start_replay [1..<length blocks] =
      foldE (replayBlock C now blocks) start_replay [1..<length blocks]"
    by (rule foldE_cong) (use step in auto)
  also have "\<dots> = Inr (sts (length blocks - 1))" using replayed_fold [OF rep, of n] n by simp
  finally have pre: "foldE (replayBlock C ?now (blocks @ [b])) start_replay [1..<length blocks] = Inr (sts (length blocks - 1))" .
  have upt: "[1..<length (blocks @ [b])] = [1..<length blocks] @ [length blocks]" using n by simp
  have last: "replayBlock C ?now (blocks @ [b]) (sts (length blocks - 1)) (length blocks) =
      replayBlock C (\<lambda>_. t) (blocks @ [b]) (sts (length blocks - 1)) (length blocks)"
    by (simp add: replayBlock_def)
  have id: "\<not> (StVersion s \<noteq> StateVersion \<or> StName s \<noteq> ChainName \<or> StSymbol s \<noteq> ChainSymbol)"
    "\<not> (blocks @ [b] = [] \<or> (blocks @ [b]) ! 0 \<noteq> GenesisBlock C)"
    using s ne by (simp_all add: nth_append)
  show ?thesis
    unfolding replay_def s(4) upt foldE_append start_replay_def [symmetric] pre attempt_Inr
    using id last by (simp add: attempt_def split: sum.splits)
qed

section \<open>Reads\<close>

lemma find_stored:
  assumes "heights_ok blocks" "i < length blocks"
  shows "find (\<lambda>r. BHeight r = int i) (map (stored_block p blocks) [0..<length blocks]) = Some (stored_block p blocks i)"
proof -
  have h: "BHeight (stored_block p blocks j) = int j" if "j < length blocks" for j
    using stored_heights [OF assms(1) that] by (simp add: stored_block_def block_row_of_def)
  show ?thesis
    unfolding find_Some_iff using assms(2) h by (intro exI [of _ i]) auto
qed

text \<open>A height above the tip is not stored; one below is at its row.\<close>

lemma find_height:
  assumes rep: "represents C now d blocks sts us p" and le: "uint h \<le> MaxInt64"
  shows "find (\<lambda>r. BHeight r = int64_of h) (dbBlocks d) =
    (if unat h < length blocks then Some (stored_block p blocks (unat h)) else None)"
proof -
  have ho: "heights_ok blocks" and db: "dbBlocks d = map (stored_block p blocks) [0..<length blocks]"
    using rep by (simp_all add: represents_def replayed_def)
  have h: "int64_of h = int (unat h)" using int64_of_small [OF le] by (simp only: uint_nat)
  show ?thesis
  proof (cases "unat h < length blocks")
    case True
    then show ?thesis using find_stored [OF ho True] by (simp add: db h)
  next
    case False
    have "BHeight (stored_block p blocks j) = int j" if "j < length blocks" for j
      using stored_heights [OF ho that] by (simp add: stored_block_def block_row_of_def)
    then show ?thesis using False unfolding db h by (auto simp: find_None_iff simp del: of_nat_unat)
  qed
qed

lemma height_guard:
  assumes rep: "represents C now d blocks sts us p" and "unat h < length blocks"
  shows "uint (h :: u64) \<le> MaxInt64"
proof -
  have "unat h \<le> 9223372036854775807" using represents_start(5) [OF rep] assms(2) by simp
  then show ?thesis by (simp only: uint_unat_le)
qed

lemma scanHeader_stored: "heights_ok blocks \<Longrightarrow> i < length blocks \<Longrightarrow>
    scanHeader (stored_block p blocks i) = Inr (header_of (blocks ! i))"
  using stored_heights [of blocks i] uint_lt2p [of "Version (blocks ! i)"] uint_lt2p [of "Difficulty (blocks ! i)"]
  by (simp add: scanHeader_def stored_block_def block_row_of_def header_of_def heights_ok_def) 

lemma read_header:
  assumes rep: "represents C now d blocks sts us p"
  shows "Header d h = (if unat h < length blocks then Inr (header_of (blocks ! unat h)) else Inl ErrBlockNotFound)"
proof -
  have "heights_ok blocks" using rep by (simp add: represents_def replayed_def)
  then show ?thesis
    using find_height [OF rep, of h] height_guard [OF rep, of h] scanHeader_stored [of blocks "unat h" p]
    by (auto simp: Header_def)
qed

lemma read_hash:
  assumes rep: "represents C now d blocks sts us p"
  shows "HashAt d h = (if unat h < length blocks then Inr (Hash (blocks ! unat h)) else Inl ErrBlockNotFound)"
  using find_height [OF rep, of h] height_guard [OF rep, of h]
  by (auto simp: HashAt_def stored_block_def block_row_of_def)

lemma read_work:
  assumes rep: "represents C now d blocks sts us p"
  shows "WorkAt d h = (if unat h < length blocks then Inr (chain_work (take (Suc (unat h)) blocks)) else Inl ErrBlockNotFound)"
  using find_height [OF rep, of h] height_guard [OF rep, of h]
  by (auto simp: WorkAt_def stored_block_def block_row_of_def)

lemma read_block:
  assumes rep: "represents C now d blocks sts us p"
  shows "LedgerBlock d h = (if unat h < length blocks
     then if 1 \<le> unat h \<and> unat h \<le> p then Inl ErrBlockPruned else Inr (blocks ! unat h)
     else Inl ErrBlockNotFound)"
  using find_height [OF rep, of h] height_guard [OF rep, of h]
  by (auto simp: LedgerBlock_def storedBody_def stored_block_def)

lemma chain_work_eq: "chain_work (Blocks s) = CumulativeWork s"
  by (simp add: chain_work_def CumulativeWork_def blockWork_def)

section \<open>The value of the table\<close>

lemma map_of_sum:
  assumes "distinct (map fst xs)"
  shows "(\<Sum>(k, v)\<leftarrow>xs. f v) = (\<Sum>k \<in> dom (map_of xs). f (the (map_of xs k)))"
  using assms
proof (induction xs)
  case (Cons x xs)
  obtain k v where x: "x = (k, v)" by (cases x)
  have new: "k \<notin> dom (map_of xs)" using Cons.prems by (simp add: x dom_map_of_conv_image_fst)
  then have "(\<Sum>j \<in> dom (map_of xs). f (the (map_of (x # xs) j))) = (\<Sum>j \<in> dom (map_of xs). f (the (map_of xs j)))"
    by (intro sum.cong) (auto simp: x)
  moreover have "dom (map_of (x # xs)) = insert k (dom (map_of xs))" by (auto simp: x)
  ultimately show ?case using Cons new by (simp add: x finite_dom_map_of fun_upd_same del: fun_upd_apply)
qed simp

lemma int_sum_list: "int (\<Sum>x\<leftarrow>xs. f x) = (\<Sum>x\<leftarrow>xs. int (f x))"
  by (induction xs) simp_all

lemma utxos_value_get:
  assumes "utxos_wf t"
  shows "utxos_value t = (\<Sum>op \<in> dom (utxos_get t). coin_worth (the (utxos_get t op)))"
proof -
  let ?xs = "map (\<lambda>r. (utxo_key r, row_coin r)) t"
  have "distinct (map fst ?xs)" using assms by (simp add: utxos_wf_def comp_def)
  from map_of_sum [OF this, of coin_worth] show ?thesis
    by (simp add: utxos_get_eq [OF assms] utxos_value_def comp_def)
qed

lemma coins_value_get:
  assumes "coins_wf cs"
  shows "coins_value cs = (\<Sum>op \<in> dom (coins_get cs). coin_worth (the (coins_get cs op)))"
proof -
  have d: "distinct (map fst (fst cs))" using assms by (simp add: coins_wf_def)
  have g: "map_of (fst cs) op = map_option fst (coins_get cs op)" for op by (rule lookup_coins(1) [OF assms])
  have "dom (map_of (fst cs)) = dom (coins_get cs)" by (auto simp: g)
  moreover have "unat (Amount (the (map_of (fst cs) op))) = coin_worth (the (coins_get cs op))" if "op \<in> dom (coins_get cs)" for op
    using that by (auto simp: g coin_worth_def)
  moreover have "coins_value cs = (\<Sum>op \<in> dom (map_of (fst cs)). unat (Amount (the (map_of (fst cs) op))))"
    using map_of_sum [OF d, of "\<lambda>out. unat (Amount out)"] by (simp add: coins_value_def utxo_value_def case_prod_unfold)
  ultimately show ?thesis by simp
qed

lemma stored_value:
  assumes rep: "represents C now d blocks sts us p"
  shows "(\<Sum>r\<leftarrow>dbUtxos d. UAmount r) = uint (MintedThrough (word_of_nat (length blocks - 1)))"
proof -
  let ?st = "sts (length blocks - 1)" and ?s = "(ledger_chain d blocks)\<lparr>Pending := []\<rparr>"
  have r: "replayed C now blocks sts" and sim: "ledger_sim C d ?st" using rep by (simp_all add: represents_def)
  have uok: "utxos_ok (dbUtxos d)" and get: "utxos_get (dbUtxos d) = coins_get (coins_of ?st)"
    using sim by (simp_all add: ledger_sim_def)
  have wf: "coins_wf (coins_of ?st)" using represents_start(2) [OF rep] by (simp add: chain_inv_def)
  have "utxos_value (dbUtxos d) = state_value ?st"
    using utxos_value_get [OF utxos_ok_wf [OF uok]] coins_value_get [OF wf] by (simp add: get state_value_def)
  also have "\<dots> = unat (MintedThrough (word_of_nat (length blocks) - 1))"
    using replay_confirmed(2) [OF replayed_replay [OF r, of ?s] replayed_fits [OF r, of ?s]] by simp
  also have "word_of_nat (length blocks) - 1 = (word_of_nat (length blocks - 1) :: u64)"
    using represents_start(6) [OF rep] by (cases blocks) simp_all
  finally have v: "int (utxos_value (dbUtxos d)) = uint (MintedThrough (word_of_nat (length blocks - 1)))"
    by (simp only: uint_nat)
  have "UAmount r = int (coin_worth (row_coin r))" if "r \<in> set (dbUtxos d)" for r
  proof -
    have "r = coin_row (utxo_key r) (row_coin r)" "coin_storable (row_coin r)" using uok that by (simp_all add: utxos_ok_def)
    then have "UAmount r = int64_of (Amount (fst (row_coin r)))" "unat (Amount (fst (row_coin r))) \<le> 9223372036854775807"
      by (metis coin_row_def utxo_row.select_convs(3), simp add: coin_storable_def)
    then show ?thesis using int64_of_small [of "Amount (fst (row_coin r))"] by (simp add: uint_unat_le coin_worth_def)
  qed
  then have "(\<Sum>r\<leftarrow>dbUtxos d. UAmount r) = (\<Sum>r\<leftarrow>dbUtxos d. int (coin_worth (row_coin r)))"
    by (simp cong: map_cong)
  also have "\<dots> = int (utxos_value (dbUtxos d))"
    by (simp add: utxos_value_def int_sum_list)
  finally show ?thesis using v by simp
qed

section \<open>The chain state a ledger implements\<close>

text \<open>
  The database answers as the validated state \<open>s\<close> does: \<open>s\<close> replays with its pending transactions,
  the tip is that of its blocks with their cumulative work, the unspent outputs are those of the
  replay, and the mempool is its pending list, in order.
\<close>

definition implements_chain :: "crypto \<Rightarrow> (nat \<Rightarrow> int) \<Rightarrow> db \<Rightarrow> state \<Rightarrow> bool" where
  "implements_chain C now d s \<longleftrightarrow>
     Blocks s \<noteq> [] \<and> fits s \<and> Validate C now s = Inr () \<and>
     (\<exists>st. replay C now s False = Inr st \<and>
        (\<forall>op. loadUTXO d op = (case coins_get (coins_of st) op of
           None \<Rightarrow> Inl (Errorf ''input is missing or already spent'') | Some c \<Rightarrow> Inr (coin_record op c)))) \<and>
     Tip d = Inr \<lparr>TipHeight = word_of_nat (length (Blocks s) - 1), TipHash = Hash (last (Blocks s)),
       TipTimestamp = Timestamp (last (Blocks s)), TipDifficulty = Difficulty (last (Blocks s)),
       TipWork = CumulativeWork s\<rparr> \<and>
     MempoolTransactions d (int MaxPendingTransactions) = Inr (Pending s)"

lemma pool_length: "pool_within_budget d \<Longrightarrow> length (pool_txs d) \<le> MaxPendingTransactions"
  by (simp add: pool_within_budget_def pool_usage_def pool_txs_def)

lemma pool_listed:
  assumes "pool_tables d" "pool_within_budget d"
  shows "MempoolTransactions d (int MaxPendingTransactions) = Inr (pool_txs d)"
proof -
  have sorted: "sorted (map MSequence (dbMempool d))"
    using assms(1) by (simp add: pool_tables_def strict_sorted_imp_sorted)
  have "length (dbMempool d) \<le> MaxPendingTransactions" using pool_length [OF assms(2)] by (simp add: pool_txs_def)
  then show ?thesis
    by (simp add: MempoolTransactions_def MempoolTransactionsPage_def sorted sql_limit_def pool_txs_def)
      (simp add: MaxPendingTransactions_def)
qed

lemma ledger_replays:
  assumes ok: "ledger_ok C now d blocks sts us p st"
  shows "replay C now (ledger_chain d blocks) False = Inr (sts (length blocks - 1))"
    and "replay C now (ledger_chain d blocks) True = Inr st" "fits (ledger_chain d blocks)"
proof -
  let ?s = "ledger_chain d blocks"
  note o = ledger_okD [OF ok]
  have r: "replayed C now blocks sts" using o(1) by (simp add: represents_def)
  have len: "length (Pending ?s) \<le> MaxPendingTransactions" using pool_length [OF o(3)] by simp
  show conf: "replay C now ?s False = Inr (sts (length blocks - 1))" by (rule replayed_replay [OF r]) simp_all
  show "fits ?s" by (rule replayed_fits [OF r]) (use len in simp_all)
  have "foldE (replayPending C (next_height blocks)) (sts (length blocks - 1)) (pool_txs d) = Inr st"
    using o(4) by (simp add: pool_sim_def)
  then show "replay C now ?s True = Inr st"
    using conf len by (simp add: replay_True next_height_def)
qed

lemma ledger_ok_implements:
  assumes ok: "ledger_ok C now d blocks sts us p st"
  shows "implements_chain C now d (ledger_chain d blocks)"
proof -
  note o = ledger_okD [OF ok] and r = ledger_replays [OF ok]
  have sim: "ledger_sim C d (sts (length blocks - 1))" using o(1) by (simp add: represents_def)
  have "loadUTXO d op = (case coins_get (coins_of (sts (length blocks - 1))) op of
      None \<Rightarrow> Inl (Errorf ''input is missing or already spent'') | Some c \<Rightarrow> Inr (coin_record op c))" for op
    using sim by (simp add: ledger_sim_def loadUTXO_ok)
  then show ?thesis
    using r represents_start(6) [OF o(1)] represents_tip [OF o(1)] pool_listed [OF o(2,3)]
    by (simp add: implements_chain_def Validate_def Tip_def chain_work_eq [of "ledger_chain d blocks", simplified])
qed

end
