(* ===== verification/Sample_Ledger.thy ===== *)
theory Sample_Ledger
  imports Sample_Chain Ledger_Steps
begin

text \<open>
  A concrete ledger for the witnesses: a new database in which the blocks of Sample_Chain are
  connected one after the other, and the payment of that theory admitted to its mempool.
\<close>

section \<open>The sample blocks have distinct hashes\<close>

lemma encode_header_37: "encodeHeader b ! 37 = word_of_nat (unat (Height b))"
proof -
  let ?X = "enc_string NetworkID @ enc_uint32 (Version b)"
  obtain rest where e: "encodeHeader b = ?X @ be_bytes 8 (unat (Height b)) @ rest"
    by (simp add: encodeHeader_def enc_uint64_def)
  have "length ?X = 30" by (simp add: NetworkID_def)
  then have "(?X @ be_bytes 8 (unat (Height b)) @ rest) ! 37 = be_bytes 8 (unat (Height b)) ! 7"
    using nth_middle [of 7 "be_bytes 8 (unat (Height b))" ?X rest] by simp
  moreover have "be_bytes (Suc n) v ! n = word_of_nat v" for n v by (simp add: nth_append)
  from this [of 7] have "be_bytes 8 (unat (Height b)) ! 7 = word_of_nat (unat (Height b))" by simp
  ultimately show ?thesis by (simp add: e)
qed

lemma header_long: "37 < length (encodeHeader b)"
  by (simp add: encodeHeader_def NetworkID_def)

lemma block_hash_height:
  assumes "ComputeHash sample_crypto a = ComputeHash sample_crypto b" "unat (Height a) < 256" "unat (Height b) < 256"
  shows "Height a = Height b"
proof -
  have "sample_digest (encodeHeader a) = sample_digest (encodeHeader b)"
    using assms(1) by (auto simp: ComputeHash_def hashHex_def dest: hex_encode_inj)
  then have "(word_of_nat (unat (Height a)) :: u8) = word_of_nat (unat (Height b))"
    using header_long by (simp add: sample_digest_def encode_header_37)
  then have "unat (word_of_nat (unat (Height a)) :: u8) = unat (word_of_nat (unat (Height b)) :: u8)" by simp
  moreover have "unat (word_of_nat k :: u8) = k" if "k < 256" for k using that by simp
  ultimately have "unat (Height a) = unat (Height b)" using assms(2,3) by metis
  then show ?thesis by (simp only: word_unat_eq_iff)
qed

lemma blocks_upto_hash:
  assumes "b \<in> set (blocks_upto n)" "n \<le> 110"
  shows "Hash b = ComputeHash sample_crypto b" "unat (Height b) \<le> n"
proof -
  have "Hash (GenesisBlock sample_crypto) = ComputeHash sample_crypto (GenesisBlock sample_crypto)"
    by (simp add: GenesisBlock_def Let_def ComputeHash_def encodeHeader_def)
  then show "Hash b = ComputeHash sample_crypto b" using assms(1) by (induction n) auto
  have "unat (word_of_nat k :: u64) = k" if "k \<le> 110" for k using that by (intro unat_word_of_nat_64) simp
  then show "unat (Height b) \<le> n" using assms
  proof (induction n)
    case (Suc n)
    then show ?case by (cases "b \<in> set (blocks_upto n)") (auto simp del: of_nat_Suc)
  qed simp
qed

lemma next_block_fresh:
  assumes "Suc n \<le> 110"
  shows "\<forall>b' \<in> set (blocks_upto n). Hash b' \<noteq> Hash (next_block (last (blocks_upto n)) (Suc n))"
proof
  fix b' assume b': "b' \<in> set (blocks_upto n)"
  let ?b = "next_block (last (blocks_upto n)) (Suc n)"
  note h = blocks_upto_hash [OF b'] blocks_upto_hash [of ?b "Suc n"]
  have u: "unat (Height ?b) = Suc n" using assms unat_word_of_nat_64 [of "Suc n"] by (simp del: of_nat_Suc)
  show "Hash b' \<noteq> Hash ?b"
  proof
    assume "Hash b' = Hash ?b"
    then have "ComputeHash sample_crypto b' = ComputeHash sample_crypto ?b" using h(1,3) assms by simp
    then have "Height b' = Height ?b" by (rule block_hash_height) (use h(2) u assms in simp_all)
    then show False using h(2) u assms by simp
  qed
qed

section \<open>The ledger of the sample blocks\<close>

lemma sample_open:
  "\<exists>d. OpenLedger C (Inr False) (Inr ()) (Inr ()) created empty_db = (d, Inr ())"
proof -
  have "\<exists>d. ensureGenesis C created empty_db = Inr d \<and> map_of (dbMeta d) shutdownStateMetaKey = None"
    by (simp add: ensureGenesis_def empty_db_def insertBlockRow_def sql_require_def sql_insert_def insertMeta_def
        shutdownStateMetaKey_def) (simp add: block_row_of_def)
  then show ?thesis by (auto simp: OpenLedger_def prepareSession_def shutdownState_def)
qed

definition sample_ledger :: "url_library \<Rightarrow> nat \<Rightarrow> db \<Rightarrow> bool" where
  "sample_ledger U n d \<longleftrightarrow> ledger_reachable sample_crypto U d \<and> pool_txs d = [] \<and> dbMempoolSeq d = 0 \<and>
     (\<exists>now sts us st. ledger_ok sample_crypto now d (blocks_upto n) sts us 0 st \<and> sts n = state_upto n)"

lemma sample_ledger_0: "\<exists>d. sample_ledger U 0 d"
proof -
  obtain d where d: "OpenLedger sample_crypto (Inr False) (Inr ()) (Inr ()) 0 empty_db = (d, Inr ())"
    using sample_open by blast
  note t = open_new_tables [OF d]
  have "pool_txs d = [] \<and> dbMempoolSeq d = 0" using t(7) by (simp add: pool_txs_def pool_part_def)
  moreover have "genesis_sts 0 = state_upto 0"
    by (simp add: genesis_sts_def start_replay_def state_upto_def coins_upto_def)
  ultimately show ?thesis
    using open_ok [OF d] ledger_reachable.new [OF d] unfolding sample_ledger_def by fastforce
qed

lemma sample_connect:
  assumes "represents sample_crypto now d (blocks_upto n) sts us p" "sts n = state_upto n" "Suc n \<le> 110"
  shows "\<exists>d'. connectBlockAtTime sample_crypto d (next_block (last (blocks_upto n)) (Suc n)) 1783990000 = Inr d'"
proof (rule connect_complete [OF assms(1)])
  have "sample_clock = (\<lambda>_. 1783990000)" by (simp add: sample_clock_def fun_eq_iff)
  then show "replayBlock sample_crypto (\<lambda>_. 1783990000) (blocks_upto n @ [next_block (last (blocks_upto n)) (Suc n)])
      (sts (length (blocks_upto n) - 1)) (length (blocks_upto n)) = Inr (state_upto (Suc n))"
    using replay_next_block [of n "Suc n"] assms(2,3) by simp
  show "\<forall>b' \<in> set (blocks_upto n). Hash b' \<noteq> Hash (next_block (last (blocks_upto n)) (Suc n))"
    by (rule next_block_fresh [OF assms(3)])
  show "uint (Height (next_block (last (blocks_upto n)) (Suc n))) \<le> MaxInt64"
    using assms(3) uint_of_nat_small [of "Suc n"] by (simp add: MaxInt64_val del: of_nat_Suc)
qed

text \<open>The connected ledger represents the longer chain, with the replay state of Sample_Chain.\<close>

lemma sample_connected:
  assumes rep: "represents sample_crypto now d (blocks_upto n) sts us p" and st: "sts n = state_upto n" and n: "Suc n \<le> 110"
    and tab: "pool_tables d" and con: "connectBlockAtTime sample_crypto d (next_block (last (blocks_upto n)) (Suc n)) 1783990000 = Inr d'"
  shows "\<exists>now' sts' us'. represents sample_crypto now' d' (blocks_upto (Suc n)) sts' us' p \<and> sts' (Suc n) = state_upto (Suc n)"
    and "pool_part d' = pool_part d" "pool_tables d'"
proof -
  note c = connect_ok [OF rep tab con]
  obtain st' u where s: "extends_chain sample_crypto 1783990000 (blocks_upto n) sts (next_block (last (blocks_upto n)) (Suc n)) st'"
    "represents sample_crypto (now(Suc n := 1783990000)) d' (blocks_upto (Suc n)) (sts(Suc n := st')) (us(Suc n := u)) p"
    using c(1) by auto
  have "sample_clock = (\<lambda>_. 1783990000)" by (simp add: sample_clock_def fun_eq_iff)
  then have "(sts(Suc n := st')) (Suc n) = state_upto (Suc n)"
    using s(1) replay_next_block [of n "Suc n"] n st by (simp add: extends_chain_def)
  with s(2) show "\<exists>now' sts' us'. represents sample_crypto now' d' (blocks_upto (Suc n)) sts' us' p \<and> sts' (Suc n) = state_upto (Suc n)"
    by blast
  show "pool_part d' = pool_part d" "pool_tables d'" by (rule c(2,3))+
qed

lemma rebuild_empty:
  assumes "represents C now d blocks sts us p" "pool_tables d" "length blocks \<le> 111" "pool_part d = ([], 0, [], [])"
  shows "\<exists>d'. rebuildMempool C t d [] = Inr d' \<and> pool_txs d' = [] \<and> dbMempoolSeq d' = 0"
proof -
  have q: "dbMempool d = []" "dbMempoolSeq d = 0" using assms(4) by (simp_all add: pool_part_def)
  obtain d' where d': "rebuildMempool C t d [] = Inr d'"
    using rebuild_succeeds [OF assms(1,2), of "[]" t] assms(3) q by (auto simp: MaxInt64_val)
  have sorted: "sql_order MSequence (dbMempool d) = []" by (simp add: q(1) sql_order_def)
  have "repopulateMempool C (clearMempool d) [] h = Inr d' \<Longrightarrow> dbMempoolSeq d' = 0" for h
    using q(2) by (auto simp: repopulateMempool_def res_simps clearMempool_def)
  then have "dbMempoolSeq d' = 0" using d' sorted by (auto simp: rebuildMempool_def res_simps)
  moreover have "pool_txs d' = []" using rebuild_ok(2) [OF assms(1,2) d'] q(1) list_emb_length by (fastforce simp: pool_txs_def)
  ultimately show ?thesis using d' by blast
qed

lemma sample_pool_part:
  assumes "sample_ledger U n d"
  shows "pool_part d = ([], 0, [], [])"
proof -
  obtain now sts us st where ok: "ledger_ok sample_crypto now d (blocks_upto n) sts us 0 st" "pool_txs d = []" "dbMempoolSeq d = 0"
    using assms by (auto simp: sample_ledger_def)
  have "pool_tables d" by (rule ledger_okD(2) [OF ok(1)])
  then show ?thesis using ok(2,3) by (simp add: pool_part_def pool_tables_def) (simp add: pool_txs_def)
qed

lemma sample_ledger_Suc:
  assumes "sample_ledger U n d" "Suc n \<le> 110"
  shows "\<exists>d'. ConnectBlock sample_crypto 1783990000 0 d (next_block (last (blocks_upto n)) (Suc n)) = Inr d' \<and>
    sample_ledger U (Suc n) d'"
proof -
  let ?b = "next_block (last (blocks_upto n)) (Suc n)"
  obtain now sts us st where d: "ledger_reachable sample_crypto U d"
    "ledger_ok sample_crypto now d (blocks_upto n) sts us 0 st" "sts n = state_upto n"
    using assms(1) by (auto simp: sample_ledger_def)
  note o = ledger_okD [OF d(2)]
  obtain d1 where d1: "connectBlockAtTime sample_crypto d ?b 1783990000 = Inr d1"
    using sample_connect [OF o(1) d(3) assms(2)] by blast
  note c = sample_connected [OF o(1) d(3) assms(2) o(2) d1]
  obtain now' sts' us' where s: "represents sample_crypto now' d1 (blocks_upto (Suc n)) sts' us' 0" "sts' (Suc n) = state_upto (Suc n)"
    using c(1) by blast
  obtain d' where d': "rebuildMempool sample_crypto 0 d1 [] = Inr d'" "pool_txs d' = []" "dbMempoolSeq d' = 0"
    using rebuild_empty [OF s(1) c(3)] assms(2) c(2) sample_pool_part [OF assms(1)] by auto
  have con: "ConnectBlock sample_crypto 1783990000 0 d ?b = Inr d'" by (simp add: ConnectBlock_def d1 d'(1))
  have "ledger_reachable sample_crypto U d'"
    by (rule ledger_reachable.step [OF d(1) ledger_step.connect [OF con]])
  moreover obtain st' where "ledger_ok sample_crypto now' d' (blocks_upto (Suc n)) sts' us' 0 st'"
    using rebuild_ok(1) [OF s(1) c(3) d'(1)] by blast
  ultimately show ?thesis using d'(2,3) s(2) con unfolding sample_ledger_def by blast
qed

lemma sample_ledger_exists: "n \<le> 110 \<Longrightarrow> \<exists>d. sample_ledger U n d"
proof (induction n)
  case (Suc n)
  then obtain d where "sample_ledger U n d" by auto
  from sample_ledger_Suc [OF this Suc.prems] show ?case by blast
qed (rule sample_ledger_0)

text \<open>The payment is admitted to the ledger of 100 blocks.\<close>

lemma spend_reward_size: "encodedSize spend_reward = 352"
  by (simp add: encodedSize_eq spend_reward_def Let_def asn1_marshal_sig_def
      der_encode_int_def der_encode_length_def be_min.simps ID_reward ComputeID_def hashHex_def)

lemma sample_add:
  assumes "sample_ledger U 100 d"
  shows "\<exists>d'. AddTransaction sample_crypto t d spend_reward = Inr d' \<and> pool_txs d' = [spend_reward] \<and>
    ledger_reachable sample_crypto U d'"
proof -
  obtain now sts us st where d: "ledger_reachable sample_crypto U d" "pool_txs d = []" "dbMempoolSeq d = 0"
    "ledger_ok sample_crypto now d (blocks_upto 100) sts us 0 st" "sts 100 = state_upto 100"
    using assms by (auto simp: sample_ledger_def)
  have st: "st = state_upto 100"
    using ledger_okD(4) [OF d(4)] d(2,5) by (simp add: pool_sim_def)
  have "ID spend_reward \<notin> RSeen (state_upto 100)"
  proof
    assume "ID spend_reward \<in> RSeen (state_upto 100)"
    then obtain k where "k \<le> 100" "ID spend_reward = ID (reward k)" by (auto simp: state_upto_def)
    then show False using spend_reward_fresh [of k] by simp
  qed
  moreover have "minimumRelayFee (int (encodedSize spend_reward)) \<le> 2000"
    by (simp add: spend_reward_size minimumRelayFee_def mempoolRelayFeeKibiByteUnits_def MinimumRelayFeePerKibiByte_def)
  moreover have "validateMempoolResourceBudget (UsageCount (pool_usage d)) (UsageBytes (pool_usage d)) (UsageInputs (pool_usage d))
       (int (encodedSize spend_reward)) (int (length (Inputs spend_reward))) = Inr ()"
    using d(2) spend_reward_size by (simp add: pool_usage_def validateMempoolResourceBudget_def pool_txs_def
      MaxPendingTransactions_def MaxMempoolBytes_def MaxMempoolInputs_def)
  ultimately have "admissible sample_crypto d st (next_height (blocks_upto 100)) spend_reward 2000"
    using spend_reward_valid [of 100] spend_reward_mature [of 100] d(3)
    by (simp add: admissible_def st next_height_def MaxInt64_val)
  then have add: "AddTransaction sample_crypto t d spend_reward = Inr (admitted_db d spend_reward t 2000)"
    using add_exactly [OF d(4)] by auto
  then show ?thesis using add_ok(2) [OF d(4) add] d(2) ledger_reachable.step [OF d(1) ledger_step.add [OF add]] by simp
qed

text \<open>A replacement of the first block by the first two: one disconnection, two connections, more work.\<close>

lemma sample_disconnect:
  assumes "represents sample_crypto now d (blocks_upto (Suc n)) sts us 0" "pool_tables d"
  shows "\<exists>d' b. disconnectTip sample_crypto d = Inr (d', b, []) \<and> represents sample_crypto now d' (blocks_upto n) sts us 0 \<and>
     pool_tables d' \<and> pool_part d' = pool_part d"
proof -
  obtain d' b txs where d': "disconnectTip sample_crypto d = Inr (d', b, txs)"
    unfolding disconnect_cases [OF assms(1)] by simp
  note c = disconnect_ok [OF assms d']
  have "blocks_upto (Suc n) = butlast (blocks_upto (Suc n)) @ [b]" by (rule c(4))
  then have "b = next_block (last (blocks_upto n)) (Suc n)" by simp
  then have "txs = []" using c(5) by simp
  then show ?thesis using d' c by simp
qed

lemma sample_replace:
  assumes "sample_ledger U 1 d"
  shows "\<exists>d'. replaceFromSourceAtTime sample_crypto 0 d 0 2 (Some (\<lambda>i. Inr (blocks_upto 2 ! Suc i))) 1783990000 = Inr d'"
proof -
  obtain now sts us st where d: "ledger_ok sample_crypto now d (blocks_upto (Suc 0)) sts us 0 st"
    using assms by (auto simp: sample_ledger_def)
  note o = ledger_okD [OF d]
  obtain tip where tip: "tipFromQuery d = Inr tip" "TipHeight tip = 1" "TipWork tip = chain_work (blocks_upto 1)"
    using represents_tip [OF o(1)] by simp
  have p: "prunedThrough d = Inr 0" using o(1) by (simp add: represents_def)
  obtain d0 b where d0: "disconnectTip sample_crypto d = Inr (d0, b, [])" "represents sample_crypto now d0 (blocks_upto 0) sts us 0"
     "pool_tables d0" "pool_part d0 = pool_part d"
    using sample_disconnect [OF o(1,2)] by blast
  have "sts 0 = state_upto 0"
    using o(1) by (simp add: represents_def replayed_def start_replay_def state_upto_def coins_upto_def)
  then obtain d1 where d1: "connectBlockAtTime sample_crypto d0 (next_block (last (blocks_upto 0)) (Suc 0)) 1783990000 = Inr d1"
    using sample_connect [OF d0(2)] by auto
  note c1 = sample_connected [OF d0(2) \<open>sts 0 = state_upto 0\<close> _ d0(3) d1]
  obtain now1 sts1 us1 where r1: "represents sample_crypto now1 d1 (blocks_upto (Suc 0)) sts1 us1 0" "sts1 (Suc 0) = state_upto (Suc 0)"
    using c1(1) by auto
  obtain d2 where d2: "connectBlockAtTime sample_crypto d1 (next_block (last (blocks_upto (Suc 0))) (Suc (Suc 0))) 1783990000 = Inr d2"
    using sample_connect [OF r1] by auto
  note c2 = sample_connected [OF r1 _ c1(3) d2]
  obtain now2 sts2 us2 where r2: "represents sample_crypto now2 d2 (blocks_upto 2) sts2 us2 0"
    using c2(1) by (auto simp: numeral_2_eq_2)
  obtain tip2 where tip2: "tipFromQuery d2 = Inr tip2" "TipWork tip2 = chain_work (blocks_upto 2)"
    using represents_tip [OF r2] by simp
  have work: "chain_work (blocks_upto 1) < chain_work (blocks_upto 2)"
    by (simp add: chain_work_def blockWork_def numeral_2_eq_2)
  have pool: "pool_part d2 = ([], 0, [], [])"
    using c2(2) c1(2) d0(4) sample_pool_part [OF assms] by simp
  have tab: "pool_tables d2" using c2(3) by simp
  have rebuilt: "\<exists>d'. rebuildMempool sample_crypto 0 d2 extra = Inr d'" if "length extra \<le> 1000000" for extra
    by (rule rebuild_succeeds [OF r2 tab]) (use pool that in \<open>simp_all add: pool_part_def MaxInt64_val\<close>)
  have blk: "blocks_upto 2 ! Suc 0 = next_block (last (blocks_upto 0)) (Suc 0)"
    "blocks_upto 2 ! Suc (Suc 0) = next_block (last (blocks_upto (Suc 0))) (Suc (Suc 0))"
    by (simp_all add: numeral_2_eq_2 nth_append)
  have two: "[0..<nat 2] = [0, Suc 0]" by (simp add: numeral_2_eq_2)
  have step: "foldE (\<lambda>d index. connectBlockAtTime sample_crypto d (blocks_upto 2 ! Suc index) 1783990000) d0 [0..<nat 2] = Inr d2"
    unfolding two using d1 d2 by (simp only: foldE.simps attempt_Inr blk)
  have loop: "disconnectLoop sample_crypto (unat (1 - 0 :: u64)) (d, c) = Inr (d0, c)" for c
    using d0(1) by (simp add: orphanAdd_def)
  obtain d' where d': "rebuildMempool sample_crypto 0 d2 (orphanTransactions
      (newOrphanedMempoolCollector (int MaxPendingTransactions) maxOrphanedMempoolBytes)) = Inr d'"
    using rebuilt [of "[]"] by (auto simp: orphanTransactions_def newOrphanedMempoolCollector_def)
  have "\<not> (0 > (1 :: u64) \<or> uint (0 :: u64) > MaxInt64)" "\<not> (2 :: int) \<le> 0" "\<not> (0 :: u64) < 0"
    "\<not> chain_work (blocks_upto 2) \<le> chain_work (blocks_upto 1)"
    using work by (simp_all add: MaxInt64_val)
  then have "replaceFromSourceAtTime sample_crypto 0 d 0 2 (Some (\<lambda>i. Inr (blocks_upto 2 ! Suc i))) 1783990000 = Inr d'"
    unfolding replaceFromSourceAtTime_def option.case tip attempt_Inr p loop prod.case step tip2 d'
    by (simp only: if_False attempt_Inr step tip2 d')
  then show ?thesis by blast
qed

end
