(* ===== verification/Ledger_Props.thy ===== *)
theory Ledger_Props
  imports Ledger_View Sample_Ledger Chain_Props
begin

text \<open>
  Properties of the ledger in every database its operations reach from a new file, and their witnesses
  on the sample ledger.
\<close>

section \<open>The ledger implements the chain\<close>

text \<open>
  C1. Whatever sequence of operations led to a ledger, its tables stand for one chain state of the
  core that validates from genesis with its pending transactions: same tip, same cumulative work,
  same unspent outputs, same mempool. The unspent outputs it stores are worth exactly the emission
  scheduled for the height of the tip.
\<close>

theorem ledger_implements_chain:
  assumes "ledger_reachable C U d"
  shows "\<exists>now s. implements_chain C now d s \<and>
     (\<Sum>r\<leftarrow>dbUtxos d. UAmount r) = uint (MintedThrough (word_of_nat (length (Blocks s) - 1)))"
proof -
  obtain now blocks sts us p st where ok: "ledger_ok C now d blocks sts us p st"
    using ledger_reachable_ok [OF assms] by blast
  from ledger_ok_implements [OF this] stored_value [OF ledger_okD(1) [OF ok]] show ?thesis
    by (intro exI [of _ now] exI [of _ "ledger_chain d blocks"]) simp
qed

definition no_urls :: url_library where
  "no_urls = \<lparr>ParseURL = (\<lambda>_. None), IsIP = (\<lambda>_. False)\<rparr>"

lemma sample_reachable: "\<exists>d. ledger_reachable sample_crypto no_urls d \<and> sample_ledger no_urls 100 d"
  using sample_ledger_exists [of 100 no_urls] by (auto simp: sample_ledger_def)

theorem ledger_implements_chain_witness:
  "\<exists>d now s. ledger_reachable sample_crypto no_urls d \<and> implements_chain sample_crypto now d s"
  using sample_reachable ledger_implements_chain by metis

text \<open>
  C2. Every operation moves the ledger from one such chain state to another, and only in the ways a
  chain may change: nothing, one transaction admitted, one block added on the tip, the tip removed,
  the end replaced by one of more work, or a whole chain adopted on a fresh ledger. Adding and
  removing a block bring no transaction into the mempool but those of the removed block.
\<close>

theorem ledger_step_refines:
  assumes "ledger_reachable C U d" "ledger_step C U d d'"
  shows "\<exists>now s now' s'. implements_chain C now d s \<and> implements_chain C now' d' s' \<and>
     chain_step C (Blocks s, Pending s) (Blocks s', Pending s')"
proof -
  obtain now blocks sts us p st where ok: "ledger_ok C now d blocks sts us p st"
    using ledger_reachable_ok [OF assms(1)] by blast
  obtain now' blocks' sts' us' p' st' where ok': "ledger_ok C now' d' blocks' sts' us' p' st'"
    "chain_step C (blocks, pool_txs d) (blocks', pool_txs d')"
    using ledger_step_ok [OF assms(2) ok] by (auto simp: steps_to_def)
  show ?thesis
    by (intro exI conjI, rule ledger_ok_implements [OF ok], rule ledger_ok_implements [OF ok'(1)])
      (use ok'(2) in simp)
qed

theorem ledger_step_refines_witness:
  "\<exists>d d' now s now' s'. implements_chain sample_crypto now d s \<and> implements_chain sample_crypto now' d' s' \<and>
     Pending s' = [spend_reward]"
proof -
  obtain d where d: "ledger_reachable sample_crypto no_urls d" "sample_ledger no_urls 100 d" using sample_reachable by blast
  obtain d' where d': "AddTransaction sample_crypto 0 d spend_reward = Inr d'" "pool_txs d' = [spend_reward]"
    using sample_add [OF d(2)] by blast
  obtain now s now' s' where r: "implements_chain sample_crypto now d s" "implements_chain sample_crypto now' d' s'"
    using ledger_step_refines [OF d(1) ledger_step.add [OF d'(1)]] by blast
  moreover obtain now2 blocks2 sts2 us2 p2 st2 where "ledger_ok sample_crypto now2 d' blocks2 sts2 us2 p2 st2"
    using ledger_reachable_ok [OF ledger_reachable.step [OF d(1) ledger_step.add [OF d'(1)]]] by blast
  then have "MempoolTransactions d' (int MaxPendingTransactions) = Inr [spend_reward]"
    using pool_listed ledger_okD(2,3) d'(2) by metis
  then have "Pending s' = [spend_reward]" using r(2) by (simp add: implements_chain_def)
  ultimately show ?thesis by blast
qed

section \<open>Blocks\<close>

lemma represents_hashes:
  assumes rep: "represents C now d blocks sts us p" and "block_fresh d b"
  shows "\<forall>b' \<in> set blocks. Hash b' \<noteq> Hash b"
proof
  fix b' assume "b' \<in> set blocks"
  then obtain i where i: "i < length blocks" "b' = blocks ! i" by (auto simp: in_set_conv_nth)
  then have "stored_block p blocks i \<in> set (dbBlocks d)" using rep by (simp add: represents_def)
  then have "BHash (stored_block p blocks i) \<noteq> Hash b" using assms(2) by (simp add: block_fresh_def)
  then show "Hash b' \<noteq> Hash b" using i(2) by (simp add: stored_block_def block_row_of_def)
qed

lemma connect_fresh:
  assumes rep: "represents C now d blocks sts us p" and con: "connectBlockAtTime C d b t = Inr d'"
  shows "uint (Height b) \<le> MaxInt64" "\<forall>b' \<in> set blocks. Hash b' \<noteq> Hash b"
proof -
  have c: "uint (Height b) \<le> MaxInt64" "validateBlockHeaderAtTime C b (last blocks) blocks t = Inr ()"
    "Transactions b \<noteq> []" "Coinbase (hd (Transactions b))" "connectBody C d (chain_work blocks) b = Inr d'"
    using con unfolding connect_header [OF rep] by (auto simp: res_simps split: if_splits)
  show "uint (Height b) \<le> MaxInt64" by (rule c(1))
  show "\<forall>b' \<in> set blocks. Hash b' \<noteq> Hash b"
    by (rule represents_hashes [OF rep connectBody_sound(2) [OF represents_ready(1) [OF rep c(2,1)] c(3-5)]])
qed

text \<open>
  C3. The ledger connects a block exactly when the core, replaying the whole chain from genesis with
  that block on top, accepts it: the incremental check against the window of the last headers and the
  stored unspent outputs is the full validation. Besides it needs a height that the database can
  store and a hash that is not stored yet.
\<close>

theorem connect_iff_full_replay:
  assumes "ledger_reachable C U d"
  shows "\<exists>now s. implements_chain C now d s \<and>
     (\<forall>b t. (\<exists>d'. connectBlockAtTime C d b t = Inr d') \<longleftrightarrow>
        ValidateConfirmed C (now(length (Blocks s) := t)) (s\<lparr>Blocks := Blocks s @ [b]\<rparr>) = Inr () \<and>
        uint (Height b) \<le> MaxInt64 \<and> (\<forall>b' \<in> set (Blocks s). Hash b' \<noteq> Hash b))"
proof -
  obtain now blocks sts us p st where ok: "ledger_ok C now d blocks sts us p st"
    using ledger_reachable_ok [OF assms] by blast
  note rep = ledger_okD(1) [OF ok]
  let ?s = "ledger_chain d blocks"
  have r: "replayed C now blocks sts" using rep by (simp add: represents_def)
  have "ValidateConfirmed C (now(length blocks := t)) (?s\<lparr>Blocks := blocks @ [b]\<rparr>) = Inr () \<longleftrightarrow>
      (\<exists>st'. replayBlock C (\<lambda>_. t) (blocks @ [b]) (sts (length blocks - 1)) (length blocks) = Inr st')" for b t
    using replay_snoc [OF r, of "?s\<lparr>Blocks := blocks @ [b]\<rparr>" b t] by (simp add: ValidateConfirmed_def res_simps)
  then have "(\<exists>d'. connectBlockAtTime C d b t = Inr d') \<longleftrightarrow>
      ValidateConfirmed C (now(length blocks := t)) (?s\<lparr>Blocks := blocks @ [b]\<rparr>) = Inr () \<and>
      uint (Height b) \<le> MaxInt64 \<and> (\<forall>b' \<in> set blocks. Hash b' \<noteq> Hash b)" for b t
    using connect_complete [OF rep, where b = b and t = t] connect_sound [OF rep, of b t] connect_fresh [OF rep, of b t]
    by metis
  then show ?thesis using ledger_ok_implements [OF ok] by (intro exI [of _ now] exI [of _ ?s]) simp
qed

theorem connect_iff_full_replay_witness:
  "\<exists>d now s. implements_chain sample_crypto now d s \<and>
     (\<exists>d'. connectBlockAtTime sample_crypto d (next_block (last (blocks_upto 100)) 101) 1783990000 = Inr d') \<and>
     ValidateConfirmed sample_crypto (now(length (Blocks s) := 1783990000))
       (s\<lparr>Blocks := Blocks s @ [next_block (last (blocks_upto 100)) 101]\<rparr>) = Inr ()"
proof -
  obtain d where d: "ledger_reachable sample_crypto no_urls d" "sample_ledger no_urls 100 d" using sample_reachable by blast
  obtain d1 where d1: "ConnectBlock sample_crypto 1783990000 0 d (next_block (last (blocks_upto 100)) 101) = Inr d1"
    using sample_ledger_Suc [OF d(2)] by auto
  then obtain d' where "connectBlockAtTime sample_crypto d (next_block (last (blocks_upto 100)) 101) 1783990000 = Inr d'"
    by (auto simp: ConnectBlock_def res_simps)
  then show ?thesis using connect_iff_full_replay [OF d(1)] by blast
qed

lemma replayed_ids_fresh:
  assumes rep: "replayed C now blocks sts" and rep': "replayed C now' (blocks @ [b]) sts'" and tx: "tx \<in> set (Transactions b)"
  shows "ID tx \<notin> RSeen (sts (length blocks - 1))"
proof -
  have ne: "blocks \<noteq> []" using rep by (simp add: replayed_def)
  have "chain_inv (sts' (length blocks)) (chain_trace (blocks @ [b]))"
    using replayed_inv(1) [OF rep', of "length blocks"] by simp
  then have "distinct (map (ID \<circ> snd) (chain_trace blocks @ block_trace b))"
    by (simp add: chain_inv_def chain_trace_snoc ne)
  then have "set (map (ID \<circ> snd) (chain_trace blocks)) \<inter> set (map (ID \<circ> snd) (block_trace b)) = {}" by simp
  moreover have "Transactions b \<noteq> []" using replayed_inv(3) [OF rep', of "length blocks" "length blocks"] ne by simp
  then have "ID tx \<in> set (map (ID \<circ> snd) (block_trace b))"
    using tx by (cases "Transactions b") (auto simp: block_trace_def image_iff)
  moreover have "RSeen (sts (length blocks - 1)) = set (map (ID \<circ> snd) (chain_trace blocks))"
    unfolding replayed_seen [OF rep] by (simp add: image_comp comp_def image_image)
  ultimately show ?thesis by blast
qed

text \<open>
  C15. Connecting a block and disconnecting it again restores the database: every table is as it was,
  except that the unspent outputs may stand in another order, which no lookup sees. The block that
  was connected and its regular transactions come back.
\<close>

theorem connect_disconnect_restores:
  assumes "ledger_reachable C U d" "connectBlockAtTime C d b t = Inr d1"
  shows "\<exists>d2. disconnectTip C d1 = Inr (d2, b, tl (Transactions b)) \<and>
     d2 = d\<lparr>dbUtxos := dbUtxos d2\<rparr> \<and> (\<forall>op. loadUTXO d2 op = loadUTXO d op)"
proof -
  obtain now blocks sts us p st where ok: "ledger_ok C now d blocks sts us p st"
    using ledger_reachable_ok [OF assms(1)] by blast
  note rep = ledger_okD(1) [OF ok] and tab = ledger_okD(2) [OF ok]
  let ?n = "length blocks"
  obtain st' tb rows u where c: "d1 = connected_db d b (chain_work blocks + blockWork (Difficulty b)) tb rows u"
    "ATxId ` set rows \<subseteq> ID ` set (Transactions b)"
    "replayBlock C (\<lambda>_. t) (blocks @ [b]) (sts (?n - 1)) ?n = Inr st'"
    "represents C (now(?n := t)) d1 (blocks @ [b]) (sts(?n := st')) (us(?n := u)) p"
    using connect_sound [OF rep assms(2)] by blast
  have ne: "blocks \<noteq> []" "p < ?n" using represents_start(6) [OF rep] rep by (simp_all add: represents_def)
  then have n: "?n - 1 \<noteq> ?n" by (cases blocks) auto
  let ?d2 = "cut_db d1 blocks p b u"
  have dis: "disconnectTip C d1 = Inr (?d2, b, tl (Transactions b))"
    using disconnect_cases [OF c(4)] ne by simp
  have rep2: "represents C (now(?n := t)) ?d2 blocks (sts(?n := st')) (us(?n := u)) p"
    using cut_represents [OF c(4) ne] by simp
  have uds: "utxos_get (dbUtxos ?d2) = utxos_get (dbUtxos d)" "utxos_ok (dbUtxos ?d2)" "utxos_ok (dbUtxos d)"
    using rep rep2 n by (auto simp: represents_def ledger_sim_def)
  have "replayed C now blocks sts" "replayed C (now(?n := t)) (blocks @ [b]) (sts(?n := st'))"
    using rep c(4) by (simp_all add: represents_def)
  note new = replayed_ids_fresh [OF this]
  have "filter (\<lambda>a. ATxId a \<notin> ID ` set (Transactions b)) (dbAddresses d) = dbAddresses d"
    using new rep by (intro filter_True) (auto simp: represents_def ledger_sim_def)
  then have addr: "dbAddresses ?d2 = dbAddresses d"
    using c(2) by (auto simp: cut_db_def c(1) connected_db_def filter_empty_conv)
  have tables: "dbBlocks ?d2 = dbBlocks d" "dbTransactions ?d2 = dbTransactions d"
    using rep rep2 by (simp_all add: represents_def)
  have "dbUndo ?d2 = map (\<lambda>i. undo_row_of (blocks ! i) ((us(?n := u)) i)) [Suc p..<?n]"
    using rep2 unfolding represents_def by blast
  also have "\<dots> = map (\<lambda>i. undo_row_of (blocks ! i) (us i)) [Suc p..<?n]" by simp
  also have "\<dots> = dbUndo d" using rep unfolding represents_def by simp
  finally have undo: "dbUndo ?d2 = dbUndo d" .
  have "?d2 = d\<lparr>dbUtxos := dbUtxos ?d2\<rparr>"
    using addr tables undo by (simp add: cut_db_def c(1) connected_db_def)
  moreover have "loadUTXO ?d2 op = loadUTXO d op" for op
    using uds by (simp add: loadUTXO_ok)
  ultimately show ?thesis using dis by blast
qed

theorem connect_disconnect_restores_witness:
  "\<exists>d d1 d2 b. connectBlockAtTime sample_crypto d b 1783990000 = Inr d1 \<and>
     disconnectTip sample_crypto d1 = Inr (d2, b, tl (Transactions b)) \<and> dbBlocks d2 = dbBlocks d"
proof -
  obtain d where d: "ledger_reachable sample_crypto no_urls d" "sample_ledger no_urls 100 d" using sample_reachable by blast
  obtain d1 where "ConnectBlock sample_crypto 1783990000 0 d (next_block (last (blocks_upto 100)) 101) = Inr d1"
    using sample_ledger_Suc [OF d(2)] by auto
  then obtain d' where d': "connectBlockAtTime sample_crypto d (next_block (last (blocks_upto 100)) 101) 1783990000 = Inr d'"
    by (auto simp: ConnectBlock_def res_simps)
  from connect_disconnect_restores [OF d(1) d'] obtain d2 where
    d2: "disconnectTip sample_crypto d' = Inr (d2, next_block (last (blocks_upto 100)) 101,
        tl (Transactions (next_block (last (blocks_upto 100)) 101)))"
      "d2 = d\<lparr>dbUtxos := dbUtxos d2\<rparr>" by blast
  then have "dbBlocks d2 = dbBlocks d" by (metis db.select_convs(2) db.surjective db.update_convs(5))
  with d' d2(1) show ?thesis by blast
qed

lemma read_pruned:
  assumes rep: "represents C now d blocks sts us p"
  shows "PrunedThrough d = Inr (word_of_nat p)" "p < length blocks" "unat (word_of_nat p :: u64) = p"
proof -
  show p: "PrunedThrough d = Inr (word_of_nat p)" "p < length blocks"
    using rep by (simp_all add: represents_def PrunedThrough_def)
  show "unat (word_of_nat p :: u64) = p" using p(2) represents_start(5) [OF rep] by (simp add: unat_word_of_nat_64)
qed

text \<open>
  C16. A replacement of the end of the chain commits only when the new chain has strictly more work.
  It keeps every block through the common ancestor, which is on the chain and not below the prune
  horizon, and adds the blocks of the source in their order, each validated at the given time.
\<close>

theorem replacement_has_more_work:
  assumes "ledger_reachable C U d"
    and "replaceFromSourceAtTime C t d ancestor cnt source t' = Inr d'"
  shows "\<exists>now s now' s' prunedHeight blockAt new. implements_chain C now d s \<and> implements_chain C now' d' s' \<and>
     PrunedThrough d = Inr prunedHeight \<and> prunedHeight \<le> ancestor \<and> unat ancestor < length (Blocks s) \<and>
     source = Some blockAt \<and> int (length new) = cnt \<and> (\<forall>i < length new. blockAt i = Inr (new ! i)) \<and>
     Blocks s' = take (Suc (unat ancestor)) (Blocks s) @ new \<and> CumulativeWork s < CumulativeWork s' \<and>
     (\<forall>i \<le> unat ancestor. now' i = now i) \<and> (\<forall>j < length new. now' (Suc (unat ancestor) + j) = t')"
proof -
  obtain now blocks sts us p st where ok: "ledger_ok C now d blocks sts us p st"
    using ledger_reachable_ok [OF assms(1)] by blast
  note rep = ledger_okD(1) [OF ok]
  note p = read_pruned(1,2) [OF rep] and up = read_pruned(3) [OF rep]
  from replace_ok [OF ok assms(2)] obtain blockAt new now' sts' us' st' where r:
     "source = Some blockAt" "int (length new) = cnt" "\<forall>i < length new. blockAt i = Inr (new ! i)"
     "p \<le> unat ancestor" "unat ancestor < length blocks"
     "ledger_ok C now' d' (take (Suc (unat ancestor)) blocks @ new) sts' us' p st'"
     "continues (Suc (unat ancestor)) now now'" "\<forall>j < length new. now' (Suc (unat ancestor) + j) = t'"
     "chain_work blocks < chain_work (take (Suc (unat ancestor)) blocks @ new)" by blast
  let ?s = "ledger_chain d blocks" and ?s' = "ledger_chain d' (take (Suc (unat ancestor)) blocks @ new)"
  have "CumulativeWork ?s < CumulativeWork ?s'"
    using r(9) chain_work_eq [of ?s] chain_work_eq [of ?s'] by simp
  moreover have "(word_of_nat p :: u64) \<le> ancestor" using r(4) up by (simp add: word_le_nat_alt)
  moreover have "\<forall>i \<le> unat ancestor. now' i = now i" using r(7) by (simp add: continues_def less_Suc_eq_le)
  ultimately show ?thesis
    using ledger_ok_implements [OF ok] ledger_ok_implements [OF r(6)] p(1) r(1-3,5,8)
    by (intro exI [of _ now] exI [of _ ?s] exI [of _ now'] exI [of _ ?s'] exI [of _ "word_of_nat p"]
        exI [of _ blockAt] exI [of _ new]) simp
qed

theorem replacement_has_more_work_witness:
  "\<exists>d d' now s now' s'. replaceFromSourceAtTime sample_crypto 0 d 0 2 (Some (\<lambda>i. Inr (blocks_upto 2 ! Suc i))) 1783990000 = Inr d' \<and>
     implements_chain sample_crypto now d s \<and> implements_chain sample_crypto now' d' s' \<and>
     CumulativeWork s < CumulativeWork s'"
proof -
  obtain d where d: "sample_ledger no_urls 1 d" using sample_ledger_exists [of 1 no_urls] by auto
  then have reach: "ledger_reachable sample_crypto no_urls d" by (simp add: sample_ledger_def)
  obtain d' where d': "replaceFromSourceAtTime sample_crypto 0 d 0 2 (Some (\<lambda>i. Inr (blocks_upto 2 ! Suc i))) 1783990000 = Inr d'"
    using sample_replace [OF d] by blast
  obtain now s now' s' where "implements_chain sample_crypto now d s" "implements_chain sample_crypto now' d' s'"
    "CumulativeWork s < CumulativeWork s'"
    using replacement_has_more_work [OF reach d'] by auto
  with d' show ?thesis by blast
qed

text \<open>
  C31. Disconnecting the tip of a reachable ledger has exactly three outcomes: the genesis block stays,
  a tip at the prune horizon stays because its undo data is gone, and any other tip comes off. The
  stored blocks, transactions and undo data never make it fail.
\<close>

theorem disconnect_outcomes:
  assumes "ledger_reachable C U d"
  shows "\<exists>now s prunedHeight. implements_chain C now d s \<and> PrunedThrough d = Inr prunedHeight \<and>
     unat prunedHeight < length (Blocks s) \<and>
     (if length (Blocks s) = 1 then disconnectTip C d = Inl ErrGenesisDisconnect
      else if unat prunedHeight = length (Blocks s) - 1 then disconnectTip C d = Inl ErrReorgBeyondPrune
      else \<exists>d'. disconnectTip C d = Inr (d', last (Blocks s), tl (Transactions (last (Blocks s)))) \<and>
        (\<exists>s'. implements_chain C now (clearMempool d') s' \<and> Blocks s' = butlast (Blocks s)))"
proof -
  obtain now blocks sts us p st where ok: "ledger_ok C now d blocks sts us p st"
    using ledger_reachable_ok [OF assms(1)] by blast
  note rep = ledger_okD(1) [OF ok] and tab = ledger_okD(2) [OF ok]
  note p = read_pruned(1,2) [OF rep] and up = read_pruned(3) [OF rep]
  note cases = disconnect_cases [OF rep]
  have "\<exists>s'. implements_chain C now (clearMempool d') s' \<and> Blocks s' = butlast blocks"
    if dis: "disconnectTip C d = Inr (d', b, txs)" for d' b txs
  proof -
    note c = disconnect_ok [OF rep tab dis]
    note s = represents_start(1-4) [OF c(1)]
    have "ledger_ok C now (clearMempool d') (butlast blocks) sts us p (sts (length (butlast blocks) - 1))"
      using pool_empty [OF c(3) s] represents_cong [OF c(1)] by (simp add: ledger_ok_def)
    from ledger_ok_implements [OF this] show ?thesis by (intro exI [of _ "ledger_chain (clearMempool d') (butlast blocks)"]) simp
  qed
  then show ?thesis
    using ledger_ok_implements [OF ok] p up cases
    by (intro exI [of _ now] exI [of _ "ledger_chain d blocks"] exI [of _ "word_of_nat p"]) auto
qed

theorem disconnect_outcomes_witness:
  "\<exists>d d' b txs. ledger_reachable sample_crypto no_urls d \<and> disconnectTip sample_crypto d = Inr (d', b, txs)"
proof -
  obtain d where d: "ledger_reachable sample_crypto no_urls d" "sample_ledger no_urls 100 d" using sample_reachable by blast
  obtain now sts us st where ok: "ledger_ok sample_crypto now d (blocks_upto 100) sts us 0 st"
    using d(2) by (auto simp: sample_ledger_def)
  have p: "PrunedThrough d = Inr 0" using ledger_okD(1) [OF ok] by (simp add: represents_def PrunedThrough_def)
  have h: "TipHeight t = 100" if "Tip d = Inr t" for t
    using represents_tip [OF ledger_okD(1) [OF ok]] that by (auto simp: Tip_def)
  obtain now' s ph where o: "implements_chain sample_crypto now' d s" "PrunedThrough d = Inr ph"
     "if length (Blocks s) = 1 then disconnectTip sample_crypto d = Inl ErrGenesisDisconnect
      else if unat ph = length (Blocks s) - 1 then disconnectTip sample_crypto d = Inl ErrReorgBeyondPrune
      else \<exists>d'. disconnectTip sample_crypto d = Inr (d', last (Blocks s), tl (Transactions (last (Blocks s)))) \<and>
        (\<exists>s'. implements_chain sample_crypto now' (clearMempool d') s' \<and> Blocks s' = butlast (Blocks s))"
    using disconnect_outcomes [OF d(1)] by (elim exE conjE) (rule that)
  have "length (Blocks s) \<noteq> 0" using o(1) by (simp add: implements_chain_def)
  moreover have "(word_of_nat (length (Blocks s) - 1) :: u64) = 100"
    using o(1) h by (simp add: implements_chain_def)
  then have "length (Blocks s) - 1 \<noteq> 0" by (intro notI) simp
  moreover have "ph = 0" using p o(2) by simp
  ultimately have "length (Blocks s) \<noteq> 1" "unat ph \<noteq> length (Blocks s) - 1" by simp_all
  then obtain d' where "disconnectTip sample_crypto d = Inr (d', last (Blocks s), tl (Transactions (last (Blocks s))))"
    using o(3) unfolding if_not_P [OF \<open>length (Blocks s) \<noteq> 1\<close>] if_not_P [OF \<open>unat ph \<noteq> length (Blocks s) - 1\<close>] by blast
  with d(1) show ?thesis by blast
qed

text \<open>A block read by a hash has it; if bodies are pruned the read says so.\<close>

lemma read_by_hash:
  assumes "represents C now d blocks sts us p"
  shows "BlockByHash d x = Inl ErrBlockNotFound \<and> x \<notin> Hash ` set blocks \<or>
     BlockByHash d x = Inl ErrBlockPruned \<and> (\<exists>i < length blocks. 1 \<le> i \<and> i \<le> p \<and> Hash (blocks ! i) = x) \<or>
     (\<exists>b \<in> set blocks. Hash b = x \<and> BlockByHash d x = Inr b)"
proof (cases "find (\<lambda>r. BHash r = x) (dbBlocks d)")
  case None
  have "dbBlocks d = map (stored_block p blocks) [0..<length blocks]" using assms by (simp add: represents_def)
  then have "x \<notin> Hash ` set blocks"
    using None by (auto simp: find_None_iff stored_block_def block_row_of_def in_set_conv_nth) force
  then show ?thesis using None by (simp add: BlockByHash_def)
next
  case (Some r)
  have "dbBlocks d = map (stored_block p blocks) [0..<length blocks]" using assms by (simp add: represents_def)
  then obtain i where i: "i < length blocks" "r = stored_block p blocks i" "BHash r = x"
    using Some by (auto simp: find_Some_iff)
  then show ?thesis
    using Some nth_mem [OF i(1)] by (auto simp: BlockByHash_def storedBody_def stored_block_def block_row_of_def)
qed

text \<open>
  C32. Reads of a reachable ledger are exact and never see corrupted data: at a height up to the tip the
  header, the hash and the cumulative work are those of the chain, and the body is the block of the chain
  or, strictly above genesis and up to the prune horizon, the error that it is pruned; above the tip all of
  them are the error that there is no block. A body asked for by a hash is a block of the chain with that
  hash, or pruned, or there is no block of the chain with it.
\<close>

theorem reads_are_exact:
  assumes "ledger_reachable C U d"
  shows "\<exists>now s p. implements_chain C now d s \<and> PrunedThrough d = Inr p \<and>
     (\<forall>h. unat h < length (Blocks s) \<longrightarrow>
        Header d h = Inr (header_of (Blocks s ! unat h)) \<and> HashAt d h = Inr (Hash (Blocks s ! unat h)) \<and>
        WorkAt d h = Inr (CumulativeWork (s\<lparr>Blocks := take (Suc (unat h)) (Blocks s)\<rparr>)) \<and>
        LedgerBlock d h = (if 0 < h \<and> h \<le> p then Inl ErrBlockPruned else Inr (Blocks s ! unat h))) \<and>
     (\<forall>h. length (Blocks s) \<le> unat h \<longrightarrow> Header d h = Inl ErrBlockNotFound \<and> HashAt d h = Inl ErrBlockNotFound \<and>
        WorkAt d h = Inl ErrBlockNotFound \<and> LedgerBlock d h = Inl ErrBlockNotFound) \<and>
     (\<forall>x. BlockByHash d x = Inl ErrBlockNotFound \<and> x \<notin> Hash ` set (Blocks s) \<or>
        BlockByHash d x = Inl ErrBlockPruned \<and> (\<exists>i < length (Blocks s). 1 \<le> i \<and> i \<le> unat p \<and> Hash (Blocks s ! i) = x) \<or>
        (\<exists>b \<in> set (Blocks s). Hash b = x \<and> BlockByHash d x = Inr b))"
proof -
  obtain now blocks sts us p st where ok: "ledger_ok C now d blocks sts us p st"
    using ledger_reachable_ok [OF assms(1)] by blast
  note rep = ledger_okD(1) [OF ok]
  note p = read_pruned(1,2) [OF rep] and up = read_pruned(3) [OF rep]
  let ?s = "ledger_chain d blocks"
  have work: "chain_work (take k blocks) = CumulativeWork (?s\<lparr>Blocks := take k blocks\<rparr>)" for k
    using chain_work_eq [of "?s\<lparr>Blocks := take k blocks\<rparr>"] by simp
  have le: "0 < h \<and> h \<le> word_of_nat p \<longleftrightarrow> 1 \<le> unat h \<and> unat h \<le> p" for h :: u64
    using up by (simp add: word_le_nat_alt word_less_nat_alt Suc_le_eq)
  show ?thesis
    unfolding read_header [OF rep] read_hash [OF rep] read_work [OF rep] read_block [OF rep]
    by (rule exI [of _ now], rule exI [of _ ?s], rule exI [of _ "word_of_nat p"])
      (use read_by_hash [OF rep] in \<open>simp add: ledger_ok_implements [OF ok] p(1) up(1) work le\<close>)
qed

theorem reads_are_exact_witness:
  "\<exists>d (s :: state). ledger_reachable sample_crypto no_urls d \<and> HashAt d 0 = Inr (Hash (Blocks s ! 0)) \<and>
     LedgerBlock d 0 = Inr (Blocks s ! 0)"
proof -
  obtain d where d: "ledger_reachable sample_crypto no_urls d" using sample_reachable by blast
  obtain now s p where r: "implements_chain sample_crypto now d s"
     "\<forall>h. unat h < length (Blocks s) \<longrightarrow>
        Header d h = Inr (header_of (Blocks s ! unat h)) \<and> HashAt d h = Inr (Hash (Blocks s ! unat h)) \<and>
        WorkAt d h = Inr (CumulativeWork (s\<lparr>Blocks := take (Suc (unat h)) (Blocks s)\<rparr>)) \<and>
        LedgerBlock d h = (if 0 < h \<and> h \<le> p then Inl ErrBlockPruned else Inr (Blocks s ! unat h))"
    using reads_are_exact [OF d] by auto
  have "Blocks s \<noteq> []" using r(1) by (simp add: implements_chain_def)
  then have "unat (0 :: u64) < length (Blocks s)" by simp
  from r(2) [rule_format, OF this] have "HashAt d 0 = Inr (Hash (Blocks s ! 0))" "LedgerBlock d 0 = Inr (Blocks s ! 0)"
    by simp_all
  with d show ?thesis by blast
qed

text \<open>
  Pruning moves the horizon to the height that leaves the requested number of recent blocks,
  never back, and loses only bodies: the chain, its headers, the unspent outputs and the mempool stay,
  and so does every later operation on the retained blocks.
\<close>

theorem prune_keeps_chain:
  assumes "ledger_reachable C U d" "Prune d retain = Inr (d', k)"
  shows "\<exists>now s p. implements_chain C now d s \<and> implements_chain C now d' s \<and>
     PrunedThrough d = Inr p \<and> PrunedThrough d' = Inr k \<and>
     unat k = max (unat p) (length (Blocks s) - 1 - unat retain) \<and>
     (\<forall>h. Header d' h = Header d h \<and> (k < h \<longrightarrow> LedgerBlock d' h = LedgerBlock d h))"
proof -
  obtain now blocks sts us p st where ok: "ledger_ok C now d blocks sts us p st"
    using ledger_reachable_ok [OF assms(1)] by blast
  obtain p' where ok': "ledger_ok C now d' blocks sts us p' st" "k = word_of_nat p'"
    "p' = max p (length blocks - 1 - unat retain)"
    using prune_ok [OF ok assms(2)] by (elim exE conjE) (rule that)
  note rep = ledger_okD(1) [OF ok] and rep' = ledger_okD(1) [OF ok'(1)]
  note p = read_pruned(1) [OF rep] read_pruned(2) [OF rep] read_pruned(1) [OF rep'] and up = read_pruned(3) [OF rep] read_pruned(3) [OF rep']
  have "pool_part (prune_through c d) = pool_part d" for c
    by (simp add: prune_through_def pool_part_def Let_def)
  then have "pool_part d' = pool_part d"
    using assms(2) by (auto simp: Prune_def res_simps Let_def split: if_splits)
  then have "pool_txs d' = pool_txs d" by (rule pool_txs_cong)
  then have same: "ledger_chain d' blocks = ledger_chain d blocks" by (simp add: ledger_chain_def)
  have "LedgerBlock d' h = LedgerBlock d h" if "k < h" for h
  proof -
    have "p' < unat h" "p \<le> p'" using that up(2) ok'(3) by (simp_all add: ok'(2) word_less_nat_alt)
    then show ?thesis unfolding read_block [OF rep] read_block [OF rep'] by simp
  qed
  moreover have "Header d' h = Header d h" for h unfolding read_header [OF rep] read_header [OF rep'] ..
  moreover have "implements_chain C now d' (ledger_chain d blocks)" using ledger_ok_implements [OF ok'(1)] unfolding same .
  moreover have "unat k = max (unat (word_of_nat p :: u64)) (length blocks - 1 - unat retain)"
    unfolding ok'(2) up by (rule ok'(3))
  ultimately show ?thesis
    using ledger_ok_implements [OF ok] p(1,3) unfolding ok'(2) [symmetric]
    by (intro exI [of _ now] exI [of _ "ledger_chain d blocks"] exI [of _ "word_of_nat p"]) simp
qed

theorem prune_keeps_chain_witness:
  "\<exists>d d' k now s. Prune d 60 = Inr (d', k) \<and> implements_chain sample_crypto now d s \<and>
     implements_chain sample_crypto now d' s"
proof -
  obtain d where d: "ledger_reachable sample_crypto no_urls d" "sample_ledger no_urls 100 d" using sample_reachable by blast
  obtain now sts us st where ok: "ledger_ok sample_crypto now d (blocks_upto 100) sts us 0 st"
    using d(2) by (auto simp: sample_ledger_def)
  have "prunedThrough d = Inr 0" using ledger_okD(1) [OF ok] by (simp add: represents_def)
  moreover obtain tip where "tipFromQuery d = Inr tip" "TipHeight tip = 100"
    using represents_tip [OF ledger_okD(1) [OF ok]] by simp
  ultimately obtain d' k where "Prune d 60 = Inr (d', k)" by (simp add: Prune_def)
  with prune_keeps_chain [OF d(1) this] show ?thesis by blast
qed

end
