(* ===== verification/Mempool_Props.thy ===== *)
theory Mempool_Props
  imports Ledger_Props
begin

text \<open>
  Properties of the mempool of a ledger that its operations reach from a new file.
\<close>

lemma reachable_pool:
  assumes "ledger_reachable C U d"
  shows "\<exists>now blocks sts us p st. ledger_ok C now d blocks sts us p st \<and>
     chain_inv st (chain_trace blocks @ map (Pair (next_height blocks)) (pool_txs d))"
proof -
  obtain now blocks sts us p st where ok: "ledger_ok C now d blocks sts us p st"
    using ledger_reachable_ok [OF assms] by blast
  from ok pool_sim_inv(1) [OF ledger_okD(4) [OF ok]] show ?thesis by blast
qed

text \<open>
  C18. The mempool of a reachable ledger holds no transaction twice and none that is confirmed, no two
  of its transactions spend the same output, it stays within its count, byte and input budgets, and
  every transaction in it was admitted with at least the relay fee for its size.
\<close>

theorem mempool_invariant:
  assumes "ledger_reachable C U d" "MempoolTransactions d (int MaxPendingTransactions) = Inr txs"
  shows "distinct (map ID txs) \<and> ID ` set txs \<inter> TId ` set (dbTransactions d) = {} \<and>
     distinct (concat (map spends txs)) \<and>
     length txs \<le> 5000 \<and> (\<Sum>tx\<leftarrow>txs. int (encodedSize tx)) \<le> 33554432 \<and>
     (\<Sum>tx\<leftarrow>txs. int (length (Inputs tx))) \<le> 20000 \<and>
     (\<forall>m \<in> set (dbMempool d). minimumRelayFee (int (encodedSize (MData m))) \<le> word_of_int (MFee m))"
proof -
  obtain now blocks sts us p st where ok: "ledger_ok C now d blocks sts us p st"
    and inv: "chain_inv st (chain_trace blocks @ map (Pair (next_height blocks)) (pool_txs d))"
    using reachable_pool [OF assms(1)] by blast
  note o = ledger_okD [OF ok]
  have txs: "txs = pool_txs d" using pool_listed [OF o(2,3)] assms(2) by simp
  have ids: "map (ID \<circ> snd) (map (Pair (next_height blocks)) (pool_txs d)) = map ID txs"
    "map snd (map (Pair (next_height blocks)) (pool_txs d)) = txs" by (simp_all add: txs comp_def)
  have "distinct (map (ID \<circ> snd) (chain_trace blocks) @ map ID txs)"
    using inv unfolding chain_inv_def map_append ids by blast
  moreover have "replayed C now blocks sts" "ledger_sim C d (sts (length blocks - 1))"
    using o(1) by (simp_all add: represents_def)
  then have "TId ` set (dbTransactions d) = ID ` snd ` set (chain_trace blocks)"
    unfolding ledger_sim_def replayed_seen [OF \<open>replayed C now blocks sts\<close>] by blast
  moreover have "trace_spends (map (Pair (next_height blocks)) (pool_txs d)) = concat (map spends txs)"
    by (simp add: trace_spends_def txs comp_def)
  then have "distinct (concat (map spends txs))"
    using inv by (simp add: chain_inv_def trace_spends_def)
  moreover have "length txs \<le> 5000 \<and> (\<Sum>tx\<leftarrow>txs. int (encodedSize tx)) \<le> 33554432 \<and>
     (\<Sum>tx\<leftarrow>txs. int (length (Inputs tx))) \<le> 20000"
    using o(3) by (simp add: pool_within_budget_def pool_usage_def txs MaxPendingTransactions_def MaxMempoolBytes_def
        MaxMempoolInputs_def) (simp add: pool_txs_def)
  moreover have "\<forall>m \<in> set (dbMempool d). minimumRelayFee (int (encodedSize (MData m))) \<le> word_of_int (MFee m)"
    using o(2) by (auto simp: pool_tables_def pool_row_ok_def)
  ultimately show ?thesis by (auto simp: image_image)
qed

theorem mempool_invariant_witness:
  "\<exists>d. MempoolTransactions d (int MaxPendingTransactions) = Inr [spend_reward] \<and>
     ID spend_reward \<notin> TId ` set (dbTransactions d)"
proof -
  obtain d where d: "ledger_reachable sample_crypto no_urls d" "sample_ledger no_urls 100 d" using sample_reachable by blast
  obtain d' where d': "pool_txs d' = [spend_reward]" "ledger_reachable sample_crypto no_urls d'"
    using sample_add [OF d(2)] by blast
  obtain now2 blocks2 sts2 us2 p2 st2 where "ledger_ok sample_crypto now2 d' blocks2 sts2 us2 p2 st2"
    using ledger_reachable_ok [OF d'(2)] by blast
  then have l: "MempoolTransactions d' (int MaxPendingTransactions) = Inr [spend_reward]"
    using pool_listed ledger_okD(2,3) d'(1) by metis
  from mempool_invariant [OF d'(2) l] l show ?thesis by auto
qed

lemma inputs_needed: "validateRegularTransaction C tx u = Inr fee \<Longrightarrow> Inputs tx \<noteq> []"
  by (auto simp: validateRegularTransaction_def res_simps split: if_splits)

lemma budget_exact:
  "validateMempoolResourceBudget (UsageCount (pool_usage d)) (UsageBytes (pool_usage d)) (UsageInputs (pool_usage d))
       (int (encodedSize tx)) (int (length (Inputs tx))) = Inr () \<longleftrightarrow>
     Inputs tx \<noteq> [] \<and> length (pool_txs d) < MaxPendingTransactions \<and>
     (\<Sum>p\<leftarrow>pool_txs d. int (encodedSize p)) + int (encodedSize tx) \<le> MaxMempoolBytes \<and>
     (\<Sum>p\<leftarrow>pool_txs d. int (length (Inputs p))) + int (length (Inputs tx)) \<le> MaxMempoolInputs"
proof -
  have "0 < int (encodedSize tx)" by (simp add: encodedSize_eq)
  moreover have "0 \<le> (\<Sum>tx\<leftarrow>pool_txs d. int (encodedSize tx))" "0 \<le> (\<Sum>tx\<leftarrow>pool_txs d. int (length (Inputs tx)))"
    by (intro sum_list_nonneg, auto)+
  ultimately show ?thesis
    by (auto simp: validateMempoolResourceBudget_def pool_usage_def pool_txs_def not_le not_less)
qed

text \<open>
  C19. \<open>AddTransaction\<close> admits a transaction exactly when the core would append it to the pending
  transactions of the chain state, and the policy of the mempool allows it: the fee meets the relay
  minimum and the byte and input budgets have room (the two counters must also fit the database).
\<close>

theorem admission_exact:
  assumes "ledger_reachable C U d"
  shows "\<exists>now s st. implements_chain C now d s \<and> replay C now s True = Inr st \<and>
     (\<forall>t tx. (\<exists>d'. AddTransaction C t d tx = Inr d') \<longleftrightarrow>
        AddPending C now s tx = Inr (s\<lparr>Pending := Pending s @ [tx]\<rparr>) \<and>
        (\<exists>fee. validateRegularTransaction C tx (RUtxo st) = Inr fee \<and> minimumRelayFee (int (encodedSize tx)) \<le> fee) \<and>
        (\<Sum>p\<leftarrow>Pending s. int (encodedSize p)) + int (encodedSize tx) \<le> MaxMempoolBytes \<and>
        (\<Sum>p\<leftarrow>Pending s. int (length (Inputs p))) + int (length (Inputs tx)) \<le> MaxMempoolInputs \<and>
        dbMempoolSeq d < MaxInt64 \<and> length (Blocks s) < 9223372036854775808)"
proof -
  obtain now blocks sts us p st where ok: "ledger_ok C now d blocks sts us p st"
    using ledger_reachable_ok [OF assms(1)] by blast
  note o = ledger_okD [OF ok] and r = ledger_replays [OF ok]
  let ?s = "ledger_chain d blocks" and ?h = "next_height blocks"
  have pend: "AddPending C now ?s tx = Inr (?s\<lparr>Pending := Pending ?s @ [tx]\<rparr>) \<longleftrightarrow>
      length (pool_txs d) < MaxPendingTransactions \<and> ID tx \<notin> RSeen st \<and>
      (\<exists>fee. validateRegularTransaction C tx (RUtxo st) = Inr fee) \<and>
      validateCoinbaseMaturity tx (ROrigins st) ?h = Inr () \<and>
      (\<exists>cs. applyRegularTransaction tx ?h (coins_of st) = Inr cs)" for tx
    by (auto simp: AddPending_def r(2) res_simps Let_def next_height_def not_le)
  have adm: "(\<exists>d'. AddTransaction C t d tx = Inr d') \<longleftrightarrow> length blocks < 9223372036854775808 \<and> (\<exists>fee. admissible C d st ?h tx fee)" for t tx
    using add_exactly [OF ok] by auto
  have "(\<exists>d'. AddTransaction C t d tx = Inr d') \<longleftrightarrow>
        AddPending C now ?s tx = Inr (?s\<lparr>Pending := Pending ?s @ [tx]\<rparr>) \<and>
        (\<exists>fee. validateRegularTransaction C tx (RUtxo st) = Inr fee \<and> minimumRelayFee (int (encodedSize tx)) \<le> fee) \<and>
        (\<Sum>p\<leftarrow>Pending ?s. int (encodedSize p)) + int (encodedSize tx) \<le> MaxMempoolBytes \<and>
        (\<Sum>p\<leftarrow>Pending ?s. int (length (Inputs p))) + int (length (Inputs tx)) \<le> MaxMempoolInputs \<and>
        dbMempoolSeq d < MaxInt64 \<and> length (Blocks ?s) < 9223372036854775808" for t tx
  proof -
    have a: "\<exists>cs. applyRegularTransaction tx ?h (coins_of st) = Inr cs" "Inputs tx \<noteq> []"
      if "ID tx \<notin> RSeen st" "validateRegularTransaction C tx (RUtxo st) = Inr fee"
        "validateCoinbaseMaturity tx (ROrigins st) ?h = Inr ()" for fee
      using pool_valid(1) [OF o(4) that] inputs_needed [OF that(2)] by blast+
    show ?thesis
    proof (cases "ID tx \<notin> RSeen st \<and> validateCoinbaseMaturity tx (ROrigins st) ?h = Inr ()")
      case True
      then show ?thesis using a unfolding adm pend [unfolded ledger_chain_sel] ledger_chain_sel admissible_def budget_exact
        by (cases "validateRegularTransaction C tx (RUtxo st)") auto
    next
      case False
      then show ?thesis unfolding adm pend [unfolded ledger_chain_sel] ledger_chain_sel admissible_def by blast
    qed
  qed
  then show ?thesis
    using ledger_ok_implements [OF ok] r(2) by (intro exI [of _ now] exI [of _ ?s] exI [of _ st]) simp
qed

theorem admission_exact_witness:
  "\<exists>d d' now s. AddTransaction sample_crypto 0 d spend_reward = Inr d' \<and> implements_chain sample_crypto now d s \<and>
     AddPending sample_crypto now s spend_reward = Inr (s\<lparr>Pending := Pending s @ [spend_reward]\<rparr>)"
proof -
  obtain d where d: "ledger_reachable sample_crypto no_urls d" "sample_ledger no_urls 100 d" using sample_reachable by blast
  obtain d' where d': "AddTransaction sample_crypto 0 d spend_reward = Inr d'" using sample_add [OF d(2)] by blast
  from admission_exact [OF d(1)] obtain now s where s: "implements_chain sample_crypto now d s"
    "(\<exists>d'. AddTransaction sample_crypto 0 d spend_reward = Inr d') \<Longrightarrow>
       AddPending sample_crypto now s spend_reward = Inr (s\<lparr>Pending := Pending s @ [spend_reward]\<rparr>)" by blast
  then show ?thesis using d' by blast
qed

lemma connected_commits:
  assumes ok: "ledger_ok C now d blocks sts us p st" and con: "connectBlockAtTime C d b t = Inr d1"
    and "uint (Height b) < MaxInt64" "dbMempoolSeq d + int (length (dbMempool d)) \<le> MaxInt64"
  shows "\<exists>d' now' st' u' st2. ConnectBlock C t t' d b = Inr d' \<and>
     ledger_ok C now' d' (blocks @ [b]) (sts(length blocks := st')) (us(length blocks := u')) p st2"
proof -
  note o = ledger_okD [OF ok] and c = connect_ok [OF ledger_okD(1) [OF ok] ledger_okD(2) [OF ok] con]
  obtain st' u where s: "represents C (now(length blocks := t)) d1 (blocks @ [b]) (sts(length blocks := st')) (us(length blocks := u)) p"
    using c(1) by blast
  have "heights_ok (blocks @ [b])" using s by (simp add: represents_def replayed_def)
  then have "Height ((blocks @ [b]) ! length blocks) = word_of_nat (length blocks)" "length blocks \<le> 9223372036854775807"
    unfolding heights_ok_def by (metis length_append_singleton lessI, simp)
  then have "uint (Height b) = int (length blocks)" by (simp add: uint_of_nat_small)
  then have len: "length (blocks @ [b]) < 9223372036854775808" using assms(3) by (simp add: MaxInt64_val)
  have pool: "dbMempoolSeq d1 = dbMempoolSeq d" "dbMempool d1 = dbMempool d" using c(2) by (simp_all add: pool_part_def)
  obtain d' where d': "rebuildMempool C t' d1 [] = Inr d'"
    using rebuild_succeeds [OF s c(3) len, of "[]" t'] assms(4) pool by auto
  then have "ConnectBlock C t t' d b = Inr d'" by (simp add: ConnectBlock_def con)
  moreover obtain st2 where "ledger_ok C (now(length blocks := t)) d' (blocks @ [b]) (sts(length blocks := st')) (us(length blocks := u)) p st2"
    using rebuild_ok(1) [OF s c(3) d'] by blast
  ultimately show ?thesis by blast
qed

text \<open>
  C20. Pending transactions never block the chain: a block the chain accepts is committed, whatever
  the mempool holds. What stays pending was pending before, in the same order. (The height and the
  sequence numbers of the mempool must leave room in their 64-bit columns.)
\<close>

theorem mempool_never_blocks_chain:
  assumes "ledger_reachable C U d" "connectBlockAtTime C d b t = Inr d1"
    and "uint (Height b) < MaxInt64" "dbMempoolSeq d + int (length (dbMempool d)) \<le> MaxInt64"
  shows "\<exists>d' txs txs'. ConnectBlock C t t' d b = Inr d' \<and>
     MempoolTransactions d (int MaxPendingTransactions) = Inr txs \<and>
     MempoolTransactions d' (int MaxPendingTransactions) = Inr txs' \<and> subseq txs' txs"
proof -
  obtain now blocks sts us p st where ok: "ledger_ok C now d blocks sts us p st"
    using ledger_reachable_ok [OF assms(1)] by blast
  obtain d' now' st' u' st2 where con: "ConnectBlock C t t' d b = Inr d'"
    and ok': "ledger_ok C now' d' (blocks @ [b]) (sts(length blocks := st')) (us(length blocks := u')) p st2"
    using connected_commits [OF ok assms(2-4)] by blast
  show ?thesis
    using con pool_listed [OF ledger_okD(2,3) [OF ok]] pool_listed [OF ledger_okD(2,3) [OF ok']] connect_block_ok(2) [OF ok con] by blast
qed

theorem mempool_never_blocks_chain_witness:
  "\<exists>d d'. ConnectBlock sample_crypto 1783990000 7 d (next_block (last (blocks_upto 100)) 101) = Inr d'"
proof -
  obtain d where d: "ledger_reachable sample_crypto no_urls d" "sample_ledger no_urls 100 d" using sample_reachable by blast
  obtain d1 where "ConnectBlock sample_crypto 1783990000 0 d (next_block (last (blocks_upto 100)) 101) = Inr d1"
    using sample_ledger_Suc [OF d(2)] by auto
  then obtain d' where d': "connectBlockAtTime sample_crypto d (next_block (last (blocks_upto 100)) 101) 1783990000 = Inr d'"
    by (auto simp: ConnectBlock_def res_simps)
  have "dbMempoolSeq d + int (length (dbMempool d)) \<le> MaxInt64"
    using sample_pool_part [OF d(2)] by (simp add: pool_part_def MaxInt64_val)
  moreover have "uint (Height (next_block (last (blocks_upto 100)) 101)) < MaxInt64" by (simp add: MaxInt64_val)
  ultimately show ?thesis using mempool_never_blocks_chain [OF d(1) d'] by blast
qed

end
