(* ===== verification/Mining_Order.thy ===== *)
theory Mining_Order
  imports Candidate
begin

text \<open>
  The order in which pending transactions are offered to a block: the comparison of fee rates is exact,
  the binary heap is a priority queue, and the queue of transactions whose parents are placed yields a
  topological order that is greedy in the fee rate.
\<close>

section \<open>The comparison\<close>

lemma Mul64_exact:
  "unat (fst (Mul64 x y)) * 18446744073709551616 + unat (snd (Mul64 x y)) = unat x * unat y"
proof -
  have b: "unat x < 18446744073709551616" "unat y < 18446744073709551616" by (rule unat_less_64)+
  have "unat x * unat y < 18446744073709551616 * 18446744073709551616"
    by (rule mult_strict_mono') (use b in simp_all)
  then have "unat x * unat y div 18446744073709551616 < 18446744073709551616" by (simp add: less_mult_imp_div_less)
  then have "unat (word_of_nat (unat x * unat y div 18446744073709551616) :: u64) = unat x * unat y div 18446744073709551616"
    by (simp add: unat_word_of_nat_64)
  moreover have "unat (x * y) = unat x * unat y mod 18446744073709551616" by (simp add: unat_word_ariths)
  ultimately show ?thesis by (simp add: Mul64_def)
qed

lemma lex_nat:
  assumes "l < m" "l' < (m :: nat)"
  shows "h * m + l < h' * m + l' \<longleftrightarrow> h < h' \<or> h = h' \<and> l < l'"
proof -
  have "h * m + l < h' * m + l'" if "h < h'" "l < m" for h h' l l' :: nat
  proof -
    have "Suc h * m \<le> h' * m" using that(1) by (intro mult_le_mono1) simp
    then show ?thesis using that(2) by simp
  qed
  from this [of h h' l l'] this [of h' h l' l] show ?thesis using assms by (cases h h' rule: linorder_cases) auto
qed

text \<open>Comparing the words of two products from the high one down compares the products.\<close>

lemma word_pairs:
  fixes h l h' l' :: u64
  assumes "unat h * 18446744073709551616 + unat l = a" "unat h' * 18446744073709551616 + unat l' = b"
  shows "(if h \<noteq> h' then h > h' else l > l') \<longleftrightarrow> b < a" "(h, l) = (h', l') \<longleftrightarrow> a = b"
proof -
  note lt = lex_nat [OF unat_less_64 [of l'] unat_less_64 [of l], of "unat h'" "unat h", unfolded assms]
    and gt = lex_nat [OF unat_less_64 [of l] unat_less_64 [of l'], of "unat h" "unat h'", unfolded assms]
  show "(if h \<noteq> h' then h > h' else l > l') \<longleftrightarrow> b < a"
    unfolding lt word_less_nat_alt word_unat_eq_iff by auto
  show "(h, l) = (h', l') \<longleftrightarrow> a = b"
    using lt gt by (auto simp: word_unat_eq_iff)
qed

lemma Mul64_less:
  assumes "a = unat x * unat y" "b = unat z * unat w"
  shows "(if fst (Mul64 x y) \<noteq> fst (Mul64 z w) then fst (Mul64 x y) > fst (Mul64 z w)
     else snd (Mul64 x y) > snd (Mul64 z w)) \<longleftrightarrow> b < a"
    and "Mul64 x y = Mul64 z w \<longleftrightarrow> a = b"
  using word_pairs [OF Mul64_exact [of x y] Mul64_exact [of z w]] assms by (simp_all add: prod_eq_iff)

definition rate_key :: "miningMempoolItem \<Rightarrow> nat \<times> nat \<times> int" where
  "rate_key i = (unat (ItemFee i), unat (ItemEncodedSize i), ItemSequence i)"

definition higher :: "nat \<times> nat \<times> int \<Rightarrow> nat \<times> nat \<times> int \<Rightarrow> bool" where
  "higher = (\<lambda>(f, s, k) (f', s', k'). f * s' > f' * s \<or> f * s' = f' * s \<and> (f > f' \<or> f = f' \<and> k < k'))"

lemma higherMiningPriority_exact: "higherMiningPriority l r \<longleftrightarrow> higher (rate_key l) (rate_key r)"
proof -
  let ?a = "unat (ItemFee l) * unat (ItemEncodedSize r)" and ?b = "unat (ItemFee r) * unat (ItemEncodedSize l)"
  note c = Mul64_less [of ?a "ItemFee l" "ItemEncodedSize r" ?b "ItemFee r" "ItemEncodedSize l", OF refl refl]
  show ?thesis
  proof (cases "?a = ?b")
    case True
    then have "Mul64 (ItemFee l) (ItemEncodedSize r) = Mul64 (ItemFee r) (ItemEncodedSize l)" using c(2) by simp
    then show ?thesis
      using True by (simp add: higherMiningPriority_def higher_def rate_key_def case_prod_unfold word_less_nat_alt word_unat_eq_iff)
  next
    case False
    then have "Mul64 (ItemFee l) (ItemEncodedSize r) \<noteq> Mul64 (ItemFee r) (ItemEncodedSize l)" using c(2) by simp
    then have "higherMiningPriority l r \<longleftrightarrow>
      (if fst (Mul64 (ItemFee l) (ItemEncodedSize r)) \<noteq> fst (Mul64 (ItemFee r) (ItemEncodedSize l))
       then fst (Mul64 (ItemFee l) (ItemEncodedSize r)) > fst (Mul64 (ItemFee r) (ItemEncodedSize l))
       else snd (Mul64 (ItemFee l) (ItemEncodedSize r)) > snd (Mul64 (ItemFee r) (ItemEncodedSize l)))"
      by (auto simp: higherMiningPriority_def case_prod_unfold prod_eq_iff)
    then show ?thesis using c(1) False by (simp add: higher_def rate_key_def)
  qed
qed

text \<open>On positive sizes the comparison is a strict weak order.\<close>

definition sized :: "miningMempoolItem \<Rightarrow> bool" where
  "sized i \<longleftrightarrow> ItemEncodedSize i \<noteq> 0"

lemma higher_asym: "higherMiningPriority a b \<Longrightarrow> \<not> higherMiningPriority b a"
  by (auto simp: higherMiningPriority_exact higher_def split: prod.splits)

lemma not_higher_trans:
  assumes "sized b" "\<not> higherMiningPriority b a" "\<not> higherMiningPriority c b" "sized a" "sized c"
  shows "\<not> higherMiningPriority c a"
proof -
  obtain fa sa ka fb sb kb fc sc kc where k: "rate_key a = (fa, sa, ka)" "rate_key b = (fb, sb, kb)" "rate_key c = (fc, sc, kc)"
    by (metis prod_cases3)
  have pos: "0 < sa" "0 < sb" "0 < sc" using assms(1,4,5) k by (auto simp: sized_def rate_key_def unat_gt_0)
  have ab: "fb * sa < fa * sb \<or> fb * sa = fa * sb \<and> (fb < fa \<or> fb = fa \<and> ka \<le> kb)"
    and bc: "fc * sb < fb * sc \<or> fc * sb = fb * sc \<and> (fc < fb \<or> fc = fb \<and> kb \<le> kc)"
    using assms(2,3) by (auto simp: higherMiningPriority_exact higher_def k not_less)
  have "fc * sb \<le> fb * sc" "fb * sa \<le> fa * sb" using ab bc by auto
  then have up: "fc * sb * sa \<le> fb * sc * sa" "fb * sa * sc \<le> fa * sb * sc" by (metis mult_le_mono1)+
  have ac: "fc * sa * sb = fc * sb * sa" "fb * sc * sa = fb * sa * sc" "fa * sb * sc = fa * sc * sb"
    by (simp_all only: mult_ac)
  show ?thesis
  proof (cases "fc * sb < fb * sc \<or> fb * sa < fa * sb")
    case True
    then have "fc * sb * sa < fb * sc * sa \<or> fb * sa * sc < fa * sb * sc" using pos by auto
    then have "fc * sa * sb < fa * sc * sb"
      unfolding ac(1) using up ac(2,3) by linarith
    then have "fc * sa < fa * sc" by simp
    then show ?thesis by (simp add: higherMiningPriority_exact higher_def k)
  next
    case False
    then have "fc * sb = fb * sc" "fb * sa = fa * sb" "fc < fb \<or> fc = fb \<and> kb \<le> kc" "fb < fa \<or> fb = fa \<and> ka \<le> kb"
      using ab bc by auto
    moreover from this have "fc * sa * sb = fa * sc * sb" by (metis mult.commute mult.left_commute)
    then have "fc * sa = fa * sc" using pos by simp
    ultimately show ?thesis by (auto simp: higherMiningPriority_exact higher_def k)
  qed
qed

section \<open>The heap\<close>

text \<open>\<open>above items a b\<close>: item \<open>a\<close> may stand over item \<open>b\<close>.\<close>

definition above :: "miningMempoolItem list \<Rightarrow> nat \<Rightarrow> nat \<Rightarrow> bool" where
  "above items a b \<longleftrightarrow> \<not> higherMiningPriority (items ! b) (items ! a)"

definition queued :: "miningMempoolItem list \<Rightarrow> nat list \<Rightarrow> bool" where
  "queued items q \<longleftrightarrow> (\<forall>x \<in> set q. x < length items) \<and> list_all sized items"

definition par :: "nat \<Rightarrow> nat" where
  "par k = (k - 1) div 2"

definition heap_ok :: "miningMempoolItem list \<Rightarrow> nat list \<Rightarrow> nat \<Rightarrow> bool" where
  "heap_ok items q n \<longleftrightarrow> (\<forall>k < n. 0 < k \<longrightarrow> above items (q ! par k) (q ! k))"

lemma above_refl [simp]: "above items a a"
  using higher_asym by (auto simp: above_def)

lemma above_trans:
  assumes "queued items q" "above items a b" "above items b c" "a \<in> set q" "b \<in> set q" "c \<in> set q"
  shows "above items a c"
proof -
  have "sized (items ! x)" if "x \<in> set q" for x
    using assms(1) that by (auto simp: queued_def list_all_length)
  then show ?thesis using not_higher_trans assms unfolding above_def by metis
qed

lemma par_less: "0 < k \<Longrightarrow> par k < k"
  by (simp add: par_def)

lemma par_children: "0 < k \<Longrightarrow> par k = i \<longleftrightarrow> k = 2 * i + 1 \<or> k = 2 * i + 2"
  unfolding par_def by presburger

lemma heapSwap_nth:
  "i < length q \<Longrightarrow> j < length q \<Longrightarrow> k < length q \<Longrightarrow> heapSwap q i j ! k = (if k = j then q ! i else if k = i then q ! j else q ! k)"
  by (simp add: heapSwap_def nth_list_update)

lemma heapSwap_length [simp]: "length (heapSwap q i j) = length q"
  by (simp add: heapSwap_def)

lemma heapSwap_mset: "i < length q \<Longrightarrow> j < length q \<Longrightarrow> mset (heapSwap q i j) = mset q"
  by (simp add: heapSwap_def mset_swap)

lemma queued_mset: "queued items q \<Longrightarrow> mset q' = mset q \<Longrightarrow> queued items q'"
  unfolding queued_def by (metis set_mset_mset)

lemma heapUp_heap:
  assumes "j < length q" "queued items q"
    and "\<forall>k < length q. 0 < k \<longrightarrow> k \<noteq> j \<longrightarrow> above items (q ! par k) (q ! k)"
    and "\<forall>k < length q. 0 < k \<longrightarrow> par k = j \<longrightarrow> 0 < j \<longrightarrow> above items (q ! par j) (q ! k)"
  shows "mset (heapUp items q j) = mset q \<and> heap_ok items (heapUp items q j) (length q)"
  using assms
proof (induction items q j rule: heapUp.induct)
  case (1 items q j)
  let ?i = "par j"
  have unf: "heapUp items q j = (if j = 0 \<or> \<not> heapLess items q j ?i then q else heapUp items (heapSwap q ?i j) ?i)"
    by (subst heapUp.simps) (simp add: par_def Let_def)
  show ?case
  proof (cases "j = 0 \<or> \<not> heapLess items q j ?i")
    case True
    have "above items (q ! par k) (q ! k)" if "k < length q" "0 < k" for k
      using True that 1(4) by (cases "k = j") (auto simp: above_def heapLess_def)
    then show ?thesis using True by (simp add: unf heap_ok_def)
  next
    case False
    then have j: "0 < j" "heapLess items q j ?i" by simp_all
    have i: "?i < j" "?i < length q" using par_less [OF j(1)] 1(2) by simp_all
    let ?q = "heapSwap q ?i j"
    note nth = heapSwap_nth [OF i(2) 1(2)]
    have ms: "mset ?q = mset q" by (rule heapSwap_mset [OF i(2) 1(2)])
    have up: "above items (q ! j) (q ! ?i)" using j(2) higher_asym by (auto simp: above_def heapLess_def)
    note tr = above_trans [OF 1(3) _ _ nth_mem nth_mem nth_mem]
    have a: "above items (?q ! par k) (?q ! k)" if k: "k < length q" "0 < k" "k \<noteq> ?i" for k
    proof -
      have p: "par k < length q" "par k < k" using par_less [OF k(2)] k(1) by simp_all
      consider "k = j" | "k \<noteq> j" "par k = j" | "k \<noteq> j" "par k = ?i" | "k \<noteq> j" "par k \<noteq> j" "par k \<noteq> ?i" by blast
      then show ?thesis
      proof cases
        case 1
        then show ?thesis using up i k by (simp add: nth)
      next
        case 2
        then show ?thesis using "1.prems"(1,4) k j(1) i by (simp add: nth)
      next
        case 3
        have "above items (q ! ?i) (q ! k)" using "1.prems"(3) k 3 by metis
        then have "above items (q ! j) (q ! k)" using tr [OF up] "1.prems"(1) i(2) k(1) by blast
        then show ?thesis using 3 k i by (simp add: nth)
      next
        case 4
        then show ?thesis using "1.prems"(3) k p by (simp add: nth)
      qed
    qed
    have b: "above items (?q ! par ?i) (?q ! k)" if k: "k < length q" "0 < k" "par k = ?i" "0 < ?i" for k
    proof -
      have p: "par ?i < ?i" "par ?i < length q" using par_less [OF k(4)] i(2) by simp_all
      have c: "above items (q ! par ?i) (q ! ?i)" using "1.prems"(3) i k(4) by simp
      show ?thesis
      proof (cases "k = j")
        case True
        then show ?thesis using c p i k(1) by (simp add: nth)
      next
        case False
        then have "above items (q ! ?i) (q ! k)" using "1.prems"(3) k by metis
        then have "above items (q ! par ?i) (q ! k)" using tr [OF c] p(2) i(2) k(1) by blast
        moreover have "k \<noteq> ?i" using par_less [OF k(2)] k(3) by simp
        ultimately show ?thesis using False p i k by (simp add: nth)
      qed
    qed
    have "mset (heapUp items ?q ?i) = mset ?q \<and> heap_ok items (heapUp items ?q ?i) (length ?q)"
      using "1.IH" [OF refl] False i(2) queued_mset [OF "1.prems"(2) ms] a b by (simp add: par_def)
    then show ?thesis using False ms by (simp add: unf)
  qed
qed

lemma heapPush_ok:
  assumes "queued items q" "heap_ok items q (length q)" "x < length items"
  shows "mset (heapPush items q x) = add_mset x (mset q)" "heap_ok items (heapPush items q x) (Suc (length q))"
proof -
  have "above items ((q @ [x]) ! par k) ((q @ [x]) ! k)" if "k < length (q @ [x])" "0 < k" "k \<noteq> length q" for k
    using that assms(2) par_less [OF that(2)] by (simp add: nth_append heap_ok_def)
  moreover have "\<not> (0 < k \<and> par k = length q)" if "k < length (q @ [x])" for k
    using that par_less [of k] by auto
  ultimately show "mset (heapPush items q x) = add_mset x (mset q)" "heap_ok items (heapPush items q x) (Suc (length q))"
    using heapUp_heap [of "length q" "q @ [x]" items] assms(1,3) unfolding heapPush_def by (auto simp: queued_def)
qed

lemma heapDown_heap:
  assumes "n \<le> length q" "i < length q" "queued items q"
    and "\<forall>k < n. 0 < k \<longrightarrow> par k \<noteq> i \<longrightarrow> above items (q ! par k) (q ! k)"
    and "\<forall>k < n. 0 < k \<longrightarrow> par k = i \<longrightarrow> 0 < i \<longrightarrow> above items (q ! par i) (q ! k)"
  shows "mset (heapDown items q i n) = mset q \<and> heap_ok items (heapDown items q i n) n \<and>
    (\<forall>k < length q. n \<le> k \<longrightarrow> heapDown items q i n ! k = q ! k)"
  using assms
proof (induction items q i n rule: heapDown.induct)
  case (1 items q i n)
  let ?j1 = "2 * i + 1" and ?j2 = "2 * i + 2"
  define j where "j = (if ?j2 < n \<and> heapLess items q ?j2 ?j1 then ?j2 else ?j1)"
  have jd: "j = (if 2 * i + 1 + 1 < n \<and> heapLess items q (2 * i + 1 + 1) (2 * i + 1) then 2 * i + 1 + 1 else 2 * i + 1)"
    by (simp add: j_def)
  have unf: "heapDown items q i n = (if ?j1 \<ge> n then q else if \<not> heapLess items q j i then q
      else heapDown items (heapSwap q i j) j n)"
    by (subst heapDown.simps) (simp add: Let_def j_def)
  have kids: "k = ?j1 \<or> k = ?j2" if "0 < k" "par k = i" for k using par_children [OF that(1)] that(2) by blast
  show ?case
  proof (cases "?j1 \<ge> n")
    case True
    have "above items (q ! par k) (q ! k)" if "k < n" "0 < k" for k
      using True that kids [OF that(2)] "1.prems"(4) by (cases "par k = i") auto
    then show ?thesis using True by (simp add: unf heap_ok_def)
  next
    case False
    have j: "j < n" "j < length q" "0 < j" "par j = i" "i < j"
      using False "1.prems"(1) by (auto simp: j_def par_def)
    note tr = above_trans [OF "1.prems"(3) _ _ nth_mem nth_mem nth_mem]
    have best: "above items (q ! j) (q ! k)" if k: "k < n" "0 < k" "par k = i" for k
      using kids [OF k(2,3)] k(1) higher_asym by (auto simp: j_def above_def heapLess_def)
    show ?thesis
    proof (cases "heapLess items q j i")
      case stop: False
      have "above items (q ! par k) (q ! k)" if k: "k < n" "0 < k" for k
      proof (cases "par k = i")
        case True
        have "above items (q ! i) (q ! j)" using stop by (simp add: above_def heapLess_def)
        then show ?thesis using tr [OF _ best [OF k True]] "1.prems"(1,2) j(2) k(1) True by simp
      qed (use "1.prems"(4) k in blast)
      then show ?thesis using False stop by (simp add: unf heap_ok_def)
    next
      case swap: True
      let ?q = "heapSwap q i j"
      note nth = heapSwap_nth [OF "1.prems"(2) j(2)]
      have ms: "mset ?q = mset q" by (rule heapSwap_mset [OF "1.prems"(2) j(2)])
      have up: "above items (q ! j) (q ! i)" using swap higher_asym by (auto simp: above_def heapLess_def)
      have a: "above items (?q ! par k) (?q ! k)" if k: "k < n" "0 < k" "par k \<noteq> j" for k
      proof -
        have p: "par k < length q" "k < length q" "par k < k" using par_less [OF k(2)] k(1) "1.prems"(1) by simp_all
        consider "k = j" | "k \<noteq> j" "par k = i" | "k = i" "par k \<noteq> i" | "k \<noteq> i" "k \<noteq> j" "par k \<noteq> i" by blast
        then show ?thesis
        proof cases
          case 1
          then show ?thesis using up j p by (simp add: nth)
        next
          case 2
          then show ?thesis using best [OF k(1,2) 2(2)] j k p by (auto simp: nth)
        next
          case 3
          then have "above items (q ! par i) (q ! j)" using "1.prems"(5) j k by auto
          then show ?thesis using 3 j k p by (simp add: nth)
        next
          case 4
          then show ?thesis using "1.prems"(4) k p by (simp add: nth)
        qed
      qed
      have b: "above items (?q ! par j) (?q ! k)" if k: "k < n" "0 < k" "par k = j" for k
      proof -
        have "above items (q ! j) (q ! k)" using "1.prems"(4) k j(4,5) by auto
        moreover have "k \<noteq> j" "k \<noteq> i" using par_less [OF k(2)] k(3) j(5) by auto
        ultimately show ?thesis using j k "1.prems"(1,2) by (simp add: nth)
      qed
      have "mset (heapDown items ?q j n) = mset ?q \<and> heap_ok items (heapDown items ?q j n) n \<and>
          (\<forall>k < length ?q. n \<le> k \<longrightarrow> heapDown items ?q j n ! k = ?q ! k)"
        by (rule "1.IH" [OF refl False refl jd]) (use swap "1.prems"(1) j(2) queued_mset [OF "1.prems"(3) ms] a b in simp_all)
      moreover have "?q ! k = q ! k" if "k < length q" "n \<le> k" for k
        using that j by (simp add: nth)
      ultimately show ?thesis using False swap ms by (simp add: unf)
    qed
  qed
qed

lemma heap_root:
  assumes "queued items q" "heap_ok items q (length q)" "k < length q"
  shows "above items (q ! 0) (q ! k)"
  using assms(3)
proof (induction k rule: less_induct)
  case (less k)
  show ?case
  proof (cases "k = 0")
    case False
    then have p: "par k < k" by (simp add: par_less)
    then have "above items (q ! 0) (q ! par k)" using less by simp
    moreover have "above items (q ! par k) (q ! k)" using assms(2) less.prems False by (simp add: heap_ok_def)
    ultimately show ?thesis by (rule above_trans [OF assms(1)]) (use less.prems p in \<open>auto intro: nth_mem\<close>)
  qed simp
qed

text \<open>Popping yields an entry that may stand over every other, and leaves a heap of the rest.\<close>

lemma heapPop_ok:
  assumes "queued items q" "heap_ok items q (length q)" "q \<noteq> []" "heapPop items q = (x, q')"
  shows "mset q = add_mset x (mset q')" "heap_ok items q' (length q')" "\<forall>y \<in> set q. above items x y"
    "length q = Suc (length q')"
proof -
  let ?n = "length q - 1" and ?q = "heapSwap q 0 (length q - 1)"
  let ?r = "heapDown items ?q 0 ?n"
  have n: "0 < length q" "?n < length q" using assms(3) by simp_all
  have ms: "mset ?q = mset q" by (rule heapSwap_mset [OF n])
  have "above items (?q ! par k) (?q ! k)" if "k < ?n" "0 < k" "par k \<noteq> 0" for k
  proof -
    have "par k < length q" "k < length q" "par k \<noteq> ?n" "k \<noteq> ?n" "k \<noteq> 0" using that par_less [OF that(2)] by simp_all
    then show ?thesis using that assms(2) by (simp add: heapSwap_nth [OF n, unfolded One_nat_def] heap_ok_def)
  qed
  then have r: "mset ?r = mset ?q" "heap_ok items ?r ?n" "?r ! ?n = ?q ! ?n"
    using heapDown_heap [of ?n ?q 0 items] n queued_mset [OF assms(1) ms] by auto
  have len: "length ?r = length q" using r(1) ms by (metis size_mset)
  have pop: "x = last ?r" "q' = butlast ?r" using assms(4) by (auto simp: heapPop_def Let_def)
  have ne: "?r \<noteq> []" using len n(1) by auto
  then have rq: "?r = q' @ [x]" using pop by simp
  then show "mset q = add_mset x (mset q')" using r(1) ms unfolding rq by simp
  show l: "length q = Suc (length q')" using len pop n(1) by simp
  show "heap_ok items q' (length q')"
    unfolding heap_ok_def
  proof (intro allI impI)
    fix k assume k: "k < length q'" "0 < k"
    then have "par k < length q'" using par_less [OF k(2)] by simp
    moreover have "above items ((q' @ [x]) ! par k) ((q' @ [x]) ! k)" using r(2) l k unfolding rq by (simp add: heap_ok_def)
    ultimately show "above items (q' ! par k) (q' ! k)" using k(1) by (simp add: nth_append)
  qed
  have "x = ?r ! ?n" using rq l by simp
  then have "x = q ! 0" using r(3) n by (simp add: heapSwap_nth [OF n, unfolded One_nat_def])
  then show "\<forall>y \<in> set q. above items x y" using heap_root [OF assms(1,2)] by (auto simp: in_set_conv_nth)
qed

section \<open>Parents before children\<close>

text \<open>The edges: one pair \<open>(parent, child)\<close> for each input that spends an output of another item.\<close>

definition edges :: "miningMempoolItem list \<Rightarrow> (string \<times> nat) list \<Rightarrow> (nat \<times> nat) list" where
  "edges items byID = concat (map (\<lambda>(child, input). case map_of byID (InTxID input) of None \<Rightarrow> [] | Some parent \<Rightarrow> [(parent, child)])
     (concat (map (\<lambda>(child, item). map (Pair child) (Inputs (ItemTransaction item))) (List.enumerate 0 items))))"

definition pending_parents :: "(nat \<times> nat) list \<Rightarrow> nat set \<Rightarrow> nat \<Rightarrow> nat" where
  "pending_parents es placed c = length (filter (\<lambda>(p, c'). c' = c \<and> p \<notin> placed) es)"

lemma indexItems_loop:
  "foldE (\<lambda>byID (index, item).
       if ID (ItemTransaction item) = [] \<or> ItemEncodedSize item = 0
       then Inl (Errorf ''mining mempool contains invalid transaction metadata'')
       else if map_of byID (ID (ItemTransaction item)) \<noteq> None
       then Inl (Errorf ''mining mempool contains duplicate transaction'')
       else Inr ((ID (ItemTransaction item), index) # byID)) acc (List.enumerate n items) = Inr byID \<longleftrightarrow>
     list_all (\<lambda>i. ID (ItemTransaction i) \<noteq> [] \<and> sized i) items \<and>
     distinct (map (ID \<circ> ItemTransaction) items) \<and> (ID \<circ> ItemTransaction) ` set items \<inter> fst ` set acc = {} \<and>
     byID = rev (map (\<lambda>(index, item). (ID (ItemTransaction item), index)) (List.enumerate n items)) @ acc"
proof (induction items arbitrary: n acc)
  case (Cons i items)
  show ?case
  proof (cases "ID (ItemTransaction i) = [] \<or> ItemEncodedSize i = 0 \<or> map_of acc (ID (ItemTransaction i)) \<noteq> None")
    case True
    then show ?thesis by (auto simp: sized_def map_of_eq_None_iff)
  next
    case False
    then have "ID (ItemTransaction i) \<notin> fst ` set acc" by (simp add: map_of_eq_None_iff)
    then show ?thesis using False Cons [where n = "Suc n" and acc = "(ID (ItemTransaction i), n) # acc"]
      by (simp add: sized_def del: not_None_eq) (auto simp: sized_def)
  qed
qed auto

lemma indexItems_ok:
  assumes "indexItems items = Inr byID"
  shows "list_all sized items" "distinct (map (ID \<circ> ItemTransaction) items)"
    "map_of byID i = Some k \<longleftrightarrow> k < length items \<and> ID (ItemTransaction (items ! k)) = i"
proof -
  let ?xs = "map (\<lambda>(index, item). (ID (ItemTransaction item), index)) (List.enumerate 0 items)"
  note l = indexItems_loop [of "[]" 0 items byID]
  have r: "list_all sized items" "distinct (map (ID \<circ> ItemTransaction) items)" "byID = rev ?xs"
    using assms l unfolding indexItems_def by (auto simp: list_all_iff)
  then show "list_all sized items" "distinct (map (ID \<circ> ItemTransaction) items)" by simp_all
  have f: "map fst ?xs = map (ID \<circ> ItemTransaction) items"
    by (rule nth_equalityI) (simp_all add: nth_enumerate_eq)
  have "distinct (map fst (rev ?xs))" using r(2) unfolding rev_map [symmetric] f by simp
  then have "map_of byID i = Some k \<longleftrightarrow> (i, k) \<in> set ?xs" using r(3) by simp
  also have "\<dots> \<longleftrightarrow> k < length items \<and> ID (ItemTransaction (items ! k)) = i"
    by (auto simp: in_set_enumerate_eq image_iff intro!: bexI [of _ "(k, items ! k)"])
  finally show "map_of byID i = Some k \<longleftrightarrow> k < length items \<and> ID (ItemTransaction (items ! k)) = i" .
qed

lemma edges_bound:
  assumes "indexItems items = Inr byID" "(p, c) \<in> set (edges items byID)"
  shows "p < length items" "c < length items"
    "\<exists>input \<in> set (Inputs (ItemTransaction (items ! c))). InTxID input = ID (ItemTransaction (items ! p))"
  using assms(2) indexItems_ok(3) [OF assms(1)] eq_commute [of "Some p"]
  by (auto simp: edges_def in_set_enumerate_eq split: option.splits)

lemma edges_complete:
  assumes "indexItems items = Inr byID" "c < length items" "p < length items"
    "input \<in> set (Inputs (ItemTransaction (items ! c)))" "InTxID input = ID (ItemTransaction (items ! p))"
  shows "(p, c) \<in> set (edges items byID)"
proof -
  have "map_of byID (InTxID input) = Some p" using indexItems_ok(3) [OF assms(1)] assms(3,5) by simp
  moreover have "(c, items ! c) \<in> set (List.enumerate 0 items)" using assms(2) by (simp add: in_set_enumerate_eq)
  ultimately show ?thesis using assms(4) unfolding edges_def by force
qed

text \<open>The two lists the loop over the inputs fills: counts of parents and the children of each item.\<close>

lemma dependencies_loop:
  assumes "\<forall>(c, input) \<in> set xs. c < n \<and> (\<forall>p. map_of byID (InTxID input) = Some p \<longrightarrow> p < n)"
    and "length indeg = n" "length children = n"
  shows "foldl (addDependency byID) (indeg, children) xs =
    (let es = concat (map (\<lambda>(child, input). case map_of byID (InTxID input) of None \<Rightarrow> [] | Some parent \<Rightarrow> [(parent, child)]) xs) in
     (map (\<lambda>c. indeg ! c + length (filter (\<lambda>(_, c'). c' = c) es)) [0..<n],
      map (\<lambda>p. children ! p @ map snd (filter (\<lambda>(p', _). p' = p) es)) [0..<n]))"
  using assms
proof (induction xs arbitrary: indeg children)
  case Nil
  have "indeg = map (\<lambda>c. indeg ! c) [0..<n]" "children = map (\<lambda>c. children ! c) [0..<n]"
    using map_nth [of indeg] map_nth [of children] Nil by simp_all
  then show ?case by simp
next
  case (Cons x xs)
  obtain c input where x: "x = (c, input)" by (cases x)
  show ?case
  proof (cases "map_of byID (InTxID input)")
    case None
    then show ?thesis using Cons by (simp add: x addDependency_def)
  next
    case (Some p)
    then have b: "c < n" "p < n" using Cons.prems(1) by (auto simp: x)
    let ?i = "indeg[c := indeg ! c + 1]" and ?k = "children[p := children ! p @ [c]]"
    have step: "addDependency byID (indeg, children) x = (?i, ?k)" by (simp add: x addDependency_def Some)
    have "foldl (addDependency byID) (?i, ?k) xs =
      (let es = concat (map (\<lambda>(child, input). case map_of byID (InTxID input) of None \<Rightarrow> [] | Some parent \<Rightarrow> [(parent, child)]) xs) in
       (map (\<lambda>c. ?i ! c + length (filter (\<lambda>(_, c'). c' = c) es)) [0..<n],
        map (\<lambda>p. ?k ! p @ map snd (filter (\<lambda>(p', _). p' = p) es)) [0..<n]))"
      by (rule Cons.IH) (use Cons.prems in auto)
    then show ?thesis using b Cons.prems(2,3)
      by (auto simp: step [unfolded x] x Some Let_def nth_list_update simp del: upt_Suc)
  qed
qed

lemma dependencies_ok:
  assumes "indexItems items = Inr byID"
  shows "dependencies items byID =
    (map (pending_parents (edges items byID) {}) [0..<length items],
     map (\<lambda>p. map snd (filter (\<lambda>(p', _). p' = p) (edges items byID))) [0..<length items])"
proof -
  let ?xs = "concat (map (\<lambda>(childIndex, item). map (Pair childIndex) (Inputs (ItemTransaction item))) (List.enumerate 0 items))"
  have b: "\<forall>(c, input) \<in> set ?xs. c < length items \<and> (\<forall>p. map_of byID (InTxID input) = Some p \<longrightarrow> p < length items)"
    using indexItems_ok(3) [OF assms] by (auto simp: in_set_enumerate_eq)
  have "(\<lambda>(x, c'). c' = c) = (\<lambda>(p, c'). c' = c \<and> p \<notin> {})" for c :: nat by simp
  then show ?thesis
    using dependencies_loop [OF b, of "replicate (length items) 0" "replicate (length items) []"]
    by (simp add: dependencies_def edges_def Let_def pending_parents_def cong: map_cong)
qed

section \<open>The queue of released transactions\<close>

definition children_of :: "(nat \<times> nat) list \<Rightarrow> nat \<Rightarrow> nat list" where
  "children_of es p = map snd (filter (\<lambda>(p', _). p' = p) es)"

lemma pending_parents_place:
  assumes "x \<notin> placed"
  shows "pending_parents es placed c = pending_parents es (insert x placed) c + count_list (children_of es x) c"
  using assms by (induction es) (auto simp: pending_parents_def children_of_def)

lemma pending_parents_0: "pending_parents es placed c = 0 \<longleftrightarrow> (\<forall>(p, c') \<in> set es. c' = c \<longrightarrow> p \<in> placed)"
  by (auto simp: pending_parents_def filter_empty_conv)

text \<open>Releasing the children of a placed transaction queues each whose last parent it was.\<close>

lemma release_loop:
  assumes "foldl (releaseChild items) (indeg, q) cs = (indeg', q')"
    and "length indeg = n" "n = length items" "\<forall>c \<in> set cs. c < n" "\<forall>c < n. indeg ! c = tgt c + count_list cs c"
    and "queued items q" "heap_ok items q (length q)" "distinct q" "set cs \<inter> set q = {}"
  shows "length indeg' = n \<and> (\<forall>c < n. indeg' ! c = tgt c) \<and> queued items q' \<and> heap_ok items q' (length q') \<and>
    distinct q' \<and> set q' = set q \<union> {c \<in> set cs. tgt c = 0}"
  using assms
proof (induction cs arbitrary: indeg q)
  case (Cons c cs)
  let ?i = "indeg[c := indeg ! c - 1]" and ?q = "if indeg ! c - 1 = 0 then heapPush items q c else q"
  have c: "c < n" "c \<notin> set q" using Cons.prems by auto
  have ic: "indeg ! c = tgt c + Suc (count_list cs c)" using Cons.prems(5) c(1) by simp
  have step: "releaseChild items (indeg, q) c = (?i, ?q)"
    using c(1) Cons.prems(2) by (simp add: releaseChild_def Let_def)
  have run: "foldl (releaseChild items) (?i, ?q) cs = (indeg', q')"
    using Cons.prems(1) by (simp only: foldl.simps step)
  have tgt: "\<forall>c < n. ?i ! c = tgt c + count_list cs c"
    using Cons.prems(2,5) c(1) by (auto simp: nth_list_update)
  have zero: "indeg ! c - 1 = 0 \<longleftrightarrow> tgt c = 0 \<and> c \<notin> set cs"
    using ic by (simp add: count_list_0_iff)
  note push = heapPush_ok [OF Cons.prems(6,7), of c]
  show ?case
  proof (cases "indeg ! c - 1 = 0")
    case True
    note p = push [folded Cons.prems(3), OF c(1)]
    have "mset (heapPush items q c) = mset (c # q)" using p(1) by simp
    then have q: "set (heapPush items q c) = insert c (set q)" "distinct (heapPush items q c)" "length (heapPush items q c) = Suc (length q)"
      using Cons.prems(8) c(2) by (metis list.simps(15) set_mset_mset, metis distinct.simps(2) mset_eq_imp_distinct_iff,
        metis length_Cons size_mset)
    have "queued items (heapPush items q c)" using Cons.prems(3,6) c(1) q(1) by (auto simp: queued_def)
    then show ?thesis
      using Cons.IH [OF run _ Cons.prems(3) _ tgt] Cons.prems(2,4,9) p(2) q zero True by auto
  next
    case False
    then show ?thesis
      using Cons.IH [OF run _ Cons.prems(3) _ tgt] Cons.prems(2,4,6-9) zero by auto
  qed
qed auto

definition placed_well :: "miningMempoolItem list \<Rightarrow> (nat \<times> nat) list \<Rightarrow> nat list \<Rightarrow> bool" where
  "placed_well items es order \<longleftrightarrow>
     (\<forall>k < length order. (\<forall>(p, c) \<in> set es. c = order ! k \<longrightarrow> p \<in> set (take k order)) \<and>
        (\<forall>c < length items. c \<notin> set (take k order) \<longrightarrow> (\<forall>(p, c') \<in> set es. c' = c \<longrightarrow> p \<in> set (take k order)) \<longrightarrow>
           above items (order ! k) c))"

definition drain_inv :: "miningMempoolItem list \<Rightarrow> (nat \<times> nat) list \<Rightarrow> nat list \<times> nat list \<times> nat list \<Rightarrow> bool" where
  "drain_inv items es st \<longleftrightarrow> (case st of (indeg, q, order) \<Rightarrow>
     length indeg = length items \<and> (\<forall>c < length items. indeg ! c = pending_parents es (set order) c) \<and>
     queued items q \<and> heap_ok items q (length q) \<and> distinct (order @ q) \<and> set order \<subseteq> {..<length items} \<and>
     (\<forall>c < length items. c \<in> set order \<union> set q \<longleftrightarrow> pending_parents es (set order) c = 0) \<and>
     placed_well items es order)"

lemma drain_step:
  assumes inv: "drain_inv items es (indeg, q, order)" and ne: "q \<noteq> []"
    and es: "\<forall>(p, c) \<in> set es. p < length items \<and> c < length items"
    and pop: "heapPop items q = (x, q1)" and rel: "foldl (releaseChild items) (indeg, q1) (children_of es x) = (indeg', q')"
  shows "drain_inv items es (indeg', q', order @ [x])"
proof -
  let ?n = "length items"
  have i: "length indeg = ?n" "\<forall>c < ?n. indeg ! c = pending_parents es (set order) c" "queued items q" "heap_ok items q (length q)"
    "distinct (order @ q)" "set order \<subseteq> {..<?n}" "\<forall>c < ?n. c \<in> set order \<union> set q \<longleftrightarrow> pending_parents es (set order) c = 0"
    "placed_well items es order"
    using inv by (simp_all add: drain_inv_def)
  note h = heapPop_ok [OF i(3,4) ne pop]
  have "mset q = mset (x # q1)" using h(1) by simp
  then have sq: "set q = insert x (set q1)" and dq: "distinct (x # q1)"
    using i(5) by (metis list.simps(15) set_mset_mset, metis distinct_append mset_eq_imp_distinct_iff)
  have x: "x \<notin> set order" "x < ?n" using i(3,5) sq by (auto simp: queued_def)
  have q1: "queued items q1" "distinct q1" using i(3) sq dq by (auto simp: queued_def)
  have kids: "\<forall>c \<in> set (children_of es x). c < ?n" using es by (auto simp: children_of_def)
  have pp: "\<forall>c < ?n. indeg ! c = pending_parents es (insert x (set order)) c + count_list (children_of es x) c"
    using i(2) pending_parents_place [OF x(1)] by simp
  have wait: "set (children_of es x) \<inter> (set order \<union> set q) = {}"
  proof -
    have "pending_parents es (set order) c \<noteq> 0" if "c \<in> set (children_of es x)" for c
      using that x(1) by (auto simp: children_of_def pending_parents_0)
    then show ?thesis using i(7) kids by blast
  qed
  have "set (children_of es x) \<inter> set q1 = {}" using wait sq by blast
  note r = release_loop [OF rel i(1) refl kids pp q1(1) h(2) q1(2) this]
  have r': "length indeg' = ?n" "\<forall>c < ?n. indeg' ! c = pending_parents es (insert x (set order)) c" "queued items q'"
    "heap_ok items q' (length q')" "distinct q'"
    "set q' = set q1 \<union> {c \<in> set (children_of es x). pending_parents es (insert x (set order)) c = 0}"
    using r by blast+
  have "c \<in> set (order @ [x]) \<union> set q' \<longleftrightarrow> pending_parents es (insert x (set order)) c = 0" if "c < ?n" for c
  proof -
    have old: "c \<in> set (order @ [x]) \<union> set q1 \<longleftrightarrow> pending_parents es (set order) c = 0" using i(7) that sq by auto
    show ?thesis
    proof (cases "c \<in> set (children_of es x)")
      case True
      then have "c \<notin> set order \<union> set q" using wait by blast
      then show ?thesis using True unfolding r'(6) sq by simp
    next
      case False
      then have "pending_parents es (set order) c = pending_parents es (insert x (set order)) c"
        using pending_parents_place [OF x(1), of es c] by (simp add: count_list_0_iff)
      then show ?thesis using old False unfolding r'(6) by simp
    qed
  qed
  moreover have "distinct ((order @ [x]) @ q')" using i(5) r'(5,6) wait sq dq by auto
  moreover have "placed_well items es (order @ [x])"
  proof -
    have p0: "pending_parents es (set order) x = 0" using i(7) x(2) sq by auto
    have best: "above items x c" if "c < ?n" "c \<notin> set order" "pending_parents es (set order) c = 0" for c
      using i(7) that h(3) by auto
    show ?thesis
      unfolding placed_well_def
    proof (intro allI impI)
      fix k assume "k < length (order @ [x])"
      then consider "k < length order" | "k = length order" by fastforce
      then show "(\<forall>(p, c) \<in> set es. c = (order @ [x]) ! k \<longrightarrow> p \<in> set (take k (order @ [x]))) \<and>
        (\<forall>c < ?n. c \<notin> set (take k (order @ [x])) \<longrightarrow> (\<forall>(p, c') \<in> set es. c' = c \<longrightarrow> p \<in> set (take k (order @ [x]))) \<longrightarrow>
           above items ((order @ [x]) ! k) c)"
      proof cases
        case 1
        then have "(order @ [x]) ! k = order ! k" "take k (order @ [x]) = take k order" by (simp_all add: nth_append)
        then show ?thesis using i(8) 1 unfolding placed_well_def by metis
      next
        case 2
        then have "(order @ [x]) ! k = x" "take k (order @ [x]) = order" by simp_all
        then show ?thesis using p0 best unfolding pending_parents_0 by metis
      qed
    qed
  qed
  ultimately show ?thesis using r' i(6) x(2) by (simp add: drain_inv_def)
qed

text \<open>The number of items bounds the rounds: the queue is empty when the loop ends.\<close>

lemma drainQueue_enough:
  assumes "drain_inv items es (indeg, q, order)" "\<forall>(p, c) \<in> set es. p < length items \<and> c < length items"
    and "children = map (children_of es) [0..<length items]"
    and "length items \<le> m + length order" "drainQueue items children m (indeg, q, order) = (indeg', q', order')"
  shows "drain_inv items es (indeg', q', order') \<and> q' = []"
  using assms
proof (induction m arbitrary: indeg q order)
  case 0
  have i: "distinct (order @ q)" "set order \<subseteq> {..<length items}" "queued items q"
    using 0(1) by (simp_all add: drain_inv_def)
  have "set (order @ q) \<subseteq> {..<length items}" using i by (auto simp: queued_def)
  then have "card (set (order @ q)) \<le> card {..<length items}" by (rule card_mono [rotated]) simp
  then have "length order + length q \<le> length items" using distinct_card [OF i(1)] by simp
  then have "length q = 0" using 0(4) by linarith
  then show ?case using 0 by simp
next
  case (Suc m)
  show ?case
  proof (cases "q = []")
    case True
    then show ?thesis using Suc.prems by simp
  next
    case False
    obtain x q1 where pop: "heapPop items q = (x, q1)" by fastforce
    have "queued items q" "heap_ok items q (length q)" using Suc.prems(1) by (simp_all add: drain_inv_def)
    from heapPop_ok(1) [OF this False pop] have "x \<in> set q" by (metis set_mset_mset union_single_eq_member)
    then have x: "x < length items" using Suc.prems(1) by (auto simp: drain_inv_def queued_def)
    obtain indeg1 q2 where rel: "foldl (releaseChild items) (indeg, q1) (children_of es x) = (indeg1, q2)" by fastforce
    have "drainQueue items children m (indeg1, q2, order @ [x]) = (indeg', q', order')"
      using Suc.prems(5) False pop rel x by (simp add: Suc.prems(3))
    then show ?thesis
      using Suc.IH [OF drain_step [OF Suc.prems(1) False Suc.prems(2) pop rel] Suc.prems(2,3)] Suc.prems(4) by auto
  qed
qed

section \<open>The mining order\<close>

lemma push_all:
  assumes "queued items q" "heap_ok items q (length q)" "\<forall>x \<in> set xs. x < length items"
  shows "queued items (foldl (heapPush items) q xs) \<and> mset (foldl (heapPush items) q xs) = mset q + mset xs \<and>
    heap_ok items (foldl (heapPush items) q xs) (length (foldl (heapPush items) q xs))"
  using assms
proof (induction xs arbitrary: q)
  case (Cons x xs)
  note p = heapPush_ok [OF Cons.prems(1,2), of x]
  have ms: "mset (heapPush items q x) = mset (x # q)" using p(1) Cons.prems(3) by simp
  then have l: "length (heapPush items q x) = Suc (length q)" by (metis length_Cons size_mset)
  have "queued items (x # q)" using Cons.prems(1,3) by (simp add: queued_def)
  from queued_mset [OF this ms] have "queued items (heapPush items q x)" .
  then show ?case using Cons.IH [of "heapPush items q x"] p(2) l ms Cons.prems(3) by simp
qed simp

lemma heap_ok_Nil [simp]: "heap_ok items [] 0"
  by (simp add: heap_ok_def)

lemma drain_all:
  assumes idx: "indexItems items = Inr byID"
  shows "\<exists>indeg' order. (case dependencies items byID of (indegree, children) \<Rightarrow>
     drainQueue items children (length items)
       (indegree, foldl (heapPush items) [] (filter (\<lambda>index. indegree ! index = 0) [0..<length items]), [])) = (indeg', [], order) \<and>
     drain_inv items (edges items byID) (indeg', [], order)"
proof -
  let ?n = "length items" and ?es = "edges items byID"
  let ?indeg = "map (pending_parents ?es {}) [0..<?n]" and ?kids = "map (children_of ?es) [0..<?n]"
  let ?free = "filter (\<lambda>index. ?indeg ! index = 0) [0..<?n]"
  let ?q = "foldl (heapPush items) [] ?free"
  have dep: "dependencies items byID = (?indeg, ?kids)"
    using dependencies_ok [OF idx] by (simp add: children_of_def)
  have "queued items []" using indexItems_ok(1) [OF idx] by (simp add: queued_def)
  then have q: "queued items ?q" "mset ?q = mset ?free" "heap_ok items ?q (length ?q)"
    using push_all [of items "[]" ?free] by simp_all
  have "set ?q = set ?free" "distinct ?q"
    using q(2) by (metis set_mset_mset, metis distinct_filter distinct_upt mset_eq_imp_distinct_iff)
  then have start: "drain_inv items ?es (?indeg, ?q, [])"
    using q by (auto simp: drain_inv_def placed_well_def)
  have bound: "\<forall>(p, c) \<in> set ?es. p < ?n \<and> c < ?n" using edges_bound(1,2) [OF idx] by fast
  obtain indeg' q' order where run: "drainQueue items ?kids ?n (?indeg, ?q, []) = (indeg', q', order)"
    by (metis prod_cases3)
  have "drain_inv items ?es (indeg', q', order) \<and> q' = []"
    by (rule drainQueue_enough [OF start bound refl _ run]) simp
  then show ?thesis using run unfolding dep prod.case by blast
qed

text \<open>The order the queue produces: a permutation, parents first, greedy in the fee rate.\<close>

definition spends_item :: "transaction \<Rightarrow> transaction \<Rightarrow> bool" where
  "spends_item child parent \<longleftrightarrow> (\<exists>input \<in> set (Inputs child). InTxID input = ID parent)"

definition greedy_order :: "miningMempoolItem list \<Rightarrow> bool" where
  "greedy_order items \<longleftrightarrow>
     (\<forall>j < length items. \<forall>k < length items. spends_item (ItemTransaction (items ! k)) (ItemTransaction (items ! j)) \<longrightarrow> j < k) \<and>
     (\<forall>k < length items. \<forall>c < length items. k \<le> c \<longrightarrow>
        (\<forall>j < length items. spends_item (ItemTransaction (items ! c)) (ItemTransaction (items ! j)) \<longrightarrow> j < k) \<longrightarrow>
        \<not> higherMiningPriority (items ! c) (items ! k))"

lemma full_order:
  assumes idx: "indexItems items = Inr byID" and inv: "drain_inv items (edges items byID) (indeg, [], order)"
    and full: "length order = length items"
  shows "mset (map (nth items) order) = mset items" "greedy_order (map (nth items) order)"
proof -
  let ?n = "length items" and ?es = "edges items byID"
  have o: "distinct order" "set order \<subseteq> {..<?n}" "placed_well items ?es order"
    using inv by (simp_all add: drain_inv_def)
  have "card (set order) = ?n" using distinct_card [OF o(1)] full by simp
  then have set: "set order = {..<?n}" using o(2) by (metis card_lessThan card_subset_eq finite_lessThan)
  have "mset order = mset [0..<?n]"
    using o(1) set by (metis atLeast_upt distinct_upt set_eq_iff_mset_eq_distinct)
  then have "image_mset (nth items) (mset order) = image_mset (nth items) (mset [0..<?n])" by simp
  then show "mset (map (nth items) order) = mset items" by (metis map_nth mset_map)
  have lt: "order ! k < ?n" if "k < ?n" for k using o(2) that full by (metis lessThan_iff nth_mem subsetD)
  have edge: "(order ! j, order ! k) \<in> set ?es \<longleftrightarrow> spends_item (ItemTransaction (items ! (order ! k))) (ItemTransaction (items ! (order ! j)))"
    if "j < ?n" "k < ?n" for j k
    using edges_bound(3) [OF idx] edges_complete [OF idx lt [OF that(2)] lt [OF that(1)]]
    by (fastforce simp: spends_item_def)
  have pos: "order ! j \<in> set (take k order) \<longleftrightarrow> j < k" if "j < ?n" "k < ?n" for j k
    using o(1) that full by (auto simp: in_set_conv_nth nth_eq_iff_index_eq)
  have "j < k" if "j < ?n" "k < ?n" "spends_item (ItemTransaction (items ! (order ! k))) (ItemTransaction (items ! (order ! j)))" for j k
  proof -
    have "(order ! j, order ! k) \<in> set ?es" using edge [OF that(1,2)] that(3) by blast
    moreover have "\<forall>(p, c) \<in> set ?es. c = order ! k \<longrightarrow> p \<in> set (take k order)"
      using o(3) that(2) full by (simp add: placed_well_def)
    ultimately have "order ! j \<in> set (take k order)" by blast
    then show ?thesis using pos [OF that(1,2)] by blast
  qed
  moreover have "\<not> higherMiningPriority (items ! (order ! c)) (items ! (order ! k))"
    if k: "k < ?n" "c < ?n" "k \<le> c"
      and par: "\<forall>j < ?n. spends_item (ItemTransaction (items ! (order ! c))) (ItemTransaction (items ! (order ! j))) \<longrightarrow> j < k" for k c
  proof -
    have "p \<in> set (take k order)" if "(p, order ! c) \<in> set ?es" for p
    proof -
      have "p < ?n" using edges_bound(1) [OF idx that] .
      then obtain j where j: "j < ?n" "p = order ! j" using set full by (metis in_set_conv_nth lessThan_iff)
      then show ?thesis using that edge [OF j(1) k(2)] par pos [OF j(1) k(1)] by blast
    qed
    moreover have "order ! c \<notin> set (take k order)" using pos [OF k(2,1)] k(3) by simp
    moreover have "\<forall>c < ?n. c \<notin> set (take k order) \<longrightarrow> (\<forall>(p, c') \<in> set ?es. c' = c \<longrightarrow> p \<in> set (take k order)) \<longrightarrow>
        above items (order ! k) c"
      using o(3) k(1) full by (simp add: placed_well_def)
    ultimately have "above items (order ! k) (order ! c)" using lt [OF k(2)] by blast
    then show ?thesis by (simp add: above_def)
  qed
  ultimately show "greedy_order (map (nth items) order)" using full by (simp add: greedy_order_def)
qed

lemma prioritize_exact:
  "prioritizeMempoolForMining items = Inr txs \<Longrightarrow>
     \<exists>sorted. txs = map ItemTransaction sorted \<and> mset sorted = mset items \<and> greedy_order sorted"
proof -
  assume run: "prioritizeMempoolForMining items = Inr txs"
  then obtain byID where idx: "indexItems items = Inr byID" by (auto simp: prioritizeMempoolForMining_def res_simps)
  obtain indeg order where d: "(case dependencies items byID of (indegree, children) \<Rightarrow>
     drainQueue items children (length items)
       (indegree, foldl (heapPush items) [] (filter (\<lambda>index. indegree ! index = 0) [0..<length items]), [])) = (indeg, [], order)"
     "drain_inv items (edges items byID) (indeg, [], order)"
    using drain_all [OF idx] by blast
  obtain i0 c0 where dep: "dependencies items byID = (i0, c0)" by fastforce
  have full: "length order = length items" "txs = map (\<lambda>index. ItemTransaction (items ! index)) order"
    using run idx d(1) by (auto simp: prioritizeMempoolForMining_def dep Let_def split: if_splits)
  from full_order [OF idx d(2) full(1)] full(2) show ?thesis
    by (intro exI [of _ "map (nth items) order"]) (simp add: comp_def)
qed

text \<open>When the items are given parents first, no dependency cycle is reported.\<close>

lemma prioritize_succeeds:
  assumes "list_all (\<lambda>i. ID (ItemTransaction i) \<noteq> [] \<and> sized i) items" "distinct (map (ID \<circ> ItemTransaction) items)"
    and acyc: "\<forall>j < length items. \<forall>k < length items. spends_item (ItemTransaction (items ! k)) (ItemTransaction (items ! j)) \<longrightarrow> j < k"
  shows "\<exists>txs. prioritizeMempoolForMining items = Inr txs"
proof -
  let ?n = "length items"
  obtain byID where idx: "indexItems items = Inr byID"
    using indexItems_loop [of "[]" 0 items] assms(1,2) unfolding indexItems_def by auto
  let ?es = "edges items byID"
  obtain indeg order where d: "(case dependencies items byID of (indegree, children) \<Rightarrow>
     drainQueue items children (length items)
       (indegree, foldl (heapPush items) [] (filter (\<lambda>index. indegree ! index = 0) [0..<length items]), [])) = (indeg, [], order)"
     "drain_inv items ?es (indeg, [], order)"
    using drain_all [OF idx] by blast
  have o: "distinct order" "set order \<subseteq> {..<?n}" "\<forall>c < ?n. c \<in> set order \<longleftrightarrow> pending_parents ?es (set order) c = 0"
    using d(2) by (simp_all add: drain_inv_def)
  have "c < ?n \<Longrightarrow> c \<in> set order" for c
  proof (induction c rule: less_induct)
    case (less c)
    have "p \<in> set order" if "(p, c) \<in> set ?es" for p
    proof -
      have "p < ?n" by (rule edges_bound(1) [OF idx that])
      moreover have "p < c" using acyc edges_bound [OF idx that] by (auto simp: spends_item_def)
      ultimately show ?thesis using less.IH by simp
    qed
    then show ?case using o(3) less.prems by (auto simp: pending_parents_0)
  qed
  then have "set order = {..<?n}" using o(2) by auto
  then have "length order = ?n" using distinct_card [OF o(1)] by simp
  then show ?thesis
    using idx d(1) by (cases "dependencies items byID") (auto simp: prioritizeMempoolForMining_def Let_def)
qed

end
