(* ===== verification/Candidate_Valid.thy ===== *)
theory Candidate_Valid
  imports Mining_Order Mempool_Props
begin

text \<open>
  Mining never builds an invalid block: the transactions the selection takes, checked against the view
  of the unspent outputs, are those the replay of the chain accepts, and the header of the candidate
  meets every rule except the proof of work, which the search for a nonce provides.
\<close>

section \<open>The view of the unspent outputs\<close>

definition view_ok :: "miningUTXOView \<Rightarrow> u64 \<Rightarrow> replay_state \<Rightarrow> replay_state \<Rightarrow> bool" where
  "view_ok v h st0 st \<longleftrightarrow> ViewHeight v = h \<and>
     (\<forall>op. coins_get (coins_of st) op = (if op \<in> ViewSpent v then None
        else case map_of (ViewCreated v) op of
          Some out \<Rightarrow> Some (out, \<lparr>CreatedHeight = h, FromCoinbase = False\<rparr>)
        | None \<Rightarrow> coins_get (coins_of st0) op)) \<and>
     (\<forall>op. map_of (ViewCreated v) op \<noteq> None \<or> op \<in> ViewSpent v \<longrightarrow> OpTxID op \<in> RSeen st)"

lemma viewInputs_loop:
  assumes v: "view_ok v h st0 st" and sim: "ledger_sim C d st0"
  shows "foldE (viewInput d v) u ins = Inr utxo \<longleftrightarrow>
     (\<forall>op \<in> input_outpoint ` set ins. spendable_coin st h op) \<and>
     utxo = foldl (\<lambda>u op. AList.update op (fst (the (coins_get (coins_of st) op))) u) u (map input_outpoint ins)"
proof (induction ins arbitrary: u)
  case (Cons inp ins)
  let ?op = "input_outpoint inp"
  have get: "coins_get (coins_of st) ?op = (if ?op \<in> ViewSpent v then None
        else case map_of (ViewCreated v) ?op of
          Some out \<Rightarrow> Some (out, \<lparr>CreatedHeight = h, FromCoinbase = False\<rparr>)
        | None \<Rightarrow> coins_get (coins_of st0) ?op)" and vh: "ViewHeight v = h"
    using v by (simp_all add: view_ok_def)
  have load: "loadUTXO d ?op = (case coins_get (coins_of st0) ?op of
        None \<Rightarrow> Inl (Errorf ''input is missing or already spent'') | Some c \<Rightarrow> Inr (coin_record ?op c))"
    using sim by (simp add: ledger_sim_def loadUTXO_ok)
  have step: "viewInput d v u inp = Inr u' \<longleftrightarrow> spendable_coin st h ?op \<and>
      u' = AList.update ?op (fst (the (coins_get (coins_of st) ?op))) u" for u u'
    using get load by (auto simp: viewInput_def Let_def spendable_coin_def res_simps vh split: option.splits if_splits)
  show ?case by (auto simp: res_simps Cons.IH step)
qed auto

lemma viewInputs_ok:
  assumes "view_ok v h st0 st" "ledger_sim C d st0" "chain_inv st tr"
  shows "viewInputs d v tx = Inr utxo \<longleftrightarrow>
     validateCoinbaseMaturity tx (ROrigins st) h = Inr () \<and> utxo = viewed_inputs st tx"
proof -
  have "coins_wf (coins_of st)" using assms(3) by (simp add: chain_inv_def)
  from spendable_coins_mature [OF this, of tx h] show ?thesis
    unfolding viewInputs_def viewInputs_loop [OF assms(1,2)] by (simp add: viewed_inputs_def spends_def)
qed

lemma view_validates:
  assumes "chain_inv st tr" "validateCoinbaseMaturity tx (ROrigins st) h = Inr ()"
  shows "validateRegularTransaction C tx (viewed_inputs st tx) = validateRegularTransaction C tx (RUtxo st)"
proof -
  have wf: "coins_wf (coins_of st)" using assms(1) by (simp add: chain_inv_def)
  have "\<forall>op \<in> set (spends tx). coins_get (coins_of st) op \<noteq> None"
    using assms(2) unfolding spendable_coins_mature [OF wf, symmetric] by (auto simp: spendable_coin_def)
  from validate_view [OF wf this, of C] show ?thesis by (simp add: coins_of_def viewed_inputs_def)
qed

text \<open>A transaction that validates is applied to the view without an error.\<close>

lemma spend_loop:
  assumes "distinct (map input_outpoint ins)" "input_outpoint ` set ins \<inter> ViewSpent v = {}"
  shows "\<exists>v'. foldUntil viewSpend v ins = (v', True) \<and> ViewHeight v' = ViewHeight v \<and>
     ViewSpent v' = ViewSpent v \<union> input_outpoint ` set ins \<and>
     map_of (ViewCreated v') = (\<lambda>op. if op \<in> input_outpoint ` set ins then None else map_of (ViewCreated v) op)"
  using assms
proof (induction ins arbitrary: v)
  case (Cons inp ins)
  let ?v = "v\<lparr>ViewCreated := AList.delete (input_outpoint inp) (ViewCreated v), ViewSpent := insert (input_outpoint inp) (ViewSpent v)\<rparr>"
  have "viewSpend v inp = Inr ?v" using Cons.prems by (simp add: viewSpend_def)
  moreover obtain v' where "foldUntil viewSpend ?v ins = (v', True)" "ViewHeight v' = ViewHeight ?v"
     "ViewSpent v' = ViewSpent ?v \<union> input_outpoint ` set ins"
     "map_of (ViewCreated v') = (\<lambda>op. if op \<in> input_outpoint ` set ins then None else map_of (ViewCreated ?v) op)"
    using Cons.IH [of ?v] Cons.prems by auto
  ultimately show ?case by (auto simp: delete_conv')
qed simp

lemma create_loop:
  assumes "distinct (map (word_of_nat \<circ> fst :: nat \<times> tx_output \<Rightarrow> u32) xs)"
    and "\<forall>op. OpTxID op = ID tx \<longrightarrow> map_of (ViewCreated v) op = None \<or> op \<notin> (\<lambda>x. Outpoint (ID tx) (word_of_nat (fst x))) ` set xs"
  shows "\<exists>v'. foldUntil (viewCreate tx) v xs = (v', True) \<and> ViewHeight v' = ViewHeight v \<and> ViewSpent v' = ViewSpent v \<and>
     map_of (ViewCreated v') = (\<lambda>op. case map_of (map (\<lambda>(index, output). (Outpoint (ID tx) (word_of_nat index), output)) xs) op of
        Some out \<Rightarrow> Some out | None \<Rightarrow> map_of (ViewCreated v) op)"
  using assms
proof (induction xs arbitrary: v)
  case Nil
  then show ?case by simp
next
  case (Cons x xs)
  obtain i out where x: "x = (i, out)" by (cases x)
  let ?op = "Outpoint (ID tx) (word_of_nat i)" and ?v = "v\<lparr>ViewCreated := AList.update (Outpoint (ID tx) (word_of_nat i)) out (ViewCreated v)\<rparr>"
  have "viewCreate tx v x = Inr ?v" using Cons.prems(2) [rule_format, of ?op] by (simp add: viewCreate_def x Let_def)
  moreover have new: "?op \<notin> (\<lambda>x. Outpoint (ID tx) (word_of_nat (fst x))) ` set xs" using Cons.prems(1) by (auto simp: x)
  moreover have "\<exists>v'. foldUntil (viewCreate tx) ?v xs = (v', True) \<and> ViewHeight v' = ViewHeight ?v \<and> ViewSpent v' = ViewSpent ?v \<and>
     map_of (ViewCreated v') = (\<lambda>op. case map_of (map (\<lambda>(index, output). (Outpoint (ID tx) (word_of_nat index), output)) xs) op of
        Some out \<Rightarrow> Some out | None \<Rightarrow> map_of (ViewCreated ?v) op)"
    by (rule Cons.IH) (use Cons.prems new in \<open>auto simp: update_conv'\<close>)
  ultimately obtain v' where v': "foldUntil (viewCreate tx) v (x # xs) = (v', True)" "ViewHeight v' = ViewHeight v" "ViewSpent v' = ViewSpent v"
     "map_of (ViewCreated v') = (\<lambda>op. case map_of (map (\<lambda>(index, output). (Outpoint (ID tx) (word_of_nat index), output)) xs) op of
        Some out \<Rightarrow> Some out | None \<Rightarrow> map_of (ViewCreated ?v) op)" by auto
  have "map_of (map (\<lambda>(index, output). (Outpoint (ID tx) (word_of_nat index), output)) xs) ?op = None"
    using new by (auto simp: map_of_eq_None_iff image_iff)
  then show ?case using v' by (intro exI [of _ v']) (auto simp: x update_conv' fun_eq_iff split: option.splits)
qed

section \<open>The selection\<close>

text \<open>What is selected so far replays on top of \<open>st0\<close>, and the view shows its outcome.\<close>

definition sel_ok :: "crypto \<Rightarrow> u64 \<Rightarrow> replay_state \<Rightarrow> trace \<Rightarrow> nat \<Rightarrow> selection \<Rightarrow> replay_state \<Rightarrow> bool" where
  "sel_ok C h st0 tr base s st \<longleftrightarrow> view_ok (SelView s) h st0 st \<and>
     chain_inv st (tr @ map (Pair h) (SelTransactions s)) \<and>
     foldE (replayTransaction C h) (st0, 0) (SelTransactions s) = Inr (st, SelFees s) \<and>
     length (SelTransactions s) < MaxBlockTransactions \<and> SelSize s \<le> MaxBlockBytes \<and>
     SelSize s = base + (\<Sum>tx\<leftarrow>SelTransactions s. encodedSize tx)"

lemma new_coins_view:
  "map_of (new_coins tx h False) op = map_option (\<lambda>out. (out, \<lparr>CreatedHeight = h, FromCoinbase = False\<rparr>))
     (map_of (map (\<lambda>(index, output). (Outpoint (ID tx) (word_of_nat index), output)) (List.enumerate 0 (Outputs tx))) op)"
proof -
  have "map_of (map (\<lambda>(index, output). (Outpoint (ID tx) (word_of_nat index), (output, og))) xs) op =
     map_option (\<lambda>out. (out, og)) (map_of (map (\<lambda>(index, output). (Outpoint (ID tx) (word_of_nat index), output)) xs) op)"
    for og :: output_origin and xs by (induction xs) auto
  then show ?thesis by (simp add: new_coins_def)
qed

lemma present_seen:
  assumes "chain_inv st tr" "coins_get (coins_of st) op \<noteq> None"
  shows "OpTxID op \<in> RSeen st"
proof -
  define tx where "tx = \<lparr>ID = OpTxID op, Coinbase = False, TxNonce = 0, Inputs = [], Outputs = []\<rparr>"
  have "ID tx = OpTxID op" by (simp add: tx_def)
  then show ?thesis using fresh_absent [OF assms(1), of tx op] assms(2) by metis
qed

lemma select_one:
  assumes v: "view_ok v h st0 st" and sim: "ledger_sim C d st0" and inv: "chain_inv st tr" and h: "h \<noteq> 0"
    and new: "ID tx \<notin> RSeen st" and ins: "viewInputs d v tx = Inr utxo" and val: "validateRegularTransaction C tx utxo = Inr fee"
  shows "\<exists>v' st'. viewApplied tx v = (v', True) \<and> view_ok v' h st0 st' \<and> chain_inv st' (tr @ [(h, tx)]) \<and>
     RSeen st' = insert (ID tx) (RSeen st) \<and>
     (\<forall>fees fees'. safeAdd fees fee = Inr fees' \<longrightarrow> replayTransaction C h (st, fees) tx = Inr (st', fees'))"
proof -
  let ?cs = "coins_of st"
  have mat: "validateCoinbaseMaturity tx (ROrigins st) h = Inr ()" and u: "utxo = viewed_inputs st tx"
    using ins viewInputs_ok [OF v sim inv] by blast+
  have ok: "validateRegularTransaction C tx (RUtxo st) = Inr fee"
    using val view_validates [OF inv mat] u by simp
  then have ok': "validateRegularTransaction C tx (fst ?cs) = Inr fee" by (simp add: coins_of_def)
  have wf: "coins_wf ?cs" using inv by (simp add: chain_inv_def)
  note sp = spent_present [OF wf ok'] and absent = fresh_absent [OF inv new]
  have len: "length (Outputs tx) \<le> 256"
    using ok by (auto simp: validateRegularTransaction_def res_simps MaxTransactionOutputs_def split: if_splits)
  obtain cs where app: "applyRegularTransaction tx h ?cs = Inr cs"
    using applyRegular_succeeds [OF wf, of tx h] absent len by auto
  let ?st = "(set_coins st cs)\<lparr>RSeen := insert (ID tx) (RSeen st)\<rparr>"
  note ext = regular_extend [OF inv h new ok mat app]
  have run: "replayTransaction C h (st, fees) tx = Inr (?st, fees')" if "safeAdd fees fee = Inr fees'" for fees fees'
    using ext(3) new ok mat app that by (simp add: replayTransaction_def)
  have seen: "OpTxID op \<in> RSeen st" if "op \<in> set (spends tx)" for op
    using sp(2) that present_seen [OF inv] by blast
  have vspent: "OpTxID op \<in> RSeen st" if "op \<in> ViewSpent v" for op using v that by (simp add: view_ok_def)
  have disj: "set (spends tx) \<inter> ViewSpent v = {}"
    using sp(2) v unfolding view_ok_def by auto
  obtain v1 where v1: "foldUntil viewSpend v (Inputs tx) = (v1, True)" "ViewHeight v1 = ViewHeight v"
     "ViewSpent v1 = ViewSpent v \<union> set (spends tx)"
     "map_of (ViewCreated v1) = (\<lambda>op. if op \<in> set (spends tx) then None else map_of (ViewCreated v) op)"
    using spend_loop [of "Inputs tx" v] sp(1) disj by (auto simp: spends_def)
  have old: "map_of (ViewCreated v1) op = None" if "OpTxID op = ID tx" for op
  proof -
    have "OpTxID op \<notin> RSeen st" using that new by simp
    then have "map_of (ViewCreated v) op = None" using v unfolding view_ok_def by blast
    then show ?thesis by (simp add: v1(4))
  qed
  have idx: "distinct (map (word_of_nat \<circ> fst :: nat \<times> tx_output \<Rightarrow> u32) (List.enumerate 0 (Outputs tx)))"
  proof -
    have "map fst (new_coins tx h False) = map (Outpoint (ID tx)) (map (word_of_nat \<circ> fst) (List.enumerate 0 (Outputs tx)))"
      by (simp add: new_coins_def comp_def case_prod_unfold)
    moreover have "distinct (map fst (new_coins tx h False))" using len by (intro distinct_new_coins) simp
    ultimately show ?thesis by (metis distinct_map inj_on_imageI2 map_map)
  qed
  obtain v2 where v2: "foldUntil (viewCreate tx) v1 (List.enumerate 0 (Outputs tx)) = (v2, True)"
     "ViewHeight v2 = ViewHeight v1" "ViewSpent v2 = ViewSpent v1"
     "map_of (ViewCreated v2) = (\<lambda>op. case map_of (map (\<lambda>(index, output). (Outpoint (ID tx) (word_of_nat index), output)) (List.enumerate 0 (Outputs tx))) op of
        Some out \<Rightarrow> Some out | None \<Rightarrow> map_of (ViewCreated v1) op)"
    using create_loop [OF idx, of tx v1] old by auto
  have applied: "viewApplied tx v = (v2, True)" by (simp add: viewApplied_def v1(1) v2(1))
  have get': "coins_get cs op = (case map_of (new_coins tx h False) op of Some c \<Rightarrow> Some c
      | None \<Rightarrow> if op \<in> set (spends tx) then None else coins_get ?cs op)" for op
    using applyRegular_effect(3) [OF wf ok' app] by (auto simp: spends_def fun_eq_iff split: option.splits)
  have fresh: "map_of (new_coins tx h False) op = None" if "OpTxID op \<in> RSeen st" for op
    using new_coins_id [of op tx h False] that new by (metis map_of_eq_None_iff)
  have cr: "map_of (ViewCreated v2) op = (case map_of (new_coins tx h False) op of
      Some c \<Rightarrow> Some (fst c) | None \<Rightarrow> if op \<in> set (spends tx) then None else map_of (ViewCreated v) op)" for op
    unfolding v2(4) v1(4) new_coins_view by (simp split: option.split)
  have origin: "snd c = \<lparr>CreatedHeight = h, FromCoinbase = False\<rparr>" if "map_of (new_coins tx h False) op = Some c" for op c
    using that unfolding new_coins_view by auto
  have gv: "coins_get ?cs op = (if op \<in> ViewSpent v then None
        else case map_of (ViewCreated v) op of
          Some out \<Rightarrow> Some (out, \<lparr>CreatedHeight = h, FromCoinbase = False\<rparr>)
        | None \<Rightarrow> coins_get (coins_of st0) op)" for op using v by (simp add: view_ok_def)
  have get2: "coins_get cs op = (if op \<in> ViewSpent v2 then None
        else case map_of (ViewCreated v2) op of
          Some out \<Rightarrow> Some (out, \<lparr>CreatedHeight = h, FromCoinbase = False\<rparr>)
        | None \<Rightarrow> coins_get (coins_of st0) op)" for op
  proof (cases "map_of (new_coins tx h False) op")
    case None
    then show ?thesis using gv [of op] unfolding get' [of op] cr [of op] v2(3) v1(3) by (simp split: option.split)
  next
    case (Some c)
    then have "op \<notin> set (spends tx)" "op \<notin> ViewSpent v" using fresh seen vspent by fastforce+
    then show ?thesis using Some origin [OF Some] unfolding get' [of op] cr [of op] v2(3) v1(3) by (cases c) simp
  qed
  have seen2: "OpTxID op \<in> insert (ID tx) (RSeen st)" if "map_of (ViewCreated v2) op \<noteq> None \<or> op \<in> ViewSpent v2" for op
  proof (cases "map_of (new_coins tx h False) op")
    case None
    then have "map_of (ViewCreated v) op \<noteq> None \<or> op \<in> ViewSpent v \<or> op \<in> set (spends tx)"
      using that unfolding cr [of op] v2(3) v1(3) by (auto split: if_splits)
    then show ?thesis using v seen unfolding view_ok_def by blast
  next
    case (Some c)
    then have "OpTxID op = ID tx" using new_coins_id [of op tx h False] by (metis map_of_eq_None_iff option.discI)
    then show ?thesis by simp
  qed
  have v2ok: "view_ok v2 h st0 ?st"
    using get2 seen2 v1(2) v2(2) v by (simp add: view_ok_def)
  show ?thesis using applied v2ok ext(1) run by (intro exI [of _ v2] exI [of _ ?st]) simp
qed

lemma select_loop:
  assumes "sel_ok C h st0 tr base s st" "ledger_sim C d st0" "h \<noteq> 0" "distinct (map ID txs)" "\<forall>tx \<in> set txs. ID tx \<notin> RSeen st"
    and "selectForBlock C d s txs = Inr s'"
  shows "\<exists>st'. sel_ok C h st0 tr base s' st' \<and> RSeen st' \<subseteq> RSeen st \<union> ID ` set txs"
  using assms
proof (induction txs arbitrary: s st)
  case Nil
  then show ?case by auto
next
  case (Cons tx txs)
  have rest: ?case if r: "sel_ok C h st0 tr base s1 st1" "RSeen st1 \<subseteq> insert (ID tx) (RSeen st)" "selectForBlock C d s1 txs = Inr s'" for s1 st1
  proof -
    have "ID tx' \<noteq> ID tx" if "tx' \<in> set txs" for tx' using that Cons.prems(4) by (auto simp: image_iff)
    then have "\<forall>tx \<in> set txs. ID tx \<notin> RSeen st1" using r(2) Cons.prems(5) by auto
    then obtain st' where "sel_ok C h st0 tr base s' st'" "RSeen st' \<subseteq> RSeen st1 \<union> ID ` set txs"
      using Cons.IH [OF r(1) Cons.prems(2,3) _ _ r(3)] Cons.prems(4) by auto
    moreover from this have "RSeen st' \<subseteq> RSeen st \<union> ID ` set (tx # txs)" using r(2) by auto
    ultimately show ?thesis by blast
  qed
  show ?case
  proof (cases "length (SelTransactions s) \<ge> MaxBlockTransactions - 1")
    case True
    then show ?thesis using Cons.prems(1,6) by auto
  next
    case False
    have skip: ?thesis if "selectForBlock C d s txs = Inr s'" using rest [OF Cons.prems(1) _ that] by blast
    show ?thesis
    proof (cases "SelSize s + encodedSize tx > MaxBlockBytes")
      case True
      then show ?thesis using False Cons.prems(6) skip by (simp add: Let_def)
    next
      case fits: False
      show ?thesis
      proof (cases "viewInputs d (SelView s) tx")
        case (Inl e)
        then show ?thesis using False fits Cons.prems(6) skip by (simp add: Let_def)
      next
        case ins: (Inr utxo)
        show ?thesis
        proof (cases "validateRegularTransaction C tx utxo")
          case (Inl e)
          then show ?thesis using False fits ins Cons.prems(6) skip by (simp add: Let_def)
        next
          case val: (Inr fee)
          have so: "view_ok (SelView s) h st0 st" "chain_inv st (tr @ map (Pair h) (SelTransactions s))"
            "foldE (replayTransaction C h) (st0, 0) (SelTransactions s) = Inr (st, SelFees s)"
            "SelSize s = base + (\<Sum>tx\<leftarrow>SelTransactions s. encodedSize tx)"
            using Cons.prems(1) by (simp_all add: sel_ok_def)
          have new: "ID tx \<notin> RSeen st" using Cons.prems(5) by simp
          obtain v' st' where n: "viewApplied tx (SelView s) = (v', True)" "view_ok v' h st0 st'"
            "chain_inv st' ((tr @ map (Pair h) (SelTransactions s)) @ [(h, tx)])" "RSeen st' = insert (ID tx) (RSeen st)"
            "\<And>fees fees'. safeAdd fees fee = Inr fees' \<Longrightarrow> replayTransaction C h (st, fees) tx = Inr (st', fees')"
            using select_one [OF so(1) Cons.prems(2) so(2) Cons.prems(3) new ins val] by blast
          obtain fees where fees: "checkedAdd (SelFees s) fee = Inr fees"
            "selectForBlock C d \<lparr>SelView = v', SelFees = fees, SelTransactions = SelTransactions s @ [tx],
               SelSize = SelSize s + encodedSize tx\<rparr> txs = Inr s'"
            using Cons.prems(6) False fits ins val n(1) by (auto simp: Let_def res_simps)
          let ?s1 = "\<lparr>SelView = v', SelFees = fees, SelTransactions = SelTransactions s @ [tx], SelSize = SelSize s + encodedSize tx\<rparr>"
          have "replayTransaction C h (st, SelFees s) tx = Inr (st', fees)"
            using n(5) fees(1) by (simp add: checkedAdd_safeAdd)
          then have "sel_ok C h st0 tr base ?s1 st'"
            using n(2,3) so(3,4) False fits by (simp add: sel_ok_def foldE_append)
          then show ?thesis using rest n(4) fees(2) by blast
        qed
      qed
    qed
  qed
qed

section \<open>The pending transactions in mining order\<close>

definition mining_item :: "mempool_row \<Rightarrow> miningMempoolItem" where
  "mining_item r = \<lparr>ItemTransaction = MData r, ItemFee = word_of_int (MFee r),
     ItemEncodedSize = word_of_int (MEncodedSize r), ItemSequence = MSequence r\<rparr>"

lemma pool_txs_valid:
  "foldE (replayPending C h) st0 txs = Inr st \<Longrightarrow> tx \<in> set txs \<Longrightarrow> \<exists>u fee. validateRegularTransaction C tx u = Inr fee"
  by (induction txs arbitrary: st0) (auto simp: res_simps replayPending_def)

lemma pool_parents_first:
  assumes inv: "chain_inv st0 tr" and h: "h \<noteq> 0" and run: "foldE (replayPending C h) st0 txs = Inr st"
    and jk: "j < length txs" "k < length txs" "spends_item (txs ! k) (txs ! j)"
  shows "j < k"
proof (rule ccontr)
  assume "\<not> j < k"
  then have kj: "k \<le> j" by simp
  have split: "txs = take k txs @ txs ! k # drop (Suc k) txs" using jk(2) by (simp add: id_take_nth_drop)
  then have "foldE (replayPending C h) st0 (take k txs @ txs ! k # drop (Suc k) txs) = Inr st" using run by simp
  then obtain st1 st2 where s: "foldE (replayPending C h) st0 (take k txs) = Inr st1" "replayPending C h st1 (txs ! k) = Inr st2"
    by (auto simp: foldE_append res_simps)
  have inv1: "chain_inv st1 (tr @ map (Pair h) (take k txs))" using replayPendings_extend [OF inv h s(1)] by blast
  have full: "distinct (map (ID \<circ> snd) (tr @ map (Pair h) txs))"
    using replayPendings_extend [OF inv h run] by (simp add: chain_inv_def)
  obtain fee where ok: "validateRegularTransaction C (txs ! k) (fst (coins_of st1)) = Inr fee"
    using s(2) by (auto simp: replayPending_def res_simps coins_of_def split: if_splits)
  obtain input where i: "input \<in> set (Inputs (txs ! k))" "InTxID input = ID (txs ! j)"
    using jk(3) by (auto simp: spends_item_def)
  have "coins_wf (coins_of st1)" using inv1 by (simp add: chain_inv_def)
  from spent_present(2) [OF this ok] have "coins_get (coins_of st1) (input_outpoint input) \<noteq> None"
    using i(1) by (auto simp: spends_def)
  from present_seen [OF inv1 this] have "ID (txs ! j) \<in> RSeen st1" using i(2) by (simp add: input_outpoint_def)
  then have "ID (txs ! j) \<in> set (map (ID \<circ> snd) tr) \<union> set (map ID (take k txs))"
    using inv1 by (auto simp: chain_inv_def)
  moreover have "ID (txs ! j) \<notin> set (map (ID \<circ> snd) tr)" 
  proof -
    have "set (map (ID \<circ> snd) tr) \<inter> set (map ID txs) = {}" using full by (simp add: comp_def)
    moreover have "ID (txs ! j) \<in> set (map ID txs)" using jk(1) by simp
    ultimately show ?thesis by blast
  qed
  moreover have "ID (txs ! j) \<notin> set (map ID (take k txs))"
  proof
    assume "ID (txs ! j) \<in> set (map ID (take k txs))"
    then obtain m where m: "m < k" "ID (txs ! j) = ID (txs ! m)" using jk(2) by (auto simp: in_set_conv_nth)
    have "distinct (map ID txs)" using full by (simp add: comp_def)
    then show False using m kj jk(1) by (auto simp: distinct_conv_nth)
  qed
  ultimately show False by blast
qed

lemma mset_map_preimage: "mset zs = mset (map f xs) \<Longrightarrow> \<exists>ys. zs = map f ys \<and> mset ys = mset xs"
proof (induction zs arbitrary: xs)
  case (Cons z zs)
  have "z \<in> set (map f xs)" using Cons.prems by (metis list.set_intros(1) set_mset_mset)
  then obtain x where x: "x \<in> set xs" "f x = z" by auto
  have "mset xs = add_mset x (mset (remove1 x xs))" using x(1) by simp
  then have "mset (map f xs) = add_mset z (mset (map f (remove1 x xs)))" using x(2) by (metis image_mset_add_mset mset_map)
  then have "mset zs = mset (map f (remove1 x xs))" using Cons.prems by simp
  then obtain ys where "zs = map f ys" "mset ys = mset (remove1 x xs)" using Cons.IH by blast
  then show ?case using x by (intro exI [of _ "x # ys"]) simp
qed simp

lemma mining_order:
  assumes dg: "digest32 (Sum256 C)" and sim: "pool_sim C d st0 tr h st"
  shows "\<exists>rows. mempoolTransactionsFromQuery d = Inr (map MData rows) \<and> mset rows = mset (dbMempool d) \<and>
     greedy_order (map mining_item rows)"
proof -
  have s: "pool_tables d" "chain_inv st0 tr" "h \<noteq> 0" "foldE (replayPending C h) st0 (pool_txs d) = Inr st"
    using sim by (simp_all add: pool_sim_def)
  let ?items = "map mining_item (dbMempool d)"
  have sorted: "sorted (map MSequence (dbMempool d))"
    using s(1) by (simp add: pool_tables_def strict_sorted_imp_sorted)
  have row: "pool_row_ok r" "encodedSize (MData r) \<le> MaxTransactionBytes" "ID (MData r) \<noteq> []" if "r \<in> set (dbMempool d)" for r
  proof -
    show "pool_row_ok r" using that s(1) by (simp add: pool_tables_def)
    have "MData r \<in> set (pool_txs d)" using that by (simp add: pool_txs_def)
    then obtain u fee where v: "validateRegularTransaction C (MData r) u = Inr fee" using pool_txs_valid [OF s(4)] by blast
    then have "ID (MData r) = ComputeID C (MData r)" "encodedSize (MData r) \<le> MaxTransactionBytes"
      by (auto simp: validateRegularTransaction_def res_simps split: if_splits)
    moreover have "ComputeID C (MData r) \<noteq> []"
    proof
      assume "ComputeID C (MData r) = []"
      moreover have "decodeHash (ComputeID C (MData r)) = Inr (Sum256 C (encodeTransaction (MData r) True))"
        by (simp add: ComputeID_def decodeHash_hashHex [OF dg])
      ultimately show False by (auto dest: decodeHash_size simp: decodeHash_def split: option.splits if_splits)
    qed
    ultimately show "encodedSize (MData r) \<le> MaxTransactionBytes" "ID (MData r) \<noteq> []" by simp_all
  qed
  have scan: "scanMiningItem r = Inr (mining_item r)" if "r \<in> set (dbMempool d)" for r
    using row [OF that] encodedSize_eq [of "MData r"] by (auto simp: scanMiningItem_def pool_row_ok_def mining_item_def)
  have read: "mempoolTransactionsFromQuery d = prioritizeMempoolForMining ?items"
    by (simp add: mempoolTransactionsFromQuery_def sorted mapE_total [OF scan])
  have "list_all (\<lambda>i. ID (ItemTransaction i) \<noteq> [] \<and> sized i) ?items"
  proof -
    have "sized (mining_item r)" if "r \<in> set (dbMempool d)" for r
    proof -
      have "MEncodedSize r = int (encodedSize (MData r))" "0 < encodedSize (MData r)" "encodedSize (MData r) \<le> MaxTransactionBytes"
        using row [OF that] encodedSize_eq [of "MData r"] by (simp_all add: pool_row_ok_def)
      then have "unat (word_of_int (MEncodedSize r) :: u64) = encodedSize (MData r)"
        by (simp add: MaxTransactionBytes_def unat_word_of_nat_64)
      then show ?thesis using \<open>0 < encodedSize (MData r)\<close> by (auto simp: sized_def mining_item_def)
    qed
    then show ?thesis using row(3) by (auto simp: list_all_iff mining_item_def)
  qed
  moreover have ids: "map (ID \<circ> ItemTransaction) ?items = map ID (pool_txs d)"
    by (simp add: mining_item_def pool_txs_def)
  have "distinct (map (ID \<circ> ItemTransaction) ?items)"
    unfolding ids using replayPendings_extend [OF s(2-4)] by (simp add: chain_inv_def comp_def)
  moreover have "\<forall>j < length ?items. \<forall>k < length ?items. spends_item (ItemTransaction (?items ! k)) (ItemTransaction (?items ! j)) \<longrightarrow> j < k"
    using pool_parents_first [OF s(2-4)] by (simp add: mining_item_def pool_txs_def)
  ultimately obtain txs where txs: "prioritizeMempoolForMining ?items = Inr txs" using prioritize_succeeds by blast
  obtain sorted where so: "txs = map ItemTransaction sorted" "mset sorted = mset ?items" "greedy_order sorted"
    using prioritize_exact [OF txs] by blast
  have "\<exists>rows. sorted = map mining_item rows \<and> mset rows = mset (dbMempool d)"
    by (rule mset_map_preimage [OF so(2)])
  then obtain rows where rows: "sorted = map mining_item rows" "mset rows = mset (dbMempool d)" by blast
  then have "txs = map MData rows" by (simp add: so(1) mining_item_def)
  then show ?thesis using rows so(3) txs read by auto
qed

end
