(* ===== verification/Mining_Props.thy ===== *)
theory Mining_Props
  imports Candidate_Valid
begin

text \<open>
  The candidate block is complete but for its nonce: whatever nonce gives it valid work, the ledger
  commits it.
\<close>

section \<open>The header of the candidate\<close>

lemma replayed_times:
  assumes "replayed C now blocks sts"
  shows "i < length blocks \<Longrightarrow> 1783983600 \<le> Timestamp (blocks ! i)"
proof (induction i rule: less_induct)
  case (less i)
  show ?case
  proof (cases "i = 0")
    case True
    then show ?thesis using assms by (simp add: replayed_def)
  next
    case False
    then have "validateBlockHeaderAtTime C (blocks ! i) (blocks ! (i - 1)) (take i blocks) (now i) = Inr ()"
      using assms less.prems by (auto simp: replayed_def replayBlock_def Let_def res_simps)
    from validateBlockHeader_facts(1,7) [OF this]
    have t: "median_of (past_times (take i blocks)) < Timestamp (blocks ! i)" "take i blocks \<noteq> []" by simp_all
    have "median_of (past_times (take i blocks)) \<in> set (past_times (take i blocks))" using t(2) by (intro median_of_mem) simp
    then have "median_of (past_times (take i blocks)) \<in> Timestamp ` set (take i blocks)"
      by (auto simp: past_times_def dest: in_set_dropD)
    then obtain j where "j < i" "j < length blocks" "median_of (past_times (take i blocks)) = Timestamp (blocks ! j)"
      by (auto simp: in_set_conv_nth)
    with less.IH [of j] t(1) show ?thesis by simp
  qed
qed

lemma ids_decode:
  assumes "digest32 (Sum256 C)" "\<forall>tx \<in> set txs. ID tx = ComputeID C tx" "txs \<noteq> []"
  shows "decodeHash (merkleRoot C txs) \<in> range Inr"
proof -
  let ?hs = "map (\<lambda>tx. Sum256 C (encodeTransaction tx True)) txs"
  have "list_all2 (\<lambda>tx h. decodeHash (ID tx) = Inr h) txs ?hs"
    using assms(2) by (induction txs) (simp_all add: ComputeID_def decodeHash_hashHex [OF assms(1)])
  note root = merkleRoot_eq [OF this assms(3), of C]
  have len: "length (merkleLoop (Sum256 C) ?hs) = 1"
    using assms(3) by (cases txs) (simp_all add: length_merkleLoop)
  have "\<forall>x \<in> set (merkleLoop H hs). length x = 32" if "\<And>x. length (H x) = 32" "\<forall>x \<in> set hs. length x = 32" for H :: "bytes \<Rightarrow> bytes" and hs
    using that
  proof (induction H hs rule: merkleLoop.induct)
    case (1 H level)
    show ?case using 1 merkleLevel_lengths [of H level] by (subst merkleLoop.simps) auto
  qed
  from this [of "Sum256 C" ?hs] have "\<forall>x \<in> set (merkleLoop (Sum256 C) ?hs). length x = 32"
    using digest32.length_digest [OF assms(1)] by simp
  then have "length (merkleLoop (Sum256 C) ?hs ! 0) = 32" using len by simp
  then show ?thesis by (simp add: root decodeHash_def)
qed

lemma sized_block:
  assumes "\<forall>tx \<in> set txs. encodedSize tx \<le> MaxTransactionBytes" "e + (\<Sum>tx\<leftarrow>txs. encodedSize tx) \<le> MaxBlockBytes"
  shows "\<exists>n. foldE addEncodedSize e txs = Inr n"
  using assms by (induction txs arbitrary: e) (auto simp: addEncodedSize_def Let_def)

lemma coinbase_facts:
  assumes "NewCoinbase C rnd address h amount = Inr tx"
  shows "Coinbase tx" "Inputs tx = []" "ID tx = ComputeID C tx" "encodedSize tx \<le> 119" "amount \<noteq> 0 \<Longrightarrow> encodedSize tx = 119"
    "Outputs tx = (if amount > 0 then [\<lparr>Amount = amount, Address = address\<rparr>] else [])" "ValidateAddress C address = Inr ()"
proof -
  obtain nonce where a: "ValidateAddress C address = Inr ()" and
    t: "tx = (\<lparr>ID = [], Coinbase = True, TxNonce = nonce XOR h, Inputs = [],
       Outputs = (if amount > 0 then [\<lparr>Amount = amount, Address = address\<rparr>] else [])\<rparr>)
       \<lparr>ID := ComputeID C \<lparr>ID = [], Coinbase = True, TxNonce = nonce XOR h, Inputs = [],
       Outputs = (if amount > 0 then [\<lparr>Amount = amount, Address = address\<rparr>] else [])\<rparr>\<rparr>"
    using assms by (auto simp: NewCoinbase_def res_simps Let_def)
  show "Coinbase tx" "Inputs tx = []" "ID tx = ComputeID C tx" "ValidateAddress C address = Inr ()"
    "Outputs tx = (if amount > 0 then [\<lparr>Amount = amount, Address = address\<rparr>] else [])"
    using a by (simp_all add: t ComputeID_def encodeTransaction_def)
  show "encodedSize tx \<le> 119" "amount \<noteq> 0 \<Longrightarrow> encodedSize tx = 119"
    using ValidateAddress_length [OF a] by (auto simp: t encodedSize_eq word_gt_0)
qed

lemma coinbase_valid:
  assumes "NewCoinbase C rnd address h minted = Inr tx"
  shows "validateCoinbase C tx minted = Inr ()"
  using coinbase_facts [OF assms]
  by (auto simp: validateCoinbase_eq_Inr outputs_ok_def MaxTransactionBytes_def word_gt_0)

text \<open>What a candidate consists of.\<close>

lemma candidate_parts:
  assumes dg: "digest32 (Sum256 C)" and ok: "ledger_ok C now d blocks sts us p st"
    and build: "buildMiningCandidateAtTime C rnd rnd' d address clock = Inr (b, tip)"
  shows "\<exists>s st' coinbase minted. RSeen st' \<subseteq> RSeen st \<and> sel_ok C (next_height blocks) (sts (length blocks - 1)) (chain_trace blocks) 375 s st' \<and>
     length blocks < 9223372036854775808 \<and> tipFromQuery d = Inr tip \<and>
     safeAdd (Subsidy (next_height blocks)) (SelFees s) = Inr minted \<and>
     NewCoinbase C rnd' address (next_height blocks) minted = Inr coinbase \<and>
     nextTimestampAt (header_window blocks) clock = Inr (Timestamp b) \<and>
     expectedDifficultyAt blocks (next_height blocks) (Timestamp b) = Inr (Difficulty b) \<and>
     Version b = BlockVersion (next_height blocks) \<and> Height b = next_height blocks \<and> PreviousHash b = Hash (last blocks) \<and>
     MerkleRoot b = merkleRoot C (Transactions b) \<and> Transactions b = coinbase # SelTransactions s"
proof -
  note o = ledger_okD [OF ok] and r = represents_start [OF ledger_okD(1) [OF ok]] and rows = represents_rows [OF ledger_okD(1) [OF ok]]
  have tip: "TipHash tip = Hash (last blocks)" "TipHeight tip = word_of_nat (length blocks - 1)" if "tipFromQuery d = Inr tip" for tip
    using that represents_tip [OF o(1)] by auto
  have win: "headerWindowFromQuery d (word_of_nat (length blocks - 1)) = Inr (header_window blocks)"
    by (rule headerWindow_chain [OF rows])
  have h: "\<not> uint (word_of_nat (length blocks - 1) :: u64) > MaxInt64 \<and> h = next_height blocks \<and> length blocks < 9223372036854775808"
    if "nextHeight tip = Inr h" "tipFromQuery d = Inr tip" for h tip
    using that nextHeight_tip [OF o(1) that(2)] uint_of_nat_small [of "length blocks - 1"] by (auto simp: MaxInt64_val)
  obtain pending s minted coinbase reserve timestamp difficulty height where q:
    "tipFromQuery d = Inr tip" "mempoolTransactionsFromQuery d = Inr pending" "nextHeight tip = Inr height"
    "NewCoinbase C rnd address height 1 = Inr reserve"
    "selectForBlock C d \<lparr>SelView = newMiningUTXOView height, SelFees = 0, SelTransactions = [],
        SelSize = 256 + encodedSize reserve\<rparr> pending = Inr s"
    "checkedAdd (Subsidy height) (SelFees s) = Inr minted"
    "NewCoinbase C rnd' address height minted = Inr coinbase"
    "nextTimestampAt (header_window blocks) clock = Inr timestamp"
    "expectedDifficultyAt (header_window blocks) height timestamp = Inr difficulty"
    and b: "Version b = BlockVersion height" "Height b = height" "Timestamp b = timestamp" "PreviousHash b = TipHash tip"
      "MerkleRoot b = merkleRoot C (coinbase # SelTransactions s)" "Difficulty b = difficulty"
      "Transactions b = coinbase # SelTransactions s"
    using build represents_tip [OF o(1)] win unfolding buildMiningCandidateAtTime_def
    by (auto simp: res_simps Let_def)
  have hh: "height = next_height blocks" and len: "length blocks < 9223372036854775808"
    using h [OF q(3,1)] by simp_all
  obtain rows' where p: "pending = map MData rows'" "mset rows' = mset (dbMempool d)"
    using mining_order [OF dg o(4)] q(2) by auto
  have inv: "chain_inv st (chain_trace blocks @ map (Pair (next_height blocks)) (pool_txs d))"
    by (rule pool_sim_inv(1) [OF o(4)])
  have pm: "mset pending = mset (pool_txs d)" by (simp add: p pool_txs_def)
  have "distinct (map (ID \<circ> snd) (chain_trace blocks) @ map ID (pool_txs d))"
    using inv by (simp add: chain_inv_def comp_def)
  moreover have "RSeen (sts (length blocks - 1)) = set (map (ID \<circ> snd) (chain_trace blocks))"
    using r(2) by (auto simp: chain_inv_def)
  moreover have "mset (map ID pending) = mset (map ID (pool_txs d))" using pm by simp
  then have "distinct (map ID pending) \<longleftrightarrow> distinct (map ID (pool_txs d))" by (rule mset_eq_imp_distinct_iff)
  moreover have sp: "set pending = set (pool_txs d)" using pm by (rule mset_eq_setD)
  ultimately have d: "distinct (map ID pending)" "\<forall>tx \<in> set pending. ID tx \<notin> RSeen (sts (length blocks - 1))"
    by auto
  have "sel_ok C height (sts (length blocks - 1)) (chain_trace blocks) 375
      \<lparr>SelView = newMiningUTXOView height, SelFees = 0, SelTransactions = [], SelSize = 256 + encodedSize reserve\<rparr>
      (sts (length blocks - 1))"
    using r(2) coinbase_facts(5) [OF q(4)]
    by (simp add: sel_ok_def view_ok_def newMiningUTXOView_def MaxBlockTransactions_def MaxBlockBytes_def)
  from select_loop [OF this r(1) r(4) [folded hh] d q(5)] obtain st' where
    so: "sel_ok C height (sts (length blocks - 1)) (chain_trace blocks) 375 s st'"
    and seen: "RSeen st' \<subseteq> RSeen (sts (length blocks - 1)) \<union> ID ` set pending" by blast
  have "RSeen (sts (length blocks - 1)) \<union> ID ` set pending \<subseteq> RSeen st"
    unfolding sp using inv r(2) by (simp add: chain_inv_def image_Un image_image)
  with seen have "RSeen st' \<subseteq> RSeen st" by blast
  moreover have "expectedDifficultyAt blocks height timestamp = Inr difficulty"
    using q(9) expectedDifficulty_window [OF r(6), of height] len by (simp add: expectedDifficultyAt_def hh next_height_def split: if_splits)
  ultimately show ?thesis using so len q b tip(1) [OF q(1)] hh
    by (intro exI [of _ s] exI [of _ st'] exI [of _ coinbase] exI [of _ minted]) (simp add: checkedAdd_safeAdd)
qed

lemma selected_ids:
  "foldE (replayTransaction C h) (st0, fees0) txs = Inr (st, fees) \<Longrightarrow>
     \<forall>tx \<in> set txs. ID tx = ComputeID C tx \<and> encodedSize tx \<le> MaxTransactionBytes"
proof (induction txs arbitrary: st0 fees0)
  case (Cons tx txs)
  then obtain st1 fees1 u fee where s: "foldE (replayTransaction C h) (st1, fees1) txs = Inr (st, fees)"
    "validateRegularTransaction C tx u = Inr fee"
    by (auto simp: res_simps replayTransaction_def [of C h "(st0, fees0)"])
  have "ID tx = ComputeID C tx" "encodedSize tx \<le> MaxTransactionBytes"
    using s(2) by (auto simp: validateRegularTransaction_def res_simps split: if_splits)
  then show ?case using Cons.IH [OF s(1)] by simp
qed simp

section \<open>The candidate is accepted\<close>

lemma mined_header:
  assumes rep: "represents C now d blocks sts us p" and dg: "digest32 (Sum256 C)"
    and times: "\<forall>r \<in> set (dbBlocks d). BTimestamp r < MaxInt64"
    and ts: "nextTimestampAt (header_window blocks) clock = Inr (Timestamp m)"
    and dif: "expectedDifficultyAt blocks (next_height blocks) (Timestamp m) = Inr (Difficulty m)"
    and fields: "Version m = BlockVersion (next_height blocks)" "Height m = next_height blocks" "PreviousHash m = Hash (last blocks)"
      "MerkleRoot m = merkleRoot C (Transactions m)" "Hash m = ComputeHash C m" "HasValidWork m"
    and late: "Timestamp m \<le> t + MaxFutureSeconds" "t \<le> MaxInt64 - MaxFutureSeconds"
    and txs: "Transactions m \<noteq> []" "length (Transactions m) \<le> MaxBlockTransactions"
      "\<forall>tx \<in> set (Transactions m). ID tx = ComputeID C tx \<and> encodedSize tx \<le> MaxTransactionBytes"
      "256 + (\<Sum>tx\<leftarrow>Transactions m. encodedSize tx) \<le> MaxBlockBytes"
  shows "validateBlockHeaderAtTime C m (last blocks) blocks t = Inr ()"
proof -
  note r = represents_start [OF rep]
  have rp: "replayed C now blocks sts" and db: "dbBlocks d = map (stored_block p blocks) [0..<length blocks]"
    using rep by (simp_all add: represents_def)
  have upper: "Timestamp (blocks ! i) < MaxInt64" if "i < length blocks" for i
    using times that by (auto simp: db stored_block_def block_row_of_def)
  have "MinInt64 \<le> Timestamp b \<and> Timestamp b < MaxInt64" if "b \<in> set blocks" for b
    using that replayed_times [OF rp] upper by (fastforce simp: in_set_conv_nth MinInt64_def)
  then have "\<forall>b \<in> set (header_window blocks). MinInt64 \<le> Timestamp b \<and> Timestamp b < MaxInt64"
    by (auto simp: header_window_def dest: in_set_dropD)
  from nextTimestampAt_ok [OF ts this] have floor: "median_of (past_times blocks) < Timestamp m"
    "RequireMonotonicTimestamp (RulesAtHeight (Height (last blocks) + 1)) \<Longrightarrow> Timestamp (last blocks) < Timestamp m"
    using r(6) by (simp_all add: past_times_window last_window)
  obtain n where n: "length blocks = Suc n" using r(6) by (cases blocks) auto
  have "Height (last blocks) = word_of_nat n" using rp n r(6) by (simp add: replayed_def heights_ok_def last_conv_nth)
  then have h: "Height m = Height (last blocks) + 1" by (simp add: fields(2) next_height_def n add.commute)
  obtain x where x: "decodeHash (merkleRoot C (Transactions m)) = Inr x" using ids_decode [OF dg _ txs(1)] txs(3) by auto
  obtain e where e: "foldE addEncodedSize 256 (Transactions m) = Inr e" using sized_block [of "Transactions m" 256] txs(3,4) by auto
  have late': "\<not> Timestamp m > (if t \<le> MaxInt64 - MaxFutureSeconds then t + MaxFutureSeconds else MaxInt64)" using late by simp
  have "validateHeaderConsensusFields m (last blocks) blocks t = Inr ()"
    using floor h dif x r(6) fields late' unfolding validateHeaderConsensusFields_def
    by (simp add: medianTimePast_eq not_le)
  then show ?thesis using fields txs(1,2) e
    by (simp add: validateBlockHeaderAtTime_def validateHeaderAtTime_def)
qed

lemma mined_body:
  assumes inv: "chain_inv st0 tr" and sel: "sel_ok C (Height m) st0 tr base s st"
    and cb: "NewCoinbase C rnd address (Height m) minted = Inr coinbase"
    and fee: "safeAdd (Subsidy (Height m)) (SelFees s) = Inr minted"
    and txs: "Transactions m = coinbase # SelTransactions s" and new: "ID coinbase \<notin> RSeen st"
  shows "\<exists>st'. replayBody C st0 m = Inr st'"
proof -
  have q: "chain_inv st (tr @ map (Pair (Height m)) (SelTransactions s))"
    "foldE (replayTransaction C (Height m)) (st0, 0) (SelTransactions s) = Inr (st, SelFees s)"
    using sel by (simp_all add: sel_ok_def)
  have wf: "coins_wf (coins_of st)" using q(1) by (simp add: chain_inv_def)
  have "distinct (map fst (new_coins coinbase (Height m) True))"
    by (rule distinct_new_coins) (simp add: coinbase_facts(6) [OF cb])
  moreover have "coins_get (coins_of st) op = None" if "op \<in> fst ` set (new_coins coinbase (Height m) True)" for op
    using fresh_absent [OF q(1) new new_coins_id [OF that]] .
  ultimately have "\<exists>cs. applyOutputs coinbase (Height m) True (coins_of st) = Inr cs"
    unfolding applyOutputs_eq_Inr [OF wf] by simp
  then obtain cs where "applyOutputs coinbase (Height m) True (coins_of st) = Inr cs" ..
  then show ?thesis
    using txs coinbase_facts(1) [OF cb] q(2) new fee coinbase_valid [OF cb] by (simp add: replayBody_def Let_def)
qed

lemma candidate_replays:
  assumes "digest32 (Sum256 C)" and ok: "ledger_ok C now d blocks sts us p st"
    and "buildMiningCandidateAtTime C rnd rnd' d address clock = Inr (b, tip)"
    and "mined = (let b' = b\<lparr>Nonce := n\<rparr> in b'\<lparr>Hash := ComputeHash C b'\<rparr>)" and "HasValidWork mined"
    and "Timestamp b \<le> t + MaxFutureSeconds" and "t \<le> MaxInt64 - MaxFutureSeconds"
    and "ID (hd (Transactions b)) \<notin> TId ` set (dbTransactions d) \<union> MTxId ` set (dbMempool d)"
    and "\<forall>r \<in> set (dbBlocks d). BTimestamp r < MaxInt64"
  shows "\<exists>st'. replayBlock C (\<lambda>_. t) (blocks @ [mined]) (sts (length blocks - 1)) (length blocks) = Inr st' \<and>
     tipFromQuery d = Inr tip \<and> Height mined = Height b"
proof -
  note o = ledger_okD [OF ok] and r = represents_start [OF ledger_okD(1) [OF ok]]
  obtain s st' coinbase minted where c: "RSeen st' \<subseteq> RSeen st"
    "sel_ok C (next_height blocks) (sts (length blocks - 1)) (chain_trace blocks) 375 s st'"
    "length blocks < 9223372036854775808" "tipFromQuery d = Inr tip"
    "safeAdd (Subsidy (next_height blocks)) (SelFees s) = Inr minted"
    "NewCoinbase C rnd' address (next_height blocks) minted = Inr coinbase"
    "nextTimestampAt (header_window blocks) clock = Inr (Timestamp b)"
    "expectedDifficultyAt blocks (next_height blocks) (Timestamp b) = Inr (Difficulty b)"
    "Version b = BlockVersion (next_height blocks)" "Height b = next_height blocks" "PreviousHash b = Hash (last blocks)"
    "MerkleRoot b = merkleRoot C (Transactions b)" "Transactions b = coinbase # SelTransactions s"
    using candidate_parts [OF assms(1) ok assms(3)] by blast
  have m: "Timestamp mined = Timestamp b" "Difficulty mined = Difficulty b" "Version mined = Version b" "Height mined = Height b"
    "PreviousHash mined = PreviousHash b" "MerkleRoot mined = MerkleRoot b" "Transactions mined = Transactions b"
    "Hash mined = ComputeHash C mined"
    by (simp_all add: assms(4) Let_def ComputeHash_def encodeHeader_def)
  have so: "foldE (replayTransaction C (next_height blocks)) (sts (length blocks - 1), 0) (SelTransactions s) = Inr (st', SelFees s)"
    "length (SelTransactions s) < MaxBlockTransactions" "375 + (\<Sum>tx\<leftarrow>SelTransactions s. encodedSize tx) \<le> MaxBlockBytes"
    using c(2) by (simp_all add: sel_ok_def)
  have ids: "\<forall>tx \<in> set (Transactions mined). ID tx = ComputeID C tx \<and> encodedSize tx \<le> MaxTransactionBytes"
    using selected_ids [OF so(1)] coinbase_facts(3,4) [OF c(6)] by (auto simp: m(7) c(13) MaxTransactionBytes_def)
  have "validateBlockHeaderAtTime C mined (last blocks) blocks t = Inr ()"
    by (rule mined_header [OF o(1) assms(1,9) c(7) [folded m(1)] c(8) [folded m(1,2)] c(9) [folded m(3)] c(10) [folded m(4)]
        c(11) [folded m(5)] c(12) [folded m(6,7)] m(8) assms(5) assms(6) [folded m(1)] assms(7) _ _ ids])
      (use so(2,3) coinbase_facts(4) [OF c(6)] in \<open>simp_all add: m(7) c(13)\<close>)
  moreover have "ID coinbase \<notin> RSeen st'"
    using assms(8) c(1,13) o(4) by (auto simp: pool_sim_def)
  then obtain st'' where "replayBody C (sts (length blocks - 1)) mined = Inr st''"
    using mined_body [OF r(2) c(2) [folded c(10) m(4)] c(6) [folded c(10) m(4)] c(5) [folded c(10) m(4)] _] c(13) m(7) by fastforce
  ultimately show ?thesis using c(4) m(4) by (simp add: replayBlock_snoc [OF r(6)])
qed

section \<open>While the tip stays\<close>

text \<open>Operations of the ledger after which the tip is the same: transactions enter the mempool, bodies are pruned, ...\<close>

inductive tip_kept :: "crypto \<Rightarrow> url_library \<Rightarrow> db \<Rightarrow> db \<Rightarrow> bool" for C U d where
  none: "tip_kept C U d d"
| more: "tip_kept C U d e \<Longrightarrow> ledger_step C U e e' \<Longrightarrow> tipFromQuery e' = tipFromQuery e \<Longrightarrow> tip_kept C U d e'"

definition same_end :: "crypto \<Rightarrow> block list \<Rightarrow> replay_state \<Rightarrow> db \<Rightarrow> bool" where
  "same_end C blocks st0 d \<longleftrightarrow> (\<exists>now sts us p st. ledger_ok C now d blocks sts us p st \<and> sts (length blocks - 1) = st0)"

lemma same_endI: "ledger_ok C now d blocks sts us p st \<Longrightarrow> sts (length blocks - 1) = st0 \<Longrightarrow> same_end C blocks st0 d"
  unfolding same_end_def by blast

lemma same_tip_chain:
  assumes "represents C now d blocks sts us p" "represents C now' d' blocks' sts' us' p'" "tipFromQuery d' = tipFromQuery d"
  shows "length blocks' = length blocks" "chain_work blocks' = chain_work blocks"
proof -
  have "word_of_nat (length blocks' - 1) = (word_of_nat (length blocks - 1) :: u64)"
    using assms(3) represents_tip [OF assms(1)] represents_tip [OF assms(2)] by simp
  then have "unat (word_of_nat (length blocks' - 1) :: u64) = unat (word_of_nat (length blocks - 1) :: u64)" by simp
  then have "length blocks' - 1 = length blocks - 1"
    using represents_start(5) [OF assms(1)] represents_start(5) [OF assms(2)] by (simp add: unat_word_of_nat_64)
  moreover have "0 < length blocks" "0 < length blocks'"
    using represents_start(6) [OF assms(1)] represents_start(6) [OF assms(2)] by simp_all
  ultimately show "length blocks' = length blocks" by linarith
  show "chain_work blocks' = chain_work blocks"
    using assms(3) represents_tip [OF assms(1)] represents_tip [OF assms(2)] by simp
qed

text \<open>A step that keeps the tip keeps the blocks and the state they replay to.\<close>

lemma step_keeps_chain:
  assumes ok: "ledger_ok C now d blocks sts us p st" and "ledger_step C U d d'" and tip: "tipFromQuery d' = tipFromQuery d"
  shows "same_end C blocks (sts (length blocks - 1)) d'"
proof -
  note rep = ledger_okD(1) [OF ok]
  have other: False if "ledger_ok C now' d' blocks' sts' us' p' st'" "length blocks' \<noteq> length blocks \<or> chain_work blocks < chain_work blocks'"
    for now' blocks' sts' us' p' st'
    using same_tip_chain [OF rep ledger_okD(1) [OF that(1)] tip] that(2) by simp
  have connected: False if con: "ConnectBlock C t t' d b = Inr d'" for t t' b
    using connect_block_ok(1) [OF ok con] other by fastforce
  have peers: ?thesis if "same_chain d d'"
    by (rule same_endI [OF ledger_ok_cong [OF ok] HOL.refl]) (use that in \<open>simp_all add: same_chain_def\<close>)
  show ?thesis
    using assms(2)
  proof cases
    case (add t tx)
    obtain st' where "ledger_ok C now d' blocks sts us p st'" using add_ok(1) [OF ok add] by (elim exE conjE)
    then show ?thesis by (rule same_endI) (rule HOL.refl)
  next
    case (connect t t' b)
    then show ?thesis by (rule connected [THEN FalseE])
  next
    case (commit t b expected t')
    then have "ConnectBlock C t' t d b = Inr d'"
      by (auto simp: commitMinedBlockAtTime_def ConnectBlock_def res_simps split: if_splits)
    then show ?thesis by (rule connected [THEN FalseE])
  next
    case (disconnect t b)
    obtain st' where "ledger_ok C now d' (butlast blocks) sts us p st'" using disconnect_tip_ok(1) [OF ok disconnect] by blast
    moreover have "length (butlast blocks) \<noteq> length blocks" using represents_start(6) [OF rep] by (cases blocks) auto
    ultimately show ?thesis using other [THEN FalseE] by metis
  next
    case (replace t a n src t')
    obtain new now' sts' us' st' where
      "ledger_ok C now' d' (take (Suc (unat a)) blocks @ new) sts' us' p st'"
      "chain_work blocks < chain_work (take (Suc (unat a)) blocks @ new)"
      using replace_ok [OF ok replace] by (elim exE conjE)
    then show ?thesis by (metis other)
  next
    case (migrate k k' t given)
    obtain s :: state and now' sts' us' st' where m: "blocks = [GenesisBlock C]" "ledger_ok C now' d' (Blocks s) sts' us' p st'"
      using import_ok [OF ok migrate] by blast
    have r: "represents C now' d' (Blocks s) sts' us' p" by (rule ledger_okD(1) [OF m(2)])
    have "length (Blocks s) = 1" using same_tip_chain(1) [OF rep r tip] m(1) by simp
    moreover have "Blocks s ! 0 = GenesisBlock C" using r by (simp add: represents_def replayed_def)
    ultimately have b: "Blocks s = blocks" using m(1) by (cases "Blocks s") auto
    have "sts' 0 = sts 0" using r rep by (simp add: represents_def replayed_def)
    then show ?thesis using same_endI [OF m(2) [unfolded b]] m(1) by simp
  next
    case (prune retain k)
    obtain p' where "ledger_ok C now d' blocks sts us p' st" using prune_ok [OF ok prune] by (elim exE conjE)
    then show ?thesis by (rule same_endI) (rule HOL.refl)
  next
    case (prune_depth depth)
    show ?thesis by (rule same_endI [OF setPruneDepth_ok [OF ok prune_depth] HOL.refl])
  next
    case (close c c')
    show ?thesis unfolding close by (rule same_endI [OF close_ok [OF ok] HOL.refl])
  next
    case (reopen i m q created)
    show ?thesis unfolding reopen by (rule same_endI [OF reopen_ok [OF ok] HOL.refl])
  next
    case (upsert_peer t url m)
    then show ?thesis by (rule peers [OF peers_same(1)])
  next
    case (remove_peer url)
    then show ?thesis by (rule peers [OF peers_same(2)])
  next
    case (peer_success t url seen)
    then show ?thesis by (rule peers [OF peers_same(3)])
  next
    case (peer_failure url upto cause)
    then show ?thesis by (rule peers [OF peers_same(4)])
  next
    case (health t e i)
    then show ?thesis by (rule peers [OF health_same(1)])
  next
    case (resolve i)
    then show ?thesis by (rule peers [OF health_same(2)])
  qed
qed

lemma kept_chain:
  assumes "tip_kept C U d d'" and "ledger_ok C now d blocks sts us p st"
  shows "same_end C blocks (sts (length blocks - 1)) d' \<and> tipFromQuery d' = tipFromQuery d"
  using assms(1)
proof induction
  case none
  then show ?case using same_endI [OF assms(2) HOL.refl] by simp
next
  case (more e e')
  then obtain now1 sts1 us1 p1 st1 where e: "ledger_ok C now1 e blocks sts1 us1 p1 st1" "sts1 (length blocks - 1) = sts (length blocks - 1)"
    by (auto simp: same_end_def)
  show ?case using step_keeps_chain [OF e(1) more.hyps(2,3)] e(2) more by simp
qed

text \<open>
  C17. A mined block commits: the candidate built on a reachable ledger, with any nonce that gives it
  valid work, is accepted at the height it was built for as long as the tip is unchanged, whatever else the
  ledger did in between (transactions that entered the mempool, pruning, restarts), and the clock
  has not fallen more than the allowed drift behind its time; and the mempool is rebuilt. Assumed are
  that the random nonce of the coinbase and the hash are new, and the 64-bit columns have room.
\<close>

theorem candidate_commits:
  assumes "digest32 (Sum256 C)" and "ledger_reachable C U d"
    and "buildMiningCandidateAtTime C rnd rnd' d address clock = Inr (b, tip)"
    and "mined = (let b' = b\<lparr>Nonce := n\<rparr> in b'\<lparr>Hash := ComputeHash C b'\<rparr>)" and "HasValidWork mined"
    and "Timestamp b \<le> t + MaxFutureSeconds" and "t \<le> MaxInt64 - MaxFutureSeconds"
    and "ID (hd (Transactions b)) \<notin> TId ` set (dbTransactions d) \<union> MTxId ` set (dbMempool d)"
    and "Hash mined \<notin> BHash ` set (dbBlocks d)" and "\<forall>r \<in> set (dbBlocks d). BTimestamp r < MaxInt64"
    and "uint (Height b) < MaxInt64" and "tip_kept C U d e" and "dbMempoolSeq e + int (length (dbMempool e)) \<le> MaxInt64"
  shows "\<exists>d'. commitMinedBlockAtTime C t' e mined tip t = Inr d'"
proof -
  obtain now blocks sts us p st where ok: "ledger_ok C now d blocks sts us p st"
    using ledger_reachable_ok [OF assms(2)] by blast
  obtain st' where step: "replayBlock C (\<lambda>_. t) (blocks @ [mined]) (sts (length blocks - 1)) (length blocks) = Inr st'"
    and tip: "tipFromQuery d = Inr tip" and h: "Height mined = Height b"
    using candidate_replays [OF assms(1) ok assms(3-8,10)] by blast
  have db: "dbBlocks d = map (stored_block p blocks) [0..<length blocks]"
    using ledger_okD(1) [OF ok] by (simp add: represents_def)
  have hash: "\<forall>b' \<in> set blocks. Hash b' \<noteq> Hash mined"
  proof
    fix b' assume "b' \<in> set blocks"
    then obtain i where "i < length blocks" "b' = blocks ! i" by (auto simp: in_set_conv_nth)
    then have "Hash b' \<in> BHash ` set (dbBlocks d)" by (force simp: db stored_block_def block_row_of_def)
    with assms(9) show "Hash b' \<noteq> Hash mined" by metis
  qed
  obtain now1 sts1 us1 p1 st1 where e: "ledger_ok C now1 e blocks sts1 us1 p1 st1" "sts1 (length blocks - 1) = sts (length blocks - 1)"
    "tipFromQuery e = Inr tip"
    using kept_chain [OF assms(12) ok] tip by (auto simp: same_end_def)
  obtain d1 where d1: "connectBlockAtTime C e mined t = Inr d1"
    using connect_complete [OF ledger_okD(1) [OF e(1)] step [folded e(2)] _ hash] assms(11) by (auto simp: h)
  obtain d' where "ConnectBlock C t t' e mined = Inr d'"
    using connected_commits [OF e(1) d1 _ assms(13)] assms(11) h by auto
  then show ?thesis using e(3) d1 by (auto simp: commitMinedBlockAtTime_def ConnectBlock_def res_simps)
qed

text \<open>
  On the ledger of 100 sample blocks the candidate is the reward of the next block; before it is committed
  the payment of Sample_Chain enters the mempool.
\<close>

lemma candidate_sample:
  assumes "sample_ledger U 100 d"
  shows "\<exists>b tip. buildMiningCandidateAtTime sample_crypto (Inr 0) (Inr 0) d sample_address 1783990000 = Inr (b, tip) \<and>
     Timestamp b = 1783990000 \<and> Height b = 101 \<and> Difficulty b = 22 \<and> Transactions b = [reward 101]"
proof -
  let ?bs = "blocks_upto 100"
  obtain now sts us st where ok: "ledger_ok sample_crypto now d ?bs sts us 0 st" and pool: "pool_txs d = []"
    using assms by (auto simp: sample_ledger_def)
  note o = ledger_okD [OF ok]
  have pend: "mempoolTransactionsFromQuery d = Inr []"
    using mining_order [OF digest32_sample o(4)] pool by (auto simp: pool_txs_def)
  obtain tip where tip: "tipFromQuery d = Inr tip" "TipHeight tip = 100"
    using represents_tip [OF o(1)] by simp
  have win: "headerWindowFromQuery d 100 = Inr (header_window ?bs)"
    using headerWindow_chain [OF represents_rows [OF o(1)]] by simp
  have last: "go_index (header_window ?bs) (int (length (header_window ?bs)) - 1) = Inr (header_of (last ?bs))"
    using go_index_last [of "header_window ?bs"] last_window [of ?bs] by simp
  have hundred: "word_of_nat 100 = (100 :: u64)" "word_of_nat 101 = (101 :: u64)" by simp_all
  have rules: "RulesAtHeight 101 = \<lparr>RulesVersion = 1, RulesDifficulty = LegacyEpochDifficulty, RequireMonotonicTimestamp = False\<rparr>"
    using rules_low [of 101] by simp
  have "median_of (past_times ?bs) \<in> Timestamp ` set ?bs"
    using median_of_mem [of "past_times ?bs"] by (auto simp: past_times_def dest: in_set_dropD)
  then have "0 \<le> median_of (past_times ?bs)"
    using replayed_times [of sample_crypto now ?bs sts] o(1) by (fastforce simp: represents_def in_set_conv_nth)
  then have "wrap64 (median_of (past_times ?bs) + 1) = median_of (past_times ?bs) + 1" "median_of (past_times ?bs) + 1 \<le> 1783990000"
    using blocks_upto_median [of 100] by (simp_all add: in_int64_def MinInt64_def MaxInt64_def)
  then have ts: "nextTimestampAt (header_window ?bs) 1783990000 = Inr 1783990000"
    using last last_height [of 100] rules by (simp add: nextTimestampAt_def medianTimePast_window medianTimePast_eq Let_def hundred)
  have dif: "expectedDifficultyAt (header_window ?bs) 101 1783990000 = Inr 22"
    using expectedDifficulty_window [of ?bs 101] difficulty_low [of 100] rules by (simp add: expectedDifficultyAt_def)
  have cb: "NewCoinbase sample_crypto (Inr 0) sample_address 101 v =
      Inr (let tx = \<lparr>ID = [], Coinbase = True, TxNonce = 101, Inputs = [],
               Outputs = (if v > 0 then [\<lparr>Amount = v, Address = sample_address\<rparr>] else [])\<rparr> in tx\<lparr>ID := ComputeID sample_crypto tx\<rparr>)" for v
    by (simp add: NewCoinbase_def)
  have "Subsidy 101 = 6341959" using subsidy_low [of 101] by simp
  moreover have "checkedAdd (Subsidy 101) 0 = Inr (Subsidy 101)" by (simp add: checkedAdd_safeAdd safeAdd_def)
  ultimately show ?thesis
    using tip win pend ts cb dif
    by (simp add: buildMiningCandidateAtTime_def nextHeight_def MaxInt64_def Let_def reward_def)
qed

lemma sample_rows:
  assumes "sample_ledger U 100 d"
  shows "r \<in> set (dbBlocks d) \<Longrightarrow> \<exists>b \<in> set (blocks_upto 100). BHash r = Hash b \<and> BTimestamp r = Timestamp b"
    and "TId ` set (dbTransactions d) = RSeen (state_upto 100)" "dbMempool d = []" "dbMempoolSeq d = 0"
proof -
  obtain now sts us st where ok: "ledger_ok sample_crypto now d (blocks_upto 100) sts us 0 st" "sts 100 = state_upto 100"
    using assms by (auto simp: sample_ledger_def)
  note rep = ledger_okD(1) [OF ok(1)]
  show "TId ` set (dbTransactions d) = RSeen (state_upto 100)"
    using represents_start(1) [OF rep] ok(2) by (simp add: ledger_sim_def)
  show "dbMempool d = []" "dbMempoolSeq d = 0" using sample_pool_part [OF assms] by (simp_all add: pool_part_def)
  assume "r \<in> set (dbBlocks d)"
  then obtain i where i: "i < 101" "BHash r = Hash (blocks_upto 100 ! i)" "BTimestamp r = Timestamp (blocks_upto 100 ! i)"
    using rep by (auto simp: represents_def stored_block_def block_row_of_def)
  have "blocks_upto 100 ! i \<in> set (blocks_upto 100)" using i(1) by (intro nth_mem) simp
  with i show "\<exists>b \<in> set (blocks_upto 100). BHash r = Hash b \<and> BTimestamp r = Timestamp b" by blast
qed

lemma sample_admitted:
  assumes "sample_ledger U 100 d"
  shows "\<exists>e. AddTransaction sample_crypto t d spend_reward = Inr e \<and> pool_txs e = [spend_reward] \<and>
     tip_kept sample_crypto U d e \<and> dbMempoolSeq e + int (length (dbMempool e)) \<le> MaxInt64"
proof -
  obtain now sts us st where ok: "ledger_ok sample_crypto now d (blocks_upto 100) sts us 0 st"
    using assms by (auto simp: sample_ledger_def)
  obtain e where e: "AddTransaction sample_crypto t d spend_reward = Inr e" "pool_txs e = [spend_reward]"
    using sample_add [OF assms] by blast
  obtain fee where fee: "e = admitted_db d spend_reward t fee" using e(1) add_exactly [OF ok] by blast
  have "tip_kept sample_crypto U d e"
    by (rule tip_kept.more [OF tip_kept.none ledger_step.add [OF e(1)]]) (simp add: fee tipFromQuery_def admitted_db_def)
  moreover have "dbMempoolSeq e + int (length (dbMempool e)) \<le> MaxInt64"
    using sample_rows(3,4) [OF assms] by (simp add: fee admitted_db_def MaxInt64_def)
  ultimately show ?thesis using e by blast
qed

theorem candidate_commits_witness:
  "\<exists>d b tip e mined d'. buildMiningCandidateAtTime sample_crypto (Inr 0) (Inr 0) d sample_address 1783990000 = Inr (b, tip) \<and>
     AddTransaction sample_crypto 3 d spend_reward = Inr e \<and> pool_txs e = [spend_reward] \<and>
     commitMinedBlockAtTime sample_crypto 7 e mined tip 1783990000 = Inr d'"
proof -
  obtain d where d: "sample_ledger no_urls 100 d" "ledger_reachable sample_crypto no_urls d" using sample_reachable by blast
  note rows = sample_rows [OF d(1)]
  obtain e where e: "AddTransaction sample_crypto 3 d spend_reward = Inr e" "pool_txs e = [spend_reward]"
    "tip_kept sample_crypto no_urls d e" "dbMempoolSeq e + int (length (dbMempool e)) \<le> MaxInt64"
    using sample_admitted [OF d(1)] by blast
  obtain b tip where b: "buildMiningCandidateAtTime sample_crypto (Inr 0) (Inr 0) d sample_address 1783990000 = Inr (b, tip)"
    "Timestamp b = 1783990000" "Height b = 101" "Difficulty b = 22" "Transactions b = [reward 101]"
    using candidate_sample [OF d(1)] by blast
  define mined where "mined = (let b' = b\<lparr>Nonce := 3\<rparr> in b'\<lparr>Hash := ComputeHash sample_crypto b'\<rparr>)"
  have m: "Hash mined = ComputeHash sample_crypto mined" "Height mined = 101" "Difficulty mined = 22"
    using b by (simp_all add: mined_def Let_def ComputeHash_def encodeHeader_def)
  have "(2::nat) ^ 48 \<le> 2 ^ 234" by (intro power_increasing) simp_all
  then have work: "HasValidWork mined"
    using less_le_trans [OF sample_digest_small]
    by (simp add: HasValidWork_iff m(1,3) ComputeHash_def decodeHash_hashHex [OF digest32_sample])
  have hash: "Hash mined \<noteq> Hash b'" if "b' \<in> set (blocks_upto 100)" for b'
    using blocks_upto_hash [OF that] block_hash_height [of mined b'] m(1,2) by auto
  then have fresh: "Hash mined \<notin> BHash ` set (dbBlocks d)" using rows(1) by (metis image_iff)
  have id: "ID (hd (Transactions b)) \<notin> TId ` set (dbTransactions d) \<union> MTxId ` set (dbMempool d)"
  proof
    assume "ID (hd (Transactions b)) \<in> TId ` set (dbTransactions d) \<union> MTxId ` set (dbMempool d)"
    then obtain k where "k \<le> 100" "ID (reward 101) = ID (reward k)" by (auto simp: rows(2,3) b(5) state_upto_def)
    then show False using ID_reward_inj [of 101 k] by simp
  qed
  have times: "\<forall>r \<in> set (dbBlocks d). BTimestamp r < MaxInt64"
    using rows(1) blocks_upto_times [of _ 100] by (fastforce simp: MaxInt64_def)
  have "\<exists>d'. commitMinedBlockAtTime sample_crypto 7 e mined tip 1783990000 = Inr d'"
    by (rule candidate_commits [OF digest32_sample d(2) b(1) mined_def work _ _ id fresh times _ e(3,4)])
      (simp_all add: b MaxFutureSeconds_def MaxInt64_def)
  with b(1) e show ?thesis by blast
qed

end
