(* ===== verification/Payment.thy ===== *)
theory Payment
  imports Transaction_Props Mempool
begin

text \<open>
  \<open>internal/node/payment.go\<close> and the sending part of \<open>internal/node/service.go\<close>: how the node
  turns a payment request into a transaction of the active wallet. A payment is previewed, prepared
  with a fee that meets the relay minimum, and committed later, after its sender has journaled it;
  \<open>CommitPreparedPayment\<close> checks again all that could have changed in between.

  The mutexes and the wait group only order concurrent calls: an operation is a function of the
  service and returns the new one. What the operation hands to \<open>broadcastTransaction\<close> is part of
  its result.
\<close>

section \<open>The service\<close>

datatype KeySource = KeyMnemonic | KeyLegacy

record wallet_material =
  MtWallet :: wallet
  MtMnemonic :: string
  MtSource :: KeySource
  MtDerivation :: string

text \<open>The fields of \<open>Service\<close> the wallet and payment operations use.\<close>

record service =
  SvcClosing :: bool
  SvcLedger :: "db option"
  SvcMaterial :: "wallet_material option"
  SvcWallet :: wallet
  SvcSeedMode :: bool
  SvcNeedsBackup :: bool
  SvcGeneration :: u64
  SvcMining :: bool
  SvcMiningJobs :: int

record PaymentPreview =
  PrWallet :: string
  PrRecipient :: string
  PrAmount :: u64
  PrEstimatedFee :: u64
  PrMaximumFee :: u64
  PrTotalDebit :: u64
  PrSpendableBalance :: u64
  PrHasSufficientFunds :: bool
  PrWalletNeedsBackup :: bool

definition ErrPaymentWalletChanged :: go_error where
  "ErrPaymentWalletChanged = Errorf ''active wallet changed after payment review''"

definition ErrPaymentFeeExceeded :: go_error where
  "ErrPaymentFeeExceeded = Errorf ''payment fee exceeds the reviewed ceiling''"

definition ErrWalletRecoveryRequired :: go_error where
  "ErrWalletRecoveryRequired = Errorf ''wallet recovery must be secured before Agent Pay''"

definition ErrSeedModeWalletUnavailable :: go_error where
  "ErrSeedModeWalletUnavailable = Errorf ''wallet transactions and mining are unavailable in seed mode''"

section \<open>Checks\<close>

definition validatePaymentArguments :: "crypto \<Rightarrow> string \<Rightarrow> string \<Rightarrow> u64 \<Rightarrow> unit res" where
  "validatePaymentArguments C expectedWallet to amount =
     attempt (ValidateAddress C expectedWallet) (\<lambda>_.
     attempt (ValidateAddress C to) (\<lambda>_.
     if amount = 0 then Inl (Errorf ''payment amount must be greater than zero'') else Inr ()))"

text \<open>The ledger, the active wallet and whether it still needs a backup.\<close>

definition paymentWallet :: "crypto \<Rightarrow> service \<Rightarrow> string \<Rightarrow> (db \<times> wallet \<times> bool) res" where
  "paymentWallet C s expectedWallet =
     (case (SvcLedger s, SvcMaterial s) of
        (Some chain, Some _) \<Rightarrow>
          if SvcClosing s then Inl (Errorf ''node is closed'')
          else if SvcSeedMode s then Inl ErrSeedModeWalletUnavailable
          else if \<not> AddressesEqual C expectedWallet (WAddress (SvcWallet s)) then Inl ErrPaymentWalletChanged
          else Inr (chain, SvcWallet s, SvcNeedsBackup s)
      | _ \<Rightarrow> Inl (Errorf ''node is closed''))"

text \<open>The loop over the outputs: how many of them pay the merchant, every other one being change.\<close>

definition countMerchantOutput :: "crypto \<Rightarrow> string \<Rightarrow> string \<Rightarrow> u64 \<Rightarrow> int \<Rightarrow> tx_output \<Rightarrow> int res" where
  "countMerchantOutput C expectedWallet to amount merchantOutputs output =
     (if AddressesEqual C (Address output) to \<and> Amount output = amount then Inr (merchantOutputs + 1)
      else if AddressesEqual C (Address output) expectedWallet then Inr merchantOutputs
      else Inl (Errorf ''prepared payment contains an unexpected output''))"

definition validatePreparedPayment :: "crypto \<Rightarrow> string \<Rightarrow> string \<Rightarrow> u64 \<Rightarrow> transaction \<Rightarrow> unit res" where
  "validatePreparedPayment C expectedWallet to amount tx =
     (if Coinbase tx \<or> ID tx = [] \<or> ID tx \<noteq> ComputeID C tx \<or> Inputs tx = []
      then Inl (Errorf ''prepared payment transaction is invalid'')
      else attempt (foldE (countMerchantOutput C expectedWallet to amount) 0 (Outputs tx)) (\<lambda>merchantOutputs.
        if merchantOutputs \<noteq> 1
        then Inl (Errorf ''prepared payment must contain exactly one invoice output'')
        else checkAll (\<lambda>input.
          if \<not> AddressesEqual C (AddressFromPublicKey C (PublicKey input)) expectedWallet
          then Inl (Errorf ''prepared payment input belongs to a different wallet'') else Inr ()) (Inputs tx)))"

section \<open>Building\<close>

text \<open>
  The loop of \<open>buildRecommendedPayment\<close>, which raises the fee until it pays for the size of the
  transaction it gives. Each attempt signs anew and draws a new nonce: \<open>signers\<close> and \<open>rnds\<close> give the
  results of the calls of attempt \<open>n\<close>.
\<close>

function recommendedLoop ::
    "crypto \<Rightarrow> (nat \<Rightarrow> signer) \<Rightarrow> (nat \<Rightarrow> u64 res) \<Rightarrow> wallet \<Rightarrow> string \<Rightarrow> u64 \<Rightarrow> utxo \<Rightarrow> nat \<Rightarrow> u64 \<Rightarrow>
     (transaction \<times> u64) res" where
  "recommendedLoop C signers rnds w to amount utxo n fee =
     attempt (BuildTransaction C (signers n) (rnds n) w to amount fee utxo) (\<lambda>tx.
     let required = minimumRelayFee (int (encodedSize tx)) in
     if fee \<ge> required then Inr (tx, fee)
     else if n \<ge> MaxTransactionInputs then Inl (Errorf ''automatic fee calculation did not converge'')
     else recommendedLoop C signers rnds w to amount utxo (n + 1) required)"
  by pat_completeness auto

termination
  by (relation "measure (\<lambda>(_, _, _, _, _, _, _, n, _). Suc MaxTransactionInputs - n)") auto

declare recommendedLoop.simps [simp del]

definition buildRecommendedPayment ::
    "crypto \<Rightarrow> (nat \<Rightarrow> signer) \<Rightarrow> (nat \<Rightarrow> u64 res) \<Rightarrow> wallet \<Rightarrow> string \<Rightarrow> u64 \<Rightarrow> utxo \<Rightarrow> (transaction \<times> u64) res" where
  "buildRecommendedPayment C signers rnds w to amount utxo =
     recommendedLoop C signers rnds w to amount utxo 0 (minimumRelayFee 1)"

definition conservativeFeeCeiling :: "transaction \<Rightarrow> u64 \<Rightarrow> u64" where
  "conservativeFeeCeiling tx estimated =
     (let maximumSize = int (encodedSize tx) + int (length (Inputs tx)) * 8 + 32
      in max estimated (minimumRelayFee maximumSize))"

definition addPaymentAmounts :: "u64 \<Rightarrow> u64 \<Rightarrow> u64 res" where
  "addPaymentAmounts left right =
     (if left > MaxUint64 - right then Inl (Errorf ''payment total exceeds the amount range'')
      else Inr (left + right))"

section \<open>The operations\<close>

definition PreviewRecommendedPayment ::
    "crypto \<Rightarrow> (nat \<Rightarrow> signer) \<Rightarrow> (nat \<Rightarrow> u64 res) \<Rightarrow> service \<Rightarrow> string \<Rightarrow> string \<Rightarrow> u64 \<Rightarrow> PaymentPreview res" where
  "PreviewRecommendedPayment C signers rnds s expectedWallet to amount =
     attempt (validatePaymentArguments C expectedWallet to amount) (\<lambda>_.
     attempt (paymentWallet C s expectedWallet) (\<lambda>(chain, wallet, needsBackup).
     attempt (LedgerSpendableUTXO C chain (WAddress wallet)) (\<lambda>utxo.
     attempt (LedgerBalances C chain (WAddress wallet)) (\<lambda>(_, spendable).
     let built = buildRecommendedPayment C signers rnds wallet to amount utxo;
         estimated = (case built of Inr (_, fee) \<Rightarrow> fee | Inl _ \<Rightarrow> minimumRelayFee 1);
         ceiling = (case built of Inr (tx, fee) \<Rightarrow> conservativeFeeCeiling tx fee | Inl _ \<Rightarrow> estimated)
     in attempt (addPaymentAmounts amount ceiling) (\<lambda>debit.
        case built of
          Inl buildErr \<Rightarrow>
            if spendable \<ge> debit then Inl buildErr
            else Inr \<lparr>PrWallet = WAddress wallet, PrRecipient = to, PrAmount = amount,
              PrEstimatedFee = estimated, PrMaximumFee = ceiling, PrTotalDebit = debit,
              PrSpendableBalance = spendable, PrHasSufficientFunds = False, PrWalletNeedsBackup = needsBackup\<rparr>
        | Inr _ \<Rightarrow>
            Inr \<lparr>PrWallet = WAddress wallet, PrRecipient = to, PrAmount = amount,
              PrEstimatedFee = estimated, PrMaximumFee = ceiling, PrTotalDebit = debit,
              PrSpendableBalance = spendable, PrHasSufficientFunds = spendable \<ge> debit,
              PrWalletNeedsBackup = needsBackup\<rparr>)))))"

definition PrepareRecommendedPayment ::
    "crypto \<Rightarrow> (nat \<Rightarrow> signer) \<Rightarrow> (nat \<Rightarrow> u64 res) \<Rightarrow> service \<Rightarrow> string \<Rightarrow> string \<Rightarrow> u64 \<Rightarrow> u64 \<Rightarrow>
     (transaction \<times> u64) res" where
  "PrepareRecommendedPayment C signers rnds s expectedWallet to amount maximumFee =
     attempt (validatePaymentArguments C expectedWallet to amount) (\<lambda>_.
     if maximumFee = 0 then Inl (Errorf ''payment fee ceiling must be greater than zero'')
     else attempt (paymentWallet C s expectedWallet) (\<lambda>(chain, wallet, needsBackup).
       if needsBackup then Inl ErrWalletRecoveryRequired
       else attempt (LedgerSpendableUTXO C chain (WAddress wallet)) (\<lambda>utxo.
         attempt (buildRecommendedPayment C signers rnds wallet to amount utxo) (\<lambda>(tx, fee).
         if fee > maximumFee then Inl ErrPaymentFeeExceeded else Inr (tx, fee)))))"

text \<open>\<open>errors.Is(err, ledger.ErrTransactionAlreadyKnown)\<close>: the mempool wraps the error once.\<close>

definition isAlreadyKnown :: "go_error \<Rightarrow> bool" where
  "isAlreadyKnown e \<longleftrightarrow> e = ErrTransactionAlreadyKnown \<or> e = MempoolRejection ErrTransactionAlreadyKnown"

definition CommitPreparedPayment ::
    "crypto \<Rightarrow> int \<Rightarrow> service \<Rightarrow> string \<Rightarrow> string \<Rightarrow> u64 \<Rightarrow> u64 \<Rightarrow> u64 \<Rightarrow> transaction \<Rightarrow>
     (service \<times> transaction list) res" where
  "CommitPreparedPayment C now s expectedWallet to amount fee maximumFee tx =
     attempt (validatePaymentArguments C expectedWallet to amount) (\<lambda>_.
     if fee = 0 \<or> fee > maximumFee then Inl ErrPaymentFeeExceeded
     else attempt (validatePreparedPayment C expectedWallet to amount tx) (\<lambda>_.
       attempt (paymentWallet C s expectedWallet) (\<lambda>(chain, _, needsBackup).
       if needsBackup then Inl ErrWalletRecoveryRequired
       else attempt (LedgerSpendableUTXO C chain expectedWallet) (\<lambda>utxo.
         let validated = validateRegularTransaction C tx utxo in
         if (\<exists>f. validated = Inr f \<and> f \<noteq> fee)
         then Inl (Errorf ''prepared payment fee does not match its journal'')
         else if (\<exists>f. validated = Inr f \<and> f > maximumFee) then Inl ErrPaymentFeeExceeded
         else case AddTransaction C now chain tx of
           Inr chain' \<Rightarrow> Inr (s\<lparr>SvcLedger := Some chain'\<rparr>, [tx])
         | Inl e \<Rightarrow> if isAlreadyKnown e then Inr (s, [tx]) else Inl e))))"

definition SendRecommendedFrom ::
    "crypto \<Rightarrow> (nat \<Rightarrow> signer) \<Rightarrow> (nat \<Rightarrow> u64 res) \<Rightarrow> int \<Rightarrow> service \<Rightarrow> string \<Rightarrow> string \<Rightarrow> u64 \<Rightarrow> u64 \<Rightarrow>
     (service \<times> transaction list \<times> transaction \<times> u64) res" where
  "SendRecommendedFrom C signers rnds now s expectedWallet to amount maximumFee =
     attempt (PrepareRecommendedPayment C signers rnds s expectedWallet to amount maximumFee) (\<lambda>(tx, fee).
     attempt (CommitPreparedPayment C now s expectedWallet to amount fee maximumFee tx) (\<lambda>(s, sent).
     Inr (s, sent, tx, fee)))"

text \<open>
  \<open>sendTransaction\<close>, the wallet's own payment: a fixed fee skips the fee loop, which otherwise is the
  one above.
\<close>

definition sendTransaction ::
    "crypto \<Rightarrow> (nat \<Rightarrow> signer) \<Rightarrow> (nat \<Rightarrow> u64 res) \<Rightarrow> int \<Rightarrow> service \<Rightarrow> string \<Rightarrow> u64 \<Rightarrow> u64 option \<Rightarrow>
     (service \<times> transaction list \<times> transaction \<times> u64) res" where
  "sendTransaction C signers rnds now s to amount fixedFee =
     (case SvcLedger s of
        None \<Rightarrow> Inl (Errorf ''node is closed'')
      | Some chain \<Rightarrow>
        if SvcClosing s then Inl (Errorf ''node is closed'')
        else if SvcSeedMode s then Inl ErrSeedModeWalletUnavailable
        else attempt (LedgerSpendableUTXO C chain (WAddress (SvcWallet s))) (\<lambda>utxo.
          attempt (case fixedFee of
              Some fee \<Rightarrow> attempt (BuildTransaction C (signers 0) (rnds 0) (SvcWallet s) to amount fee utxo) (\<lambda>tx. Inr (tx, fee))
            | None \<Rightarrow> recommendedLoop C signers rnds (SvcWallet s) to amount utxo 0 (minimumRelayFee 1)) (\<lambda>(tx, fee).
          attempt (AddTransaction C now chain tx) (\<lambda>chain'.
          Inr (s\<lparr>SvcLedger := Some chain'\<rparr>, [tx], tx, fee)))))"

definition Send ::
    "crypto \<Rightarrow> (nat \<Rightarrow> signer) \<Rightarrow> (nat \<Rightarrow> u64 res) \<Rightarrow> int \<Rightarrow> service \<Rightarrow> string \<Rightarrow> string \<Rightarrow> string \<Rightarrow>
     (service \<times> transaction list \<times> transaction) res" where
  "Send C signers rnds now s to amountText feeText =
     attempt (ParseAmount amountText) (\<lambda>amount.
     attempt (ParseAmount feeText) (\<lambda>fee.
     attempt (sendTransaction C signers rnds now s to amount (Some fee)) (\<lambda>(s, sent, tx, _). Inr (s, sent, tx))))"

definition SendRecommended ::
    "crypto \<Rightarrow> (nat \<Rightarrow> signer) \<Rightarrow> (nat \<Rightarrow> u64 res) \<Rightarrow> int \<Rightarrow> service \<Rightarrow> string \<Rightarrow> string \<Rightarrow>
     (service \<times> transaction list \<times> transaction \<times> u64) res" where
  "SendRecommended C signers rnds now s to amountText =
     attempt (ParseAmount amountText) (\<lambda>amount. sendTransaction C signers rnds now s to amount None)"

end
