(* ===== verification/Payment_Props.thy ===== *)
theory Payment_Props
  imports Sample_Chain Payment
begin

text \<open>
  The payment operations compose: what \<open>PrepareRecommendedPayment\<close> returns meets the relay policy and
  the reviewed fee ceiling, and passes every check \<open>CommitPreparedPayment\<close> makes before it hands the
  transaction to the mempool.
\<close>

section \<open>The fee loop\<close>

lemma recommendedLoop_ok:
  assumes "recommendedLoop C signers rnds w to amount utxo n fee = Inr (tx, f)"
  shows "\<exists>k. BuildTransaction C (signers k) (rnds k) w to amount f utxo = Inr tx \<and>
     minimumRelayFee (int (encodedSize tx)) \<le> f \<and> fee \<le> f"
  using assms
proof (induction C signers rnds w to amount utxo n fee rule: recommendedLoop.induct)
  case (1 C signers rnds w to amount utxo n fee)
  from "1.prems" obtain t where t: "BuildTransaction C (signers n) (rnds n) w to amount fee utxo = Inr t"
    and rest: "(if fee \<ge> minimumRelayFee (int (encodedSize t)) then Inr (t, fee)
       else if n \<ge> MaxTransactionInputs then Inl (Errorf ''automatic fee calculation did not converge'')
       else recommendedLoop C signers rnds w to amount utxo (n + 1) (minimumRelayFee (int (encodedSize t)))) = Inr (tx, f)"
    by (subst (asm) recommendedLoop.simps) (auto simp: attempt_eq_Inr Let_def)
  show ?case
  proof (cases "fee \<ge> minimumRelayFee (int (encodedSize t))")
    case True
    with rest t show ?thesis by auto
  next
    case False
    with rest have n: "\<not> n \<ge> MaxTransactionInputs"
      and r: "recommendedLoop C signers rnds w to amount utxo (n + 1) (minimumRelayFee (int (encodedSize t))) = Inr (tx, f)"
      by (auto split: if_splits)
    from "1.IH" [OF t refl False n r] False show ?thesis by (meson linorder_le_cases order_trans)
  qed
qed

lemma minimumRelayFee_1: "0 < minimumRelayFee 1"
  by (simp add: minimumRelayFee_def mempoolRelayFeeKibiByteUnits_def MinimumRelayFeePerKibiByte_def word_gt_0)

section \<open>What a built payment holds\<close>

lemma built_payment:
  assumes "BuildTransaction C signer rnd w to amount fee u = Inr tx" and "privateKey C w = Inr (d, pub)"
  obtains change where
    "Outputs tx = \<lparr>Amount = amount, Address = to\<rparr> # (if change > 0 then [\<lparr>Amount = change, Address = WAddress w\<rparr>] else [])"
    "\<And>input. input \<in> set (Inputs tx) \<Longrightarrow> AddressFromPublicKey C (PublicKey input) = WAddress w"
    "Coinbase tx = False" "ID tx = ComputeID C tx" "ValidateAddress C (WAddress w) = Inr ()"
proof -
  obtain needed k total nonce t1 where key: "PublicKeyBytes C w = Inr (MarshalPoint pub)"
    and sign: "foldE (signInput C signer d (map snd (take k (payable C w u))))
       (unsigned_payment nonce (MarshalPoint pub) (take k (payable C w u)) to amount (total - needed) (WAddress w))
       [0..<length (take k (payable C w u))] = Inr t1"
    and tx: "tx = t1\<lparr>ID := ComputeID C t1\<rparr>"
    by (rule BuildTransaction_steps [OF assms])
  let ?t0 = "unsigned_payment nonce (MarshalPoint pub) (take k (payable C w u)) to amount (total - needed) (WAddress w)"
  have strip: "strip t1 = strip ?t0" using sign_loop [OF _ sign] by simp
  note sel = strip_sel [OF strip]
  have "map (PublicKey \<circ> (\<lambda>i. i\<lparr>Signature := []\<rparr>)) (Inputs t1) = map (PublicKey \<circ> (\<lambda>i. i\<lparr>Signature := []\<rparr>)) (Inputs ?t0)"
    using arg_cong [where f = "map PublicKey", OF conjunct2 [OF conjunct2 [OF conjunct2 [OF sel]]]] by (simp only: map_map)
  then have "map PublicKey (Inputs t1) = replicate (length (take k (payable C w u))) (MarshalPoint pub)"
    by (simp add: comp_def unsignedInput_def map_replicate_const)
  then have keys: "PublicKey ` set (Inputs t1) \<subseteq> {MarshalPoint pub}"
    by (metis set_map set_replicate_conv_if empty_subsetI order_refl)
  note addr = PublicKeyBytes_eq_Inr [OF key assms(2)]
  show thesis
  proof (rule that)
    show "Outputs tx = \<lparr>Amount = amount, Address = to\<rparr> #
        (if total - needed > 0 then [\<lparr>Amount = total - needed, Address = WAddress w\<rparr>] else [])"
      using sel by (simp add: tx)
    show "AddressFromPublicKey C (PublicKey input) = WAddress w" if "input \<in> set (Inputs tx)" for input
      using that keys addr by (auto simp: tx)
  qed (use sel addr in \<open>simp_all add: tx\<close>)
qed

lemma scanSpendable_distinct:
  assumes "foldE scanSpendable u rows = Inr u'" "distinct (map fst u)"
  shows "distinct (map fst u')"
  using assms(1)
  by (rule foldE_invariant [where P = "\<lambda>u. distinct (map fst u)"])
    (auto simp: assms(2) scanSpendable_def distinct_update split: prod.splits if_splits)

lemma LedgerSpendableUTXO_distinct: "LedgerSpendableUTXO C d a = Inr u \<Longrightarrow> distinct (map fst u)"
  by (auto simp: LedgerSpendableUTXO_def spendableUTXO_def res_simps intro: scanSpendable_distinct)

lemma prepared_checks:
  assumes "Outputs tx = \<lparr>Amount = amount, Address = to\<rparr> # (if change > 0 then [\<lparr>Amount = change, Address = back\<rparr>] else [])"
    and "\<And>input. input \<in> set (Inputs tx) \<Longrightarrow> AddressFromPublicKey C (PublicKey input) = back"
    and "Coinbase tx = False" "ID tx = ComputeID C tx" "ID tx \<noteq> []" "Inputs tx \<noteq> []"
    and "ValidateAddress C to = Inr ()" "AddressesEqual C wallet back" "\<not> AddressesEqual C wallet to"
  shows "validatePreparedPayment C wallet to amount tx = Inr ()"
proof -
  have "\<not> AddressesEqual C back to" using assms(8,9) AddressesEqual_trans by blast
  then have "foldE (countMerchantOutput C wallet to amount) 0 (Outputs tx) = Inr 1"
    using assms(7,8) by (simp add: assms(1) countMerchantOutput_def AddressesEqual_refl AddressesEqual_sym)
  then show ?thesis
    using assms by (auto simp: validatePreparedPayment_def checkAll_ok AddressesEqual_sym)
qed

section \<open>Preparing and committing\<close>

lemma paymentWallet_ok:
  "paymentWallet C s expected = Inr (chain, w, needs) \<longleftrightarrow>
     SvcLedger s = Some chain \<and> SvcMaterial s \<noteq> None \<and> \<not> SvcClosing s \<and> \<not> SvcSeedMode s \<and>
     AddressesEqual C expected (WAddress (SvcWallet s)) \<and> w = SvcWallet s \<and> needs = SvcNeedsBackup s"
  by (auto simp: paymentWallet_def split: option.splits)

text \<open>The queries compare addresses without regard to case, as \<open>AddressesEqual\<close> does.\<close>

lemma nocase_AddressesEqual: "AddressesEqual C a b \<Longrightarrow> nocase x a \<longleftrightarrow> nocase x b"
  by (auto simp: nocase_def AddressesEqual_def EqualFold_def)

lemma spendable_equal_address:
  assumes "AddressesEqual C a b"
  shows "LedgerSpendableUTXO C d a = LedgerSpendableUTXO C d b"
proof -
  have "spendable_rows d a h = spendable_rows d b h" for h
    using assms by (simp add: spendable_rows_def nocase_AddressesEqual Let_def)
  with assms show ?thesis
    by (simp add: LedgerSpendableUTXO_def spendableUTXO_def AddressesEqual_def)
qed

lemma ComputeID_not_Nil: "digest32 (Sum256 C) \<Longrightarrow> ComputeID C tx \<noteq> []"
  by (metis ComputeID_def hashHex_def hex_encode.simps(1) length_0_conv length_hex_encode digest32.length_digest
      mult_eq_0_iff zero_neq_numeral)

text \<open>What a prepared payment is built from.\<close>

lemma PrepareRecommendedPayment_ok:
  assumes "PrepareRecommendedPayment C signers rnds s wallet to amount maximum = Inr (tx, fee)"
  obtains chain u k where "SvcLedger s = Some chain" "LedgerSpendableUTXO C chain wallet = Inr u"
    "BuildTransaction C (signers k) (rnds k) (SvcWallet s) to amount fee u = Inr tx"
    "minimumRelayFee (int (encodedSize tx)) \<le> fee" "fee \<le> maximum" "0 < fee"
    "paymentWallet C s wallet = Inr (chain, SvcWallet s, False)"
    "validatePaymentArguments C wallet to amount = Inr ()" "AddressesEqual C wallet (WAddress (SvcWallet s))"
proof -
  from assms obtain chain w u where pw: "paymentWallet C s wallet = Inr (chain, w, False)"
    and args: "validatePaymentArguments C wallet to amount = Inr ()"
    and u: "LedgerSpendableUTXO C chain (WAddress w) = Inr u"
    and b: "buildRecommendedPayment C signers rnds w to amount u = Inr (tx, fee)" and le: "fee \<le> maximum"
    by (auto simp: PrepareRecommendedPayment_def attempt_eq_Inr not_less split: if_splits)
  have w: "w = SvcWallet s" "SvcLedger s = Some chain" "AddressesEqual C wallet (WAddress w)"
    using pw by (simp_all add: paymentWallet_ok)
  obtain k where k: "BuildTransaction C (signers k) (rnds k) w to amount fee u = Inr tx"
    "minimumRelayFee (int (encodedSize tx)) \<le> fee" "minimumRelayFee 1 \<le> fee"
    using recommendedLoop_ok [OF b [unfolded buildRecommendedPayment_def]] by blast
  have "0 < fee" using less_le_trans [OF minimumRelayFee_1 k(3)] .
  with pw args u le k w spendable_equal_address [OF w(3)] show thesis by (intro that) auto
qed

text \<open>The outcome of a commit once every check has passed: what the mempool says.\<close>

definition commit_outcome :: "crypto \<Rightarrow> int \<Rightarrow> service \<Rightarrow> db \<Rightarrow> transaction \<Rightarrow> (service \<times> transaction list) res" where
  "commit_outcome C now s chain tx =
     (case AddTransaction C now chain tx of
        Inr chain' \<Rightarrow> Inr (s\<lparr>SvcLedger := Some chain'\<rparr>, [tx])
      | Inl e \<Rightarrow> if isAlreadyKnown e then Inr (s, [tx]) else Inl e)"

text \<open>
  On the unchanged service \<open>CommitPreparedPayment\<close> passes all of its checks, so that only the mempool
  decides what becomes of a prepared payment.
\<close>

lemma prepared_passes_checks:
  assumes prep: "PrepareRecommendedPayment C signers rnds s wallet to amount maximum = Inr (tx, fee)"
    and "digest32 (Sum256 C)" and key: "privateKey C (SvcWallet s) = Inr (d, pub)"
    and point: "UnmarshalPoint C (MarshalPoint pub) = Some pub" and honest: "\<And>k. honest_signer C (signers k) d pub"
    and ids: "\<And>chain u op out. SvcLedger s = Some chain \<Longrightarrow> LedgerSpendableUTXO C chain wallet = Inr u \<Longrightarrow>
       (op, out) \<in> set u \<Longrightarrow> decodeHash (OpTxID op) \<in> range Inr"
    and other: "\<not> AddressesEqual C wallet to"
  shows "minimumRelayFee (int (encodedSize tx)) \<le> fee \<and> fee \<le> maximum \<and>
     hd (Outputs tx) = \<lparr>Amount = amount, Address = to\<rparr> \<and>
     (\<forall>output \<in> set (tl (Outputs tx)). AddressesEqual C (Address output) wallet) \<and>
     (\<exists>chain. SvcLedger s = Some chain \<and>
        CommitPreparedPayment C now s wallet to amount fee maximum tx = commit_outcome C now s chain tx)"
proof -
  obtain chain u k where p: "SvcLedger s = Some chain" "LedgerSpendableUTXO C chain wallet = Inr u"
    "BuildTransaction C (signers k) (rnds k) (SvcWallet s) to amount fee u = Inr tx"
    "minimumRelayFee (int (encodedSize tx)) \<le> fee" "fee \<le> maximum" "0 < fee"
    "paymentWallet C s wallet = Inr (chain, SvcWallet s, False)"
    "validatePaymentArguments C wallet to amount = Inr ()" "AddressesEqual C wallet (WAddress (SvcWallet s))"
    using PrepareRecommendedPayment_ok [OF prep] by blast
  obtain change where b: "Outputs tx = \<lparr>Amount = amount, Address = to\<rparr> #
      (if change > 0 then [\<lparr>Amount = change, Address = WAddress (SvcWallet s)\<rparr>] else [])"
    "\<And>input. input \<in> set (Inputs tx) \<Longrightarrow> AddressFromPublicKey C (PublicKey input) = WAddress (SvcWallet s)"
    "Coinbase tx = False" "ID tx = ComputeID C tx" "ValidateAddress C (WAddress (SvcWallet s)) = Inr ()"
    by (rule built_payment [OF p(3) key]) blast
  have valid: "validateRegularTransaction C tx u = Inr fee"
    by (rule BuildTransaction_validates [OF p(3) key point honest LedgerSpendableUTXO_distinct [OF p(2)] ids [OF p(1,2)]])
  have "Inputs tx \<noteq> []" using valid by (auto simp: validateRegularTransaction_def split: if_splits)
  then have checks: "validatePreparedPayment C wallet to amount tx = Inr ()"
    using p(8) assms(2) by (intro prepared_checks [OF b(1,2,3,4) _ _ _ p(9) other])
      (simp_all add: b(4) ComputeID_not_Nil validatePaymentArguments_def attempt_eq_Inr)
  have "CommitPreparedPayment C now s wallet to amount fee maximum tx = commit_outcome C now s chain tx"
    using p(1,2,6-8) valid checks
    by (simp add: CommitPreparedPayment_def commit_outcome_def Let_def leD [OF p(5)] word_gt_0 split: sum.split)
  moreover have "\<forall>output \<in> set (tl (Outputs tx)). AddressesEqual C (Address output) wallet"
    using p(9) by (auto simp: b(1) AddressesEqual_sym)
  ultimately show ?thesis using p by (simp add: b(1))
qed

section \<open>A committed payment\<close>

lemma merchant_outputs_loop:
  assumes "foldE (countMerchantOutput C wallet to amount) n outputs = Inr m"
  shows "m = n + int (length (filter (\<lambda>o'. AddressesEqual C (Address o') to \<and> Amount o' = amount) outputs)) \<and>
     (\<forall>o' \<in> set outputs. AddressesEqual C (Address o') to \<and> Amount o' = amount \<or> AddressesEqual C (Address o') wallet)"
  using assms
proof (induction outputs arbitrary: n)
  case (Cons x xs)
  from Cons.prems obtain n' where n': "countMerchantOutput C wallet to amount n x = Inr n'"
    and "foldE (countMerchantOutput C wallet to amount) n' xs = Inr m" by (auto simp: res_simps)
  from Cons.IH [OF this(2)] n' show ?case by (auto simp: countMerchantOutput_def split: if_splits)
qed simp

text \<open>
  C13. Nothing but the reviewed payment is ever committed: whatever transaction
  \<open>CommitPreparedPayment\<close> accepts, it broadcasts that transaction alone; exactly one of its outputs
  pays the amount to the recipient, every other one goes back to the reviewed wallet, every input is
  spent by a key of that wallet, the fee it was journaled with is within the reviewed ceiling, and
  the wallet is the active one, backed up, of an open node that is not in seed mode.
\<close>

theorem commit_only_reviewed:
  assumes "CommitPreparedPayment C now s wallet to amount fee maximum tx = Inr (s', sent)"
  shows "sent = [tx] \<and> 0 < fee \<and> fee \<le> maximum \<and> ID tx = ComputeID C tx \<and>
     length (filter (\<lambda>o'. AddressesEqual C (Address o') to \<and> Amount o' = amount) (Outputs tx)) = 1 \<and>
     (\<forall>o' \<in> set (Outputs tx). AddressesEqual C (Address o') to \<and> Amount o' = amount \<or>
        AddressesEqual C (Address o') wallet) \<and>
     (\<forall>input \<in> set (Inputs tx). AddressesEqual C (AddressFromPublicKey C (PublicKey input)) wallet) \<and>
     AddressesEqual C wallet (WAddress (SvcWallet s)) \<and> \<not> SvcNeedsBackup s \<and> \<not> SvcClosing s \<and> \<not> SvcSeedMode s \<and>
     (\<exists>chain. SvcLedger s = Some chain \<and> commit_outcome C now s chain tx = Inr (s', sent))"
proof -
  from assms obtain chain u w where fee: "0 < fee" "fee \<le> maximum"
    and checks: "validatePreparedPayment C wallet to amount tx = Inr ()"
    and pw: "paymentWallet C s wallet = Inr (chain, w, False)"
    and out: "commit_outcome C now s chain tx = Inr (s', sent)"
    by (auto simp: CommitPreparedPayment_def commit_outcome_def attempt_eq_Inr Let_def word_gt_0 not_less split: if_splits)
  have sent: "sent = [tx]" using out by (auto simp: commit_outcome_def split: sum.splits if_splits)
  from checks obtain m where m: "foldE (countMerchantOutput C wallet to amount) 0 (Outputs tx) = Inr m" "m = 1"
    and ids: "ID tx = ComputeID C tx"
    and keys: "\<forall>input \<in> set (Inputs tx). AddressesEqual C (AddressFromPublicKey C (PublicKey input)) wallet"
    by (auto simp: validatePreparedPayment_def attempt_eq_Inr checkAll_ok split: if_splits)
  from merchant_outputs_loop [OF m(1)] m(2) fee sent ids keys out pw show ?thesis
    by (simp add: paymentWallet_ok)
qed

section \<open>A sample payment\<close>

text \<open>A wallet with one output of 50000, and a merchant.\<close>

definition merchant_address :: string where
  "merchant_address = ''ent1'' @ hex_encode (replicate 20 1 @ replicate 4 0)"

definition funded_db :: db where
  "funded_db = empty_db\<lparr>
     dbBlocks := [\<lparr>BHeight = 3, BHash = [], BPreviousHash = [], BVersion = 1, BTimestamp = 0, BMerkleRoot = [],
       BDifficulty = 1, BNonce = [], BWork = [], BData = None\<rparr>],
     dbUtxos := [\<lparr>UTxId = sample_txid 1, UIndex = 0, UAmount = 50000, UAddress = sample_address,
       UCreatedHeight = 1, UCoinbase = 0\<rparr>]\<rparr>"

definition sample_service :: service where
  "sample_service = \<lparr>SvcClosing = False, SvcLedger = Some funded_db,
     SvcMaterial = Some \<lparr>MtWallet = sample_wallet, MtMnemonic = [], MtSource = KeyLegacy, MtDerivation = []\<rparr>,
     SvcWallet = sample_wallet, SvcSeedMode = False, SvcNeedsBackup = False, SvcGeneration = 0,
     SvcMining = False, SvcMiningJobs = 0\<rparr>"

definition merchant_payment :: transaction where
  "merchant_payment =
     (let tx = \<lparr>ID = [], Coinbase = False, TxNonce = 9,
         Inputs = [\<lparr>InTxID = sample_txid 1, OutputIndex = 0, PublicKey = sample_key,
                    Signature = asn1_marshal_sig 1 1\<rparr>],
         Outputs = [\<lparr>Amount = 10, Address = merchant_address\<rparr>, \<lparr>Amount = 48990, Address = sample_address\<rparr>]\<rparr>
      in tx\<lparr>ID := ComputeID sample_crypto tx\<rparr>)"

lemma merchant_address_valid [simp]: "ValidateAddress sample_crypto merchant_address = Inr ()"
  unfolding merchant_address_def ValidateAddress_append by (simp add: address_payload_def sample_digest_def)

lemma length_merchant_address [simp]: "length merchant_address = 52"
  by (simp add: merchant_address_def)

lemma AddressesEqual_encoded:
  "AddressesEqual C (''ent1'' @ hex_encode a) (''ent1'' @ hex_encode b) \<Longrightarrow> a = b"
  unfolding AddressesEqual_payload by (metis hex_decode_encode same_append_eq sum.inject(2))

lemma merchant_is_other: "\<not> AddressesEqual sample_crypto sample_address merchant_address"
proof
  assume "AddressesEqual sample_crypto sample_address merchant_address"
  from AddressesEqual_encoded [OF this [unfolded sample_address_def merchant_address_def AddressFromPublicKey_def Let_def]]
  show False by (simp add: sample_digest_def)
qed

lemma funded_db_sel [simp]:
  "dbMempoolInputs funded_db = []" "dbMempoolOutputs funded_db = []" "dbMempool funded_db = []" "dbTransactions funded_db = []"
  "dbUtxos funded_db = [\<lparr>UTxId = sample_txid 1, UIndex = 0, UAmount = 50000, UAddress = sample_address,
       UCreatedHeight = 1, UCoinbase = 0\<rparr>]"
  by (simp_all add: funded_db_def empty_db_def)

lemma funded_tip:
  assumes "dbBlocks d = dbBlocks funded_db"
  shows "\<exists>t. tipFromQuery d = Inr t \<and> nextHeight t = Inr 4"
  using assms by (simp add: tipFromQuery_def sql_order_desc_def funded_db_def nextHeight_def MaxInt64_def)

lemma sample_spendable_rows:
  assumes "dbUtxos d = dbUtxos funded_db" "dbMempoolInputs d = []" "dbMempoolOutputs d = []"
  shows "spendable_rows d sample_address 4 = [(sample_txid 1, 0, 50000, sample_address)]"
  by (simp add: assms spendable_rows_def Let_def nocase_def pending_spent_def CoinbaseMaturityActivationHeight_def
      CoinbaseMaturity_def int64_of_def)

lemma sample_spendable:
  assumes "dbBlocks d = dbBlocks funded_db" "dbUtxos d = dbUtxos funded_db" "dbMempoolInputs d = []" "dbMempoolOutputs d = []"
  shows "LedgerSpendableUTXO sample_crypto d sample_address =
    Inr [(Outpoint (sample_txid 1) 0, \<lparr>Amount = 50000, Address = sample_address\<rparr>)]"
  using funded_tip [OF assms(1)] sample_spendable_rows [OF assms(2-4)]
  by (auto simp: LedgerSpendableUTXO_def spendableUTXO_def scanSpendable_def)

lemma merchant_payment_size: "encodedSize merchant_payment = 352"
  by (simp add: encodedSize_eq merchant_payment_def Let_def asn1_marshal_sig_def
      der_encode_int_def der_encode_length_def be_min.simps ComputeID_def hashHex_def)

lemma build_merchant_payment:
  "BuildTransaction sample_crypto sample_signer (Inr 9) sample_wallet merchant_address 10 1000
     [(Outpoint (sample_txid 1) 0, \<lparr>Amount = 50000, Address = sample_address\<rparr>)] = Inr merchant_payment"
  by (simp add: BuildTransaction_def Let_def safeAdd_def AddressesEqual_refl
      MaxTransactionInputs_def sign_def signInput_def sample_signer_def halfOrder_def merchant_payment_def
      MaxUint64_def p256_n_def)

lemma prepare_merchant_payment:
  "PrepareRecommendedPayment sample_crypto (\<lambda>_. sample_signer) (\<lambda>_. Inr 9) sample_service sample_address merchant_address 10 1000 =
     Inr (merchant_payment, 1000)"
  by (simp add: PrepareRecommendedPayment_def validatePaymentArguments_def paymentWallet_def sample_service_def
      AddressesEqual_refl sample_spendable [unfolded One_nat_def] buildRecommendedPayment_def recommendedLoop.simps [of _ _ _ _ _ _ _ 0]
      build_merchant_payment [unfolded One_nat_def] merchant_payment_size minimumRelayFee_def mempoolRelayFeeKibiByteUnits_def MinimumRelayFeePerKibiByte_def)

text \<open>The same payment committed again, after a block has confirmed it.\<close>

definition paid_service :: service where
  "paid_service = sample_service\<lparr>SvcLedger := Some (funded_db\<lparr>dbTransactions := [\<lparr>TId = ID merchant_payment,
     TBlockHeight = 3, TIndex = 1, TCoinbase = 0, TData = Some merchant_payment\<rparr>]\<rparr>)\<rparr>"

lemma sample_owner: "AddressFromPublicKey sample_crypto sample_key = sample_address"
  by (simp add: sample_address_def)

lemma merchant_payment_id: "ID merchant_payment = ComputeID sample_crypto merchant_payment"
  by (simp add: merchant_payment_def Let_def ComputeID_def encodeTransaction_def)

lemma commit_again: "CommitPreparedPayment sample_crypto 0 paid_service sample_address merchant_address 10 1000 1000 merchant_payment =
       Inr (paid_service, [merchant_payment])"
proof -
  let ?d = "funded_db\<lparr>dbTransactions := [\<lparr>TId = ID merchant_payment, TBlockHeight = 3, TIndex = 1, TCoinbase = 0, TData = Some merchant_payment\<rparr>]\<rparr>"
  have "validateRegularTransaction sample_crypto merchant_payment
      [(Outpoint (sample_txid 1) 0, \<lparr>Amount = 50000, Address = sample_address\<rparr>)] = Inr 1000"
    by (rule BuildTransaction_validates [OF build_merchant_payment sample_private_key _ honest_sample]) auto
  moreover have "AddTransaction sample_crypto 0 ?d merchant_payment = Inl (MempoolRejection ErrTransactionAlreadyKnown)"
    using funded_tip [of ?d]
    by (auto simp: AddTransaction_def addMempoolTransaction_def addMempoolTransactionWithUsage_def merchant_payment_def Let_def)
  moreover have "validatePreparedPayment sample_crypto sample_address merchant_address 10 merchant_payment = Inr ()"
    by (rule prepared_checks [of _ 10 merchant_address 48990 sample_address])
      (auto simp: merchant_payment_id ComputeID_not_Nil [OF digest32_sample] merchant_is_other AddressesEqual_refl,
        auto simp: merchant_payment_def Let_def word_gt_0 sample_owner)
  ultimately show ?thesis
    by (simp add: CommitPreparedPayment_def validatePaymentArguments_def paymentWallet_def paid_service_def
        sample_service_def AddressesEqual_refl sample_spendable [unfolded One_nat_def] Let_def isAlreadyKnown_def)
qed

theorem commit_only_reviewed_witness:
  "length (filter (\<lambda>o'. AddressesEqual sample_crypto (Address o') merchant_address \<and> Amount o' = 10) (Outputs merchant_payment)) = 1 \<and>
   commit_outcome sample_crypto 0 paid_service (the (SvcLedger paid_service)) merchant_payment = Inr (paid_service, [merchant_payment])"
  using commit_only_reviewed [OF commit_again] by auto

end
