(* ===== verification/Payment_Commit.thy ===== *)
theory Payment_Commit
  imports Payment_Props Mempool_Props Candidate_Valid
begin

text \<open>
  A prepared payment on a reachable ledger really commits: what the ledger lists as spendable are coins of
  the state its mempool leads to, so the transaction that was built of them is admitted.
\<close>

section \<open>What an address can spend\<close>

lemma pool_ids:
  assumes "pool_sim C d st0 tr h st"
  shows "distinct (map ID (pool_txs d))" "tx \<in> set (pool_txs d) \<Longrightarrow> ID tx \<notin> RSeen st0"
proof -
  have inv: "chain_inv st (tr @ map (Pair h) (pool_txs d))" "chain_inv st0 tr"
    using pool_sim_inv(1) [OF assms] assms by (simp_all add: pool_sim_def)
  have "distinct (map (ID \<circ> snd) tr @ map ID (pool_txs d))"
    using inv(1) by (simp add: chain_inv_def comp_def)
  then show "distinct (map ID (pool_txs d))" "tx \<in> set (pool_txs d) \<Longrightarrow> ID tx \<notin> RSeen st0"
    using inv(2) by (auto simp: chain_inv_def)
qed

lemma pool_output_unique:
  assumes tab: "pool_tables d" and ids: "distinct (map ID (pool_txs d))"
    and "r \<in> set (dbMempoolOutputs d)" "r' \<in> set (dbMempoolOutputs d)" "OTxId r' = OTxId r" "OIndex r' = OIndex r"
  shows "r' = r"
proof -
  have row: "\<exists>tx \<in> set (pool_txs d). \<exists>i < length (Outputs tx). x = pool_output tx (i, Outputs tx ! i)"
    if "x \<in> set (dbMempoolOutputs d)" for x
    using that tab by (fastforce simp: pool_tables_def in_set_enumerate_eq)
  obtain tx i where tx: "tx \<in> set (pool_txs d)" "r = pool_output tx (i, Outputs tx ! i)" using row [OF assms(3)] by blast
  obtain tx' i' where tx': "tx' \<in> set (pool_txs d)" "r' = pool_output tx' (i', Outputs tx' ! i')" using row [OF assms(4)] by blast
  have "ID tx' = ID tx" "i' = i" using assms(5,6) tx(2) tx'(2) by (simp_all add: pool_output_def)
  then have "tx' = tx" using ids tx(1) tx'(1) by (auto simp: distinct_map dest: inj_onD)
  with \<open>i' = i\<close> tx(2) tx'(2) show ?thesis by simp
qed

text \<open>The maturity the query asks for is that of the consensus rule.\<close>

lemma trace_heights:
  assumes "represents C now d blocks sts us p" and "(k, tx) \<in> set (chain_trace blocks)"
  shows "k \<noteq> 0"
proof -
  have ho: "heights_ok blocks" using assms(1) by (simp add: represents_def replayed_def)
  obtain b where "b \<in> set (tl blocks)" "k = Height b" using assms(2) by (auto simp: chain_trace_def block_trace_def)
  then obtain i where "i < length blocks - 1" "k = Height (blocks ! Suc i)"
    by (auto simp: in_set_conv_nth nth_tl)
  then have i: "Suc i < length blocks" "k = Height (blocks ! Suc i)" by simp_all
  then have "k = word_of_nat (Suc i)" "Suc i < 18446744073709551616" using ho unfolding heights_ok_def by auto
  then have "unat k = Suc i" by (simp only: unat_word_of_nat_64)
  then show ?thesis by auto
qed

lemma coinbase_mature:
  assumes "coin_storable c" and "uint h \<le> MaxInt64" and "CreatedHeight (snd c) \<noteq> 0"
    and "int64_of (CreatedHeight (snd c)) \<le> int64_of (if h \<ge> CoinbaseMaturity then h - CoinbaseMaturity else 0)"
  shows "IsCoinbaseMature (CreatedHeight (snd c)) h"
proof -
  let ?k = "CreatedHeight (snd c)"
  have small: "int64_of ?k = uint ?k" using assms(1) by (intro int64_of_small) (simp add: coin_storable_def uint_unat_le)
  have "h \<ge> CoinbaseMaturity"
  proof (rule ccontr)
    assume "\<not> h \<ge> CoinbaseMaturity"
    then have "uint ?k \<le> 0" using assms(4) small by (simp add: int64_of_small MaxInt64_val)
    then show False using assms(3) uint_ge_0 [of ?k] by (simp add: word_uint_eq_iff)
  qed
  then have "uint (h - CoinbaseMaturity) \<le> MaxInt64" "uint (h - CoinbaseMaturity) = uint h - 100"
    using assms(2) uint_sub_lem [of CoinbaseMaturity h] by (auto simp: CoinbaseMaturity_def word_le_def)
  then have le: "uint ?k \<le> uint h - 100"
    using assms(4) small \<open>h \<ge> CoinbaseMaturity\<close> by (simp add: int64_of_small)
  then have "?k \<le> h" by (simp add: word_le_def)
  then have "uint (h - ?k) = uint h - uint ?k" by (simp add: uint_sub_lem word_le_def)
  moreover have "\<not> h < ?k" using \<open>?k \<le> h\<close> by (simp only: not_less)
  ultimately show ?thesis using le by (simp add: IsCoinbaseMature_def CoinbaseMaturity_def word_le_def)
qed

lemma utxo_row_lookup:
  assumes sim: "pool_sim C d st0 tr h st" and h: "uint h \<le> MaxInt64" and heights: "\<And>k tx. (k, tx) \<in> set tr \<Longrightarrow> k \<noteq> 0"
    and u: "u \<in> set (dbUtxos d)" "\<not> pending_spent d (UTxId u) (UIndex u)"
    and mature: "h \<ge> CoinbaseMaturityActivationHeight \<Longrightarrow> UCoinbase u = 0 \<or>
      UCreatedHeight u \<le> int64_of (if h \<ge> CoinbaseMaturity then h - CoinbaseMaturity else 0)"
  shows "lookupMempoolSpendable d (utxo_key u) h = Inr \<lparr>Amount = word_of_int (UAmount u), Address = UAddress u\<rparr>"
proof -
  let ?op = "utxo_key u" and ?c = "row_coin u"
  have ok: "utxos_ok (dbUtxos d)" and st0: "utxos_get (dbUtxos d) = coins_get (coins_of st0)" and inv: "chain_inv st0 tr"
    and h0: "h \<noteq> 0"
    using sim by (simp_all add: pool_sim_def ledger_sim_def)
  have c: "u = coin_row ?op ?c" "coin_storable ?c" using ok u(1) by (simp_all add: utxos_ok_def)
  have wf: "utxos_wf (dbUtxos d)" by (rule utxos_ok_wf [OF ok])
  have "utxos_get (dbUtxos d) ?op = Some ?c"
    unfolding utxos_get_eq [OF wf] using u(1) wf by (intro map_of_is_SomeI) (auto simp: utxos_wf_def comp_def)
  note get = this
  have spent: "\<not> (\<exists>r \<in> set (dbMempoolInputs d). mempool_input_at ?op r)"
  proof -
    have "uint (OpIndex ?op) = UIndex u" "OpTxID ?op = UTxId u"
      using u(1) wf by (simp_all add: utxos_wf_def utxo_key_def)
    then show ?thesis using u(2) by (auto simp: pending_spent_def mempool_input_at_def)
  qed
  have "IsCoinbaseMature (CreatedHeight (snd ?c)) h" if "UCoinbase u = 1"
  proof (rule coinbase_mature [OF c(2) h])
    obtain k tx where "(k, tx) \<in> set tr" "CreatedHeight (snd ?c) = k"
      using inv get [unfolded st0] unfolding chain_inv_def origins_ok_def by (cases ?c) fastforce
    then show "CreatedHeight (snd ?c) \<noteq> 0" using heights by blast
    have "h \<ge> CoinbaseMaturityActivationHeight"
      using h0 by (simp add: CoinbaseMaturityActivationHeight_def word_le_nat_alt Suc_le_eq unat_gt_0)
    moreover have "UCreatedHeight u = int64_of (CreatedHeight (snd ?c))" by (subst c(1)) (simp add: coin_row_def)
    ultimately show "int64_of (CreatedHeight (snd ?c)) \<le> int64_of (if h \<ge> CoinbaseMaturity then h - CoinbaseMaturity else 0)"
      using mature that by simp
  qed
  moreover have "find (utxo_at ?op) (dbUtxos d) = Some u" using utxos_ok_get(1) [OF ok get] c(1) by simp
  moreover have "0 < UAmount u" "0 \<le> UCreatedHeight u" "UCoinbase u = 0 \<or> UCoinbase u = 1"
    using coin_row_columns [OF c(2), of ?op] unfolding c(1) [symmetric] by simp_all
  moreover have "word_of_int (UCreatedHeight u) = CreatedHeight (snd ?c)" by (simp add: row_coin_def)
  ultimately show ?thesis
    using spent by (auto simp: lookupMempoolSpendable_def)
qed

lemma pool_row_lookup:
  assumes sim: "pool_sim C d st0 tr h st" and r: "r \<in> set (dbMempoolOutputs d)" "\<not> pending_spent d (OTxId r) (OIndex r)"
    and range: "0 \<le> OIndex r" "OIndex r \<le> 4294967295"
  shows "lookupMempoolSpendable d (Outpoint (OTxId r) (word_of_int (OIndex r))) h = Inr \<lparr>Amount = word_of_int (OAmount r), Address = OAddress r\<rparr>"
proof -
  let ?op = "Outpoint (OTxId r) (word_of_int (OIndex r)) :: outpoint"
  have tab: "pool_tables d" and st0: "utxos_get (dbUtxos d) = coins_get (coins_of st0)" and inv: "chain_inv st0 tr"
    using sim by (simp_all add: pool_sim_def ledger_sim_def)
  have index: "uint (word_of_int (OIndex r) :: u32) = OIndex r"
    using range by (simp add: uint_word_of_int)
  have spent: "\<not> (\<exists>r \<in> set (dbMempoolInputs d). mempool_input_at ?op r)"
    using r(2) by (auto simp: pending_spent_def mempool_input_at_def index)
  obtain tx where tx: "tx \<in> set (pool_txs d)" "OTxId r = ID tx" using tab r(1) by (auto simp: pool_tables_def pool_output_def)
  have "utxos_get (dbUtxos d) ?op = None"
    unfolding st0 by (rule fresh_absent [OF inv pool_ids(2) [OF sim tx(1)]]) (simp add: tx(2))
  then have none: "find (utxo_at ?op) (dbUtxos d) = None" by (simp add: utxos_get_def)
  have "mempool_output_at ?op r" by (simp add: mempool_output_at_def index)
  then obtain r' where r': "find (mempool_output_at ?op) (dbMempoolOutputs d) = Some r'"
    using r(1) by (cases "find (mempool_output_at ?op) (dbMempoolOutputs d)") (auto simp: find_None_iff)
  then have "r' \<in> set (dbMempoolOutputs d)" "OTxId r' = OTxId r" "OIndex r' = OIndex r"
    by (auto simp: find_Some_iff mempool_output_at_def index)
  then have "r' = r" by (rule pool_output_unique [OF tab pool_ids(1) [OF sim] r(1)])
  then show ?thesis
    using spent none r' pool_output_positive [OF tab r(1)] by (simp add: lookupMempoolSpendable_def)
qed

lemma update_member_or: "x \<in> set (AList.update i r xs) \<Longrightarrow> x = (i, r) \<or> x \<in> set xs"
  by (induction xs) (auto split: if_splits)

lemma scanned_entries:
  assumes "foldE scanSpendable u rows = Inr u'" and "\<And>op out. (op, out) \<in> set u \<Longrightarrow> P op out"
    and "\<And>i index amount owner. (i, index, amount, owner) \<in> set rows \<Longrightarrow> 0 \<le> index \<Longrightarrow> index \<le> 4294967295 \<Longrightarrow>
      P (Outpoint i (word_of_int index)) \<lparr>Amount = word_of_int amount, Address = owner\<rparr>"
  shows "(op, out) \<in> set u' \<Longrightarrow> P op out"
  using assms
proof (induction rows arbitrary: u)
  case (Cons x rows)
  obtain i index amount owner where x: "x = (i, index, amount, owner)" by (metis prod_cases4)
  obtain u1 where u1: "scanSpendable u x = Inr u1" "foldE scanSpendable u1 rows = Inr u'"
    using Cons.prems(2) by (auto simp: res_simps)
  have r: "0 \<le> index" "index \<le> 4294967295"
    "u1 = AList.update (Outpoint i (word_of_int index)) \<lparr>Amount = word_of_int amount, Address = owner\<rparr> u"
    using u1(1) by (auto simp: x scanSpendable_def split: if_split_asm)
  have "P op out" if "(op, out) \<in> set u1" for op out
    using that Cons.prems(3,4) r by (auto simp: x dest!: update_member_or)
  then show ?case using Cons.IH [OF Cons.prems(1) u1(2)] Cons.prems(4) by simp
qed simp

lemma spendable_lookup:
  assumes sim: "pool_sim C d st0 tr h st" and h: "uint h \<le> MaxInt64" and heights: "\<And>k tx. (k, tx) \<in> set tr \<Longrightarrow> k \<noteq> 0"
    and u: "spendableUTXO d address h = Inr u" and e: "(op, out) \<in> set u"
  shows "lookupMempoolSpendable d op h = Inr out"
proof (rule scanned_entries [OF u [unfolded spendableUTXO_def] _ _ e])
  fix i index amount owner
  assume row: "(i, index, amount, owner) \<in> set (spendable_rows d address h)" and range: "0 \<le> index" "index \<le> (4294967295 :: int)"
  then consider v where "v \<in> set (dbUtxos d)" "\<not> pending_spent d (UTxId v) (UIndex v)" "i = UTxId v" "index = UIndex v"
      "amount = UAmount v" "owner = UAddress v"
      "h \<ge> CoinbaseMaturityActivationHeight \<Longrightarrow> UCoinbase v = 0 \<or>
        UCreatedHeight v \<le> int64_of (if h \<ge> CoinbaseMaturity then h - CoinbaseMaturity else 0)"
    | r where "r \<in> set (dbMempoolOutputs d)" "\<not> pending_spent d (OTxId r) (OIndex r)" "i = OTxId r" "index = OIndex r"
      "amount = OAmount r" "owner = OAddress r"
    unfolding spendable_rows_def Let_def by auto
  then show "lookupMempoolSpendable d (Outpoint i (word_of_int index)) h = Inr \<lparr>Amount = word_of_int amount, Address = owner\<rparr>"
  proof cases
    case 1
    then show ?thesis using utxo_row_lookup [OF sim h heights 1(1,2,7)] by (simp add: utxo_key_def)
  next
    case 2
    then show ?thesis using pool_row_lookup [OF sim 2(1,2)] range by simp
  qed
qed simp

section \<open>The transactions of a chain are hashed\<close>

lemma foldE_ran: "foldE f s xs = Inr t \<Longrightarrow> x \<in> set xs \<Longrightarrow> \<exists>s1 s2. f s1 x = Inr s2"
  by (induction xs arbitrary: s) (auto simp: res_simps)

lemma validated_id: "validateRegularTransaction C tx u = Inr fee \<Longrightarrow> ID tx = ComputeID C tx"
  by (simp add: validateRegularTransaction_eq_Inr regular_tx_ok_def)

lemma replayed_block_ids:
  assumes "replayBlock C now blocks st i = Inr st'" "tx \<in> set (tl (Transactions (blocks ! i)) @ [hd (Transactions (blocks ! i))])"
  shows "ID tx = ComputeID C tx"
proof -
  obtain q m where r: "foldE (replayTransaction C (Height (blocks ! i))) (st, 0) (tl (Transactions (blocks ! i))) = Inr q"
    "validateCoinbase C (hd (Transactions (blocks ! i))) m = Inr ()"
    using assms(1) by (auto simp: replayBlock_def Let_def res_simps split: if_split_asm)
  have "ID tx = ComputeID C tx" if t: "tx \<in> set (tl (Transactions (blocks ! i)))"
  proof -
    obtain s1 s2 where "replayTransaction C (Height (blocks ! i)) s1 tx = Inr s2" using foldE_ran [OF r(1) t] by blast
    then obtain u fee where "validateRegularTransaction C tx u = Inr fee"
      by (cases s1) (auto simp: replayTransaction_def res_simps split: if_split_asm)
    then show ?thesis by (rule validated_id)
  qed
  moreover have "ID (hd (Transactions (blocks ! i))) = ComputeID C (hd (Transactions (blocks ! i)))"
    using r(2) by (simp add: validateCoinbase_eq_Inr)
  ultimately show ?thesis using assms(2) by auto
qed

lemma trace_ids:
  assumes rep: "replayed C now blocks sts" and tx: "(k, tx) \<in> set (chain_trace blocks)"
  shows "ID tx = ComputeID C tx"
proof -
  obtain b where "b \<in> set (tl blocks)" "(k, tx) \<in> set (block_trace b)" using tx by (auto simp: chain_trace_def)
  then obtain i where i: "i < length blocks - 1" "tx \<in> set (tl (Transactions (blocks ! Suc i)) @ [hd (Transactions (blocks ! Suc i))])"
    by (auto simp: in_set_conv_nth nth_tl block_trace_def)
  moreover have "\<forall>j. 0 < j \<longrightarrow> j < length blocks \<longrightarrow> replayBlock C now blocks (sts (j - 1)) j = Inr (sts j)"
    using rep unfolding replayed_def by (elim conjE)
  then have "replayBlock C now blocks (sts (Suc i - 1)) (Suc i) = Inr (sts (Suc i))"
    using i(1) zero_less_Suc less_diff_conv [of i "length blocks" 1] by (simp only: Suc_eq_plus1)
  ultimately show ?thesis using replayed_block_ids by blast
qed

lemma origins_ok_source: "origins_ok cs txs \<Longrightarrow> coins_get cs op = Some c \<Longrightarrow> \<exists>(k, tx) \<in> set txs. ID tx = OpTxID op"
  by (cases c) (fastforce simp: origins_ok_def)

lemma spendable_ids:
  assumes dg: "digest32 (Sum256 C)" and ok: "ledger_ok C now d blocks sts us p st"
    and look: "lookupMempoolSpendable d op (next_height blocks) = Inr out"
  shows "decodeHash (OpTxID op) \<in> range Inr"
proof -
  note o = ledger_okD [OF ok]
  have rep: "replayed C now blocks sts" using o(1) by (simp add: represents_def)
  have pool: "foldE (replayPending C (next_height blocks)) (sts (length blocks - 1)) (pool_txs d) = Inr st"
    using o(4) by (simp add: pool_sim_def)
  obtain c where c: "coins_get (coins_of st) op = Some c" using look unfolding lookup_pool [OF o(4)] by blast
  have "origins_ok (coins_of st) (chain_trace blocks @ map (Pair (next_height blocks)) (pool_txs d))"
    using pool_sim_inv(1) [OF o(4)] by (simp add: chain_inv_def)
  then have "\<exists>(k, tx) \<in> set (chain_trace blocks @ map (Pair (next_height blocks)) (pool_txs d)). ID tx = OpTxID op"
    using origins_ok_source c by blast
  then obtain k tx where tx: "(k, tx) \<in> set (chain_trace blocks @ map (Pair (next_height blocks)) (pool_txs d))" "ID tx = OpTxID op"
    by (elim bexE) (simp split: prod.splits)
  have "ID tx = ComputeID C tx" if "tx \<in> set (pool_txs d)"
    using pool_txs_valid [OF pool that] by (elim exE) (rule validated_id)
  moreover have "(k, tx) \<in> set (chain_trace blocks) \<or> tx \<in> set (pool_txs d)" using tx(1) by auto
  ultimately have "ID tx = ComputeID C tx" using trace_ids [OF rep] by (elim disjE)
  then show ?thesis unfolding tx(2) [symmetric] by (simp only: ComputeID_def decodeHash_hashHex [OF dg] rangeI)
qed

section \<open>The payment is admitted\<close>

lemma listed_spendable:
  assumes ok: "ledger_ok C now d blocks sts us p st" and u: "LedgerSpendableUTXO C d address = Inr u" and e: "(op, out) \<in> set u"
  shows "lookupMempoolSpendable d op (next_height blocks) = Inr out"
proof -
  note o = ledger_okD [OF ok]
  obtain tip h where tip: "tipFromQuery d = Inr tip" "nextHeight tip = Inr h" "spendableUTXO d address h = Inr u"
    using u by (auto simp: LedgerSpendableUTXO_def res_simps)
  have h: "h = next_height blocks" and len: "length blocks < 9223372036854775808" using nextHeight_tip [OF o(1) tip(1), of h] tip(2) by auto
  then have small: "uint (next_height blocks) \<le> MaxInt64" by (simp add: next_height_def MaxInt64_val uint_of_nat_small)
  show ?thesis
    by (rule spendable_lookup [OF o(4) small _ tip(3) [unfolded h] e]) (rule trace_heights [OF o(1)])
qed

lemma spendable_payment_admissible:
  assumes ok: "ledger_ok C now d blocks sts us p st" and u: "LedgerSpendableUTXO C d address = Inr u"
    and valid: "validateRegularTransaction C tx u = Inr fee" and relay: "minimumRelayFee (int (encodedSize tx)) \<le> fee"
    and new: "ID tx \<notin> RSeen st" and seq: "dbMempoolSeq d < MaxInt64" and usage: "readMempoolResourceUsage d = Inr usage"
    and room: "validateMempoolResourceBudget (UsageCount usage) (UsageBytes usage) (UsageInputs usage)
       (int (encodedSize tx)) (int (length (Inputs tx))) = Inr ()"
  shows "length blocks < 9223372036854775808" "admissible C d st (next_height blocks) tx fee"
proof -
  note o = ledger_okD [OF ok]
  let ?h = "next_height blocks"
  obtain tip h where tip: "tipFromQuery d = Inr tip" "nextHeight tip = Inr h" "spendableUTXO d address h = Inr u"
    using u by (auto simp: LedgerSpendableUTXO_def res_simps)
  show "length blocks < 9223372036854775808" using nextHeight_tip [OF o(1) tip(1), of h] tip(2) by auto
  have wf: "coins_wf (coins_of st)" using pool_sim_inv(1) [OF o(4)] by (simp add: chain_inv_def)
  have coin: "map_of u op = map_of (RUtxo st) op \<and> spendable_coin st ?h op" if op: "op \<in> set (spends tx)" for op
  proof -
    obtain out where out: "map_of u op = Some out"
      using validate_inputs(2) [OF valid] op by (auto simp: spends_def)
    have "lookupMempoolSpendable d op ?h = Inr out" by (rule listed_spendable [OF ok u map_of_SomeD [OF out]])
    then obtain c where c: "coins_get (coins_of st) op = Some c" "out = fst c"
      "FromCoinbase (snd c) \<longrightarrow> IsCoinbaseMature (CreatedHeight (snd c)) ?h" unfolding lookup_pool [OF o(4)] by blast
    then show ?thesis using out lookup_coins(1) [OF wf, of op] by (auto simp: spendable_coin_def coins_of_def)
  qed
  have "validateRegularTransaction C tx (RUtxo st) = Inr fee"
    using valid validateRegularTransaction_cong [of tx u "RUtxo st" C] coin by (simp add: spends_def)
  moreover have "validateCoinbaseMaturity tx (ROrigins st) ?h = Inr ()"
    using coin unfolding spendable_coins_mature [OF wf, symmetric] by blast
  moreover have "usage = pool_usage d" using usage read_usage [OF o(2,3)] by simp
  ultimately show "admissible C d st ?h tx fee" using new relay room seq by (simp add: admissible_def)
qed

lemma listed_ids:
  assumes dg: "digest32 (Sum256 C)" and ok: "ledger_ok C now d blocks sts us p st"
    and u: "LedgerSpendableUTXO C d address = Inr u" and e: "(op, out) \<in> set u"
  shows "decodeHash (OpTxID op) \<in> range Inr"
  by (rule spendable_ids [OF dg ok listed_spendable [OF ok u e]])

lemma known_outcome:
  assumes "tipFromQuery d = Inr tip" "nextHeight tip = Inr h" "\<not> Coinbase tx"
    and "ID tx \<in> TId ` set (dbTransactions d) \<union> MTxId ` set (dbMempool d)"
  shows "AddTransaction C now d tx = Inl (MempoolRejection ErrTransactionAlreadyKnown)"
  using assms by (auto simp: AddTransaction_def addMempoolTransaction_def addMempoolTransactionWithUsage_def)

definition known_ids :: "db \<Rightarrow> string set" where
  "known_ids d = TId ` set (dbTransactions d) \<union> MTxId ` set (dbMempool d)"

text \<open>
  C14. A prepared payment commits. On any reachable ledger, whatever is confirmed and pending, what
  \<open>PrepareRecommendedPayment\<close> returned is committed by \<open>CommitPreparedPayment\<close> of the same service: it
  is admitted to the mempool, or its ID was known already and the ledger is left as it is. Its fee meets the
  relay minimum and the reviewed ceiling, its first output pays exactly the amount to the recipient, and
  any other output is change of the reviewed wallet. The mempool must have room for the transaction (its
  budgets and its sequence counter), the signer must return signatures that verify, and the recipient must
  be somebody else.
\<close>

theorem prepared_payment_commits:
  assumes chain: "SvcLedger s = Some chain" "ledger_reachable C U chain"
    and prep: "PrepareRecommendedPayment C signers rnds s wallet to amount maximum = Inr (tx, fee)"
    and dg: "digest32 (Sum256 C)" and key: "privateKey C (SvcWallet s) = Inr (d, pub)"
    and point: "UnmarshalPoint C (MarshalPoint pub) = Some pub" and honest: "\<And>k. honest_signer C (signers k) d pub"
    and other: "\<not> AddressesEqual C wallet to"
    and room: "readMempoolResourceUsage chain = Inr usage" "dbMempoolSeq chain < MaxInt64"
      "validateMempoolResourceBudget (UsageCount usage) (UsageBytes usage) (UsageInputs usage)
         (int (encodedSize tx)) (int (length (Inputs tx))) = Inr ()"
  shows "minimumRelayFee (int (encodedSize tx)) \<le> fee \<and> fee \<le> maximum \<and>
     hd (Outputs tx) = \<lparr>Amount = amount, Address = to\<rparr> \<and>
     (\<forall>output \<in> set (tl (Outputs tx)). AddressesEqual C (Address output) wallet) \<and>
     (\<exists>chain'. CommitPreparedPayment C now s wallet to amount fee maximum tx = Inr (s\<lparr>SvcLedger := Some chain'\<rparr>, [tx]) \<and>
        (if ID tx \<in> known_ids chain then chain' = chain
         else AddTransaction C now chain tx = Inr chain' \<and> pool_txs chain' = pool_txs chain @ [tx]))"
proof -
  obtain nw blocks sts us p st where ok: "ledger_ok C nw chain blocks sts us p st"
    using ledger_reachable_ok [OF chain(2)] by blast
  obtain chain0 u k where pr: "SvcLedger s = Some chain0" "LedgerSpendableUTXO C chain0 wallet = Inr u"
    "BuildTransaction C (signers k) (rnds k) (SvcWallet s) to amount fee u = Inr tx"
    "minimumRelayFee (int (encodedSize tx)) \<le> fee" by (rule PrepareRecommendedPayment_ok [OF prep])
  have u: "LedgerSpendableUTXO C chain wallet = Inr u" using pr(1,2) chain(1) by simp
  have ids: "decodeHash (OpTxID op) \<in> range Inr" if "SvcLedger s = Some e" "LedgerSpendableUTXO C e wallet = Inr v" "(op, out) \<in> set v"
    for e v op out
    using listed_ids [OF dg ok] that chain(1) by auto
  have valid: "validateRegularTransaction C tx u = Inr fee"
    by (rule BuildTransaction_validates [OF pr(3) key point honest LedgerSpendableUTXO_distinct [OF u] ids [OF chain(1) u]])
  have regular: "\<not> Coinbase tx" using valid by (simp add: validateRegularTransaction_eq_Inr regular_tx_ok_def)
  note checks = prepared_passes_checks [OF prep dg key point honest ids other, where now = now]
  have known: "known_ids chain = RSeen st"
    using ledger_okD(4) [OF ok] by (simp add: pool_sim_def known_ids_def)
  show ?thesis
  proof (cases "ID tx \<in> known_ids chain")
    case True
    obtain tip h where "tipFromQuery chain = Inr tip" "nextHeight tip = Inr h" using u by (auto simp: LedgerSpendableUTXO_def res_simps)
    from known_outcome [OF this regular True [unfolded known_ids_def]] have "commit_outcome C now s chain tx = Inr (s, [tx])"
      by (simp add: commit_outcome_def isAlreadyKnown_def)
    then show ?thesis using checks chain(1) True by (intro conjI exI [of _ chain]) auto
  next
    case False
    then have new: "ID tx \<notin> RSeen st" by (simp add: known)
    note adm = spendable_payment_admissible [OF ok u valid pr(4) new room(2,1,3)]
    then obtain chain' where add: "AddTransaction C now chain tx = Inr chain'" unfolding add_exactly [OF ok] by blast
    then have "commit_outcome C now s chain tx = Inr (s\<lparr>SvcLedger := Some chain'\<rparr>, [tx])" by (simp add: commit_outcome_def)
    then show ?thesis using checks chain(1) False add add_ok(2) [OF ok add] by (intro conjI exI [of _ chain']) auto
  qed
qed

section \<open>A payment out of a mature reward\<close>

definition reward_row :: utxo_row where
  "reward_row = \<lparr>UTxId = ID (reward 1), UIndex = 0, UAmount = 6341959, UAddress = sample_address,
     UCreatedHeight = 1, UCoinbase = 1\<rparr>"

definition reward_payment :: transaction where
  "reward_payment =
     (let tx = \<lparr>ID = [], Coinbase = False, TxNonce = 9,
         Inputs = [\<lparr>InTxID = ID (reward 1), OutputIndex = 0, PublicKey = sample_key,
                    Signature = asn1_marshal_sig 1 1\<rparr>],
         Outputs = [\<lparr>Amount = 10, Address = merchant_address\<rparr>, \<lparr>Amount = 6340949, Address = sample_address\<rparr>]\<rparr>
      in tx\<lparr>ID := ComputeID sample_crypto tx\<rparr>)"

definition reward_service :: "db \<Rightarrow> service" where
  "reward_service d = sample_service\<lparr>SvcLedger := Some d\<rparr>"

lemma filter_single: "distinct xs \<Longrightarrow> x \<in> set xs \<Longrightarrow> (\<And>y. y \<in> set xs \<Longrightarrow> P y \<longleftrightarrow> y = x) \<Longrightarrow> filter P xs = [x]"
proof (induction xs)
  case (Cons y ys)
  then show ?case by (cases "y = x") (auto simp: filter_empty_conv)
qed simp

lemma find_in: "find P xs = Some x \<Longrightarrow> x \<in> set xs"
  by (auto simp: find_Some_iff)

lemma coins_upto_get:
  assumes "coins_get (coins_of (state_upto n)) op = Some c" "n \<le> 110"
  shows "\<exists>k. 1 \<le> k \<and> k \<le> n \<and> op = Outpoint (ID (reward k)) 0 \<and>
    c = (\<lparr>Amount = 6341959, Address = sample_address\<rparr>, \<lparr>CreatedHeight = word_of_nat k, FromCoinbase = True\<rparr>)"
proof -
  obtain out og where c: "map_of (fst (coins_upto n)) op = Some out" "map_of (snd (coins_upto n)) op = Some og" "c = (out, og)"
    using assms by (auto simp: coins_get_def coins_of_def state_upto_def split: option.splits)
  obtain k where k: "1 \<le> k" "k \<le> n" "op = Outpoint (ID (reward k)) 0" "out = \<lparr>Amount = 6341959, Address = sample_address\<rparr>"
    using map_of_SomeD [OF c(1)] by (auto simp: coins_upto_def less_Suc_eq_le simp del: upt_Suc)
  have "og = \<lparr>CreatedHeight = word_of_nat k, FromCoinbase = True\<rparr>"
    using c(2) map_of_rewards [OF k(1,2) assms(2), where f = "\<lambda>k. \<lparr>CreatedHeight = word_of_nat k, FromCoinbase = True\<rparr>"]
    unfolding k(3) coins_upto_def snd_conv by (simp only: option.inject)
  then show ?thesis using k c(3) by blast
qed

lemma coins_upto_first:
  "coins_get (coins_of (state_upto 100)) (Outpoint (ID (reward 1)) 0) =
     Some (\<lparr>Amount = 6341959, Address = sample_address\<rparr>, \<lparr>CreatedHeight = 1, FromCoinbase = True\<rparr>)"
  using map_of_rewards [of 1 100 "\<lambda>k. \<lparr>Amount = 6341959, Address = sample_address\<rparr>"]
    map_of_rewards [of 1 100 "\<lambda>k. \<lparr>CreatedHeight = word_of_nat k, FromCoinbase = True\<rparr>"]
  by (simp add: coins_get_def coins_of_def state_upto_def coins_upto_def del: upt_Suc)

lemma small_height: "k \<le> 110 \<Longrightarrow> int64_of (word_of_nat k :: u64) = int k"
  using uint_of_nat_small [of k] by (simp add: int64_of_small MaxInt64_val)

lemma reward_rows:
  assumes "sample_ledger U 100 d"
  shows "spendable_rows d sample_address 101 = [(ID (reward 1), 0, 6341959, sample_address)]"
proof -
  obtain now sts us st where ok: "ledger_ok sample_crypto now d (blocks_upto 100) sts us 0 st" "sts 100 = state_upto 100"
    using assms by (auto simp: sample_ledger_def)
  have pool: "dbMempoolInputs d = []" "dbMempoolOutputs d = []" using sample_pool_part [OF assms] by (simp_all add: pool_part_def)
  have u: "utxos_ok (dbUtxos d)" "utxos_get (dbUtxos d) = coins_get (coins_of (state_upto 100))"
    using represents_start(1) [OF ledger_okD(1) [OF ok(1)]] ok(2) by (simp_all add: ledger_sim_def)
  have wf: "utxos_wf (dbUtxos d)" by (rule utxos_ok_wf [OF u(1)])
  have keys: "distinct (map utxo_key (dbUtxos d))" using wf by (simp add: utxos_wf_def)
  let ?op = "Outpoint (ID (reward 1)) 0"
  have row: "reward_row = coin_row ?op (\<lparr>Amount = 6341959, Address = sample_address\<rparr>, \<lparr>CreatedHeight = 1, FromCoinbase = True\<rparr>)"
    by (simp add: reward_row_def coin_row_def int64_of_def bool_column_def)
  have mem: "reward_row \<in> set (dbUtxos d)"
    unfolding row by (rule find_in [OF utxos_ok_get(1) [OF u(1), unfolded u(2), OF coins_upto_first]])
  have others: "r = reward_row \<or> 1 < UCreatedHeight r \<and> UCoinbase r = 1" if r: "r \<in> set (dbUtxos d)" for r
  proof -
    have get: "coins_get (coins_of (state_upto 100)) (utxo_key r) = Some (row_coin r)"
      unfolding u(2) [symmetric] utxos_get_eq [OF wf] using r keys by (intro map_of_is_SomeI) (auto simp: comp_def)
    have "(100 :: nat) \<le> 110" by simp
    from coins_upto_get [OF get this] obtain k where k: "1 \<le> k" "k \<le> 100" "utxo_key r = Outpoint (ID (reward k)) 0"
      "row_coin r = (\<lparr>Amount = 6341959, Address = sample_address\<rparr>, \<lparr>CreatedHeight = word_of_nat k, FromCoinbase = True\<rparr>)"
      by (elim exE conjE)
    have "r = coin_row (utxo_key r) (row_coin r)" using r u(1) by (simp add: utxos_ok_def)
    then have r': "r = coin_row (Outpoint (ID (reward k)) 0)
        (\<lparr>Amount = 6341959, Address = sample_address\<rparr>, \<lparr>CreatedHeight = word_of_nat k, FromCoinbase = True\<rparr>)" unfolding k(3,4) .
    have "UCreatedHeight r = int k" "UCoinbase r = 1" using small_height [of k] k(2) by (simp_all add: r' coin_row_def bool_column_def)
    moreover have "r = reward_row" if "k = 1" using r' unfolding row that by simp
    ultimately show ?thesis using k(1) by (cases "k = 1") auto
  qed
  have "filter (\<lambda>u. nocase (UAddress u) sample_address \<and> UCreatedHeight u \<le> int64_of 101 \<and> (UCoinbase u = 0 \<or> UCreatedHeight u \<le> int64_of 1))
      (dbUtxos d) = [reward_row]"
  proof (rule filter_single [OF conjunct1 [OF iffD1 [OF distinct_map keys]] mem])
    fix r assume "r \<in> set (dbUtxos d)"
    from others [OF this] show "nocase (UAddress r) sample_address \<and> UCreatedHeight r \<le> int64_of 101 \<and>
        (UCoinbase r = 0 \<or> UCreatedHeight r \<le> int64_of 1) \<longleftrightarrow> r = reward_row"
      by (auto simp: reward_row_def nocase_def int64_of_def)
  qed
  then show ?thesis
    by (simp add: spendable_rows_def Let_def pool pending_spent_def CoinbaseMaturityActivationHeight_def CoinbaseMaturity_def
      reward_row_def)
qed

lemma reward_spendable:
  assumes "sample_ledger U 100 d"
  shows "LedgerSpendableUTXO sample_crypto d sample_address =
    Inr [(Outpoint (ID (reward 1)) 0, \<lparr>Amount = 6341959, Address = sample_address\<rparr>)]"
proof -
  obtain now sts us st where ok: "ledger_ok sample_crypto now d (blocks_upto 100) sts us 0 st"
    using assms by (auto simp: sample_ledger_def)
  obtain tip where tip: "tipFromQuery d = Inr tip" using represents_tip [OF ledger_okD(1) [OF ok]] by blast
  have "nextHeight tip = Inr 101" using nextHeight_tip [OF ledger_okD(1) [OF ok] tip, of 101] by (simp add: next_height_def)
  then show ?thesis using tip reward_rows [OF assms]
    by (simp add: LedgerSpendableUTXO_def spendableUTXO_def scanSpendable_def)
qed

lemma reward_payment_size: "encodedSize reward_payment = 352"
  by (simp add: encodedSize_eq reward_payment_def Let_def asn1_marshal_sig_def
      der_encode_int_def der_encode_length_def be_min.simps ID_reward ComputeID_def hashHex_def)

lemma build_reward_payment:
  "BuildTransaction sample_crypto sample_signer (Inr 9) sample_wallet merchant_address 10 1000
     [(Outpoint (ID (reward 1)) 0, \<lparr>Amount = 6341959, Address = sample_address\<rparr>)] = Inr reward_payment"
  by (simp add: BuildTransaction_def Let_def safeAdd_def AddressesEqual_refl
      MaxTransactionInputs_def sign_def signInput_def sample_signer_def halfOrder_def reward_payment_def
      MaxUint64_def p256_n_def)

lemma prepare_reward_payment:
  assumes "sample_ledger U 100 d"
  shows "PrepareRecommendedPayment sample_crypto (\<lambda>_. sample_signer) (\<lambda>_. Inr 9) (reward_service d) sample_address merchant_address 10 1000 =
     Inr (reward_payment, 1000)"
  using reward_spendable [OF assms]
  by (simp add: PrepareRecommendedPayment_def validatePaymentArguments_def paymentWallet_def reward_service_def sample_service_def
      AddressesEqual_refl buildRecommendedPayment_def recommendedLoop.simps [of _ _ _ _ _ _ _ 0]
      build_reward_payment [unfolded One_nat_def] reward_payment_size minimumRelayFee_def mempoolRelayFeeKibiByteUnits_def MinimumRelayFeePerKibiByte_def)

theorem prepared_payment_commits_witness:
  "\<exists>d d'. ledger_reachable sample_crypto no_urls d \<and>
     CommitPreparedPayment sample_crypto 7 (reward_service d) sample_address merchant_address 10 1000 1000 reward_payment =
       Inr ((reward_service d)\<lparr>SvcLedger := Some d'\<rparr>, [reward_payment])"
proof -
  obtain d where d: "ledger_reachable sample_crypto no_urls d" "sample_ledger no_urls 100 d" using sample_reachable by blast
  obtain now sts us st where ok: "ledger_ok sample_crypto now d (blocks_upto 100) sts us 0 st"
    using d(2) by (auto simp: sample_ledger_def)
  have pool: "dbMempool d = []" "dbMempoolSeq d = 0" using sample_pool_part [OF d(2)] by (simp_all add: pool_part_def)
  have usage: "readMempoolResourceUsage d = Inr (pool_usage d)" by (rule read_usage [OF ledger_okD(2,3) [OF ok]])
  have room: "validateMempoolResourceBudget (UsageCount (pool_usage d)) (UsageBytes (pool_usage d)) (UsageInputs (pool_usage d))
       (int (encodedSize reward_payment)) (int (length (Inputs reward_payment))) = Inr ()"
    unfolding reward_payment_size by (simp add: pool pool_usage_def validateMempoolResourceBudget_def pool_txs_def
      MaxPendingTransactions_def MaxMempoolBytes_def MaxMempoolInputs_def reward_payment_def Let_def)
  have key: "privateKey sample_crypto (SvcWallet (reward_service d)) = Inr (1, (1, 2))"
    by (simp add: reward_service_def sample_service_def)
  have led: "SvcLedger (reward_service d) = Some d" by (simp add: reward_service_def)
  have seq: "dbMempoolSeq d < MaxInt64" by (simp add: pool MaxInt64_val)
  have point: "UnmarshalPoint sample_crypto (MarshalPoint (1, 2)) = Some (1, 2)" by simp
  show ?thesis
    using prepared_payment_commits [OF led d(1) prepare_reward_payment [OF d(2)] digest32_sample key point honest_sample
        merchant_is_other usage seq room, of 7] d(1) by blast
qed

end
