(* ===== verification/Entpay_Data.thy ===== *)
theory Entpay_Data
  imports Wallet
begin

text \<open>
  The data of EntPay (\<open>entpay/protocol.go\<close>) and the checks at its boundary (\<open>entpay/boundary.go\<close>,
  the tokens of \<open>entpay/handoff.go\<close>): products, invoices and receipts with the bytes their
  signatures cover, canonical JSON, the validation of products and of what a product delivers, and
  the rate limiter.

  Ed25519, the JSON scanner and string quoting of \<open>encoding/json\<close>, \<open>mime.ParseMediaType\<close> and
  \<open>net/url\<close> are parameters (the record \<open>entpay_library\<close>). A time is its number of nanoseconds since 1970.
  A Go value that the program only keeps as JSON and decodes again is kept as that value.
\<close>

section \<open>Library functions\<close>

text \<open>A JSON document: the fields of an object are in the order of the text, with repetitions.\<close>

datatype json =
    JNull
  | JBool bool
  | JNumber string
  | JString string
  | JArray "json list"
  | JObject "(string \<times> json) list"

text \<open>
  What the program reads off a parsed URL: \<open>EuPlain\<close> says that it has no user, query or fragment,
  \<open>EuLoopback\<close> that the host is an IP address of the loopback network, \<open>EuBlankHost\<close> that the host
  before the port is blank, and \<open>EuSlashed\<close> is its text with exactly one slash ending the path.
\<close>

record endpoint_url =
  EuScheme :: string
  EuHost :: string
  EuHostname :: string
  EuPort :: string
  EuPlain :: bool
  EuLoopback :: bool
  EuBlankHost :: bool
  EuSlashed :: string

record entpay_library =
  Ed25519Sign :: "bytes \<Rightarrow> bytes \<Rightarrow> bytes"
  Ed25519Public :: "bytes \<Rightarrow> bytes"
  Ed25519Verify :: "bytes \<Rightarrow> bytes \<Rightarrow> bytes \<Rightarrow> bool"
  DecodeJSON :: "string \<Rightarrow> json res"
  QuoteJSON :: "string \<Rightarrow> string"
  ParseMediaType :: "string \<Rightarrow> (string \<times> nat) res"
  ParseEndpoint :: "string \<Rightarrow> endpoint_url option"
  QueryEscape :: "string \<Rightarrow> string"

definition Unix :: "int \<Rightarrow> int" where
  "Unix t = t div 1000000000"

definition Second :: int where "Second = 1000000000"
definition Minute :: int where "Minute = 60 * Second"
definition Hour :: int where "Hour = 60 * Minute"

text \<open>The zero value of \<open>time.Time\<close>, the start of the year 1.\<close>

definition zeroTime :: int where
  "zeroTime = - 62135596800 * Second"

definition TruncateSecond :: "int \<Rightarrow> int" where
  "TruncateSecond t = t - t mod 1000000000"

definition FormatInt :: "int \<Rightarrow> string" where
  "FormatInt i = (if i < 0 then CHR ''-'' # FormatUint (nat (- i)) else FormatUint (nat i))"

fun strings_Join :: "string list \<Rightarrow> string \<Rightarrow> string" where
  "strings_Join [] sep = []"
| "strings_Join [s] sep = s"
| "strings_Join (s # t # ss) sep = s @ sep @ strings_Join (t # ss) sep"

definition ContainsAny :: "string \<Rightarrow> string \<Rightarrow> bool" where
  "ContainsAny s chars \<longleftrightarrow> (\<exists>c \<in> set s. c \<in> set chars)"

fun strings_Contains :: "string \<Rightarrow> string \<Rightarrow> bool" where
  "strings_Contains [] t \<longleftrightarrow> t = []"
| "strings_Contains (c # s) t \<longleftrightarrow> starts_with (c # s) t \<or> strings_Contains s t"

text \<open>\<open>filepath.Base\<close> with the separator \<open>/\<close>.\<close>

definition filepath_Base :: "string \<Rightarrow> string" where
  "filepath_Base p =
     (if p = [] then ''.''
      else let p = rev (dropWhile (\<lambda>c. c = CHR ''/'') (rev p))
        in if p = [] then ''/'' else rev (takeWhile (\<lambda>c. c \<noteq> CHR ''/'') (rev p)))"

section \<open>Unpadded base64url\<close>

definition b64_char :: "nat \<Rightarrow> char" where
  "b64_char n =
     (if n < 26 then char_of (65 + n) else if n < 52 then char_of (71 + n)
      else if n < 62 then char_of (n - 4) else if n = 62 then CHR ''-'' else CHR ''_'')"

definition b64_val :: "char \<Rightarrow> nat option" where
  "b64_val c = (let n = of_char c :: nat in
     if 65 \<le> n \<and> n \<le> 90 then Some (n - 65)
     else if 97 \<le> n \<and> n \<le> 122 then Some (n - 71)
     else if 48 \<le> n \<and> n \<le> 57 then Some (n + 4)
     else if n = 45 then Some 62 else if n = 95 then Some 63 else None)"

fun b64_encode_nats :: "nat list \<Rightarrow> nat list" where
  "b64_encode_nats [] = []"
| "b64_encode_nats [a] = [a div 4, a mod 4 * 16]"
| "b64_encode_nats [a, b] = [a div 4, a mod 4 * 16 + b div 16, b mod 16 * 4]"
| "b64_encode_nats (a # b # c # r) =
     [a div 4, a mod 4 * 16 + b div 16, b mod 16 * 4 + c div 64, c mod 64] @ b64_encode_nats r"

fun b64_decode_nats :: "nat list \<Rightarrow> nat list option" where
  "b64_decode_nats [] = Some []"
| "b64_decode_nats [x] = None"
| "b64_decode_nats [x, y] = Some [x * 4 + y div 16]"
| "b64_decode_nats [x, y, z] = Some [x * 4 + y div 16, y mod 16 * 16 + z div 4]"
| "b64_decode_nats (x # y # z # w # r) =
     (case b64_decode_nats r of
        None \<Rightarrow> None
      | Some bs \<Rightarrow> Some ([x * 4 + y div 16, y mod 16 * 16 + z div 4, z mod 4 * 64 + w] @ bs))"

definition RawURLEncode :: "bytes \<Rightarrow> string" where
  "RawURLEncode bs = map b64_char (b64_encode_nats (map unat bs))"

text \<open>The decoder skips line breaks and accepts any trailing bits.\<close>

definition RawURLDecode :: "string \<Rightarrow> bytes res" where
  "RawURLDecode s =
     (let vals = map b64_val (filter (\<lambda>c. of_char c \<notin> {10, 13 :: nat}) s) in
      if None \<in> set vals then Inl (Errorf ''illegal base64 data'')
      else case b64_decode_nats (map the vals) of
        None \<Rightarrow> Inl (Errorf ''illegal base64 data'')
      | Some bs \<Rightarrow> Inr (map word_of_nat bs))"

definition handoffTokenBytes :: nat where "handoffTokenBytes = 32"

text \<open>\<open>newOpaqueToken\<close> of the bytes \<open>crypto/rand\<close> gave, or its error.\<close>

definition newOpaqueToken :: "bytes res \<Rightarrow> string res" where
  "newOpaqueToken rnd = attempt rnd (\<lambda>value. Inr (RawURLEncode value))"

definition validateOpaqueToken :: "string \<Rightarrow> unit res" where
  "validateOpaqueToken v =
     (case RawURLDecode v of
        Inl _ \<Rightarrow> Inl (Errorf ''token must be unpadded base64url with at least 256 bits'')
      | Inr decoded \<Rightarrow>
        if length decoded < handoffTokenBytes \<or> length decoded > 64 \<or> RawURLEncode decoded \<noteq> v
        then Inl (Errorf ''token must be unpadded base64url with at least 256 bits'') else Inr ())"

section \<open>Protocol records\<close>

definition ProtocolVersion :: string where "ProtocolVersion = ''entpay-v1''"
definition ResultSchema :: string where "ResultSchema = ''entpay-result-v1''"
definition maxArtifactBytes :: int where "maxArtifactBytes = 20971520"
definition maxRequestBytes :: nat where "maxRequestBytes = 131072"

record InputField =
  FldID :: string
  FldLabel :: string
  FldType :: string
  FldPlaceholder :: string
  FldDefault :: string
  FldMinLength :: int
  FldMaxLength :: int
  FldRequired :: bool

record ProductDescriptor =
  PdID :: string
  PdName :: string
  PdDescription :: string
  PdPrice :: u64
  PdConfirmations :: u64
  PdAccent :: string
  PdFields :: "InputField list"

record ResultEnvelope =
  ResSchema :: string
  ResSummary :: string
  ResData :: string

record Artifact =
  ArtContents :: bytes
  ArtMediaType :: string
  ArtFileName :: string

record Fulfillment =
  FulResult :: ResultEnvelope
  FulArtifact :: "Artifact option"

record Invoice =
  InvProtocol :: string
  InvNetwork :: string
  InvID :: string
  InvMerchant :: string
  InvAmount :: u64
  InvResource :: string
  InvInputSHA256 :: string
  InvExpiresAt :: int
  InvConfirmations :: u64
  InvSignature :: string

record Receipt =
  RcpProtocol :: string
  RcpInvoiceID :: string
  RcpTransactionID :: string
  RcpResource :: string
  RcpInputSHA256 :: string
  RcpPayloadSHA256 :: string
  RcpArtifactSHA256 :: string
  RcpDeliveredAt :: int
  RcpSignature :: string

record ArtifactMetadata =
  MetaDownloadPath :: string
  MetaSHA256 :: string
  MetaMediaType :: string
  MetaFileName :: string
  MetaBytes :: int

record Delivery =
  DelReceipt :: Receipt
  DelPayload :: string
  DelArtifact :: "ArtifactMetadata option"

record ServiceInfo =
  SiProtocol :: string
  SiNetwork :: string
  SiMerchant :: string
  SiSigningKey :: string
  SiProducts :: "ProductDescriptor list"
  SiCapabilities :: "string list"

record Launch =
  LnURL :: string
  LnHandoff :: string
  LnExpiresAt :: int

record CreateInvoiceResponse =
  CirInvoice :: Invoice
  CirClaimToken :: string
  CirLaunch :: "Launch option"

record HandoffCapsule =
  HcEndpoint :: string
  HcInput :: string
  HcCreated :: CreateInvoiceResponse

record PaymentStatus =
  PsInvoiceID :: string
  PsStatus :: string
  PsTransactionID :: string
  PsConfirmations :: u64
  PsRequired :: u64
  PsAttempt :: u64

section \<open>Signatures and hashes\<close>

definition signed_bytes :: "string list \<Rightarrow> bytes" where
  "signed_bytes flds = string_bytes (strings_Join flds [CHR 0x0A])"

definition signFields :: "entpay_library \<Rightarrow> bytes \<Rightarrow> string list \<Rightarrow> string" where
  "signFields E sk flds = RawURLEncode (Ed25519Sign E sk (signed_bytes flds))"

definition verifyFields :: "entpay_library \<Rightarrow> bytes \<Rightarrow> string \<Rightarrow> string list \<Rightarrow> bool" where
  "verifyFields E pk signatureText flds =
     (case RawURLDecode signatureText of
        Inl _ \<Rightarrow> False
      | Inr signature \<Rightarrow> Ed25519Verify E pk (signed_bytes flds) signature)"

definition invoice_fields :: "Invoice \<Rightarrow> string list" where
  "invoice_fields v =
     [InvProtocol v, InvNetwork v, InvID v, InvMerchant v, FormatUint (unat (InvAmount v)), InvResource v,
      InvInputSHA256 v, FormatInt (Unix (InvExpiresAt v)), FormatUint (unat (InvConfirmations v))]"

definition receipt_fields :: "Receipt \<Rightarrow> string list" where
  "receipt_fields v =
     [RcpProtocol v, RcpInvoiceID v, RcpTransactionID v, RcpResource v, RcpInputSHA256 v,
      RcpPayloadSHA256 v, RcpArtifactSHA256 v, FormatInt (Unix (RcpDeliveredAt v))]"

definition signInvoice :: "entpay_library \<Rightarrow> bytes \<Rightarrow> Invoice \<Rightarrow> Invoice" where
  "signInvoice E sk v = v\<lparr>InvSignature := signFields E sk (invoice_fields v)\<rparr>"

definition verifyInvoice :: "entpay_library \<Rightarrow> bytes \<Rightarrow> Invoice \<Rightarrow> bool" where
  "verifyInvoice E pk v = verifyFields E pk (InvSignature v) (invoice_fields v)"

definition signReceipt :: "entpay_library \<Rightarrow> bytes \<Rightarrow> Receipt \<Rightarrow> Receipt" where
  "signReceipt E sk v = v\<lparr>RcpSignature := signFields E sk (receipt_fields v)\<rparr>"

definition verifyReceipt :: "entpay_library \<Rightarrow> bytes \<Rightarrow> Receipt \<Rightarrow> bool" where
  "verifyReceipt E pk v = verifyFields E pk (RcpSignature v) (receipt_fields v)"

definition contentHash :: "crypto \<Rightarrow> bytes \<Rightarrow> string" where
  "contentHash C contents = hex_encode (Sum256 C contents)"

definition inputHash :: "crypto \<Rightarrow> string \<Rightarrow> string \<Rightarrow> string" where
  "inputHash C resource canonicalInput = contentHash C (string_bytes (resource @ [CHR 0x0A] @ canonicalInput))"

section \<open>Canonical JSON\<close>

definition json_member :: "entpay_library \<Rightarrow> string \<Rightarrow> string \<Rightarrow> string" where
  "json_member E key text = QuoteJSON E key @ '':'' @ text"

text \<open>\<open>json.Marshal\<close> of a decoded value: the keys of an object in ascending order, no white space.\<close>

fun json_text :: "entpay_library \<Rightarrow> json \<Rightarrow> string" where
  "json_text E JNull = ''null''"
| "json_text E (JBool b) = (if b then ''true'' else ''false'')"
| "json_text E (JNumber n) = n"
| "json_text E (JString s) = QuoteJSON E s"
| "json_text E (JArray vs) = ''['' @ strings_Join (map (json_text E) vs) '','' @ '']''"
| "json_text E (JObject flds) =
     ''{'' @ strings_Join (map snd (sort_key fst
       (map (\<lambda>(k, v). (k, json_member E k (json_text E v))) flds))) '','' @ ''}''"

text \<open>
  \<open>rejectDuplicateJSONKeys\<close> walks the tokens of the document: no object repeats a key, and no value
  is nested more than 32 deep.
\<close>

lemma checkAll_cong [fundef_cong]:
  "xs = ys \<Longrightarrow> (\<And>x. x \<in> set ys \<Longrightarrow> f x = g x) \<Longrightarrow> checkAll f xs = checkAll g ys"
  unfolding checkAll_def by (rule foldE_cong) auto

fun walkJSON :: "nat \<Rightarrow> json \<Rightarrow> unit res" where
  "walkJSON depth (JArray vs) =
     (if depth > 32 then Inl (Errorf ''JSON nesting exceeds 32 levels'')
      else checkAll (walkJSON (depth + 1)) vs)"
| "walkJSON depth (JObject flds) =
     (if depth > 32 then Inl (Errorf ''JSON nesting exceeds 32 levels'')
      else if \<not> distinct (map fst flds) then Inl (Errorf ''JSON contains duplicate key'')
      else checkAll (\<lambda>fld. walkJSON (depth + 1) (snd fld)) flds)"
| "walkJSON depth v =
     (if depth > 32 then Inl (Errorf ''JSON nesting exceeds 32 levels'') else Inr ())"

definition rejectDuplicateJSONKeys :: "entpay_library \<Rightarrow> string \<Rightarrow> unit res" where
  "rejectDuplicateJSONKeys E contents = attempt (DecodeJSON E contents) (walkJSON 0)"

definition canonicalObject :: "entpay_library \<Rightarrow> string \<Rightarrow> string res" where
  "canonicalObject E raw =
     (if raw = [] \<or> length raw > maxRequestBytes then Inl (Errorf ''input must be a bounded JSON object'')
      else attempt (rejectDuplicateJSONKeys E raw) (\<lambda>_.
        attempt (DecodeJSON E raw) (\<lambda>v.
        case v of
          JObject _ \<Rightarrow> Inr (json_text E v)
        | _ \<Rightarrow> Inl (Errorf ''input must be a JSON object''))))"

definition canonicalPayload :: "entpay_library \<Rightarrow> string \<Rightarrow> string res" where
  "canonicalPayload E raw =
     (if raw = [] \<or> length raw > 1048576 then Inl (Errorf ''fulfillment payload must be bounded JSON'')
      else attempt (rejectDuplicateJSONKeys E raw) (\<lambda>_.
        attempt (DecodeJSON E raw) (\<lambda>v. Inr (json_text E v))))"

text \<open>\<open>json.Marshal\<close> of a \<open>ResultEnvelope\<close>: its fields in the order of the struct.\<close>

definition result_text :: "entpay_library \<Rightarrow> ResultEnvelope \<Rightarrow> string" where
  "result_text E r =
     ''{'' @ strings_Join [json_member E ''schema'' (QuoteJSON E (ResSchema r)),
       json_member E ''summary'' (QuoteJSON E (ResSummary r)), json_member E ''data'' (ResData r)] '','' @ ''}''"

definition canonicalResult :: "entpay_library \<Rightarrow> ResultEnvelope \<Rightarrow> string res" where
  "canonicalResult E r =
     (if ResSchema r \<noteq> ResultSchema then Inl (Errorf ''fulfillment result schema is invalid'')
      else let summary = TrimSpace (ResSummary r) in
      if summary \<noteq> ResSummary r \<or> length summary < 1 \<or> length summary > 500 \<or>
         ContainsAny summary [CHR 0x0D, CHR 0x0A, CHR 0x09]
      then Inl (Errorf ''fulfillment result summary is invalid'')
      else attempt (canonicalObject E (ResData r)) (\<lambda>data.
        canonicalPayload E (result_text E \<lparr>ResSchema = ResultSchema, ResSummary = summary, ResData = data\<rparr>)))"

section \<open>Products and deliveries\<close>

definition lower_char :: "char \<Rightarrow> bool" where
  "lower_char c \<longleftrightarrow> (let n = of_char c :: nat in 97 \<le> n \<and> n \<le> 122)"

definition validIdentifier :: "string \<Rightarrow> bool" where
  "validIdentifier v =
     (if length v < 3 \<or> length v > 64 then False
      else \<forall>index < length v. let character = v ! index in
        lower_char character \<or> (is_digit character \<and> index > 0) \<or>
        (character = CHR ''-'' \<and> index > 0 \<and> index < length v - 1))"

definition validateField :: "string list \<Rightarrow> InputField \<Rightarrow> string list res" where
  "validateField seen field =
     (if \<not> validIdentifier (FldID field) \<or> length (TrimSpace (FldLabel field)) < 2 \<or> length (FldLabel field) > 80 \<or>
         (FldType field \<noteq> ''text'' \<and> FldType field \<noteq> ''textarea'') \<or> FldMinLength field < 0 \<or>
         FldMaxLength field < FldMinLength field \<or> FldMaxLength field > 10000
      then Inl (Errorf ''product input field is invalid'')
      else if FldID field \<in> set seen then Inl (Errorf ''product input field is duplicated'')
      else Inr (FldID field # seen))"

definition validateProductDescriptor :: "ProductDescriptor \<Rightarrow> unit res" where
  "validateProductDescriptor d =
     (if \<not> validIdentifier (PdID d) \<or> length (TrimSpace (PdName d)) < 3 \<or> length (PdName d) > 80 \<or>
         length (TrimSpace (PdDescription d)) < 10 \<or> length (PdDescription d) > 240
      then Inl (Errorf ''product identity is invalid'')
      else if PdPrice d = 0 \<or> PdConfirmations d = 0 \<or> PdConfirmations d > 100
      then Inl (Errorf ''product payment terms are invalid'')
      else if PdAccent d \<noteq> ''green'' \<and> PdAccent d \<noteq> ''coral'' \<and> PdAccent d \<noteq> ''blue'' \<and> PdAccent d \<noteq> ''gold''
      then Inl (Errorf ''product accent is invalid'')
      else if PdFields d = [] \<or> length (PdFields d) > 12 then Inl (Errorf ''product fields are invalid'')
      else attempt (foldE validateField [] (PdFields d)) (\<lambda>_. Inr ()))"

definition validMediaType :: "entpay_library \<Rightarrow> string \<Rightarrow> bool" where
  "validMediaType E v =
     (if v = [] \<or> length v > 80 \<or> ContainsAny v [CHR 0x0D, CHR 0x0A] then False
      else case ParseMediaType E v of
        Inl _ \<Rightarrow> False
      | Inr (mediaType, parameters) \<Rightarrow>
          parameters = 0 \<and> mediaType = map to_lower v \<and> CHR ''/'' \<in> set mediaType)"

definition validateFulfillment :: "entpay_library \<Rightarrow> Fulfillment \<Rightarrow> string res" where
  "validateFulfillment E f =
     attempt (canonicalResult E (FulResult f)) (\<lambda>payload.
     case FulArtifact f of
       None \<Rightarrow> Inr payload
     | Some a \<Rightarrow>
       if ArtContents a = [] \<or> int (length (ArtContents a)) > maxArtifactBytes \<or> \<not> validMediaType E (ArtMediaType a)
       then Inl (Errorf ''fulfillment artifact is invalid'')
       else let name = filepath_Base (TrimSpace (ArtFileName a)) in
         if name = ''.'' \<or> name = [] \<or> name \<noteq> ArtFileName a \<or> length name > 120
         then Inl (Errorf ''artifact file name is invalid'') else Inr payload)"

section \<open>The rate limiter\<close>

record rateState =
  RsStarted :: int
  RsCount :: int

type_synonym rateLimiter = "(string \<times> rateState) list"

definition newRateLimiter :: rateLimiter where "newRateLimiter = []"

definition Allow :: "rateLimiter \<Rightarrow> int \<Rightarrow> string \<Rightarrow> int \<Rightarrow> int \<Rightarrow> rateLimiter \<times> bool" where
  "Allow l now key limit window =
     (let state = (case map_of l key of Some st \<Rightarrow> st | None \<Rightarrow> \<lparr>RsStarted = zeroTime, RsCount = 0\<rparr>) in
      if RsStarted state = zeroTime \<or> now - RsStarted state \<ge> window
      then (AList.update key \<lparr>RsStarted = now, RsCount = 1\<rparr> l, True)
      else if RsCount state \<ge> limit then (l, False)
      else let l = AList.update key (state\<lparr>RsCount := RsCount state + 1\<rparr>) l in
        (if length l > 4096 then filter (\<lambda>(_, v). \<not> now - RsStarted v \<ge> window) l else l, True))"

end
