(* ===== verification/Agent.thy ===== *)
theory Agent
  imports Entpay_Data Transaction
begin

text \<open>
  The paying side's checks: \<open>entpay/agent.go\<close> (endpoints, the service's advertised products, the signed
  invoice, the delivery and its receipt, the agent run from an approved invoice to a verified delivery)
  and the launch links of \<open>entpay/handoff.go\<close>. What the network answers is an argument.
\<close>

section \<open>Endpoints and launch links\<close>

definition normalizeEntPayURL :: "entpay_library \<Rightarrow> string \<Rightarrow> string res" where
  "normalizeEntPayURL E v =
     (case ParseEndpoint E (TrimSpace v) of
        None \<Rightarrow> Inl (Errorf ''EntPay endpoint must be an HTTPS URL'')
      | Some u \<Rightarrow>
        if EuHost u = [] \<or> \<not> EuPlain u then Inl (Errorf ''EntPay endpoint must be an HTTPS URL'')
        else if EuScheme u \<noteq> ''https'' \<and>
          (EuScheme u \<noteq> ''http'' \<or> (EuHostname u \<noteq> ''localhost'' \<and> \<not> EuLoopback u))
        then Inl (Errorf ''EntPay endpoint must be HTTPS except on loopback'')
        else Inr (EuSlashed u))"

definition validatePublicEndpoint :: "entpay_library \<Rightarrow> string \<Rightarrow> string res" where
  "validatePublicEndpoint E v =
     attempt (normalizeEntPayURL E v) (\<lambda>endpoint.
     case ParseEndpoint E endpoint of
       None \<Rightarrow> Inl (GoPanic ''nil URL'')
     | Some u \<Rightarrow>
       if EuPort u \<noteq> [] \<and> EuPort u \<noteq> ''443'' \<and> EuPort u \<noteq> ''80'' \<and> EuHostname u \<noteq> ''localhost'' \<and> \<not> EuLoopback u
       then Inl (Errorf ''EntPay endpoint uses a non-default public port'')
       else if ContainsAny endpoint [CHR 0x0D, CHR 0x0A, CHR 0x00] then Inl (Errorf ''EntPay endpoint is invalid'')
       else if EuBlankHost u then Inl (Errorf ''EntPay endpoint is invalid'')
       else Inr endpoint)"

record LaunchRequest =
  LrMerchant :: string
  LrHandoff :: string

definition isPublicEndpoint :: "entpay_library \<Rightarrow> string \<Rightarrow> bool" where
  "isPublicEndpoint E v \<longleftrightarrow> validatePublicEndpoint E v = Inr v"

definition ValidateLaunchRequest :: "entpay_library \<Rightarrow> LaunchRequest \<Rightarrow> unit res" where
  "ValidateLaunchRequest E request =
     (if \<not> isPublicEndpoint E (LrMerchant request) \<or> validateOpaqueToken (LrHandoff request) \<noteq> Inr ()
      then Inl (Errorf ''EntPay launch request is invalid'') else Inr ())"

definition ValidateLaunchIntent :: "entpay_library \<Rightarrow> LaunchRequest \<Rightarrow> unit res" where
  "ValidateLaunchIntent E request =
     (if \<not> isPublicEndpoint E (LrMerchant request) \<or> LrHandoff request \<noteq> []
      then Inl (Errorf ''EntPay launch intent is invalid'') else Inr ())"

text \<open>
  The parts of a payment link. The query is the map of \<open>url.ParseQuery\<close>, as an association list of
  the values of each name, or its error.
\<close>

record launch_url =
  LuScheme :: string
  LuHost :: string
  LuPath :: string
  LuUser :: bool
  LuFragment :: string
  LuQuery :: "(string \<times> string list) list res"

definition maxLaunchURLBytes :: nat where "maxLaunchURLBytes = 2048"

definition queryValues :: "(string \<times> string list) list \<Rightarrow> string \<Rightarrow> string list" where
  "queryValues query name = (case map_of query name of None \<Rightarrow> [] | Some vs \<Rightarrow> vs)"

definition ParseLaunchURL :: "entpay_library \<Rightarrow> (string \<Rightarrow> launch_url res) \<Rightarrow> string \<Rightarrow> LaunchRequest res" where
  "ParseLaunchURL E parse v =
     (if v = [] \<or> length v > maxLaunchURLBytes then Inl (Errorf ''payment link length is invalid'')
      else case parse v of
        Inl _ \<Rightarrow> Inl (Errorf ''payment link is invalid'')
      | Inr u \<Rightarrow>
        if LuScheme u \<noteq> ''entcoin'' \<or> LuHost u \<noteq> ''pay'' \<or> (LuPath u \<noteq> [] \<and> LuPath u \<noteq> ''/'') \<or> LuUser u \<or> LuFragment u \<noteq> []
        then Inl (Errorf ''payment link is invalid'')
        else case LuQuery u of
          Inl _ \<Rightarrow> Inl (Errorf ''payment link parameters are invalid'')
        | Inr query \<Rightarrow>
          if length query \<noteq> 2 \<and> length query \<noteq> 3 then Inl (Errorf ''payment link parameters are invalid'')
          else if length (queryValues query ''v'') \<noteq> 1 \<or> length (queryValues query ''merchant'') \<noteq> 1
          then Inl (Errorf ''payment link parameters are invalid'')
          else if hd (queryValues query ''v'') \<noteq> ''1'' then Inl (Errorf ''payment link version is unsupported'')
          else let merchant = hd (queryValues query ''merchant'') in
          if \<not> isPublicEndpoint E merchant then Inl (Errorf ''payment link merchant is invalid'')
          else case map_of query ''handoff'' of
            None \<Rightarrow> Inr \<lparr>LrMerchant = merchant, LrHandoff = []\<rparr>
          | Some vs \<Rightarrow>
            if length vs \<noteq> 1 \<or> validateOpaqueToken (hd vs) \<noteq> Inr ()
            then Inl (Errorf ''payment link handoff is invalid'')
            else Inr \<lparr>LrMerchant = merchant, LrHandoff = hd vs\<rparr>)"

text \<open>\<open>url.Values.Encode\<close> writes the parameters in the order of their names.\<close>

definition buildLaunchURL :: "entpay_library \<Rightarrow> string \<Rightarrow> string" where
  "buildLaunchURL E endpoint = ''entcoin://pay?merchant='' @ QueryEscape E endpoint @ ''&v=1''"

definition buildHandoffURL :: "entpay_library \<Rightarrow> string \<Rightarrow> string \<Rightarrow> string" where
  "buildHandoffURL E endpoint code =
     ''entcoin://pay?handoff='' @ QueryEscape E code @ ''&merchant='' @ QueryEscape E endpoint @ ''&v=1''"

section \<open>The service and its invoice\<close>

definition agent_capabilities :: "string list" where
  "agent_capabilities = [''input-bound-invoices'', ''payload-bound-receipts'', ''exact-output-verification'',
     ''confirmed-delivery'', ''idempotent-fulfillment'', ''authorized-artifacts'']"

definition advertisedProduct :: "crypto \<Rightarrow> ServiceInfo \<Rightarrow> string \<Rightarrow> ProductDescriptor res" where
  "advertisedProduct C info resource =
     (if SiProtocol info \<noteq> ProtocolVersion \<or> SiNetwork info \<noteq> NetworkID \<or>
         ValidateAddress C (SiMerchant info) \<noteq> Inr () \<or> SiProducts info = []
      then Inl (Errorf ''EntPay service information violates agent policy'')
      else if \<not> list_all (\<lambda>c. c \<in> set (SiCapabilities info)) agent_capabilities
      then Inl (Errorf ''EntPay service is missing capability'')
      else case find (\<lambda>p. PdID p = resource) (SiProducts info) of
        None \<Rightarrow> Inl (Errorf ''resource is not advertised'')
      | Some p \<Rightarrow> attempt (validateProductDescriptor p) (\<lambda>_. Inr p))"

definition PublicKeySize :: nat where "PublicKeySize = 32"

text \<open>The two readings of the clock are the arguments \<open>now\<close> and \<open>now'\<close>.\<close>

definition validateRemoteInvoice ::
    "crypto \<Rightarrow> entpay_library \<Rightarrow> int \<Rightarrow> int \<Rightarrow> ServiceInfo \<Rightarrow> ProductDescriptor \<Rightarrow> Invoice \<Rightarrow> string \<Rightarrow> u64 \<Rightarrow> bytes res" where
  "validateRemoteInvoice C E now now' info product invoice input maximum =
     (if PdPrice product > maximum \<or> InvProtocol invoice \<noteq> SiProtocol info \<or> InvNetwork invoice \<noteq> SiNetwork info \<or>
         \<not> AddressesEqual C (InvMerchant invoice) (SiMerchant info) \<or> InvAmount invoice \<noteq> PdPrice product \<or>
         InvResource invoice \<noteq> PdID product \<or> InvInputSHA256 invoice \<noteq> inputHash C (PdID product) input \<or>
         InvConfirmations invoice \<noteq> PdConfirmations product \<or> now > InvExpiresAt invoice \<or>
         InvExpiresAt invoice > now' + (Hour + Minute)
      then Inl (Errorf ''invoice does not match the advertised service or agent policy'')
      else case RawURLDecode (SiSigningKey info) of
        Inl _ \<Rightarrow> Inl (Errorf ''invoice signature is invalid'')
      | Inr pk \<Rightarrow>
        if length pk \<noteq> PublicKeySize \<or> \<not> verifyInvoice E pk invoice
        then Inl (Errorf ''invoice signature is invalid'') else Inr pk)"

record ApprovalRequest =
  ArInvoice :: Invoice
  ArProduct :: ProductDescriptor
  ArInput :: string
  ArMaximumAtoms :: u64

text \<open>\<open>fetched\<close> is the answer to the request for \<open>v1/info\<close>.\<close>

definition InspectPreparedPaymentDetails ::
    "crypto \<Rightarrow> entpay_library \<Rightarrow> int \<Rightarrow> int \<Rightarrow> ServiceInfo res \<Rightarrow> string \<Rightarrow> string \<Rightarrow> u64 \<Rightarrow> CreateInvoiceResponse \<Rightarrow>
     (ApprovalRequest \<times> ServiceInfo) res" where
  "InspectPreparedPaymentDetails C E now now' fetched endpoint input maximum created =
     attempt (normalizeEntPayURL E endpoint) (\<lambda>_.
     attempt (canonicalObject E input) (\<lambda>canonicalInput.
     if maximum = 0 \<or> TrimSpace (CirClaimToken created) = [] then Inl (Errorf ''prepared payment is incomplete'')
     else attempt fetched (\<lambda>info.
       attempt (advertisedProduct C info (InvResource (CirInvoice created))) (\<lambda>product.
       attempt (validateRemoteInvoice C E now now' info product (CirInvoice created) canonicalInput maximum) (\<lambda>_.
       Inr (\<lparr>ArInvoice = CirInvoice created, ArProduct = product, ArInput = canonicalInput, ArMaximumAtoms = maximum\<rparr>, info))))))"

section \<open>The delivery\<close>

definition artifact_path :: "string \<Rightarrow> string" where
  "artifact_path invoiceID = ''v1/invoices/'' @ invoiceID @ ''/artifact''"

definition validateDelivery ::
    "crypto \<Rightarrow> entpay_library \<Rightarrow> bytes \<Rightarrow> Invoice \<Rightarrow> string \<Rightarrow> Delivery \<Rightarrow> unit res" where
  "validateDelivery C E pk invoice transactionID delivery =
     (let receipt = DelReceipt delivery in
      if RcpProtocol receipt \<noteq> ProtocolVersion \<or> RcpInvoiceID receipt \<noteq> InvID invoice \<or>
         RcpTransactionID receipt \<noteq> transactionID \<or> RcpResource receipt \<noteq> InvResource invoice \<or>
         RcpInputSHA256 receipt \<noteq> InvInputSHA256 invoice \<or> \<not> verifyReceipt E pk receipt
      then Inl (Errorf ''delivery receipt is invalid'')
      else case canonicalPayload E (DelPayload delivery) of
        Inl _ \<Rightarrow> Inl (Errorf ''delivery payload failed integrity verification'')
      | Inr payload \<Rightarrow>
        if contentHash C (string_bytes payload) \<noteq> RcpPayloadSHA256 receipt
        then Inl (Errorf ''delivery payload failed integrity verification'')
        else case DelArtifact delivery of
          None \<Rightarrow>
            if RcpArtifactSHA256 receipt \<noteq> [] then Inl (Errorf ''delivery artifact metadata is missing'') else Inr ()
        | Some artifact \<Rightarrow>
            if MetaSHA256 artifact = [] \<or> MetaSHA256 artifact \<noteq> RcpArtifactSHA256 receipt \<or> MetaBytes artifact \<le> 0 \<or>
               MetaBytes artifact > maxArtifactBytes \<or> \<not> validMediaType E (MetaMediaType artifact) \<or>
               MetaDownloadPath artifact \<noteq> artifact_path (InvID invoice)
            then Inl (Errorf ''delivery artifact metadata is invalid'') else Inr ())"

text \<open>An answer of the artifact endpoint: its status, its content type and the bytes read.\<close>

record artifact_response =
  ArStatus :: int
  ArContentType :: string
  ArBody :: bytes

definition checkDownload :: "crypto \<Rightarrow> ArtifactMetadata \<Rightarrow> artifact_response res \<Rightarrow> bytes res" where
  "checkDownload C metadata answer =
     attempt answer (\<lambda>response.
     if ArStatus response \<noteq> 200 then Inl (Errorf ''artifact download returned HTTP status'')
     else let contents = take (nat maxArtifactBytes + 1) (ArBody response) in
       if int (length contents) \<noteq> MetaBytes metadata \<or> contentHash C contents \<noteq> MetaSHA256 metadata
       then Inl (Errorf ''downloaded artifact failed integrity verification'')
       else if TrimSpace (hd (split_char CHR '';'' (ArContentType response))) \<noteq> MetaMediaType metadata
       then Inl (Errorf ''downloaded artifact media type is invalid'')
       else Inr contents)"

section \<open>The agent's run\<close>

record Decision =
  DcApproved :: bool
  DcReason :: string

record AgentPayment =
  ApTransactionID :: string
  ApTransaction :: "transaction res"
  ApEncodedBytes :: nat

text \<open>The JSON the payment callback returned is kept with its length and its decoding.\<close>

definition validatePaymentPayload :: "crypto \<Rightarrow> AgentPayment \<Rightarrow> unit res" where
  "validatePaymentPayload C payment =
     (if TrimSpace (ApTransactionID payment) = [] \<or> ApEncodedBytes payment = 0 \<or> ApEncodedBytes payment > 1048576
      then Inl (Errorf ''payment callback returned an invalid transaction'')
      else case ApTransaction payment of
        Inl _ \<Rightarrow> Inl (Errorf ''payment callback returned an inconsistent transaction'')
      | Inr tx \<Rightarrow>
        if ID tx \<noteq> ApTransactionID payment \<or> ID tx \<noteq> ComputeID C tx
        then Inl (Errorf ''payment callback returned an inconsistent transaction'') else Inr ())"

text \<open>
  The polling loop: each answer of the claim endpoint with the time it is examined at. The list
  ends where the caller cancels the context.
\<close>

fun waitForDelivery :: "int \<Rightarrow> (int \<times> (int \<times> Delivery res) res) list \<Rightarrow> Delivery res" where
  "waitForDelivery deadline [] = Inl (Errorf ''context canceled'')"
| "waitForDelivery deadline ((now, answer) # answers) =
     attempt answer (\<lambda>(status, decoded).
     if status = 200 then decoded
     else if status \<noteq> 202 then Inl (Errorf ''EntPay returned unexpected claim status'')
     else if now > deadline then Inl (Errorf ''payment was not confirmed before the deadline'')
     else waitForDelivery deadline answers)"

record agent_environment =
  EnvDecision :: "Decision res"
  EnvPayment :: "AgentPayment res"
  EnvSubmitted :: "PaymentStatus res"
  EnvClaims :: "(int \<times> (int \<times> Delivery res) res) list"
  EnvArtifact :: "artifact_response res"

record AgentResult =
  AgInvoice :: Invoice
  AgTransactionID :: string
  AgDelivery :: Delivery
  AgArtifact :: "bytes option"

text \<open>
  \<open>completeAgentPayment\<close>: the first component tells whether the payment callback was called, with the
  merchant and the amount it was given. The optional artifact is downloaded when an output is set.
\<close>

definition completeAgentPayment ::
    "crypto \<Rightarrow> entpay_library \<Rightarrow> int \<Rightarrow> int \<Rightarrow> int \<Rightarrow> agent_environment \<Rightarrow> string \<Rightarrow> u64 \<Rightarrow> CreateInvoiceResponse \<Rightarrow>
     bool \<Rightarrow> ServiceInfo \<Rightarrow> ProductDescriptor \<Rightarrow> (string \<times> u64) option \<times> AgentResult res" where
  "completeAgentPayment C E now now' deadline env input maximum created wantArtifact info product =
     (let invoice = CirInvoice created in
      case attempt (canonicalObject E input) (\<lambda>canonicalInput.
           attempt (validateRemoteInvoice C E now now' info product invoice canonicalInput maximum) (\<lambda>pk.
           attempt (EnvDecision env) (\<lambda>decision.
           if \<not> DcApproved decision then Inl (Errorf ''payment rejected'') else Inr pk))) of
        Inl e \<Rightarrow> (None, Inl e)
      | Inr pk \<Rightarrow> (Some (InvMerchant invoice, InvAmount invoice),
          attempt (EnvPayment env) (\<lambda>payment.
          attempt (validatePaymentPayload C payment) (\<lambda>_.
          attempt (EnvSubmitted env) (\<lambda>_.
          attempt (waitForDelivery deadline (EnvClaims env)) (\<lambda>delivery.
          attempt (validateDelivery C E pk invoice (ApTransactionID payment) delivery) (\<lambda>_.
          attempt (case DelArtifact delivery of
              None \<Rightarrow> Inr None
            | Some metadata \<Rightarrow>
                if wantArtifact
                then attempt (checkDownload C metadata (EnvArtifact env)) (\<lambda>contents. Inr (Some contents))
                else Inr None) (\<lambda>artifact.
          Inr \<lparr>AgInvoice = invoice, AgTransactionID = ApTransactionID payment, AgDelivery = delivery,
               AgArtifact = artifact\<rparr>))))))))"

text \<open>\<open>RunPreparedAgent\<close>: the configuration is complete, and the product is the one advertised now.\<close>

definition RunPreparedAgent ::
    "crypto \<Rightarrow> entpay_library \<Rightarrow> int \<Rightarrow> int \<Rightarrow> int \<Rightarrow> agent_environment \<Rightarrow> ServiceInfo res \<Rightarrow> bool \<Rightarrow> string \<Rightarrow> string \<Rightarrow>
     u64 \<Rightarrow> CreateInvoiceResponse \<Rightarrow> unit res option \<Rightarrow> (string \<times> u64) option \<times> AgentResult res" where
  "RunPreparedAgent C E now now' deadline env fetched configured endpoint input maximum created output =
     (case attempt (normalizeEntPayURL E endpoint) (\<lambda>_.
           attempt (canonicalObject E input) (\<lambda>canonicalInput.
           if \<not> configured \<or> maximum = 0 \<or> TrimSpace (CirClaimToken created) = []
           then Inl (Errorf ''prepared agent configuration is incomplete'')
           else attempt (case output of None \<Rightarrow> Inr () | Some r \<Rightarrow> r) (\<lambda>_.
             attempt fetched (\<lambda>info.
             attempt (advertisedProduct C info (InvResource (CirInvoice created))) (\<lambda>product.
             Inr (canonicalInput, info, product)))))) of
        Inl e \<Rightarrow> (None, Inl e)
      | Inr (canonicalInput, info, product) \<Rightarrow>
          completeAgentPayment C E now now' deadline env canonicalInput maximum created (output \<noteq> None) info product)"

end
