(* ===== verification/Gateway_Store.thy ===== *)
theory Gateway_Store
  imports Agent Sql
begin

text \<open>
  \<open>entpay/store.go\<close> and the validation of \<open>entpay/artifacts.go\<close>: the merchant's database. An invoice is
  open, then submitted with one transaction, then delivered; a delivery job counts the attempts to
  fulfil it; a handoff passes the claim token to one client.

  The random bytes and the clock are arguments. The sealed capsule of a handoff is the value it was
  sealed from with the invoice ID it is bound to (AES-GCM with the ID as associated data).
\<close>

section \<open>Tables\<close>

datatype invoice_status = InvOpen | InvSubmitted | InvDelivered

datatype job_status = JobQueued | JobProcessing | JobFailed | JobPermanent | JobDelivered

record invoice_row =
  IvId :: string
  IvTokenHash :: bytes
  IvMerchant :: string
  IvAmount :: u64
  IvResource :: string
  IvInput :: string
  IvInputSHA256 :: string
  IvExpiresAt :: int
  IvConfirmations :: u64
  IvStatus :: invoice_status
  IvTxId :: "string option"
  IvCreatedAt :: int
  IvDeliveredAt :: "int option"
  IvDelivery :: "Delivery option"

record job_row =
  JbInvoiceId :: string
  JbStatus :: job_status
  JbAttempts :: int
  JbUpdatedAt :: int
  JbLastError :: string

record handoff_row =
  HfCodeHash :: bytes
  HfInvoiceId :: string
  HfCapsule :: "string \<times> HandoffCapsule"
  HfExpiresAt :: int
  HfNonceHash :: "bytes option"
  HfRedeemedAt :: "int option"

record gateway_db =
  gdInvoices :: "invoice_row list"
  gdJobs :: "job_row list"
  gdHandoffs :: "handoff_row list"

definition empty_gateway_db :: gateway_db where
  "empty_gateway_db = \<lparr>gdInvoices = [], gdJobs = [], gdHandoffs = []\<rparr>"

record invoiceRecord =
  RecInvoice :: Invoice
  RecInput :: string
  RecStatus :: invoice_status
  RecTxID :: string
  RecDelivery :: "Delivery option"

definition errInvoiceNotFound :: go_error where "errInvoiceNotFound = Errorf ''invoice not found''"
definition errUnauthorized :: go_error where "errUnauthorized = Errorf ''invoice authorization failed''"
definition errConflict :: go_error where "errConflict = Errorf ''invoice state conflict''"
definition errHandoffNotFound :: go_error where "errHandoffNotFound = Errorf ''handoff not found''"

section \<open>Updates\<close>

text \<open>\<open>UPDATE ... WHERE\<close>: the new table and the number of rows changed.\<close>

definition sql_update :: "('r \<Rightarrow> bool) \<Rightarrow> ('r \<Rightarrow> 'r) \<Rightarrow> 'r list \<Rightarrow> 'r list \<times> nat" where
  "sql_update P f table = (map (\<lambda>r. if P r then f r else r) table, length (filter P table))"

section \<open>Invoices\<close>

text \<open>\<open>Create\<close> of the random ID and token: a row of the invoice table and the unsigned record.\<close>

definition Create ::
    "crypto \<Rightarrow> int \<Rightarrow> bytes res \<Rightarrow> bytes res \<Rightarrow> gateway_db \<Rightarrow> string \<Rightarrow> ProductDescriptor \<Rightarrow> string \<Rightarrow> int \<Rightarrow>
     (gateway_db \<times> invoiceRecord \<times> string) res" where
  "Create C now idRandom tokenRandom g merchant descriptor input expiresAt =
     attempt idRandom (\<lambda>idBytes.
     attempt tokenRandom (\<lambda>tokenBytes.
     let i = hex_encode idBytes;
         token = RawURLEncode tokenBytes;
         expires = TruncateSecond expiresAt;
         hash = inputHash C (PdID descriptor) input;
         record0 = \<lparr>RecInvoice = \<lparr>InvProtocol = ProtocolVersion, InvNetwork = ''entropy-mainnet-v1'', InvID = i,
             InvMerchant = merchant, InvAmount = PdPrice descriptor, InvResource = PdID descriptor,
             InvInputSHA256 = hash, InvExpiresAt = expires, InvConfirmations = PdConfirmations descriptor,
             InvSignature = []\<rparr>, RecInput = input, RecStatus = InvOpen, RecTxID = [], RecDelivery = None\<rparr>
     in attempt (sql_require ''invoices: amount'' (PdPrice descriptor > 0 \<and> uint (PdPrice descriptor) \<le> MaxInt64 \<and>
          PdConfirmations descriptor > 0 \<and> uint (PdConfirmations descriptor) \<le> MaxInt64)) (\<lambda>_.
        attempt (sql_insert ''invoices'' (\<lambda>a b. IvId a = IvId b)
          \<lparr>IvId = i, IvTokenHash = Sum256 C (string_bytes token), IvMerchant = merchant, IvAmount = PdPrice descriptor,
           IvResource = PdID descriptor, IvInput = input, IvInputSHA256 = hash, IvExpiresAt = Unix expires,
           IvConfirmations = PdConfirmations descriptor, IvStatus = InvOpen, IvTxId = None, IvCreatedAt = Unix now,
           IvDeliveredAt = None, IvDelivery = None\<rparr> (gdInvoices g)) (\<lambda>rows.
        Inr (g\<lparr>gdInvoices := rows\<rparr>, record0, token)))))"

definition Authorized :: "crypto \<Rightarrow> gateway_db \<Rightarrow> string \<Rightarrow> string \<Rightarrow> invoiceRecord res" where
  "Authorized C g i token =
     (case find (\<lambda>r. IvId r = i) (gdInvoices g) of
        None \<Rightarrow> Inl errInvoiceNotFound
      | Some r \<Rightarrow>
        if IvTokenHash r \<noteq> Sum256 C (string_bytes token) then Inl errUnauthorized
        else Inr \<lparr>RecInvoice = \<lparr>InvProtocol = ProtocolVersion, InvNetwork = ''entropy-mainnet-v1'', InvID = IvId r,
            InvMerchant = IvMerchant r, InvAmount = IvAmount r, InvResource = IvResource r,
            InvInputSHA256 = IvInputSHA256 r, InvExpiresAt = IvExpiresAt r * Second, InvConfirmations = IvConfirmations r,
            InvSignature = []\<rparr>, RecInput = IvInput r, RecStatus = IvStatus r,
          RecTxID = (case IvTxId r of None \<Rightarrow> [] | Some t \<Rightarrow> t), RecDelivery = IvDelivery r\<rparr>)"

definition Submit :: "gateway_db \<Rightarrow> string \<Rightarrow> string \<Rightarrow> gateway_db res" where
  "Submit g i transactionID =
     (let unused = (\<forall>used \<in> set (gdInvoices g). IvTxId used \<noteq> Some transactionID);
          (rows, changed) = sql_update (\<lambda>r. IvId r = i \<and> IvStatus r = InvOpen \<and> unused)
            (\<lambda>r. r\<lparr>IvStatus := InvSubmitted, IvTxId := Some transactionID\<rparr>) (gdInvoices g)
      in if changed = 1 then Inr (g\<lparr>gdInvoices := rows\<rparr>)
         else case find (\<lambda>r. IvId r = i \<and> IvStatus r = InvSubmitted) (gdInvoices g) of
           Some r \<Rightarrow>
             if (case IvTxId r of None \<Rightarrow> [] | Some t \<Rightarrow> t) = transactionID then Inr g else Inl errConflict
         | None \<Rightarrow> Inl errConflict)"

section \<open>Delivery jobs\<close>

record deliveryJob =
  DjStatus :: job_status
  DjAttempts :: int
  DjUpdatedAt :: int

text \<open>\<open>INSERT OR IGNORE ... SELECT\<close> from the submitted invoice of this ID.\<close>

definition queueJob :: "int \<Rightarrow> string \<Rightarrow> gateway_db \<Rightarrow> job_row list" where
  "queueJob now i g =
     (if (\<exists>r \<in> set (gdInvoices g). IvId r = i \<and> IvStatus r = InvSubmitted) \<and>
         \<not> (\<exists>j \<in> set (gdJobs g). JbInvoiceId j = i)
      then gdJobs g @ [\<lparr>JbInvoiceId = i, JbStatus = JobQueued, JbAttempts = 0, JbUpdatedAt = Unix now, JbLastError = []\<rparr>]
      else gdJobs g)"

definition acquirable :: "int \<Rightarrow> int \<Rightarrow> int \<Rightarrow> int \<Rightarrow> job_row \<Rightarrow> bool" where
  "acquirable now staleAfter retryAfter maxAttempts j \<longleftrightarrow>
     JbAttempts j < maxAttempts \<and>
     (JbStatus j = JobQueued \<or>
      (JbStatus j = JobFailed \<and> JbUpdatedAt j \<le> Unix (now - retryAfter)) \<or>
      (JbStatus j = JobProcessing \<and> JbUpdatedAt j \<le> Unix (now - staleAfter)))"

definition AcquireJob ::
    "gateway_db \<Rightarrow> string \<Rightarrow> int \<Rightarrow> int \<Rightarrow> int \<Rightarrow> int \<Rightarrow> (gateway_db \<times> deliveryJob \<times> bool) res" where
  "AcquireJob g i now staleAfter retryAfter maxAttempts =
     (let (rows, changed) = sql_update (\<lambda>j. JbInvoiceId j = i \<and> acquirable now staleAfter retryAfter maxAttempts j)
            (\<lambda>j. j\<lparr>JbStatus := JobProcessing, JbAttempts := JbAttempts j + 1, JbUpdatedAt := Unix now, JbLastError := []\<rparr>)
            (queueJob now i g)
      in case find (\<lambda>j. JbInvoiceId j = i) rows of
           None \<Rightarrow> Inl errConflict
         | Some j \<Rightarrow> Inr (g\<lparr>gdJobs := rows\<rparr>,
             \<lparr>DjStatus = JbStatus j, DjAttempts = JbAttempts j, DjUpdatedAt = JbUpdatedAt j * Second\<rparr>, changed = 1))"

definition FailJob :: "gateway_db \<Rightarrow> string \<Rightarrow> bool \<Rightarrow> int \<Rightarrow> string \<Rightarrow> gateway_db res" where
  "FailJob g i permanent now failure =
     (let status = (if permanent then JobPermanent else JobFailed);
          (rows, changed) = sql_update (\<lambda>j. JbInvoiceId j = i \<and> JbStatus j = JobProcessing)
            (\<lambda>j. j\<lparr>JbStatus := status, JbUpdatedAt := Unix now, JbLastError := take 200 failure\<rparr>) (gdJobs g)
      in if changed \<noteq> 1 then Inl errConflict else Inr (g\<lparr>gdJobs := rows\<rparr>))"

definition DeliverJob :: "gateway_db \<Rightarrow> string \<Rightarrow> int \<Rightarrow> Delivery \<Rightarrow> gateway_db res" where
  "DeliverJob g i deliveredAt delivery =
     (let (invoices, changedInvoices) = sql_update (\<lambda>r. IvId r = i \<and> IvStatus r = InvSubmitted)
            (\<lambda>r. r\<lparr>IvStatus := InvDelivered, IvDeliveredAt := Some (Unix deliveredAt), IvDelivery := Some delivery\<rparr>)
            (gdInvoices g);
          (jobs, changedJobs) = sql_update (\<lambda>j. JbInvoiceId j = i \<and> JbStatus j = JobProcessing)
            (\<lambda>j. j\<lparr>JbStatus := JobDelivered, JbUpdatedAt := Unix deliveredAt, JbLastError := []\<rparr>) (gdJobs g)
      in if changedInvoices \<noteq> 1 then Inl errConflict
         else if changedJobs \<noteq> 1 then Inl errConflict
         else Inr (g\<lparr>gdInvoices := invoices, gdJobs := jobs\<rparr>))"

section \<open>Handoffs\<close>

definition opaqueTokenDigest :: "crypto \<Rightarrow> string \<Rightarrow> bytes" where
  "opaqueTokenDigest C v = Sum256 C (string_bytes v)"

definition openHandoffCapsule :: "string \<Rightarrow> string \<times> HandoffCapsule \<Rightarrow> HandoffCapsule res" where
  "openHandoffCapsule invoiceID sealed =
     (if fst sealed = invoiceID then Inr (snd sealed) else Inl (Errorf ''decrypt handoff capsule''))"

definition CreateHandoff ::
    "crypto \<Rightarrow> gateway_db \<Rightarrow> string \<Rightarrow> string \<Rightarrow> HandoffCapsule \<Rightarrow> int \<Rightarrow> gateway_db res" where
  "CreateHandoff C g code invoiceID capsule expiresAt =
     attempt (sql_require ''handoffs: invoice'' (\<exists>r \<in> set (gdInvoices g). IvId r = invoiceID)) (\<lambda>_.
     attempt (sql_insert ''handoffs'' (\<lambda>a b. HfCodeHash a = HfCodeHash b)
       \<lparr>HfCodeHash = opaqueTokenDigest C code, HfInvoiceId = invoiceID, HfCapsule = (invoiceID, capsule),
        HfExpiresAt = Unix expiresAt, HfNonceHash = None, HfRedeemedAt = None\<rparr> (gdHandoffs g)) (\<lambda>rows.
     Inr (g\<lparr>gdHandoffs := rows\<rparr>)))"

text \<open>
  The row is bound to the nonce before the capsule is opened, so the new tables are returned even
  where opening it fails.
\<close>

definition RedeemHandoff ::
    "crypto \<Rightarrow> gateway_db \<Rightarrow> string \<Rightarrow> string \<Rightarrow> int \<Rightarrow> gateway_db \<times> (HandoffCapsule \<times> string) res" where
  "RedeemHandoff C g code nonce now =
     (let codeHash = opaqueTokenDigest C code; nonceHash = opaqueTokenDigest C nonce in
      case find (\<lambda>h. HfCodeHash h = codeHash) (gdHandoffs g) of
        None \<Rightarrow> (g, Inl errHandoffNotFound)
      | Some h \<Rightarrow>
        if Unix now > HfExpiresAt h \<or>
           (case HfRedeemedAt h of None \<Rightarrow> False | Some at \<Rightarrow> Unix now - at > 30 \<or> HfNonceHash h \<noteq> Some nonceHash)
        then (g, Inl errHandoffNotFound)
        else let g' = (if HfRedeemedAt h = None
               then g\<lparr>gdHandoffs := fst (sql_update (\<lambda>r. HfCodeHash r = codeHash \<and> HfRedeemedAt r = None)
                      (\<lambda>r. r\<lparr>HfNonceHash := Some nonceHash, HfRedeemedAt := Some (Unix now)\<rparr>) (gdHandoffs g))\<rparr>
               else g)
          in (g', attempt (openHandoffCapsule (HfInvoiceId h) (HfCapsule h)) (\<lambda>capsule. Inr (capsule, HfInvoiceId h))))"

end
