(* ===== verification/Gateway.thy ===== *)
theory Gateway
  imports Gateway_Store History
begin

text \<open>
  \<open>entpay/gateway.go\<close>, \<open>entpay/artifacts.go\<close> and \<open>entpay/node_client.go\<close>: the merchant's HTTP gateway.
  A handler is a function of the gateway's state and of the decoded request; it returns the new state
  and the reply, a status with a JSON body or an error message. Answers of the node, the time and
  random bytes are arguments, and so is what a product's own code returns.
\<close>

section \<open>State\<close>

text \<open>A product as the gateway keeps it: its descriptor and its check of a canonical input.\<close>

record product =
  PcDescriptor :: ProductDescriptor
  PcValidate :: "string \<Rightarrow> unit res"

record stagedFulfillment =
  StgPayload :: string
  StgArtifact :: "ArtifactMetadata option"

text \<open>The two directories of the fulfillment store are maps from invoice IDs to file contents.\<close>

record gateway =
  GwMerchant :: string
  GwSigningKey :: bytes
  GwLifetime :: int
  GwFulfillmentTimeout :: int
  GwPublicEndpoint :: string
  GwProducts :: "(string \<times> product) list"
  GwDescriptors :: "ProductDescriptor list"
  GwDb :: gateway_db
  GwStaging :: "string \<rightharpoonup> stagedFulfillment"
  GwArtifacts :: "string \<rightharpoonup> bytes"
  GwLimiter :: rateLimiter

datatype 'a reply = ErrorReply int string | JSONReply int 'a

section \<open>Opening\<close>

definition addProduct ::
    "(string \<times> product) list \<times> ProductDescriptor list \<Rightarrow> product option \<Rightarrow>
     ((string \<times> product) list \<times> ProductDescriptor list) res" where
  "addProduct st given =
     (case given of
        None \<Rightarrow> Inl (Errorf ''product is nil'')
      | Some product \<Rightarrow>
        let descriptor = PcDescriptor product in
        attempt (validateProductDescriptor descriptor) (\<lambda>_.
        if uint (PdPrice descriptor) > MaxInt64 then Inl (Errorf ''product price exceeds storage range'')
        else if map_of (fst st) (PdID descriptor) \<noteq> None then Inl (Errorf ''product is duplicated'')
        else Inr ((PdID descriptor, product) # fst st, snd st @ [descriptor])))"

text \<open>The database, the fulfillment directories and the node client open without error.\<close>

definition NewGateway ::
    "crypto \<Rightarrow> entpay_library \<Rightarrow> string \<Rightarrow> bytes \<Rightarrow> string \<Rightarrow> int \<Rightarrow> int \<Rightarrow> product option list \<Rightarrow> gateway_db \<Rightarrow>
     (string \<rightharpoonup> stagedFulfillment) \<Rightarrow> (string \<rightharpoonup> bytes) \<Rightarrow> gateway res" where
  "NewGateway C E merchant signingKey configuredEndpoint lifetime timeout given stored staging artifacts =
     attempt (ValidateAddress C merchant) (\<lambda>_.
     if length signingKey \<noteq> 64 then Inl (Errorf ''Ed25519 signing key is invalid'')
     else attempt (if TrimSpace configuredEndpoint \<noteq> [] then validatePublicEndpoint E configuredEndpoint else Inr []) (\<lambda>endpoint.
       let lifetime = (if lifetime = 0 then 15 * Minute else lifetime);
           timeout = (if timeout = 0 then 3 * Minute else timeout) in
       if lifetime < Minute \<or> lifetime > Hour then Inl (Errorf ''invoice lifetime must be between one minute and one hour'')
       else if timeout < 10 * Second \<or> timeout > 15 * Minute
       then Inl (Errorf ''fulfillment timeout must be between 10 seconds and 15 minutes'')
       else if given = [] \<or> length given > 32 then Inl (Errorf ''one to 32 products are required'')
       else attempt (foldE addProduct ([], []) given) (\<lambda>(products, descriptors).
         Inr \<lparr>GwMerchant = merchant, GwSigningKey = signingKey, GwLifetime = lifetime, GwFulfillmentTimeout = timeout,
              GwPublicEndpoint = endpoint, GwProducts = products, GwDescriptors = descriptors, GwDb = stored,
              GwStaging = staging, GwArtifacts = artifacts, GwLimiter = newRateLimiter\<rparr>)))"

definition handleInfo :: "entpay_library \<Rightarrow> gateway \<Rightarrow> ServiceInfo reply" where
  "handleInfo E g = JSONReply 200 \<lparr>SiProtocol = ProtocolVersion, SiNetwork = NetworkID, SiMerchant = GwMerchant g,
     SiSigningKey = RawURLEncode (Ed25519Public E (GwSigningKey g)), SiProducts = GwDescriptors g,
     SiCapabilities = agent_capabilities\<rparr>"

section \<open>The payment node\<close>

text \<open>What the node's wallet page says of a transaction: found with the exact output once, and its confirmations.\<close>

definition countMatching :: "crypto \<Rightarrow> string \<Rightarrow> u64 \<Rightarrow> transaction \<Rightarrow> nat" where
  "countMatching C merchant amount tx =
     length (filter (\<lambda>output. AddressesEqual C (Address output) merchant \<and> Amount output = amount) (Outputs tx))"

fun observe :: "crypto \<Rightarrow> string \<Rightarrow> string \<Rightarrow> u64 \<Rightarrow> TransactionRecord list \<Rightarrow> bool \<times> u64" where
  "observe C merchant transactionID amount [] = (False, 0)"
| "observe C merchant transactionID amount (r # rs) =
     (if HistID r \<noteq> transactionID then observe C merchant transactionID amount rs
      else if countMatching C merchant amount (HistTransaction r) = 1 then (True, HistConfirmations r)
      else observe C merchant transactionID amount rs)"

definition ObservePayment ::
    "crypto \<Rightarrow> TransactionRecord list res \<Rightarrow> string \<Rightarrow> string \<Rightarrow> u64 \<Rightarrow> (bool \<times> u64) res" where
  "ObservePayment C history merchant transactionID amount =
     attempt history (\<lambda>records. Inr (observe C merchant transactionID amount records))"

text \<open>\<open>accepted\<close> is the status the node answered a transaction with.\<close>

definition AcceptTransaction ::
    "crypto \<Rightarrow> int res \<Rightarrow> TransactionRecord list res \<Rightarrow> transaction \<Rightarrow> string \<Rightarrow> u64 \<Rightarrow> unit res" where
  "AcceptTransaction C accepted history tx merchant amount =
     attempt accepted (\<lambda>status.
     if status = 202 then Inr ()
     else if status = 409 \<and> (\<exists>n. ObservePayment C history merchant (ID tx) amount = Inr (True, n)) then Inr ()
     else Inl (Errorf ''node rejected transaction with HTTP status''))"

section \<open>Creating and passing on an invoice\<close>

definition handleCreateInvoice ::
    "crypto \<Rightarrow> entpay_library \<Rightarrow> int \<Rightarrow> string \<Rightarrow> bytes res \<Rightarrow> bytes res \<Rightarrow> bytes res \<Rightarrow> gateway \<Rightarrow> (string \<times> string) res \<Rightarrow>
     gateway \<times> CreateInvoiceResponse reply" where
  "handleCreateInvoice C E now clientIP idRandom tokenRandom codeRandom g request =
     (let (limiter, allowed) = Allow (GwLimiter g) now clientIP 10 Minute; g = g\<lparr>GwLimiter := limiter\<rparr> in
      if \<not> allowed then (g, ErrorReply 429 ''invoice rate limit exceeded'')
      else case request of
        Inl _ \<Rightarrow> (g, ErrorReply 400 ''invalid JSON'')
      | Inr (resource, input) \<Rightarrow>
        case map_of (GwProducts g) (TrimSpace resource) of
          None \<Rightarrow> (g, ErrorReply 422 ''resource is not available'')
        | Some product \<Rightarrow>
          case canonicalObject E input of
            Inl _ \<Rightarrow> (g, ErrorReply 422 ''input is invalid'')
          | Inr canonical \<Rightarrow>
            if PcValidate product canonical \<noteq> Inr () then (g, ErrorReply 422 ''resource input is invalid'')
            else case Create C now idRandom tokenRandom (GwDb g) (GwMerchant g) (PcDescriptor product) canonical (now + GwLifetime g) of
              Inl _ \<Rightarrow> (g, ErrorReply 500 ''invoice could not be created'')
            | Inr (stored, record0, token) \<Rightarrow>
              let g = g\<lparr>GwDb := stored\<rparr>;
                  invoice = signInvoice E (GwSigningKey g) (RecInvoice record0);
                  created = \<lparr>CirInvoice = invoice, CirClaimToken = token, CirLaunch = None\<rparr> in
              if GwPublicEndpoint g = [] then (g, JSONReply 201 created)
              else let expiresAt = min (now + 2 * Minute) (InvExpiresAt invoice);
                       capsule = \<lparr>HcEndpoint = GwPublicEndpoint g, HcInput = canonical, HcCreated = created\<rparr> in
                case attempt (newOpaqueToken codeRandom) (\<lambda>code.
                     attempt (CreateHandoff C (GwDb g) code (InvID invoice) capsule expiresAt) (\<lambda>stored. Inr (code, stored))) of
                  Inl _ \<Rightarrow> (g, ErrorReply 500 ''payment handoff could not be created'')
                | Inr (code, stored) \<Rightarrow> (g\<lparr>GwDb := stored\<rparr>, JSONReply 201 (created\<lparr>CirLaunch := Some
                    \<lparr>LnURL = buildLaunchURL E (GwPublicEndpoint g), LnHandoff = code, LnExpiresAt = expiresAt\<rparr>\<rparr>)))"

definition handleRedeemHandoff ::
    "crypto \<Rightarrow> int \<Rightarrow> string \<Rightarrow> gateway \<Rightarrow> (string \<times> string) res \<Rightarrow> gateway \<times> HandoffCapsule reply" where
  "handleRedeemHandoff C now clientIP g request =
     (let (limiter, allowed) = Allow (GwLimiter g) now (''handoff-ip:'' @ clientIP) 20 Minute; g = g\<lparr>GwLimiter := limiter\<rparr> in
      if \<not> allowed then (g, ErrorReply 429 ''handoff rate limit exceeded'')
      else case request of
        Inl _ \<Rightarrow> (g, ErrorReply 404 ''payment handoff was not found'')
      | Inr (code, nonce) \<Rightarrow>
        if validateOpaqueToken code \<noteq> Inr () \<or> validateOpaqueToken nonce \<noteq> Inr ()
        then (g, ErrorReply 404 ''payment handoff was not found'')
        else let (stored, redeemed) = RedeemHandoff C (GwDb g) code nonce now; g = g\<lparr>GwDb := stored\<rparr> in
          case redeemed of
            Inl _ \<Rightarrow> (g, ErrorReply 404 ''payment handoff was not found'')
          | Inr (capsule, invoiceID) \<Rightarrow>
            let (limiter, allowed) = Allow (GwLimiter g) now (''handoff-invoice:'' @ invoiceID) 5 Minute; g = g\<lparr>GwLimiter := limiter\<rparr> in
            if \<not> allowed then (g, ErrorReply 429 ''handoff rate limit exceeded'') else (g, JSONReply 200 capsule))"

section \<open>Authorization\<close>

text \<open>\<open>bearerToken\<close> of the header \<open>Authorization\<close>.\<close>

definition bearerToken :: "string \<Rightarrow> string" where
  "bearerToken authorization =
     (if \<not> starts_with authorization ''Bearer '' then [] else TrimSpace (drop 7 authorization))"

definition authorizedInvoice ::
    "crypto \<Rightarrow> entpay_library \<Rightarrow> gateway \<Rightarrow> string \<Rightarrow> string \<Rightarrow> (int \<times> string) + invoiceRecord" where
  "authorizedInvoice C E g authorization i =
     (let token = bearerToken authorization in
      if token = [] then Inl (401, ''bearer claim token is required'')
      else case Authorized C (GwDb g) i token of
        Inl _ \<Rightarrow> Inl (404, ''invoice was not found'')
      | Inr r \<Rightarrow> Inr (r\<lparr>RecInvoice := signInvoice E (GwSigningKey g) (RecInvoice r)\<rparr>))"

definition status_text :: "invoice_status \<Rightarrow> string" where
  "status_text s = (case s of InvOpen \<Rightarrow> ''open'' | InvSubmitted \<Rightarrow> ''submitted'' | InvDelivered \<Rightarrow> ''delivered'')"

definition payment_status :: "invoiceRecord \<Rightarrow> string \<Rightarrow> string \<Rightarrow> u64 \<Rightarrow> u64 \<Rightarrow> PaymentStatus" where
  "payment_status r status txID confirmations tries =
     \<lparr>PsInvoiceID = InvID (RecInvoice r), PsStatus = status, PsTransactionID = txID, PsConfirmations = confirmations,
      PsRequired = InvConfirmations (RecInvoice r), PsAttempt = tries\<rparr>"

definition handleInvoiceStatus ::
    "crypto \<Rightarrow> entpay_library \<Rightarrow> TransactionRecord list res \<Rightarrow> gateway \<Rightarrow> string \<Rightarrow> string \<Rightarrow> PaymentStatus reply" where
  "handleInvoiceStatus C E history g authorization i =
     (case authorizedInvoice C E g authorization i of
        Inl (code, message) \<Rightarrow> ErrorReply code message
      | Inr r \<Rightarrow>
        if RecTxID r = [] then JSONReply 200 (payment_status r (status_text (RecStatus r)) [] 0 0)
        else case ObservePayment C history (InvMerchant (RecInvoice r)) (RecTxID r) (InvAmount (RecInvoice r)) of
          Inl _ \<Rightarrow> ErrorReply 502 ''payment node is unavailable''
        | Inr (found, confirmations) \<Rightarrow>
            JSONReply 200 (payment_status r (status_text (RecStatus r)) (RecTxID r) (if found then confirmations else 0) 0))"

section \<open>Payment\<close>

definition validatePayment :: "crypto \<Rightarrow> transaction \<Rightarrow> Invoice \<Rightarrow> unit res" where
  "validatePayment C tx expected =
     (if Coinbase tx \<or> ID tx = [] \<or> ID tx \<noteq> ComputeID C tx then Inl (Errorf ''payment transaction is invalid'')
      else if countMatching C (InvMerchant expected) (InvAmount expected) tx \<noteq> 1
      then Inl (Errorf ''payment must contain exactly one invoice output'') else Inr ())"

definition handleSubmitPayment ::
    "crypto \<Rightarrow> entpay_library \<Rightarrow> int \<Rightarrow> string \<Rightarrow> int res \<Rightarrow> TransactionRecord list res \<Rightarrow> gateway \<Rightarrow> string \<Rightarrow> string \<Rightarrow>
     transaction res \<Rightarrow> gateway \<times> PaymentStatus reply" where
  "handleSubmitPayment C E now clientIP accepted history g authorization i request =
     (let (limiter, allowed) = Allow (GwLimiter g) now clientIP 30 Minute; g = g\<lparr>GwLimiter := limiter\<rparr> in
      if \<not> allowed then (g, ErrorReply 429 ''payment rate limit exceeded'')
      else case authorizedInvoice C E g authorization i of
        Inl (code, message) \<Rightarrow> (g, ErrorReply code message)
      | Inr r \<Rightarrow>
        case request of
          Inl _ \<Rightarrow> (g, ErrorReply 400 ''transaction is invalid JSON'')
        | Inr tx \<Rightarrow>
          if validatePayment C tx (RecInvoice r) \<noteq> Inr () then (g, ErrorReply 422 ''payment is invalid'')
          else if RecStatus r = InvSubmitted \<and> RecTxID r = ID tx
          then (g, JSONReply 202 (payment_status r ''submitted'' (ID tx) 0 0))
          else if now > InvExpiresAt (RecInvoice r) then (g, ErrorReply 409 ''invoice is not payable'')
          else if RecStatus r \<noteq> InvOpen then (g, ErrorReply 409 ''invoice or transaction was already used'')
          else case AcceptTransaction C accepted history tx (InvMerchant (RecInvoice r)) (InvAmount (RecInvoice r)) of
            Inl _ \<Rightarrow> (g, ErrorReply 409 ''transaction was not accepted by the Entcoin node'')
          | Inr _ \<Rightarrow>
            case Submit (GwDb g) (InvID (RecInvoice r)) (ID tx) of
              Inl _ \<Rightarrow> (g, ErrorReply 409 ''invoice or transaction was already used'')
            | Inr stored \<Rightarrow> (g\<lparr>GwDb := stored\<rparr>, JSONReply 202 (payment_status r ''submitted'' (ID tx) 0 0)))"

section \<open>Fulfillment\<close>

definition hex_digit :: "char \<Rightarrow> bool" where
  "hex_digit c \<longleftrightarrow> (let n = of_char c :: nat in 48 \<le> n \<and> n \<le> 57 \<or> 97 \<le> n \<and> n \<le> 102)"

definition validateInvoiceID :: "string \<Rightarrow> unit res" where
  "validateInvoiceID i =
     (if length i \<noteq> 32 \<or> \<not> list_all hex_digit i then Inl (Errorf ''invoice ID is invalid'') else Inr ())"

definition ReadArtifact :: "gateway \<Rightarrow> string \<Rightarrow> bytes res" where
  "ReadArtifact g i =
     attempt (validateInvoiceID i) (\<lambda>_.
     case GwArtifacts g i of
       None \<Rightarrow> Inl (Errorf ''file does not exist'')
     | Some contents \<Rightarrow>
       if int (length contents) > maxArtifactBytes then Inl (Errorf ''artifact is too large'') else Inr contents)"

text \<open>The staged file is small enough and decodes to what was staged.\<close>

definition Existing :: "crypto \<Rightarrow> entpay_library \<Rightarrow> gateway \<Rightarrow> string \<Rightarrow> stagedFulfillment option res" where
  "Existing C E g i =
     attempt (validateInvoiceID i) (\<lambda>_.
     case GwStaging g i of
       None \<Rightarrow> Inr None
     | Some staged \<Rightarrow>
       if canonicalPayload E (StgPayload staged) \<noteq> Inr (StgPayload staged) then Inl (Errorf ''staged payload is invalid'')
       else case StgArtifact staged of
         None \<Rightarrow> Inr (Some staged)
       | Some metadata \<Rightarrow>
         (case ReadArtifact g i of
            Inl _ \<Rightarrow> Inl (Errorf ''staged artifact is invalid'')
          | Inr artifact \<Rightarrow>
            if int (length artifact) \<noteq> MetaBytes metadata \<or> contentHash C artifact \<noteq> MetaSHA256 metadata
            then Inl (Errorf ''staged artifact is invalid'') else Inr (Some staged)))"

text \<open>Each of the two atomic writes may fail: \<open>wrote\<close> and \<open>wroteStage\<close> are their results.\<close>

definition Stage ::
    "crypto \<Rightarrow> unit res \<Rightarrow> unit res \<Rightarrow> gateway \<Rightarrow> string \<Rightarrow> Fulfillment \<Rightarrow> string \<Rightarrow> gateway \<times> stagedFulfillment res" where
  "Stage C wrote wroteStage g i fulfillment payload =
     (case validateInvoiceID i of
        Inl e \<Rightarrow> (g, Inl e)
      | Inr _ \<Rightarrow>
        (case FulArtifact fulfillment of
           None \<Rightarrow>
             let staged = \<lparr>StgPayload = payload, StgArtifact = None\<rparr> in
             (case wroteStage of
                Inl e \<Rightarrow> (g, Inl e)
              | Inr _ \<Rightarrow> (g\<lparr>GwStaging := (GwStaging g)(i \<mapsto> staged)\<rparr>, Inr staged))
         | Some a \<Rightarrow>
             (case wrote of
                Inl e \<Rightarrow> (g, Inl e)
              | Inr _ \<Rightarrow>
                let g = g\<lparr>GwArtifacts := (GwArtifacts g)(i \<mapsto> ArtContents a)\<rparr>;
                    staged = \<lparr>StgPayload = payload, StgArtifact = Some \<lparr>MetaDownloadPath = artifact_path i,
                      MetaSHA256 = contentHash C (ArtContents a), MetaMediaType = ArtMediaType a,
                      MetaFileName = ArtFileName a, MetaBytes = int (length (ArtContents a))\<rparr>\<rparr> in
                (case wroteStage of
                   Inl e \<Rightarrow> (g, Inl e)
                 | Inr _ \<Rightarrow> (g\<lparr>GwStaging := (GwStaging g)(i \<mapsto> staged)\<rparr>, Inr staged)))))"

definition RemoveStage :: "gateway \<Rightarrow> string \<Rightarrow> gateway" where
  "RemoveStage g i = g\<lparr>GwStaging := (GwStaging g)(i := None)\<rparr>"

definition errPermanentFulfillment :: go_error where
  "errPermanentFulfillment = Errorf ''permanent fulfillment failure''"

definition PermanentFailure :: "go_error \<Rightarrow> go_error" where
  "PermanentFailure e = errPermanentFulfillment"

definition isPermanentFailure :: "go_error \<Rightarrow> bool" where
  "isPermanentFailure e \<longleftrightarrow> e = errPermanentFulfillment"

text \<open>
  \<open>fulfill\<close>: what is staged already is delivered again, never produced a second time. \<open>produced\<close> is
  what the product's \<open>Fulfill\<close> returns.
\<close>

definition stageFulfillment ::
    "crypto \<Rightarrow> entpay_library \<Rightarrow> Fulfillment res \<Rightarrow> unit res \<Rightarrow> unit res \<Rightarrow> gateway \<Rightarrow> invoiceRecord \<Rightarrow>
     gateway \<times> stagedFulfillment res" where
  "stageFulfillment C E produced wrote wroteStage g r =
     (let i = InvID (RecInvoice r) in
      case Existing C E g i of
        Inl e \<Rightarrow> (g, Inl e)
      | Inr (Some staged) \<Rightarrow> (g, Inr staged)
      | Inr None \<Rightarrow>
        (case map_of (GwProducts g) (InvResource (RecInvoice r)) of
           None \<Rightarrow> (g, Inl (PermanentFailure (Errorf ''resource is no longer configured'')))
         | Some product \<Rightarrow>
           (case produced of
              Inl e \<Rightarrow> (g, Inl e)
            | Inr result \<Rightarrow>
              (case validateFulfillment E result of
                 Inl e \<Rightarrow> (g, Inl (PermanentFailure e))
               | Inr payload \<Rightarrow> Stage C wrote wroteStage g i result payload))))"

definition fulfillment_delivery ::
    "crypto \<Rightarrow> entpay_library \<Rightarrow> bytes \<Rightarrow> int \<Rightarrow> invoiceRecord \<Rightarrow> stagedFulfillment \<Rightarrow> Delivery" where
  "fulfillment_delivery C E sk deliveredAt r staged =
     \<lparr>DelReceipt = signReceipt E sk \<lparr>RcpProtocol = ProtocolVersion, RcpInvoiceID = InvID (RecInvoice r),
        RcpTransactionID = RecTxID r, RcpResource = InvResource (RecInvoice r),
        RcpInputSHA256 = InvInputSHA256 (RecInvoice r),
        RcpPayloadSHA256 = contentHash C (string_bytes (StgPayload staged)),
        RcpArtifactSHA256 = (case StgArtifact staged of None \<Rightarrow> [] | Some m \<Rightarrow> MetaSHA256 m),
        RcpDeliveredAt = deliveredAt, RcpSignature = []\<rparr>,
      DelPayload = StgPayload staged, DelArtifact = StgArtifact staged\<rparr>"

definition deliverFulfillment ::
    "crypto \<Rightarrow> entpay_library \<Rightarrow> int \<Rightarrow> gateway \<Rightarrow> invoiceRecord \<Rightarrow> stagedFulfillment \<Rightarrow> gateway \<times> unit res" where
  "deliverFulfillment C E now g r staged =
     (let i = InvID (RecInvoice r); deliveredAt = TruncateSecond now in
      case DeliverJob (GwDb g) i deliveredAt (fulfillment_delivery C E (GwSigningKey g) deliveredAt r staged) of
        Inl e \<Rightarrow> (g, Inl e)
      | Inr stored \<Rightarrow> (RemoveStage (g\<lparr>GwDb := stored\<rparr>) i, Inr ()))"

definition fulfill ::
    "crypto \<Rightarrow> entpay_library \<Rightarrow> int \<Rightarrow> Fulfillment res \<Rightarrow> unit res \<Rightarrow> unit res \<Rightarrow> gateway \<Rightarrow> invoiceRecord \<Rightarrow>
     gateway \<times> unit res" where
  "fulfill C E now produced wrote wroteStage g r =
     (case stageFulfillment C E produced wrote wroteStage g r of
        (g, Inl e) \<Rightarrow> (g, Inl e)
      | (g, Inr staged) \<Rightarrow> deliverFulfillment C E now g r staged)"

text \<open>What the worker does with an error. One that cannot be recorded is only logged.\<close>

definition recordFailure :: "int \<Rightarrow> string \<Rightarrow> gateway \<Rightarrow> invoiceRecord \<Rightarrow> go_error \<Rightarrow> gateway" where
  "recordFailure now message g r e =
     (case FailJob (GwDb g) (InvID (RecInvoice r)) (isPermanentFailure e) now message of
        Inl _ \<Rightarrow> g
      | Inr stored \<Rightarrow> g\<lparr>GwDb := stored\<rparr>)"

text \<open>The worker of \<open>startFulfillment\<close>, when nothing else happens meanwhile.\<close>

definition runFulfillment ::
    "crypto \<Rightarrow> entpay_library \<Rightarrow> int \<Rightarrow> int \<Rightarrow> Fulfillment res \<Rightarrow> unit res \<Rightarrow> unit res \<Rightarrow> (go_error \<Rightarrow> string) \<Rightarrow> gateway \<Rightarrow>
     invoiceRecord \<Rightarrow> gateway" where
  "runFulfillment C E now now' produced wrote wroteStage message g r =
     (case fulfill C E now produced wrote wroteStage g r of
        (g, Inr _) \<Rightarrow> g
      | (g, Inl e) \<Rightarrow> recordFailure now' (message e) g r e)"

section \<open>Claiming\<close>

definition validateStoredDelivery :: "crypto \<Rightarrow> entpay_library \<Rightarrow> gateway \<Rightarrow> invoiceRecord \<Rightarrow> Delivery \<Rightarrow> bool" where
  "validateStoredDelivery C E g r delivery \<longleftrightarrow>
     validateDelivery C E (Ed25519Public E (GwSigningKey g))
       \<lparr>InvProtocol = [], InvNetwork = [], InvID = InvID (RecInvoice r), InvMerchant = [], InvAmount = 0,
        InvResource = InvResource (RecInvoice r), InvInputSHA256 = InvInputSHA256 (RecInvoice r),
        InvExpiresAt = zeroTime, InvConfirmations = 0, InvSignature = []\<rparr> (RecTxID r) delivery = Inr ()"

text \<open>The body of a claim is the delivery or a status; the last component is the invoice whose
  fulfillment the handler starts.\<close>

definition handleClaim ::
    "crypto \<Rightarrow> entpay_library \<Rightarrow> int \<Rightarrow> TransactionRecord list res \<Rightarrow> gateway \<Rightarrow> string \<Rightarrow> string \<Rightarrow>
     gateway \<times> (Delivery + PaymentStatus) reply \<times> invoiceRecord option" where
  "handleClaim C E now history g authorization i =
     (case authorizedInvoice C E g authorization i of
        Inl (code, message) \<Rightarrow> (g, ErrorReply code message, None)
      | Inr r \<Rightarrow>
        if RecStatus r = InvDelivered then
          (case RecDelivery r of
             Some result \<Rightarrow>
               if validateStoredDelivery C E g r result then (g, JSONReply 200 (Inl result), None)
               else (g, ErrorReply 500 ''stored delivery failed integrity verification'', None)
           | None \<Rightarrow> (g, ErrorReply 500 ''stored delivery failed integrity verification'', None))
        else if RecStatus r \<noteq> InvSubmitted \<or> RecTxID r = [] then (g, ErrorReply 402 ''payment has not been submitted'', None)
        else case ObservePayment C history (InvMerchant (RecInvoice r)) (RecTxID r) (InvAmount (RecInvoice r)) of
          Inl _ \<Rightarrow> (g, ErrorReply 502 ''payment node is unavailable'', None)
        | Inr (found, confirmations) \<Rightarrow>
          if \<not> found \<or> confirmations < InvConfirmations (RecInvoice r)
          then (g, JSONReply 202 (Inr (payment_status r ''confirming'' (RecTxID r) confirmations 0)), None)
          else case AcquireJob (GwDb g) (InvID (RecInvoice r)) now (GwFulfillmentTimeout g + Minute) (5 * Second) 3 of
            Inl _ \<Rightarrow> (g, ErrorReply 500 ''fulfillment could not be queued'', None)
          | Inr (stored, job, acquired) \<Rightarrow>
            let g = g\<lparr>GwDb := stored\<rparr>; started = (if acquired then Some r else None) in
            if DjStatus job = JobPermanent then (g, ErrorReply 502 ''merchant rejected the fulfillment request'', started)
            else if DjStatus job = JobFailed \<and> DjAttempts job \<ge> 3
            then (g, ErrorReply 503 ''fulfillment failed after retrying'', started)
            else (g, JSONReply 202 (Inr (payment_status r ''processing'' (RecTxID r) confirmations (word_of_int (DjAttempts job)))), started))"

definition handleArtifact ::
    "crypto \<Rightarrow> entpay_library \<Rightarrow> gateway \<Rightarrow> string \<Rightarrow> string \<Rightarrow> (ArtifactMetadata \<times> bytes) reply" where
  "handleArtifact C E g authorization i =
     (case authorizedInvoice C E g authorization i of
        Inl (code, message) \<Rightarrow> ErrorReply code message
      | Inr r \<Rightarrow>
        if RecStatus r \<noteq> InvDelivered then ErrorReply 404 ''artifact was not found''
        else case RecDelivery r of
          None \<Rightarrow> ErrorReply 404 ''artifact was not found''
        | Some result \<Rightarrow>
          (case DelArtifact result of
             None \<Rightarrow> ErrorReply 404 ''artifact was not found''
           | Some metadata \<Rightarrow>
             if \<not> validateStoredDelivery C E g r result then ErrorReply 404 ''artifact was not found''
             else case ReadArtifact g (InvID (RecInvoice r)) of
               Inl _ \<Rightarrow> ErrorReply 500 ''artifact failed integrity verification''
             | Inr contents \<Rightarrow>
               if int (length contents) \<noteq> MetaBytes metadata \<or> contentHash C contents \<noteq> MetaSHA256 metadata
               then ErrorReply 500 ''artifact failed integrity verification''
               else JSONReply 200 (metadata, contents)))"

end
