(* ===== verification/Gateway_Steps.thy ===== *)
theory Gateway_Steps
  imports Gateway
begin

text \<open>
  The gateway as a transition system: requests and the fulfillment workers interleave in any order,
  with any answers of the node, the products and the file system, and the process may be restarted on
  the database and files it left. What no step changes or undoes is stated per row.
\<close>

section \<open>Steps\<close>

text \<open>
  A worker carries its invoice and, once staged, what it delivers. \<open>GwStarts\<close> records the invoices
  whose fulfillment has been started, which nothing in the program reads.
\<close>

record gateway_world =
  WGate :: gateway
  WWorkers :: "(invoiceRecord \<times> stagedFulfillment option) list"
  WStarts :: "string list"

definition remove_nth :: "nat \<Rightarrow> 'a list \<Rightarrow> 'a list" where
  "remove_nth k xs = take k xs @ drop (Suc k) xs"

inductive gateway_step :: "crypto \<Rightarrow> entpay_library \<Rightarrow> gateway_world \<Rightarrow> gateway_world \<Rightarrow> bool" for C E where
  create: "handleCreateInvoice C E now clientIP ids tokens codes (WGate w) request = (g, reply) \<Longrightarrow>
     gateway_step C E w (w\<lparr>WGate := g\<rparr>)"
| redeem: "handleRedeemHandoff C now clientIP (WGate w) redemption = (g, answer) \<Longrightarrow>
     gateway_step C E w (w\<lparr>WGate := g\<rparr>)"
| submit: "handleSubmitPayment C E now clientIP accepted history (WGate w) authorization i submission = (g, status) \<Longrightarrow>
     gateway_step C E w (w\<lparr>WGate := g\<rparr>)"
| claim: "handleClaim C E now history (WGate w) authorization i = (g, claimed, None) \<Longrightarrow>
     gateway_step C E w (w\<lparr>WGate := g\<rparr>)"
| start: "handleClaim C E now history (WGate w) authorization i = (g, claimed, Some r) \<Longrightarrow>
     gateway_step C E w (w\<lparr>WGate := g, WWorkers := WWorkers w @ [(r, None)], WStarts := InvID (RecInvoice r) # WStarts w\<rparr>)"
| stage: "k < length (WWorkers w) \<Longrightarrow> WWorkers w ! k = (r, None) \<Longrightarrow>
     stageFulfillment C E produced wrote wroteStage (WGate w) r = (g, Inr staged) \<Longrightarrow>
     gateway_step C E w (w\<lparr>WGate := g, WWorkers := (WWorkers w)[k := (r, Some staged)]\<rparr>)"
| unstaged: "k < length (WWorkers w) \<Longrightarrow> WWorkers w ! k = (r, None) \<Longrightarrow>
     stageFulfillment C E produced wrote wroteStage (WGate w) r = (g, Inl e) \<Longrightarrow>
     gateway_step C E w (w\<lparr>WGate := recordFailure now message g r e, WWorkers := remove_nth k (WWorkers w)\<rparr>)"
| deliver: "k < length (WWorkers w) \<Longrightarrow> WWorkers w ! k = (r, Some staged) \<Longrightarrow>
     deliverFulfillment C E now (WGate w) r staged = (g, Inr ()) \<Longrightarrow>
     gateway_step C E w (w\<lparr>WGate := g, WWorkers := remove_nth k (WWorkers w)\<rparr>)"
| undelivered: "k < length (WWorkers w) \<Longrightarrow> WWorkers w ! k = (r, Some staged) \<Longrightarrow>
     deliverFulfillment C E now (WGate w) r staged = (g, Inl e) \<Longrightarrow>
     gateway_step C E w (w\<lparr>WGate := recordFailure now' message g r e, WWorkers := remove_nth k (WWorkers w)\<rparr>)"
| restart: "NewGateway C E (GwMerchant (WGate w)) (GwSigningKey (WGate w)) endpoint lifetime timeout given
       (GwDb (WGate w)) (GwStaging (WGate w)) (GwArtifacts (WGate w)) = Inr g \<Longrightarrow>
     gateway_step C E w (w\<lparr>WGate := g, WWorkers := []\<rparr>)"

inductive gateway_run :: "crypto \<Rightarrow> entpay_library \<Rightarrow> gateway_world \<Rightarrow> gateway_world \<Rightarrow> bool" for C E where
  refl: "gateway_run C E w w"
| step: "gateway_run C E w w' \<Longrightarrow> gateway_step C E w' w'' \<Longrightarrow> gateway_run C E w w''"

text \<open>A gateway that starts on empty files and tables.\<close>

inductive gateway_reachable :: "crypto \<Rightarrow> entpay_library \<Rightarrow> gateway_world \<Rightarrow> bool" for C E where
  init: "NewGateway C E merchant key endpoint lifetime timeout given empty_gateway_db Map.empty Map.empty = Inr g \<Longrightarrow>
     gateway_reachable C E \<lparr>WGate = g, WWorkers = [], WStarts = []\<rparr>"
| step: "gateway_reachable C E w \<Longrightarrow> gateway_step C E w w' \<Longrightarrow> gateway_reachable C E w'"

lemma reachable_run: "gateway_run C E w w' \<Longrightarrow> gateway_reachable C E w \<Longrightarrow> gateway_reachable C E w'"
  by (induction rule: gateway_run.induct) (auto intro: gateway_reachable.step)

section \<open>What a step does to the tables\<close>

text \<open>Every step changes the database by these operations or not at all.\<close>

inductive db_step :: "crypto \<Rightarrow> gateway_db \<Rightarrow> gateway_db \<Rightarrow> bool" for C where
  create: "Create C now ids tokens d merchant descriptor input expiresAt = Inr (d', record0, token) \<Longrightarrow> db_step C d d'"
| handoff: "CreateHandoff C d code i capsule expiresAt = Inr d' \<Longrightarrow> db_step C d d'"
| redeem: "RedeemHandoff C d code nonce now = (d', answer) \<Longrightarrow> db_step C d d'"
| submit: "Submit d i txID = Inr d' \<Longrightarrow> txID \<noteq> [] \<Longrightarrow> db_step C d d'"
| acquire: "AcquireJob d i now staleAfter retryAfter 3 = Inr (d', job, acquired) \<Longrightarrow> db_step C d d'"
| fail: "FailJob d i permanent now failure = Inr d' \<Longrightarrow> db_step C d d'"
| deliver: "DeliverJob d i deliveredAt delivery = Inr d' \<Longrightarrow> db_step C d d'"

inductive db_run :: "crypto \<Rightarrow> gateway_db \<Rightarrow> gateway_db \<Rightarrow> bool" for C where
  refl: "db_run C d d"
| step: "db_run C d d' \<Longrightarrow> db_step C d' d'' \<Longrightarrow> db_run C d d''"

lemma db_run_one: "db_step C d d' \<Longrightarrow> db_run C d d'"
  using db_run.step [OF db_run.refl] .

lemma db_run_trans: "db_run C d' d'' \<Longrightarrow> db_run C d d' \<Longrightarrow> db_run C d d''"
  by (induction rule: db_run.induct) (auto intro: db_run.step)

lemma create_db:
  assumes "handleCreateInvoice C E now clientIP ids tokens codes g request = (g', reply)"
  shows "db_run C (GwDb g) (GwDb g')"
proof -
  show ?thesis using assms
    by (auto simp: handleCreateInvoice_def Let_def attempt_eq_Inr intro: db_run.refl db_run_one [OF db_step.create]
        db_run.step [OF db_run_one [OF db_step.create] db_step.handoff] split: prod.splits if_splits sum.splits option.splits)
qed

lemma redeem_db:
  "handleRedeemHandoff C now clientIP g request = (g', reply) \<Longrightarrow> db_run C (GwDb g) (GwDb g')"
  by (auto simp: handleRedeemHandoff_def Let_def intro: db_run.refl db_run_one [OF db_step.redeem]
      split: prod.splits if_splits sum.splits)

lemma submit_db:
  "handleSubmitPayment C E now clientIP accepted history g authorization i request = (g', reply) \<Longrightarrow>
     db_run C (GwDb g) (GwDb g')"
  by (auto simp: handleSubmitPayment_def validatePayment_def Let_def intro: db_run.refl db_run_one [OF db_step.submit]
      split: prod.splits if_splits sum.splits)

lemma claim_db:
  "handleClaim C E now history g authorization i = (g', reply, started) \<Longrightarrow> db_run C (GwDb g) (GwDb g')"
  by (auto simp: handleClaim_def Let_def intro: db_run.refl db_run_one [OF db_step.acquire]
      split: prod.splits if_splits sum.splits option.splits)

lemma stage_db:
  "stageFulfillment C E produced wrote wroteStage g r = (g', staged) \<Longrightarrow> GwDb g' = GwDb g"
  by (auto simp: stageFulfillment_def Stage_def Let_def split: sum.splits option.splits)

lemma deliver_db:
  "deliverFulfillment C E now g r staged = (g', done') \<Longrightarrow> db_run C (GwDb g) (GwDb g')"
  by (auto simp: deliverFulfillment_def RemoveStage_def Let_def intro: db_run.refl db_run_one [OF db_step.deliver]
      split: sum.splits)

lemma failure_db: "db_run C (GwDb g) (GwDb (recordFailure now message g r e))"
  by (auto simp: recordFailure_def intro: db_run.refl db_run_one [OF db_step.fail] split: sum.splits)

lemma new_gateway_sel:
  assumes "NewGateway C E merchant key endpoint lifetime timeout given stored staging artifacts = Inr g"
  shows "GwDb g = stored" "GwMerchant g = merchant" "GwSigningKey g = key" "GwStaging g = staging"
    "GwArtifacts g = artifacts" "ValidateAddress C merchant = Inr ()"
  using assms by (auto simp: NewGateway_def attempt_eq_Inr Let_def split: if_splits)

lemma step_db: "gateway_step C E w w' \<Longrightarrow> db_run C (GwDb (WGate w)) (GwDb (WGate w'))"
proof (induction rule: gateway_step.induct)
  case (unstaged k w r produced wrote wroteStage g e now message)
  then show ?case using failure_db [of C g] stage_db [OF unstaged(3)] by simp
next
  case (undelivered k w r staged now g e now' message)
  then show ?case using db_run_trans [OF failure_db deliver_db] by simp
qed (auto intro: create_db redeem_db submit_db claim_db deliver_db db_run.refl simp: stage_db new_gateway_sel)

lemma run_db: "gateway_run C E w w' \<Longrightarrow> db_run C (GwDb (WGate w)) (GwDb (WGate w'))"
  by (induction rule: gateway_run.induct) (auto intro: db_run.refl db_run_trans step_db)

lemma reachable_db: "gateway_reachable C E w \<Longrightarrow> db_run C empty_gateway_db (GwDb (WGate w))"
  by (induction rule: gateway_reachable.induct) (auto simp: new_gateway_sel intro: db_run.refl db_run_trans step_db)

end
