(* ===== verification/Gateway_Inv.thy ===== *)
theory Gateway_Inv
  imports Gateway_Steps
begin

text \<open>
  The invariant of the merchant's tables, and how their rows may change: the terms of an invoice never
  do, its status only advances, its transaction and its delivery are set once; a job counts at most
  three attempts; a handoff is bound to one nonce.
\<close>

section \<open>Updates of one row\<close>

lemma fst_sql_update: "fst (sql_update P f table) = map (\<lambda>r. if P r then f r else r) table"
  by (simp add: sql_update_def)

lemma snd_sql_update: "snd (sql_update P f table) = length (filter P table)"
  by (simp add: sql_update_def)

lemma map_key_update: "(\<And>r. key (f r) = key r) \<Longrightarrow> map key (map (\<lambda>r. if P r then f r else r) table) = map key table"
  by (induction table) auto

lemma one_key:
  "distinct (map key table) \<Longrightarrow> r \<in> set table \<Longrightarrow> s \<in> set table \<Longrightarrow> key r = key s \<Longrightarrow> r = s"
  by (metis (mono_tags) distinct_map inj_on_def)

lemma find_key:
  assumes "distinct (map key table)" "r \<in> set table"
  shows "find (\<lambda>x. key x = key r) table = Some r"
  using assms by (induction table) (auto simp: image_iff)

lemma filter_key_le1: "distinct (map key table) \<Longrightarrow> length (filter (\<lambda>r. key r = k \<and> P r) table) \<le> 1"
proof (induction table)
  case (Cons x table)
  show ?case
  proof (cases "key x = k")
    case True
    then have "filter (\<lambda>r. key r = k \<and> P r) table = []" using Cons.prems by (auto simp: filter_empty_conv image_iff)
    then show ?thesis by simp
  next
    case False
    then show ?thesis using Cons by simp
  qed
qed simp

lemma filter_one_obtain:
  assumes "length (filter P table) = 1"
  obtains r where "r \<in> set table" "P r"
proof -
  from assms have "filter P table \<noteq> []" by auto
  then have "hd (filter P table) \<in> set (filter P table)" by (rule hd_in_set)
  then show thesis using that by auto
qed

section \<open>Rows\<close>

definition invoice_ok :: "invoice_row \<Rightarrow> bool" where
  "invoice_ok r \<longleftrightarrow>
     (IvStatus r = InvOpen \<longleftrightarrow> IvTxId r = None) \<and> IvTxId r \<noteq> Some [] \<and>
     (IvStatus r = InvDelivered \<longleftrightarrow> IvDelivery r \<noteq> None) \<and> 0 < IvAmount r \<and> 0 < IvConfirmations r"

definition status_rank :: "invoice_status \<Rightarrow> nat" where
  "status_rank s = (case s of InvOpen \<Rightarrow> 0 | InvSubmitted \<Rightarrow> 1 | InvDelivered \<Rightarrow> 2)"

definition invoice_terms :: "invoice_row \<Rightarrow> string \<times> bytes \<times> string \<times> u64 \<times> string \<times> string \<times> string \<times> int \<times> u64 \<times> int" where
  "invoice_terms r = (IvId r, IvTokenHash r, IvMerchant r, IvAmount r, IvResource r, IvInput r, IvInputSHA256 r,
     IvExpiresAt r, IvConfirmations r, IvCreatedAt r)"

definition invoice_le :: "invoice_row \<Rightarrow> invoice_row \<Rightarrow> bool" where
  "invoice_le r r' \<longleftrightarrow>
     invoice_terms r' = invoice_terms r \<and> status_rank (IvStatus r) \<le> status_rank (IvStatus r') \<and>
     (\<forall>t. IvTxId r = Some t \<longrightarrow> IvTxId r' = Some t) \<and>
     (\<forall>x. IvDelivery r = Some x \<longrightarrow> IvDelivery r' = Some x \<and> IvDeliveredAt r' = IvDeliveredAt r)"

lemma invoice_le_refl: "invoice_le r r"
  by (simp add: invoice_le_def)

lemma invoice_le_trans: "invoice_le a b \<Longrightarrow> invoice_le b c \<Longrightarrow> invoice_le a c"
  by (auto simp: invoice_le_def)

definition job_le :: "job_row \<Rightarrow> job_row \<Rightarrow> bool" where
  "job_le j j' \<longleftrightarrow> JbInvoiceId j' = JbInvoiceId j \<and> JbAttempts j \<le> JbAttempts j' \<and>
     (JbStatus j \<in> {JobDelivered, JobPermanent} \<longrightarrow> j' = j)"

lemma job_le_refl: "job_le j j"
  by (simp add: job_le_def)

lemma job_le_trans: "job_le a b \<Longrightarrow> job_le b c \<Longrightarrow> job_le a c"
  by (auto simp: job_le_def)

definition handoff_le :: "handoff_row \<Rightarrow> handoff_row \<Rightarrow> bool" where
  "handoff_le h h' \<longleftrightarrow> HfCodeHash h' = HfCodeHash h \<and> HfInvoiceId h' = HfInvoiceId h \<and> HfCapsule h' = HfCapsule h \<and>
     HfExpiresAt h' = HfExpiresAt h \<and> (HfRedeemedAt h \<noteq> None \<longrightarrow> h' = h)"

lemma handoff_le_refl: "handoff_le h h"
  by (simp add: handoff_le_def)

lemma handoff_le_trans: "handoff_le a b \<Longrightarrow> handoff_le b c \<Longrightarrow> handoff_le a c"
  by (auto simp: handoff_le_def)

section \<open>The invariant\<close>

definition job_ok :: "gateway_db \<Rightarrow> job_row \<Rightarrow> bool" where
  "job_ok d j \<longleftrightarrow> 0 \<le> JbAttempts j \<and> JbAttempts j \<le> 3 \<and>
     (\<exists>r \<in> set (gdInvoices d). IvId r = JbInvoiceId j \<and> IvStatus r \<noteq> InvOpen \<and>
        (IvStatus r = InvDelivered \<longleftrightarrow> JbStatus j = JobDelivered))"

definition handoff_ok :: "gateway_db \<Rightarrow> handoff_row \<Rightarrow> bool" where
  "handoff_ok d h \<longleftrightarrow> (HfNonceHash h = None \<longleftrightarrow> HfRedeemedAt h = None) \<and> fst (HfCapsule h) = HfInvoiceId h \<and>
     (\<exists>r \<in> set (gdInvoices d). IvId r = HfInvoiceId h)"

definition gateway_db_ok :: "gateway_db \<Rightarrow> bool" where
  "gateway_db_ok d \<longleftrightarrow>
     distinct (map IvId (gdInvoices d)) \<and> (\<forall>r \<in> set (gdInvoices d). invoice_ok r) \<and>
     (\<forall>r \<in> set (gdInvoices d). \<forall>s \<in> set (gdInvoices d). \<forall>t. IvTxId r = Some t \<longrightarrow> IvTxId s = Some t \<longrightarrow> r = s) \<and>
     distinct (map JbInvoiceId (gdJobs d)) \<and> (\<forall>j \<in> set (gdJobs d). job_ok d j) \<and>
     (\<forall>r \<in> set (gdInvoices d). IvStatus r = InvDelivered \<longrightarrow> (\<exists>j \<in> set (gdJobs d). JbInvoiceId j = IvId r)) \<and>
     distinct (map HfCodeHash (gdHandoffs d)) \<and> (\<forall>h \<in> set (gdHandoffs d). handoff_ok d h)"

lemma gateway_db_okD:
  assumes "gateway_db_ok d"
  shows "distinct (map IvId (gdInvoices d))" "r \<in> set (gdInvoices d) \<Longrightarrow> invoice_ok r"
    "r \<in> set (gdInvoices d) \<Longrightarrow> s \<in> set (gdInvoices d) \<Longrightarrow> IvTxId r = Some t \<Longrightarrow> IvTxId s = Some t \<Longrightarrow> r = s"
    "distinct (map JbInvoiceId (gdJobs d))" "j \<in> set (gdJobs d) \<Longrightarrow> job_ok d j"
    "r \<in> set (gdInvoices d) \<Longrightarrow> IvStatus r = InvDelivered \<Longrightarrow> \<exists>j \<in> set (gdJobs d). JbInvoiceId j = IvId r"
    "distinct (map HfCodeHash (gdHandoffs d))" "h \<in> set (gdHandoffs d) \<Longrightarrow> handoff_ok d h"
proof -
  show "r \<in> set (gdInvoices d) \<Longrightarrow> s \<in> set (gdInvoices d) \<Longrightarrow> IvTxId r = Some t \<Longrightarrow> IvTxId s = Some t \<Longrightarrow> r = s"
    using assms unfolding gateway_db_ok_def by blast
qed (use assms in \<open>simp_all add: gateway_db_ok_def\<close>)

text \<open>The new tables extend or advance the old ones row by row.\<close>

definition db_le :: "gateway_db \<Rightarrow> gateway_db \<Rightarrow> bool" where
  "db_le d d' \<longleftrightarrow>
     (\<forall>r \<in> set (gdInvoices d). \<exists>r' \<in> set (gdInvoices d'). invoice_le r r') \<and>
     (\<forall>j \<in> set (gdJobs d). \<exists>j' \<in> set (gdJobs d'). job_le j j') \<and>
     (\<forall>h \<in> set (gdHandoffs d). \<exists>h' \<in> set (gdHandoffs d'). handoff_le h h')"

lemma db_le_refl: "db_le d d"
  unfolding db_le_def using invoice_le_refl job_le_refl handoff_le_refl by blast

lemma db_le_trans: "db_le a b \<Longrightarrow> db_le b c \<Longrightarrow> db_le a c"
  unfolding db_le_def by (meson invoice_le_trans job_le_trans handoff_le_trans)

lemmas le_refls = invoice_le_refl job_le_refl handoff_le_refl

section \<open>The operations\<close>

lemma Create_steps:
  assumes "Create C now ids tokens d merchant descriptor input expiresAt = Inr (d', record0, token)"
  obtains row where "d' = d\<lparr>gdInvoices := gdInvoices d @ [row]\<rparr>" "IvId row \<notin> IvId ` set (gdInvoices d)"
    "IvStatus row = InvOpen" "IvTxId row = None" "IvDelivery row = None" "0 < IvAmount row" "0 < IvConfirmations row"
proof -
  from assms show thesis
    by (auto simp: Create_def Let_def attempt_eq_Inr sql_insert_eq_Inr sql_require_eq_Inr image_iff intro!: that)
qed

lemma Submit_steps:
  assumes "Submit d i txID = Inr d'" "d' \<noteq> d"
  shows "d' = d\<lparr>gdInvoices := map (\<lambda>r. if IvId r = i \<and> IvStatus r = InvOpen
      then r\<lparr>IvStatus := InvSubmitted, IvTxId := Some txID\<rparr> else r) (gdInvoices d)\<rparr> \<and>
    (\<forall>r \<in> set (gdInvoices d). IvTxId r \<noteq> Some txID)"
proof (cases "\<forall>r \<in> set (gdInvoices d). IvTxId r \<noteq> Some txID")
  case True
  then show ?thesis using assms by (simp add: Submit_def sql_update_def split: if_splits option.splits)
next
  case False
  then have "filter (\<lambda>r. IvId r = i \<and> IvStatus r = InvOpen \<and> (\<forall>used \<in> set (gdInvoices d). IvTxId used \<noteq> Some txID)) (gdInvoices d) = []"
    by (auto simp: filter_empty_conv)
  then show ?thesis using assms by (simp add: Submit_def sql_update_def split: if_splits option.splits)
qed

lemma AcquireJob_steps:
  assumes "AcquireJob d i now stale retry m = Inr (d', job, acquired)"
  shows "d' = d\<lparr>gdJobs := map (\<lambda>j. if JbInvoiceId j = i \<and> acquirable now stale retry m j
      then j\<lparr>JbStatus := JobProcessing, JbAttempts := JbAttempts j + 1, JbUpdatedAt := Unix now, JbLastError := []\<rparr> else j)
      (queueJob now i d)\<rparr>"
  using assms by (auto simp: AcquireJob_def sql_update_def Let_def split: option.splits)

lemma FailJob_steps:
  assumes "FailJob d i permanent now failure = Inr d'"
  shows "d' = d\<lparr>gdJobs := map (\<lambda>j. if JbInvoiceId j = i \<and> JbStatus j = JobProcessing
      then j\<lparr>JbStatus := (if permanent then JobPermanent else JobFailed), JbUpdatedAt := Unix now,
             JbLastError := take 200 failure\<rparr> else j) (gdJobs d)\<rparr>"
  using assms by (auto simp: FailJob_def sql_update_def Let_def split: if_splits)

lemma DeliverJob_steps:
  assumes "DeliverJob d i deliveredAt delivery = Inr d'"
  shows "d' = d\<lparr>gdInvoices := map (\<lambda>r. if IvId r = i \<and> IvStatus r = InvSubmitted
        then r\<lparr>IvStatus := InvDelivered, IvDeliveredAt := Some (Unix deliveredAt), IvDelivery := Some delivery\<rparr> else r) (gdInvoices d),
      gdJobs := map (\<lambda>j. if JbInvoiceId j = i \<and> JbStatus j = JobProcessing
        then j\<lparr>JbStatus := JobDelivered, JbUpdatedAt := Unix deliveredAt, JbLastError := []\<rparr> else j) (gdJobs d)\<rparr>"
    and "\<exists>r \<in> set (gdInvoices d). IvId r = i \<and> IvStatus r = InvSubmitted"
    and "\<exists>j \<in> set (gdJobs d). JbInvoiceId j = i \<and> JbStatus j = JobProcessing"
proof -
  from assms have l: "length (filter (\<lambda>r. IvId r = i \<and> IvStatus r = InvSubmitted) (gdInvoices d)) = 1"
    "length (filter (\<lambda>j. JbInvoiceId j = i \<and> JbStatus j = JobProcessing) (gdJobs d)) = 1"
    by (auto simp: DeliverJob_def sql_update_def Let_def split: if_splits)
  then show "\<exists>r \<in> set (gdInvoices d). IvId r = i \<and> IvStatus r = InvSubmitted"
    "\<exists>j \<in> set (gdJobs d). JbInvoiceId j = i \<and> JbStatus j = JobProcessing"
    by (blast elim: filter_one_obtain)+
  show "d' = d\<lparr>gdInvoices := map (\<lambda>r. if IvId r = i \<and> IvStatus r = InvSubmitted
        then r\<lparr>IvStatus := InvDelivered, IvDeliveredAt := Some (Unix deliveredAt), IvDelivery := Some delivery\<rparr> else r) (gdInvoices d),
      gdJobs := map (\<lambda>j. if JbInvoiceId j = i \<and> JbStatus j = JobProcessing
        then j\<lparr>JbStatus := JobDelivered, JbUpdatedAt := Unix deliveredAt, JbLastError := []\<rparr> else j) (gdJobs d)\<rparr>"
    using assms by (auto simp: DeliverJob_def sql_update_def Let_def split: if_splits)
qed

lemma CreateHandoff_steps:
  assumes "CreateHandoff C d code i capsule expiresAt = Inr d'"
  obtains row where "d' = d\<lparr>gdHandoffs := gdHandoffs d @ [row]\<rparr>" "HfCodeHash row \<notin> HfCodeHash ` set (gdHandoffs d)"
    "HfNonceHash row = None" "HfRedeemedAt row = None" "fst (HfCapsule row) = HfInvoiceId row"
    "\<exists>r \<in> set (gdInvoices d). IvId r = HfInvoiceId row"
proof -
  from assms show thesis
    by (auto simp: CreateHandoff_def attempt_eq_Inr sql_insert_eq_Inr sql_require_eq_Inr image_iff intro!: that)
qed

lemma RedeemHandoff_steps:
  assumes "RedeemHandoff C d code nonce now = (d', answer)" "d' \<noteq> d"
  shows "d' = d\<lparr>gdHandoffs := map (\<lambda>r. if HfCodeHash r = opaqueTokenDigest C code \<and> HfRedeemedAt r = None
      then r\<lparr>HfNonceHash := Some (opaqueTokenDigest C nonce), HfRedeemedAt := Some (Unix now)\<rparr> else r) (gdHandoffs d)\<rparr>"
  using assms by (auto simp: RedeemHandoff_def sql_update_def Let_def split: if_splits option.splits)

section \<open>Preservation\<close>

text \<open>A table whose rows are replaced one by one.\<close>

lemma upd_invoices:
  assumes "d' = d\<lparr>gdInvoices := rows\<rparr>"
  shows "gdInvoices d' = rows" "gdJobs d' = map (\<lambda>j. j) (gdJobs d)" "gdHandoffs d' = map (\<lambda>x. x) (gdHandoffs d)"
  using assms by simp_all

lemma upd_jobs:
  assumes "d' = d\<lparr>gdJobs := rows\<rparr>"
  shows "gdInvoices d' = map (\<lambda>r. r) (gdInvoices d)" "gdJobs d' = rows" "gdHandoffs d' = map (\<lambda>x. x) (gdHandoffs d)"
  using assms by simp_all

lemma upd_handoffs:
  assumes "d' = d\<lparr>gdHandoffs := rows\<rparr>"
  shows "gdInvoices d' = map (\<lambda>r. r) (gdInvoices d)" "gdJobs d' = map (\<lambda>j. j) (gdJobs d)" "gdHandoffs d' = rows"
  using assms by simp_all

lemma upd_both:
  assumes "d' = d\<lparr>gdInvoices := rows, gdJobs := jobs\<rparr>"
  shows "gdInvoices d' = rows" "gdJobs d' = jobs" "gdHandoffs d' = map (\<lambda>x. x) (gdHandoffs d)"
  using assms by simp_all

lemma map_rows_le:
  assumes "gdInvoices d' = map f (gdInvoices d)" "gdJobs d' = map g (gdJobs d)" "gdHandoffs d' = map h (gdHandoffs d)"
    and "\<And>r. r \<in> set (gdInvoices d) \<Longrightarrow> invoice_le r (f r)" "\<And>j. job_le j (g j)" "\<And>x. handoff_le x (h x)"
  shows "db_le d d'"
  unfolding db_le_def assms(1-3) using assms(4-6) by (metis image_eqI list.set_map)

lemma more_rows_le:
  assumes "set (gdInvoices d) \<subseteq> set (gdInvoices d')" "set (gdJobs d) \<subseteq> set (gdJobs d')" "set (gdHandoffs d) \<subseteq> set (gdHandoffs d')"
  shows "db_le d d'"
  unfolding db_le_def using assms invoice_le_refl job_le_refl handoff_le_refl by blast

lemma redeem_le:
  assumes "RedeemHandoff C d code nonce now = (d', answer)"
  shows "db_le d d'"
proof (cases "d' = d")
  case False
  note d' = RedeemHandoff_steps [OF assms False]
  show ?thesis
    by (rule map_rows_le [OF upd_handoffs [OF d']]) (simp_all add: invoice_le_refl job_le_refl handoff_le_def)
qed (simp add: db_le_refl)

lemma submit_le:
  assumes "Submit d i txID = Inr d'" "gateway_db_ok d"
  shows "db_le d d'"
proof (cases "d' = d")
  case False
  note d' = conjunct1 [OF Submit_steps [OF assms(1) False]]
  have "IvTxId r = None \<and> IvDelivery r = None" if "r \<in> set (gdInvoices d)" "IvStatus r = InvOpen" for r
    using gateway_db_okD(2) [OF assms(2) that(1)] that(2) by (auto simp: invoice_ok_def)
  then show ?thesis
    by (intro map_rows_le [OF upd_invoices [OF d']])
      (simp_all add: invoice_le_def invoice_terms_def status_rank_def job_le_refl handoff_le_refl)
qed (simp add: db_le_refl)

lemma acquire_le:
  assumes "AcquireJob d i now stale retry 3 = Inr (d', job, acquired)"
  shows "db_le d d'"
proof -
  let ?d = "d\<lparr>gdJobs := queueJob now i d\<rparr>"
  have d': "d' = ?d\<lparr>gdJobs := map (\<lambda>j. if JbInvoiceId j = i \<and> acquirable now stale retry 3 j
      then j\<lparr>JbStatus := JobProcessing, JbAttempts := JbAttempts j + 1, JbUpdatedAt := Unix now, JbLastError := []\<rparr> else j) (gdJobs ?d)\<rparr>"
    using AcquireJob_steps [OF assms] by simp
  have "db_le d ?d" by (rule more_rows_le) (auto simp: queueJob_def)
  moreover have "db_le ?d d'"
    by (rule map_rows_le [OF upd_jobs [OF d']]) (auto simp: invoice_le_refl job_le_def handoff_le_refl acquirable_def)
  ultimately show ?thesis by (rule db_le_trans)
qed

lemma fail_le:
  assumes "FailJob d i permanent now failure = Inr d'"
  shows "db_le d d'"
proof -
  note d' = FailJob_steps [OF assms]
  show ?thesis
    by (rule map_rows_le [OF upd_jobs [OF d']]) (simp_all add: invoice_le_refl job_le_def handoff_le_refl)
qed

lemma deliver_le:
  assumes "DeliverJob d i deliveredAt delivery = Inr d'" "gateway_db_ok d"
  shows "db_le d d'"
proof -
  note d' = DeliverJob_steps(1) [OF assms(1)]
  have "IvDelivery r = None" if "r \<in> set (gdInvoices d)" "IvStatus r = InvSubmitted" for r
    using gateway_db_okD(2) [OF assms(2) that(1)] that(2) by (auto simp: invoice_ok_def)
  then show ?thesis
    by (intro map_rows_le [OF upd_both [OF d']])
      (simp_all add: invoice_le_def invoice_terms_def status_rank_def job_le_def handoff_le_refl)
qed

lemma step_le: "db_step C d d' \<Longrightarrow> gateway_db_ok d \<Longrightarrow> db_le d d'"
proof (induction rule: db_step.induct)
  case (create now ids tokens d merchant descriptor input expiresAt d' record0 token)
  obtain row where "d' = d\<lparr>gdInvoices := gdInvoices d @ [row]\<rparr>" by (rule Create_steps [OF create(1)])
  then show ?case by (intro more_rows_le) auto
next
  case (handoff d code i capsule expiresAt d')
  obtain row where "d' = d\<lparr>gdHandoffs := gdHandoffs d @ [row]\<rparr>" by (rule CreateHandoff_steps [OF handoff(1)])
  then show ?case by (intro more_rows_le) auto
qed (blast intro: redeem_le submit_le acquire_le fail_le deliver_le)+

text \<open>
  Rows that only advance keep what the other tables refer to: the invoice of a job or a handoff stays.
\<close>

lemma create_ok:
  assumes "Create C now ids tokens d merchant descriptor input expiresAt = Inr (d', record0, token)" "gateway_db_ok d"
  shows "gateway_db_ok d'"
proof -
  obtain row where row: "d' = d\<lparr>gdInvoices := gdInvoices d @ [row]\<rparr>" "IvId row \<notin> IvId ` set (gdInvoices d)"
    "IvStatus row = InvOpen" "IvTxId row = None" "IvDelivery row = None" "0 < IvAmount row" "0 < IvConfirmations row"
    by (rule Create_steps [OF assms(1)])
  have "invoice_ok row" using row by (simp add: invoice_ok_def)
  moreover have "job_ok d' j" if "j \<in> set (gdJobs d)" for j
    using gateway_db_okD(5) [OF assms(2) that] by (auto simp: job_ok_def row(1))
  moreover have "handoff_ok d' h" if "h \<in> set (gdHandoffs d)" for h
    using gateway_db_okD(8) [OF assms(2) that] by (auto simp: handoff_ok_def row(1))
  ultimately show ?thesis using assms(2) row by (auto simp: gateway_db_ok_def)
qed

lemma handoff_created_ok:
  assumes "CreateHandoff C d code i capsule expiresAt = Inr d'" "gateway_db_ok d"
  shows "gateway_db_ok d'"
proof -
  obtain row where row: "d' = d\<lparr>gdHandoffs := gdHandoffs d @ [row]\<rparr>" "HfCodeHash row \<notin> HfCodeHash ` set (gdHandoffs d)"
    "HfNonceHash row = None" "HfRedeemedAt row = None" "fst (HfCapsule row) = HfInvoiceId row"
    "\<exists>r \<in> set (gdInvoices d). IvId r = HfInvoiceId row" by (rule CreateHandoff_steps [OF assms(1)])
  then have "handoff_ok d' row" by (auto simp: handoff_ok_def)
  with assms(2) row show ?thesis by (auto simp: gateway_db_ok_def handoff_ok_def job_ok_def)
qed

text \<open>Replacing rows one by one, in the three tables at once.\<close>

lemma map_rows_ok:
  assumes ok: "gateway_db_ok d"
    and d': "gdInvoices d' = map f (gdInvoices d)" "gdJobs d' = map g (gdJobs d)" "gdHandoffs d' = map h (gdHandoffs d)"
    and ids: "\<And>r. IvId (f r) = IvId r" "\<And>j. JbInvoiceId (g j) = JbInvoiceId j"
      "\<And>x. HfCodeHash (h x) = HfCodeHash x \<and> HfInvoiceId (h x) = HfInvoiceId x \<and> HfCapsule (h x) = HfCapsule x"
    and rows: "\<And>r. r \<in> set (gdInvoices d) \<Longrightarrow> invoice_ok (f r)"
    and tx: "\<And>r s t. r \<in> set (gdInvoices d) \<Longrightarrow> s \<in> set (gdInvoices d) \<Longrightarrow> IvTxId (f r) = Some t \<Longrightarrow> IvTxId (f s) = Some t \<Longrightarrow> r = s"
    and paid: "\<And>r. r \<in> set (gdInvoices d) \<Longrightarrow> IvStatus r \<noteq> InvOpen \<Longrightarrow> IvStatus (f r) \<noteq> InvOpen"
    and tries: "\<And>j. j \<in> set (gdJobs d) \<Longrightarrow> 0 \<le> JbAttempts (g j) \<and> JbAttempts (g j) \<le> 3"
    and agree: "\<And>r j. r \<in> set (gdInvoices d) \<Longrightarrow> j \<in> set (gdJobs d) \<Longrightarrow> IvId r = JbInvoiceId j \<Longrightarrow> IvStatus r \<noteq> InvOpen \<Longrightarrow>
      (IvStatus r = InvDelivered \<longleftrightarrow> JbStatus j = JobDelivered) \<Longrightarrow> (IvStatus (f r) = InvDelivered \<longleftrightarrow> JbStatus (g j) = JobDelivered)"
    and delivered: "\<And>r. r \<in> set (gdInvoices d) \<Longrightarrow> IvStatus (f r) = InvDelivered \<Longrightarrow> \<exists>j \<in> set (gdJobs d). JbInvoiceId j = IvId r"
    and nonces: "\<And>x. x \<in> set (gdHandoffs d) \<Longrightarrow> HfNonceHash (h x) = None \<longleftrightarrow> HfRedeemedAt (h x) = None"
  shows "gateway_db_ok d'"
proof -
  note o = gateway_db_okD [OF ok]
  have keys: "map IvId (map f (gdInvoices d)) = map IvId (gdInvoices d)" "map JbInvoiceId (map g (gdJobs d)) = map JbInvoiceId (gdJobs d)"
    "map HfCodeHash (map h (gdHandoffs d)) = map HfCodeHash (gdHandoffs d)"
    using ids by simp_all
  have "job_ok d' (g j)" if j: "j \<in> set (gdJobs d)" for j
  proof -
    from o(5) [OF j] obtain r where r: "r \<in> set (gdInvoices d)" "IvId r = JbInvoiceId j" "IvStatus r \<noteq> InvOpen"
      "IvStatus r = InvDelivered \<longleftrightarrow> JbStatus j = JobDelivered" by (auto simp: job_ok_def)
    then show ?thesis using tries [OF j] ids paid [OF r(1,3)] agree [OF r(1) j r(2,3,4)] by (auto simp: job_ok_def d' intro!: bexI [of _ r])
  qed
  moreover have "handoff_ok d' (h x)" if x: "x \<in> set (gdHandoffs d)" for x
    using o(8) [OF x] ids nonces [OF x] by (auto simp: handoff_ok_def d')
  ultimately show ?thesis
    unfolding gateway_db_ok_def d' keys
  proof (intro conjI)
    show "\<forall>r \<in> set (map f (gdInvoices d)). invoice_ok r" using rows by auto
    show "\<forall>r \<in> set (map f (gdInvoices d)). \<forall>s \<in> set (map f (gdInvoices d)). \<forall>t. IvTxId r = Some t \<longrightarrow> IvTxId s = Some t \<longrightarrow> r = s"
      by (auto dest: tx)
    show "\<forall>r \<in> set (map f (gdInvoices d)). IvStatus r = InvDelivered \<longrightarrow> (\<exists>j \<in> set (map g (gdJobs d)). JbInvoiceId j = IvId r)"
      using delivered ids by auto
  qed (use o(1,4,7) in auto)
qed

lemma redeemed_ok:
  assumes "RedeemHandoff C d code nonce now = (d', answer)" "gateway_db_ok d"
  shows "gateway_db_ok d'"
proof (cases "d' = d")
  case False
  note o = gateway_db_okD [OF assms(2)] and d' = RedeemHandoff_steps [OF assms(1) False]
  show ?thesis
    by (rule map_rows_ok [OF assms(2) upd_handoffs [OF d']]) (use o in \<open>auto simp: job_ok_def handoff_ok_def\<close>)
qed (simp add: assms(2))

lemma submit_one:
  assumes "distinct (map IvId rows)"
    and one: "\<And>r s t. r \<in> set rows \<Longrightarrow> s \<in> set rows \<Longrightarrow> IvTxId r = Some t \<Longrightarrow> IvTxId s = Some t \<Longrightarrow> r = s"
    and new: "\<forall>r \<in> set rows. IvTxId r \<noteq> Some txID"
    and rs: "r \<in> set rows" "s \<in> set rows"
    and t: "IvTxId (if IvId r = i \<and> IvStatus r = InvOpen then r\<lparr>IvStatus := InvSubmitted, IvTxId := Some txID\<rparr> else r) = Some t"
      "IvTxId (if IvId s = i \<and> IvStatus s = InvOpen then s\<lparr>IvStatus := InvSubmitted, IvTxId := Some txID\<rparr> else s) = Some t"
  shows "r = s"
proof (cases "IvId r = i \<and> IvStatus r = InvOpen")
  case True
  then have "t = txID" using t(1) by simp
  then have "IvId s = i" using t(2) new rs(2) by (cases "IvId s = i \<and> IvStatus s = InvOpen") auto
  then show ?thesis using one_key [OF assms(1) rs] True by simp
next
  case False
  have r: "IvTxId r = Some t" using t(1) by (simp only: if_not_P [OF False])
  then have "t \<noteq> txID" using new rs(1) by auto
  then have "IvTxId s = Some t" using t(2) by (simp split: if_splits)
  then show ?thesis using one [OF rs r] by simp
qed

lemma submit_ok:
  assumes "Submit d i txID = Inr d'" "txID \<noteq> []" "gateway_db_ok d"
  shows "gateway_db_ok d'"
proof (cases "d' = d")
  case False
  note o = gateway_db_okD [OF assms(3)]
  let ?f = "\<lambda>r. if IvId r = i \<and> IvStatus r = InvOpen then r\<lparr>IvStatus := InvSubmitted, IvTxId := Some txID\<rparr> else r"
  have d': "d' = d\<lparr>gdInvoices := map ?f (gdInvoices d)\<rparr>" and new: "\<forall>r \<in> set (gdInvoices d). IvTxId r \<noteq> Some txID"
    using Submit_steps [OF assms(1) False] by simp_all
  show ?thesis
  proof (rule map_rows_ok [OF assms(3) upd_invoices [OF d']])
    show "r = s" if "r \<in> set (gdInvoices d)" "s \<in> set (gdInvoices d)" "IvTxId (?f r) = Some t" "IvTxId (?f s) = Some t" for r s t
      by (rule submit_one [OF o(1) o(3) new that])
    show "invoice_ok (?f r)" if "r \<in> set (gdInvoices d)" for r
      using o(2) [OF that] assms(2) by (auto simp: invoice_ok_def)
    show "0 \<le> JbAttempts j \<and> JbAttempts j \<le> 3" if "j \<in> set (gdJobs d)" for j using o(5) [OF that] by (simp add: job_ok_def)
    show "HfNonceHash x = None \<longleftrightarrow> HfRedeemedAt x = None" if "x \<in> set (gdHandoffs d)" for x
      using o(8) [OF that] by (simp add: handoff_ok_def)
    show "\<exists>j \<in> set (gdJobs d). JbInvoiceId j = IvId r" if "r \<in> set (gdInvoices d)" "IvStatus (?f r) = InvDelivered" for r
      using that o(6) by (auto split: if_splits)
  qed simp_all
qed (simp add: assms(3))

lemma queue_ok:
  assumes "gateway_db_ok d"
  shows "gateway_db_ok (d\<lparr>gdJobs := queueJob now i d\<rparr>)"
  using assms by (auto simp: queueJob_def gateway_db_ok_def job_ok_def handoff_ok_def image_iff)

lemma acquire_ok:
  assumes "AcquireJob d i now stale retry 3 = Inr (d', job, acquired)" "gateway_db_ok d"
  shows "gateway_db_ok d'"
proof -
  let ?d = "d\<lparr>gdJobs := queueJob now i d\<rparr>"
  let ?g = "\<lambda>j. if JbInvoiceId j = i \<and> acquirable now stale retry 3 j
      then j\<lparr>JbStatus := JobProcessing, JbAttempts := JbAttempts j + 1, JbUpdatedAt := Unix now, JbLastError := []\<rparr> else j"
  note ok = queue_ok [OF assms(2), of now i] and o = gateway_db_okD [OF queue_ok [OF assms(2), of now i]]
  have d': "d' = ?d\<lparr>gdJobs := map ?g (gdJobs ?d)\<rparr>" using AcquireJob_steps [OF assms(1)] by simp
  show ?thesis
  proof (rule map_rows_ok [OF ok upd_jobs [OF d']])
    show "0 \<le> JbAttempts (?g j) \<and> JbAttempts (?g j) \<le> 3" if "j \<in> set (gdJobs ?d)" for j
      using o(5) [OF that] by (auto simp: job_ok_def acquirable_def)
    show "IvStatus r = InvDelivered \<longleftrightarrow> JbStatus (?g j) = JobDelivered"
      if "IvStatus r = InvDelivered \<longleftrightarrow> JbStatus j = JobDelivered" for r j
      using that by (auto simp: acquirable_def)
    show "IvTxId r = Some t \<Longrightarrow> IvTxId s = Some t \<Longrightarrow> r = s" if "r \<in> set (gdInvoices ?d)" "s \<in> set (gdInvoices ?d)" for r s t
      using o(3) [OF that] by blast
    show "HfNonceHash x = None \<longleftrightarrow> HfRedeemedAt x = None" if "x \<in> set (gdHandoffs ?d)" for x
      using o(8) [OF that] by (simp add: handoff_ok_def)
    show "\<exists>j \<in> set (gdJobs ?d). JbInvoiceId j = IvId r" if "r \<in> set (gdInvoices ?d)" "IvStatus r = InvDelivered" for r
      using o(6) [OF that] .
  qed (use o(2) in simp_all)
qed

lemma fail_ok:
  assumes "FailJob d i permanent now failure = Inr d'" "gateway_db_ok d"
  shows "gateway_db_ok d'"
proof -
  note o = gateway_db_okD [OF assms(2)] and d' = FailJob_steps [OF assms(1)]
  show ?thesis
    by (rule map_rows_ok [OF assms(2) upd_jobs [OF d']]) (use o in \<open>auto simp: job_ok_def handoff_ok_def\<close>)
qed

lemma deliver_ok:
  assumes "DeliverJob d i deliveredAt delivery = Inr d'" "gateway_db_ok d"
  shows "gateway_db_ok d'"
proof -
  note o = gateway_db_okD [OF assms(2)] and s = DeliverJob_steps [OF assms(1)]
  let ?f = "\<lambda>r. if IvId r = i \<and> IvStatus r = InvSubmitted
        then r\<lparr>IvStatus := InvDelivered, IvDeliveredAt := Some (Unix deliveredAt), IvDelivery := Some delivery\<rparr> else r"
  let ?g = "\<lambda>j. if JbInvoiceId j = i \<and> JbStatus j = JobProcessing
        then j\<lparr>JbStatus := JobDelivered, JbUpdatedAt := Unix deliveredAt, JbLastError := []\<rparr> else j"
  obtain r0 j0 where r0: "r0 \<in> set (gdInvoices d)" "IvId r0 = i" "IvStatus r0 = InvSubmitted"
    and j0: "j0 \<in> set (gdJobs d)" "JbInvoiceId j0 = i" "JbStatus j0 = JobProcessing" using s(2,3) by blast
  show ?thesis
  proof (rule map_rows_ok [OF assms(2) upd_both [OF s(1)]])
    show "invoice_ok (?f r)" if "r \<in> set (gdInvoices d)" for r
      using o(2) [OF that] by (auto simp: invoice_ok_def)
    show "r = x" if "r \<in> set (gdInvoices d)" "x \<in> set (gdInvoices d)" "IvTxId (?f r) = Some t" "IvTxId (?f x) = Some t" for r x t
      using that o(3) [OF that(1,2)] by (auto split: if_splits)
    show "IvStatus (?f r) = InvDelivered \<longleftrightarrow> JbStatus (?g j) = JobDelivered"
      if "r \<in> set (gdInvoices d)" "j \<in> set (gdJobs d)" "IvId r = JbInvoiceId j" "IvStatus r = InvDelivered \<longleftrightarrow> JbStatus j = JobDelivered" for r j
      using that one_key [OF o(1) that(1) r0(1)] one_key [OF o(4) that(2) j0(1)] r0 j0 by auto
    show "\<exists>j \<in> set (gdJobs d). JbInvoiceId j = IvId r" if "r \<in> set (gdInvoices d)" "IvStatus (?f r) = InvDelivered" for r
      using that o(6) [OF that(1)] j0 by (auto split: if_splits)
    show "0 \<le> JbAttempts (?g j) \<and> JbAttempts (?g j) \<le> 3" if "j \<in> set (gdJobs d)" for j
      using o(5) [OF that] by (simp add: job_ok_def)
    show "HfNonceHash x = None \<longleftrightarrow> HfRedeemedAt x = None" if "x \<in> set (gdHandoffs d)" for x
      using o(8) [OF that] by (simp add: handoff_ok_def)
  qed simp_all
qed

lemma db_step_ok: "db_step C d d' \<Longrightarrow> gateway_db_ok d \<Longrightarrow> gateway_db_ok d'"
  by (induction rule: db_step.induct)
    (blast intro: create_ok handoff_created_ok redeemed_ok submit_ok acquire_ok fail_ok deliver_ok)+

lemma empty_ok: "gateway_db_ok empty_gateway_db"
  by (simp add: gateway_db_ok_def empty_gateway_db_def)

lemma db_run_ok: "db_run C d d' \<Longrightarrow> gateway_db_ok d \<Longrightarrow> gateway_db_ok d'"
  by (induction rule: db_run.induct) (auto intro: db_step_ok)

lemma db_run_le: "db_run C d d' \<Longrightarrow> gateway_db_ok d \<Longrightarrow> db_le d d'"
proof (induction rule: db_run.induct)
  case (step d d' d'')
  then show ?case using step_le [OF step.hyps(2) db_run_ok [OF step.hyps(1)]] db_le_trans by blast
qed (rule db_le_refl)

lemma reachable_db_ok: "gateway_reachable C E w \<Longrightarrow> gateway_db_ok (GwDb (WGate w))"
  by (rule db_run_ok [OF reachable_db empty_ok])

end
