(* ===== verification/Entpay_Props.thy ===== *)
theory Entpay_Props
  imports Entpay_Data Sample
begin

text \<open>
  The boundary of EntPay: unpadded base64url and the tokens written in it, and the lines of the bytes a
  signature covers.
\<close>

section \<open>Unpadded base64url\<close>

lemma unat_byte: "unat (b :: 8 word) < 256"
  using unsigned_less [of b] by simp

lemma b64_val_char [simp]: "n < 64 \<Longrightarrow> b64_val (b64_char n) = Some n"
  by (auto simp: b64_val_def b64_char_def Let_def of_char_of)

lemma b64_char_no_break: "n < 64 \<Longrightarrow> (of_char (b64_char n) :: nat) \<notin> {10, 13}"
  by (auto simp: b64_char_def of_char_of)

lemma mod_less_256: "(x :: nat) mod 4 * 16 < 64" "(x :: nat) mod 16 * 4 < 64"
proof -
  have "x mod 4 < 4" "x mod 16 < 16" by simp_all
  then show "x mod 4 * 16 < 64" "x mod 16 * 4 < 64" by linarith+
qed

lemma b64_encode_bound:
  "(\<forall>n \<in> set ns. n < 256) \<Longrightarrow> v \<in> set (b64_encode_nats ns) \<Longrightarrow> v < 64"
proof (induction ns rule: b64_encode_nats.induct)
  case (2 a)
  then show ?case using mod_less_256 [of a] by auto
next
  case (3 a b)
  then have "b div 16 < 16" by auto
  moreover have "a mod 4 * 16 \<le> 48" "b mod 16 * 4 \<le> 60" by simp_all
  ultimately show ?case using 3 by auto
next
  case (4 a b c r)
  then have "b div 16 < 16" "c div 64 < 4" by auto
  moreover have "a mod 4 * 16 \<le> 48" "b mod 16 * 4 \<le> 60" by simp_all
  ultimately show ?case using 4 by auto
qed simp

lemma b64_join:
  fixes a b c :: nat
  assumes "a < 256" "b < 256" "c < 256"
  shows "a div 4 * 4 + (a mod 4 * 16 + b div 16) div 16 = a" "(a mod 4 * 16 + b div 16) mod 16 * 16 + (b mod 16 * 4 + c div 64) div 4 = b"
    "(b mod 16 * 4 + c div 64) mod 4 * 64 + c mod 64 = c" "a div 4 * 4 + a mod 4 * 16 div 16 = a"
    "(a mod 4 * 16 + b div 16) mod 16 * 16 + b mod 16 * 4 div 4 = b"
proof -
  have "b div 16 < 16" "c div 64 < 4" using assms by auto
  then show "a div 4 * 4 + (a mod 4 * 16 + b div 16) div 16 = a" "(a mod 4 * 16 + b div 16) mod 16 * 16 + (b mod 16 * 4 + c div 64) div 4 = b"
    "(b mod 16 * 4 + c div 64) mod 4 * 64 + c mod 64 = c" "a div 4 * 4 + a mod 4 * 16 div 16 = a"
    "(a mod 4 * 16 + b div 16) mod 16 * 16 + b mod 16 * 4 div 4 = b"
    by simp_all
qed

lemma b64_decode_encode_nats:
  "(\<forall>n \<in> set ns. n < 256) \<Longrightarrow> b64_decode_nats (b64_encode_nats ns) = Some ns"
proof (induction ns rule: b64_encode_nats.induct)
  case (2 a)
  then show ?case by simp
next
  case (3 a b)
  then show ?case using b64_join [of a b 0] by simp
next
  case (4 a b c r)
  then show ?case using b64_join [of a b c] by simp
qed simp

lemma RawURLDecode_Encode [simp]: "RawURLDecode (RawURLEncode bs) = Inr bs"
proof -
  let ?ns = "b64_encode_nats (map unat bs)"
  have bytes: "\<forall>n \<in> set (map unat bs). n < 256" by (auto intro: unat_byte)
  have small: "v < 64" if "v \<in> set ?ns" for v using b64_encode_bound [OF bytes that] .
  have "filter (\<lambda>c. of_char c \<notin> {10, 13 :: nat}) (RawURLEncode bs) = RawURLEncode bs"
    unfolding RawURLEncode_def using b64_char_no_break small by (intro filter_True) auto
  moreover have "map b64_val (RawURLEncode bs) = map Some ?ns"
    unfolding RawURLEncode_def using small by simp
  ultimately show ?thesis
    using b64_decode_encode_nats [OF bytes] by (simp add: RawURLDecode_def Let_def comp_def image_iff)
qed

lemma RawURLEncode_inj: "RawURLEncode a = RawURLEncode b \<Longrightarrow> a = b"
  by (metis RawURLDecode_Encode sum.inject(2))

lemma length_b64_encode: "length (b64_encode_nats ns) = (4 * length ns + 2) div 3"
  by (induction ns rule: b64_encode_nats.induct) simp_all

lemma length_RawURLEncode [simp]: "length (RawURLEncode bs) = (4 * length bs + 2) div 3"
  by (simp add: RawURLEncode_def length_b64_encode)

text \<open>
  An opaque token the program makes of 32 random bytes passes the check it applies to tokens, and
  the check determines the bytes: two accepted tokens with the same bytes are the same text.
\<close>

theorem newOpaqueToken_validates:
  "newOpaqueToken (Inr bs) = Inr t \<Longrightarrow> length bs = handoffTokenBytes \<Longrightarrow>
     validateOpaqueToken t = Inr () \<and> RawURLDecode t = Inr bs \<and>
     (validateOpaqueToken u = Inr () \<longrightarrow> RawURLDecode u = Inr bs \<longrightarrow> u = t)"
  by (auto simp: newOpaqueToken_def validateOpaqueToken_def handoffTokenBytes_def split: if_splits)

definition sample_bytes :: bytes where
  "sample_bytes = replicate 32 3"

definition sample_code :: string where
  "sample_code = RawURLEncode sample_bytes"

lemma length_sample_bytes: "length sample_bytes = handoffTokenBytes"
  by (simp add: sample_bytes_def handoffTokenBytes_def)

lemma new_sample_code: "newOpaqueToken (Inr sample_bytes) = Inr sample_code"
  by (simp add: newOpaqueToken_def sample_code_def)

theorem newOpaqueToken_validates_witness:
  "validateOpaqueToken sample_code = Inr () \<and> RawURLDecode sample_code = Inr sample_bytes \<and>
     (validateOpaqueToken [] = Inr () \<longrightarrow> RawURLDecode [] = Inr sample_bytes \<longrightarrow> [] = sample_code)"
  by (rule newOpaqueToken_validates [OF new_sample_code length_sample_bytes])

section \<open>The lines of signed bytes\<close>

lemma split_char_append: "split_char c (s @ c # t) = split_char c s @ split_char c t"
  by (induction s) (auto split: list.splits)

lemma split_char_alone: "c \<notin> set s \<Longrightarrow> split_char c s = [s]"
  by (induction s) auto

lemma Join_split_char: "strings_Join (split_char c s) [c] = s"
proof (induction s)
  case (Cons x s)
  obtain p ps where s: "split_char c s = p # ps" using split_char_not_Nil [of c s] by (cases "split_char c s") auto
  then show ?case using Cons by (cases ps) (auto simp: s)
qed simp

lemma split_char_inj: "split_char c s = split_char c t \<Longrightarrow> s = t"
  by (metis Join_split_char)

lemma split_char_Join: "flds \<noteq> [] \<Longrightarrow> split_char c (strings_Join flds [c]) = concat (map (split_char c) flds)"
  by (induction flds "[c]" rule: strings_Join.induct) (simp_all add: split_char_append)

definition one_line :: "string \<Rightarrow> bool" where
  "one_line s \<longleftrightarrow> CHR 0x0A \<notin> set s"

definition signed_lines :: "string list \<Rightarrow> string list" where
  "signed_lines flds = concat (map (split_char (CHR 0x0A)) flds)"

lemma signed_bytes_lines: "signed_bytes as = signed_bytes bs \<Longrightarrow> as \<noteq> [] \<Longrightarrow> bs \<noteq> [] \<Longrightarrow> signed_lines as = signed_lines bs"
  unfolding signed_bytes_def signed_lines_def string_bytes_inj by (metis split_char_Join)

lemma lines_one_line: "one_line s \<Longrightarrow> split_char (CHR 0x0A) s = [s]"
  by (simp add: one_line_def split_char_alone)

lemma one_line_digits: "list_all is_digit s \<Longrightarrow> one_line s"
  by (auto simp: one_line_def list_all_iff is_digit_def)

lemma one_line_FormatUint [simp]: "one_line (FormatUint n)"
  by (rule one_line_digits) simp

lemma one_line_FormatInt [simp]: "one_line (FormatInt i)"
  using one_line_FormatUint [unfolded one_line_def] by (simp add: FormatInt_def one_line_def)

lemma FormatUint_inj: "FormatUint a = FormatUint b \<Longrightarrow> a = b"
  by (metis dec_value_FormatUint)

lemma FormatUint_no_sign: "FormatUint n \<noteq> CHR ''-'' # s"
proof
  assume "FormatUint n = CHR ''-'' # s"
  then show False using digits_FormatUint [of n] by (simp add: is_digit_def)
qed

lemma FormatInt_inj:
  assumes "FormatInt a = FormatInt b"
  shows "a = b"
proof -
  have "a < 0 \<longleftrightarrow> b < 0" using assms FormatUint_no_sign FormatUint_no_sign [symmetric]
    by (simp add: FormatInt_def split: if_splits)
  then show ?thesis using assms FormatUint_inj by (fastforce simp: FormatInt_def split: if_splits)
qed

lemma one_line_append [simp]: "one_line (s @ t) \<longleftrightarrow> one_line s \<and> one_line t"
  and one_line_Cons [simp]: "one_line (c # s) \<longleftrightarrow> c \<noteq> CHR 0x0A \<and> one_line s"
  and one_line_Nil [simp]: "one_line []"
  by (auto simp: one_line_def)

lemma one_line_hex [simp]: "one_line (hex_encode bs)"
proof (induction bs)
  case (Cons b bs)
  have "n < 16 \<Longrightarrow> hex_char n \<noteq> CHR 0x0A" for n
    using hex_val_hex_char [of n] by (auto simp: hex_val_def)
  then show ?case using Cons unat_byte [of b] by simp
qed simp

end
