(* ===== verification/Gateway_Sample.thy ===== *)
theory Gateway_Sample
  imports Gateway_Inv Payment_Props Entpay_Props
begin

text \<open>
  A merchant's gateway for the witnesses: one product, sold once and delivered, over a signature that
  repeats the message and a JSON decoder that reads every text as the empty object.
\<close>

definition sample_entpay :: entpay_library where
  "sample_entpay = \<lparr>Ed25519Sign = (\<lambda>_ m. m), Ed25519Public = (\<lambda>_. replicate 32 0), Ed25519Verify = (\<lambda>_ m s. s = m),
     DecodeJSON = (\<lambda>_. Inr (JObject [])), QuoteJSON = (\<lambda>s. CHR 0x22 # s @ [CHR 0x22]), ParseMediaType = (\<lambda>s. Inr (s, 0)),
     ParseEndpoint = (\<lambda>s. Some \<lparr>EuScheme = ''https'', EuHost = s, EuHostname = s, EuPort = [], EuPlain = True,
       EuLoopback = False, EuBlankHost = False, EuSlashed = s\<rparr>), QueryEscape = (\<lambda>s. s)\<rparr>"

definition sample_descriptor :: ProductDescriptor where
  "sample_descriptor = \<lparr>PdID = ''report'', PdName = ''Report'', PdDescription = ''A short report'', PdPrice = 10,
     PdConfirmations = 2, PdAccent = ''green'',
     PdFields = [\<lparr>FldID = ''topic'', FldLabel = ''Topic'', FldType = ''text'', FldPlaceholder = [], FldDefault = [],
       FldMinLength = 0, FldMaxLength = 100, FldRequired = False\<rparr>]\<rparr>"

definition sample_product :: product where
  "sample_product = \<lparr>PcDescriptor = sample_descriptor, PcValidate = (\<lambda>_. Inr ())\<rparr>"

definition sample_gateway :: gateway where
  "sample_gateway = \<lparr>GwMerchant = merchant_address, GwSigningKey = replicate 64 1, GwLifetime = 15 * Minute,
     GwFulfillmentTimeout = 3 * Minute, GwPublicEndpoint = ''shop'', GwProducts = [(''report'', sample_product)],
     GwDescriptors = [sample_descriptor], GwDb = empty_gateway_db, GwStaging = Map.empty, GwArtifacts = Map.empty,
     GwLimiter = newRateLimiter\<rparr>"

lemma sample_entpay_sel [simp]:
  "Ed25519Sign sample_entpay sk m = m" "Ed25519Public sample_entpay sk = replicate 32 0"
  "Ed25519Verify sample_entpay pk m sig \<longleftrightarrow> sig = m" "DecodeJSON sample_entpay t = Inr (JObject [])"
  "QuoteJSON sample_entpay s = CHR 0x22 # s @ [CHR 0x22]" "ParseMediaType sample_entpay s = Inr (s, 0)"
  by (simp_all add: sample_entpay_def)

lemma sample_identifiers: "validIdentifier ''report''" "validIdentifier ''topic''"
  by code_simp+

lemma sample_trimmed: "TrimSpace ''report'' = ''report''" "TrimSpace ''Report'' = ''Report''"
  "TrimSpace ''A short report'' = ''A short report''" "TrimSpace ''Topic'' = ''Topic''" "TrimSpace ''shop'' = ''shop''"
  by (rule TrimSpace_id; simp)+

lemma sample_descriptor_valid [simp]: "validateProductDescriptor sample_descriptor = Inr ()"
  by (simp add: validateProductDescriptor_def sample_descriptor_def sample_identifiers sample_trimmed validateField_def)

lemma sample_input: "canonicalObject sample_entpay ''{}'' = Inr ''{}''"
  by (simp add: canonicalObject_def maxRequestBytes_def rejectDuplicateJSONKeys_def checkAll_def)

lemma sample_endpoint: "validatePublicEndpoint sample_entpay ''shop'' = Inr ''shop''"
  by (simp add: validatePublicEndpoint_def normalizeEntPayURL_def sample_entpay_def sample_trimmed ContainsAny_def)

lemma NewGateway_sample:
  "NewGateway sample_crypto sample_entpay merchant_address (replicate 64 1) ''shop'' 0 0 [Some sample_product] empty_gateway_db
     Map.empty Map.empty = Inr sample_gateway"
  by (simp add: NewGateway_def sample_gateway_def sample_endpoint sample_trimmed addProduct_def sample_product_def
      Minute_def Hour_def Second_def) (simp add: sample_descriptor_def MaxInt64_def)

section \<open>A sale\<close>

definition sample_now :: int where "sample_now = 1000 * Second"

definition sample_iid :: string where "sample_iid = hex_encode (replicate 16 1)"

definition sample_token :: string where "sample_token = RawURLEncode (replicate 32 2)"

definition sample_bearer :: string where "sample_bearer = ''Bearer '' @ sample_token"

definition sample_history :: "TransactionRecord list res" where
  "sample_history = Inr [\<lparr>HistID = ID merchant_payment, HistBlockHeight = Some 4, HistBlockHash = [], HistPosition = 1,
     HistCoinbase = False, HistPending = False, HistPruned = False, HistConfirmations = 2, HistTimestamp = 0,
     HistReceived = 10, HistSent = 0, HistTransaction = merchant_payment\<rparr>]"

definition sample_row :: invoice_row where
  "sample_row = \<lparr>IvId = sample_iid, IvTokenHash = sample_digest (string_bytes sample_token), IvMerchant = merchant_address,
     IvAmount = 10, IvResource = ''report'', IvInput = ''{}'', IvInputSHA256 = inputHash sample_crypto ''report'' ''{}'',
     IvExpiresAt = Unix (TruncateSecond (sample_now + 15 * Minute)), IvConfirmations = 2, IvStatus = InvOpen, IvTxId = None,
     IvCreatedAt = Unix sample_now, IvDeliveredAt = None, IvDelivery = None\<rparr>"

definition sample_capsule :: HandoffCapsule where
  "sample_capsule = \<lparr>HcEndpoint = ''shop'', HcInput = ''{}'',
     HcCreated = \<lparr>CirInvoice = signInvoice sample_entpay (replicate 64 1)
         \<lparr>InvProtocol = ProtocolVersion, InvNetwork = ''entropy-mainnet-v1'', InvID = sample_iid, InvMerchant = merchant_address,
          InvAmount = 10, InvResource = ''report'', InvInputSHA256 = inputHash sample_crypto ''report'' ''{}'',
          InvExpiresAt = TruncateSecond (sample_now + 15 * Minute), InvConfirmations = 2, InvSignature = []\<rparr>,
       CirClaimToken = sample_token, CirLaunch = None\<rparr>\<rparr>"

definition sample_handoff :: handoff_row where
  "sample_handoff = \<lparr>HfCodeHash = opaqueTokenDigest sample_crypto sample_code, HfInvoiceId = sample_iid,
     HfCapsule = (sample_iid, sample_capsule), HfExpiresAt = 1120, HfNonceHash = None, HfRedeemedAt = None\<rparr>"

definition sold_gateway :: gateway where
  "sold_gateway = sample_gateway\<lparr>GwLimiter := [(''ip'', \<lparr>RsStarted = sample_now, RsCount = 1\<rparr>)],
     GwDb := \<lparr>gdInvoices = [sample_row], gdJobs = [], gdHandoffs = [sample_handoff]\<rparr>\<rparr>"

lemmas sample_times = sample_now_def Second_def Minute_def TruncateSecond_def Unix_def

lemma sell:
  "handleCreateInvoice sample_crypto sample_entpay sample_now ''ip'' (Inr (replicate 16 1)) (Inr (replicate 32 2))
     (Inr sample_bytes) sample_gateway (Inr (''report'', ''{}'')) =
   (sold_gateway, JSONReply 201 (HcCreated sample_capsule\<lparr>CirLaunch :=
      Some \<lparr>LnURL = buildLaunchURL sample_entpay ''shop'', LnHandoff = sample_code, LnExpiresAt = sample_now + 2 * Minute\<rparr>\<rparr>))"
  by (simp add: handleCreateInvoice_def sample_gateway_def newRateLimiter_def Allow_def Let_def sample_trimmed
    sample_input sample_product_def Create_def sample_descriptor_def MaxInt64_def sql_require_def sql_insert_def empty_gateway_db_def
    newOpaqueToken_def CreateHandoff_def sold_gateway_def sample_row_def sample_handoff_def sample_capsule_def signInvoice_def
    sample_iid_def sample_token_def sample_code_def sample_times)

lemma TrimSpace_RawURLEncode: "TrimSpace (RawURLEncode bs) = RawURLEncode bs"
proof (rule TrimSpace_id)
  have b: "(of_char c :: nat) \<in> {33..<128}" if "c \<in> set (RawURLEncode bs)" for c
  proof -
    have bytes: "\<forall>n \<in> set (map unat bs). n < 256" by (auto intro: unat_byte)
    have "c \<in> b64_char ` set (b64_encode_nats (map unat bs))" using that unfolding RawURLEncode_def set_map .
    then obtain n where "n \<in> set (b64_encode_nats (map unat bs))" "c = b64_char n" by blast
    then have "n < 64" "c = b64_char n" using b64_encode_bound [OF bytes] by auto
    then show ?thesis by (auto simp: b64_char_def of_char_of)
  qed
  show "RawURLEncode bs = [] \<or> (of_char (hd (RawURLEncode bs)) :: nat) \<in> {33..<128} \<and>
      (of_char (last (RawURLEncode bs)) :: nat) \<in> {33..<128}"
    by (cases "RawURLEncode bs = []") (simp_all only: b hd_in_set last_in_set simp_thms)
qed

lemma sample_bearer_token: "bearerToken sample_bearer = sample_token" "sample_token \<noteq> []"
proof -
  have "length sample_token = 43" by (simp add: sample_token_def)
  then show "sample_token \<noteq> []" by auto
  show "bearerToken sample_bearer = sample_token"
    by (simp add: bearerToken_def sample_bearer_def starts_with_def) (simp add: sample_token_def TrimSpace_RawURLEncode)
qed

definition paid_row :: invoice_row where
  "paid_row = sample_row\<lparr>IvStatus := InvSubmitted, IvTxId := Some (ID merchant_payment)\<rparr>"

definition paid_gateway :: gateway where
  "paid_gateway = sample_gateway\<lparr>GwLimiter := [(''ip'', \<lparr>RsStarted = sample_now, RsCount = 2\<rparr>)],
     GwDb := \<lparr>gdInvoices = [paid_row], gdJobs = [], gdHandoffs = [sample_handoff]\<rparr>\<rparr>"

lemma merchant_payment_sel: "ComputeID sample_crypto merchant_payment \<noteq> []" "Coinbase merchant_payment = False"
  "Outputs merchant_payment = [\<lparr>Amount = 10, Address = merchant_address\<rparr>, \<lparr>Amount = 48990, Address = sample_address\<rparr>]"
  by (rule ComputeID_not_Nil [OF digest32_sample]) (simp_all add: merchant_payment_def Let_def)

lemma merchant_payment_pays: "countMatching sample_crypto merchant_address 10 merchant_payment = 1"
  by (simp add: countMatching_def merchant_payment_sel AddressesEqual_refl)

lemma sample_observed: "ObservePayment sample_crypto sample_history merchant_address (ID merchant_payment) 10 = Inr (True, 2)"
  by (simp add: ObservePayment_def sample_history_def merchant_payment_pays)

lemma sample_authorized:
  assumes "IvTokenHash r = sample_digest (string_bytes sample_token)" "gdInvoices (GwDb g) = [r]" "IvId r = sample_iid"
  shows "\<exists>record0. Authorized sample_crypto (GwDb g) sample_iid sample_token = Inr record0 \<and>
    authorizedInvoice sample_crypto E g sample_bearer sample_iid =
     Inr (record0\<lparr>RecInvoice := signInvoice E (GwSigningKey g) (RecInvoice record0)\<rparr>)"
  by (simp add: authorizedInvoice_def sample_bearer_token Authorized_def assms)

lemma pay:
  "\<exists>status. handleSubmitPayment sample_crypto sample_entpay sample_now ''ip'' (Inr 202) sample_history sold_gateway sample_bearer
     sample_iid (Inr merchant_payment) = (paid_gateway, JSONReply 202 status)"
  by (simp add: handleSubmitPayment_def sold_gateway_def sample_gateway_def Allow_def Let_def paid_gateway_def paid_row_def
    authorizedInvoice_def Authorized_def sample_row_def sample_bearer_token signInvoice_def validatePayment_def
    merchant_payment_pays merchant_payment_id merchant_payment_sel AcceptTransaction_def Submit_def sql_update_def sample_times zeroTime_def)

definition sample_record :: invoiceRecord where
  "sample_record = \<lparr>RecInvoice = CirInvoice (HcCreated sample_capsule), RecInput = ''{}'', RecStatus = InvSubmitted,
     RecTxID = ID merchant_payment, RecDelivery = None\<rparr>"

definition job_gateway :: "rateLimiter \<Rightarrow> job_row list \<Rightarrow> gateway" where
  "job_gateway limiter jobs = sample_gateway\<lparr>GwLimiter := limiter,
     GwDb := \<lparr>gdInvoices = [paid_row], gdJobs = jobs, gdHandoffs = [sample_handoff]\<rparr>\<rparr>"

definition sample_job :: "int \<Rightarrow> int \<Rightarrow> job_row" where
  "sample_job n t = \<lparr>JbInvoiceId = sample_iid, JbStatus = JobProcessing, JbAttempts = n, JbUpdatedAt = t, JbLastError = []\<rparr>"

lemma paid_gateway_job: "paid_gateway = job_gateway [(''ip'', \<lparr>RsStarted = sample_now, RsCount = 2\<rparr>)] []"
  by (simp add: paid_gateway_def job_gateway_def)

lemma job_authorized:
  "authorizedInvoice sample_crypto sample_entpay (job_gateway limiter jobs) sample_bearer sample_iid = Inr sample_record"
  by (simp add: authorizedInvoice_def Authorized_def sample_bearer_token job_gateway_def paid_row_def sample_row_def sample_record_def
      sample_gateway_def sample_capsule_def signInvoice_def sample_times)

lemma job_claimed:
  assumes "jobs = [] \<and> m = 1 \<or> jobs = [sample_job (m - 1) t] \<and> m \<le> 3 \<and> t \<le> Unix (now - 4 * Minute)"
  shows "\<exists>status. handleClaim sample_crypto sample_entpay now sample_history (job_gateway limiter jobs) sample_bearer sample_iid =
     (job_gateway limiter [sample_job m (Unix now)], JSONReply 202 (Inr status), Some sample_record)"
proof -
  have "AcquireJob (GwDb (job_gateway limiter jobs)) sample_iid now (GwFulfillmentTimeout (job_gateway limiter jobs) + Minute) (5 * Second) 3 =
      Inr (GwDb (job_gateway limiter [sample_job m (Unix now)]),
        \<lparr>DjStatus = JobProcessing, DjAttempts = m, DjUpdatedAt = Unix now * Second\<rparr>, True)"
    using assms by (auto simp: AcquireJob_def queueJob_def job_gateway_def paid_row_def sample_row_def sample_job_def sql_update_def
        acquirable_def sample_gateway_def)
  moreover have "RecStatus sample_record = InvSubmitted" "RecTxID sample_record = ID merchant_payment"
      "InvMerchant (RecInvoice sample_record) = merchant_address" "InvAmount (RecInvoice sample_record) = 10"
      "InvConfirmations (RecInvoice sample_record) = 2" "InvID (RecInvoice sample_record) = sample_iid"
    by (simp_all add: sample_record_def sample_capsule_def signInvoice_def)
  moreover have "(job_gateway limiter jobs)\<lparr>GwDb := GwDb (job_gateway limiter js)\<rparr> = job_gateway limiter js" for js
    by (simp add: job_gateway_def)
  ultimately show ?thesis
    using merchant_payment_sel(1) [folded merchant_payment_id]
    by (simp add: handleClaim_def job_authorized sample_observed)
qed

lemma NewGateway_stored:
  assumes "NewGateway C E merchant key endpoint lifetime timeout given db1 staging1 artifacts1 = Inr g"
  shows "NewGateway C E merchant key endpoint lifetime timeout given db2 staging2 artifacts2 =
    Inr (g\<lparr>GwDb := db2, GwStaging := staging2, GwArtifacts := artifacts2\<rparr>)"
  using assms by (auto simp: NewGateway_def attempt_def Let_def split: if_splits prod.splits sum.splits)

lemma job_restarted:
  "NewGateway sample_crypto sample_entpay (GwMerchant (job_gateway limiter jobs)) (GwSigningKey (job_gateway limiter jobs)) ''shop'' 0 0
     [Some sample_product] (GwDb (job_gateway limiter jobs)) (GwStaging (job_gateway limiter jobs)) (GwArtifacts (job_gateway limiter jobs)) =
   Inr (job_gateway newRateLimiter jobs)"
  using NewGateway_stored [OF NewGateway_sample] by (simp add: job_gateway_def sample_gateway_def)

section \<open>Reachable worlds\<close>

definition sample_world :: "gateway \<Rightarrow> gateway_world" where
  "sample_world g = \<lparr>WGate = g, WWorkers = [], WStarts = []\<rparr>"

lemma sample_world_sel [simp]:
  "WGate (sample_world g) = g" "WWorkers (sample_world g) = []" "WStarts (sample_world g) = []"
  "sample_world g\<lparr>WGate := g'\<rparr> = sample_world g'"
  by (simp_all add: sample_world_def)

lemma sold_reachable: "gateway_reachable sample_crypto sample_entpay (sample_world sold_gateway)"
proof -
  have "gateway_reachable sample_crypto sample_entpay (sample_world sample_gateway)"
    unfolding sample_world_def by (rule gateway_reachable.init [OF NewGateway_sample])
  moreover have "gateway_step sample_crypto sample_entpay (sample_world sample_gateway) (sample_world sold_gateway)"
    using gateway_step.create [of sample_crypto sample_entpay _ _ _ _ _ "sample_world sample_gateway", simplified, OF sell] .
  ultimately show ?thesis by (rule gateway_reachable.step)
qed

lemma paid_step: "gateway_step sample_crypto sample_entpay (sample_world sold_gateway) (sample_world paid_gateway)"
  using pay gateway_step.submit [of sample_crypto sample_entpay _ _ _ _ "sample_world sold_gateway", simplified] by blast

lemma paid_reachable: "gateway_reachable sample_crypto sample_entpay (sample_world paid_gateway)"
  by (rule gateway_reachable.step [OF sold_reachable paid_step])

definition crashed_world :: "nat \<Rightarrow> job_row list \<Rightarrow> gateway_world" where
  "crashed_world n jobs = \<lparr>WGate = job_gateway newRateLimiter jobs, WWorkers = [], WStarts = replicate n sample_iid\<rparr>"

text \<open>A worker is started and the process stops before it ends.\<close>

lemma crash_reachable:
  assumes "gateway_reachable sample_crypto sample_entpay
      \<lparr>WGate = job_gateway limiter jobs, WWorkers = [], WStarts = replicate n sample_iid\<rparr>"
    and "jobs = [] \<and> m = 1 \<or> jobs = [sample_job (m - 1) t] \<and> m \<le> 3 \<and> t \<le> Unix (now - 4 * Minute)"
  shows "gateway_reachable sample_crypto sample_entpay (crashed_world (Suc n) [sample_job m (Unix now)])"
proof -
  obtain status where c: "handleClaim sample_crypto sample_entpay now sample_history (job_gateway limiter jobs) sample_bearer sample_iid =
     (job_gateway limiter [sample_job m (Unix now)], JSONReply 202 (Inr status), Some sample_record)"
    using job_claimed [OF assms(2)] by blast
  let ?w = "\<lparr>WGate = job_gateway limiter [sample_job m (Unix now)], WWorkers = [(sample_record, None)], WStarts = replicate (Suc n) sample_iid\<rparr>"
  have "gateway_reachable sample_crypto sample_entpay ?w"
    using gateway_reachable.step [OF assms(1)] gateway_step.start [of sample_crypto sample_entpay _ _
        "\<lparr>WGate = job_gateway limiter jobs, WWorkers = [], WStarts = replicate n sample_iid\<rparr>", simplified, OF c]
    by (simp add: sample_record_def sample_capsule_def signInvoice_def)
  moreover have "gateway_step sample_crypto sample_entpay ?w (crashed_world (Suc n) [sample_job m (Unix now)])"
    using gateway_step.restart [of sample_crypto sample_entpay ?w, simplified, OF job_restarted] by (simp add: crashed_world_def)
  ultimately show ?thesis by (rule gateway_reachable.step)
qed

lemma crashed_reachable:
  "gateway_reachable sample_crypto sample_entpay (crashed_world 3 [sample_job 3 1600])"
proof -
  have "gateway_reachable sample_crypto sample_entpay (crashed_world (Suc 0) [sample_job 1 (Unix sample_now)])"
    using paid_reachable by (intro crash_reachable) (auto simp: sample_world_def paid_gateway_job)
  then have "gateway_reachable sample_crypto sample_entpay (crashed_world (Suc (Suc 0)) [sample_job 2 (Unix (sample_now + 300 * Second))])"
    unfolding crashed_world_def [of "Suc 0"]
    by (rule crash_reachable [where t = 1000]) (simp add: sample_times)
  then have "gateway_reachable sample_crypto sample_entpay (crashed_world (Suc (Suc (Suc 0))) [sample_job 3 (Unix (sample_now + 600 * Second))])"
    unfolding crashed_world_def [of "Suc (Suc 0)"]
    by (rule crash_reachable [where t = 1300]) (simp add: sample_times)
  then show ?thesis by (simp add: sample_times numeral_3_eq_3)
qed

end
