(* ===== verification/Gateway_Props.thy ===== *)
theory Gateway_Props
  imports Gateway_Sample
begin

text \<open>
  What the merchant's gateway guarantees in every reachable state, whatever requests arrive, whatever the
  node and the products answer, and across restarts: a transaction pays one invoice, an invoice only
  advances, a fulfillment is started at most three times, a handoff is bound to one client.
\<close>

section \<open>Invoices\<close>

text \<open>
  C12. A transaction pays at most one invoice: of all the invoices the gateway has ever issued, no two
  have the same transaction, and an open one has none.
\<close>

theorem transaction_pays_one_invoice:
  assumes "gateway_reachable C E w" "r \<in> set (gdInvoices (GwDb (WGate w)))" "s \<in> set (gdInvoices (GwDb (WGate w)))"
    and "IvTxId r = Some t" "IvTxId s = Some t"
  shows "r = s \<and> IvStatus r \<noteq> InvOpen \<and> t \<noteq> []"
proof -
  note o = gateway_db_okD [OF reachable_db_ok [OF assms(1)]]
  show ?thesis using o(3) [OF assms(2-5)] o(2) [OF assms(2)] assms(4) by (auto simp: invoice_ok_def)
qed

theorem transaction_pays_one_invoice_witness:
  "paid_row = paid_row \<and> IvStatus paid_row \<noteq> InvOpen \<and> ID merchant_payment \<noteq> []"
  by (rule transaction_pays_one_invoice [OF paid_reachable]) (simp_all add: paid_gateway_def, simp_all add: paid_row_def)

text \<open>
  C27. An invoice is never lost and never rewritten. Whatever happens after a state the gateway can reach,
  the invoice is still there with the terms it was issued with, at the same stage or a later one; once
  a transaction pays it that transaction stays, and once it is delivered its delivery and the time of it stay.
\<close>

theorem invoice_only_advances:
  assumes "gateway_reachable C E w" "gateway_run C E w w'" "r \<in> set (gdInvoices (GwDb (WGate w)))"
  shows "\<exists>r' \<in> set (gdInvoices (GwDb (WGate w'))). invoice_terms r' = invoice_terms r \<and>
    status_rank (IvStatus r) \<le> status_rank (IvStatus r') \<and> (\<forall>t. IvTxId r = Some t \<longrightarrow> IvTxId r' = Some t) \<and>
    (\<forall>x. IvDelivery r = Some x \<longrightarrow> IvDelivery r' = Some x \<and> IvDeliveredAt r' = IvDeliveredAt r)"
  using db_run_le [OF run_db [OF assms(2)] reachable_db_ok [OF assms(1)]] assms(3)
  unfolding db_le_def invoice_le_def by blast

lemma paid_run: "gateway_run sample_crypto sample_entpay (sample_world sold_gateway) (sample_world paid_gateway)"
  by (rule gateway_run.step [OF gateway_run.refl paid_step])

theorem invoice_only_advances_witness:
  "\<exists>r' \<in> set (gdInvoices (GwDb paid_gateway)). invoice_terms r' = invoice_terms sample_row \<and>
    status_rank InvOpen \<le> status_rank (IvStatus r')"
proof -
  have "IvStatus sample_row = InvOpen" by (simp add: sample_row_def)
  then show ?thesis using invoice_only_advances [OF sold_reachable paid_run, of sample_row] by (auto simp: sold_gateway_def)
qed

section \<open>Fulfillment\<close>

definition attempts :: "gateway_db \<Rightarrow> string \<Rightarrow> int" where
  "attempts d i = (case find (\<lambda>j. JbInvoiceId j = i) (gdJobs d) of None \<Rightarrow> 0 | Some j \<Rightarrow> JbAttempts j)"

lemma find_SomeD: "find P xs = Some x \<Longrightarrow> x \<in> set xs \<and> P x"
  by (induction xs) (auto split: if_splits)

lemma find_Some_append: "find P xs = Some x \<Longrightarrow> find P (xs @ ys) = Some x"
  by (induction xs) (auto split: if_splits)

lemma attempts_range:
  assumes "gateway_db_ok d"
  shows "0 \<le> attempts d i \<and> attempts d i \<le> 3"
  using gateway_db_okD(5) [OF assms] unfolding attempts_def job_ok_def by (auto split: option.splits simp: find_Some_iff)

lemma attempts_row: "gateway_db_ok d \<Longrightarrow> j \<in> set (gdJobs d) \<Longrightarrow> attempts d (JbInvoiceId j) = JbAttempts j"
  using find_key [OF gateway_db_okD(4)] by (simp add: attempts_def)

lemma attempts_mono:
  assumes "db_run C d d'" "gateway_db_ok d"
  shows "attempts d i \<le> attempts d' i"
proof (cases "find (\<lambda>j. JbInvoiceId j = i) (gdJobs d)")
  case None
  then show ?thesis using attempts_range [OF db_run_ok [OF assms], of i] by (simp add: attempts_def)
next
  case (Some j)
  then have j: "j \<in> set (gdJobs d)" "JbInvoiceId j = i" by (auto simp: find_Some_iff)
  then obtain j' where "j' \<in> set (gdJobs d')" "job_le j j'" using db_run_le [OF assms] unfolding db_le_def by blast
  then show ?thesis
    using attempts_row [OF assms(2) j(1)] attempts_row [OF db_run_ok [OF assms], of j'] j(2) by (auto simp: job_le_def)
qed

lemma acquired_attempts:
  assumes "AcquireJob d i now stale retry m = Inr (d', job, True)" "gateway_db_ok d" "gateway_db_ok d'"
  shows "attempts d i < attempts d' i"
proof -
  let ?d = "d\<lparr>gdJobs := queueJob now i d\<rparr>"
  let ?P = "\<lambda>j. JbInvoiceId j = i \<and> acquirable now stale retry m j"
  let ?f = "\<lambda>j. j\<lparr>JbStatus := JobProcessing, JbAttempts := JbAttempts j + 1, JbUpdatedAt := Unix now, JbLastError := []\<rparr>"
  have d': "gdJobs d' = map (\<lambda>j. if ?P j then ?f j else j) (gdJobs ?d)"
    using AcquireJob_steps [OF assms(1)] by simp
  have "length (filter ?P (gdJobs ?d)) = 1"
    using assms(1) by (simp add: AcquireJob_def sql_update_def split: option.splits)
  then obtain j where j: "j \<in> set (gdJobs ?d)" "?P j" by (rule filter_one_obtain)
  have "?f j \<in> set (gdJobs d')"
    unfolding d' set_map using imageI [OF j(1), of "\<lambda>j. if ?P j then ?f j else j"] by (simp only: if_P [OF j(2)])
  from attempts_row [OF assms(3) this] have "attempts d' i = JbAttempts j + 1" using j(2) by simp
  moreover have "attempts ?d i = JbAttempts j" using attempts_row [OF queue_ok [OF assms(2)] j(1)] j(2) by simp
  moreover have "attempts d i \<le> attempts ?d i"
    using attempts_range [OF queue_ok [OF assms(2)], of now i i] find_Some_append [of _ "gdJobs d"]
    by (auto simp: attempts_def queueJob_def split: option.splits if_splits)
  ultimately show ?thesis by simp
qed

lemma started_attempts:
  assumes "handleClaim C E now history g authorization i = (g', reply, Some r)" "gateway_db_ok (GwDb g)"
  shows "attempts (GwDb g) (InvID (RecInvoice r)) < attempts (GwDb g') (InvID (RecInvoice r))"
proof -
  obtain job where "AcquireJob (GwDb g) (InvID (RecInvoice r)) now (GwFulfillmentTimeout g + Minute) (5 * Second) 3 = Inr (GwDb g', job, True)"
    using assms(1) by (auto simp: handleClaim_def Let_def split: sum.splits prod.splits if_splits option.splits)
  then show ?thesis by (rule acquired_attempts [OF _ assms(2) db_run_ok [OF claim_db [OF assms(1)] assms(2)]])
qed

lemma starts_bounded:
  "gateway_reachable C E w \<Longrightarrow> int (count_list (WStarts w) i) \<le> attempts (GwDb (WGate w)) i"
proof (induction rule: gateway_reachable.induct)
  case (init merchant key endpoint lifetime timeout given g)
  then show ?case using new_gateway_sel(1) [OF init] by (simp add: attempts_def empty_gateway_db_def)
next
  case (step w w')
  note ok = reachable_db_ok [OF step.hyps(1)] and mono = attempts_mono [OF step_db [OF step.hyps(2)] reachable_db_ok [OF step.hyps(1)], of i]
  from step.hyps(2) step.IH ok mono show ?case
  proof (induction rule: gateway_step.induct)
    case (start now history w authorization i' g claimed r)
    then show ?case using started_attempts [OF start(1) start(3)] by auto
  qed simp_all
qed

text \<open>
  C28. The product's work for an invoice is started at most three times, over any number of claims,
  failures and restarts of the process, and only for an invoice whose payment was submitted.
\<close>

theorem fulfillment_started_three_times:
  assumes "gateway_reachable C E w"
  shows "count_list (WStarts w) i \<le> 3 \<and> (i \<in> set (WStarts w) \<longrightarrow>
    (\<exists>r \<in> set (gdInvoices (GwDb (WGate w))). IvId r = i \<and> IvTxId r \<noteq> None))"
proof (intro conjI impI)
  note ok = reachable_db_ok [OF assms]
  show "count_list (WStarts w) i \<le> 3" using starts_bounded [OF assms, of i] attempts_range [OF ok, of i] by simp
  assume "i \<in> set (WStarts w)"
  then have "count_list (WStarts w) i \<noteq> 0" by (simp add: count_list_0_iff)
  then have "0 < attempts (GwDb (WGate w)) i" using starts_bounded [OF assms, of i] by simp
  then obtain j where "j \<in> set (gdJobs (GwDb (WGate w)))" "JbInvoiceId j = i"
    using find_SomeD by (fastforce simp: attempts_def split: option.splits)
  then show "\<exists>r \<in> set (gdInvoices (GwDb (WGate w))). IvId r = i \<and> IvTxId r \<noteq> None"
    using gateway_db_okD(2,5) [OF ok] unfolding job_ok_def invoice_ok_def by blast
qed

theorem fulfillment_started_three_times_witness:
  "count_list (replicate 3 sample_iid) sample_iid \<le> 3 \<and> (\<exists>r \<in> {paid_row}. IvId r = sample_iid \<and> IvTxId r \<noteq> None)"
  using fulfillment_started_three_times [OF crashed_reachable, of sample_iid] by (simp add: crashed_world_def job_gateway_def)

section \<open>Handoffs\<close>

lemma redeemed_row:
  assumes "handleRedeemHandoff C now clientIP g (Inr (code, nonce)) = (g', JSONReply 200 capsule)" "gateway_db_ok (GwDb g)"
  shows "\<exists>h \<in> set (gdHandoffs (GwDb g')). HfCodeHash h = opaqueTokenDigest C code \<and> HfNonceHash h = Some (opaqueTokenDigest C nonce) \<and>
    HfRedeemedAt h \<noteq> None \<and> snd (HfCapsule h) = capsule \<and> Unix now \<le> HfExpiresAt h"
proof -
  obtain i where r: "RedeemHandoff C (GwDb g) code nonce now = (GwDb g', Inr (capsule, i))"
    using assms(1) by (auto simp: handleRedeemHandoff_def Let_def split: prod.splits if_splits sum.splits)
  then obtain h where h: "find (\<lambda>h. HfCodeHash h = opaqueTokenDigest C code) (gdHandoffs (GwDb g)) = Some h"
    by (auto simp: RedeemHandoff_def Let_def split: option.splits)
  then have mem: "h \<in> set (gdHandoffs (GwDb g))" "HfCodeHash h = opaqueTokenDigest C code" by (auto simp: find_Some_iff)
  show ?thesis
  proof (cases "HfRedeemedAt h")
    case None
    let ?f = "\<lambda>r. r\<lparr>HfNonceHash := Some (opaqueTokenDigest C nonce), HfRedeemedAt := Some (Unix now)\<rparr>"
    let ?P = "\<lambda>r. HfCodeHash r = opaqueTokenDigest C code \<and> HfRedeemedAt r = None"
    have "GwDb g' = GwDb g\<lparr>gdHandoffs := map (\<lambda>r. if ?P r then ?f r else r) (gdHandoffs (GwDb g))\<rparr>" "snd (HfCapsule h) = capsule"
        "Unix now \<le> HfExpiresAt h"
      using r h None by (auto simp: RedeemHandoff_def Let_def fst_sql_update attempt_eq_Inr openHandoffCapsule_def split: if_splits)
    then have g': "gdHandoffs (GwDb g') = map (\<lambda>r. if ?P r then ?f r else r) (gdHandoffs (GwDb g))" "snd (HfCapsule h) = capsule"
        "Unix now \<le> HfExpiresAt h" by simp_all
    have "?P h" using mem(2) None by simp
    then have "?f h \<in> set (gdHandoffs (GwDb g'))"
      unfolding g' set_map using imageI [OF mem(1), of "\<lambda>r. if ?P r then ?f r else r"] by (simp only: if_P)
    then show ?thesis using g'(2,3) mem(2) by (intro bexI [of _ "?f h"]) simp_all
  next
    case (Some at)
    then have "GwDb g' = GwDb g" "HfNonceHash h = Some (opaqueTokenDigest C nonce)" "snd (HfCapsule h) = capsule" "Unix now \<le> HfExpiresAt h"
      using r h by (auto simp: RedeemHandoff_def Let_def attempt_eq_Inr openHandoffCapsule_def split: if_splits)
    then show ?thesis using mem Some by auto
  qed
qed

text \<open>
  C29. A handoff is bound to the client that redeems it first: whoever redeems the same code later gets
  the same capsule, holds a nonce of the same digest, and does so before it expires.
\<close>

theorem handoff_bound_to_first_client:
  assumes "gateway_reachable C E w"
    and "handleRedeemHandoff C now clientIP (WGate w) (Inr (code, nonce)) = (g, JSONReply 200 capsule)"
    and "gateway_run C E (w\<lparr>WGate := g\<rparr>) w'"
    and "handleRedeemHandoff C now' clientIP' (WGate w') (Inr (code, nonce')) = (g', JSONReply 200 capsule')"
  shows "opaqueTokenDigest C nonce' = opaqueTokenDigest C nonce \<and> capsule' = capsule"
proof -
  have w1: "gateway_reachable C E (w\<lparr>WGate := g\<rparr>)"
    by (rule gateway_reachable.step [OF assms(1) gateway_step.redeem [OF assms(2)]])
  have w': "gateway_reachable C E w'" by (rule reachable_run [OF assms(3) w1])
  have w2: "gateway_reachable C E (w'\<lparr>WGate := g'\<rparr>)"
    by (rule gateway_reachable.step [OF w' gateway_step.redeem [OF assms(4)]])
  obtain h where h: "h \<in> set (gdHandoffs (GwDb g))" "HfCodeHash h = opaqueTokenDigest C code"
    "HfNonceHash h = Some (opaqueTokenDigest C nonce)" "HfRedeemedAt h \<noteq> None" "snd (HfCapsule h) = capsule"
    using redeemed_row [OF assms(2) reachable_db_ok [OF assms(1)]] by blast
  obtain h' where h': "h' \<in> set (gdHandoffs (GwDb g'))" "HfCodeHash h' = opaqueTokenDigest C code"
    "HfNonceHash h' = Some (opaqueTokenDigest C nonce')" "snd (HfCapsule h') = capsule'"
    using redeemed_row [OF assms(4) reachable_db_ok [OF w']] by blast
  have "db_run C (GwDb g) (GwDb g')"
    using db_run_trans [OF redeem_db [OF assms(4)] run_db [OF assms(3)]] by simp
  from db_run_le [OF this] have "db_le (GwDb g) (GwDb g')" using reachable_db_ok [OF w1] by simp
  then have "h \<in> set (gdHandoffs (GwDb g'))" using h(1,4) unfolding db_le_def handoff_le_def by metis
  then have "h = h'" using one_key [OF gateway_db_okD(7) [OF reachable_db_ok [OF w2]]] h(2) h'(1,2) by simp
  then show ?thesis using h(3,5) h'(3,4) by simp
qed

lemma redeem_sample:
  "\<exists>g. handleRedeemHandoff sample_crypto sample_now ''ip2'' sold_gateway (Inr (sample_code, sample_code)) = (g, JSONReply 200 sample_capsule) \<and>
     (\<exists>g'. handleRedeemHandoff sample_crypto sample_now ''ip2'' g (Inr (sample_code, sample_code)) = (g', JSONReply 200 sample_capsule))"
proof -
  have "validateOpaqueToken sample_code = Inr ()"
    by (simp add: validateOpaqueToken_def sample_code_def length_sample_bytes handoffTokenBytes_def)
  then show ?thesis
    by (simp add: handleRedeemHandoff_def Let_def sold_gateway_def sample_gateway_def Allow_def RedeemHandoff_def sample_handoff_def
        sql_update_def openHandoffCapsule_def sample_times zeroTime_def)
qed

theorem handoff_bound_to_first_client_witness:
  "opaqueTokenDigest sample_crypto sample_code = opaqueTokenDigest sample_crypto sample_code \<and> sample_capsule = sample_capsule"
proof -
  obtain g g' where "handleRedeemHandoff sample_crypto sample_now ''ip2'' (WGate (sample_world sold_gateway)) (Inr (sample_code, sample_code)) = (g, JSONReply 200 sample_capsule)"
    "handleRedeemHandoff sample_crypto sample_now ''ip2'' (WGate (sample_world g)) (Inr (sample_code, sample_code)) = (g', JSONReply 200 sample_capsule)"
    using redeem_sample by auto
  from handoff_bound_to_first_client [OF sold_reachable this(1) _ this(2)] show ?thesis by (simp add: gateway_run.refl)
qed

section \<open>A job no worker finishes\<close>

lemma other_row: "x \<in> set rows \<Longrightarrow> \<not> P x \<Longrightarrow> x \<in> set (map (\<lambda>r. if P r then f r else r) rows)"
  by (metis (mono_tags, lifting) image_eqI image_set)

lemma create_jobs:
  "handleCreateInvoice C E now clientIP ids tokens codes g request = (g', reply) \<Longrightarrow> gdJobs (GwDb g') = gdJobs (GwDb g)"
  by (auto simp: handleCreateInvoice_def Let_def attempt_eq_Inr Create_def CreateHandoff_def
      split: prod.splits if_splits sum.splits option.splits)

lemma redeem_jobs:
  "handleRedeemHandoff C now clientIP g request = (g', reply) \<Longrightarrow> gdJobs (GwDb g') = gdJobs (GwDb g)"
  by (auto simp: handleRedeemHandoff_def RedeemHandoff_def Let_def split: prod.splits if_splits sum.splits option.splits)

lemma Submit_jobs: "Submit d i t = Inr d' \<Longrightarrow> gdJobs d' = gdJobs d"
  using Submit_steps by fastforce

lemma submit_jobs:
  "handleSubmitPayment C E now clientIP accepted history g authorization i request = (g', reply) \<Longrightarrow> gdJobs (GwDb g') = gdJobs (GwDb g)"
  by (auto simp: handleSubmitPayment_def Let_def dest: Submit_jobs split: prod.splits if_splits sum.splits)

lemma AcquireJob_keeps:
  assumes "AcquireJob d i now stale retry m = Inr (d', job, acquired)" "j \<in> set (gdJobs d)" "m \<le> JbAttempts j"
  shows "j \<in> set (gdJobs d')"
proof -
  have "j \<in> set (queueJob now i d)" using assms(2) by (simp add: queueJob_def)
  then show ?thesis using AcquireJob_steps [OF assms(1)] assms(3) by (simp add: other_row acquirable_def)
qed

lemma claim_keeps:
  assumes "handleClaim C E now history g authorization i = (g', reply, started)" "j \<in> set (gdJobs (GwDb g))" "3 \<le> JbAttempts j"
  shows "j \<in> set (gdJobs (GwDb g'))"
  using assms by (auto simp: handleClaim_def Let_def dest: AcquireJob_keeps split: sum.splits prod.splits if_splits option.splits)

lemma failure_keeps:
  "j \<in> set (gdJobs (GwDb g)) \<Longrightarrow> InvID (RecInvoice r) \<noteq> JbInvoiceId j \<Longrightarrow> j \<in> set (gdJobs (GwDb (recordFailure now message g r e)))"
  by (auto simp: recordFailure_def FailJob_def sql_update_def Let_def other_row split: sum.splits if_splits)

lemma deliver_keeps:
  "deliverFulfillment C E now g r staged = (g', answer) \<Longrightarrow> j \<in> set (gdJobs (GwDb g)) \<Longrightarrow> InvID (RecInvoice r) \<noteq> JbInvoiceId j \<Longrightarrow>
     j \<in> set (gdJobs (GwDb g'))"
  by (auto simp: deliverFulfillment_def DeliverJob_def RemoveStage_def sql_update_def Let_def other_row split: sum.splits if_splits)

text \<open>The third attempt is under way in the table, and no worker is left to end it.\<close>

definition abandoned :: "gateway_world \<Rightarrow> job_row \<Rightarrow> bool" where
  "abandoned w j \<longleftrightarrow> j \<in> set (gdJobs (GwDb (WGate w))) \<and> JbStatus j = JobProcessing \<and> JbAttempts j = 3 \<and>
     (\<forall>x \<in> set (WWorkers w). InvID (RecInvoice (fst x)) \<noteq> JbInvoiceId j)"

lemma set_remove_nth: "set (remove_nth k xs) \<subseteq> set xs"
  unfolding remove_nth_def using set_take_subset set_drop_subset by fastforce

lemma started_not_abandoned:
  assumes "handleClaim C E now history g authorization i = (g', reply, Some r)" "gateway_db_ok (GwDb g)"
    and "j \<in> set (gdJobs (GwDb g))" "JbAttempts j = 3"
  shows "InvID (RecInvoice r) \<noteq> JbInvoiceId j"
  using started_attempts [OF assms(1,2)] attempts_row [OF assms(2,3)] assms(4)
    attempts_range [OF db_run_ok [OF claim_db [OF assms(1)] assms(2)], of "JbInvoiceId j"] by auto

lemma abandoned_step:
  "gateway_step C E w w' \<Longrightarrow> gateway_db_ok (GwDb (WGate w)) \<Longrightarrow> abandoned w j \<Longrightarrow> abandoned w' j"
proof (induction rule: gateway_step.induct)
  case (start now history w authorization i g claimed r)
  then show ?case
    using claim_keeps [OF start(1)] started_not_abandoned [OF start(1,2)] by (auto simp: abandoned_def)
next
  case (stage k w r produced wrote wroteStage g staged)
  then have "(r, None) \<in> set (WWorkers w)" by (metis nth_mem)
  then show ?case
    using stage stage_db [OF stage(3)] set_update_subset_insert [of "WWorkers w" k "(r, Some staged)"]
    by (force simp: abandoned_def)
next
  case (unstaged k w r produced wrote wroteStage g e now message)
  then have "(r, None) \<in> set (WWorkers w)" by (metis nth_mem)
  then show ?case
    using unstaged stage_db [OF unstaged(3)] set_remove_nth [of k "WWorkers w"] by (force simp: abandoned_def intro!: failure_keeps)
next
  case (deliver k w r staged now g)
  then have "(r, Some staged) \<in> set (WWorkers w)" by (metis nth_mem)
  then show ?case
    using deliver deliver_keeps [OF deliver(3)] set_remove_nth [of k "WWorkers w"] by (force simp: abandoned_def)
next
  case (undelivered k w r staged now g e now' message)
  then have "(r, Some staged) \<in> set (WWorkers w)" by (metis nth_mem)
  then show ?case
    using undelivered deliver_keeps [OF undelivered(3)] set_remove_nth [of k "WWorkers w"]
    by (force simp: abandoned_def intro!: failure_keeps)
qed (auto simp: abandoned_def create_jobs redeem_jobs submit_jobs new_gateway_sel claim_keeps)

lemma abandoned_run:
  "gateway_run C E w w' \<Longrightarrow> gateway_reachable C E w \<Longrightarrow> abandoned w j \<Longrightarrow> abandoned w' j"
proof (induction rule: gateway_run.induct)
  case (step w w' w'')
  then show ?case using abandoned_step [OF step.hyps(2) reachable_db_ok [OF reachable_run [OF step.hyps(1)]]] by blast
qed

lemma abandoned_invoice:
  assumes "abandoned w j" "gateway_db_ok (GwDb (WGate w))" "authorizedInvoice C E (WGate w) authorization (JbInvoiceId j) = Inr r"
  shows "RecStatus r = InvSubmitted \<and> InvID (RecInvoice r) = JbInvoiceId j"
proof -
  note o = gateway_db_okD [OF assms(2)]
  obtain row where row: "row \<in> set (gdInvoices (GwDb (WGate w)))" "IvId row = JbInvoiceId j" "IvStatus row = InvSubmitted"
    using o(5) [of j] assms(1) invoice_status.exhaust unfolding abandoned_def job_ok_def by (metis job_status.distinct(13))
  have "find (\<lambda>r. IvId r = JbInvoiceId j) (gdInvoices (GwDb (WGate w))) = Some row"
    using find_key [OF o(1) row(1)] row(2) by simp
  then show ?thesis
    using assms(3) row by (auto simp: authorizedInvoice_def Authorized_def Let_def signInvoice_def split: if_splits sum.splits)
qed

lemma abandoned_claim:
  assumes "AcquireJob d (JbInvoiceId j) now stale retry 3 = Inr (d', job, acquired)" "gateway_db_ok d"
    and "j \<in> set (gdJobs d)" "JbAttempts j = 3" "JbStatus j = JobProcessing"
  shows "DjStatus job = JobProcessing"
proof -
  have ok: "gateway_db_ok d'" by (rule acquire_ok [OF assms(1,2)])
  have "j \<in> set (gdJobs d')" using AcquireJob_keeps [OF assms(1,3)] assms(4) by simp
  from find_key [OF gateway_db_okD(4) [OF ok] this] show ?thesis
    using assms(1,5) by (auto simp: AcquireJob_def Let_def split: prod.splits option.splits)
qed

text \<open>An answer that ends the wait of the buyer: the delivery, or that there will be none.\<close>

definition final_answer :: "(Delivery + PaymentStatus) reply \<Rightarrow> bool" where
  "final_answer reply \<longleftrightarrow> (\<exists>x. reply = JSONReply 200 (Inl x)) \<or> reply = ErrorReply 503 ''fulfillment failed after retrying'' \<or>
     reply = ErrorReply 502 ''merchant rejected the fulfillment request''"

lemma claim_submitted:
  assumes "handleClaim C E now history g authorization i = (g', reply, started)" "authorizedInvoice C E g authorization i = Inr r"
    and "RecStatus r = InvSubmitted"
  shows "(started = None \<and> \<not> final_answer reply) \<or>
    (\<exists>d job acquired. AcquireJob (GwDb g) (InvID (RecInvoice r)) now (GwFulfillmentTimeout g + Minute) (5 * Second) 3 = Inr (d, job, acquired) \<and>
       started = (if acquired then Some r else None) \<and> (DjStatus job = JobProcessing \<longrightarrow> \<not> final_answer reply))"
proof (cases "AcquireJob (GwDb g) (InvID (RecInvoice r)) now (GwFulfillmentTimeout g + Minute) (5 * Second) 3")
  case (Inl e)
  then show ?thesis using assms by (auto simp: handleClaim_def Let_def final_answer_def split: sum.splits prod.splits if_splits)
next
  case (Inr x)
  obtain d job acquired where x: "x = (d, job, acquired)" by (cases x)
  have "(started = None \<and> \<not> final_answer reply) \<or> started = (if acquired then Some r else None) \<and> (DjStatus job = JobProcessing \<longrightarrow> \<not> final_answer reply)"
    using assms Inr by (auto simp: handleClaim_def Let_def final_answer_def x split: sum.splits prod.splits if_splits)
  then show ?thesis using Inr x by auto
qed

text \<open>
  C30. An invoice that is paid can be left without an end. Once the third attempt is marked as running and its
  worker is gone, as after a crash or a restart, nothing that happens changes the job: however often and
  however much later the buyer claims, no worker is started, nothing is delivered, and the buyer is never told
  that the fulfillment failed.
\<close>

theorem abandoned_job_never_ends:
  assumes "gateway_reachable C E w" "abandoned w j" "gateway_run C E w w'"
    and "handleClaim C E now history (WGate w') authorization (JbInvoiceId j) = (g, reply, started)"
  shows "j \<in> set (gdJobs (GwDb (WGate w'))) \<and> started = None \<and> \<not> final_answer reply"
proof -
  note ok = reachable_db_ok [OF reachable_run [OF assms(3,1)]] and a = abandoned_run [OF assms(3,1,2)]
  have j: "j \<in> set (gdJobs (GwDb (WGate w')))" "JbStatus j = JobProcessing" "JbAttempts j = 3"
    using a by (auto simp: abandoned_def)
  have "started = None \<and> \<not> final_answer reply"
  proof (cases "authorizedInvoice C E (WGate w') authorization (JbInvoiceId j)")
    case (Inl e)
    then show ?thesis
      using assms(4) by (auto simp: handleClaim_def final_answer_def authorizedInvoice_def Let_def split: if_splits sum.splits)
  next
    case (Inr r)
    note r = abandoned_invoice [OF a ok Inr]
    from claim_submitted [OF assms(4) Inr] r show ?thesis
      using abandoned_claim [OF _ ok j(1,3,2)] started_not_abandoned [OF _ ok j(1,3)] assms(4) by (auto split: if_splits)
  qed
  then show ?thesis using j(1) by blast
qed

theorem abandoned_job_never_ends_witness:
  "sample_job 3 1600 \<in> set (gdJobs (GwDb (job_gateway newRateLimiter [sample_job 3 1600]))) \<and> (None :: invoiceRecord option) = None"
proof -
  have a: "abandoned (crashed_world 3 [sample_job 3 1600]) (sample_job 3 1600)"
    by (simp add: abandoned_def crashed_world_def job_gateway_def sample_job_def)
  obtain g reply started where c: "handleClaim sample_crypto sample_entpay 0 sample_history (WGate (crashed_world 3 [sample_job 3 1600])) sample_bearer
      (JbInvoiceId (sample_job 3 1600)) = (g, reply, started)" by (metis prod.exhaust)
  show ?thesis
    using abandoned_job_never_ends [OF crashed_reachable a gateway_run.refl c] by (simp add: crashed_world_def)
qed

end
