(* ===== verification/Entpay_Json.thy ===== *)
theory Entpay_Json
  imports Gateway_Sample "HOL-Library.Multiset"
begin

text \<open>
  Canonical JSON is a fixed point: what \<open>canonicalPayload\<close> returns of an encoded result is returned
  unchanged when it is given again, so a stored payload passes the check it was stored with.
\<close>

section \<open>Sorted documents\<close>

fun json_sort :: "json \<Rightarrow> json" where
  "json_sort (JArray vs) = JArray (map json_sort vs)"
| "json_sort (JObject flds) = JObject (sort_key fst (map (\<lambda>(k, v). (k, json_sort v)) flds))"
| "json_sort v = v"

lemma sort_map_keys:
  assumes "\<And>y. fst (f y) = fst y"
  shows "sort_key fst (map f ys) = map f (sort_key fst ys)"
proof -
  have "insort_key fst (f x) (map f ys) = map f (insort_key fst x ys)" for x ys
    by (induction ys) (auto simp: assms)
  then show ?thesis by (induction ys) simp_all
qed

lemma sort_sort_key: "sort_key f (sort_key f xs) = sort_key f xs"
  by (rule sort_key_id_if_sorted) simp

lemma json_text_sort: "json_text E (json_sort v) = json_text E v"
proof (induction v rule: json_sort.induct)
  case (2 flds)
  let ?t = "\<lambda>(k, v). (k, json_member E k (json_text E v))" and ?s = "\<lambda>(k, v). (k, json_sort v)"
  have "sort_key fst (map ?t (sort_key fst (map ?s flds))) = map (?t \<circ> ?s) (sort_key fst flds)"
    by (simp add: sort_map_keys case_prod_unfold sort_sort_key)
  also have "\<dots> = map ?t (sort_key fst flds)" using 2 by (auto simp: case_prod_unfold)
  also have "\<dots> = sort_key fst (map ?t flds)" by (simp add: sort_map_keys case_prod_unfold)
  finally show ?case by (simp only: json_sort.simps json_text.simps)
qed (simp_all add: comp_def cong: map_cong)

lemma walkJSON_sort: "walkJSON depth v = Inr () \<Longrightarrow> walkJSON depth (json_sort v) = Inr ()"
proof (induction depth v rule: walkJSON.induct)
  case (1 depth vs)
  then show ?case by (auto simp: checkAll_ok split: if_splits)
next
  case (2 depth flds)
  then have d: "\<not> depth > 32" "distinct (map fst flds)" "\<And>fld. fld \<in> set flds \<Longrightarrow> walkJSON (depth + 1) (snd fld) = Inr ()"
    by (auto simp: checkAll_ok split: if_splits)
  have "mset (map fst (sort_key fst (map (\<lambda>(k, v). (k, json_sort v)) flds))) = mset (map fst flds)"
    by (simp add: case_prod_unfold comp_def multiset.map_comp)
  from mset_eq_imp_distinct_iff [OF this]
  have "distinct (map fst (sort_key fst (map (\<lambda>(k, v). (k, json_sort v)) flds)))" using d(2) by simp
  then show ?case using d 2 by (auto simp: checkAll_ok)
qed simp_all

section \<open>The laws of the JSON library\<close>

text \<open>
  What \<open>json.Marshal\<close> writes of a decoded value decodes to that value, and is not empty. An encoded result
  whose data is itself encoded is not lengthened when its fields are written in the order of their names.
\<close>

definition json_laws :: "entpay_library \<Rightarrow> bool" where
  "json_laws E \<longleftrightarrow>
     (\<forall>raw v. DecodeJSON E raw = Inr v \<longrightarrow> DecodeJSON E (json_text E v) = Inr (json_sort v) \<and> json_text E v \<noteq> []) \<and>
     (\<forall>r raw v w. DecodeJSON E raw = Inr v \<longrightarrow> ResData r = json_text E v \<longrightarrow> DecodeJSON E (result_text E r) = Inr w \<longrightarrow>
        length (json_text E w) \<le> length (result_text E r))"

lemma json_lawsD:
  assumes "json_laws E" "DecodeJSON E raw = Inr v"
  shows "DecodeJSON E (json_text E v) = Inr (json_sort v)" "json_text E v \<noteq> []"
    "DecodeJSON E (result_text E r) = Inr w \<Longrightarrow> ResData r = json_text E v \<Longrightarrow> length (json_text E w) \<le> length (result_text E r)"
  using assms unfolding json_laws_def by blast+

lemma canonicalObject_parts:
  assumes "canonicalObject E raw = Inr c"
  obtains flds where "DecodeJSON E raw = Inr (JObject flds)" "walkJSON 0 (JObject flds) = Inr ()" "c = json_text E (JObject flds)"
proof -
  have c: "attempt (attempt (DecodeJSON E raw) (walkJSON 0)) (\<lambda>_. attempt (DecodeJSON E raw) (\<lambda>v.
      case v of JObject _ \<Rightarrow> Inr (json_text E v) | _ \<Rightarrow> Inl (Errorf ''input must be a JSON object''))) = Inr c"
    using assms unfolding canonicalObject_def rejectDuplicateJSONKeys_def by (simp only: sum.distinct split: if_splits)
  then obtain v where d: "DecodeJSON E raw = Inr v" by (cases "DecodeJSON E raw") simp_all
  moreover have "walkJSON 0 v = Inr ()" using c d by (cases "walkJSON 0 v") simp_all
  moreover have "(case v of JObject _ \<Rightarrow> Inr (json_text E v) | _ \<Rightarrow> Inl (Errorf ''input must be a JSON object'')) = Inr c"
    using c d calculation by simp
  ultimately show thesis by (cases v) (auto intro: that simp del: json_text.simps walkJSON.simps)
qed

lemma canonicalPayload_parts:
  assumes "canonicalPayload E raw = Inr p"
  obtains v where "DecodeJSON E raw = Inr v" "walkJSON 0 v = Inr ()" "p = json_text E v" "length raw \<le> 1048576"
  using assms by (auto simp: canonicalPayload_def rejectDuplicateJSONKeys_def attempt_eq_Inr split: if_splits)

lemma canonicalPayload_fixed:
  assumes "json_laws E" "canonicalPayload E raw = Inr p" "length p \<le> length raw"
  shows "canonicalPayload E p = Inr p"
proof -
  obtain v where v: "DecodeJSON E raw = Inr v" "walkJSON 0 v = Inr ()" "p = json_text E v" "length raw \<le> 1048576"
    using assms(2) by (rule canonicalPayload_parts)
  have "DecodeJSON E p = Inr (json_sort v)" "p \<noteq> []" using json_lawsD(1,2) [OF assms(1) v(1)] v(3) by simp_all
  then show ?thesis
    using walkJSON_sort [OF v(2)] v(3,4) assms(3) by (simp add: canonicalPayload_def rejectDuplicateJSONKeys_def json_text_sort)
qed

lemma canonicalResult_fixed:
  assumes "json_laws E" "canonicalResult E r = Inr p"
  shows "canonicalPayload E p = Inr p"
proof -
  obtain d where data: "canonicalObject E (ResData r) = Inr d"
    and p: "canonicalPayload E (result_text E \<lparr>ResSchema = ResultSchema, ResSummary = TrimSpace (ResSummary r), ResData = d\<rparr>) = Inr p"
    using assms(2) by (auto simp: canonicalResult_def Let_def attempt_eq_Inr split: if_splits)
  let ?e = "\<lparr>ResSchema = ResultSchema, ResSummary = TrimSpace (ResSummary r), ResData = d\<rparr>"
  obtain v where v: "DecodeJSON E (ResData r) = Inr v" "d = json_text E v"
    using data canonicalObject_parts by metis
  obtain w where w: "DecodeJSON E (result_text E ?e) = Inr w" "p = json_text E w"
    using p canonicalPayload_parts by metis
  have "length p \<le> length (result_text E ?e)"
    using json_lawsD(3) [OF assms(1) v(1) w(1)] v(2) w(2) by simp
  then show ?thesis by (rule canonicalPayload_fixed [OF assms(1) p])
qed

text \<open>
  C36. Canonical input is stable: the canonical form of an input is the canonical form of itself, as long as
  it is no longer than the bound on a request, so the hash an invoice binds the input with is the same
  whether the merchant, the handoff or the paying client computes it.
\<close>

theorem canonicalObject_idempotent:
  assumes "json_laws E" "canonicalObject E raw = Inr c" "length c \<le> maxRequestBytes"
  shows "canonicalObject E c = Inr c \<and> (\<forall>c'. canonicalObject E c = Inr c' \<longrightarrow> inputHash C resource c' = inputHash C resource c)"
proof -
  obtain flds where v: "DecodeJSON E raw = Inr (JObject flds)" "walkJSON 0 (JObject flds) = Inr ()" "c = json_text E (JObject flds)"
    using assms(2) by (rule canonicalObject_parts)
  have "DecodeJSON E c = Inr (json_sort (JObject flds))" "c \<noteq> []"
    using json_lawsD(1,2) [OF assms(1) v(1)] by (simp_all only: v(3) not_False_eq_True)
  then have "canonicalObject E c = Inr c"
    using walkJSON_sort [OF v(2)] json_text_sort [of E "JObject flds"] v(3) assms(3)
    by (simp add: canonicalObject_def rejectDuplicateJSONKeys_def del: json_text.simps)
  then show ?thesis by simp
qed

lemma json_laws_sample: "json_laws sample_entpay"
  by (simp add: json_laws_def result_text_def)

theorem canonicalObject_idempotent_witness: "canonicalObject sample_entpay ''{}'' = Inr ''{}''"
proof -
  have "length ''{}'' \<le> maxRequestBytes" by (simp add: maxRequestBytes_def)
  from canonicalObject_idempotent [OF json_laws_sample sample_input this] show ?thesis by blast
qed

end
