(* ===== verification/Gateway_Delivery.thy ===== *)
theory Gateway_Delivery
  imports Gateway_Props Entpay_Json
begin

text \<open>
  The two sides of EntPay together: what the gateway delivers is accepted by the checks of the client
  that paid, under the key the gateway advertises.
\<close>

text \<open>
  What is relied on of Ed25519 is asked of one private key: what the key signs verifies under its own public
  key. (The documentation promises it of the keys that key generation returns, not of any 64 bytes.)
\<close>

definition signature_laws :: "entpay_library \<Rightarrow> bytes \<Rightarrow> bool" where
  "signature_laws E sk \<longleftrightarrow> (\<forall>message. Ed25519Verify E (Ed25519Public E sk) message (Ed25519Sign E sk message))"

lemma verify_signed_receipt: "signature_laws E sk \<Longrightarrow> verifyReceipt E (Ed25519Public E sk) (signReceipt E sk v)"
  by (simp add: signature_laws_def verifyReceipt_def signReceipt_def verifyFields_def signFields_def receipt_fields_def)

section \<open>What is staged\<close>

definition artifact_ok :: "entpay_library \<Rightarrow> string \<Rightarrow> ArtifactMetadata \<Rightarrow> bool" where
  "artifact_ok E i m \<longleftrightarrow> MetaSHA256 m \<noteq> [] \<and> 0 < MetaBytes m \<and> MetaBytes m \<le> maxArtifactBytes \<and>
     validMediaType E (MetaMediaType m) \<and> MetaDownloadPath m = artifact_path i"

definition staged_ok :: "entpay_library \<Rightarrow> string \<Rightarrow> stagedFulfillment \<Rightarrow> bool" where
  "staged_ok E i s \<longleftrightarrow> canonicalPayload E (StgPayload s) = Inr (StgPayload s) \<and>
     (\<forall>m. StgArtifact s = Some m \<longrightarrow> artifact_ok E i m)"

lemma staged_fresh:
  assumes "validateFulfillment E f = Inr payload" "digest32 (Sum256 C)" "json_laws E"
    and "Stage C wrote wroteStage g i f payload = (g', answer)" "\<forall>i s. GwStaging g i = Some s \<longrightarrow> staged_ok E i s"
  shows "(\<forall>i s. GwStaging g' i = Some s \<longrightarrow> staged_ok E i s) \<and> (\<forall>s. answer = Inr s \<longrightarrow> staged_ok E i s)"
proof -
  have canonical: "canonicalPayload E payload = Inr payload"
    using assms(1) canonicalResult_fixed [OF assms(3)]
    by (auto simp: validateFulfillment_def attempt_eq_Inr Let_def split: option.splits if_splits)
  have hash: "contentHash C contents \<noteq> []" for contents
  proof -
    have "length (contentHash C contents) = 64" unfolding contentHash_def by (rule digest32.hex_digest_length [OF assms(2)])
    then show ?thesis by auto
  qed
  have artifact: "ArtContents a \<noteq> [] \<and> int (length (ArtContents a)) \<le> maxArtifactBytes \<and> validMediaType E (ArtMediaType a)"
    if "FulArtifact f = Some a" for a
    using assms(1) that by (auto simp: validateFulfillment_def attempt_eq_Inr Let_def split: if_splits)
  show ?thesis
    using assms(4,5) canonical hash artifact
    by (auto simp: Stage_def Let_def staged_ok_def artifact_ok_def split: sum.splits option.splits if_splits)
qed

lemma stage_ok:
  assumes "stageFulfillment C E produced wrote wroteStage g r = (g', answer)" "digest32 (Sum256 C)" "json_laws E"
    and "\<forall>i s. GwStaging g i = Some s \<longrightarrow> staged_ok E i s"
  shows "(\<forall>i s. GwStaging g' i = Some s \<longrightarrow> staged_ok E i s) \<and> (\<forall>s. answer = Inr s \<longrightarrow> staged_ok E (InvID (RecInvoice r)) s)"
proof (cases "Existing C E g (InvID (RecInvoice r))")
  case (Inl e)
  then show ?thesis using assms(1,4) by (auto simp: stageFulfillment_def Let_def)
next
  case (Inr found)
  show ?thesis
  proof (cases found)
    case (Some st)
    have "GwStaging g (InvID (RecInvoice r)) = Some st"
      using Inr Some by (auto simp: Existing_def attempt_eq_Inr split: option.splits if_splits sum.splits)
    then show ?thesis using assms(1,4) Inr Some by (auto simp: stageFulfillment_def Let_def)
  next
    case None
    note existing = Inr [unfolded None]
    show ?thesis
    proof (cases "g' = g \<and> (\<exists>e. answer = Inl e)")
      case False
      obtain f payload where f: "validateFulfillment E f = Inr payload" "Stage C wrote wroteStage g (InvID (RecInvoice r)) f payload = (g', answer)"
        using assms(1) existing False by (auto simp: stageFulfillment_def Let_def split: option.splits sum.splits)
      then show ?thesis using staged_fresh [OF f(1) assms(2,3) f(2) assms(4)] by simp
    qed (use assms(4) in auto)
  qed
qed

section \<open>Workers and deliveries\<close>

text \<open>The invoice a worker carries is the row it was read from.\<close>

definition record_of :: "invoiceRecord \<Rightarrow> invoice_row \<Rightarrow> bool" where
  "record_of r row \<longleftrightarrow> IvId row = InvID (RecInvoice r) \<and> IvResource row = InvResource (RecInvoice r) \<and>
     IvInputSHA256 row = InvInputSHA256 (RecInvoice r) \<and> IvTxId row = Some (RecTxID r)"

definition delivery_ok :: "crypto \<Rightarrow> entpay_library \<Rightarrow> bytes \<Rightarrow> invoice_row \<Rightarrow> Delivery \<Rightarrow> bool" where
  "delivery_ok C E sk row x \<longleftrightarrow>
     (\<exists>t r s. record_of r row \<and> staged_ok E (IvId row) s \<and> x = fulfillment_delivery C E sk t r s)"

definition world_ok :: "crypto \<Rightarrow> entpay_library \<Rightarrow> gateway_world \<Rightarrow> bool" where
  "world_ok C E w \<longleftrightarrow>
     (\<forall>i s. GwStaging (WGate w) i = Some s \<longrightarrow> staged_ok E i s) \<and>
     (\<forall>x \<in> set (WWorkers w). (\<exists>row \<in> set (gdInvoices (GwDb (WGate w))). record_of (fst x) row) \<and>
        (\<forall>s. snd x = Some s \<longrightarrow> staged_ok E (InvID (RecInvoice (fst x))) s)) \<and>
     (\<forall>row \<in> set (gdInvoices (GwDb (WGate w))). \<forall>x. IvDelivery row = Some x \<longrightarrow> delivery_ok C E (GwSigningKey (WGate w)) row x)"

text \<open>A delivery made of a record of the invoice and of something well staged passes the client's checks.\<close>

lemma delivery_ok_validates:
  assumes "delivery_ok C E sk row x" "signature_laws E sk"
    and "InvID invoice = IvId row" "InvResource invoice = IvResource row" "InvInputSHA256 invoice = IvInputSHA256 row"
    and "IvTxId row = Some t"
  shows "validateDelivery C E (Ed25519Public E sk) invoice t x = Inr ()"
proof -
  obtain at r st where r: "record_of r row" and st: "staged_ok E (IvId row) st" and x: "x = fulfillment_delivery C E sk at r st"
    using assms(1) unfolding delivery_ok_def by blast
  have receipt: "verifyReceipt E (Ed25519Public E sk) (DelReceipt x)"
    unfolding x fulfillment_delivery_def by (simp add: verify_signed_receipt [OF assms(2)])
  have terms: "RcpProtocol (DelReceipt x) = ProtocolVersion" "RcpInvoiceID (DelReceipt x) = InvID invoice" "RcpTransactionID (DelReceipt x) = t"
    "RcpResource (DelReceipt x) = InvResource invoice" "RcpInputSHA256 (DelReceipt x) = InvInputSHA256 invoice"
    "RcpPayloadSHA256 (DelReceipt x) = contentHash C (string_bytes (StgPayload st))"
    "RcpArtifactSHA256 (DelReceipt x) = (case StgArtifact st of None \<Rightarrow> [] | Some m \<Rightarrow> MetaSHA256 m)"
    "DelPayload x = StgPayload st" "DelArtifact x = StgArtifact st"
    using r assms(3-6) by (simp_all add: record_of_def x fulfillment_delivery_def signReceipt_def)
  have payload: "canonicalPayload E (StgPayload st) = Inr (StgPayload st)" using st by (simp add: staged_ok_def)
  have "artifact_ok E (IvId row) m" if "StgArtifact st = Some m" for m using st that by (simp add: staged_ok_def)
  then show ?thesis
    by (cases "StgArtifact st") (auto simp: validateDelivery_def Let_def terms receipt payload artifact_ok_def assms(3))
qed

section \<open>Preservation\<close>

definition delivered_rows :: "gateway_db \<Rightarrow> invoice_row list" where
  "delivered_rows d = filter (\<lambda>row. IvDelivery row \<noteq> None) (gdInvoices d)"

lemma record_of_le: "record_of r row \<Longrightarrow> invoice_le row row' \<Longrightarrow> record_of r row'"
  by (simp add: record_of_def invoice_le_def invoice_terms_def)

lemma record_kept:
  assumes "db_run C d d'" "gateway_db_ok d" "\<exists>row \<in> set (gdInvoices d). record_of r row"
  shows "\<exists>row \<in> set (gdInvoices d'). record_of r row"
  using db_run_le [OF assms(1,2)] assms(3) record_of_le unfolding db_le_def by blast

lemma world_ok_intro:
  assumes "world_ok C E w" "gateway_db_ok (GwDb (WGate w))" "db_run C (GwDb (WGate w)) (GwDb (WGate w'))"
    and "delivered_rows (GwDb (WGate w')) = delivered_rows (GwDb (WGate w))" "GwSigningKey (WGate w') = GwSigningKey (WGate w)"
    and "\<forall>i s. GwStaging (WGate w') i = Some s \<longrightarrow> staged_ok E i s"
    and "\<forall>x \<in> set (WWorkers w'). x \<in> set (WWorkers w) \<or> (\<exists>row \<in> set (gdInvoices (GwDb (WGate w'))). record_of (fst x) row) \<and>
        (\<forall>s. snd x = Some s \<longrightarrow> staged_ok E (InvID (RecInvoice (fst x))) s)"
  shows "world_ok C E w'"
proof -
  have "delivery_ok C E (GwSigningKey (WGate w')) row x" if "row \<in> set (gdInvoices (GwDb (WGate w')))" "IvDelivery row = Some x" for row x
  proof -
    have "row \<in> set (delivered_rows (GwDb (WGate w)))" unfolding assms(4) [symmetric] using that by (simp add: delivered_rows_def)
    then have "row \<in> set (gdInvoices (GwDb (WGate w)))" by (simp add: delivered_rows_def)
    then show ?thesis using assms(1) that(2) unfolding world_ok_def assms(5) by blast
  qed
  then show ?thesis using assms(1,6,7) record_kept [OF assms(3,2)] unfolding world_ok_def by blast
qed

lemma world_ok_gate:
  assumes "world_ok C E w" "gateway_db_ok (GwDb (WGate w))" "db_run C (GwDb (WGate w)) (GwDb g)"
    and "delivered_rows (GwDb g) = delivered_rows (GwDb (WGate w)) \<and> GwStaging g = GwStaging (WGate w) \<and> GwSigningKey g = GwSigningKey (WGate w)"
    and "set workers \<subseteq> set (WWorkers w)"
  shows "world_ok C E (w\<lparr>WGate := g, WWorkers := workers\<rparr>)"
proof (rule world_ok_intro [OF assms(1,2)])
  show "\<forall>i s. GwStaging (WGate (w\<lparr>WGate := g, WWorkers := workers\<rparr>)) i = Some s \<longrightarrow> staged_ok E i s"
    using assms(1,4) unfolding world_ok_def by simp
qed (use assms(3-5) in auto)

lemmas world_ok_same = world_ok_gate [where workers = "WWorkers w" and w = w for w, simplified]

lemma create_delivered:
  "handleCreateInvoice C E now clientIP ids tokens codes g request = (g', reply) \<Longrightarrow>
     delivered_rows (GwDb g') = delivered_rows (GwDb g) \<and> GwStaging g' = GwStaging g \<and> GwSigningKey g' = GwSigningKey g"
  by (auto simp: handleCreateInvoice_def Let_def attempt_eq_Inr Create_def CreateHandoff_def delivered_rows_def sql_insert_eq_Inr
      split: prod.splits if_splits sum.splits option.splits)

lemma redeem_delivered:
  "handleRedeemHandoff C now clientIP g request = (g', reply) \<Longrightarrow>
     delivered_rows (GwDb g') = delivered_rows (GwDb g) \<and> GwStaging g' = GwStaging g \<and> GwSigningKey g' = GwSigningKey g"
  by (auto simp: handleRedeemHandoff_def RedeemHandoff_def Let_def delivered_rows_def split: prod.splits if_splits sum.splits option.splits)

lemma Submit_delivered:
  assumes "Submit d i t = Inr d'" "gateway_db_ok d"
  shows "delivered_rows d' = delivered_rows d"
proof (cases "d' = d")
  case False
  have "IvDelivery row = None" if "row \<in> set (gdInvoices d)" "IvStatus row = InvOpen" for row
    using gateway_db_okD(2) [OF assms(2) that(1)] that(2) unfolding invoice_ok_def by (metis invoice_status.distinct(3))
  then have "filter (\<lambda>row. IvDelivery row \<noteq> None) (map (\<lambda>r. if IvId r = i \<and> IvStatus r = InvOpen
      then r\<lparr>IvStatus := InvSubmitted, IvTxId := Some t\<rparr> else r) rows) = filter (\<lambda>row. IvDelivery row \<noteq> None) rows"
    if "set rows \<subseteq> set (gdInvoices d)" for rows using that by (induction rows) auto
  then show ?thesis using Submit_steps [OF assms(1) False] by (simp add: delivered_rows_def)
qed simp

lemma submit_delivered:
  assumes "handleSubmitPayment C E now clientIP accepted history g authorization i request = (g', reply)" "gateway_db_ok (GwDb g)"
  shows "delivered_rows (GwDb g') = delivered_rows (GwDb g) \<and> GwStaging g' = GwStaging g \<and> GwSigningKey g' = GwSigningKey g"
  using assms(1) Submit_delivered [OF _ assms(2)]
  by (auto simp: handleSubmitPayment_def Let_def split: prod.splits if_splits sum.splits)

lemma claim_delivered:
  "handleClaim C E now history g authorization i = (g', reply, started) \<Longrightarrow>
     delivered_rows (GwDb g') = delivered_rows (GwDb g) \<and> GwStaging g' = GwStaging g \<and> GwSigningKey g' = GwSigningKey g"
  by (auto simp: handleClaim_def Let_def AcquireJob_def delivered_rows_def split: sum.splits prod.splits if_splits option.splits)

lemma failure_delivered:
  "delivered_rows (GwDb (recordFailure now message g r e)) = delivered_rows (GwDb g) \<and>
     GwStaging (recordFailure now message g r e) = GwStaging g \<and> GwSigningKey (recordFailure now message g r e) = GwSigningKey g"
  by (auto simp: recordFailure_def FailJob_def Let_def delivered_rows_def split: sum.splits prod.splits if_splits)

lemma stage_key: "stageFulfillment C E produced wrote wroteStage g r = (g', answer) \<Longrightarrow> GwSigningKey g' = GwSigningKey g"
  by (auto simp: stageFulfillment_def Stage_def Let_def split: sum.splits option.splits)

lemma undelivered_same: "deliverFulfillment C E now g r staged = (g', Inl e) \<Longrightarrow> g' = g"
  by (auto simp: deliverFulfillment_def Let_def split: sum.splits)

lemma started_record:
  assumes "handleClaim C E now history g authorization i = (g', reply, Some r)"
  shows "\<exists>row \<in> set (gdInvoices (GwDb g)). record_of r row"
proof -
  obtain token record0 where r: "Authorized C (GwDb g) i token = Inr record0"
      "r = record0\<lparr>RecInvoice := signInvoice E (GwSigningKey g) (RecInvoice record0)\<rparr>" "RecTxID r \<noteq> []"
    using assms by (auto simp: handleClaim_def authorizedInvoice_def Let_def split: sum.splits prod.splits if_splits option.splits)
  from r(1) obtain row where row: "find (\<lambda>x. IvId x = i) (gdInvoices (GwDb g)) = Some row"
    by (auto simp: Authorized_def split: option.splits)
  then have "row \<in> set (gdInvoices (GwDb g))" using find_SomeD by fast
  moreover have "record_of r row"
    using r row by (auto simp: Authorized_def record_of_def signInvoice_def split: if_splits option.splits)
  ultimately show ?thesis by blast
qed

lemma delivered_world_ok:
  assumes "world_ok C E w" "gateway_db_ok (GwDb (WGate w))" "(r, Some st) \<in> set (WWorkers w)"
    and "deliverFulfillment C E now (WGate w) r st = (g, Inr ())" "set workers \<subseteq> set (WWorkers w)"
  shows "world_ok C E (w\<lparr>WGate := g, WWorkers := workers\<rparr>)"
proof -
  let ?i = "InvID (RecInvoice r)" and ?x = "fulfillment_delivery C E (GwSigningKey (WGate w)) (TruncateSecond now) r st"
  obtain d where d: "DeliverJob (GwDb (WGate w)) ?i (TruncateSecond now) ?x = Inr d" "g = RemoveStage ((WGate w)\<lparr>GwDb := d\<rparr>) ?i"
    using assms(4) by (auto simp: deliverFulfillment_def Let_def split: sum.splits)
  have g: "GwDb g = d" "GwSigningKey g = GwSigningKey (WGate w)" "\<And>i s. GwStaging g i = Some s \<Longrightarrow> GwStaging (WGate w) i = Some s"
    using d(2) by (auto simp: RemoveStage_def split: if_splits)
  have st: "staged_ok E ?i st" using assms(1,3) unfolding world_ok_def by fastforce
  obtain row0 where row0: "row0 \<in> set (gdInvoices (GwDb (WGate w)))" "record_of r row0"
    using assms(1,3) unfolding world_ok_def by fastforce
  let ?f = "\<lambda>r. r\<lparr>IvStatus := InvDelivered, IvDeliveredAt := Some (Unix (TruncateSecond now)), IvDelivery := Some ?x\<rparr>"
  have rows: "gdInvoices d = map (\<lambda>r. if IvId r = ?i \<and> IvStatus r = InvSubmitted then ?f r else r) (gdInvoices (GwDb (WGate w)))"
    using DeliverJob_steps(1) [OF d(1)] by simp
  have "delivery_ok C E (GwSigningKey (WGate w)) row x" if "row \<in> set (gdInvoices d)" "IvDelivery row = Some x" for row x
  proof -
    have "row \<in> (\<lambda>r. if IvId r = ?i \<and> IvStatus r = InvSubmitted then ?f r else r) ` set (gdInvoices (GwDb (WGate w)))"
      using that(1) unfolding rows set_map .
    then obtain old where old: "old \<in> set (gdInvoices (GwDb (WGate w)))"
        "row = (if IvId old = ?i \<and> IvStatus old = InvSubmitted then ?f old else old)" by (rule imageE)
    show ?thesis
    proof (cases "IvId old = ?i \<and> IvStatus old = InvSubmitted")
      case True
      then have "old = row0" using one_key [OF gateway_db_okD(1) [OF assms(2)] old(1) row0(1)] row0(2) by (simp add: record_of_def)
      then have "record_of r row" "x = ?x" "IvId row = ?i" using old(2) True row0(2) that(2) by (auto simp: record_of_def)
      then show ?thesis using st unfolding delivery_ok_def by auto
    next
      case False
      have "row = old" using old(2) unfolding if_not_P [OF False] .
      then show ?thesis using assms(1) old(1) that(2) unfolding world_ok_def by blast
    qed
  qed
  moreover have "db_run C (GwDb (WGate w)) (GwDb g)" by (rule deliver_db [OF assms(4)])
  then have run: "db_run C (GwDb (WGate w)) d" by (simp only: g(1))
  have "(\<exists>row \<in> set (gdInvoices d). record_of (fst x) row) \<and> (\<forall>s. snd x = Some s \<longrightarrow> staged_ok E (InvID (RecInvoice (fst x))) s)"
    if "x \<in> set workers" for x
    using assms(1,5) that record_kept [OF run assms(2)] unfolding world_ok_def by blast
  moreover have "staged_ok E i s" if "GwStaging g i = Some s" for i s using assms(1) g(3) [OF that] unfolding world_ok_def by blast
  ultimately show ?thesis unfolding world_ok_def by (simp add: g(1,2))
qed

lemma world_step_ok:
  assumes "gateway_step C E w w'" "gateway_db_ok (GwDb (WGate w))" "digest32 (Sum256 C)" "json_laws E" "world_ok C E w"
  shows "world_ok C E w'"
  using assms(1,2,5)
proof (induction rule: gateway_step.induct)
  case (create now clientIP ids tokens codes w request g reply)
  show ?case by (rule world_ok_same [OF create(3,2) create_db [OF create(1)] create_delivered [OF create(1)]])
next
  case (redeem now clientIP w redemption g answer)
  show ?case by (rule world_ok_same [OF redeem(3,2) redeem_db [OF redeem(1)] redeem_delivered [OF redeem(1)]])
next
  case (submit now clientIP accepted history w authorization i submission g status)
  show ?case by (rule world_ok_same [OF submit(3,2) submit_db [OF submit(1)] submit_delivered [OF submit(1,2)]])
next
  case (claim now history w authorization i g claimed)
  show ?case by (rule world_ok_same [OF claim(3,2) claim_db [OF claim(1)] claim_delivered [OF claim(1)]])
next
  case (start now history w authorization i g claimed r)
  have "world_ok C E (w\<lparr>WGate := g\<rparr>)"
    by (rule world_ok_same [OF start(3,2) claim_db [OF start(1)] claim_delivered [OF start(1)]])
  then show ?case
    using record_kept [OF claim_db [OF start(1)] start(2) started_record [OF start(1)]] by (auto simp: world_ok_def)
next
  case (stage k w r produced wrote wroteStage g staged)
  have r: "(r, None) \<in> set (WWorkers w)" using stage(1,2) by (metis nth_mem)
  have "(\<forall>i s. GwStaging g i = Some s \<longrightarrow> staged_ok E i s) \<and> (\<forall>s. Inr staged = (Inr s :: stagedFulfillment res) \<longrightarrow> staged_ok E (InvID (RecInvoice r)) s)"
    using stage(5) unfolding world_ok_def by (intro stage_ok [OF stage(3) assms(3,4)]) blast
  then have ok: "\<forall>i s. GwStaging g i = Some s \<longrightarrow> staged_ok E i s" "staged_ok E (InvID (RecInvoice r)) staged" by simp_all
  have "x \<in> set (WWorkers w) \<or> x = (r, Some staged)" if "x \<in> set ((WWorkers w)[k := (r, Some staged)])" for x
    using that set_update_subset_insert by fast
  moreover have "\<exists>row \<in> set (gdInvoices (GwDb (WGate w))). record_of r row" using stage(5) r unfolding world_ok_def by fastforce
  ultimately show ?case
    using ok stage_db [OF stage(3)] stage_key [OF stage(3)]
    by (intro world_ok_intro [OF stage(5,4)]) (simp_all add: db_run.refl, fastforce)
next
  case (unstaged k w r produced wrote wroteStage g e now message)
  have "(\<forall>i s. GwStaging g i = Some s \<longrightarrow> staged_ok E i s)"
    using unstaged(5) stage_ok [OF unstaged(3) assms(3,4)] unfolding world_ok_def by blast
  then have "world_ok C E (w\<lparr>WGate := g\<rparr>)"
    using unstaged(5) stage_db [OF unstaged(3)] stage_key [OF unstaged(3)] by (simp add: world_ok_def)
  from world_ok_gate [OF this _ failure_db failure_delivered, of "remove_nth k (WWorkers w)"] show ?case
    using unstaged(4) stage_db [OF unstaged(3)] set_remove_nth [of k "WWorkers w"] by simp
next
  case (deliver k w r staged now g)
  have "(r, Some staged) \<in> set (WWorkers w)" using deliver(1,2) by (metis nth_mem)
  then show ?case by (rule delivered_world_ok [OF deliver(5,4) _ deliver(3) set_remove_nth])
next
  case (undelivered k w r staged now g e now' message)
  show ?case unfolding undelivered_same [OF undelivered(3)]
    by (rule world_ok_gate [OF undelivered(5,4) failure_db failure_delivered set_remove_nth])
next
  case (restart w endpoint lifetime timeout given g)
  then show ?case using new_gateway_sel [OF restart(1)] by (simp add: world_ok_def)
qed

lemma reachable_world_ok:
  "gateway_reachable C E w \<Longrightarrow> digest32 (Sum256 C) \<Longrightarrow> json_laws E \<Longrightarrow> world_ok C E w"
proof (induction rule: gateway_reachable.induct)
  case (init merchant key endpoint lifetime timeout given g)
  then show ?case using new_gateway_sel [OF init(1)] by (simp add: world_ok_def empty_gateway_db_def)
next
  case (step w w')
  then show ?case using world_step_ok [OF step.hyps(2) reachable_db_ok [OF step.hyps(1)]] by blast
qed

text \<open>
  C8. What is paid for and delivered is accepted. Once an invoice is delivered, in any state the gateway can
  reach, every authorized claim is answered with the stored delivery, and that delivery passes the checks
  the paying client makes with the signed invoice, its transaction and the public key of the gateway. (The
  signing key must be a well-formed Ed25519 key, one whose signatures verify under its public key.)
\<close>

theorem delivery_accepted_by_client:
  assumes "gateway_reachable C E w" "digest32 (Sum256 C)" "json_laws E" "signature_laws E (GwSigningKey (WGate w))"
    and "authorizedInvoice C E (WGate w) authorization i = Inr r" "RecStatus r = InvDelivered"
  shows "\<exists>x. handleClaim C E now history (WGate w) authorization i = (WGate w, JSONReply 200 (Inl x), None) \<and>
    validateDelivery C E (Ed25519Public E (GwSigningKey (WGate w))) (RecInvoice r) (RecTxID r) x = Inr ()"
proof -
  obtain token record0 where r: "Authorized C (GwDb (WGate w)) i token = Inr record0"
      "r = record0\<lparr>RecInvoice := signInvoice E (GwSigningKey (WGate w)) (RecInvoice record0)\<rparr>"
    using assms(5) by (auto simp: authorizedInvoice_def Let_def split: sum.splits if_splits)
  from r(1) obtain row where found: "find (\<lambda>x. IvId x = i) (gdInvoices (GwDb (WGate w))) = Some row"
    by (auto simp: Authorized_def split: option.splits)
  then have row: "row \<in> set (gdInvoices (GwDb (WGate w)))" using find_SomeD by fast
  have fields: "RecStatus r = IvStatus row" "RecDelivery r = IvDelivery row" "InvID (RecInvoice r) = IvId row"
      "InvResource (RecInvoice r) = IvResource row" "InvInputSHA256 (RecInvoice r) = IvInputSHA256 row"
      "RecTxID r = (case IvTxId row of None \<Rightarrow> [] | Some t \<Rightarrow> t)"
    using r found by (auto simp: Authorized_def signInvoice_def split: if_splits)
  have row_ok: "invoice_ok row" by (rule gateway_db_okD(2) [OF reachable_db_ok [OF assms(1)] row])
  then obtain t where t: "IvTxId row = Some t" using assms(6) fields(1) by (auto simp: invoice_ok_def)
  from row_ok obtain x where x: "IvDelivery row = Some x" using assms(6) fields(1) by (auto simp: invoice_ok_def)
  have ok: "delivery_ok C E (GwSigningKey (WGate w)) row x"
    using reachable_world_ok [OF assms(1-3)] row x unfolding world_ok_def by blast
  note valid = delivery_ok_validates [OF ok assms(4) _ _ _ t]
  have "validateStoredDelivery C E (WGate w) r x"
    unfolding validateStoredDelivery_def using valid fields(3-6) t by simp
  moreover have "validateDelivery C E (Ed25519Public E (GwSigningKey (WGate w))) (RecInvoice r) (RecTxID r) x = Inr ()"
    using valid [of "RecInvoice r"] fields t by simp
  ultimately show ?thesis using assms(5,6) fields(2) x by (simp add: handleClaim_def)
qed

section \<open>A delivery\<close>

definition sample_fulfillment :: Fulfillment where
  "sample_fulfillment = \<lparr>FulResult = \<lparr>ResSchema = ResultSchema, ResSummary = ''done'', ResData = ''{}''\<rparr>, FulArtifact = None\<rparr>"

definition sample_staged :: stagedFulfillment where
  "sample_staged = \<lparr>StgPayload = ''{}'', StgArtifact = None\<rparr>"

lemma hex_digit_char: "n < 16 \<Longrightarrow> hex_digit (hex_char n)"
  by (auto simp: hex_digit_def hex_char_def of_char_of)

lemma hex_digits_encode: "list_all hex_digit (hex_encode bs)"
proof (induction bs)
  case (Cons b bs)
  then show ?case using hex_digit_char unat_byte [of b] by simp
qed simp

lemma sample_iid_valid: "validateInvoiceID sample_iid = Inr ()"
  by (simp add: validateInvoiceID_def sample_iid_def hex_digits_encode)

lemma sample_fulfillment_valid: "validateFulfillment sample_entpay sample_fulfillment = Inr ''{}''"
proof -
  have "TrimSpace ''done'' = ''done''" by (rule TrimSpace_id) simp
  then show ?thesis
    by (simp add: validateFulfillment_def sample_fulfillment_def canonicalResult_def sample_input ContainsAny_def canonicalPayload_def
        rejectDuplicateJSONKeys_def result_text_def json_member_def ResultSchema_def checkAll_def)
qed

definition delivering_world :: "stagedFulfillment option \<Rightarrow> gateway \<Rightarrow> gateway_world" where
  "delivering_world st g = \<lparr>WGate = g, WWorkers = [(sample_record, st)], WStarts = [sample_iid]\<rparr>"

lemma delivered_reachable:
  "\<exists>w r. gateway_reachable sample_crypto sample_entpay w \<and>
     authorizedInvoice sample_crypto sample_entpay (WGate w) sample_bearer sample_iid = Inr r \<and> RecStatus r = InvDelivered"
proof -
  let ?limiter = "[(''ip'', \<lparr>RsStarted = sample_now, RsCount = 2\<rparr>)]" and ?C = sample_crypto and ?E = sample_entpay
  let ?g = "job_gateway ?limiter [sample_job 1 1000]"
  let ?g1 = "?g\<lparr>GwStaging := [sample_iid \<mapsto> sample_staged]\<rparr>"
  have iid: "InvID (RecInvoice sample_record) = sample_iid" "InvResource (RecInvoice sample_record) = ''report''"
    by (simp_all add: sample_record_def sample_capsule_def signInvoice_def)
  obtain status where "handleClaim ?C ?E sample_now sample_history paid_gateway sample_bearer sample_iid =
      (?g, JSONReply 202 (Inr status), Some sample_record)"
    using job_claimed [of "[]" 1 0 sample_now ?limiter] unfolding paid_gateway_job by (auto simp: sample_times)
  from gateway_step.start [of ?C ?E _ _ "sample_world paid_gateway", simplified, OF this]
  have "gateway_reachable ?C ?E (delivering_world None ?g)"
    using gateway_reachable.step [OF paid_reachable] iid by (simp add: delivering_world_def sample_world_def)
  moreover have "stageFulfillment ?C ?E (Inr sample_fulfillment) (Inr ()) (Inr ()) ?g sample_record = (?g1, Inr sample_staged)"
    using sample_fulfillment_valid iid
    by (simp add: stageFulfillment_def Existing_def sample_iid_valid job_gateway_def sample_gateway_def Stage_def sample_staged_def
        sample_fulfillment_def Let_def)
  from gateway_step.stage [of 0 "delivering_world None ?g" sample_record ?C ?E _ _ _ ?g1 sample_staged, simplified delivering_world_def, simplified, OF this]
  have "gateway_step ?C ?E (delivering_world None ?g) (delivering_world (Some sample_staged) ?g1)"
    by (simp add: delivering_world_def)
  ultimately have "gateway_reachable ?C ?E (delivering_world (Some sample_staged) ?g1)" by (rule gateway_reachable.step)
  moreover define g where "g = fst (deliverFulfillment ?C ?E sample_now ?g1 sample_record sample_staged)"
  have "snd (deliverFulfillment ?C ?E sample_now ?g1 sample_record sample_staged) = Inr ()"
    and r: "\<exists>r. authorizedInvoice ?C ?E g sample_bearer sample_iid = Inr r \<and> RecStatus r = InvDelivered"
    unfolding g_def by (simp_all add: deliverFulfillment_def iid DeliverJob_def job_gateway_def sql_update_def paid_row_def sample_row_def
        sample_job_def RemoveStage_def authorizedInvoice_def Authorized_def sample_bearer_token Let_def)
  then have d: "deliverFulfillment ?C ?E sample_now ?g1 sample_record sample_staged = (g, Inr ())"
    unfolding g_def by (simp add: prod_eq_iff)
  from gateway_step.deliver [of 0 "delivering_world (Some sample_staged) ?g1" sample_record sample_staged ?C ?E _ g, simplified delivering_world_def, simplified, OF d]
  have "gateway_step ?C ?E (delivering_world (Some sample_staged) ?g1) (sample_world g\<lparr>WStarts := [sample_iid]\<rparr>)"
    by (simp add: delivering_world_def sample_world_def remove_nth_def)
  ultimately have "gateway_reachable ?C ?E (sample_world g\<lparr>WStarts := [sample_iid]\<rparr>)" by (rule gateway_reachable.step)
  then show ?thesis using r by (intro exI [of _ "sample_world g\<lparr>WStarts := [sample_iid]\<rparr>"]) auto
qed

theorem delivery_accepted_by_client_witness:
  "\<exists>(g :: gateway) (r :: invoiceRecord) x. handleClaim sample_crypto sample_entpay sample_now sample_history g sample_bearer sample_iid = (g, JSONReply 200 (Inl x), None) \<and>
    validateDelivery sample_crypto sample_entpay (Ed25519Public sample_entpay (GwSigningKey g)) (RecInvoice r) (RecTxID r) x = Inr ()"
proof -
  have laws: "signature_laws sample_entpay sk" for sk by (simp add: signature_laws_def)
  obtain w r where w: "gateway_reachable sample_crypto sample_entpay w" "RecStatus r = InvDelivered"
      "authorizedInvoice sample_crypto sample_entpay (WGate w) sample_bearer sample_iid = Inr r"
    using delivered_reachable by blast
  from delivery_accepted_by_client [OF w(1) digest32_sample json_laws_sample laws w(3,2), of sample_now sample_history]
  show ?thesis by (elim exE conjE) (rule exI [of _ "WGate w"], rule exI [of _ r], rule exI, rule conjI)
qed

end
