(* ===== verification/Client_Store.thy ===== *)
theory Client_Store
  imports Agent Payment Gateway
begin

text \<open>
  \<open>entpay/client_store.go\<close>: the sessions of the paying client. A session follows one payment link from
  the moment it is received to its end; every change raises its revision and is logged, and is made
  only against the revision it was read at.

  What the client keeps encrypted is sealed and opened by the operating system's protector
  (\<open>client_secure.go\<close> and its platform files), a parameter together with the JSON encoding of what it
  seals. Values the store keeps as JSON are kept as values. The clock and random bytes are arguments.
\<close>

section \<open>Stages\<close>

datatype ClientStage =
    StageReceived | StageInspecting | StageAwaitingApproval | StagePreparingPayment | StageBroadcast | StageSubmitting
  | StageConfirming | StageFulfilling | StageVerifying | StageComplete | StageInvalid | StageExpired | StageRejected
  | StageFailedRetryable | StageFailedTerminal

definition validClientTransition :: "ClientStage \<Rightarrow> ClientStage \<Rightarrow> bool" where
  "validClientTransition from to' \<longleftrightarrow> to' \<in> set (case from of
     StageReceived \<Rightarrow> [StageInspecting, StageInvalid, StageExpired]
   | StageInspecting \<Rightarrow> [StageAwaitingApproval, StageInvalid, StageExpired, StageFailedRetryable]
   | StageAwaitingApproval \<Rightarrow> [StagePreparingPayment, StageRejected, StageExpired]
   | StagePreparingPayment \<Rightarrow> [StageBroadcast, StageAwaitingApproval, StageFailedTerminal]
   | StageBroadcast \<Rightarrow> [StageSubmitting, StageFailedRetryable]
   | StageSubmitting \<Rightarrow> [StageConfirming, StageFulfilling, StageFailedRetryable, StageFailedTerminal]
   | StageConfirming \<Rightarrow> [StageFulfilling, StageVerifying, StageFailedRetryable, StageFailedTerminal]
   | StageFulfilling \<Rightarrow> [StageVerifying, StageFailedRetryable, StageFailedTerminal]
   | StageVerifying \<Rightarrow> [StageComplete, StageFailedRetryable, StageFailedTerminal]
   | StageFailedRetryable \<Rightarrow> [StageInspecting, StageSubmitting, StageConfirming, StageFulfilling, StageVerifying]
   | _ \<Rightarrow> [])"

text \<open>A stage column: \<open>None\<close> is the empty text a session starts with.\<close>

definition validClientStage :: "ClientStage option \<Rightarrow> bool" where
  "validClientStage stage \<longleftrightarrow> stage \<noteq> None"

section \<open>Records\<close>

record clientSessionCapsule =
  CapHandoffCode :: string
  CapClientNonce :: string
  CapInput :: string
  CapCreated :: CreateInvoiceResponse

definition zeroCreated :: CreateInvoiceResponse where
  "zeroCreated = \<lparr>CirInvoice = \<lparr>InvProtocol = [], InvNetwork = [], InvID = [], InvMerchant = [], InvAmount = 0,
     InvResource = [], InvInputSHA256 = [], InvExpiresAt = zeroTime, InvConfirmations = 0, InvSignature = []\<rparr>,
     CirClaimToken = [], CirLaunch = None\<rparr>"

record protector =
  SealCapsule :: "string \<Rightarrow> clientSessionCapsule \<Rightarrow> bytes res"
  OpenCapsule :: "string \<Rightarrow> bytes \<Rightarrow> clientSessionCapsule res"

text \<open>What a row of the table and a session read from it share.\<close>

record session_common =
  SnID :: string
  SnRevision :: int
  SnEndpoint :: string
  SnMerchant :: string
  SnSigningKey :: string
  SnFingerprint :: string
  SnTrust :: string
  SnInvoice :: "Invoice option"
  SnProduct :: "ProductDescriptor option"
  SnWallet :: string
  SnEstimatedFee :: u64
  SnFeeCeiling :: u64
  SnSpendable :: u64
  SnConfirmations :: u64
  SnStage :: ClientStage
  SnRetryStage :: "ClientStage option"
  SnErrorCode :: string
  SnErrorMessage :: string
  SnReceipt :: "Receipt option"
  SnPayload :: string
  SnArtifact :: "ArtifactMetadata option"
  SnArtifactPath :: string
  SnArtifactSHA256 :: string
  SnArtifactMediaType :: string
  SnArtifactBytes :: int

record session_row = session_common +
  RwDigest :: bytes
  RwCapsule :: bytes
  RwTxId :: "string option"
  RwTransaction :: "transaction option"
  RwCreatedAt :: int
  RwUpdatedAt :: int
  RwCompletedAt :: "int option"

record ClientSession = session_common +
  CsTransactionID :: string
  CsResult :: "ResultEnvelope option"
  CsCreatedAt :: int
  CsUpdatedAt :: int
  CsCompletedAt :: "int option"

record transition_row =
  TrSession :: string
  TrFrom :: "ClientStage option"
  TrTo :: ClientStage
  TrRevision :: int
  TrCreatedAt :: int

record merchant_row =
  MiEndpoint :: string
  MiMerchant :: string
  MiSigningKey :: string
  MiFingerprint :: string
  MiTrustedAt :: int
  MiUpdatedAt :: int

record ClientSettings =
  StRevision :: int
  StRequireEveryApproval :: bool
  StMaximumAmount :: u64
  StArtifactDirectory :: string
  StRetentionDays :: int

record client_db =
  cdSessions :: "session_row list"
  cdTransitions :: "transition_row list"
  cdMerchants :: "merchant_row list"
  cdSettings :: "ClientSettings option"

definition empty_client_db :: client_db where
  "empty_client_db = \<lparr>cdSessions = [], cdTransitions = [], cdMerchants = [], cdSettings = None\<rparr>"

definition ErrClientSessionNotFound :: go_error where "ErrClientSessionNotFound = Errorf ''EntPay session not found''"
definition ErrClientRevision :: go_error where
  "ErrClientRevision = Errorf ''EntPay session changed; refresh before continuing''"
definition ErrClientStage :: go_error where
  "ErrClientStage = Errorf ''EntPay session transition is not allowed''"

text \<open>A 64-bit number with the high bit set is not a value of the driver.\<close>

definition storable :: "u64 \<Rightarrow> unit res" where
  "storable x = (if uint x \<le> MaxInt64 then Inr () else Inl (Errorf ''uint64 values with high bit set are not supported''))"

section \<open>Reading\<close>

text \<open>\<open>decode\<close> is the strict decoding of an encoded envelope.\<close>

definition decodeResult :: "entpay_library \<Rightarrow> (string \<Rightarrow> ResultEnvelope res) \<Rightarrow> string \<Rightarrow> ResultEnvelope res" where
  "decodeResult E decode raw =
     attempt (canonicalPayload E raw) (\<lambda>canonical.
     attempt (decode canonical) (\<lambda>result.
     attempt (canonicalResult E result) (\<lambda>encoded.
     decode encoded)))"

definition LegacyResultSchema :: string where "LegacyResultSchema = ''entpay-result-legacy''"

definition scanClientSession ::
    "entpay_library \<Rightarrow> (string \<Rightarrow> ResultEnvelope res) \<Rightarrow> session_row \<Rightarrow> ClientSession res" where
  "scanClientSession E decode row =
     attempt (if SnPayload row = [] then Inr None
       else case decodeResult E decode (SnPayload row) of
         Inr result \<Rightarrow> Inr (Some result)
       | Inl _ \<Rightarrow>
         (case canonicalPayload E (SnPayload row) of
            Inl _ \<Rightarrow> Inl (Errorf ''stored EntPay payload is invalid'')
          | Inr legacy \<Rightarrow> Inr (Some \<lparr>ResSchema = LegacyResultSchema, ResSummary = ''Legacy merchant delivery'', ResData = legacy\<rparr>)))
     (\<lambda>result. Inr (session_common.extend (session_common.truncate row) (ClientSession.fields
       (case RwTxId row of None \<Rightarrow> [] | Some t \<Rightarrow> t) result (RwCreatedAt row * Second) (RwUpdatedAt row * Second)
       (map_option (\<lambda>at. at * Second) (RwCompletedAt row)))))"

definition validateSessionID :: "string \<Rightarrow> unit res" where
  "validateSessionID v =
     (if length v \<noteq> 32 \<or> \<not> list_all hex_digit v then Inl (Errorf ''EntPay session ID is invalid'') else Inr ())"

definition session_by_id :: "client_db \<Rightarrow> string \<Rightarrow> session_row option" where
  "session_by_id d i = find (\<lambda>r. SnID r = i) (cdSessions d)"

definition Session ::
    "entpay_library \<Rightarrow> (string \<Rightarrow> ResultEnvelope res) \<Rightarrow> client_db \<Rightarrow> string \<Rightarrow> ClientSession res" where
  "Session E decode d i =
     (if validateSessionID i \<noteq> Inr () then Inl ErrClientSessionNotFound
      else case session_by_id d i of
        None \<Rightarrow> Inl ErrClientSessionNotFound
      | Some row \<Rightarrow> scanClientSession E decode row)"

definition sessionByHandoffDigest ::
    "entpay_library \<Rightarrow> (string \<Rightarrow> ResultEnvelope res) \<Rightarrow> client_db \<Rightarrow> bytes \<Rightarrow> ClientSession res" where
  "sessionByHandoffDigest E decode d digest =
     (case find (\<lambda>r. RwDigest r = digest) (cdSessions d) of
        None \<Rightarrow> Inl ErrClientSessionNotFound
      | Some row \<Rightarrow> scanClientSession E decode row)"

definition stage_priority :: "ClientStage \<Rightarrow> int" where
  "stage_priority stage =
     (if stage = StageAwaitingApproval then 0
      else if stage \<in> {StagePreparingPayment, StageBroadcast, StageSubmitting, StageConfirming, StageFulfilling, StageVerifying} then 1
      else if stage = StageFailedRetryable then 2 else 3)"

definition Sessions ::
    "entpay_library \<Rightarrow> (string \<Rightarrow> ResultEnvelope res) \<Rightarrow> client_db \<Rightarrow> int \<Rightarrow> ClientSession list res" where
  "Sessions E decode d limit =
     (if limit \<le> 0 \<or> limit > 500 then Inl (Errorf ''EntPay session limit must be between 1 and 500'')
      else mapE (scanClientSession E decode)
        (sql_limit limit 0 (sort_key (\<lambda>r. (stage_priority (SnStage r), - RwUpdatedAt r)) (cdSessions d))))"

definition Capsule :: "protector \<Rightarrow> client_db \<Rightarrow> string \<Rightarrow> clientSessionCapsule res" where
  "Capsule P d i =
     (if validateSessionID i \<noteq> Inr () then Inl ErrClientSessionNotFound
      else case session_by_id d i of
        None \<Rightarrow> Inl ErrClientSessionNotFound
      | Some row \<Rightarrow> OpenCapsule P i (RwCapsule row))"

definition StoredTransaction :: "crypto \<Rightarrow> client_db \<Rightarrow> string \<Rightarrow> transaction res" where
  "StoredTransaction C d i =
     (case find (\<lambda>r. SnID r = i \<and> RwTxId r \<noteq> None) (cdSessions d) of
        None \<Rightarrow> Inl ErrClientSessionNotFound
      | Some row \<Rightarrow>
        (case RwTransaction row of
           None \<Rightarrow> Inl (Errorf ''stored EntPay transaction failed integrity validation'')
         | Some tx \<Rightarrow>
           if ID tx = [] \<or> ID tx \<noteq> ComputeID C tx then Inl (Errorf ''stored EntPay transaction failed integrity validation'')
           else Inr tx))"

section \<open>Writing\<close>

text \<open>
  An operation returns the tables and the session it reads back, or an error. What fails before its
  commit leaves the tables as they were; reading the session back may fail after it.
\<close>

definition update_session :: "(session_row \<Rightarrow> bool) \<Rightarrow> (session_row \<Rightarrow> session_row) \<Rightarrow> client_db \<Rightarrow> client_db \<times> nat" where
  "update_session P f d = (let (rows, changed) = sql_update P f (cdSessions d) in (d\<lparr>cdSessions := rows\<rparr>, changed))"

definition log_transition :: "string \<Rightarrow> ClientStage option \<Rightarrow> ClientStage \<Rightarrow> int \<Rightarrow> int \<Rightarrow> client_db \<Rightarrow> client_db" where
  "log_transition i from to' revision at d = d\<lparr>cdTransitions := cdTransitions d @
     [\<lparr>TrSession = i, TrFrom = from, TrTo = to', TrRevision = revision, TrCreatedAt = at\<rparr>]\<rparr>"

type_synonym client_result = "client_db \<times> ClientSession res"

text \<open>The end of an operation: commit the new tables, or the error, and read the session back.\<close>

definition commit_session ::
    "entpay_library \<Rightarrow> (string \<Rightarrow> ResultEnvelope res) \<Rightarrow> client_db \<Rightarrow> string \<Rightarrow> client_db res \<Rightarrow> client_result" where
  "commit_session E decode d i changed =
     (case changed of Inl e \<Rightarrow> (d, Inl e) | Inr d' \<Rightarrow> (d', Session E decode d' i))"

definition launch_digest :: "crypto \<Rightarrow> LaunchRequest \<Rightarrow> bytes" where
  "launch_digest C launch = Sum256 C (string_bytes (LrMerchant launch @ [CHR 0x00] @ LrHandoff launch))"

definition new_session_row :: "string \<Rightarrow> string \<Rightarrow> bytes \<Rightarrow> bytes \<Rightarrow> int \<Rightarrow> session_row" where
  "new_session_row i endpoint digest encrypted at =
     \<lparr>SnID = i, SnRevision = 1, SnEndpoint = endpoint, SnMerchant = [], SnSigningKey = [], SnFingerprint = [], SnTrust = [],
      SnInvoice = None, SnProduct = None, SnWallet = [], SnEstimatedFee = 0, SnFeeCeiling = 0, SnSpendable = 0,
      SnConfirmations = 0, SnStage = StageReceived, SnRetryStage = None, SnErrorCode = [], SnErrorMessage = [],
      SnReceipt = None, SnPayload = [], SnArtifact = None, SnArtifactPath = [], SnArtifactSHA256 = [],
      SnArtifactMediaType = [], SnArtifactBytes = 0, RwDigest = digest, RwCapsule = encrypted, RwTxId = None,
      RwTransaction = None, RwCreatedAt = at, RwUpdatedAt = at, RwCompletedAt = None\<rparr>"

definition CreateReceived ::
    "crypto \<Rightarrow> entpay_library \<Rightarrow> protector \<Rightarrow> (string \<Rightarrow> ResultEnvelope res) \<Rightarrow> bytes res \<Rightarrow> int \<Rightarrow> client_db \<Rightarrow>
     LaunchRequest \<Rightarrow> string \<Rightarrow> client_result" where
  "CreateReceived C E P decode idRandom now d launch clientNonce =
     (if ValidateLaunchRequest E launch \<noteq> Inr () \<or> validateOpaqueToken clientNonce \<noteq> Inr ()
      then (d, Inl (Errorf ''EntPay launch request is invalid''))
      else case attempt idRandom (\<lambda>idBytes. let i = hex_encode idBytes in
             attempt (SealCapsule P i \<lparr>CapHandoffCode = LrHandoff launch, CapClientNonce = clientNonce, CapInput = [],
               CapCreated = zeroCreated\<rparr>) (\<lambda>encrypted. Inr (i, encrypted))) of
        Inl e \<Rightarrow> (d, Inl e)
      | Inr (i, encrypted) \<Rightarrow>
        let digest = launch_digest C launch; at = Unix now in
        if \<exists>r \<in> set (cdSessions d). SnID r = i \<or> RwDigest r = digest
        then (d, sessionByHandoffDigest E decode d digest)
        else commit_session E decode d i (Inr (log_transition i None StageReceived 1 at
          (d\<lparr>cdSessions := cdSessions d @ [new_session_row i (LrMerchant launch) digest encrypted at]\<rparr>))))"

definition SaveRedeemedCapsule ::
    "entpay_library \<Rightarrow> protector \<Rightarrow> (string \<Rightarrow> ResultEnvelope res) \<Rightarrow> int \<Rightarrow> client_db \<Rightarrow> string \<Rightarrow> int \<Rightarrow> HandoffCapsule \<Rightarrow>
     client_result" where
  "SaveRedeemedCapsule E P decode now d i expectedRevision redeemed = commit_session E decode d i
     (if expectedRevision = 0 \<or> HcEndpoint redeemed = [] \<or> HcInput redeemed = [] \<or> CirClaimToken (HcCreated redeemed) = []
      then Inl (Errorf ''redeemed EntPay capsule is incomplete'')
      else attempt (SealCapsule P i \<lparr>CapHandoffCode = [], CapClientNonce = [], CapInput = HcInput redeemed,
          CapCreated = HcCreated redeemed\<rparr>) (\<lambda>encrypted.
        let (d', changed) = update_session (\<lambda>r. SnID r = i \<and> SnRevision r = expectedRevision \<and> SnStage r = StageInspecting)
              (\<lambda>r. r\<lparr>RwCapsule := encrypted, SnRevision := SnRevision r + 1, RwUpdatedAt := Unix now\<rparr>) d
        in if changed \<noteq> 1 then Inl ErrClientRevision else Inr d'))"

definition merchantTrustState :: "crypto \<Rightarrow> client_db \<Rightarrow> string \<Rightarrow> string \<Rightarrow> string \<Rightarrow> string \<Rightarrow> string res" where
  "merchantTrustState C d sessionID merchant signingKey fingerprint =
     (case session_by_id d sessionID of
        None \<Rightarrow> Inl ErrClientSessionNotFound
      | Some row \<Rightarrow>
        (case find (\<lambda>m. MiEndpoint m = SnEndpoint row) (cdMerchants d) of
           None \<Rightarrow> Inr ''first''
         | Some known \<Rightarrow>
           if AddressesEqual C (MiMerchant known) merchant \<and> MiSigningKey known = signingKey \<and> MiFingerprint known = fingerprint
           then Inr ''previous'' else Inr ''changed''))"

definition SaveReview ::
    "crypto \<Rightarrow> entpay_library \<Rightarrow> (string \<Rightarrow> ResultEnvelope res) \<Rightarrow> int \<Rightarrow> client_db \<Rightarrow> string \<Rightarrow> int \<Rightarrow> ServiceInfo \<Rightarrow>
     ProductDescriptor \<Rightarrow> Invoice \<Rightarrow> PaymentPreview \<Rightarrow> client_result" where
  "SaveReview C E decode now d i expectedRevision info product invoice preview = commit_session E decode d i
     (case RawURLDecode (SiSigningKey info) of
        Inl _ \<Rightarrow> Inl (Errorf ''merchant signing key is invalid'')
      | Inr key \<Rightarrow>
        if length key \<noteq> PublicKeySize then Inl (Errorf ''merchant signing key is invalid'')
        else let fingerprint = hex_encode (Sum256 C key) in
        attempt (merchantTrustState C d i (SiMerchant info) (SiSigningKey info) fingerprint) (\<lambda>trust.
        attempt (storable (PrEstimatedFee preview)) (\<lambda>_.
        attempt (storable (PrMaximumFee preview)) (\<lambda>_.
        attempt (storable (PrSpendableBalance preview)) (\<lambda>_.
        let at = Unix now;
            (d', changed) = update_session (\<lambda>r. SnID r = i \<and> SnRevision r = expectedRevision \<and> SnStage r = StageInspecting)
              (\<lambda>r. r\<lparr>SnMerchant := SiMerchant info, SnSigningKey := SiSigningKey info, SnFingerprint := fingerprint,
                SnTrust := trust, SnInvoice := Some invoice, SnProduct := Some product, SnWallet := PrWallet preview,
                SnEstimatedFee := PrEstimatedFee preview, SnFeeCeiling := PrMaximumFee preview,
                SnSpendable := PrSpendableBalance preview, SnStage := StageAwaitingApproval,
                SnRevision := SnRevision r + 1, SnErrorCode := [], SnErrorMessage := [], RwUpdatedAt := at\<rparr>) d
        in if changed \<noteq> 1 then Inl ErrClientRevision
        else let d' = log_transition i (Some StageInspecting) StageAwaitingApproval (expectedRevision + 1) at d' in
        if trust \<noteq> ''first'' then Inr d'
        else Inr (d'\<lparr>cdMerchants := cdMerchants d' @ map (\<lambda>r. \<lparr>MiEndpoint = SnEndpoint r, MiMerchant = SiMerchant info,
          MiSigningKey = SiSigningKey info, MiFingerprint = fingerprint, MiTrustedAt = at, MiUpdatedAt = at\<rparr>)
          (filter (\<lambda>r. SnID r = i) (cdSessions d'))\<rparr>))))))"

definition upsertMerchant :: "merchant_row \<Rightarrow> merchant_row list \<Rightarrow> merchant_row list" where
  "upsertMerchant m rows =
     (if \<exists>r \<in> set rows. MiEndpoint r = MiEndpoint m then map (\<lambda>r. if MiEndpoint r = MiEndpoint m then m else r) rows
      else rows @ [m])"

definition storeReestablishMerchantTrust ::
    "entpay_library \<Rightarrow> (string \<Rightarrow> ResultEnvelope res) \<Rightarrow> int \<Rightarrow> client_db \<Rightarrow> string \<Rightarrow> int \<Rightarrow> client_result" where
  "storeReestablishMerchantTrust E decode now d i expectedRevision = commit_session E decode d i
     (if expectedRevision = 0 then Inl ErrClientRevision
      else case session_by_id d i of
        None \<Rightarrow> Inl ErrClientSessionNotFound
      | Some row \<Rightarrow>
        if SnRevision row \<noteq> expectedRevision \<or> SnStage row \<noteq> StageAwaitingApproval \<or> SnTrust row \<noteq> ''changed'' \<or>
           SnEndpoint row = [] \<or> SnMerchant row = [] \<or> SnSigningKey row = [] \<or> SnFingerprint row = []
        then Inl ErrClientRevision
        else let at = Unix now;
            d = d\<lparr>cdMerchants := upsertMerchant \<lparr>MiEndpoint = SnEndpoint row, MiMerchant = SnMerchant row,
              MiSigningKey = SnSigningKey row, MiFingerprint = SnFingerprint row, MiTrustedAt = at, MiUpdatedAt = at\<rparr> (cdMerchants d)\<rparr>;
            (d', changed) = update_session (\<lambda>r. SnID r = i \<and> SnRevision r = expectedRevision \<and> SnStage r = StageAwaitingApproval \<and>
                SnTrust r = ''changed'') (\<lambda>r. r\<lparr>SnTrust := ''previous'', SnRevision := SnRevision r + 1, RwUpdatedAt := at\<rparr>) d
          in if changed \<noteq> 1 then Inl ErrClientRevision else Inr d')"

definition JournalPayment ::
    "crypto \<Rightarrow> entpay_library \<Rightarrow> (string \<Rightarrow> ResultEnvelope res) \<Rightarrow> int \<Rightarrow> client_db \<Rightarrow> string \<Rightarrow> int \<Rightarrow> transaction \<Rightarrow> u64 \<Rightarrow>
     client_result" where
  "JournalPayment C E decode now d i expectedRevision tx fee = commit_session E decode d i
     (if ID tx = [] \<or> ID tx \<noteq> ComputeID C tx \<or> fee = 0 then Inl (Errorf ''prepared EntPay transaction is invalid'')
      else attempt (storable fee) (\<lambda>_.
        let P = (\<lambda>r. SnID r = i \<and> SnRevision r = expectedRevision \<and> SnStage r = StagePreparingPayment \<and> RwTxId r = None);
            (d', changed) = update_session P (\<lambda>r. r\<lparr>RwTxId := Some (ID tx), RwTransaction := Some tx, SnEstimatedFee := fee,
              SnRevision := SnRevision r + 1, RwUpdatedAt := Unix now\<rparr>) d
        in attempt (sql_require ''sessions: transaction_id'' (changed = 0 \<or>
               (\<forall>r \<in> set (cdSessions d). RwTxId r \<noteq> Some (ID tx)))) (\<lambda>_.
           if changed \<noteq> 1 then Inl ErrClientRevision else Inr d')))"

definition SaveConfirmations ::
    "entpay_library \<Rightarrow> (string \<Rightarrow> ResultEnvelope res) \<Rightarrow> int \<Rightarrow> client_db \<Rightarrow> string \<Rightarrow> int \<Rightarrow> u64 \<Rightarrow> client_result" where
  "SaveConfirmations E decode now d i expectedRevision confirmations =
     (case storable confirmations of
        Inl e \<Rightarrow> (d, Inl e)
      | Inr _ \<Rightarrow>
        let (d', changed) = update_session (\<lambda>r. SnID r = i \<and> SnRevision r = expectedRevision \<and>
                SnStage r \<in> {StageConfirming, StageFulfilling} \<and> SnConfirmations r \<noteq> confirmations)
              (\<lambda>r. r\<lparr>SnConfirmations := confirmations, SnRevision := SnRevision r + 1, RwUpdatedAt := Unix now\<rparr>) d
        in if changed = 0 then
             (d, attempt (Session E decode d i) (\<lambda>current.
                if SnRevision current \<noteq> expectedRevision \<or>
                   (SnStage current \<noteq> StageConfirming \<and> SnStage current \<noteq> StageFulfilling)
                then Inl ErrClientRevision else Inr current))
           else (d', Session E decode d' i))"

definition SaveDelivery ::
    "entpay_library \<Rightarrow> (string \<Rightarrow> ResultEnvelope res) \<Rightarrow> int \<Rightarrow> client_db \<Rightarrow> string \<Rightarrow> int \<Rightarrow> Delivery \<Rightarrow> client_result" where
  "SaveDelivery E decode now d i expectedRevision delivery = commit_session E decode d i
     (attempt (canonicalPayload E (DelPayload delivery)) (\<lambda>payload.
      case session_by_id d i of
        None \<Rightarrow> Inl (Errorf ''sql: no rows in result set'')
      | Some row \<Rightarrow>
        if SnRevision row \<noteq> expectedRevision \<or> (SnStage row \<noteq> StageConfirming \<and> SnStage row \<noteq> StageFulfilling)
        then Inl ErrClientRevision
        else let (d', changed) = update_session (\<lambda>r. SnID r = i \<and> SnRevision r = expectedRevision \<and> SnStage r = SnStage row)
              (\<lambda>r. r\<lparr>SnReceipt := Some (DelReceipt delivery), SnPayload := payload, SnArtifact := DelArtifact delivery,
                SnStage := StageVerifying, SnRevision := SnRevision r + 1, SnErrorCode := [], SnErrorMessage := [],
                RwUpdatedAt := Unix now\<rparr>) d
          in if changed \<noteq> 1 then Inl ErrClientRevision
             else Inr (log_transition i (Some (SnStage row)) StageVerifying (expectedRevision + 1) (Unix now) d')))"

text \<open>The capsule a finished session keeps: no handoff secret and no claim token.\<close>

definition clearedCapsule :: "client_db \<Rightarrow> clientSessionCapsule \<Rightarrow> clientSessionCapsule" where
  "clearedCapsule d capsule =
     capsule\<lparr>CapHandoffCode := [], CapClientNonce := [], CapCreated := (CapCreated capsule)\<lparr>CirClaimToken := []\<rparr>,
       CapInput := (case cdSettings d of None \<Rightarrow> CapInput capsule
         | Some settings \<Rightarrow> if StRetentionDays settings = 0 then [] else CapInput capsule)\<rparr>"

definition CompleteSession ::
    "entpay_library \<Rightarrow> protector \<Rightarrow> (string \<Rightarrow> ResultEnvelope res) \<Rightarrow> int \<Rightarrow> client_db \<Rightarrow> string \<Rightarrow> int \<Rightarrow> string \<Rightarrow>
     ArtifactMetadata option \<Rightarrow> client_result" where
  "CompleteSession E P decode now d i expectedRevision artifactPath metadata = commit_session E decode d i
     (attempt (Capsule P d i) (\<lambda>capsule.
      attempt (SealCapsule P i (clearedCapsule d capsule)) (\<lambda>encrypted.
      let at = Unix now;
          (d', changed) = update_session (\<lambda>r. SnID r = i \<and> SnRevision r = expectedRevision \<and> SnStage r = StageVerifying)
            (\<lambda>r. r\<lparr>RwCapsule := encrypted, SnArtifactPath := artifactPath,
              SnArtifactSHA256 := (case metadata of None \<Rightarrow> [] | Some m \<Rightarrow> MetaSHA256 m),
              SnArtifactMediaType := (case metadata of None \<Rightarrow> [] | Some m \<Rightarrow> MetaMediaType m),
              SnArtifactBytes := (case metadata of None \<Rightarrow> 0 | Some m \<Rightarrow> MetaBytes m),
              SnStage := StageComplete, SnRevision := SnRevision r + 1, SnErrorCode := [], SnErrorMessage := [],
              RwUpdatedAt := at, RwCompletedAt := Some at\<rparr>) d
      in if changed \<noteq> 1 then Inl ErrClientRevision
         else Inr (log_transition i (Some StageVerifying) StageComplete (expectedRevision + 1) at d'))))"

definition TerminateWithoutPayment ::
    "entpay_library \<Rightarrow> protector \<Rightarrow> (string \<Rightarrow> ResultEnvelope res) \<Rightarrow> int \<Rightarrow> client_db \<Rightarrow> string \<Rightarrow> int \<Rightarrow> ClientStage \<Rightarrow>
     string \<Rightarrow> string \<Rightarrow> client_result" where
  "TerminateWithoutPayment E P decode now d i expectedRevision stage errorCode errorMessage = commit_session E decode d i
     (if stage \<noteq> StageRejected \<and> stage \<noteq> StageInvalid \<and> stage \<noteq> StageExpired then Inl ErrClientStage
      else attempt (Capsule P d i) (\<lambda>capsule.
        attempt (SealCapsule P i (clearedCapsule d capsule)) (\<lambda>encrypted.
        case session_by_id d i of
          None \<Rightarrow> Inl (Errorf ''sql: no rows in result set'')
        | Some row \<Rightarrow>
          if SnRevision row \<noteq> expectedRevision \<or> \<not> validClientTransition (SnStage row) stage then Inl ErrClientRevision
          else let (d', changed) = update_session (\<lambda>r. SnID r = i \<and> SnRevision r = expectedRevision \<and> SnStage r = SnStage row \<and>
                  RwTxId r = None)
                (\<lambda>r. r\<lparr>RwCapsule := encrypted, SnStage := stage, SnRevision := SnRevision r + 1, SnErrorCode := errorCode,
                  SnErrorMessage := errorMessage, RwUpdatedAt := Unix now\<rparr>) d
            in if changed \<noteq> 1 then Inl ErrClientRevision
               else Inr (log_transition i (Some (SnStage row)) stage (expectedRevision + 1) (Unix now) d'))))"

definition transition ::
    "entpay_library \<Rightarrow> (string \<Rightarrow> ResultEnvelope res) \<Rightarrow> int \<Rightarrow> client_db \<Rightarrow> string \<Rightarrow> int \<Rightarrow> ClientStage \<Rightarrow> string \<Rightarrow> string \<Rightarrow>
     client_result" where
  "transition E decode now d i expectedRevision to' errorCode errorMessage = commit_session E decode d i
     (if \<not> validClientStage (Some to') \<or> expectedRevision = 0 \<or> length errorCode > 80 \<or> length errorMessage > 500
      then Inl ErrClientStage
      else case session_by_id d i of
        None \<Rightarrow> Inl ErrClientSessionNotFound
      | Some row \<Rightarrow>
        if SnRevision row \<noteq> expectedRevision then Inl ErrClientRevision
        else if \<not> validClientTransition (SnStage row) to' then Inl ErrClientStage
        else let at = Unix now;
            retryStage = (if to' = StageFailedRetryable then Some (SnStage row) else None);
            (d', changed) = update_session (\<lambda>r. SnID r = i \<and> SnRevision r = expectedRevision)
              (\<lambda>r. r\<lparr>SnStage := to', SnRetryStage := retryStage, SnRevision := SnRevision r + 1, SnErrorCode := errorCode,
                SnErrorMessage := errorMessage, RwUpdatedAt := at,
                RwCompletedAt := (if to' = StageComplete then Some at else RwCompletedAt r)\<rparr>) d
          in if changed \<noteq> 1 then Inl ErrClientRevision
             else Inr (log_transition i (Some (SnStage row)) to' (expectedRevision + 1) at d'))"

section \<open>Deleting and settings\<close>

definition deletable :: "session_row \<Rightarrow> bool" where
  "deletable r \<longleftrightarrow>
     SnStage r \<in> {StageAwaitingApproval, StageComplete, StageInvalid, StageExpired, StageRejected, StageFailedTerminal} \<or>
     (SnStage r = StageFailedRetryable \<and> (case RwTxId r of None \<Rightarrow> [] | Some t \<Rightarrow> t) = [])"

text \<open>The log of a session goes with it (\<open>ON DELETE CASCADE\<close>).\<close>

definition DeleteSession :: "client_db \<Rightarrow> string \<Rightarrow> client_db \<times> unit res" where
  "DeleteSession d i =
     (let (rows, changed) = sql_delete (\<lambda>r. SnID r = i \<and> deletable r) (cdSessions d)
      in if changed \<noteq> 1 then (d, Inl ErrClientStage)
         else (d\<lparr>cdSessions := rows, cdTransitions := filter (\<lambda>t. TrSession t \<noteq> i) (cdTransitions d)\<rparr>, Inr ()))"

definition Settings :: "client_db \<Rightarrow> ClientSettings res" where
  "Settings d = (case cdSettings d of None \<Rightarrow> Inl (Errorf ''sql: no rows in result set'') | Some st \<Rightarrow> Inr st)"

definition EnsureSettings :: "client_db \<Rightarrow> u64 \<Rightarrow> string \<Rightarrow> client_db \<times> ClientSettings res" where
  "EnsureSettings d maximumAmount artifactDirectory =
     (if maximumAmount = 0 \<or> maximumAmount > MaxSupply \<or> TrimSpace artifactDirectory = []
      then (d, Inl (Errorf ''EntPay settings defaults are invalid''))
      else let d' = (case cdSettings d of
          Some _ \<Rightarrow> d
        | None \<Rightarrow> d\<lparr>cdSettings := Some \<lparr>StRevision = 1, StRequireEveryApproval = True, StMaximumAmount = maximumAmount,
            StArtifactDirectory = artifactDirectory, StRetentionDays = 30\<rparr>\<rparr>)
        in (d', Settings d'))"

text \<open>\<open>directory\<close> is the absolute path of the given directory, checked to be one, or an error.\<close>

definition SaveSettings :: "string res \<Rightarrow> client_db \<Rightarrow> ClientSettings \<Rightarrow> int \<Rightarrow> client_db \<times> ClientSettings res" where
  "SaveSettings directory d input expectedRevision =
     (if \<not> StRequireEveryApproval input \<or> StMaximumAmount input = 0 \<or> StMaximumAmount input > MaxSupply \<or> expectedRevision = 0 \<or>
         StRetentionDays input \<notin> {-1, 0, 7, 30}
      then (d, Inl (Errorf ''EntPay settings are invalid''))
      else case directory of
        Inl e \<Rightarrow> (d, Inl e)
      | Inr path \<Rightarrow>
        (case cdSettings d of
           None \<Rightarrow> (d, Inl ErrClientRevision)
         | Some st \<Rightarrow>
           if StRevision st \<noteq> expectedRevision then (d, Inl ErrClientRevision)
           else let d' = d\<lparr>cdSettings := Some (st\<lparr>StRevision := StRevision st + 1, StMaximumAmount := StMaximumAmount input,
               StArtifactDirectory := path, StRetentionDays := StRetentionDays input\<rparr>)\<rparr>
             in (d', Settings d')))"

text \<open>One session of the purge: what was done before an error stays done.\<close>

definition purgeSession :: "protector \<Rightarrow> client_db \<Rightarrow> string \<Rightarrow> client_db res" where
  "purgeSession P d i =
     attempt (Capsule P d i) (\<lambda>capsule.
     if CapInput capsule = [] then Inr d
     else attempt (SealCapsule P i (capsule\<lparr>CapInput := []\<rparr>)) (\<lambda>encrypted.
       Inr (fst (update_session (\<lambda>r. SnID r = i) (\<lambda>r. r\<lparr>RwCapsule := encrypted\<rparr>) d))))"

fun purgeLoop :: "protector \<Rightarrow> client_db \<Rightarrow> string list \<Rightarrow> client_db \<times> unit res" where
  "purgeLoop P d [] = (d, Inr ())"
| "purgeLoop P d (i # is) = (case purgeSession P d i of Inl e \<Rightarrow> (d, Inl e) | Inr d' \<Rightarrow> purgeLoop P d' is)"

definition PurgeExpiredRequestDetails :: "protector \<Rightarrow> int \<Rightarrow> client_db \<Rightarrow> client_db \<times> unit res" where
  "PurgeExpiredRequestDetails P now d =
     (case Settings d of
        Inl e \<Rightarrow> (d, Inl e)
      | Inr st \<Rightarrow>
        if StRetentionDays st < 0 then (d, Inr ())
        else let cutoff = Unix (now - StRetentionDays st * 24 * Hour) in
          purgeLoop P d (map SnID (filter (\<lambda>r.
            SnStage r \<in> {StageComplete, StageInvalid, StageExpired, StageRejected, StageFailedTerminal} \<and> RwUpdatedAt r \<le> cutoff)
            (cdSessions d))))"

end
