(* ===== verification/Client_Manager.thy ===== *)
theory Client_Manager
  imports Client_Store
begin

text \<open>
  \<open>entpay/client_manager.go\<close>: how a session is driven to its payment. Each
  function takes the tables and returns the new ones with its result. The answers of the merchant, of
  the wallet and of the node are arguments; \<open>clock n\<close> is the reading of the clock at the \<open>n\<close>-th place of the
  function that looks at it. Notifications of the user interface are left out. Where Go returns a
  session together with an error the result here is the error.
\<close>

section \<open>Redeeming\<close>

text \<open>An HTTP answer: \<open>RrDecoded\<close> is the strict decoding of its body.\<close>

record redeem_response =
  RrStatus :: int
  RrCacheControl :: string
  RrContents :: string
  RrDecoded :: "HandoffCapsule res"

text \<open>
  A header compared with ASCII text as \<open>strings.EqualFold\<close> does it: the long s (U+017F) and the Kelvin sign
  (U+212A) fold to ASCII letters.
\<close>

fun ascii_fold :: "string \<Rightarrow> string" where
  "ascii_fold [] = []"
| "ascii_fold (a # s) =
     (if starts_with (a # s) [CHR 0xC5, CHR 0xBF] then CHR ''s'' # ascii_fold (tl s)
      else if starts_with (a # s) [CHR 0xE2, CHR 0x84, CHR 0xAA] then CHR ''k'' # ascii_fold (tl (tl s))
      else to_lower a # ascii_fold s)"

definition headerFold :: "string \<Rightarrow> string \<Rightarrow> bool" where
  "headerFold s ascii \<longleftrightarrow> ascii_fold s = map to_lower ascii"

definition redeem :: "entpay_library \<Rightarrow> redeem_response res \<Rightarrow> string \<Rightarrow> string \<Rightarrow> HandoffCapsule res" where
  "redeem E answer code nonce =
     (if validateOpaqueToken code \<noteq> Inr () \<or> validateOpaqueToken nonce \<noteq> Inr () then Inl (Errorf ''handoff secret is invalid'')
      else attempt answer (\<lambda>response.
        if length (RrContents response) > maxRequestBytes then Inl (Errorf ''EntPay handoff response is invalid'')
        else if RrStatus response \<noteq> 200 then Inl (Errorf ''EntPay handoff returned HTTP status'')
        else if \<not> headerFold (TrimSpace (RrCacheControl response)) ''no-store'' then Inl (Errorf ''EntPay handoff response is cacheable'')
        else attempt (rejectDuplicateJSONKeys E (RrContents response)) (\<lambda>_. RrDecoded response)))"

section \<open>The manager and its settings\<close>

record client_manager =
  MgMaximumAmount :: u64
  MgArtifactDirectory :: string

definition NewClientManager :: "client_db \<Rightarrow> u64 \<Rightarrow> string \<Rightarrow> client_db \<times> client_manager res" where
  "NewClientManager d maximumAmount artifactDirectory =
     (if maximumAmount = 0 \<or> TrimSpace artifactDirectory = []
      then (d, Inl (Errorf ''EntPay client manager configuration is incomplete''))
      else case EnsureSettings d maximumAmount artifactDirectory of
        (d', Inl e) \<Rightarrow> (d', Inl e)
      | (d', Inr settings) \<Rightarrow>
        (d', Inr \<lparr>MgMaximumAmount = StMaximumAmount settings, MgArtifactDirectory = StArtifactDirectory settings\<rparr>))"

definition managerSaveSettings ::
    "string res \<Rightarrow> client_manager \<Rightarrow> client_db \<Rightarrow> ClientSettings \<Rightarrow> int \<Rightarrow> client_manager \<times> client_db \<times> ClientSettings res" where
  "managerSaveSettings directory m d settings expectedRevision =
     (case SaveSettings directory d settings expectedRevision of
        (d', Inl e) \<Rightarrow> (m, d', Inl e)
      | (d', Inr updated) \<Rightarrow>
        (m\<lparr>MgMaximumAmount := StMaximumAmount updated, MgArtifactDirectory := StArtifactDirectory updated\<rparr>, d', Inr updated))"

text \<open>The details of a session: the request itself is shown while it awaits approval.\<close>

definition SessionDetail ::
    "entpay_library \<Rightarrow> protector \<Rightarrow> (string \<Rightarrow> ResultEnvelope res) \<Rightarrow> client_db \<Rightarrow> string \<Rightarrow> (ClientSession \<times> string) res" where
  "SessionDetail E P decode d i =
     attempt (Session E decode d i) (\<lambda>session.
     if SnStage session = StageAwaitingApproval
     then attempt (Capsule P d i) (\<lambda>capsule. Inr (session, CapInput capsule))
     else Inr (session, []))"

section \<open>Failing\<close>

text \<open>The parameters that every function passes on.\<close>

record client_context =
  CxCrypto :: crypto
  CxLibrary :: entpay_library
  CxProtector :: protector
  CxDecode :: "string \<Rightarrow> ResultEnvelope res"

definition cx_transition ::
    "client_context \<Rightarrow> int \<Rightarrow> client_db \<Rightarrow> ClientSession \<Rightarrow> ClientStage \<Rightarrow> string \<Rightarrow> string \<Rightarrow> client_result" where
  "cx_transition X now d session to' code message =
     transition (CxLibrary X) (CxDecode X) now d (SnID session) (SnRevision session) to' code message"

definition failSession ::
    "client_context \<Rightarrow> int \<Rightarrow> client_db \<Rightarrow> ClientSession \<Rightarrow> ClientStage \<Rightarrow> string \<Rightarrow> string \<Rightarrow> go_error option \<Rightarrow> client_result" where
  "failSession X now d session stage code message cause =
     (let (d', updated) = (if (stage = StageInvalid \<or> stage = StageExpired) \<and> CsTransactionID session = []
        then TerminateWithoutPayment (CxLibrary X) (CxProtector X) (CxDecode X) now d (SnID session) (SnRevision session) stage code message
        else cx_transition X now d session stage code message)
      in (d', case updated of Inl e \<Rightarrow> Inl e | Inr s \<Rightarrow> (case cause of None \<Rightarrow> Inr s | Some e \<Rightarrow> Inl e)))"

definition terminalInspectionStage :: "int \<Rightarrow> Invoice \<Rightarrow> ClientStage" where
  "terminalInspectionStage now invoice =
     (if InvExpiresAt invoice \<noteq> zeroTime \<and> now > InvExpiresAt invoice then StageExpired else StageInvalid)"

section \<open>Inspecting a request\<close>

record inspect_answers =
  InRedeemed :: "redeem_response res"
  InInfo :: "ServiceInfo res"
  InAddress :: string
  InPreview :: "PaymentPreview res"

definition reviewRequest ::
    "client_context \<Rightarrow> (nat \<Rightarrow> int) \<Rightarrow> inspect_answers \<Rightarrow> u64 \<Rightarrow> client_db \<Rightarrow> ClientSession \<Rightarrow> clientSessionCapsule \<Rightarrow>
     client_result" where
  "reviewRequest X clock answers maximumAmount d session capsule =
     (case InspectPreparedPaymentDetails (CxCrypto X) (CxLibrary X) (clock 2) (clock 3) (InInfo answers) (SnEndpoint session)
          (CapInput capsule) maximumAmount (CapCreated capsule) of
        Inl e \<Rightarrow> failSession X (clock 5) d session (terminalInspectionStage (clock 4) (CirInvoice (CapCreated capsule))) ''invoice_invalid''
          ''Payment has not been sent. The signed invoice failed verification.'' (Some e)
      | Inr (approval, info) \<Rightarrow>
        (case InPreview answers of
           Inl e \<Rightarrow> failSession X (clock 5) d session StageFailedRetryable ''preview_unavailable''
             ''Payment has not been sent. The wallet preview is unavailable.'' (Some e)
         | Inr preview \<Rightarrow> SaveReview (CxCrypto X) (CxLibrary X) (CxDecode X) (clock 5) d (SnID session) (SnRevision session) info
             (ArProduct approval) (ArInvoice approval) preview))"

definition inspect ::
    "client_context \<Rightarrow> (nat \<Rightarrow> int) \<Rightarrow> inspect_answers \<Rightarrow> u64 \<Rightarrow> client_db \<Rightarrow> ClientSession \<Rightarrow> client_result" where
  "inspect X clock answers maximumAmount d session =
     (case Capsule (CxProtector X) d (SnID session) of
        Inl e \<Rightarrow> failSession X (clock 0) d session StageFailedRetryable ''secret_unavailable''
          ''Payment has not been sent. The protected request could not be opened.'' (Some e)
      | Inr capsule \<Rightarrow>
        if CirClaimToken (CapCreated capsule) \<noteq> [] then reviewRequest X clock answers maximumAmount d session capsule
        else case redeem (CxLibrary X) (InRedeemed answers) (CapHandoffCode capsule) (CapClientNonce capsule) of
          Inl e \<Rightarrow> failSession X (clock 0) d session StageFailedRetryable ''handoff_unavailable''
            ''Payment has not been sent. The payment link could not be redeemed.'' (Some e)
        | Inr redeemed \<Rightarrow>
          if HcEndpoint redeemed \<noteq> SnEndpoint session
          then failSession X (clock 0) d session StageInvalid ''endpoint_mismatch''
            ''Payment has not been sent. The merchant endpoint did not match the payment link.'' None
          else case SaveRedeemedCapsule (CxLibrary X) (CxProtector X) (CxDecode X) (clock 1) d (SnID session) (SnRevision session) redeemed of
            (d', Inl e) \<Rightarrow> (d', Inl e)
          | (d', Inr session') \<Rightarrow> reviewRequest X clock answers maximumAmount d' session'
              \<lparr>CapHandoffCode = [], CapClientNonce = [], CapInput = HcInput redeemed, CapCreated = HcCreated redeemed\<rparr>)"

text \<open>\<open>Receive\<close> inspects in the foreground, \<open>ReceiveQueued\<close> in the background.\<close>

definition Receive ::
    "client_context \<Rightarrow> (nat \<Rightarrow> int) \<Rightarrow> bytes res \<Rightarrow> bytes res \<Rightarrow> inspect_answers \<Rightarrow> u64 \<Rightarrow> client_db \<Rightarrow> LaunchRequest \<Rightarrow>
     client_result" where
  "Receive X clock nonceRandom idRandom answers maximumAmount d launch =
     (case newOpaqueToken nonceRandom of
        Inl e \<Rightarrow> (d, Inl e)
      | Inr nonce \<Rightarrow>
        (case CreateReceived (CxCrypto X) (CxLibrary X) (CxProtector X) (CxDecode X) idRandom (clock 6) d launch nonce of
           (d1, Inl e) \<Rightarrow> (d1, Inl e)
         | (d1, Inr session) \<Rightarrow>
           if SnStage session \<noteq> StageReceived then (d1, Inr session)
           else case cx_transition X (clock 7) d1 session StageInspecting [] [] of
             (d2, Inl e) \<Rightarrow> (d2, Inl e)
           | (d2, Inr session') \<Rightarrow> inspect X clock answers maximumAmount d2 session'))"

text \<open>What is started in the background.\<close>

datatype launched =
    LaunchInspect ClientSession
  | LaunchContinue string
  | LaunchVerify ClientSession
  | LaunchRetry string int

definition StartContinuation :: "string \<Rightarrow> launched" where
  "StartContinuation i = LaunchContinue i"

definition StartRetry :: "string \<Rightarrow> int \<Rightarrow> launched" where
  "StartRetry i expectedRevision = LaunchRetry i expectedRevision"

definition ReceiveQueued ::
    "client_context \<Rightarrow> (nat \<Rightarrow> int) \<Rightarrow> bytes res \<Rightarrow> bytes res \<Rightarrow> client_db \<Rightarrow> LaunchRequest \<Rightarrow>
     client_result \<times> launched option" where
  "ReceiveQueued X clock nonceRandom idRandom d launch =
     (case newOpaqueToken nonceRandom of
        Inl e \<Rightarrow> ((d, Inl e), None)
      | Inr nonce \<Rightarrow>
        (case CreateReceived (CxCrypto X) (CxLibrary X) (CxProtector X) (CxDecode X) idRandom (clock 6) d launch nonce of
           (d1, Inl e) \<Rightarrow> ((d1, Inl e), None)
         | (d1, Inr session) \<Rightarrow>
           if SnStage session = StageReceived then
             (case cx_transition X (clock 7) d1 session StageInspecting [] [] of
                (d2, Inl e) \<Rightarrow> ((d2, Inl e), None)
              | (d2, Inr session') \<Rightarrow> ((d2, Inr session'), Some (LaunchInspect session')))
           else ((d1, Inr session), if SnStage session = StageInspecting then Some (LaunchInspect session) else None)))"

section \<open>Approving and paying\<close>

text \<open>The sessions that are being driven: an operation does nothing when its session is one of them.\<close>

definition begin_active :: "string set \<Rightarrow> string \<Rightarrow> string set option" where
  "begin_active active i = (if i \<in> active then None else Some (insert i active))"

definition end_active :: "string set \<Rightarrow> string \<Rightarrow> string set" where
  "end_active active i = active - {i}"

record readiness =
  RdPeerCount :: int
  RdSyncing :: bool
  RdBestPeerHeight :: u64
  RdHeight :: u64
  RdWalletNeedsBackup :: bool

text \<open>The arguments of \<open>CommitPreparedPayment\<close>.\<close>

record commit_call =
  CallWallet :: string
  CallTo :: string
  CallAmount :: u64
  CallFee :: u64
  CallCeiling :: u64
  CallTransaction :: transaction

record approve_answers =
  AaReadiness :: "readiness res"
  AaPreview :: "PaymentPreview res"
  AaPrepared :: "(transaction \<times> u64) res"
  AaCommitted :: "commit_call \<Rightarrow> unit res"

text \<open>The call, with the tables as they are when it is made, and what is recorded of its result.\<close>

definition approveCommit ::
    "client_context \<Rightarrow> (nat \<Rightarrow> int) \<Rightarrow> approve_answers \<Rightarrow> client_db \<Rightarrow> ClientSession \<Rightarrow> Invoice \<Rightarrow> transaction \<Rightarrow> u64 \<Rightarrow>
     (commit_call \<times> client_db) option \<times> client_result" where
  "approveCommit X clock answers d session invoice tx fee =
     (let call = \<lparr>CallWallet = SnWallet session, CallTo = InvMerchant invoice, CallAmount = InvAmount invoice, CallFee = fee,
        CallCeiling = SnFeeCeiling session, CallTransaction = tx\<rparr>
      in (Some (call, d), case AaCommitted answers call of
         Inl _ \<Rightarrow> cx_transition X (clock 4) d session StageAwaitingApproval ''payment_not_broadcast''
           ''Payment has not been sent. The prepared transaction was not broadcast.''
       | Inr _ \<Rightarrow> cx_transition X (clock 4) d session StageBroadcast [] []))"

text \<open>What follows the move to \<open>preparing_payment\<close>: a session that has a transaction broadcasts that one.\<close>

definition approvePay ::
    "client_context \<Rightarrow> (nat \<Rightarrow> int) \<Rightarrow> approve_answers \<Rightarrow> client_db \<Rightarrow> ClientSession \<Rightarrow> Invoice \<Rightarrow> (commit_call \<times> client_db) option \<times> client_result" where
  "approvePay X clock answers d session invoice =
     (if CsTransactionID session = [] then
        (case AaPrepared answers of
           Inl _ \<Rightarrow> (None, cx_transition X (clock 2) d session StageAwaitingApproval ''payment_preparation_failed''
             ''Payment has not been sent. The transaction could not be prepared.'')
         | Inr (tx, fee) \<Rightarrow>
           (case JournalPayment (CxCrypto X) (CxLibrary X) (CxDecode X) (clock 3) d (SnID session) (SnRevision session) tx fee of
              (d', Inl e) \<Rightarrow> (None, d', Inl e)
            | (d', Inr session') \<Rightarrow>
              (case SnInvoice session' of
                 None \<Rightarrow> (None, d', Inl (GoPanic ''nil invoice''))
               | Some invoice' \<Rightarrow> approveCommit X clock answers d' session' invoice' tx fee)))
      else case StoredTransaction (CxCrypto X) d (SnID session) of
        Inl e \<Rightarrow> (None, d, Inl e)
      | Inr tx \<Rightarrow> approveCommit X clock answers d session invoice tx (SnEstimatedFee session))"

definition Approve ::
    "client_context \<Rightarrow> (nat \<Rightarrow> int) \<Rightarrow> approve_answers \<Rightarrow> string set \<Rightarrow> client_db \<Rightarrow> string \<Rightarrow> int \<Rightarrow>
     (commit_call \<times> client_db) option \<times> client_result" where
  "Approve X clock answers active d i expectedRevision =
     (if begin_active active i = None then (None, d, Inl ErrClientRevision)
      else case Session (CxLibrary X) (CxDecode X) d i of
        Inl e \<Rightarrow> (None, d, Inl e)
      | Inr session \<Rightarrow>
        if SnRevision session \<noteq> expectedRevision then (None, d, Inl ErrClientRevision)
        else if SnStage session \<noteq> StageAwaitingApproval \<or> SnProduct session = None then (None, d, Inl ErrClientStage)
        else case SnInvoice session of
          None \<Rightarrow> (None, d, Inl ErrClientStage)
        | Some invoice \<Rightarrow>
          if SnTrust session = ''changed''
          then (None, d, Inl (Errorf ''merchant identity changed; review and re-establish trust before payment''))
          else if clock 0 > InvExpiresAt invoice
          then (None, transition (CxLibrary X) (CxDecode X) (clock 1) d i expectedRevision StageExpired ''invoice_expired''
            ''Payment has not been sent. The invoice expired before approval.'')
          else if (case AaReadiness answers of Inl _ \<Rightarrow> True | Inr n \<Rightarrow> RdPeerCount n < 1 \<or> RdSyncing n \<or>
              RdBestPeerHeight n > RdHeight n \<or> RdWalletNeedsBackup n)
          then (None, d, Inl (Errorf ''payment readiness check failed: connect and sync the node, then secure the wallet recovery material''))
          else case AaPreview answers of
            Inl e \<Rightarrow> (None, d, Inl e)
          | Inr preview \<Rightarrow>
            if PrWallet preview \<noteq> SnWallet session \<or> PrWalletNeedsBackup preview \<or> \<not> PrHasSufficientFunds preview \<or>
               PrMaximumFee preview > SnFeeCeiling session
            then (None, d, Inl (Errorf ''payment terms changed after review; refresh the payment request''))
            else case transition (CxLibrary X) (CxDecode X) (clock 1) d i expectedRevision StagePreparingPayment [] [] of
              (d', Inl e) \<Rightarrow> (None, d', Inl e)
            | (d', Inr session') \<Rightarrow>
              (case SnInvoice session' of
                 None \<Rightarrow> (None, d', Inl (GoPanic ''nil invoice''))
               | Some invoice' \<Rightarrow> approvePay X clock answers d' session' invoice'))"

definition Reject :: "client_context \<Rightarrow> int \<Rightarrow> client_db \<Rightarrow> string \<Rightarrow> int \<Rightarrow> client_result" where
  "Reject X now d i expectedRevision =
     TerminateWithoutPayment (CxLibrary X) (CxProtector X) (CxDecode X) now d i expectedRevision StageRejected ''rejected''
       ''Payment rejected; no transaction was created.''"

definition ReestablishMerchantTrust :: "client_context \<Rightarrow> int \<Rightarrow> client_db \<Rightarrow> string \<Rightarrow> int \<Rightarrow> client_result" where
  "ReestablishMerchantTrust X now d i expectedRevision =
     storeReestablishMerchantTrust (CxLibrary X) (CxDecode X) now d i expectedRevision"

end
