(* ===== verification/Client_Delivery.thy ===== *)
theory Client_Delivery
  imports Client_Manager
begin

text \<open>
  The rest of \<open>entpay/client_manager.go\<close>, after the payment: submitting it, waiting for the delivery,
  verifying and storing it, retrying and recovering; and the download of \<open>entpay/delivery_preview.go\<close>.
\<close>

section \<open>Saving an artifact\<close>

definition TrimSuffix :: "string \<Rightarrow> string \<Rightarrow> string" where
  "TrimSuffix s suf = (if length suf \<le> length s \<and> drop (length s - length suf) s = suf then take (length s - length suf) s else s)"

text \<open>\<open>filepath.Ext\<close>: from the last dot of the last element of the path.\<close>

definition filepath_Ext :: "string \<Rightarrow> string" where
  "filepath_Ext path =
     (let name = rev (takeWhile (\<lambda>c. c \<noteq> CHR ''/'') (rev path)); tail = rev (takeWhile (\<lambda>c. c \<noteq> CHR ''.'') (rev name))
      in if tail = name then [] else CHR ''.'' # tail)"

text \<open>\<open>filepath.Join\<close> of an absolute clean directory and a name that is neither a dot nor dots.\<close>

definition filepath_Join :: "string \<Rightarrow> string \<Rightarrow> string" where
  "filepath_Join directory name = (if directory = ''/'' then ''/'' @ name else directory @ ''/'' @ name)"

definition to_upper :: "char \<Rightarrow> char" where
  "to_upper c = (let n = of_char c :: nat in if 97 \<le> n \<and> n \<le> 122 then char_of (n - 32) else c)"

definition reserved_names :: "string list" where
  "reserved_names = [''CON'', ''PRN'', ''AUX'', ''NUL''] @
     concat (map (\<lambda>index. [''COM'' @ FormatUint index, ''LPT'' @ FormatUint index]) [1..<10])"

definition validClientArtifactName :: "string \<Rightarrow> bool" where
  "validClientArtifactName v \<longleftrightarrow>
     (let name = TrimSpace v in
      \<not> (name = [] \<or> length name > 120 \<or> filepath_Base name \<noteq> name \<or> (name \<noteq> [] \<and> last name = CHR ''.'') \<or>
         ContainsAny name (''<>:'' @ [CHR 0x22] @ ''/'' @ [CHR 0x5C] @ ''|?*'' @ [CHR 0x00, CHR 0x0D, CHR 0x0A])) \<and>
      list_all (\<lambda>c. (of_char c :: nat) \<ge> 32) name \<and>
      map to_upper (TrimSuffix name (filepath_Ext name)) \<notin> set reserved_names)"

definition artifact_candidates :: "string \<Rightarrow> string \<Rightarrow> string list" where
  "artifact_candidates suggested invoiceID =
     (let base = TrimSuffix suggested (filepath_Ext suggested); extension = filepath_Ext suggested; tag = take 8 invoiceID in
      [suggested, base @ ''-'' @ tag @ extension] @
      map (\<lambda>index. base @ ''-'' @ tag @ ''-'' @ FormatUint index @ extension) [2..<101])"

text \<open>\<open>lstat\<close> tells whether a path exists, or fails.\<close>

fun firstAvailable :: "(string \<Rightarrow> bool res) \<Rightarrow> string \<Rightarrow> string list \<Rightarrow> string res" where
  "firstAvailable lstat directory [] = Inl (Errorf ''artifact destination has too many conflicts'')"
| "firstAvailable lstat directory (name # names) =
     attempt (lstat (filepath_Join directory name)) (\<lambda>exists'.
     if exists' then firstAvailable lstat directory names else Inr (filepath_Join directory name))"

definition availableArtifactPath :: "(string \<Rightarrow> bool res) \<Rightarrow> string \<Rightarrow> string \<Rightarrow> string \<Rightarrow> string res" where
  "availableArtifactPath lstat directory suggested invoiceID =
     (if length invoiceID < 8 then Inl (GoPanic ''slice bounds out of range'')
      else firstAvailable lstat directory (artifact_candidates suggested invoiceID))"

text \<open>
  The file system and the server, as they answer: the secured directory, \<open>Lstat\<close>, the HTTP response with
  the bytes that could be copied from it, the temporary file, its flush, and the hard link.
\<close>

record download_answers =
  DlRoot :: "string res"
  DlLstat :: "string \<Rightarrow> bool res"
  DlResponse :: "artifact_response res"
  DlTemporary :: "unit res"
  DlCopied :: "unit res"
  DlFlushed :: "unit res"
  DlLink :: "string \<Rightarrow> unit res"

text \<open>What is read of the body through the limit.\<close>

definition limitedBody :: "artifact_response \<Rightarrow> bytes" where
  "limitedBody response = take (nat maxArtifactBytes + 1) (ArBody response)"

definition downloadClientArtifact ::
    "crypto \<Rightarrow> download_answers \<Rightarrow> string \<Rightarrow> Delivery \<Rightarrow> string res \<Rightarrow> string res" where
  "downloadClientArtifact C answers invoiceID delivery token =
     (case DelArtifact delivery of
        None \<Rightarrow> Inl (Errorf ''artifact metadata is invalid'')
      | Some metadata \<Rightarrow>
        if MetaDownloadPath metadata \<noteq> artifact_path invoiceID \<or> \<not> validClientArtifactName (MetaFileName metadata)
        then Inl (Errorf ''artifact metadata is invalid'')
        else attempt (DlRoot answers) (\<lambda>root.
          attempt (availableArtifactPath (DlLstat answers) root (MetaFileName metadata) invoiceID) (\<lambda>destination.
          if (case token of Inl _ \<Rightarrow> True | Inr t \<Rightarrow> t = []) then Inl (Errorf ''artifact capability is unavailable'')
          else attempt (DlResponse answers) (\<lambda>response.
            if ArStatus response \<noteq> 200 then Inl (Errorf ''artifact download returned HTTP status'')
            else if TrimSpace (hd (split_char CHR '';'' (ArContentType response))) \<noteq> MetaMediaType metadata
            then Inl (Errorf ''artifact media type does not match Receipt'')
            else attempt (DlTemporary answers) (\<lambda>_.
              let contents = limitedBody response; written = int (length contents) in
              if DlCopied answers \<noteq> Inr () \<or> written \<noteq> MetaBytes metadata \<or> written > maxArtifactBytes \<or>
                 contentHash C contents \<noteq> MetaSHA256 metadata
              then Inl (Errorf ''artifact size or SHA-256 does not match Receipt'')
              else attempt (DlFlushed answers) (\<lambda>_.
                case DlLink answers destination of
                  Inl _ \<Rightarrow> Inl (Errorf ''save artifact without overwrite'')
                | Inr _ \<Rightarrow> Inr destination))))))"

section \<open>Talking to the merchant\<close>

text \<open>\<open>agentJSONStatus\<close>: the status of the answer, and the decoding of its body that the caller asked for.\<close>

definition agentJSONStatus :: "(int \<times> 'a res) res \<Rightarrow> (int \<times> 'a) res" where
  "agentJSONStatus answer =
     attempt answer (\<lambda>(status, decoded).
     if status < 200 \<or> status \<ge> 300 then Inl (Errorf ''EntPay returned HTTP status'')
     else attempt decoded (\<lambda>output. Inr (status, output)))"

definition submit ::
    "client_context \<Rightarrow> (int \<times> PaymentStatus res) res \<Rightarrow> client_db \<Rightarrow> ClientSession \<Rightarrow> Invoice \<Rightarrow> unit res" where
  "submit X answer d session invoice =
     attempt (Capsule (CxProtector X) d (SnID session)) (\<lambda>_.
     attempt (StoredTransaction (CxCrypto X) d (SnID session)) (\<lambda>_.
     attempt (agentJSONStatus answer) (\<lambda>(_, status).
     if PsInvoiceID status \<noteq> InvID invoice \<or> PsTransactionID status \<noteq> CsTransactionID session \<or>
        PsStatus status \<noteq> ''submitted'' \<or> PsRequired status \<noteq> InvConfirmations invoice
     then Inl (Errorf ''merchant submission response is inconsistent'') else Inr ())))"

text \<open>The body of a claim answer, decoded as a delivery and as a status.\<close>

record claim_body =
  CbDelivery :: "Delivery res"
  CbStatus :: "PaymentStatus res"

definition claim ::
    "client_context \<Rightarrow> (int \<times> claim_body res) res \<Rightarrow> client_db \<Rightarrow> ClientSession \<Rightarrow> (Delivery + PaymentStatus) res" where
  "claim X answer d session =
     attempt (Capsule (CxProtector X) d (SnID session)) (\<lambda>_.
     attempt (agentJSONStatus answer) (\<lambda>(statusCode, raw).
     if statusCode = 200 then attempt (CbDelivery raw) (\<lambda>delivery. Inr (Inl delivery))
     else if statusCode \<noteq> 202 then Inl (Errorf ''unexpected EntPay claim status'')
     else attempt (CbStatus raw) (\<lambda>status. Inr (Inr status))))"

definition verifyDelivery ::
    "client_context \<Rightarrow> int \<Rightarrow> download_answers \<Rightarrow> client_db \<Rightarrow> ClientSession \<Rightarrow> Invoice \<Rightarrow> Delivery \<Rightarrow> client_result" where
  "verifyDelivery X now answers d session invoice delivery =
     (if (case RawURLDecode (SnSigningKey session) of
            Inl _ \<Rightarrow> True
          | Inr pk \<Rightarrow> length pk \<noteq> PublicKeySize \<or>
              validateDelivery (CxCrypto X) (CxLibrary X) pk invoice (CsTransactionID session) delivery \<noteq> Inr ())
      then failSession X now d session StageFailedRetryable ''delivery_invalid''
        ''Payment was sent. The delivery failed Receipt or payload verification. Retry will request a fresh delivery.'' None
      else case (case DelArtifact delivery of
          None \<Rightarrow> Inr []
        | Some _ \<Rightarrow> downloadClientArtifact (CxCrypto X) answers (InvID invoice) delivery
            (attempt (Capsule (CxProtector X) d (SnID session)) (\<lambda>capsule. Inr (CirClaimToken (CapCreated capsule))))) of
        Inl e \<Rightarrow> failSession X now d session StageFailedRetryable ''artifact_unavailable''
          ''Payment was sent. The verified artifact could not be saved and will be retried.'' (Some e)
      | Inr artifactPath \<Rightarrow>
        CompleteSession (CxLibrary X) (CxProtector X) (CxDecode X) now d (SnID session) (SnRevision session) artifactPath
          (DelArtifact delivery))"

section \<open>Waiting for the delivery\<close>

text \<open>
  One round of the loop: the answer to the claim and the time it is looked at. The list ends where
  the context is cancelled.
\<close>

fun claimLoop ::
    "client_context \<Rightarrow> download_answers \<Rightarrow> client_db \<Rightarrow> ClientSession \<Rightarrow> (int \<times> (int \<times> claim_body res) res) list \<Rightarrow>
     client_result" where
  "claimLoop X files d session [] = (d, Inl (Errorf ''context canceled''))"
| "claimLoop X files d session ((now, answer) # answers) =
     (case claim X answer d session of
        Inl e \<Rightarrow> failSession X now d session StageFailedRetryable ''delivery_unavailable''
          ''Payment was sent. Delivery checking will resume automatically.'' (Some e)
      | Inr (Inl delivery) \<Rightarrow>
        (case SaveDelivery (CxLibrary X) (CxDecode X) now d (SnID session) (SnRevision session) delivery of
           (d', Inl e) \<Rightarrow> (d', Inl e)
         | (d', Inr session') \<Rightarrow>
           (case SnInvoice session' of
              None \<Rightarrow> (d', Inl (GoPanic ''nil invoice''))
            | Some invoice \<Rightarrow> verifyDelivery X now files d' session' invoice delivery))
      | Inr (Inr status) \<Rightarrow>
        (case SnInvoice session of
           None \<Rightarrow> (d, Inl (GoPanic ''nil invoice''))
         | Some invoice \<Rightarrow>
           if PsTransactionID status \<noteq> CsTransactionID session \<or> PsInvoiceID status \<noteq> InvID invoice \<or>
              PsRequired status \<noteq> InvConfirmations invoice
           then failSession X now d session StageFailedTerminal ''merchant_status_invalid''
             ''Payment was sent. The merchant returned an invalid payment status.'' None
           else case SaveConfirmations (CxLibrary X) (CxDecode X) now d (SnID session) (SnRevision session) (PsConfirmations status) of
             (d1, Inl e) \<Rightarrow> (d1, Inl e)
           | (d1, Inr session1) \<Rightarrow>
             if PsStatus status = ''processing'' \<and> SnStage session1 = StageConfirming then
               (case cx_transition X now d1 session1 StageFulfilling [] [] of
                  (d2, Inl e) \<Rightarrow> (d2, Inl e)
                | (d2, Inr session2) \<Rightarrow> claimLoop X files d2 session2 answers)
             else if PsStatus status \<noteq> ''confirming'' \<and> PsStatus status \<noteq> ''processing''
             then failSession X now d1 session1 StageFailedTerminal ''merchant_status_invalid''
               ''Payment was sent. The merchant returned an unknown delivery state.'' None
             else claimLoop X files d1 session1 answers))"

record continue_answers =
  CnSubmitted :: "(int \<times> PaymentStatus res) res"
  CnClaims :: "(int \<times> (int \<times> claim_body res) res) list"
  CnFiles :: download_answers

text \<open>From the stage \<open>submitting\<close> on.\<close>

definition continueSubmitting ::
    "client_context \<Rightarrow> (nat \<Rightarrow> int) \<Rightarrow> continue_answers \<Rightarrow> client_db \<Rightarrow> ClientSession \<Rightarrow> Invoice \<Rightarrow> client_result" where
  "continueSubmitting X clock answers d session invoice =
     (if SnStage session = StageSubmitting then
        (case submit X (CnSubmitted answers) d session invoice of
           Inl e \<Rightarrow> failSession X (clock 1) d session StageFailedRetryable ''submit_unavailable''
             ''Payment was sent. Merchant submission will be retried.'' (Some e)
         | Inr _ \<Rightarrow>
           (case cx_transition X (clock 1) d session StageConfirming [] [] of
              (d', Inl e) \<Rightarrow> (d', Inl e)
            | (d', Inr session') \<Rightarrow> claimLoop X (CnFiles answers) d' session' (CnClaims answers)))
      else if SnStage session \<noteq> StageConfirming \<and> SnStage session \<noteq> StageFulfilling then (d, Inl ErrClientStage)
      else claimLoop X (CnFiles answers) d session (CnClaims answers))"

definition Continue ::
    "client_context \<Rightarrow> (nat \<Rightarrow> int) \<Rightarrow> continue_answers \<Rightarrow> string set \<Rightarrow> client_db \<Rightarrow> string \<Rightarrow> client_result" where
  "Continue X clock answers active d i =
     (if begin_active active i = None then (d, Inl ErrClientRevision)
      else case Session (CxLibrary X) (CxDecode X) d i of
        Inl e \<Rightarrow> (d, Inl e)
      | Inr session \<Rightarrow>
        (case SnInvoice session of
           None \<Rightarrow> (d, Inl ErrClientStage)
         | Some invoice \<Rightarrow>
           if CsTransactionID session = [] then (d, Inl ErrClientStage)
           else if SnStage session = StageBroadcast then
             (case cx_transition X (clock 0) d session StageSubmitting [] [] of
                (d', Inl e) \<Rightarrow> (d', Inl e)
              | (d', Inr session') \<Rightarrow>
                (case SnInvoice session' of
                   None \<Rightarrow> (d', Inl (GoPanic ''nil invoice''))
                 | Some invoice' \<Rightarrow> continueSubmitting X clock answers d' session' invoice'))
           else continueSubmitting X clock answers d session invoice))"

section \<open>Retrying and recovering\<close>

text \<open>The delivery kept in a session that is verified again.\<close>

definition stored_delivery :: "ClientSession \<Rightarrow> (Invoice \<times> Delivery) option" where
  "stored_delivery session =
     (case (SnInvoice session, SnReceipt session) of
        (Some invoice, Some receipt) \<Rightarrow>
          Some (invoice, \<lparr>DelReceipt = receipt, DelPayload = SnPayload session, DelArtifact = SnArtifact session\<rparr>)
      | _ \<Rightarrow> None)"

definition retry_stage :: "ClientSession \<Rightarrow> ClientStage option" where
  "retry_stage session =
     (if SnErrorCode session = ''delivery_invalid'' then Some StageFulfilling else SnRetryStage session)"

definition Retry ::
    "client_context \<Rightarrow> (nat \<Rightarrow> int) \<Rightarrow> inspect_answers \<Rightarrow> u64 \<Rightarrow> continue_answers \<Rightarrow> string set \<Rightarrow> client_db \<Rightarrow> string \<Rightarrow> int \<Rightarrow>
     client_result" where
  "Retry X clock inspected maximumAmount answers active d i expectedRevision =
     (case Session (CxLibrary X) (CxDecode X) d i of
        Inl e \<Rightarrow> (d, Inl e)
      | Inr session \<Rightarrow>
        if SnRevision session \<noteq> expectedRevision \<or> SnStage session \<noteq> StageFailedRetryable \<or> \<not> validClientStage (SnRetryStage session)
        then (d, Inl ErrClientRevision)
        else case transition (CxLibrary X) (CxDecode X) (clock 8) d i expectedRevision (the (retry_stage session)) [] [] of
          (d', Inl e) \<Rightarrow> (d', Inl e)
        | (d', Inr session') \<Rightarrow>
          if SnStage session' = StageInspecting then inspect X clock inspected maximumAmount d' session'
          else if SnStage session' \<in> {StageSubmitting, StageConfirming, StageFulfilling}
          then Continue X clock answers active d' i
          else if SnStage session' = StageVerifying then
            (case stored_delivery session' of
               None \<Rightarrow> (d', Inl (Errorf ''stored EntPay delivery is incomplete''))
             | Some (invoice, delivery) \<Rightarrow> verifyDelivery X (clock 9) (CnFiles answers) d' session' invoice delivery)
          else (d', Inl ErrClientStage))"

text \<open>One session of the recovery: the tables, and what is started for it.\<close>

definition recoverSession :: "client_context \<Rightarrow> int \<Rightarrow> client_db \<Rightarrow> ClientSession \<Rightarrow> client_db \<times> launched option res" where
  "recoverSession X now d session =
     (case SnStage session of
        StageReceived \<Rightarrow>
          (case cx_transition X now d session StageInspecting [] [] of
             (d', Inl e) \<Rightarrow> (d', Inl e)
           | (d', Inr updated) \<Rightarrow> (d', Inr (Some (LaunchInspect updated))))
      | StageInspecting \<Rightarrow> (d, Inr (Some (LaunchInspect session)))
      | StagePreparingPayment \<Rightarrow>
          (case cx_transition X now d session StageAwaitingApproval ''approval_interrupted''
               ''Payment has not been sent. Review the request again before broadcasting the saved transaction.'' of
             (d', Inl e) \<Rightarrow> (d', Inl e)
           | (d', Inr _) \<Rightarrow> (d', Inr None))
      | StageVerifying \<Rightarrow> (d, Inr (if stored_delivery session = None then None else Some (LaunchVerify session)))
      | StageFailedRetryable \<Rightarrow>
          (d, Inr (if CsTransactionID session \<noteq> [] then Some (LaunchRetry (SnID session) (SnRevision session)) else None))
      | stage \<Rightarrow>
          (d, Inr (if stage \<in> {StageBroadcast, StageSubmitting, StageConfirming, StageFulfilling}
             then Some (LaunchContinue (SnID session)) else None)))"

fun recoverLoop :: "client_context \<Rightarrow> int \<Rightarrow> client_db \<Rightarrow> ClientSession list \<Rightarrow> client_db \<times> launched list \<times> unit res" where
  "recoverLoop X now d [] = (d, [], Inr ())"
| "recoverLoop X now d (session # sessions) =
     (case recoverSession X now d session of
        (d', Inl e) \<Rightarrow> (d', [], Inl e)
      | (d', Inr started) \<Rightarrow>
        (let (d'', rest, result) = recoverLoop X now d' sessions
         in (d'', (case started of None \<Rightarrow> rest | Some l \<Rightarrow> l # rest), result)))"

definition Recover :: "client_context \<Rightarrow> int \<Rightarrow> client_db \<Rightarrow> client_db \<times> launched list \<times> unit res" where
  "Recover X now d =
     (case PurgeExpiredRequestDetails (CxProtector X) now d of
        (d1, Inl e) \<Rightarrow> (d1, [], Inl e)
      | (d1, Inr _) \<Rightarrow>
        (case Sessions (CxLibrary X) (CxDecode X) d1 500 of
           Inl e \<Rightarrow> (d1, [], Inl e)
         | Inr sessions \<Rightarrow> recoverLoop X now d1 sessions))"

end
