(* ===== verification/Client_Steps.thy ===== *)
theory Client_Steps
  imports Client_Delivery Gateway_Inv
begin

text \<open>
  What the operations of the client do to the tables, in terms of a few kinds of step: a session is
  added, a session is written at the revision it was read at (in its stage, or moved to the next one
  and logged), secrets are replaced, a session is deleted.
\<close>

section \<open>Reading\<close>

lemma scanClientSession_eq:
  assumes "scanClientSession E decode row = Inr s"
  shows "session_common.truncate s = session_common.truncate row"
    and "CsTransactionID s = (case RwTxId row of None \<Rightarrow> [] | Some t \<Rightarrow> t)"
  using assms by (auto simp: scanClientSession_def res_simps session_common.defs ClientSession.defs)

lemma scanClientSession_row:
  assumes "scanClientSession E decode row = Inr s"
  shows "SnID s = SnID row" "SnRevision s = SnRevision row" "SnStage s = SnStage row" "SnInvoice s = SnInvoice row"
    "SnWallet s = SnWallet row" "SnTrust s = SnTrust row" "SnProduct s = SnProduct row"
    "SnEstimatedFee s = SnEstimatedFee row" "SnFeeCeiling s = SnFeeCeiling row"
    "SnRetryStage s = SnRetryStage row" "SnErrorCode s = SnErrorCode row" "SnErrorMessage s = SnErrorMessage row"
    "SnSigningKey s = SnSigningKey row" "SnReceipt s = SnReceipt row" "SnPayload s = SnPayload row"
    "SnArtifact s = SnArtifact row" "SnEndpoint s = SnEndpoint row" "SnConfirmations s = SnConfirmations row"
  using scanClientSession_eq(1) [OF assms] by (simp_all add: session_common.defs)

lemma session_by_id_Some:
  "session_by_id d i = Some row \<Longrightarrow> row \<in> set (cdSessions d) \<and> SnID row = i"
  by (auto simp: session_by_id_def find_Some_iff)

lemma Session_row:
  assumes "Session E decode d i = Inr s"
  obtains row where "session_by_id d i = Some row" "scanClientSession E decode row = Inr s" "SnID s = i"
  using assms session_by_id_Some [of d i] scanClientSession_row(1) [of E decode _ s]
  by (auto simp: Session_def split: if_splits option.splits)

section \<open>Steps\<close>

text \<open>A journaled transaction is kept, and one that is journaled is stored with its identifier.\<close>

definition keeps_tx :: "session_row \<Rightarrow> session_row \<Rightarrow> bool" where
  "keeps_tx r r' \<longleftrightarrow> RwTxId r' = RwTxId r \<and> RwTransaction r' = RwTransaction r \<or>
     RwTxId r = None \<and> (\<exists>tx. RwTxId r' = Some (ID tx) \<and> RwTransaction r' = Some tx)"

text \<open>The rows that satisfy \<open>P\<close> are rewritten by \<open>f\<close>: exactly one, session \<open>i\<close> at revision \<open>n\<close>.\<close>

definition row_write ::
    "string \<Rightarrow> int \<Rightarrow> (session_row \<Rightarrow> bool) \<Rightarrow> (session_row \<Rightarrow> session_row) \<Rightarrow> client_db \<Rightarrow> client_db \<Rightarrow> bool" where
  "row_write i n P f d d' \<longleftrightarrow>
     cdSessions d' = map (\<lambda>r. if P r then f r else r) (cdSessions d) \<and> length (filter P (cdSessions d)) = 1 \<and>
     (\<forall>r \<in> set (cdSessions d). P r \<longrightarrow> SnID r = i \<and> SnRevision r = n \<and> SnID (f r) = i \<and> RwDigest (f r) = RwDigest r \<and>
        SnRevision (f r) = n + 1 \<and> keeps_tx r (f r))"

inductive session_step :: "string \<Rightarrow> int \<Rightarrow> client_db \<Rightarrow> client_db \<Rightarrow> bool" for i n d d' where
  quiet: "row_write i n P f d d' \<Longrightarrow> (\<And>r. r \<in> set (cdSessions d) \<Longrightarrow> P r \<Longrightarrow> SnStage (f r) = SnStage r) \<Longrightarrow>
    cdTransitions d' = cdTransitions d \<Longrightarrow> session_step i n d d'"
| moved: "row_write i n P f d d' \<Longrightarrow> (\<And>r. r \<in> set (cdSessions d) \<Longrightarrow> P r \<Longrightarrow> SnStage r = s \<and> SnStage (f r) = t) \<Longrightarrow> validClientTransition s t \<Longrightarrow>
    cdTransitions d' = cdTransitions d @ [\<lparr>TrSession = i, TrFrom = Some s, TrTo = t, TrRevision = n + 1, TrCreatedAt = at\<rparr>] \<Longrightarrow>
    session_step i n d d'"

text \<open>An operation against revision \<open>n\<close> of session \<open>i\<close> that may also fail and change nothing.\<close>

definition written :: "string \<Rightarrow> int \<Rightarrow> client_db \<Rightarrow> client_result \<Rightarrow> bool" where
  "written i n d result \<longleftrightarrow> fst result = d \<or> session_step i n d (fst result)"

lemmas write_defs = update_session_def sql_update_def row_write_def log_transition_def

lemma written_commit:
  "(\<And>d'. changed = Inr d' \<Longrightarrow> session_step i n d d') \<Longrightarrow> written i n d (commit_session E decode d i changed)"
  by (cases changed) (auto simp: commit_session_def written_def)

lemma log_transition_sel [simp]:
  "cdSessions (log_transition i from to' n at d) = cdSessions d"
  "cdMerchants (log_transition i from to' n at d) = cdMerchants d"
  "cdTransitions (log_transition i from to' n at d) = cdTransitions d @
     [\<lparr>TrSession = i, TrFrom = from, TrTo = to', TrRevision = n, TrCreatedAt = at\<rparr>]"
  by (simp_all add: log_transition_def)

text \<open>The two ways the operations use an update whose count of changed rows is one.\<close>

lemma update_quiet:
  assumes "update_session P f d = (d', Suc 0)"
    and "\<And>r. P r \<Longrightarrow> SnID r = i \<and> SnRevision r = n \<and> keeps_tx r (f r)"
    and "\<And>r. SnID (f r) = SnID r \<and> RwDigest (f r) = RwDigest r \<and> SnRevision (f r) = SnRevision r + 1 \<and> SnStage (f r) = SnStage r"
    and "cdSessions d1 = cdSessions d'" and "cdTransitions d1 = cdTransitions d'"
  shows "session_step i n d d1"
  using assms by (intro session_step.quiet [of i n P f]) (auto simp: write_defs)

lemma update_moved:
  assumes "update_session P f d = (d', Suc 0)"
    and "\<And>r. r \<in> set (cdSessions d) \<Longrightarrow> P r \<Longrightarrow> SnID r = i \<and> SnRevision r = n \<and> SnStage r = s"
    and "\<And>r. SnID (f r) = SnID r \<and> RwDigest (f r) = RwDigest r \<and> SnRevision (f r) = SnRevision r + 1 \<and> SnStage (f r) = t \<and>
      RwTxId (f r) = RwTxId r \<and> RwTransaction (f r) = RwTransaction r"
    and "validClientTransition s t"
    and "cdSessions d1 = cdSessions d'"
    and "cdTransitions d1 = cdTransitions (log_transition i (Some s) t (n + 1) at d')"
  shows "session_step i n d d1"
  using assms by (intro session_step.moved [of i n P f _ _ s t at]) (auto simp: write_defs keeps_tx_def)

lemma the_one:
  "length (filter P xs) = Suc 0 \<Longrightarrow> x \<in> set xs \<Longrightarrow> P x \<Longrightarrow> y \<in> set xs \<Longrightarrow> P y \<Longrightarrow> x = y"
  by (induction xs) (auto simp: filter_empty_conv split: if_splits)

lemma update_session_one:
  "update_session P f d = (d', Suc 0) \<Longrightarrow> x \<in> set (cdSessions d) \<Longrightarrow> P x \<Longrightarrow> y \<in> set (cdSessions d) \<Longrightarrow> P y \<Longrightarrow> x = y"
  by (auto simp: update_session_def sql_update_def dest: the_one)

section \<open>The operations\<close>

lemma one_changed [res_simps]:
  "(case p of (a, changed) \<Rightarrow> if changed \<noteq> Suc 0 then Inl e else k a) = Inr y \<longleftrightarrow> (\<exists>a. p = (a, Suc 0) \<and> k a = Inr y)"
  "(case p of (a, changed) \<Rightarrow> attempt (h changed) (\<lambda>u. if changed \<noteq> Suc 0 then Inl e else k a)) = Inr y \<longleftrightarrow>
     (\<exists>a u. p = (a, Suc 0) \<and> h (Suc 0) = Inr u \<and> k a = Inr y)"
  by (cases p; auto simp: attempt_eq_Inr)+

lemmas commit_cases = res_simps Let_def keeps_tx_def

lemma SaveRedeemedCapsule_written: "written i n d (SaveRedeemedCapsule E P decode now d i n redeemed)"
  unfolding SaveRedeemedCapsule_def
  by (rule written_commit) (auto simp: commit_cases elim!: update_quiet)

lemma SaveReview_written: "written i n d (SaveReview C E decode now d i n info product invoice preview)"
  unfolding SaveReview_def
  by (rule written_commit)
    (auto simp: commit_cases validClientTransition_def split: sum.splits if_split_asm
      elim!: update_moved [where s = StageInspecting and t = StageAwaitingApproval and at = "Unix now"])

lemma update_session_merchants:
  "update_session P f (d\<lparr>cdMerchants := ms\<rparr>) = (d', c) \<longleftrightarrow> (\<exists>d1. update_session P f d = (d1, c) \<and> d' = d1\<lparr>cdMerchants := ms\<rparr>)"
  by (auto simp: update_session_def sql_update_def)

lemma storeReestablishMerchantTrust_written: "written i n d (storeReestablishMerchantTrust E decode now d i n)"
  unfolding storeReestablishMerchantTrust_def
  by (rule written_commit)
    (auto simp: commit_cases update_session_merchants split: if_split_asm option.split_asm elim!: update_quiet)

lemma JournalPayment_written: "written i n d (JournalPayment C E decode now d i n tx fee)"
  unfolding JournalPayment_def
  by (rule written_commit) (auto simp: commit_cases elim!: update_quiet)

lemma SaveDelivery_written: "written i n d (SaveDelivery E decode now d i n delivery)"
proof -
  let ?goal = "written i n d (SaveDelivery E decode now d i n delivery)"
  have valid: "SnStage row = StageConfirming \<or> SnStage row = StageFulfilling \<Longrightarrow> validClientTransition (SnStage row) StageVerifying"
    for row :: session_row
    by (auto simp: validClientTransition_def)
  show ?goal
    unfolding SaveDelivery_def
    by (rule written_commit)
      (auto simp: commit_cases split: if_split_asm option.split_asm intro!: valid
        elim!: update_moved [where t = StageVerifying and at = "Unix now"])
qed

lemma CompleteSession_written: "written i n d (CompleteSession E P decode now d i n artifactPath metadata)"
  unfolding CompleteSession_def
  by (rule written_commit)
    (auto simp: commit_cases validClientTransition_def 
      elim!: update_moved [where s = StageVerifying and t = StageComplete and at = "Unix now"])

lemma TerminateWithoutPayment_written: "written i n d (TerminateWithoutPayment E P decode now d i n stage errorCode errorMessage)"
  unfolding TerminateWithoutPayment_def
  by (rule written_commit)
    (auto simp: commit_cases split: if_split_asm option.split_asm elim!: update_moved [where t = stage and at = "Unix now"])

lemma transition_written: "written i n d (transition E decode now d i n to' errorCode errorMessage)"
  unfolding transition_def
proof (rule written_commit, goal_cases)
  case (1 d')
  then obtain row f d1 where row: "session_by_id d i = Some row" "SnRevision row = n" "validClientTransition (SnStage row) to'"
    and upd: "update_session (\<lambda>r. SnID r = i \<and> SnRevision r = n) f d = (d1, Suc 0)"
    and f: "f = (\<lambda>r. r\<lparr>SnStage := to', SnRetryStage := if to' = StageFailedRetryable then Some (SnStage row) else None,
      SnRevision := SnRevision r + 1, SnErrorCode := errorCode, SnErrorMessage := errorMessage, RwUpdatedAt := Unix now,
      RwCompletedAt := (if to' = StageComplete then Some (Unix now) else RwCompletedAt r)\<rparr>)"
    and d': "d' = log_transition i (Some (SnStage row)) to' (n + 1) (Unix now) d1"
    by (auto simp: commit_cases split: if_split_asm option.split_asm)
  have "SnStage r = SnStage row" if "r \<in> set (cdSessions d)" "SnID r = i \<and> SnRevision r = n" for r
    using update_session_one [OF upd that] session_by_id_Some [OF row(1)] row(2) by auto
  then show ?case
    using upd row(3) by (auto simp: f d' elim!: update_moved [where t = to' and s = "SnStage row" and at = "Unix now"])
qed

lemma filter_key_at_most_one:
  "distinct (map key xs) \<Longrightarrow> length (filter (\<lambda>x. key x = k \<and> P x) xs) \<le> 1"
proof (induction xs)
  case (Cons x xs)
  then have "key x = k \<Longrightarrow> filter (\<lambda>x. key x = k \<and> P x) xs = []"
    by (auto simp: filter_empty_conv image_iff)
  then show ?case
    using Cons by auto
qed simp

lemma SaveConfirmations_written:
  assumes "distinct (map SnID (cdSessions d))"
  shows "written i n d (SaveConfirmations E decode now d i n confirmations)"
proof -
  define P :: "session_row \<Rightarrow> bool" where "P = (\<lambda>r. SnID r = i \<and> SnRevision r = n \<and> SnStage r \<in> {StageConfirming, StageFulfilling} \<and>
    SnConfirmations r \<noteq> confirmations)"
  define f :: "session_row \<Rightarrow> session_row" where
    "f = (\<lambda>r. r\<lparr>SnConfirmations := confirmations, SnRevision := SnRevision r + 1, RwUpdatedAt := Unix now\<rparr>)"
  obtain d' c where upd: "update_session P f d = (d', c)" by (cases "update_session P f d")
  have c: "c \<le> 1"
    using upd filter_key_at_most_one [OF assms, of i] by (auto simp: update_session_def sql_update_def P_def)
  have "c = Suc 0 \<Longrightarrow> session_step i n d d'"
    by (rule update_quiet [of P f d d']) (use upd in \<open>auto simp: P_def f_def keeps_tx_def\<close>)
  then show ?thesis
    using upd c unfolding P_def f_def
    by (auto simp: SaveConfirmations_def written_def Let_def split: sum.splits)
qed

section \<open>Runs\<close>

text \<open>Any operation of the store with any arguments; the sessions in \<open>keep\<close> are not deleted.\<close>

inductive client_op :: "string set \<Rightarrow> client_db \<Rightarrow> client_db \<Rightarrow> bool" for keep d where
  create: "client_op keep d (fst (CreateReceived C E P decode idRandom now d launch nonce))"
| redeemed: "client_op keep d (fst (SaveRedeemedCapsule E P decode now d i n capsule))"
| review: "client_op keep d (fst (SaveReview C E decode now d i n info product invoice preview))"
| trust: "client_op keep d (fst (storeReestablishMerchantTrust E decode now d i n))"
| journal: "client_op keep d (fst (JournalPayment C E decode now d i n tx fee))"
| confirmations: "client_op keep d (fst (SaveConfirmations E decode now d i n confirmations))"
| delivery: "client_op keep d (fst (SaveDelivery E decode now d i n received))"
| complete: "client_op keep d (fst (CompleteSession E P decode now d i n path metadata))"
| terminate: "client_op keep d (fst (TerminateWithoutPayment E P decode now d i n stage code message))"
| transition: "client_op keep d (fst (transition E decode now d i n stage code message))"
| delete: "i \<notin> keep \<Longrightarrow> client_op keep d (fst (DeleteSession d i))"
| ensure: "client_op keep d (fst (EnsureSettings d amount directory))"
| settings: "client_op keep d (fst (SaveSettings path d input n))"
| purge: "client_op keep d (fst (PurgeExpiredRequestDetails P now d))"

abbreviation client_run :: "string set \<Rightarrow> client_db \<Rightarrow> client_db \<Rightarrow> bool" where
  "client_run keep \<equiv> (client_op keep)\<^sup>*\<^sup>*"

definition client_reachable :: "client_db \<Rightarrow> bool" where
  "client_reachable d \<longleftrightarrow> client_run {} empty_client_db d"

text \<open>What a step can be.\<close>

definition same_sessions :: "client_db \<Rightarrow> client_db \<Rightarrow> bool" where
  "same_sessions d d' \<longleftrightarrow> cdTransitions d' = cdTransitions d \<and>
     list_all2 (\<lambda>r r'. \<exists>encrypted. r' = r\<lparr>RwCapsule := encrypted\<rparr>) (cdSessions d) (cdSessions d')"

definition session_added :: "client_db \<Rightarrow> client_db \<Rightarrow> bool" where
  "session_added d d' \<longleftrightarrow> (\<exists>i endpoint digest encrypted at.
     (\<forall>r \<in> set (cdSessions d). SnID r \<noteq> i \<and> RwDigest r \<noteq> digest) \<and>
     cdSessions d' = cdSessions d @ [new_session_row i endpoint digest encrypted at] \<and>
     cdTransitions d' = cdTransitions d @ [\<lparr>TrSession = i, TrFrom = None, TrTo = StageReceived, TrRevision = 1, TrCreatedAt = at\<rparr>])"

definition session_deleted :: "string \<Rightarrow> client_db \<Rightarrow> client_db \<Rightarrow> bool" where
  "session_deleted i d d' \<longleftrightarrow> cdSessions d' = filter (\<lambda>r. SnID r \<noteq> i) (cdSessions d) \<and>
     cdTransitions d' = filter (\<lambda>t. TrSession t \<noteq> i) (cdTransitions d)"

lemma capsule_refl: "\<exists>encrypted. r = r\<lparr>RwCapsule := encrypted\<rparr>" for r :: session_row
  by (rule exI [of _ "RwCapsule r"]) simp

lemma same_sessions_refl [simp]: "cdTransitions d' = cdTransitions d \<Longrightarrow> cdSessions d' = cdSessions d \<Longrightarrow> same_sessions d d'"
  by (simp add: same_sessions_def list_all2_refl capsule_refl)

lemma same_sessions_trans: "same_sessions d d1 \<Longrightarrow> same_sessions d1 d2 \<Longrightarrow> same_sessions d d2"
  unfolding same_sessions_def
  by (elim conjE, intro conjI, simp, rule list_all2_trans) auto

lemma purgeSession_same: "purgeSession P d i = Inr d' \<Longrightarrow> same_sessions d d'"
  by (auto simp: purgeSession_def res_simps same_sessions_def write_defs list_all2_map2 capsule_refl
      intro!: list_all2_refl split: if_split_asm)

lemma purgeLoop_same: "same_sessions d (fst (purgeLoop P d is))"
  by (induction P d "is" rule: purgeLoop.induct)
    (auto split: sum.splits dest: purgeSession_same intro: same_sessions_trans)

lemma CreateReceived_cases:
  "fst (CreateReceived C E P decode idRandom now d launch nonce) = d \<or>
   session_added d (fst (CreateReceived C E P decode idRandom now d launch nonce))"
  by (auto simp: CreateReceived_def Let_def commit_session_def session_added_def split: sum.splits prod.splits)

lemma DeleteSession_cases:
  assumes "distinct (map SnID (cdSessions d))"
  shows "fst (DeleteSession d i) = d \<or> session_deleted i d (fst (DeleteSession d i))"
proof -
  have "filter (\<lambda>r. \<not> (SnID r = i \<and> deletable r)) (cdSessions d) = filter (\<lambda>r. SnID r \<noteq> i) (cdSessions d)"
    if one: "length (filter (\<lambda>r. SnID r = i \<and> deletable r) (cdSessions d)) = 1"
  proof (rule filter_cong [OF HOL.refl])
    fix r assume r: "r \<in> set (cdSessions d)"
    have "filter (\<lambda>r. SnID r = i \<and> deletable r) (cdSessions d) \<noteq> []"
      using one by auto
    then obtain q where "q \<in> set (cdSessions d)" "SnID q = i" "deletable q"
      by (auto simp: filter_empty_conv)
    then show "(\<not> (SnID r = i \<and> deletable r)) = (SnID r \<noteq> i)"
      using one_key [OF assms r] by auto
  qed
  then show ?thesis
    by (auto simp: DeleteSession_def session_deleted_def sql_delete_def Let_def)
qed

inductive client_change :: "string set \<Rightarrow> client_db \<Rightarrow> client_db \<Rightarrow> bool" for keep d d' where
  same: "same_sessions d d' \<Longrightarrow> client_change keep d d'"
| added: "session_added d d' \<Longrightarrow> client_change keep d d'"
| step: "session_step i n d d' \<Longrightarrow> client_change keep d d'"
| deleted: "i \<notin> keep \<Longrightarrow> session_deleted i d d' \<Longrightarrow> client_change keep d d'"

lemma written_change: "written i n d result \<Longrightarrow> client_change keep d (fst result)"
  by (auto simp: written_def intro: client_change.intros)

lemma client_op_change:
  assumes "client_op keep d d'" and ids: "distinct (map SnID (cdSessions d))"
  shows "client_change keep d d'"
  using assms(1)
proof cases
  case (create C E P decode idRandom now launch nonce)
  then show ?thesis
    using CreateReceived_cases [of C E P decode idRandom now d launch nonce] by (auto intro: client_change.intros)
next
  case (delete i)
  then show ?thesis
    using DeleteSession_cases [OF ids, of i] by (auto intro: client_change.intros)
next
  case (ensure amount directory)
  then show ?thesis
    by (auto simp: EnsureSettings_def Let_def intro!: client_change.same split: option.splits)
next
  case (settings path input n)
  then show ?thesis
    by (auto simp: SaveSettings_def Let_def intro!: client_change.same split: option.splits sum.splits)
next
  case (purge P now)
  then show ?thesis
    by (auto simp: PurgeExpiredRequestDetails_def Let_def purgeLoop_same intro!: client_change.same split: sum.splits)
qed (auto intro!: written_change SaveRedeemedCapsule_written SaveReview_written storeReestablishMerchantTrust_written
    JournalPayment_written SaveConfirmations_written [OF ids] SaveDelivery_written CompleteSession_written
    TerminateWithoutPayment_written transition_written)

end
