(* ===== verification/Client_Inv.thy ===== *)
theory Client_Inv
  imports Client_Steps
begin

text \<open>
  The invariant of the client's tables: a session has one identity, its log is a path of allowed moves
  from its creation to the stage it is in, and a revision is written once.
\<close>

section \<open>The log of a session\<close>

definition session_log :: "client_db \<Rightarrow> string \<Rightarrow> transition_row list" where
  "session_log d i = filter (\<lambda>t. TrSession t = i) (cdTransitions d)"

text \<open>The moves from a stage and a revision on: allowed ones, each at a later revision.\<close>

fun follows :: "ClientStage \<Rightarrow> int \<Rightarrow> transition_row list \<Rightarrow> bool" where
  "follows stage n [] \<longleftrightarrow> True"
| "follows stage n (t # ts) \<longleftrightarrow> TrFrom t = Some stage \<and> validClientTransition stage (TrTo t) \<and> n < TrRevision t \<and>
     follows (TrTo t) (TrRevision t) ts"

definition valid_log :: "ClientStage \<Rightarrow> int \<Rightarrow> transition_row list \<Rightarrow> bool" where
  "valid_log stage n log \<longleftrightarrow> log \<noteq> [] \<and> TrFrom (hd log) = None \<and> TrTo (hd log) = StageReceived \<and> TrRevision (hd log) = 1 \<and>
     follows StageReceived 1 (tl log) \<and> TrTo (last log) = stage \<and> TrRevision (last log) \<le> n"

lemma follows_snoc:
  "follows stage n (ts @ [t]) \<longleftrightarrow> follows stage n ts \<and>
     follows (if ts = [] then stage else TrTo (last ts)) (if ts = [] then n else TrRevision (last ts)) [t]"
  by (induction stage n ts rule: follows.induct) auto

lemma valid_log_snoc:
  assumes "valid_log s n log" and "validClientTransition s (TrTo t)" and "TrFrom t = Some s" and "TrRevision t = n + 1"
  shows "valid_log (TrTo t) (n + 1) (log @ [t])"
proof -
  obtain h ts where log: "log = h # ts" using assms(1) by (cases log) (auto simp: valid_log_def)
  show ?thesis
    using assms by (auto simp: valid_log_def log follows_snoc split: if_splits)
qed

lemma valid_log_later: "valid_log s n log \<Longrightarrow> n \<le> m \<Longrightarrow> valid_log s m log"
  by (auto simp: valid_log_def)

section \<open>The invariant\<close>

definition tx_stored :: "session_row \<Rightarrow> bool" where
  "tx_stored r \<longleftrightarrow> (case RwTxId r of None \<Rightarrow> True | Some t \<Rightarrow> (\<exists>tx. RwTransaction r = Some tx \<and> ID tx = t))"

definition client_ok :: "client_db \<Rightarrow> bool" where
  "client_ok d \<longleftrightarrow> distinct (map SnID (cdSessions d)) \<and> distinct (map RwDigest (cdSessions d)) \<and>
     (\<forall>t \<in> set (cdTransitions d). TrSession t \<in> SnID ` set (cdSessions d)) \<and>
     (\<forall>r \<in> set (cdSessions d). valid_log (SnStage r) (SnRevision r) (session_log d (SnID r)) \<and> tx_stored r)"

lemma client_ok_ids: "client_ok d \<Longrightarrow> distinct (map SnID (cdSessions d))"
  by (simp add: client_ok_def)

lemma client_ok_empty: "client_ok empty_client_db"
  by (simp add: client_ok_def empty_client_db_def)

lemma same_sessions_keys:
  assumes "same_sessions d d'"
  shows "map SnID (cdSessions d') = map SnID (cdSessions d)" "map RwDigest (cdSessions d') = map RwDigest (cdSessions d)"
    "r' \<in> set (cdSessions d') \<Longrightarrow> \<exists>r \<in> set (cdSessions d). \<exists>encrypted. r' = r\<lparr>RwCapsule := encrypted\<rparr>"
proof -
  have rows: "list_all2 (\<lambda>r r'. \<exists>encrypted. r' = r\<lparr>RwCapsule := encrypted\<rparr>) (cdSessions d) (cdSessions d')"
    using assms by (simp add: same_sessions_def)
  then show "map SnID (cdSessions d') = map SnID (cdSessions d)" "map RwDigest (cdSessions d') = map RwDigest (cdSessions d)"
    by (induction rule: list_all2_induct) auto
  show "\<exists>r \<in> set (cdSessions d). \<exists>encrypted. r' = r\<lparr>RwCapsule := encrypted\<rparr>" if "r' \<in> set (cdSessions d')"
    using rows that by (induction rule: list_all2_induct) auto
qed

lemma same_sessions_ok:
  assumes "same_sessions d d'" and "client_ok d"
  shows "client_ok d'"
proof -
  note keys = same_sessions_keys [OF assms(1)]
  have log: "cdTransitions d' = cdTransitions d" using assms(1) by (simp add: same_sessions_def)
  have ids: "SnID ` set (cdSessions d') = SnID ` set (cdSessions d)" using arg_cong [OF keys(1), of set] by simp
  have "valid_log (SnStage r') (SnRevision r') (session_log d' (SnID r')) \<and> tx_stored r'" if r': "r' \<in> set (cdSessions d')" for r'
  proof -
    obtain r encrypted where "r \<in> set (cdSessions d)" "r' = r\<lparr>RwCapsule := encrypted\<rparr>" using keys(3) [OF r'] by blast
    then show ?thesis using assms(2)
      by (auto simp: client_ok_def session_log_def log tx_stored_def split: option.splits)
  qed
  then show ?thesis using assms(2) by (simp add: client_ok_def keys(1,2) ids log)
qed

lemma session_added_ok:
  assumes "session_added d d'" and "client_ok d"
  shows "client_ok d'"
proof -
  obtain i endpoint digest encrypted at where new: "\<And>r. r \<in> set (cdSessions d) \<Longrightarrow> SnID r \<noteq> i \<and> RwDigest r \<noteq> digest"
    and rows: "cdSessions d' = cdSessions d @ [new_session_row i endpoint digest encrypted at]"
    and log: "cdTransitions d' = cdTransitions d @ [\<lparr>TrSession = i, TrFrom = None, TrTo = StageReceived, TrRevision = 1, TrCreatedAt = at\<rparr>]"
    using assms(1) unfolding session_added_def by blast
  have "session_log d i = []"
    using assms(2) new by (fastforce simp: client_ok_def session_log_def filter_empty_conv)
  then have "session_log d' i = [\<lparr>TrSession = i, TrFrom = None, TrTo = StageReceived, TrRevision = 1, TrCreatedAt = at\<rparr>]"
    by (simp add: session_log_def log)
  moreover have "session_log d' (SnID r) = session_log d (SnID r)" if "r \<in> set (cdSessions d)" for r
    using new [OF that] by (auto simp: session_log_def log)
  ultimately show ?thesis
    using assms(2) new by (auto simp: client_ok_def rows log valid_log_def new_session_row_def tx_stored_def image_iff)
qed

lemma session_deleted_ok:
  assumes "session_deleted i d d'" and "client_ok d"
  shows "client_ok d'"
proof -
  have "session_log d' (SnID r) = session_log d (SnID r)" if "r \<in> set (cdSessions d')" for r
    using that assms(1) by (auto simp: session_log_def session_deleted_def intro!: filter_cong)
  then show ?thesis
    using assms by (fastforce simp: client_ok_def session_deleted_def distinct_map_filter)
qed

lemma row_write_keys:
  assumes "row_write i n P f d d'"
  shows "map SnID (cdSessions d') = map SnID (cdSessions d)" "map RwDigest (cdSessions d') = map RwDigest (cdSessions d)"
    "SnID ` set (cdSessions d') = SnID ` set (cdSessions d)"
proof -
  show ids: "map SnID (cdSessions d') = map SnID (cdSessions d)" and "map RwDigest (cdSessions d') = map RwDigest (cdSessions d)"
    using assms by (auto simp: row_write_def)
  show "SnID ` set (cdSessions d') = SnID ` set (cdSessions d)"
    using arg_cong [OF ids, of set] by simp
qed

lemma row_write_exists:
  assumes "row_write i n P f d d'"
  obtains q where "q \<in> set (cdSessions d)" "SnID q = i" "P q"
proof -
  have "filter P (cdSessions d) \<noteq> []" using assms by (auto simp: row_write_def)
  then show thesis using that assms by (auto simp: filter_empty_conv row_write_def)
qed

lemma row_write_row:
  assumes "row_write i n P f d d'" and "r' \<in> set (cdSessions d')" and "distinct (map SnID (cdSessions d))"
  obtains "r' \<in> set (cdSessions d)" "SnID r' \<noteq> i"
  | r where "r \<in> set (cdSessions d)" "P r" "r' = f r" "SnID r = i" "SnRevision r = n"
proof -
  obtain r where r: "r \<in> set (cdSessions d)" "r' = (if P r then f r else r)"
    using assms(1,2) by (auto simp: row_write_def)
  obtain q where q: "q \<in> set (cdSessions d)" "SnID q = i" "P q" by (rule row_write_exists [OF assms(1)])
  then show thesis
    using that r q assms(1) one_key [OF assms(3) r(1) q(1)] by (cases "P r") (auto simp: row_write_def)
qed

text \<open>A write keeps the invariant if it keeps the log of the session it writes valid.\<close>

lemma row_write_ok:
  assumes w: "row_write i n P f d d'" and ok: "client_ok d"
    and log: "\<And>j. session_log d' j = (if j = i then session_log d i @ new else session_log d j)"
    and moves: "set (cdTransitions d') \<subseteq> set (cdTransitions d) \<union> {t. TrSession t = i}"
    and valid: "\<And>r. r \<in> set (cdSessions d) \<Longrightarrow> P r \<Longrightarrow> SnRevision r = n \<Longrightarrow> valid_log (SnStage r) n (session_log d i) \<Longrightarrow>
      valid_log (SnStage (f r)) (n + 1) (session_log d i @ new)"
  shows "client_ok d'"
proof -
  have ids: "distinct (map SnID (cdSessions d))" by (rule client_ok_ids [OF ok])
  have "valid_log (SnStage r') (SnRevision r') (session_log d' (SnID r')) \<and> tx_stored r'" if "r' \<in> set (cdSessions d')" for r'
  proof (rule row_write_row [OF w that ids])
    assume "r' \<in> set (cdSessions d)" "SnID r' \<noteq> i"
    then show ?thesis using ok log by (simp add: client_ok_def)
  next
    fix r assume r: "r \<in> set (cdSessions d)" "P r" "r' = f r" "SnID r = i" "SnRevision r = n"
    then have "valid_log (SnStage r) n (session_log d i)" "tx_stored r" using ok by (auto simp: client_ok_def)
    moreover from this have "valid_log (SnStage r') (n + 1) (session_log d i @ new)" using valid r by blast
    moreover have "SnID r' = i" "SnRevision r' = n + 1" "keeps_tx r r'" using w r by (auto simp: row_write_def)
    moreover from this calculation have "tx_stored r'" by (auto simp: keeps_tx_def tx_stored_def split: option.splits)
    ultimately show ?thesis by (simp add: log)
  qed
  moreover obtain q where "q \<in> set (cdSessions d)" "SnID q = i" by (rule row_write_exists [OF w])
  then have "TrSession t \<in> SnID ` set (cdSessions d')" if "t \<in> set (cdTransitions d')" for t
    unfolding row_write_keys(3) [OF w] using that moves ok by (auto simp: client_ok_def)
  ultimately show ?thesis
    using ok by (simp add: client_ok_def row_write_keys(1,2) [OF w])
qed

lemma session_step_ok:
  assumes "session_step i n d d'" and "client_ok d"
  shows "client_ok d'"
  using assms(1)
proof cases
  case (quiet P f)
  show ?thesis
    by (rule row_write_ok [OF quiet(1) assms(2), of "[]"])
      (use quiet(2,3) in \<open>auto simp: session_log_def intro: valid_log_later\<close>)
next
  case (moved P f s t at)
  let ?t = "\<lparr>TrSession = i, TrFrom = Some s, TrTo = t, TrRevision = n + 1, TrCreatedAt = at\<rparr>"
  show ?thesis
  proof (rule row_write_ok [OF moved(1) assms(2), of "[?t]"], goal_cases)
    case (3 r)
    then show ?case using valid_log_snoc [of s n "session_log d i" ?t] moved(2) [of r] moved(3) by simp
  qed (use moved(4) in \<open>auto simp: session_log_def\<close>)
qed

lemma client_change_ok: "client_change keep d d' \<Longrightarrow> client_ok d \<Longrightarrow> client_ok d'"
  by (cases rule: client_change.cases)
    (auto intro: same_sessions_ok session_added_ok session_step_ok session_deleted_ok)

lemma client_op_ok: "client_op keep d d' \<Longrightarrow> client_ok d \<Longrightarrow> client_ok d'"
  by (blast intro: client_op_change client_change_ok client_ok_ids)

lemma client_run_ok: "client_run keep d d' \<Longrightarrow> client_ok d \<Longrightarrow> client_ok d'"
  by (induction rule: rtranclp_induct) (auto intro: client_op_ok)

lemma client_reachable_ok: "client_reachable d \<Longrightarrow> client_ok d"
  unfolding client_reachable_def using client_run_ok client_ok_empty by blast

section \<open>One session through a run\<close>

text \<open>What later steps keep of a session that is not deleted.\<close>

definition later_row :: "session_row \<Rightarrow> session_row \<Rightarrow> bool" where
  "later_row r r' \<longleftrightarrow> SnID r' = SnID r \<and> RwDigest r' = RwDigest r \<and> SnRevision r \<le> SnRevision r' \<and>
     (RwTxId r \<noteq> None \<longrightarrow> RwTxId r' = RwTxId r \<and> RwTransaction r' = RwTransaction r)"

lemma later_row_trans: "later_row r r1 \<Longrightarrow> later_row r1 r2 \<Longrightarrow> later_row r r2"
  by (auto simp: later_row_def)

lemma client_op_later:
  assumes "client_op keep d d'" and "client_ok d" and "r \<in> set (cdSessions d)" and "SnID r \<in> keep"
  shows "\<exists>r' \<in> set (cdSessions d'). later_row r r'"
  using client_op_change [OF assms(1) client_ok_ids [OF assms(2)]]
proof cases
  case same
  then have "list_all2 (\<lambda>r r'. \<exists>encrypted. r' = r\<lparr>RwCapsule := encrypted\<rparr>) (cdSessions d) (cdSessions d')"
    by (simp add: same_sessions_def)
  then show ?thesis
    using assms(3) by (induction rule: list_all2_induct) (auto simp: later_row_def)
next
  case added
  then show ?thesis using assms(3) by (auto simp: session_added_def later_row_def)
next
  case (step i n)
  then obtain P f where w: "row_write i n P f d d'" by (auto elim: session_step.cases)
  then have "(if P r then f r else r) \<in> set (cdSessions d')" using assms(3) by (auto simp: row_write_def)
  moreover have "later_row r (if P r then f r else r)" using w assms(3) by (auto simp: row_write_def later_row_def keeps_tx_def)
  ultimately show ?thesis by blast
next
  case (deleted i)
  then show ?thesis using assms(3,4) by (auto simp: session_deleted_def later_row_def)
qed

lemma client_run_later:
  assumes "client_run keep d d'" and "client_ok d" and "r \<in> set (cdSessions d)" and "SnID r \<in> keep"
  shows "\<exists>r' \<in> set (cdSessions d'). later_row r r'"
  using assms(1)
proof induction
  case base
  then show ?case using assms(3) by (auto simp: later_row_def)
next
  case (step d1 d2)
  then obtain r1 where r1: "r1 \<in> set (cdSessions d1)" "later_row r r1" by blast
  have "\<exists>r2 \<in> set (cdSessions d2). later_row r1 r2"
    by (rule client_op_later [OF step(2) client_run_ok [OF step(1) assms(2)] r1(1)])
      (use r1(2) assms(4) in \<open>simp add: later_row_def\<close>)
  then show ?case using later_row_trans r1(2) by blast
qed

text \<open>
  Every function of the manager changes the tables by operations of the store only, so what holds along
  any run of store operations holds whatever the manager does, in whatever order its goroutines write.
\<close>

lemma op_pair: "client_op keep d (fst p) \<Longrightarrow> p = (d', r) \<Longrightarrow> client_run keep d d'"
  by auto

lemmas transition_pair = op_pair [OF client_op.transition]
lemmas terminate_pair = op_pair [OF client_op.terminate]
lemmas create_pair = op_pair [OF client_op.create]
lemmas redeemed_pair = op_pair [OF client_op.redeemed]
lemmas review_pair = op_pair [OF client_op.review]
lemmas journal_pair = op_pair [OF client_op.journal]
lemmas delivery_pair = op_pair [OF client_op.delivery]
lemmas complete_pair = op_pair [OF client_op.complete]
lemmas confirmations_pair = op_pair [OF client_op.confirmations]

lemma transition_run: "client_run keep d (fst (transition E decode now d i n stage code message))"
  by (rule op_pair [OF client_op.transition prod.collapse [symmetric]])

lemma terminate_run: "client_run keep d (fst (TerminateWithoutPayment E P decode now d i n stage code message))"
  by (rule op_pair [OF client_op.terminate prod.collapse [symmetric]])

lemma cx_transition_run: "client_run keep d (fst (cx_transition X now d session stage code message))"
  unfolding cx_transition_def by (rule transition_run)

lemma cx_transition_pair: "cx_transition X now d session stage code message = (d', r) \<Longrightarrow> client_run keep d d'"
  using cx_transition_run [of keep d X now session stage code message] by simp

lemma failSession_run: "client_run keep d (fst (failSession X now d session stage code message cause))"
  by (auto simp: failSession_def Let_def split: prod.splits intro: cx_transition_pair terminate_pair)

lemma reviewRequest_run: "client_run keep d (fst (reviewRequest X clock answers amount d session capsule))"
  by (auto simp: reviewRequest_def failSession_run split: sum.splits prod.splits
      intro: op_pair [OF client_op.review prod.collapse [symmetric]])

lemma inspect_run: "client_run keep d (fst (inspect X clock answers amount d session))"
  by (auto simp: inspect_def failSession_run reviewRequest_run Let_def split: sum.splits prod.splits
      intro: redeemed_pair rtranclp_trans [OF redeemed_pair reviewRequest_run])

lemma Receive_run: "client_run keep d (fst (Receive X clock nonceRandom idRandom answers amount d launch))"
  by (auto simp: Receive_def split: sum.splits prod.splits
      intro: create_pair rtranclp_trans [OF create_pair cx_transition_pair]
        rtranclp_trans [OF rtranclp_trans [OF create_pair cx_transition_pair] inspect_run])

lemma ReceiveQueued_run: "client_run keep d (fst (fst (ReceiveQueued X clock nonceRandom idRandom d launch)))"
  by (auto simp: ReceiveQueued_def split: sum.splits prod.splits
      intro: create_pair rtranclp_trans [OF create_pair cx_transition_pair])

lemma approveCommit_run: "client_run keep d (fst (snd (approveCommit X clock answers d session invoice tx fee)))"
  by (auto simp: approveCommit_def Let_def cx_transition_run split: sum.splits)

lemma approvePay_run: "client_run keep d (fst (snd (approvePay X clock answers d session invoice)))"
  by (auto simp: approvePay_def cx_transition_run approveCommit_run split: sum.splits prod.splits option.splits
      intro: journal_pair rtranclp_trans [OF journal_pair approveCommit_run])

lemma Approve_run: "client_run keep d (fst (snd (Approve X clock answers active d i n)))"
  by (auto simp: Approve_def transition_run split: sum.splits prod.splits option.splits
      intro: transition_pair rtranclp_trans [OF transition_pair approvePay_run])

lemma Reject_run: "client_run keep d (fst (Reject X now d i n))"
  unfolding Reject_def by (rule terminate_run)

lemma verifyDelivery_run: "client_run keep d (fst (verifyDelivery X now answers d session invoice delivery))"
  by (auto simp: verifyDelivery_def failSession_run split: sum.splits option.splits
      intro: op_pair [OF client_op.complete prod.collapse [symmetric]])

lemma claimLoop_run: "client_run keep d (fst (claimLoop X files d session answers))"
proof (induction X files d session answers rule: claimLoop.induct)
  case (2 X files d session now answer answers)
  show ?case
  proof (cases "claim X answer d session")
    case (Inr r)
    show ?thesis
    proof (cases r)
      case (Inl delivery)
      then show ?thesis
        using \<open>claim X answer d session = Inr r\<close>
        by (auto split: prod.splits sum.splits option.splits
            intro: delivery_pair rtranclp_trans [OF delivery_pair verifyDelivery_run])
    next
      case (Inr status)
      with \<open>claim X answer d session = Inr r\<close> show ?thesis
        using 2
        by (auto simp: failSession_run split: prod.splits sum.splits option.splits
            intro: confirmations_pair rtranclp_trans [OF confirmations_pair]
              rtranclp_trans [OF confirmations_pair failSession_run] rtranclp_trans [OF confirmations_pair cx_transition_pair]
              rtranclp_trans [OF rtranclp_trans [OF confirmations_pair cx_transition_pair]])
    qed
  qed (simp add: failSession_run)
qed simp

lemma continueSubmitting_run: "client_run keep d (fst (continueSubmitting X clock answers d session invoice))"
  by (auto simp: continueSubmitting_def failSession_run claimLoop_run split: sum.splits prod.splits
      intro: cx_transition_pair rtranclp_trans [OF cx_transition_pair claimLoop_run])

lemma Continue_run: "client_run keep d (fst (Continue X clock answers active d i))"
  by (auto simp: Continue_def continueSubmitting_run split: sum.splits prod.splits option.splits
      intro: cx_transition_pair rtranclp_trans [OF cx_transition_pair continueSubmitting_run])

lemma Retry_run: "client_run keep d (fst (Retry X clock inspected amount answers active d i n))"
  by (auto simp: Retry_def split: sum.splits prod.splits option.splits
      intro: transition_pair rtranclp_trans [OF transition_pair inspect_run]
        rtranclp_trans [OF transition_pair Continue_run] rtranclp_trans [OF transition_pair verifyDelivery_run])

lemma recoverSession_run: "client_run keep d (fst (recoverSession X now d session))"
  by (auto simp: recoverSession_def split: ClientStage.splits sum.splits prod.splits intro: cx_transition_pair)

lemma recoverLoop_run: "client_run keep d (fst (recoverLoop X now d sessions))"
proof (induction X now d sessions rule: recoverLoop.induct)
  case (2 X now d session sessions)
  have "client_run keep d (fst (recoverSession X now d session))" by (rule recoverSession_run)
  then show ?case
    using 2 by (auto simp: Let_def split: prod.splits sum.splits intro: rtranclp_trans)
qed simp

lemma Recover_run: "client_run keep d (fst (Recover X now d))"
  by (auto simp: Recover_def split: sum.splits prod.splits
      intro: op_pair [OF client_op.purge] rtranclp_trans [OF op_pair [OF client_op.purge] recoverLoop_run])

end
