(* ===== verification/Client_Props.thy ===== *)
theory Client_Props
  imports Client_Inv
begin

text \<open>
  What the client promises: a session moves only along allowed stages and is written once per revision,
  approval commits what was reviewed and journaled, one transaction per session, and nothing completes
  that was not verified. And where it falls short of that: a payment that was interrupted.
\<close>

section \<open>Revisions\<close>

lemma session_by_id_in:
  assumes "client_ok d" and "r \<in> set (cdSessions d)"
  shows "session_by_id d (SnID r) = Some r"
  unfolding session_by_id_def by (rule find_key [OF client_ok_ids [OF assms(1)] assms(2)])

text \<open>Any write against revision \<open>n\<close> of session \<open>i\<close>.\<close>

inductive write_at :: "string \<Rightarrow> int \<Rightarrow> client_db \<Rightarrow> client_result \<Rightarrow> bool" for i n d where
  redeemed: "write_at i n d (SaveRedeemedCapsule E P decode now d i n capsule)"
| review: "write_at i n d (SaveReview C E decode now d i n info product invoice preview)"
| trust: "write_at i n d (storeReestablishMerchantTrust E decode now d i n)"
| journal: "write_at i n d (JournalPayment C E decode now d i n tx fee)"
| confirmations: "write_at i n d (SaveConfirmations E decode now d i n confirmations)"
| delivery: "write_at i n d (SaveDelivery E decode now d i n received)"
| complete: "write_at i n d (CompleteSession E P decode now d i n path metadata)"
| terminate: "write_at i n d (TerminateWithoutPayment E P decode now d i n stage code message)"
| transition: "write_at i n d (transition E decode now d i n stage code message)"

lemma write_at_written: "write_at i n d result \<Longrightarrow> client_ok d \<Longrightarrow> written i n d result"
  by (cases rule: write_at.cases)
    (auto intro: SaveRedeemedCapsule_written SaveReview_written storeReestablishMerchantTrust_written
      JournalPayment_written SaveConfirmations_written SaveDelivery_written CompleteSession_written
      TerminateWithoutPayment_written transition_written client_ok_ids)

lemma write_at_op: "write_at i n d result \<Longrightarrow> client_op keep d (fst result)"
  by (cases rule: write_at.cases) (auto intro: client_op.intros)

lemma session_step_row:
  assumes "session_step i n d d'" and "client_ok d"
  shows "\<exists>r \<in> set (cdSessions d). SnID r = i \<and> SnRevision r = n" "\<exists>r \<in> set (cdSessions d'). SnID r = i \<and> SnRevision r = n + 1"
proof -
  obtain P f where w: "row_write i n P f d d'" using assms(1) by (auto elim: session_step.cases)
  obtain q where "q \<in> set (cdSessions d)" "SnID q = i" "P q" by (rule row_write_exists [OF w])
  moreover from this have "f q \<in> set (cdSessions d')" using w by (auto simp: row_write_def)
  ultimately show "\<exists>r \<in> set (cdSessions d). SnID r = i \<and> SnRevision r = n" "\<exists>r \<in> set (cdSessions d'). SnID r = i \<and> SnRevision r = n + 1"
    using w by (auto simp: row_write_def)
qed

section \<open>Approval\<close>

lemma session_by_id_update:
  assumes "update_session P f d = (d', c)" and "\<And>r. SnID (f r) = SnID r"
  shows "session_by_id d' i = map_option (\<lambda>r. if P r then f r else r) (session_by_id d i)"
proof -
  have "find (\<lambda>r. SnID r = i) (map g rows) = map_option g (find (\<lambda>r. SnID r = i) rows)"
    if "\<And>r. SnID (g r) = SnID r" for g :: "session_row \<Rightarrow> session_row" and rows
    using that by (induction rows) auto
  then show ?thesis
    using assms by (auto simp: update_session_def sql_update_def session_by_id_def)
qed

lemma session_by_id_log [simp]: "session_by_id (log_transition j from to' n at d) i = session_by_id d i"
  by (simp add: session_by_id_def)

lemma transition_row:
  assumes "transition E decode now d i n to' code message = (d', Inr s)"
  shows "\<exists>row. session_by_id d i = Some row \<and> SnRevision row = n \<and> validClientTransition (SnStage row) to' \<and>
     session_by_id d' i = Some (row\<lparr>SnStage := to', SnRetryStage := (if to' = StageFailedRetryable then Some (SnStage row) else None),
       SnRevision := n + 1, SnErrorCode := code, SnErrorMessage := message, RwUpdatedAt := Unix now,
       RwCompletedAt := (if to' = StageComplete then Some (Unix now) else RwCompletedAt row)\<rparr>) \<and> Session E decode d' i = Inr s"
proof -
  have s: "Session E decode d' i = Inr s"
    using assms by (auto simp: transition_def commit_session_def split: sum.splits)
  obtain row f d1 where row: "session_by_id d i = Some row" "SnRevision row = n" "validClientTransition (SnStage row) to'"
    and upd: "update_session (\<lambda>r. SnID r = i \<and> SnRevision r = n) f d = (d1, Suc 0)"
    and f: "f = (\<lambda>r. r\<lparr>SnStage := to', SnRetryStage := if to' = StageFailedRetryable then Some (SnStage row) else None,
      SnRevision := SnRevision r + 1, SnErrorCode := code, SnErrorMessage := message, RwUpdatedAt := Unix now,
      RwCompletedAt := (if to' = StageComplete then Some (Unix now) else RwCompletedAt r)\<rparr>)"
    and d': "d' = log_transition i (Some (SnStage row)) to' (n + 1) (Unix now) d1"
    using assms by (auto simp: transition_def commit_session_def commit_cases split: sum.splits if_split_asm option.split_asm)
  show ?thesis
    using row s session_by_id_update [OF upd, of i] session_by_id_Some [OF row(1)] by (auto simp: f d')
qed


lemma JournalPayment_row:
  assumes "JournalPayment C E decode now d i n tx fee = (d', Inr s)" and "client_ok d"
  shows "\<exists>row. session_by_id d i = Some row \<and> SnRevision row = n \<and> SnStage row = StagePreparingPayment \<and> RwTxId row = None \<and>
     ID tx \<noteq> [] \<and> ID tx = ComputeID C tx \<and> (\<forall>r \<in> set (cdSessions d). RwTxId r \<noteq> Some (ID tx)) \<and>
     session_by_id d' i = Some (row\<lparr>RwTxId := Some (ID tx), RwTransaction := Some tx, SnEstimatedFee := fee,
       SnRevision := n + 1, RwUpdatedAt := Unix now\<rparr>) \<and> Session E decode d' i = Inr s"
proof -
  define P :: "session_row \<Rightarrow> bool" where
    "P = (\<lambda>r. SnID r = i \<and> SnRevision r = n \<and> SnStage r = StagePreparingPayment \<and> RwTxId r = None)"
  define f :: "session_row \<Rightarrow> session_row" where
    "f = (\<lambda>r. r\<lparr>RwTxId := Some (ID tx), RwTransaction := Some tx, SnEstimatedFee := fee, SnRevision := SnRevision r + 1, RwUpdatedAt := Unix now\<rparr>)"
  have upd: "update_session P f d = (d', Suc 0)" and s: "Session E decode d' i = Inr s"
    and tx: "ID tx \<noteq> []" "ID tx = ComputeID C tx" "\<forall>r \<in> set (cdSessions d). RwTxId r \<noteq> Some (ID tx)"
    using assms(1) unfolding P_def f_def by (auto simp: JournalPayment_def commit_session_def commit_cases split: sum.splits)
  have "filter P (cdSessions d) \<noteq> []" using upd by (auto simp: update_session_def sql_update_def)
  then obtain q where q: "q \<in> set (cdSessions d)" "P q" by (auto simp: filter_empty_conv)
  then have "session_by_id d i = Some q" using session_by_id_in [OF assms(2) q(1)] by (auto simp: P_def)
  then show ?thesis
    using session_by_id_update [OF upd, of i] q(2) s tx by (auto simp: P_def f_def)
qed

text \<open>The row at the moment of the call: the transaction is in it, with the terms the call has.\<close>

definition journaled :: "crypto \<Rightarrow> client_db \<Rightarrow> string \<Rightarrow> commit_call \<Rightarrow> bool" where
  "journaled C d i call \<longleftrightarrow> (\<exists>row. session_by_id d i = Some row \<and> SnStage row = StagePreparingPayment \<and>
     RwTxId row = Some (ID (CallTransaction call)) \<and> RwTransaction row = Some (CallTransaction call) \<and>
     ID (CallTransaction call) \<noteq> [] \<and> ID (CallTransaction call) = ComputeID C (CallTransaction call) \<and>
     CallWallet call = SnWallet row \<and> CallCeiling call = SnFeeCeiling row \<and> CallFee call = SnEstimatedFee row \<and>
     (\<exists>invoice. SnInvoice row = Some invoice \<and> CallTo call = InvMerchant invoice \<and> CallAmount call = InvAmount invoice))"

text \<open>What was reviewed in the row approved, and what of it the later rows keep.\<close>

definition same_terms :: "session_row \<Rightarrow> session_row \<Rightarrow> bool" where
  "same_terms r r' \<longleftrightarrow> SnID r' = SnID r \<and> SnInvoice r' = SnInvoice r \<and> SnWallet r' = SnWallet r \<and> SnFeeCeiling r' = SnFeeCeiling r \<and>
     SnProduct r' = SnProduct r \<and> SnTrust r' = SnTrust r"

lemma approveCommit_eq:
  "fst (approveCommit X clock answers d session invoice tx fee) = Some (\<lparr>CallWallet = SnWallet session, CallTo = InvMerchant invoice,
     CallAmount = InvAmount invoice, CallFee = fee, CallCeiling = SnFeeCeiling session, CallTransaction = tx\<rparr>, d)"
  by (simp add: approveCommit_def Let_def)

lemma find_and: "find P xs = Some x \<Longrightarrow> Q x \<Longrightarrow> find (\<lambda>x. P x \<and> Q x) xs = Some x"
  by (induction xs) (auto split: if_splits)

lemma approvePay_journaled:
  assumes "approvePay X clock answers d session invoice = (Some (call, d1), result)" and "client_ok d"
    and row: "session_by_id d i = Some row" "scanClientSession E decode row = Inr session" "SnStage row = StagePreparingPayment"
    and "SnInvoice session = Some invoice" and E: "E = CxLibrary X" "decode = CxDecode X"
  shows "client_run keep d d1 \<and> journaled (CxCrypto X) d1 i call \<and>
     (\<exists>row1. session_by_id d1 i = Some row1 \<and> same_terms row row1) \<and> client_run keep d1 (fst result)"
proof (cases "CsTransactionID session = []")
  case True
  then obtain tx fee d2 s1 invoice1 where prepared: "AaPrepared answers = Inr (tx, fee)"
    and journal: "JournalPayment (CxCrypto X) E decode (clock 3) d (SnID session) (SnRevision session) tx fee = (d2, Inr s1)"
    and invoice1: "SnInvoice s1 = Some invoice1" and commit: "approveCommit X clock answers d2 s1 invoice1 tx fee = (Some (call, d1), result)"
    using assms(1) by (auto simp: approvePay_def E split: sum.splits prod.splits option.splits)
  have at_call: "d2 = d1" using approveCommit_eq [of X clock answers d2 s1 invoice1 tx fee] by (simp add: commit)
  note journal = journal [unfolded at_call] note commit = commit [unfolded at_call]
  note scan = scanClientSession_row [OF row(2)]
  have i: "SnID session = i" using scan(1) session_by_id_Some [OF row(1)] by simp
  obtain row1 where row1: "session_by_id d1 i = Some row1" "Session E decode d1 i = Inr s1"
    "row1 = row\<lparr>RwTxId := Some (ID tx), RwTransaction := Some tx, SnEstimatedFee := fee, SnRevision := SnRevision session + 1, RwUpdatedAt := Unix (clock 3)\<rparr>"
    and tx: "ID tx \<noteq> []" "ID tx = ComputeID (CxCrypto X) tx"
    using JournalPayment_row [OF journal assms(2)] row(1) i by auto
  have scan1: "scanClientSession E decode row1 = Inr s1"
    using row1(1,2) by (auto simp: Session_def split: if_splits)
  have inv: "SnInvoice row = Some invoice1" using scanClientSession_row(4) [OF scan1] invoice1 by (simp add: row1(3))
  have "client_run keep d d1" by (rule journal_pair [OF journal])
  moreover have "client_run keep d1 (fst result)"
    using approveCommit_run [of keep d1 X clock answers s1 invoice1 tx fee] by (simp add: commit)
  moreover have "journaled (CxCrypto X) d1 i call"
    using approveCommit_eq [of X clock answers d1 s1 invoice1 tx fee] scanClientSession_row(3,5,8,9) [OF scan1] inv tx row(3) row1(1)
    by (simp add: commit journaled_def row1(3))
  moreover have "same_terms row row1" by (simp add: same_terms_def row1(3))
  ultimately show ?thesis using row1(1) by blast
next
  case False
  note scan = scanClientSession_row [OF row(2)]
  have i: "SnID session = i" using scan(1) session_by_id_Some [OF row(1)] by simp
  obtain tx where stored: "StoredTransaction (CxCrypto X) d i = Inr tx"
    and commit: "approveCommit X clock answers d session invoice tx (SnEstimatedFee session) = (Some (call, d1), result)"
    using assms(1) False by (auto simp: approvePay_def i split: sum.splits)
  have at_call: "d1 = d" using approveCommit_eq [of X clock answers d session invoice tx "SnEstimatedFee session"] by (simp add: commit)
  have ok_row: "tx_stored row" "find (\<lambda>r. SnID r = i) (cdSessions d) = Some row"
    using assms(2) session_by_id_Some [OF row(1)] row(1) by (auto simp: client_ok_def session_by_id_def)
  obtain r where r: "find (\<lambda>r. SnID r = i \<and> RwTxId r \<noteq> None) (cdSessions d) = Some r" "RwTransaction r = Some tx" "ID tx \<noteq> []" "ID tx = ComputeID (CxCrypto X) tx"
    using stored by (auto simp: StoredTransaction_def split: option.splits if_splits)
  have "RwTxId row \<noteq> None" using False scanClientSession_eq(2) [OF row(2)] by (auto split: option.splits)
  then have "r = row" using r(1) find_and [OF ok_row(2)] by simp
  moreover from this have "RwTxId row = Some (ID tx)"
    using r(2) ok_row(1) \<open>RwTxId row \<noteq> None\<close> by (auto simp: tx_stored_def)
  moreover have "call = \<lparr>CallWallet = SnWallet row, CallTo = InvMerchant invoice, CallAmount = InvAmount invoice,
      CallFee = SnEstimatedFee row, CallCeiling = SnFeeCeiling row, CallTransaction = tx\<rparr>"
    using approveCommit_eq [of X clock answers d session invoice tx "SnEstimatedFee session"]
    unfolding commit by (simp add: scan(5,8,9))
  moreover have "SnInvoice row = Some invoice" using scan(4) assms(6) by simp
  ultimately have "journaled (CxCrypto X) d i call"
    using row(1,3) r(2-4) by (simp add: journaled_def)
  moreover have "client_run keep d (fst result)"
    using approveCommit_run [of keep d X clock answers session invoice tx "SnEstimatedFee session"] by (simp add: commit)
  ultimately show ?thesis using row(1) by (auto simp: same_terms_def at_call)
qed


lemma Approve_commit:
  assumes "Approve X clock answers active d i n = (Some (call, d1), result)" and "client_ok d"
  obtains row where "session_by_id d i = Some row" "SnRevision row = n" "SnStage row = StageAwaitingApproval"
    "SnProduct row \<noteq> None" "SnTrust row \<noteq> ''changed''" "i \<notin> active"
    "\<exists>invoice. SnInvoice row = Some invoice \<and> clock 0 \<le> InvExpiresAt invoice \<and> CallTo call = InvMerchant invoice \<and>
       CallAmount call = InvAmount invoice"
    "CallWallet call = SnWallet row" "CallCeiling call = SnFeeCeiling row"
    "client_run {i} d d1" "journaled (CxCrypto X) d1 i call" "client_run {i} d1 (fst result)"
proof -
  let ?E = "CxLibrary X" let ?dec = "CxDecode X"
  obtain session invoice where active: "i \<notin> active" and read: "Session ?E ?dec d i = Inr session"
    and checks: "SnRevision session = n" "SnStage session = StageAwaitingApproval" "SnProduct session \<noteq> None"
      "SnInvoice session = Some invoice" "SnTrust session \<noteq> ''changed''" "clock 0 \<le> InvExpiresAt invoice"
    and rest: "(case transition ?E ?dec (clock 1) d i n StagePreparingPayment [] [] of (d', Inl e) \<Rightarrow> (None, d', Inl e)
      | (d', Inr session') \<Rightarrow> (case SnInvoice session' of None \<Rightarrow> (None, d', Inl (GoPanic ''nil invoice''))
        | Some invoice' \<Rightarrow> approvePay X clock answers d' session' invoice')) = (Some (call, d1), result)"
    using assms(1) by (auto simp: Approve_def begin_active_def simp del: not_None_eq split: if_split_asm sum.split_asm option.split_asm)
  obtain row where row: "session_by_id d i = Some row" "scanClientSession ?E ?dec row = Inr session" using read by (rule Session_row)
  obtain d2 session2 invoice2 where move: "transition ?E ?dec (clock 1) d i n StagePreparingPayment [] [] = (d2, Inr session2)"
    and inv2: "SnInvoice session2 = Some invoice2" and pay: "approvePay X clock answers d2 session2 invoice2 = (Some (call, d1), result)"
    using rest by (auto split: prod.split_asm sum.split_asm option.split_asm)
  obtain row2 where row2: "session_by_id d2 i = Some row2" "SnStage row2 = StagePreparingPayment" "same_terms row row2"
    "Session ?E ?dec d2 i = Inr session2"
    using transition_row [OF move] row(1) by (auto simp: same_terms_def)
  have scan2: "scanClientSession ?E ?dec row2 = Inr session2"
    using row2(1,4) by (auto simp: Session_def split: if_splits)
  have run: "client_run {i} d d2" by (rule transition_pair [OF move])
  obtain row1 where d1: "client_run {i} d2 d1" "journaled (CxCrypto X) d1 i call" "session_by_id d1 i = Some row1"
    "same_terms row2 row1" "client_run {i} d1 (fst result)"
    using approvePay_journaled [OF pay client_run_ok [OF run assms(2)] row2(1) scan2 row2(2) inv2 HOL.refl HOL.refl] by blast
  have "same_terms row row1" using row2(3) d1(4) by (simp add: same_terms_def)
  then show thesis
    using that [OF row(1) _ _ _ _ active] checks scanClientSession_row(2-7) [OF row(2)] d1(2,3,5)
      rtranclp_trans [OF run d1(1)] by (auto simp: journaled_def same_terms_def)
qed

text \<open>Once a transaction is journaled it stays the session's transaction.\<close>

lemma journaled_stays:
  assumes "journaled C d i call" and "client_ok d" and "client_run {i} d d'" and "journaled C' d' i call'"
  shows "CallTransaction call' = CallTransaction call"
proof -
  obtain row where row: "session_by_id d i = Some row" "RwTxId row \<noteq> None" "RwTransaction row = Some (CallTransaction call)"
    using assms(1) by (auto simp: journaled_def)
  obtain row' where row': "session_by_id d' i = Some row'" "RwTransaction row' = Some (CallTransaction call')"
    using assms(4) by (auto simp: journaled_def)
  have ids: "distinct (map SnID (cdSessions d'))" by (rule client_ok_ids [OF client_run_ok [OF assms(3,2)]])
  have in_d: "row \<in> set (cdSessions d)" "SnID row \<in> {i}" using session_by_id_Some [OF row(1)] by simp_all
  obtain r where r: "r \<in> set (cdSessions d')" "later_row row r"
    using client_run_later [OF assms(3,2) in_d] by blast
  have "SnID r = SnID row'"
    using r(2) in_d(2) session_by_id_Some [OF row'(1)] by (simp add: later_row_def)
  then have "r = row'" using one_key [OF ids r(1)] session_by_id_Some [OF row'(1)] by blast
  then show ?thesis using r(2) row(2,3) row'(2) by (simp add: later_row_def)
qed

text \<open>
  The end of a session: what is complete was verified, what is finished keeps no secret, and the paths
  on which a payment that was interrupted is forgotten.
\<close>

section \<open>Sessions read back\<close>

text \<open>Session \<open>i\<close> of the tables, as a row and as it is read.\<close>

definition current :: "client_context \<Rightarrow> client_db \<Rightarrow> string \<Rightarrow> session_row \<Rightarrow> ClientSession \<Rightarrow> bool" where
  "current X d i row s \<longleftrightarrow> session_by_id d i = Some row \<and> scanClientSession (CxLibrary X) (CxDecode X) row = Inr s"

text \<open>What a session was paid for.\<close>

definition same_deal :: "session_row \<Rightarrow> session_row \<Rightarrow> bool" where
  "same_deal r r' \<longleftrightarrow> SnID r' = SnID r \<and> SnInvoice r' = SnInvoice r \<and> SnSigningKey r' = SnSigningKey r \<and> RwTxId r' = RwTxId r"

lemma same_deal_trans: "same_deal r r1 \<Longrightarrow> same_deal r1 r2 \<Longrightarrow> same_deal r r2"
  by (simp add: same_deal_def)

lemma current_Session: "Session (CxLibrary X) (CxDecode X) d i = Inr s \<Longrightarrow> \<exists>row. current X d i row s"
  by (elim Session_row) (auto simp: current_def)

lemma current_eq:
  assumes "current X d i row s"
  shows "SnID s = i" "SnStage s = SnStage row" "SnRevision s = SnRevision row" "SnInvoice s = SnInvoice row" "SnSigningKey s = SnSigningKey row"
    "CsTransactionID s = (case RwTxId row of None \<Rightarrow> [] | Some t \<Rightarrow> t)"
  using assms scanClientSession_row [of "CxLibrary X" "CxDecode X" row s] scanClientSession_eq(2) [of "CxLibrary X" "CxDecode X" row s]
    session_by_id_Some [of d i row]
  by (auto simp: current_def)

lemma Session_current:
  "Session (CxLibrary X) (CxDecode X) d i = Inr s \<Longrightarrow> session_by_id d i = Some row \<Longrightarrow> current X d i row s"
  by (auto simp: Session_def current_def split: if_splits)

lemma transition_current:
  assumes "transition (CxLibrary X) (CxDecode X) now d i n stage code message = (d', Inr s')" and "session_by_id d i = Some row"
  shows "\<exists>row'. current X d' i row' s' \<and> same_deal row row' \<and> SnStage row' = stage \<and> RwCapsule row' = RwCapsule row"
  using transition_row [OF assms(1)] assms(2) Session_current [of X d' i s'] by (auto simp: same_deal_def)

lemma cx_transition_current:
  assumes "cx_transition X now d s stage code message = (d', Inr s')" and "current X d i row s"
  shows "\<exists>row'. current X d' i row' s' \<and> same_deal row row' \<and> SnStage row' = stage"
  using transition_current [of X now d i "SnRevision s" stage code message d' s' row] assms current_eq(1) [OF assms(2)]
  by (auto simp: cx_transition_def current_def)

lemma failSession_stage:
  assumes "failSession X now d s stage code message cause = (d', Inr s')" and "current X d i row s"
    and "stage = StageFailedRetryable \<or> stage = StageFailedTerminal"
  shows "SnStage s' = stage"
proof -
  have "cx_transition X now d s stage code message = (d', Inr s')"
    using assms(1,3) by (auto simp: failSession_def Let_def split: prod.splits sum.splits option.splits)
  then show ?thesis
    using cx_transition_current [OF _ assms(2)] current_eq(2) by metis
qed

lemma SaveConfirmations_current:
  assumes "SaveConfirmations (CxLibrary X) (CxDecode X) now d i n confirmations = (d', Inr s')" and "session_by_id d i = Some row"
  shows "\<exists>row'. current X d' i row' s' \<and> same_deal row row'"
proof -
  define P :: "session_row \<Rightarrow> bool" where "P = (\<lambda>r. SnID r = i \<and> SnRevision r = n \<and>
    SnStage r \<in> {StageConfirming, StageFulfilling} \<and> SnConfirmations r \<noteq> confirmations)"
  define f :: "session_row \<Rightarrow> session_row" where
    "f = (\<lambda>r. r\<lparr>SnConfirmations := confirmations, SnRevision := SnRevision r + 1, RwUpdatedAt := Unix now\<rparr>)"
  obtain d1 c where upd: "update_session P f d = (d1, c)" by (cases "update_session P f d")
  have "d' = d \<and> Session (CxLibrary X) (CxDecode X) d i = Inr s' \<or> d' = d1 \<and> Session (CxLibrary X) (CxDecode X) d1 i = Inr s'"
    using assms(1) upd unfolding P_def f_def
    by (auto simp: SaveConfirmations_def Let_def res_simps split: sum.splits if_splits)
  then show ?thesis
  proof
    assume "d' = d \<and> Session (CxLibrary X) (CxDecode X) d i = Inr s'"
    then show ?thesis using Session_current [of X d i s'] assms(2) by (auto simp: same_deal_def)
  next
    assume later: "d' = d1 \<and> Session (CxLibrary X) (CxDecode X) d1 i = Inr s'"
    have "session_by_id d1 i = Some (if P row then f row else row)"
      using session_by_id_update [OF upd, of i] assms(2) by (auto simp: f_def)
    then have "current X d' i (if P row then f row else row) s'" using later Session_current by blast
    moreover have "same_deal row (if P row then f row else row)" by (simp add: same_deal_def f_def)
    ultimately show ?thesis by blast
  qed
qed

lemma SaveDelivery_current:
  assumes "SaveDelivery (CxLibrary X) (CxDecode X) now d i n delivery = (d', Inr s')" and "session_by_id d i = Some row"
  shows "\<exists>row'. current X d' i row' s' \<and> same_deal row row'"
proof -
  obtain payload where payload: "canonicalPayload (CxLibrary X) (DelPayload delivery) = Inr payload"
    using assms(1) by (auto simp: SaveDelivery_def commit_session_def res_simps split: sum.splits)
  define P :: "session_row \<Rightarrow> bool" where "P = (\<lambda>r. SnID r = i \<and> SnRevision r = n \<and> SnStage r = SnStage row)"
  define f :: "session_row \<Rightarrow> session_row" where
    "f = (\<lambda>r. r\<lparr>SnReceipt := Some (DelReceipt delivery), SnPayload := payload, SnArtifact := DelArtifact delivery,
      SnStage := StageVerifying, SnRevision := SnRevision r + 1, SnErrorCode := [], SnErrorMessage := [], RwUpdatedAt := Unix now\<rparr>)"
  obtain d1 where upd: "update_session P f d = (d1, Suc 0)"
    and d': "session_by_id d' i = session_by_id d1 i" "Session (CxLibrary X) (CxDecode X) d' i = Inr s'"
    using assms payload unfolding P_def f_def
    by (auto simp: SaveDelivery_def commit_session_def commit_cases split: sum.split_asm if_split_asm)
  then show ?thesis
    using session_by_id_update [OF upd, of i] assms(2) Session_current [OF d'(2)] by (auto simp: same_deal_def f_def)
qed

section \<open>Completion\<close>

lemma case_unit_eq_Inr: "(case r of Inl x \<Rightarrow> Inl e | Inr (u :: unit) \<Rightarrow> Inr v) = Inr y \<longleftrightarrow> r = Inr () \<and> y = v"
  by (auto split: sum.splits)

text \<open>The artifact that was saved has the size and the hash of the metadata.\<close>

lemma downloadClientArtifact_Inr:
  assumes "downloadClientArtifact C answers invoiceID delivery token = Inr path"
  shows "\<exists>metadata response. DelArtifact delivery = Some metadata \<and> DlResponse answers = Inr response \<and> ArStatus response = 200 \<and>
     int (length (limitedBody response)) = MetaBytes metadata \<and> MetaBytes metadata \<le> maxArtifactBytes \<and>
     contentHash C (limitedBody response) = MetaSHA256 metadata \<and> DlLink answers path = Inr ()"
  using assms
  by (auto simp: downloadClientArtifact_def res_simps case_unit_eq_Inr Let_def split: option.split_asm if_split_asm)

lemma failSession_retryable:
  assumes "failSession X now d s StageFailedRetryable code message cause = (d', Inr s')"
  shows "SnStage s' = StageFailedRetryable"
proof -
  have "cx_transition X now d s StageFailedRetryable code message = (d', Inr s')"
    using assms by (auto simp: failSession_def Let_def split: prod.splits sum.splits option.splits)
  from transition_row [OF this [unfolded cx_transition_def]]
  obtain row' where row': "session_by_id d' (SnID s) = Some row'" "SnStage row' = StageFailedRetryable"
    and read: "Session (CxLibrary X) (CxDecode X) d' (SnID s) = Inr s'"
    by (elim exE conjE) simp
  then show ?thesis using current_eq(2) [OF Session_current [OF read row'(1)]] by simp
qed

text \<open>What a delivery needs for a session to complete.\<close>

definition verified ::
    "client_context \<Rightarrow> download_answers \<Rightarrow> string \<Rightarrow> Invoice \<Rightarrow> string \<Rightarrow> Delivery \<Rightarrow> bool" where
  "verified X files signingKey invoice transactionID delivery \<longleftrightarrow>
     (\<exists>pk. RawURLDecode signingKey = Inr pk \<and> length pk = PublicKeySize \<and>
        validateDelivery (CxCrypto X) (CxLibrary X) pk invoice transactionID delivery = Inr ()) \<and>
     (case DelArtifact delivery of
        None \<Rightarrow> True
      | Some metadata \<Rightarrow> \<exists>response path. DlResponse files = Inr response \<and>
          contentHash (CxCrypto X) (limitedBody response) = MetaSHA256 metadata \<and>
          DlLink files path = Inr ())"

lemma verifyDelivery_complete:
  assumes "verifyDelivery X now files d s invoice delivery = (d', Inr s')" and "SnStage s' = StageComplete"
  shows "verified X files (SnSigningKey s) invoice (CsTransactionID s) delivery"
proof -
  have bad: "failSession X now d s StageFailedRetryable code message cause \<noteq> (d', Inr s')" for code message cause
    using failSession_retryable assms(2) by force
  show ?thesis
    using assms(1) bad
    by (auto simp: verifyDelivery_def verified_def split: if_split_asm sum.split_asm option.splits
        dest!: downloadClientArtifact_Inr)
qed

lemma claimLoop_complete:
  assumes "claimLoop X files d s answers = (d', Inr s')" and "SnStage s' = StageComplete" and "current X d i row s"
  shows "\<exists>now body invoice delivery. (now, Inr (200, Inr body)) \<in> set answers \<and> CbDelivery body = Inr delivery \<and>
     SnInvoice s = Some invoice \<and> verified X files (SnSigningKey s) invoice (CsTransactionID s) delivery"
  using assms
proof (induction X files d s answers arbitrary: row rule: claimLoop.induct)
  case (2 X files d s now answer answers)
  note cur = 2(5) note scan = current_eq [OF cur]
  have row: "session_by_id d i = Some row" using cur by (simp add: current_def)
  have bad: "failSession X now e t stage code message cause \<noteq> (d', Inr s')"
    if "current X e i r t" "stage = StageFailedRetryable \<or> stage = StageFailedTerminal" for e t r stage code message cause
    using failSession_stage [OF _ that] 2(4) that(2) by force
  obtain r where claim: "claim X answer d s = Inr r"
    using 2(3) bad [OF cur] by (cases "claim X answer d s") auto
  show ?case
  proof (cases r)
    case (Inl delivery)
    obtain body where body: "answer = Inr (200, Inr body)" "CbDelivery body = Inr delivery"
      using claim Inl by (auto simp: claim_def agentJSONStatus_def res_simps split: prod.split_asm if_split_asm)
    obtain d1 s1 invoice where saved: "SaveDelivery (CxLibrary X) (CxDecode X) now d i (SnRevision s) delivery = (d1, Inr s1)"
      and invoice: "SnInvoice s1 = Some invoice" and check: "verifyDelivery X now files d1 s1 invoice delivery = (d', Inr s')"
      using 2(3) claim Inl scan(1) by (auto split: prod.split_asm sum.split_asm option.split_asm)
    obtain row1 where row1: "current X d1 i row1 s1" "same_deal row row1"
      using SaveDelivery_current [OF saved row] by blast
    have "verified X files (SnSigningKey s1) invoice (CsTransactionID s1) delivery"
      by (rule verifyDelivery_complete [OF check 2(4)])
    moreover have "SnSigningKey s1 = SnSigningKey s" "SnInvoice s1 = SnInvoice s" "CsTransactionID s1 = CsTransactionID s"
      using current_eq [OF row1(1)] scan row1(2) by (auto simp: same_deal_def)
    ultimately have "SnInvoice s = Some invoice" "verified X files (SnSigningKey s) invoice (CsTransactionID s) delivery"
      using invoice by simp_all
    moreover have "(now, Inr (200, Inr body)) \<in> set ((now, answer) # answers)" using body(1) by simp
    ultimately show ?thesis using body(2) by blast
  next
    case (Inr status)
    obtain invoice d1 s1 where invoice: "SnInvoice s = Some invoice"
      and saved: "SaveConfirmations (CxLibrary X) (CxDecode X) now d i (SnRevision s) (PsConfirmations status) = (d1, Inr s1)"
      and matching: "\<not> (PsTransactionID status \<noteq> CsTransactionID s \<or> PsInvoiceID status \<noteq> InvID invoice \<or> PsRequired status \<noteq> InvConfirmations invoice)"
      using 2(3) claim Inr scan(1) bad [OF cur] by (auto split: prod.split_asm sum.split_asm option.split_asm if_split_asm)
    have saved': "(d1, Inr s1) = SaveConfirmations (CxLibrary X) (CxDecode X) now d (SnID s) (SnRevision s) (PsConfirmations status)"
      using saved scan(1) by simp
    obtain row1 where row1: "current X d1 i row1 s1" "same_deal row row1"
      using SaveConfirmations_current [OF saved row] by blast
    have rest: "\<exists>now body invoice delivery. (now, Inr (200, Inr body)) \<in> set ((now', answer) # answers) \<and> CbDelivery body = Inr delivery \<and>
       SnInvoice s = Some invoice \<and> verified X files (SnSigningKey s) invoice (CsTransactionID s) delivery"
      if again: "\<exists>now body invoice delivery. (now, Inr (200, Inr body)) \<in> set answers \<and> CbDelivery body = Inr delivery \<and>
          SnInvoice t = Some invoice \<and> verified X files (SnSigningKey t) invoice (CsTransactionID t) delivery"
        and t: "current X e i row' t" "same_deal row row'" for e t row' now'
    proof -
      have "SnSigningKey t = SnSigningKey s" "SnInvoice t = SnInvoice s" "CsTransactionID t = CsTransactionID s"
        using current_eq [OF t(1)] scan t(2) by (auto simp: same_deal_def)
      then show ?thesis using again by auto
    qed
    show ?thesis
    proof (cases "PsStatus status = ''processing'' \<and> SnStage s1 = StageConfirming")
      case True
      then obtain d2 s2 where move: "cx_transition X now d1 s1 StageFulfilling [] [] = (d2, Inr s2)"
        and loop: "claimLoop X files d2 s2 answers = (d', Inr s')"
        using 2(3) claim Inr scan(1) invoice saved matching by (auto split: prod.split_asm sum.split_asm)
      obtain row2 where row2: "current X d2 i row2 s2" "same_deal row1 row2"
        using cx_transition_current [OF move row1(1)] by blast
      show ?thesis
        by (rule rest [OF 2(1) [OF claim Inr invoice matching saved' HOL.refl True move [symmetric] HOL.refl loop 2(4) row2(1)] row2(1)
              same_deal_trans [OF row1(2) row2(2)]])
    next
      case False
      have known: "\<not> (PsStatus status \<noteq> ''confirming'' \<and> PsStatus status \<noteq> ''processing'')"
        and loop: "claimLoop X files d1 s1 answers = (d', Inr s')"
        using 2(3) claim Inr scan(1) invoice saved matching False bad [OF row1(1)] by (auto split: if_split_asm)
      show ?thesis
        by (rule rest [OF 2(2) [OF claim Inr invoice matching saved' HOL.refl False known loop 2(4) row1(1)] row1])
    qed
  qed
qed simp


text \<open>The same of a session that is carried on from an earlier row with the same terms.\<close>

definition delivered :: "client_context \<Rightarrow> continue_answers \<Rightarrow> ClientSession \<Rightarrow> bool" where
  "delivered X answers s \<longleftrightarrow> (\<exists>now body invoice delivery. (now, Inr (200, Inr body)) \<in> set (CnClaims answers) \<and>
     CbDelivery body = Inr delivery \<and> SnInvoice s = Some invoice \<and>
     verified X (CnFiles answers) (SnSigningKey s) invoice (CsTransactionID s) delivery)"

lemma delivered_earlier:
  assumes "delivered X answers t" and "current X d i row s" and "current X e i row' t" and "same_deal row row'"
  shows "delivered X answers s"
proof -
  have "SnSigningKey t = SnSigningKey s" "SnInvoice t = SnInvoice s" "CsTransactionID t = CsTransactionID s"
    using current_eq [OF assms(2)] current_eq [OF assms(3)] assms(4) by (auto simp: same_deal_def)
  then show ?thesis using assms(1) by (simp add: delivered_def)
qed

lemma continueSubmitting_complete:
  assumes "continueSubmitting X clock answers d s invoice = (d', Inr s')" and "SnStage s' = StageComplete" and "current X d i row s"
  shows "delivered X answers s"
proof (cases "SnStage s = StageSubmitting")
  case True
  have "failSession X (clock 1) d s StageFailedRetryable code message cause \<noteq> (d', Inr s')" for code message cause
    using failSession_stage [OF _ assms(3)] assms(2) by force
  then obtain d1 s1 where move: "cx_transition X (clock 1) d s StageConfirming [] [] = (d1, Inr s1)"
    and loop: "claimLoop X (CnFiles answers) d1 s1 (CnClaims answers) = (d', Inr s')"
    using assms(1) True by (auto simp: continueSubmitting_def split: sum.split_asm prod.split_asm)
  obtain row1 where row1: "current X d1 i row1 s1" "same_deal row row1"
    using cx_transition_current [OF move assms(3)] by blast
  have "delivered X answers s1"
    using claimLoop_complete [OF loop assms(2) row1(1)] by (simp add: delivered_def)
  then show ?thesis by (rule delivered_earlier [OF _ assms(3) row1])
next
  case False
  then have "claimLoop X (CnFiles answers) d s (CnClaims answers) = (d', Inr s')"
    using assms(1) by (auto simp: continueSubmitting_def split: if_split_asm)
  then show ?thesis
    using claimLoop_complete [OF _ assms(2,3)] by (simp add: delivered_def)
qed

text \<open>Where else a verified delivery is asked for: what is not a verification does not complete a session.\<close>

lemma Continue_complete:
  assumes "Continue X clock answers active d i = (d', Inr s')" and "SnStage s' = StageComplete" and row: "current X d i row s"
  shows "delivered X answers s \<and> RwTxId row = Some (CsTransactionID s)"
proof -
  have valid: "validateSessionID i = Inr ()"
    using assms(1) by (auto simp: Continue_def Session_def split: if_split_asm sum.split_asm option.split_asm)
  then have read: "Session (CxLibrary X) (CxDecode X) d i = Inr s" using row by (simp add: Session_def current_def)
  have tx: "CsTransactionID s \<noteq> []"
    using assms(1) read by (auto simp: Continue_def split: if_split_asm option.split_asm)
  have "delivered X answers s"
  proof (cases "SnStage s = StageBroadcast")
    case True
    obtain d1 s1 invoice where move: "cx_transition X (clock 0) d s StageSubmitting [] [] = (d1, Inr s1)"
      and rest: "continueSubmitting X clock answers d1 s1 invoice = (d', Inr s')"
      using assms(1) True read tx
      by (auto simp: Continue_def split: if_split_asm sum.split_asm prod.split_asm option.split_asm)
    obtain row1 where row1: "current X d1 i row1 s1" "same_deal row row1"
      using cx_transition_current [OF move row] by blast
    show ?thesis by (rule delivered_earlier [OF continueSubmitting_complete [OF rest assms(2) row1(1)] row row1])
  next
    case False
    then obtain invoice where "continueSubmitting X clock answers d s invoice = (d', Inr s')"
      using assms(1) read tx by (auto simp: Continue_def split: if_split_asm option.split_asm)
    then show ?thesis by (rule continueSubmitting_complete [OF _ assms(2) row])
  qed
  moreover have "RwTxId row = Some (CsTransactionID s)" using current_eq(6) [OF row] tx by (auto split: option.splits)
  ultimately show ?thesis by blast
qed

text \<open>A session that is not complete stays so under what writes another stage.\<close>

definition unfinished :: "client_db \<Rightarrow> string \<Rightarrow> bool" where
  "unfinished d i \<longleftrightarrow> (\<forall>row. session_by_id d i = Some row \<longrightarrow> SnStage row \<noteq> StageComplete)"

definition open_result :: "string \<Rightarrow> client_result \<Rightarrow> bool" where
  "open_result i result \<longleftrightarrow> (\<forall>s. snd result = Inr s \<longrightarrow> SnID s = i \<and> SnStage s \<noteq> StageComplete \<and> unfinished (fst result) i)"

lemma commit_open:
  assumes "\<And>d'. changed = Inr d' \<Longrightarrow> unfinished d' i"
  shows "open_result i (commit_session E decode d i changed)"
  using assms by (auto simp: open_result_def commit_session_def unfinished_def scanClientSession_row(3) split: sum.splits elim!: Session_row)

lemma update_unfinished:
  assumes "update_session P f d = (d1, c)" and "unfinished d i" and "\<And>r. SnID (f r) = SnID r" and "\<And>r. SnStage (f r) \<noteq> StageComplete \<or> SnStage (f r) = SnStage r"
  shows "unfinished d1 i"
  using session_by_id_update [OF assms(1,3), of i] assms(2,4) by (fastforce simp: unfinished_def split: if_splits)

lemma unfinished_log [simp]: "unfinished (log_transition j from to' n at d) i = unfinished d i"
  by (simp add: unfinished_def)

lemma unfinished_merchants [simp]: "unfinished (d\<lparr>cdMerchants := ms\<rparr>) i = unfinished d i"
  by (simp add: unfinished_def session_by_id_def)

lemma SaveReview_open: "unfinished d i \<Longrightarrow> open_result i (SaveReview C E decode now d i n info product invoice preview)"
  unfolding SaveReview_def
  by (rule commit_open) (auto simp: res_simps Let_def split: sum.split_asm if_split_asm prod.split_asm elim!: update_unfinished)

lemma SaveRedeemedCapsule_open: "unfinished d i \<Longrightarrow> open_result i (SaveRedeemedCapsule E P decode now d i n capsule)"
  unfolding SaveRedeemedCapsule_def
  by (rule commit_open) (auto simp: res_simps Let_def split: sum.split_asm if_split_asm prod.split_asm elim!: update_unfinished)

lemma TerminateWithoutPayment_open: "unfinished d i \<Longrightarrow> open_result i (TerminateWithoutPayment E P decode now d i n stage code message)"
  unfolding TerminateWithoutPayment_def
  by (rule commit_open) (auto simp: res_simps Let_def split: sum.split_asm if_split_asm option.split_asm prod.split_asm elim!: update_unfinished)

lemma transition_open:
  "unfinished d i \<Longrightarrow> stage \<noteq> StageComplete \<Longrightarrow> open_result i (transition E decode now d i n stage code message)"
  unfolding transition_def
  by (rule commit_open) (auto simp: res_simps Let_def split: sum.split_asm if_split_asm option.split_asm prod.split_asm elim!: update_unfinished)

lemma failSession_open:
  assumes "unfinished d (SnID s)" and "stage \<noteq> StageComplete"
  shows "open_result (SnID s) (failSession X now d s stage code message cause)"
proof -
  have relay: "open_result i (fst p, case snd p of Inl e \<Rightarrow> Inl e | Inr s \<Rightarrow> (case cause of None \<Rightarrow> Inr s | Some e \<Rightarrow> Inl e))"
    if "open_result i p" for i p
    using that by (auto simp: open_result_def split: sum.splits option.splits)
  show ?thesis
    unfolding failSession_def cx_transition_def Let_def case_prod_beta
    by (rule relay) (simp add: TerminateWithoutPayment_open assms(1) transition_open [OF assms])
qed

lemma reviewRequest_open: "unfinished d (SnID s) \<Longrightarrow> open_result (SnID s) (reviewRequest X clock answers amount d s capsule)"
  by (auto simp: reviewRequest_def terminalInspectionStage_def split: sum.splits prod.splits intro!: failSession_open SaveReview_open)

lemma inspect_open:
  assumes "unfinished d (SnID s)"
  shows "open_result (SnID s) (inspect X clock answers amount d s)"
proof -
  have "open_result (SnID s) (reviewRequest X clock answers amount d1 s1 capsule)"
    if "SaveRedeemedCapsule (CxLibrary X) (CxProtector X) (CxDecode X) (clock 1) d (SnID s) (SnRevision s) redeemed = (d1, Inr s1)"
    for d1 s1 capsule redeemed
  proof -
    have "SnID s1 = SnID s \<and> unfinished d1 (SnID s)"
      using SaveRedeemedCapsule_open [OF assms, of "CxLibrary X" "CxProtector X" "CxDecode X" "clock 1" "SnRevision s" redeemed]
      unfolding open_result_def that by simp
    then show ?thesis using reviewRequest_open [of d1 s1] by simp
  qed
  then show ?thesis
    using assms
    by (auto simp: inspect_def split: sum.splits prod.splits intro!: failSession_open reviewRequest_open)
      (simp_all add: open_result_def)
qed

lemma stored_delivery_invoice: "stored_delivery s = Some (invoice, delivery) \<Longrightarrow> SnInvoice s = Some invoice"
  by (auto simp: stored_delivery_def split: option.split_asm)

lemma Retry_complete:
  assumes retry: "Retry X clock inspected amount answers active d i n = (d', Inr s')" and "SnStage s' = StageComplete"
    and read: "Session (CxLibrary X) (CxDecode X) d i = Inr s"
  shows "delivered X answers s \<or> (\<exists>invoice delivery. stored_delivery s = Some (invoice, delivery) \<and>
     verified X (CnFiles answers) (SnSigningKey s) invoice (CsTransactionID s) delivery)"
proof -
  obtain row where row: "current X d i row s" using current_Session [OF read] by blast
  obtain stage d1 s1 where move: "transition (CxLibrary X) (CxDecode X) (clock 8) d i n stage [] [] = (d1, Inr s1)"
    and rest: "(if SnStage s1 = StageInspecting then inspect X clock inspected amount d1 s1
       else if SnStage s1 \<in> {StageSubmitting, StageConfirming, StageFulfilling} then Continue X clock answers active d1 i
       else if SnStage s1 = StageVerifying then
         (case stored_delivery s1 of None \<Rightarrow> (d1, Inl (Errorf ''stored EntPay delivery is incomplete''))
          | Some (invoice, delivery) \<Rightarrow> verifyDelivery X (clock 9) (CnFiles answers) d1 s1 invoice delivery)
       else (d1, Inl ErrClientStage)) = (d', Inr s')"
    using retry read unfolding Retry_def by (auto split: if_split_asm prod.split_asm sum.split_asm)
  obtain row1 where row1: "current X d1 i row1 s1" "same_deal row row1" "SnReceipt row1 = SnReceipt row" "SnPayload row1 = SnPayload row"
      "SnArtifact row1 = SnArtifact row"
    using transition_row [OF move] Session_current [of X d1 i s1] row by (auto simp: current_def same_deal_def)
  have same: "SnInvoice s1 = SnInvoice s" "SnSigningKey s1 = SnSigningKey s" "CsTransactionID s1 = CsTransactionID s"
    using current_eq [OF row] current_eq [OF row1(1)] row1(2) by (auto simp: same_deal_def)
  have stored: "stored_delivery s1 = stored_delivery s"
    using scanClientSession_row(14-16) [of "CxLibrary X" "CxDecode X" row s] scanClientSession_row(14-16) [of "CxLibrary X" "CxDecode X" row1 s1]
      row row1 same(1) by (simp add: stored_delivery_def current_def split: option.split)
  have "\<not> (SnStage s1 = StageInspecting)"
  proof
    assume inspecting: "SnStage s1 = StageInspecting"
    then have "unfinished d1 (SnID s1)"
      using current_eq(1,2) [OF row1(1)] row1(1) by (auto simp: unfinished_def current_def)
    from inspect_open [OF this, of X clock inspected amount] show False
      using rest inspecting assms(2) by (simp add: open_result_def)
  qed
  then consider "Continue X clock answers active d1 i = (d', Inr s')"
    | invoice delivery where "stored_delivery s1 = Some (invoice, delivery)" "verifyDelivery X (clock 9) (CnFiles answers) d1 s1 invoice delivery = (d', Inr s')"
    using rest by (auto split: if_split_asm option.split_asm prod.split_asm)
  then show ?thesis
  proof cases
    case 1
    show ?thesis using delivered_earlier [OF conjunct1 [OF Continue_complete [OF 1 assms(2) row1(1)]] row row1(1,2)] by blast
  next
    case 2
    then show ?thesis using verifyDelivery_complete [OF 2(2) assms(2)] same stored by auto
  qed
qed

section \<open>Secrets of finished sessions\<close>

text \<open>A sealed capsule without the handoff secret and without the claim token.\<close>

definition secrets_erased :: "protector \<Rightarrow> string \<Rightarrow> bytes \<Rightarrow> bool" where
  "secrets_erased P i encrypted \<longleftrightarrow> (\<exists>capsule. SealCapsule P i capsule = Inr encrypted \<and> CapHandoffCode capsule = [] \<and>
     CapClientNonce capsule = [] \<and> CirClaimToken (CapCreated capsule) = [])"

lemma finish_row:
  assumes "update_session P f d = (d1, Suc 0)" and "client_ok d" and "\<And>r. P r \<Longrightarrow> SnID r = i" and "\<And>r. SnID (f r) = SnID r"
  shows "\<exists>row. session_by_id d i = Some row \<and> P row \<and> session_by_id d1 i = Some (f row)"
proof -
  have "filter P (cdSessions d) \<noteq> []" using assms(1) by (auto simp: update_session_def sql_update_def)
  then obtain q where q: "q \<in> set (cdSessions d)" "P q" by (auto simp: filter_empty_conv)
  then have "session_by_id d i = Some q" using session_by_id_in [OF assms(2) q(1)] assms(3) by simp
  then show ?thesis using session_by_id_update [OF assms(1,4), of i] q(2) by auto
qed

lemma clearedCapsule_erased:
  "SealCapsule P i (clearedCapsule d capsule) = Inr encrypted \<Longrightarrow> secrets_erased P i encrypted"
  unfolding secrets_erased_def by (rule exI [of _ "clearedCapsule d capsule"]) (simp add: clearedCapsule_def)

section \<open>A payment that was interrupted\<close>

lemma scan_total:
  assumes "scanClientSession E decode row = Inr s" and "SnPayload row' = SnPayload row"
  shows "\<exists>s'. scanClientSession E decode row' = Inr s'"
  using assms(1) unfolding scanClientSession_def assms(2) attempt_eq_Inr by blast

lemma transition_total:
  assumes row: "session_by_id d i = Some row" and "SnRevision row = n" and "n \<noteq> 0" and "validClientTransition (SnStage row) stage"
    and "length code \<le> 80" and "length message \<le> 500" and ok: "client_ok d" and read: "Session E decode d i = Inr s"
  shows "\<exists>d' s'. transition E decode now d i n stage code message = (d', Inr s')"
proof -
  define f :: "session_row \<Rightarrow> session_row" where
    "f = (\<lambda>r. r\<lparr>SnStage := stage, SnRetryStage := (if stage = StageFailedRetryable then Some (SnStage row) else None),
      SnRevision := SnRevision r + 1, SnErrorCode := code, SnErrorMessage := message, RwUpdatedAt := Unix now,
      RwCompletedAt := (if stage = StageComplete then Some (Unix now) else RwCompletedAt r)\<rparr>)"
  obtain d1 c where upd: "update_session (\<lambda>r. SnID r = i \<and> SnRevision r = n) f d = (d1, c)"
    by (cases "update_session (\<lambda>r. SnID r = i \<and> SnRevision r = n) f d")
  have "c \<le> 1"
    using upd filter_key_at_most_one [OF client_ok_ids [OF ok], of i "\<lambda>r. SnRevision r = n"]
    by (auto simp: update_session_def sql_update_def)
  moreover have "c \<noteq> 0"
    using upd session_by_id_Some [OF row] assms(2) by (auto simp: update_session_def sql_update_def filter_empty_conv)
  ultimately have c: "c = Suc 0" by simp
  have "scanClientSession E decode row = Inr s" and valid: "validateSessionID i = Inr ()"
    using read row by (auto simp: Session_def split: if_splits)
  then obtain s' where "scanClientSession E decode (f row) = Inr s'"
    using scan_total [of E decode row s "f row"] by (auto simp: f_def)
  then have "Session E decode (log_transition i (Some (SnStage row)) stage (n + 1) (Unix now) d1) i = Inr s'"
    using session_by_id_update [OF upd, of i] session_by_id_Some [OF row] row assms(2) valid by (simp add: Session_def f_def)
  then show ?thesis
    using assms(2-6) row upd c unfolding f_def
    by (simp add: transition_def commit_session_def validClientStage_def Let_def)
qed

lemma DeleteSession_total:
  assumes "session_by_id d i = Some row" and "deletable row" and "client_ok d"
  shows "snd (DeleteSession d i) = Inr ()"
proof -
  have "length (filter (\<lambda>r. SnID r = i \<and> deletable r) (cdSessions d)) \<le> 1"
    by (rule filter_key_at_most_one [OF client_ok_ids [OF assms(3)]])
  moreover have "filter (\<lambda>r. SnID r = i \<and> deletable r) (cdSessions d) \<noteq> []"
    using session_by_id_Some [OF assms(1)] assms(2) by (auto simp: filter_empty_conv)
  ultimately have "length (filter (\<lambda>r. SnID r = i \<and> deletable r) (cdSessions d)) = 1"
    by (simp add: le_Suc_eq)
  then show ?thesis by (simp add: DeleteSession_def sql_delete_def Let_def)
qed

lemma valid_log_positive: "valid_log stage n log \<Longrightarrow> 1 \<le> n"
proof -
  have "follows s m ts \<Longrightarrow> m \<le> (if ts = [] then m else TrRevision (last ts))" for s m ts
    by (induction s m ts rule: follows.induct) (auto split: if_splits)
  from this [of StageReceived 1 "tl log"] show "valid_log stage n log \<Longrightarrow> 1 \<le> n"
    by (cases log) (auto simp: valid_log_def split: if_splits)
qed

end
