(* ===== verification/Client_Sample.thy ===== *)
theory Client_Sample
  imports Client_Props Gateway_Delivery
begin

text \<open>
  A client for the witnesses: the payment link of the sample merchant is received, reviewed, approved
  twice (the first time the transaction is not broadcast) and delivered.
\<close>

section \<open>The session\<close>

definition sample_sid :: string where "sample_sid = hex_encode (replicate 16 7)"

definition sample_protector :: protector where
  "sample_protector = \<lparr>SealCapsule = (\<lambda>i capsule. Inr []), OpenCapsule = (\<lambda>i encrypted.
     Inr \<lparr>CapHandoffCode = [], CapClientNonce = [], CapInput = ''{}'', CapCreated = HcCreated sample_capsule\<rparr>)\<rparr>"

definition sample_context :: client_context where
  "sample_context = \<lparr>CxCrypto = sample_crypto, CxLibrary = sample_entpay, CxProtector = sample_protector,
     CxDecode = (\<lambda>text. Inl (Errorf ''not an envelope''))\<rparr>"

lemma sample_context_sel [simp]:
  "CxCrypto sample_context = sample_crypto" "CxLibrary sample_context = sample_entpay"
  "CxProtector sample_context = sample_protector" "CxDecode sample_context = (\<lambda>text. Inl (Errorf ''not an envelope''))"
  by (simp_all add: sample_context_def)

definition sample_launch :: LaunchRequest where
  "sample_launch = \<lparr>LrMerchant = ''shop'', LrHandoff = sample_code\<rparr>"

definition sample_signing_key :: string where "sample_signing_key = RawURLEncode (replicate 32 0)"

definition sample_info :: ServiceInfo where
  "sample_info = \<lparr>SiProtocol = ProtocolVersion, SiNetwork = NetworkID, SiMerchant = merchant_address,
     SiSigningKey = sample_signing_key, SiProducts = [sample_descriptor], SiCapabilities = agent_capabilities\<rparr>"

definition sample_preview :: PaymentPreview where
  "sample_preview = \<lparr>PrWallet = sample_address, PrRecipient = merchant_address, PrAmount = 10, PrEstimatedFee = 1000,
     PrMaximumFee = 2000, PrTotalDebit = 2010, PrSpendableBalance = 50000, PrHasSufficientFunds = True, PrWalletNeedsBackup = False\<rparr>"

definition received_row :: session_row where
  "received_row = new_session_row sample_sid ''shop'' (launch_digest sample_crypto sample_launch) [] 0"

definition reviewed_row :: session_row where
  "reviewed_row = received_row\<lparr>SnMerchant := merchant_address, SnSigningKey := sample_signing_key,
     SnFingerprint := hex_encode (sample_digest (replicate 32 0)), SnTrust := ''first'',
     SnInvoice := Some (CirInvoice (HcCreated sample_capsule)), SnProduct := Some sample_descriptor, SnWallet := sample_address,
     SnEstimatedFee := 1000, SnFeeCeiling := 2000, SnSpendable := 50000, SnStage := StageAwaitingApproval, SnRevision := 3\<rparr>"

definition sample_move :: "ClientStage option \<Rightarrow> ClientStage \<Rightarrow> int \<Rightarrow> transition_row" where
  "sample_move from to' n = \<lparr>TrSession = sample_sid, TrFrom = from, TrTo = to', TrRevision = n, TrCreatedAt = 0\<rparr>"

definition sample_db :: "session_row \<Rightarrow> transition_row list \<Rightarrow> client_db" where
  "sample_db row moves = \<lparr>cdSessions = [row], cdTransitions = moves, cdMerchants = [], cdSettings = None\<rparr>"

definition reviewed_moves :: "transition_row list" where
  "reviewed_moves = [sample_move None StageReceived 1, sample_move (Some StageReceived) StageInspecting 2,
     sample_move (Some StageInspecting) StageAwaitingApproval 3]"

definition reviewed_db :: client_db where
  "reviewed_db = (sample_db reviewed_row reviewed_moves)\<lparr>cdMerchants := [\<lparr>MiEndpoint = ''shop'', MiMerchant = merchant_address,
     MiSigningKey = sample_signing_key, MiFingerprint = hex_encode (sample_digest (replicate 32 0)), MiTrustedAt = 0, MiUpdatedAt = 0\<rparr>]\<rparr>"

lemma sample_sid_valid [simp]: "validateSessionID sample_sid = Inr ()"
  by (simp add: validateSessionID_def sample_sid_def hex_digits_encode)

text \<open>A session is read as its row; the payload, which is no envelope, as a legacy result.\<close>

definition read_row :: "session_row \<Rightarrow> ClientSession" where
  "read_row row = session_common.extend (session_common.truncate row) (ClientSession.fields
     (case RwTxId row of None \<Rightarrow> [] | Some t \<Rightarrow> t)
     (if SnPayload row = [] then None else Some \<lparr>ResSchema = LegacyResultSchema, ResSummary = ''Legacy merchant delivery'', ResData = SnPayload row\<rparr>)
     (RwCreatedAt row * Second) (RwUpdatedAt row * Second)
     (map_option (\<lambda>at. at * Second) (RwCompletedAt row)))"

lemma Session_sample:
  "cdSessions d = [row] \<Longrightarrow> SnID row = sample_sid \<Longrightarrow> SnPayload row = [] \<Longrightarrow> Session E decode d sample_sid = Inr (read_row row)"
  by (simp add: Session_def session_by_id_def scanClientSession_def read_row_def)

lemma read_row_sel [simp]:
  "SnID (read_row row) = SnID row" "SnRevision (read_row row) = SnRevision row" "SnStage (read_row row) = SnStage row"
  "SnInvoice (read_row row) = SnInvoice row" "SnWallet (read_row row) = SnWallet row" "SnTrust (read_row row) = SnTrust row"
  "SnProduct (read_row row) = SnProduct row" "SnFeeCeiling (read_row row) = SnFeeCeiling row"
  "SnEstimatedFee (read_row row) = SnEstimatedFee row" "SnSigningKey (read_row row) = SnSigningKey row"
  "CsTransactionID (read_row row) = (case RwTxId row of None \<Rightarrow> [] | Some t \<Rightarrow> t)"
  by (simp_all add: read_row_def session_common.defs ClientSession.defs)

lemma sample_code_valid: "validateOpaqueToken sample_code = Inr ()"
  by (simp add: validateOpaqueToken_def sample_code_def sample_bytes_def handoffTokenBytes_def)

section \<open>Received and reviewed\<close>

definition received_db :: client_db where
  "received_db = sample_db received_row [sample_move None StageReceived 1]"

definition inspecting_db :: client_db where
  "inspecting_db = sample_db (received_row\<lparr>SnStage := StageInspecting, SnRevision := 2\<rparr>)
     [sample_move None StageReceived 1, sample_move (Some StageReceived) StageInspecting 2]"

lemma receive_sample:
  "fst (CreateReceived sample_crypto sample_entpay sample_protector decode (Inr (replicate 16 7)) 0 empty_client_db sample_launch sample_code) = received_db"
  by (simp add: CreateReceived_def ValidateLaunchRequest_def sample_launch_def isPublicEndpoint_def sample_endpoint sample_code_valid
      sample_protector_def empty_client_db_def commit_session_def received_db_def sample_db_def received_row_def sample_sid_def
      log_transition_def sample_move_def Unix_def Let_def)

lemma inspect_sample:
  "fst (transition E decode 0 received_db sample_sid 1 StageInspecting [] []) = inspecting_db"
  by (simp add: transition_def commit_session_def validClientStage_def received_db_def sample_db_def session_by_id_def received_row_def
      new_session_row_def validClientTransition_def update_session_def sql_update_def log_transition_def inspecting_db_def sample_move_def
      Unix_def Let_def)

lemma review_sample:
  "fst (SaveReview sample_crypto E decode 0 inspecting_db sample_sid 2 sample_info sample_descriptor
     (CirInvoice (HcCreated sample_capsule)) sample_preview) = reviewed_db"
  by (simp add: SaveReview_def commit_session_def sample_info_def sample_signing_key_def PublicKeySize_def merchantTrustState_def
      inspecting_db_def sample_db_def session_by_id_def received_row_def new_session_row_def storable_def sample_preview_def MaxInt64_def
      update_session_def sql_update_def log_transition_def reviewed_db_def reviewed_row_def reviewed_moves_def sample_move_def
      Unix_def Let_def)

lemma reviewed_reachable: "client_reachable reviewed_db"
proof -
  have "client_op {} empty_client_db received_db" "client_op {} received_db inspecting_db" "client_op {} inspecting_db reviewed_db"
    using client_op.create [of "{}" empty_client_db sample_crypto sample_entpay sample_protector _ "Inr (replicate 16 7)" 0 sample_launch sample_code]
      client_op.transition [of "{}" received_db _ _ 0 sample_sid 1 StageInspecting "[]" "[]"]
      client_op.review [of "{}" inspecting_db sample_crypto _ _ 0 sample_sid 2 sample_info sample_descriptor
        "CirInvoice (HcCreated sample_capsule)" sample_preview]
    by (simp_all only: receive_sample inspect_sample review_sample)
  then show ?thesis unfolding client_reachable_def by (meson rtranclp.rtrancl_into_rtrancl rtranclp.rtrancl_refl)
qed


section \<open>Approved\<close>

definition sample_answers :: "unit res \<Rightarrow> approve_answers" where
  "sample_answers committed = \<lparr>AaReadiness = Inr \<lparr>RdPeerCount = 1, RdSyncing = False, RdBestPeerHeight = 10, RdHeight = 10,
     RdWalletNeedsBackup = False\<rparr>, AaPreview = Inr sample_preview, AaPrepared = Inr (merchant_payment, 1000),
     AaCommitted = (\<lambda>call. committed)\<rparr>"

definition paying_row :: session_row where
  "paying_row = reviewed_row\<lparr>SnStage := StagePreparingPayment, SnRetryStage := None, SnErrorCode := [],
     SnErrorMessage := [], RwTxId := Some (ID merchant_payment), RwTransaction := Some merchant_payment,
     SnEstimatedFee := 1000, SnRevision := 5, RwUpdatedAt := 0\<rparr>"

definition paying_moves :: "transition_row list" where
  "paying_moves = reviewed_moves @ [sample_move (Some StageAwaitingApproval) StagePreparingPayment 4]"

definition reviewed_merchants :: "merchant_row list" where
  "reviewed_merchants = cdMerchants reviewed_db"

definition client_db_of :: "session_row \<Rightarrow> transition_row list \<Rightarrow> client_db" where
  "client_db_of row moves = \<lparr>cdSessions = [row], cdTransitions = moves, cdMerchants = reviewed_merchants, cdSettings = None\<rparr>"

lemma reviewed_db_of: "reviewed_db = client_db_of reviewed_row reviewed_moves"
  by (simp add: reviewed_db_def client_db_of_def reviewed_merchants_def sample_db_def)

definition sample_call :: commit_call where
  "sample_call = \<lparr>CallWallet = sample_address, CallTo = merchant_address, CallAmount = 10, CallFee = 1000, CallCeiling = 2000,
     CallTransaction = merchant_payment\<rparr>"

lemma reviewed_row_sel [simp]:
  "SnID reviewed_row = sample_sid" "SnRevision reviewed_row = 3" "SnStage reviewed_row = StageAwaitingApproval"
  "SnPayload reviewed_row = []" "RwTxId reviewed_row = None" "SnTrust reviewed_row = ''first''"
  "SnInvoice reviewed_row = Some (CirInvoice (HcCreated sample_capsule))" "SnProduct reviewed_row = Some sample_descriptor"
  "SnWallet reviewed_row = sample_address" "SnFeeCeiling reviewed_row = 2000" "SnEstimatedFee reviewed_row = 1000"
  "SnSigningKey reviewed_row = sample_signing_key" "RwUpdatedAt reviewed_row = 0" "SnRetryStage reviewed_row = None"
  "SnErrorCode reviewed_row = []" "SnErrorMessage reviewed_row = []" "RwCompletedAt reviewed_row = None"
  by (simp_all add: reviewed_row_def received_row_def new_session_row_def)

lemma sample_invoice_sel [simp]:
  "InvID (CirInvoice (HcCreated sample_capsule)) = sample_iid" "InvMerchant (CirInvoice (HcCreated sample_capsule)) = merchant_address"
  "InvAmount (CirInvoice (HcCreated sample_capsule)) = 10" "InvConfirmations (CirInvoice (HcCreated sample_capsule)) = 2"
  "InvExpiresAt (CirInvoice (HcCreated sample_capsule)) = TruncateSecond (sample_now + 15 * Minute)"
  "InvResource (CirInvoice (HcCreated sample_capsule)) = ''report''"
  by (simp_all add: sample_capsule_def signInvoice_def)

lemma Session_of:
  "SnID row = sample_sid \<Longrightarrow> SnPayload row = [] \<Longrightarrow> Session E decode (client_db_of row moves) sample_sid = Inr (read_row row)"
  by (simp add: Session_sample client_db_of_def)

text \<open>A move of the only session, and the journaling of its payment.\<close>

lemma move_sample:
  assumes "SnID row = sample_sid" and "SnRevision row = n" and "SnPayload row = []" and "validClientTransition (SnStage row) stage"
    and "n \<noteq> 0" and "length code \<le> 80" and "length message \<le> 500" and "stage \<noteq> StageFailedRetryable" and "stage \<noteq> StageComplete"
  shows "transition E decode 0 (client_db_of row moves) sample_sid n stage code message =
    (let row' = row\<lparr>SnStage := stage, SnRetryStage := None, SnRevision := n + 1, SnErrorCode := code, SnErrorMessage := message,
       RwUpdatedAt := 0\<rparr> in (client_db_of row' (moves @ [sample_move (Some (SnStage row)) stage (n + 1)]), Inr (read_row row')))"
  using assms
  by (simp add: transition_def commit_session_def validClientStage_def client_db_of_def session_by_id_def update_session_def
      sql_update_def log_transition_def sample_move_def Unix_def Let_def Session_sample)

lemma merchant_payment_ID: "ID merchant_payment = ComputeID sample_crypto merchant_payment" "ID merchant_payment \<noteq> []"
  using merchant_payment_sel(1) merchant_payment_id by simp_all

lemma journal_sample:
  assumes "SnID row = sample_sid" and "SnRevision row = n" and "SnPayload row = []" and "SnStage row = StagePreparingPayment"
    and "RwTxId row = None"
  shows "JournalPayment sample_crypto E decode 0 (client_db_of row moves) sample_sid n merchant_payment 1000 =
    (let row' = row\<lparr>RwTxId := Some (ID merchant_payment), RwTransaction := Some merchant_payment, SnEstimatedFee := 1000,
       SnRevision := n + 1, RwUpdatedAt := 0\<rparr> in (client_db_of row' moves, Inr (read_row row')))"
  using assms merchant_payment_ID
  by (simp add: JournalPayment_def commit_session_def storable_def MaxInt64_def client_db_of_def update_session_def
      sql_update_def sql_require_def Unix_def Let_def Session_sample)

definition retry_row :: session_row where
  "retry_row = paying_row\<lparr>SnStage := StageAwaitingApproval, SnRetryStage := None, SnRevision := 6, SnErrorCode := ''payment_not_broadcast'',
     SnErrorMessage := ''Payment has not been sent. The prepared transaction was not broadcast.'', RwUpdatedAt := 0\<rparr>"

definition retry_db :: client_db where
  "retry_db = client_db_of retry_row (paying_moves @ [sample_move (Some StagePreparingPayment) StageAwaitingApproval 6])"

definition paying_db :: client_db where
  "paying_db = client_db_of paying_row paying_moves"

lemma approve_sample:
  "Approve sample_context (\<lambda>_. 0) (sample_answers (Inl e)) {} reviewed_db sample_sid 3 =
     (Some (sample_call, paying_db), retry_db, Inr (read_row retry_row))"
proof -
  have expires: "\<not> 0 > TruncateSecond (sample_now + 15 * Minute)" by (simp add: sample_times)
  show ?thesis
    unfolding reviewed_db_of
    by (simp add: Approve_def begin_active_def Session_of sample_answers_def sample_preview_def expires move_sample journal_sample
        validClientTransition_def approvePay_def approveCommit_def cx_transition_def Let_def sample_call_def retry_db_def retry_row_def
        paying_db_def paying_row_def paying_moves_def)
qed


lemma approve_again:
  "\<exists>dc. Approve sample_context (\<lambda>_. 0) (sample_answers (Inr ())) {} retry_db sample_sid 6 =
     (Some (sample_call, dc), fst (snd (Approve sample_context (\<lambda>_. 0) (sample_answers (Inr ())) {} retry_db sample_sid 6)),
      snd (snd (Approve sample_context (\<lambda>_. 0) (sample_answers (Inr ())) {} retry_db sample_sid 6)))"
proof -
  have expires: "\<not> 0 > TruncateSecond (sample_now + 15 * Minute)" by (simp add: sample_times)
  have stored: "StoredTransaction sample_crypto (client_db_of row moves) sample_sid = Inr merchant_payment"
    if "SnID row = sample_sid" "RwTxId row = Some (ID merchant_payment)" "RwTransaction row = Some merchant_payment" for row moves
    using that merchant_payment_ID by (simp add: StoredTransaction_def client_db_of_def)
  have "\<exists>dc. fst (Approve sample_context (\<lambda>_. 0) (sample_answers (Inr ())) {} retry_db sample_sid 6) = Some (sample_call, dc)"
    unfolding retry_db_def
    by (simp add: Approve_def begin_active_def Session_of sample_answers_def sample_preview_def expires move_sample stored
        validClientTransition_def approvePay_def approveCommit_def cx_transition_def Let_def sample_call_def retry_row_def
        paying_row_def merchant_payment_ID(2))
  then show ?thesis by (simp add: prod_eq_iff)
qed

section \<open>Delivered\<close>

definition sample_delivery :: Delivery where
  "sample_delivery = \<lparr>DelReceipt = signReceipt sample_entpay []
     \<lparr>RcpProtocol = ProtocolVersion, RcpInvoiceID = sample_iid, RcpTransactionID = ID merchant_payment, RcpResource = ''report'',
      RcpInputSHA256 = InvInputSHA256 (CirInvoice (HcCreated sample_capsule)),
      RcpPayloadSHA256 = contentHash sample_crypto (string_bytes ''{}''), RcpArtifactSHA256 = [], RcpDeliveredAt = 0, RcpSignature = []\<rparr>,
     DelPayload = ''{}'', DelArtifact = None\<rparr>"

definition broadcast_row :: session_row where
  "broadcast_row = paying_row\<lparr>SnStage := StageBroadcast, SnRevision := 6\<rparr>"

definition broadcast_db :: client_db where
  "broadcast_db = client_db_of broadcast_row []"

definition sample_files :: download_answers where
  "sample_files = \<lparr>DlRoot = Inr ''/artifacts'', DlLstat = (\<lambda>path. Inr False), DlResponse = Inl (Errorf ''none''),
     DlTemporary = Inr (), DlCopied = Inr (), DlFlushed = Inr (), DlLink = (\<lambda>path. Inr ())\<rparr>"

definition sample_status :: PaymentStatus where
  "sample_status = \<lparr>PsInvoiceID = sample_iid, PsStatus = ''submitted'', PsTransactionID = ID merchant_payment, PsConfirmations = 0,
     PsRequired = 2, PsAttempt = 0\<rparr>"

definition sample_continue :: continue_answers where
  "sample_continue = \<lparr>CnSubmitted = Inr (200, Inr sample_status),
     CnClaims = [(0, Inr (200, Inr \<lparr>CbDelivery = Inr sample_delivery, CbStatus = Inr sample_status\<rparr>))], CnFiles = sample_files\<rparr>"

lemma sample_payload: "canonicalPayload sample_entpay ''{}'' = Inr ''{}''"
  by (simp add: canonicalPayload_def rejectDuplicateJSONKeys_def checkAll_def)

lemma sample_delivery_valid:
  "validateDelivery sample_crypto sample_entpay (replicate 32 0) (CirInvoice (HcCreated sample_capsule)) (ID merchant_payment) sample_delivery = Inr ()"
  by (simp add: validateDelivery_def sample_delivery_def signReceipt_def verifyReceipt_def verifyFields_def signFields_def receipt_fields_def
      sample_payload Let_def)


lemma Session_delivered:
  "SnID row = sample_sid \<Longrightarrow> SnPayload row = ''{}'' \<Longrightarrow>
     Session sample_entpay (\<lambda>text. Inl (Errorf ''not an envelope'')) (client_db_of row moves) sample_sid = Inr (read_row row)"
  by (simp add: Session_def client_db_of_def session_by_id_def scanClientSession_def decodeResult_def sample_payload read_row_def)

definition delivered_row :: "session_row \<Rightarrow> session_row" where
  "delivered_row row = row\<lparr>SnReceipt := Some (DelReceipt sample_delivery), SnPayload := ''{}'', SnArtifact := None,
     SnStage := StageVerifying, SnRevision := SnRevision row + 1, SnErrorCode := [], SnErrorMessage := [], RwUpdatedAt := 0\<rparr>"

lemma save_sample:
  assumes "SnID row = sample_sid" and "SnRevision row = n" and "SnStage row = StageConfirming"
  shows "SaveDelivery sample_entpay (\<lambda>text. Inl (Errorf ''not an envelope'')) 0 (client_db_of row moves) sample_sid n sample_delivery =
      (client_db_of (delivered_row row) (moves @ [sample_move (Some StageConfirming) StageVerifying (n + 1)]), Inr (read_row (delivered_row row)))"
proof -
  have "log_transition sample_sid (Some StageConfirming) StageVerifying (n + 1) 0 (client_db_of r moves) =
      client_db_of r (moves @ [sample_move (Some StageConfirming) StageVerifying (n + 1)])" for r
    by (simp add: log_transition_def client_db_of_def sample_move_def)
  moreover have "session_by_id (client_db_of row moves) sample_sid = Some row"
    using assms by (simp add: session_by_id_def client_db_of_def)
  moreover have "update_session P f (client_db_of row moves) = (client_db_of (f row) moves, 1)" if "P row" for P f
    using that by (simp add: update_session_def sql_update_def client_db_of_def)
  moreover have "DelPayload sample_delivery = ''{}''" "DelArtifact sample_delivery = None" by (simp_all add: sample_delivery_def)
  ultimately show ?thesis
    using assms by (simp add: SaveDelivery_def sample_payload commit_session_def Unix_def delivered_row_def Session_delivered)
qed

lemma complete_sample:
  assumes "SnID row = sample_sid" and "SnRevision row = n" and "SnStage row = StageVerifying" and "SnPayload row = ''{}''"
  shows "\<exists>d' r. CompleteSession sample_entpay sample_protector (\<lambda>text. Inl (Errorf ''not an envelope'')) 0 (client_db_of row moves) sample_sid n [] None =
      (d', Inr (read_row r)) \<and> SnStage r = StageComplete"
proof -
  have logged: "log_transition sample_sid st to' m 0 (client_db_of r moves) = client_db_of r (moves @ [sample_move st to' m])" for r st to' m
    by (simp add: log_transition_def client_db_of_def sample_move_def)
  have upd: "update_session P f (client_db_of row moves) = (client_db_of (f row) moves, 1)" if "P row" for P f
    using that by (simp add: update_session_def sql_update_def client_db_of_def)
  have "Capsule sample_protector (client_db_of row moves) sample_sid = OpenCapsule sample_protector sample_sid (RwCapsule row)"
    using assms by (simp add: Capsule_def session_by_id_def client_db_of_def)
  then show ?thesis
    using assms by (auto simp: CompleteSession_def sample_protector_def upd logged commit_session_def Unix_def Session_delivered Let_def)
qed


lemma claim_sample:
  "claim sample_context (Inr (200, Inr \<lparr>CbDelivery = Inr sample_delivery, CbStatus = Inr sample_status\<rparr>)) (client_db_of row moves) s = Inr (Inl sample_delivery)"
  if "SnID s = sample_sid" "SnID row = sample_sid"
  using that by (simp add: claim_def agentJSONStatus_def Capsule_def sample_protector_def session_by_id_def client_db_of_def)

lemma submit_sample:
  assumes "SnID row = sample_sid" and "RwTxId row = Some (ID merchant_payment)" and "RwTransaction row = Some merchant_payment"
  shows "submit sample_context (Inr (200, Inr sample_status)) (client_db_of row moves) (read_row row) (CirInvoice (HcCreated sample_capsule)) = Inr ()"
  using assms merchant_payment_ID
  by (simp add: submit_def agentJSONStatus_def Capsule_def sample_protector_def session_by_id_def client_db_of_def StoredTransaction_def sample_status_def)

definition confirming_row :: session_row where
  "confirming_row = broadcast_row\<lparr>SnStage := StageConfirming, SnRetryStage := None, SnRevision := 8, SnErrorCode := [],
     SnErrorMessage := [], RwUpdatedAt := 0\<rparr>"

lemma claimLoop_sample:
  "\<exists>d' r. claimLoop sample_context sample_files (client_db_of confirming_row moves) (read_row confirming_row) (CnClaims sample_continue) =
     (d', Inr (read_row r)) \<and> SnStage r = StageComplete"
proof -
  have row: "SnID confirming_row = sample_sid" "SnRevision confirming_row = 8" "SnStage confirming_row = StageConfirming"
    "SnInvoice confirming_row = Some (CirInvoice (HcCreated sample_capsule))" "RwTxId confirming_row = Some (ID merchant_payment)"
    "SnSigningKey confirming_row = sample_signing_key"
    by (simp_all add: confirming_row_def broadcast_row_def paying_row_def)
  let ?row = "delivered_row confirming_row" and ?moves = "moves @ [sample_move (Some StageConfirming) StageVerifying 9]"
  have delivered: "SnInvoice ?row = Some (CirInvoice (HcCreated sample_capsule))" by (simp add: delivered_row_def row)
  have verify: "verifyDelivery sample_context 0 sample_files d (read_row ?row) (CirInvoice (HcCreated sample_capsule)) sample_delivery =
      CompleteSession sample_entpay sample_protector (\<lambda>text. Inl (Errorf ''not an envelope'')) 0 d sample_sid 9 [] None" for d
    using sample_delivery_valid row
    by (simp add: verifyDelivery_def delivered_row_def sample_signing_key_def PublicKeySize_def) (simp add: sample_delivery_def)
  have "\<exists>d' r. CompleteSession sample_entpay sample_protector (\<lambda>text. Inl (Errorf ''not an envelope'')) 0 (client_db_of ?row ?moves) sample_sid 9 [] None =
      (d', Inr (read_row r)) \<and> SnStage r = StageComplete"
    by (rule complete_sample) (simp_all add: delivered_row_def row)
  then show ?thesis
    using row delivered by (simp add: sample_continue_def claim_sample save_sample verify)
qed

lemma continue_sample:
  "\<exists>d' r. Continue sample_context (\<lambda>_. 0) sample_continue {} broadcast_db sample_sid = (d', Inr (read_row r)) \<and> SnStage r = StageComplete"
proof -
  have answers: "CnSubmitted sample_continue = Inr (200, Inr sample_status)" "CnFiles sample_continue = sample_files"
    by (simp_all add: sample_continue_def)
  have "SnPayload broadcast_row = []" "SnID broadcast_row = sample_sid" "SnRevision broadcast_row = 6" "SnStage broadcast_row = StageBroadcast"
    "SnInvoice broadcast_row = Some (CirInvoice (HcCreated sample_capsule))" "RwTxId broadcast_row = Some (ID merchant_payment)"
    "RwTransaction broadcast_row = Some merchant_payment"
    by (simp_all add: broadcast_row_def paying_row_def)
  then show ?thesis
    using claimLoop_sample [unfolded confirming_row_def] merchant_payment_ID(2) answers
    by (simp add: Continue_def begin_active_def broadcast_db_def Session_of cx_transition_def move_sample validClientTransition_def
        continueSubmitting_def submit_sample Let_def del: claimLoop.simps)
qed


section \<open>At the moment of the payment\<close>

lemma paying_row_sel:
  "SnID paying_row = sample_sid" "SnRevision paying_row = 5" "SnStage paying_row = StagePreparingPayment" "SnPayload paying_row = []"
  "RwTxId paying_row = Some (ID merchant_payment)" "SnTrust paying_row = ''first''" "SnProduct paying_row = Some sample_descriptor"
  by (simp_all add: paying_row_def)

lemma paying_journaled: "journaled sample_crypto paying_db sample_sid sample_call"
  using merchant_payment_ID
  by (simp add: journaled_def paying_db_def session_by_id_def client_db_of_def paying_row_def sample_call_def)

lemma paying_reachable: "client_reachable paying_db"
proof -
  let ?row = "reviewed_row\<lparr>SnStage := StagePreparingPayment, SnRetryStage := None, SnRevision := 4, SnErrorCode := [], SnErrorMessage := [], RwUpdatedAt := 0\<rparr>"
  have paying: "paying_row = ?row\<lparr>RwTxId := Some (ID merchant_payment), RwTransaction := Some merchant_payment, SnEstimatedFee := 1000,
      SnRevision := 5, RwUpdatedAt := 0\<rparr>"
    by (rule session_row.equality) (simp_all add: paying_row_def)
  have "client_op {} reviewed_db (client_db_of ?row paying_moves)"
    using client_op.transition [of "{}" reviewed_db sample_entpay "CxDecode sample_context" 0 sample_sid 3 StagePreparingPayment "[]" "[]"]
    unfolding reviewed_db_of by (simp add: move_sample validClientTransition_def Let_def paying_moves_def)
  moreover have "client_op {} (client_db_of ?row paying_moves) paying_db"
    using client_op.journal [of "{}" "client_db_of ?row paying_moves" sample_crypto sample_entpay "CxDecode sample_context" 0 sample_sid 4 merchant_payment 1000]
    by (simp add: journal_sample Let_def paying_db_def paying)
  ultimately show ?thesis
    using reviewed_reachable unfolding client_reachable_def by (meson rtranclp.rtrancl_into_rtrancl)
qed

end
