(* ===== verification/Entpay_Signed.thy ===== *)
theory Entpay_Signed
  imports Client_Sample
begin

text \<open>
  What a signature covers. The signed bytes are the fields joined by line breaks, unescaped; here is why
  that is not ambiguous for the invoices a payer accepts and the deliveries it takes for them.
\<close>

section \<open>The lines of what is accepted\<close>

lemma hex_decode_one_line: "hex_decode s = Inr bs \<Longrightarrow> one_line s"
proof (induction s arbitrary: bs rule: hex_decode.induct)
  case (3 c d s)
  obtain h l b where "hex_val c = Some h" "hex_val d = Some l" "hex_decode s = Inr b"
    using "3.prems" by (auto simp: attempt_eq_Inr split: option.splits)
  with "3.IH" show ?case by (auto simp: hex_val_def)
qed simp_all

lemma address_one_line:
  assumes "ValidateAddress C a = Inr ()"
  shows "one_line a"
proof -
  have "take 4 a = ''ent1''" "\<exists>bs. hex_decode (drop 4 a) = Inr bs"
    using assms by (auto simp: ValidateAddress_def split: if_split_asm sum.split_asm)
  then have "one_line (take 4 a @ drop 4 a)" using hex_decode_one_line by (auto simp del: append_take_drop_id)
  then show ?thesis by simp
qed

lemma identifier_chars:
  assumes "validIdentifier s"
  shows "one_line s" "\<exists>c t. s = c # t \<and> lower_char c"
proof -
  have len: "3 \<le> length s" and ch: "\<And>i. i < length s \<Longrightarrow> lower_char (s ! i) \<or> (is_digit (s ! i) \<and> i > 0) \<or>
      (s ! i = CHR ''-'' \<and> i > 0 \<and> i < length s - 1)"
    using assms by (auto simp: validIdentifier_def Let_def split: if_split_asm)
  show "one_line s"
    unfolding one_line_def
  proof
    assume "CHR 0x0A \<in> set s"
    then obtain i where "i < length s" "s ! i = CHR 0x0A" by (auto simp: in_set_conv_nth)
    with ch [of i] show False by (auto simp: lower_char_def is_digit_def)
  qed
  show "\<exists>c t. s = c # t \<and> lower_char c" using len ch [of 0] by (cases s) auto
qed

lemma contentHash_one_line [simp]: "one_line (contentHash C bs)"
  by (simp add: contentHash_def)

lemma accepted_fields:
  assumes "advertisedProduct C info resource = Inr product"
    and "validateRemoteInvoice C E now now' info product v input maximum = Inr pk"
  shows "InvProtocol v = ProtocolVersion" "InvNetwork v = NetworkID" "one_line (InvMerchant v)"
    "validIdentifier (InvResource v)" "one_line (InvInputSHA256 v)"
proof -
  have p: "validateProductDescriptor product = Inr ()" "SiProtocol info = ProtocolVersion" "SiNetwork info = NetworkID"
    using assms(1) by (auto simp: advertisedProduct_def attempt_eq_Inr split: if_split_asm option.split_asm)
  have v: "InvProtocol v = SiProtocol info" "InvNetwork v = SiNetwork info" "AddressesEqual C (InvMerchant v) (SiMerchant info)"
    "InvResource v = PdID product" "InvInputSHA256 v = inputHash C (PdID product) input"
    using assms(2) by (auto simp: validateRemoteInvoice_def split: if_split_asm)
  show "InvProtocol v = ProtocolVersion" "InvNetwork v = NetworkID" using p v by simp_all
  show "one_line (InvMerchant v)" using AddressesEqual_valid [OF v(3)] address_one_line by blast
  show "validIdentifier (InvResource v)" using p(1) v(4) by (auto simp: validateProductDescriptor_def split: if_split_asm)
  show "one_line (InvInputSHA256 v)" by (simp add: v(5) inputHash_def)
qed

lemma accepted_lines:
  assumes "advertisedProduct C info resource = Inr product"
    and "validateRemoteInvoice C E now now' info product v input maximum = Inr pk"
  shows "signed_lines (invoice_fields v) = [ProtocolVersion, NetworkID] @ split_char (CHR 0x0A) (InvID v) @
     [InvMerchant v, FormatUint (unat (InvAmount v)), InvResource v, InvInputSHA256 v,
      FormatInt (Unix (InvExpiresAt v)), FormatUint (unat (InvConfirmations v))]"
proof -
  note f = accepted_fields [OF assms]
  have "one_line ProtocolVersion" "one_line NetworkID" by (simp_all add: ProtocolVersion_def NetworkID_def)
  then show ?thesis using f identifier_chars(1) [OF f(4)] by (simp add: signed_lines_def invoice_fields_def lines_one_line)
qed

text \<open>The hash of an artifact that was downloaded is one line; without an artifact it is empty.\<close>

lemma delivered_lines:
  assumes ok: "validateDelivery C E pk invoice txid delivery = Inr ()"
    and resource: "validIdentifier (InvResource invoice)" "one_line (InvInputSHA256 invoice)"
    and artifact: "\<And>m. DelArtifact delivery = Some m \<Longrightarrow> \<exists>answer contents. checkDownload C m answer = Inr contents"
  shows "\<exists>xs payload artifact at. signed_lines (receipt_fields (DelReceipt delivery)) =
     xs @ [InvResource invoice, InvInputSHA256 invoice, payload, artifact, at]"
proof -
  let ?r = "DelReceipt delivery"
  have r: "RcpResource ?r = InvResource invoice" "RcpInputSHA256 ?r = InvInputSHA256 invoice" "\<exists>bs. contentHash C bs = RcpPayloadSHA256 ?r"
    "(case DelArtifact delivery of None \<Rightarrow> RcpArtifactSHA256 ?r = [] | Some m \<Rightarrow> RcpArtifactSHA256 ?r = MetaSHA256 m)"
    using ok by (auto simp: validateDelivery_def Let_def split: if_split_asm sum.split_asm option.split_asm)
  have "one_line (MetaSHA256 m)" if "checkDownload C m answer = Inr contents" for m answer contents
  proof -
    have "\<exists>bs. contentHash C bs = MetaSHA256 m" using that by (auto simp: checkDownload_def attempt_eq_Inr Let_def split: if_split_asm)
    then show ?thesis using contentHash_one_line by metis
  qed
  then have "one_line (RcpArtifactSHA256 ?r)"
    using r(4) artifact by (cases "DelArtifact delivery") fastforce+
  moreover have "one_line (RcpPayloadSHA256 ?r)" using r(3) contentHash_one_line [of C] by metis
  ultimately show ?thesis
    using resource identifier_chars(1) [OF resource(1)] r(1,2) by (simp add: signed_lines_def receipt_fields_def lines_one_line)
qed

lemma FormatUint_not_identifier: "validIdentifier s \<Longrightarrow> FormatUint n \<noteq> s"
proof
  assume "validIdentifier s" "FormatUint n = s"
  then obtain c t where "FormatUint n = c # t" "lower_char c" using identifier_chars(2) by blast
  then show False using digits_FormatUint [of n] by (simp add: is_digit_def lower_char_def Let_def)
qed

section \<open>The signed bytes\<close>

text \<open>
  C35. The bytes a signature covers determine what was accepted. Take two invoices that pass the checks of a
  payer (against the services it asked, its policy and the time), and a delivery taken for the second one,
  its artifact, where it has one, downloaded. The invoices have the same signed bytes exactly when they
  agree in every field but the signature, the expiry to the second (which is all that is signed of it);
  and the receipt never has the signed bytes of an invoice, so neither can be presented as the other. No
  field is assumed to be free of line breaks: the checks see to it.
\<close>

theorem signed_bytes_determine:
  assumes v: "advertisedProduct C info resource = Inr product"
      "validateRemoteInvoice C E now now' info product v input maximum = Inr pk"
    and w: "advertisedProduct C info2 resource2 = Inr product2"
      "validateRemoteInvoice C E now2 now2' info2 product2 w input2 maximum2 = Inr pk2"
    and delivery: "validateDelivery C E pk2 w txid delivery = Inr ()"
      "\<And>m. DelArtifact delivery = Some m \<Longrightarrow> \<exists>answer contents. checkDownload C m answer = Inr contents"
  shows "(signed_bytes (invoice_fields v) = signed_bytes (invoice_fields w) \<longleftrightarrow>
      w\<lparr>InvSignature := InvSignature v, InvExpiresAt := InvExpiresAt v\<rparr> = v \<and>
      Unix (InvExpiresAt w) = Unix (InvExpiresAt v)) \<and>
    signed_bytes (receipt_fields (DelReceipt delivery)) \<noteq> signed_bytes (invoice_fields v)"
proof (intro conjI iffI notI)
  have some: "invoice_fields v \<noteq> []" "invoice_fields w \<noteq> []" "receipt_fields (DelReceipt delivery) \<noteq> []"
    by (simp_all add: invoice_fields_def receipt_fields_def)
  note fw = accepted_fields [OF w]
  {
    assume "signed_bytes (invoice_fields v) = signed_bytes (invoice_fields w)"
    from signed_bytes_lines [OF this some(1,2)] have "split_char (CHR 0x0A) (InvID v) = split_char (CHR 0x0A) (InvID w) \<and>
        [InvMerchant v, FormatUint (unat (InvAmount v)), InvResource v, InvInputSHA256 v,
         FormatInt (Unix (InvExpiresAt v)), FormatUint (unat (InvConfirmations v))] =
        [InvMerchant w, FormatUint (unat (InvAmount w)), InvResource w, InvInputSHA256 w,
         FormatInt (Unix (InvExpiresAt w)), FormatUint (unat (InvConfirmations w))]"
      unfolding accepted_lines [OF v] accepted_lines [OF w] by simp
    then have "InvID v = InvID w" "InvMerchant v = InvMerchant w" "InvAmount v = InvAmount w" "InvResource v = InvResource w"
      "InvInputSHA256 v = InvInputSHA256 w" "InvConfirmations v = InvConfirmations w"
      and e: "Unix (InvExpiresAt w) = Unix (InvExpiresAt v)"
      by (auto dest!: split_char_inj FormatUint_inj FormatInt_inj simp: word_unat_eq_iff)
    then show "w\<lparr>InvSignature := InvSignature v, InvExpiresAt := InvExpiresAt v\<rparr> = v"
      using accepted_fields(1,2) [OF v] fw(1,2) by (cases v; cases w) simp
    show "Unix (InvExpiresAt w) = Unix (InvExpiresAt v)" by (rule e)
  }
  assume "w\<lparr>InvSignature := InvSignature v, InvExpiresAt := InvExpiresAt v\<rparr> = v \<and> Unix (InvExpiresAt w) = Unix (InvExpiresAt v)"
  then have "invoice_fields v = invoice_fields w" by (cases v; cases w) (auto simp: invoice_fields_def)
  then show "signed_bytes (invoice_fields v) = signed_bytes (invoice_fields w)" by simp
next
  assume same: "signed_bytes (receipt_fields (DelReceipt delivery)) = signed_bytes (invoice_fields v)"
  note fw = accepted_fields [OF w]
  obtain xs payload artifact at where "signed_lines (receipt_fields (DelReceipt delivery)) =
      xs @ [InvResource w, InvInputSHA256 w, payload, artifact, at]" using delivered_lines [OF delivery(1) fw(4,5) delivery(2)] by blast
  moreover have "signed_lines (receipt_fields (DelReceipt delivery)) = signed_lines (invoice_fields v)"
    using signed_bytes_lines [OF same] by (simp add: receipt_fields_def invoice_fields_def)
  ultimately have "FormatUint (unat (InvAmount v)) = InvResource w" unfolding accepted_lines [OF v] by simp
  then show False using FormatUint_not_identifier [OF fw(4)] by simp
qed

lemma sample_accepted:
  "advertisedProduct sample_crypto sample_info ''report'' = Inr sample_descriptor"
  "validateRemoteInvoice sample_crypto sample_entpay 0 (1900 * Second) sample_info sample_descriptor
     (CirInvoice (HcCreated sample_capsule)) ''{}'' 10 = Inr (replicate 32 0)"
proof -
  show "advertisedProduct sample_crypto sample_info ''report'' = Inr sample_descriptor"
    by (simp add: advertisedProduct_def sample_info_def agent_capabilities_def) (simp add: sample_descriptor_def)
  have key: "RawURLDecode (SiSigningKey sample_info) = Inr (replicate 32 0)" by (simp add: sample_info_def sample_signing_key_def)
  have signed: "verifyInvoice sample_entpay (replicate 32 0) (CirInvoice (HcCreated sample_capsule))"
    by (simp add: verifyInvoice_def verifyFields_def sample_capsule_def signInvoice_def signFields_def invoice_fields_def)
  have "InvProtocol (CirInvoice (HcCreated sample_capsule)) = ProtocolVersion" "InvNetwork (CirInvoice (HcCreated sample_capsule)) = NetworkID"
    "InvInputSHA256 (CirInvoice (HcCreated sample_capsule)) = inputHash sample_crypto ''report'' ''{}''"
    by (simp_all add: sample_capsule_def signInvoice_def NetworkID_def)
  moreover have "PdPrice sample_descriptor = 10" "PdID sample_descriptor = ''report''" "PdConfirmations sample_descriptor = 2"
    "SiProtocol sample_info = ProtocolVersion" "SiNetwork sample_info = NetworkID" "SiMerchant sample_info = merchant_address"
    by (simp_all add: sample_descriptor_def sample_info_def)
  ultimately show "validateRemoteInvoice sample_crypto sample_entpay 0 (1900 * Second) sample_info sample_descriptor
     (CirInvoice (HcCreated sample_capsule)) ''{}'' 10 = Inr (replicate 32 0)"
    using key signed by (simp add: validateRemoteInvoice_def AddressesEqual_refl PublicKeySize_def sample_times Hour_def)
qed

theorem signed_bytes_determine_witness:
  "signed_bytes (receipt_fields (DelReceipt sample_delivery)) \<noteq> signed_bytes (invoice_fields (CirInvoice (HcCreated sample_capsule)))"
proof -
  have "DelArtifact sample_delivery = None" by (simp add: sample_delivery_def)
  then show ?thesis
    using signed_bytes_determine [OF sample_accepted sample_accepted sample_delivery_valid] by simp
qed

end
