(* ===== verification/Client_Safety.thy ===== *)
theory Client_Safety
  imports Client_Sample
begin

text \<open>
  The properties of the client, each applied to the sample session: stages and revisions, approval, the
  one transaction of a session, completion, erased secrets, and the payment that is forgotten.
\<close>

text \<open>
  C24. A session only moves along the allowed stages. In every state the tables can be in, after any
  operations of the store in any order, the log of a session is a path of allowed moves from its
  creation to the stage it is in, at rising revisions up to its own.
\<close>

theorem session_follows_stages:
  assumes "client_reachable d" and "r \<in> set (cdSessions d)"
  shows "valid_log (SnStage r) (SnRevision r) (session_log d (SnID r))"
  using client_reachable_ok [OF assms(1)] assms(2) by (simp add: client_ok_def)

theorem session_follows_stages_witness:
  "valid_log StageAwaitingApproval 3 (session_log reviewed_db sample_sid) \<and> length (session_log reviewed_db sample_sid) = 3"
proof -
  have "reviewed_row \<in> set (cdSessions reviewed_db)" by (simp add: reviewed_db_def sample_db_def)
  from session_follows_stages [OF reviewed_reachable this] show ?thesis
    by (simp add: session_log_def reviewed_db_def sample_db_def reviewed_moves_def sample_move_def)
qed

text \<open>
  A revision of a session is written at most once. When an operation changed the tables against
  revision n of a session, then whatever is done after it, as long as the session is not deleted, no
  operation against revision n changes the tables again: of two that read the same revision one fails.
\<close>

theorem revision_written_once:
  assumes "client_reachable d" and "write_at i n d (d1, result1)" and "d1 \<noteq> d" and "client_run {i} d1 d2"
    and "write_at i n d2 (d3, result2)"
  shows "d3 = d2"
proof (rule ccontr)
  assume "d3 \<noteq> d2"
  have ok: "client_ok d" by (rule client_reachable_ok [OF assms(1)])
  have ok1: "client_ok d1" using client_op_ok [OF write_at_op [OF assms(2)] ok] by simp
  have ok2: "client_ok d2" by (rule client_run_ok [OF assms(4) ok1])
  have step1: "session_step i n d d1" using write_at_written [OF assms(2) ok] assms(3) by (simp add: written_def)
  have step2: "session_step i n d2 d3" using write_at_written [OF assms(5) ok2] \<open>d3 \<noteq> d2\<close> by (simp add: written_def)
  obtain r1 where r1: "r1 \<in> set (cdSessions d1)" "SnID r1 = i" "SnRevision r1 = n + 1"
    using session_step_row(2) [OF step1 ok] by blast
  obtain r2 where r2: "r2 \<in> set (cdSessions d2)" "SnID r2 = i" "SnRevision r2 = n"
    using session_step_row(1) [OF step2 ok2] by blast
  obtain r where "r \<in> set (cdSessions d2)" "later_row r1 r"
    using client_run_later [OF assms(4) ok1 r1(1)] r1(2) by auto
  then show False
    using one_key [OF client_ok_ids [OF ok2] _ r2(1), of r] r1 r2 by (simp add: later_row_def)
qed

theorem revision_written_once_witness:
  "fst (transition sample_entpay (CxDecode sample_context) 5 (fst (transition sample_entpay (CxDecode sample_context) 0 reviewed_db sample_sid 3 StagePreparingPayment [] [])) sample_sid 3 StageRejected [] []) =
     fst (transition sample_entpay (CxDecode sample_context) 0 reviewed_db sample_sid 3 StagePreparingPayment [] []) \<and>
   fst (transition sample_entpay (CxDecode sample_context) 0 reviewed_db sample_sid 3 StagePreparingPayment [] []) \<noteq> reviewed_db"
proof -
  let ?d1 = "fst (transition sample_entpay (CxDecode sample_context) 0 reviewed_db sample_sid 3 StagePreparingPayment [] [])"
  have changed: "?d1 \<noteq> reviewed_db"
    unfolding reviewed_db_of by (simp add: move_sample validClientTransition_def Let_def) (simp add: client_db_of_def)
  have "write_at sample_sid 3 reviewed_db (?d1, snd (transition sample_entpay (CxDecode sample_context) 0 reviewed_db sample_sid 3 StagePreparingPayment [] []))"
    using write_at.transition [of sample_sid 3 reviewed_db sample_entpay "CxDecode sample_context" 0 StagePreparingPayment "[]" "[]"] by simp
  moreover have "write_at sample_sid 3 ?d1 (fst (transition sample_entpay (CxDecode sample_context) 5 ?d1 sample_sid 3 StageRejected [] []),
      snd (transition sample_entpay (CxDecode sample_context) 5 ?d1 sample_sid 3 StageRejected [] []))"
    using write_at.transition [of sample_sid 3 ?d1 sample_entpay "CxDecode sample_context" 5 StageRejected "[]" "[]"] by simp
  ultimately show ?thesis
    using revision_written_once [OF reviewed_reachable _ changed rtranclp.rtrancl_refl] changed by blast
qed

text \<open>
  C10. Money leaves only on approval of what was reviewed. When approving hands a transaction to the
  wallet, the session was awaiting approval at exactly the approved revision, the merchant had not
  changed its identity, the invoice had not expired, and wallet, recipient, amount and fee ceiling are
  those reviewed; and in the tables as they are at the moment of the call the session has that very
  transaction, with its identifier, its fee and these terms.
\<close>

theorem approve_commits_reviewed:
  assumes "client_reachable d" and "Approve X clock answers active d i n = (Some (call, dc), d', result)"
  shows "\<exists>row invoice. session_by_id d i = Some row \<and> SnRevision row = n \<and> SnStage row = StageAwaitingApproval \<and>
     SnTrust row \<noteq> ''changed'' \<and> SnInvoice row = Some invoice \<and> clock 0 \<le> InvExpiresAt invoice \<and>
     CallTo call = InvMerchant invoice \<and> CallAmount call = InvAmount invoice \<and> CallWallet call = SnWallet row \<and>
     CallCeiling call = SnFeeCeiling row \<and>
     client_run {i} d dc \<and> journaled (CxCrypto X) dc i call \<and> client_run {i} dc d'"
  using Approve_commit [OF assms(2) client_reachable_ok [OF assms(1)]] by (metis fst_conv)

theorem approve_commits_reviewed_witness:
  "\<exists>row invoice. session_by_id reviewed_db sample_sid = Some row \<and> SnRevision row = 3 \<and> SnStage row = StageAwaitingApproval \<and>
     SnTrust row \<noteq> ''changed'' \<and> SnInvoice row = Some invoice \<and> 0 \<le> InvExpiresAt invoice \<and>
     CallTo sample_call = InvMerchant invoice \<and> CallAmount sample_call = InvAmount invoice \<and> CallWallet sample_call = SnWallet row \<and>
     CallCeiling sample_call = SnFeeCeiling row \<and> client_run {sample_sid} reviewed_db paying_db \<and>
     journaled sample_crypto paying_db sample_sid sample_call \<and> client_run {sample_sid} paying_db retry_db"
  using approve_commits_reviewed [OF reviewed_reachable approve_sample] by simp

text \<open>
  C9. A session pays with one transaction. Two approvals of a session that both reach the wallet, with
  anything in between except the deletion of the session, hand it the same transaction.
\<close>

theorem approvals_commit_one_transaction:
  assumes "client_reachable d" and "Approve X clock answers active d i n = (Some (call, dc), d1, result1)" and "client_run {i} d1 d2"
    and "Approve X' clock' answers' active' d2 i n' = (Some (call', dc'), d3, result3)"
  shows "CallTransaction call' = CallTransaction call"
proof -
  have ok: "client_ok d" by (rule client_reachable_ok [OF assms(1)])
  have a: "client_run {i} d dc" "journaled (CxCrypto X) dc i call" "client_run {i} dc d1"
    using Approve_commit [OF assms(2) ok] by auto
  have ok2: "client_ok d2"
    by (rule client_run_ok [OF assms(3) client_run_ok [OF a(3) client_run_ok [OF a(1) ok]]])
  have b: "client_run {i} d2 dc'" "journaled (CxCrypto X') dc' i call'"
    using Approve_commit [OF assms(4) ok2] by auto
  show ?thesis
    by (rule journaled_stays [OF a(2) client_run_ok [OF a(1) ok] rtranclp_trans [OF a(3) rtranclp_trans [OF assms(3) b(1)]] b(2)])
qed

theorem approvals_commit_one_transaction_witness:
  "\<exists>call dc call' dc'. fst (Approve sample_context (\<lambda>_. 0) (sample_answers (Inl (Errorf ''offline''))) {} reviewed_db sample_sid 3) = Some (call, dc) \<and>
     fst (Approve sample_context (\<lambda>_. 0) (sample_answers (Inr ())) {} retry_db sample_sid 6) = Some (call', dc') \<and>
     CallTransaction call' = CallTransaction call"
proof -
  obtain dc where again: "Approve sample_context (\<lambda>_. 0) (sample_answers (Inr ())) {} retry_db sample_sid 6 =
     (Some (sample_call, dc), fst (snd (Approve sample_context (\<lambda>_. 0) (sample_answers (Inr ())) {} retry_db sample_sid 6)),
      snd (snd (Approve sample_context (\<lambda>_. 0) (sample_answers (Inr ())) {} retry_db sample_sid 6)))"
    using approve_again by blast
  note same = approvals_commit_one_transaction [OF reviewed_reachable approve_sample rtranclp.rtrancl_refl again]
  have "fst (Approve sample_context (\<lambda>_. 0) (sample_answers (Inl (Errorf ''offline''))) {} reviewed_db sample_sid 3) = Some (sample_call, paying_db)"
    by (simp add: approve_sample)
  moreover have "fst (Approve sample_context (\<lambda>_. 0) (sample_answers (Inr ())) {} retry_db sample_sid 6) = Some (sample_call, dc)"
    using arg_cong [OF again, of fst] by simp
  ultimately show ?thesis using same by blast
qed

text \<open>
  C11. Only a verified delivery completes a session. The manager completes a session when it is carried
  on, when it is retried, or when recovery verifies what a session holds: then the delivery
  passes the checks of receipt and payload for the invoice, the transaction and the signing key of the
  session, and an artifact was saved with the hash the receipt states. The delivery is what the merchant
  answered a claim with, or else the one that is stored in the session.
\<close>

theorem completed_only_verified:
  assumes "Session (CxLibrary X) (CxDecode X) d i = Inr s" and "SnStage s' = StageComplete"
    and "Continue X clock answers active d i = (d', Inr s') \<or>
      Retry X clock inspected amount answers active d i n = (d', Inr s') \<or>
      (\<exists>d1 now invoice delivery. stored_delivery s = Some (invoice, delivery) \<and>
         verifyDelivery X now (CnFiles answers) d1 s invoice delivery = (d', Inr s'))"
  shows "\<exists>invoice delivery. SnInvoice s = Some invoice \<and>
     verified X (CnFiles answers) (SnSigningKey s) invoice (CsTransactionID s) delivery \<and>
     ((\<exists>now body. (now, Inr (200, Inr body)) \<in> set (CnClaims answers) \<and> CbDelivery body = Inr delivery) \<or>
      stored_delivery s = Some (invoice, delivery))"
  using assms(3)
proof (elim disjE exE conjE)
  assume "Continue X clock answers active d i = (d', Inr s')"
  then show ?thesis using Continue_complete [OF _ assms(2)] current_Session [OF assms(1)] unfolding delivered_def by blast
next
  assume "Retry X clock inspected amount answers active d i n = (d', Inr s')"
  from Retry_complete [OF this assms(2,1)] show ?thesis unfolding delivered_def using stored_delivery_invoice by blast
next
  fix d1 now invoice delivery
  assume "stored_delivery s = Some (invoice, delivery)" "verifyDelivery X now (CnFiles answers) d1 s invoice delivery = (d', Inr s')"
  then show ?thesis using verifyDelivery_complete [OF _ assms(2)] stored_delivery_invoice by blast
qed

theorem completed_only_verified_witness:
  "\<exists>invoice delivery. SnInvoice (read_row broadcast_row) = Some invoice \<and>
     verified sample_context sample_files (SnSigningKey broadcast_row) invoice (ID merchant_payment) delivery"
proof -
  have read: "Session (CxLibrary sample_context) (CxDecode sample_context) broadcast_db sample_sid = Inr (read_row broadcast_row)"
    by (simp add: broadcast_db_def Session_of broadcast_row_def paying_row_def)
  obtain d' r where "Continue sample_context (\<lambda>_. 0) sample_continue {} broadcast_db sample_sid = (d', Inr (read_row r))"
    "SnStage r = StageComplete"
    using continue_sample by blast
  from completed_only_verified [OF read _ disjI1, OF _ this(1)] this(2) show ?thesis
    by (auto simp: sample_continue_def broadcast_row_def paying_row_def)
qed

text \<open>
  C26. The two operations that finish a session erase its secrets, a mere move does not. What the row
  keeps sealed after \<open>CompleteSession\<close> or \<open>TerminateWithoutPayment\<close> has no handoff code, no nonce and no
  claim token, and a session ended without payment has no transaction; \<open>transition\<close>, with which the approval
  of an expired invoice ends a session, leaves the sealed secrets in the row as they were.
\<close>

theorem finishing_erases_secrets:
  assumes "client_reachable d"
  shows "(CompleteSession E P decode now d i n path metadata = (d', Inr s) \<or>
       TerminateWithoutPayment E P decode now d i n stage code message = (d', Inr s) \<longrightarrow>
       (\<exists>row. session_by_id d' i = Some row \<and> SnStage row \<in> {StageComplete, StageRejected, StageInvalid, StageExpired} \<and>
          secrets_erased P i (RwCapsule row) \<and> (SnStage row \<noteq> StageComplete \<longrightarrow> RwTxId row = None))) \<and>
     (transition E decode now d i n stage code message = (d', Inr s) \<longrightarrow>
       (\<exists>before row. session_by_id d i = Some before \<and> session_by_id d' i = Some row \<and> SnStage row = stage \<and>
          RwCapsule row = RwCapsule before))"
    (is "(_ \<longrightarrow> ?ended) \<and> _")
proof (intro conjI impI; (elim disjE)?)
  assume "CompleteSession E P decode now d i n path metadata = (d', Inr s)"
  then obtain capsule encrypted d1 f where sealed: "SealCapsule P i (clearedCapsule d capsule) = Inr encrypted"
    and upd: "update_session (\<lambda>r. SnID r = i \<and> SnRevision r = n \<and> SnStage r = StageVerifying) f d = (d1, Suc 0)"
    and f: "\<And>r. SnID (f r) = SnID r \<and> SnStage (f r) = StageComplete \<and> RwCapsule (f r) = encrypted"
    and d': "session_by_id d' i = session_by_id d1 i"
    by (auto simp: CompleteSession_def commit_session_def commit_cases split: sum.split_asm)
  then show ?ended
    using finish_row [OF upd client_reachable_ok [OF assms(1)], of i] clearedCapsule_erased [OF sealed] by auto
next
  assume "TerminateWithoutPayment E P decode now d i n stage code message = (d', Inr s)"
  then obtain capsule encrypted d1 f st where sealed: "SealCapsule P i (clearedCapsule d capsule) = Inr encrypted"
    and upd: "update_session (\<lambda>r. SnID r = i \<and> SnRevision r = n \<and> SnStage r = st \<and> RwTxId r = None) f d = (d1, Suc 0)"
    and f: "\<And>r. SnID (f r) = SnID r \<and> SnStage (f r) = stage \<and> RwCapsule (f r) = encrypted \<and> RwTxId (f r) = RwTxId r"
    and stage: "stage \<in> {StageRejected, StageInvalid, StageExpired}"
    and d': "session_by_id d' i = session_by_id d1 i"
    by (auto simp: TerminateWithoutPayment_def commit_session_def commit_cases split: sum.split_asm option.split_asm if_split_asm)
  then show ?ended
    using finish_row [OF upd client_reachable_ok [OF assms(1)], of i] clearedCapsule_erased [OF sealed] by auto
next
  assume "transition E decode now d i n stage code message = (d', Inr s)"
  from transition_row [OF this] show
    "\<exists>before row. session_by_id d i = Some before \<and> session_by_id d' i = Some row \<and> SnStage row = stage \<and> RwCapsule row = RwCapsule before"
    by auto
qed

theorem finishing_erases_secrets_witness:
  "\<exists>d' row. session_by_id d' sample_sid = Some row \<and> secrets_erased sample_protector sample_sid (RwCapsule row)"
proof -
  have "\<exists>d' s. TerminateWithoutPayment sample_entpay sample_protector (CxDecode sample_context) 0 reviewed_db sample_sid 3 StageRejected [] [] =
      (d', Inr s)"
    by (simp add: TerminateWithoutPayment_def reviewed_db_of client_db_of_def Capsule_def session_by_id_def sample_protector_def
        update_session_def sql_update_def validClientTransition_def commit_session_def Unix_def Session_sample Let_def)
  then obtain d' s where
    "TerminateWithoutPayment sample_entpay sample_protector (CxDecode sample_context) 0 reviewed_db sample_sid 3 StageRejected [] [] = (d', Inr s)"
    by blast
  with finishing_erases_secrets [OF reviewed_reachable] show ?thesis by blast
qed

text \<open>
  C25. An interrupted payment is forgotten. If the program stops after the transaction was handed to
  the wallet and before that is recorded, recovery offers the session for approval again; once the
  invoice has expired, approving it ends the session with the message that the payment has not been
  sent, although it has a committed transaction; its claim token is not erased, and the session can
  then be deleted.
\<close>

theorem interrupted_payment_forgotten:
  assumes "client_reachable d" and "journaled (CxCrypto X) d i call"
    and "Session (CxLibrary X) (CxDecode X) d i = Inr s" and "SnProduct s \<noteq> None" and "SnTrust s \<noteq> ''changed''"
    and "\<And>invoice. SnInvoice s = Some invoice \<Longrightarrow> clock 0 > InvExpiresAt invoice"
  shows "\<exists>d1 d2 s2 row row2. recoverSession X now d s = (d1, Inr None) \<and>
     Approve X clock answers {} d1 i (SnRevision s + 1) = (None, d2, Inr s2) \<and> SnStage s2 = StageExpired \<and>
     SnErrorMessage s2 = ''Payment has not been sent. The invoice expired before approval.'' \<and>
     CsTransactionID s2 = ID (CallTransaction call) \<and>
     session_by_id d i = Some row \<and> session_by_id d2 i = Some row2 \<and> RwCapsule row2 = RwCapsule row \<and>
     snd (DeleteSession d2 i) = Inr ()"
proof -
  let ?E = "CxLibrary X" let ?dec = "CxDecode X"
  have ok: "client_ok d" by (rule client_reachable_ok [OF assms(1)])
  obtain row where row: "current X d i row s" using current_Session [OF assms(3)] by blast
  have by_id: "session_by_id d i = Some row" using row by (simp add: current_def)
  note scan = current_eq [OF row]
  have stage: "SnStage row = StagePreparingPayment" and tx: "RwTxId row = Some (ID (CallTransaction call))"
    and "SnInvoice row \<noteq> None"
    using assms(2) by_id by (auto simp: journaled_def)
  have n: "SnRevision row \<noteq> 0" "SnRevision row + 1 \<noteq> 0"
    using valid_log_positive [of "SnStage row" "SnRevision row" "session_log d i"] ok session_by_id_Some [OF by_id]
    by (auto simp: client_ok_def)
  obtain d1 s1 where restart: "transition ?E ?dec now d i (SnRevision row) StageAwaitingApproval ''approval_interrupted''
      ''Payment has not been sent. Review the request again before broadcasting the saved transaction.'' = (d1, Inr s1)"
    using transition_total [OF by_id HOL.refl n(1) _ _ _ ok assms(3), of StageAwaitingApproval]
    by (force simp: stage validClientTransition_def)
  have run1: "client_run {} d d1" by (rule transition_pair [OF restart])
  have ok1: "client_ok d1" by (rule client_run_ok [OF run1 ok])
  obtain row1 where row1: "session_by_id d1 i = Some row1" "SnStage row1 = StageAwaitingApproval" "SnRevision row1 = SnRevision row + 1"
      "SnInvoice row1 = SnInvoice row" "SnProduct row1 = SnProduct row" "SnTrust row1 = SnTrust row" "RwTxId row1 = RwTxId row"
      "RwCapsule row1 = RwCapsule row"
    and read1: "Session ?E ?dec d1 i = Inr s1"
    using transition_row [OF restart] by_id by auto
  obtain d2 s2 where expire: "transition ?E ?dec (clock 1) d1 i (SnRevision row1) StageExpired ''invoice_expired''
      ''Payment has not been sent. The invoice expired before approval.'' = (d2, Inr s2)"
    using transition_total [OF row1(1) HOL.refl _ _ _ _ ok1 read1, of StageExpired] n(2) row1(3)
    by (force simp: row1(2) validClientTransition_def)
  obtain row2 where row2: "session_by_id d2 i = Some row2" "SnStage row2 = StageExpired" "RwTxId row2 = RwTxId row"
      "SnErrorMessage row2 = ''Payment has not been sent. The invoice expired before approval.''" "RwCapsule row2 = RwCapsule row"
    and read2: "Session ?E ?dec d2 i = Inr s2"
    using transition_row [OF expire] row1 by auto
  have cur1: "current X d1 i row1 s1" and cur2: "current X d2 i row2 s2"
    using Session_current read1 read2 row1(1) row2(1) by auto
  have recover: "recoverSession X now d s = (d1, Inr None)"
    using restart scan(1-3) stage by (simp add: recoverSession_def cx_transition_def)
  have "SnInvoice s1 = SnInvoice s" "SnProduct s1 = SnProduct s" "SnTrust s1 = SnTrust s"
    using scanClientSession_row(4,6,7) [of ?E ?dec row s] scanClientSession_row(4,6,7) [of ?E ?dec row1 s1] row cur1 row1(4-6)
    by (simp_all add: current_def)
  then have approve: "Approve X clock answers {} d1 i (SnRevision s + 1) = (None, d2, Inr s2)"
    using read1 expire assms(4-6) current_eq(2,3) [OF cur1] row1(2,3) scan(3,4) \<open>SnInvoice row \<noteq> None\<close>
    by (auto simp: Approve_def begin_active_def)
  have "snd (DeleteSession d2 i) = Inr ()"
    by (rule DeleteSession_total [OF row2(1) _ client_run_ok [OF transition_pair [OF expire] ok1]])
      (simp add: deletable_def row2(2))
  moreover have "SnErrorMessage s2 = SnErrorMessage row2"
    using cur2 scanClientSession_row(12) [of ?E ?dec row2 s2] by (simp add: current_def)
  ultimately show ?thesis
    using recover approve current_eq(2,6) [OF cur2] row2 tx by_id by auto
qed

theorem interrupted_payment_forgotten_witness:
  "\<exists>d1 d2 s2 row row2. recoverSession sample_context 0 paying_db (read_row paying_row) = (d1, Inr None) \<and>
     Approve sample_context (\<lambda>_. 10000 * Second) (sample_answers (Inr ())) {} d1 sample_sid 6 = (None, d2, Inr s2) \<and>
     SnStage s2 = StageExpired \<and> SnErrorMessage s2 = ''Payment has not been sent. The invoice expired before approval.'' \<and>
     CsTransactionID s2 = ID merchant_payment \<and> session_by_id paying_db sample_sid = Some row \<and>
     session_by_id d2 sample_sid = Some row2 \<and> RwCapsule row2 = RwCapsule row \<and> snd (DeleteSession d2 sample_sid) = Inr ()"
proof -
  have "SnInvoice (read_row paying_row) = Some invoice \<Longrightarrow> 10000 * Second > InvExpiresAt invoice" for invoice
    by (auto simp: paying_row_def sample_times)
  from interrupted_payment_forgotten [OF paying_reachable, of sample_context sample_sid sample_call "read_row paying_row" "\<lambda>_. 10000 * Second"
      0 "sample_answers (Inr ())", OF _ _ _ _ this]
  show ?thesis
    using paying_journaled by (simp add: paying_db_def Session_of paying_row_sel sample_call_def)
qed

end
