(* ===== verification/Client_Secure.thy ===== *)
theory Client_Secure
  imports Client_Store
begin

text \<open>
  \<open>entpay/client_secure.go\<close>: the protector of the session secrets. XChaCha20-Poly1305 is a parameter
  (\<open>aead\<close>, the functions of \<open>golang.org/x/crypto/chacha20poly1305\<close> with its nonce and tag sizes), the random
  nonce is an argument, and so is the JSON encoding of the capsule. The platform files, which fetch the
  key from the operating system, are not modelled.
\<close>

section \<open>Sealing and opening\<close>

record aead =
  AeadSeal :: "bytes \<Rightarrow> bytes \<Rightarrow> bytes \<Rightarrow> bytes \<Rightarrow> bytes"
  AeadOpen :: "bytes \<Rightarrow> bytes \<Rightarrow> bytes \<Rightarrow> bytes \<Rightarrow> bytes option"

definition KeySize :: nat where "KeySize = 32"
definition NonceSize :: nat where "NonceSize = 24"
definition Overhead :: nat where "Overhead = 16"

definition clientCapsuleSchema :: u32 where "clientCapsuleSchema = 1"

definition ErrClientSecretAuthentication :: go_error where
  "ErrClientSecretAuthentication = Errorf ''EntPay session secret authentication failed''"

definition newXChaChaProtector :: "bytes \<Rightarrow> bytes res" where
  "newXChaChaProtector key =
     (if length key \<noteq> KeySize then Inl (Errorf ''EntPay session key has an invalid size'') else Inr key)"

definition validateClientSecretArguments :: "string \<Rightarrow> u32 \<Rightarrow> bytes \<Rightarrow> unit res" where
  "validateClientSecretArguments sessionID schema v =
     (if validateSessionID sessionID \<noteq> Inr () \<or> schema \<noteq> clientCapsuleSchema \<or> v = [] \<or> length v > 262144
      then Inl (Errorf ''EntPay session secret arguments are invalid'') else Inr ())"

definition clientSecretAAD :: "string \<Rightarrow> u32 \<Rightarrow> bytes" where
  "clientSecretAAD sessionID schema = string_bytes (''entropy-mainnet-v1'' @ [CHR 0x00] @ ''entpay-client'' @ [CHR 0x00] @
     FormatUint (unat schema) @ [CHR 0x00] @ sessionID)"

definition Seal :: "aead \<Rightarrow> bytes \<Rightarrow> bytes res \<Rightarrow> string \<Rightarrow> u32 \<Rightarrow> bytes \<Rightarrow> bytes res" where
  "Seal A key rnd sessionID schema plaintext =
     attempt (validateClientSecretArguments sessionID schema plaintext) (\<lambda>_.
     attempt rnd (\<lambda>nonce.
     Inr (nonce @ AeadSeal A key nonce plaintext (clientSecretAAD sessionID schema))))"

definition Open :: "aead \<Rightarrow> bytes \<Rightarrow> string \<Rightarrow> u32 \<Rightarrow> bytes \<Rightarrow> bytes res" where
  "Open A key sessionID schema ciphertext =
     attempt (validateClientSecretArguments sessionID schema ciphertext) (\<lambda>_.
     if length ciphertext < NonceSize + Overhead then Inl ErrClientSecretAuthentication
     else case AeadOpen A key (take NonceSize ciphertext) (drop NonceSize ciphertext) (clientSecretAAD sessionID schema) of
       None \<Rightarrow> Inl ErrClientSecretAuthentication
     | Some plaintext \<Rightarrow> Inr plaintext)"

text \<open>
  The protector the store uses: \<open>encode\<close> and \<open>decode\<close> are the JSON of a capsule, \<open>rnd\<close> the nonce drawn
  for what is sealed.
\<close>

definition xChaChaProtector ::
    "aead \<Rightarrow> bytes \<Rightarrow> bytes res \<Rightarrow> (clientSessionCapsule \<Rightarrow> bytes) \<Rightarrow> (bytes \<Rightarrow> clientSessionCapsule res) \<Rightarrow> protector" where
  "xChaChaProtector A key rnd encode decode =
     \<lparr>SealCapsule = (\<lambda>i capsule. Seal A key rnd i clientCapsuleSchema (encode capsule)),
      OpenCapsule = (\<lambda>i encrypted. attempt (Open A key i clientCapsuleSchema encrypted) decode)\<rparr>"

section \<open>What the cipher promises, and what the protector makes of it\<close>

text \<open>
  The documented behaviour of the cipher: opening inverts sealing with the same key, nonce and
  additional data, the sealed text is one tag longer, and what was sealed for one session is not
  authentic for another (the tag is 16 bytes long, so this is asked of the session identifiers only).
\<close>

definition aead_laws :: "aead \<Rightarrow> bool" where
  "aead_laws A \<longleftrightarrow>
     (\<forall>key nonce plaintext aad. length nonce = NonceSize \<longrightarrow>
        length (AeadSeal A key nonce plaintext aad) = length plaintext + Overhead \<and>
        AeadOpen A key nonce (AeadSeal A key nonce plaintext aad) aad = Some plaintext) \<and>
     (\<forall>key nonce plaintext i j. length nonce = NonceSize \<and> validateSessionID i = Inr () \<and> validateSessionID j = Inr () \<and> i \<noteq> j \<longrightarrow>
        AeadOpen A key nonce (AeadSeal A key nonce plaintext (clientSecretAAD i clientCapsuleSchema))
          (clientSecretAAD j clientCapsuleSchema) = None)"

lemma clientSecretAAD_inj: "clientSecretAAD i schema = clientSecretAAD j schema \<Longrightarrow> i = j"
  by (simp add: clientSecretAAD_def)

lemma Seal_eq_Inr:
  "Seal A key rnd i schema plaintext = Inr sealed \<longleftrightarrow>
     validateClientSecretArguments i schema plaintext = Inr () \<and>
     (\<exists>nonce. rnd = Inr nonce \<and> sealed = nonce @ AeadSeal A key nonce plaintext (clientSecretAAD i schema))"
  by (auto simp: Seal_def res_simps)

lemma Open_Seal:
  assumes "aead_laws A" and "rnd = Inr nonce" and "length nonce = NonceSize"
    and "Seal A key rnd i schema plaintext = Inr sealed" and "length plaintext \<le> 262104"
  shows "Open A key i schema sealed = Inr plaintext"
proof -
  have sealed: "sealed = nonce @ AeadSeal A key nonce plaintext (clientSecretAAD i schema)"
    and valid: "validateClientSecretArguments i schema plaintext = Inr ()"
    using assms(2,4) by (auto simp: Seal_eq_Inr)
  have laws: "length (AeadSeal A key nonce plaintext (clientSecretAAD i schema)) = length plaintext + Overhead"
    "AeadOpen A key nonce (AeadSeal A key nonce plaintext (clientSecretAAD i schema)) (clientSecretAAD i schema) = Some plaintext"
    using assms(1,3) by (simp_all add: aead_laws_def)
  have "validateClientSecretArguments i schema sealed = Inr ()"
    using valid assms(3,5) laws(1)
    by (auto simp: validateClientSecretArguments_def sealed NonceSize_def Overhead_def split: if_splits)
  then show ?thesis
    using laws assms(3) by (simp add: Open_def sealed)
qed

text \<open>
  The bound on what is opened counts the nonce and the tag, the bound on what is sealed does not: the
  longest secrets can be sealed and never opened again.
\<close>

lemma Open_too_long:
  assumes "aead_laws A" and "rnd = Inr nonce" and "length nonce = NonceSize"
    and "Seal A key rnd i schema plaintext = Inr sealed" and "length plaintext > 262104"
  shows "Open A key i schema sealed = Inl (Errorf ''EntPay session secret arguments are invalid'')"
proof -
  have sealed: "sealed = nonce @ AeadSeal A key nonce plaintext (clientSecretAAD i schema)"
    using assms(2,4) by (auto simp: Seal_eq_Inr)
  have "length sealed = NonceSize + length plaintext + Overhead"
    using assms(1,3) by (simp add: sealed aead_laws_def)
  then show ?thesis
    using assms(5) by (simp add: Open_def validateClientSecretArguments_def NonceSize_def Overhead_def)
qed

lemma Open_other_session:
  assumes "aead_laws A" and "rnd = Inr nonce" and "length nonce = NonceSize"
    and "Seal A key rnd i schema plaintext = Inr sealed" and "j \<noteq> i"
  shows "\<exists>e. Open A key j schema sealed = Inl e"
proof -
  have sealed: "sealed = nonce @ AeadSeal A key nonce plaintext (clientSecretAAD i schema)"
    and valid: "validateSessionID i = Inr ()" "schema = clientCapsuleSchema"
    using assms(2,4) by (auto simp: Seal_eq_Inr validateClientSecretArguments_def split: if_splits)
  show ?thesis
  proof (cases "validateClientSecretArguments j schema sealed")
    case (Inr u)
    then have "validateSessionID j = Inr ()" by (auto simp: validateClientSecretArguments_def split: if_splits)
    then have "AeadOpen A key nonce (AeadSeal A key nonce plaintext (clientSecretAAD i schema)) (clientSecretAAD j schema) = None"
      using assms(1,3,5) valid by (simp add: aead_laws_def)
    then show ?thesis using Inr assms(3) by (simp add: Open_def sealed)
  qed (simp add: Open_def)
qed

section \<open>A cipher that satisfies the laws\<close>

text \<open>Its tag is the session identifier that ends the additional data, of the length of a tag.\<close>

definition tag_of :: "bytes \<Rightarrow> bytes" where
  "tag_of aad = (case hex_decode (map (\<lambda>b. char_of (unat b)) (drop (length aad - 32) aad)) of
     Inr t \<Rightarrow> take Overhead (t @ replicate Overhead 0) | Inl _ \<Rightarrow> replicate Overhead 0)"

definition sample_aead :: aead where
  "sample_aead = \<lparr>AeadSeal = (\<lambda>key nonce plaintext aad. plaintext @ tag_of aad),
     AeadOpen = (\<lambda>key nonce ciphertext aad.
       if length ciphertext \<ge> Overhead \<and> drop (length ciphertext - Overhead) ciphertext = tag_of aad
       then Some (take (length ciphertext - Overhead) ciphertext) else None)\<rparr>"

lemma hex_digit_val: "hex_digit c \<Longrightarrow> \<exists>v < 16. hex_val c = Some v \<and> hex_char v = c"
  by (auto simp: hex_digit_def hex_val_def hex_char_def Let_def)

lemma hex_digits_decode: "list_all hex_digit s \<Longrightarrow> even (length s) \<Longrightarrow> \<exists>bs. hex_decode s = Inr bs"
proof (induction s rule: hex_decode.induct)
  case (3 c d s)
  obtain h l where "hex_val c = Some h" "hex_val d = Some l"
    using hex_digit_val [of c] hex_digit_val [of d] 3(2) by auto
  moreover from this have "\<exists>bs. hex_decode s = Inr bs" using 3 by simp
  ultimately show ?case by auto
qed auto

lemma hex_digits_lower: "list_all hex_digit s \<Longrightarrow> map to_lower s = s"
  by (induction s) (auto simp: hex_digit_def to_lower_def Let_def)

lemma session_id_bytes:
  assumes "validateSessionID i = Inr ()"
  shows "\<exists>bs. length bs = 16 \<and> i = hex_encode bs"
proof -
  have i: "length i = 32" "list_all hex_digit i"
    using assms by (auto simp: validateSessionID_def split: if_splits)
  then obtain bs where "hex_decode i = Inr bs" using hex_digits_decode [of i] by auto
  then show ?thesis
    using map_to_lower_hex [of i bs] hex_digits_lower [OF i(2)] hex_decode_length [of i bs] i(1) by auto
qed

lemma char_of_string_bytes: "map (\<lambda>b. char_of (unat b)) (string_bytes s) = s"
  by (simp add: string_bytes_def comp_def unat_of_char_byte map_idI)

lemma clientSecretAAD_prefix:
  "clientSecretAAD i schema = string_bytes (''entropy-mainnet-v1'' @ [CHR 0x00] @ ''entpay-client'' @ [CHR 0x00] @
     FormatUint (unat schema) @ [CHR 0x00]) @ string_bytes i"
  by (simp add: clientSecretAAD_def string_bytes_def)

lemma tag_of_session:
  assumes "length bs = 16"
  shows "tag_of (clientSecretAAD (hex_encode bs) schema) = bs"
proof -
  have "drop (length (clientSecretAAD (hex_encode bs) schema) - 32) (clientSecretAAD (hex_encode bs) schema) = string_bytes (hex_encode bs)"
    by (simp add: clientSecretAAD_prefix assms)
  then have "map (\<lambda>b. char_of (unat b)) (drop (length (clientSecretAAD (hex_encode bs) schema) - 32)
      (clientSecretAAD (hex_encode bs) schema)) = hex_encode bs"
    by (simp only: char_of_string_bytes)
  then show ?thesis unfolding tag_of_def by (simp add: assms Overhead_def)
qed

lemma length_tag_of [simp]: "length (tag_of aad) = Overhead"
  by (auto simp: tag_of_def Overhead_def min_def split: sum.splits)

lemma sample_aead_laws: "aead_laws sample_aead"
proof -
  have "tag_of (clientSecretAAD i schema) \<noteq> tag_of (clientSecretAAD j schema)"
    if ij: "validateSessionID i = Inr ()" "validateSessionID j = Inr ()" "i \<noteq> j" for i j schema
  proof -
    obtain bs cs where "length bs = 16" "i = hex_encode bs" "length cs = 16" "j = hex_encode cs"
      using session_id_bytes [OF ij(1)] session_id_bytes [OF ij(2)] by blast
    then show ?thesis using ij(3) by (auto simp: tag_of_session)
  qed
  then show ?thesis by (auto simp: aead_laws_def sample_aead_def)
qed

section \<open>Secrets of a session\<close>

text \<open>
  What is sealed for a session is opened for that session and for no other, up to a length: the bound
  on what is opened counts the nonce and the tag, so the longest secrets that can be sealed are lost.
\<close>

theorem sealed_secret_opens:
  assumes "aead_laws A" and "length nonce = NonceSize" and "Seal A key (Inr nonce) i schema plaintext = Inr sealed"
  shows "Open A key i schema sealed = (if length plaintext \<le> 262104 then Inr plaintext
      else Inl (Errorf ''EntPay session secret arguments are invalid'')) \<and>
    (\<forall>j. j \<noteq> i \<longrightarrow> (\<exists>e. Open A key j schema sealed = Inl e))"
  using Open_Seal [OF assms(1) _ assms(2,3)] Open_too_long [OF assms(1) _ assms(2,3)] Open_other_session [OF assms(1) _ assms(2,3)]
  by auto

theorem sealed_secret_opens_witness:
  "Open sample_aead [] (replicate 32 CHR ''a'') 1 (replicate 24 0 @ [7] @ tag_of (clientSecretAAD (replicate 32 CHR ''a'') 1)) = Inr [7]"
proof -
  have "Seal sample_aead [] (Inr (replicate 24 0)) (replicate 32 CHR ''a'') 1 [7] =
      Inr (replicate 24 0 @ [7] @ tag_of (clientSecretAAD (replicate 32 CHR ''a'') 1))"
    by (simp add: Seal_def validateClientSecretArguments_def validateSessionID_def clientCapsuleSchema_def sample_aead_def
        hex_digit_def list_all_iff)
  from sealed_secret_opens [OF sample_aead_laws _ this] show ?thesis by (simp add: NonceSize_def)
qed

end
