(* ===== verification/Peer_Protocol.thy ===== *)
theory Peer_Protocol
  imports Query Node_Records
begin

text \<open>
  The messages of the peer-to-peer protocol (\<open>internal/node/protocol.go\<close>) and the checks on them that
  depend on nothing but the message (\<open>internal/node/websocket.go\<close>, \<open>internal/node/http_protocol.go\<close>).
  Durations are in seconds.
\<close>

section \<open>Limits\<close>

definition maxTransactionMessageBytes :: int where
  "maxTransactionMessageBytes = 2 * int MaxTransactionBytes + 16384"
definition maxBlockBodyBytes :: int where "maxBlockBodyBytes = 2 * int MaxBlockBytes"
definition maxProtocolBytes :: int where "maxProtocolBytes = maxBlockBodyBytes + 16384"
definition maxHeaderBatch :: int where "maxHeaderBatch = 2000"
definition maxSyncHeaderBatch :: nat where "maxSyncHeaderBatch = 128"
definition maxBlockBatch :: nat where "maxBlockBatch = 8"
definition maxPeerConnections :: nat where "maxPeerConnections = 64"
definition maxBlockDownloadBatch :: nat where "maxBlockDownloadBatch = 8"

definition webSocketValidationBurst :: int where "webSocketValidationBurst = 4096"
definition webSocketInvalidScoreLimit :: int where "webSocketInvalidScoreLimit = 12"
definition invalidTransactionScore :: int where "invalidTransactionScore = 1"
definition invalidBlockScore :: int where "invalidBlockScore = 4"
definition invalidGossipScoreTTL :: int where "invalidGossipScoreTTL = 300"
definition reconcileCapability :: string where "reconcileCapability = ''entropy-reconcile-v1''"
definition maxSocketPendingRequests :: nat where "maxSocketPendingRequests = 2"
definition maxSocketBlockBatch :: nat where "maxSocketBlockBatch = 2"
definition maxSocketMempoolBatch :: nat where "maxSocketMempoolBatch = 8"
definition maxSocketMempoolPagesPerRound :: nat where "maxSocketMempoolPagesPerRound = 8"
definition maxSocketReconcileErrorBytes :: nat where "maxSocketReconcileErrorBytes = 256"
definition socketReconcileMinimumInterval :: int where "socketReconcileMinimumInterval = 5"
definition maxSocketQueuedBytes :: int where "maxSocketQueuedBytes = 2 * maxProtocolBytes + 65536"
definition socketReconcileMaximumBackoff :: int where "socketReconcileMaximumBackoff = 300"
definition socketReconcilePrunedBackoff :: int where "socketReconcilePrunedBackoff = 1800"

section \<open>Messages\<close>

record protocolStatus =
  PsProtocol :: string
  PsName :: string
  PsSymbol :: string
  PsHeight :: u64
  PsTipHash :: string
  PsChainWork :: string
  PsListenPort :: int

record headersRequest =
  HqLocator :: "string list"
  HqLimit :: int

record headersResponse =
  HrProtocol :: string
  HrCommonHeight :: u64
  HrCommonHash :: string
  HrHeaders :: "block list"

record mempoolRequest =
  MqLimit :: int
  MqOffset :: int

record blocksResponse =
  BrProtocol :: string
  BrBlocks :: "block list"

record transactionsResponse =
  TrProtocol :: string
  TrTransactions :: "transaction list"

text \<open>A pointer field is an option. \<open>blocksRequest\<close> has one field, the list of hashes.\<close>

record gossipMessage =
  GmType :: string
  GmProtocol :: string
  GmNodeID :: string
  GmListenPort :: int
  GmStatus :: "protocolStatus option"
  GmTransaction :: "transaction option"
  GmBlock :: "block option"
  GmRequestID :: string
  GmPart :: int
  GmParts :: int
  GmHeadersRequest :: "headersRequest option"
  GmHeadersResponse :: "headersResponse option"
  GmBlocksRequest :: "string list option"
  GmMempoolRequest :: "mempoolRequest option"
  GmTransactionsResponse :: "transactionsResponse option"
  GmReconcileError :: string
  GmReconcileErrorCode :: string

text \<open>A message of the given type in which every other field is absent.\<close>

definition gossip :: "string \<Rightarrow> gossipMessage" where
  "gossip kind =
     \<lparr>GmType = kind, GmProtocol = NetworkID, GmNodeID = [], GmListenPort = 0, GmStatus = None,
      GmTransaction = None, GmBlock = None, GmRequestID = [], GmPart = 0, GmParts = 0,
      GmHeadersRequest = None, GmHeadersResponse = None, GmBlocksRequest = None, GmMempoolRequest = None,
      GmTransactionsResponse = None, GmReconcileError = [], GmReconcileErrorCode = []\<rparr>"

definition statusFromTip :: "tip \<Rightarrow> int \<Rightarrow> protocolStatus" where
  "statusFromTip t listenPort =
     \<lparr>PsProtocol = NetworkID, PsName = ChainName, PsSymbol = ChainSymbol, PsHeight = TipHeight t,
      PsTipHash = TipHash t, PsChainWork = FormatUint (TipWork t), PsListenPort = listenPort\<rparr>"

section \<open>The status of a peer\<close>

text \<open>\<open>new(big.Int).SetString(s, 10)\<close>: an optional sign and at least one digit.\<close>

definition SetString10 :: "string \<Rightarrow> int option" where
  "SetString10 s =
     (let digits = (case s of c # r \<Rightarrow> if c = CHR ''+'' \<or> c = CHR ''-'' then r else s | [] \<Rightarrow> s) in
      if digits = [] \<or> \<not> list_all is_digit digits then None
      else Some (if hd s = CHR ''-'' then - int (dec_value digits) else int (dec_value digits)))"

definition validateRemoteStatus :: "protocolStatus \<Rightarrow> unit res" where
  "validateRemoteStatus status =
     (if PsProtocol status \<noteq> NetworkID \<or> PsName status \<noteq> ChainName \<or> PsSymbol status \<noteq> ChainSymbol
      then Inl (Errorf ''peer uses an incompatible Entcoin protocol'')
      else case hex_decode (PsTipHash status) of
        Inl _ \<Rightarrow> Inl (Errorf ''peer status has an invalid tip hash'')
      | Inr decodedHash \<Rightarrow>
        if length decodedHash \<noteq> 32 then Inl (Errorf ''peer status has an invalid tip hash'')
        else if length (PsChainWork status) = 0 \<or> length (PsChainWork status) > 128
        then Inl (Errorf ''peer status contains malformed chain work'')
        else case SetString10 (PsChainWork status) of
          None \<Rightarrow> Inl (Errorf ''peer status contains malformed chain work'')
        | Some work \<Rightarrow>
          if work < 0 then Inl (Errorf ''peer status contains malformed chain work'') else Inr ())"

section \<open>Reconcile requests and errors\<close>

definition validReconcileRequestID :: "string \<Rightarrow> bool" where
  "validReconcileRequestID i \<longleftrightarrow>
     \<not> (length i = 0 \<or> length i > 20) \<and> list_all is_digit i \<and> i \<noteq> ''0''"

definition isReconcileResponse :: "string \<Rightarrow> bool" where
  "isReconcileResponse messageType \<longleftrightarrow>
     messageType \<in> {''reconcile_headers_response'', ''reconcile_block'', ''reconcile_mempool_response'', ''reconcile_error''}"

definition reconcileErrorBusy :: string where "reconcileErrorBusy = ''busy''"
definition reconcileErrorPruned :: string where "reconcileErrorPruned = ''pruned''"
definition reconcileErrorNotFound :: string where "reconcileErrorNotFound = ''not_found''"
definition reconcileErrorTemporary :: string where "reconcileErrorTemporary = ''temporary''"
definition reconcileErrorInvalidRequest :: string where "reconcileErrorInvalidRequest = ''invalid_request''"

lemmas reconcile_codes = reconcileErrorBusy_def reconcileErrorPruned_def reconcileErrorNotFound_def
  reconcileErrorTemporary_def reconcileErrorInvalidRequest_def

definition reconcile_code :: "string \<Rightarrow> bool" where
  "reconcile_code c \<longleftrightarrow> c \<in> {reconcileErrorBusy, reconcileErrorPruned, reconcileErrorNotFound,
     reconcileErrorTemporary, reconcileErrorInvalidRequest}"

definition invalidReconcileResponse :: "string \<Rightarrow> go_error" where
  "invalidReconcileResponse message = InvalidReconcileResponse (Errorf message)"

definition reconcileResponseError :: "gossipMessage \<Rightarrow> go_error" where
  "reconcileResponseError message =
     (if GmReconcileError message = [] \<or> length (GmReconcileError message) > maxSocketReconcileErrorBytes
      then invalidReconcileResponse ''peer returned a malformed reconcile error''
      else if reconcile_code (GmReconcileErrorCode message)
      then RemoteReconcileError (GmReconcileErrorCode message) (GmReconcileError message)
      else invalidReconcileResponse ''peer returned an unknown reconcile error code'')"

text \<open>
  What \<open>errors.Is\<close> and \<open>errors.As\<close> walk through: the error and what it wraps. Wrapping that only adds
  words is left out of the model, so it does not appear here either.
\<close>

fun errorChain :: "go_error \<Rightarrow> go_error list" where
  "errorChain (MempoolRejection e) = MempoolRejection e # errorChain e"
| "errorChain (InvalidReconcileResponse e) = InvalidReconcileResponse e # errorChain e"
| "errorChain e = [e]"

definition asInvalid :: "go_error \<Rightarrow> bool" where
  "asInvalid e \<longleftrightarrow> list_ex (\<lambda>x. case x of InvalidReconcileResponse _ \<Rightarrow> True | _ \<Rightarrow> False) (errorChain e)"

definition errorIs :: "go_error \<Rightarrow> go_error \<Rightarrow> bool" where
  "errorIs e target \<longleftrightarrow> target \<in> set (errorChain e)"

definition asRemote :: "go_error \<Rightarrow> string option" where
  "asRemote e = (case filter (\<lambda>x. case x of RemoteReconcileError _ _ \<Rightarrow> True | _ \<Rightarrow> False) (errorChain e) of
     RemoteReconcileError code _ # _ \<Rightarrow> Some code | _ \<Rightarrow> None)"

text \<open>How long to wait before the next attempt, and whether the connection is closed.\<close>

definition reconcileFailureDisposition :: "go_error option \<Rightarrow> int \<Rightarrow> int \<times> bool" where
  "reconcileFailureDisposition err failures =
     (case err of
        None \<Rightarrow> (0, False)
      | Some e \<Rightarrow>
        let backoff = (\<lambda>base. (min (base * 2 ^ nat (max 0 (min (failures - 1) 6))) socketReconcileMaximumBackoff, False)) in
        if asInvalid e then (0, True)
        else if errorIs e ErrReorgBeyondPrune \<or> errorIs e ErrBlockPruned then (socketReconcilePrunedBackoff, False)
        else if errorIs e ContextCanceled \<or> errorIs e DeadlineExceeded then backoff 10
        else case asRemote e of
          None \<Rightarrow> (0, True)
        | Some code \<Rightarrow>
          if code = reconcileErrorBusy then backoff 5
          else if code = reconcileErrorPruned then (socketReconcilePrunedBackoff, False)
          else if code = reconcileErrorNotFound \<or> code = reconcileErrorTemporary then backoff 10
          else (0, True))"

section \<open>The cost of validating a message\<close>

text \<open>The limits of a request are the \<open>int\<close> values of the sender; the sum may wrap around.\<close>

definition transactionCost :: "transaction \<Rightarrow> int" where
  "transactionCost tx = int (length (Inputs tx)) + int (length (Outputs tx))"

text \<open>The loop over the transactions of a block, which returns as soon as the burst is exceeded.\<close>

fun blockCost :: "int \<Rightarrow> transaction list \<Rightarrow> int \<times> bool" where
  "blockCost cost [] = (cost, False)"
| "blockCost cost (tx # txs) =
     (let cost = cost + transactionCost tx in
      if cost > webSocketValidationBurst then (cost, True) else blockCost cost txs)"

definition gossipValidationCost :: "gossipMessage \<Rightarrow> int" where
  "gossipValidationCost message =
     (if isReconcileResponse (GmType message) then 1
      else
        let cost = 1 + (case GmTransaction message of None \<Rightarrow> 0 | Some tx \<Rightarrow> transactionCost tx);
            (cost, returned) = (case GmBlock message of
               None \<Rightarrow> (cost, False)
             | Some b \<Rightarrow> blockCost (cost + 16 + int (length (Transactions b))) (Transactions b))
        in if returned then cost
           else wrap64 (cost
             + (case GmHeadersRequest message of None \<Rightarrow> 0
                | Some r \<Rightarrow> 16 + int (length (HqLocator r)) + wrap64 (max 0 (HqLimit r) + 7) sdiv 8)
             + (case GmHeadersResponse message of None \<Rightarrow> 0 | Some r \<Rightarrow> 16 + int (length (HrHeaders r)))
             + (case GmBlocksRequest message of None \<Rightarrow> 0 | Some hashes \<Rightarrow> 64 * int (length hashes))
             + (case GmMempoolRequest message of None \<Rightarrow> 0 | Some r \<Rightarrow> 16 + MqLimit r)
             + (case GmTransactionsResponse message of None \<Rightarrow> 0
                | Some r \<Rightarrow> 16 + (\<Sum>tx\<leftarrow>TrTransactions r. transactionCost tx))))"

section \<open>Headers and bodies\<close>

definition sameBlockHeader :: "block \<Rightarrow> block \<Rightarrow> bool" where
  "sameBlockHeader b header \<longleftrightarrow>
     Version b = Version header \<and> Height b = Height header \<and> Timestamp b = Timestamp header \<and>
     PreviousHash b = PreviousHash header \<and> MerkleRoot b = MerkleRoot header \<and>
     Difficulty b = Difficulty header \<and> Nonce b = Nonce header \<and> Hash b = Hash header"

section \<open>Properties\<close>

lemma backoff_bound: "0 < base \<Longrightarrow> 0 < min (base * 2 ^ n) socketReconcileMaximumBackoff"
  by (simp add: socketReconcileMaximumBackoff_def)

text \<open>A failure either closes the connection at once or is retried after a bounded, positive delay.\<close>

lemma disposition_bounds:
  assumes "reconcileFailureDisposition (Some e) failures = (delay, closed)"
  shows "if closed then delay = 0 else 0 < delay \<and> delay \<le> socketReconcilePrunedBackoff"
  using assms backoff_bound [of 5] backoff_bound [of 10]
  by (auto simp: reconcileFailureDisposition_def Let_def socketReconcilePrunedBackoff_def
      socketReconcileMaximumBackoff_def split: if_splits option.splits)

lemma asInvalid_iff [simp]: "asInvalid (InvalidReconcileResponse e)"
  by (simp add: asInvalid_def)

lemma blockCost_bounds:
  "blockCost cost txs = (c, returned) \<Longrightarrow> cost \<le> c \<and> (returned \<longrightarrow> webSocketValidationBurst < c) \<and>
     (\<not> returned \<longrightarrow> c = cost + (\<Sum>tx\<leftarrow>txs. transactionCost tx))"
proof (induction txs arbitrary: cost)
  case (Cons tx txs)
  have "0 \<le> transactionCost tx" by (simp add: transactionCost_def)
  then show ?case using Cons.prems Cons.IH [of "cost + transactionCost tx"] by (auto simp: Let_def split: if_splits)
qed simp

lemma sameBlockHeader_iff: "sameBlockHeader b header \<longleftrightarrow> b\<lparr>Transactions := []\<rparr> = header\<lparr>Transactions := []\<rparr>"
  by (cases b, cases header) (auto simp: sameBlockHeader_def)

end
