(* ===== verification/Peer_Staging.thy ===== *)
theory Peer_Staging
  imports Peer_Protocol
begin

text \<open>
  \<open>internal/node/staging.go\<close>: the blocks of a candidate branch are downloaded in batches into a
  temporary file, each against the header it was requested by, and read back one after the other when
  the ledger replaces the end of its chain.
\<close>

definition maxDirectExtensionBlocks :: nat where "maxDirectExtensionBlocks = maxSyncHeaderBatch"
definition maxStagedForkBytes :: int where "maxStagedForkBytes = 536870912"
definition maxHeadersPerSync :: nat where "maxHeadersPerSync = 20000"

text \<open>
  A peer as the source of headers and blocks. What it answers to call number \<open>n\<close> of each kind is its own
  choice, an error of the transport included. \<open>block_codec\<close> is \<open>json.Marshal\<close> and the strict decoding of
  \<open>decodeLimitedJSON\<close> at the type of blocks.
\<close>

record remote_source =
  SrcHeaders :: "nat \<Rightarrow> headersRequest \<Rightarrow> headersResponse res"
  SrcBlocks :: "nat \<Rightarrow> string list \<Rightarrow> blocksResponse res"

record block_codec =
  MarshalBlock :: "block \<Rightarrow> bytes res"
  UnmarshalBlock :: "bytes \<Rightarrow> block res"

text \<open>
  The outcomes of the calls to the operating system: creating and protecting the file, and writing it
  out; \<open>EnvSlot\<close> is the wait for the staging slot and \<open>EnvLive n\<close> the state of the context before batch \<open>n\<close>.
\<close>

record staging_env =
  EnvSlot :: "unit res"
  EnvCreate :: "unit res"
  EnvLive :: "nat \<Rightarrow> unit res"
  EnvFlush :: "unit res"

text \<open>\<open>SfData\<close> is what the reader has not read yet.\<close>

record stagedBlockFile =
  SfOpen :: bool
  SfData :: bytes
  SfNextIndex :: int
  SfBlockCount :: int

section \<open>Writing\<close>

definition stageBlock :: "block_codec \<Rightarrow> int \<Rightarrow> int \<times> bytes \<Rightarrow> block \<times> block \<Rightarrow> (int \<times> bytes) res" where
  "stageBlock X budget st bh =
     (case bh of (b, header) \<Rightarrow>
      if \<not> sameBlockHeader b header then Inl (Errorf ''block body does not match requested header'')
      else attempt (MarshalBlock X b) (\<lambda>encoded.
      if int (length encoded) > maxBlockBodyBytes then Inl (Errorf ''block exceeds staging size limit'')
      else let totalBytes = fst st + int (4 + length encoded) in
        if totalBytes > budget then Inl (Errorf ''candidate branch exceeds staging budget'')
        else Inr (totalBytes, snd st @ be_bytes 4 (length encoded) @ encoded)))"

definition stageBatch ::
    "block_codec \<Rightarrow> staging_env \<Rightarrow> remote_source \<Rightarrow> int \<Rightarrow> nat \<Rightarrow> block list \<Rightarrow> int \<times> bytes \<Rightarrow> (int \<times> bytes) res" where
  "stageBatch X env source budget n batch st =
     attempt (EnvLive env n) (\<lambda>_.
     let hashes = map Hash batch in
     attempt (SrcBlocks source n hashes) (\<lambda>response.
     if BrProtocol response \<noteq> NetworkID \<or> length (BrBlocks response) \<noteq> length hashes
     then Inl (Errorf ''peer returned an incomplete block batch'')
     else foldE (stageBlock X budget) st (zip (BrBlocks response) batch)))"

text \<open>The loop over the batches; \<open>headers\<close> is \<open>headers[start:]\<close>.\<close>

function stageBatches ::
    "block_codec \<Rightarrow> staging_env \<Rightarrow> remote_source \<Rightarrow> int \<Rightarrow> nat \<Rightarrow> block list \<Rightarrow> int \<times> bytes \<Rightarrow> (int \<times> bytes) res" where
  "stageBatches X env source budget n headers st =
     (if headers = [] then Inr st
      else attempt (stageBatch X env source budget n (take maxBlockDownloadBatch headers) st) (\<lambda>st'.
           stageBatches X env source budget (n + 1) (drop maxBlockDownloadBatch headers) st'))"
  by pat_completeness auto
termination
  by (relation "measure (\<lambda>(_, _, _, _, _, headers, _). length headers)") (auto simp: maxBlockDownloadBatch_def)

declare stageBatches.simps [simp del]

definition stageBlocksFromSourceWithBudget ::
    "block_codec \<Rightarrow> staging_env \<Rightarrow> remote_source \<Rightarrow> block list \<Rightarrow> int \<Rightarrow> stagedBlockFile res" where
  "stageBlocksFromSourceWithBudget X env source headers budget =
     (if length headers = 0 \<or> length headers > maxHeadersPerSync
      then Inl (Errorf ''staged block count is outside sync limits'')
      else if budget \<le> 0 \<or> budget > maxStagedForkBytes then Inl (Errorf ''staging budget is outside safe limits'')
      else attempt (EnvSlot env) (\<lambda>_.
      attempt (EnvCreate env) (\<lambda>_.
      attempt (stageBatches X env source budget 0 headers (0, [])) (\<lambda>(_, data).
      attempt (EnvFlush env) (\<lambda>_.
      Inr \<lparr>SfOpen = True, SfData = data, SfNextIndex = 0, SfBlockCount = int (length headers)\<rparr>)))))"

definition stageBlocksFromSource ::
    "block_codec \<Rightarrow> staging_env \<Rightarrow> remote_source \<Rightarrow> block list \<Rightarrow> stagedBlockFile res" where
  "stageBlocksFromSource X env source headers = stageBlocksFromSourceWithBudget X env source headers maxStagedForkBytes"

section \<open>Reading\<close>

definition BlockAt :: "block_codec \<Rightarrow> stagedBlockFile \<Rightarrow> int \<Rightarrow> (block \<times> stagedBlockFile) res" where
  "BlockAt X s index =
     (if \<not> SfOpen s then Inl (Errorf ''incoming chain staging file is closed'')
      else if index \<noteq> SfNextIndex s \<or> index < 0 \<or> index \<ge> SfBlockCount s
      then Inl (Errorf ''staged block requested out of order'')
      else if length (SfData s) < 4 then Inl (Errorf ''unexpected EOF'')
      else
        let len = be_nat (take 4 (SfData s)); rest = drop 4 (SfData s) in
        if len = 0 \<or> int len > maxBlockBodyBytes then Inl (Errorf ''staged block length is invalid'')
        else if length rest < len then Inl (Errorf ''unexpected EOF'')
        else attempt (UnmarshalBlock X (take len rest)) (\<lambda>b.
          Inr (b, s\<lparr>SfData := drop len rest, SfNextIndex := SfNextIndex s + 1\<rparr>)))"

definition CloseStaged :: "stagedBlockFile \<Rightarrow> stagedBlockFile" where
  "CloseStaged s = s\<lparr>SfOpen := False\<rparr>"

text \<open>
  The file as the source of \<open>ReplaceFromSourceAtTime\<close>, which asks for index 0, 1, ... in this order and
  stops at the first error: what it is given for index \<open>i\<close> is the read after \<open>i\<close> successful ones.
\<close>

fun readAhead :: "block_codec \<Rightarrow> stagedBlockFile \<Rightarrow> nat \<Rightarrow> (block \<times> stagedBlockFile) res" where
  "readAhead X s 0 = BlockAt X s 0"
| "readAhead X s (Suc i) = attempt (readAhead X s i) (\<lambda>(_, s'). BlockAt X s' (int (Suc i)))"

definition stagedSource :: "block_codec \<Rightarrow> stagedBlockFile \<Rightarrow> nat \<Rightarrow> block res" where
  "stagedSource X s i = attempt (readAhead X s i) (\<lambda>(b, _). Inr b)"

section \<open>The file round trip\<close>

definition frame :: "bytes \<Rightarrow> bytes" where
  "frame encoded = be_bytes 4 (length encoded) @ encoded"

text \<open>What a block that was written looks like in the file.\<close>

definition staged_as :: "block_codec \<Rightarrow> block \<Rightarrow> bytes \<Rightarrow> bool" where
  "staged_as X b encoded \<longleftrightarrow> MarshalBlock X b = Inr encoded \<and> int (length encoded) \<le> maxBlockBodyBytes"

lemma stageBlock_ok:
  assumes "stageBlock X budget st (b, header) = Inr st'"
  shows "sameBlockHeader b header \<and> (\<exists>encoded. staged_as X b encoded \<and> snd st' = snd st @ frame encoded \<and>
     fst st' = fst st + int (length (frame encoded)) \<and> fst st' \<le> budget)"
  using assms by (auto simp: stageBlock_def res_simps staged_as_def frame_def Let_def split: if_splits)

lemma stage_fold_ok:
  assumes "foldE (stageBlock X budget) st (zip blocks headers) = Inr st'" "length blocks = length headers"
    "fst st = int (length (snd st))" "fst st \<le> budget"
  shows "list_all2 sameBlockHeader blocks headers \<and> (\<exists>es. list_all2 (staged_as X) blocks es \<and>
     snd st' = snd st @ concat (map frame es)) \<and> fst st' = int (length (snd st')) \<and> fst st' \<le> budget"
  using assms
proof (induction blocks headers arbitrary: st rule: list_induct2')
  case (4 b blocks h headers)
  obtain st1 where s: "stageBlock X budget st (b, h) = Inr st1"
    "foldE (stageBlock X budget) st1 (zip blocks headers) = Inr st'"
    using 4(2) by (auto simp: res_simps)
  obtain e where e: "sameBlockHeader b h" "staged_as X b e" "snd st1 = snd st @ frame e"
    "fst st1 = fst st + int (length (frame e))" "fst st1 \<le> budget"
    using stageBlock_ok [OF s(1)] by blast
  have "fst st1 = int (length (snd st1))" using e(3,4) 4(4) by simp
  from 4(1) [OF s(2) _ this e(5)] 4(3) obtain es where i: "list_all2 sameBlockHeader blocks headers"
    "list_all2 (staged_as X) blocks es" "snd st' = snd st1 @ concat (map frame es)"
    "fst st' = int (length (snd st'))" "fst st' \<le> budget" by auto
  have "list_all2 (staged_as X) (b # blocks) (e # es)" using i(2) e(2) by simp
  moreover have "snd st' = snd st @ concat (map frame (e # es))" using i(3) e(3) by simp
  ultimately show ?case using i(1,4,5) e(1) by (intro conjI exI [of _ "e # es"]) simp_all
qed auto

lemma stageBatches_ok:
  assumes "stageBatches X env source budget n headers st = Inr st'"
    "fst st = int (length (snd st))" "fst st \<le> budget"
  shows "\<exists>blocks es. list_all2 sameBlockHeader blocks headers \<and> list_all2 (staged_as X) blocks es \<and>
     snd st' = snd st @ concat (map frame es) \<and> fst st' = int (length (snd st')) \<and> fst st' \<le> budget"
  using assms
proof (induction X env source budget n headers st rule: stageBatches.induct)
  case (1 X env source budget n headers st)
  show ?case
  proof (cases "headers = []")
    case True
    then show ?thesis using 1 by (simp add: stageBatches.simps)
  next
    case False
    let ?h = "take maxBlockDownloadBatch headers"
    obtain st1 where s: "stageBatch X env source budget n ?h st = Inr st1"
      "stageBatches X env source budget (n + 1) (drop maxBlockDownloadBatch headers) st1 = Inr st'"
      using 1(2) False by (auto simp: stageBatches.simps [of X env source budget n headers] res_simps)
    have "\<exists>r :: blocksResponse. length (BrBlocks r) = length ?h \<and> foldE (stageBlock X budget) st (zip (BrBlocks r) ?h) = Inr st1"
      using s(1) unfolding stageBatch_def by (fastforce simp: res_simps Let_def simp del: length_take split: if_splits)
    then obtain r :: blocksResponse where r: "length (BrBlocks r) = length ?h" "foldE (stageBlock X budget) st (zip (BrBlocks r) ?h) = Inr st1"
      by blast
    from stage_fold_ok [OF r(2,1) 1(3,4)] obtain es where a: "list_all2 sameBlockHeader (BrBlocks r) ?h"
      "list_all2 (staged_as X) (BrBlocks r) es" "snd st1 = snd st @ concat (map frame es)"
      "fst st1 = int (length (snd st1))" "fst st1 \<le> budget" by blast
    from 1(1) [OF False s(1,2) a(4,5)] obtain bs fs where b: "list_all2 sameBlockHeader bs (drop maxBlockDownloadBatch headers)"
      "list_all2 (staged_as X) bs fs" "snd st' = snd st1 @ concat (map frame fs)"
      "fst st' = int (length (snd st'))" "fst st' \<le> budget" by blast
    have "list_all2 sameBlockHeader (BrBlocks r @ bs) headers"
      using list_all2_appendI [OF a(1) b(1)] by simp
    moreover have "list_all2 (staged_as X) (BrBlocks r @ bs) (es @ fs)"
      by (rule list_all2_appendI [OF a(2) b(2)])
    ultimately show ?thesis using a(3) b(3-5)
      by (intro exI [of _ "BrBlocks r @ bs"] exI [of _ "es @ fs"] conjI) simp_all
  qed
qed

text \<open>Reading: a file of frames gives back the blocks in order, where decoding undoes encoding.\<close>

definition decodes :: "block_codec \<Rightarrow> block \<Rightarrow> bytes \<Rightarrow> bool" where
  "decodes X b e \<longleftrightarrow> e \<noteq> [] \<and> int (length e) \<le> maxBlockBodyBytes \<and> UnmarshalBlock X e = Inr b"

lemma be_length_frame: "int (length e) \<le> maxBlockBodyBytes \<Longrightarrow> be_nat (be_bytes 4 (length e)) = length e"
  by (simp add: be_nat_be_bytes maxBlockBodyBytes_def MaxBlockBytes_def)

lemma BlockAt_frame:
  assumes "decodes X b e" "SfOpen s" "SfData s = frame e @ rest" "SfNextIndex s = i" "0 \<le> i" "i < SfBlockCount s"
  shows "BlockAt X s i = Inr (b, s\<lparr>SfData := rest, SfNextIndex := i + 1\<rparr>)"
proof -
  have e: "e \<noteq> []" "\<not> maxBlockBodyBytes < int (length e)" "UnmarshalBlock X e = Inr b" "be_nat (be_bytes 4 (length e)) = length e"
    using assms(1) be_length_frame [of e] by (auto simp: decodes_def)
  have "take 4 (SfData s) = be_bytes 4 (length e)" "drop 4 (SfData s) = e @ rest"
    by (simp_all add: assms(3) frame_def)
  then show ?thesis using assms(2,4-6) e by (simp add: BlockAt_def frame_def assms(3))
qed

lemma readAhead_frames:
  assumes "list_all2 (decodes X) blocks es" "SfOpen s" "SfData s = concat (map frame es)" "SfNextIndex s = 0"
    "SfBlockCount s = int (length blocks)" "i < length blocks"
  shows "readAhead X s i = Inr (blocks ! i, s\<lparr>SfData := concat (map frame (drop (Suc i) es)), SfNextIndex := int i + 1\<rparr>)"
  using assms(6)
proof (induction i)
  case 0
  have "SfData s = frame (es ! 0) @ concat (map frame (drop (Suc 0) es))" "decodes X (blocks ! 0) (es ! 0)"
    using assms(1,3) 0 by (cases es; cases blocks; simp)+
  then show ?case using BlockAt_frame [of X "blocks ! 0" "es ! 0" s "concat (map frame (drop (Suc 0) es))" 0] assms 0 by simp
next
  case (Suc i)
  let ?s = "s\<lparr>SfData := concat (map frame (drop (Suc i) es)), SfNextIndex := int i + 1\<rparr>"
  have l: "length es = length blocks" using assms(1) by (simp add: list_all2_lengthD)
  have "drop (Suc i) es = es ! Suc i # drop (Suc (Suc i)) es" using Suc.prems l by (simp add: Cons_nth_drop_Suc)
  then have d: "SfData ?s = frame (es ! Suc i) @ concat (map frame (drop (Suc (Suc i)) es))" by simp
  have "decodes X (blocks ! Suc i) (es ! Suc i)" using assms(1) Suc.prems by (simp add: list_all2_conv_all_nth)
  from BlockAt_frame [OF this _ d, of "int (Suc i)"] assms(2,5) Suc
  show ?case by (simp add: add.commute)
qed

text \<open>The source the ledger reads is the list of the downloaded blocks.\<close>

lemma staged_reads:
  assumes st: "stageBlocksFromSource X env source headers = Inr s"
    and law: "\<And>b e. MarshalBlock X b = Inr e \<Longrightarrow> e \<noteq> [] \<and> UnmarshalBlock X e = Inr b"
  shows "\<exists>blocks. list_all2 sameBlockHeader blocks headers \<and> SfBlockCount s = int (length headers) \<and>
     int (length (SfData s)) \<le> maxStagedForkBytes \<and> (\<forall>i < length headers. stagedSource X s i = Inr (blocks ! i))"
proof -
  obtain total where t: "stageBatches X env source maxStagedForkBytes 0 headers (0, []) = Inr (total, SfData s)"
    "s = \<lparr>SfOpen = True, SfData = SfData s, SfNextIndex = 0, SfBlockCount = int (length headers)\<rparr>"
    using st unfolding stageBlocksFromSource_def stageBlocksFromSourceWithBudget_def
    by (auto simp: res_simps split: if_splits)
  have "fst (0 :: int, [] :: bytes) = int (length (snd (0 :: int, [] :: bytes)))"
    "fst (0 :: int, [] :: bytes) \<le> maxStagedForkBytes" by (simp_all add: maxStagedForkBytes_def)
  from stageBatches_ok [OF t(1) this] obtain blocks es where b: "list_all2 sameBlockHeader blocks headers"
    "list_all2 (staged_as X) blocks es" "SfData s = concat (map frame es)" "total = int (length (SfData s))"
    "total \<le> maxStagedForkBytes" by auto
  have "list_all2 (decodes X) blocks es"
    using b(2) by (rule list_all2_mono) (auto simp: staged_as_def decodes_def dest: law)
  moreover have l: "length blocks = length headers" using b(1) by (rule list_all2_lengthD)
  moreover have o: "SfOpen s" "SfNextIndex s = 0" "SfBlockCount s = int (length headers)" by (subst t(2), simp)+
  ultimately have "\<forall>i < length headers. stagedSource X s i = Inr (blocks ! i)"
    using b(3) by (simp add: stagedSource_def readAhead_frames)
  then show ?thesis using b(1,4,5) o(3) by (intro exI [of _ blocks]) simp
qed

text \<open>Completeness: an honest answer to every batch is staged.\<close>

lemma stage_fold_complete:
  assumes "list_all2 sameBlockHeader blocks headers" "list_all2 (staged_as X) blocks es"
    "fst st + int (length (concat (map frame es))) \<le> budget"
  shows "\<exists>st'. foldE (stageBlock X budget) st (zip blocks headers) = Inr st' \<and>
     fst st' = fst st + int (length (concat (map frame es))) \<and> snd st' = snd st @ concat (map frame es)"
  using assms
proof (induction blocks headers arbitrary: st es rule: list_induct2')
  case (4 b blocks h headers)
  obtain e es' where e: "es = e # es'" "staged_as X b e" "list_all2 (staged_as X) blocks es'"
    using 4(3) by (auto simp: list_all2_Cons1)
  let ?st = "(fst st + int (length (frame e)), snd st @ frame e)"
  have lf: "length (frame e) = 4 + length e" by (simp add: frame_def)
  have small: "\<not> budget < fst st + int (length (frame e))" using 4(4) by (simp add: e(1))
  have "stageBlock X budget st (b, h) = Inr ?st"
    using e(2) 4(2) small unfolding stageBlock_def staged_as_def lf by (simp add: frame_def)
  moreover have "fst ?st + int (length (concat (map frame es'))) \<le> budget" using 4(4) by (simp add: e(1))
  from 4(1) [OF _ e(3) this] 4(2) obtain st' where "foldE (stageBlock X budget) ?st (zip blocks headers) = Inr st'"
    "fst st' = fst ?st + int (length (concat (map frame es')))" "snd st' = snd ?st @ concat (map frame es')" by auto
  ultimately show ?case by (intro exI [of _ st']) (simp add: e(1))
qed auto

lemma stageBatches_complete:
  assumes "list_all2 P blocks headers" "list_all2 (staged_as X) blocks es"
    "fst st + int (length (concat (map frame es))) \<le> budget" "distinct headers"
    and live: "\<And>k. EnvLive env k = Inr ()"
    and same: "\<And>b h. P b h \<Longrightarrow> sameBlockHeader b h"
    and serves: "\<And>k bs hs. list_all2 P bs hs \<Longrightarrow> distinct hs \<Longrightarrow> hs \<noteq> [] \<Longrightarrow> length hs \<le> maxBlockDownloadBatch \<Longrightarrow>
       SrcBlocks source k (map Hash hs) = Inr \<lparr>BrProtocol = NetworkID, BrBlocks = bs\<rparr>"
  shows "\<exists>total. stageBatches X env source budget n headers st = Inr (total, snd st @ concat (map frame es))"
  using assms(1-4)
proof (induction headers arbitrary: blocks es st n rule: length_induct)
  case (1 headers)
  let ?k = maxBlockDownloadBatch
  have len: "length blocks = length headers" "length es = length blocks"
    using list_all2_lengthD [OF 1(2)] list_all2_lengthD [OF 1(3)] by simp_all
  show ?case
  proof (cases "headers = []")
    case True
    then show ?thesis using len by (cases st) (simp add: stageBatches.simps)
  next
    case False
    have t: "list_all2 P (take ?k blocks) (take ?k headers)" "list_all2 P (drop ?k blocks) (drop ?k headers)"
      "list_all2 (staged_as X) (take ?k blocks) (take ?k es)" "list_all2 (staged_as X) (drop ?k blocks) (drop ?k es)"
      using 1(2,3) by (simp_all add: list_all2_takeI list_all2_dropI)
    have ne: "take ?k headers \<noteq> []" "length (take ?k headers) \<le> ?k" using False by (simp_all add: maxBlockDownloadBatch_def)
    have parts: "concat (map frame es) = concat (map frame (take ?k es)) @ concat (map frame (drop ?k es))"
      by (metis append_take_drop_id concat_append map_append)
    have "fst st + int (length (concat (map frame (take ?k es)))) \<le> budget"
      using 1(4) unfolding parts by simp
    from stage_fold_complete [OF list_all2_mono [OF t(1) same] t(3) this] obtain st1 where st1:
      "foldE (stageBlock X budget) st (zip (take ?k blocks) (take ?k headers)) = Inr st1"
      "fst st1 = fst st + int (length (concat (map frame (take ?k es))))"
      "snd st1 = snd st @ concat (map frame (take ?k es))" by blast
    have "stageBatch X env source budget n (take ?k headers) st = Inr st1"
      using serves [OF t(1) distinct_take [OF 1(5)] ne, of n] st1(1) len live by (simp add: stageBatch_def)
    moreover have "length (drop ?k headers) < length headers" using False by (simp add: maxBlockDownloadBatch_def)
    moreover have "fst st1 + int (length (concat (map frame (drop ?k es)))) \<le> budget"
      using 1(4) unfolding parts st1(2) by simp
    ultimately show ?thesis
      using 1(1) [rule_format, OF _ t(2,4), of st1 "n + 1"] False 1(5)
      by (simp add: stageBatches.simps [of X env source budget n headers] st1(3) parts)
  qed
qed

lemma stage_complete:
  assumes "list_all2 P blocks headers" "list_all2 (staged_as X) blocks es"
    "int (length (concat (map frame es))) \<le> maxStagedForkBytes" "headers \<noteq> []" "length headers \<le> maxHeadersPerSync" "distinct headers"
    "EnvSlot env = Inr ()" "EnvCreate env = Inr ()" "EnvFlush env = Inr ()" "\<And>k. EnvLive env k = Inr ()"
    and same: "\<And>b h. P b h \<Longrightarrow> sameBlockHeader b h"
    and serves: "\<And>k bs hs. list_all2 P bs hs \<Longrightarrow> distinct hs \<Longrightarrow> hs \<noteq> [] \<Longrightarrow> length hs \<le> maxBlockDownloadBatch \<Longrightarrow>
       SrcBlocks source k (map Hash hs) = Inr \<lparr>BrProtocol = NetworkID, BrBlocks = bs\<rparr>"
    and law: "\<And>b e. b \<in> set blocks \<Longrightarrow> MarshalBlock X b = Inr e \<Longrightarrow> e \<noteq> [] \<and> UnmarshalBlock X e = Inr b"
  shows "\<exists>s. stageBlocksFromSource X env source headers = Inr s \<and>
     (\<forall>i < length headers. stagedSource X s i = Inr (blocks ! i))"
proof -
  have "fst (0 :: int, [] :: bytes) + int (length (concat (map frame es))) \<le> maxStagedForkBytes" using assms(3) by simp
  from stageBatches_complete [OF assms(1,2) this assms(6,10) same serves] obtain total where
    t: "stageBatches X env source maxStagedForkBytes 0 headers (0, []) = Inr (total, concat (map frame es))" by auto
  let ?s = "\<lparr>SfOpen = True, SfData = concat (map frame es), SfNextIndex = 0, SfBlockCount = int (length headers)\<rparr>"
  have "stageBlocksFromSource X env source headers = Inr ?s"
    using t assms(4-9) by (simp add: stageBlocksFromSource_def stageBlocksFromSourceWithBudget_def maxStagedForkBytes_def)
  moreover have l: "length blocks = length headers" using assms(1) by (rule list_all2_lengthD)
  have "list_all2 (decodes X) blocks es"
    unfolding list_all2_conv_all_nth
  proof (intro conjI allI impI)
    show le: "length blocks = length es" using assms(2) by (rule list_all2_lengthD)
    fix i assume i: "i < length blocks"
    then have "staged_as X (blocks ! i) (es ! i)" using assms(2) by (simp add: list_all2_conv_all_nth)
    then show "decodes X (blocks ! i) (es ! i)" using law [OF nth_mem [OF i]] by (simp add: staged_as_def decodes_def)
  qed
  then have "\<forall>i < length headers. stagedSource X ?s i = Inr (blocks ! i)"
    using l by (simp add: stagedSource_def readAhead_frames)
  ultimately show ?thesis by blast
qed

end
