(* ===== verification/Peer_Sync.thy ===== *)
theory Peer_Sync
  imports Peer_Staging Ledger_Steps
begin

text \<open>
  Synchronising the chain with a peer (\<open>syncRemoteChainFromAtTime\<close> of
  \<open>internal/node/http_protocol.go\<close>): headers are fetched page by page from the common ancestor and
  validated; as soon as they carry more work than the local tip, the bodies are staged and the ledger
  replaces the end of its chain.

  Other goroutines may write to the ledger between the calls of one synchronisation: \<open>view n\<close> is the
  database that the reads of page \<open>n\<close> see, and the replacement runs on a database of its own.
\<close>

section \<open>Walking the headers\<close>

text \<open>The local variables of the loop.\<close>

record header_walk =
  WkHeaders :: "block list"
  WkEffective :: u64
  WkWork :: nat
  WkPrior :: "block list"
  WkPrevious :: block
  WkCandidates :: "block list"
  WkDiverged :: bool

definition zero_block :: block where
  "zero_block = \<lparr>Version = 0, Height = 0, Timestamp = 0, PreviousHash = [], MerkleRoot = [], Difficulty = 0,
     Nonce = 0, Hash = [], Transactions = []\<rparr>"

definition fresh_walk :: header_walk where
  "fresh_walk = \<lparr>WkHeaders = [], WkEffective = 0, WkWork = 0, WkPrior = [], WkPrevious = zero_block,
     WkCandidates = [], WkDiverged = False\<rparr>"

text \<open>What the first page sets up, from the ancestor the peer chose.\<close>

definition startWalk :: "db \<Rightarrow> headersResponse \<Rightarrow> header_walk \<Rightarrow> header_walk res" where
  "startWalk d response w =
     (let ancestorHeight = HrCommonHeight response in
      if HashAt d ancestorHeight \<noteq> Inr (HrCommonHash response)
      then Inl (Errorf ''peer selected a locator that is not on the local active chain'')
      else attempt (WorkAt d ancestorHeight) (\<lambda>work.
           attempt (HeaderWindow d ancestorHeight) (\<lambda>prior.
           attempt (go_index prior (int (length prior) - 1)) (\<lambda>previous.
           Inr (w\<lparr>WkEffective := ancestorHeight, WkWork := work, WkPrior := prior, WkPrevious := previous\<rparr>)))))"

definition trimPrior :: "block list \<Rightarrow> block list" where
  "trimPrior prior = (if length prior > FirstAdjustment then drop (length prior - FirstAdjustment) prior else prior)"

definition walkHeader :: "crypto \<Rightarrow> db \<Rightarrow> tip \<Rightarrow> int \<Rightarrow> header_walk \<Rightarrow> block \<Rightarrow> header_walk res" where
  "walkHeader C d localTip validationTime w header =
     (if Transactions header \<noteq> [] then Inl (Errorf ''peer included block bodies in a header response'')
      else attempt (validateHeaderAtTime C header (WkPrevious w) (WkPrior w) validationTime) (\<lambda>_.
      let candidate = w\<lparr>WkDiverged := True, WkCandidates := WkCandidates w @ [header]\<rparr> in
      attempt (if \<not> WkDiverged w \<and> Height header \<le> TipHeight localTip
               then attempt (HashAt d (Height header)) (\<lambda>localHash.
                 Inr (if localHash = Hash header then w\<lparr>WkEffective := Height header\<rparr> else candidate))
               else Inr candidate) (\<lambda>w'.
      Inr (w'\<lparr>WkHeaders := WkHeaders w @ [header], WkWork := WkWork w + blockWork (Difficulty header),
              WkPrior := trimPrior (WkPrior w @ [header]), WkPrevious := header\<rparr>))))"

section \<open>Pages\<close>

text \<open>The decision after a page: the branch to adopt, once it has more work than the local tip.\<close>

definition adoptable :: "db \<Rightarrow> tip \<Rightarrow> header_walk \<Rightarrow> (u64 \<times> block list) option res" where
  "adoptable d localTip w =
     (if WkWork w > TipWork localTip then
        if WkCandidates w = [] then Inl (Errorf ''peer claimed excess work without a candidate suffix'')
        else attempt (PrunedThrough d) (\<lambda>pruned.
        if WkEffective w < pruned then Inl ErrReorgBeyondPrune
        else Inr (Some (WkEffective w,
          if WkEffective w = TipHeight localTip \<and> length (WkCandidates w) > maxDirectExtensionBlocks
          then take maxDirectExtensionBlocks (WkCandidates w) else WkCandidates w)))
      else Inr None)"

text \<open>One page: \<open>None\<close> when the peer has no further header.\<close>

definition syncPage ::
    "crypto \<Rightarrow> db \<Rightarrow> tip \<Rightarrow> int \<Rightarrow> header_walk \<Rightarrow> headersResponse res \<Rightarrow> (header_walk \<times> nat) option res" where
  "syncPage C d localTip validationTime w answer =
     attempt answer (\<lambda>response.
     if HrProtocol response \<noteq> NetworkID then Inl (Errorf ''peer returned incompatible headers'')
     else if length (HrHeaders response) > maxSyncHeaderBatch then Inl (Errorf ''peer exceeded the header page limit'')
     else if length (WkHeaders w) + length (HrHeaders response) > maxHeadersPerSync
     then Inl (Errorf ''peer exceeded the total header sync limit'')
     else attempt (if WkHeaders w = [] then startWalk d response w
                   else if HrCommonHeight response \<noteq> Height (WkPrevious w) \<or> HrCommonHash response \<noteq> Hash (WkPrevious w)
                   then Inl (Errorf ''peer changed chains while paginating headers'')
                   else Inr w) (\<lambda>w.
     if HrHeaders response = [] then Inr None
     else attempt (foldE (walkHeader C d localTip validationTime) w (HrHeaders response)) (\<lambda>w.
       Inr (Some (w, length (HrHeaders response))))))"

lemma walkHeader_headers: "walkHeader C d t vt w h = Inr w' \<Longrightarrow> WkHeaders w' = WkHeaders w @ [h]"
  by (auto simp: walkHeader_def res_simps Let_def)

lemma walk_headers: "foldE (walkHeader C d t vt) w hs = Inr w' \<Longrightarrow> WkHeaders w' = WkHeaders w @ hs"
proof (induction hs arbitrary: w)
  case (Cons h hs)
  then obtain w1 where "walkHeader C d t vt w h = Inr w1" "foldE (walkHeader C d t vt) w1 hs = Inr w'"
    by (auto simp: res_simps)
  with Cons.IH [of w1] walkHeader_headers [of C d t vt w h w1] show ?case by simp
qed simp

lemma syncPage_headers:
  assumes "syncPage C d t vt w answer = Inr (Some (w', n))"
  shows "0 < n" "length (WkHeaders w') = length (WkHeaders w) + n" "length (WkHeaders w') \<le> maxHeadersPerSync"
    "n \<le> maxSyncHeaderBatch"
proof -
  have start: "WkHeaders w1 = WkHeaders w" if "startWalk d r w = Inr w1" for r w1
    using that by (auto simp: startWalk_def res_simps Let_def)
  have "0 < n \<and> length (WkHeaders w') = length (WkHeaders w) + n \<and> length (WkHeaders w') \<le> maxHeadersPerSync \<and>
      n \<le> maxSyncHeaderBatch"
    using assms by (auto simp: syncPage_def res_simps dest!: walk_headers start split: if_splits)
  then show "0 < n" "length (WkHeaders w') = length (WkHeaders w) + n" "length (WkHeaders w') \<le> maxHeadersPerSync"
    "n \<le> maxSyncHeaderBatch" by simp_all
qed

lemma syncPage_progress:
  "syncPage C d t vt w answer = Inr (Some (w', n)) \<Longrightarrow> length (WkHeaders w) < maxHeadersPerSync \<Longrightarrow>
     maxHeadersPerSync - length (WkHeaders w') < maxHeadersPerSync - length (WkHeaders w)"
  using syncPage_headers(1,2) [of C d t vt w answer w' n] by linarith

text \<open>
  The loop over the pages. It ends because every page that does not end it brings at least one header and
  their number is limited.
\<close>

function headerPages ::
    "crypto \<Rightarrow> (nat \<Rightarrow> db) \<Rightarrow> remote_source \<Rightarrow> tip \<Rightarrow> int \<Rightarrow> nat \<Rightarrow> string list \<Rightarrow> header_walk \<Rightarrow> (u64 \<times> block list) option res" where
  "headerPages C view source localTip validationTime n locator w =
     (if length (WkHeaders w) < maxHeadersPerSync then
        attempt (syncPage C (view n) localTip validationTime w
          (SrcHeaders source n \<lparr>HqLocator = locator, HqLimit = int maxSyncHeaderBatch\<rparr>)) (\<lambda>page.
        case page of
          None \<Rightarrow> Inr None
        | Some (w', received) \<Rightarrow>
          attempt (adoptable (view n) localTip w') (\<lambda>plan.
          if plan \<noteq> None \<or> received < maxSyncHeaderBatch then Inr plan
          else headerPages C view source localTip validationTime (n + 1) [Hash (WkPrevious w')] w'))
      else Inr None)"
  by pat_completeness auto
termination
  by (relation "measure (\<lambda>(_, _, _, _, _, _, _, w). maxHeadersPerSync - length (WkHeaders w))")
    (auto intro: syncPage_progress)

declare headerPages.simps [simp del]

section \<open>The synchronisation\<close>

text \<open>
  \<open>slot\<close> is the wait for the synchronisation slot. The branch to adopt, or \<open>None\<close> when the peer offers
  no more work.
\<close>

definition findBetterBranch ::
    "crypto \<Rightarrow> unit res \<Rightarrow> (nat \<Rightarrow> db) \<Rightarrow> remote_source \<Rightarrow> tip \<Rightarrow> int \<Rightarrow> (u64 \<times> block list) option res" where
  "findBetterBranch C slot view source localTip validationTime =
     attempt slot (\<lambda>_.
     attempt (BlockLocator C (view 0)) (\<lambda>locator.
     headerPages C view source localTip validationTime 0 locator fresh_walk))"

text \<open>\<open>maybePrune\<close>: the pruned database, or the error that is reported and otherwise ignored.\<close>

definition maybePrune :: "u64 \<Rightarrow> db \<Rightarrow> db \<times> go_error option" where
  "maybePrune depth d =
     (if depth = 0 then (d, None)
      else case Prune d depth of Inl e \<Rightarrow> (d, Some e) | Inr (d', _) \<Rightarrow> (d', None))"

text \<open>
  The database after the synchronisation and whether the tip changed. \<open>now\<close> is the clock the ledger reads
  when it rebuilds its mempool, \<open>depth\<close> the retention of the node.
\<close>

definition syncRemoteChainFromAtTime ::
    "crypto \<Rightarrow> block_codec \<Rightarrow> staging_env \<Rightarrow> unit res \<Rightarrow> u64 \<Rightarrow> int \<Rightarrow> (nat \<Rightarrow> db) \<Rightarrow> db \<Rightarrow> remote_source \<Rightarrow> tip \<Rightarrow> int \<Rightarrow>
     (db \<times> bool) res" where
  "syncRemoteChainFromAtTime C X env slot depth now view d source localTip validationTime =
     attempt (findBetterBranch C slot view source localTip validationTime) (\<lambda>plan.
     case plan of
       None \<Rightarrow> Inr (d, False)
     | Some (ancestor, candidates) \<Rightarrow>
       attempt (stageBlocksFromSource X env source candidates) (\<lambda>staged.
       attempt (replaceFromSourceAtTime C now d ancestor (int (length candidates)) (Some (stagedSource X staged))
                  validationTime) (\<lambda>d.
       Inr (fst (maybePrune depth d), True))))"

section \<open>What a synchronisation may do\<close>

text \<open>A better branch was validated header by header; it is what a replacement is asked to adopt.\<close>

lemma headerPages_nonempty:
  "headerPages C view source t vt n locator w = Inr (Some (a, cs)) \<Longrightarrow> cs \<noteq> [] \<and> (\<exists>k p. PrunedThrough (view k) = Inr p \<and> p \<le> a)"
proof (induction C view source t vt n locator w rule: headerPages.induct)
  case (1 C view source t vt n locator w)
  obtain page where page: "length (WkHeaders w) < maxHeadersPerSync"
    "syncPage C (view n) t vt w (SrcHeaders source n \<lparr>HqLocator = locator, HqLimit = int maxSyncHeaderBatch\<rparr>) = Inr page"
    "(case page of None \<Rightarrow> Inr None | Some (w', received) \<Rightarrow> attempt (adoptable (view n) t w') (\<lambda>plan.
          if plan \<noteq> None \<or> received < maxSyncHeaderBatch then Inr plan
          else headerPages C view source t vt (n + 1) [Hash (WkPrevious w')] w')) = Inr (Some (a, cs))"
    using 1(2) unfolding headerPages.simps [of C view source t vt n locator w] by (auto simp: res_simps simp del: not_None_eq disj_not1 split: if_split_asm)
  obtain w' received plan where w': "page = Some (w', received)" "adoptable (view n) t w' = Inr plan"
    "(if plan \<noteq> None \<or> received < maxSyncHeaderBatch then Inr plan
      else headerPages C view source t vt (n + 1) [Hash (WkPrevious w')] w') = Inr (Some (a, cs))"
    using page(3) by (auto simp: res_simps simp del: not_None_eq split: option.splits)
  show ?case
  proof (cases "plan \<noteq> None \<or> received < maxSyncHeaderBatch")
    case True
    then have "adoptable (view n) t w' = Inr (Some (a, cs))" using w'(2,3) by (simp del: not_None_eq)
    then show ?thesis
      by (fastforce simp: adoptable_def res_simps maxDirectExtensionBlocks_def maxSyncHeaderBatch_def not_less split: if_splits)
  next
    case False
    then show ?thesis using 1(1) [OF page(1,2) w'(1) HOL.refl w'(2) False] w'(3) by (simp del: not_None_eq)
  qed
qed

text \<open>Whatever the peer answers, the ledger changes by its own steps only.\<close>

inductive ledger_steps :: "crypto \<Rightarrow> url_library \<Rightarrow> db \<Rightarrow> db \<Rightarrow> bool" for C U where
  none: "ledger_steps C U d d"
| more: "ledger_steps C U d d' \<Longrightarrow> ledger_step C U d' d'' \<Longrightarrow> ledger_steps C U d d''"

lemma ledger_steps_one: "ledger_step C U d d' \<Longrightarrow> ledger_steps C U d d'"
  by (rule ledger_steps.more [OF ledger_steps.none])

lemma ledger_steps_trans: "ledger_steps C U d' d'' \<Longrightarrow> ledger_steps C U d d' \<Longrightarrow> ledger_steps C U d d''"
  by (induction rule: ledger_steps.induct) (auto intro: ledger_steps.more)

lemma ledger_steps_reachable: "ledger_steps C U d d' \<Longrightarrow> ledger_reachable C U d \<Longrightarrow> ledger_reachable C U d'"
  by (induction rule: ledger_steps.induct) (auto intro: ledger_reachable.step)

lemma maybePrune_steps: "ledger_steps C U d (fst (maybePrune depth d))"
  by (auto simp: maybePrune_def intro: ledger_steps.none ledger_steps_one ledger_step.prune split: sum.splits)

lemma sync_steps:
  assumes "syncRemoteChainFromAtTime C X env slot depth now view d source t vt = Inr (d', changed)"
  shows "ledger_steps C U d d'"
proof -
  obtain plan where plan: "findBetterBranch C slot view source t vt = Inr plan"
    "(case plan of None \<Rightarrow> Inr (d, False)
      | Some (ancestor, candidates) \<Rightarrow> attempt (stageBlocksFromSource X env source candidates) (\<lambda>staged.
         attempt (replaceFromSourceAtTime C now d ancestor (int (length candidates)) (Some (stagedSource X staged)) vt) (\<lambda>d.
         Inr (fst (maybePrune depth d), True)))) = Inr (d', changed)"
    using assms unfolding syncRemoteChainFromAtTime_def by (auto simp: res_simps simp del: not_None_eq)
  show ?thesis
  proof (cases plan)
    case None
    then show ?thesis using plan(2) by (auto intro: ledger_steps.none)
  next
    case (Some p)
    obtain a cs where p: "p = (a, cs)" by (cases p)
    obtain st d1 where "replaceFromSourceAtTime C now d a (int (length cs)) (Some (stagedSource X st)) vt = Inr d1"
      "d' = fst (maybePrune depth d1)"
      using plan(2) unfolding Some p by (simp add: attempt_eq_Inr) blast
    then show ?thesis
      using ledger_steps_trans [OF maybePrune_steps ledger_steps_one [OF ledger_step.replace]] by blast
  qed
qed

end
