(* ===== verification/Peer_Http.thy ===== *)
theory Peer_Http
  imports Peer_Sync History
begin

text \<open>
  The HTTP side of the protocol (\<open>internal/node/http_protocol.go\<close>): what the node answers to a request,
  what a peer makes of such an answer, and the limits on concurrent requests. Encoding and decoding JSON
  are the library's: a handler takes the decoded request and returns the value it encodes.
\<close>

section \<open>Answers\<close>

text \<open>An answer is the status code of an error, with the error, or the value sent with status 200 or 202.\<close>

type_synonym 'a http = "(nat \<times> go_error) + 'a"

definition maxMempoolSyncValidations :: int where "maxMempoolSyncValidations = 64"
definition maxMempoolResponseBytes :: int where
  "maxMempoolResponseBytes = maxMempoolSyncValidations * maxTransactionMessageBytes + 65536"
definition maxBlocksResponseBytes :: int where
  "maxBlocksResponseBytes = int maxBlockDownloadBatch * maxBlockBodyBytes + 65536"

text \<open>The sizes of the encoded responses.\<close>

record json_sizes =
  HeadersBytes :: "headersResponse \<Rightarrow> int"
  BlocksBytes :: "blocksResponse \<Rightarrow> int"
  TransactionsBytes :: "transactionsResponse \<Rightarrow> int"

definition writeBoundedJSON :: "('a \<Rightarrow> int) \<Rightarrow> 'a \<Rightarrow> int \<Rightarrow> 'a http" where
  "writeBoundedJSON bytes0 v maximum =
     (if bytes0 v > maximum then Inl (413, Errorf ''response exceeds protocol limit'') else Inr v)"

record consensusStatus =
  CsProtocol :: string
  CsSupportedRules :: "u32 list"
  CsNextBlockRule :: u32
  CsActivationHeight :: u64
  CsAnchorHeight :: u64
  CsAnchorHash :: string
  CsAlgorithm :: string
  CsHalfLifeSeconds :: int

definition ASERTAnchorHash :: string where
  "ASERTAnchorHash = ''000000000b6ffc20400cafe308ae13a73cead4c5a7cb232214d714ff2949dead''"

definition handleStatus :: "int \<Rightarrow> db \<Rightarrow> protocolStatus http" where
  "handleStatus listenPort d =
     (case Tip d of Inl e \<Rightarrow> Inl (500, e) | Inr tip \<Rightarrow> Inr (statusFromTip tip listenPort))"

definition handleConsensus :: "db \<Rightarrow> consensusStatus http" where
  "handleConsensus d =
     (case Tip d of Inl e \<Rightarrow> Inl (500, e)
      | Inr tip \<Rightarrow> Inr \<lparr>CsProtocol = NetworkID, CsSupportedRules = [LegacyBlockVersion, UpgradedBlockVersion],
          CsNextBlockRule = BlockVersion (TipHeight tip + 1), CsActivationHeight = ConsensusUpgradeHeight,
          CsAnchorHeight = ASERTAnchorHeight, CsAnchorHash = ASERTAnchorHash, CsAlgorithm = ''integer-asert'',
          CsHalfLifeSeconds = ASERTHalfLifeSeconds\<rparr>)"

definition handleHeaders :: "db \<Rightarrow> headersRequest res \<Rightarrow> headersResponse http" where
  "handleHeaders d request =
     (case request of Inl e \<Rightarrow> Inl (400, e)
      | Inr query \<Rightarrow>
        if HqLimit query \<le> 0 \<or> HqLimit query > maxHeaderBatch
        then Inl (400, Errorf ''header limit is out of range'')
        else case FindLocator d (HqLocator query) of Inl e \<Rightarrow> Inl (422, e)
        | Inr (height, hash) \<Rightarrow>
          (case HeadersFrom d (height + 1) (HqLimit query) of Inl e \<Rightarrow> Inl (500, e)
           | Inr headers \<Rightarrow> Inr \<lparr>HrProtocol = NetworkID, HrCommonHeight = height, HrCommonHash = hash, HrHeaders = headers\<rparr>))"

text \<open>The loop over the hashes; \<open>seen\<close> are the earlier ones.\<close>

fun collectBlocks :: "db \<Rightarrow> string list \<Rightarrow> string list \<Rightarrow> block list http" where
  "collectBlocks d seen [] = Inr []"
| "collectBlocks d seen (hash # hashes) =
     (if hash \<in> set seen then Inl (400, Errorf ''block request contains duplicate hash'')
      else case BlockByHash d hash of
        Inl e \<Rightarrow> Inl (if e = ErrBlockPruned then 410 else 404, e)
      | Inr b \<Rightarrow> (case collectBlocks d (hash # seen) hashes of Inl e \<Rightarrow> Inl e | Inr bs \<Rightarrow> Inr (b # bs)))"

text \<open>\<open>free\<close>: a slot for heavy requests could be taken.\<close>

definition handleBlocks :: "json_sizes \<Rightarrow> bool \<Rightarrow> db \<Rightarrow> string list res \<Rightarrow> blocksResponse http" where
  "handleBlocks J free d request =
     (if \<not> free then Inl (503, Errorf ''node is busy serving block data'')
      else case request of Inl e \<Rightarrow> Inl (400, e)
      | Inr hashes \<Rightarrow>
        if length hashes = 0 \<or> length hashes > maxBlockBatch
        then Inl (400, Errorf ''block request size is out of range'')
        else case collectBlocks d [] hashes of Inl e \<Rightarrow> Inl e
        | Inr blocks \<Rightarrow> writeBoundedJSON (BlocksBytes J) \<lparr>BrProtocol = NetworkID, BrBlocks = blocks\<rparr> maxBlocksResponseBytes)"

text \<open>The query parameters; \<open>None\<close> when absent, otherwise the result of \<open>strconv.Atoi\<close>.\<close>

definition queryInt :: "int res option \<Rightarrow> int \<Rightarrow> int \<Rightarrow> int \<Rightarrow> int http" where
  "queryInt given least most absent =
     (case given of None \<Rightarrow> Inr absent
      | Some (Inl _) \<Rightarrow> Inl (400, Errorf ''query parameter is out of range'')
      | Some (Inr n) \<Rightarrow> if n < least \<or> n > most then Inl (400, Errorf ''query parameter is out of range'') else Inr n)"

definition handleMempool ::
    "json_sizes \<Rightarrow> bool \<Rightarrow> db \<Rightarrow> int res option \<Rightarrow> int res option \<Rightarrow> transactionsResponse http" where
  "handleMempool J free d rawLimit rawOffset =
     (if \<not> free then Inl (503, Errorf ''node is busy serving mempool data'')
      else case queryInt rawLimit 1 maxMempoolSyncValidations maxMempoolSyncValidations of Inl e \<Rightarrow> Inl e
      | Inr limit \<Rightarrow> case queryInt rawOffset 0 (int MaxPendingTransactions) 0 of Inl e \<Rightarrow> Inl e
      | Inr offset \<Rightarrow> case MempoolTransactionsPage d limit offset of Inl e \<Rightarrow> Inl (500, e)
      | Inr transactions \<Rightarrow>
        writeBoundedJSON (TransactionsBytes J) \<lparr>TrProtocol = NetworkID, TrTransactions = transactions\<rparr> maxMempoolResponseBytes)"

section \<open>A node as the source of another\<close>

text \<open>
  \<open>postJSON\<close>: an answer that is not 200 and one longer than the caller's limit are errors.
\<close>

definition postJSON :: "('a \<Rightarrow> int) \<Rightarrow> int \<Rightarrow> 'a http \<Rightarrow> 'a res" where
  "postJSON bytes0 maximum answer =
     (case answer of
        Inl _ \<Rightarrow> Inl (Errorf ''peer returned HTTP error'')
      | Inr v \<Rightarrow> if bytes0 v > maximum then Inl (Errorf ''JSON exceeds size limit'') else Inr v)"

text \<open>\<open>httpRemoteSource\<close>, when the peer is a node with the database \<open>peer n\<close> at call \<open>n\<close>.\<close>

definition httpSource :: "json_sizes \<Rightarrow> (nat \<Rightarrow> bool) \<Rightarrow> (nat \<Rightarrow> db) \<Rightarrow> remote_source" where
  "httpSource J free peer =
     \<lparr>SrcHeaders = (\<lambda>n request. postJSON (HeadersBytes J) maxProtocolBytes (handleHeaders (peer n) (Inr request))),
      SrcBlocks = (\<lambda>n hashes. postJSON (BlocksBytes J) (int (length hashes) * maxBlockBodyBytes + 65536)
        (handleBlocks J (free n) (peer n) (Inr hashes)))\<rparr>"

section \<open>Concurrent requests\<close>

text \<open>
  \<open>limitRequests\<close>: a request in flight is counted for its address and holds one of the slots of its kind.
  The verdict of the token bucket of the address is an input, since its arithmetic is in floating point.
\<close>

record request_limiter =
  LimClosing :: bool
  LimRequests :: "(string \<times> int) list"
  LimWebsockets :: "(string \<times> int) list"
  LimRequestSlots :: int
  LimWebsocketSlots :: int

definition countOf :: "string \<Rightarrow> (string \<times> int) list \<Rightarrow> int" where
  "countOf host counts = (case map_of counts host of None \<Rightarrow> 0 | Some n \<Rightarrow> n)"

definition countUp :: "string \<Rightarrow> (string \<times> int) list \<Rightarrow> (string \<times> int) list" where
  "countUp host counts = AList.update host (countOf host counts + 1) counts"

definition countDown :: "string \<Rightarrow> (string \<times> int) list \<Rightarrow> (string \<times> int) list" where
  "countDown host counts =
     (if countOf host counts - 1 = 0 then AList.delete host counts
      else AList.update host (countOf host counts - 1) counts)"

text \<open>
  The start of a request, under the lock: an error status, or the request is counted for its address. A
  counted request then takes a slot without waiting or is answered 503; when it is over it gives its
  slot back, if it has one, and is no longer counted.
\<close>

definition beginRequest :: "string res \<Rightarrow> bool \<Rightarrow> bool \<Rightarrow> request_limiter \<Rightarrow> nat option \<times> request_limiter" where
  "beginRequest client websocket rateAllows s =
     (case client of
        Inl _ \<Rightarrow> (Some 400, s)
      | Inr host \<Rightarrow>
        if LimClosing s then (Some 503, s)
        else if \<not> rateAllows then (Some 429, s)
        else if websocket then
          if countOf host (LimWebsockets s) \<ge> 4 then (Some 429, s)
          else (None, s\<lparr>LimWebsockets := countUp host (LimWebsockets s)\<rparr>)
        else
          if countOf host (LimRequests s) \<ge> 8 then (Some 429, s)
          else (None, s\<lparr>LimRequests := countUp host (LimRequests s)\<rparr>))"

definition takeSlot :: "bool \<Rightarrow> request_limiter \<Rightarrow> nat option \<times> request_limiter" where
  "takeSlot websocket s =
     (if websocket then
        if LimWebsocketSlots s \<ge> 32 then (Some 503, s) else (None, s\<lparr>LimWebsocketSlots := LimWebsocketSlots s + 1\<rparr>)
      else if LimRequestSlots s \<ge> 32 then (Some 503, s) else (None, s\<lparr>LimRequestSlots := LimRequestSlots s + 1\<rparr>))"

definition releaseSlot :: "bool \<Rightarrow> request_limiter \<Rightarrow> request_limiter" where
  "releaseSlot websocket s =
     (if websocket then s\<lparr>LimWebsocketSlots := LimWebsocketSlots s - 1\<rparr> else s\<lparr>LimRequestSlots := LimRequestSlots s - 1\<rparr>)"

definition endRequest :: "string \<Rightarrow> bool \<Rightarrow> request_limiter \<Rightarrow> request_limiter" where
  "endRequest host websocket s =
     (if websocket then s\<lparr>LimWebsockets := countDown host (LimWebsockets s)\<rparr>
      else s\<lparr>LimRequests := countDown host (LimRequests s)\<rparr>)"

text \<open>
  The limiter with the requests that are counted, in any interleaving: those about to take a slot, those that are
  served, and those that are over, because no slot was free or because they gave theirs back.
\<close>

type_synonym requests = "(string \<times> bool) multiset"

inductive limiter_run :: "request_limiter \<Rightarrow> requests \<Rightarrow> requests \<Rightarrow> requests \<Rightarrow> bool" where
  start: "limiter_run \<lparr>LimClosing = False, LimRequests = [], LimWebsockets = [], LimRequestSlots = 0, LimWebsocketSlots = 0\<rparr> {#} {#} {#}"
| accept: "limiter_run s entering served over \<Longrightarrow> beginRequest (Inr host) websocket rate s = (None, s') \<Longrightarrow>
    limiter_run s' (add_mset (host, websocket) entering) served over"
| reject: "limiter_run s entering served over \<Longrightarrow> beginRequest client websocket rate s = (Some code, s') \<Longrightarrow>
    limiter_run s' entering served over"
| serve: "limiter_run s (add_mset (host, websocket) entering) served over \<Longrightarrow> takeSlot websocket s = (None, s') \<Longrightarrow>
    limiter_run s' entering (add_mset (host, websocket) served) over"
| busy: "limiter_run s (add_mset (host, websocket) entering) served over \<Longrightarrow> takeSlot websocket s = (Some code, s') \<Longrightarrow>
    limiter_run s' entering served (add_mset (host, websocket) over)"
| release: "limiter_run s entering (add_mset (host, websocket) served) over \<Longrightarrow>
    limiter_run (releaseSlot websocket s) entering served (add_mset (host, websocket) over)"
| finish: "limiter_run s entering served (add_mset (host, websocket) over) \<Longrightarrow>
    limiter_run (endRequest host websocket s) entering served over"
| closing: "limiter_run s entering served over \<Longrightarrow> limiter_run (s\<lparr>LimClosing := True\<rparr>) entering served over"

lemma countOf_up: "countOf h (countUp host cs) = (if h = host then countOf host cs + 1 else countOf h cs)"
  by (simp add: countOf_def countUp_def update_conv')

lemma countOf_down: "distinct (map fst cs) \<Longrightarrow>
    countOf h (countDown host cs) = (if h = host then countOf host cs - 1 else countOf h cs)"
  by (auto simp: countDown_def countOf_def update_conv' delete_conv')

lemma counts_distinct: "distinct (map fst cs) \<Longrightarrow> distinct (map fst (countUp h cs)) \<and> distinct (map fst (countDown h cs))"
  by (simp add: countUp_def countDown_def distinct_update distinct_delete)

definition of_kind :: "bool \<Rightarrow> (string \<times> bool) multiset \<Rightarrow> nat" where
  "of_kind websocket flying = size (filter_mset (\<lambda>r. snd r = websocket) flying)"

lemma of_kind_add [simp]: "of_kind w (add_mset (h, w') m) = (if w' = w then Suc (of_kind w m) else of_kind w m)"
  by (simp add: of_kind_def)

lemma limiter_inv:
  assumes "limiter_run s entering served over"
  shows "distinct (map fst (LimRequests s)) \<and> distinct (map fst (LimWebsockets s)) \<and>
     (\<forall>h. countOf h (LimRequests s) = int (count (entering + served + over) (h, False))) \<and>
     (\<forall>h. countOf h (LimWebsockets s) = int (count (entering + served + over) (h, True))) \<and>
     LimRequestSlots s = int (of_kind False served) \<and> LimWebsocketSlots s = int (of_kind True served) \<and>
     LimRequestSlots s \<le> 32 \<and> LimWebsocketSlots s \<le> 32 \<and>
     (\<forall>h. count (entering + served + over) (h, False) \<le> 8 \<and> count (entering + served + over) (h, True) \<le> 4)"
  using assms
proof induction
  case start
  then show ?case by (simp add: countOf_def of_kind_def)
next
  case (accept s entering served over host websocket rate s')
  then show ?case
    using counts_distinct by (auto simp: beginRequest_def countOf_up split: if_splits)
next
  case (reject s entering served over client websocket rate code s')
  then have "s' = s" by (auto simp: beginRequest_def split: sum.splits if_splits)
  then show ?case using reject.IH by simp
next
  case (serve s host websocket entering served over s')
  then show ?case by (auto simp: takeSlot_def split: if_splits)
next
  case (busy s host websocket entering served over code s')
  then have "s' = s" by (auto simp: takeSlot_def split: if_splits)
  then show ?case using busy.IH by simp
next
  case (release s entering host websocket served over)
  then show ?case by (cases websocket) (auto simp: releaseSlot_def)
next
  case (finish s entering served host websocket over)
  have fewer: "count (entering + served + over) r \<le> count (entering + served + add_mset (host, websocket) over) r" for r
    by simp
  have bound: "count (entering + served + over) (h, False) \<le> 8 \<and> count (entering + served + over) (h, True) \<le> 4" for h
    using finish.IH fewer by (meson le_trans)
  have "countOf h (LimRequests (endRequest host websocket s)) = int (count (entering + served + over) (h, False)) \<and>
      countOf h (LimWebsockets (endRequest host websocket s)) = int (count (entering + served + over) (h, True))" for h
    using finish.IH by (cases websocket) (simp_all add: endRequest_def countOf_down)
  moreover have "distinct (map fst (LimRequests (endRequest host websocket s)))" "distinct (map fst (LimWebsockets (endRequest host websocket s)))"
    "LimRequestSlots (endRequest host websocket s) = LimRequestSlots s" "LimWebsocketSlots (endRequest host websocket s) = LimWebsocketSlots s"
    using finish.IH counts_distinct by (simp_all add: endRequest_def)
  ultimately show ?case using finish.IH bound by simp
next
  case (closing s entering served over)
  then show ?case by simp
qed

end
