(* ===== verification/Peer_Socket.thy ===== *)
theory Peer_Socket
  imports Peer_Http
begin

text \<open>
  One connection of the realtime protocol (\<open>peerSocket\<close> of \<open>internal/node/websocket.go\<close>): its bounded send
  queue, the requests that wait for an answer, and the answers to the requests of the peer. The connection
  itself, its deadlines and pings are the library's.
\<close>

section \<open>State\<close>

text \<open>
  The channel of a pending request holds at most \<open>PrCapacity\<close> messages, the send channel at most 128.
  Times are in seconds, the zero time is \<open>None\<close>.
\<close>

record pendingSocketRequest =
  PrExpected :: string
  PrCapacity :: nat
  PrResponses :: "gossipMessage list"

record peerSocket =
  SkBaseURL :: string
  SkOutbound :: bool
  SkRemoteIP :: string
  SkHelloSeen :: bool
  SkExpectedClose :: bool
  SkRemoteStatus :: "protocolStatus option"
  SkReconcile :: bool
  SkReconciling :: bool
  SkReconcileNext :: "int option"
  SkReconcileErrors :: int
  SkReconcileLast :: "go_error option"
  SkMempoolOffset :: int
  SkRequestSeq :: u64
  SkPending :: "(string \<times> pendingSocketRequest) list"
  SkSend :: "bytes list"
  SkQueuedBytes :: int
  SkSendClosed :: bool
  SkDone :: bool

definition newSocket :: "string \<Rightarrow> bool \<Rightarrow> string \<Rightarrow> peerSocket" where
  "newSocket baseURL outbound remoteIP =
     \<lparr>SkBaseURL = baseURL, SkOutbound = outbound, SkRemoteIP = remoteIP, SkHelloSeen = False, SkExpectedClose = False,
      SkRemoteStatus = None, SkReconcile = False, SkReconciling = False, SkReconcileNext = None, SkReconcileErrors = 0,
      SkReconcileLast = None, SkMempoolOffset = 0, SkRequestSeq = 0, SkPending = [], SkSend = [], SkQueuedBytes = 0,
      SkSendClosed = False, SkDone = False\<rparr>"

text \<open>\<open>json.Marshal\<close> at the type of messages and the text of an error.\<close>

record wire =
  MarshalGossip :: "gossipMessage \<Rightarrow> bytes res"
  ErrorText :: "go_error \<Rightarrow> string"

definition sendCapacity :: nat where "sendCapacity = 128"

section \<open>Sending\<close>

definition queue :: "wire \<Rightarrow> gossipMessage \<Rightarrow> peerSocket \<Rightarrow> bool \<times> peerSocket" where
  "queue W message p =
     (case MarshalGossip W message of
        Inl _ \<Rightarrow> (False, p)
      | Inr encoded \<Rightarrow>
        let len = int (length encoded) in
        if len > maxProtocolBytes then (False, p)
        else if SkSendClosed p \<or> SkQueuedBytes p > maxSocketQueuedBytes - len then (False, p)
        else if length (SkSend p) < sendCapacity
        then (True, p\<lparr>SkQueuedBytes := SkQueuedBytes p + len, SkSend := SkSend p @ [encoded]\<rparr>)
        else (False, p))"

definition releaseQueuedBytes :: "int \<Rightarrow> peerSocket \<Rightarrow> peerSocket" where
  "releaseQueuedBytes len p =
     (if len \<le> 0 then p
      else let n = SkQueuedBytes p - len in p\<lparr>SkQueuedBytes := (if n < 0 then 0 else n)\<rparr>)"

text \<open>
  Under the lock the queue is closed; then the loop takes the messages out of the channel one by one. Here the
  two follow each other at once; where other goroutines come in between, in \<open>socket_run\<close> below, the
  closing, each message taken and each release are steps of their own.
\<close>

definition closeSendQueue :: "peerSocket \<Rightarrow> peerSocket" where
  "closeSendQueue p = p\<lparr>SkSendClosed := True\<rparr>"

definition disableSendQueue :: "peerSocket \<Rightarrow> peerSocket" where
  "disableSendQueue p =
     foldl (\<lambda>p data. releaseQueuedBytes (int (length data)) p) ((closeSendQueue p)\<lparr>SkSend := []\<rparr>) (SkSend p)"

text \<open>\<open>closeOnce\<close> has run exactly when \<open>done\<close> is closed.\<close>

definition closeSocket :: "peerSocket \<Rightarrow> peerSocket" where
  "closeSocket p = (if SkDone p then p else (disableSendQueue p)\<lparr>SkDone := True\<rparr>)"

definition stopSocket :: "peerSocket \<Rightarrow> peerSocket" where
  "stopSocket p = closeSocket (p\<lparr>SkExpectedClose := True\<rparr>)"

text \<open>The writer takes a message out of the channel, writes it and then releases its bytes.\<close>

definition takeMessage :: "peerSocket \<Rightarrow> (bytes \<times> peerSocket) option" where
  "takeMessage p = (case SkSend p of [] \<Rightarrow> None | m # ms \<Rightarrow> Some (m, p\<lparr>SkSend := ms\<rparr>))"

section \<open>Requests to the peer\<close>

definition registerRequest :: "string \<Rightarrow> int \<Rightarrow> peerSocket \<Rightarrow> string res \<times> peerSocket" where
  "registerRequest expected capacity p =
     (if capacity \<le> 0 \<or> capacity > int maxSocketBlockBatch
      then (Inl (Errorf ''reconcile response capacity is invalid''), p)
      else
        let seq = SkRequestSeq p + 1; i = FormatUint (unat seq); p = p\<lparr>SkRequestSeq := seq\<rparr> in
        if \<not> SkReconcile p then (Inl (Errorf ''peer did not negotiate reconcile support''), p)
        else if length (SkPending p) \<ge> maxSocketPendingRequests
        then (Inl (Errorf ''too many pending reconcile requests''), p)
        else (Inr i, p\<lparr>SkPending := AList.update i
               \<lparr>PrExpected = expected, PrCapacity = nat capacity, PrResponses = []\<rparr> (SkPending p)\<rparr>))"

text \<open>
  The code compares the pointers of the requests. A request is registered under the identifier it was given,
  and no identifier is given twice in 2 ^ 64 requests, so the request found there is the one to remove.
\<close>

definition unregisterRequest :: "string \<Rightarrow> peerSocket \<Rightarrow> peerSocket" where
  "unregisterRequest i p = p\<lparr>SkPending := AList.delete i (SkPending p)\<rparr>"

definition routeReconcileResponse :: "gossipMessage \<Rightarrow> peerSocket \<Rightarrow> unit res \<times> peerSocket" where
  "routeReconcileResponse message p =
     (if \<not> validReconcileRequestID (GmRequestID message)
      then (Inl (Errorf ''peer reconcile response has an invalid request ID''), p)
      else case map_of (SkPending p) (GmRequestID message) of
        None \<Rightarrow> (Inr (), p)
      | Some request \<Rightarrow>
        if GmType message \<noteq> PrExpected request \<and> GmType message \<noteq> ''reconcile_error''
        then (Inl (Errorf ''peer returned an unexpected reconcile response''), p)
        else if length (PrResponses request) < PrCapacity request
        then (Inr (), p\<lparr>SkPending := AList.update (GmRequestID message)
               (request\<lparr>PrResponses := PrResponses request @ [message]\<rparr>) (SkPending p)\<rparr>)
        else (Inl (Errorf ''peer exceeded the reconcile response count''), p))"

text \<open>
  What the \<open>select\<close> of a waiting request sees: an answer from its channel, the end of the connection, or
  the end of the context with its error.
\<close>

datatype socket_event = Answer gossipMessage | ChannelClosed | ContextEnded go_error

definition requestOne ::
    "wire \<Rightarrow> gossipMessage \<Rightarrow> string \<Rightarrow> socket_event \<Rightarrow> peerSocket \<Rightarrow> gossipMessage res \<times> peerSocket" where
  "requestOne W message expected event p =
     (case registerRequest expected 1 p of
        (Inl e, p) \<Rightarrow> (Inl e, p)
      | (Inr i, p) \<Rightarrow>
        (case queue W (message\<lparr>GmRequestID := i\<rparr>) p of (queued, p) \<Rightarrow>
         (if \<not> queued then Inl (Errorf ''queue reconcile request: peer channel is unavailable'')
          else case event of
            Answer response \<Rightarrow>
              if GmType response = ''reconcile_error'' then Inl (reconcileResponseError response) else Inr response
          | ChannelClosed \<Rightarrow> Inl (Errorf ''peer channel closed during reconcile'')
          | ContextEnded e \<Rightarrow> Inl e, unregisterRequest i p)))"

text \<open>One turn of the loop over the answers: the blocks and the parts seen so far.\<close>

definition receiveBlock :: "nat \<Rightarrow> block list \<times> bool list \<Rightarrow> socket_event \<Rightarrow> (block list \<times> bool list) res" where
  "receiveBlock n st event =
     (case event of
        Answer response \<Rightarrow>
          if GmType response = ''reconcile_error'' then Inl (reconcileResponseError response)
          else (case GmBlock response of
            None \<Rightarrow> Inl (invalidReconcileResponse ''peer returned a malformed reconcile block stream'')
          | Some b \<Rightarrow>
            if GmParts response \<noteq> int n \<or> GmPart response < 0 \<or> GmPart response \<ge> int n \<or> snd st ! nat (GmPart response)
            then Inl (invalidReconcileResponse ''peer returned a malformed reconcile block stream'')
            else Inr ((fst st)[nat (GmPart response) := b], (snd st)[nat (GmPart response) := True]))
      | ChannelClosed \<Rightarrow> Inl (Errorf ''peer channel closed during block reconcile'')
      | ContextEnded e \<Rightarrow> Inl e)"

definition requestBlockBatch ::
    "wire \<Rightarrow> string list \<Rightarrow> (nat \<Rightarrow> socket_event) \<Rightarrow> peerSocket \<Rightarrow> blocksResponse res \<times> peerSocket" where
  "requestBlockBatch W hashes events p =
     (if length hashes = 0 \<or> length hashes > maxSocketBlockBatch
      then (Inl (Errorf ''reconcile block request count is invalid''), p)
      else case registerRequest ''reconcile_block'' (int (length hashes)) p of
        (Inl e, p) \<Rightarrow> (Inl e, p)
      | (Inr i, p) \<Rightarrow>
        (case queue W ((gossip ''reconcile_blocks_request'')\<lparr>GmRequestID := i, GmBlocksRequest := Some hashes\<rparr>) p of (queued, p) \<Rightarrow>
         (if \<not> queued then Inl (Errorf ''queue reconcile block request: peer channel is unavailable'')
          else attempt (foldE (receiveBlock (length hashes))
                 (replicate (length hashes) zero_block, replicate (length hashes) False) (map events [0..<length hashes]))
               (\<lambda>(blocks, _). Inr \<lparr>BrProtocol = NetworkID, BrBlocks = blocks\<rparr>), unregisterRequest i p)))"

text \<open>
  \<open>socketRemoteSource\<close>. \<open>events n\<close> is what the \<open>n\<close>-th request of the connection sees; a request for blocks
  is split into several, each after the other, and the first one that fails ends the loop.
\<close>

definition requestHeaders ::
    "wire \<Rightarrow> headersRequest \<Rightarrow> socket_event \<Rightarrow> peerSocket \<Rightarrow> headersResponse res \<times> peerSocket" where
  "requestHeaders W request event p =
     (case requestOne W ((gossip ''reconcile_headers_request'')\<lparr>GmHeadersRequest := Some request\<rparr>)
             ''reconcile_headers_response'' event p of (r, p) \<Rightarrow>
      (attempt r (\<lambda>response. case GmHeadersResponse response of
         None \<Rightarrow> Inl (invalidReconcileResponse ''peer reconcile headers response is missing'')
       | Some h \<Rightarrow> Inr h), p))"

function requestBlocksLoop ::
    "wire \<Rightarrow> (nat \<Rightarrow> nat \<Rightarrow> socket_event) \<Rightarrow> nat \<Rightarrow> string list \<Rightarrow> block list \<Rightarrow> peerSocket \<Rightarrow> blocksResponse res \<times> peerSocket" where
  "requestBlocksLoop W events n hashes blocks p =
     (if hashes = [] then (Inr \<lparr>BrProtocol = NetworkID, BrBlocks = blocks\<rparr>, p)
      else let batch = take maxSocketBlockBatch hashes in
        case requestBlockBatch W batch (events n) p of
          (Inl e, p) \<Rightarrow> (Inl e, p)
        | (Inr response, p) \<Rightarrow>
          if BrProtocol response \<noteq> NetworkID \<or> length (BrBlocks response) \<noteq> length batch
          then (Inl (invalidReconcileResponse ''peer returned an incomplete reconcile block sub-batch''), p)
          else requestBlocksLoop W events (n + 1) (drop maxSocketBlockBatch hashes) (blocks @ BrBlocks response) p)"
  by pat_completeness auto
termination
  by (relation "measure (\<lambda>(_, _, _, hashes, _, _). length hashes)") (auto simp: maxSocketBlockBatch_def)

declare requestBlocksLoop.simps [simp del]

definition requestBlocks ::
    "wire \<Rightarrow> string list \<Rightarrow> (nat \<Rightarrow> nat \<Rightarrow> socket_event) \<Rightarrow> peerSocket \<Rightarrow> blocksResponse res \<times> peerSocket" where
  "requestBlocks W hashes events p =
     (if length hashes = 0 \<or> length hashes > maxBlockDownloadBatch
      then (Inl (Errorf ''staged reconcile block request count is invalid''), p)
      else requestBlocksLoop W events 0 hashes [] p)"

definition requestMempool ::
    "wire \<Rightarrow> mempoolRequest \<Rightarrow> socket_event \<Rightarrow> peerSocket \<Rightarrow> transactionsResponse res \<times> peerSocket" where
  "requestMempool W request event p =
     (case requestOne W ((gossip ''reconcile_mempool_request'')\<lparr>GmMempoolRequest := Some request\<rparr>)
             ''reconcile_mempool_response'' event p of (r, p) \<Rightarrow>
      (attempt r (\<lambda>response. case GmTransactionsResponse response of
         None \<Rightarrow> Inl (invalidReconcileResponse ''peer reconcile mempool response is missing'')
       | Some t \<Rightarrow> Inr t), p))"

text \<open>
  The answers to the reconcile requests of a peer (\<open>serveReconcileHeaders\<close>, \<open>serveReconcileBlocks\<close> and
  \<open>serveReconcileMempool\<close> of \<open>internal/node/websocket.go\<close>), and what the two ends of a connection make
  of each other: the bounds on what a connection keeps in memory, and the stream of requested blocks.
\<close>

section \<open>Answers\<close>

definition queueReconcileError :: "wire \<Rightarrow> string \<Rightarrow> string \<Rightarrow> go_error option \<Rightarrow> peerSocket \<Rightarrow> bool \<times> peerSocket" where
  "queueReconcileError W i code err p =
     (let message = (case err of None \<Rightarrow> ''reconcile request failed'' | Some e \<Rightarrow> ErrorText W e);
          message = (if length message > maxSocketReconcileErrorBytes then take maxSocketReconcileErrorBytes message else message);
          code = (if reconcile_code code then code else reconcileErrorTemporary)
      in queue W ((gossip ''reconcile_error'')\<lparr>GmRequestID := i, GmReconcileError := message, GmReconcileErrorCode := code\<rparr>) p)"

definition validateReconcileRequest :: "peerSocket \<Rightarrow> string \<Rightarrow> unit res" where
  "validateReconcileRequest p i =
     (if \<not> SkReconcile p then Inl (Errorf ''peer sent a reconcile request before negotiation'')
      else if \<not> validReconcileRequestID i then Inl (Errorf ''peer reconcile request has an invalid request ID'')
      else Inr ())"

text \<open>Whether the connection is kept, and the error otherwise.\<close>

type_synonym served = "bool \<times> go_error option"

definition refused :: "bool \<times> peerSocket \<Rightarrow> served \<times> peerSocket" where
  "refused r = ((fst r, None), snd r)"

definition serveReconcileHeaders :: "wire \<Rightarrow> db \<Rightarrow> gossipMessage \<Rightarrow> peerSocket \<Rightarrow> served \<times> peerSocket" where
  "serveReconcileHeaders W d message p =
     (case validateReconcileRequest p (GmRequestID message) of
        Inl e \<Rightarrow> ((False, Some e), p)
      | Inr _ \<Rightarrow> (case GmHeadersRequest message of
        None \<Rightarrow> ((False, Some (Errorf ''peer reconcile header request is invalid'')), p)
      | Some request \<Rightarrow>
        if HqLimit request \<le> 0 \<or> HqLimit request > maxHeaderBatch
        then ((False, Some (Errorf ''peer reconcile header request is invalid'')), p)
        else case FindLocator d (HqLocator request) of
          Inl e \<Rightarrow> refused (queueReconcileError W (GmRequestID message) reconcileErrorInvalidRequest (Some e) p)
        | Inr (height, hash) \<Rightarrow> (case HeadersFrom d (height + 1) (HqLimit request) of
          Inl e \<Rightarrow> refused (queueReconcileError W (GmRequestID message) reconcileErrorTemporary (Some e) p)
        | Inr headers \<Rightarrow>
          (case queue W ((gossip ''reconcile_headers_response'')\<lparr>GmRequestID := GmRequestID message,
                GmHeadersResponse := Some \<lparr>HrProtocol = NetworkID, HrCommonHeight = height, HrCommonHash = hash, HrHeaders = headers\<rparr>\<rparr>) p of
             (queued, p) \<Rightarrow>
               if \<not> queued then ((False, Some (Errorf ''reconcile header response exceeds the bounded peer queue'')), p)
               else ((True, None), p)))))"

text \<open>The loop over the requested hashes; \<open>index\<close> is the position of the first of them.\<close>

definition blockPart :: "string \<Rightarrow> nat \<Rightarrow> nat \<Rightarrow> block \<Rightarrow> gossipMessage" where
  "blockPart i n index b =
     (gossip ''reconcile_block'')\<lparr>GmRequestID := i, GmPart := int index, GmParts := int n, GmBlock := Some b\<rparr>"

fun serveBlocksLoop :: "wire \<Rightarrow> db \<Rightarrow> string \<Rightarrow> nat \<Rightarrow> nat \<Rightarrow> string list \<Rightarrow> peerSocket \<Rightarrow> served \<times> peerSocket" where
  "serveBlocksLoop W d i n index [] p = ((True, None), p)"
| "serveBlocksLoop W d i n index (hash # hashes) p =
     (case BlockByHash d hash of
        Inl e \<Rightarrow>
          let code = (if errorIs e ErrBlockPruned then reconcileErrorPruned
                      else if errorIs e ErrBlockNotFound then reconcileErrorNotFound else reconcileErrorTemporary)
          in refused (queueReconcileError W i code (Some e) p)
      | Inr b \<Rightarrow>
        (case queue W (blockPart i n index b) p of (queued, p) \<Rightarrow>
           if \<not> queued then ((False, Some (Errorf ''reconcile block response exceeds the bounded peer queue'')), p)
           else serveBlocksLoop W d i n (Suc index) hashes p))"

definition serveReconcileBlocks :: "wire \<Rightarrow> bool \<Rightarrow> db \<Rightarrow> gossipMessage \<Rightarrow> peerSocket \<Rightarrow> served \<times> peerSocket" where
  "serveReconcileBlocks W free d message p =
     (case validateReconcileRequest p (GmRequestID message) of
        Inl e \<Rightarrow> ((False, Some e), p)
      | Inr _ \<Rightarrow> (case GmBlocksRequest message of
        None \<Rightarrow> ((False, Some (Errorf ''peer reconcile block request is invalid'')), p)
      | Some hashes \<Rightarrow>
        if length hashes = 0 \<or> length hashes > maxSocketBlockBatch
        then ((False, Some (Errorf ''peer reconcile block request is invalid'')), p)
        else if \<not> distinct hashes
        then ((False, Some (Errorf ''peer reconcile block request contains duplicate hashes'')), p)
        else if \<not> free
        then refused (queueReconcileError W (GmRequestID message) reconcileErrorBusy
               (Some (Errorf ''node is busy serving block data'')) p)
        else serveBlocksLoop W d (GmRequestID message) (length hashes) 0 hashes p))"

definition serveReconcileMempool :: "wire \<Rightarrow> bool \<Rightarrow> db \<Rightarrow> gossipMessage \<Rightarrow> peerSocket \<Rightarrow> served \<times> peerSocket" where
  "serveReconcileMempool W free d message p =
     (case validateReconcileRequest p (GmRequestID message) of
        Inl e \<Rightarrow> ((False, Some e), p)
      | Inr _ \<Rightarrow> (case GmMempoolRequest message of
        None \<Rightarrow> ((False, Some (Errorf ''peer reconcile mempool request is invalid'')), p)
      | Some request \<Rightarrow>
        if MqLimit request \<le> 0 \<or> MqLimit request > int maxSocketMempoolBatch \<or>
           MqOffset request < 0 \<or> MqOffset request > int MaxPendingTransactions
        then ((False, Some (Errorf ''peer reconcile mempool request is invalid'')), p)
        else if \<not> free
        then refused (queueReconcileError W (GmRequestID message) reconcileErrorBusy
               (Some (Errorf ''node is busy serving mempool data'')) p)
        else case MempoolTransactionsPage d (MqLimit request) (MqOffset request) of
          Inl e \<Rightarrow> refused (queueReconcileError W (GmRequestID message) reconcileErrorTemporary (Some e) p)
        | Inr transactions \<Rightarrow>
          (case queue W ((gossip ''reconcile_mempool_response'')\<lparr>GmRequestID := GmRequestID message,
                GmTransactionsResponse := Some \<lparr>TrProtocol = NetworkID, TrTransactions = transactions\<rparr>\<rparr>) p of
             (queued, p) \<Rightarrow>
               if \<not> queued then ((False, Some (Errorf ''reconcile mempool response exceeds the bounded peer queue'')), p)
               else ((True, None), p))))"

section \<open>What a connection keeps\<close>

text \<open>
  The send queue with the messages the writer has taken and not released yet: the count of queued bytes is
  exact, so the correction of \<open>releaseQueuedBytes\<close> never applies, and the bounds hold.
\<close>

definition bytes_of :: "bytes multiset \<Rightarrow> int" where
  "bytes_of ms = (\<Sum>m \<in># ms. int (length m))"

definition send_bounded :: "peerSocket \<Rightarrow> bytes multiset \<Rightarrow> bool" where
  "send_bounded p flying \<longleftrightarrow> SkQueuedBytes p = bytes_of (mset (SkSend p) + flying) \<and>
     SkQueuedBytes p \<le> maxSocketQueuedBytes \<and> length (SkSend p) \<le> sendCapacity"

definition pending_bounded :: "peerSocket \<Rightarrow> bool" where
  "pending_bounded p \<longleftrightarrow> length (SkPending p) \<le> maxSocketPendingRequests \<and> distinct (map fst (SkPending p)) \<and>
     (\<forall>r \<in> set (SkPending p). length (PrResponses (snd r)) \<le> PrCapacity (snd r) \<and> PrCapacity (snd r) \<le> maxSocketBlockBatch)"

text \<open>
  The operations of one connection, in any order; a goroutine that waits takes an answer out of its channel. A
  queue that is closed while others go on is \<open>closing\<close>, then \<open>takes\<close> and \<open>release\<close> for each message of the
  loop, then \<open>closed\<close>.
\<close>

inductive socket_run :: "wire \<Rightarrow> peerSocket \<Rightarrow> bytes multiset \<Rightarrow> bool" for W where
  new: "socket_run W (newSocket baseURL outbound ip) {#}"
| send: "socket_run W p flying \<Longrightarrow> queue W m p = (b, p') \<Longrightarrow> socket_run W p' flying"
| takes: "socket_run W p flying \<Longrightarrow> takeMessage p = Some (data, p') \<Longrightarrow> socket_run W p' (add_mset data flying)"
| release: "socket_run W p flying \<Longrightarrow> data \<in># flying \<Longrightarrow>
    socket_run W (releaseQueuedBytes (int (length data)) p) (flying - {#data#})"
| close: "socket_run W p flying \<Longrightarrow> socket_run W (closeSocket p) flying"
| stop: "socket_run W p flying \<Longrightarrow> socket_run W (stopSocket p) flying"
| disable: "socket_run W p flying \<Longrightarrow> socket_run W (disableSendQueue p) flying"
| closing: "socket_run W p flying \<Longrightarrow> socket_run W (closeSendQueue p) flying"
| closed: "socket_run W p flying \<Longrightarrow> socket_run W (p\<lparr>SkDone := True\<rparr>) flying"
| ask: "socket_run W p flying \<Longrightarrow> registerRequest expected capacity p = (r, p') \<Longrightarrow> socket_run W p' flying"
| finish: "socket_run W p flying \<Longrightarrow> socket_run W (unregisterRequest i p) flying"
| route: "socket_run W p flying \<Longrightarrow> routeReconcileResponse m p = (r, p') \<Longrightarrow> socket_run W p' flying"
| wait: "socket_run W p flying \<Longrightarrow> map_of (SkPending p) i = Some r \<Longrightarrow> PrResponses r = m # ms \<Longrightarrow>
    socket_run W (p\<lparr>SkPending := AList.update i (r\<lparr>PrResponses := ms\<rparr>) (SkPending p)\<rparr>) flying"
| negotiate: "socket_run W p flying \<Longrightarrow> socket_run W (p\<lparr>SkReconcile := True, SkHelloSeen := True\<rparr>) flying"

lemma bytes_of_simps [simp]:
  "bytes_of {#} = 0" "bytes_of (add_mset m ms) = int (length m) + bytes_of ms" "bytes_of (ms + ms') = bytes_of ms + bytes_of ms'"
  by (simp_all add: bytes_of_def)

lemma bytes_of_nonneg: "0 \<le> bytes_of ms"
  by (induction ms) simp_all

lemma queue_bounded:
  assumes "queue W m p = (b, p')" "send_bounded p flying" "pending_bounded p"
  shows "send_bounded p' flying" "pending_bounded p'"
  using assms by (auto simp: queue_def send_bounded_def pending_bounded_def Let_def split: sum.splits if_splits)

lemma release_bounded:
  assumes "send_bounded p flying" "data \<in># flying"
  shows "send_bounded (releaseQueuedBytes (int (length data)) p) (flying - {#data#})"
proof -
  obtain rest where f: "flying = add_mset data rest" using assms(2) by (metis insert_DiffM)
  have "0 \<le> bytes_of (mset (SkSend p) + rest)" by (rule bytes_of_nonneg)
  then show ?thesis using assms(1) by (auto simp: f send_bounded_def releaseQueuedBytes_def Let_def)
qed

lemma release_same [simp]:
  "SkSend (releaseQueuedBytes n p) = SkSend p" "SkPending (releaseQueuedBytes n p) = SkPending p"
  "SkSendClosed (releaseQueuedBytes n p) = SkSendClosed p"
  by (simp_all add: releaseQueuedBytes_def Let_def)

lemma drain_bounded:
  "send_bounded p (mset xs + flying) \<Longrightarrow> send_bounded (foldl (\<lambda>p data. releaseQueuedBytes (int (length data)) p) p xs) flying"
proof (induction xs arbitrary: p)
  case (Cons x xs)
  have "send_bounded (releaseQueuedBytes (int (length x)) p) (mset xs + flying)"
    using release_bounded [OF Cons.prems, of x] by simp
  then show ?case using Cons.IH by simp
qed simp

lemma drain_pending: "SkPending (foldl (\<lambda>p data. releaseQueuedBytes (int (length data)) p) p xs) = SkPending p"
  by (induction xs arbitrary: p) simp_all

lemma disable_bounded:
  assumes "send_bounded p flying" "pending_bounded p"
  shows "send_bounded (disableSendQueue p) flying" "pending_bounded (disableSendQueue p)"
proof -
  have "send_bounded ((closeSendQueue p)\<lparr>SkSend := []\<rparr>) (mset (SkSend p) + flying)"
    using assms(1) by (simp add: send_bounded_def closeSendQueue_def)
  then show "send_bounded (disableSendQueue p) flying" unfolding disableSendQueue_def by (rule drain_bounded)
  show "pending_bounded (disableSendQueue p)" using assms(2) by (simp add: disableSendQueue_def closeSendQueue_def pending_bounded_def drain_pending)
qed

lemma close_bounded:
  assumes "send_bounded p flying" "pending_bounded p"
  shows "send_bounded (closeSocket p) flying" "pending_bounded (closeSocket p)"
  using disable_bounded [OF assms] assms by (auto simp: closeSocket_def send_bounded_def pending_bounded_def)

lemma update_set: "x \<in> set (AList.update i r xs) \<Longrightarrow> x = (i, r) \<or> x \<in> set xs"
  by (induction xs) (auto split: if_splits)

lemma delete_set: "x \<in> set (AList.delete i xs) \<Longrightarrow> x \<in> set xs"
  by (induction xs) (auto split: if_splits)

lemma update_length: "length (AList.update i r xs) \<le> Suc (length xs)"
  by (induction xs) auto

lemma pending_update:
  assumes "pending_bounded p" "map_of (SkPending p) i = Some r" "length (PrResponses r') \<le> PrCapacity r'" "PrCapacity r' = PrCapacity r"
  shows "pending_bounded (p\<lparr>SkPending := AList.update i r' (SkPending p)\<rparr>)"
proof -
  have i: "i \<in> fst ` set (SkPending p)" "r \<in> snd ` set (SkPending p)" using assms(2) by (force dest: map_of_SomeD)+
  have "map fst (AList.update i r' (SkPending p)) = map fst (SkPending p)" using i(1) by (simp add: update_keys)
  then have "length (AList.update i r' (SkPending p)) = length (SkPending p)" by (metis length_map)
  moreover have "distinct (map fst (AList.update i r' (SkPending p)))"
    using assms(1) by (simp only: pending_bounded_def distinct_update)
  ultimately show ?thesis using assms i(2) by (fastforce simp: pending_bounded_def dest: update_set)
qed

lemma pending_remove: "pending_bounded p \<Longrightarrow> pending_bounded (unregisterRequest i p)"
  using length_delete_le [of i "SkPending p"]
  by (auto simp: pending_bounded_def unregisterRequest_def distinct_delete dest!: delete_set)

lemma register_bounded:
  assumes "registerRequest expected capacity p = (r, p')" "send_bounded p flying" "pending_bounded p"
  shows "send_bounded p' flying" "pending_bounded p'"
proof -
  show "send_bounded p' flying"
    using assms(1,2) by (auto simp: registerRequest_def send_bounded_def Let_def split: if_splits)
  show "pending_bounded p'"
  proof (cases r)
    case (Inr i)
    let ?r = "\<lparr>PrExpected = expected, PrCapacity = nat capacity, PrResponses = []\<rparr>"
    have c: "\<not> maxSocketPendingRequests \<le> length (SkPending p)" "capacity \<le> int maxSocketBlockBatch"
      "p' = p\<lparr>SkRequestSeq := SkRequestSeq p + 1, SkPending := AList.update i ?r (SkPending p)\<rparr>"
      using assms(1) Inr by (auto simp: registerRequest_def Let_def split: if_splits)
    have "length (AList.update i ?r (SkPending p)) \<le> maxSocketPendingRequests" using update_length [of i ?r "SkPending p"] c(1) by linarith
    then show ?thesis using assms(3) c(2) by (auto simp: c(3) pending_bounded_def distinct_update dest!: update_set)
  qed (use assms in \<open>auto simp: registerRequest_def pending_bounded_def Let_def split: if_splits\<close>)
qed

lemma route_bounded:
  assumes "routeReconcileResponse m p = (r, p')" "send_bounded p flying" "pending_bounded p"
  shows "send_bounded p' flying" "pending_bounded p'"
proof -
  show "send_bounded p' flying"
    using assms(1,2) by (auto simp: routeReconcileResponse_def send_bounded_def split: option.splits if_splits)
  show "pending_bounded p'"
    using assms(1,3) by (auto simp: routeReconcileResponse_def split: option.splits if_splits intro!: pending_update)
qed

lemma socket_run_bounded:
  "socket_run W p flying \<Longrightarrow> send_bounded p flying \<and> pending_bounded p"
proof (induction rule: socket_run.induct)
  case (new baseURL outbound ip)
  then show ?case by (simp add: newSocket_def send_bounded_def pending_bounded_def maxSocketQueuedBytes_def maxProtocolBytes_def
    maxBlockBodyBytes_def MaxBlockBytes_def)
next
  case (takes p flying data p')
  then show ?case by (auto simp: takeMessage_def send_bounded_def pending_bounded_def split: list.splits)
next
  case (release p flying data)
  then show ?case using release_bounded by (simp add: pending_bounded_def)
next
  case (stop p flying)
  then have "send_bounded (p\<lparr>SkExpectedClose := True\<rparr>) flying" "pending_bounded (p\<lparr>SkExpectedClose := True\<rparr>)"
    by (simp_all add: send_bounded_def pending_bounded_def)
  then show ?case using close_bounded unfolding stopSocket_def by blast
next
  case (wait p flying i r m ms)
  have "length (PrResponses r) \<le> PrCapacity r"
    using wait by (auto simp: pending_bounded_def dest!: map_of_SomeD)
  then have "pending_bounded (p\<lparr>SkPending := AList.update i (r\<lparr>PrResponses := ms\<rparr>) (SkPending p)\<rparr>)"
    using wait by (intro pending_update) auto
  then show ?case using wait by (simp add: send_bounded_def)
next
  case (negotiate p flying)
  then show ?case by (simp add: send_bounded_def pending_bounded_def)
next
  case (closing p flying)
  then show ?case by (simp add: closeSendQueue_def send_bounded_def pending_bounded_def)
next
  case (closed p flying)
  then show ?case by (simp add: send_bounded_def pending_bounded_def)
next
  case (finish p flying i)
  then show ?case using pending_remove by (simp add: send_bounded_def unregisterRequest_def)
next
  case (send p flying m b p')
  then show ?case using queue_bounded [OF send.hyps(2), of flying] by blast
next
  case (close p flying)
  then show ?case using close_bounded by blast
next
  case (disable p flying)
  then show ?case using disable_bounded by blast
next
  case (ask p flying expected capacity r p')
  then show ?case using register_bounded [OF ask.hyps(2), of flying] by blast
next
  case (route p flying m r p')
  then show ?case using route_bounded [OF route.hyps(2), of flying] by blast
qed

end
