(* ===== verification/Peer_Serve.thy ===== *)
theory Peer_Serve
  imports Peer_Http Ledger_View
begin

text \<open>
  What a node answers about its chain: the locator it sends, the ancestor it finds for the locator of
  another node, the headers above it and the bodies, each expressed by the blocks of the chain its
  database represents.
\<close>

section \<open>The locator\<close>

text \<open>
  The loop gathers at most 64 hashes and reaches the genesis block, for every chain shorter than
  \<open>2 ^ 54\<close> blocks: after ten steps of one the step doubles.
\<close>

definition locator_step :: "nat \<Rightarrow> nat" where
  "locator_step l = 2 ^ (l - 10)"

lemma locator_step_small: "unat (h :: u64) + 2 ^ Suc (l - 10) \<le> 2 ^ 54 \<Longrightarrow> l - 10 < 54"
proof -
  assume "unat h + 2 ^ Suc (l - 10) \<le> 2 ^ 54"
  then have "(2 :: nat) ^ Suc (l - 10) \<le> 2 ^ 54" by linarith
  then have "Suc (l - 10) \<le> 54" by (subst (asm) power_increasing_iff) simp_all
  then show ?thesis by simp
qed

lemma locator_next:
  fixes h step :: u64
  assumes inv: "unat h + 2 ^ Suc (l - 10) \<le> 2 ^ 54" and step: "unat step = locator_step l" and pos: "h \<noteq> 0"
  defines "step' \<equiv> if Suc l > 10 then step * 2 else step"
  shows "unat step' = locator_step (Suc l)"
    and "unat ((if step' > h then 0 else h - step') :: u64) + 2 ^ Suc (Suc l - 10) \<le> 2 ^ 54"
    and "unat ((if step' > h then 0 else h - step') :: u64) < unat h"
proof -
  let ?x = "(2 :: nat) ^ Suc (l - 10)"
  have h: "0 < unat h" using pos by (simp add: unat_gt_0)
  have small: "l - 10 < 54" by (rule locator_step_small [OF inv])
  then have le: "(2 :: nat) ^ (l - 10) \<le> 2 ^ 53" by (intro power_increasing) simp_all
  have w: "unat (2 :: u64) = 2" by simp
  have "unat step * unat (2 :: u64) < 2 ^ 64" using le unfolding step locator_step_def w by simp
  then have "unat (step * 2) = unat step * 2" using unat_mult_lem [of step 2] unfolding w by simp
  then show s: "unat step' = locator_step (Suc l)"
  proof (cases "10 \<le> l")
    case True
    then obtain m where "l = 10 + m" by (auto simp: le_iff_add)
    then show ?thesis using step \<open>unat (step * 2) = unat step * 2\<close> by (simp add: step'_def locator_step_def)
  next
    case False
    then show ?thesis using step by (simp add: step'_def locator_step_def)
  qed
  have n: "unat ((if step' > h then 0 else h - step') :: u64) = unat h - unat step'"
    by (auto simp: word_less_nat_alt unat_sub not_less word_le_nat_alt)
  show "unat ((if step' > h then 0 else h - step') :: u64) < unat h"
    unfolding n s locator_step_def using h by simp
  show "unat ((if step' > h then 0 else h - step') :: u64) + 2 ^ Suc (Suc l - 10) \<le> 2 ^ 54"
  proof (cases "10 \<le> l")
    case True
    then have e: "Suc l - 10 = Suc (l - 10)" by simp
    have "?x < 2 ^ 54" using inv h by linarith
    then have "Suc (l - 10) < 54" by (subst (asm) power_strict_increasing_iff) simp_all
    then have "(2 :: nat) ^ Suc (Suc (l - 10)) \<le> 2 ^ 54" by (intro power_increasing) simp_all
    then show ?thesis unfolding n s locator_step_def e using inv by simp
  next
    case False
    then show ?thesis unfolding n s locator_step_def using inv h by simp
  qed
qed

lemma locatorLoop_ok:
  assumes rep: "represents C now d blocks sts us p" and "unat h < length blocks"
    and "unat h + 2 ^ Suc (length loc - 10) \<le> 2 ^ 54" and "unat step = locator_step (length loc)"
  shows "\<exists>more. locatorLoop d loc h step = Inr (loc @ more) \<and> more \<noteq> [] \<and> last more = Hash (blocks ! 0) \<and>
     length (loc @ more) \<le> 64 \<and> set more \<subseteq> Hash ` set blocks"
  using assms(2-)
proof (induction "unat h" arbitrary: loc h step rule: less_induct)
  case less
  let ?hash = "Hash (blocks ! unat h)" and ?l = "length loc"
  have r: "HashAt d h = Inr ?hash" using read_hash [OF rep, of h] less.prems(1) by simp
  have small: "?l - 10 < 54" by (rule locator_step_small [OF less.prems(2)])
  have mem: "?hash \<in> Hash ` set blocks" using less.prems(1) by simp
  show ?case
  proof (cases "h = 0 \<or> length (loc @ [?hash]) \<ge> 64")
    case True
    have "h = 0"
    proof (rule ccontr)
      assume "h \<noteq> 0"
      then have "0 < unat h" "53 \<le> ?l - 10" using True by (auto simp: unat_gt_0)
      moreover from this(2) have "(2 :: nat) ^ Suc 53 \<le> 2 ^ Suc (?l - 10)" by (intro power_increasing) simp_all
      ultimately show False using less.prems(2) by simp
    qed
    moreover have "locatorLoop d loc h step = Inr (loc @ [?hash])"
      using True by (subst locatorLoop.simps) (simp add: r)
    ultimately show ?thesis using small mem by (intro exI [of _ "[?hash]"]) simp
  next
    case False
    let ?step = "if length (loc @ [?hash]) > 10 then step * 2 else step"
    let ?h = "(if ?step > h then 0 else h - ?step) :: u64"
    have h: "h \<noteq> 0" and eq: "length (loc @ [?hash]) = Suc ?l" using False by simp_all
    note nx = locator_next [OF less.prems(2,3) h, folded eq]
    have "unat ?h < length blocks" using nx(3) less.prems(1) by simp
    from less.hyps [OF nx(3) this nx(2,1)] obtain more where m: "locatorLoop d (loc @ [?hash]) ?h ?step = Inr ((loc @ [?hash]) @ more)"
      "more \<noteq> []" "last more = Hash (blocks ! 0)" "length ((loc @ [?hash]) @ more) \<le> 64" "set more \<subseteq> Hash ` set blocks"
      by blast
    have "locatorLoop d loc h step = Inr (loc @ ?hash # more)"
      by (simp only: locatorLoop.simps [of d loc h step] r attempt_Inr Let_def False if_False m(1)) simp
    then show ?thesis using m mem by (intro exI [of _ "?hash # more"]) simp
  qed
qed

text \<open>The locator of a node: between 1 and 64 hashes of its chain, the last one that of the genesis block.\<close>

lemma BlockLocator_ok:
  assumes rep: "represents C now d blocks sts us p" and short: "length blocks \<le> 2 ^ 53"
  shows "\<exists>loc. BlockLocator C d = Inr loc \<and> 1 \<le> length loc \<and> length loc \<le> 64 \<and>
     last loc = Hash (GenesisBlock C) \<and> set loc \<subseteq> Hash ` set blocks"
proof -
  note s = represents_start(5,6) [OF rep]
  let ?t = "word_of_nat (length blocks - 1) :: u64"
  have t: "unat ?t = length blocks - 1" using s(1) by (simp add: unat_word_of_nat_64)
  have "unat ?t < length blocks" using t s(2) by (cases blocks) simp_all
  moreover have "unat ?t + 2 ^ Suc (length ([] :: string list) - 10) \<le> 2 ^ 54" using t short by simp
  moreover have "unat (1 :: u64) = locator_step (length ([] :: string list))" by (simp add: locator_step_def)
  ultimately have "\<exists>more. locatorLoop d [] ?t 1 = Inr ([] @ more) \<and> more \<noteq> [] \<and> last more = Hash (blocks ! 0) \<and>
     length ([] @ more) \<le> 64 \<and> set more \<subseteq> Hash ` set blocks"
    by (rule locatorLoop_ok [OF rep])
  then obtain loc where l: "locatorLoop d [] ?t 1 = Inr loc" "loc \<noteq> []" "last loc = Hash (blocks ! 0)"
    "length loc \<le> 64" "set loc \<subseteq> Hash ` set blocks" by (metis append_Nil)
  have g: "blocks ! 0 = GenesisBlock C" using rep by (simp add: represents_def replayed_def)
  have "BlockLocator C d = Inr loc"
    using l(1,3) unfolding BlockLocator_def Tip_def represents_tip [OF rep] by (simp add: g)
  moreover have "1 \<le> length loc" using l(2) by (cases loc) simp_all
  ultimately show ?thesis using l(3-5) g by (intro exI [of _ loc]) metis
qed

section \<open>Reading by hash\<close>

lemma find_hash:
  assumes rep: "represents C now d blocks sts us p" and inj: "inj_on Hash (set blocks)" and i: "i < length blocks"
  shows "find (\<lambda>r. BHash r = Hash (blocks ! i)) (dbBlocks d) = Some (stored_block p blocks i)"
proof -
  have db: "dbBlocks d = map (stored_block p blocks) [0..<length blocks]" and ho: "heights_ok blocks"
    using rep by (simp_all add: represents_def replayed_def)
  have "Hash (blocks ! j) \<noteq> Hash (blocks ! i)" if "j < i" for j
  proof
    assume "Hash (blocks ! j) = Hash (blocks ! i)"
    then have "blocks ! j = blocks ! i" using inj that i by (auto dest: inj_onD)
    then have "word_of_nat j = (word_of_nat i :: u64)" using ho that i by (metis heights_ok_def less_trans)
    then have "j = i"
      using that i ho unat_word_of_nat_64 [of j] unat_word_of_nat_64 [of i] by (simp add: heights_ok_def)
    then show False using that by simp
  qed
  then show ?thesis
    unfolding find_Some_iff db using i by (intro exI [of _ i]) (simp add: stored_block_def block_row_of_def)
qed

lemma find_no_hash:
  assumes rep: "represents C now d blocks sts us p" and "x \<notin> Hash ` set blocks"
  shows "find (\<lambda>r. BHash r = x) (dbBlocks d) = None"
proof -
  have "dbBlocks d = map (stored_block p blocks) [0..<length blocks]" using rep by (simp add: represents_def)
  then show ?thesis using assms(2) by (auto simp: find_None_iff stored_block_def block_row_of_def)
qed

lemma read_body:
  assumes rep: "represents C now d blocks sts us p" and "inj_on Hash (set blocks)" "i < length blocks"
  shows "BlockByHash d (Hash (blocks ! i)) = (if 1 \<le> i \<and> i \<le> p then Inl ErrBlockPruned else Inr (blocks ! i))"
  using find_hash [OF assms] by (simp add: BlockByHash_def storedBody_def stored_block_def)

text \<open>The ancestor found for a locator: the first of its hashes that is on the chain.\<close>

lemma findLocator_ok:
  assumes rep: "represents C now d blocks sts us p" and inj: "inj_on Hash (set blocks)"
    and "find (\<lambda>x. x \<in> Hash ` set blocks) loc = Some x"
  shows "\<exists>i < length blocks. findLocatorHash d loc = Inr (word_of_nat i, x) \<and> Hash (blocks ! i) = x"
  using assms(3)
proof (induction loc)
  case (Cons y loc)
  show ?case
  proof (cases "y \<in> Hash ` set blocks")
    case True
    then have y: "y = x" using Cons.prems by simp
    obtain i where i: "i < length blocks" "y = Hash (blocks ! i)" using True by (auto simp: in_set_conv_nth)
    have "BHeight (stored_block p blocks i) = int64_of (word_of_nat i)"
      using rep i(1) by (simp add: stored_block_def block_row_of_def represents_def replayed_def heights_ok_def)
    then show ?thesis using find_hash [OF rep inj i(1)] i y by (intro exI [of _ i]) simp
  next
    case False
    then show ?thesis using find_no_hash [OF rep False] Cons by auto
  qed
qed simp

section \<open>Runs of headers\<close>

lemma represents_sorted: "represents C now d blocks sts us p \<Longrightarrow> sorted (map BHeight (dbBlocks d))"
  using chain_rows_sorted represents_rows(1) by blast

lemma headersFrom_ok:
  assumes rep: "represents C now d blocks sts us p" and k: "k \<le> length blocks" "k \<le> 9223372036854775807"
    and limit: "1 \<le> limit" "limit \<le> 2000"
  shows "HeadersFrom d (word_of_nat k) limit = Inr (map header_of (take (nat limit) (drop k blocks)))"
proof -
  note rows = represents_rows(1) [OF rep]
  have ho: "heights_ok blocks" using rows by (simp add: chain_rows_def)
  have w: "int64_of (word_of_nat k) = int k" "uint (word_of_nat k :: u64) = int k"
    using k(2) by (simp_all add: int64_of_nat uint_of_nat_small)
  have len: "length (dbBlocks d) = length blocks" by (rule chain_rows_length [OF rows])
  have "filter (\<lambda>r. BHeight r \<ge> int64_of (word_of_nat k)) (dbBlocks d) =
      filter (\<lambda>r. int k \<le> BHeight r \<and> BHeight r \<le> int (length blocks) - 1) (dbBlocks d)"
    unfolding w
  proof (rule filter_cong [OF HOL.refl])
    fix r assume "r \<in> set (dbBlocks d)"
    then obtain i where "i < length blocks" "r = dbBlocks d ! i" using len by (auto simp: in_set_conv_nth)
    then have "BHeight r \<le> int (length blocks) - 1" using chain_rows_height [OF rows] by simp
    then show "(int k \<le> BHeight r) = (int k \<le> BHeight r \<and> BHeight r \<le> int (length blocks) - 1)" by simp
  qed
  then have f: "filter (\<lambda>r. BHeight r \<ge> int64_of (word_of_nat k)) (dbBlocks d) = drop k (dbBlocks d)"
    using chain_rows_range [OF rows k(1)] by simp
  have sorted: "sorted (map BHeight (drop k (dbBlocks d)))"
    using represents_sorted [OF rep] by (simp add: drop_map [symmetric] sorted_wrt_drop)
  have "mapE scanHeader (take (nat limit) (drop k (dbBlocks d))) = Inr (map header_of (take (nat limit) (drop k blocks)))"
    unfolding mapE_eq_Inr list_all2_map2
  proof (rule list_all2_mono [where P = "\<lambda>r b. row_stores r b \<and> uint (Height b) \<le> MaxInt64"])
    show "list_all2 (\<lambda>r b. row_stores r b \<and> uint (Height b) \<le> MaxInt64)
        (take (nat limit) (drop k (dbBlocks d))) (take (nat limit) (drop k blocks))"
      using rows heights_ok_range [OF ho] len
      by (intro list_all2_takeI list_all2_dropI) (auto simp: chain_rows_def list_all2_conv_all_nth)
  qed (simp add: scanHeader_row)
  then show ?thesis
    using limit k(2) by (simp add: HeadersFrom_def f sorted sql_limit_def w(2) MaxInt64_val)
qed

lemma headerWindow_ok:
  assumes rep: "represents C now d blocks sts us p" and a: "a < length blocks"
  shows "HeaderWindow d (word_of_nat a) = Inr (header_window (take (Suc a) blocks))"
proof -
  have len: "length blocks \<le> 9223372036854775808" using represents_start(5) [OF rep] by simp
  have t1: "(word_of_nat a + 1 :: u64) = word_of_nat (Suc a)" by (simp add: add.commute)
  have gt: "(word_of_nat (Suc a) :: u64) > word_of_nat FirstAdjustment \<longleftrightarrow> Suc a > 120"
    using a len by (simp add: word_less_nat_alt unat_word_of_nat_64 FirstAdjustment_def del: of_nat_Suc)
  let ?s = "Suc a - 120"
  have start: "(if (word_of_nat a + 1 :: u64) > word_of_nat FirstAdjustment then word_of_nat a + 1 - word_of_nat FirstAdjustment else 0) =
      (word_of_nat ?s :: u64)"
    unfolding t1 gt by (auto simp: FirstAdjustment_def of_nat_diff)
  have "(word_of_nat a - word_of_nat ?s :: u64) = word_of_nat (a - ?s)" by (simp add: of_nat_diff)
  moreover have "a - ?s \<le> 9223372036854775807" using a len by linarith
  ultimately have "sint (word_of_nat a - word_of_nat ?s :: u64) = int (a - ?s)"
    using int64_of_nat [of "a - ?s"] by (simp add: int64_of_def)
  moreover have "a - ?s < 120" by linarith
  ultimately have limit: "wrap64 (sint (word_of_nat a - word_of_nat ?s :: u64) + 1) = int (a - ?s) + 1"
    by (simp add: wrap64_def)
  have "?s \<le> length blocks" "?s \<le> 9223372036854775807" "1 \<le> int (a - ?s) + 1" "int (a - ?s) + 1 \<le> 2000"
    using a len by linarith+
  note h = headersFrom_ok [OF rep this]
  have nat_plus_one: "nat (int (a - ?s) + 1) = Suc (a - ?s)" by linarith
  from h have "HeadersFrom d (word_of_nat ?s) (int (a - ?s) + 1) =
      Inr (map header_of (take (Suc (a - ?s)) (drop ?s blocks)))"
    unfolding nat_plus_one .
  moreover have "take (Suc (a - ?s)) (drop ?s blocks) = drop ?s (take (Suc a) blocks)"
    by (simp add: drop_take) (rule arg_cong2 [of _ _ _ _ take], linarith, simp)
  ultimately show ?thesis
    using a by (simp only: HeaderWindow_def Let_def start limit header_window_def length_take) simp
qed

end
