(* ===== verification/Peer_Walk.thy ===== *)
theory Peer_Walk
  imports Peer_Serve
begin

text \<open>
  A node that asks a peer which serves a chain honestly: every header of that chain passes validation, and
  the walk over the pages ends with the branch of the peer from the fork on, once it has more work.
\<close>

section \<open>An honest peer\<close>

definition headers_after :: "block list \<Rightarrow> nat \<Rightarrow> headersResponse" where
  "headers_after R i = \<lparr>HrProtocol = NetworkID, HrCommonHeight = word_of_nat i, HrCommonHash = Hash (R ! i),
     HrHeaders = map header_of (take maxSyncHeaderBatch (drop (Suc i) R))\<rparr>"

text \<open>
  The peer finds the first hash of a locator that is on its chain \<open>R\<close> and answers with the headers above it.
  The hashes it is asked about are those of its chain and of the local chain \<open>L\<close>.
  \<open>q\<close>: it has pruned the bodies through this height.
\<close>

definition serves_chain :: "remote_source \<Rightarrow> block list \<Rightarrow> block list \<Rightarrow> nat \<Rightarrow> bool" where
  "serves_chain source L R q \<longleftrightarrow>
     (\<forall>n loc x. length loc \<le> 64 \<longrightarrow> set loc \<subseteq> Hash ` (set L \<union> set R) \<longrightarrow> find (\<lambda>x. x \<in> Hash ` set R) loc = Some x \<longrightarrow>
        (\<exists>i < length R. Hash (R ! i) = x \<and>
           SrcHeaders source n \<lparr>HqLocator = loc, HqLimit = int maxSyncHeaderBatch\<rparr> = Inr (headers_after R i))) \<and>
     (\<forall>n bs. bs \<noteq> [] \<longrightarrow> length bs \<le> maxBlockDownloadBatch \<longrightarrow> distinct bs \<longrightarrow> set bs \<subseteq> set (drop (Suc q) R) \<longrightarrow>
        SrcBlocks source n (map Hash bs) = Inr \<lparr>BrProtocol = NetworkID, BrBlocks = bs\<rparr>)"

text \<open>No two different blocks of the two chains have the same hash.\<close>

definition collision_free :: "block list \<Rightarrow> block list \<Rightarrow> bool" where
  "collision_free L R \<longleftrightarrow> inj_on Hash (set L \<union> set R)"

lemma collision_free_eq: "collision_free L R \<Longrightarrow> b \<in> set L \<Longrightarrow> c \<in> set R \<Longrightarrow> Hash b = Hash c \<longleftrightarrow> b = c"
  by (auto simp: collision_free_def dest: inj_onD)

definition headers_valid :: "crypto \<Rightarrow> int \<Rightarrow> block list \<Rightarrow> bool" where
  "headers_valid C vt R \<longleftrightarrow> heights_ok R \<and> (\<forall>i. 0 < i \<longrightarrow> i < length R \<longrightarrow>
     validateHeaderAtTime C (header_of (R ! i)) (header_of (R ! (i - 1))) (header_window (take i R)) vt = Inr ())"

section \<open>Headers stay valid\<close>

lemma consensus_fields_later:
  assumes "validateHeaderConsensusFields b p prior now = Inr ()" "now \<le> now'"
  shows "validateHeaderConsensusFields b p prior now' = Inr ()"
proof -
  have "(if now \<le> MaxInt64 - MaxFutureSeconds then now + MaxFutureSeconds else MaxInt64)
      \<le> (if now' \<le> MaxInt64 - MaxFutureSeconds then now' + MaxFutureSeconds else MaxInt64)" using assms(2) by simp
  then show ?thesis
    using assms(1) by (auto simp: validateHeaderConsensusFields_def Let_def res_simps split: if_splits)
qed

lemma validateHeader_of [simp]: "validateHeaderAtTime C (header_of b) p prior now = validateHeaderAtTime C b p prior now"
proof -
  have "ComputeHash C (header_of b) = ComputeHash C b" by (simp add: ComputeHash_def encodeHeader_def header_of_def)
  moreover have "HasValidWork (header_of b) = HasValidWork b" by (simp add: HasValidWork_def split: sum.splits)
  moreover have "validateHeaderConsensusFields (header_of b) p prior now = validateHeaderConsensusFields b p prior now"
  proof -
    have "PreviousHash (header_of b) = PreviousHash b" "MerkleRoot (header_of b) = MerkleRoot b"
      by (simp_all add: header_of_def)
    then show ?thesis by (simp only: validateHeaderConsensusFields_def header_of_sel)
  qed
  ultimately show ?thesis by (simp add: validateHeaderAtTime_def)
qed

lemma replayed_headers_valid:
  assumes rep: "replayed C now R sts" and later: "\<And>i. i < length R \<Longrightarrow> now i \<le> vt"
  shows "headers_valid C vt R"
  unfolding headers_valid_def
proof (intro conjI allI impI)
  show "heights_ok R" using rep by (simp add: replayed_def)
  fix i assume i: "0 < i" "i < length R"
  have ho: "heights_ok (take i R)" and ne: "take i R \<noteq> []"
    using rep i by (auto simp: replayed_def heights_ok_def)
  have last: "last (take i R) = R ! (i - 1)" "last (header_window (take i R)) = header_of (R ! (i - 1))"
  proof -
    show "last (take i R) = R ! (i - 1)" using i take_Suc_conv_app_nth [of "i - 1" R] by simp
    then show "last (header_window (take i R)) = header_of (R ! (i - 1))" using ne by (simp add: last_window)
  qed
  have "replayBlock C now R (sts (i - 1)) i = Inr (sts i)" using rep i by (simp add: replayed_def)
  then have "validateBlockHeaderAtTime C (R ! i) (last (take i R)) (take i R) (now i) = Inr ()"
    using last(1) by (auto simp: replayBlock_def Let_def attempt_eq_Inr)
  then have "validateBlockHeaderAtTime C (R ! i) (header_of (R ! (i - 1))) (header_window (take i R)) (now i) = Inr ()"
    using validateBlockHeader_window [OF ne ho] last(2) by simp
  then have v: "validateHeaderAtTime C (R ! i) (header_of (R ! (i - 1))) (header_window (take i R)) (now i) = Inr ()"
    by (simp add: validateBlockHeaderAtTime_def res_simps)
  then have "validateHeaderConsensusFields (R ! i) (header_of (R ! (i - 1))) (header_window (take i R)) vt = Inr ()"
    using consensus_fields_later later [OF i(2)] by (auto simp: validateHeaderAtTime_def res_simps)
  with v have "validateHeaderAtTime C (R ! i) (header_of (R ! (i - 1))) (header_window (take i R)) vt = Inr ()"
    by (auto simp: validateHeaderAtTime_def res_simps)
  then show "validateHeaderAtTime C (header_of (R ! i)) (header_of (R ! (i - 1))) (header_window (take i R)) vt = Inr ()"
    by simp
qed

text \<open>A block determines its ancestors: chains that share a block share everything below it.\<close>

lemma headers_valid_link:
  assumes "headers_valid C vt R" "0 < i" "i < length R"
  shows "PreviousHash (R ! i) = Hash (R ! (i - 1))"
proof -
  have "validateHeaderConsensusFields (header_of (R ! i)) (header_of (R ! (i - 1))) (header_window (take i R)) vt = Inr ()"
    using assms by (auto simp: headers_valid_def validateHeaderAtTime_def res_simps)
  then show ?thesis by (auto simp: validateHeaderConsensusFields_def header_of_def Let_def res_simps split: if_splits)
qed

lemma shared_prefix:
  assumes valid: "headers_valid C vt L" "headers_valid C vt R" and free: "collision_free L R"
  shows "i < length L \<Longrightarrow> i < length R \<Longrightarrow> L ! i = R ! i \<Longrightarrow> take (Suc i) L = take (Suc i) R"
proof (induction i)
  case 0
  then show ?case by (simp add: take_Suc_conv_app_nth)
next
  case (Suc i)
  have "Hash (L ! i) = Hash (R ! i)"
    using headers_valid_link [OF valid(1), of "Suc i"] headers_valid_link [OF valid(2), of "Suc i"] Suc.prems by simp
  then have "L ! i = R ! i" using collision_free_eq [OF free] Suc.prems by simp
  then have "take (Suc i) L = take (Suc i) R" using Suc by simp
  then show ?case
    using Suc.prems take_Suc_conv_app_nth [of "Suc i" L] take_Suc_conv_app_nth [of "Suc i" R] by simp
qed

section \<open>The walk over an honest chain\<close>

definition walked :: "block list \<Rightarrow> block list \<Rightarrow> nat \<Rightarrow> nat \<Rightarrow> nat \<Rightarrow> header_walk \<Rightarrow> bool" where
  "walked L R a e k w \<longleftrightarrow>
     a \<le> e \<and> k \<le> length R \<and> e < k \<and> e < length L \<and> take (Suc e) L = take (Suc e) R \<and>
     WkHeaders w = map header_of (drop (Suc a) (take k R)) \<and> WkWork w = chain_work (take k R) \<and>
     WkPrior w = header_window (take k R) \<and> WkPrevious w = header_of (R ! (k - 1)) \<and>
     WkEffective w = word_of_nat e \<and> WkCandidates w = map header_of (drop (Suc e) (take k R)) \<and>
     (WkDiverged w \<longleftrightarrow> Suc e < k) \<and> (Suc e < k \<longrightarrow> Suc e = length L \<or> L ! Suc e \<noteq> R ! Suc e)"

lemma header_window_snoc:
  assumes "k < length R"
  shows "trimPrior (header_window (take k R) @ [header_of (R ! k)]) = header_window (take (Suc k) R)"
proof -
  have t: "take (Suc k) R = take k R @ [R ! k]" using assms by (rule take_Suc_conv_app_nth)
  have "length (take k R) = k" using assms by simp
  then show ?thesis
    unfolding trimPrior_def header_window_def t FirstAdjustment_def using assms
    by (cases "120 \<le> k") (auto simp: drop_map Suc_diff_le [symmetric])
qed

lemma chain_work_take_Suc:
  "0 < k \<Longrightarrow> k < length R \<Longrightarrow> chain_work (take (Suc k) R) = chain_work (take k R) + blockWork (Difficulty (R ! k))"
  by (subst take_Suc_conv_app_nth, simp, rule chain_work_snoc) auto

lemma walk_step:
  assumes rep: "represents C now d L sts us p" and tip: "TipHeight t = word_of_nat (length L - 1)"
    and free: "collision_free L R" and valid: "headers_valid C vt L" "headers_valid C vt R"
    and w: "walked L R a e k w" and k: "k < length R"
  shows "\<exists>e' w'. walkHeader C d t vt w (header_of (R ! k)) = Inr w' \<and> walked L R a e' (Suc k) w'"
proof -
  note s = represents_start(5,6) [OF rep]
  let ?h = "header_of (R ! k)"
  have pos: "0 < k" using w by (auto simp: walked_def)
  have ho: "heights_ok R" using valid(2) by (simp add: headers_valid_def)
  have v: "validateHeaderAtTime C ?h (WkPrevious w) (WkPrior w) vt = Inr ()"
    using valid(2) w k pos by (simp add: headers_valid_def walked_def)
  have height: "Height ?h = word_of_nat k" "k < 18446744073709551616" using ho k by (auto simp: heights_ok_def)
  have below: "Height ?h \<le> TipHeight t \<longleftrightarrow> k < length L"
  proof -
    have "unat (word_of_nat (length L - 1) :: u64) = length L - 1" using s(1) by (simp add: unat_word_of_nat_64)
    moreover have "unat (word_of_nat k :: u64) = k" using height(2) by (simp add: unat_word_of_nat_64)
    moreover have "0 < length L" using s(2) by simp
    ultimately show ?thesis unfolding height(1) tip word_le_nat_alt by linarith
  qed
  have hash: "HashAt d (Height ?h) = Inr (Hash (L ! k))" if "k < length L"
    using read_hash [OF rep, of "Height ?h"] that height by (simp add: unat_word_of_nat_64)
  have noTx: "Transactions ?h = []" by (simp add: header_of_def)
  let ?w = "w\<lparr>WkHeaders := WkHeaders w @ [?h], WkWork := WkWork w + blockWork (Difficulty ?h),
              WkPrior := trimPrior (WkPrior w @ [?h]), WkPrevious := ?h\<rparr>"
  have take: "take (Suc k) R = take k R @ [R ! k]" using k by (rule take_Suc_conv_app_nth)
  have base: "WkHeaders ?w = map header_of (drop (Suc a) (take (Suc k) R))" "WkWork ?w = chain_work (take (Suc k) R)"
    "WkPrior ?w = header_window (take (Suc k) R)" "WkPrevious ?w = header_of (R ! (Suc k - 1))"
    using w k header_window_snoc [OF k] chain_work_take_Suc [OF pos k] by (simp_all add: walked_def take)
  show ?thesis
  proof (cases "\<not> WkDiverged w \<and> k < length L \<and> L ! k = R ! k")
    case True
    then have e: "Suc e = k" using w by (auto simp: walked_def)
    have "walkHeader C d t vt w ?h = Inr (?w\<lparr>WkEffective := word_of_nat k\<rparr>)"
      using True v below hash noTx height by (simp add: walkHeader_def)
    moreover have "take (Suc k) L = take (Suc k) R"
      using shared_prefix [OF valid free, of k] True k by simp
    then have "walked L R a k (Suc k) (?w\<lparr>WkEffective := word_of_nat k\<rparr>)"
      using base w k True e by (simp add: walked_def)
    ultimately show ?thesis by blast
  next
    case False
    let ?c = "?w\<lparr>WkDiverged := True, WkCandidates := WkCandidates w @ [?h]\<rparr>"
    have "Hash (L ! k) \<noteq> Hash ?h" if "\<not> WkDiverged w" "k < length L"
      using False that collision_free_eq [OF free] k by simp
    then have "walkHeader C d t vt w ?h = Inr ?c"
      using v below hash noTx by (simp add: walkHeader_def Let_def)
    moreover have edge: "Suc e = length L \<or> L ! Suc e \<noteq> R ! Suc e"
    proof (cases "Suc e < k")
      case True
      then show ?thesis using w by (simp add: walked_def)
    next
      case f: False
      then have "Suc e = k" "\<not> WkDiverged w" "e < length L" using w by (auto simp: walked_def)
      then show ?thesis using False by auto
    qed
    have "walked L R a e (Suc k) ?c"
      using base w k unfolding walked_def by (simp add: edge take)
    ultimately show ?thesis by blast
  qed
qed

lemma walk_run:
  assumes "represents C now d L sts us p" "TipHeight t = word_of_nat (length L - 1)"
    "collision_free L R" "headers_valid C vt L" "headers_valid C vt R"
    and "walked L R a e k w" "k + n \<le> length R"
  shows "\<exists>e' w'. foldE (walkHeader C d t vt) w (map header_of (take n (drop k R))) = Inr w' \<and> walked L R a e' (k + n) w'"
  using assms(6,7)
proof (induction n arbitrary: e k w)
  case (Suc n)
  have k: "k < length R" "Suc k + n \<le> length R" using Suc.prems by simp_all
  obtain e1 w1 where s: "walkHeader C d t vt w (header_of (R ! k)) = Inr w1" "walked L R a e1 (Suc k) w1"
    using walk_step [OF assms(1-5) Suc.prems(1) k(1)] by blast
  have "drop k R = R ! k # drop (Suc k) R" using k(1) by (simp add: Cons_nth_drop_Suc)
  then show ?case using s(1) Suc.IH [OF s(2) k(2)] by simp
qed auto

text \<open>
  Progress: a node that synchronises with an honest peer whose chain has more work adopts that chain. The
  pages of headers lead to a better branch, its bodies are staged, and the replacement succeeds.
\<close>

section \<open>Work\<close>

lemma blockWork_pos: "0 < blockWork x"
  by (simp add: blockWork_def push_bit_eq_mult)

lemma chain_work_append: "xs \<noteq> [] \<Longrightarrow> chain_work (xs @ ys) = chain_work xs + (\<Sum>b\<leftarrow>ys. blockWork (Difficulty b))"
  by (cases xs) (simp_all add: chain_work_def)

lemma chain_work_mono:
  assumes "0 < i" "i \<le> j"
  shows "chain_work (take i R) \<le> chain_work (take j R)"
proof (cases "take i R = []")
  case False
  have "take j R = take i R @ take (j - i) (drop i R)" using assms(2) take_add [of i "j - i" R] by simp
  then show ?thesis using chain_work_append [OF False] by simp
next
  case True
  then show ?thesis using assms by simp
qed

lemma chain_work_longer:
  assumes "L \<noteq> []" "ys \<noteq> []"
  shows "chain_work L < chain_work (L @ ys)"
  using assms blockWork_pos by (cases ys) (simp_all add: chain_work_append add_pos_nonneg)

section \<open>The branch that is found\<close>

definition better_branch :: "block list \<Rightarrow> block list \<Rightarrow> nat \<Rightarrow> nat \<Rightarrow> nat \<Rightarrow> bool" where
  "better_branch L R f e k \<longleftrightarrow>
     f \<le> Suc e \<and> e < length L \<and> take (Suc e) L = take (Suc e) R \<and> Suc e < k \<and> k \<le> length R \<and>
     chain_work L < chain_work (take k R)"

definition branch_headers :: "block list \<Rightarrow> nat \<Rightarrow> nat \<Rightarrow> block list" where
  "branch_headers R e k = map header_of (drop (Suc e) (take k R))"

lemma walked_edge:
  assumes w: "walked L R a e k w" and f: "take f L = take f R" "f \<le> length L" and more: "Suc e < k"
  shows "f \<le> Suc e"
proof (rule ccontr)
  assume "\<not> f \<le> Suc e"
  then have lt: "Suc e < f" by simp
  have "Suc e = length L \<or> L ! Suc e \<noteq> R ! Suc e" using w more by (simp add: walked_def)
  moreover have "L ! Suc e = R ! Suc e" using f(1) lt by (metis nth_take)
  ultimately show False using lt f(2) by simp
qed

lemma decide:
  assumes rep: "represents C now d L sts us p"
    and tip: "TipHeight t = word_of_nat (length L - 1)" "TipWork t = chain_work L"
    and f: "take f L = take f R" "f \<le> length L" "p < f" and w: "walked L R a e k w"
  shows "chain_work (take k R) \<le> chain_work L \<Longrightarrow> adoptable d t w = Inr None"
    and "chain_work L < chain_work (take k R) \<Longrightarrow>
       \<exists>k' \<le> k. adoptable d t w = Inr (Some (word_of_nat e, branch_headers R e k')) \<and> better_branch L R f e k'"
proof -
  note s = represents_start(5,6) [OF rep]
  have work: "WkWork w = chain_work (take k R)" and e: "e < length L" "take (Suc e) L = take (Suc e) R" "e < k" "k \<le> length R"
    and cand: "WkCandidates w = branch_headers R e k" and eff: "WkEffective w = word_of_nat e"
    using w by (simp_all add: walked_def branch_headers_def)
  show "chain_work (take k R) \<le> chain_work L \<Longrightarrow> adoptable d t w = Inr None"
    by (simp add: adoptable_def work tip)
  assume more: "chain_work L < chain_work (take k R)"
  have k: "Suc e < k"
  proof (rule ccontr)
    assume "\<not> Suc e < k"
    then have "take k R = take k L" using e by (metis Suc_lessI)
    moreover have "chain_work (take k L) \<le> chain_work (take (max k (length L)) L)"
      using e by (intro chain_work_mono) simp_all
    ultimately show False using more by simp
  qed
  note fe = walked_edge [OF w f(1,2) k]
  have pr: "PrunedThrough d = Inr (word_of_nat p)" using rep by (simp add: represents_def PrunedThrough_def)
  have small: "e < 18446744073709551616" "p < 18446744073709551616" "length L - 1 < 18446744073709551616"
    using e(1) s(1) f by simp_all
  have ge: "\<not> (word_of_nat e :: u64) < word_of_nat p"
    using fe f(3) small by (simp add: word_less_nat_alt unat_word_of_nat_64)
  have tipe: "(word_of_nat e :: u64) = word_of_nat (length L - 1) \<longleftrightarrow> Suc e = length L"
  proof -
    have "(word_of_nat e :: u64) = word_of_nat (length L - 1) \<longleftrightarrow> e = length L - 1"
      using small(1,3) unat_word_of_nat_64 by metis
    then show ?thesis using e(1) by linarith
  qed
  have at_tip: "word_of_nat e = TipHeight t \<longleftrightarrow> Suc e = length L" using tipe by (simp only: tip(1))
  have ne: "branch_headers R e k \<noteq> []" and len: "length (branch_headers R e k) = k - Suc e"
    using k e(4) by (simp_all add: branch_headers_def)
  show "\<exists>k' \<le> k. adoptable d t w = Inr (Some (word_of_nat e, branch_headers R e k')) \<and> better_branch L R f e k'"
  proof (cases "Suc e = length L \<and> 128 < k - Suc e")
    case True
    let ?k = "Suc e + 128"
    have "take 128 (branch_headers R e k) = branch_headers R e ?k"
    proof -
      have "min (Suc e + 128) k = ?k" using True by linarith
      then show ?thesis by (simp add: branch_headers_def take_map take_drop)
    qed
    moreover have big: "128 < k - length L" using True by linarith
    ultimately have "adoptable d t w = Inr (Some (word_of_nat e, branch_headers R e ?k))"
      using True more ge ne big by (simp add: adoptable_def work tip(2) cand eff pr at_tip len maxDirectExtensionBlocks_def maxSyncHeaderBatch_def)
    moreover have "take ?k R = L @ take 128 (drop (Suc e) R)"
      using e(2) True by (simp add: take_add del: take_Suc)
    then have "chain_work L < chain_work (take ?k R)"
      using chain_work_longer [of L "take 128 (drop (Suc e) R)"] True s(2) e(4) k by auto
    moreover have "?k \<le> k" "?k \<le> length R" using True e(4) by linarith+
    ultimately show ?thesis using e fe by (intro exI [of _ ?k]) (simp add: better_branch_def)
  next
    case False
    then have "adoptable d t w = Inr (Some (word_of_nat e, branch_headers R e k))"
      using more ge ne by (auto simp: adoptable_def work tip(2) cand eff pr at_tip len maxDirectExtensionBlocks_def maxSyncHeaderBatch_def)
    then show ?thesis using e fe k more by (intro exI [of _ k]) (simp add: better_branch_def)
  qed
qed

text \<open>The peer answers the request for the headers after block \<open>k - 1\<close> with the next page of its chain.\<close>

lemma heights_inj: "heights_ok R \<Longrightarrow> i < length R \<Longrightarrow> j < length R \<Longrightarrow> R ! i = R ! j \<Longrightarrow> i = j"
proof -
  assume ho: "heights_ok R" and ij: "i < length R" "j < length R" "R ! i = R ! j"
  then have "(word_of_nat i :: u64) = word_of_nat j" by (metis heights_ok_def)
  moreover have "i < 18446744073709551616" "j < 18446744073709551616" using ho ij by (simp_all add: heights_ok_def)
  ultimately show "i = j" using unat_word_of_nat_64 by metis
qed

lemma next_page:
  assumes "serves_chain source L R q" "collision_free L R" "heights_ok R" "i < length R"
  shows "SrcHeaders source n \<lparr>HqLocator = [Hash (R ! i)], HqLimit = int maxSyncHeaderBatch\<rparr> = Inr (headers_after R i)"
proof -
  have "find (\<lambda>x. x \<in> Hash ` set R) [Hash (R ! i)] = Some (Hash (R ! i))" using assms(4) by simp
  then obtain j where j: "j < length R" "Hash (R ! j) = Hash (R ! i)"
    "SrcHeaders source n \<lparr>HqLocator = [Hash (R ! i)], HqLimit = int maxSyncHeaderBatch\<rparr> = Inr (headers_after R j)"
    using assms(1,4) unfolding serves_chain_def by (elim conjE allE [of _ n] allE [of _ "[Hash (R ! i)]"]) auto
  have "R ! j = R ! i" using assms(2,4) j(1,2) by (auto simp: collision_free_def dest: inj_onD)
  then have "j = i" using heights_inj [OF assms(3) j(1) assms(4)] by simp
  then show ?thesis using j(3) by simp
qed

section \<open>The pages\<close>

text \<open>
  The loop from block \<open>k\<close> on. \<open>m\<close> pages were read before; with at most 156 of them in all the limit on
  the number of headers is not met.
\<close>

lemma pages_find:
  assumes rep: "represents C now d L sts us p"
    and tip: "TipHeight t = word_of_nat (length L - 1)" "TipWork t = chain_work L"
    and free: "collision_free L R" and valid: "headers_valid C vt L" "headers_valid C vt R"
    and peer: "serves_chain source L R q"
    and f: "take f L = take f R" "f \<le> length L" "p < f"
    and K: "K \<le> length R" "chain_work L < chain_work (take K R)" "K \<le> Suc a + 19968"
    and w: "walked L R a e k w" "k = Suc a + 128 * m" "0 < m" "k < K"
  shows "\<exists>e k. headerPages C (\<lambda>_. d) source t vt n [Hash (WkPrevious w)] w =
      Inr (Some (word_of_nat e, branch_headers R e k)) \<and> better_branch L R f e k \<and> k - Suc e \<le> 20000"
  using w
proof (induction "K - k" arbitrary: e k w m n rule: less_induct)
  case less
  note w = less.prems(1)
  have ho: "heights_ok R" using valid(2) by (simp add: headers_valid_def)
  have k: "0 < k" "k < length R" "k - 1 < length R" "a < k" using less.prems K(1) by (auto simp: walked_def)
  have prev: "WkPrevious w = header_of (R ! (k - 1))" and hs: "WkHeaders w = map header_of (drop (Suc a) (take k R))"
    using w by (simp_all add: walked_def)
  let ?c = "min 128 (length R - k)"
  have len: "length (WkHeaders w) = 128 * m" "128 * m < 20000" "128 * m + ?c \<le> 20000"
  proof -
    have "128 * m < 19968" using less.prems(2,4) K(3) by linarith
    then have "m \<le> 155" by linarith
    then show "128 * m < 20000" "128 * m + ?c \<le> 20000" by linarith+
    show "length (WkHeaders w) = 128 * m" using less.prems(2) k(2) by (simp add: hs)
  qed
  have ne: "WkHeaders w \<noteq> []" using len(1) less.prems(3) by auto
  have page: "map header_of (take maxSyncHeaderBatch (drop (Suc (k - 1)) R)) = map header_of (take ?c (drop k R))"
    using k(1) by (simp add: maxSyncHeaderBatch_def min_def)
  have resp: "SrcHeaders source n \<lparr>HqLocator = [Hash (WkPrevious w)], HqLimit = int maxSyncHeaderBatch\<rparr> = Inr (headers_after R (k - 1))"
    using next_page [OF peer free ho k(3)] by (simp add: prev)
  have height: "Height (WkPrevious w) = word_of_nat (k - 1)" using ho k(3) by (simp add: prev heights_ok_def)
  obtain e' w' where run: "foldE (walkHeader C d t vt) w (map header_of (take ?c (drop k R))) = Inr w'"
    "walked L R a e' (k + ?c) w'"
  proof -
    have "k + ?c \<le> length R" using k(2) by linarith
    from walk_run [OF rep tip(1) free valid w this] show ?thesis using that by blast
  qed
  have nonempty: "map header_of (take ?c (drop k R)) \<noteq> []" "length (map header_of (take ?c (drop k R))) = ?c"
    using k(2) by auto
  have step: "syncPage C d t vt w (SrcHeaders source n \<lparr>HqLocator = [Hash (WkPrevious w)], HqLimit = int maxSyncHeaderBatch\<rparr>) =
      Inr (Some (w', ?c))"
    using ne len height run(1) nonempty
    unfolding resp syncPage_def headers_after_def page
    by (simp add: maxSyncHeaderBatch_def maxHeadersPerSync_def prev)
  note dec = decide [OF rep tip f run(2)]
  show ?case
  proof (cases "chain_work L < chain_work (take (k + ?c) R)")
    case True
    from dec(2) [OF this] obtain k' where b: "k' \<le> k + ?c" "adoptable d t w' = Inr (Some (word_of_nat e', branch_headers R e' k'))"
      "better_branch L R f e' k'" by blast
    have "headerPages C (\<lambda>_. d) source t vt n [Hash (WkPrevious w)] w = Inr (Some (word_of_nat e', branch_headers R e' k'))"
      unfolding headerPages.simps [of C "\<lambda>_. d" source t vt n] using len(1,2) step b(2) by (simp add: maxHeadersPerSync_def)
    moreover have "a \<le> e'" using run(2) by (simp add: walked_def)
    then have "k' - Suc e' \<le> 20000" using b(1) less.prems(2) len(3) by linarith
    ultimately show ?thesis using b(3) by blast
  next
    case False
    have low: "k + ?c < K"
    proof (rule ccontr)
      assume "\<not> k + ?c < K"
      then have "chain_work (take K R) \<le> chain_work (take (k + ?c) R)"
        using less.prems k by (intro chain_work_mono) simp_all
      then show False using False K(2) by simp
    qed
    then have c: "?c = 128" using K(1) by linarith
    have "headerPages C (\<lambda>_. d) source t vt n [Hash (WkPrevious w)] w =
        headerPages C (\<lambda>_. d) source t vt (n + 1) [Hash (WkPrevious w')] w'"
      unfolding headerPages.simps [of C "\<lambda>_. d" source t vt n "[Hash (WkPrevious w)]" w]
      using len(1,2) step dec(1) False c by (simp add: maxHeadersPerSync_def maxSyncHeaderBatch_def)
    moreover have "K - (k + ?c) < K - k" using low c by linarith
    note ih = less.hyps [OF this run(2) _ _ low, of "m + 1" "n + 1"]
    ultimately show ?thesis using ih less.prems(2) c by simp
  qed
qed

end
