(* ===== verification/Peer_Adopt.thy ===== *)
theory Peer_Adopt
  imports Peer_Walk
begin

text \<open>
  The replacement succeeds: the blocks of another chain that the replay accepts can be connected above a
  common block, and the transactions of the disconnected blocks fit the mempool again.
\<close>

section \<open>Orphaned transactions are bounded\<close>

lemma discardOrphans_count:
  assumes "discardOrphans maxCount maxBytes blocks cnt tot = (bs, n, b)" "cnt = int (length (concat blocks))" "[] \<notin> set blocks"
  shows "n = int (length (concat bs)) \<and> [] \<notin> set bs \<and> (bs = [] \<or> n \<le> maxCount)"
  using assms
proof (induction maxCount maxBytes blocks cnt tot rule: discardOrphans.induct)
  case (1 maxCount maxBytes blocks cnt tot)
  show ?case
  proof (cases blocks)
    case Nil
    then show ?thesis using 1(2,3) by (simp add: discardOrphans.simps)
  next
    case (Cons block older)
    show ?thesis
    proof (cases "cnt > maxCount \<or> tot > maxBytes")
      case True
      let ?rest = "if butlast block = [] then older else butlast block # older"
      have ne: "block \<noteq> []" using 1(4) Cons by auto
      then have "length block = Suc (length (butlast block))" by simp
      then have "cnt - 1 = int (length (concat ?rest))"
        using 1(3) Cons by (cases "butlast block = []") (simp_all del: length_butlast)
      moreover have "[] \<notin> set ?rest" using 1(4) Cons by auto
      moreover have "discardOrphans maxCount maxBytes ?rest (cnt - 1) (tot - int (encodedSize (last block))) = (bs, n, b)"
        using 1(2) True unfolding Cons by (simp add: discardOrphans.simps [of maxCount maxBytes "block # older"] Let_def)
      ultimately show ?thesis using 1(1) [OF Cons True HOL.refl HOL.refl] by blast
    next
      case False
      then show ?thesis using 1(2-4) unfolding Cons by (auto simp: discardOrphans.simps [of maxCount maxBytes "block # older"])
    qed
  qed
qed

definition orphans_bounded :: "orphanedMempoolCollector \<Rightarrow> bool" where
  "orphans_bounded c \<longleftrightarrow> OrphanCount c = int (length (concat (OrphanBlocks c))) \<and> [] \<notin> set (OrphanBlocks c) \<and>
     (OrphanBlocks c = [] \<or> OrphanCount c \<le> int MaxPendingTransactions) \<and> OrphanMaxCount c = int MaxPendingTransactions"

lemma orphanAdd_bounded: "orphans_bounded c \<Longrightarrow> orphans_bounded (orphanAdd txs c)"
proof -
  assume c: "orphans_bounded c"
  show ?thesis
  proof (cases "txs = [] \<or> OrphanMaxCount c \<le> 0 \<or> OrphanMaxBytes c \<le> 0")
    case True
    then show ?thesis using c by (auto simp: orphanAdd_def)
  next
    case False
    obtain bs n b where r: "discardOrphans (OrphanMaxCount c) (OrphanMaxBytes c) (OrphanBlocks c @ [txs])
        (OrphanCount c + int (length txs)) (OrphanBytes c + (\<Sum>tx\<leftarrow>txs. int (encodedSize tx))) = (bs, n, b)"
      by (rule prod_cases3)
    have "n = int (length (concat bs)) \<and> [] \<notin> set bs \<and> (bs = [] \<or> n \<le> OrphanMaxCount c)"
      by (rule discardOrphans_count [OF r]) (use c False in \<open>auto simp: orphans_bounded_def\<close>)
    moreover have "orphanAdd txs c = c\<lparr>OrphanBlocks := bs, OrphanCount := n, OrphanBytes := b\<rparr>"
      unfolding orphanAdd_def r using False by simp
    ultimately show ?thesis using c by (auto simp: orphans_bounded_def)
  qed
qed

lemma orphans_count: "orphans_bounded c \<Longrightarrow> length (orphanTransactions c) \<le> MaxPendingTransactions"
proof -
  assume c: "orphans_bounded c"
  have "length (orphanTransactions c) = length (concat (OrphanBlocks c))"
    by (simp add: orphanTransactions_def length_concat rev_map [symmetric] sum_list_rev)
  then show ?thesis using c by (auto simp: orphans_bounded_def)
qed

lemma new_collector_bounded: "orphans_bounded (newOrphanedMempoolCollector (int MaxPendingTransactions) n)"
  by (simp add: orphans_bounded_def newOrphanedMempoolCollector_def)

lemma disconnectLoop_complete:
  assumes "represents C now d blocks sts us p" "pool_tables d" "n + p < length blocks" "orphans_bounded col"
  shows "\<exists>d' col'. disconnectLoop C n (d, col) = Inr (d', col') \<and> orphans_bounded col'"
  using assms
proof (induction n arbitrary: d blocks col)
  case (Suc n)
  have "length blocks \<noteq> 1" "p \<noteq> length blocks - 1" using Suc.prems(3) by auto
  then obtain d1 b txs where s: "disconnectTip C d = Inr (d1, b, txs)"
    unfolding disconnect_cases [OF Suc.prems(1)] by simp
  note c = disconnect_ok [OF Suc.prems(1,2) s]
  have "n + p < length (butlast blocks)" using Suc.prems(3) by simp
  from Suc.IH [OF c(1,3) this orphanAdd_bounded [OF Suc.prems(4)]] show ?case using s by simp
qed auto

section \<open>The states of a shared prefix\<close>

lemma replayed_body:
  assumes "replayed C now B sts" "0 < i" "i < length B"
  shows "validateBlockHeaderAtTime C (B ! i) (B ! (i - 1)) (take i B) (now i) = Inr ()"
    and "replayBody C (sts (i - 1)) (B ! i) = Inr (sts i)"
proof -
  have "replayBlock C now B (sts (i - 1)) i = Inr (sts i)" using assms by (simp add: replayed_def)
  then have "validateBlockHeaderAtTime C (B ! i) (B ! (i - 1)) (take i B) (now i) = Inr () \<and>
      replayBody C (sts (i - 1)) (B ! i) = Inr (sts i)"
    by (simp add: replayBlock_def replayBody_def Let_def attempt_eq_Inr)
  then show "validateBlockHeaderAtTime C (B ! i) (B ! (i - 1)) (take i B) (now i) = Inr ()"
    "replayBody C (sts (i - 1)) (B ! i) = Inr (sts i)" by simp_all
qed

lemma replayed_states:
  assumes "replayed C now B sts" "replayed C now' B' sts'" "n \<le> length B" "n \<le> length B'" "take n B = take n B'"
  shows "i < n \<Longrightarrow> sts i = sts' i"
proof (induction i)
  case 0
  then show ?case using assms(1,2) by (simp add: replayed_def)
next
  case (Suc i)
  have "B ! Suc i = B' ! Suc i" using assms(5) Suc.prems by (metis nth_take)
  then show ?case
    using replayed_body(2) [OF assms(1), of "Suc i"] replayed_body(2) [OF assms(2), of "Suc i"] Suc assms(3,4) by simp
qed

lemma block_header_later:
  "validateBlockHeaderAtTime C b p prior now = Inr () \<Longrightarrow> now \<le> now' \<Longrightarrow> validateBlockHeaderAtTime C b p prior now' = Inr ()"
  using consensus_fields_later [of b p prior now now']
  by (auto simp: validateBlockHeaderAtTime_def validateHeaderAtTime_def res_simps)

text \<open>The next block of a chain that was replayed elsewhere is connected.\<close>

lemma connect_next:
  assumes rep: "represents C now d (take k R) sts us p" and tab: "pool_tables d" and other: "replayed C now' R sts'"
    and inj: "inj_on Hash (set R)" and k: "0 < k" "k < length R" and t: "now' k \<le> t"
  shows "\<exists>d' sts' us'. connectBlockAtTime C d (R ! k) t = Inr d' \<and>
     represents C (now(k := t)) d' (take (Suc k) R) sts' us' p \<and> pool_part d' = pool_part d \<and> pool_tables d'"
proof -
  have r: "replayed C now (take k R) sts" using rep by (simp add: represents_def)
  have same: "sts (k - 1) = sts' (k - 1)"
    using replayed_states [OF r other, of k] k by simp
  note b = replayed_body [OF other k]
  have ne: "take k R \<noteq> []" and last: "last (take k R) = R ! (k - 1)" "length (take k R) = k"
    using k take_Suc_conv_app_nth [of "k - 1" R] by auto
  have "replayBlock C (\<lambda>_. t) (take k R @ [R ! k]) (sts (k - 1)) k = Inr (sts' k)"
    using replayBlock_snoc [OF ne, of C "\<lambda>_. t" "R ! k" "sts (k - 1)", unfolded last]
      block_header_later [OF b(1) t] b(2) same by simp
  then have step: "replayBlock C (\<lambda>_. t) (take k R @ [R ! k]) (sts (length (take k R) - 1)) (length (take k R)) = Inr (sts' k)"
    by (simp only: last)
  have ho: "heights_ok R" using other by (simp add: replayed_def)
  have "uint (Height (R ! k)) \<le> MaxInt64" using heights_ok_range [OF ho] k(2) by simp
  moreover have "\<forall>b' \<in> set (take k R). Hash b' \<noteq> Hash (R ! k)"
  proof (intro ballI notI)
    fix b' assume "b' \<in> set (take k R)" "Hash b' = Hash (R ! k)"
    then obtain i where i: "i < k" "b' = R ! i" by (auto simp: in_set_conv_nth)
    then have "R ! i = R ! k" using inj k(2) \<open>Hash b' = Hash (R ! k)\<close> by (auto dest: inj_onD)
    then show False using heights_inj [OF ho, of i k] i(1) k(2) by simp
  qed
  ultimately obtain d' where d': "connectBlockAtTime C d (R ! k) t = Inr d'"
    using connect_complete [OF rep step] by blast
  note c = connect_ok [OF rep tab d']
  have "take (Suc k) R = take k R @ [R ! k]" using k(2) by (rule take_Suc_conv_app_nth)
  then show ?thesis using d' c unfolding last by metis
qed

lemma connect_run:
  assumes "represents C now d (take k R) sts us p" "pool_tables d" and other: "replayed C now' R sts'"
    and inj: "inj_on Hash (set R)" and "0 < k" "k + n \<le> length R" and t: "\<And>i. i < length R \<Longrightarrow> now' i \<le> t"
  shows "\<exists>d' now'' sts'' us''. foldE (\<lambda>d i. connectBlockAtTime C d (R ! (k + i)) t) d [0..<n] = Inr d' \<and>
     represents C now'' d' (take (k + n) R) sts'' us'' p \<and> pool_part d' = pool_part d \<and> pool_tables d'"
  using assms(6)
proof (induction n)
  case 0
  then show ?case using assms(1,2) by auto
next
  case (Suc n)
  obtain d1 now1 sts1 us1 where i: "foldE (\<lambda>d i. connectBlockAtTime C d (R ! (k + i)) t) d [0..<n] = Inr d1"
    "represents C now1 d1 (take (k + n) R) sts1 us1 p" "pool_part d1 = pool_part d" "pool_tables d1"
    using Suc by auto
  obtain d2 sts2 us2 where c: "connectBlockAtTime C d1 (R ! (k + n)) t = Inr d2"
    "represents C (now1(k + n := t)) d2 (take (Suc (k + n)) R) sts2 us2 p" "pool_part d2 = pool_part d1" "pool_tables d2"
    using connect_next [OF i(2,4) other inj, of t] assms(5) Suc.prems t by auto
  show ?case using i(1,3) c by (auto simp: foldE_append)
qed

section \<open>Replacing the end of the chain\<close>

lemma replace_complete:
  assumes ok: "ledger_ok C now d L sts us p st" and other: "replayed C now' R sts'" and inj: "inj_on Hash (set R)"
    and e: "e < length L" "take (Suc e) L = take (Suc e) R" "p \<le> e" "Suc e < k" "k \<le> length R"
    and work: "chain_work L < chain_work (take k R)" and t: "\<And>i. i < length R \<Longrightarrow> now' i \<le> t'"
    and at: "\<And>i. i < k - Suc e \<Longrightarrow> blockAt i = Inr (R ! (Suc e + i))"
    and room: "dbMempoolSeq d + 2 * int MaxPendingTransactions \<le> MaxInt64" and short: "length R < 9223372036854775808"
  shows "\<exists>d' now'' sts'' us'' st''. replaceFromSourceAtTime C t d (word_of_nat e) (int (k - Suc e)) (Some blockAt) t' = Inr d' \<and>
     ledger_ok C now'' d' (take k R) sts'' us'' p st''"
proof -
  note o = ledger_okD [OF ok] and s = represents_start(5,6) [OF ledger_okD(1) [OF ok]]
  obtain n where n: "length L = Suc n" using s(2) by (cases L) auto
  have tip: "tipFromQuery d = Inr \<lparr>TipHeight = word_of_nat n, TipHash = Hash (last L), TipTimestamp = Timestamp (last L),
      TipDifficulty = Difficulty (last L), TipWork = chain_work L\<rparr>" using represents_tip [OF o(1)] n by simp
  have u: "unat (word_of_nat n :: u64) = n" "unat (word_of_nat e :: u64) = e" "unat (word_of_nat p :: u64) = p"
    using s(1) n e(1,3) by (simp_all add: unat_word_of_nat_64)
  have pr: "prunedThrough d = Inr (word_of_nat p)" using o(1) by (simp add: represents_def)
  have guards: "\<not> (word_of_nat e :: u64) > word_of_nat n" "\<not> uint (word_of_nat e :: u64) > MaxInt64" "\<not> (word_of_nat e :: u64) < word_of_nat p"
    using e(1,3) n s(1) u by (simp_all add: word_less_nat_alt not_less uint_of_nat_small MaxInt64_val)
  have cnt: "unat (word_of_nat n - word_of_nat e :: u64) = n - e"
    using guards(1) u by (simp add: unat_sub not_less)
  let ?col = "newOrphanedMempoolCollector (int MaxPendingTransactions) maxOrphanedMempoolBytes"
  have "n - e + p < length L" using e(1,3) n by simp
  from disconnectLoop_complete [OF o(1,2) this new_collector_bounded] obtain d1 col where
    l: "disconnectLoop C (n - e) (d, ?col) = Inr (d1, col)" "orphans_bounded col" by blast
  have r1: "represents C now d1 (take (Suc e) R) sts us p" "pool_part d1 = pool_part d"
    using disconnect_loop_ok [OF o(1,2) l(1)] n e(1,2) by (simp_all add: Suc_diff_le)
  have tab1: "pool_tables d1" by (rule pool_tables_cong [OF o(2) r1(2)])
  have "0 < Suc e" "Suc e + (k - Suc e) \<le> length R" using e by simp_all
  from connect_run [OF r1(1) tab1 other inj this t] obtain d2 now2 sts2 us2 where
    c: "foldE (\<lambda>d i. connectBlockAtTime C d (R ! (Suc e + i)) t') d1 [0..<k - Suc e] = Inr d2"
    "represents C now2 d2 (take k R) sts2 us2 p" "pool_part d2 = pool_part d1" "pool_tables d2"
    using e(4) by auto
  have fold: "foldE (\<lambda>d index. attempt (blockAt index) (\<lambda>b. connectBlockAtTime C d b t')) d1 [0..<nat (int (k - Suc e))] = Inr d2"
    using c(1) by (subst foldE_cong [OF HOL.refl HOL.refl]) (simp_all add: at)
  have seq: "dbMempoolSeq d2 = dbMempoolSeq d" "dbMempool d2 = dbMempool d"
    using c(3) r1(2) by (simp_all add: pool_part_def)
  have "length (dbMempool d) \<le> MaxPendingTransactions" using pool_length [OF o(3)] by (simp add: pool_txs_def)
  then have "dbMempoolSeq d2 + int (length (orphanTransactions col)) + int (length (dbMempool d2)) \<le> MaxInt64"
    using orphans_count [OF l(2)] room unfolding seq by linarith
  moreover have "length (take k R) < 9223372036854775808" using short by simp
  ultimately obtain d' where d': "rebuildMempool C t d2 (orphanTransactions col) = Inr d'"
    using rebuild_succeeds [OF c(2,4)] by blast
  obtain st'' where "ledger_ok C now2 d' (take k R) sts2 us2 p st''" using rebuild_ok(1) [OF c(2,4) d'] by blast
  moreover have "replaceFromSourceAtTime C t d (word_of_nat e) (int (k - Suc e)) (Some blockAt) t' = Inr d'"
    using guards cnt l(1) fold d' work e(4)
    by (simp add: replaceFromSourceAtTime_def tip pr represents_tip [OF c(2), unfolded One_nat_def])
  ultimately show ?thesis by blast
qed

text \<open>
  From the first request to the committed replacement: a node that synchronises with an honest peer whose
  chain has more work ends on that chain. And a node of this program is such a peer.
\<close>

section \<open>The first page\<close>

definition start_walk :: "block list \<Rightarrow> nat \<Rightarrow> header_walk" where
  "start_walk L a = fresh_walk\<lparr>WkEffective := word_of_nat a, WkWork := chain_work (take (Suc a) L),
     WkPrior := header_window (take (Suc a) L), WkPrevious := header_of (L ! a)\<rparr>"

lemma startWalk_ok:
  assumes rep: "represents C now d L sts us p" and a: "a < length L" "Hash (L ! a) = HrCommonHash r" "HrCommonHeight r = word_of_nat a"
  shows "startWalk d r fresh_walk = Inr (start_walk L a)"
proof -
  have u: "unat (word_of_nat a :: u64) = a" using a(1) represents_start(5) [OF rep] by (simp add: unat_word_of_nat_64)
  have ne: "header_window (take (Suc a) L) \<noteq> []" using a(1) by auto
  have "last (take (Suc a) L) = L ! a" using a(1) by (simp add: take_Suc_conv_app_nth)
  then have "last (header_window (take (Suc a) L)) = header_of (L ! a)" using a(1) last_window [of "take (Suc a) L"] by (cases L) simp_all
  then show ?thesis
    using read_hash [OF rep, of "word_of_nat a"] read_work [OF rep, of "word_of_nat a"] headerWindow_ok [OF rep a(1)] a u
      go_index_last [OF ne]
    by (simp add: startWalk_def start_walk_def)
qed

lemma start_walked:
  assumes "a < length L" "a < length R" "take (Suc a) L = take (Suc a) R"
  shows "walked L R a a (Suc a) (start_walk L a)"
proof -
  have "L ! a = R ! a" using assms by (metis lessI nth_take)
  then show ?thesis using assms by (simp add: walked_def start_walk_def fresh_walk_def)
qed

lemma find_better:
  assumes rep: "represents C now d L sts us p"
    and tip: "TipHeight t = word_of_nat (length L - 1)" "TipWork t = chain_work L"
    and free: "collision_free L R" and valid: "headers_valid C vt L" "headers_valid C vt R"
    and peer: "serves_chain source L R q" and short: "length L \<le> 2 ^ 53"
    and loc: "BlockLocator C d = Inr loc" "find (\<lambda>x. x \<in> Hash ` set R) loc = Some (Hash (R ! a))" "a < length R"
    and f: "take f L = take f R" "f \<le> length L" "p < f"
    and K: "K \<le> length R" "chain_work L < chain_work (take K R)" "K \<le> Suc a + 19968"
  shows "\<exists>e k. findBetterBranch C (Inr ()) (\<lambda>_. d) source t vt = Inr (Some (word_of_nat e, branch_headers R e k)) \<and>
     better_branch L R f e k \<and> k - Suc e \<le> 20000"
proof -
  have ho: "heights_ok L" "heights_ok R" using valid by (simp_all add: headers_valid_def)
  have l: "length loc \<le> 64" "set loc \<subseteq> Hash ` set L" using BlockLocator_ok [OF rep short] loc(1) by auto
  have "Hash (R ! a) \<in> set loc" using loc(2) by (metis find_Some_iff nth_mem)
  then have "Hash (R ! a) \<in> Hash ` set L" using l(2) by blast
  then obtain b where "b \<in> set L" "Hash b = Hash (R ! a)" by (metis imageE)
  then obtain j where j: "j < length L" "Hash (L ! j) = Hash (R ! a)" by (metis in_set_conv_nth)
  then have "L ! j = R ! a" using collision_free_eq [OF free, of "L ! j" "R ! a"] loc(3) by simp
  moreover from this have "(word_of_nat j :: u64) = word_of_nat a"
  proof -
    have "Height (L ! j) = word_of_nat j" using ho(1) j(1) by (simp add: heights_ok_def)
    moreover have "Height (R ! a) = word_of_nat a" using ho(2) loc(3) by (simp add: heights_ok_def)
    ultimately show ?thesis using \<open>L ! j = R ! a\<close> by simp
  qed
  moreover have "j < 18446744073709551616" "a < 18446744073709551616"
    using ho j(1) loc(3) by (auto simp: heights_ok_def)
  ultimately have "j = a" "L ! j = R ! a" using unat_word_of_nat_64 by metis+
  then have a: "a < length L" "L ! a = R ! a" using j(1) by simp_all
  have shared: "take (Suc a) L = take (Suc a) R" by (rule shared_prefix [OF valid free a(1) loc(3) a(2)])
  note w = start_walked [OF a(1) loc(3) shared]
  have "set loc \<subseteq> Hash ` (set L \<union> set R)" using l(2) by auto
  then obtain i where i: "i < length R" "Hash (R ! i) = Hash (R ! a)"
    "SrcHeaders source 0 \<lparr>HqLocator = loc, HqLimit = int maxSyncHeaderBatch\<rparr> = Inr (headers_after R i)"
    using peer l(1) loc(2) unfolding serves_chain_def by blast
  have "R ! i = R ! a" using free i(1,2) loc(3) by (auto simp: collision_free_def dest: inj_onD)
  then have resp: "SrcHeaders source 0 \<lparr>HqLocator = loc, HqLimit = int maxSyncHeaderBatch\<rparr> = Inr (headers_after R a)"
    using heights_inj [OF ho(2) i(1) loc(3)] i(3) by simp
  have start: "startWalk d (headers_after R a) fresh_walk = Inr (start_walk L a)"
    by (rule startWalk_ok [OF rep a(1)]) (simp_all add: headers_after_def a(2))
  have aK: "Suc a < K"
  proof (rule ccontr)
    assume no: "\<not> Suc a < K"
    have "0 < K" using K(2) by (cases K) (simp_all add: chain_work_def)
    then have "chain_work (take K R) \<le> chain_work (take (Suc a) L)"
      unfolding shared using no by (intro chain_work_mono) simp_all
    also have "\<dots> \<le> chain_work (take (length L) L)" using a(1) by (intro chain_work_mono) simp_all
    finally show False using K(2) by simp
  qed
  let ?c = "min 128 (length R - Suc a)"
  have "Suc a + ?c \<le> length R" using aK K(1) by linarith
  from walk_run [OF rep tip(1) free valid w this] obtain e' w' where run:
    "foldE (walkHeader C d t vt) (start_walk L a) (map header_of (take ?c (drop (Suc a) R))) = Inr w'"
    "walked L R a e' (Suc a + ?c) w'" by blast
  have page: "map header_of (take maxSyncHeaderBatch (drop (Suc a) R)) = map header_of (take ?c (drop (Suc a) R))"
    by (simp add: maxSyncHeaderBatch_def min_def)
  have nonempty: "map header_of (take ?c (drop (Suc a) R)) \<noteq> []" "length (map header_of (take ?c (drop (Suc a) R))) = ?c"
    using aK K(1) by auto
  have f0: "WkHeaders fresh_walk = []" by (simp add: fresh_walk_def)
  have common: "HrProtocol (headers_after R a) = NetworkID" "HrHeaders (headers_after R a) = map header_of (take ?c (drop (Suc a) R))"
    by (simp_all add: headers_after_def page del: take_map)
  have step: "syncPage C d t vt fresh_walk (SrcHeaders source 0 \<lparr>HqLocator = loc, HqLimit = int maxSyncHeaderBatch\<rparr>) = Inr (Some (w', ?c))"
    using nonempty run(1) unfolding resp syncPage_def attempt_Inr common f0 start
    by (simp add: maxSyncHeaderBatch_def maxHeadersPerSync_def)
  note dec = decide [OF rep tip f run(2)]
  have go: "findBetterBranch C (Inr ()) (\<lambda>_. d) source t vt = headerPages C (\<lambda>_. d) source t vt 0 loc fresh_walk"
    using loc(1) by (simp add: findBetterBranch_def)
  have lt: "length (WkHeaders fresh_walk) < maxHeadersPerSync" by (simp add: f0 maxHeadersPerSync_def)
  show ?thesis
  proof (cases "chain_work L < chain_work (take (Suc a + ?c) R)")
    case True
    from dec(2) [OF this] obtain k' where b: "k' \<le> Suc a + ?c" "adoptable d t w' = Inr (Some (word_of_nat e', branch_headers R e' k'))"
      "better_branch L R f e' k'" by blast
    have "headerPages C (\<lambda>_. d) source t vt 0 loc fresh_walk = Inr (Some (word_of_nat e', branch_headers R e' k'))"
      unfolding headerPages.simps [of C "\<lambda>_. d" source t vt 0 loc fresh_walk] using lt step b(2) by simp
    moreover have "a \<le> e'" using run(2) by (simp add: walked_def)
    then have "k' - Suc e' \<le> 20000" using b(1) by linarith
    ultimately show ?thesis using b(3) go by auto
  next
    case False
    have low: "Suc a + ?c < K"
    proof (rule ccontr)
      assume "\<not> Suc a + ?c < K"
      then have "chain_work (take K R) \<le> chain_work (take (Suc a + ?c) R)" using aK by (intro chain_work_mono) simp_all
      then show False using False K(2) by simp
    qed
    then have c: "?c = 128" using K(1) by linarith
    have "headerPages C (\<lambda>_. d) source t vt 0 loc fresh_walk = headerPages C (\<lambda>_. d) source t vt 1 [Hash (WkPrevious w')] w'"
      unfolding headerPages.simps [of C "\<lambda>_. d" source t vt 0 loc fresh_walk]
      using lt step dec(1) False c by (simp add: maxSyncHeaderBatch_def)
    moreover have "Suc a + ?c = Suc a + 128 * 1" using c by simp
    note pages_find [OF rep tip free valid peer f K run(2) this zero_less_one low, of 1]
    ultimately show ?thesis using go by simp
  qed
qed

section \<open>Adoption\<close>

text \<open>The file and the context cause no error.\<close>

definition quiet :: "staging_env \<Rightarrow> bool" where
  "quiet env \<longleftrightarrow> EnvSlot env = Inr () \<and> EnvCreate env = Inr () \<and> EnvFlush env = Inr () \<and> (\<forall>k. EnvLive env k = Inr ())"

text \<open>The encoding of blocks is undone by the decoding and keeps the bodies within the limits.\<close>

definition frame_size :: "block_codec \<Rightarrow> block \<Rightarrow> nat" where
  "frame_size X b = (case MarshalBlock X b of Inl _ \<Rightarrow> 0 | Inr e \<Rightarrow> length (frame e))"

definition encodable :: "block_codec \<Rightarrow> block list \<Rightarrow> bool" where
  "encodable X bs \<longleftrightarrow>
     list_all (\<lambda>b. case MarshalBlock X b of Inl _ \<Rightarrow> False
       | Inr e \<Rightarrow> e \<noteq> [] \<and> int (length e) \<le> maxBlockBodyBytes \<and> UnmarshalBlock X e = Inr b) bs \<and>
     int (\<Sum>b\<leftarrow>bs. frame_size X b) \<le> maxStagedForkBytes"

lemma encodable_part: "encodable X (xs @ ys @ zs) \<Longrightarrow> encodable X ys"
  by (auto simp: encodable_def)

lemma encodable_frames:
  assumes "encodable X bs"
  shows "\<exists>es. list_all2 (staged_as X) bs es \<and> int (length (concat (map frame es))) \<le> maxStagedForkBytes"
    and "\<And>b e. b \<in> set bs \<Longrightarrow> MarshalBlock X b = Inr e \<Longrightarrow> e \<noteq> [] \<and> UnmarshalBlock X e = Inr b"
proof -
  have key: "\<exists>es. list_all2 (staged_as X) bs es \<and> length (concat (map frame es)) = (\<Sum>b\<leftarrow>bs. frame_size X b)"
    if "list_all (\<lambda>b. case MarshalBlock X b of Inl _ \<Rightarrow> False
       | Inr e \<Rightarrow> e \<noteq> [] \<and> int (length e) \<le> maxBlockBodyBytes \<and> UnmarshalBlock X e = Inr b) bs"
    using that
  proof (induction bs)
    case (Cons b bs)
    then obtain e es where "MarshalBlock X b = Inr e" "int (length e) \<le> maxBlockBodyBytes" "list_all2 (staged_as X) bs es"
      "length (concat (map frame es)) = (\<Sum>b\<leftarrow>bs. frame_size X b)" by (auto split: sum.splits)
    then have "list_all2 (staged_as X) (b # bs) (e # es)" "length (concat (map frame (e # es))) = (\<Sum>b\<leftarrow>b # bs. frame_size X b)"
      by (simp_all add: staged_as_def) (simp add: frame_size_def)
    then show ?case by blast
  qed simp
  obtain es where "list_all2 (staged_as X) bs es" "length (concat (map frame es)) = (\<Sum>b\<leftarrow>bs. frame_size X b)"
    using key assms unfolding encodable_def by blast
  then show "\<exists>es. list_all2 (staged_as X) bs es \<and> int (length (concat (map frame es))) \<le> maxStagedForkBytes"
    using assms by (intro exI [of _ es]) (simp add: encodable_def)
  show "\<And>b e. b \<in> set bs \<Longrightarrow> MarshalBlock X b = Inr e \<Longrightarrow> e \<noteq> [] \<and> UnmarshalBlock X e = Inr b"
    using assms by (force simp: encodable_def list_all_iff)
qed

lemma maybePrune_ok:
  assumes ok: "ledger_ok C now d blocks sts us p st"
  shows "\<exists>p'. ledger_ok C now (fst (maybePrune depth d)) blocks sts us p' st"
proof (cases "depth = 0")
  case False
  show ?thesis
  proof (cases "Prune d depth")
    case (Inr r)
    obtain d' k where "r = (d', k)" by (cases r)
    then show ?thesis using prune_ok [OF ok, of depth d' k] Inr False by (auto simp: maybePrune_def)
  qed (use ok False in \<open>auto simp: maybePrune_def\<close>)
qed (use ok in \<open>auto simp: maybePrune_def\<close>)

lemma sync_adopts:
  assumes ok: "ledger_ok C now d L sts us p st" and other: "replayed C nowR R stsR"
    and tip: "Tip d = Inr t" and free: "collision_free L R" and peer: "serves_chain source L R q"
    and times: "\<And>i. i < length L \<Longrightarrow> now i \<le> vt" "\<And>i. i < length R \<Longrightarrow> nowR i \<le> vt"
    and loc: "BlockLocator C d = Inr loc" "find (\<lambda>x. x \<in> Hash ` set R) loc = Some (Hash (R ! a))" "a < length R"
    and f: "take f L = take f R" "f \<le> length L" "p < f" "q < f"
    and K: "K \<le> length R" "chain_work L < chain_work (take K R)" "K \<le> Suc a + 19968"
    and env: "quiet env" and codec: "encodable X (drop f R)"
    and room: "dbMempoolSeq d + 2 * int MaxPendingTransactions \<le> MaxInt64" and short: "length L \<le> 2 ^ 53" "length R < 9223372036854775808"
  shows "\<exists>d' k now' sts' us' p' st'. syncRemoteChainFromAtTime C X env (Inr ()) depth clock (\<lambda>_. d) d source t vt = Inr (d', True) \<and>
     ledger_ok C now' d' (take k R) sts' us' p' st' \<and> chain_work L < chain_work (take k R)"
proof -
  note rep = ledger_okD(1) [OF ok]
  have rL: "replayed C now L sts" using rep by (simp add: represents_def)
  have t: "TipHeight t = word_of_nat (length L - 1)" "TipWork t = chain_work L"
    using tip represents_tip [OF rep] by (auto simp: Tip_def)
  have valid: "headers_valid C vt L" "headers_valid C vt R"
    using replayed_headers_valid [OF rL] replayed_headers_valid [OF other] times by blast+
  from find_better [OF rep t free valid peer short(1) loc f(1-3) K] obtain e k where
    b: "findBetterBranch C (Inr ()) (\<lambda>_. d) source t vt = Inr (Some (word_of_nat e, branch_headers R e k))"
    "better_branch L R f e k" "k - Suc e \<le> 20000" by blast
  have e: "f \<le> Suc e" "e < length L" "take (Suc e) L = take (Suc e) R" "Suc e < k" "k \<le> length R"
    "chain_work L < chain_work (take k R)" using b(2) by (simp_all add: better_branch_def)
  let ?bs = "drop (Suc e) (take k R)"
  have len: "length ?bs = k - Suc e" "length (branch_headers R e k) = k - Suc e" using e(5) by (simp_all add: branch_headers_def)
  have "drop f R = take (Suc e - f) (drop f R) @ drop (Suc e) R"
    using append_take_drop_id [of "Suc e - f" "drop f R"] e(1) by simp
  moreover have "drop (Suc e) R = ?bs @ drop k R"
    using append_take_drop_id [of "k - Suc e" "drop (Suc e) R"] e(4) by (simp add: drop_take)
  ultimately have part: "encodable X ?bs" using codec encodable_part by metis
  obtain es where es: "list_all2 (staged_as X) ?bs es" "int (length (concat (map frame es))) \<le> maxStagedForkBytes"
    using encodable_frames(1) [OF part] by blast
  let ?P = "\<lambda>b h. h = header_of b \<and> b \<in> set ?bs"
  have P: "list_all2 ?P ?bs (branch_headers R e k)"
    by (simp add: branch_headers_def list_all2_conv_all_nth)
  have same: "\<And>b h. ?P b h \<Longrightarrow> sameBlockHeader b h" by (simp add: sameBlockHeader_iff header_of_def)
  have ho: "heights_ok R" using valid(2) by (simp add: headers_valid_def)
  have inj: "inj_on Hash (set R)" using free by (auto simp: collision_free_def inj_on_Un)
  have "distinct R" using heights_inj [OF ho] by (auto simp: distinct_conv_nth)
  moreover have "inj_on header_of (set R)" using inj by (metis header_of_sel(4) inj_onD inj_onI)
  then have "inj_on header_of (set ?bs)" by (rule inj_on_subset) (auto dest!: in_set_dropD in_set_takeD)
  ultimately have dist: "distinct (branch_headers R e k)" by (simp add: branch_headers_def distinct_map)
  have serves: "SrcBlocks source n (map Hash hs) = Inr \<lparr>BrProtocol = NetworkID, BrBlocks = bs\<rparr>"
    if "list_all2 ?P bs hs" "distinct hs" "hs \<noteq> []" "length hs \<le> maxBlockDownloadBatch" for n bs hs
  proof -
    have hs: "hs = map header_of bs" "set bs \<subseteq> set ?bs"
      using that(1) by (induction rule: list_all2_induct) auto
    have "set ?bs \<subseteq> set (drop (Suc q) R)"
    proof
      fix x assume "x \<in> set ?bs"
      then have "x \<in> set (drop (Suc e) R)" by (auto simp: drop_take dest: in_set_takeD)
      then show "x \<in> set (drop (Suc q) R)" using set_drop_subset_set_drop [of "Suc q" "Suc e" R] f(4) e(1) by auto
    qed
    moreover have "distinct bs" "bs \<noteq> []" "length bs \<le> maxBlockDownloadBatch" "map Hash hs = map Hash bs"
      using that(2-4) by (simp_all add: hs(1) distinct_map)
    ultimately show ?thesis using peer hs(2) unfolding serves_chain_def by (metis subset_trans)
  qed
  have size: "branch_headers R e k \<noteq> []" "length (branch_headers R e k) \<le> maxHeadersPerSync"
    using len(2) e(4) b(3) by (auto simp: maxHeadersPerSync_def)
  have quiet: "EnvSlot env = Inr ()" "EnvCreate env = Inr ()" "EnvFlush env = Inr ()" "\<And>k. EnvLive env k = Inr ()"
    using env by (simp_all add: quiet_def)
  have "\<exists>s. stageBlocksFromSource X env source (branch_headers R e k) = Inr s \<and>
      (\<forall>i < length (branch_headers R e k). stagedSource X s i = Inr (?bs ! i))"
  proof (rule stage_complete [where P = ?P and es = es and blocks = ?bs])
    show "SrcBlocks source n (map Hash hs) = Inr \<lparr>BrProtocol = NetworkID, BrBlocks = bs\<rparr>"
      if "list_all2 ?P bs hs" "distinct hs" "hs \<noteq> []" "length hs \<le> maxBlockDownloadBatch" for n bs hs
      by (rule serves [OF that])
    show "e \<noteq> [] \<and> UnmarshalBlock X e = Inr b" if "b \<in> set ?bs" "MarshalBlock X b = Inr e" for b e
      by (rule encodable_frames(2) [OF part that])
  qed (fact P es size dist quiet same)+
  then obtain staged where staged: "stageBlocksFromSource X env source (branch_headers R e k) = Inr staged"
    "\<forall>i < length (branch_headers R e k). stagedSource X staged i = Inr (?bs ! i)" by (elim exE conjE)
  have at: "stagedSource X staged i = Inr (R ! (Suc e + i))" if "i < k - Suc e" for i
    using staged(2) that len e(5) by simp
  have "p \<le> e" using f(3) e(1) by simp
  from replace_complete [OF ok other inj e(2,3) this e(4-6) times(2) at room short(2)] obtain d' now' sts' us' st' where
    r: "replaceFromSourceAtTime C clock d (word_of_nat e) (int (k - Suc e)) (Some (stagedSource X staged)) vt = Inr d'"
    "ledger_ok C now' d' (take k R) sts' us' p st'" by blast
  have "syncRemoteChainFromAtTime C X env (Inr ()) depth clock (\<lambda>_. d) d source t vt = Inr (fst (maybePrune depth d'), True)"
    using b(1) staged(1) r(1) len(2) by (simp add: syncRemoteChainFromAtTime_def)
  moreover obtain p' where "ledger_ok C now' (fst (maybePrune depth d')) (take k R) sts' us' p' st'"
    using maybePrune_ok [OF r(2)] by blast
  ultimately show ?thesis using e(6) by blast
qed

section \<open>A node as the peer\<close>

text \<open>The responses of the node stay within the limits of the reader.\<close>

definition fits_responses :: "json_sizes \<Rightarrow> block list \<Rightarrow> bool" where
  "fits_responses J R \<longleftrightarrow> (\<forall>i < length R. HeadersBytes J (headers_after R i) \<le> maxProtocolBytes) \<and>
     (\<forall>bs. set bs \<subseteq> set R \<longrightarrow> BlocksBytes J \<lparr>BrProtocol = NetworkID, BrBlocks = bs\<rparr> \<le> int (length bs) * maxBlockBodyBytes + 65536)"

lemma collectBlocks_ok:
  assumes rep: "represents C now d R sts us q" and inj: "inj_on Hash (set R)"
  shows "distinct (rev seen @ map Hash bs) \<Longrightarrow> set bs \<subseteq> set (drop (Suc q) R) \<Longrightarrow> collectBlocks d seen (map Hash bs) = Inr bs"
proof (induction bs arbitrary: seen)
  case (Cons b bs)
  have "b \<in> set (drop (Suc q) R)" using Cons.prems(2) by simp
  then obtain i where "i < length (drop (Suc q) R)" "drop (Suc q) R ! i = b" by (metis in_set_conv_nth)
  then have "Suc q + i < length R" "b = R ! (Suc q + i)" by simp_all
  then have "BlockByHash d (Hash b) = Inr b" using read_body [OF rep inj, of "Suc q + i"] by simp
  moreover have "distinct (rev (Hash b # seen) @ map Hash bs)" "Hash b \<notin> set seen" using Cons.prems(1) by auto
  ultimately show ?case using Cons by simp
qed simp

lemma header_page:
  assumes rep: "represents C now e R sts us q" and inj: "inj_on Hash (set R)"
    and loc: "length loc \<le> 64" "find (\<lambda>x. x \<in> Hash ` set R) loc = Some x"
  shows "\<exists>i < length R. Hash (R ! i) = x \<and> FindLocator e loc = Inr (word_of_nat i, x) \<and>
     HeadersFrom e (word_of_nat i + 1) 128 = Inr (HrHeaders (headers_after R i))"
proof -
  obtain i where i: "i < length R" "findLocatorHash e loc = Inr (word_of_nat i, x)" "Hash (R ! i) = x"
    using findLocator_ok [OF rep inj loc(2)] by blast
  have ne: "loc \<noteq> []" using loc(2) by auto
  have "Suc i \<le> 9223372036854775808" using i(1) represents_start(5) [OF rep] by simp
  have w: "(word_of_nat i + 1 :: u64) = word_of_nat (Suc i)" by (simp add: add.commute)
  have "HeadersFrom e (word_of_nat (Suc i)) 128 = Inr (map header_of (take 128 (drop (Suc i) R)))"
  proof (cases "Suc i \<le> 9223372036854775807")
    case True
    then show ?thesis using headersFrom_ok [OF rep, of "Suc i" 128] i(1) by simp
  next
    case False
    then have "length R = Suc i" "Suc i = 9223372036854775808" using i(1) represents_start(5) [OF rep] by linarith+
    moreover have "uint (word_of_nat 9223372036854775808 :: u64) = 9223372036854775808"
      using uint_of_nat_small [of 9223372036854775808] by simp
    ultimately show ?thesis by (simp add: HeadersFrom_def MaxInt64_val del: of_nat_Suc)
  qed
  then show ?thesis using i loc(1) ne
    by (intro exI [of _ i]) (simp add: w FindLocator_def headers_after_def maxSyncHeaderBatch_def del: of_nat_Suc)
qed

lemma httpSource_serves:
  assumes rep: "represents C now e R sts us q" and inj: "inj_on Hash (set R)" and J: "fits_responses J R" and free: "\<And>n. free n"
  shows "serves_chain (httpSource J free (\<lambda>_. e)) L R q"
  unfolding serves_chain_def
proof (intro conjI allI impI)
  fix n loc x assume loc: "length loc \<le> 64" "set loc \<subseteq> Hash ` (set L \<union> set R)" "find (\<lambda>x. x \<in> Hash ` set R) loc = Some x"
  obtain i where i: "i < length R" "Hash (R ! i) = x" "FindLocator e loc = Inr (word_of_nat i, x)"
    "HeadersFrom e (word_of_nat i + 1) 128 = Inr (HrHeaders (headers_after R i))"
    using header_page [OF rep inj loc(1,3)] by blast
  then have "handleHeaders e (Inr \<lparr>HqLocator = loc, HqLimit = int maxSyncHeaderBatch\<rparr>) = Inr (headers_after R i)"
    by (simp add: handleHeaders_def maxSyncHeaderBatch_def maxHeaderBatch_def headers_after_def)
  moreover have "\<not> HeadersBytes J (headers_after R i) > maxProtocolBytes" using J i(1) unfolding fits_responses_def by (simp add: not_less)
  ultimately show "\<exists>i < length R. Hash (R ! i) = x \<and>
      SrcHeaders (httpSource J free (\<lambda>_. e)) n \<lparr>HqLocator = loc, HqLimit = int maxSyncHeaderBatch\<rparr> = Inr (headers_after R i)"
    using i(1,2) by (intro exI [of _ i]) (simp add: httpSource_def postJSON_def)
next
  fix n and bs :: "block list"
  assume bs: "bs \<noteq> []" "length bs \<le> maxBlockDownloadBatch" "distinct bs" "set bs \<subseteq> set (drop (Suc q) R)"
  have sub: "set bs \<subseteq> set R" using bs(4) by (auto dest: in_set_dropD)
  have "distinct (map Hash bs)" using bs(3) inj_on_subset [OF inj sub] by (simp add: distinct_map)
  then have "collectBlocks e [] (map Hash bs) = Inr bs" using collectBlocks_ok [OF rep inj, of "[]" bs] bs(4) by simp
  moreover have small: "BlocksBytes J \<lparr>BrProtocol = NetworkID, BrBlocks = bs\<rparr> \<le> int (length bs) * maxBlockBodyBytes + 65536"
    using J sub by (simp add: fits_responses_def)
  moreover have "int (length bs) * maxBlockBodyBytes + 65536 \<le> maxBlocksResponseBytes"
    using bs(2) by (simp add: maxBlocksResponseBytes_def maxBlockBodyBytes_def MaxBlockBytes_def)
  ultimately show "SrcBlocks (httpSource J free (\<lambda>_. e)) n (map Hash bs) = Inr \<lparr>BrProtocol = NetworkID, BrBlocks = bs\<rparr>"
    using free [of n] bs(1,2)
    by (simp add: httpSource_def postJSON_def handleBlocks_def writeBoundedJSON_def maxBlockBatch_def maxBlockDownloadBatch_def)
qed

end
