(* ===== verification/Peer_Stream.thy ===== *)
theory Peer_Stream
  imports Peer_Socket Peer_Adopt
begin

text \<open>
  The two ends of a realtime connection together: what the requests of one node make of the answers of
  another one that runs the same program.
\<close>

section \<open>Request identifiers\<close>

lemma FormatUint_length: "n < 10 ^ k \<Longrightarrow> 0 < k \<Longrightarrow> length (FormatUint n) \<le> k"
proof (induction n arbitrary: k rule: FormatUint.induct)
  case (1 n)
  show ?case
  proof (cases "n < 10")
    case False
    then obtain j where j: "k = Suc j" "0 < j" using "1.prems" by (cases k; cases "k = 1") auto
    have "n div 10 < 10 ^ j" using "1.prems"(1) j(1) by (simp add: less_mult_imp_div_less mult.commute)
    then show ?thesis using "1.IH" [OF False _ j(2)] False j(1) by (simp add: FormatUint.simps [of n])
  qed (use "1.prems" in \<open>simp add: FormatUint.simps [of n]\<close>)
qed

lemma request_id_valid:
  assumes "0 < unat (w :: u64)"
  shows "validReconcileRequestID (FormatUint (unat w))"
proof -
  have "unat w < 2 ^ LENGTH(64)" by (rule unsigned_less)
  moreover have "2 ^ LENGTH(64) \<le> (10 :: nat) ^ 20" by simp
  ultimately have "unat w < 10 ^ 20" by (rule less_le_trans)
  then have "length (FormatUint (unat w)) \<le> 20" by (intro FormatUint_length) simp_all
  moreover have "FormatUint (unat w) \<noteq> []" by (simp add: FormatUint.simps [of "unat w"])
  moreover have "FormatUint (unat w) \<noteq> ''0''"
  proof
    assume "FormatUint (unat w) = ''0''"
    then have "unat w = dec_value ''0''" by (metis dec_value_FormatUint)
    then show False using assms by (simp add: dec_value_def digit_val_def)
  qed
  ultimately show ?thesis by (simp add: validReconcileRequestID_def)
qed

section \<open>Queueing several messages\<close>

text \<open>The messages can be encoded and fit into the queue.\<close>

definition encoded :: "wire \<Rightarrow> gossipMessage \<Rightarrow> bytes" where
  "encoded W m = (case MarshalGossip W m of Inl _ \<Rightarrow> [] | Inr e \<Rightarrow> e)"

definition sendable :: "wire \<Rightarrow> gossipMessage \<Rightarrow> bool" where
  "sendable W m \<longleftrightarrow> MarshalGossip W m = Inr (encoded W m) \<and> int (length (encoded W m)) \<le> maxProtocolBytes"

definition room :: "peerSocket \<Rightarrow> nat \<Rightarrow> int \<Rightarrow> bool" where
  "room p n len \<longleftrightarrow> \<not> SkSendClosed p \<and> length (SkSend p) + n \<le> sendCapacity \<and> SkQueuedBytes p + len \<le> maxSocketQueuedBytes"

definition queued :: "wire \<Rightarrow> gossipMessage \<Rightarrow> peerSocket \<Rightarrow> peerSocket" where
  "queued W m p = p\<lparr>SkQueuedBytes := SkQueuedBytes p + int (length (encoded W m)), SkSend := SkSend p @ [encoded W m]\<rparr>"

lemma queue_sends:
  assumes "sendable W m" "room p (Suc n) len" "int (length (encoded W m)) \<le> len"
  shows "queue W m p = (True, queued W m p)" "room (queued W m p) n (len - int (length (encoded W m)))"
  using assms by (auto simp: queue_def sendable_def room_def queued_def Let_def)

lemma queued_same [simp]:
  "SkReconcile (queued W m p) = SkReconcile p" "SkPending (queued W m p) = SkPending p"
  "SkRequestSeq (queued W m p) = SkRequestSeq p" "SkSend (queued W m p) = SkSend p @ [encoded W m]"
  "SkSendClosed (queued W m p) = SkSendClosed p"
  "SkQueuedBytes (queued W m p) = SkQueuedBytes p + int (length (encoded W m))"
  by (simp_all add: queued_def)

section \<open>The stream of blocks\<close>

lemma serve_stream:
  assumes "mapE (BlockByHash d) hashes = Inr bs"
    and "\<And>k. k < length bs \<Longrightarrow> sendable W (blockPart i n (index + k) (bs ! k))"
    and "room q (length bs) (int (length bs) * maxProtocolBytes)"
  shows "\<exists>q'. serveBlocksLoop W d i n index hashes q = ((True, None), q') \<and>
     SkSend q' = SkSend q @ map (\<lambda>k. encoded W (blockPart i n (index + k) (bs ! k))) [0..<length bs]"
  using assms
proof (induction hashes arbitrary: bs index q)
  case (Cons hash hashes)
  obtain b cs where b: "BlockByHash d hash = Inr b" "mapE (BlockByHash d) hashes = Inr cs" "bs = b # cs"
    using Cons.prems(1) by (auto simp: mapE_Cons res_simps)
  let ?m = "blockPart i n index b"
  have m: "sendable W ?m" using Cons.prems(2) [of 0] b(3) by simp
  have len: "int (length (encoded W ?m)) \<le> maxProtocolBytes" using m by (simp add: sendable_def)
  have "0 \<le> maxProtocolBytes * int (length cs)" by (simp add: maxProtocolBytes_def maxBlockBodyBytes_def)
  moreover have "int (length bs) * maxProtocolBytes = maxProtocolBytes + maxProtocolBytes * int (length cs)"
    using b(3) by (simp add: algebra_simps)
  ultimately have "int (length (encoded W ?m)) \<le> int (length bs) * maxProtocolBytes" using len by linarith
  note queue_sends [OF m _ this, of q "length cs"]
  then have q: "queue W ?m q = (True, queued W ?m q)" "room (queued W ?m q) (length cs) (int (length bs) * maxProtocolBytes - int (length (encoded W ?m)))"
    using Cons.prems(3) b(3) by simp_all
  have "room (queued W ?m q) (length cs) (int (length cs) * maxProtocolBytes)"
    using q(2) len b(3) by (simp add: room_def algebra_simps)
  moreover have "sendable W (blockPart i n (Suc index + k) (cs ! k))" if "k < length cs" for k
    using Cons.prems(2) [of "Suc k"] b(3) that by simp
  ultimately obtain q' where q': "serveBlocksLoop W d i n (Suc index) hashes (queued W ?m q) = ((True, None), q')"
    "SkSend q' = SkSend (queued W ?m q) @ map (\<lambda>k. encoded W (blockPart i n (Suc index + k) (cs ! k))) [0..<length cs]"
    using Cons.IH [OF b(2)] by blast
  have "[0..<length bs] = 0 # map Suc [0..<length cs]" by (simp add: b(3) map_Suc_upt upt_conv_Cons del: upt_Suc)
  then show ?case using b(1,3) q(1) q' by (simp add: comp_def)
qed simp

text \<open>The loop of the request with the parts in any order: what is seen comes from the peer, at its index.\<close>

definition seen_parts :: "nat \<Rightarrow> (nat \<Rightarrow> socket_event) \<Rightarrow> nat \<Rightarrow> block list \<times> bool list \<Rightarrow> bool" where
  "seen_parts n events j st \<longleftrightarrow> length (fst st) = n \<and> length (snd st) = n \<and> card {k. k < n \<and> snd st ! k} = j \<and>
     (\<forall>k < n. snd st ! k \<longrightarrow> (\<exists>r. Answer r \<in> events ` {..<j} \<and> GmPart r = int k \<and> GmParts r = int n \<and> GmBlock r = Some (fst st ! k)))"

lemma receive_seen:
  assumes "seen_parts n events j st" "receiveBlock n st (events j) = Inr st'"
  shows "seen_parts n events (Suc j) st'"
proof -
  obtain r b where r: "events j = Answer r" "GmBlock r = Some b" "GmParts r = int n" "0 \<le> GmPart r" "GmPart r < int n"
    "\<not> snd st ! nat (GmPart r)" "st' = ((fst st)[nat (GmPart r) := b], (snd st)[nat (GmPart r) := True])"
    using assms(2) by (auto simp: receiveBlock_def split: socket_event.splits option.splits if_splits)
  define k where "k = nat (GmPart r)"
  have k: "k < n" "\<not> snd st ! k" "GmPart r = int k" using r(4-6) by (simp_all add: k_def)
  have len: "length (fst st) = n" "length (snd st) = n" using assms(1) by (simp_all add: seen_parts_def)
  have "{i. i < n \<and> snd st' ! i} = insert k {i. i < n \<and> snd st ! i}"
    using k len r(7) by (auto simp: k_def [symmetric] nth_list_update)
  then have "card {i. i < n \<and> snd st' ! i} = Suc j" using k(2) assms(1) by (simp add: seen_parts_def)
  moreover have "\<exists>r. Answer r \<in> events ` {..<Suc j} \<and> GmPart r = int i \<and> GmParts r = int n \<and> GmBlock r = Some (fst st' ! i)"
    if i: "i < n" "snd st' ! i" for i
  proof (cases "i = k")
    case True
    have "fst st' ! k = b" using r(7) k(1) len(1) by (simp add: k_def [symmetric])
    moreover have "Answer r \<in> events ` {..<Suc j}" using r(1) by (intro image_eqI [of _ _ j]) simp_all
    ultimately show ?thesis using r(2,3) k(3) True by blast
  next
    case False
    then have "snd st ! i" "fst st' ! i = fst st ! i" using i(2) r(7) by (simp_all add: k_def [symmetric])
    then obtain r' where "Answer r' \<in> events ` {..<j}" "GmPart r' = int i" "GmParts r' = int n" "GmBlock r' = Some (fst st' ! i)"
      using assms(1) i(1) unfolding seen_parts_def by metis
    moreover have "events ` {..<j} \<subseteq> events ` {..<Suc j}" by (intro image_mono) auto
    ultimately show ?thesis by blast
  qed
  ultimately show ?thesis using len r(7) by (simp add: seen_parts_def k_def)
qed

lemma receive_fold:
  assumes "foldE (receiveBlock n) st (map events [j..<j + m]) = Inr st'" "seen_parts n events j st"
  shows "seen_parts n events (j + m) st'"
  using assms
proof (induction m arbitrary: j st)
  case (Suc m)
  have "[j..<j + Suc m] = j # [Suc j..<Suc j + m]" by (simp add: upt_conv_Cons)
  then obtain st1 where s: "receiveBlock n st (events j) = Inr st1" "foldE (receiveBlock n) st1 (map events [Suc j..<Suc j + m]) = Inr st'"
    using Suc.prems(1) by (auto simp: res_simps)
  from Suc.IH [OF s(2) receive_seen [OF Suc.prems(2) s(1)]] show ?case by simp
qed simp

lemma start_seen: "seen_parts n events 0 (replicate n zero_block, replicate n False)"
  by (simp add: seen_parts_def)

lemma all_seen:
  assumes "seen_parts n events n st" "k < n"
  shows "snd st ! k"
proof -
  have "{k. k < n \<and> snd st ! k} = {..<n}"
    using assms(1) by (intro card_subset_eq) (auto simp: seen_parts_def)
  then show ?thesis using assms(2) by blast
qed

text \<open>A batch that is returned has exactly the requested length, and every block is what the peer sent as that part.\<close>

lemma requestBlockBatch_sound:
  assumes "requestBlockBatch W hashes events p = (Inr response, p')"
  shows "BrProtocol response = NetworkID \<and> length (BrBlocks response) = length hashes \<and>
     (\<forall>k < length hashes. \<exists>j < length hashes. \<exists>r. events j = Answer r \<and> GmPart r = int k \<and> GmBlock r = Some (BrBlocks response ! k))"
proof -
  let ?n = "length hashes"
  obtain blocks seen where st: "foldE (receiveBlock ?n) (replicate ?n zero_block, replicate ?n False) (map events [0..<0 + ?n]) = Inr (blocks, seen)"
    "response = \<lparr>BrProtocol = NetworkID, BrBlocks = blocks\<rparr>"
    using assms unfolding requestBlockBatch_def by (auto simp: res_simps split: if_splits prod.splits sum.splits)
  have s: "seen_parts ?n events ?n (blocks, seen)" using receive_fold [OF st(1) start_seen] by simp
  have "\<exists>j < ?n. \<exists>r. events j = Answer r \<and> GmPart r = int k \<and> GmBlock r = Some (blocks ! k)" if k: "k < ?n" for k
  proof -
    obtain r where "Answer r \<in> events ` {..<?n}" "GmPart r = int k" "GmBlock r = Some (blocks ! k)"
      using s all_seen [OF s k] k unfolding seen_parts_def fst_conv snd_conv by blast
    then show ?thesis by (auto simp: image_iff) metis
  qed
  then show ?thesis using st(2) s by (simp add: seen_parts_def)
qed

text \<open>The parts in their order: the request returns the blocks.\<close>

lemma receive_stream:
  assumes "\<And>k. k < n \<Longrightarrow> events k = Answer (blockPart i n k (bs ! k))" "length bs = n" "j \<le> n"
  shows "foldE (receiveBlock n) (take j bs @ replicate (n - j) zero_block, replicate j True @ replicate (n - j) False)
     (map events [j..<n]) = Inr (bs, replicate n True)"
  using assms(3)
proof (induction "n - j" arbitrary: j)
  case (Suc m)
  then have j: "j < n" "n - j = Suc (n - Suc j)" by simp_all
  have up: "[j..<n] = j # [Suc j..<n]" using j(1) by (simp add: upt_conv_Cons)
  have len: "length (take j bs) = j" using assms(2) j(1) by simp
  have b: "(take j bs @ replicate (n - j) zero_block)[j := bs ! j] = take (Suc j) bs @ replicate (n - Suc j) zero_block"
    using len j assms(2) by (simp add: list_update_append take_Suc_conv_app_nth)
  have c: "(replicate j True @ replicate (n - j) False)[j := True] = replicate (Suc j) True @ replicate (n - Suc j) False"
    using j by (simp add: list_update_append replicate_append_same)
  have "receiveBlock n (take j bs @ replicate (n - j) zero_block, replicate j True @ replicate (n - j) False) (events j) =
      Inr (take (Suc j) bs @ replicate (n - Suc j) zero_block, replicate (Suc j) True @ replicate (n - Suc j) False)"
    using j(1) by (simp add: assms(1) receiveBlock_def blockPart_def gossip_def b c nth_append del: replicate_Suc)
  then show ?case using Suc.hyps(1) [of "Suc j"] Suc.hyps(2) j(1) by (simp add: up del: replicate_Suc)
qed (use assms(2) in simp)

section \<open>A node at the other end\<close>

text \<open>A connection that can take up a request, and one that is idle on the side that answers.\<close>

definition can_ask :: "peerSocket \<Rightarrow> nat \<Rightarrow> bool" where
  "can_ask p n \<longleftrightarrow> SkReconcile p \<and> SkPending p = [] \<and> room p n (int n * 16384) \<and> unat (SkRequestSeq p) + n < 2 ^ 64"

definition idle :: "peerSocket \<Rightarrow> bool" where
  "idle q \<longleftrightarrow> SkReconcile q \<and> SkSend q = [] \<and> SkQueuedBytes q = 0 \<and> \<not> SkSendClosed q"

lemma idle_room: "idle q \<Longrightarrow> n \<le> 2 \<Longrightarrow> room q n (int n * maxProtocolBytes)"
proof -
  assume q: "idle q" and n: "n \<le> 2"
  have "int n * maxProtocolBytes \<le> 2 * maxProtocolBytes"
    using n by (intro mult_right_mono) (simp_all add: maxProtocolBytes_def maxBlockBodyBytes_def)
  then show "room q n (int n * maxProtocolBytes)" using q n by (simp add: idle_def room_def sendCapacity_def maxSocketQueuedBytes_def)
qed

text \<open>
  A message is carried when it can be sent and the other end decodes it to the same message; the requests are
  small. \<open>wire_carries\<close> says so for the requests and answers about the blocks of \<open>R\<close>.
\<close>

definition carries :: "wire \<Rightarrow> (bytes \<Rightarrow> gossipMessage res) \<Rightarrow> gossipMessage \<Rightarrow> bool" where
  "carries W D m \<longleftrightarrow> sendable W m \<and> D (encoded W m) = Inr m"

definition headersRequestMessage :: "string \<Rightarrow> headersRequest \<Rightarrow> gossipMessage" where
  "headersRequestMessage i request = (gossip ''reconcile_headers_request'')\<lparr>GmRequestID := i, GmHeadersRequest := Some request\<rparr>"

definition headersResponseMessage :: "string \<Rightarrow> headersResponse \<Rightarrow> gossipMessage" where
  "headersResponseMessage i response = (gossip ''reconcile_headers_response'')\<lparr>GmRequestID := i, GmHeadersResponse := Some response\<rparr>"

definition blocksRequestMessage :: "string \<Rightarrow> string list \<Rightarrow> gossipMessage" where
  "blocksRequestMessage i hashes = (gossip ''reconcile_blocks_request'')\<lparr>GmRequestID := i, GmBlocksRequest := Some hashes\<rparr>"

definition request_carried :: "wire \<Rightarrow> gossipMessage \<Rightarrow> bool" where
  "request_carried W m \<longleftrightarrow> sendable W m \<and> length (encoded W m) \<le> 16384"

definition wire_carries :: "wire \<Rightarrow> (bytes \<Rightarrow> gossipMessage res) \<Rightarrow> block list \<Rightarrow> block list \<Rightarrow> bool" where
  "wire_carries W D L R \<longleftrightarrow> (\<forall>i. validReconcileRequestID i \<longrightarrow>
     (\<forall>loc. length loc \<le> 64 \<longrightarrow> set loc \<subseteq> Hash ` (set L \<union> set R) \<longrightarrow>
        request_carried W (headersRequestMessage i \<lparr>HqLocator = loc, HqLimit = int maxSyncHeaderBatch\<rparr>)) \<and>
     (\<forall>hashes. length hashes \<le> maxSocketBlockBatch \<longrightarrow> set hashes \<subseteq> Hash ` set R \<longrightarrow> request_carried W (blocksRequestMessage i hashes)) \<and>
     (\<forall>k < length R. carries W D (headersResponseMessage i (headers_after R k))) \<and>
     (\<forall>n \<le> maxSocketBlockBatch. \<forall>k < n. \<forall>b \<in> set R. carries W D (blockPart i n k b)))"

text \<open>
  The peer answers on a connection \<open>q\<close>; what it queued is decoded at this end, in its order. After that the
  connection stays silent until the deadline.
\<close>

definition heard :: "(bytes \<Rightarrow> gossipMessage res) \<Rightarrow> served \<times> peerSocket \<Rightarrow> nat \<Rightarrow> socket_event" where
  "heard D answer k =
     (let sent = SkSend (snd answer) in
      if k < length sent then (case D (sent ! k) of Inr m \<Rightarrow> Answer m | Inl _ \<Rightarrow> ChannelClosed)
      else ContextEnded DeadlineExceeded)"

definition nextID :: "peerSocket \<Rightarrow> string" where
  "nextID p = FormatUint (unat (SkRequestSeq p + 1))"

lemma ask_step:
  assumes "can_ask p (Suc n)"
  shows "registerRequest expected capacity p = (if capacity \<le> 0 \<or> capacity > int maxSocketBlockBatch
      then (Inl (Errorf ''reconcile response capacity is invalid''), p)
      else (Inr (nextID p), p\<lparr>SkRequestSeq := SkRequestSeq p + 1,
        SkPending := [(nextID p, \<lparr>PrExpected = expected, PrCapacity = nat capacity, PrResponses = []\<rparr>)]\<rparr>))"
    and "validReconcileRequestID (nextID p)" "unat (SkRequestSeq p + 1) = unat (SkRequestSeq p) + 1"
proof -
  show "registerRequest expected capacity p = (if capacity \<le> 0 \<or> capacity > int maxSocketBlockBatch
      then (Inl (Errorf ''reconcile response capacity is invalid''), p)
      else (Inr (nextID p), p\<lparr>SkRequestSeq := SkRequestSeq p + 1,
        SkPending := [(nextID p, \<lparr>PrExpected = expected, PrCapacity = nat capacity, PrResponses = []\<rparr>)]\<rparr>))"
    using assms by (simp add: registerRequest_def can_ask_def nextID_def Let_def maxSocketPendingRequests_def)
  show u: "unat (SkRequestSeq p + 1) = unat (SkRequestSeq p) + 1"
    using assms by (simp add: can_ask_def unat_word_ariths(1))
  show "validReconcileRequestID (nextID p)" unfolding nextID_def by (rule request_id_valid) (simp add: u)
qed

text \<open>The connection after a request: one more message in the queue, nothing pending.\<close>

definition asked :: "wire \<Rightarrow> gossipMessage \<Rightarrow> peerSocket \<Rightarrow> peerSocket" where
  "asked W m p = (queued W m (p\<lparr>SkRequestSeq := SkRequestSeq p + 1\<rparr>))\<lparr>SkPending := []\<rparr>"

lemma asked_can:
  assumes "can_ask p (Suc n)" "request_carried W m"
  shows "can_ask (asked W m p) n" "SkRequestSeq (asked W m p) = SkRequestSeq p + 1"
  using assms ask_step(3) [OF assms(1)] by (auto simp: can_ask_def room_def asked_def queued_def request_carried_def algebra_simps)

lemma ask_queue:
  assumes "can_ask p (Suc n)" "request_carried W m"
  shows "queue W m (p\<lparr>SkRequestSeq := s, SkPending := ps\<rparr>) = (True, queued W m (p\<lparr>SkRequestSeq := s, SkPending := ps\<rparr>))"
proof (rule queue_sends(1))
  show "sendable W m" using assms(2) by (simp add: request_carried_def)
  show "room (p\<lparr>SkRequestSeq := s, SkPending := ps\<rparr>) (Suc n) (int (Suc n) * 16384)" using assms(1) by (simp add: can_ask_def room_def)
  show "int (length (encoded W m)) \<le> int (Suc n) * 16384" using assms(2) by (simp add: request_carried_def)
qed

section \<open>Blocks\<close>

definition peerBlocks :: "wire \<Rightarrow> (bytes \<Rightarrow> gossipMessage res) \<Rightarrow> db \<Rightarrow> peerSocket \<Rightarrow> string \<Rightarrow> string list \<Rightarrow> nat \<Rightarrow> socket_event" where
  "peerBlocks W D e q i hashes = heard D (serveReconcileBlocks W True e (blocksRequestMessage i hashes) q)"

lemma heard_parts:
  assumes q: "idle q" and i: "validReconcileRequestID i" and n: "hashes \<noteq> []" "length hashes \<le> maxSocketBlockBatch" "distinct hashes"
    and bs: "mapE (BlockByHash e) hashes = Inr bs" and parts: "\<And>k b. k < length hashes \<Longrightarrow> b \<in> set bs \<Longrightarrow> carries W D (blockPart i (length hashes) k b)" and k: "k < length hashes"
  shows "peerBlocks W D e q i hashes k = Answer (blockPart i (length hashes) k (bs ! k))"
proof -
  have len: "length bs = length hashes" using bs by (auto simp: mapE_eq_Inr dest: list_all2_lengthD)
  have "length bs \<le> 2" using n(2) len by (simp add: maxSocketBlockBatch_def)
  note r = idle_room [OF q this]
  obtain q' where q': "serveBlocksLoop W e i (length hashes) 0 hashes q = ((True, None), q')"
    "SkSend q' = SkSend q @ map (\<lambda>k. encoded W (blockPart i (length hashes) (0 + k) (bs ! k))) [0..<length bs]"
    using serve_stream [OF bs _ r, of W i "length hashes" 0] parts len by (auto simp: carries_def)
  have "serveReconcileBlocks W True e (blocksRequestMessage i hashes) q = ((True, None), q')"
    using q i n q'(1) by (simp add: serveReconcileBlocks_def validateReconcileRequest_def idle_def blocksRequestMessage_def)
  moreover have "D (encoded W (blockPart i (length hashes) k (bs ! k))) = Inr (blockPart i (length hashes) k (bs ! k))"
    using parts [of k "bs ! k"] k len by (simp add: carries_def)
  ultimately show ?thesis using q q'(2) k len by (simp add: peerBlocks_def heard_def idle_def)
qed

lemma batch_delivered:
  assumes p: "can_ask p (Suc n)" and m: "request_carried W (blocksRequestMessage (nextID p) hashes)"
    and q: "idle q" and h: "hashes \<noteq> []" "length hashes \<le> maxSocketBlockBatch" "distinct hashes"
    and bs: "mapE (BlockByHash e) hashes = Inr bs" and parts: "\<And>k b. k < length hashes \<Longrightarrow> b \<in> set bs \<Longrightarrow> carries W D (blockPart (nextID p) (length hashes) k b)"
    and events: "events = peerBlocks W D e q (nextID p) hashes"
  shows "requestBlockBatch W hashes events p = (Inr \<lparr>BrProtocol = NetworkID, BrBlocks = bs\<rparr>, asked W (blocksRequestMessage (nextID p) hashes) p)"
proof -
  have len: "length bs = length hashes" using bs by (auto simp: mapE_eq_Inr dest: list_all2_lengthD)
  have ev: "events k = Answer (blockPart (nextID p) (length hashes) k (bs ! k))" if "k < length hashes" for k
    unfolding events by (rule heard_parts [OF q ask_step(2) [OF p] h bs parts that])
  have "foldE (receiveBlock (length hashes)) (replicate (length hashes) zero_block, replicate (length hashes) False)
      (map events [0..<length hashes]) = Inr (bs, replicate (length hashes) True)"
    using receive_stream [of "length hashes" events "nextID p" bs 0] ev len by simp
  moreover have "registerRequest ''reconcile_block'' (int (length hashes)) p = (Inr (nextID p), p\<lparr>SkRequestSeq := SkRequestSeq p + 1,
        SkPending := [(nextID p, \<lparr>PrExpected = ''reconcile_block'', PrCapacity = length hashes, PrResponses = []\<rparr>)]\<rparr>)"
    using ask_step(1) [OF p] h(1,2) by simp
  moreover note ask_queue [OF p m]
  ultimately show ?thesis using h(1,2)
    by (simp add: requestBlockBatch_def blocksRequestMessage_def asked_def queued_def unregisterRequest_def not_less)
qed

definition idAfter :: "peerSocket \<Rightarrow> nat \<Rightarrow> string" where
  "idAfter p k = FormatUint (unat (SkRequestSeq p + 1 + word_of_nat k))"

lemma loop_delivered:
  assumes "can_ask p m" "length hashes \<le> maxSocketBlockBatch * m" "distinct hashes" "mapE (BlockByHash e) hashes = Inr bs"
    and carried: "wire_carries W D L R" and idle: "\<And>k. idle (q k)" and "set bs \<subseteq> set R" "set hashes \<subseteq> Hash ` set R"
    and "\<And>k. events (n + k) = peerBlocks W D e (q (n + k)) (idAfter p k) (take maxSocketBlockBatch (drop (k * maxSocketBlockBatch) hashes))"
  shows "fst (requestBlocksLoop W events n hashes blocks p) = Inr \<lparr>BrProtocol = NetworkID, BrBlocks = blocks @ bs\<rparr>"
  using assms(1-4,7-9)
proof (induction m arbitrary: p hashes bs n blocks)
  case 0
  then show ?case by (simp add: requestBlocksLoop.simps [of W events n "[]"])
next
  case (Suc m)
  show ?case
  proof (cases "hashes = []")
    case True
    then show ?thesis using Suc.prems(4) by (simp add: requestBlocksLoop.simps [of W events n "[]"])
  next
    case False
    let ?h = "take maxSocketBlockBatch hashes" and ?r = "drop maxSocketBlockBatch hashes" and ?m = "blocksRequestMessage (nextID p) (take maxSocketBlockBatch hashes)"
    have pos: "0 < maxSocketBlockBatch" by (simp add: maxSocketBlockBatch_def)
    have "list_all2 (\<lambda>x y. BlockByHash e x = Inr y) (?h @ ?r) bs" using Suc.prems(4) by (simp add: mapE_eq_Inr)
    then obtain b1 b2 where b: "bs = b1 @ b2" "mapE (BlockByHash e) ?h = Inr b1" "mapE (BlockByHash e) ?r = Inr b2"
      unfolding list_all2_append1 mapE_eq_Inr by blast
    have len: "length b1 = length ?h" using b(2) by (auto simp: mapE_eq_Inr dest: list_all2_lengthD)
    have ev: "events n = peerBlocks W D e (q n) (nextID p) ?h" using Suc.prems(7) [of 0] by (simp add: idAfter_def nextID_def)
    have h: "?h \<noteq> []" "length ?h \<le> maxSocketBlockBatch" "distinct ?h" using False pos Suc.prems(3) by simp_all
    have sub: "set ?h \<subseteq> Hash ` set R" "set ?r \<subseteq> Hash ` set R" "set b1 \<subseteq> set R" "set b2 \<subseteq> set R"
      using Suc.prems(5,6) b(1) set_take_subset [of maxSocketBlockBatch hashes] set_drop_subset [of maxSocketBlockBatch hashes] by auto
    note i = ask_step(2) [OF Suc.prems(1)]
    have req: "request_carried W ?m" using carried i h(2) sub(1) by (simp add: wire_carries_def)
    have batch: "requestBlockBatch W ?h (events n) p = (Inr \<lparr>BrProtocol = NetworkID, BrBlocks = b1\<rparr>, asked W ?m p)"
    proof (rule batch_delivered [OF Suc.prems(1) req idle h b(2) _ ev])
      show "carries W D (blockPart (nextID p) (length ?h) k x)" if "k < length ?h" "x \<in> set b1" for k x
        using carried i that h(2) sub(3) unfolding wire_carries_def by blast
    qed
    have later: "events (Suc n + k) = peerBlocks W D e (q (Suc n + k)) (idAfter (asked W ?m p) k) (take maxSocketBlockBatch (drop (k * maxSocketBlockBatch) ?r))" for k
      using Suc.prems(7) [of "Suc k"] asked_can(2) [OF Suc.prems(1) req]
      by (simp add: idAfter_def algebra_simps)
    have "fst (requestBlocksLoop W events (Suc n) ?r (blocks @ b1) (asked W ?m p)) = Inr \<lparr>BrProtocol = NetworkID, BrBlocks = (blocks @ b1) @ b2\<rparr>"
    proof (rule Suc.IH [OF asked_can(1) [OF Suc.prems(1) req] _ _ b(3) sub(4,2) later])
      show "length ?r \<le> maxSocketBlockBatch * m" "distinct ?r" using Suc.prems(2,3) by simp_all
    qed
    then show ?thesis using False batch len unfolding requestBlocksLoop.simps [of W events n hashes] by (simp add: b(1))
  qed
qed

section \<open>The connection as a source\<close>

text \<open>
  \<open>socketRemoteSource\<close> when the peer is a node with the database \<open>e\<close>. Before call \<open>n\<close> of a kind the connection
  stands as \<open>p n\<close> here, and as \<open>q n k\<close> at the peer before its \<open>k\<close>-th answer to this call.
\<close>

definition socketSource ::
    "wire \<Rightarrow> (bytes \<Rightarrow> gossipMessage res) \<Rightarrow> db \<Rightarrow> (nat \<Rightarrow> peerSocket) \<Rightarrow> (nat \<Rightarrow> nat \<Rightarrow> peerSocket) \<Rightarrow> remote_source" where
  "socketSource W D e p q =
     \<lparr>SrcHeaders = (\<lambda>n request. fst (requestHeaders W request
        (heard D (serveReconcileHeaders W e (headersRequestMessage (nextID (p n)) request) (q n 0)) 0) (p n))),
      SrcBlocks = (\<lambda>n hashes. fst (requestBlocks W hashes
        (\<lambda>k. peerBlocks W D e (q n k) (idAfter (p n) k) (take maxSocketBlockBatch (drop (k * maxSocketBlockBatch) hashes))) (p n)))\<rparr>"

lemma collect_mapE: "collectBlocks d seen hashes = Inr bs \<Longrightarrow> mapE (BlockByHash d) hashes = Inr bs"
  by (induction hashes arbitrary: seen bs) (auto simp: mapE_Cons split: if_splits sum.splits)

lemma headers_delivered:
  assumes p: "can_ask p (Suc m)" and q: "idle q" and W: "wire_carries W D L R"
    and rep: "represents C now e R sts us h" and inj: "inj_on Hash (set R)"
    and loc: "length loc \<le> 64" "find (\<lambda>x. x \<in> Hash ` set R) loc = Some x" "set loc \<subseteq> Hash ` (set L \<union> set R)"
  shows "\<exists>i < length R. Hash (R ! i) = x \<and>
     fst (requestHeaders W \<lparr>HqLocator = loc, HqLimit = int maxSyncHeaderBatch\<rparr>
       (heard D (serveReconcileHeaders W e (headersRequestMessage (nextID p) \<lparr>HqLocator = loc, HqLimit = int maxSyncHeaderBatch\<rparr>) q) 0) p) =
     Inr (headers_after R i)"
proof -
  let ?req = "\<lparr>HqLocator = loc, HqLimit = int maxSyncHeaderBatch\<rparr>"
  obtain i where i: "i < length R" "Hash (R ! i) = x" "FindLocator e loc = Inr (word_of_nat i, x)"
    "HeadersFrom e (word_of_nat i + 1) 128 = Inr (HrHeaders (headers_after R i))"
    using header_page [OF rep inj loc(1,2)] by blast
  let ?m = "headersResponseMessage (nextID p) (headers_after R i)"
  have m: "sendable W ?m" "D (encoded W ?m) = Inr ?m" using W i(1) ask_step(2) [OF p] by (simp_all add: wire_carries_def carries_def)
  have r: "headers_after R i = \<lparr>HrProtocol = NetworkID, HrCommonHeight = word_of_nat i, HrCommonHash = x, HrHeaders = HrHeaders (headers_after R i)\<rparr>"
    using i(2) by (simp add: headers_after_def)
  have "room q 1 (1 * maxProtocolBytes)" using idle_room [OF q, of 1] by simp
  then have "queue W ?m q = (True, queued W ?m q)" using queue_sends(1) [OF m(1), of q 0] m(1) by (simp add: sendable_def)
  then have "serveReconcileHeaders W e (headersRequestMessage (nextID p) ?req) q = ((True, None), queued W ?m q)"
    using q ask_step(2) [OF p] i(3,4) r
    by (simp add: serveReconcileHeaders_def headersRequestMessage_def headersResponseMessage_def validateReconcileRequest_def idle_def
        maxSyncHeaderBatch_def maxHeaderBatch_def)
  then have heard: "heard D (serveReconcileHeaders W e (headersRequestMessage (nextID p) ?req) q) 0 = Answer ?m"
    using q m(2) by (simp add: heard_def idle_def)
  have "request_carried W (headersRequestMessage (nextID p) ?req)" using W loc(1,3) ask_step(2) [OF p] by (simp add: wire_carries_def)
  note ask_queue [OF p this]
  moreover have "registerRequest ''reconcile_headers_response'' 1 p = (Inr (nextID p), p\<lparr>SkRequestSeq := SkRequestSeq p + 1,
        SkPending := [(nextID p, \<lparr>PrExpected = ''reconcile_headers_response'', PrCapacity = 1, PrResponses = []\<rparr>)]\<rparr>)"
    using ask_step(1) [OF p, of "''reconcile_headers_response''" 1] by (simp add: maxSocketBlockBatch_def)
  ultimately have "fst (requestHeaders W ?req (Answer ?m) p) = Inr (headers_after R i)"
    by (simp add: requestHeaders_def requestOne_def headersRequestMessage_def headersResponseMessage_def gossip_def)
  then show ?thesis using i(1,2) heard by auto
qed

lemma socketSource_serves:
  assumes rep: "represents C now e R sts us h" and inj: "inj_on Hash (set R)" and W: "wire_carries W D L R"
    and p: "\<And>n. can_ask (p n) 4" and q: "\<And>n k. idle (q n k)"
  shows "serves_chain (socketSource W D e p q) L R h"
  unfolding serves_chain_def
proof (intro conjI allI impI)
  fix n loc x assume loc: "length loc \<le> 64" "set loc \<subseteq> Hash ` (set L \<union> set R)" "find (\<lambda>x. x \<in> Hash ` set R) loc = Some x"
  have "can_ask (p n) (Suc 3)" using p [of n] by simp
  from headers_delivered [OF this q W rep inj loc(1,3,2)] show "\<exists>i < length R. Hash (R ! i) = x \<and>
      SrcHeaders (socketSource W D e p q) n \<lparr>HqLocator = loc, HqLimit = int maxSyncHeaderBatch\<rparr> = Inr (headers_after R i)"
    by (simp add: socketSource_def)
next
  fix n and bs :: "block list"
  assume bs: "bs \<noteq> []" "length bs \<le> maxBlockDownloadBatch" "distinct bs" "set bs \<subseteq> set (drop (Suc h) R)"
  have sub: "set bs \<subseteq> set R" using bs(4) by (auto dest: in_set_dropD)
  have dist: "distinct (map Hash bs)" using bs(3) inj_on_subset [OF inj sub] by (simp add: distinct_map)
  then have "collectBlocks e [] (map Hash bs) = Inr bs" using collectBlocks_ok [OF rep inj, of "[]" bs] bs(4) by simp
  then have all: "mapE (BlockByHash e) (map Hash bs) = Inr bs" by (rule collect_mapE)
  have "fst (requestBlocksLoop W (\<lambda>k. peerBlocks W D e (q n k) (idAfter (p n) k)
      (take maxSocketBlockBatch (drop (k * maxSocketBlockBatch) (map Hash bs)))) 0 (map Hash bs) [] (p n)) =
      Inr \<lparr>BrProtocol = NetworkID, BrBlocks = [] @ bs\<rparr>"
    using bs(2) sub by (intro loop_delivered [OF p _ dist all W q]) (auto simp: maxSocketBlockBatch_def maxBlockDownloadBatch_def)
  then show "SrcBlocks (socketSource W D e p q) n (map Hash bs) = Inr \<lparr>BrProtocol = NetworkID, BrBlocks = bs\<rparr>"
    using bs(1,2) by (simp add: socketSource_def requestBlocks_def)
qed

end
