(* ===== verification/Peer_Props.thy ===== *)
theory Peer_Props
  imports Peer_Stream Ledger_Props
begin

text \<open>
  What the synchronisation with a peer guarantees: it never harms the ledger, whatever the peer answers,
  and it reaches the better chain of an honest peer.
\<close>

section \<open>Adoption of a better chain\<close>

text \<open>Two sample ledgers: one block after the genesis block here, three at the peer.\<close>

definition sample_codec :: block_codec where
  "sample_codec = \<lparr>MarshalBlock = (\<lambda>b. Inr [word_of_nat (unat (Height b))]),
     UnmarshalBlock = (\<lambda>bytes. Inr (blocks_upto 3 ! unat (hd bytes)))\<rparr>"

definition sample_sizes :: json_sizes where
  "sample_sizes = \<lparr>HeadersBytes = (\<lambda>_. 0), BlocksBytes = (\<lambda>_. 0), TransactionsBytes = (\<lambda>_. 0)\<rparr>"

definition quiet_env :: staging_env where
  "quiet_env = \<lparr>EnvSlot = Inr (), EnvCreate = Inr (), EnvLive = (\<lambda>_. Inr ()), EnvFlush = Inr ()\<rparr>"

text \<open>A coding of the messages about these blocks, and two connections that have just been negotiated.\<close>

definition sample_wire :: wire where
  "sample_wire = \<lparr>MarshalGossip = (\<lambda>m. Inr (case GmHeadersResponse m of
       Some r \<Rightarrow> 0 # word_of_nat (unat (HrCommonHeight r)) # map of_char (GmRequestID m)
     | None \<Rightarrow> (case GmBlock m of
         Some b \<Rightarrow> 1 # word_of_nat (nat (GmPart m)) # word_of_nat (nat (GmParts m)) # word_of_nat (unat (Height b)) # map of_char (GmRequestID m)
       | None \<Rightarrow> [2]))), ErrorText = (\<lambda>_. [])\<rparr>"

definition sample_decode :: "bytes \<Rightarrow> gossipMessage res" where
  "sample_decode bytes =
     (let chars = map (\<lambda>b. char_of (unat b)) in
      case bytes of
        kind # x # rest \<Rightarrow>
          if kind = 0 then Inr (headersResponseMessage (chars rest) (headers_after (blocks_upto 3) (unat x)))
          else (case rest of n # h # i \<Rightarrow> Inr (blockPart (chars i) (unat n) (unat x) (blocks_upto 3 ! unat h))
            | _ \<Rightarrow> Inl (Errorf ''unexpected EOF''))
      | _ \<Rightarrow> Inl (Errorf ''unexpected EOF''))"

definition sample_socket :: peerSocket where
  "sample_socket = (newSocket [] False [])\<lparr>SkHelloSeen := True, SkReconcile := True\<rparr>"

lemma blocks_upto_height: "i \<le> n \<Longrightarrow> Height (blocks_upto n ! i) = word_of_nat i"
proof (cases i)
  case (Suc k)
  then show "i \<le> n \<Longrightarrow> ?thesis" by (simp add: nth_blocks_upto del: of_nat_Suc)
qed simp

lemma blocks_upto_inj:
  assumes "n \<le> 110"
  shows "inj_on Hash (set (blocks_upto n))"
proof (rule inj_onI)
  fix x y assume x: "x \<in> set (blocks_upto n)" and y: "y \<in> set (blocks_upto n)" and h: "Hash x = Hash y"
  obtain i j where i: "i \<le> n" "x = blocks_upto n ! i" and j: "j \<le> n" "y = blocks_upto n ! j"
    using x y by (metis in_set_conv_nth length_blocks_upto less_Suc_eq_le)
  note b = blocks_upto_hash [OF x assms] blocks_upto_hash [OF y assms]
  have "Height x = Height y" by (rule block_hash_height) (use b h assms in auto)
  then have "(word_of_nat i :: u64) = word_of_nat j" using i j blocks_upto_height by metis
  moreover have "i < 18446744073709551616" "j < 18446744073709551616" using i(1) j(1) assms by simp_all
  ultimately have "i = j" using unat_word_of_nat_64 by metis
  then show "x = y" using i j by simp
qed

lemma sample_locator:
  assumes rep: "represents sample_crypto now d (blocks_upto 1) sts us p"
  shows "\<exists>loc a. BlockLocator sample_crypto d = Inr loc \<and>
     find (\<lambda>x. x \<in> Hash ` set (blocks_upto 3)) loc = Some (Hash (blocks_upto 3 ! a)) \<and> a < length (blocks_upto 3)"
proof -
  obtain loc where loc: "BlockLocator sample_crypto d = Inr loc" "1 \<le> length loc" "set loc \<subseteq> Hash ` set (blocks_upto 1)"
    using BlockLocator_ok [OF rep] by auto
  have "blocks_upto 1 = take (Suc 1) (blocks_upto 3)" by (rule take_blocks_upto [symmetric]) simp
  then have sub: "set (blocks_upto 1) \<subseteq> set (blocks_upto 3)" by (simp only: set_take_subset)
  obtain x xs where x: "loc = x # xs" using loc(2) by (cases loc) simp_all
  then have "x \<in> Hash ` set (blocks_upto 3)" using loc(3) image_mono [OF sub, of Hash] by auto
  moreover from this obtain a where "a < length (blocks_upto 3)" "x = Hash (blocks_upto 3 ! a)"
    unfolding in_set_conv_nth image_iff Bex_def by blast
  ultimately show ?thesis using loc(1) unfolding x by (intro exI [of _ "x # xs"] exI [of _ a] conjI) simp_all
qed

lemma sample_encodable: "encodable sample_codec (drop 2 (blocks_upto 3))"
proof -
  have b: "drop 2 (blocks_upto 3) = [blocks_upto 3 ! 2, blocks_upto 3 ! 3]"
    using Cons_nth_drop_Suc [of 2 "blocks_upto 3"] Cons_nth_drop_Suc [of 3 "blocks_upto 3"] by simp
  have h: "Height (blocks_upto 3 ! 2) = 2" "Height (blocks_upto 3 ! 3) = 3"
    using blocks_upto_height [of 2 3] blocks_upto_height [of 3 3] by simp_all
  show ?thesis
    by (simp add: b h encodable_def sample_codec_def frame_size_def frame_def maxBlockBodyBytes_def MaxBlockBytes_def
        maxStagedForkBytes_def)
qed

text \<open>The two ledgers meet the conditions of an adoption.\<close>

lemma sample_meeting:
  "\<exists>d e t vt now sts us st nowR stsR usR stR loc a. sample_ledger no_urls 1 d \<and> sample_ledger no_urls 3 e \<and>
     ledger_ok sample_crypto now d (blocks_upto 1) sts us 0 st \<and> ledger_ok sample_crypto nowR e (blocks_upto 3) stsR usR 0 stR \<and>
     Tip d = Inr t \<and> dbMempoolSeq d = 0 \<and>
     (\<forall>i. i < length (blocks_upto 1) \<longrightarrow> now i \<le> vt) \<and> (\<forall>i. i < length (blocks_upto 3) \<longrightarrow> nowR i \<le> vt) \<and>
     BlockLocator sample_crypto d = Inr loc \<and>
     find (\<lambda>x. x \<in> Hash ` set (blocks_upto 3)) loc = Some (Hash (blocks_upto 3 ! a)) \<and> a < length (blocks_upto 3)"
proof -
  obtain d where d: "sample_ledger no_urls 1 d" using sample_ledger_exists [of 1 no_urls] by auto
  obtain e where e: "sample_ledger no_urls 3 e" using sample_ledger_exists [of 3 no_urls] by auto
  obtain now sts us st where L: "ledger_ok sample_crypto now d (blocks_upto 1) sts us 0 st" "dbMempoolSeq d = 0"
    using d by (auto simp: sample_ledger_def)
  obtain nowR stsR usR stR where R: "ledger_ok sample_crypto nowR e (blocks_upto 3) stsR usR 0 stR"
    using e by (auto simp: sample_ledger_def)
  obtain t where t: "Tip d = Inr t" using represents_tip [OF ledger_okD(1) [OF L(1)]] by (auto simp: Tip_def)
  obtain loc a where loc: "BlockLocator sample_crypto d = Inr loc"
     "find (\<lambda>x. x \<in> Hash ` set (blocks_upto 3)) loc = Some (Hash (blocks_upto 3 ! a))" "a < length (blocks_upto 3)"
    using sample_locator [OF ledger_okD(1) [OF L(1)]] by blast
  define vt where "vt = Max (now ` {..<2} \<union> nowR ` {..<4})"
  have times: "i < length (blocks_upto 1) \<Longrightarrow> now i \<le> vt" "i < length (blocks_upto 3) \<Longrightarrow> nowR i \<le> vt" for i
    by (auto simp: vt_def intro!: Max_ge)
  then show ?thesis using d e L R t loc by blast
qed

lemma sample_conditions:
  "blocks_upto 1 = take 2 (blocks_upto 3)" "collision_free (blocks_upto 1) (blocks_upto 3)"
  "chain_work (blocks_upto 1) < chain_work (take 4 (blocks_upto 3))" "quiet quiet_env"
  "fits_responses sample_sizes (blocks_upto 3)"
proof -
  show pre: "blocks_upto 1 = take 2 (blocks_upto 3)" using take_blocks_upto [of 1 3] by (simp add: numeral_2_eq_2)
  show "collision_free (blocks_upto 1) (blocks_upto 3)"
    unfolding collision_free_def pre using blocks_upto_inj [of 3] by (simp add: Un_absorb1 set_take_subset)
  show "chain_work (blocks_upto 1) < chain_work (take 4 (blocks_upto 3))"
    by (simp add: chain_work_def blockWork_def numeral_3_eq_3)
  show "quiet quiet_env" "fits_responses sample_sizes (blocks_upto 3)"
    by (simp_all add: quiet_def quiet_env_def fits_responses_def sample_sizes_def maxProtocolBytes_def maxBlockBodyBytes_def MaxBlockBytes_def)
qed

lemma sample_carries: "wire_carries sample_wire sample_decode (blocks_upto 1) (blocks_upto 3)"
proof -
  have chars: "map (\<lambda>b. char_of (unat b)) (map of_char i :: bytes) = i" for i
    by (simp add: comp_def unat_of_char_byte)
  have small: "unat (word_of_nat k :: u8) = k" if "k < 256" for k using that by (simp add: unat_byte_of_nat)
  have wide: "unat (word_of_nat k :: u64) = k" if "k < 256" for k using that by (intro unat_word_of_nat_64) simp
  have headers: "carries sample_wire sample_decode (headersResponseMessage i (headers_after (blocks_upto 3) k))"
    if "validReconcileRequestID i" "k < 4" for i k
    using that chars [of i] small [of k] wide [of k]
    by (simp add: carries_def sendable_def encoded_def sample_wire_def sample_decode_def headersResponseMessage_def gossip_def
        headers_after_def maxProtocolBytes_def maxBlockBodyBytes_def MaxBlockBytes_def validReconcileRequestID_def comp_def del: of_nat_unat)
  have parts: "carries sample_wire sample_decode (blockPart i n k b)"
    if h: "validReconcileRequestID i" "n \<le> 2" "k < n" "b \<in> set (blocks_upto 3)" for i n k b
  proof -
    obtain j where j: "j < 4" "b = blocks_upto 3 ! j" using h(4) unfolding in_set_conv_nth by auto
    then have "Height b = word_of_nat j" using blocks_upto_height [of j 3] by simp
    then show ?thesis using h(1-3) j chars [of i] small [of k] small [of n] small [of j] wide [of j]
      by (simp add: carries_def sendable_def encoded_def sample_wire_def sample_decode_def blockPart_def gossip_def
          maxProtocolBytes_def maxBlockBodyBytes_def MaxBlockBytes_def validReconcileRequestID_def comp_def del: of_nat_unat)
  qed
  have requests: "request_carried sample_wire (headersRequestMessage i r)" "request_carried sample_wire (blocksRequestMessage i hs)" for i r hs
    by (simp_all add: request_carried_def sendable_def encoded_def sample_wire_def headersRequestMessage_def blocksRequestMessage_def
        gossip_def maxProtocolBytes_def maxBlockBodyBytes_def MaxBlockBytes_def)
  show ?thesis unfolding wire_carries_def using headers parts requests by (simp add: maxSocketBlockBatch_def)
qed

lemma sample_sockets: "can_ask sample_socket 4" "idle sample_socket"
  by (simp_all add: can_ask_def idle_def room_def sample_socket_def newSocket_def sendCapacity_def maxSocketQueuedBytes_def
      maxProtocolBytes_def maxBlockBodyBytes_def MaxBlockBytes_def)

text \<open>
  C4. A node adopts the better chain of an honest peer, over HTTP or over the realtime connection. The peer
  runs this program on a ledger of the chain \<open>R\<close>; the local chain \<open>L\<close> shares its first \<open>f\<close> blocks, both prune
  horizons lie below them, and \<open>R\<close> has more work within 19968 headers of the ancestor the locator finds. When
  blocks survive encoding and fit the responses and the staging file, no two different blocks share a hash, and
  neither the file system nor the context causes an error, the synchronisation commits: the ledger then stands
  for a prefix of \<open>R\<close> with strictly more work than \<open>L\<close>. Over the realtime connection the two ends run the
  request and answer code of both nodes, with connections that are negotiated and have room for four requests
  here and are idle there.
\<close>

theorem better_chain_adopted:
  assumes mine: "ledger_ok C now d L sts us p st" and theirs: "ledger_ok C nowR e R stsR usR q stR"
    and tip: "Tip d = Inr t" and free: "collision_free L R"
    and times: "\<And>i. i < length L \<Longrightarrow> now i \<le> vt" "\<And>i. i < length R \<Longrightarrow> nowR i \<le> vt"
    and ancestor: "BlockLocator C d = Inr loc" "find (\<lambda>x. x \<in> Hash ` set R) loc = Some (Hash (R ! a))" "a < length R"
    and shared: "take f L = take f R" "f \<le> length L" "p < f" "q < f"
    and more: "K \<le> length R" "chain_work L < chain_work (take K R)" "K \<le> Suc a + 19968"
    and env: "quiet env" and codec: "encodable X (drop f R)"
    and peer: "source = httpSource J (\<lambda>_. True) (\<lambda>_. e) \<and> fits_responses J R \<or>
      source = socketSource W D e mySide theirSide \<and> wire_carries W D L R \<and> (\<forall>n. can_ask (mySide n) 4) \<and> (\<forall>n k. idle (theirSide n k))"
    and room: "dbMempoolSeq d + 2 * int MaxPendingTransactions \<le> MaxInt64"
    and short: "length L \<le> 2 ^ 53" "length R < 9223372036854775808"
  shows "\<exists>d' k now' sts' us' p' st'.
     syncRemoteChainFromAtTime C X env (Inr ()) depth clock (\<lambda>_. d) d source t vt = Inr (d', True) \<and>
     ledger_ok C now' d' (take k R) sts' us' p' st' \<and> chain_work L < chain_work (take k R)"
proof -
  note rep = ledger_okD(1) [OF theirs]
  have other: "replayed C nowR R stsR" using rep by (simp add: represents_def)
  have inj: "inj_on Hash (set R)" using free by (auto simp: collision_free_def inj_on_Un)
  have serves: "serves_chain source L R q"
    using peer httpSource_serves [OF rep inj, of J "\<lambda>_. True"] socketSource_serves [OF rep inj, of W D L mySide theirSide] by blast
  show ?thesis
    by (rule sync_adopts [OF mine other tip free serves _ _ ancestor shared more env codec room short]) (fact times)+
qed

theorem better_chain_adopted_witness:
  "\<exists>d e t vt d' k now' sts' us' p' st'. sample_ledger no_urls 1 d \<and> sample_ledger no_urls 3 e \<and>
     syncRemoteChainFromAtTime sample_crypto sample_codec quiet_env (Inr ()) 0 0 (\<lambda>_. d) d
       (socketSource sample_wire sample_decode e (\<lambda>_. sample_socket) (\<lambda>_ _. sample_socket)) t vt = Inr (d', True) \<and>
     ledger_ok sample_crypto now' d' (take k (blocks_upto 3)) sts' us' p' st' \<and>
     chain_work (blocks_upto 1) < chain_work (take k (blocks_upto 3))"
proof -
  obtain d e t vt now sts us st nowR stsR usR stR loc a where m: "sample_ledger no_urls 1 d" "sample_ledger no_urls 3 e"
     "ledger_ok sample_crypto now d (blocks_upto 1) sts us 0 st" "ledger_ok sample_crypto nowR e (blocks_upto 3) stsR usR 0 stR"
     "Tip d = Inr t" "dbMempoolSeq d = 0"
     "\<And>i. i < length (blocks_upto 1) \<Longrightarrow> now i \<le> vt" "\<And>i. i < length (blocks_upto 3) \<Longrightarrow> nowR i \<le> vt"
     "BlockLocator sample_crypto d = Inr loc"
     "find (\<lambda>x. x \<in> Hash ` set (blocks_upto 3)) loc = Some (Hash (blocks_upto 3 ! a))" "a < length (blocks_upto 3)"
    using sample_meeting by blast
  have "\<exists>d' k now' sts' us' p' st'.
    syncRemoteChainFromAtTime sample_crypto sample_codec quiet_env (Inr ()) 0 0 (\<lambda>_. d) d
       (socketSource sample_wire sample_decode e (\<lambda>_. sample_socket) (\<lambda>_ _. sample_socket)) t vt = Inr (d', True) \<and>
    ledger_ok sample_crypto now' d' (take k (blocks_upto 3)) sts' us' p' st' \<and>
    chain_work (blocks_upto 1) < chain_work (take k (blocks_upto 3))"
    by (rule better_chain_adopted [where f = 2 and K = 4 and J = sample_sizes and W = sample_wire and D = sample_decode and
        mySide = "\<lambda>_. sample_socket" and theirSide = "\<lambda>_ _. sample_socket", OF m(3,4,5) sample_conditions(2) m(7,8,9,10,11)])
      (use sample_encodable sample_conditions m(6) sample_carries sample_sockets in \<open>simp_all add: MaxPendingTransactions_def MaxInt64_val\<close>)
  with m(1,2) show ?thesis by blast
qed

lemma sample_sync:
  "\<exists>d e t vt d'. sample_ledger no_urls 1 d \<and> sample_ledger no_urls 3 e \<and>
     syncRemoteChainFromAtTime sample_crypto sample_codec quiet_env (Inr ()) 0 0 (\<lambda>_. d) d
       (httpSource sample_sizes (\<lambda>_. True) (\<lambda>_. e)) t vt = Inr (d', True)"
proof -
  obtain d e t vt now sts us st nowR stsR usR stR loc a where m: "sample_ledger no_urls 1 d" "sample_ledger no_urls 3 e"
     "ledger_ok sample_crypto now d (blocks_upto 1) sts us 0 st" "ledger_ok sample_crypto nowR e (blocks_upto 3) stsR usR 0 stR"
     "Tip d = Inr t" "dbMempoolSeq d = 0"
     "\<And>i. i < length (blocks_upto 1) \<Longrightarrow> now i \<le> vt" "\<And>i. i < length (blocks_upto 3) \<Longrightarrow> nowR i \<le> vt"
     "BlockLocator sample_crypto d = Inr loc"
     "find (\<lambda>x. x \<in> Hash ` set (blocks_upto 3)) loc = Some (Hash (blocks_upto 3 ! a))" "a < length (blocks_upto 3)"
    using sample_meeting by blast
  note rep = ledger_okD(1) [OF m(4)]
  have other: "replayed sample_crypto nowR (blocks_upto 3) stsR" using rep by (simp add: represents_def)
  have peer: "serves_chain (httpSource sample_sizes (\<lambda>_. True) (\<lambda>_. e)) (blocks_upto 1) (blocks_upto 3) 0"
    by (rule httpSource_serves [OF rep blocks_upto_inj sample_conditions(5) TrueI]) simp
  have "\<exists>d' k now' sts' us' p' st'.
    syncRemoteChainFromAtTime sample_crypto sample_codec quiet_env (Inr ()) 0 0 (\<lambda>_. d) d
       (httpSource sample_sizes (\<lambda>_. True) (\<lambda>_. e)) t vt = Inr (d', True) \<and>
    ledger_ok sample_crypto now' d' (take k (blocks_upto 3)) sts' us' p' st' \<and>
    chain_work (blocks_upto 1) < chain_work (take k (blocks_upto 3))"
    by (rule sync_adopts [OF m(3) other m(5) sample_conditions(2) peer m(7,8,9,10,11), of 2 4])
      (use sample_encodable sample_conditions m(6) in \<open>simp_all add: MaxPendingTransactions_def MaxInt64_val\<close>)
  with m(1,2) show ?thesis by blast
qed

section \<open>Any peer\<close>

lemma sync_plan:
  assumes "syncRemoteChainFromAtTime C X env slot depth clock view d source t vt = Inr (d', changed)"
  shows "if changed
     then \<exists>ancestor cnt blockAt d1. replaceFromSourceAtTime C clock d ancestor cnt (Some blockAt) vt = Inr d1 \<and> d' = fst (maybePrune depth d1)
     else d' = d"
  using assms unfolding syncRemoteChainFromAtTime_def
  by (auto simp: res_simps simp del: not_None_eq split: option.splits prod.splits) blast

text \<open>
  C5. No peer can harm the ledger. Whatever the peer answers, whatever other writers do between the reads and
  wherever the file system fails, a synchronisation that returns leaves a ledger that is reachable by the
  ordinary operations: either the very same one, or one whose chain is valid, keeps every block through an
  ancestor that is not below the prune horizon, and has strictly more work.
\<close>

theorem sync_only_improves:
  assumes "ledger_reachable C U d"
    and "syncRemoteChainFromAtTime C X env slot depth clock view d source t vt = Inr (d', changed)"
  shows "ledger_reachable C U d' \<and>
     (if changed
      then \<exists>now s now' s' k. implements_chain C now d s \<and> implements_chain C now' d' s' \<and> CumulativeWork s < CumulativeWork s' \<and>
        0 < k \<and> k \<le> length (Blocks s) \<and> take k (Blocks s') = take k (Blocks s) \<and> PrunedThrough d \<in> Inr ` {h. unat h < k}
      else d' = d)"
proof -
  have reach: "ledger_reachable C U d'" by (rule ledger_steps_reachable [OF sync_steps [OF assms(2)] assms(1)])
  show ?thesis
  proof (cases changed)
    case True
    then obtain ancestor cnt blockAt d1 where r: "replaceFromSourceAtTime C clock d ancestor cnt (Some blockAt) vt = Inr d1"
      "d' = fst (maybePrune depth d1)" using sync_plan [OF assms(2)] by auto
    obtain now blocks sts us p st where ok: "ledger_ok C now d blocks sts us p st"
      using ledger_reachable_ok [OF assms(1)] by blast
    let ?k = "Suc (unat ancestor)"
    obtain new now' sts' us' st' where n: "p \<le> unat ancestor" "unat ancestor < length blocks"
      "ledger_ok C now' d1 (take ?k blocks @ new) sts' us' p st'" "chain_work blocks < chain_work (take ?k blocks @ new)"
      using replace_ok [OF ok r(1)] by blast
    from maybePrune_ok [OF n(3), of depth] obtain p' where ok': "ledger_ok C now' d' (take ?k blocks @ new) sts' us' p' st'"
      unfolding r(2) by blast
    let ?s = "ledger_chain d blocks" and ?s' = "ledger_chain d' (take ?k blocks @ new)"
    have "CumulativeWork ?s < CumulativeWork ?s'" using n(4) chain_work_eq [of ?s] chain_work_eq [of ?s'] by simp
    moreover note p = read_pruned(1,3) [OF ledger_okD(1) [OF ok]]
    have "PrunedThrough d \<in> Inr ` {h. unat h < ?k}" unfolding p(1) using p(2) n(1) by (intro imageI) simp
    moreover have "0 < ?k" "?k \<le> length (Blocks ?s)" "take ?k (Blocks ?s') = take ?k (Blocks ?s)" using n(2) by simp_all
    ultimately show ?thesis using True reach ledger_ok_implements [OF ok] ledger_ok_implements [OF ok'] by (simp only: if_True) blast
  qed (use sync_plan [OF assms(2)] reach in simp)
qed

theorem sync_only_improves_witness:
  "\<exists>d e t vt d'. sample_ledger no_urls 1 d \<and> sample_ledger no_urls 3 e \<and>
     syncRemoteChainFromAtTime sample_crypto sample_codec quiet_env (Inr ()) 0 0 (\<lambda>_. d) d
       (httpSource sample_sizes (\<lambda>_. True) (\<lambda>_. e)) t vt = Inr (d', True) \<and>
     ledger_reachable sample_crypto no_urls d' \<and>
     (\<exists>now s now' s'. implements_chain sample_crypto now d s \<and> implements_chain sample_crypto now' d' s' \<and>
        CumulativeWork s < CumulativeWork s')"
proof -
  obtain d e t vt d' where d: "sample_ledger no_urls 1 d" "sample_ledger no_urls 3 e"
    and s: "syncRemoteChainFromAtTime sample_crypto sample_codec quiet_env (Inr ()) 0 0 (\<lambda>_. d) d
       (httpSource sample_sizes (\<lambda>_. True) (\<lambda>_. e)) t vt = Inr (d', True)"
    using sample_sync by blast
  have "ledger_reachable sample_crypto no_urls d" using d(1) by (simp add: sample_ledger_def)
  from sync_only_improves [OF this s] obtain now s now' s' where
    "ledger_reachable sample_crypto no_urls d'" "implements_chain sample_crypto now d s" "implements_chain sample_crypto now' d' s'"
    "CumulativeWork s < CumulativeWork s'" unfolding if_True by blast
  with d s show ?thesis by blast
qed

section \<open>Resources\<close>

text \<open>
  C22. Requests in flight are bounded: in every interleaving of requests that arrive, are counted, take a slot or
  find none, are served and end, at most 8 of an address and 32 of all addresses are served at the same
  time, and at most 4 and 32 connections of the realtime protocol. The counters of both kinds are exact
  throughout: the count of an address is the number of its requests that were counted and have not ended,
  and the slots taken are those of the requests served, so neither is ever lost.
\<close>

theorem requests_bounded:
  assumes "limiter_run s entering served over"
  shows "count served (h, False) \<le> 8 \<and> count served (h, True) \<le> 4 \<and> of_kind False served \<le> 32 \<and> of_kind True served \<le> 32 \<and>
     countOf h (LimRequests s) = int (count (entering + served + over) (h, False)) \<and>
     countOf h (LimWebsockets s) = int (count (entering + served + over) (h, True)) \<and>
     countOf h (LimRequests s) \<le> 8 \<and> countOf h (LimWebsockets s) \<le> 4 \<and>
     LimRequestSlots s = int (of_kind False served) \<and> LimWebsocketSlots s = int (of_kind True served)"
proof -
  note b = limiter_inv [OF assms]
  have "count served (h, w) \<le> count (entering + served + over) (h, w)" for w by simp
  then have "count served (h, False) \<le> 8" "count served (h, True) \<le> 4" using b by (meson le_trans)+
  moreover have "int (count (entering + served + over) (h, False)) \<le> 8" "int (count (entering + served + over) (h, True)) \<le> 4"
    using b by (simp_all only: of_nat_le_numeral_iff)
  ultimately show ?thesis using b by simp
qed

theorem requests_bounded_witness:
  "\<exists>s. limiter_run s {#} {#(''10.0.0.1'', True)#} {#} \<and> countOf ''10.0.0.1'' (LimWebsockets s) = 1 \<and> LimWebsocketSlots s = 1"
proof -
  have "limiter_run \<lparr>LimClosing = False, LimRequests = [], LimWebsockets = [(''10.0.0.1'', 1)], LimRequestSlots = 0, LimWebsocketSlots = 0\<rparr>
      {#(''10.0.0.1'', True)#} {#} {#}"
    by (rule limiter_run.accept [OF limiter_run.start, where websocket = True and rate = True])
      (simp add: beginRequest_def countOf_def countUp_def)
  then have "limiter_run \<lparr>LimClosing = False, LimRequests = [], LimWebsockets = [(''10.0.0.1'', 1)], LimRequestSlots = 0, LimWebsocketSlots = 1\<rparr>
      {#} {#(''10.0.0.1'', True)#} {#}"
    by (rule limiter_run.serve) (simp add: takeSlot_def)
  from requests_bounded [OF this, of "''10.0.0.1''"] this show ?thesis
    by (intro exI conjI) (assumption, simp_all add: of_kind_def)
qed
text \<open>
  C21. A realtime connection keeps a bounded amount of memory, whatever the peer sends, however slowly it reads
  and in whatever order the goroutines run: the queued bytes are counted exactly and stay below two messages of
  the largest size and 64 KiB, at most 128 messages are queued, and at most four answers wait to be taken.
\<close>

theorem connection_bounded:
  assumes "socket_run W p flying"
  shows "SkQueuedBytes p = bytes_of (mset (SkSend p) + flying) \<and> SkQueuedBytes p \<le> 2 * maxProtocolBytes + 65536 \<and>
     length (SkSend p) \<le> 128 \<and> length (SkPending p) \<le> 2 \<and> (\<Sum>r\<leftarrow>SkPending p. length (PrResponses (snd r))) \<le> 4"
proof -
  note b = socket_run_bounded [OF assms]
  have "(\<Sum>r\<leftarrow>SkPending p. length (PrResponses (snd r))) \<le> (\<Sum>r\<leftarrow>SkPending p. 2)"
    using b by (intro sum_list_mono) (force simp: pending_bounded_def maxSocketBlockBatch_def)
  also have "\<dots> \<le> 4" using b by (simp add: sum_list_triv pending_bounded_def maxSocketPendingRequests_def)
  finally show ?thesis using b by (simp add: send_bounded_def pending_bounded_def sendCapacity_def maxSocketQueuedBytes_def maxSocketPendingRequests_def)
qed

theorem connection_bounded_witness:
  "\<exists>p. socket_run sample_wire p {#} \<and> SkSend p = [[2]] \<and> SkQueuedBytes p = bytes_of (mset (SkSend p) + {#})"
proof -
  have "queue sample_wire (gossip ''ping'') (newSocket [] False []) =
      (True, (newSocket [] False [])\<lparr>SkQueuedBytes := 1, SkSend := [[2]]\<rparr>)"
    by (simp add: queue_def sample_wire_def gossip_def newSocket_def maxProtocolBytes_def maxBlockBodyBytes_def MaxBlockBytes_def
        maxSocketQueuedBytes_def sendCapacity_def)
  then have run: "socket_run sample_wire ((newSocket [] False [])\<lparr>SkQueuedBytes := 1, SkSend := [[2]]\<rparr>) {#}"
    by (rule socket_run.send [OF socket_run.new])
  show ?thesis using run connection_bounded [OF run] by (intro exI conjI) (assumption, simp, blast)
qed

lemma wrap64_add: "wrap64 (wrap64 x + y) = wrap64 (x + y)"
  by (simp add: wrap64_def mod_simps algebra_simps)

text \<open>The cost of a message to which a request for pending transactions is added.\<close>

lemma cost_mempool_field:
  assumes "GmMempoolRequest m = None" "\<not> isReconcileResponse (GmType m)" "gossipValidationCost m \<le> webSocketValidationBurst"
  shows "gossipValidationCost (m\<lparr>GmMempoolRequest := Some \<lparr>MqLimit = l, MqOffset = q\<rparr>\<rparr>) = wrap64 (gossipValidationCost m + (16 + l))"
proof -
  let ?c = "1 + (case GmTransaction m of None \<Rightarrow> 0 | Some tx \<Rightarrow> transactionCost tx)"
  obtain c returned where c: "(case GmBlock m of None \<Rightarrow> (?c, False)
      | Some b \<Rightarrow> blockCost (?c + 16 + int (length (Transactions b))) (Transactions b)) = (c, returned)"
    by (cases "case GmBlock m of None \<Rightarrow> (?c, False)
      | Some b \<Rightarrow> blockCost (?c + 16 + int (length (Transactions b))) (Transactions b)") simp
  have "\<not> returned"
  proof
    assume r: "returned"
    then have "webSocketValidationBurst < c" using c blockCost_bounds by (fastforce split: option.splits)
    moreover have "gossipValidationCost m = c" using assms(2) c r unfolding gossipValidationCost_def Let_def by simp
    ultimately show False using assms(3) by simp
  qed
  let ?h = "case GmHeadersRequest m of None \<Rightarrow> 0 | Some r \<Rightarrow> 16 + int (length (HqLocator r)) + wrap64 (max 0 (HqLimit r) + 7) sdiv 8"
  let ?r = "case GmHeadersResponse m of None \<Rightarrow> 0 | Some r \<Rightarrow> 16 + int (length (HrHeaders r))"
  let ?b = "case GmBlocksRequest m of None \<Rightarrow> 0 | Some hashes \<Rightarrow> 64 * int (length hashes)"
  let ?t = "case GmTransactionsResponse m of None \<Rightarrow> 0 | Some r \<Rightarrow> 16 + (\<Sum>tx\<leftarrow>TrTransactions r. transactionCost tx)"
  have "gossipValidationCost m = wrap64 (c + ?h + ?r + ?b + 0 + ?t)"
    using assms(1,2) c \<open>\<not> returned\<close> unfolding gossipValidationCost_def Let_def by simp
  moreover have "gossipValidationCost (m\<lparr>GmMempoolRequest := Some \<lparr>MqLimit = l, MqOffset = q\<rparr>\<rparr>) =
      wrap64 (c + ?h + ?r + ?b + (16 + l) + ?t)"
    using assms(2) c \<open>\<not> returned\<close> unfolding gossipValidationCost_def Let_def by (simp cong del: option.case_cong_weak)
  ultimately show ?thesis by (simp only: wrap64_add) (simp add: algebra_simps)
qed

text \<open>
  C23. The validation budget of a connection can be bypassed. Every realtime message other than a response to
  a reconcile request whose cost is within the burst costs nothing, or even refills the budget, when its sender
  adds a request for pending transactions with a negative limit, since the cost takes the limit as it is;
  and a request for headers or for blocks is served as before, with the same answers and the same effects.
\<close>

theorem validation_cost_evaded:
  assumes "GmMempoolRequest m = None" "\<not> isReconcileResponse (GmType m)"
    and "0 \<le> gossipValidationCost m" "gossipValidationCost m \<le> webSocketValidationBurst"
    and "webSocketValidationBurst + 16 \<le> l" "l \<le> MaxInt64"
    and m': "m' = m\<lparr>GmMempoolRequest := Some \<lparr>MqLimit = - l, MqOffset = 0\<rparr>\<rparr>"
  shows "gossipValidationCost m' = gossipValidationCost m + 16 - l \<and> gossipValidationCost m + 16 - l \<le> 0 \<and>
     serveReconcileHeaders W d m' p = serveReconcileHeaders W d m p \<and>
     serveReconcileBlocks W free d m' p = serveReconcileBlocks W free d m p"
proof -
  have "in_int64 (gossipValidationCost m + (16 + - l))"
    using assms(3-6) by (simp add: in_int64_def MinInt64_def MaxInt64_def webSocketValidationBurst_def)
  then have "gossipValidationCost m' = gossipValidationCost m + 16 - l"
    using cost_mempool_field [OF assms(1,2,4), of "- l" 0] by (simp add: m')
  moreover have same: "GmRequestID m' = GmRequestID m" "GmHeadersRequest m' = GmHeadersRequest m" "GmBlocksRequest m' = GmBlocksRequest m"
    by (simp_all add: m')
  moreover have "serveReconcileHeaders W d m' p = serveReconcileHeaders W d m p"
    "serveReconcileBlocks W free d m' p = serveReconcileBlocks W free d m p"
    unfolding serveReconcileHeaders_def serveReconcileBlocks_def same by (rule HOL.refl)+
  ultimately show ?thesis using assms(4,5) by simp
qed

theorem validation_cost_evaded_witness:
  "gossipValidationCost ((gossip ''ping'')\<lparr>GmMempoolRequest := Some \<lparr>MqLimit = - 1000000000, MqOffset = 0\<rparr>\<rparr>) = - 999999983"
proof -
  have "gossipValidationCost (gossip ''ping'') = 1"
    by (simp add: gossip_def gossipValidationCost_def isReconcileResponse_def wrap64_def)
  then show ?thesis using validation_cost_evaded [of "gossip ''ping''" 1000000000]
    by (simp add: gossip_def isReconcileResponse_def webSocketValidationBurst_def MaxInt64_def)
qed

end
