(* ===== verification/Spec2Isabelle.thy ===== *)
theory Spec2Isabelle
  imports Chain_Props Mining_Search Transaction_Props Block_Props Disconnect Mempool_Inv Candidate Import_State History
    Node_Records Ledger_Ok Mempool_Props Mining_Props Payment_Commit Gateway_Delivery Entpay_Signed Client_Safety Client_Secure Peer_Props
begin

text \<open>
  Verification of Entcoin, a proof-of-work payment chain written in Go, and of EntPay, the payment service
  built on it.

  The program has four layers. The core (\<open>src/internal/core\<close>) fixes the consensus: amounts and emission,
  transactions, blocks, difficulty, and the replay of a whole chain held in memory. The ledger
  (\<open>src/internal/ledger\<close>) keeps the same chain in the tables of a database and changes it step by step:
  connecting a block, disconnecting the tip, replacing the end of the chain, admitting pending
  transactions, building a block to mine, pruning, importing. The node (\<open>src/internal/node\<close>) owns a ledger
  and a wallet, pays from it, and exchanges headers, blocks and transactions with other nodes. EntPay
  (\<open>src/entpay\<close>) has a merchant's gateway, which issues invoices and delivers a product for a confirmed
  payment, and a client, which reviews, pays and verifies what it receives.

  Conventions (Prelude). A Go function that returns \<open>(T, error)\<close> is a HOL function into \<open>go_error + 'a\<close>,
  composed with \<open>attempt\<close>; a panic is the error \<open>GoPanic\<close>. State is passed explicitly: a database
  transaction that fails leaves the database of its caller, so an error carries no state unless the
  code keeps one. Unsigned integers are words of their width; \<open>int64\<close> and \<open>int\<close> are \<^typ>\<open>int\<close>, with \<open>wrap64\<close>
  where they may wrap. A Go string is a list of bytes. A loop with early exits is \<open>foldE\<close>; loops that
  are not over a list are recursive functions with a proof of termination. What the program takes from
  outside (clocks, random bytes, the answers of peers, of the file system and of HTTP, JSON, URL and
  TLS code, AEAD and Ed25519) is an argument; what the theorems assume of it is a named hypothesis
  with an instance in a witness. SHA-256, the elliptic curve and DER are modelled themselves (Crypto, Der).

  Core.
  \<^item> Amount, Model, Go_Std: \<open>amount.go\<close>, \<open>model.go\<close>, \<open>encoding.go\<close> and what is used of the Go library.
  \<^item> Wallet, Transaction, Block, Coins, Chain: \<open>wallet.go\<close>, \<open>transaction.go\<close>, \<open>block.go\<close>, \<open>chain.go\<close>, with
    the names of the source. \<open>replay\<close> validates a chain and returns its unspent outputs.
  \<^item> Mining_Search: \<open>MineBlockWithWorkers\<close> as a step relation over workers, channel and context.
  \<^item> Transaction_Props, Block_Props, Chain_Inv, Chain_Props: validation equals its declarative form,
    encodings are injective, the supply equals the schedule, no double spend, the header chain, the
    difficulty schedule.

  Ledger.
  \<^item> Sql and Tables are the part of SQL that is used, over tables as lists of rows, and the schema with
    its constraints. Connect, Reorg, Mempool, Candidate, Query, History, Import_State and Node_Records are
    \<open>apply.go\<close>, \<open>reorg.go\<close>, \<open>mempool.go\<close>, \<open>mining.go\<close>, \<open>query.go\<close> with \<open>prune.go\<close>, \<open>history.go\<close> with
    \<open>wallet_snapshot.go\<close>, \<open>import.go\<close>, and \<open>peers.go\<close> with \<open>health.go\<close>.
  \<^item> Coin_Store is the interface of a set of unspent outputs (the locale \<open>coin_store\<close>), with the lemmas
    about spending, creating and undoing proved once; it is interpreted on the maps of the replay and on
    the table of the ledger (Utxo_Table). The locale \<open>digest32\<close> states the length of a digest and is
    interpreted on SHA-256.
  \<^item> \<open>represents\<close> (Ledger_Sim) relates a database to a chain that the core replays; \<open>ledger_ok\<close> (Ledger_Ok)
    adds the mempool. Ledger_Chain, Ledger_Block, Disconnect, Mempool_Inv and Ledger_Steps prove that every
    operation keeps it, and that connecting succeeds exactly when the replay accepts. \<open>ledger_reachable\<close> closes
    this under all operations from a new file, so Ledger_View, Ledger_Props, Mempool_Props and Mining_Props speak
    of every ledger the program can reach: it implements one valid chain, every operation is an allowed
    change of that chain, a replacement needs more work, a candidate commits, the mempool stays valid.

  Node.
  \<^item> Payment, Payment_Props, Payment_Commit: \<open>payment.go\<close> and the sending functions of \<open>service.go\<close>. A
    payment commits as reviewed or not at all, and on a reachable ledger a prepared one does commit:
    what the ledger lists as spendable are coins of the state its mempool leads to.
  \<^item> Peer_Protocol, Peer_Staging, Peer_Sync, Peer_Http: the messages, the staging file, the walk over the
    headers of a peer (\<open>syncRemoteChainFromAtTime\<close>), the handlers that answer peers and the limits on
    concurrent requests, whose sections between locks are separate operations (\<open>limiter_run\<close>). The
    databases seen by the reads of one synchronisation are arguments, since other goroutines write
    between them.
  \<^item> Peer_Socket: one realtime connection of \<open>websocket.go\<close>, its send queue and pending
    requests, the requests it makes and those it answers; \<open>socket_run\<close> interleaves its operations.
  \<^item> Peer_Serve, Peer_Walk, Peer_Adopt, Peer_Stream: a node of this program serves
    its chain over either transport (\<open>serves_chain\<close>), and a node that synchronises with such a peer ends on
    the better chain. Peer_Props: that, and the safety against any peer, and the bounds on resources.
  EntPay.
  \<^item> Entpay_Data, Entpay_Json, Entpay_Props: \<open>protocol.go\<close>, \<open>boundary.go\<close>, \<open>handoff.go\<close>: signed fields,
    canonical JSON, tokens, launch links. Agent: the checks of the paying side. Entpay_Signed: the bytes
    signed are unambiguous for the invoices and deliveries these checks let through.
  \<^item> Gateway_Store, Gateway, Gateway_Steps, Gateway_Inv, Gateway_Props: the merchant's tables, every handler
    and worker, their interleaving with restarts, and what no step undoes. Gateway_Delivery joins it to the
    checks of the client.
  \<^item> Client_Store, Client_Manager, Client_Delivery, Client_Secure, Client_Steps, Client_Inv, Client_Props,
    Client_Safety: the sessions of the client, the operations that drive one
    from a payment link to a verified delivery, and the sealing of its secrets. \<open>Approve\<close> returns the
    call it made to the wallet together with the tables as they stood at that moment. Stages only advance, one
    transaction is journaled per session before the wallet is called, and it reaches the wallet as reviewed.

  Sample, Sample_Chain, Sample_Ledger, Gateway_Sample and Client_Sample hold the concrete inputs of the
  witnesses. Their hash function is a short digest that can be evaluated; the model does not depend on it.

  Bounds and fuel. No definition runs out of fuel on a run of the program: the queue of the mining order is
  given as many turns as it has transactions and every turn removes one; a locator ends after 64 hashes;
  the fee loop of a payment ends after \<open>MaxTransactionInputs\<close> attempts, where the code returns an
  error; the pages of headers end because each brings at least one header of at most 20000; batches of
  blocks shrink the list of headers. The loops that wait for a delivery or a confirmation recurse over the
  list of answers they are given. The mining search is a relation, and that it ends is a theorem.

  Not modelled, and why. Opening, reading and closing network connections and the decoding of JSON at each
  endpoint: library calls whose result is an argument. The token buckets of the rate limits count in
  floating point; their verdict is an argument. Start, stop and the dashboard of the node, and the wallet
  files, profiles and the encrypted vault, the lock and the atomic files of the data directory, the
  updater, the local agent, pages and the desktop application: file system, operating system and user
  interface code around the parts above.
\<close>

end
